(* ===== verification/Prelude.thy ===== *)
theory Prelude
  imports Main "HOL-Library.Word"
begin

text \<open>
  Shared vocabulary of the development: the machine types of the kernel
  (\<open>ULONG\<close> and \<open>size_t\<close> are 32 bits wide on the configured target), the numeric
  constants of the headers the kernel sources use, the theorem collections that
  carry the automation, and generic facts on lists and words.
\<close>

section \<open>Machine types\<close>

type_synonym ULONG = "32 word"
type_synonym UINT8 = "8 word"
type_synonym UINT16 = "16 word"
type_synonym tid = nat        \<comment> \<open>index of a TCB in its buffer\<close>
type_synonym eid = nat        \<comment> \<open>index of an event block in \<open>_K_eventBuffer\<close>\<close>
type_synonym cpuid = nat      \<comment> \<open>logical CPU number\<close>

section \<open>Theorem collections\<close>

named_theorems frame_simps \<open>which fields an operation leaves alone\<close>
named_theorems kdefs \<open>definitions of small kernel helpers\<close>
named_theorems kconst \<open>values of the header constants\<close>

section \<open>Lists used as rings\<close>

lemma rotate1_eq_append: "rotate1 (x # xs) = xs @ [x]"
  by simp

lemma remove1_notin_id [simp]: "x \<notin> set xs \<Longrightarrow> remove1 x xs = xs"
  by (induction xs) auto

lemma distinct_set_remove1 [simp]:
  "distinct xs \<Longrightarrow> set (remove1 x xs) = set xs - {x}"
  by (induction xs) auto

lemma remove1_hd: "xs \<noteq> [] \<Longrightarrow> remove1 (hd xs) xs = tl xs"
  by (cases xs) auto

lemma remove1_last: "\<lbrakk>distinct xs; xs \<noteq> []\<rbrakk> \<Longrightarrow> remove1 (last xs) xs = butlast xs"
proof (induction xs)
  case (Cons x xs)
  show ?case
  proof (cases "xs = []")
    case False
    then have "last xs \<noteq> x" using Cons.prems by auto
    then show ?thesis using Cons False by auto
  qed simp
qed simp

lemma length_remove1_in: "x \<in> set xs \<Longrightarrow> Suc (length (remove1 x xs)) = length xs"
  by (induction xs) auto

lemma distinct_bounded_length:
  assumes "distinct xs" "\<forall>x\<in>set xs. x < (n::nat)"
  shows "length xs \<le> n"
proof -
  have "card (set xs) \<le> card {..<n}"
    by (rule card_mono) (use assms in auto)
  then show ?thesis using distinct_card[OF assms(1)] by simp
qed

section \<open>Words\<close>

lemma word_pos_Suc_unat:
  fixes x :: "'a::len word"
  assumes "x \<noteq> 0" shows "Suc (unat (x - 1)) = unat x"
  using assms by (metis Suc_pred' gr0I unat_eq_zero unat_minus_one)

lemma unat_add1:
  fixes x :: "'a::len word"
  assumes "x < y" shows "unat (x + 1) = Suc (unat x)"
proof -
  have "unat x < unat y" using assms by (simp add: word_less_nat_alt)
  then have "Suc (unat x) < 2 ^ LENGTH('a)"
    using unsigned_less[of y] by (metis Suc_lessI less_trans not_less_eq)
  then show ?thesis by (simp add: unat_word_ariths)
qed

section \<open>Rounding (k_value.h)\<close>

unbundle bit_operations_syntax

definition ROUND_UP :: "ULONG \<Rightarrow> ULONG \<Rightarrow> ULONG" where
  "ROUND_UP x align = (x + (align - 1)) AND NOT (align - 1)"

definition ROUND_DOWN :: "ULONG \<Rightarrow> ULONG \<Rightarrow> ULONG" where
  "ROUND_DOWN x align = x AND NOT (align - 1)"

lemma and_not_mask: "x AND NOT (mask n) = push_bit n (drop_bit n x)" for x :: ULONG
proof (rule bit_word_eqI)
  fix i assume "i < LENGTH(32)"
  then show "bit (x AND NOT (mask n)) i \<longleftrightarrow> bit (push_bit n (drop_bit n x)) i"
    by (cases "n \<le> i") (auto simp: bit_simps)
qed

lemma ROUND_DOWN_pow: "unat (ROUND_DOWN x (2 ^ n)) = 2 ^ n * (unat x div 2 ^ n)"
proof -
  have d: "ROUND_DOWN x (2 ^ n) = x AND NOT (mask n)" by (simp add: ROUND_DOWN_def mask_eq_exp_minus_1)
  have "unat (push_bit n (drop_bit n x)) = take_bit 32 (push_bit n (drop_bit n (unat x)))"
    using take_bit_nat_eq_self[OF unsigned_less[where ?'a = nat, of x]]
    by (simp add: unsigned_push_bit_eq unsigned_drop_bit_eq)
  moreover have "unat x div 2 ^ n * 2 ^ n < 2 ^ 32"
    using le_less_trans[OF div_times_less_eq_dividend unsigned_less[where ?'a = nat, of x], of "2 ^ n"] by simp
  ultimately show ?thesis unfolding d and_not_mask
    by (simp add: drop_bit_eq_div push_bit_eq_mult take_bit_nat_eq_self mult.commute)
qed

lemma ROUND_UP_pow:
  assumes "unat x + (2 ^ n - 1) < 2 ^ 32" "n < 32"
  shows "unat (ROUND_UP x (2 ^ n)) = 2 ^ n * ((unat x + (2 ^ n - 1)) div 2 ^ n)"
proof -
  have "uint (mask n :: ULONG) = mask n" using assms(2) by (simp add: uint_mask_eq)
  then have "nat (uint (mask n :: ULONG)) = 2 ^ n - 1" by (simp add: mask_eq_exp_minus_1 nat_diff_distrib nat_power_eq)
  then have m: "unat (2 ^ n - 1 :: ULONG) = 2 ^ n - 1" by (simp add: mask_eq_exp_minus_1)
  have "ROUND_UP x (2 ^ n) = ROUND_DOWN (x + (2 ^ n - 1)) (2 ^ n)" by (simp add: ROUND_UP_def ROUND_DOWN_def)
  moreover have "unat (x + (2 ^ n - 1)) = unat x + (2 ^ n - 1)" using assms(1) unat_add_lem[of x "2 ^ n - 1"] m by simp
  ultimately show ?thesis by (simp only: ROUND_DOWN_pow)
qed

end
