(* ===== verification/Bitmap.thy ===== *)
theory Bitmap
  imports Prelude
begin

text \<open>
  The two-level priority bitmap of kernel/core/_BitmapLib.c and the search for the
  least significant set bit of arch/arm/common/armLib.c (the C version, used by
  cores below ARMv5 such as the configured arm920t).  The abstraction of a bitmap
  is the set of priorities it holds; \<open>BitmapHigh\<close> returns its least element, which
  is the highest priority.
\<close>

unbundle bit_operations_syntax

section \<open>Least significant bit\<close>

definition ucLsbBitmap :: "nat list" where
  "ucLsbBitmap = [
     0, 0, 1, 0, 2, 0, 1, 0, 3, 0, 1, 0, 2, 0, 1, 0, 4, 0, 1, 0, 2, 0, 1, 0, 3, 0, 1, 0, 2, 0, 1, 0,
     5, 0, 1, 0, 2, 0, 1, 0, 3, 0, 1, 0, 2, 0, 1, 0, 4, 0, 1, 0, 2, 0, 1, 0, 3, 0, 1, 0, 2, 0, 1, 0,
     6, 0, 1, 0, 2, 0, 1, 0, 3, 0, 1, 0, 2, 0, 1, 0, 4, 0, 1, 0, 2, 0, 1, 0, 3, 0, 1, 0, 2, 0, 1, 0,
     5, 0, 1, 0, 2, 0, 1, 0, 3, 0, 1, 0, 2, 0, 1, 0, 4, 0, 1, 0, 2, 0, 1, 0, 3, 0, 1, 0, 2, 0, 1, 0,
     7, 0, 1, 0, 2, 0, 1, 0, 3, 0, 1, 0, 2, 0, 1, 0, 4, 0, 1, 0, 2, 0, 1, 0, 3, 0, 1, 0, 2, 0, 1, 0,
     5, 0, 1, 0, 2, 0, 1, 0, 3, 0, 1, 0, 2, 0, 1, 0, 4, 0, 1, 0, 2, 0, 1, 0, 3, 0, 1, 0, 2, 0, 1, 0,
     6, 0, 1, 0, 2, 0, 1, 0, 3, 0, 1, 0, 2, 0, 1, 0, 4, 0, 1, 0, 2, 0, 1, 0, 3, 0, 1, 0, 2, 0, 1, 0,
     5, 0, 1, 0, 2, 0, 1, 0, 3, 0, 1, 0, 2, 0, 1, 0, 4, 0, 1, 0, 2, 0, 1, 0, 3, 0, 1, 0, 2, 0, 1, 0]"

definition archFindLsb :: "32 word \<Rightarrow> nat" where
  "archFindLsb ui32 = (let
      usMsw = (ucast (drop_bit 16 ui32) :: 16 word);
      usLsw = (ucast (ui32 AND 0xffff) :: 16 word)
    in if ui32 = 0 then 0
       else if usLsw \<noteq> 0 then
         (let ucByte = (ucast (usLsw AND 0xff) :: 8 word) in
          if ucByte \<noteq> 0 then ucLsbBitmap ! unat ucByte + 1
          else ucLsbBitmap ! unat (ucast (drop_bit 8 usLsw) :: 8 word) + 8 + 1)
       else
         (let ucByte = (ucast (usMsw AND 0xff) :: 8 word) in
          if ucByte \<noteq> 0 then ucLsbBitmap ! unat ucByte + 16 + 1
          else ucLsbBitmap ! unat (ucast (drop_bit 8 usMsw) :: 8 word) + 24 + 1))"

text \<open>\<open>lsb_at w n\<close>: bit \<open>n\<close> is the least set bit of \<open>w\<close>.\<close>

definition lsb_at :: "'a::len word \<Rightarrow> nat \<Rightarrow> bool" where
  "lsb_at w n \<longleftrightarrow> bit w n \<and> (\<forall>m<n. \<not> bit w m)"

lemma ucLsbBitmap_table:
  "list_all (\<lambda>n. let b = (word_of_nat n :: 8 word); k = ucLsbBitmap ! n in
     bit b k \<and> list_all (\<lambda>m. \<not> bit b m) [0..<k]) [1..<256]"
  by code_simp

lemma ucLsbBitmap_lsb:
  fixes b :: "8 word"
  assumes "b \<noteq> 0" shows "lsb_at b (ucLsbBitmap ! unat b)"
proof -
  have "unat b \<in> set [1..<256]"
    using assms unsigned_less[of b] by (auto simp: unat_gt_0 Suc_le_eq)
  from ucLsbBitmap_table[unfolded list_all_iff Let_def, rule_format, OF this]
  show ?thesis by (simp add: lsb_at_def)
qed

lemma lsb_at_ucast_byte:
  fixes w :: "32 word"
  assumes l: "lsb_at (ucast (drop_bit k w) :: 8 word) n" and z: "\<forall>m<k. \<not> bit w m"
  shows "lsb_at w (n + k)"
proof -
  have n8: "n < 8" using l bit_imp_le_length[of "ucast (drop_bit k w) :: 8 word" n]
    by (auto simp: lsb_at_def)
  have b: "bit w (m + k)" if "bit (ucast (drop_bit k w) :: 8 word) m" for m
    using that by (simp add: bit_simps add.commute)
  have nb: "\<not> bit w m" if "m < n + k" for m
  proof (cases "m < k")
    case False
    then have "m - k < n" using that by simp
    then have "\<not> bit (ucast (drop_bit k w) :: 8 word) (m - k)" using l by (simp add: lsb_at_def)
    then show ?thesis using False n8 \<open>m - k < n\<close> by (simp add: bit_simps)
  qed (use z in simp)
  show ?thesis using l b nb by (simp add: lsb_at_def)
qed

lemma low_bits_zero:
  fixes w :: "32 word"
  assumes "(ucast (drop_bit k w) :: 8 word) = 0" "m < k + 8" "k \<le> m"
  shows "\<not> bit w m"
proof -
  have "\<not> bit (ucast (drop_bit k w) :: 8 word) (m - k)" using assms(1) by simp
  then show ?thesis using assms(2,3) by (simp add: bit_simps)
qed

lemma halves:
  fixes w :: "32 word"
  shows "(ucast ((ucast (w AND 0xffff) :: 16 word) AND 0xff) :: 8 word) = ucast (drop_bit 0 w)"
    "(ucast (drop_bit 8 (ucast (w AND 0xffff) :: 16 word)) :: 8 word) = ucast (drop_bit 8 w)"
    "(ucast ((ucast (drop_bit 16 w) :: 16 word) AND 0xff) :: 8 word) = ucast (drop_bit 16 w)"
    "(ucast (drop_bit 8 (ucast (drop_bit 16 w) :: 16 word)) :: 8 word) = ucast (drop_bit 24 w)"
proof -
  have m: "(0xffff :: 32 word) = mask 16" "(0xff :: 16 word) = mask 8"
    by (simp_all add: mask_eq_exp_minus_1)
  show "(ucast ((ucast (w AND 0xffff) :: 16 word) AND 0xff) :: 8 word) = ucast (drop_bit 0 w)"
    "(ucast (drop_bit 8 (ucast (w AND 0xffff) :: 16 word)) :: 8 word) = ucast (drop_bit 8 w)"
    "(ucast ((ucast (drop_bit 16 w) :: 16 word) AND 0xff) :: 8 word) = ucast (drop_bit 16 w)"
    "(ucast (drop_bit 8 (ucast (drop_bit 16 w) :: 16 word)) :: 8 word) = ucast (drop_bit 24 w)"
    unfolding m by (rule bit_word_eqI; auto simp: bit_simps)+
qed

lemma low_half_zero:
  fixes w :: "32 word"
  shows "(ucast (w AND 0xffff) :: 16 word) = 0 \<longleftrightarrow>
    (ucast (drop_bit 0 w) :: 8 word) = 0 \<and> (ucast (drop_bit 8 w) :: 8 word) = 0"
proof -
  have m: "(0xffff :: 32 word) = mask 16" by (simp add: mask_eq_exp_minus_1)
  have "(\<forall>n<16. \<not> bit w n) \<longleftrightarrow> (\<forall>n<8. \<not> bit w n) \<and> (\<forall>n<8. \<not> bit w (8 + n))"
  proof safe
    fix n :: nat assume "\<forall>n<8. \<not> bit w n" "\<forall>n<8. \<not> bit w (8 + n)" "n < 16" "bit w n"
    then show False by (cases "n < 8") (auto dest: spec[of _ "n - 8"])
  qed auto
  then show ?thesis unfolding m by (auto simp: bit_eq_iff bit_simps)
qed

lemma archFindLsb_zero [simp]: "archFindLsb 0 = 0"
  by (simp add: archFindLsb_def)

lemma archFindLsb_lsb:
  assumes "w \<noteq> 0"
  shows "0 < archFindLsb w" "lsb_at w (archFindLsb w - 1)"
proof -
  let ?b = "\<lambda>k. (ucast (drop_bit k w) :: 8 word)"
  have nz: "?b 0 \<noteq> 0 \<or> ?b 8 \<noteq> 0 \<or> ?b 16 \<noteq> 0 \<or> ?b 24 \<noteq> 0"
  proof (rule ccontr)
    assume "\<not> ?thesis"
    then have b: "?b 0 = 0" "?b 8 = 0" "?b 16 = 0" "?b 24 = 0" by blast+
    have "\<not> bit w m" if "m < 32" for m
    proof -
      consider "m < 8" | "8 \<le> m" "m < 16" | "16 \<le> m" "m < 24" | "24 \<le> m" using that by linarith
      then show ?thesis
        using low_bits_zero[OF b(1), of m] low_bits_zero[OF b(2), of m]
          low_bits_zero[OF b(3), of m] low_bits_zero[OF b(4), of m] that by cases simp_all
    qed
    then have "w = 0" by (auto intro: bit_word_eqI)
    then show False using assms by simp
  qed
  show "0 < archFindLsb w"
    using assms by (auto simp: archFindLsb_def Let_def)
  have z8: "?b 0 = 0 \<Longrightarrow> \<forall>m<8. \<not> bit w m" using low_bits_zero[of 0 w] by auto
  have z16: "\<lbrakk>?b 0 = 0; ?b 8 = 0\<rbrakk> \<Longrightarrow> \<forall>m<16. \<not> bit w m"
    using z8 low_bits_zero[of 8 w] not_le by fastforce
  have z24: "\<lbrakk>?b 0 = 0; ?b 8 = 0; ?b 16 = 0\<rbrakk> \<Longrightarrow> \<forall>m<24. \<not> bit w m"
    using z16 low_bits_zero[of 16 w] not_le by fastforce
  show "lsb_at w (archFindLsb w - 1)"
    using assms nz z8 z16 z24 lsb_at_ucast_byte[OF ucLsbBitmap_lsb, of 0 w]
      lsb_at_ucast_byte[OF ucLsbBitmap_lsb, of 8 w]
      lsb_at_ucast_byte[OF ucLsbBitmap_lsb, of 16 w]
      lsb_at_ucast_byte[OF ucLsbBitmap_lsb, of 24 w]
    unfolding archFindLsb_def halves low_half_zero Let_def by (simp add: ac_simps)
qed

lemma lsb_at_unique: "\<lbrakk>lsb_at w n; lsb_at w m\<rbrakk> \<Longrightarrow> n = m"
  by (metis lsb_at_def linorder_neqE_nat)

section \<open>The priority bitmap (_BitmapLib.c)\<close>

record bmap =
  BMAP_uiMap :: "32 word"
  BMAP_uiSubMap :: "nat \<Rightarrow> 32 word"

definition BitmapInit :: bmap where
  "BitmapInit = \<lparr>BMAP_uiMap = 0, BMAP_uiSubMap = (\<lambda>_. 0)\<rparr>"

definition prio_hi :: "UINT8 \<Rightarrow> nat" where
  "prio_hi ucPriority = unat (drop_bit 5 ucPriority)"

definition prio_lo :: "UINT8 \<Rightarrow> nat" where
  "prio_lo ucPriority = unat (ucPriority AND 0x1f)"

definition BitmapAdd :: "bmap \<Rightarrow> UINT8 \<Rightarrow> bmap" where
  "BitmapAdd bm p = (let
      bm1 = bm\<lparr>BMAP_uiMap := BMAP_uiMap bm OR push_bit (prio_hi p) 1\<rparr>
    in bm1\<lparr>BMAP_uiSubMap := (BMAP_uiSubMap bm1)(prio_hi p :=
            BMAP_uiSubMap bm1 (prio_hi p) OR push_bit (prio_lo p) 1)\<rparr>)"

definition BitmapDel :: "bmap \<Rightarrow> UINT8 \<Rightarrow> bmap" where
  "BitmapDel bm p = (let
      bm1 = bm\<lparr>BMAP_uiSubMap := (BMAP_uiSubMap bm)(prio_hi p :=
            BMAP_uiSubMap bm (prio_hi p) AND NOT (push_bit (prio_lo p) 1))\<rparr>
    in if BMAP_uiSubMap bm1 (prio_hi p) = 0
       then bm1\<lparr>BMAP_uiMap := BMAP_uiMap bm1 AND NOT (push_bit (prio_hi p) 1)\<rparr>
       else bm1)"

definition BitmapHigh :: "bmap \<Rightarrow> UINT8" where
  "BitmapHigh bm = (let uiHigh = (word_of_nat (archFindLsb (BMAP_uiMap bm)) :: 32 word) in
     if uiHigh = 0 then 0
     else let uiHigh = uiHigh - 1;
              uiLow = word_of_nat (archFindLsb (BMAP_uiSubMap bm (unat uiHigh))) - 1
          in ucast (push_bit 5 uiHigh OR uiLow))"

definition BitmapIsEmpty :: "bmap \<Rightarrow> bool" where
  "BitmapIsEmpty bm = (BMAP_uiMap bm = 0)"

section \<open>Bitmaps as sets of priorities\<close>

definition bm_mem :: "bmap \<Rightarrow> UINT8 \<Rightarrow> bool" where
  "bm_mem bm p \<longleftrightarrow> bit (BMAP_uiSubMap bm (prio_hi p)) (prio_lo p)"

definition bm_wf :: "bmap \<Rightarrow> bool" where
  "bm_wf bm \<longleftrightarrow> (\<forall>i. bit (BMAP_uiMap bm) i \<longleftrightarrow> i < 8 \<and> BMAP_uiSubMap bm i \<noteq> 0)"

definition prio_of :: "nat \<Rightarrow> nat \<Rightarrow> UINT8" where
  "prio_of h l = ucast (push_bit 5 (word_of_nat h) OR word_of_nat l :: 32 word)"

lemma prio_of_split_all:
  "list_all (\<lambda>h. list_all (\<lambda>l. let p = prio_of h l in
     unat p = 32 * h + l \<and> prio_hi p = h \<and> prio_lo p = l) [0..<32]) [0..<8]"
  by code_simp

lemma prio_of_split:
  assumes "h < 8" "l < 32"
  shows "unat (prio_of h l) = 32 * h + l" "prio_hi (prio_of h l) = h" "prio_lo (prio_of h l) = l"
  using prio_of_split_all assms by (auto simp: list_all_iff Let_def)

lemma prio_split_all:
  "list_all (\<lambda>n. let p = (word_of_nat n :: 8 word) in
     prio_hi p < 8 \<and> prio_lo p < 32 \<and> n = 32 * prio_hi p + prio_lo p) [0..<256]"
  by code_simp

lemma prio_split:
  shows "prio_hi p < 8" "prio_lo p < 32" "unat p = 32 * prio_hi p + prio_lo p"
proof -
  have "unat p \<in> set [0..<256]" using unsigned_less[of p] by simp
  then show "prio_hi p < 8" "prio_lo p < 32" "unat p = 32 * prio_hi p + prio_lo p"
    using prio_split_all by (force simp: list_all_iff Let_def)+
qed

lemma prio_eq_iff: "p = q \<longleftrightarrow> prio_hi p = prio_hi q \<and> prio_lo p = prio_lo q"
  using prio_split(3)[of p] prio_split(3)[of q] by (metis unsigned_word_eqI)

lemma bm_wf_Init [simp]: "bm_wf BitmapInit"
  by (simp add: bm_wf_def BitmapInit_def)

lemma bm_mem_Init [simp]: "\<not> bm_mem BitmapInit p"
  by (simp add: bm_mem_def BitmapInit_def)

lemma bit_pow2: "bit (2 ^ n :: 32 word) m \<longleftrightarrow> m = n \<and> n < 32"
  by (auto simp: bit_simps)

lemma SubMap_Del [simp]: "BMAP_uiSubMap (BitmapDel bm p) = (BMAP_uiSubMap bm)(prio_hi p :=
    BMAP_uiSubMap bm (prio_hi p) AND NOT (2 ^ prio_lo p))"
  by (simp add: BitmapDel_def Let_def)

lemma Map_Del: "BMAP_uiMap (BitmapDel bm p) =
    (if BMAP_uiSubMap (BitmapDel bm p) (prio_hi p) = 0
     then BMAP_uiMap bm AND NOT (2 ^ prio_hi p) else BMAP_uiMap bm)"
  by (simp add: BitmapDel_def Let_def)

lemma SubMap_Add [simp]: "BMAP_uiSubMap (BitmapAdd bm p) = (BMAP_uiSubMap bm)(prio_hi p :=
    BMAP_uiSubMap bm (prio_hi p) OR 2 ^ prio_lo p)"
  by (simp add: BitmapAdd_def)

lemma Map_Add: "BMAP_uiMap (BitmapAdd bm p) = BMAP_uiMap bm OR 2 ^ prio_hi p"
  by (simp add: BitmapAdd_def)

lemma bm_mem_Add [simp]: "bm_mem (BitmapAdd bm p) q \<longleftrightarrow> q = p \<or> bm_mem bm q"
  using prio_split(2)[of p] prio_split(2)[of q]
  by (auto simp: bm_mem_def bit_or_iff bit_pow2 prio_eq_iff)

lemma bm_wf_Add [simp]:
  assumes "bm_wf bm" shows "bm_wf (BitmapAdd bm p)"
proof -
  have "bit (BMAP_uiSubMap bm (prio_hi p) OR 2 ^ prio_lo p) (prio_lo p)"
    using prio_split(2)[of p] by (simp add: bit_or_iff bit_pow2)
  then have "BMAP_uiSubMap bm (prio_hi p) OR 2 ^ prio_lo p \<noteq> 0" by force
  then show ?thesis using assms prio_split(1)[of p]
    by (auto simp: bm_wf_def Map_Add bit_or_iff bit_pow2)
qed

lemma bm_mem_Del [simp]: "bm_mem (BitmapDel bm p) q \<longleftrightarrow> q \<noteq> p \<and> bm_mem bm q"
  using prio_split(2)[of p] prio_split(2)[of q]
  by (auto simp: bm_mem_def bit_and_iff bit_not_iff bit_pow2 prio_eq_iff)

lemma bm_wf_Del [simp]:
  assumes "bm_wf bm" shows "bm_wf (BitmapDel bm p)"
proof -
  have "bit (BMAP_uiMap (BitmapDel bm p)) i \<longleftrightarrow> i < 8 \<and> BMAP_uiSubMap (BitmapDel bm p) i \<noteq> 0" for i
  proof (cases "i = prio_hi p")
    case True
    have "BMAP_uiSubMap bm i \<noteq> 0" if "BMAP_uiSubMap (BitmapDel bm p) i \<noteq> 0"
      using that True by auto
    then show ?thesis using assms True prio_split(1)[of p]
      by (cases "BMAP_uiSubMap (BitmapDel bm p) i = 0")
        (simp_all add: bm_wf_def Map_Del bit_and_iff bit_not_iff bit_pow2)
  next
    case False
    then have "bit (BMAP_uiMap (BitmapDel bm p)) i = bit (BMAP_uiMap bm) i"
      using bit_imp_le_length[of "BMAP_uiMap bm" i]
      by (auto simp: Map_Del bit_and_iff bit_not_iff bit_pow2)
    then show ?thesis using assms False by (simp add: bm_wf_def)
  qed
  then show ?thesis by (simp add: bm_wf_def)
qed

lemma bm_mem_nonempty: "\<lbrakk>bm_wf bm; bm_mem bm p\<rbrakk> \<Longrightarrow> \<not> BitmapIsEmpty bm"
  using prio_split(1)[of p] by (fastforce simp: bm_wf_def BitmapIsEmpty_def bm_mem_def)

lemma bm_High_mem:
  assumes wf: "bm_wf bm" and ne: "\<not> BitmapIsEmpty bm"
  shows "bm_mem bm (BitmapHigh bm)" "bm_mem bm q \<Longrightarrow> BitmapHigh bm \<le> q"
proof -
  let ?m = "BMAP_uiMap bm"
  define h where "h = archFindLsb ?m - 1"
  have nz: "?m \<noteq> 0" using ne by (simp add: BitmapIsEmpty_def)
  have lh: "lsb_at ?m h" "archFindLsb ?m = Suc h"
    using archFindLsb_lsb[OF nz] by (simp_all add: h_def)
  have h8: "h < 8" and sz: "BMAP_uiSubMap bm h \<noteq> 0"
    using lh wf by (auto simp: lsb_at_def bm_wf_def)
  define l where "l = archFindLsb (BMAP_uiSubMap bm h) - 1"
  have ll: "lsb_at (BMAP_uiSubMap bm h) l" "archFindLsb (BMAP_uiSubMap bm h) = Suc l"
    using archFindLsb_lsb[OF sz] by (simp_all add: l_def)
  have l32: "l < 32" using ll(1) bit_imp_le_length by (fastforce simp: lsb_at_def)
  have "unat (word_of_nat (Suc h) - 1 :: 32 word) = h"
    using h8 by (simp add: unat_of_nat)
  moreover have "(word_of_nat (Suc h) :: 32 word) \<noteq> 0"
    using h8 word_of_nat_eq_0_iff[of "Suc h", where 'a=32] by (auto dest: dvd_imp_le)
  ultimately have High: "BitmapHigh bm = prio_of h l"
    using lh(2) ll(2) by (simp add: BitmapHigh_def prio_of_def Let_def del: of_nat_Suc)
      (simp add: of_nat_Suc)
  show "bm_mem bm (BitmapHigh bm)"
    using ll(1) prio_of_split[OF h8 l32] by (simp add: High bm_mem_def lsb_at_def)
  assume q: "bm_mem bm q"
  have "BMAP_uiSubMap bm (prio_hi q) \<noteq> 0" using q by (auto simp: bm_mem_def)
  then have "bit ?m (prio_hi q)" using wf prio_split(1)[of q] by (simp add: bm_wf_def)
  then have hq: "h \<le> prio_hi q" using lh(1) by (metis lsb_at_def not_le_imp_less)
  have "prio_hi q = h \<Longrightarrow> l \<le> prio_lo q"
    using ll(1) q by (metis bm_mem_def lsb_at_def not_le_imp_less)
  then have "unat (prio_of h l) \<le> unat q"
    unfolding prio_split(3)[of q] prio_of_split(1)[OF h8 l32]
    using hq l32 by (cases "prio_hi q = h") auto
  then show "BitmapHigh bm \<le> q" by (simp add: High word_le_nat_alt)
qed

end
