(* ===== verification/List_Link.thy ===== *)
theory List_Link
  imports Prelude
begin

text \<open>
  Intrusive links of kernel/list: the doubly linked ring (\<open>LW_LIST_RING\<close>), the doubly
  linked line (\<open>LW_LIST_LINE\<close>) and the singly linked free list (\<open>LW_LIST_MONO\<close>).
  The pointer level has one link map per field; \<open>LW_NULL\<close> is \<open>None\<close>.  The list level
  gives every routine a function on HOL lists, and the refinement lemmas state
  that the pointer routines implement it.  The other theories of the development
  use the list level.
\<close>

section \<open>Rings at pointer level (listLink.c, listOp.h)\<close>

record 'a ring_heap =
  RING_plistNext :: "'a \<Rightarrow> 'a option"
  RING_plistPrev :: "'a \<Rightarrow> 'a option"

type_synonym 'a ring_st = "'a ring_heap \<times> 'a option"

definition set_rnext :: "'a \<Rightarrow> 'a option \<Rightarrow> 'a ring_heap \<Rightarrow> 'a ring_heap" where
  "set_rnext p v h = h\<lparr>RING_plistNext := (RING_plistNext h)(p := v)\<rparr>"

definition set_rprev :: "'a \<Rightarrow> 'a option \<Rightarrow> 'a ring_heap \<Rightarrow> 'a ring_heap" where
  "set_rprev p v h = h\<lparr>RING_plistPrev := (RING_plistPrev h)(p := v)\<rparr>"

lemma set_rnext_simps [simp]:
  "RING_plistNext (set_rnext p v h) = (RING_plistNext h)(p := v)"
  "RING_plistPrev (set_rnext p v h) = RING_plistPrev h"
  by (simp_all add: set_rnext_def)

lemma set_rprev_simps [simp]:
  "RING_plistPrev (set_rprev p v h) = (RING_plistPrev h)(p := v)"
  "RING_plistNext (set_rprev p v h) = RING_plistNext h"
  by (simp_all add: set_rprev_def)

definition INIT_LIST_RING_HEAD :: "'a \<Rightarrow> 'a ring_heap \<Rightarrow> 'a ring_heap" where
  "INIT_LIST_RING_HEAD p h = set_rprev p None (set_rnext p None h)"

definition List_Ring_Add_Ahead :: "'a \<Rightarrow> 'a ring_st \<Rightarrow> 'a ring_st" where
  "List_Ring_Add_Ahead n st = (let (h, hdr) = st in
     case hdr of
       Some x \<Rightarrow>
         (let h1 = set_rnext n (Some x) h;
              h2 = set_rprev n (RING_plistPrev h1 x) h1;
              h3 = set_rnext (the (RING_plistPrev h2 x)) (Some n) h2;
              h4 = set_rprev x (Some n) h3
          in (h4, Some n))
     | None \<Rightarrow> (set_rnext n (Some n) (set_rprev n (Some n) h), Some n))"

definition List_Ring_Add_Front :: "'a \<Rightarrow> 'a ring_st \<Rightarrow> 'a ring_st" where
  "List_Ring_Add_Front n st = (let (h, hdr) = st in
     case hdr of
       Some x \<Rightarrow>
         (let h1 = set_rprev n (Some x) h;
              h2 = set_rnext n (RING_plistNext h1 x) h1;
              h3 = set_rprev (the (RING_plistNext h2 x)) (Some n) h2;
              h4 = set_rnext x (Some n) h3
          in (h4, Some x))
     | None \<Rightarrow> (set_rnext n (Some n) (set_rprev n (Some n) h), Some n))"

definition List_Ring_Add_Last :: "'a \<Rightarrow> 'a ring_st \<Rightarrow> 'a ring_st" where
  "List_Ring_Add_Last n st = (let (h, hdr) = st in
     case hdr of
       Some x \<Rightarrow>
         (let h1 = set_rnext (the (RING_plistPrev h x)) (Some n) h;
              h2 = set_rprev n (RING_plistPrev h1 x) h1;
              h3 = set_rnext n (Some x) h2;
              h4 = set_rprev x (Some n) h3
          in (h4, Some x))
     | None \<Rightarrow> (set_rnext n (Some n) (set_rprev n (Some n) h), Some n))"

definition List_Ring_Del :: "'a \<Rightarrow> 'a ring_st \<Rightarrow> 'a ring_st" where
  "List_Ring_Del d st = (let (h, hdr) = st in
     if RING_plistNext h d = Some d then (INIT_LIST_RING_HEAD d h, None)
     else
       let hdr' = (if hdr = Some d then RING_plistNext h d else hdr);
           p   = the (RING_plistPrev h d);
           h1  = set_rnext p (RING_plistNext h d) h;
           h2  = set_rprev (the (RING_plistNext h1 d)) (Some p) h1
       in (INIT_LIST_RING_HEAD d h2, hdr'))"

definition list_ring_next :: "'a ring_st \<Rightarrow> 'a ring_st" where
  "list_ring_next st = (let (h, hdr) = st in (h, RING_plistNext h (the hdr)))"

section \<open>Rings as lists\<close>

text \<open>A ring is read from its header in \<open>RING_plistNext\<close> order.\<close>

fun ring_add_ahead :: "'a \<Rightarrow> 'a list \<Rightarrow> 'a list" where
  "ring_add_ahead n xs = n # xs"

fun ring_add_front :: "'a \<Rightarrow> 'a list \<Rightarrow> 'a list" where
  "ring_add_front n [] = [n]"
| "ring_add_front n (x # xs) = x # n # xs"

fun ring_add_last :: "'a \<Rightarrow> 'a list \<Rightarrow> 'a list" where
  "ring_add_last n xs = xs @ [n]"

fun ring_del :: "'a \<Rightarrow> 'a list \<Rightarrow> 'a list" where
  "ring_del d xs = remove1 d xs"

fun ring_next :: "'a list \<Rightarrow> 'a list" where
  "ring_next xs = rotate1 xs"

lemma set_ring_ops [simp]:
  "set (ring_add_front n xs) = insert n (set xs)"
  "set (ring_next xs) = set xs"
  by (cases xs; auto)+

lemma distinct_ring_add_front [simp]:
  "distinct (ring_add_front n xs) = (n \<notin> set xs \<and> distinct xs)"
  by (cases xs) auto

lemma length_ring_add_front [simp]:
  "length (ring_add_front n xs) = Suc (length xs)"
  by (cases xs) auto

lemma ring_add_front_neq_Nil [simp]: "ring_add_front n xs \<noteq> []"
  by (cases xs) auto

section \<open>Refinement of the ring routines\<close>

definition rlink :: "'a ring_heap \<Rightarrow> 'a \<Rightarrow> 'a \<Rightarrow> bool" where
  "rlink h a b \<longleftrightarrow> RING_plistNext h a = Some b \<and> RING_plistPrev h b = Some a"

fun rpath :: "'a ring_heap \<Rightarrow> 'a \<Rightarrow> 'a list \<Rightarrow> 'a \<Rightarrow> bool" where
  "rpath h a [] b = rlink h a b"
| "rpath h a (x # xs) b = (rlink h a x \<and> rpath h x xs b)"

definition ring_rep :: "'a ring_st \<Rightarrow> 'a list \<Rightarrow> bool" where
  "ring_rep st xs \<longleftrightarrow> (case xs of
      [] \<Rightarrow> snd st = None
    | x # ys \<Rightarrow> snd st = Some x \<and> distinct xs \<and> rpath (fst st) x ys x)"

lemma rpath_append [simp]:
  "rpath h a (xs @ y # ys) b \<longleftrightarrow> rpath h a xs y \<and> rpath h y ys b"
  by (induction xs arbitrary: a) auto

text \<open>A path only reads the next field of its start and inner nodes and the prev
  field of its inner nodes and end.\<close>

lemma rpath_cong:
  assumes "rpath h a xs b"
    and "\<forall>x\<in>insert a (set xs). RING_plistNext h' x = RING_plistNext h x"
    and "\<forall>x\<in>insert b (set xs). RING_plistPrev h' x = RING_plistPrev h x"
  shows "rpath h' a xs b"
  using assms by (induction xs arbitrary: a) (auto simp: rlink_def)

lemma rpath_first: "rpath h a xs b \<Longrightarrow> RING_plistNext h a = Some (hd (xs @ [b]))"
  by (cases xs) (auto simp: rlink_def)

lemma rpath_last: "rpath h a xs b \<Longrightarrow> RING_plistPrev h b = Some (last (a # xs))"
  by (cases xs rule: rev_cases) (auto simp: rlink_def)

lemma ring_rep_Add_Ahead:
  assumes r: "ring_rep (h, hdr) xs" and n: "n \<notin> set xs"
  shows "ring_rep (List_Ring_Add_Ahead n (h, hdr)) (ring_add_ahead n xs)"
proof (cases xs)
  case Nil
  then show ?thesis using r
    by (auto simp: ring_rep_def List_Ring_Add_Ahead_def rlink_def)
next
  case (Cons x ys)
  with r have p: "rpath h x ys x" and hdr: "hdr = Some x" and d: "distinct (x # ys)"
    by (auto simp: ring_rep_def)
  show ?thesis
  proof (cases ys rule: rev_cases)
    case Nil
    then show ?thesis using p hdr n Cons
      by (auto simp: ring_rep_def List_Ring_Add_Ahead_def rlink_def)
  next
    case (snoc zs z)
    with p have pz: "rpath h x zs z" and pv: "RING_plistPrev h x = Some z"
      by (auto simp: rlink_def)
    let ?h = "fst (List_Ring_Add_Ahead n (h, hdr))"
    have "rpath ?h x zs z"
      by (rule rpath_cong[OF pz])
        (use d n Cons snoc hdr pv in \<open>auto simp: List_Ring_Add_Ahead_def\<close>)
    moreover have "rlink ?h n x" "rlink ?h z n"
      using d n Cons snoc hdr pv by (auto simp: List_Ring_Add_Ahead_def rlink_def)
    ultimately show ?thesis
      using d n Cons snoc hdr by (auto simp: ring_rep_def List_Ring_Add_Ahead_def)
  qed
qed

lemma ring_rep_Add_Last:
  assumes r: "ring_rep (h, hdr) xs" and n: "n \<notin> set xs"
  shows "ring_rep (List_Ring_Add_Last n (h, hdr)) (ring_add_last n xs)"
proof (cases xs)
  case Nil
  then show ?thesis using r
    by (auto simp: ring_rep_def List_Ring_Add_Last_def rlink_def)
next
  case (Cons x ys)
  with r have p: "rpath h x ys x" and hdr: "hdr = Some x" and d: "distinct (x # ys)"
    by (auto simp: ring_rep_def)
  show ?thesis
  proof (cases ys rule: rev_cases)
    case Nil
    then show ?thesis using p hdr n Cons
      by (auto simp: ring_rep_def List_Ring_Add_Last_def rlink_def)
  next
    case (snoc zs z)
    with p have pz: "rpath h x zs z" and pv: "RING_plistPrev h x = Some z"
      by (auto simp: rlink_def)
    let ?h = "fst (List_Ring_Add_Last n (h, hdr))"
    have "rpath ?h x zs z"
      by (rule rpath_cong[OF pz])
        (use d n Cons snoc hdr pv in \<open>auto simp: List_Ring_Add_Last_def\<close>)
    moreover have "rlink ?h n x" "rlink ?h z n"
      using d n Cons snoc hdr pv by (auto simp: List_Ring_Add_Last_def rlink_def)
    ultimately show ?thesis
      using d n Cons snoc hdr by (auto simp: ring_rep_def List_Ring_Add_Last_def)
  qed
qed

lemma ring_rep_Add_Front:
  assumes r: "ring_rep (h, hdr) xs" and n: "n \<notin> set xs"
  shows "ring_rep (List_Ring_Add_Front n (h, hdr)) (ring_add_front n xs)"
proof (cases xs)
  case Nil
  then show ?thesis using r
    by (auto simp: ring_rep_def List_Ring_Add_Front_def rlink_def)
next
  case (Cons x ys)
  with r have p: "rpath h x ys x" and hdr: "hdr = Some x" and d: "distinct (x # ys)"
    by (auto simp: ring_rep_def)
  show ?thesis
  proof (cases ys)
    case Nil
    then show ?thesis using p hdr n Cons
      by (auto simp: ring_rep_def List_Ring_Add_Front_def rlink_def)
  next
    case (Cons z zs)
    with p have pz: "rpath h z zs x" and nx: "RING_plistNext h x = Some z"
      by (auto simp: rlink_def)
    let ?h = "fst (List_Ring_Add_Front n (h, hdr))"
    have "rpath ?h z zs x"
      by (rule rpath_cong[OF pz])
        (use d n \<open>xs = x # ys\<close> Cons hdr nx in \<open>auto simp: List_Ring_Add_Front_def\<close>)
    moreover have "rlink ?h x n" "rlink ?h n z"
      using d n \<open>xs = x # ys\<close> Cons hdr nx
      by (auto simp: List_Ring_Add_Front_def rlink_def)
    ultimately show ?thesis
      using d n \<open>xs = x # ys\<close> Cons hdr
      by (auto simp: ring_rep_def List_Ring_Add_Front_def)
  qed
qed

text \<open>Deletion: the node is the only one, the header, or an inner node.\<close>

lemma ring_rep_Del_header:
  assumes r: "ring_rep (h, hdr) (x # z # zs)"
  shows "ring_rep (List_Ring_Del x (h, hdr)) (z # zs)"
proof -
  from r have p: "rpath h z zs x" and l: "rlink h x z" and hdr: "hdr = Some x"
    and d: "distinct (x # z # zs)" by (auto simp: ring_rep_def)
  have pv: "RING_plistPrev h x = Some (last (z # zs))" by (rule rpath_last[OF p])
  have ne: "last (z # zs) \<noteq> x" using d by (metis distinct.simps(2) last_in_set list.distinct(1))
  let ?h = "fst (List_Ring_Del x (h, hdr))"
  show ?thesis
  proof (cases zs rule: rev_cases)
    case Nil
    then show ?thesis using l hdr d pv
      by (auto simp: ring_rep_def List_Ring_Del_def rlink_def INIT_LIST_RING_HEAD_def)
  next
    case (snoc ws w)
    with p have pw: "rpath h z ws w" by simp
    have "rpath ?h z ws w"
      by (rule rpath_cong[OF pw])
        (use d snoc hdr pv l in \<open>auto simp: List_Ring_Del_def rlink_def INIT_LIST_RING_HEAD_def\<close>)
    moreover have "rlink ?h w z"
      using d snoc hdr pv l ne by (auto simp: List_Ring_Del_def rlink_def INIT_LIST_RING_HEAD_def)
    ultimately show ?thesis
      using d snoc hdr l by (auto simp: ring_rep_def List_Ring_Del_def rlink_def Let_def)
  qed
qed

lemma ring_rep_Del_inner:
  assumes r: "ring_rep (h, hdr) (x # us @ y # bs)"
  shows "ring_rep (List_Ring_Del y (h, hdr)) (x # us @ bs)"
proof -
  from r have p1: "rpath h x us y" and p2: "rpath h y bs x" and hdr: "hdr = Some x"
    and d: "distinct (x # us @ y # bs)" by (auto simp: ring_rep_def)
  let ?p = "last (x # us)" and ?n = "hd (bs @ [x])"
  let ?h = "fst (List_Ring_Del y (h, hdr))"
  have pv: "RING_plistPrev h y = Some ?p" by (rule rpath_last[OF p1])
  have nx: "RING_plistNext h y = Some ?n" by (rule rpath_first[OF p2])
  have nn: "?n \<noteq> y" "?p \<noteq> y" using d by (cases bs; cases us rule: rev_cases; auto)+
  have h: "RING_plistNext ?h = (RING_plistNext h)(?p := Some ?n, y := None)"
     "RING_plistPrev ?h = (RING_plistPrev h)(?n := Some ?p, y := None)"
     "snd (List_Ring_Del y (h, hdr)) = Some x"
    using pv nx nn d hdr by (auto simp: List_Ring_Del_def INIT_LIST_RING_HEAD_def Let_def fun_eq_iff)
  have "rpath ?h x (us @ bs) x"
  proof (cases us rule: rev_cases)
    case Nil
    show ?thesis
    proof (cases bs)
      case Nil
      then show ?thesis using h d \<open>us = []\<close> by (auto simp: rlink_def)
    next
      case (Cons b cs)
      with p2 have pc: "rpath h b cs x" by simp
      have "rpath ?h b cs x"
        by (rule rpath_cong[OF pc]) (use d h \<open>us = []\<close> Cons in auto)
      then show ?thesis using h d \<open>us = []\<close> Cons by (auto simp: rlink_def)
    qed
  next
    case (snoc us' a)
    with p1 have pa: "rpath h x us' a" by simp
    have fr: "?n \<notin> insert a (set us')" "y \<notin> insert a (set us')"
      "?p \<notin> insert x (set us')" "y \<noteq> x"
      using d snoc by (cases bs; auto)+
    have pa': "rpath ?h x us' a"
      by (rule rpath_cong[OF pa]) (use fr in \<open>auto simp: h\<close>)
    show ?thesis
    proof (cases bs)
      case Nil
      then show ?thesis using h d snoc pa' by (auto simp: rlink_def)
    next
      case (Cons b cs)
      with p2 have pc: "rpath h b cs x" by simp
      have "rpath ?h b cs x"
        by (rule rpath_cong[OF pc]) (use d h snoc Cons in auto)
      then show ?thesis using h d snoc Cons pa' by (auto simp: rlink_def)
    qed
  qed
  then show ?thesis using d h(3) by (auto simp: ring_rep_def)
qed

lemma ring_rep_Del:
  assumes r: "ring_rep (h, hdr) xs" and y: "y \<in> set xs"
  shows "ring_rep (List_Ring_Del y (h, hdr)) (ring_del y xs)"
proof (cases xs)
  case Nil
  then show ?thesis using y by simp
next
  case (Cons x ys)
  consider "y = x" "ys = []" | z zs where "y = x" "ys = z # zs" | "y \<noteq> x"
    by (cases ys) auto
  then show ?thesis
  proof cases
    case 1
    then show ?thesis using r Cons
      by (auto simp: ring_rep_def List_Ring_Del_def rlink_def)
  next
    case 2
    then show ?thesis using ring_rep_Del_header[of h hdr x z zs] r Cons by simp
  next
    case 3
    then obtain us bs where ab: "ys = us @ y # bs" "y \<notin> set us"
      using y Cons split_list_first[of y ys] by auto
    then have "remove1 y xs = x # us @ bs" using 3 Cons by (simp add: remove1_append)
    then show ?thesis using ring_rep_Del_inner[of h hdr x us y bs] r Cons ab by simp
  qed
qed

lemma ring_rep_next:
  assumes r: "ring_rep (h, hdr) xs" and "xs \<noteq> []"
  shows "ring_rep (list_ring_next (h, hdr)) (ring_next xs)"
proof (cases xs)
  case (Cons x ys)
  then show ?thesis using r
    by (cases ys) (auto simp: ring_rep_def list_ring_next_def rlink_def)
qed (use assms in simp)

lemma ring_rep_prev_last:
  assumes "ring_rep (h, hdr) xs" "xs \<noteq> []"
  shows "RING_plistPrev h (the hdr) = Some (last xs)"
  using assms rpath_last by (cases xs) (fastforce simp: ring_rep_def)+

end
