(* ===== verification/Line_Link.thy ===== *)
theory Line_Link
  imports Prelude
begin

text \<open>
  The doubly linked line (\<open>LW_LIST_LINE\<close>) and the free lists (\<open>LW_LIST_MONO\<close>) of
  kernel/list, at pointer level and as HOL lists, with the refinement between
  the two.  The wake-up lines and the resource pools use the list level.
\<close>

section \<open>Lines at pointer level (listLink.c)\<close>

record 'a line_heap =
  LINE_plistNext :: "'a \<Rightarrow> 'a option"
  LINE_plistPrev :: "'a \<Rightarrow> 'a option"

type_synonym 'a line_st = "'a line_heap \<times> 'a option"

definition set_lnext :: "'a \<Rightarrow> 'a option \<Rightarrow> 'a line_heap \<Rightarrow> 'a line_heap" where
  "set_lnext p v h = h\<lparr>LINE_plistNext := (LINE_plistNext h)(p := v)\<rparr>"

definition set_lprev :: "'a \<Rightarrow> 'a option \<Rightarrow> 'a line_heap \<Rightarrow> 'a line_heap" where
  "set_lprev p v h = h\<lparr>LINE_plistPrev := (LINE_plistPrev h)(p := v)\<rparr>"

lemma set_lnext_simps [simp]:
  "LINE_plistNext (set_lnext p v h) = (LINE_plistNext h)(p := v)"
  "LINE_plistPrev (set_lnext p v h) = LINE_plistPrev h"
  by (simp_all add: set_lnext_def)

lemma set_lprev_simps [simp]:
  "LINE_plistPrev (set_lprev p v h) = (LINE_plistPrev h)(p := v)"
  "LINE_plistNext (set_lprev p v h) = LINE_plistNext h"
  by (simp_all add: set_lprev_def)

definition List_Line_Add_Ahead :: "'a \<Rightarrow> 'a line_st \<Rightarrow> 'a line_st" where
  "List_Line_Add_Ahead n st = (let (h, hdr) = st;
      h1 = set_lprev n None (set_lnext n hdr h);
      h2 = (case hdr of Some x \<Rightarrow> set_lprev x (Some n) h1 | None \<Rightarrow> h1)
    in (h2, Some n))"

definition List_Line_Add_Tail :: "'a \<Rightarrow> 'a line_st \<Rightarrow> 'a line_st" where
  "List_Line_Add_Tail n st = (let (h, hdr) = st in
     case hdr of
       Some x \<Rightarrow>
         (case LINE_plistNext h x of
            Some y \<Rightarrow>
              (let h1 = set_lnext n (LINE_plistNext h x) h;
                   h2 = set_lprev n (Some x) h1;
                   h3 = set_lprev y (Some n) h2;
                   h4 = set_lnext x (Some n) h3
               in (h4, hdr))
          | None \<Rightarrow>
              (let h1 = set_lnext x (Some n) h;
                   h2 = set_lprev n (Some x) h1;
                   h3 = set_lnext n None h2
               in (h3, hdr)))
     | None \<Rightarrow> (set_lnext n None (set_lprev n None h), Some n))"

definition List_Line_Add_Left :: "'a \<Rightarrow> 'a \<Rightarrow> 'a line_heap \<Rightarrow> 'a line_heap" where
  "List_Line_Add_Left n r h = (let left = LINE_plistPrev h r;
      h1 = set_lprev n left (set_lnext n (Some r) h);
      h2 = (case left of Some l \<Rightarrow> set_lnext l (Some n) h1 | None \<Rightarrow> h1)
    in set_lprev r (Some n) h2)"

definition List_Line_Add_Right :: "'a \<Rightarrow> 'a \<Rightarrow> 'a line_heap \<Rightarrow> 'a line_heap" where
  "List_Line_Add_Right n l h = (let right = LINE_plistNext h l;
      h1 = set_lprev n (Some l) (set_lnext n right h);
      h2 = (case right of Some r \<Rightarrow> set_lprev r (Some n) h1 | None \<Rightarrow> h1)
    in set_lnext l (Some n) h2)"

definition List_Line_Del :: "'a \<Rightarrow> 'a line_st \<Rightarrow> 'a line_st" where
  "List_Line_Del d st = (let (h, hdr) = st;
      (h1, hdr1) = (case LINE_plistPrev h d of
          None \<Rightarrow> (h, LINE_plistNext h d)
        | Some p \<Rightarrow> (set_lnext p (LINE_plistNext h d) h, hdr));
      h2 = (case LINE_plistNext h1 d of
          Some x \<Rightarrow> set_lprev x (LINE_plistPrev h1 d) h1
        | None \<Rightarrow> h1)
    in (h2, hdr1))"

section \<open>Lines as lists\<close>

fun line_add_tail :: "'a \<Rightarrow> 'a list \<Rightarrow> 'a list" where
  "line_add_tail n [] = [n]"
| "line_add_tail n (x # xs) = x # n # xs"

fun line_add_left :: "'a \<Rightarrow> 'a \<Rightarrow> 'a list \<Rightarrow> 'a list" where
  "line_add_left n r [] = []"
| "line_add_left n r (x # xs) = (if x = r then n # x # xs else x # line_add_left n r xs)"

fun line_add_right :: "'a \<Rightarrow> 'a \<Rightarrow> 'a list \<Rightarrow> 'a list" where
  "line_add_right n l [] = []"
| "line_add_right n l (x # xs) = (if x = l then x # n # xs else x # line_add_right n l xs)"

section \<open>Refinement of the line routines\<close>

definition hd_opt :: "'a list \<Rightarrow> 'a option \<Rightarrow> 'a option" where
  "hd_opt xs q = (case xs of [] \<Rightarrow> q | x # _ \<Rightarrow> Some x)"

lemma hd_opt_simps [simp]: "hd_opt [] q = q" "hd_opt (x # xs) q = Some x"
  by (simp_all add: hd_opt_def)

lemma hd_opt_append [simp]: "hd_opt (xs @ ys) q = hd_opt xs (hd_opt ys q)"
  by (cases xs) auto

lemma hd_opt_default: "xs \<noteq> [] \<Longrightarrow> hd_opt xs q = Some (hd xs)"
  by (cases xs) auto

fun lseg :: "'a line_heap \<Rightarrow> 'a option \<Rightarrow> 'a list \<Rightarrow> 'a option \<Rightarrow> bool" where
  "lseg h p [] q = True"
| "lseg h p (x # xs) q = (LINE_plistPrev h x = p
     \<and> LINE_plistNext h x = hd_opt xs q
     \<and> lseg h (Some x) xs q)"

text \<open>\<open>lseg h p xs q\<close>: \<open>xs\<close> is a stretch of a line between the neighbours \<open>p\<close> and \<open>q\<close>.\<close>

definition line_rep :: "'a line_st \<Rightarrow> 'a list \<Rightarrow> bool" where
  "line_rep st xs \<longleftrightarrow> distinct xs \<and> lseg (fst st) None xs None
     \<and> snd st = hd_opt xs None"

definition last_opt :: "'a option \<Rightarrow> 'a list \<Rightarrow> 'a option" where
  "last_opt p xs = (if xs = [] then p else Some (last xs))"

lemma last_opt_simps [simp]:
  "last_opt p [] = p" "last_opt p (x # xs) = last_opt (Some x) xs"
  by (simp_all add: last_opt_def)

lemma lseg_append:
  "lseg h p (xs @ ys) q \<longleftrightarrow> lseg h p xs (hd_opt ys q) \<and> lseg h (last_opt p xs) ys q"
proof (induction xs arbitrary: p)
  case (Cons x xs)
  then show ?case by (cases xs; cases ys) auto
qed (cases ys; simp)

lemma lseg_cong:
  assumes "lseg h p xs q"
    and "\<forall>x\<in>set xs. LINE_plistNext h' x = LINE_plistNext h x \<and> LINE_plistPrev h' x = LINE_plistPrev h x"
  shows "lseg h' p xs q"
  using assms by (induction xs arbitrary: p) auto

lemma lseg_cong_ends:
  assumes "lseg h p xs q" "xs \<noteq> []" "distinct xs"
    and "\<forall>x\<in>set xs. LINE_plistNext h' x = (if x = last xs then q' else LINE_plistNext h x)"
    and "\<forall>x\<in>set xs. LINE_plistPrev h' x = (if x = hd xs then p' else LINE_plistPrev h x)"
  shows "lseg h' p' xs q'"
  using assms
proof (induction xs arbitrary: p p')
  case (Cons x xs)
  show ?case
  proof (cases xs)
    case Nil
    then show ?thesis using Cons.prems by auto
  next
    case (Cons y ys)
    have d: "x \<notin> set xs" "distinct xs" "xs \<noteq> []" using Cons.prems(3) Cons by auto
    have n: "LINE_plistNext h' z = (if z = last xs then q' else LINE_plistNext h z)"
      if "z \<in> set xs" for z using Cons.prems(4) d(3) that by simp
    have b: "LINE_plistPrev h' z = (if z = hd xs then Some x else LINE_plistPrev h z)"
      if "z \<in> set xs" for z
    proof -
      have "z \<noteq> x" using d(1) that by auto
      then have eq: "LINE_plistPrev h' z = LINE_plistPrev h z"
        using Cons.prems(5) that by simp
      have "LINE_plistPrev h (hd xs) = Some x" using Cons.prems(1) Cons by simp
      then show ?thesis using eq by simp
    qed
    have "lseg h' (Some x) xs q'"
      by (rule Cons.IH[of "Some x"]) (use Cons.prems(1) d n b in auto)
    moreover have "x \<noteq> last xs" using d last_in_set[of xs] by metis
    then have "LINE_plistNext h' x = LINE_plistNext h x" using Cons.prems(4) d(3) by simp
    moreover have "LINE_plistPrev h' x = p'" using Cons.prems(5) by simp
    ultimately show ?thesis using Cons.prems(1) Cons by simp
  qed
qed simp

lemma line_rep_Add_Ahead:
  assumes "line_rep (h, hdr) xs" "n \<notin> set xs"
  shows "line_rep (List_Line_Add_Ahead n (h, hdr)) (n # xs)"
proof (cases xs)
  case Nil
  then show ?thesis using assms by (auto simp: line_rep_def List_Line_Add_Ahead_def)
next
  case (Cons x ys)
  then have ne: "n \<noteq> x" "n \<notin> set ys" "x \<notin> set ys" and s: "lseg h (Some x) ys None"
    and hdr: "hdr = Some x"
    using assms by (auto simp: line_rep_def)
  let ?h = "fst (List_Line_Add_Ahead n (h, hdr))"
  have "lseg ?h (Some x) ys None"
    by (rule lseg_cong[OF s]) (use ne hdr in \<open>auto simp: List_Line_Add_Ahead_def Let_def\<close>)
  then show ?thesis using assms ne Cons hdr
    by (auto simp: line_rep_def List_Line_Add_Ahead_def Let_def)
qed

lemma line_rep_Add_Tail:
  assumes "line_rep (h, hdr) xs" "n \<notin> set xs"
  shows "line_rep (List_Line_Add_Tail n (h, hdr)) (line_add_tail n xs)"
proof (cases xs)
  case Nil
  then show ?thesis using assms by (auto simp: line_rep_def List_Line_Add_Tail_def)
next
  case (Cons x ys)
  show ?thesis
  proof (cases ys)
    case Nil
    then show ?thesis using assms Cons
      by (auto simp: line_rep_def List_Line_Add_Tail_def Let_def)
  next
    case (Cons y zs)
    note yz = this
    have ne: "n \<noteq> x" "n \<noteq> y" "x \<noteq> y" "n \<notin> set zs" "x \<notin> set zs" "y \<notin> set zs"
      and s: "lseg h (Some y) zs None" and hdr: "hdr = Some x"
      using assms yz \<open>xs = x # ys\<close> by (auto simp: line_rep_def)
    let ?h = "fst (List_Line_Add_Tail n (h, hdr))"
    have "lseg ?h (Some y) zs None"
      by (rule lseg_cong[OF s])
        (use ne hdr assms yz \<open>xs = x # ys\<close> in \<open>auto simp: List_Line_Add_Tail_def Let_def line_rep_def\<close>)
    then show ?thesis using assms ne yz \<open>xs = x # ys\<close> hdr
      by (auto simp: line_rep_def List_Line_Add_Tail_def Let_def)
  qed
qed

lemma line_add_left_split:
  "r \<notin> set us \<Longrightarrow> line_add_left n r (us @ r # bs) = us @ n # r # bs"
  by (induction us) auto

lemma line_add_right_split:
  "l \<notin> set us \<Longrightarrow> line_add_right n l (us @ l # bs) = us @ l # n # bs"
  by (induction us) auto

lemma last_in_last_opt: "us \<noteq> [] \<Longrightarrow> last_opt p us = Some (last us)"
  by (simp add: last_opt_def)

lemma line_rep_Add_Left:
  assumes rep: "line_rep (h, hdr) xs" and n: "n \<notin> set xs"
    and r: "r \<in> set xs" "hdr \<noteq> Some r"
  shows "line_rep (List_Line_Add_Left n r h, hdr) (line_add_left n r xs)"
proof -
  obtain us bs where xs: "xs = us @ r # bs" "r \<notin> set us"
    using r(1) split_list_first[of r xs] by auto
  have une: "us \<noteq> []" using r(2) rep xs by (auto simp: line_rep_def)
  have d: "distinct (us @ r # bs)" and sg: "lseg h None us (Some r)"
    and pr: "LINE_plistPrev h r = Some (last us)" and nr: "LINE_plistNext h r = hd_opt bs None"
    and sb: "lseg h (Some r) bs None"
    using rep xs une by (auto simp: line_rep_def lseg_append last_in_last_opt)
  let ?h = "List_Line_Add_Left n r h"
  have nn: "n \<notin> set us" "n \<noteq> r" "n \<notin> set bs" using n xs by auto
  have lu: "last us \<in> set us" "last us \<noteq> r" "last us \<noteq> n" "last us \<notin> set bs"
    using une d nn last_in_set[OF une] by (metis disjoint_iff distinct.simps(2)
        distinct_append insert_iff list.simps(15))+
  have h: "LINE_plistNext ?h = (LINE_plistNext h)(n := Some r, last us := Some n)"
      "LINE_plistPrev ?h = (LINE_plistPrev h)(n := Some (last us), r := Some n)"
    using pr by (auto simp: List_Line_Add_Left_def)
  have "lseg ?h None us (Some n)"
  proof (rule lseg_cong_ends[OF sg une])
    show "distinct us" using d by simp
    show "\<forall>x\<in>set us. LINE_plistNext ?h x = (if x = last us then Some n else LINE_plistNext h x)"
      using nn by (auto simp: h)
    have "LINE_plistPrev h (hd us) = None" using sg une by (cases us) auto
    then show "\<forall>x\<in>set us. LINE_plistPrev ?h x = (if x = hd us then None else LINE_plistPrev h x)"
      using nn xs(2) by (auto simp: h)
  qed
  moreover have "lseg ?h (Some r) bs None"
    by (rule lseg_cong[OF sb]) (use nn d lu in \<open>auto simp: h\<close>)
  ultimately have "lseg ?h None (us @ n # r # bs) None"
    using nn lu une nr by (simp add: lseg_append h last_in_last_opt)
  moreover have "hdr = hd_opt (us @ n # r # bs) None"
    using rep xs une by (simp add: line_rep_def hd_opt_default)
  ultimately show ?thesis
    using d nn xs by (simp add: line_rep_def line_add_left_split)
qed

lemma line_rep_Add_Right:
  assumes rep: "line_rep (h, hdr) xs" and n: "n \<notin> set xs" and l: "l \<in> set xs"
  shows "line_rep (List_Line_Add_Right n l h, hdr) (line_add_right n l xs)"
proof -
  obtain us bs where xs: "xs = us @ l # bs" "l \<notin> set us"
    using l split_list_first[of l xs] by auto
  have d: "distinct (us @ l # bs)" and sg: "lseg h None us (Some l)"
    and pl: "LINE_plistPrev h l = last_opt None us" and nl: "LINE_plistNext h l = hd_opt bs None"
    and sb: "lseg h (Some l) bs None"
    using rep xs by (auto simp: line_rep_def lseg_append)
  let ?h = "List_Line_Add_Right n l h"
  have nn: "n \<notin> set us" "n \<noteq> l" "n \<notin> set bs" "l \<notin> set bs" using n xs d by auto
  have hdr: "hdr = hd_opt us (Some l)" using rep xs by (simp add: line_rep_def)
  have pu: "lseg ?h None us (Some l)"
    by (rule lseg_cong[OF sg])
      (use nn xs(2) nl d in \<open>cases bs; auto simp: List_Line_Add_Right_def\<close>)
  show ?thesis
  proof (cases bs)
    case Nil
    then show ?thesis using pu nn d nl pl xs hdr
      by (simp add: line_rep_def line_add_right_split lseg_append List_Line_Add_Right_def)
  next
    case (Cons b cs)
    have sc: "lseg h (Some b) cs None" using sb Cons by simp
    have "lseg ?h (Some b) cs None"
      by (rule lseg_cong[OF sc]) (use nn Cons nl d in \<open>auto simp: List_Line_Add_Right_def\<close>)
    then show ?thesis using pu nn d nl pl xs hdr Cons sb
      by (auto simp: line_rep_def line_add_right_split lseg_append List_Line_Add_Right_def)
  qed
qed

lemma line_rep_Del:
  assumes rep: "line_rep (h, hdr) xs" and x: "x \<in> set xs"
  shows "line_rep (List_Line_Del x (h, hdr)) (remove1 x xs)"
proof -
  obtain us bs where xs: "xs = us @ x # bs" "x \<notin> set us"
    using x split_list_first[of x xs] by auto
  have d: "distinct (us @ x # bs)" and sg: "lseg h None us (Some x)"
    and px: "LINE_plistPrev h x = last_opt None us" and nx: "LINE_plistNext h x = hd_opt bs None"
    and sb: "lseg h (Some x) bs None"
    using rep xs by (auto simp: line_rep_def lseg_append)
  let ?h = "fst (List_Line_Del x (h, hdr))"
  have nn: "us \<noteq> [] \<Longrightarrow> last us \<noteq> x \<and> last us \<notin> set bs"
    using d xs(2) by (metis IntI disjoint_iff distinct_append last_in_set list.set_intros(2))
  have h: "LINE_plistNext ?h = (if us = [] then LINE_plistNext h
               else (LINE_plistNext h)(last us := hd_opt bs None))"
          "LINE_plistPrev ?h = (if bs = [] then LINE_plistPrev h
               else (LINE_plistPrev h)(hd bs := last_opt None us))"
    using px nx nn by (cases bs; cases "us = []"; simp add: List_Line_Del_def last_opt_def)+
  have su: "lseg ?h None us (hd_opt bs None)"
  proof (cases "us = []")
    case False
    show ?thesis
    proof (rule lseg_cong_ends[OF sg False])
      show "distinct us" using d by simp
      show "\<forall>x\<in>set us. LINE_plistNext ?h x = (if x = last us then hd_opt bs None else LINE_plistNext h x)"
        using False by (simp add: h)
      have "LINE_plistPrev h (hd us) = None" using sg False by (cases us) auto
      moreover have "bs \<noteq> [] \<Longrightarrow> hd bs \<notin> set us" using d by (cases bs) auto
      ultimately show "\<forall>x\<in>set us. LINE_plistPrev ?h x = (if x = hd us then None else LINE_plistPrev h x)"
        by (auto simp: h)
    qed
  qed simp
  have sb': "lseg ?h (last_opt None us) bs None"
  proof (cases "bs = []")
    case False
    show ?thesis
    proof (rule lseg_cong_ends[OF sb False])
      show "distinct bs" using d by simp
      have "LINE_plistNext h (last bs) = None" if "lseg h p bs None" "bs \<noteq> []" for p bs
        using that by (induction bs arbitrary: p) auto
      from this[OF sb False]
      show "\<forall>x\<in>set bs. LINE_plistNext ?h x = (if x = last bs then None else LINE_plistNext h x)"
        using nn by (auto simp: h)
      show "\<forall>x\<in>set bs. LINE_plistPrev ?h x = (if x = hd bs then last_opt None us else LINE_plistPrev h x)"
        using False by (simp add: h)
    qed
  qed simp
  have "hdr = hd_opt us (Some x)" using rep xs by (simp add: line_rep_def)
  then have "snd (List_Line_Del x (h, hdr)) = hd_opt (us @ bs) None"
    using px nx by (cases "us = []")
      (simp_all add: List_Line_Del_def last_opt_def hd_opt_default)
  then show ?thesis using su sb' d xs
    by (simp add: line_rep_def remove1_append lseg_append)
qed

section \<open>Free lists (listOp.h)\<close>

text \<open>\<open>MONO_plistNext\<close> is a map; a sequence list has a head and a tail pointer.\<close>

type_synonym 'a mono_heap = "'a \<Rightarrow> 'a option"

definition list_mono_allocate :: "'a mono_heap \<times> 'a option \<Rightarrow> 'a option \<times> 'a mono_heap \<times> 'a option" where
  "list_mono_allocate st = (let (h, hdr) = st in (hdr, h, h (the hdr)))"

definition list_mono_free :: "'a \<Rightarrow> 'a mono_heap \<times> 'a option \<Rightarrow> 'a mono_heap \<times> 'a option" where
  "list_mono_free f st = (let (h, hdr) = st in (h(f := hdr), Some f))"

definition list_mono_allocate_seq ::
    "'a mono_heap \<times> 'a option \<times> 'a option \<Rightarrow> 'a option \<times> 'a mono_heap \<times> 'a option \<times> 'a option" where
  "list_mono_allocate_seq st = (let (h, hdr, tlp) = st;
      tlp' = (if tlp = hdr then h (the hdr) else tlp)
    in (hdr, h, h (the hdr), tlp'))"

definition list_mono_free_seq ::
    "'a \<Rightarrow> 'a mono_heap \<times> 'a option \<times> 'a option \<Rightarrow> 'a mono_heap \<times> 'a option \<times> 'a option" where
  "list_mono_free_seq f st = (let (h, hdr, tlp) = st; h1 = h(f := None) in
     case tlp of
       Some t \<Rightarrow> (h1(t := Some f), hdr, Some f)
     | None \<Rightarrow> (h1, Some f, Some f))"

fun mono_path :: "'a mono_heap \<Rightarrow> 'a list \<Rightarrow> bool" where
  "mono_path h [] = True"
| "mono_path h (x # xs) = (h x = hd_opt xs None \<and> mono_path h xs)"

definition mono_rep :: "'a mono_heap \<times> 'a option \<Rightarrow> 'a list \<Rightarrow> bool" where
  "mono_rep st xs \<longleftrightarrow> distinct xs \<and> mono_path (fst st) xs \<and> snd st = hd_opt xs None"

definition mono_seq_rep :: "'a mono_heap \<times> 'a option \<times> 'a option \<Rightarrow> 'a list \<Rightarrow> bool" where
  "mono_seq_rep st xs \<longleftrightarrow> distinct xs \<and> mono_path (fst st) xs
     \<and> fst (snd st) = hd_opt xs None \<and> snd (snd st) = last_opt None xs"

lemma mono_path_cong:
  "\<lbrakk>mono_path h xs; \<forall>x\<in>set xs. h' x = h x\<rbrakk> \<Longrightarrow> mono_path h' xs"
  by (induction xs) auto

lemma mono_rep_allocate:
  assumes "mono_rep (h, hdr) (x # xs)"
  shows "list_mono_allocate (h, hdr) = (Some x, h, hd_opt xs None)" "mono_rep (h, hd_opt xs None) xs"
  using assms by (auto simp: mono_rep_def list_mono_allocate_def)

lemma mono_rep_free:
  assumes "mono_rep (h, hdr) xs" "f \<notin> set xs"
  shows "mono_rep (list_mono_free f (h, hdr)) (f # xs)"
  using assms by (auto simp: mono_rep_def list_mono_free_def intro: mono_path_cong)

lemma mono_seq_allocate:
  assumes "mono_seq_rep (h, hdr, tlp) (x # xs)"
  shows "fst (list_mono_allocate_seq (h, hdr, tlp)) = Some x"
    "mono_seq_rep (snd (list_mono_allocate_seq (h, hdr, tlp))) xs"
proof -
  have "xs \<noteq> [] \<Longrightarrow> last xs \<noteq> x" using assms last_in_set[of xs]
    by (auto simp: mono_seq_rep_def)
  then show "mono_seq_rep (snd (list_mono_allocate_seq (h, hdr, tlp))) xs"
    using assms by (cases "xs = []") (auto simp: mono_seq_rep_def list_mono_allocate_seq_def last_opt_def)
  show "fst (list_mono_allocate_seq (h, hdr, tlp)) = Some x"
    using assms by (simp add: mono_seq_rep_def list_mono_allocate_seq_def)
qed

lemma mono_path_snoc:
  "\<lbrakk>mono_path h (xs @ [t]); distinct (xs @ [t]); f \<notin> set (xs @ [t])\<rbrakk>
   \<Longrightarrow> mono_path (h(f := None, t := Some f)) (xs @ [t, f])"
proof (induction xs)
  case (Cons x xs)
  then show ?case by (cases xs) auto
qed simp

lemma mono_seq_free:
  assumes r: "mono_seq_rep (h, hdr, tlp) xs" and f: "f \<notin> set xs"
  shows "mono_seq_rep (list_mono_free_seq f (h, hdr, tlp)) (xs @ [f])"
proof (cases xs rule: rev_cases)
  case Nil
  then show ?thesis using r by (simp add: mono_seq_rep_def list_mono_free_seq_def)
next
  case (snoc ys t)
  then have "mono_path (h(f := None, t := Some f)) (ys @ [t, f])"
    using r f mono_path_snoc[of h ys t f] by (simp add: mono_seq_rep_def)
  then show ?thesis using snoc r f
    by (cases ys) (auto simp: mono_seq_rep_def list_mono_free_seq_def last_opt_def)
qed

end
