(* ===== verification/Wakeup_Line.thy ===== *)
theory Wakeup_Line
  imports Prelude
begin

text \<open>
  The differential delay line of kernel/core/_WakeupLine.c.  Every node stores the
  ticks that remain after its left neighbour fires, so the absolute due time of a
  node is the sum of the counters up to it.  \<open>dues\<close> computes these absolute times;
  the refinement lemmas state that \<open>_WakeupAdd\<close> inserts a node behind all nodes due
  no later than it, that \<open>_WakeupDel\<close> leaves the other due times alone, and that the
  32-bit counters cannot overflow while every due time is below \<open>2 ^ 32\<close>.
\<close>

section \<open>Operations\<close>

record 'n wakeup =
  WU_line :: "'n list"                 \<comment> \<open>\<open>WU_plineHeader\<close> followed through \<open>LINE_plistNext\<close>\<close>
  WU_plineOp :: "'n option"
  WUN_ulCounter :: "'n \<Rightarrow> ULONG"
  WUN_bInQ :: "'n \<Rightarrow> bool"

fun line_get_next :: "'n \<Rightarrow> 'n list \<Rightarrow> 'n option" where
  "line_get_next n [] = None"
| "line_get_next n (x # xs) =
     (if x = n then (case xs of [] \<Rightarrow> None | y # _ \<Rightarrow> Some y) else line_get_next n xs)"

fun WakeupAdd_loop :: "'n \<Rightarrow> ('n \<Rightarrow> ULONG) \<Rightarrow> 'n list \<Rightarrow> 'n list \<times> ('n \<Rightarrow> ULONG)" where
  "WakeupAdd_loop n c [] = ([n], c)"
| "WakeupAdd_loop n c (t # ts) =
     (if c n \<ge> c t then
        (let (l, c') = WakeupAdd_loop n (c(n := c n - c t)) ts in (t # l, c'))
      else (n # t # ts, c(t := c t - c n)))"

definition WakeupAdd :: "'n \<Rightarrow> 'n wakeup \<Rightarrow> 'n wakeup" where
  "WakeupAdd n w = (let (l, c) = WakeupAdd_loop n (WUN_ulCounter w) (WU_line w) in
     w\<lparr>WU_line := l, WUN_ulCounter := c, WUN_bInQ := (WUN_bInQ w)(n := True)\<rparr>)"

definition WakeupDel :: "'n \<Rightarrow> 'n wakeup \<Rightarrow> 'n wakeup" where
  "WakeupDel n w = (let
      w1 = (if WU_plineOp w = Some n then w\<lparr>WU_plineOp := line_get_next n (WU_line w)\<rparr> else w);
      w2 = (case line_get_next n (WU_line w1) of
              Some r \<Rightarrow> w1\<lparr>WUN_ulCounter := (WUN_ulCounter w1)(r :=
                           WUN_ulCounter w1 r + WUN_ulCounter w1 n)\<rparr>
            | None \<Rightarrow> w1)
    in w2\<lparr>WU_line := remove1 n (WU_line w2), WUN_bInQ := (WUN_bInQ w2)(n := False)\<rparr>)"

fun WakeupStatus_loop :: "'n \<Rightarrow> ('n \<Rightarrow> ULONG) \<Rightarrow> 'n list \<Rightarrow> ULONG \<Rightarrow> ULONG" where
  "WakeupStatus_loop n c [] a = 0"
| "WakeupStatus_loop n c (x # xs) a =
     (if x = n then a + c x else WakeupStatus_loop n c xs (a + c x))"

definition WakeupStatus :: "'n wakeup \<Rightarrow> 'n \<Rightarrow> ULONG" where
  "WakeupStatus w n = WakeupStatus_loop n (WUN_ulCounter w) (WU_line w) 0"

definition WAKEUP_INIT :: "'n wakeup" where
  "WAKEUP_INIT = \<lparr>WU_line = [], WU_plineOp = None, WUN_ulCounter = (\<lambda>_. 0), WUN_bInQ = (\<lambda>_. False)\<rparr>"

text \<open>
  One step of \<open>__WAKEUP_PASS_FIRST\<close> at the node \<open>n = WU_plineOp\<close> with \<open>k\<close> ticks left:
  advance the operation pointer, then either charge the ticks and stop (\<open>None\<close>), or
  consume the node's counter and run the body with the remaining ticks.
\<close>

definition WAKEUP_PASS_BEGIN :: "'n wakeup \<Rightarrow> 'n wakeup" where
  "WAKEUP_PASS_BEGIN w = w\<lparr>WU_plineOp := (case WU_line w of [] \<Rightarrow> None | x # _ \<Rightarrow> Some x)\<rparr>"

definition WAKEUP_PASS_FIRST :: "'n \<Rightarrow> ULONG \<Rightarrow> 'n wakeup \<Rightarrow> 'n wakeup \<times> ULONG option" where
  "WAKEUP_PASS_FIRST n k w = (let w1 = w\<lparr>WU_plineOp := line_get_next n (WU_line w)\<rparr> in
     if WUN_ulCounter w1 n > k
     then (w1\<lparr>WUN_ulCounter := (WUN_ulCounter w1)(n := WUN_ulCounter w1 n - k)\<rparr>, None)
     else (w1\<lparr>WUN_ulCounter := (WUN_ulCounter w1)(n := 0)\<rparr>, Some (k - WUN_ulCounter w1 n)))"

section \<open>Absolute due times\<close>

fun dues_from :: "nat \<Rightarrow> ('n \<Rightarrow> ULONG) \<Rightarrow> 'n list \<Rightarrow> ('n \<times> nat) list" where
  "dues_from a c [] = []"
| "dues_from a c (x # xs) = (x, a + unat (c x)) # dues_from (a + unat (c x)) c xs"

definition dues :: "'n wakeup \<Rightarrow> ('n \<times> nat) list" where
  "dues w = dues_from 0 (WUN_ulCounter w) (WU_line w)"

fun due_insert :: "'n \<Rightarrow> nat \<Rightarrow> ('n \<times> nat) list \<Rightarrow> ('n \<times> nat) list" where
  "due_insert n d [] = [(n, d)]"
| "due_insert n d ((t, e) # ts) =
     (if e \<le> d then (t, e) # due_insert n d ts else (n, d) # (t, e) # ts)"

definition wu_ok :: "'n wakeup \<Rightarrow> bool" where
  "wu_ok w \<longleftrightarrow> distinct (WU_line w) \<and> (\<forall>n. WUN_bInQ w n \<longleftrightarrow> n \<in> set (WU_line w))
     \<and> (\<forall>(n, d) \<in> set (dues w). d < 2 ^ 32)"

lemma map_fst_dues_from [simp]: "map fst (dues_from a c xs) = xs"
  by (induction xs arbitrary: a) auto

lemma map_fst_dues [simp]: "map fst (dues w) = WU_line w"
  by (simp add: dues_def)

lemma dues_from_cong: "\<forall>x\<in>set xs. c' x = c x \<Longrightarrow> dues_from a c' xs = dues_from a c xs"
  by (induction xs arbitrary: a) auto

lemma dues_from_ge: "(n, d) \<in> set (dues_from a c xs) \<Longrightarrow> a \<le> d"
  by (induction xs arbitrary: a) (force simp: le_trans)+

lemma dues_from_sorted: "sorted (map snd (dues_from a c xs))"
  by (induction xs arbitrary: a) (auto dest: dues_from_ge)

lemma dues_sorted: "sorted (map snd (dues w))"
  by (simp add: dues_def dues_from_sorted)

lemma set_due_insert [simp]: "set (due_insert n d xs) = insert (n, d) (set xs)"
  by (induction n d xs rule: due_insert.induct) auto

section \<open>\<open>_WakeupAdd\<close>\<close>

lemma WakeupAdd_loop_dues:
  assumes "n \<notin> set xs" "distinct xs" "WakeupAdd_loop n c xs = (l, c')"
  shows "dues_from a c' l = due_insert n (a + unat (c n)) (dues_from a c xs)
    \<and> (\<forall>m. m \<notin> insert n (set xs) \<longrightarrow> c' m = c m)"
  using assms
proof (induction xs arbitrary: a c l c')
  case (Cons t ts)
  show ?case
  proof (cases "c n \<ge> c t")
    case True
    then have le: "unat (c t) \<le> unat (c n)" by (simp add: word_le_nat_alt)
    obtain l1 where l1: "WakeupAdd_loop n (c(n := c n - c t)) ts = (l1, c')" "l = t # l1"
      using Cons.prems(3) True by (auto split: prod.splits)
    have nt: "n \<notin> set ts" "distinct ts" "n \<noteq> t" "t \<notin> set ts" using Cons.prems by auto
    note ih0 = Cons.IH[OF nt(1,2) l1(1), of "a + unat (c t)"]
    have d: "dues_from b (c(n := c n - c t)) ts = dues_from b c ts" for b
      by (rule dues_from_cong) (use nt in auto)
    have ih: "dues_from (a + unat (c t)) c' l1
        = due_insert n (a + unat (c t) + unat (c n - c t)) (dues_from (a + unat (c t)) c ts)"
      using ih0[unfolded d] by simp
    have ih2: "\<And>m. m \<notin> insert n (set ts) \<Longrightarrow> c' m = c m" using ih0 by simp
    have s: "a + unat (c t) + unat (c n - c t) = a + unat (c n)"
      using le True by (simp add: unat_sub)
    have "c' t = c t" using ih2 nt by auto
    then show ?thesis using ih[unfolded s] ih2 l1(2) le by simp
  next
    case False
    then have lt: "unat (c n) < unat (c t)" by (simp add: word_less_nat_alt not_le)
    then have l: "l = n # t # ts" "c' = c(t := c t - c n)" using Cons.prems False by auto
    have nt: "n \<notin> set ts" "n \<noteq> t" "t \<notin> set ts" using Cons.prems by auto
    have d: "dues_from b c' ts = dues_from b c ts" for b
      by (rule dues_from_cong) (use nt l in auto)
    have c: "c' n = c n" "c' t = c t - c n" "\<And>m. m \<noteq> t \<Longrightarrow> c' m = c m" using l nt by auto
    have s: "a + unat (c n) + unat (c t - c n) = a + unat (c t)"
      using lt False by (simp add: unat_sub not_le)
    have "dues_from a c' l = (n, a + unat (c n)) # (t, a + unat (c t)) # dues_from (a + unat (c t)) c ts"
      by (simp only: l(1) dues_from.simps c s d)
    then show ?thesis using lt c by simp
  qed
qed auto

lemma dues_WakeupAdd:
  assumes "wu_ok w" "n \<notin> set (WU_line w)"
  shows "dues (WakeupAdd n w) = due_insert n (unat (WUN_ulCounter w n)) (dues w)"
  using WakeupAdd_loop_dues[OF assms(2), where a = 0] assms(1)
  by (auto simp: WakeupAdd_def dues_def wu_ok_def split: prod.splits)

lemma set_WakeupAdd_line:
  assumes "wu_ok w" "n \<notin> set (WU_line w)"
  shows "set (WU_line (WakeupAdd n w)) = insert n (set (WU_line w))"
proof -
  have "set (WU_line (WakeupAdd n w)) = fst ` set (dues (WakeupAdd n w))"
    by (metis map_fst_dues set_map)
  also have "\<dots> = insert n (fst ` set (dues w))" using dues_WakeupAdd[OF assms] by simp
  also have "fst ` set (dues w) = set (WU_line w)" by (metis map_fst_dues set_map)
  finally show ?thesis .
qed

lemma WakeupAdd_bInQ [simp]: "WUN_bInQ (WakeupAdd n w) = (WUN_bInQ w)(n := True)"
  by (simp add: WakeupAdd_def split: prod.splits)

lemma WakeupAdd_plineOp [simp]: "WU_plineOp (WakeupAdd n w) = WU_plineOp w"
  by (simp add: WakeupAdd_def split: prod.splits)

lemma distinct_due_insert:
  "distinct (map fst (due_insert n d xs)) \<longleftrightarrow> n \<notin> fst ` set xs \<and> distinct (map fst xs)"
  by (induction n d xs rule: due_insert.induct) auto

lemma wu_ok_WakeupAdd:
  assumes "wu_ok w" "n \<notin> set (WU_line w)"
  shows "wu_ok (WakeupAdd n w)"
proof -
  have "distinct (WU_line (WakeupAdd n w))"
    using assms distinct_due_insert[of n "unat (WUN_ulCounter w n)" "dues w"]
    by (metis dues_WakeupAdd map_fst_dues set_map wu_ok_def)
  moreover have "\<forall>(m, d) \<in> set (dues (WakeupAdd n w)). d < 2 ^ 32"
    using assms unsigned_less[of "WUN_ulCounter w n"]
    by (auto simp: dues_WakeupAdd wu_ok_def)
  ultimately show ?thesis using assms
    by (auto simp: wu_ok_def set_WakeupAdd_line)
qed

section \<open>\<open>_WakeupDel\<close>\<close>

lemma line_get_next_append:
  "n \<notin> set us \<Longrightarrow> line_get_next n (us @ n # bs) = (case bs of [] \<Rightarrow> None | y # _ \<Rightarrow> Some y)"
  by (induction us) auto

lemma dues_from_append:
  "dues_from a c (xs @ ys) = dues_from a c xs @ dues_from (a + sum_list (map (unat \<circ> c) xs)) c ys"
  by (induction xs arbitrary: a) (auto simp: add.assoc)

lemma WakeupDel_line [simp]: "WU_line (WakeupDel n w) = remove1 n (WU_line w)"
  by (simp add: WakeupDel_def Let_def split: option.splits)

lemma WakeupDel_bInQ [simp]: "WUN_bInQ (WakeupDel n w) = (WUN_bInQ w)(n := False)"
  by (auto simp: WakeupDel_def Let_def split: option.splits)

lemma WakeupDel_counter:
  "WUN_ulCounter (WakeupDel n w) = (case line_get_next n (WU_line w) of
     Some r \<Rightarrow> (WUN_ulCounter w)(r := WUN_ulCounter w r + WUN_ulCounter w n)
   | None \<Rightarrow> WUN_ulCounter w)"
  by (auto simp: WakeupDel_def Let_def split: option.splits)

lemma WakeupDel_plineOp: "WU_plineOp (WakeupDel n w) =
    (if WU_plineOp w = Some n then line_get_next n (WU_line w) else WU_plineOp w)"
  by (auto simp: WakeupDel_def Let_def split: option.splits)

lemma dues_WakeupDel:
  assumes ok: "wu_ok w" and n: "n \<in> set (WU_line w)"
  shows "dues (WakeupDel n w) = filter (\<lambda>(m, d). m \<noteq> n) (dues w)"
proof -
  obtain us bs where l: "WU_line w = us @ n # bs" "n \<notin> set us"
    using n split_list_first[of n] by metis
  have d: "distinct (us @ n # bs)" using ok l by (simp add: wu_ok_def)
  let ?c = "WUN_ulCounter w" and ?c' = "WUN_ulCounter (WakeupDel n w)"
  let ?a = "sum_list (map (unat \<circ> ?c) us)"
  have keep: "filter (\<lambda>(m, d). m \<noteq> n) (dues_from a ?c xs) = dues_from a ?c xs"
    if "n \<notin> set xs" for a xs
    using that by (induction xs arbitrary: a) auto
  show ?thesis
  proof (cases bs)
    case Nil
    then have "?c' = ?c" using l by (simp add: WakeupDel_counter line_get_next_append)
    then show ?thesis using Nil l keep[OF l(2)]
      by (simp add: dues_def dues_from_append remove1_append)
  next
    case (Cons r rs)
    then have c': "?c' = ?c(r := ?c r + ?c n)"
      using l by (simp add: WakeupDel_counter line_get_next_append)
    have "(r, ?a + unat (?c n) + unat (?c r)) \<in> set (dues w)"
      using l Cons by (simp add: dues_def dues_from_append)
    then have "?a + unat (?c n) + unat (?c r) < 2 ^ 32" using ok by (auto simp: wu_ok_def)
    then have "unat (?c r + ?c n) = unat (?c n) + unat (?c r)"
      by (simp add: unat_word_ariths)
    moreover have "dues_from b ?c' us = dues_from b ?c us" for b
      by (rule dues_from_cong) (use d Cons c' in auto)
    moreover have "dues_from b ?c' rs = dues_from b ?c rs" for b
      by (rule dues_from_cong) (use d Cons c' in auto)
    moreover have "sum_list (map (unat \<circ> ?c') us) = ?a"
      using d Cons c' by (intro arg_cong[where f = sum_list] map_cong) auto
    moreover have "r \<noteq> n" using d Cons by auto
    ultimately show ?thesis using Cons l c' d keep[OF l(2)] keep[of rs]
      by (simp add: dues_def dues_from_append remove1_append add.assoc)
  qed
qed

lemma wu_ok_WakeupDel:
  assumes ok: "wu_ok w" and n: "n \<in> set (WU_line w)"
  shows "wu_ok (WakeupDel n w)"
  using assms by (auto simp: wu_ok_def dues_WakeupDel)

text \<open>Waiting and then giving up leaves every other due time as it was.\<close>

lemma dues_Add_Del:
  assumes "wu_ok w" "n \<notin> set (WU_line w)"
  shows "dues (WakeupDel n (WakeupAdd n w)) = dues w"
proof -
  have "filter (\<lambda>(m, d). m \<noteq> n) (due_insert n e xs) = filter (\<lambda>(m, d). m \<noteq> n) xs" for e xs
    by (induction n e xs rule: due_insert.induct) auto
  moreover have "filter (\<lambda>(m, d). m \<noteq> n) (dues w) = dues w"
  proof (rule filter_True, clarify)
    fix d assume "(n, d) \<in> set (dues w)"
    then have "n \<in> set (map fst (dues w))" by (metis fst_conv image_eqI set_map)
    then show False using assms(2) by simp
  qed
  ultimately show ?thesis
    using assms by (simp add: dues_WakeupDel wu_ok_WakeupAdd set_WakeupAdd_line dues_WakeupAdd)
qed

section \<open>\<open>_WakeupStatus\<close>\<close>

lemma WakeupStatus_loop_due:
  assumes "n \<in> set xs" "distinct xs" "\<forall>(m, d) \<in> set (dues_from (unat a) c xs). d < 2 ^ 32"
  shows "(n, unat (WakeupStatus_loop n c xs a)) \<in> set (dues_from (unat a) c xs)"
  using assms
proof (induction xs arbitrary: a)
  case (Cons x xs)
  then have u: "unat (a + c x) = unat a + unat (c x)" by (simp add: unat_word_ariths)
  show ?case
  proof (cases "x = n")
    case False
    then have "(n, unat (WakeupStatus_loop n c xs (a + c x))) \<in> set (dues_from (unat (a + c x)) c xs)"
      using Cons.prems u by (intro Cons.IH) auto
    then show ?thesis using False u by simp
  qed (use u in simp)
qed simp

lemma WakeupStatus_due:
  assumes "wu_ok w" "n \<in> set (WU_line w)"
  shows "(n, unat (WakeupStatus w n)) \<in> set (dues w)"
  using WakeupStatus_loop_due[of n "WU_line w" 0 "WUN_ulCounter w"] assms
  by (simp add: WakeupStatus_def dues_def wu_ok_def)

lemma WakeupStatus_out: "n \<notin> set (WU_line w) \<Longrightarrow> WakeupStatus w n = 0"
proof -
  have "n \<notin> set xs \<Longrightarrow> WakeupStatus_loop n c xs a = 0" for c xs a
    by (induction xs arbitrary: a) auto
  then show "n \<notin> set (WU_line w) \<Longrightarrow> WakeupStatus w n = 0" by (simp add: WakeupStatus_def)
qed

end
