(* ===== verification/Kernel_State.thy ===== *)
theory Kernel_State
  imports Bitmap List_Link Line_Link Wakeup_Line
begin

text \<open>
  The state of the kernel: thread control blocks, event blocks, CPU blocks, the
  global ready table, the delay line, the pool of free event blocks and the
  error slots, as in kernel/include/k_class.h and k_cpu.h, with the constants of
  k_typemacro.h, k_option.h, k_error.h and k_object.h, the object-id arithmetic
  of inlObject.h and _Object.c, the argument checks of inlObjectCheck.h, and
  \<open>_ErrorHandle\<close>.  Pointers to control blocks are indices; \<open>LW_NULL\<close> is \<open>None\<close>.
\<close>

section \<open>Constants\<close>

abbreviation (input) LW_OPTION_NOT_WAIT :: ULONG where "LW_OPTION_NOT_WAIT \<equiv> 0"
abbreviation (input) LW_OPTION_WAIT_INFINITE :: ULONG where "LW_OPTION_WAIT_INFINITE \<equiv> 0xffffffff"

abbreviation (input) LW_THREAD_STATUS_RDY :: UINT16 where "LW_THREAD_STATUS_RDY \<equiv> 0"
abbreviation (input) LW_THREAD_STATUS_DELAY :: UINT16 where "LW_THREAD_STATUS_DELAY \<equiv> 0x0001"
abbreviation (input) LW_THREAD_STATUS_SEM :: UINT16 where "LW_THREAD_STATUS_SEM \<equiv> 0x0002"
abbreviation (input) LW_THREAD_STATUS_MSGQUEUE :: UINT16 where "LW_THREAD_STATUS_MSGQUEUE \<equiv> 0x0004"
abbreviation (input) LW_THREAD_STATUS_EVENTSET :: UINT16 where "LW_THREAD_STATUS_EVENTSET \<equiv> 0x0008"
abbreviation (input) LW_THREAD_STATUS_SUSPEND :: UINT16 where "LW_THREAD_STATUS_SUSPEND \<equiv> 0x0080"
abbreviation (input) LW_THREAD_STATUS_PEND_ANY :: UINT16 where "LW_THREAD_STATUS_PEND_ANY \<equiv> 0x001e"

abbreviation (input) LW_WAIT_TIME_CLEAR :: UINT8 where "LW_WAIT_TIME_CLEAR \<equiv> 0"
abbreviation (input) LW_WAIT_TIME_OUT :: UINT8 where "LW_WAIT_TIME_OUT \<equiv> 1"
abbreviation (input) LW_EVENT_EXIST :: UINT8 where "LW_EVENT_EXIST \<equiv> 0"
abbreviation (input) LW_EVENT_DELETE :: UINT8 where "LW_EVENT_DELETE \<equiv> 1"

abbreviation (input) LW_OPTION_SCHED_RR :: UINT8 where "LW_OPTION_SCHED_RR \<equiv> 0"
abbreviation (input) LW_OPTION_SCHED_FIFO :: UINT8 where "LW_OPTION_SCHED_FIFO \<equiv> 1"
abbreviation (input) LW_OPTION_RESPOND_IMMIEDIA :: UINT8 where "LW_OPTION_RESPOND_IMMIEDIA \<equiv> 0"
abbreviation (input) LW_OPTION_RESPOND_STANDARD :: UINT8 where "LW_OPTION_RESPOND_STANDARD \<equiv> 1"
abbreviation (input) LW_OPTION_RESPOND_AUTO :: UINT8 where "LW_OPTION_RESPOND_AUTO \<equiv> 2"
abbreviation (input) LW_SCHED_ACT_INTERRUPT :: UINT8 where "LW_SCHED_ACT_INTERRUPT \<equiv> 0"
abbreviation (input) LW_SCHED_ACT_OTHER :: UINT8 where "LW_SCHED_ACT_OTHER \<equiv> 1"
abbreviation (input) LW_PRIO_LOWEST :: UINT8 where "LW_PRIO_LOWEST \<equiv> 255"

abbreviation (input) LW_OPTION_WAIT_PRIORITY :: ULONG where "LW_OPTION_WAIT_PRIORITY \<equiv> 0x00010000"
abbreviation (input) LW_OPTION_DELETE_SAFE :: ULONG where "LW_OPTION_DELETE_SAFE \<equiv> 0x00020000"
abbreviation (input) LW_OPTION_SIGNAL_INTER :: ULONG where "LW_OPTION_SIGNAL_INTER \<equiv> 0x00040000"
abbreviation (input) LW_OPTION_INHERIT_PRIORITY :: ULONG where "LW_OPTION_INHERIT_PRIORITY \<equiv> 0x00080000"
abbreviation (input) LW_OPTION_NORMAL :: ULONG where "LW_OPTION_NORMAL \<equiv> 0x00100000"
abbreviation (input) LW_OPTION_ERRORCHECK :: ULONG where "LW_OPTION_ERRORCHECK \<equiv> 0x00200000"
abbreviation (input) LW_OPTION_RW_PREFER_WRITER :: ULONG where "LW_OPTION_RW_PREFER_WRITER \<equiv> 0x00400000"

abbreviation (input) LW_TYPE_EVENT_UNUSED :: UINT8 where "LW_TYPE_EVENT_UNUSED \<equiv> 0"
abbreviation (input) LW_TYPE_EVENT_SEMRW :: UINT8 where "LW_TYPE_EVENT_SEMRW \<equiv> 1"
abbreviation (input) LW_TYPE_EVENT_MSGQUEUE :: UINT8 where "LW_TYPE_EVENT_MSGQUEUE \<equiv> 2"
abbreviation (input) LW_TYPE_EVENT_SEMC :: UINT8 where "LW_TYPE_EVENT_SEMC \<equiv> 3"
abbreviation (input) LW_TYPE_EVENT_MUTEX :: UINT8 where "LW_TYPE_EVENT_MUTEX \<equiv> 4"
abbreviation (input) LW_TYPE_EVENT_SEMB :: UINT8 where "LW_TYPE_EVENT_SEMB \<equiv> 6"

abbreviation (input) OBJECT_THREAD :: UINT8 where "OBJECT_THREAD \<equiv> 1"
abbreviation (input) OBJECT_SEM_C :: UINT8 where "OBJECT_SEM_C \<equiv> 3"
abbreviation (input) OBJECT_SEM_B :: UINT8 where "OBJECT_SEM_B \<equiv> 4"
abbreviation (input) OBJECT_SEM_M :: UINT8 where "OBJECT_SEM_M \<equiv> 5"
abbreviation (input) OBJECT_SEM_RW :: UINT8 where "OBJECT_SEM_RW \<equiv> 6"

abbreviation (input) ERROR_NONE :: ULONG where "ERROR_NONE \<equiv> 0"
abbreviation (input) ERROR_KERNEL_PNAME_NULL :: ULONG where "ERROR_KERNEL_PNAME_NULL \<equiv> 301"
abbreviation (input) ERROR_KERNEL_PNAME_TOO_LONG :: ULONG where "ERROR_KERNEL_PNAME_TOO_LONG \<equiv> 302"
abbreviation (input) ERROR_KERNEL_HANDLE_NULL :: ULONG where "ERROR_KERNEL_HANDLE_NULL \<equiv> 303"
abbreviation (input) ERROR_KERNEL_IN_ISR :: ULONG where "ERROR_KERNEL_IN_ISR \<equiv> 304"
abbreviation (input) ERROR_THREAD_WAIT_TIMEOUT :: ULONG where "ERROR_THREAD_WAIT_TIMEOUT \<equiv> 506"
abbreviation (input) ERROR_EVENT_MAX_COUNTER_NULL :: ULONG where "ERROR_EVENT_MAX_COUNTER_NULL \<equiv> 1500"
abbreviation (input) ERROR_EVENT_INIT_COUNTER :: ULONG where "ERROR_EVENT_INIT_COUNTER \<equiv> 1501"
abbreviation (input) ERROR_EVENT_NULL :: ULONG where "ERROR_EVENT_NULL \<equiv> 1502"
abbreviation (input) ERROR_EVENT_FULL :: ULONG where "ERROR_EVENT_FULL \<equiv> 1503"
abbreviation (input) ERROR_EVENT_TYPE :: ULONG where "ERROR_EVENT_TYPE \<equiv> 1504"
abbreviation (input) ERROR_EVENT_WAS_DELETED :: ULONG where "ERROR_EVENT_WAS_DELETED \<equiv> 1505"
abbreviation (input) ERROR_EVENT_NOT_OWN :: ULONG where "ERROR_EVENT_NOT_OWN \<equiv> 1506"
abbreviation (input) ERROR_THREAD_NULL :: ULONG where "ERROR_THREAD_NULL \<equiv> 507"
abbreviation (input) ERROR_THREAD_NOT_READY :: ULONG where "ERROR_THREAD_NOT_READY \<equiv> 514"
abbreviation (input) ERROR_THREAD_OTHER_DELETE :: ULONG where "ERROR_THREAD_OTHER_DELETE \<equiv> 516"
abbreviation (input) EINTR :: ULONG where "EINTR \<equiv> 4"
abbreviation (input) EDEADLK :: ULONG where "EDEADLK \<equiv> 33"

abbreviation (input) LW_CFG_MAX_EVENTS :: nat where "LW_CFG_MAX_EVENTS \<equiv> 3000"
abbreviation (input) LW_CFG_MAX_THREADS :: nat where "LW_CFG_MAX_THREADS \<equiv> 500"
abbreviation (input) LW_CFG_OBJECT_NAME_SIZE :: nat where "LW_CFG_OBJECT_NAME_SIZE \<equiv> 32"
abbreviation (input) LW_CFG_PROCESSOR_NUMBER :: UINT16 where "LW_CFG_PROCESSOR_NUMBER \<equiv> 1"
abbreviation (input) EVENT_Q_SIZE :: nat where "EVENT_Q_SIZE \<equiv> 8"
abbreviation (input) EVENT_SEM_Q :: nat where "EVENT_SEM_Q \<equiv> 0"
abbreviation (input) EVENT_RW_STATUS_R :: int where "EVENT_RW_STATUS_R \<equiv> 0"
abbreviation (input) EVENT_RW_STATUS_W :: int where "EVENT_RW_STATUS_W \<equiv> 1"
abbreviation (input) EVENT_RW_Q_R :: nat where "EVENT_RW_Q_R \<equiv> 0"
abbreviation (input) EVENT_RW_Q_W :: nat where "EVENT_RW_Q_W \<equiv> 1"

abbreviation (input) LW_CPU_STATUS_ACTIVE :: ULONG where "LW_CPU_STATUS_ACTIVE \<equiv> 0x80000000"
abbreviation (input) LW_IPI_SCHED_MSK :: ULONG where "LW_IPI_SCHED_MSK \<equiv> 2"
abbreviation (input) LW_SIGNAL_EINTR :: int where "LW_SIGNAL_EINTR \<equiv> 1"

section \<open>Control blocks\<close>

text \<open>The fields of \<open>LW_CLASS_TCB\<close> the modelled code reads or writes.  The place of
  a thread in a priority wait queue (\<open>TCB_ppringPriorityQueue\<close>) is the index of the
  ring in \<open>WL_pringPrio\<close>.\<close>

datatype ptcb_ref = PTCB_NULL | PTCB_ONE | PTCB tid    \<comment> \<open>a TCB pointer that may be the mark \<open>1\<close>\<close>

record tcb =
  TCB_ulLastError :: ULONG
  TCB_iSchedRet :: int
  TCB_ucPriority :: UINT8
  TCB_usStatus :: UINT16
  TCB_ucSchedPolicy :: UINT8
  TCB_ucSchedActivate :: UINT8
  TCB_ucSchedActivateMode :: UINT8
  TCB_usSchedSlice :: UINT16
  TCB_usSchedCounter :: UINT16
  TCB_bIsCand :: bool
  TCB_ulCPUId :: cpuid
  TCB_bCPULock :: bool
  TCB_ulCPULock :: cpuid
  TCB_ulThreadLockCounter :: ULONG
  TCB_ulThreadSafeCounter :: ULONG
  TCB_ulSuspendNesting :: ULONG
  TCB_iDeleteProcStatus :: int
  TCB_ptcbDeleteMe :: ptcb_ref
  TCB_ptcbDeleteWait :: "tid option"
  TCB_ucWaitTimeout :: UINT8
  TCB_ucIsEventDelete :: UINT8
  TCB_peventPtr :: "eid option"
  TCB_iPendQ :: nat
  TCB_ppringPriorityQueue :: nat
  TCB_pvMsgBoxMessage :: ULONG

text \<open>\<open>LW_CLASS_WAITQUEUE\<close>: eight rings (\<open>WL_pringPrio\<close>) and the FIFO ring, which the
  union places over ring 0.\<close>

record waitqueue =
  WQ_ring :: "nat \<Rightarrow> tid list"
  WQ_usNum :: UINT16

record event =
  EVENT_ucType :: UINT8
  EVENT_pvTcbOwn :: "tid option"
  EVENT_ulCounter :: ULONG
  EVENT_ulMaxCounter :: ULONG
  EVENT_iStatus :: int
  EVENT_ulOption :: ULONG
  EVENT_ucCeilingPriority :: UINT8
  EVENT_pvPtr :: ULONG
  EVENT_wqWaitQ :: "nat \<Rightarrow> waitqueue"
  EVENT_cEventName :: string

record pcbbmap =
  PCBM_bmap :: bmap
  PCBM_pcb :: "UINT8 \<Rightarrow> tid list"       \<comment> \<open>\<open>PCB_pringReadyHeader\<close> of every priority\<close>

record cpu =
  CPU_ptcbTCBCur :: "tid option"
  CPU_ptcbTCBHigh :: "tid option"
  CPU_bIsIntSwitch :: bool
  CAND_ptcbCand :: "tid option"
  CAND_bNeedRotate :: bool
  CPU_iKernelCounter :: nat
  CPU_pcbbmapReady :: pcbbmap
  CPU_bOnlyAffinity :: bool
  CPU_iIPIPend :: ULONG
  CPU_uiLockQuick :: ULONG
  CPU_ulStatus :: ULONG
  CPU_ulInterNesting :: nat
  CPU_ulInterError :: "nat \<Rightarrow> ULONG"

record kernel =
  k_tcb :: "tid \<Rightarrow> tcb"
  k_event :: "eid \<Rightarrow> event"
  k_cpu :: "cpuid \<Rightarrow> cpu"
  k_global :: pcbbmap                  \<comment> \<open>\<open>_K_pcbbmapGlobalReady\<close>\<close>
  k_delay :: "tid wakeup"              \<comment> \<open>\<open>_K_wuDelay\<close> with the \<open>TCB_wunDelay\<close> nodes\<close>
  k_freeEvents :: "eid list"           \<comment> \<open>free list of \<open>_K_resrcEvent\<close>\<close>
  k_resUsed :: nat
  k_resMaxUsed :: nat
  k_ncpus :: nat                       \<comment> \<open>\<open>_K_ulNCpus\<close>\<close>
  k_curcpu :: cpuid                    \<comment> \<open>\<open>archMpCur()\<close>\<close>
  k_i64KernelTime :: "64 word"
  k_ulNotRunError :: ULONG
  k_tcbIdTable :: "tid \<Rightarrow> bool"         \<comment> \<open>\<open>_K_ptcbTCBIdTable[i] != LW_NULL\<close>\<close>
  k_deleteCalls :: "tid list"          \<comment> \<open>threads handed to \<open>API_ThreadDelete\<close>\<close>
  k_sysRunning :: bool                 \<comment> \<open>\<open>LW_SYS_STATUS_IS_RUNNING()\<close>\<close>
  k_halt :: bool                       \<comment> \<open>a \<open>_BugHandle\<close> with stop was taken\<close>

section \<open>Updates of one block\<close>

definition tcb_upd :: "tid \<Rightarrow> (tcb \<Rightarrow> tcb) \<Rightarrow> kernel \<Rightarrow> kernel" where
  "tcb_upd t f s = s\<lparr>k_tcb := (k_tcb s)(t := f (k_tcb s t))\<rparr>"

definition event_upd :: "eid \<Rightarrow> (event \<Rightarrow> event) \<Rightarrow> kernel \<Rightarrow> kernel" where
  "event_upd e f s = s\<lparr>k_event := (k_event s)(e := f (k_event s e))\<rparr>"

definition cpu_upd :: "cpuid \<Rightarrow> (cpu \<Rightarrow> cpu) \<Rightarrow> kernel \<Rightarrow> kernel" where
  "cpu_upd c f s = s\<lparr>k_cpu := (k_cpu s)(c := f (k_cpu s c))\<rparr>"

definition halt_if :: "bool \<Rightarrow> kernel \<Rightarrow> kernel" where
  "halt_if b s = (if b then s\<lparr>k_halt := True\<rparr> else s)"

lemma tcb_upd_simps [simp]:
  "k_tcb (tcb_upd t f s) = (k_tcb s)(t := f (k_tcb s t))"
  "k_event (tcb_upd t f s) = k_event s" "k_cpu (tcb_upd t f s) = k_cpu s"
  "k_global (tcb_upd t f s) = k_global s" "k_delay (tcb_upd t f s) = k_delay s"
  "k_freeEvents (tcb_upd t f s) = k_freeEvents s" "k_resUsed (tcb_upd t f s) = k_resUsed s"
  "k_resMaxUsed (tcb_upd t f s) = k_resMaxUsed s" "k_ncpus (tcb_upd t f s) = k_ncpus s"
  "k_curcpu (tcb_upd t f s) = k_curcpu s" "k_i64KernelTime (tcb_upd t f s) = k_i64KernelTime s"
  "k_ulNotRunError (tcb_upd t f s) = k_ulNotRunError s"
  "k_deleteCalls (tcb_upd t f s) = k_deleteCalls s" "k_tcbIdTable (tcb_upd t f s) = k_tcbIdTable s" "k_sysRunning (tcb_upd t f s) = k_sysRunning s"
  "k_halt (tcb_upd t f s) = k_halt s"
  by (simp_all add: tcb_upd_def)

lemma event_upd_simps [simp]:
  "k_event (event_upd e g s) = (k_event s)(e := g (k_event s e))"
  "k_tcb (event_upd e g s) = k_tcb s" "k_cpu (event_upd e g s) = k_cpu s"
  "k_global (event_upd e g s) = k_global s" "k_delay (event_upd e g s) = k_delay s"
  "k_freeEvents (event_upd e g s) = k_freeEvents s" "k_resUsed (event_upd e g s) = k_resUsed s"
  "k_resMaxUsed (event_upd e g s) = k_resMaxUsed s" "k_ncpus (event_upd e g s) = k_ncpus s"
  "k_curcpu (event_upd e g s) = k_curcpu s" "k_i64KernelTime (event_upd e g s) = k_i64KernelTime s"
  "k_ulNotRunError (event_upd e g s) = k_ulNotRunError s"
  "k_deleteCalls (event_upd e g s) = k_deleteCalls s" "k_tcbIdTable (event_upd e g s) = k_tcbIdTable s" "k_sysRunning (event_upd e g s) = k_sysRunning s"
  "k_halt (event_upd e g s) = k_halt s"
  by (simp_all add: event_upd_def)

lemma cpu_upd_simps [simp]:
  "k_cpu (cpu_upd c h s) = (k_cpu s)(c := h (k_cpu s c))"
  "k_tcb (cpu_upd c h s) = k_tcb s" "k_event (cpu_upd c h s) = k_event s"
  "k_global (cpu_upd c h s) = k_global s" "k_delay (cpu_upd c h s) = k_delay s"
  "k_freeEvents (cpu_upd c h s) = k_freeEvents s" "k_resUsed (cpu_upd c h s) = k_resUsed s"
  "k_resMaxUsed (cpu_upd c h s) = k_resMaxUsed s" "k_ncpus (cpu_upd c h s) = k_ncpus s"
  "k_curcpu (cpu_upd c h s) = k_curcpu s" "k_i64KernelTime (cpu_upd c h s) = k_i64KernelTime s"
  "k_ulNotRunError (cpu_upd c h s) = k_ulNotRunError s"
  "k_deleteCalls (cpu_upd c h s) = k_deleteCalls s" "k_tcbIdTable (cpu_upd c h s) = k_tcbIdTable s" "k_sysRunning (cpu_upd c h s) = k_sysRunning s"
  "k_halt (cpu_upd c h s) = k_halt s"
  by (simp_all add: cpu_upd_def)

lemma halt_if_simps [simp]:
  "k_tcb (halt_if b s) = k_tcb s" "k_event (halt_if b s) = k_event s"
  "k_cpu (halt_if b s) = k_cpu s" "k_global (halt_if b s) = k_global s"
  "k_delay (halt_if b s) = k_delay s" "k_freeEvents (halt_if b s) = k_freeEvents s"
  "k_ncpus (halt_if b s) = k_ncpus s" "k_curcpu (halt_if b s) = k_curcpu s"
  "k_resUsed (halt_if b s) = k_resUsed s" "k_i64KernelTime (halt_if b s) = k_i64KernelTime s"
  "k_halt (halt_if b s) = (b \<or> k_halt s)" "halt_if False s = s"
  by (simp_all add: halt_if_def)

section \<open>Reading the state\<close>

abbreviation tcb_status :: "kernel \<Rightarrow> tid \<Rightarrow> UINT16" where
  "tcb_status s t \<equiv> TCB_usStatus (k_tcb s t)"

abbreviation cur_cpu :: "kernel \<Rightarrow> cpu" where
  "cur_cpu s \<equiv> k_cpu s (k_curcpu s)"

definition LW_TCB_GET_CUR :: "kernel \<Rightarrow> tid" where
  "LW_TCB_GET_CUR s = the (CPU_ptcbTCBCur (cur_cpu s))"

definition LW_CPU_GET_CUR_NESTING :: "kernel \<Rightarrow> nat" where
  "LW_CPU_GET_CUR_NESTING s = CPU_ulInterNesting (cur_cpu s)"

definition LW_CPU_IS_ACTIVE :: "cpu \<Rightarrow> bool" where
  "LW_CPU_IS_ACTIVE c \<longleftrightarrow> CPU_ulStatus c AND LW_CPU_STATUS_ACTIVE \<noteq> 0"

definition LW_THREAD_IS_READY :: "tcb \<Rightarrow> bool" where
  "LW_THREAD_IS_READY tc \<longleftrightarrow> TCB_usStatus tc = LW_THREAD_STATUS_RDY"

text \<open>\<open>_ErrorHandle\<close>: the interrupt error slot in interrupt context, the last error
  of the running thread otherwise.  An API routine that reports an error after
  \<open>__KERNEL_EXIT\<close> does so in its own context, although other threads may have run in
  between; \<open>ErrorHandle_of c\<close> is the call made in the context of the state \<open>c\<close>.\<close>

definition ErrorHandle_of :: "kernel \<Rightarrow> ULONG \<Rightarrow> kernel \<Rightarrow> kernel" where
  "ErrorHandle_of ctx code s =
    (if code = 0 then s
     else if CPU_ulInterNesting (cur_cpu ctx) \<noteq> 0 then
       cpu_upd (k_curcpu ctx) (\<lambda>c. c\<lparr>CPU_ulInterError :=
         (CPU_ulInterError c)(CPU_ulInterNesting (cur_cpu ctx) := code)\<rparr>) s
     else case CPU_ptcbTCBCur (cur_cpu ctx) of
       Some t \<Rightarrow> tcb_upd t (\<lambda>tc. tc\<lparr>TCB_ulLastError := code\<rparr>) s
     | None \<Rightarrow> s\<lparr>k_ulNotRunError := code\<rparr>)"

definition ErrorHandle :: "ULONG \<Rightarrow> kernel \<Rightarrow> kernel" where
  "ErrorHandle code s = ErrorHandle_of s code s"

text \<open>\<open>KERNEL_TIME_GET ULONG\<close> keeps the low 32 bits of the 64-bit tick count.\<close>

definition KERNEL_TIME_GET :: "kernel \<Rightarrow> ULONG" where
  "KERNEL_TIME_GET s = ucast (k_i64KernelTime s)"

definition sigTimeoutRecalc :: "kernel \<Rightarrow> ULONG \<Rightarrow> ULONG \<Rightarrow> ULONG" where
  "sigTimeoutRecalc s ulOrgKernelTime ulOrgTimeout =
    (if ulOrgTimeout = LW_OPTION_WAIT_INFINITE then ulOrgTimeout
     else let ulKernelTime = KERNEL_TIME_GET s;
              ulTimeRun = (if ulKernelTime \<ge> ulOrgKernelTime then ulKernelTime - ulOrgKernelTime
                           else ulKernelTime + (0xffffffff - ulOrgKernelTime) + 1)
          in if ulTimeRun \<ge> ulOrgTimeout then 0 else ulOrgTimeout - ulTimeRun)"

section \<open>Object identifiers (inlObject.h, _Object.c)\<close>

definition ObjectGetIndex :: "ULONG \<Rightarrow> UINT16" where
  "ObjectGetIndex ulId = ucast (ulId AND 0x0000ffff)"

definition ObjectGetNode :: "ULONG \<Rightarrow> ULONG" where
  "ObjectGetNode ulId = drop_bit 16 ulId AND 0x03ff"

definition ObjectGetClass :: "ULONG \<Rightarrow> ULONG" where
  "ObjectGetClass ulId = drop_bit 26 ulId AND 0x3f"

definition ObjectClassOK :: "ULONG \<Rightarrow> UINT8 \<Rightarrow> bool" where
  "ObjectClassOK ulId ucClass \<longleftrightarrow> drop_bit 26 ulId AND 0x3f = ucast ucClass"

definition MakeObjectId :: "UINT8 \<Rightarrow> UINT16 \<Rightarrow> UINT16 \<Rightarrow> ULONG" where
  "MakeObjectId ucCls usNode usIndex =
     push_bit 26 (ucast ucCls) OR push_bit 16 (ucast usNode) OR ucast usIndex"

lemma ObjectGetIndex_Make [simp]: "ObjectGetIndex (MakeObjectId c n i) = i"
proof -
  have "(0xffff :: 32 word) = mask 16" by (simp add: mask_eq_exp_minus_1)
  note m = this
  show ?thesis unfolding ObjectGetIndex_def MakeObjectId_def m
    by (auto intro!: bit_word_eqI simp: bit_simps simp del: mask_eq_exp_minus_1)
qed

lemma ObjectClassOK_Make:
  assumes "c < 64" "n < 1024"
  shows "ObjectClassOK (MakeObjectId c n i) c' \<longleftrightarrow> c' = c"
proof -
  have m: "(0x3f :: 32 word) = mask 6" by (simp add: mask_eq_exp_minus_1)
  have c: "take_bit 6 c = c" using assms(1)
    by (simp add: word_unat_eq_iff word_less_nat_alt unsigned_take_bit_eq take_bit_nat_eq_self)
  have n: "take_bit 10 n = n" using assms(2)
    by (simp add: word_unat_eq_iff word_less_nat_alt unsigned_take_bit_eq take_bit_nat_eq_self)
  have nb: "bit n k \<Longrightarrow> k < 10" for k using n by (metis bit_take_bit_iff)
  have cb: "bit c k \<Longrightarrow> k < 6" for k using c by (metis bit_take_bit_iff)
  have "drop_bit 26 (MakeObjectId c n i) AND 0x3f = ucast c"
    unfolding MakeObjectId_def m
    by (rule bit_word_eqI) (auto simp: bit_simps dest: nb cb bit_imp_le_length)
  moreover have "(ucast c :: 32 word) = ucast c' \<longleftrightarrow> c' = c"
  proof
    assume eq: "(ucast c :: 32 word) = ucast c'"
    show "c' = c"
    proof (rule bit_word_eqI)
      fix k assume "k < LENGTH(8)"
      then show "bit c' k = bit c k"
        using arg_cong[OF eq, of "\<lambda>w. bit w k"] by (simp add: bit_simps)
    qed
  qed simp
  ultimately show ?thesis by (auto simp: ObjectClassOK_def)
qed

section \<open>Argument checks (inlObjectCheck.h)\<close>

text \<open>\<open>lib_strnlen (pcName, N) >= N\<close> for a terminated string.\<close>

definition Object_Name_Invalid :: "string option \<Rightarrow> bool" where
  "Object_Name_Invalid pcName = (case pcName of None \<Rightarrow> False
     | Some nm \<Rightarrow> length nm \<ge> LW_CFG_OBJECT_NAME_SIZE)"

definition Event_Index_Invalid :: "UINT16 \<Rightarrow> bool" where
  "Event_Index_Invalid usIndex \<longleftrightarrow> unat usIndex \<ge> LW_CFG_MAX_EVENTS"

definition Event_Type_Invalid :: "kernel \<Rightarrow> UINT16 \<Rightarrow> UINT8 \<Rightarrow> bool" where
  "Event_Type_Invalid s usIndex ucType \<longleftrightarrow> EVENT_ucType (k_event s (unat usIndex)) \<noteq> ucType"

section \<open>The pool of event blocks (listEvent.c, _EventInit.c)\<close>

definition Allocate_Event_Object :: "kernel \<Rightarrow> eid option \<times> kernel" where
  "Allocate_Event_Object s = (case k_freeEvents s of
     [] \<Rightarrow> (None, s)
   | e # es \<Rightarrow>
       (let s1 = s\<lparr>k_freeEvents := es, k_resUsed := k_resUsed s + 1\<rparr>;
            s2 = (if k_resUsed s1 > k_resMaxUsed s1 then s1\<lparr>k_resMaxUsed := k_resUsed s1\<rparr> else s1)
        in (Some e, s2)))"

definition Free_Event_Object :: "eid \<Rightarrow> kernel \<Rightarrow> kernel" where
  "Free_Event_Object e s = s\<lparr>k_freeEvents := k_freeEvents s @ [e], k_resUsed := k_resUsed s - 1\<rparr>"

definition EventInit :: "kernel \<Rightarrow> kernel" where
  "EventInit s = s\<lparr>
     k_event := (\<lambda>e. if e < LW_CFG_MAX_EVENTS
                     then (k_event s e)\<lparr>EVENT_ucType := LW_TYPE_EVENT_UNUSED\<rparr> else k_event s e),
     k_freeEvents := [0..<LW_CFG_MAX_EVENTS], k_resUsed := 0, k_resMaxUsed := 0\<rparr>"

end
