(* ===== verification/Structure_Runs.thy ===== *)
theory Structure_Runs
  imports Kernel_State
begin

text \<open>
  Histories of the basic structures: rings, lines, free lists, bitmaps and the delta
  queue, driven by arbitrary legal sequences of their routines.  Each structure stays
  the image of a plain list or set on which the same history is played.
\<close>

section \<open>Rings\<close>

datatype 'a ring_op = RAhead 'a | RFront 'a | RLast 'a | RDel 'a | RNext

fun ring_exec :: "'a ring_op \<Rightarrow> 'a ring_st \<Rightarrow> 'a ring_st" where
  "ring_exec (RAhead n) st = List_Ring_Add_Ahead n st"
| "ring_exec (RFront n) st = List_Ring_Add_Front n st"
| "ring_exec (RLast n) st = List_Ring_Add_Last n st"
| "ring_exec (RDel n) st = List_Ring_Del n st"
| "ring_exec RNext st = list_ring_next st"

fun ring_play :: "'a ring_op \<Rightarrow> 'a list \<Rightarrow> 'a list" where
  "ring_play (RAhead n) xs = n # xs"
| "ring_play (RFront n) xs = (case xs of [] \<Rightarrow> [n] | x # ys \<Rightarrow> x # n # ys)"
| "ring_play (RLast n) xs = xs @ [n]"
| "ring_play (RDel n) xs = remove1 n xs"
| "ring_play RNext xs = rotate1 xs"

fun ring_legal :: "'a ring_op \<Rightarrow> 'a list \<Rightarrow> bool" where
  "ring_legal (RDel n) xs \<longleftrightarrow> n \<in> set xs"
| "ring_legal RNext xs \<longleftrightarrow> xs \<noteq> []"
| "ring_legal (RAhead n) xs \<longleftrightarrow> n \<notin> set xs"
| "ring_legal (RFront n) xs \<longleftrightarrow> n \<notin> set xs"
| "ring_legal (RLast n) xs \<longleftrightarrow> n \<notin> set xs"

fun ring_history :: "'a ring_op list \<Rightarrow> 'a list \<Rightarrow> bool" where
  "ring_history [] xs \<longleftrightarrow> True"
| "ring_history (r # rs) xs \<longleftrightarrow> ring_legal r xs \<and> ring_history rs (ring_play r xs)"

lemma ring_step:
  assumes "ring_rep st xs" "ring_legal r xs"
  shows "ring_rep (ring_exec r st) (ring_play r xs)"
proof -
  obtain h hdr where st: "st = (h, hdr)" by (cases st)
  have f: "ring_play (RFront n) ys = ring_add_front n ys" for n and ys :: "'a list" by (cases ys) auto
  show ?thesis
    using assms ring_rep_Add_Ahead[of h hdr xs] ring_rep_Add_Front[of h hdr xs] ring_rep_Add_Last[of h hdr xs]
      ring_rep_Del[of h hdr xs] ring_rep_next[of h hdr xs] f
    by (cases r) (simp_all add: st)
qed

text \<open>C1: any legal history of insertions (ahead of the header, behind it, at the end),
  removals and rotations on a circular list in memory has the effect of the same history
  on a plain list: the links in both directions always spell that list, starting at the
  header.\<close>

theorem ring_routines_refine_lists:
  assumes "ring_rep st xs" "ring_history rs xs"
  shows "ring_rep (fold ring_exec rs st) (fold ring_play rs xs)"
  using assms
proof (induction rs arbitrary: st xs)
  case (Cons r rs)
  then have "ring_rep (ring_exec r st) (ring_play r xs)" by (intro ring_step) simp_all
  from Cons.IH[OF this] Cons.prems show ?case by simp
qed simp

lemma ring_empty: "ring_rep (\<lparr>RING_plistNext = (\<lambda>_. None), RING_plistPrev = (\<lambda>_. None)\<rparr>, None) []"
  by (simp add: ring_rep_def)

theorem ring_routines_refine_lists_witness:
  "ring_rep (fold ring_exec [RLast 1, RLast 2, RFront 3, RAhead 4, RNext, RDel (2::nat)]
      (\<lparr>RING_plistNext = (\<lambda>_. None), RING_plistPrev = (\<lambda>_. None)\<rparr>, None)) [1, 3, 4]"
  using ring_routines_refine_lists[OF ring_empty, of "[RLast 1, RLast 2, RFront 3, RAhead 4, RNext, RDel (2::nat)]"]
  by simp

section \<open>Lines\<close>

datatype 'a line_op = LAhead 'a | LTail 'a | LLeft 'a 'a | LRight 'a 'a | LDel 'a

fun line_exec :: "'a line_op \<Rightarrow> 'a line_st \<Rightarrow> 'a line_st" where
  "line_exec (LAhead n) st = List_Line_Add_Ahead n st"
| "line_exec (LTail n) st = List_Line_Add_Tail n st"
| "line_exec (LLeft n r) st = (List_Line_Add_Left n r (fst st), snd st)"
| "line_exec (LRight n l) st = (List_Line_Add_Right n l (fst st), snd st)"
| "line_exec (LDel n) st = List_Line_Del n st"

fun line_play :: "'a line_op \<Rightarrow> 'a list \<Rightarrow> 'a list" where
  "line_play (LAhead n) xs = n # xs"
| "line_play (LTail n) xs = line_add_tail n xs"
| "line_play (LLeft n r) xs = line_add_left n r xs"
| "line_play (LRight n l) xs = line_add_right n l xs"
| "line_play (LDel n) xs = remove1 n xs"

text \<open>\<open>_List_Line_Add_Left\<close> does not move the header, so it must not be used at it.\<close>

fun line_legal :: "'a line_op \<Rightarrow> 'a list \<Rightarrow> bool" where
  "line_legal (LAhead n) xs \<longleftrightarrow> n \<notin> set xs"
| "line_legal (LTail n) xs \<longleftrightarrow> n \<notin> set xs"
| "line_legal (LLeft n r) xs \<longleftrightarrow> n \<notin> set xs \<and> r \<in> set xs \<and> hd xs \<noteq> r"
| "line_legal (LRight n l) xs \<longleftrightarrow> n \<notin> set xs \<and> l \<in> set xs"
| "line_legal (LDel n) xs \<longleftrightarrow> n \<in> set xs"

fun line_history :: "'a line_op list \<Rightarrow> 'a list \<Rightarrow> bool" where
  "line_history [] xs \<longleftrightarrow> True"
| "line_history (r # rs) xs \<longleftrightarrow> line_legal r xs \<and> line_history rs (line_play r xs)"

lemma line_step:
  assumes "line_rep st xs" "line_legal r xs"
  shows "line_rep (line_exec r st) (line_play r xs)"
proof -
  obtain h hdr where st: "st = (h, hdr)" by (cases st)
  have hd: "hdr = hd_opt xs None" using assms(1) by (simp add: line_rep_def st)
  show ?thesis
    using assms line_rep_Add_Ahead[of h hdr xs] line_rep_Add_Tail[of h hdr xs] line_rep_Add_Left[of h hdr xs]
      line_rep_Add_Right[of h hdr xs] line_rep_Del[of h hdr xs] hd
    by (cases r; cases xs) (auto simp: st)
qed

text \<open>any legal history of the routines of linear lists has the effect of the same
  history on a plain list.  The routine that is named \<open>_List_Line_Add_Tail\<close> puts its node
  second, not last.\<close>

theorem line_routines_refine_lists:
  assumes "line_rep st xs" "line_history rs xs"
  shows "line_rep (fold line_exec rs st) (fold line_play rs xs)"
  using assms
proof (induction rs arbitrary: st xs)
  case (Cons r rs)
  then have "line_rep (line_exec r st) (line_play r xs)" by (intro line_step) simp_all
  from Cons.IH[OF this] Cons.prems show ?case by simp
qed simp

lemma line_empty: "line_rep (\<lparr>LINE_plistNext = (\<lambda>_. None), LINE_plistPrev = (\<lambda>_. None)\<rparr>, None) []"
  by (simp add: line_rep_def)

theorem line_routines_refine_lists_witness:
  "line_rep (fold line_exec [LAhead 1, LAhead 2, LTail 3, LLeft 4 1, LRight 5 1, LDel (2::nat)]
      (\<lparr>LINE_plistNext = (\<lambda>_. None), LINE_plistPrev = (\<lambda>_. None)\<rparr>, None)) [3, 4, 1, 5]"
  using line_routines_refine_lists[OF line_empty, of "[LAhead 1, LAhead 2, LTail 3, LLeft 4 1, LRight 5 1, LDel (2::nat)]"]
  by simp

section \<open>Free lists\<close>

datatype 'a pool_op = Take | Give 'a

fun pool_exec :: "'a pool_op \<Rightarrow> 'a mono_heap \<times> 'a option \<times> 'a option \<Rightarrow> 'a option list \<times> 'a mono_heap \<times> 'a option \<times> 'a option" where
  "pool_exec Take st = (let (r, st') = list_mono_allocate_seq st in ([r], st'))"
| "pool_exec (Give n) st = ([], list_mono_free_seq n st)"

fun pool_run :: "'a pool_op list \<Rightarrow> 'a mono_heap \<times> 'a option \<times> 'a option \<Rightarrow> 'a option list \<times> 'a mono_heap \<times> 'a option \<times> 'a option" where
  "pool_run [] st = ([], st)"
| "pool_run (r # rs) st = (let (o1, st1) = pool_exec r st; (o2, st2) = pool_run rs st1 in (o1 @ o2, st2))"

text \<open>The queue that the free list implements: blocks are taken at the front and given
  back at the end.\<close>

fun pool_play :: "'a pool_op list \<Rightarrow> 'a list \<Rightarrow> ('a option list \<times> 'a list) option" where
  "pool_play [] q = Some ([], q)"
| "pool_play (Take # rs) q = (case q of [] \<Rightarrow> None
     | x # q' \<Rightarrow> map_option (\<lambda>(outs, q''). (Some x # outs, q'')) (pool_play rs q'))"
| "pool_play (Give n # rs) q = (if n \<in> set q then None else pool_play rs (q @ [n]))"

text \<open>the sequential free list behaves as a queue: for every history in which no
  block is taken from an empty pool or given back twice, the blocks handed out and the
  list left behind are those of the queue, so a freed block is reused last.\<close>

theorem free_list_is_queue:
  assumes "mono_seq_rep st q" "pool_play rs q = Some (outs, q')"
  shows "fst (pool_run rs st) = outs \<and> mono_seq_rep (snd (pool_run rs st)) q'"
  using assms
proof (induction rs arbitrary: st q outs)
  case (Cons r rs)
  obtain h hdr tl where st: "st = (h, hdr, tl)" by (cases st) auto
  show ?case
  proof (cases r)
    case Take
    then obtain x q1 outs1 where q: "q = x # q1" "pool_play rs q1 = Some (outs1, q')" "outs = Some x # outs1"
      using Cons.prems(2) by (auto split: list.splits)
    note a = mono_seq_allocate[OF Cons.prems(1)[unfolded st q(1)]]
    show ?thesis using Cons.IH[OF a(2) q(2)] a(1) q(3) by (simp add: Take st split_beta Let_def)
  next
    case (Give n)
    then have n: "n \<notin> set q" "pool_play rs (q @ [n]) = Some (outs, q')"
      using Cons.prems(2) by (auto split: if_splits)
    from Cons.IH[OF mono_seq_free[OF Cons.prems(1)[unfolded st] n(1)] n(2)]
    show ?thesis by (simp add: Give st split_beta Let_def)
  qed
qed simp

theorem free_list_is_queue_witness:
  "fst (pool_run [Give 7, Give 8, Take, Give 9, Take, Take] (\<lambda>_. None, None, None)) = [Some 7, Some 8, Some (9::nat)]"
  using free_list_is_queue[of "(\<lambda>_. None, None, None)" "[]" "[Give 7, Give 8, Take, Give 9, Take, Take]"
      "[Some 7, Some 8, Some (9::nat)]" "[]"]
  by (simp add: mono_seq_rep_def)

section \<open>Bitmaps\<close>

text \<open>\<open>archFindLsb\<close>, with its byte table, computes one plus the position of the
  least set bit of its argument, and zero for zero.\<close>

theorem archFindLsb_least:
  "archFindLsb w = (if w = 0 then 0 else Suc (LEAST n. bit w n))"
proof (cases "w = 0")
  case False
  note l = archFindLsb_lsb[OF False]
  have "(LEAST n. bit w n) = archFindLsb w - 1"
    using l(2) by (intro Least_equality) (auto simp: lsb_at_def not_le[symmetric])
  then show ?thesis using l(1) False by simp
qed simp

datatype bm_op = BAdd UINT8 | BDel UINT8

fun bm_exec :: "bm_op \<Rightarrow> bmap \<Rightarrow> bmap" where
  "bm_exec (BAdd p) bm = BitmapAdd bm p"
| "bm_exec (BDel p) bm = BitmapDel bm p"

fun bm_play :: "bm_op \<Rightarrow> UINT8 set \<Rightarrow> UINT8 set" where
  "bm_play (BAdd p) S = insert p S"
| "bm_play (BDel p) S = S - {p}"

lemma bm_history:
  assumes "bm_wf bm" "{p. bm_mem bm p} = S"
  shows "bm_wf (fold bm_exec rs bm) \<and> {p. bm_mem (fold bm_exec rs bm) p} = fold bm_play rs S"
  using assms
proof (induction rs arbitrary: bm S)
  case (Cons r rs)
  have "bm_wf (bm_exec r bm) \<and> {p. bm_mem (bm_exec r bm) p} = bm_play r S"
    using Cons.prems by (cases r) auto
  then show ?case using Cons.IH by simp
qed simp

text \<open>C2: after any history of additions and removals the bitmap is empty exactly when no
  priority is left, and otherwise \<open>_BitmapHigh\<close> answers the most urgent priority (the least
  number) that is present.\<close>

theorem BitmapHigh_most_urgent:
  fixes rs :: "bm_op list"
  defines "bm \<equiv> fold bm_exec rs BitmapInit" and "S \<equiv> fold bm_play rs {}"
  shows "if S = {} then BitmapIsEmpty bm else \<not> BitmapIsEmpty bm \<and> BitmapHigh bm = Min S"
proof -
  have h: "bm_wf bm" "{p. bm_mem bm p} = S"
    using bm_history[of BitmapInit "{}" rs] by (simp_all add: bm_def S_def)
  show ?thesis
  proof (cases "BitmapIsEmpty bm")
    case True
    then have "S = {}" using h bm_mem_nonempty[OF h(1)] by auto
    then show ?thesis using True by simp
  next
    case False
    note m = bm_High_mem[OF h(1) False]
    have "Min S = BitmapHigh bm" using m h(2) by (intro Min_eqI) auto
    then show ?thesis using m(1) h(2) False by auto
  qed
qed

section \<open>The delta queue\<close>

datatype 'n wu_op = WAdd 'n ULONG | WDel 'n

fun wu_exec :: "'n wu_op \<Rightarrow> 'n wakeup \<Rightarrow> 'n wakeup" where
  "wu_exec (WAdd n d) w = WakeupAdd n (w\<lparr>WUN_ulCounter := (WUN_ulCounter w)(n := d)\<rparr>)"
| "wu_exec (WDel n) w = WakeupDel n w"

fun wu_play :: "'n wu_op \<Rightarrow> ('n \<times> nat) list \<Rightarrow> ('n \<times> nat) list" where
  "wu_play (WAdd n d) l = due_insert n (unat d) l"
| "wu_play (WDel n) l = filter (\<lambda>(m, d). m \<noteq> n) l"

fun wu_history :: "'n wu_op list \<Rightarrow> 'n set \<Rightarrow> bool" where
  "wu_history [] S \<longleftrightarrow> True"
| "wu_history (WAdd n d # rs) S \<longleftrightarrow> n \<notin> S \<and> wu_history rs (insert n S)"
| "wu_history (WDel n # rs) S \<longleftrightarrow> n \<in> S \<and> wu_history rs (S - {n})"

lemma dues_set_counter: "n \<notin> set (WU_line w) \<Longrightarrow> dues (w\<lparr>WUN_ulCounter := (WUN_ulCounter w)(n := d)\<rparr>) = dues w"
  by (auto simp: dues_def intro: dues_from_cong)

lemma wu_run:
  assumes "wu_ok w" "wu_history rs (set (WU_line w))"
  shows "wu_ok (fold wu_exec rs w) \<and> dues (fold wu_exec rs w) = fold wu_play rs (dues w)"
  using assms
proof (induction rs arbitrary: w)
  case (Cons r rs)
  show ?case
  proof (cases r)
    case (WAdd n d)
    let ?w = "w\<lparr>WUN_ulCounter := (WUN_ulCounter w)(n := d)\<rparr>"
    have n: "n \<notin> set (WU_line w)" using Cons.prems(2) WAdd by simp
    have ok: "wu_ok ?w" using Cons.prems(1) dues_set_counter[OF n] by (simp add: wu_ok_def)
    have n': "n \<notin> set (WU_line ?w)" using n by simp
    show ?thesis
      using Cons.IH[OF wu_ok_WakeupAdd[OF ok n']] Cons.prems(2) WAdd set_WakeupAdd_line[OF ok n']
        dues_WakeupAdd[OF ok n'] dues_set_counter[OF n] by simp
  next
    case (WDel n)
    have n: "n \<in> set (WU_line w)" using Cons.prems(2) WDel by simp
    have "distinct (WU_line w)" using Cons.prems(1) by (simp add: wu_ok_def)
    then show ?thesis
      using Cons.IH[OF wu_ok_WakeupDel[OF Cons.prems(1) n]] Cons.prems(2) WDel
        dues_WakeupDel[OF Cons.prems(1) n] by simp
  qed
qed simp

text \<open>C3: however sleepers are added to and removed from the delta queue, every one keeps
  the absolute due time it asked for: the line holds them sorted by due time, those with
  equal times in the order of insertion, and \<open>_WakeupStatus\<close> reads a sleeper's due time,
  although the counters in memory only hold differences.\<close>

theorem delta_queue_keeps_due_times:
  fixes rs :: "'n wu_op list"
  assumes "wu_history rs {}"
  defines "w \<equiv> fold wu_exec rs WAKEUP_INIT" and "l \<equiv> fold wu_play rs []"
  shows "dues w = l \<and> sorted (map snd l) \<and> WU_line w = map fst l
    \<and> list_all (\<lambda>(n, d). unat (WakeupStatus w n) = d) l"
proof -
  have i: "wu_ok (WAKEUP_INIT :: 'n wakeup)" "dues (WAKEUP_INIT :: 'n wakeup) = []"
    by (simp_all add: wu_ok_def dues_def WAKEUP_INIT_def)
  have w: "wu_ok w" "dues w = l"
    using wu_run[OF i(1), of rs] assms(1) i(2) by (simp_all add: w_def l_def WAKEUP_INIT_def)
  have line: "WU_line w = map fst l" using map_fst_dues[of w] w(2) by simp
  have "unat (WakeupStatus w n) = d" if "(n, d) \<in> set l" for n d
  proof -
    have n: "n \<in> set (WU_line w)" using that line by force
    have "distinct (map fst l)" using w(1) line by (simp add: wu_ok_def)
    then show ?thesis using WakeupStatus_due[OF w(1) n] that w(2) by (metis eq_key_imp_eq_value)
  qed
  then show ?thesis using w line dues_sorted[of w] by (auto simp: list_all_iff)
qed

theorem delta_queue_keeps_due_times_witness:
  "dues (fold wu_exec [WAdd 1 50, WAdd 2 20, WAdd 3 20, WAdd 4 90, WDel (2::nat)] WAKEUP_INIT) = [(3, 20), (1, 50), (4, 90)]"
  using delta_queue_keeps_due_times[of "[WAdd 1 50, WAdd 2 20, WAdd 3 20, WAdd 4 90, WDel (2::nat)]"]
  by simp

section \<open>Object identifiers\<close>

text \<open>C4: an identifier built for a class, a node and an index is taken apart again by
  \<open>_ObjectGetIndex\<close>, and is accepted by \<open>_ObjectClassOK\<close> for exactly that class.\<close>

theorem object_id_round_trip:
  fixes ucType :: UINT8 and usNode usIndex :: UINT16
  assumes "ucType < 64" "usNode < 1024"
  defines "ulId \<equiv> MakeObjectId ucType usNode usIndex"
  shows "ObjectGetIndex ulId = usIndex \<and> ObjectGetNode ulId = ucast usNode \<and> ObjectGetClass ulId = ucast ucType
    \<and> (\<forall>c. ObjectClassOK ulId c = (c = ucType))"
proof -
  have m: "(0x3f :: 32 word) = mask 6" "(0x03ff :: 32 word) = mask 10" by (simp_all add: mask_eq_exp_minus_1)
  have c: "take_bit 6 ucType = ucType" and n: "take_bit 10 usNode = usNode" using assms(1,2)
    by (simp_all add: word_unat_eq_iff word_less_nat_alt unsigned_take_bit_eq take_bit_nat_eq_self)
  have cb: "bit ucType i \<Longrightarrow> i < 6" and nb: "bit usNode i \<Longrightarrow> i < 10" for i
    using c n by (metis bit_take_bit_iff)+
  have "ObjectGetNode ulId = ucast usNode"
    unfolding ulId_def ObjectGetNode_def MakeObjectId_def m
    by (rule bit_word_eqI) (auto simp: bit_simps dest: nb cb bit_imp_le_length simp del: mask_eq_exp_minus_1)
  moreover have "ObjectGetClass ulId = ucast ucType"
    unfolding ulId_def ObjectGetClass_def MakeObjectId_def m
    by (rule bit_word_eqI) (auto simp: bit_simps dest: nb cb bit_imp_le_length simp del: mask_eq_exp_minus_1)
  ultimately show ?thesis using assms(1,2) by (simp add: ulId_def ObjectClassOK_Make)
qed

theorem object_id_round_trip_witness:
  "ObjectGetIndex (MakeObjectId OBJECT_SEM_M 1 2999) = 2999"
  using object_id_round_trip[of OBJECT_SEM_M 1 2999] by simp

end
