(* ===== verification/Cand_Table.thy ===== *)
theory Cand_Table
  imports Kernel_State
begin

text \<open>
  Ready rings, ready tables and the candidate table: kernel/core/_ReadyRing.c,
  _ReadyTableLib.c, _CandTable.c and inline/inlGetPcb.h, with the macros
  \<open>__ADD_TO_READY_RING\<close> and \<open>__DEL_FROM_READY_RING\<close> of k_sched.h, on the SMP branches
  of the configuration.  A ready thread is either the candidate of one CPU or in one
  ready ring: the ring of its priority in the table of the CPU it is locked to, or
  in the global table.
\<close>

section \<open>Ready rings and tables\<close>

datatype rdytab = Global | CpuTab cpuid      \<comment> \<open>a \<open>PLW_CLASS_PCBBMAP\<close>\<close>

type_synonym ppcb = "rdytab \<times> UINT8"          \<comment> \<open>a \<open>PLW_CLASS_PCB\<close>\<close>

fun rdy_map :: "kernel \<Rightarrow> rdytab \<Rightarrow> pcbbmap" where
  "rdy_map s Global = k_global s"
| "rdy_map s (CpuTab c) = CPU_pcbbmapReady (k_cpu s c)"

fun rdy_upd :: "rdytab \<Rightarrow> (pcbbmap \<Rightarrow> pcbbmap) \<Rightarrow> kernel \<Rightarrow> kernel" where
  "rdy_upd Global f s = s\<lparr>k_global := f (k_global s)\<rparr>"
| "rdy_upd (CpuTab c) f s =
     cpu_upd c (\<lambda>p. p\<lparr>CPU_pcbbmapReady := f (CPU_pcbbmapReady p)\<rparr>) s"

definition rdy_tab :: "tcb \<Rightarrow> rdytab" where
  "rdy_tab tc = (if TCB_bCPULock tc then CpuTab (TCB_ulCPULock tc) else Global)"

definition rdy_ring :: "kernel \<Rightarrow> ppcb \<Rightarrow> tid list" where
  "rdy_ring s pp = PCBM_pcb (rdy_map s (fst pp)) (snd pp)"

definition rdy_ring_upd :: "ppcb \<Rightarrow> (tid list \<Rightarrow> tid list) \<Rightarrow> kernel \<Rightarrow> kernel" where
  "rdy_ring_upd pp f = rdy_upd (fst pp) (\<lambda>m. m\<lparr>PCBM_pcb := (PCBM_pcb m)(snd pp := f (PCBM_pcb m (snd pp)))\<rparr>)"

definition GetPcb :: "kernel \<Rightarrow> tid \<Rightarrow> ppcb" where
  "GetPcb s t = (rdy_tab (k_tcb s t), TCB_ucPriority (k_tcb s t))"

definition GetPcbEx :: "kernel \<Rightarrow> tid \<Rightarrow> UINT8 \<Rightarrow> ppcb" where
  "GetPcbEx s t ucPriority = (rdy_tab (k_tcb s t), ucPriority)"

definition PcbIsEmpty :: "kernel \<Rightarrow> ppcb \<Rightarrow> bool" where
  "PcbIsEmpty s pp \<longleftrightarrow> rdy_ring s pp = []"

definition PcbIsOne :: "kernel \<Rightarrow> ppcb \<Rightarrow> bool" where
  "PcbIsOne s pp \<longleftrightarrow> (case rdy_ring s pp of [] \<Rightarrow> False | x # xs \<Rightarrow> xs = [])"

definition AddTCBToReadyRing :: "tid \<Rightarrow> ppcb \<Rightarrow> bool \<Rightarrow> kernel \<Rightarrow> kernel" where
  "AddTCBToReadyRing t pp bIsHeader s = (let tc = k_tcb s t in
     if bIsHeader then rdy_ring_upd pp (ring_add_ahead t) s
     else if TCB_ucSchedPolicy tc = LW_OPTION_SCHED_FIFO then rdy_ring_upd pp (ring_add_last t) s
     else if TCB_ucSchedActivateMode tc = LW_OPTION_RESPOND_IMMIEDIA
       then rdy_ring_upd pp (ring_add_front t) s
     else if TCB_ucSchedActivateMode tc = LW_OPTION_RESPOND_STANDARD
       then rdy_ring_upd pp (ring_add_last t) s
     else if TCB_ucSchedActivate tc = LW_SCHED_ACT_OTHER
       then rdy_ring_upd pp (ring_add_last t) s
     else rdy_ring_upd pp (ring_add_front t) s)"

definition DelTCBFromReadyRing :: "tid \<Rightarrow> ppcb \<Rightarrow> kernel \<Rightarrow> kernel" where
  "DelTCBFromReadyRing t pp s = rdy_ring_upd pp (ring_del t) s"

definition ReadyTableAdd :: "tid \<Rightarrow> kernel \<Rightarrow> kernel" where
  "ReadyTableAdd t s = rdy_upd (rdy_tab (k_tcb s t))
     (\<lambda>m. m\<lparr>PCBM_bmap := BitmapAdd (PCBM_bmap m) (TCB_ucPriority (k_tcb s t))\<rparr>) s"

definition ReadyTableDel :: "tid \<Rightarrow> kernel \<Rightarrow> kernel" where
  "ReadyTableDel t s = rdy_upd (rdy_tab (k_tcb s t))
     (\<lambda>m. m\<lparr>PCBM_bmap := BitmapDel (PCBM_bmap m) (TCB_ucPriority (k_tcb s t))\<rparr>) s"

section \<open>Candidates\<close>

definition LW_CAND_TCB :: "kernel \<Rightarrow> cpuid \<Rightarrow> tid option" where
  "LW_CAND_TCB s c = CAND_ptcbCand (k_cpu s c)"

definition LW_CAND_ROT :: "kernel \<Rightarrow> cpuid \<Rightarrow> bool" where
  "LW_CAND_ROT s c = CAND_bNeedRotate (k_cpu s c)"

definition set_cand :: "cpuid \<Rightarrow> tid option \<Rightarrow> kernel \<Rightarrow> kernel" where
  "set_cand c v = cpu_upd c (\<lambda>p. p\<lparr>CAND_ptcbCand := v\<rparr>)"

definition set_rot :: "cpuid \<Rightarrow> bool \<Rightarrow> kernel \<Rightarrow> kernel" where
  "set_rot c b = cpu_upd c (\<lambda>p. p\<lparr>CAND_bNeedRotate := b\<rparr>)"

definition LW_PRIO_IS_HIGH :: "UINT8 \<Rightarrow> UINT8 \<Rightarrow> bool" where
  "LW_PRIO_IS_HIGH a b \<longleftrightarrow> a < b"

definition LW_PRIO_IS_HIGH_OR_EQU :: "UINT8 \<Rightarrow> UINT8 \<Rightarrow> bool" where
  "LW_PRIO_IS_HIGH_OR_EQU a b \<longleftrightarrow> a \<le> b"

abbreviation tcb_prio :: "kernel \<Rightarrow> tid \<Rightarrow> UINT8" where
  "tcb_prio s t \<equiv> TCB_ucPriority (k_tcb s t)"

definition CandTableSeek :: "kernel \<Rightarrow> cpuid \<Rightarrow> ppcb option" where
  "CandTableSeek s c = (let
      local = PCBM_bmap (rdy_map s (CpuTab c)); global = PCBM_bmap (rdy_map s Global);
      only = CPU_bOnlyAffinity (k_cpu s c)
    in if BitmapIsEmpty local then
         (if only \<or> BitmapIsEmpty global then None else Some (Global, BitmapHigh global))
       else if only \<or> BitmapIsEmpty global then Some (CpuTab c, BitmapHigh local)
       else if LW_PRIO_IS_HIGH_OR_EQU (BitmapHigh local) (BitmapHigh global)
         then Some (CpuTab c, BitmapHigh local)
       else Some (Global, BitmapHigh global))"

definition CandTableNext :: "ppcb \<Rightarrow> kernel \<Rightarrow> tid \<times> kernel" where
  "CandTableNext pp s = (let t = hd (rdy_ring s pp); tc = k_tcb s t in
     if TCB_ucSchedPolicy tc = LW_OPTION_SCHED_FIFO then (t, s)
     else if TCB_usSchedCounter tc = 0 then
       (let s1 = tcb_upd t (\<lambda>x. x\<lparr>TCB_usSchedCounter := TCB_usSchedSlice x\<rparr>) s;
            s2 = rdy_ring_upd pp ring_next s1
        in (hd (rdy_ring s2 pp), s2))
     else (t, s))"

text \<open>The common tail of \<open>_CandTableFill\<close> and \<open>_CandTableResel\<close>.\<close>

definition CandTableResel :: "cpuid \<Rightarrow> ppcb \<Rightarrow> kernel \<Rightarrow> kernel" where
  "CandTableResel c pp s = (let (t, s1) = CandTableNext pp s;
      s2 = set_cand c (Some t) s1;
      s3 = tcb_upd t (\<lambda>x. x\<lparr>TCB_ulCPUId := c, TCB_bIsCand := True\<rparr>) s2;
      s4 = DelTCBFromReadyRing t pp s3
    in if PcbIsEmpty s4 pp then ReadyTableDel t s4 else s4)"

definition CandTableFill :: "cpuid \<Rightarrow> kernel \<Rightarrow> kernel" where
  "CandTableFill c s = (case CandTableSeek s c of
     None \<Rightarrow> halt_if True s
   | Some pp \<Rightarrow> CandTableResel c pp s)"

definition CandTableEmpty :: "cpuid \<Rightarrow> kernel \<Rightarrow> kernel" where
  "CandTableEmpty c s = (let t = the (LW_CAND_TCB s c); pp = GetPcb s t;
      s1 = tcb_upd t (\<lambda>x. x\<lparr>TCB_bIsCand := False\<rparr>) s;
      s2 = AddTCBToReadyRing t pp True s1;
      s3 = (if PcbIsOne s2 pp then ReadyTableAdd t s2 else s2)
    in set_cand c None s3)"

section \<open>\<open>_CandTableTryAdd\<close> and \<open>_CandTableTryDel\<close>\<close>

definition cpus_active :: "kernel \<Rightarrow> cpuid list" where
  "cpus_active s = filter (\<lambda>i. LW_CPU_IS_ACTIVE (k_cpu s i)) [0..<k_ncpus s]"

definition cpus_active_except :: "kernel \<Rightarrow> cpuid \<Rightarrow> cpuid list" where
  "cpus_active_except s ulCPUId = filter (\<lambda>i. i \<noteq> ulCPUId \<and> LW_CPU_IS_ACTIVE (k_cpu s i)) [0..<k_ncpus s]"

datatype try_result = Placed | RotIdle | NotYet

definition try_place :: "tid \<Rightarrow> cpuid \<Rightarrow> kernel \<Rightarrow> kernel" where
  "try_place t i s = tcb_upd t (\<lambda>x. x\<lparr>TCB_ulCPUId := i, TCB_bIsCand := True\<rparr>) (set_cand i (Some t) s)"

fun TryAdd_idle_loop :: "tid \<Rightarrow> cpuid list \<Rightarrow> kernel \<Rightarrow> try_result \<times> kernel" where
  "TryAdd_idle_loop t [] s = (NotYet, s)"
| "TryAdd_idle_loop t (i # is) s =
    (if CPU_bOnlyAffinity (k_cpu s i) then TryAdd_idle_loop t is s
     else case LW_CAND_TCB s i of
       None \<Rightarrow> (Placed, try_place t i s)
     | Some cand \<Rightarrow>
         if \<not> LW_CAND_ROT s i \<and> tcb_prio s cand = LW_PRIO_LOWEST
         then (RotIdle, set_rot i True s)
         else TryAdd_idle_loop t is s)"

fun TryAdd_rot_loop :: "tid \<Rightarrow> cpuid list \<Rightarrow> kernel \<Rightarrow> try_result \<times> kernel" where
  "TryAdd_rot_loop t [] s = (NotYet, s)"
| "TryAdd_rot_loop t (i # is) s =
    (if CPU_bOnlyAffinity (k_cpu s i) then TryAdd_rot_loop t is s
     else case LW_CAND_TCB s i of
       None \<Rightarrow> (Placed, try_place t i s)
     | Some cand \<Rightarrow>
         if LW_PRIO_IS_HIGH (tcb_prio s t) (tcb_prio s cand)
         then TryAdd_rot_loop t is (set_rot i True s)
         else TryAdd_rot_loop t is s)"

text \<open>The body for a thread without CPU lock: its last CPU first, then the others.\<close>

definition TryAdd_unlocked :: "tid \<Rightarrow> kernel \<Rightarrow> try_result \<times> kernel" where
  "TryAdd_unlocked t s = (let c = TCB_ulCPUId (k_tcb s t);
      (r, s1) =
        (if CPU_bOnlyAffinity (k_cpu s c) then (NotYet, s)
         else case LW_CAND_TCB s c of
           None \<Rightarrow> (Placed, tcb_upd t (\<lambda>x. x\<lparr>TCB_bIsCand := True\<rparr>) (set_cand c (Some t) s))
         | Some cand \<Rightarrow>
             if \<not> LW_CAND_ROT s c \<and> tcb_prio s cand = LW_PRIO_LOWEST
             then (RotIdle, set_rot c True s) else (NotYet, s))
    in case r of
         NotYet \<Rightarrow>
           (let (r2, s2) = TryAdd_idle_loop t (cpus_active_except s1 c) s1 in
            case r2 of NotYet \<Rightarrow> TryAdd_rot_loop t (cpus_active s2) s2 | _ \<Rightarrow> (r2, s2))
       | _ \<Rightarrow> (r, s1))"

definition TryAdd_locked :: "tid \<Rightarrow> kernel \<Rightarrow> try_result \<times> kernel" where
  "TryAdd_locked t s = (let c = TCB_ulCPULock (k_tcb s t) in
     if \<not> LW_CPU_IS_ACTIVE (k_cpu s c) then (NotYet, s)
     else case LW_CAND_TCB s c of
       None \<Rightarrow> (Placed, try_place t c s)
     | Some cand \<Rightarrow>
         (NotYet, if LW_PRIO_IS_HIGH (tcb_prio s t) (tcb_prio s cand) then set_rot c True s else s))"

definition CandTableTryAdd :: "tid \<Rightarrow> ppcb \<Rightarrow> kernel \<Rightarrow> bool \<times> kernel" where
  "CandTableTryAdd t pp s = (let
      (r, s1) = (if TCB_bCPULock (k_tcb s t) then TryAdd_locked t s else TryAdd_unlocked t s)
    in case r of
         Placed \<Rightarrow> (True, s1)
       | _ \<Rightarrow> (False, if PcbIsEmpty s1 pp then ReadyTableAdd t s1 else s1))"

definition CandTableTryDel :: "tid \<Rightarrow> ppcb \<Rightarrow> kernel \<Rightarrow> kernel" where
  "CandTableTryDel t pp s = (let c = TCB_ulCPUId (k_tcb s t) in
     if LW_CAND_TCB s c = Some t then
       set_rot c False (CandTableFill c (tcb_upd t (\<lambda>x. x\<lparr>TCB_bIsCand := False\<rparr>) s))
     else if PcbIsEmpty s pp then ReadyTableDel t s else s)"

definition ADD_TO_READY_RING :: "tid \<Rightarrow> ppcb \<Rightarrow> kernel \<Rightarrow> kernel" where
  "ADD_TO_READY_RING t pp s = (let (placed, s1) = CandTableTryAdd t pp s in
     if placed then s1 else AddTCBToReadyRing t pp False s1)"

definition DEL_FROM_READY_RING :: "tid \<Rightarrow> ppcb \<Rightarrow> kernel \<Rightarrow> kernel" where
  "DEL_FROM_READY_RING t pp s = CandTableTryDel t pp
     (if TCB_bIsCand (k_tcb s t) then s else DelTCBFromReadyRing t pp s)"

section \<open>\<open>_CandTableUpdate\<close>\<close>

fun Notify_idle_loop :: "cpuid list \<Rightarrow> kernel \<Rightarrow> bool \<times> kernel" where
  "Notify_idle_loop [] s = (False, s)"
| "Notify_idle_loop (i # is) s =
    (if CPU_bOnlyAffinity (k_cpu s i) then Notify_idle_loop is s
     else if \<not> LW_CAND_ROT s i \<and> tcb_prio s (the (LW_CAND_TCB s i)) = LW_PRIO_LOWEST
     then (True, set_rot i True s)
     else Notify_idle_loop is s)"

fun Notify_rot_loop :: "tid \<Rightarrow> cpuid list \<Rightarrow> kernel \<Rightarrow> kernel" where
  "Notify_rot_loop t [] s = s"
| "Notify_rot_loop t (i # is) s =
    (if CPU_bOnlyAffinity (k_cpu s i) then Notify_rot_loop t is s
     else if LW_PRIO_IS_HIGH (tcb_prio s t) (tcb_prio s (the (LW_CAND_TCB s i)))
     then Notify_rot_loop t is (set_rot i True s)
     else Notify_rot_loop t is s)"

definition CandTableNotify :: "cpuid \<Rightarrow> tid \<Rightarrow> kernel \<Rightarrow> kernel" where
  "CandTableNotify c cand s = (let (rotIdle, s1) = Notify_idle_loop (cpus_active_except s c) s in
     if rotIdle then s1 else Notify_rot_loop cand (cpus_active_except s1 c) s1)"

definition need_rotate :: "kernel \<Rightarrow> cpuid \<Rightarrow> tid \<Rightarrow> UINT8 \<Rightarrow> bool" where
  "need_rotate s c cand ucPriority =
    (if CPU_bOnlyAffinity (k_cpu s c) \<and> \<not> TCB_bCPULock (k_tcb s cand) then True
     else if TCB_usSchedCounter (k_tcb s cand) = 0
       then LW_PRIO_IS_HIGH_OR_EQU ucPriority (tcb_prio s cand)
     else LW_PRIO_IS_HIGH ucPriority (tcb_prio s cand))"

definition CandTableUpdate :: "cpuid \<Rightarrow> kernel \<Rightarrow> kernel" where
  "CandTableUpdate c s =
    (if \<not> LW_CPU_IS_ACTIVE (k_cpu s c) then s
     else case LW_CAND_TCB s c of
       None \<Rightarrow> set_rot c False (CandTableFill c s)
     | Some cand \<Rightarrow>
        (case CandTableSeek s c of
           None \<Rightarrow> set_rot c False s
         | Some pp \<Rightarrow>
            (let s3 = (if need_rotate s c cand (snd pp) then
                   (let s1 = CandTableResel c pp (CandTableEmpty c s) in
                    if LW_CAND_TCB s1 c \<noteq> Some cand \<and> \<not> TCB_bCPULock (k_tcb s1 cand)
                    then CandTableNotify c cand s1 else s1)
                 else s)
             in set_rot c False s3)))"

end
