(* ===== verification/Ready_Frame.thy ===== *)
theory Ready_Frame
  imports Cand_Table
begin

text \<open>
  Frames of the ready structures: what the operations of \<open>Cand_Table\<close> leave alone
  (\<open>sched_frame\<close>), and how the ring, the bitmap and the candidate of a table read after
  each elementary update.
\<close>

section \<open>Frames of the ready structures\<close>

definition rdy_bm :: "kernel \<Rightarrow> rdytab \<Rightarrow> bmap" where
  "rdy_bm s tab = PCBM_bmap (rdy_map s tab)"

definition tcb_core :: "tcb \<Rightarrow> tcb" where
  "tcb_core tc = tc\<lparr>TCB_bIsCand := False, TCB_ulCPUId := 0, TCB_usSchedCounter := 0\<rparr>"

definition cpu_core :: "cpu \<Rightarrow> cpu" where
  "cpu_core c = c\<lparr>CAND_ptcbCand := None, CAND_bNeedRotate := False,
     CPU_pcbbmapReady := \<lparr>PCBM_bmap = BitmapInit, PCBM_pcb = (\<lambda>_. [])\<rparr>\<rparr>"

definition kernel_core :: "kernel \<Rightarrow> kernel" where
  "kernel_core s = s\<lparr>k_tcb := \<lambda>t. tcb_core (k_tcb s t), k_cpu := \<lambda>c. cpu_core (k_cpu s c),
     k_global := \<lparr>PCBM_bmap = BitmapInit, PCBM_pcb = (\<lambda>_. [])\<rparr>, k_halt := False\<rparr>"

text \<open>\<open>sched_frame s s'\<close>: the two states differ only in the ready structures.\<close>

definition sched_frame :: "kernel \<Rightarrow> kernel \<Rightarrow> bool" where
  "sched_frame s s' \<longleftrightarrow> kernel_core s' = kernel_core s"

lemma sched_frame_refl [simp, intro]: "sched_frame s s"
  by (simp add: sched_frame_def)

lemma sched_frame_trans [trans]: "\<lbrakk>sched_frame s s'; sched_frame s' s''\<rbrakk> \<Longrightarrow> sched_frame s s''"
  by (simp add: sched_frame_def)

lemma kernel_core_tcb: "k_tcb (kernel_core s) t = tcb_core (k_tcb s t)"
  by (simp add: kernel_core_def)

lemma kernel_core_cpu: "k_cpu (kernel_core s) c = cpu_core (k_cpu s c)"
  by (simp add: kernel_core_def)

lemma sched_frame_tcb:
  assumes "sched_frame s s'" shows "tcb_core (k_tcb s' t) = tcb_core (k_tcb s t)"
  using assms by (metis kernel_core_tcb sched_frame_def)

lemma sched_frame_cpu:
  assumes "sched_frame s s'" shows "cpu_core (k_cpu s' c) = cpu_core (k_cpu s c)"
  using assms by (metis kernel_core_cpu sched_frame_def)

lemma tcb_core_eqD:
  assumes "tcb_core a = tcb_core b"
  shows "TCB_ulLastError a = TCB_ulLastError b" "TCB_iSchedRet a = TCB_iSchedRet b"
    "TCB_ucPriority a = TCB_ucPriority b" "TCB_usStatus a = TCB_usStatus b"
    "TCB_ucSchedPolicy a = TCB_ucSchedPolicy b" "TCB_ucSchedActivate a = TCB_ucSchedActivate b"
    "TCB_usSchedSlice a = TCB_usSchedSlice b" "TCB_bCPULock a = TCB_bCPULock b"
    "TCB_ulCPULock a = TCB_ulCPULock b" "TCB_ulThreadLockCounter a = TCB_ulThreadLockCounter b"
    "TCB_ulThreadSafeCounter a = TCB_ulThreadSafeCounter b"
    "TCB_ulSuspendNesting a = TCB_ulSuspendNesting b"
    "TCB_iDeleteProcStatus a = TCB_iDeleteProcStatus b" "TCB_ptcbDeleteMe a = TCB_ptcbDeleteMe b"
    "TCB_ptcbDeleteWait a = TCB_ptcbDeleteWait b"
    "TCB_ucWaitTimeout a = TCB_ucWaitTimeout b" "TCB_ucIsEventDelete a = TCB_ucIsEventDelete b"
    "TCB_peventPtr a = TCB_peventPtr b" "TCB_iPendQ a = TCB_iPendQ b"
    "TCB_ppringPriorityQueue a = TCB_ppringPriorityQueue b"
    "TCB_pvMsgBoxMessage a = TCB_pvMsgBoxMessage b" "rdy_tab a = rdy_tab b"
  using assms unfolding tcb_core_def rdy_tab_def by (cases a; cases b; simp)+

lemma cpu_core_eqD:
  assumes "cpu_core a = cpu_core b"
  shows "CPU_ptcbTCBCur a = CPU_ptcbTCBCur b" "CPU_ptcbTCBHigh a = CPU_ptcbTCBHigh b"
    "CPU_bIsIntSwitch a = CPU_bIsIntSwitch b" "CPU_iKernelCounter a = CPU_iKernelCounter b"
    "CPU_bOnlyAffinity a = CPU_bOnlyAffinity b" "CPU_iIPIPend a = CPU_iIPIPend b"
    "CPU_uiLockQuick a = CPU_uiLockQuick b" "CPU_ulStatus a = CPU_ulStatus b"
    "CPU_ulInterNesting a = CPU_ulInterNesting b" "CPU_ulInterError a = CPU_ulInterError b"
    "LW_CPU_IS_ACTIVE a = LW_CPU_IS_ACTIVE b"
  using assms unfolding cpu_core_def LW_CPU_IS_ACTIVE_def by (cases a; cases b; simp)+

lemmas sched_frame_tcbD = tcb_core_eqD[OF sched_frame_tcb]
lemmas sched_frame_cpuD = cpu_core_eqD[OF sched_frame_cpu]

lemma sched_frame_kernelD:
  assumes "sched_frame s s'"
  shows "k_event s' = k_event s" "k_delay s' = k_delay s" "k_freeEvents s' = k_freeEvents s"
    "k_resUsed s' = k_resUsed s" "k_resMaxUsed s' = k_resMaxUsed s" "k_ncpus s' = k_ncpus s"
    "k_curcpu s' = k_curcpu s" "k_i64KernelTime s' = k_i64KernelTime s"
    "k_ulNotRunError s' = k_ulNotRunError s" "k_deleteCalls s' = k_deleteCalls s"
    "k_tcbIdTable s' = k_tcbIdTable s"
  using assms unfolding sched_frame_def kernel_core_def by (cases s; cases s'; simp)+

lemma kernel_core_tcb_upd:
  "tcb_core (f (k_tcb s t)) = tcb_core (k_tcb s t) \<Longrightarrow> kernel_core (tcb_upd t f s) = kernel_core s"
  by (auto simp: kernel_core_def tcb_upd_def fun_eq_iff)

lemma kernel_core_cpu_upd:
  "cpu_core (f (k_cpu s c)) = cpu_core (k_cpu s c) \<Longrightarrow> kernel_core (cpu_upd c f s) = kernel_core s"
  by (auto simp: kernel_core_def cpu_upd_def fun_eq_iff)

lemma kernel_core_rdy_upd [simp]: "kernel_core (rdy_upd tab f s) = kernel_core s"
  by (cases tab) (auto simp: kernel_core_def cpu_upd_def cpu_core_def fun_eq_iff)

lemma kernel_core_basic [simp]:
  "kernel_core (set_cand c v s) = kernel_core s" "kernel_core (set_rot c b s) = kernel_core s"
  "kernel_core (rdy_ring_upd pp h s) = kernel_core s"
  "kernel_core (ReadyTableAdd t s) = kernel_core s" "kernel_core (ReadyTableDel t s) = kernel_core s"
  "kernel_core (AddTCBToReadyRing t pp b s) = kernel_core s"
  "kernel_core (DelTCBFromReadyRing t pp s) = kernel_core s"
  "kernel_core (halt_if b s) = kernel_core s"
  "kernel_core (tcb_upd t (\<lambda>x. x\<lparr>TCB_ulCPUId := n, TCB_bIsCand := b\<rparr>) s) = kernel_core s"
  "kernel_core (tcb_upd t (\<lambda>x. x\<lparr>TCB_bIsCand := b\<rparr>) s) = kernel_core s"
  "kernel_core (tcb_upd t (\<lambda>x. x\<lparr>TCB_usSchedCounter := g x\<rparr>) s) = kernel_core s"
  by (auto simp: set_cand_def set_rot_def rdy_ring_upd_def ReadyTableAdd_def ReadyTableDel_def
      AddTCBToReadyRing_def DelTCBFromReadyRing_def Let_def halt_if_def cpu_core_def
      tcb_core_def intro!: kernel_core_tcb_upd kernel_core_cpu_upd)
    (simp add: kernel_core_def)

lemma kernel_core_place [simp]: "kernel_core (try_place t i s) = kernel_core s"
  by (simp add: try_place_def)

lemma kernel_core_Next [simp]: "kernel_core (snd (CandTableNext pp s)) = kernel_core s"
  by (simp add: CandTableNext_def Let_def)

lemma kernel_core_pick [simp]:
  "kernel_core (CandTableResel c pp s) = kernel_core s"
  "kernel_core (CandTableFill c s) = kernel_core s"
  "kernel_core (CandTableEmpty c s) = kernel_core s"
proof -
  show R: "kernel_core (CandTableResel c pp s) = kernel_core s" for pp
    by (simp add: CandTableResel_def Let_def split_beta)
  show "kernel_core (CandTableFill c s) = kernel_core s"
    by (simp add: CandTableFill_def R split: option.splits)
  show "kernel_core (CandTableEmpty c s) = kernel_core s"
    by (simp add: CandTableEmpty_def Let_def)
qed

lemma kernel_core_loops [simp]:
  "kernel_core (snd (TryAdd_idle_loop t is s)) = kernel_core s"
  "kernel_core (snd (TryAdd_rot_loop t is s)) = kernel_core s"
  "kernel_core (snd (Notify_idle_loop is s)) = kernel_core s"
  "kernel_core (Notify_rot_loop t is s) = kernel_core s"
proof -
  show "kernel_core (snd (TryAdd_idle_loop t is s)) = kernel_core s"
    by (induction t "is" s rule: TryAdd_idle_loop.induct) (auto split: option.splits)
  show "kernel_core (snd (TryAdd_rot_loop t is s)) = kernel_core s"
    by (induction t "is" s rule: TryAdd_rot_loop.induct) (auto split: option.splits)
  show "kernel_core (snd (Notify_idle_loop is s)) = kernel_core s"
    by (induction "is" s rule: Notify_idle_loop.induct) auto
  show "kernel_core (Notify_rot_loop t is s) = kernel_core s"
    by (induction t "is" s rule: Notify_rot_loop.induct) auto
qed

lemma kernel_core_Notify [simp]: "kernel_core (CandTableNotify c t s) = kernel_core s"
  by (simp add: CandTableNotify_def split_beta)

lemma kernel_core_Update [simp]: "kernel_core (CandTableUpdate c s) = kernel_core s"
  by (simp add: CandTableUpdate_def Let_def split: option.splits)

lemma kernel_core_unlocked [simp]: "kernel_core (snd (TryAdd_unlocked t s)) = kernel_core s"
  by (auto simp: TryAdd_unlocked_def Let_def split_beta split: option.splits try_result.splits)

lemma kernel_core_locked [simp]: "kernel_core (snd (TryAdd_locked t s)) = kernel_core s"
  by (simp add: TryAdd_locked_def Let_def split: option.splits)

lemma kernel_core_ring_ops [simp]:
  "kernel_core (snd (CandTableTryAdd t pp s)) = kernel_core s"
  "kernel_core (CandTableTryDel t pp s) = kernel_core s"
  "kernel_core (ADD_TO_READY_RING t pp s) = kernel_core s"
  "kernel_core (DEL_FROM_READY_RING t pp s) = kernel_core s"
proof -
  show TA: "kernel_core (snd (CandTableTryAdd t pp s)) = kernel_core s"
    by (auto simp: CandTableTryAdd_def Let_def split_beta split: try_result.splits)
  show TD: "kernel_core (CandTableTryDel t pp s) = kernel_core s" for s
    by (simp add: CandTableTryDel_def Let_def)
  show "kernel_core (ADD_TO_READY_RING t pp s) = kernel_core s"
    using TA by (simp add: ADD_TO_READY_RING_def split_beta)
  show "kernel_core (DEL_FROM_READY_RING t pp s) = kernel_core s"
    by (simp add: DEL_FROM_READY_RING_def TD)
qed

lemma sched_frame_ops [simp]:
  "sched_frame s (ADD_TO_READY_RING t pp s)" "sched_frame s (DEL_FROM_READY_RING t pp s)"
  "sched_frame s (CandTableUpdate c s)" "sched_frame s (CandTableResel c pp s)"
  "sched_frame s (CandTableEmpty c s)" "sched_frame s (CandTableFill c s)"
  by (simp_all add: sched_frame_def)

section \<open>Reading the ready structures after an update\<close>

lemma rdy_map_upd [simp]:
  "rdy_map (rdy_upd tab f s) tab' = (if tab' = tab then f (rdy_map s tab) else rdy_map s tab')"
  by (cases tab; cases tab') auto

lemma rdy_map_other [simp]:
  "rdy_map (tcb_upd t g s) tab = rdy_map s tab" "rdy_map (event_upd e h s) tab = rdy_map s tab"
  "rdy_map (set_cand c v s) tab = rdy_map s tab" "rdy_map (set_rot c b s) tab = rdy_map s tab"
  "rdy_map (halt_if b s) tab = rdy_map s tab"
  by (cases tab; simp add: set_cand_def set_rot_def)+

lemma k_tcb_rdy [simp]:
  "k_tcb (rdy_upd tab f s) = k_tcb s" "k_tcb (rdy_ring_upd pp h s) = k_tcb s"
  "k_tcb (ReadyTableAdd t s) = k_tcb s" "k_tcb (ReadyTableDel t s) = k_tcb s"
  "k_tcb (AddTCBToReadyRing t pp b s) = k_tcb s" "k_tcb (DelTCBFromReadyRing t pp s) = k_tcb s"
  "k_tcb (set_cand c v s) = k_tcb s" "k_tcb (set_rot c r s) = k_tcb s"
proof -
  show *: "k_tcb (rdy_upd tab f s) = k_tcb s" for tab f by (cases tab) auto
  show "k_tcb (rdy_ring_upd pp h s) = k_tcb s" "k_tcb (ReadyTableAdd t s) = k_tcb s"
    "k_tcb (ReadyTableDel t s) = k_tcb s" "k_tcb (AddTCBToReadyRing t pp b s) = k_tcb s"
    "k_tcb (DelTCBFromReadyRing t pp s) = k_tcb s" "k_tcb (set_cand c v s) = k_tcb s"
    "k_tcb (set_rot c r s) = k_tcb s"
    by (simp_all add: * rdy_ring_upd_def ReadyTableAdd_def ReadyTableDel_def AddTCBToReadyRing_def
        DelTCBFromReadyRing_def Let_def set_cand_def set_rot_def)
qed

lemma k_ncpus_rdy [simp]:
  "k_ncpus (rdy_upd tab f s) = k_ncpus s" "k_ncpus (rdy_ring_upd pp h s) = k_ncpus s"
  "k_ncpus (ReadyTableAdd t s) = k_ncpus s" "k_ncpus (ReadyTableDel t s) = k_ncpus s"
  "k_ncpus (AddTCBToReadyRing t pp b s) = k_ncpus s" "k_ncpus (DelTCBFromReadyRing t pp s) = k_ncpus s"
  "k_ncpus (set_cand c v s) = k_ncpus s" "k_ncpus (set_rot c r s) = k_ncpus s"
proof -
  show *: "k_ncpus (rdy_upd tab f s) = k_ncpus s" for tab f by (cases tab) auto
  show "k_ncpus (rdy_ring_upd pp h s) = k_ncpus s" "k_ncpus (ReadyTableAdd t s) = k_ncpus s"
    "k_ncpus (ReadyTableDel t s) = k_ncpus s" "k_ncpus (AddTCBToReadyRing t pp b s) = k_ncpus s"
    "k_ncpus (DelTCBFromReadyRing t pp s) = k_ncpus s" "k_ncpus (set_cand c v s) = k_ncpus s"
    "k_ncpus (set_rot c r s) = k_ncpus s"
    by (simp_all add: * rdy_ring_upd_def ReadyTableAdd_def ReadyTableDel_def AddTCBToReadyRing_def
        DelTCBFromReadyRing_def Let_def set_cand_def set_rot_def)
qed

lemma rdy_ring_simps [simp]:
  "rdy_ring (rdy_ring_upd pp f s) pp' = (if pp' = pp then f (rdy_ring s pp) else rdy_ring s pp')"
  "rdy_ring (ReadyTableAdd t s) pp' = rdy_ring s pp'"
  "rdy_ring (ReadyTableDel t s) pp' = rdy_ring s pp'"
  "rdy_ring (tcb_upd t g s) pp' = rdy_ring s pp'" "rdy_ring (event_upd e h s) pp' = rdy_ring s pp'"
  "rdy_ring (set_cand c v s) pp' = rdy_ring s pp'" "rdy_ring (set_rot c b s) pp' = rdy_ring s pp'"
  "rdy_ring (halt_if b s) pp' = rdy_ring s pp'"
  "rdy_ring (DelTCBFromReadyRing t pp s) pp' =
     (if pp' = pp then remove1 t (rdy_ring s pp) else rdy_ring s pp')"
  by (auto simp: rdy_ring_def rdy_ring_upd_def ReadyTableAdd_def ReadyTableDel_def
      DelTCBFromReadyRing_def prod_eq_iff)

lemma rdy_bm_simps [simp]:
  "rdy_bm (rdy_ring_upd pp f s) tab = rdy_bm s tab"
  "rdy_bm (ReadyTableAdd t s) tab = (if tab = rdy_tab (k_tcb s t)
     then BitmapAdd (rdy_bm s tab) (tcb_prio s t) else rdy_bm s tab)"
  "rdy_bm (ReadyTableDel t s) tab = (if tab = rdy_tab (k_tcb s t)
     then BitmapDel (rdy_bm s tab) (tcb_prio s t) else rdy_bm s tab)"
  "rdy_bm (tcb_upd t g s) tab = rdy_bm s tab" "rdy_bm (event_upd e h s) tab = rdy_bm s tab"
  "rdy_bm (set_cand c v s) tab = rdy_bm s tab" "rdy_bm (set_rot c b s) tab = rdy_bm s tab"
  "rdy_bm (halt_if b s) tab = rdy_bm s tab"
  "rdy_bm (DelTCBFromReadyRing t pp s) tab = rdy_bm s tab"
  "rdy_bm (AddTCBToReadyRing t pp b s) tab = rdy_bm s tab"
  by (auto simp: rdy_bm_def rdy_ring_upd_def ReadyTableAdd_def ReadyTableDel_def
      DelTCBFromReadyRing_def AddTCBToReadyRing_def Let_def)

lemma cand_rdy_upd [simp]:
  "CAND_ptcbCand (k_cpu (rdy_upd tab f s) c) = CAND_ptcbCand (k_cpu s c)"
  "CAND_bNeedRotate (k_cpu (rdy_upd tab f s) c) = CAND_bNeedRotate (k_cpu s c)"
  by (cases tab; auto)+

lemma LW_CAND_TCB_simps [simp]:
  "LW_CAND_TCB (set_cand c v s) c' = (if c' = c then v else LW_CAND_TCB s c')"
  "LW_CAND_TCB (set_rot c b s) c' = LW_CAND_TCB s c'"
  "LW_CAND_TCB (rdy_ring_upd pp f s) c' = LW_CAND_TCB s c'"
  "LW_CAND_TCB (ReadyTableAdd t s) c' = LW_CAND_TCB s c'"
  "LW_CAND_TCB (ReadyTableDel t s) c' = LW_CAND_TCB s c'"
  "LW_CAND_TCB (tcb_upd t g s) c' = LW_CAND_TCB s c'"
  "LW_CAND_TCB (event_upd e h s) c' = LW_CAND_TCB s c'"
  "LW_CAND_TCB (halt_if b s) c' = LW_CAND_TCB s c'"
  "LW_CAND_TCB (DelTCBFromReadyRing t pp s) c' = LW_CAND_TCB s c'"
  "LW_CAND_TCB (AddTCBToReadyRing t pp b s) c' = LW_CAND_TCB s c'"
  by (auto simp: LW_CAND_TCB_def set_cand_def set_rot_def rdy_ring_upd_def ReadyTableAdd_def
      ReadyTableDel_def DelTCBFromReadyRing_def AddTCBToReadyRing_def Let_def)

lemma LW_CAND_ROT_simps [simp]:
  "LW_CAND_ROT (set_rot c b s) c' = (if c' = c then b else LW_CAND_ROT s c')"
  "LW_CAND_ROT (set_cand c v s) c' = LW_CAND_ROT s c'"
  "LW_CAND_ROT (rdy_ring_upd pp f s) c' = LW_CAND_ROT s c'"
  "LW_CAND_ROT (ReadyTableAdd t s) c' = LW_CAND_ROT s c'"
  "LW_CAND_ROT (ReadyTableDel t s) c' = LW_CAND_ROT s c'"
  "LW_CAND_ROT (tcb_upd t g s) c' = LW_CAND_ROT s c'"
  "LW_CAND_ROT (event_upd e h s) c' = LW_CAND_ROT s c'"
  "LW_CAND_ROT (halt_if d s) c' = LW_CAND_ROT s c'"
  "LW_CAND_ROT (DelTCBFromReadyRing t pp s) c' = LW_CAND_ROT s c'"
  "LW_CAND_ROT (AddTCBToReadyRing t pp b s) c' = LW_CAND_ROT s c'"
  by (auto simp: LW_CAND_ROT_def set_cand_def set_rot_def rdy_ring_upd_def ReadyTableAdd_def
      ReadyTableDel_def DelTCBFromReadyRing_def AddTCBToReadyRing_def Let_def)

lemma k_halt_rdy [simp]:
  "k_halt (rdy_ring_upd pp f s) = k_halt s" "k_halt (ReadyTableAdd t s) = k_halt s"
  "k_halt (ReadyTableDel t s) = k_halt s" "k_halt (set_cand c v s) = k_halt s"
  "k_halt (set_rot c b s) = k_halt s" "k_halt (DelTCBFromReadyRing t pp s) = k_halt s"
  "k_halt (AddTCBToReadyRing t pp b s) = k_halt s"
proof -
  have *: "k_halt (rdy_upd tab f s) = k_halt s" for tab f by (cases tab) auto
  show "k_halt (rdy_ring_upd pp f s) = k_halt s" "k_halt (ReadyTableAdd t s) = k_halt s"
    "k_halt (ReadyTableDel t s) = k_halt s" "k_halt (set_cand c v s) = k_halt s"
    "k_halt (set_rot c b s) = k_halt s" "k_halt (DelTCBFromReadyRing t pp s) = k_halt s"
    "k_halt (AddTCBToReadyRing t pp b s) = k_halt s"
    by (simp_all add: * rdy_ring_upd_def ReadyTableAdd_def ReadyTableDel_def AddTCBToReadyRing_def
        DelTCBFromReadyRing_def Let_def set_cand_def set_rot_def)
qed

text \<open>Adding to a ring keeps the other rings and adds exactly the thread.\<close>

lemma rdy_ring_AddTCB:
  assumes "t \<notin> set (rdy_ring s pp)" "distinct (rdy_ring s pp)"
  shows "set (rdy_ring (AddTCBToReadyRing t pp b s) pp) = insert t (set (rdy_ring s pp))"
    "distinct (rdy_ring (AddTCBToReadyRing t pp b s) pp)"
    "pp' \<noteq> pp \<Longrightarrow> rdy_ring (AddTCBToReadyRing t pp b s) pp' = rdy_ring s pp'"
  using assms by (auto simp: AddTCBToReadyRing_def Let_def)

lemma rdy_ring_AddTCB_header [simp]:
  "rdy_ring (AddTCBToReadyRing t pp True s) pp' =
     (if pp' = pp then t # rdy_ring s pp else rdy_ring s pp')"
  by (simp add: AddTCBToReadyRing_def)

lemma GetPcb_other [simp]:
  "GetPcb (set_cand c v s) t = GetPcb s t" "GetPcb (set_rot c b s) t = GetPcb s t"
  "GetPcb (ReadyTableAdd u s) t = GetPcb s t" "GetPcb (ReadyTableDel u s) t = GetPcb s t"
  "GetPcb (rdy_ring_upd pp f s) t = GetPcb s t"
  "GetPcb (DelTCBFromReadyRing u pp s) t = GetPcb s t"
  "GetPcb (AddTCBToReadyRing u pp d s) t = GetPcb s t"
  "GetPcb (event_upd e h s) t = GetPcb s t"
  by (simp_all add: GetPcb_def)

lemma GetPcb_frame: "sched_frame s s' \<Longrightarrow> GetPcb s' t = GetPcb s t"
  by (simp add: GetPcb_def sched_frame_tcbD)

end
