(* ===== verification/Ready_Inv.thy ===== *)
theory Ready_Inv
  imports Ready_Frame
begin

text \<open>
  The invariant of the ready structures.  \<open>sched_inv R s\<close> states that exactly the
  threads of \<open>R\<close> are placed, each once: as candidate of one CPU or in the ring of its
  priority in its home table; that the bitmaps hold exactly the non-empty rings;
  and that the idle thread of every CPU (the TCB whose index is the CPU number) is
  placed and locked to its CPU at the lowest priority.  The operations of
  \<open>Cand_Table\<close> preserve it, and \<open>_CandTableUpdate\<close> selects a highest-priority thread.
\<close>

section \<open>The invariant\<close>

definition rings_ok :: "tid set \<Rightarrow> kernel \<Rightarrow> bool" where
  "rings_ok R s \<longleftrightarrow> (\<forall>pp. distinct (rdy_ring s pp) \<and>
     (\<forall>t. t \<in> set (rdy_ring s pp) \<longleftrightarrow> t \<in> R \<and> \<not> TCB_bIsCand (k_tcb s t) \<and> GetPcb s t = pp))"

definition bms_ok :: "kernel \<Rightarrow> bool" where
  "bms_ok s \<longleftrightarrow> (\<forall>tab. bm_wf (rdy_bm s tab) \<and>
     (\<forall>p. bm_mem (rdy_bm s tab) p \<longleftrightarrow> rdy_ring s (tab, p) \<noteq> []))"

definition cands_ok :: "cpuid set \<Rightarrow> tid set \<Rightarrow> kernel \<Rightarrow> bool" where
  "cands_ok D R s \<longleftrightarrow>
     (\<forall>c t. c \<notin> D \<longrightarrow> LW_CAND_TCB s c = Some t \<longrightarrow>
        t \<in> R \<and> TCB_bIsCand (k_tcb s t) \<and> TCB_ulCPUId (k_tcb s t) = c
        \<and> (TCB_bCPULock (k_tcb s t) \<longrightarrow> TCB_ulCPULock (k_tcb s t) = c)) \<and>
     (\<forall>t. TCB_bIsCand (k_tcb s t) \<longrightarrow>
        TCB_ulCPUId (k_tcb s t) \<notin> D \<and> LW_CAND_TCB s (TCB_ulCPUId (k_tcb s t)) = Some t)"

definition ids_ok :: "tid set \<Rightarrow> kernel \<Rightarrow> bool" where
  "ids_ok R s \<longleftrightarrow>
     (\<forall>t. TCB_ulCPUId (k_tcb s t) < k_ncpus s \<and>
        (TCB_bCPULock (k_tcb s t) \<longrightarrow> TCB_ulCPULock (k_tcb s t) < k_ncpus s)) \<and>
     (\<forall>c<k_ncpus s. c \<in> R \<and> TCB_bCPULock (k_tcb s c) \<and> TCB_ulCPULock (k_tcb s c) = c
        \<and> tcb_prio s c = LW_PRIO_LOWEST)"

text \<open>\<open>sched_invx D R s\<close>: the CPUs of \<open>D\<close> have no valid candidate at the moment.\<close>

definition sched_invx :: "cpuid set \<Rightarrow> tid set \<Rightarrow> kernel \<Rightarrow> bool" where
  "sched_invx D R s \<longleftrightarrow> rings_ok R s \<and> bms_ok s \<and> cands_ok D R s \<and> ids_ok R s"

definition sched_inv :: "tid set \<Rightarrow> kernel \<Rightarrow> bool" where
  "sched_inv R s \<longleftrightarrow> sched_invx {} R s"

lemma sched_invx_rings: "sched_invx D R s \<Longrightarrow> rings_ok R s"
  and sched_invx_bms: "sched_invx D R s \<Longrightarrow> bms_ok s"
  and sched_invx_cands: "sched_invx D R s \<Longrightarrow> cands_ok D R s"
  and sched_invx_ids: "sched_invx D R s \<Longrightarrow> ids_ok R s"
  by (simp_all add: sched_invx_def)

lemma cands_okD1:
  assumes "cands_ok D R s" "LW_CAND_TCB s c = Some t" "c \<notin> D"
  shows "t \<in> R" "TCB_bIsCand (k_tcb s t)" "TCB_ulCPUId (k_tcb s t) = c"
    "TCB_bCPULock (k_tcb s t) \<Longrightarrow> TCB_ulCPULock (k_tcb s t) = c"
  using assms unfolding cands_ok_def by blast+

lemma cands_okD2:
  assumes "cands_ok D R s" "TCB_bIsCand (k_tcb s t)"
  shows "TCB_ulCPUId (k_tcb s t) \<notin> D" "LW_CAND_TCB s (TCB_ulCPUId (k_tcb s t)) = Some t"
  using assms unfolding cands_ok_def by blast+

lemma cands_okI:
  assumes "\<And>c t. \<lbrakk>LW_CAND_TCB s c = Some t; c \<notin> D\<rbrakk> \<Longrightarrow> t \<in> R \<and> TCB_bIsCand (k_tcb s t)
      \<and> TCB_ulCPUId (k_tcb s t) = c \<and> (TCB_bCPULock (k_tcb s t) \<longrightarrow> TCB_ulCPULock (k_tcb s t) = c)"
    and "\<And>t. TCB_bIsCand (k_tcb s t) \<Longrightarrow> TCB_ulCPUId (k_tcb s t) \<notin> D
      \<and> LW_CAND_TCB s (TCB_ulCPUId (k_tcb s t)) = Some t"
  shows "cands_ok D R s"
  using assms unfolding cands_ok_def by blast

text \<open>The invariant reads only the placement of threads.\<close>

lemma sched_invx_cong:
  assumes "sched_invx D R s"
    and "\<And>pp. rdy_ring s' pp = rdy_ring s pp" "\<And>tab. rdy_bm s' tab = rdy_bm s tab"
    and "\<And>c. LW_CAND_TCB s' c = LW_CAND_TCB s c" "k_ncpus s' = k_ncpus s"
    and "\<And>t. TCB_bIsCand (k_tcb s' t) = TCB_bIsCand (k_tcb s t)"
      "\<And>t. TCB_ulCPUId (k_tcb s' t) = TCB_ulCPUId (k_tcb s t)"
      "\<And>t. TCB_bCPULock (k_tcb s' t) = TCB_bCPULock (k_tcb s t)"
      "\<And>t. TCB_ulCPULock (k_tcb s' t) = TCB_ulCPULock (k_tcb s t)"
      "\<And>t. tcb_prio s' t = tcb_prio s t"
  shows "sched_invx D R s'"
proof -
  have "GetPcb s' t = GetPcb s t" for t by (simp add: GetPcb_def rdy_tab_def assms)
  then show ?thesis using assms(1)
    unfolding sched_invx_def rings_ok_def bms_ok_def cands_ok_def ids_ok_def assms(2-) by simp
qed

lemma sched_inv_set_rot [simp]: "sched_invx D R (set_rot c b s) \<longleftrightarrow> sched_invx D R s"
  by (auto elim: sched_invx_cong)

lemma sched_inv_set_rot' [simp]: "sched_inv R (set_rot c b s) \<longleftrightarrow> sched_inv R s"
  by (simp add: sched_inv_def)

lemma rings_okD:
  assumes "rings_ok R s" "t \<in> set (rdy_ring s pp)"
  shows "t \<in> R" "\<not> TCB_bIsCand (k_tcb s t)" "GetPcb s t = pp"
  using assms unfolding rings_ok_def by blast+

lemma rings_ok_mem:
  "rings_ok R s \<Longrightarrow> t \<in> set (rdy_ring s pp) \<longleftrightarrow> t \<in> R \<and> \<not> TCB_bIsCand (k_tcb s t) \<and> GetPcb s t = pp"
  and rings_ok_distinct: "rings_ok R s \<Longrightarrow> distinct (rdy_ring s pp)"
  unfolding rings_ok_def by blast+

lemma rings_okI:
  assumes "\<And>pp. distinct (rdy_ring s pp)"
    and "\<And>pp t. t \<in> set (rdy_ring s pp) \<longleftrightarrow> t \<in> R \<and> \<not> TCB_bIsCand (k_tcb s t) \<and> GetPcb s t = pp"
  shows "rings_ok R s"
  using assms unfolding rings_ok_def by blast

section \<open>Choosing a candidate\<close>

lemma CandTableNext_inv:
  assumes inv: "sched_invx D R s" and ne: "rdy_ring s pp \<noteq> []"
    and n: "CandTableNext pp s = (t, s1)"
  shows "sched_invx D R s1" "t \<in> set (rdy_ring s pp)" "set (rdy_ring s1 pp) = set (rdy_ring s pp)"
    "\<And>c. LW_CAND_TCB s1 c = LW_CAND_TCB s c" "k_halt s1 = k_halt s"
    "\<And>c. LW_CAND_ROT s1 c = LW_CAND_ROT s c"
proof -
  have hd: "hd (rdy_ring s pp) \<in> set (rdy_ring s pp)" using ne by simp
  have hd': "hd (rotate1 (rdy_ring s pp)) \<in> set (rdy_ring s pp)"
    using ne by (metis hd_in_set rotate1_is_Nil_conv set_rotate1)
  have inv': "sched_invx D R (rdy_ring_upd pp ring_next (tcb_upd u (\<lambda>x. x\<lparr>TCB_usSchedCounter := g x\<rparr>) s))"
    (is "sched_invx D R ?s'") for u g
  proof -
    have set: "set (rdy_ring ?s' pp') = set (rdy_ring s pp')" "distinct (rdy_ring ?s' pp') = distinct (rdy_ring s pp')"
      "rdy_ring ?s' pp' = [] \<longleftrightarrow> rdy_ring s pp' = []" for pp' by auto
    have tcb: "TCB_bIsCand (k_tcb ?s' v) = TCB_bIsCand (k_tcb s v)"
      "TCB_ulCPUId (k_tcb ?s' v) = TCB_ulCPUId (k_tcb s v)"
      "TCB_bCPULock (k_tcb ?s' v) = TCB_bCPULock (k_tcb s v)"
      "TCB_ulCPULock (k_tcb ?s' v) = TCB_ulCPULock (k_tcb s v)"
      "tcb_prio ?s' v = tcb_prio s v" for v by auto
    then have pcb: "GetPcb ?s' v = GetPcb s v" for v by (simp add: GetPcb_def rdy_tab_def)
    show ?thesis using inv
      unfolding sched_invx_def rings_ok_def bms_ok_def cands_ok_def ids_ok_def
      by (simp only: set tcb pcb LW_CAND_TCB_simps rdy_bm_simps k_ncpus_rdy tcb_upd_simps simp_thms)
        blast
  qed
  show "sched_invx D R s1" "t \<in> set (rdy_ring s pp)" "set (rdy_ring s1 pp) = set (rdy_ring s pp)"
    "\<And>c. LW_CAND_TCB s1 c = LW_CAND_TCB s c" "k_halt s1 = k_halt s"
    "\<And>c. LW_CAND_ROT s1 c = LW_CAND_ROT s c"
    using n hd hd' inv inv'[of "hd (rdy_ring s pp)" TCB_usSchedSlice]
    by (auto simp: CandTableNext_def Let_def split: if_splits)
qed

lemma take_candidate_inv:
  assumes inv: "sched_invx {c} R s" and t: "t \<in> set (rdy_ring s pp)"
    and tab: "fst pp = Global \<or> fst pp = CpuTab c" and c: "c < k_ncpus s"
  defines "s3 \<equiv> tcb_upd t (\<lambda>x. x\<lparr>TCB_ulCPUId := c, TCB_bIsCand := True\<rparr>) (set_cand c (Some t) s)"
  defines "s4 \<equiv> DelTCBFromReadyRing t pp s3"
  shows "sched_inv R (if PcbIsEmpty s4 pp then ReadyTableDel t s4 else s4)"
proof -
  let ?f = "if PcbIsEmpty s4 pp then ReadyTableDel t s4 else s4"
  have r: "rings_ok R s" and b: "bms_ok s" and cd: "cands_ok {c} R s" and i: "ids_ok R s"
    using inv by (simp_all add: sched_invx_def)
  have tR: "t \<in> R" "\<not> TCB_bIsCand (k_tcb s t)" "GetPcb s t = pp" using rings_okD[OF r t] by auto
  have tcb: "k_tcb ?f = (k_tcb s)(t := (k_tcb s t)\<lparr>TCB_ulCPUId := c, TCB_bIsCand := True\<rparr>)"
    by (simp add: s4_def s3_def)
  have ring: "rdy_ring ?f pp' = (if pp' = pp then remove1 t (rdy_ring s pp) else rdy_ring s pp')" for pp'
    by (simp add: s4_def s3_def)
  have pcb: "GetPcb ?f u = GetPcb s u" for u by (simp add: GetPcb_def tcb rdy_tab_def)
  have cand: "LW_CAND_TCB ?f c' = (if c' = c then Some t else LW_CAND_TCB s c')" for c'
    by (simp add: s4_def s3_def)
  have n: "k_ncpus ?f = k_ncpus s" by (simp add: s4_def s3_def)
  have lock: "TCB_bCPULock (k_tcb s t) \<Longrightarrow> TCB_ulCPULock (k_tcb s t) = c"
    using tR(3) tab by (auto simp: GetPcb_def rdy_tab_def split: if_splits)
  have "rings_ok R ?f"
    using r tR unfolding rings_ok_def ring pcb tcb by (auto simp del: split_paired_All)
  moreover have "bms_ok ?f"
  proof -
    have bm: "rdy_bm ?f tab = (if tab = fst pp \<and> remove1 t (rdy_ring s pp) = []
        then BitmapDel (rdy_bm s tab) (snd pp) else rdy_bm s tab)" for tab
      using tR(3) by (auto simp: s4_def s3_def PcbIsEmpty_def GetPcb_def rdy_tab_def)
    have "rdy_ring s pp \<noteq> []" using t by auto
    moreover have wf: "bm_wf (rdy_bm s tab)"
      and mem: "bm_mem (rdy_bm s tab) p \<longleftrightarrow> rdy_ring s (tab, p) \<noteq> []" for tab p
      using b by (simp_all add: bms_ok_def)
    ultimately show ?thesis unfolding bms_ok_def bm ring
      by (cases pp) (simp add: wf mem)
  qed
  moreover have "cands_ok {} R ?f"
  proof (rule cands_okI)
    fix c' u assume cu: "LW_CAND_TCB ?f c' = Some u" "c' \<notin> {}"
    show "u \<in> R \<and> TCB_bIsCand (k_tcb ?f u) \<and> TCB_ulCPUId (k_tcb ?f u) = c'
        \<and> (TCB_bCPULock (k_tcb ?f u) \<longrightarrow> TCB_ulCPULock (k_tcb ?f u) = c')"
    proof (cases "c' = c")
      case True
      then have "u = t" using cu(1) cand by simp
      then show ?thesis using tR(1) lock True by (simp add: tcb)
    next
      case False
      then have "LW_CAND_TCB s c' = Some u" using cu(1) cand by simp
      note C = cands_okD1[OF cd this] 
      then have "u \<noteq> t" using tR(2) False by auto
      then show ?thesis using C False by (simp add: tcb)
    qed
  next
    fix u assume u: "TCB_bIsCand (k_tcb ?f u)"
    show "TCB_ulCPUId (k_tcb ?f u) \<notin> {} \<and> LW_CAND_TCB ?f (TCB_ulCPUId (k_tcb ?f u)) = Some u"
    proof (cases "u = t")
      case True
      then show ?thesis by (simp add: tcb cand)
    next
      case False
      then have "TCB_bIsCand (k_tcb s u)" using u by (simp add: tcb)
      then show ?thesis using cands_okD2[OF cd] False by (simp add: tcb cand)
    qed
  qed
  moreover have "ids_ok R ?f"
    using i c lock unfolding ids_ok_def n tcb by auto
  ultimately show ?thesis by (simp add: sched_inv_def sched_invx_def)
qed

lemma CandTableResel_inv:
  assumes inv: "sched_invx {c} R s" and ne: "rdy_ring s pp \<noteq> []"
    and tab: "fst pp = Global \<or> fst pp = CpuTab c" and c: "c < k_ncpus s"
  shows "sched_inv R (CandTableResel c pp s)"
    "\<exists>t\<in>set (rdy_ring s pp). LW_CAND_TCB (CandTableResel c pp s) c = Some t"
    "c' \<noteq> c \<Longrightarrow> LW_CAND_TCB (CandTableResel c pp s) c' = LW_CAND_TCB s c'"
    "k_halt (CandTableResel c pp s) = k_halt s"
    "LW_CAND_ROT (CandTableResel c pp s) c'' = LW_CAND_ROT s c''"
proof -
  obtain t s1 where n: "CandTableNext pp s = (t, s1)" by fastforce
  note N = CandTableNext_inv[OF inv ne n]
  have nc: "k_ncpus s1 = k_ncpus s"
    using n by (auto simp: CandTableNext_def Let_def split: if_splits)
  show "sched_inv R (CandTableResel c pp s)"
    unfolding CandTableResel_def n Let_def prod.case
    by (rule take_candidate_inv[OF N(1)]) (use N tab c nc in auto)
  show "\<exists>t\<in>set (rdy_ring s pp). LW_CAND_TCB (CandTableResel c pp s) c = Some t"
    "c' \<noteq> c \<Longrightarrow> LW_CAND_TCB (CandTableResel c pp s) c' = LW_CAND_TCB s c'"
    "k_halt (CandTableResel c pp s) = k_halt s"
    "LW_CAND_ROT (CandTableResel c pp s) c'' = LW_CAND_ROT s c''"
    using N by (auto simp: CandTableResel_def n Let_def)
qed

section \<open>\<open>_CandTableSeek\<close> and \<open>_CandTableFill\<close>\<close>

definition tab_visible :: "kernel \<Rightarrow> cpuid \<Rightarrow> rdytab \<Rightarrow> bool" where
  "tab_visible s c tab \<longleftrightarrow> tab = CpuTab c \<or> (tab = Global \<and> \<not> CPU_bOnlyAffinity (k_cpu s c))"

lemma bms_ok_empty:
  assumes "bms_ok s"
  shows "BitmapIsEmpty (rdy_bm s tab) \<longleftrightarrow> (\<forall>p. rdy_ring s (tab, p) = [])"
  using assms bm_mem_nonempty bm_High_mem(1) unfolding bms_ok_def by metis

lemma bms_ok_High:
  assumes b: "bms_ok s" and ne: "\<not> BitmapIsEmpty (rdy_bm s tab)"
  shows "rdy_ring s (tab, BitmapHigh (rdy_bm s tab)) \<noteq> []"
    "rdy_ring s (tab, p) \<noteq> [] \<Longrightarrow> BitmapHigh (rdy_bm s tab) \<le> p"
  using assms bm_High_mem unfolding bms_ok_def by blast+

lemma CandTableSeek_Some:
  assumes b: "bms_ok s" and seek: "CandTableSeek s c = Some pp"
  shows "rdy_ring s pp \<noteq> []" "tab_visible s c (fst pp)"
    "\<And>tab p. \<lbrakk>tab_visible s c tab; rdy_ring s (tab, p) \<noteq> []\<rbrakk> \<Longrightarrow> snd pp \<le> p"
proof -
  let ?l = "rdy_bm s (CpuTab c)" and ?g = "rdy_bm s Global"
  note H = bms_ok_High[OF b]
  have E: "BitmapIsEmpty (rdy_bm s tab) \<Longrightarrow> rdy_ring s (tab, p) = []" for tab p
    using bms_ok_empty[OF b] by blast
  have P: "LW_PRIO_IS_HIGH_OR_EQU a b = (a \<le> b)" for a b by (simp add: LW_PRIO_IS_HIGH_OR_EQU_def)
  show "rdy_ring s pp \<noteq> []"
    using seek H(1)[of "CpuTab c"] H(1)[of Global]
    by (auto simp: CandTableSeek_def rdy_bm_def Let_def split: if_splits)
  show "tab_visible s c (fst pp)"
    using seek by (auto simp: CandTableSeek_def tab_visible_def Let_def split: if_splits)
  fix tab p assume v: "tab_visible s c tab" and n: "rdy_ring s (tab, p) \<noteq> []"
  then have ne: "\<not> BitmapIsEmpty (rdy_bm s tab)" using E by blast
  have hp: "BitmapHigh (rdy_bm s tab) \<le> p" by (rule H(2)[OF ne n])
  show "snd pp \<le> p"
    using seek v ne hp unfolding CandTableSeek_def Let_def P tab_visible_def rdy_bm_def[symmetric]
    by (auto split: if_splits)
qed

lemma CandTableSeek_None:
  assumes b: "bms_ok s"
  shows "CandTableSeek s c = None \<longleftrightarrow> (\<forall>tab p. tab_visible s c tab \<longrightarrow> rdy_ring s (tab, p) = [])"
  unfolding CandTableSeek_def Let_def tab_visible_def rdy_bm_def[symmetric]
  using bms_ok_empty[OF b] by auto

lemma tab_visible_cases: "tab_visible s c tab \<Longrightarrow> tab = Global \<or> tab = CpuTab c"
  by (auto simp: tab_visible_def)

text \<open>The idle thread of a CPU without candidate sits in the ring of the lowest
  priority of that CPU, so the search never fails.\<close>

lemma idle_in_ring:
  assumes inv: "sched_invx {c} R s" and c: "c < k_ncpus s"
  shows "c \<in> set (rdy_ring s (CpuTab c, LW_PRIO_LOWEST))"
proof -
  have i: "c \<in> R" "TCB_bCPULock (k_tcb s c)" "TCB_ulCPULock (k_tcb s c) = c"
    "tcb_prio s c = LW_PRIO_LOWEST"
    using inv c by (auto simp: sched_invx_def ids_ok_def)
  have cd: "cands_ok {c} R s" using inv by (rule sched_invx_cands)
  have "\<not> TCB_bIsCand (k_tcb s c)"
  proof
    assume a: "TCB_bIsCand (k_tcb s c)"
    have "TCB_ulCPUId (k_tcb s c) \<notin> {c}" "LW_CAND_TCB s (TCB_ulCPUId (k_tcb s c)) = Some c"
      using cd a unfolding cands_ok_def by blast+
    then have "TCB_ulCPULock (k_tcb s c) = TCB_ulCPUId (k_tcb s c)"
      using cd i(2) unfolding cands_ok_def by blast
    then show False using i(3) \<open>TCB_ulCPUId (k_tcb s c) \<notin> {c}\<close> by simp
  qed
  moreover have "GetPcb s c = (CpuTab c, LW_PRIO_LOWEST)"
    using i by (simp add: GetPcb_def rdy_tab_def)
  ultimately show ?thesis using sched_invx_rings[OF inv] i(1) unfolding rings_ok_def by blast
qed

lemma CandTableFill_inv:
  assumes inv: "sched_invx {c} R s" and c: "c < k_ncpus s"
  shows "sched_inv R (CandTableFill c s)" "k_halt (CandTableFill c s) = k_halt s"
    "\<exists>t. LW_CAND_TCB (CandTableFill c s) c = Some t"
    "c' \<noteq> c \<Longrightarrow> LW_CAND_TCB (CandTableFill c s) c' = LW_CAND_TCB s c'"
proof -
  have b: "bms_ok s" using inv by (rule sched_invx_bms)
  have "CandTableSeek s c \<noteq> None"
    using CandTableSeek_None[OF b, of c] idle_in_ring[OF inv c]
    by (metis empty_iff list.set(1) tab_visible_def)
  then obtain pp where pp: "CandTableSeek s c = Some pp" by blast
  note S = CandTableSeek_Some[OF b pp]
  note R = CandTableResel_inv[OF inv S(1) tab_visible_cases[OF S(2)] c]
  show "sched_inv R (CandTableFill c s)" "k_halt (CandTableFill c s) = k_halt s"
    "\<exists>t. LW_CAND_TCB (CandTableFill c s) c = Some t"
    "c' \<noteq> c \<Longrightarrow> LW_CAND_TCB (CandTableFill c s) c' = LW_CAND_TCB s c'"
    using R by (auto simp: CandTableFill_def pp)
qed

section \<open>\<open>_CandTableEmpty\<close>\<close>

lemma bms_ok_add:
  assumes b: "bms_ok s" and pp: "GetPcb s t = pp"
    and ring: "\<And>pp'. rdy_ring s' pp' \<noteq> [] \<longleftrightarrow> pp' = pp \<or> rdy_ring s pp' \<noteq> []"
    and bm: "\<And>tab. rdy_bm s' tab = (if A \<and> tab = fst pp then BitmapAdd (rdy_bm s tab) (snd pp) else rdy_bm s tab)"
    and A: "A \<or> rdy_ring s pp \<noteq> []"
  shows "bms_ok s'"
proof -
  have wf: "bm_wf (rdy_bm s tab)"
    and mem: "bm_mem (rdy_bm s tab) p \<longleftrightarrow> rdy_ring s (tab, p) \<noteq> []" for tab p
    using b by (simp_all add: bms_ok_def)
  show ?thesis unfolding bms_ok_def ring bm using A by (cases pp) (auto simp: wf mem)
qed

lemma CandTableEmpty_inv:
  assumes inv: "sched_inv R s" and cand: "LW_CAND_TCB s c = Some t"
  shows "sched_invx {c} R (CandTableEmpty c s)"
    "rdy_ring (CandTableEmpty c s) pp = (if pp = GetPcb s t then t # rdy_ring s pp else rdy_ring s pp)"
    "LW_CAND_TCB (CandTableEmpty c s) c' = (if c' = c then None else LW_CAND_TCB s c')"
    "k_halt (CandTableEmpty c s) = k_halt s"
    "LW_CAND_ROT (CandTableEmpty c s) c' = LW_CAND_ROT s c'"
proof -
  let ?s = "CandTableEmpty c s" and ?pp = "GetPcb s t"
  have r: "rings_ok R s" and b: "bms_ok s" and cd: "cands_ok {} R s" and i: "ids_ok R s"
    using inv by (simp_all add: sched_inv_def sched_invx_def)
  note C = cands_okD1[OF cd cand, simplified]
  have tcb: "k_tcb ?s = (k_tcb s)(t := (k_tcb s t)\<lparr>TCB_bIsCand := False\<rparr>)"
    by (simp add: CandTableEmpty_def cand Let_def)
  have ring: "rdy_ring ?s pp = (if pp = ?pp then t # rdy_ring s pp else rdy_ring s pp)" for pp
    by (simp add: CandTableEmpty_def cand Let_def)
  have pcb: "GetPcb ?s u = GetPcb s u" for u by (simp add: GetPcb_def tcb rdy_tab_def)
  have cand': "LW_CAND_TCB ?s c' = (if c' = c then None else LW_CAND_TCB s c')" for c'
    by (simp add: CandTableEmpty_def Let_def)
  have n: "k_ncpus ?s = k_ncpus s" by (simp add: CandTableEmpty_def Let_def)
  have "rings_ok R ?s"
    using C(1,2) unfolding rings_ok_def ring pcb tcb
    by (auto simp: rings_ok_mem[OF r] rings_ok_distinct[OF r] simp del: split_paired_All)
  moreover have "bms_ok ?s"
  proof (rule bms_ok_add[OF b, where A = "rdy_ring s ?pp = []" and t = t])
    show "rdy_bm ?s tab = (if rdy_ring s ?pp = [] \<and> tab = fst ?pp
        then BitmapAdd (rdy_bm s tab) (snd ?pp) else rdy_bm s tab)" for tab
      by (auto simp: CandTableEmpty_def cand Let_def PcbIsOne_def GetPcb_def rdy_tab_def split: list.splits)
  qed (auto simp: ring)
  moreover have "cands_ok {c} R ?s"
  proof (rule cands_okI)
    fix c' u assume cu: "LW_CAND_TCB ?s c' = Some u" "c' \<notin> {c}"
    then have "LW_CAND_TCB s c' = Some u" by (simp add: cand')
    note D = cands_okD1[OF cd this, simplified]
    then have "u \<noteq> t" using C(3) cu(2) by auto
    then show "u \<in> R \<and> TCB_bIsCand (k_tcb ?s u) \<and> TCB_ulCPUId (k_tcb ?s u) = c'
        \<and> (TCB_bCPULock (k_tcb ?s u) \<longrightarrow> TCB_ulCPULock (k_tcb ?s u) = c')"
      using D by (simp add: tcb)
  next
    fix u assume u: "TCB_bIsCand (k_tcb ?s u)"
    then have ut: "u \<noteq> t" "TCB_bIsCand (k_tcb s u)" by (auto simp: tcb split: if_splits)
    note D = cands_okD2[OF cd ut(2)]
    have "TCB_ulCPUId (k_tcb s u) \<noteq> c" using D(2) cand ut(1) by auto
    then show "TCB_ulCPUId (k_tcb ?s u) \<notin> {c} \<and> LW_CAND_TCB ?s (TCB_ulCPUId (k_tcb ?s u)) = Some u"
      using D(2) ut(1) by (simp add: tcb cand')
  qed
  moreover have "ids_ok R ?s"
    using i unfolding ids_ok_def n tcb by auto
  ultimately show "sched_invx {c} R ?s" by (simp add: sched_invx_def)
  show "rdy_ring ?s pp = (if pp = ?pp then t # rdy_ring s pp else rdy_ring s pp)" by (rule ring)
  show "LW_CAND_TCB ?s c' = (if c' = c then None else LW_CAND_TCB s c')" by (rule cand')
  show "k_halt ?s = k_halt s" by (simp add: CandTableEmpty_def Let_def)
  show "LW_CAND_ROT ?s c' = LW_CAND_ROT s c'" by (simp add: CandTableEmpty_def Let_def)
qed

section \<open>Leaving the ready structures\<close>

lemma unplace_ids: "\<lbrakk>ids_ok R s; k_ncpus s \<le> t\<rbrakk> \<Longrightarrow> ids_ok (R - {t}) s"
  by (auto simp: ids_ok_def)

lemma DEL_FROM_READY_RING_inv:
  assumes inv: "sched_inv R s" and tR: "t \<in> R" and idle: "k_ncpus s \<le> t"
  shows "sched_inv (R - {t}) (DEL_FROM_READY_RING t (GetPcb s t) s)"
    "k_halt (DEL_FROM_READY_RING t (GetPcb s t) s) = k_halt s"
proof -
  let ?pp = "GetPcb s t"
  have r: "rings_ok R s" and b: "bms_ok s" and cd: "cands_ok {} R s" and i: "ids_ok R s"
    using inv by (simp_all add: sched_inv_def sched_invx_def)
  have ids: "ids_ok (R - {t}) s" using i idle by (rule unplace_ids)
  have "sched_inv (R - {t}) (DEL_FROM_READY_RING t ?pp s)
      \<and> k_halt (DEL_FROM_READY_RING t ?pp s) = k_halt s"
  proof (cases "TCB_bIsCand (k_tcb s t)")
    case True
    define c where "c = TCB_ulCPUId (k_tcb s t)"
    have cand: "LW_CAND_TCB s c = Some t" using cands_okD2[OF cd True] by (simp add: c_def)
    let ?s = "tcb_upd t (\<lambda>x. x\<lparr>TCB_bIsCand := False\<rparr>) s"
    have pcb: "GetPcb ?s u = GetPcb s u" for u by (simp add: GetPcb_def rdy_tab_def)
    have "rings_ok (R - {t}) ?s"
      using r True unfolding rings_ok_def pcb by (auto simp del: split_paired_All)
    moreover have "bms_ok ?s" using b by (simp add: bms_ok_def)
    moreover have "cands_ok {c} (R - {t}) ?s"
    proof (rule cands_okI)
      fix c' u assume cu: "LW_CAND_TCB ?s c' = Some u" "c' \<notin> {c}"
      note D = cands_okD1[OF cd cu(1)[simplified], simplified]
      have "u \<noteq> t" using D(3) cu(2) by (auto simp: c_def)
      then show "u \<in> R - {t} \<and> TCB_bIsCand (k_tcb ?s u) \<and> TCB_ulCPUId (k_tcb ?s u) = c'
          \<and> (TCB_bCPULock (k_tcb ?s u) \<longrightarrow> TCB_ulCPULock (k_tcb ?s u) = c')" using D by simp
    next
      fix u assume u: "TCB_bIsCand (k_tcb ?s u)"
      then have ut: "u \<noteq> t" "TCB_bIsCand (k_tcb s u)" by (auto split: if_splits)
      note D = cands_okD2[OF cd ut(2)]
      have "TCB_ulCPUId (k_tcb s u) \<noteq> c" using D(2) cand ut(1) by auto
      then show "TCB_ulCPUId (k_tcb ?s u) \<notin> {c} \<and> LW_CAND_TCB ?s (TCB_ulCPUId (k_tcb ?s u)) = Some u"
        using D(2) ut(1) by simp
    qed
    moreover have "ids_ok (R - {t}) ?s" using ids by (auto simp: ids_ok_def)
    ultimately have invx: "sched_invx {c} (R - {t}) ?s" by (simp add: sched_invx_def)
    have c: "c < k_ncpus ?s" using i by (simp add: ids_ok_def c_def)
    show ?thesis using CandTableFill_inv(1,2)[OF invx c] cand True
      by (simp add: DEL_FROM_READY_RING_def CandTableTryDel_def c_def Let_def)
  next
    case False
    have tr: "t \<in> set (rdy_ring s ?pp)" using r tR False unfolding rings_ok_def by blast
    have nc: "LW_CAND_TCB s c \<noteq> Some t" for c using cands_okD1(2)[OF cd] False by blast
    let ?d = "DelTCBFromReadyRing t ?pp s"
    have eq: "DEL_FROM_READY_RING t ?pp s = (if PcbIsEmpty ?d ?pp then ReadyTableDel t ?d else ?d)"
      (is "_ = ?f") using False nc by (simp add: DEL_FROM_READY_RING_def CandTableTryDel_def Let_def)
    have ring: "rdy_ring ?f pp = (if pp = ?pp then remove1 t (rdy_ring s pp) else rdy_ring s pp)" for pp
      by simp
    have tcb: "k_tcb ?f = k_tcb s" by simp
    have pcb: "GetPcb ?f u = GetPcb s u" for u by (simp add: GetPcb_def)
    have "rings_ok (R - {t}) ?f"
      unfolding rings_ok_def ring pcb tcb
      by (auto simp: rings_ok_mem[OF r] rings_ok_distinct[OF r] simp del: split_paired_All)
    moreover have "bms_ok ?f"
    proof -
      have bm: "rdy_bm ?f tab = (if tab = fst ?pp \<and> remove1 t (rdy_ring s ?pp) = []
          then BitmapDel (rdy_bm s tab) (snd ?pp) else rdy_bm s tab)" for tab
        by (auto simp: PcbIsEmpty_def GetPcb_def rdy_tab_def)
      have "rdy_ring s ?pp \<noteq> []" using tr by auto
      moreover have wf: "bm_wf (rdy_bm s tab)"
        and mem: "bm_mem (rdy_bm s tab) p \<longleftrightarrow> rdy_ring s (tab, p) \<noteq> []" for tab p
        using b by (simp_all add: bms_ok_def)
      ultimately show ?thesis unfolding bms_ok_def bm ring
        by (cases ?pp) (simp add: wf mem)
    qed
    moreover have "cands_ok {} (R - {t}) ?f"
    proof -
      have "LW_CAND_TCB ?f c = LW_CAND_TCB s c" for c by simp
      then show ?thesis using cd nc False unfolding cands_ok_def tcb by auto
    qed
    moreover have "ids_ok (R - {t}) ?f" using ids by (simp add: ids_ok_def)
    ultimately show ?thesis unfolding eq by (simp add: sched_inv_def sched_invx_def)
  qed
  then show "sched_inv (R - {t}) (DEL_FROM_READY_RING t ?pp s)"
    "k_halt (DEL_FROM_READY_RING t ?pp s) = k_halt s" by auto
qed

section \<open>Entering the ready structures\<close>

lemma not_placed:
  assumes inv: "sched_inv R s" and t: "t \<notin> R"
  shows "\<not> TCB_bIsCand (k_tcb s t)" "t \<notin> set (rdy_ring s pp)" "LW_CAND_TCB s c \<noteq> Some t"
  using inv t cands_okD1(1)[of "{}" R s _ t] cands_okD2(2)[of "{}" R s t] rings_okD(1)[of R s t pp]
  unfolding sched_inv_def sched_invx_def by blast+

lemma ids_ok_insert: "ids_ok R s \<Longrightarrow> ids_ok (insert t R) s"
  by (auto simp: ids_ok_def)

lemma try_place_inv:
  assumes inv: "sched_inv R s" and t: "t \<notin> R" and none: "LW_CAND_TCB s c = None"
    and c: "c < k_ncpus s" and lock: "TCB_bCPULock (k_tcb s t) \<Longrightarrow> TCB_ulCPULock (k_tcb s t) = c"
  shows "sched_inv (insert t R) (try_place t c s)" "k_halt (try_place t c s) = k_halt s"
proof -
  let ?s = "try_place t c s"
  have r: "rings_ok R s" and b: "bms_ok s" and cd: "cands_ok {} R s" and i: "ids_ok R s"
    using inv by (simp_all add: sched_inv_def sched_invx_def)
  note np = not_placed[OF inv t]
  have tcb: "k_tcb ?s = (k_tcb s)(t := (k_tcb s t)\<lparr>TCB_ulCPUId := c, TCB_bIsCand := True\<rparr>)"
    and ring: "\<And>pp. rdy_ring ?s pp = rdy_ring s pp" and bm: "\<And>tab. rdy_bm ?s tab = rdy_bm s tab"
    and cand: "\<And>c'. LW_CAND_TCB ?s c' = (if c' = c then Some t else LW_CAND_TCB s c')"
    and n: "k_ncpus ?s = k_ncpus s"
    by (simp_all add: try_place_def)
  have pcb: "GetPcb ?s u = GetPcb s u" for u by (simp add: GetPcb_def tcb rdy_tab_def)
  have "rings_ok (insert t R) ?s"
    using np t unfolding rings_ok_def ring pcb tcb
    by (auto simp: rings_ok_mem[OF r] rings_ok_distinct[OF r] simp del: split_paired_All)
  moreover have "bms_ok ?s" using b unfolding bms_ok_def ring bm .
  moreover have "cands_ok {} (insert t R) ?s"
  proof (rule cands_okI)
    fix c' u assume cu: "LW_CAND_TCB ?s c' = Some u" "c' \<notin> {}"
    show "u \<in> insert t R \<and> TCB_bIsCand (k_tcb ?s u) \<and> TCB_ulCPUId (k_tcb ?s u) = c'
        \<and> (TCB_bCPULock (k_tcb ?s u) \<longrightarrow> TCB_ulCPULock (k_tcb ?s u) = c')"
    proof (cases "c' = c")
      case True
      then have "u = t" using cu by (simp add: cand)
      then show ?thesis using lock True by (simp add: tcb)
    next
      case False
      then have "LW_CAND_TCB s c' = Some u" using cu by (simp add: cand)
      note D = cands_okD1[OF cd this, simplified]
      then have "u \<noteq> t" using np(1) by auto
      then show ?thesis using D by (simp add: tcb)
    qed
  next
    fix u assume u: "TCB_bIsCand (k_tcb ?s u)"
    show "TCB_ulCPUId (k_tcb ?s u) \<notin> {} \<and> LW_CAND_TCB ?s (TCB_ulCPUId (k_tcb ?s u)) = Some u"
    proof (cases "u = t")
      case False
      then have "TCB_bIsCand (k_tcb s u)" using u by (simp add: tcb)
      note D = cands_okD2(2)[OF cd this]
      then have "TCB_ulCPUId (k_tcb s u) \<noteq> c" using none by auto
      then show ?thesis using D False by (simp add: tcb cand)
    qed (simp add: tcb cand)
  qed
  moreover have "ids_ok (insert t R) ?s"
    using ids_ok_insert[OF i, of t] c unfolding ids_ok_def n tcb by auto
  ultimately show "sched_inv (insert t R) ?s" by (simp add: sched_inv_def sched_invx_def)
  show "k_halt ?s = k_halt s" by (simp add: try_place_def)
qed

lemma ring_add_inv:
  assumes inv: "sched_inv R s" and t: "t \<notin> R"
  defines "pp \<equiv> GetPcb s t"
  shows "sched_inv (insert t R)
    (AddTCBToReadyRing t pp False (if PcbIsEmpty s pp then ReadyTableAdd t s else s))"
proof -
  let ?a = "if PcbIsEmpty s pp then ReadyTableAdd t s else s"
  let ?s = "AddTCBToReadyRing t pp False ?a"
  have r: "rings_ok R s" and b: "bms_ok s" and cd: "cands_ok {} R s" and i: "ids_ok R s"
    using inv by (simp_all add: sched_inv_def sched_invx_def)
  note np = not_placed[OF inv t]
  have ra: "rdy_ring ?a pp' = rdy_ring s pp'" for pp' by simp
  have d: "distinct (rdy_ring ?a pp)" "t \<notin> set (rdy_ring ?a pp)"
    using np(2) rings_ok_distinct[OF r] by simp_all
  note A = rdy_ring_AddTCB[OF d(2,1), where b = False, unfolded ra]
  have tcb: "k_tcb ?s = k_tcb s" and cand: "\<And>c. LW_CAND_TCB ?s c = LW_CAND_TCB s c"
    and n: "k_ncpus ?s = k_ncpus s" by simp_all
  have pcb: "GetPcb ?s u = GetPcb s u" for u by (simp add: GetPcb_def)
  have set: "set (rdy_ring ?s pp') = (if pp' = pp then insert t (set (rdy_ring s pp)) else set (rdy_ring s pp'))"
    and dis: "distinct (rdy_ring ?s pp')" for pp'
    using A rings_ok_distinct[OF r] by (cases "pp' = pp"; simp)+
  have "rings_ok (insert t R) ?s"
  proof (rule rings_okI)
    show "distinct (rdy_ring ?s pp')" for pp' by (rule dis)
    show "u \<in> set (rdy_ring ?s pp') \<longleftrightarrow> u \<in> insert t R \<and> \<not> TCB_bIsCand (k_tcb ?s u) \<and> GetPcb ?s u = pp'"
      for pp' u unfolding set pcb tcb using np(1) t by (auto simp: rings_ok_mem[OF r] pp_def)
  qed
  moreover have "bms_ok ?s"
  proof (rule bms_ok_add[OF b, where A = "PcbIsEmpty s pp" and t = t and pp = pp])
    show "rdy_ring ?s pp' \<noteq> [] \<longleftrightarrow> pp' = pp \<or> rdy_ring s pp' \<noteq> []" for pp'
      using set[of pp'] by (metis empty_iff insertI1 set_empty)
    show "rdy_bm ?s tab = (if PcbIsEmpty s pp \<and> tab = fst pp
        then BitmapAdd (rdy_bm s tab) (snd pp) else rdy_bm s tab)" for tab
      by (auto simp: pp_def GetPcb_def)
  qed (auto simp: PcbIsEmpty_def pp_def)
  moreover have "cands_ok {} (insert t R) ?s"
    using cd unfolding cands_ok_def tcb cand by blast
  moreover have "ids_ok (insert t R) ?s"
    using ids_ok_insert[OF i, of t] unfolding ids_ok_def n tcb .
  ultimately show ?thesis by (simp add: sched_inv_def sched_invx_def)
qed

text \<open>The outcome of the placement attempts: placed on an idle CPU, or only rotation
  flags set.\<close>

definition try_ok :: "tid set \<Rightarrow> tid \<Rightarrow> kernel \<Rightarrow> try_result \<times> kernel \<Rightarrow> bool" where
  "try_ok R t s rs \<longleftrightarrow> k_halt (snd rs) = k_halt s \<and> (if fst rs = Placed then sched_inv (insert t R) (snd rs)
     else sched_inv R (snd rs) \<and> k_tcb (snd rs) = k_tcb s \<and> k_ncpus (snd rs) = k_ncpus s)"

lemma try_ok_set_rot:
  "try_ok R t (set_rot i b s) rs \<Longrightarrow> try_ok R t s rs"
  by (auto simp: try_ok_def split: if_splits)

lemma TryAdd_idle_loop_ok:
  assumes "sched_inv R s" "t \<notin> R" "\<not> TCB_bCPULock (k_tcb s t)" "\<forall>i\<in>set is. i < k_ncpus s"
  shows "try_ok R t s (TryAdd_idle_loop t is s)"
  using assms
proof (induction t "is" s rule: TryAdd_idle_loop.induct)
  case (2 t i "is" s)
  then show ?case
    using try_place_inv[of R s t i] by (auto simp: try_ok_def split: option.splits)
qed (simp add: try_ok_def)

lemma TryAdd_rot_loop_ok:
  assumes "sched_inv R s" "t \<notin> R" "\<not> TCB_bCPULock (k_tcb s t)" "\<forall>i\<in>set is. i < k_ncpus s"
  shows "try_ok R t s (TryAdd_rot_loop t is s)"
  using assms
proof (induction t "is" s rule: TryAdd_rot_loop.induct)
  case (2 t i "is" s)
  then show ?case
    using try_place_inv[of R s t i]
    by (auto simp: try_ok_def[of R t s "(Placed, _)"] intro: try_ok_set_rot split: option.splits)
qed (simp add: try_ok_def)

lemma cpus_active_bound [simp]: "i \<in> set (cpus_active s) \<Longrightarrow> i < k_ncpus s"
  "i \<in> set (cpus_active_except s c) \<Longrightarrow> i < k_ncpus s"
  by (simp_all add: cpus_active_def cpus_active_except_def)

lemma TryAdd_locked_ok:
  assumes "sched_inv R s" "t \<notin> R" "TCB_bCPULock (k_tcb s t)"
  shows "try_ok R t s (TryAdd_locked t s)"
proof -
  have "TCB_ulCPULock (k_tcb s t) < k_ncpus s"
    using assms by (auto simp: sched_inv_def sched_invx_def ids_ok_def)
  then show ?thesis using assms try_place_inv[of R s t "TCB_ulCPULock (k_tcb s t)"]
    by (auto simp: TryAdd_locked_def try_ok_def Let_def split: option.splits)
qed

lemma TryAdd_unlocked_ok:
  assumes inv: "sched_inv R s" and t: "t \<notin> R" and l: "\<not> TCB_bCPULock (k_tcb s t)"
  shows "try_ok R t s (TryAdd_unlocked t s)"
proof -
  define c where "c = TCB_ulCPUId (k_tcb s t)"
  have c: "c < k_ncpus s"
    using inv by (auto simp: c_def sched_inv_def sched_invx_def ids_ok_def)
  have place: "tcb_upd t (\<lambda>x. x\<lparr>TCB_bIsCand := True\<rparr>) (set_cand c (Some t) s) = try_place t c s"
    by (simp add: try_place_def tcb_upd_def c_def)
  have idle: "try_ok R t s (TryAdd_idle_loop t (cpus_active_except s c) s)"
    by (rule TryAdd_idle_loop_ok[OF inv t l]) auto
  have rest: "try_ok R t s (case TryAdd_idle_loop t (cpus_active_except s c) s of (r2, s2) \<Rightarrow>
      (case r2 of NotYet \<Rightarrow> TryAdd_rot_loop t (cpus_active s2) s2 | _ \<Rightarrow> (r2, s2)))"
  proof (cases "TryAdd_idle_loop t (cpus_active_except s c) s")
    case (Pair r2 s2)
    show ?thesis
    proof (cases r2)
      case NotYet
      then have s2: "sched_inv R s2" "k_tcb s2 = k_tcb s" "k_ncpus s2 = k_ncpus s" "k_halt s2 = k_halt s"
        using idle Pair by (auto simp: try_ok_def)
      have "\<not> TCB_bCPULock (k_tcb s2 t)" using s2(2) l by simp
      moreover have "\<forall>i\<in>set (cpus_active s2). i < k_ncpus s2" by simp
      ultimately have "try_ok R t s2 (TryAdd_rot_loop t (cpus_active s2) s2)"
        by (rule TryAdd_rot_loop_ok[OF s2(1) t])
      then show ?thesis using NotYet Pair s2 by (auto simp: try_ok_def)
    qed (use idle Pair in simp_all)
  qed
  show ?thesis
  proof (cases "LW_CAND_TCB s c")
    case None
    then show ?thesis
      using rest try_place_inv[OF inv t None c] l inv
      unfolding TryAdd_unlocked_def c_def[symmetric] Let_def place
      by (auto simp: try_ok_def[of R t s "(Placed, _)"])
  next
    case (Some u)
    have "try_ok R t s (RotIdle, set_rot c True s)" using inv by (simp add: try_ok_def)
    then show ?thesis using rest Some
      unfolding TryAdd_unlocked_def c_def[symmetric] Let_def by auto
  qed
qed

lemma ADD_TO_READY_RING_inv:
  assumes inv: "sched_inv R s" and t: "t \<notin> R"
  shows "sched_inv (insert t R) (ADD_TO_READY_RING t (GetPcb s t) s)"
    "k_halt (ADD_TO_READY_RING t (GetPcb s t) s) = k_halt s"
proof -
  obtain r s1 where rs: "(if TCB_bCPULock (k_tcb s t) then TryAdd_locked t s else TryAdd_unlocked t s) = (r, s1)"
    by fastforce
  have ok: "try_ok R t s (r, s1)"
    using TryAdd_locked_ok[OF inv t] TryAdd_unlocked_ok[OF inv t] rs by (auto split: if_splits)
  let ?s = "ADD_TO_READY_RING t (GetPcb s t) s"
  have "sched_inv (insert t R) ?s \<and> k_halt ?s = k_halt s"
  proof (cases "r = Placed")
    case True
    then show ?thesis using ok
      by (auto simp: ADD_TO_READY_RING_def CandTableTryAdd_def rs try_ok_def)
  next
    case False
    then have s1: "sched_inv R s1" "k_tcb s1 = k_tcb s" "k_halt s1 = k_halt s"
      using ok by (auto simp: try_ok_def)
    have pcb: "GetPcb s1 t = GetPcb s t" by (simp add: GetPcb_def s1)
    show ?thesis using False ring_add_inv[OF s1(1) t] s1(3) pcb
      by (cases r) (auto simp: ADD_TO_READY_RING_def CandTableTryAdd_def rs)
  qed
  then show "sched_inv (insert t R) ?s" "k_halt ?s = k_halt s" by auto
qed

section \<open>\<open>_CandTableUpdate\<close>\<close>

lemma Notify_loops:
  "sched_inv R (snd (Notify_idle_loop is s)) \<longleftrightarrow> sched_inv R s"
  "LW_CAND_TCB (snd (Notify_idle_loop is s)) c = LW_CAND_TCB s c"
  "rdy_ring (snd (Notify_idle_loop is s)) pp = rdy_ring s pp"
  "k_halt (snd (Notify_idle_loop is s)) = k_halt s"
  "sched_inv R (Notify_rot_loop t is s) \<longleftrightarrow> sched_inv R s"
  "LW_CAND_TCB (Notify_rot_loop t is s) c = LW_CAND_TCB s c"
  "rdy_ring (Notify_rot_loop t is s) pp = rdy_ring s pp"
  "k_halt (Notify_rot_loop t is s) = k_halt s"
proof -
  have "(sched_inv R (snd (Notify_idle_loop is s)) \<longleftrightarrow> sched_inv R s)
      \<and> LW_CAND_TCB (snd (Notify_idle_loop is s)) c = LW_CAND_TCB s c
      \<and> rdy_ring (snd (Notify_idle_loop is s)) pp = rdy_ring s pp
      \<and> k_halt (snd (Notify_idle_loop is s)) = k_halt s"
    by (induction "is" s rule: Notify_idle_loop.induct) auto
  then show "sched_inv R (snd (Notify_idle_loop is s)) \<longleftrightarrow> sched_inv R s"
    "LW_CAND_TCB (snd (Notify_idle_loop is s)) c = LW_CAND_TCB s c"
    "rdy_ring (snd (Notify_idle_loop is s)) pp = rdy_ring s pp"
    "k_halt (snd (Notify_idle_loop is s)) = k_halt s" by auto
  have "(sched_inv R (Notify_rot_loop t is s) \<longleftrightarrow> sched_inv R s)
      \<and> LW_CAND_TCB (Notify_rot_loop t is s) c = LW_CAND_TCB s c
      \<and> rdy_ring (Notify_rot_loop t is s) pp = rdy_ring s pp
      \<and> k_halt (Notify_rot_loop t is s) = k_halt s"
    by (induction t "is" s rule: Notify_rot_loop.induct) auto
  then show "sched_inv R (Notify_rot_loop t is s) \<longleftrightarrow> sched_inv R s"
    "LW_CAND_TCB (Notify_rot_loop t is s) c = LW_CAND_TCB s c"
    "rdy_ring (Notify_rot_loop t is s) pp = rdy_ring s pp"
    "k_halt (Notify_rot_loop t is s) = k_halt s" by auto
qed

lemma CandTableNotify_simps [simp]:
  "sched_inv R (CandTableNotify c t s) \<longleftrightarrow> sched_inv R s"
  "LW_CAND_TCB (CandTableNotify c t s) c' = LW_CAND_TCB s c'"
  "rdy_ring (CandTableNotify c t s) pp = rdy_ring s pp"
  "k_halt (CandTableNotify c t s) = k_halt s"
  by (simp_all add: CandTableNotify_def split_beta Notify_loops)

text \<open>\<open>highest_cand s c\<close>: CPU \<open>c\<close> has a candidate, and no ring it may choose from holds a
  thread of higher priority.\<close>

definition highest_cand :: "kernel \<Rightarrow> cpuid \<Rightarrow> bool" where
  "highest_cand s c \<longleftrightarrow> (\<exists>t. LW_CAND_TCB s c = Some t \<and>
     (\<forall>tab p. tab_visible s c tab \<and> rdy_ring s (tab, p) \<noteq> [] \<longrightarrow> tcb_prio s t \<le> p))"

lemma tab_visible_frame: "sched_frame s s' \<Longrightarrow> tab_visible s' c tab = tab_visible s c tab"
  by (simp add: tab_visible_def sched_frame_cpuD)

lemma prio_frame: "sched_frame s s' \<Longrightarrow> tcb_prio s' t = tcb_prio s t"
  by (simp add: sched_frame_tcbD)

lemma highest_cand_set_rot [simp]: "highest_cand (set_rot c' b s) c = highest_cand s c"
proof -
  have fr: "sched_frame s (set_rot c' b s)" by (simp add: sched_frame_def)
  show ?thesis by (simp add: highest_cand_def tab_visible_frame[OF fr])
qed

lemma rdy_ring_Resel_subset:
  assumes "rdy_ring s pp \<noteq> []"
  shows "set (rdy_ring (CandTableResel c pp s) pp') \<subseteq> set (rdy_ring s pp')"
  using assms by (auto simp: CandTableResel_def CandTableNext_def Let_def split: if_splits
      dest: set_remove1_subset[THEN subsetD])

lemma Resel_highest:
  assumes inv: "sched_invx {c} R s" and ne: "rdy_ring s pp \<noteq> []"
    and tab: "fst pp = Global \<or> fst pp = CpuTab c" and c: "c < k_ncpus s"
    and hi: "\<And>tab p. \<lbrakk>tab_visible s c tab; rdy_ring s (tab, p) \<noteq> []\<rbrakk> \<Longrightarrow> snd pp \<le> p"
  shows "highest_cand (CandTableResel c pp s) c"
proof -
  let ?s = "CandTableResel c pp s"
  obtain t where t: "t \<in> set (rdy_ring s pp)" "LW_CAND_TCB ?s c = Some t"
    using CandTableResel_inv(2)[OF inv ne tab c] by blast
  have "snd pp = tcb_prio s t"
    using rings_okD(3)[OF sched_invx_rings[OF inv] t(1)] by (auto simp: GetPcb_def)
  moreover have "rdy_ring s pp' \<noteq> []" if "rdy_ring ?s pp' \<noteq> []" for pp'
    using rdy_ring_Resel_subset[OF ne, of c pp'] that by (metis set_empty subset_empty)
  ultimately show ?thesis using t(2) hi
    by (auto simp: highest_cand_def tab_visible_frame[OF sched_frame_ops(4)]
        prio_frame[OF sched_frame_ops(4)])
qed

lemma CandTableUpdate_ok:
  assumes inv: "sched_inv R s" and c: "c < k_ncpus s" and act: "LW_CPU_IS_ACTIVE (k_cpu s c)"
  shows "sched_inv R (CandTableUpdate c s) \<and> k_halt (CandTableUpdate c s) = k_halt s
    \<and> highest_cand (CandTableUpdate c s) c"
proof (cases "LW_CAND_TCB s c")
  case None
  have invx: "sched_invx {c} R s"
  proof -
    have cd: "cands_ok {} R s" using inv by (simp add: sched_inv_def sched_invx_def)
    have "cands_ok {c} R s"
      by (rule cands_okI) (use cands_okD1[OF cd] cands_okD2[OF cd] None in auto)
    then show ?thesis using inv by (simp add: sched_inv_def sched_invx_def)
  qed
  have b: "bms_ok s" using invx by (rule sched_invx_bms)
  obtain pp where pp: "CandTableSeek s c = Some pp"
    using CandTableSeek_None[OF b, of c] idle_in_ring[OF invx c]
    by (metis empty_iff list.set(1) not_None_eq tab_visible_def)
  note S = CandTableSeek_Some[OF b pp]
  note tv = tab_visible_cases[OF S(2)]
  have eq: "CandTableUpdate c s = set_rot c False (CandTableResel c pp s)"
    using act None pp by (simp add: CandTableUpdate_def CandTableFill_def)
  show ?thesis unfolding eq
    using CandTableResel_inv(1,4)[OF invx S(1) tv c] Resel_highest[OF invx S(1) tv c] S(3)
    by simp
next
  case (Some t)
  have b: "bms_ok s" using inv by (simp add: sched_inv_def sched_invx_def)
  show ?thesis
  proof (cases "CandTableSeek s c")
    case None
    then have "highest_cand s c"
      using Some CandTableSeek_None[OF b, of c] by (auto simp: highest_cand_def)
    then show ?thesis using inv act Some None by (simp add: CandTableUpdate_def)
  next
    case pp: (Some pp)
    note S = CandTableSeek_Some[OF b pp]
    show ?thesis
    proof (cases "need_rotate s c t (snd pp)")
      case False
      then have "tcb_prio s t \<le> snd pp"
        by (auto simp: need_rotate_def LW_PRIO_IS_HIGH_OR_EQU_def LW_PRIO_IS_HIGH_def split: if_splits)
      then have "highest_cand s c"
        using Some S(3) by (auto simp: highest_cand_def intro: order_trans)
      then show ?thesis using inv act Some pp False by (simp add: CandTableUpdate_def)
    next
      case True
      let ?e = "CandTableEmpty c s"
      note E = CandTableEmpty_inv[OF inv Some]
      have fr: "sched_frame s ?e" by simp
      have ne: "rdy_ring ?e pp \<noteq> []" using S(1) by (simp add: E(2))
      have c': "c < k_ncpus ?e" using c sched_frame_kernelD(6)[OF fr] by simp
      have hi: "snd pp \<le> p" if v: "tab_visible ?e c tab" and n: "rdy_ring ?e (tab, p) \<noteq> []" for tab p
      proof (cases "rdy_ring s (tab, p) = []")
        case False
        then show ?thesis using S(3) v by (simp add: tab_visible_frame[OF fr])
      next
        case True
        then have tp: "(tab, p) = GetPcb s t" using n by (simp add: E(2) split: if_splits)
        then have "\<not> (CPU_bOnlyAffinity (k_cpu s c) \<and> \<not> TCB_bCPULock (k_tcb s t))"
          using v[unfolded tab_visible_frame[OF fr]]
          by (auto simp: tab_visible_def GetPcb_def rdy_tab_def split: if_splits)
        then have "snd pp \<le> tcb_prio s t"
          using \<open>need_rotate s c t (snd pp)\<close>
          by (auto simp: need_rotate_def LW_PRIO_IS_HIGH_OR_EQU_def LW_PRIO_IS_HIGH_def split: if_splits)
        then show ?thesis using tp by (simp add: GetPcb_def)
      qed
      note tv = tab_visible_cases[OF S(2)]
      let ?r = "CandTableResel c pp ?e"
      have R: "sched_inv R ?r" "k_halt ?r = k_halt s" "highest_cand ?r c"
        using CandTableResel_inv(1,4)[OF E(1) ne tv c'] E(4) Resel_highest[OF E(1) ne tv c' hi] by auto
      have N: "highest_cand (CandTableNotify c t ?r) c"
      proof -
        have fn: "sched_frame ?r (CandTableNotify c t ?r)" by (simp add: sched_frame_def)
        show ?thesis using R(3)
          by (simp add: highest_cand_def tab_visible_frame[OF fn] prio_frame[OF fn])
      qed
      show ?thesis using act Some pp True R N by (auto simp: CandTableUpdate_def Let_def)
    qed
  qed
qed

lemma CandTableUpdate_inv:
  assumes "sched_inv R s" "c < k_ncpus s"
  shows "sched_inv R (CandTableUpdate c s)" "k_halt (CandTableUpdate c s) = k_halt s"
proof -
  have "sched_inv R (CandTableUpdate c s) \<and> k_halt (CandTableUpdate c s) = k_halt s"
  proof (cases "LW_CPU_IS_ACTIVE (k_cpu s c)")
    case False
    then show ?thesis using assms by (simp add: CandTableUpdate_def)
  qed (use CandTableUpdate_ok[OF assms] in blast)
  then show "sched_inv R (CandTableUpdate c s)" "k_halt (CandTableUpdate c s) = k_halt s" by auto
qed

end
