(* ===== verification/Scheduler.thy ===== *)
theory Scheduler
  imports Ready_Inv
begin

text \<open>
  The scheduler: kernel/core/_SchedCand.c, _Sched.c, _KernelStatus.c, _CpuLib.c and
  _ThreadSafeLib.c with inlPreemptiveCheck.h.  A context switch is the assignment of
  \<open>CPU_ptcbTCBCur\<close> in \<open>SchedSwp\<close>; what follows the switch in \<open>_Schedule\<close> is run by the
  thread that is resumed and is \<open>Schedule_ret\<close>.
\<close>

section \<open>Preemption test and candidate (inlPreemptiveCheck.h, _SchedCand.c)\<close>

definition can_preemptive :: "kernel \<Rightarrow> cpuid \<Rightarrow> ULONG \<Rightarrow> bool" where
  "can_preemptive s c ulMaxLockCounter = (let
      p = k_cpu s c; cur = k_tcb s (the (CPU_ptcbTCBCur p))
    in if CPU_ulInterNesting p \<noteq> 0 \<or> CPU_iKernelCounter p \<noteq> 0 then False
       else if TCB_ulThreadLockCounter cur > ulMaxLockCounter \<and> LW_THREAD_IS_READY cur then False
       else True)"

definition SchedGetCand :: "cpuid \<Rightarrow> ULONG \<Rightarrow> kernel \<Rightarrow> tid option \<times> kernel" where
  "SchedGetCand c ulCurMaxLock s =
    (if \<not> can_preemptive s c ulCurMaxLock then (CPU_ptcbTCBCur (k_cpu s c), s)
     else let s1 = cpu_upd c (\<lambda>p. p\<lparr>CPU_iIPIPend := CPU_iIPIPend p AND NOT LW_IPI_SCHED_MSK\<rparr>) s;
              s2 = (if LW_CAND_ROT s1 c then CandTableUpdate c s1 else s1)
          in (LW_CAND_TCB s2 c, s2))"

definition SchedTick_cpu :: "cpuid \<Rightarrow> kernel \<Rightarrow> kernel" where
  "SchedTick_cpu i s =
    (if LW_CPU_IS_ACTIVE (k_cpu s i) then
       (let t = the (CPU_ptcbTCBCur (k_cpu s i)) in
        if TCB_ucSchedPolicy (k_tcb s t) = LW_OPTION_SCHED_RR then
          (if TCB_usSchedCounter (k_tcb s t) = 0 then set_rot i True s
           else tcb_upd t (\<lambda>x. x\<lparr>TCB_usSchedCounter := TCB_usSchedCounter x - 1\<rparr>) s)
        else s)
     else s)"

definition SchedTick :: "kernel \<Rightarrow> kernel" where
  "SchedTick s = fold SchedTick_cpu [0..<k_ncpus s] s"

definition LW_THREAD_IS_RUNNING :: "kernel \<Rightarrow> tid \<Rightarrow> bool" where
  "LW_THREAD_IS_RUNNING s t \<longleftrightarrow> CPU_ptcbTCBCur (k_cpu s (TCB_ulCPUId (k_tcb s t))) = Some t"

definition SchedYield :: "tid \<Rightarrow> kernel \<Rightarrow> kernel" where
  "SchedYield t s =
    (if LW_THREAD_IS_RUNNING s t then
       (let c = TCB_ulCPUId (k_tcb s t) in
        set_rot c True (tcb_upd t (\<lambda>x. x\<lparr>TCB_usSchedCounter := 0\<rparr>) s))
     else s)"

section \<open>Inter-processor notification (_SmpIpi.c, _Sched.c)\<close>

definition SmpSendIpi :: "cpuid \<Rightarrow> ULONG \<Rightarrow> kernel \<Rightarrow> kernel" where
  "SmpSendIpi i ulMask s =
    (if \<not> LW_CPU_IS_ACTIVE (k_cpu s i) then s
     else cpu_upd i (\<lambda>p. p\<lparr>CPU_iIPIPend := CPU_iIPIPend p OR ulMask\<rparr>) s)"

definition SmpNotify_cpu :: "cpuid \<Rightarrow> kernel \<Rightarrow> kernel" where
  "SmpNotify_cpu i s = (let p = k_cpu s i in
    if LW_CAND_ROT s i \<and> CPU_iIPIPend p AND LW_IPI_SCHED_MSK = 0 \<and> CPU_ulInterNesting p = 0 then
      (if CPU_uiLockQuick p \<noteq> 0 \<or> TCB_ulThreadLockCounter (k_tcb s (the (LW_CAND_TCB s i))) = 0
       then SmpSendIpi i LW_IPI_SCHED_MSK s else s)
    else s)"

definition SchedSmpNotify :: "cpuid \<Rightarrow> kernel \<Rightarrow> kernel" where
  "SchedSmpNotify ulCPUIdCur s = fold SmpNotify_cpu (cpus_active_except s ulCPUIdCur) s"

section \<open>Scheduling (_Sched.c)\<close>

definition SchedSwp :: "cpuid \<Rightarrow> kernel \<Rightarrow> kernel" where
  "SchedSwp c s = cpu_upd c (\<lambda>p. p\<lparr>CPU_ptcbTCBCur := CPU_ptcbTCBHigh p\<rparr>) (SchedSmpNotify c s)"

definition Schedule_on :: "bool \<Rightarrow> cpuid \<Rightarrow> kernel \<Rightarrow> kernel" where
  "Schedule_on bIsInt c s = (let cur = CPU_ptcbTCBCur (k_cpu s c);
      (cand, s1) = SchedGetCand c 1 s
    in if cand \<noteq> cur
       then SchedSwp c (cpu_upd c (\<lambda>p. p\<lparr>CPU_bIsIntSwitch := bIsInt, CPU_ptcbTCBHigh := cand\<rparr>) s1)
       else SchedSmpNotify c s1)"

definition Schedule :: "kernel \<Rightarrow> kernel" where
  "Schedule s = Schedule_on False (k_curcpu s) s"

definition ScheduleInt :: "cpuid \<Rightarrow> kernel \<Rightarrow> kernel" where
  "ScheduleInt c s = Schedule_on True c s"

definition Schedule_ret :: "kernel \<Rightarrow> int \<times> kernel" where
  "Schedule_ret s = (let t = LW_TCB_GET_CUR s in
     (TCB_iSchedRet (k_tcb s t), tcb_upd t (\<lambda>x. x\<lparr>TCB_iSchedRet := 0\<rparr>) s))"

definition SchedSetRet :: "int \<Rightarrow> kernel \<Rightarrow> kernel" where
  "SchedSetRet iSchedSetRet s = (let t = LW_TCB_GET_CUR s in
     if TCB_iSchedRet (k_tcb s t) = 0 then tcb_upd t (\<lambda>x. x\<lparr>TCB_iSchedRet := iSchedSetRet\<rparr>) s else s)"

definition SchedSetPrio :: "tid \<Rightarrow> UINT8 \<Rightarrow> kernel \<Rightarrow> kernel" where
  "SchedSetPrio t ucPriority s = (let from = GetPcb s t; to = GetPcbEx s t ucPriority in
     if LW_THREAD_IS_READY (k_tcb s t) then
       (if TCB_bIsCand (k_tcb s t) then
          tcb_upd t (\<lambda>x. x\<lparr>TCB_ucPriority := ucPriority\<rparr>) (set_rot (TCB_ulCPUId (k_tcb s t)) True s)
        else
          ADD_TO_READY_RING t to
            (tcb_upd t (\<lambda>x. x\<lparr>TCB_ucPriority := ucPriority\<rparr>) (DEL_FROM_READY_RING t from s)))
     else tcb_upd t (\<lambda>x. x\<lparr>TCB_ucPriority := ucPriority\<rparr>) s)"

section \<open>Kernel entry and exit (_KernelStatus.c)\<close>

definition KERNEL_ENTER :: "kernel \<Rightarrow> kernel" where
  "KERNEL_ENTER s = cpu_upd (k_curcpu s) (\<lambda>p. p\<lparr>CPU_iKernelCounter := CPU_iKernelCounter p + 1\<rparr>) s"

definition KERNEL_EXIT :: "kernel \<Rightarrow> kernel" where
  "KERNEL_EXIT s = (let c = k_curcpu s in
     if CPU_iKernelCounter (k_cpu s c) \<noteq> 0 then
       (let s1 = cpu_upd c (\<lambda>p. p\<lparr>CPU_iKernelCounter := CPU_iKernelCounter p - 1\<rparr>) s in
        if CPU_iKernelCounter (k_cpu s1 c) = 0 then Schedule s1 else s1)
     else s)"

section \<open>CPU activation and affinity (_CpuLib.c)\<close>

definition CpuActive :: "cpuid \<Rightarrow> kernel \<Rightarrow> int \<times> kernel" where
  "CpuActive c s =
    (if LW_CPU_IS_ACTIVE (k_cpu s c) then (-1, s)
     else let s1 = cpu_upd c (\<lambda>p. p\<lparr>CPU_ulStatus := CPU_ulStatus p OR LW_CPU_STATUS_ACTIVE\<rparr>) s;
              s2 = CandTableUpdate c s1
          in (0, cpu_upd c (\<lambda>p. p\<lparr>CPU_ptcbTCBCur := CAND_ptcbCand p,
                                  CPU_ptcbTCBHigh := CAND_ptcbCand p\<rparr>) s2))"

definition CpuSetSchedAffinity :: "cpuid \<Rightarrow> bool \<Rightarrow> kernel \<Rightarrow> kernel" where
  "CpuSetSchedAffinity c bEnable s =
    (if CPU_bOnlyAffinity (k_cpu s c) = bEnable then s
     else let s1 = set_rot c True (cpu_upd c (\<lambda>p. p\<lparr>CPU_bOnlyAffinity := bEnable\<rparr>) s)
          in if k_curcpu s1 \<noteq> c \<and> CPU_iIPIPend (k_cpu s1 c) AND LW_IPI_SCHED_MSK = 0
             then SmpSendIpi c LW_IPI_SCHED_MSK s1 else s1)"

section \<open>Suspension for thread safety (_ThreadSafeLib.c)\<close>

definition ThreadSafeSuspend :: "tid \<Rightarrow> kernel \<Rightarrow> kernel" where
  "ThreadSafeSuspend t s = (let
      s1 = tcb_upd t (\<lambda>x. x\<lparr>TCB_ulSuspendNesting := TCB_ulSuspendNesting x + 1\<rparr>) s;
      s2 = DEL_FROM_READY_RING t (GetPcb s1 t) s1
    in tcb_upd t (\<lambda>x. x\<lparr>TCB_usStatus := TCB_usStatus x OR LW_THREAD_STATUS_SUSPEND\<rparr>) s2)"

definition ThreadSafeResume :: "tid \<Rightarrow> kernel \<Rightarrow> kernel" where
  "ThreadSafeResume t s =
    (if TCB_ulSuspendNesting (k_tcb s t) = 0 then s
     else let s1 = tcb_upd t (\<lambda>x. x\<lparr>TCB_ulSuspendNesting := TCB_ulSuspendNesting x - 1\<rparr>) s in
       if TCB_ulSuspendNesting (k_tcb s1 t) \<noteq> 0 then s1
       else let s2 = tcb_upd t (\<lambda>x. x\<lparr>TCB_usStatus := TCB_usStatus x AND NOT LW_THREAD_STATUS_SUSPEND\<rparr>) s1 in
         if LW_THREAD_IS_READY (k_tcb s2 t) then
           (let s3 = tcb_upd t (\<lambda>x. x\<lparr>TCB_ucSchedActivate := LW_SCHED_ACT_INTERRUPT\<rparr>) s2
            in ADD_TO_READY_RING t (GetPcb s3 t) s3)
         else s2)"

definition ThreadSafeInternal :: "kernel \<Rightarrow> kernel" where
  "ThreadSafeInternal s = (let s1 = KERNEL_ENTER s; t = LW_TCB_GET_CUR s1 in
     KERNEL_EXIT (tcb_upd t (\<lambda>x. x\<lparr>TCB_ulThreadSafeCounter := TCB_ulThreadSafeCounter x + 1\<rparr>) s1))"

text \<open>The deletion of the thread itself (\<open>API_ThreadDelete\<close>) is recorded in
  \<open>k_deleteCalls\<close>.\<close>

definition ThreadUnsafeInternalEx :: "tid \<Rightarrow> kernel \<Rightarrow> kernel" where
  "ThreadUnsafeInternalEx t s = (let s1 = KERNEL_ENTER s in
     if TCB_ulThreadSafeCounter (k_tcb s1 t) = 0 then KERNEL_EXIT s1
     else let s2 = tcb_upd t (\<lambda>x. x\<lparr>TCB_ulThreadSafeCounter := TCB_ulThreadSafeCounter x - 1\<rparr>) s1 in
       if TCB_ulThreadSafeCounter (k_tcb s2 t) \<noteq> 0 then KERNEL_EXIT s2
       else if TCB_ptcbDeleteMe (k_tcb s2 t) = PTCB_NULL then KERNEL_EXIT s2
       else let m = TCB_ptcbDeleteMe (k_tcb s2 t);
                s3 = tcb_upd t (\<lambda>x. x\<lparr>TCB_ptcbDeleteMe := PTCB_NULL\<rparr>) s2;
                s4 = (case m of
                        PTCB r \<Rightarrow> if r \<noteq> t \<and> k_tcbIdTable s3 r
                          then ThreadSafeResume r (tcb_upd r (\<lambda>x. x\<lparr>TCB_ptcbDeleteWait := None\<rparr>) s3)
                          else s3
                      | _ \<Rightarrow> s3);
                s5 = KERNEL_EXIT s4
            in s5\<lparr>k_deleteCalls := k_deleteCalls s5 @ [t]\<rparr>)"

section \<open>Frames\<close>

definition cpu_base :: "cpu \<Rightarrow> cpu" where
  "cpu_base c = (cpu_core c)\<lparr>CPU_ptcbTCBCur := None, CPU_ptcbTCBHigh := None,
     CPU_bIsIntSwitch := False, CPU_iKernelCounter := 0, CPU_iIPIPend := 0\<rparr>"

definition kernel_base :: "kernel \<Rightarrow> kernel" where
  "kernel_base s = (kernel_core s)\<lparr>k_cpu := \<lambda>c. cpu_base (k_cpu s c)\<rparr>"

text \<open>\<open>run_frame s s'\<close>: the states differ only in the ready structures, in what runs on
  the CPUs, in the kernel counters and in pending notifications.\<close>

definition run_frame :: "kernel \<Rightarrow> kernel \<Rightarrow> bool" where
  "run_frame s s' \<longleftrightarrow> kernel_base s' = kernel_base s"

lemma run_frame_refl [simp, intro]: "run_frame s s"
  by (simp add: run_frame_def)

lemma run_frame_trans [trans]: "\<lbrakk>run_frame s s'; run_frame s' s''\<rbrakk> \<Longrightarrow> run_frame s s''"
  by (simp add: run_frame_def)

lemma kernel_base_core: "kernel_core s = kernel_core s' \<Longrightarrow> kernel_base s = kernel_base s'"
proof -
  assume eq: "kernel_core s = kernel_core s'"
  then have "cpu_core (k_cpu s c) = cpu_core (k_cpu s' c)" for c by (metis kernel_core_cpu)
  then show ?thesis using eq by (simp add: kernel_base_def cpu_base_def)
qed

lemma sched_frame_run: "sched_frame s s' \<Longrightarrow> run_frame s s'"
  by (auto simp: sched_frame_def run_frame_def intro: kernel_base_core)

lemma run_frame_tcb: "run_frame s s' \<Longrightarrow> tcb_core (k_tcb s' t) = tcb_core (k_tcb s t)"
proof -
  assume "run_frame s s'"
  then have "k_tcb (kernel_base s') t = k_tcb (kernel_base s) t" by (simp add: run_frame_def)
  then show ?thesis by (simp add: kernel_base_def kernel_core_tcb)
qed

lemmas run_frame_tcbD = tcb_core_eqD[OF run_frame_tcb]

lemma run_frame_cpuD:
  assumes "run_frame s s'"
  shows "CPU_bOnlyAffinity (k_cpu s' c) = CPU_bOnlyAffinity (k_cpu s c)"
    "CPU_ulStatus (k_cpu s' c) = CPU_ulStatus (k_cpu s c)"
    "CPU_ulInterNesting (k_cpu s' c) = CPU_ulInterNesting (k_cpu s c)"
    "CPU_ulInterError (k_cpu s' c) = CPU_ulInterError (k_cpu s c)"
    "LW_CPU_IS_ACTIVE (k_cpu s' c) = LW_CPU_IS_ACTIVE (k_cpu s c)"
proof -
  have "k_cpu (kernel_base s') c = k_cpu (kernel_base s) c" using assms by (simp add: run_frame_def)
  then have "cpu_base (k_cpu s' c) = cpu_base (k_cpu s c)" by (simp add: kernel_base_def)
  then show "CPU_bOnlyAffinity (k_cpu s' c) = CPU_bOnlyAffinity (k_cpu s c)"
    "CPU_ulStatus (k_cpu s' c) = CPU_ulStatus (k_cpu s c)"
    "CPU_ulInterNesting (k_cpu s' c) = CPU_ulInterNesting (k_cpu s c)"
    "CPU_ulInterError (k_cpu s' c) = CPU_ulInterError (k_cpu s c)"
    "LW_CPU_IS_ACTIVE (k_cpu s' c) = LW_CPU_IS_ACTIVE (k_cpu s c)"
    unfolding cpu_base_def cpu_core_def LW_CPU_IS_ACTIVE_def
    by (cases "k_cpu s c"; cases "k_cpu s' c"; simp)+
qed

lemma run_frame_kernelD:
  assumes "run_frame s s'"
  shows "k_event s' = k_event s" "k_delay s' = k_delay s" "k_freeEvents s' = k_freeEvents s"
    "k_resUsed s' = k_resUsed s" "k_resMaxUsed s' = k_resMaxUsed s" "k_ncpus s' = k_ncpus s"
    "k_curcpu s' = k_curcpu s" "k_i64KernelTime s' = k_i64KernelTime s"
    "k_deleteCalls s' = k_deleteCalls s" "k_tcbIdTable s' = k_tcbIdTable s"
  using assms unfolding run_frame_def kernel_base_def kernel_core_def by (cases s; cases s'; simp)+

lemma kernel_base_cpu_upd:
  "cpu_base (f (k_cpu s c)) = cpu_base (k_cpu s c) \<Longrightarrow> kernel_base (cpu_upd c f s) = kernel_base s"
  by (auto simp: kernel_base_def kernel_core_def cpu_upd_def fun_eq_iff)

lemma kernel_base_set_rot [simp]: "kernel_base (set_rot c b s) = kernel_base s"
  by (rule kernel_base_core) simp

lemma kernel_base_IPI [simp]:
  "kernel_base (cpu_upd c (\<lambda>p. p\<lparr>CPU_iIPIPend := g p\<rparr>) s) = kernel_base s"
  "kernel_base (cpu_upd c (\<lambda>p. p\<lparr>CPU_iKernelCounter := k p\<rparr>) s) = kernel_base s"
  "kernel_base (cpu_upd c (\<lambda>p. p\<lparr>CPU_ptcbTCBCur := u p\<rparr>) s) = kernel_base s"
  "kernel_base (cpu_upd c (\<lambda>p. p\<lparr>CPU_bIsIntSwitch := b, CPU_ptcbTCBHigh := h\<rparr>) s) = kernel_base s"
  by (rule kernel_base_cpu_upd; simp add: cpu_base_def cpu_core_def)+

lemma kernel_base_Update [simp]: "kernel_base (CandTableUpdate c s) = kernel_base s"
  by (rule kernel_base_core) simp

lemma kernel_base_GetCand [simp]: "kernel_base (snd (SchedGetCand c n s)) = kernel_base s"
  by (simp add: SchedGetCand_def Let_def)

lemma kernel_base_SmpNotify [simp]: "kernel_base (SchedSmpNotify c s) = kernel_base s"
proof -
  have one: "kernel_base (SmpNotify_cpu i s) = kernel_base s" for i s
    by (simp add: SmpNotify_cpu_def SmpSendIpi_def Let_def)
  have "kernel_base (fold SmpNotify_cpu is s) = kernel_base s" for "is"
    by (induction "is" arbitrary: s) (simp_all add: one)
  then show ?thesis by (simp add: SchedSmpNotify_def)
qed

lemma kernel_base_Schedule_on [simp]: "kernel_base (Schedule_on b c s) = kernel_base s"
  by (simp add: Schedule_on_def SchedSwp_def Let_def split_beta)

lemma kernel_base_kernel [simp]:
  "kernel_base (KERNEL_ENTER s) = kernel_base s" "kernel_base (KERNEL_EXIT s) = kernel_base s"
  by (simp_all add: KERNEL_ENTER_def KERNEL_EXIT_def Schedule_def Let_def)

lemma run_frame_kernel [simp]:
  "run_frame s (KERNEL_ENTER s)" "run_frame s (KERNEL_EXIT s)"
  "run_frame s (Schedule_on b c s)"
  by (simp_all add: run_frame_def)

section \<open>The ready invariant\<close>

definition tcb_place :: "tcb \<Rightarrow> bool \<times> cpuid \<times> bool \<times> cpuid \<times> UINT8" where
  "tcb_place tc = (TCB_bIsCand tc, TCB_ulCPUId tc, TCB_bCPULock tc, TCB_ulCPULock tc, TCB_ucPriority tc)"

lemma tcb_placeD:
  assumes "tcb_place a = tcb_place b"
  shows "TCB_bIsCand a = TCB_bIsCand b" "TCB_ulCPUId a = TCB_ulCPUId b"
    "TCB_bCPULock a = TCB_bCPULock b" "TCB_ulCPULock a = TCB_ulCPULock b"
    "TCB_ucPriority a = TCB_ucPriority b"
  using assms by (simp_all add: tcb_place_def)

lemma sched_inv_place_cong:
  assumes ring: "\<And>pp. rdy_ring s' pp = rdy_ring s pp" and bm: "\<And>tab. rdy_bm s' tab = rdy_bm s tab"
    and cand: "\<And>c. LW_CAND_TCB s' c = LW_CAND_TCB s c" and n: "k_ncpus s' = k_ncpus s"
    and pl: "\<And>t. tcb_place (k_tcb s' t) = tcb_place (k_tcb s t)"
  shows "sched_inv R s' \<longleftrightarrow> sched_inv R s"
proof
  assume "sched_inv R s'"
  then show "sched_inv R s" unfolding sched_inv_def
    by (rule sched_invx_cong) (simp_all add: ring bm cand n tcb_placeD[OF pl])
next
  assume "sched_inv R s"
  then show "sched_inv R s'" unfolding sched_inv_def
    by (rule sched_invx_cong) (simp_all add: ring bm cand n tcb_placeD[OF pl])
qed

lemma sched_inv_tcb_upd:
  assumes "tcb_place (f (k_tcb s t)) = tcb_place (k_tcb s t)"
  shows "sched_inv R (tcb_upd t f s) \<longleftrightarrow> sched_inv R s"
  by (rule sched_inv_place_cong) (simp_all add: assms)

lemma sched_inv_event_upd [simp]: "sched_inv R (event_upd e f s) \<longleftrightarrow> sched_inv R s"
  by (rule sched_inv_place_cong) simp_all

lemma rdy_map_cpu_upd:
  "(\<And>p. CPU_pcbbmapReady (f p) = CPU_pcbbmapReady p) \<Longrightarrow> rdy_map (cpu_upd c f s) tab = rdy_map s tab"
  by (cases tab) auto

lemma LW_CAND_TCB_cpu_upd:
  "(\<And>p. CAND_ptcbCand (f p) = CAND_ptcbCand p) \<Longrightarrow> LW_CAND_TCB (cpu_upd c f s) d = LW_CAND_TCB s d"
  by (simp add: LW_CAND_TCB_def)

lemma rdy_ring_cpu_upd:
  "(\<And>p. CPU_pcbbmapReady (f p) = CPU_pcbbmapReady p) \<Longrightarrow> rdy_ring (cpu_upd c f s) pp = rdy_ring s pp"
  by (simp add: rdy_ring_def rdy_map_cpu_upd)

lemma sched_inv_cpu_upd:
  assumes "\<And>p. CAND_ptcbCand (f p) = CAND_ptcbCand p"
    "\<And>p. CPU_pcbbmapReady (f p) = CPU_pcbbmapReady p"
  shows "sched_inv R (cpu_upd c f s) \<longleftrightarrow> sched_inv R s"
proof -
  have m: "rdy_map (cpu_upd c f s) tab = rdy_map s tab" for tab
    by (rule rdy_map_cpu_upd) (rule assms)
  show ?thesis
    by (rule sched_inv_place_cong)
      (simp_all add: m rdy_ring_def rdy_bm_def LW_CAND_TCB_def assms)
qed

text \<open>Fields of a TCB that play no part in the placement of threads.\<close>

lemma sched_inv_fields [simp]:
  "sched_inv R (tcb_upd t (\<lambda>x. x\<lparr>TCB_usStatus := a x\<rparr>) s) \<longleftrightarrow> sched_inv R s"
  "sched_inv R (tcb_upd t (\<lambda>x. x\<lparr>TCB_usSchedCounter := b x\<rparr>) s) \<longleftrightarrow> sched_inv R s"
  "sched_inv R (tcb_upd t (\<lambda>x. x\<lparr>TCB_ucSchedActivate := d x\<rparr>) s) \<longleftrightarrow> sched_inv R s"
  "sched_inv R (tcb_upd t (\<lambda>x. x\<lparr>TCB_ulSuspendNesting := e x\<rparr>) s) \<longleftrightarrow> sched_inv R s"
  "sched_inv R (tcb_upd t (\<lambda>x. x\<lparr>TCB_ulThreadSafeCounter := g x\<rparr>) s) \<longleftrightarrow> sched_inv R s"
  "sched_inv R (tcb_upd t (\<lambda>x. x\<lparr>TCB_iSchedRet := h x\<rparr>) s) \<longleftrightarrow> sched_inv R s"
  "sched_inv R (tcb_upd t (\<lambda>x. x\<lparr>TCB_peventPtr := i x\<rparr>) s) \<longleftrightarrow> sched_inv R s"
  "sched_inv R (tcb_upd t (\<lambda>x. x\<lparr>TCB_ucIsEventDelete := j x\<rparr>) s) \<longleftrightarrow> sched_inv R s"
  "sched_inv R (tcb_upd t (\<lambda>x. x\<lparr>TCB_ucWaitTimeout := k x\<rparr>) s) \<longleftrightarrow> sched_inv R s"
  "sched_inv R (tcb_upd t (\<lambda>x. x\<lparr>TCB_pvMsgBoxMessage := l x\<rparr>) s) \<longleftrightarrow> sched_inv R s"
  "sched_inv R (tcb_upd t (\<lambda>x. x\<lparr>TCB_ulLastError := m x\<rparr>) s) \<longleftrightarrow> sched_inv R s"
  "sched_inv R (tcb_upd t (\<lambda>x. x\<lparr>TCB_iPendQ := n x\<rparr>) s) \<longleftrightarrow> sched_inv R s"
  "sched_inv R (tcb_upd t (\<lambda>x. x\<lparr>TCB_ppringPriorityQueue := q x\<rparr>) s) \<longleftrightarrow> sched_inv R s"
  "sched_inv R (tcb_upd t (\<lambda>x. x\<lparr>TCB_ptcbDeleteMe := u x\<rparr>) s) \<longleftrightarrow> sched_inv R s"
  "sched_inv R (tcb_upd t (\<lambda>x. x\<lparr>TCB_ptcbDeleteWait := v x\<rparr>) s) \<longleftrightarrow> sched_inv R s"
  by (rule sched_inv_tcb_upd; simp add: tcb_place_def)+

lemma sched_inv_outside:
  assumes inv: "sched_inv R s" and t: "t \<notin> R"
    and f: "TCB_bIsCand (f (k_tcb s t)) = TCB_bIsCand (k_tcb s t)"
      "TCB_ulCPUId (f (k_tcb s t)) < k_ncpus s"
      "TCB_bCPULock (f (k_tcb s t)) \<Longrightarrow> TCB_ulCPULock (f (k_tcb s t)) < k_ncpus s"
  shows "sched_inv R (tcb_upd t f s)"
proof -
  have r: "rings_ok R s" and b: "bms_ok s" and cd: "cands_ok {} R s" and i: "ids_ok R s"
    using inv by (simp_all add: sched_inv_def sched_invx_def)
  note np = not_placed[OF inv t]
  let ?s = "tcb_upd t f s"
  have pcb: "u \<noteq> t \<Longrightarrow> GetPcb ?s u = GetPcb s u" for u by (simp add: GetPcb_def)
  have "rings_ok R ?s"
  proof (rule rings_okI)
    show "distinct (rdy_ring ?s pp)" for pp using rings_ok_distinct[OF r] by simp
    show "u \<in> set (rdy_ring ?s pp) \<longleftrightarrow> u \<in> R \<and> \<not> TCB_bIsCand (k_tcb ?s u) \<and> GetPcb ?s u = pp" for pp u
      using t pcb[of u] by (cases "u = t") (auto simp: rings_ok_mem[OF r])
  qed
  moreover have "bms_ok ?s" using b by (simp add: bms_ok_def)
  moreover have "cands_ok {} R ?s"
  proof (rule cands_okI)
    fix c u assume "LW_CAND_TCB ?s c = Some u"
    then have "LW_CAND_TCB s c = Some u" by simp
    note D = cands_okD1[OF cd this, simplified]
    then have "u \<noteq> t" using t by auto
    then show "u \<in> R \<and> TCB_bIsCand (k_tcb ?s u) \<and> TCB_ulCPUId (k_tcb ?s u) = c
        \<and> (TCB_bCPULock (k_tcb ?s u) \<longrightarrow> TCB_ulCPULock (k_tcb ?s u) = c)" using D by simp
  next
    fix u assume u: "TCB_bIsCand (k_tcb ?s u)"
    then have "u \<noteq> t" using np(1) f(1) by auto
    then show "TCB_ulCPUId (k_tcb ?s u) \<notin> {} \<and> LW_CAND_TCB ?s (TCB_ulCPUId (k_tcb ?s u)) = Some u"
      using cands_okD2(2)[OF cd, of u] u by simp
  qed
  moreover have "ids_ok R ?s" using i f t by (auto simp: ids_ok_def)
  ultimately show ?thesis by (simp add: sched_inv_def sched_invx_def)
qed

lemma sched_inv_cpu_fields [simp]:
  "sched_inv R (cpu_upd c (\<lambda>p. p\<lparr>CPU_iIPIPend := a p\<rparr>) s) \<longleftrightarrow> sched_inv R s"
  "sched_inv R (cpu_upd c (\<lambda>p. p\<lparr>CPU_iKernelCounter := b p\<rparr>) s) \<longleftrightarrow> sched_inv R s"
  "sched_inv R (cpu_upd c (\<lambda>p. p\<lparr>CPU_ptcbTCBCur := d p\<rparr>) s) \<longleftrightarrow> sched_inv R s"
  "sched_inv R (cpu_upd c (\<lambda>p. p\<lparr>CPU_bIsIntSwitch := e p, CPU_ptcbTCBHigh := f p\<rparr>) s) \<longleftrightarrow> sched_inv R s"
  "sched_inv R (cpu_upd c (\<lambda>p. p\<lparr>CPU_ptcbTCBCur := d p, CPU_ptcbTCBHigh := f p\<rparr>) s) \<longleftrightarrow> sched_inv R s"
  "sched_inv R (cpu_upd c (\<lambda>p. p\<lparr>CPU_ulStatus := g p\<rparr>) s) \<longleftrightarrow> sched_inv R s"
  "sched_inv R (cpu_upd c (\<lambda>p. p\<lparr>CPU_bOnlyAffinity := h p\<rparr>) s) \<longleftrightarrow> sched_inv R s"
  "sched_inv R (cpu_upd c (\<lambda>p. p\<lparr>CPU_ulInterError := i p\<rparr>) s) \<longleftrightarrow> sched_inv R s"
  by (rule sched_inv_cpu_upd; simp)+

lemma SmpNotify_simps [simp]:
  "sched_inv R (SchedSmpNotify c s) \<longleftrightarrow> sched_inv R s" "k_halt (SchedSmpNotify c s) = k_halt s"
  "LW_CAND_TCB (SchedSmpNotify c s) d = LW_CAND_TCB s d" "k_tcb (SchedSmpNotify c s) = k_tcb s"
  "rdy_ring (SchedSmpNotify c s) pp = rdy_ring s pp"
  "CPU_ptcbTCBCur (k_cpu (SchedSmpNotify c s) d) = CPU_ptcbTCBCur (k_cpu s d)"
  "CPU_ptcbTCBHigh (k_cpu (SchedSmpNotify c s) d) = CPU_ptcbTCBHigh (k_cpu s d)"
  "CPU_bOnlyAffinity (k_cpu (SchedSmpNotify c s) d) = CPU_bOnlyAffinity (k_cpu s d)"
  "CPU_iKernelCounter (k_cpu (SchedSmpNotify c s) d) = CPU_iKernelCounter (k_cpu s d)"
proof -
  have one: "(sched_inv R (SmpNotify_cpu i s) \<longleftrightarrow> sched_inv R s) \<and> k_halt (SmpNotify_cpu i s) = k_halt s
      \<and> LW_CAND_TCB (SmpNotify_cpu i s) d = LW_CAND_TCB s d \<and> k_tcb (SmpNotify_cpu i s) = k_tcb s
      \<and> rdy_ring (SmpNotify_cpu i s) pp = rdy_ring s pp
      \<and> CPU_ptcbTCBCur (k_cpu (SmpNotify_cpu i s) d) = CPU_ptcbTCBCur (k_cpu s d)
      \<and> CPU_ptcbTCBHigh (k_cpu (SmpNotify_cpu i s) d) = CPU_ptcbTCBHigh (k_cpu s d)
      \<and> CPU_bOnlyAffinity (k_cpu (SmpNotify_cpu i s) d) = CPU_bOnlyAffinity (k_cpu s d)
      \<and> CPU_iKernelCounter (k_cpu (SmpNotify_cpu i s) d) = CPU_iKernelCounter (k_cpu s d)" for i s
    by (auto simp: SmpNotify_cpu_def SmpSendIpi_def Let_def LW_CAND_TCB_def rdy_ring_def rdy_map_cpu_upd)
  have "(sched_inv R (fold SmpNotify_cpu is s) \<longleftrightarrow> sched_inv R s) \<and> k_halt (fold SmpNotify_cpu is s) = k_halt s
      \<and> LW_CAND_TCB (fold SmpNotify_cpu is s) d = LW_CAND_TCB s d \<and> k_tcb (fold SmpNotify_cpu is s) = k_tcb s
      \<and> rdy_ring (fold SmpNotify_cpu is s) pp = rdy_ring s pp
      \<and> CPU_ptcbTCBCur (k_cpu (fold SmpNotify_cpu is s) d) = CPU_ptcbTCBCur (k_cpu s d)
      \<and> CPU_ptcbTCBHigh (k_cpu (fold SmpNotify_cpu is s) d) = CPU_ptcbTCBHigh (k_cpu s d)
      \<and> CPU_bOnlyAffinity (k_cpu (fold SmpNotify_cpu is s) d) = CPU_bOnlyAffinity (k_cpu s d)
      \<and> CPU_iKernelCounter (k_cpu (fold SmpNotify_cpu is s) d) = CPU_iKernelCounter (k_cpu s d)" for "is"
    by (induction "is" arbitrary: s) (simp_all add: one)
  then show "sched_inv R (SchedSmpNotify c s) \<longleftrightarrow> sched_inv R s" "k_halt (SchedSmpNotify c s) = k_halt s"
    "LW_CAND_TCB (SchedSmpNotify c s) d = LW_CAND_TCB s d" "k_tcb (SchedSmpNotify c s) = k_tcb s"
    "rdy_ring (SchedSmpNotify c s) pp = rdy_ring s pp"
    "CPU_ptcbTCBCur (k_cpu (SchedSmpNotify c s) d) = CPU_ptcbTCBCur (k_cpu s d)"
    "CPU_ptcbTCBHigh (k_cpu (SchedSmpNotify c s) d) = CPU_ptcbTCBHigh (k_cpu s d)"
    "CPU_bOnlyAffinity (k_cpu (SchedSmpNotify c s) d) = CPU_bOnlyAffinity (k_cpu s d)"
    "CPU_iKernelCounter (k_cpu (SchedSmpNotify c s) d) = CPU_iKernelCounter (k_cpu s d)"
    unfolding SchedSmpNotify_def by blast+
qed

lemma SchedGetCand_inv:
  assumes "sched_inv R s" "c < k_ncpus s"
  shows "sched_inv R (snd (SchedGetCand c n s))" "k_halt (snd (SchedGetCand c n s)) = k_halt s"
  using assms CandTableUpdate_inv[of R "cpu_upd c (\<lambda>p. p\<lparr>CPU_iIPIPend := CPU_iIPIPend p AND NOT LW_IPI_SCHED_MSK\<rparr>) s" c]
  by (auto simp: SchedGetCand_def Let_def)

lemma Schedule_on_inv:
  assumes "sched_inv R s" "c < k_ncpus s"
  shows "sched_inv R (Schedule_on b c s)" "k_halt (Schedule_on b c s) = k_halt s"
  using SchedGetCand_inv[OF assms, of 1]
  by (auto simp: Schedule_on_def SchedSwp_def Let_def split_beta)

lemma KERNEL_ENTER_simps [simp]:
  "sched_inv R (KERNEL_ENTER s) \<longleftrightarrow> sched_inv R s" "k_halt (KERNEL_ENTER s) = k_halt s"
  "k_tcb (KERNEL_ENTER s) = k_tcb s" "k_event (KERNEL_ENTER s) = k_event s"
  "k_delay (KERNEL_ENTER s) = k_delay s" "k_curcpu (KERNEL_ENTER s) = k_curcpu s"
  "k_ncpus (KERNEL_ENTER s) = k_ncpus s" "k_freeEvents (KERNEL_ENTER s) = k_freeEvents s"
  "LW_TCB_GET_CUR (KERNEL_ENTER s) = LW_TCB_GET_CUR s"
  "k_tcbIdTable (KERNEL_ENTER s) = k_tcbIdTable s"
  by (simp_all add: KERNEL_ENTER_def LW_TCB_GET_CUR_def)

lemma KERNEL_EXIT_inv:
  assumes "sched_inv R s" "k_curcpu s < k_ncpus s"
  shows "sched_inv R (KERNEL_EXIT s)" "k_halt (KERNEL_EXIT s) = k_halt s"
  using assms Schedule_on_inv[of R "cpu_upd (k_curcpu s) (\<lambda>p. p\<lparr>CPU_iKernelCounter := CPU_iKernelCounter p - 1\<rparr>) s"
      "k_curcpu s" False]
  by (auto simp: KERNEL_EXIT_def Schedule_def Let_def)

text \<open>The running thread after a permitted scheduling point is the candidate of its
  CPU; if a rotation was requested, no thread of higher priority waits for this CPU.\<close>

lemma Schedule_on_picks:
  assumes inv: "sched_inv R s" and c: "c < k_ncpus s" and act: "LW_CPU_IS_ACTIVE (k_cpu s c)"
    and pre: "can_preemptive s c 1"
  shows "CPU_ptcbTCBCur (k_cpu (Schedule_on b c s) c) = LW_CAND_TCB (Schedule_on b c s) c"
    "LW_CAND_ROT s c \<Longrightarrow> highest_cand (Schedule_on b c s) c"
proof -
  define s1 where "s1 = cpu_upd c (\<lambda>p. p\<lparr>CPU_iIPIPend := CPU_iIPIPend p AND NOT LW_IPI_SCHED_MSK\<rparr>) s"
  define s2 where "s2 = (if LW_CAND_ROT s1 c then CandTableUpdate c s1 else s1)"
  have g: "SchedGetCand c 1 s = (LW_CAND_TCB s2 c, s2)"
    using pre by (simp add: SchedGetCand_def Let_def s1_def s2_def)
  have rs2: "run_frame s s2" by (simp add: run_frame_def s1_def s2_def)
  have cur: "CPU_ptcbTCBCur (k_cpu s2 c) = CPU_ptcbTCBCur (k_cpu s c)"
  proof -
    have fr: "sched_frame s1 (CandTableUpdate c s1)" by simp
    show ?thesis using sched_frame_cpuD(1)[OF fr, of c] by (simp add: s2_def s1_def)
  qed
  let ?r = "Schedule_on b c s"
  have cand: "LW_CAND_TCB ?r d = LW_CAND_TCB s2 d" and ring: "rdy_ring ?r pp = rdy_ring s2 pp"
    and tcb: "k_tcb ?r = k_tcb s2" for d pp
    unfolding Schedule_on_def g Let_def prod.case SchedSwp_def
    by (simp_all add: rdy_ring_cpu_upd LW_CAND_TCB_cpu_upd)
  show "CPU_ptcbTCBCur (k_cpu ?r c) = LW_CAND_TCB ?r c"
    unfolding cand using cur by (simp add: Schedule_on_def g SchedSwp_def)
  assume rot: "LW_CAND_ROT s c"
  then have "s2 = CandTableUpdate c s1" by (simp add: LW_CAND_ROT_def s1_def s2_def)
  moreover have "highest_cand (CandTableUpdate c s1) c"
    using CandTableUpdate_ok[of R s1 c] inv c act by (simp add: LW_CPU_IS_ACTIVE_def s1_def)
  ultimately have h: "highest_cand s2 c" by simp
  have "tab_visible ?r c tab = tab_visible s2 c tab" for tab
    by (simp add: tab_visible_def run_frame_cpuD(1)[OF rs2] run_frame_cpuD(1)[OF run_frame_kernel(3)])
  then show "highest_cand ?r c" using h by (simp add: highest_cand_def cand ring tcb)
qed

section \<open>Priority change, tick, yield and CPU operations keep the invariant\<close>

lemma sched_inv_set_prio_cand:
  assumes inv: "sched_inv R s" and cand: "TCB_bIsCand (k_tcb s t)" and idle: "k_ncpus s \<le> t"
  shows "sched_inv R (tcb_upd t (\<lambda>x. x\<lparr>TCB_ucPriority := p\<rparr>) s)"
proof -
  have r: "rings_ok R s" and b: "bms_ok s" and cd: "cands_ok {} R s" and i: "ids_ok R s"
    using inv by (simp_all add: sched_inv_def sched_invx_def)
  let ?s = "tcb_upd t (\<lambda>x. x\<lparr>TCB_ucPriority := p\<rparr>) s"
  have pcb: "u \<noteq> t \<Longrightarrow> GetPcb ?s u = GetPcb s u" for u by (simp add: GetPcb_def)
  have "rings_ok R ?s"
  proof (rule rings_okI)
    show "distinct (rdy_ring ?s pp)" for pp using rings_ok_distinct[OF r] by simp
    show "u \<in> set (rdy_ring ?s pp) \<longleftrightarrow> u \<in> R \<and> \<not> TCB_bIsCand (k_tcb ?s u) \<and> GetPcb ?s u = pp" for pp u
      using cand pcb[of u] by (cases "u = t") (auto simp: rings_ok_mem[OF r])
  qed
  moreover have "bms_ok ?s" using b by (simp add: bms_ok_def)
  moreover have "cands_ok {} R ?s"
  proof (rule cands_okI)
    fix c u assume "LW_CAND_TCB ?s c = Some u"
    then have "LW_CAND_TCB s c = Some u" by simp
    from cands_okD1[OF cd this, simplified]
    show "u \<in> R \<and> TCB_bIsCand (k_tcb ?s u) \<and> TCB_ulCPUId (k_tcb ?s u) = c
        \<and> (TCB_bCPULock (k_tcb ?s u) \<longrightarrow> TCB_ulCPULock (k_tcb ?s u) = c)" by auto
  next
    fix u assume "TCB_bIsCand (k_tcb ?s u)"
    then have "TCB_bIsCand (k_tcb s u)" by (auto split: if_splits)
    from cands_okD2(2)[OF cd this]
    show "TCB_ulCPUId (k_tcb ?s u) \<notin> {} \<and> LW_CAND_TCB ?s (TCB_ulCPUId (k_tcb ?s u)) = Some u" by auto
  qed
  moreover have "ids_ok R ?s" using i idle by (auto simp: ids_ok_def)
  ultimately show ?thesis by (simp add: sched_inv_def sched_invx_def)
qed

lemma sched_inv_bounds:
  assumes "sched_inv R s"
  shows "TCB_ulCPUId (k_tcb s t) < k_ncpus s"
    "TCB_bCPULock (k_tcb s t) \<Longrightarrow> TCB_ulCPULock (k_tcb s t) < k_ncpus s"
  using assms by (auto simp: sched_inv_def sched_invx_def ids_ok_def)

lemma rdy_tab_prio [simp]: "rdy_tab (x\<lparr>TCB_ucPriority := p\<rparr>) = rdy_tab x"
  by (simp add: rdy_tab_def)

lemma DEL_FROM_READY_RING_place:
  assumes "sched_inv R s" "t \<in> R" "k_ncpus s \<le> t"
  shows "sched_inv (R - {t}) (DEL_FROM_READY_RING t (GetPcb s t) s)"
    "k_ncpus (DEL_FROM_READY_RING t pp s) = k_ncpus s"
    "rdy_tab (k_tcb (DEL_FROM_READY_RING t pp s) u) = rdy_tab (k_tcb s u)"
    "tcb_prio (DEL_FROM_READY_RING t pp s) u = tcb_prio s u"
  using DEL_FROM_READY_RING_inv[OF assms] sched_frame_ops(2)[of s t pp]
  by (simp_all add: sched_frame_kernelD sched_frame_tcbD)

lemma SchedSetPrio_inv:
  assumes inv: "sched_inv R s" and rdy: "t \<in> R \<longleftrightarrow> LW_THREAD_IS_READY (k_tcb s t)"
    and idle: "k_ncpus s \<le> t"
  shows "sched_inv R (SchedSetPrio t p s)" "k_halt (SchedSetPrio t p s) = k_halt s"
proof -
  have "sched_inv R (SchedSetPrio t p s) \<and> k_halt (SchedSetPrio t p s) = k_halt s"
  proof (cases "LW_THREAD_IS_READY (k_tcb s t)")
    case False
    then have "t \<notin> R" using rdy by simp
    then have "sched_inv R (tcb_upd t (\<lambda>x. x\<lparr>TCB_ucPriority := p\<rparr>) s)"
      by (rule sched_inv_outside[OF inv]) (use sched_inv_bounds[OF inv] in auto)
    then show ?thesis using False by (simp add: SchedSetPrio_def)
  next
    case True
    then have tR: "t \<in> R" using rdy by simp
    show ?thesis
    proof (cases "TCB_bIsCand (k_tcb s t)")
      case cand: True
      have "sched_inv R (tcb_upd t (\<lambda>x. x\<lparr>TCB_ucPriority := p\<rparr>) (set_rot (TCB_ulCPUId (k_tcb s t)) True s))"
        by (rule sched_inv_set_prio_cand) (use inv cand idle in auto)
      then show ?thesis using True cand by (simp add: SchedSetPrio_def)
    next
      case False
      let ?d = "DEL_FROM_READY_RING t (GetPcb s t) s"
      let ?u = "tcb_upd t (\<lambda>x. x\<lparr>TCB_ucPriority := p\<rparr>) ?d"
      note D = DEL_FROM_READY_RING_inv[OF inv tR idle]
      have u: "sched_inv (R - {t}) ?u"
        by (rule sched_inv_outside[OF D(1)]) (use sched_inv_bounds[OF D(1)] in auto)
      have pp: "GetPcb ?u t = GetPcbEx s t p"
        using DEL_FROM_READY_RING_place(3)[OF inv tR idle, of "GetPcb s t" t]
        by (simp add: GetPcb_def GetPcbEx_def)
      have "sched_inv (insert t (R - {t})) (ADD_TO_READY_RING t (GetPcb ?u t) ?u)"
        "k_halt (ADD_TO_READY_RING t (GetPcb ?u t) ?u) = k_halt ?u"
        by (rule ADD_TO_READY_RING_inv[OF u]; simp)+
      then show ?thesis using True False D(2) tR
        by (simp add: SchedSetPrio_def pp insert_absorb)
    qed
  qed
  then show "sched_inv R (SchedSetPrio t p s)" "k_halt (SchedSetPrio t p s) = k_halt s" by auto
qed

lemma SchedTick_inv [simp]:
  "sched_inv R (SchedTick s) \<longleftrightarrow> sched_inv R s" "k_halt (SchedTick s) = k_halt s"
proof -
  have one: "(sched_inv R (SchedTick_cpu i s) \<longleftrightarrow> sched_inv R s) \<and> k_halt (SchedTick_cpu i s) = k_halt s" for i s
    by (simp add: SchedTick_cpu_def Let_def)
  have "(sched_inv R (fold SchedTick_cpu is s) \<longleftrightarrow> sched_inv R s) \<and> k_halt (fold SchedTick_cpu is s) = k_halt s" for "is"
    by (induction "is" arbitrary: s) (simp_all add: one)
  then show "sched_inv R (SchedTick s) \<longleftrightarrow> sched_inv R s" "k_halt (SchedTick s) = k_halt s"
    by (auto simp: SchedTick_def)
qed

lemma SchedYield_inv [simp]: "sched_inv R (SchedYield t s) \<longleftrightarrow> sched_inv R s"
  by (simp add: SchedYield_def Let_def)

lemma CpuActive_inv:
  assumes "sched_inv R s" "c < k_ncpus s"
  shows "sched_inv R (snd (CpuActive c s))"
  using CandTableUpdate_inv(1)[of R "cpu_upd c (\<lambda>p. p\<lparr>CPU_ulStatus := CPU_ulStatus p OR LW_CPU_STATUS_ACTIVE\<rparr>) s" c]
    assms by (simp add: CpuActive_def Let_def)

lemma CpuSetSchedAffinity_inv [simp]:
  "sched_inv R (CpuSetSchedAffinity c b s) \<longleftrightarrow> sched_inv R s"
  by (simp add: CpuSetSchedAffinity_def SmpSendIpi_def Let_def)

text \<open>A yielding FIFO thread that heads the choice is chosen again: \<open>_CandTableNext\<close> never
  rotates a ring whose header is a FIFO thread.\<close>

lemma CandTableNext_fifo:
  "\<lbrakk>rdy_ring s pp = t # ts; TCB_ucSchedPolicy (k_tcb s t) = LW_OPTION_SCHED_FIFO\<rbrakk>
   \<Longrightarrow> CandTableNext pp s = (t, s)"
  by (simp add: CandTableNext_def)

end
