(* ===== verification/Event_Queue.thy ===== *)
theory Event_Queue
  imports Scheduler
begin

text \<open>
  Wait queues of event blocks and the delay line of threads:
  kernel/core/_EventQueue.c, _EventHighLevel.c and _TimeTick.c, with
  inlSearchEventQueue.h and the line macros of k_scanlink.h.  A FIFO queue is a ring
  whose header is the youngest waiter; a priority queue has eight rings, chosen by
  the upper three bits of the priority, each ordered by priority.
\<close>

section \<open>Queues as data\<close>

text \<open>The loop of \<open>_AddTCBToEventPriority\<close>: before the first waiter of lower priority,
  otherwise behind the last one.\<close>

fun prio_ring_tail :: "(tid \<Rightarrow> UINT8) \<Rightarrow> tid \<Rightarrow> tid list \<Rightarrow> tid list" where
  "prio_ring_tail pr t [] = [t]"
| "prio_ring_tail pr t (x # xs) =
    (if LW_PRIO_IS_HIGH (pr t) (pr x) then t # x # xs else x # prio_ring_tail pr t xs)"

fun prio_ring_add :: "(tid \<Rightarrow> UINT8) \<Rightarrow> tid \<Rightarrow> tid list \<Rightarrow> tid list" where
  "prio_ring_add pr t [] = ring_add_ahead t []"
| "prio_ring_add pr t (x # xs) =
    (if LW_PRIO_IS_HIGH (pr t) (pr x) then ring_add_ahead t (x # xs)
     else x # prio_ring_tail pr t xs)"

text \<open>\<open>_EVENT_DEL_Q_PRIORITY\<close>: the first non-empty ring, or one past the last.\<close>

fun del_q_priority :: "nat \<Rightarrow> nat \<Rightarrow> waitqueue \<Rightarrow> nat" where
  "del_q_priority i 0 wq = i"
| "del_q_priority i (Suc n) wq = (if WQ_ring wq i \<noteq> [] then i else del_q_priority (Suc i) n wq)"

definition EVENT_DEL_Q_PRIORITY :: "waitqueue \<Rightarrow> nat" where
  "EVENT_DEL_Q_PRIORITY wq = del_q_priority 0 EVENT_Q_SIZE wq"

definition EVENT_INDEX_Q_PRIORITY :: "UINT8 \<Rightarrow> nat" where
  "EVENT_INDEX_Q_PRIORITY ucPriority = unat (drop_bit 5 ucPriority)"

definition wq_ring_upd :: "nat \<Rightarrow> (tid list \<Rightarrow> tid list) \<Rightarrow> waitqueue \<Rightarrow> waitqueue" where
  "wq_ring_upd b f wq = wq\<lparr>WQ_ring := (WQ_ring wq)(b := f (WQ_ring wq b))\<rparr>"

section \<open>Queue operations (_EventQueue.c, inlSearchEventQueue.h)\<close>

text \<open>A ring pointer \<open>PLW_LIST_RING *\<close> into an event block: queue number and ring index.\<close>

definition event_wq_upd :: "eid \<Rightarrow> nat \<Rightarrow> (waitqueue \<Rightarrow> waitqueue) \<Rightarrow> kernel \<Rightarrow> kernel" where
  "event_wq_upd e q f = event_upd e
     (\<lambda>ev. ev\<lparr>EVENT_wqWaitQ := (EVENT_wqWaitQ ev)(q := f (EVENT_wqWaitQ ev q))\<rparr>)"

abbreviation event_wq :: "kernel \<Rightarrow> eid \<Rightarrow> nat \<Rightarrow> waitqueue" where
  "event_wq s e q \<equiv> EVENT_wqWaitQ (k_event s e) q"

definition EventWaitNum :: "kernel \<Rightarrow> nat \<Rightarrow> eid \<Rightarrow> UINT16" where
  "EventWaitNum s q e = WQ_usNum (event_wq s e q)"

definition AddTCBToEventFifo :: "tid \<Rightarrow> eid \<Rightarrow> nat \<times> nat \<Rightarrow> kernel \<Rightarrow> kernel" where
  "AddTCBToEventFifo t e ppring s = (let
      s1 = event_wq_upd e (fst ppring) (wq_ring_upd (snd ppring) (ring_add_ahead t)) s
    in event_wq_upd e (TCB_iPendQ (k_tcb s1 t)) (\<lambda>wq. wq\<lparr>WQ_usNum := WQ_usNum wq + 1\<rparr>) s1)"

definition DelTCBFromEventFifo :: "tid \<Rightarrow> eid \<Rightarrow> nat \<times> nat \<Rightarrow> kernel \<Rightarrow> kernel" where
  "DelTCBFromEventFifo t e ppring s = (let
      s1 = event_wq_upd e (fst ppring) (wq_ring_upd (snd ppring) (ring_del t)) s
    in event_wq_upd e (TCB_iPendQ (k_tcb s1 t)) (\<lambda>wq. wq\<lparr>WQ_usNum := WQ_usNum wq - 1\<rparr>) s1)"

definition AddTCBToEventPriority :: "tid \<Rightarrow> eid \<Rightarrow> nat \<times> nat \<Rightarrow> kernel \<Rightarrow> kernel" where
  "AddTCBToEventPriority t e ppring s = (let
      s1 = event_wq_upd e (fst ppring) (wq_ring_upd (snd ppring) (prio_ring_add (tcb_prio s) t)) s
    in event_wq_upd e (TCB_iPendQ (k_tcb s1 t)) (\<lambda>wq. wq\<lparr>WQ_usNum := WQ_usNum wq + 1\<rparr>) s1)"

definition DelTCBFromEventPriority :: "tid \<Rightarrow> eid \<Rightarrow> nat \<times> nat \<Rightarrow> kernel \<Rightarrow> kernel" where
  "DelTCBFromEventPriority t e ppring s = (let
      s1 = event_wq_upd e (fst ppring) (wq_ring_upd (snd ppring) (ring_del t)) s
    in event_wq_upd e (TCB_iPendQ (k_tcb s1 t)) (\<lambda>wq. wq\<lparr>WQ_usNum := WQ_usNum wq - 1\<rparr>) s1)"

definition EventQGetTcbFifo :: "kernel \<Rightarrow> eid \<Rightarrow> nat \<times> nat \<Rightarrow> tid" where
  "EventQGetTcbFifo s e ppring = last (WQ_ring (event_wq s e (fst ppring)) (snd ppring))"

definition EventQGetTcbPriority :: "kernel \<Rightarrow> eid \<Rightarrow> nat \<times> nat \<Rightarrow> tid" where
  "EventQGetTcbPriority s e ppring = hd (WQ_ring (event_wq s e (fst ppring)) (snd ppring))"

section \<open>The delay line (k_scanlink.h)\<close>

definition TCB_ulDelay :: "kernel \<Rightarrow> tid \<Rightarrow> ULONG" where
  "TCB_ulDelay s t = WUN_ulCounter (k_delay s) t"

definition set_ulDelay :: "tid \<Rightarrow> ULONG \<Rightarrow> kernel \<Rightarrow> kernel" where
  "set_ulDelay t v s = s\<lparr>k_delay := (k_delay s)\<lparr>WUN_ulCounter := (WUN_ulCounter (k_delay s))(t := v)\<rparr>\<rparr>"

definition ADD_TO_WAKEUP_LINE :: "tid \<Rightarrow> kernel \<Rightarrow> kernel" where
  "ADD_TO_WAKEUP_LINE t s = (let
      s1 = tcb_upd t (\<lambda>x. x\<lparr>TCB_usStatus := TCB_usStatus x OR LW_THREAD_STATUS_DELAY\<rparr>) s
    in s1\<lparr>k_delay := WakeupAdd t (k_delay s1)\<rparr>)"

definition DEL_FROM_WAKEUP_LINE :: "tid \<Rightarrow> kernel \<Rightarrow> kernel" where
  "DEL_FROM_WAKEUP_LINE t s = (let
      s1 = tcb_upd t (\<lambda>x. x\<lparr>TCB_usStatus := TCB_usStatus x AND NOT LW_THREAD_STATUS_DELAY\<rparr>) s
    in s1\<lparr>k_delay := WakeupDel t (k_delay s1)\<rparr>)"

section \<open>Waiting and waking (_EventHighLevel.c)\<close>

definition EventWaitFifo :: "eid \<Rightarrow> nat \<times> nat \<Rightarrow> kernel \<Rightarrow> kernel" where
  "EventWaitFifo e ppring s = (let t = LW_TCB_GET_CUR s;
      s1 = tcb_upd t (\<lambda>x. x\<lparr>TCB_peventPtr := Some e\<rparr>) s;
      s2 = DEL_FROM_READY_RING t (GetPcb s1 t) s1;
      s3 = AddTCBToEventFifo t e ppring s2;
      s4 = (if TCB_ulDelay s3 t \<noteq> 0 then ADD_TO_WAKEUP_LINE t s3 else s3)
    in tcb_upd t (\<lambda>x. x\<lparr>TCB_ucIsEventDelete := LW_EVENT_EXIST\<rparr>) s4)"

definition EventWaitPriority :: "eid \<Rightarrow> nat \<times> nat \<Rightarrow> kernel \<Rightarrow> kernel" where
  "EventWaitPriority e ppring s = (let t = LW_TCB_GET_CUR s;
      s1 = tcb_upd t (\<lambda>x. x\<lparr>TCB_peventPtr := Some e\<rparr>) s;
      s2 = DEL_FROM_READY_RING t (GetPcb s1 t) s1;
      s3 = AddTCBToEventPriority t e ppring s2;
      s4 = (if TCB_ulDelay s3 t \<noteq> 0 then ADD_TO_WAKEUP_LINE t s3 else s3)
    in tcb_upd t (\<lambda>x. x\<lparr>TCB_ucIsEventDelete := LW_EVENT_EXIST\<rparr>) s4)"

definition ReadyLowLevel_tail :: "tid \<Rightarrow> ULONG \<Rightarrow> kernel \<Rightarrow> kernel" where
  "ReadyLowLevel_tail t pvMsgBoxMessage s = (let
      s1 = tcb_upd t (\<lambda>x. x\<lparr>TCB_pvMsgBoxMessage := pvMsgBoxMessage\<rparr>) s
    in if tcb_status s1 t AND LW_THREAD_STATUS_DELAY \<noteq> 0
       then set_ulDelay t 0 (DEL_FROM_WAKEUP_LINE t s1) else s1)"

definition EventReadyFifoLowLevel :: "eid \<Rightarrow> ULONG \<Rightarrow> nat \<times> nat \<Rightarrow> kernel \<Rightarrow> tid \<times> kernel" where
  "EventReadyFifoLowLevel e pvMsgBoxMessage ppring s = (let t = EventQGetTcbFifo s e ppring in
     (t, ReadyLowLevel_tail t pvMsgBoxMessage (DelTCBFromEventFifo t e ppring s)))"

definition EventReadyPriorityLowLevel :: "eid \<Rightarrow> ULONG \<Rightarrow> nat \<times> nat \<Rightarrow> kernel \<Rightarrow> tid \<times> kernel" where
  "EventReadyPriorityLowLevel e pvMsgBoxMessage ppring s = (let t = EventQGetTcbPriority s e ppring in
     (t, ReadyLowLevel_tail t pvMsgBoxMessage (DelTCBFromEventPriority t e ppring s)))"

definition EventReadyHighLevel :: "tid \<Rightarrow> UINT16 \<Rightarrow> kernel \<Rightarrow> kernel" where
  "EventReadyHighLevel t usWaitType s = (let
      s1 = tcb_upd t (\<lambda>x. x\<lparr>TCB_peventPtr := None\<rparr>) s
    in if TCB_ucWaitTimeout (k_tcb s1 t) \<noteq> 0
       then tcb_upd t (\<lambda>x. x\<lparr>TCB_ucWaitTimeout := LW_WAIT_TIME_CLEAR\<rparr>) s1
       else let s2 = tcb_upd t (\<lambda>x. x\<lparr>TCB_usStatus := TCB_usStatus x AND NOT usWaitType\<rparr>) s1 in
         if LW_THREAD_IS_READY (k_tcb s2 t) then
           (let s3 = tcb_upd t (\<lambda>x. x\<lparr>TCB_ucSchedActivate := LW_SCHED_ACT_INTERRUPT\<rparr>) s2
            in ADD_TO_READY_RING t (GetPcb s3 t) s3)
         else s2)"

definition EventPrioTryBoost :: "eid \<Rightarrow> tid \<Rightarrow> kernel \<Rightarrow> kernel" where
  "EventPrioTryBoost e cur s = (let ev = k_event s e; owner = the (EVENT_pvTcbOwn ev) in
     if TCB_iDeleteProcStatus (k_tcb s owner) \<noteq> 0 then s
     else if LW_PRIO_IS_HIGH (tcb_prio s cur) (tcb_prio s owner) then
       (if EVENT_ulOption ev AND LW_OPTION_INHERIT_PRIORITY \<noteq> 0
        then SchedSetPrio owner (tcb_prio s cur) s
        else if LW_PRIO_IS_HIGH (EVENT_ucCeilingPriority ev) (tcb_prio s owner)
        then SchedSetPrio owner (EVENT_ucCeilingPriority ev) s
        else s)
     else s)"

definition EventPrioTryResume :: "eid \<Rightarrow> tid \<Rightarrow> kernel \<Rightarrow> kernel" where
  "EventPrioTryResume e cur s = (let old = ucast (EVENT_ulMaxCounter (k_event s e)) in
     if tcb_prio s cur \<noteq> old then SchedSetPrio cur old s else s)"

definition EventUnQueue :: "tid \<Rightarrow> kernel \<Rightarrow> kernel" where
  "EventUnQueue t s = (let e = the (TCB_peventPtr (k_tcb s t));
      q = TCB_iPendQ (k_tcb s t);
      s1 = (if EVENT_ulOption (k_event s e) AND LW_OPTION_WAIT_PRIORITY \<noteq> 0
            then DelTCBFromEventPriority t e (q, TCB_ppringPriorityQueue (k_tcb s t)) s
            else DelTCBFromEventFifo t e (q, 0) s)
    in tcb_upd t (\<lambda>x. x\<lparr>TCB_peventPtr := None\<rparr>) s1)"

section \<open>The sequences shared by the event objects\<close>

text \<open>Blocking, as every \<open>Pend\<close> routine writes it: the wait fields of the running thread,
  the time of the call, and the queue chosen by the event's option.\<close>

definition PendBlock :: "eid \<Rightarrow> nat \<Rightarrow> UINT16 \<Rightarrow> ULONG \<Rightarrow> kernel \<Rightarrow> kernel" where
  "PendBlock e q usStatus ulTimeout s = (let t = LW_TCB_GET_CUR s;
      s1 = tcb_upd t (\<lambda>x. x\<lparr>TCB_iPendQ := q, TCB_usStatus := TCB_usStatus x OR usStatus,
             TCB_ucWaitTimeout := LW_WAIT_TIME_CLEAR\<rparr>) s;
      s2 = (if ulTimeout = LW_OPTION_WAIT_INFINITE then set_ulDelay t 0 s1
            else set_ulDelay t ulTimeout s1)
    in if EVENT_ulOption (k_event s2 e) AND LW_OPTION_WAIT_PRIORITY \<noteq> 0 then
         (let b = EVENT_INDEX_Q_PRIORITY (tcb_prio s2 t);
              s3 = tcb_upd t (\<lambda>x. x\<lparr>TCB_ppringPriorityQueue := b\<rparr>) s2
          in EventWaitPriority e (q, b) s3)
       else EventWaitFifo e (q, 0) s2)"

text \<open>Removing the next waiter, as every \<open>Post\<close>, \<open>Flush\<close> and \<open>Delete\<close> routine writes it.\<close>

definition ReadyLowLevel :: "eid \<Rightarrow> nat \<Rightarrow> ULONG \<Rightarrow> kernel \<Rightarrow> tid \<times> kernel" where
  "ReadyLowLevel e q pvMsgBoxMessage s =
    (if EVENT_ulOption (k_event s e) AND LW_OPTION_WAIT_PRIORITY \<noteq> 0
     then EventReadyPriorityLowLevel e pvMsgBoxMessage (q, EVENT_DEL_Q_PRIORITY (event_wq s e q)) s
     else EventReadyFifoLowLevel e pvMsgBoxMessage (q, 0) s)"

definition ReadyOne :: "eid \<Rightarrow> nat \<Rightarrow> ULONG \<Rightarrow> UINT16 \<Rightarrow> kernel \<Rightarrow> tid \<times> kernel" where
  "ReadyOne e q pvMsgBoxMessage usWaitType s = (let (t, s1) = ReadyLowLevel e q pvMsgBoxMessage s in
     (t, EventReadyHighLevel t usWaitType s1))"

text \<open>The flush loop \<open>while (_EventWaitNum(...))\<close>; each turn removes one waiter, so the
  number of waiters is enough fuel.\<close>

fun FlushLoop :: "nat \<Rightarrow> eid \<Rightarrow> nat \<Rightarrow> UINT16 \<Rightarrow> kernel \<Rightarrow> kernel" where
  "FlushLoop 0 e q usWaitType s = s"
| "FlushLoop (Suc n) e q usWaitType s =
    (if EventWaitNum s q e = 0 then s
     else FlushLoop n e q usWaitType (snd (ReadyOne e q 0 usWaitType s)))"

text \<open>The delete loop also marks the waiters.\<close>

fun DeleteLoop :: "nat \<Rightarrow> eid \<Rightarrow> nat \<Rightarrow> UINT16 \<Rightarrow> kernel \<Rightarrow> kernel" where
  "DeleteLoop 0 e q usWaitType s = s"
| "DeleteLoop (Suc n) e q usWaitType s =
    (if EventWaitNum s q e = 0 then s
     else let (t, s1) = ReadyLowLevel e q 0 s;
              s2 = tcb_upd t (\<lambda>x. x\<lparr>TCB_ucIsEventDelete := LW_EVENT_DELETE\<rparr>) s1
          in DeleteLoop n e q usWaitType (EventReadyHighLevel t usWaitType s2))"

section \<open>The tick of the delay line (_TimeTick.c)\<close>

definition ThreadTick_node :: "tid \<Rightarrow> kernel \<Rightarrow> kernel" where
  "ThreadTick_node t s = (let
      s1 = DEL_FROM_WAKEUP_LINE t s;
      s2 = (if tcb_status s1 t AND LW_THREAD_STATUS_PEND_ANY \<noteq> 0 then
              (let s' = tcb_upd t (\<lambda>x. x\<lparr>TCB_usStatus := TCB_usStatus x AND NOT LW_THREAD_STATUS_PEND_ANY,
                          TCB_ucWaitTimeout := LW_WAIT_TIME_OUT\<rparr>) s1
               in if TCB_peventPtr (k_tcb s' t) \<noteq> None then EventUnQueue t s' else s')
            else tcb_upd t (\<lambda>x. x\<lparr>TCB_ucWaitTimeout := LW_WAIT_TIME_CLEAR\<rparr>) s1)
    in if LW_THREAD_IS_READY (k_tcb s2 t) then
         (let s3 = tcb_upd t (\<lambda>x. x\<lparr>TCB_ucSchedActivate := LW_SCHED_ACT_OTHER\<rparr>) s2
          in ADD_TO_READY_RING t (GetPcb s3 t) s3)
       else s2)"

text \<open>The pass over the line.  Every turn that continues removes its node, so the length
  of the line is enough fuel.\<close>

fun ThreadTick_pass :: "nat \<Rightarrow> ULONG \<Rightarrow> kernel \<Rightarrow> kernel" where
  "ThreadTick_pass 0 ulCounter s = s"
| "ThreadTick_pass (Suc n) ulCounter s = (case WU_plineOp (k_delay s) of
     None \<Rightarrow> s
   | Some t \<Rightarrow> (let (w, r) = WAKEUP_PASS_FIRST t ulCounter (k_delay s); s1 = s\<lparr>k_delay := w\<rparr> in
       case r of
         None \<Rightarrow> s1
       | Some k \<Rightarrow> ThreadTick_pass n k (ThreadTick_node t s1)))"

definition ThreadTick :: "kernel \<Rightarrow> kernel" where
  "ThreadTick s = (let s1 = KERNEL_ENTER s;
      s2 = s1\<lparr>k_delay := WAKEUP_PASS_BEGIN (k_delay s1)\<rparr>
    in KERNEL_EXIT (ThreadTick_pass (Suc (length (WU_line (k_delay s2)))) 1 s2))"

end
