(* ===== verification/Event_Inv.thy ===== *)
theory Event_Inv
  imports Event_Queue
begin

text \<open>
  The invariant of wait queues and delay line, and its preservation by the shared
  operations of \<open>Event_Queue\<close>.  \<open>wait_inv\<close> states that the rings of an event block hold
  exactly the threads whose TCB names that event, that queue and that ring, each once;
  that \<open>WQ_usNum\<close> counts them; and that a waiter is marked as pending.  \<open>delay_inv\<close>
  states that the delay line holds exactly the threads whose status has the delay bit.
  \<open>kinv\<close> joins both with the invariant of the ready structures.
\<close>

section \<open>Waiting threads\<close>

definition wait_bucket :: "kernel \<Rightarrow> tid \<Rightarrow> nat" where
  "wait_bucket s t = (if EVENT_ulOption (k_event s (the (TCB_peventPtr (k_tcb s t)))) AND LW_OPTION_WAIT_PRIORITY \<noteq> 0
     then TCB_ppringPriorityQueue (k_tcb s t) else 0)"

definition waits_on :: "kernel \<Rightarrow> eid \<Rightarrow> nat \<Rightarrow> tid \<Rightarrow> bool" where
  "waits_on s e q t \<longleftrightarrow> TCB_peventPtr (k_tcb s t) = Some e \<and> TCB_iPendQ (k_tcb s t) = q"

definition waiters :: "kernel \<Rightarrow> eid \<Rightarrow> nat \<Rightarrow> tid set" where
  "waiters s e q = {t. waits_on s e q t}"

text \<open>\<open>wait_invx X s\<close>: the threads of \<open>X\<close> are in no ring, whatever their TCB says.\<close>

definition wait_invx :: "tid set \<Rightarrow> kernel \<Rightarrow> bool" where
  "wait_invx X s \<longleftrightarrow>
     (\<forall>e q b. distinct (WQ_ring (event_wq s e q) b) \<and>
        (\<forall>t. t \<in> set (WQ_ring (event_wq s e q) b) \<longleftrightarrow> t \<notin> X \<and> waits_on s e q t \<and> wait_bucket s t = b)) \<and>
     (\<forall>e q. unat (WQ_usNum (event_wq s e q)) = card {t. t \<notin> X \<and> waits_on s e q t}) \<and>
     (\<forall>t e. t \<notin> X \<longrightarrow> TCB_peventPtr (k_tcb s t) = Some e \<longrightarrow>
        wait_bucket s t < EVENT_Q_SIZE \<and> tcb_status s t AND LW_THREAD_STATUS_PEND_ANY \<noteq> 0 \<and>
        TCB_ucWaitTimeout (k_tcb s t) = LW_WAIT_TIME_CLEAR \<and> t < LW_CFG_MAX_THREADS)"

definition wait_inv :: "kernel \<Rightarrow> bool" where
  "wait_inv s \<longleftrightarrow> wait_invx {} s"

definition delay_inv :: "kernel \<Rightarrow> bool" where
  "delay_inv s \<longleftrightarrow> wu_ok (k_delay s) \<and>
     (\<forall>t. t \<in> set (WU_line (k_delay s)) \<longleftrightarrow> tcb_status s t AND LW_THREAD_STATUS_DELAY \<noteq> 0)"

definition ready_set :: "kernel \<Rightarrow> tid set" where
  "ready_set s = {t. k_tcbIdTable s t \<and> LW_THREAD_IS_READY (k_tcb s t)}"

definition kinv :: "kernel \<Rightarrow> bool" where
  "kinv s \<longleftrightarrow> sched_inv (ready_set s) s \<and> k_curcpu s < k_ncpus s \<and> wait_inv s \<and> delay_inv s \<and>
     (\<forall>t. k_tcbIdTable s t \<longrightarrow> t < LW_CFG_MAX_THREADS) \<and>
     (\<forall>t. TCB_peventPtr (k_tcb s t) \<noteq> None \<or> tcb_status s t AND LW_THREAD_STATUS_DELAY \<noteq> 0 \<longrightarrow> k_tcbIdTable s t)"

section \<open>Frames\<close>

lemma waits_on_frame:
  assumes "run_frame s s'"
  shows "waits_on s' e q t = waits_on s e q t" "wait_bucket s' t = wait_bucket s t"
  by (simp_all add: waits_on_def wait_bucket_def run_frame_tcbD[OF assms] run_frame_kernelD[OF assms])

lemma wait_invx_frame:
  assumes "run_frame s s'" shows "wait_invx X s' \<longleftrightarrow> wait_invx X s"
  by (simp add: wait_invx_def waits_on_frame[OF assms] run_frame_kernelD[OF assms] run_frame_tcbD[OF assms])

lemma wait_inv_frame: "run_frame s s' \<Longrightarrow> wait_inv s' \<longleftrightarrow> wait_inv s"
  by (simp add: wait_inv_def wait_invx_frame)

lemma delay_inv_frame: "run_frame s s' \<Longrightarrow> delay_inv s' \<longleftrightarrow> delay_inv s"
  by (simp add: delay_inv_def run_frame_tcbD run_frame_kernelD)

lemma ready_set_frame: "run_frame s s' \<Longrightarrow> ready_set s' = ready_set s"
  by (simp add: ready_set_def LW_THREAD_IS_READY_def run_frame_tcbD run_frame_kernelD)

lemma kinv_frame:
  assumes "run_frame s s'" "kinv s" "sched_inv (ready_set s) s'"
  shows "kinv s'"
  using assms
  by (simp add: kinv_def wait_inv_frame delay_inv_frame ready_set_frame run_frame_kernelD run_frame_tcbD)

lemma kinv_sched: "kinv s \<Longrightarrow> sched_inv (ready_set s) s"
  and kinv_wait: "kinv s \<Longrightarrow> wait_inv s"
  and kinv_delay: "kinv s \<Longrightarrow> delay_inv s"
  and kinv_cpu: "kinv s \<Longrightarrow> k_curcpu s < k_ncpus s"
  by (simp_all add: kinv_def)

lemma KERNEL_ENTER_kinv [simp]: "kinv (KERNEL_ENTER s) \<longleftrightarrow> kinv s"
  by (simp add: kinv_def wait_inv_frame[OF run_frame_kernel(1)] delay_inv_frame[OF run_frame_kernel(1)]
      ready_set_frame[OF run_frame_kernel(1)])

lemma KERNEL_EXIT_kinv:
  assumes "kinv s" shows "kinv (KERNEL_EXIT s)" "k_halt (KERNEL_EXIT s) = k_halt s"
  using KERNEL_EXIT_inv[OF kinv_sched[OF assms] kinv_cpu[OF assms]]
    kinv_frame[OF run_frame_kernel(2) assms] by auto

section \<open>Reading the wait queues\<close>

lemma event_wq_upd_simps [simp]:
  "event_wq (event_wq_upd e q f s) e' q' = (if e' = e \<and> q' = q then f (event_wq s e q) else event_wq s e' q')"
  "k_tcb (event_wq_upd e q f s) = k_tcb s" "k_delay (event_wq_upd e q f s) = k_delay s"
  "EVENT_ulOption (k_event (event_wq_upd e q f s) e') = EVENT_ulOption (k_event s e')"
  "k_tcbIdTable (event_wq_upd e q f s) = k_tcbIdTable s" "k_curcpu (event_wq_upd e q f s) = k_curcpu s"
  "k_ncpus (event_wq_upd e q f s) = k_ncpus s" "k_halt (event_wq_upd e q f s) = k_halt s"
  "k_cpu (event_wq_upd e q f s) = k_cpu s" "k_freeEvents (event_wq_upd e q f s) = k_freeEvents s"
  "sched_inv R (event_wq_upd e q f s) \<longleftrightarrow> sched_inv R s"
  by (auto simp: event_wq_upd_def)

lemma WQ_ring_upd [simp]:
  "WQ_ring (wq_ring_upd b f wq) b' = (if b' = b then f (WQ_ring wq b) else WQ_ring wq b')"
  "WQ_usNum (wq_ring_upd b f wq) = WQ_usNum wq"
  by (simp_all add: wq_ring_upd_def)

lemma set_prio_ring_tail [simp]: "set (prio_ring_tail pr t xs) = insert t (set xs)"
  by (induction xs) auto

lemma distinct_prio_ring_tail [simp]:
  "distinct (prio_ring_tail pr t xs) \<longleftrightarrow> t \<notin> set xs \<and> distinct xs"
  by (induction xs) auto

lemma set_prio_ring_add [simp]: "set (prio_ring_add pr t xs) = insert t (set xs)"
  by (cases xs) auto

lemma distinct_prio_ring_add [simp]:
  "distinct (prio_ring_add pr t xs) \<longleftrightarrow> t \<notin> set xs \<and> distinct xs"
  by (cases xs) auto

section \<open>Joining and leaving a queue\<close>

lemma waits_on_event_wq_upd [simp]:
  "waits_on (event_wq_upd e q f s) e' q' t = waits_on s e' q' t"
  "wait_bucket (event_wq_upd e q f s) t = wait_bucket s t"
  by (simp_all add: waits_on_def wait_bucket_def)

lemma wait_invxD:
  assumes "wait_invx X s"
  shows "distinct (WQ_ring (event_wq s e q) b)"
    "t \<in> set (WQ_ring (event_wq s e q) b) \<longleftrightarrow> t \<notin> X \<and> waits_on s e q t \<and> wait_bucket s t = b"
    "unat (WQ_usNum (event_wq s e q)) = card {t. t \<notin> X \<and> waits_on s e q t}"
    "\<lbrakk>t \<notin> X; waits_on s e q t\<rbrakk> \<Longrightarrow> wait_bucket s t < EVENT_Q_SIZE
       \<and> tcb_status s t AND LW_THREAD_STATUS_PEND_ANY \<noteq> 0
       \<and> TCB_ucWaitTimeout (k_tcb s t) = LW_WAIT_TIME_CLEAR \<and> t < LW_CFG_MAX_THREADS"
  using assms unfolding wait_invx_def waits_on_def by blast+

lemma wait_invx_bound:
  assumes "wait_invx X s" shows "{t. t \<notin> X \<and> waits_on s e q t} \<subseteq> {..<LW_CFG_MAX_THREADS}"
    "finite {t. t \<notin> X \<and> waits_on s e q t}" "card {t. t \<notin> X \<and> waits_on s e q t} \<le> LW_CFG_MAX_THREADS"
proof -
  show sub: "{t. t \<notin> X \<and> waits_on s e q t} \<subseteq> {..<LW_CFG_MAX_THREADS}"
    using wait_invxD(4)[OF assms] by auto
  show "finite {t. t \<notin> X \<and> waits_on s e q t}" using sub finite_subset by blast
  show "card {t. t \<notin> X \<and> waits_on s e q t} \<le> LW_CFG_MAX_THREADS"
    using card_mono[OF _ sub] by simp
qed

lemma wait_add_gen:
  assumes inv: "wait_invx {t} s" and on: "waits_on s e q t" and b: "wait_bucket s t = b" "b < EVENT_Q_SIZE"
    and st: "tcb_status s t AND LW_THREAD_STATUS_PEND_ANY \<noteq> 0"
      "TCB_ucWaitTimeout (k_tcb s t) = LW_WAIT_TIME_CLEAR" "t < LW_CFG_MAX_THREADS"
    and f: "\<And>xs. set (f xs) = insert t (set xs)" "\<And>xs. distinct (f xs) \<longleftrightarrow> t \<notin> set xs \<and> distinct xs"
  shows "wait_inv (event_wq_upd e q (\<lambda>wq. wq\<lparr>WQ_usNum := WQ_usNum wq + 1\<rparr>)
    (event_wq_upd e q (wq_ring_upd b f) s))" (is "wait_inv ?s")
proof -
  have card: "{u. waits_on s e' q' u} = (if e' = e \<and> q' = q then insert t {u. u \<noteq> t \<and> waits_on s e' q' u}
      else {u. u \<noteq> t \<and> waits_on s e' q' u})" for e' q'
    using on by (auto simp: waits_on_def)
  have fin: "finite {u. u \<noteq> t \<and> waits_on s e q u}" and le: "card {u. u \<noteq> t \<and> waits_on s e q u} \<le> 500"
    using wait_invx_bound[OF inv] by auto
  have num: "unat (WQ_usNum (event_wq s e q)) \<le> 500" using wait_invxD(3)[OF inv] le by simp
  have inc: "unat (WQ_usNum (event_wq s e q) + 1) = Suc (unat (WQ_usNum (event_wq s e q)))"
    using num by (simp add: unat_word_ariths)
  have ring: "u \<in> set (WQ_ring (event_wq ?s e' q') b') \<longleftrightarrow> waits_on s e' q' u \<and> wait_bucket s u = b'" for u e' q' b'
    using wait_invxD(2)[OF inv, of u e' q' b'] on b(1) by (auto simp: f waits_on_def)
  have dist: "distinct (WQ_ring (event_wq ?s e' q') b')" for e' q' b'
    using wait_invxD(1,2)[OF inv, of e' q' b'] wait_invxD(2)[OF inv, of t e' q' b'] by (auto simp: f)
  have cnt: "unat (WQ_usNum (event_wq ?s e' q')) = card {u. waits_on s e' q' u}" for e' q'
    using wait_invxD(3)[OF inv, of e' q'] inc fin by (auto simp: card)
  have flds: "waits_on s e' q' u \<Longrightarrow> wait_bucket s u < 8 \<and> tcb_status s u AND 0x1e \<noteq> 0
      \<and> TCB_ucWaitTimeout (k_tcb s u) = 0 \<and> u < 500" for e' q' u
    using wait_invxD(4)[OF inv, of u e' q'] b st by (cases "u = t") auto
  show ?thesis
    unfolding wait_inv_def wait_invx_def
    using ring dist cnt flds by (auto simp: waits_on_def simp del: event_wq_upd_simps(1))
qed

lemma wait_del_gen:
  assumes inv: "wait_inv s" and on: "waits_on s e q t" and b: "wait_bucket s t = b"
  shows "wait_invx {t} (event_wq_upd e q (\<lambda>wq. wq\<lparr>WQ_usNum := WQ_usNum wq - 1\<rparr>)
    (event_wq_upd e q (wq_ring_upd b (ring_del t)) s))" (is "wait_invx {t} ?s")
proof -
  note inv' = inv[unfolded wait_inv_def]
  have card: "{u. waits_on s e' q' u} = (if e' = e \<and> q' = q then insert t {u. u \<noteq> t \<and> waits_on s e' q' u}
      else {u. u \<noteq> t \<and> waits_on s e' q' u})" for e' q'
    using on by (auto simp: waits_on_def)
  have fin: "finite {u. u \<noteq> t \<and> waits_on s e q u}"
    by (rule finite_subset[OF _ wait_invx_bound(2)[OF inv', of e q]]) auto
  have cnt0: "unat (WQ_usNum (event_wq s e q)) = Suc (card {u. u \<noteq> t \<and> waits_on s e q u})"
    using wait_invxD(3)[OF inv', of e q] fin card[of e q] by simp
  then have ne: "WQ_usNum (event_wq s e q) \<noteq> 0" by auto
  have dec: "unat (WQ_usNum (event_wq s e q) - 1) = card {u. u \<noteq> t \<and> waits_on s e q u}"
    using word_pos_Suc_unat[OF ne] cnt0 by simp
  have ring: "u \<in> set (WQ_ring (event_wq ?s e' q') b') \<longleftrightarrow> u \<noteq> t \<and> waits_on s e' q' u \<and> wait_bucket s u = b'" for u e' q' b'
    using wait_invxD(1,2)[OF inv', of e' q' b'] wait_invxD(2)[OF inv', of u e' q' b'] on b
    by (auto simp: waits_on_def)
  have dist: "distinct (WQ_ring (event_wq ?s e' q') b')" for e' q' b'
    using wait_invxD(1)[OF inv', of e' q' b'] by auto
  have cnt: "unat (WQ_usNum (event_wq ?s e' q')) = card {u. u \<noteq> t \<and> waits_on s e' q' u}" for e' q'
    using wait_invxD(3)[OF inv', of e' q'] dec by (auto simp: card)
  have flds: "waits_on s e' q' u \<Longrightarrow> wait_bucket s u < 8 \<and> tcb_status s u AND 0x1e \<noteq> 0
      \<and> TCB_ucWaitTimeout (k_tcb s u) = 0 \<and> u < 500" for e' q' u
    using wait_invxD(4)[OF inv', of u e' q'] by auto
  show ?thesis
    unfolding wait_invx_def
    using ring dist cnt flds by (auto simp: waits_on_def simp del: event_wq_upd_simps(1))
qed

section \<open>Updates that keep the invariants\<close>

lemma wait_invx_k_delay [simp]:
  "waits_on (s\<lparr>k_delay := w\<rparr>) e q t = waits_on s e q t"
  "wait_bucket (s\<lparr>k_delay := w\<rparr>) t = wait_bucket s t"
  "wait_invx X (s\<lparr>k_delay := w\<rparr>) \<longleftrightarrow> wait_invx X s"
  "wait_inv (s\<lparr>k_delay := w\<rparr>) \<longleftrightarrow> wait_inv s"
  by (simp_all add: wait_inv_def wait_invx_def waits_on_def wait_bucket_def)

lemma waits_on_tcb_upd_other:
  assumes "u \<noteq> t"
  shows "waits_on (tcb_upd t f s) e q u = waits_on s e q u" "wait_bucket (tcb_upd t f s) u = wait_bucket s u"
  using assms by (simp_all add: waits_on_def wait_bucket_def)

lemma wait_invx_tcb:
  assumes "wait_invx X s" "t \<in> X" shows "wait_invx X (tcb_upd t f s)"
proof -
  have w: "(u \<notin> X \<and> waits_on (tcb_upd t f s) e q u) = (u \<notin> X \<and> waits_on s e q u)"
    "(u \<notin> X \<and> waits_on (tcb_upd t f s) e q u \<and> wait_bucket (tcb_upd t f s) u = b)
      = (u \<notin> X \<and> waits_on s e q u \<and> wait_bucket s u = b)"
    "u \<notin> X \<Longrightarrow> wait_bucket (tcb_upd t f s) u = wait_bucket s u" for u e q b
    using assms(2) by (metis waits_on_tcb_upd_other)+
  show ?thesis
    using assms unfolding wait_invx_def by (simp add: w(1,2)) (metis w(3))
qed

lemma wait_invx_None:
  assumes "TCB_peventPtr (k_tcb s t) = None" shows "wait_invx {t} s \<longleftrightarrow> wait_inv s"
proof -
  have "(u \<notin> {t} \<and> waits_on s e q u) = waits_on s e q u" for u e q
    using assms by (auto simp: waits_on_def)
  moreover have "(u \<notin> {t} \<and> waits_on s e q u \<and> wait_bucket s u = b) = (waits_on s e q u \<and> wait_bucket s u = b)" for u e q b
    using assms by (auto simp: waits_on_def)
  moreover have "(u \<notin> {t} \<longrightarrow> TCB_peventPtr (k_tcb s u) = Some e \<longrightarrow> P) = (TCB_peventPtr (k_tcb s u) = Some e \<longrightarrow> P)" for u e P
    using assms by auto
  ultimately show ?thesis
    unfolding wait_inv_def wait_invx_def by (simp only: empty_iff not_False_eq_True simp_thms)
qed

lemma wait_inv_join:
  assumes "wait_inv s" "TCB_peventPtr (k_tcb s t) = None"
  shows "wait_invx {t} (tcb_upd t f s)"
  using assms wait_invx_None wait_invx_tcb by blast

lemma wait_inv_leave:
  assumes "wait_invx {t} s" "TCB_peventPtr (f (k_tcb s t)) = None"
  shows "wait_inv (tcb_upd t f s)"
  using wait_invx_None[of "tcb_upd t f s" t] wait_invx_tcb[OF assms(1), of t f] assms(2) by simp

lemma wait_inv_tcb_same:
  assumes inv: "wait_inv s" and same: "TCB_peventPtr (f (k_tcb s t)) = TCB_peventPtr (k_tcb s t)"
      "TCB_iPendQ (f (k_tcb s t)) = TCB_iPendQ (k_tcb s t)"
      "TCB_ppringPriorityQueue (f (k_tcb s t)) = TCB_ppringPriorityQueue (k_tcb s t)"
    and st: "TCB_peventPtr (k_tcb s t) \<noteq> None \<Longrightarrow>
       TCB_usStatus (f (k_tcb s t)) AND LW_THREAD_STATUS_PEND_ANY \<noteq> 0
       \<and> TCB_ucWaitTimeout (f (k_tcb s t)) = LW_WAIT_TIME_CLEAR"
  shows "wait_inv (tcb_upd t f s)"
proof -
  have w: "waits_on (tcb_upd t f s) e q u = waits_on s e q u" "wait_bucket (tcb_upd t f s) u = wait_bucket s u" for u e q
    using same by (auto simp: waits_on_def wait_bucket_def)
  show ?thesis
    using inv unfolding wait_inv_def wait_invx_def w using same(1) st by (auto simp: waits_on_def)
qed

lemma delay_inv_tcb:
  assumes "TCB_usStatus (f (k_tcb s t)) AND LW_THREAD_STATUS_DELAY = tcb_status s t AND LW_THREAD_STATUS_DELAY"
  shows "delay_inv (tcb_upd t f s) \<longleftrightarrow> delay_inv s"
  using assms by (auto simp: delay_inv_def)

lemma delay_inv_event_wq_upd [simp]: "delay_inv (event_wq_upd e q f s) \<longleftrightarrow> delay_inv s"
  by (simp add: delay_inv_def)

lemma delay_line_mem:
  "delay_inv s \<Longrightarrow> t \<in> set (WU_line (k_delay s)) \<longleftrightarrow> tcb_status s t AND LW_THREAD_STATUS_DELAY \<noteq> 0"
  by (simp add: delay_inv_def)

lemma set_ulDelay_simps [simp]:
  "k_tcb (set_ulDelay t v s) = k_tcb s" "k_event (set_ulDelay t v s) = k_event s"
  "k_cpu (set_ulDelay t v s) = k_cpu s" "k_ncpus (set_ulDelay t v s) = k_ncpus s"
  "k_curcpu (set_ulDelay t v s) = k_curcpu s" "k_tcbIdTable (set_ulDelay t v s) = k_tcbIdTable s"
  "k_freeEvents (set_ulDelay t v s) = k_freeEvents s"
  "k_halt (set_ulDelay t v s) = k_halt s" "WU_line (k_delay (set_ulDelay t v s)) = WU_line (k_delay s)"
  "TCB_ulDelay (set_ulDelay t v s) u = (if u = t then v else TCB_ulDelay s u)"
  "wait_invx X (set_ulDelay t v s) \<longleftrightarrow> wait_invx X s" "wait_inv (set_ulDelay t v s) \<longleftrightarrow> wait_inv s"
  by (simp_all add: set_ulDelay_def TCB_ulDelay_def)

lemma sched_inv_k_delay [simp]: "sched_inv R (s\<lparr>k_delay := w\<rparr>) \<longleftrightarrow> sched_inv R s"
proof (rule sched_inv_place_cong)
  have m: "rdy_map (s\<lparr>k_delay := w\<rparr>) tab = rdy_map s tab" for tab by (cases tab) auto
  show "rdy_ring (s\<lparr>k_delay := w\<rparr>) pp = rdy_ring s pp" for pp by (simp add: rdy_ring_def m)
  show "rdy_bm (s\<lparr>k_delay := w\<rparr>) tab = rdy_bm s tab" for tab by (simp add: rdy_bm_def m)
qed (simp_all add: LW_CAND_TCB_def)

lemma sched_inv_set_ulDelay [simp]: "sched_inv R (set_ulDelay t v s) \<longleftrightarrow> sched_inv R s"
  by (simp add: set_ulDelay_def)

lemma dues_counter_out:
  "n \<notin> set (WU_line w) \<Longrightarrow> dues (w\<lparr>WUN_ulCounter := (WUN_ulCounter w)(n := v)\<rparr>) = dues w"
  unfolding dues_def by (auto intro: dues_from_cong)

lemma delay_inv_set_ulDelay:
  assumes "delay_inv s" "tcb_status s t AND LW_THREAD_STATUS_DELAY = 0"
  shows "delay_inv (set_ulDelay t v s)"
proof -
  have "t \<notin> set (WU_line (k_delay s))" using assms delay_line_mem by blast
  then show ?thesis using assms(1) dues_counter_out[of t "k_delay s" v]
    by (simp add: delay_inv_def wu_ok_def set_ulDelay_def)
qed

lemma status_bits [simp]:
  fixes x :: UINT16
  shows "(x OR 1) AND 1 = 1" "(x AND NOT 1) AND 1 = 0" "(x OR 1) AND 0x1e = x AND 0x1e"
    "(x AND NOT 1) AND 0x1e = x AND 0x1e" "(x AND NOT 0x1e) AND 1 = x AND 1"
    "(x AND NOT 0x1e) AND 0x1e = 0"
    "(x AND - 2) AND 1 = 0" "(x AND - 2) AND 0x1e = x AND 0x1e"
    "(x AND - 31) AND 1 = x AND 1" "(x AND - 31) AND 0x1e = 0"
  by (simp_all add: bit.conj_disj_distrib2 bit.conj_disj_distrib and.assoc)

lemma ADD_TO_WAKEUP_LINE_simps [simp]:
  "k_event (ADD_TO_WAKEUP_LINE t s) = k_event s" "k_cpu (ADD_TO_WAKEUP_LINE t s) = k_cpu s"
  "k_ncpus (ADD_TO_WAKEUP_LINE t s) = k_ncpus s" "k_curcpu (ADD_TO_WAKEUP_LINE t s) = k_curcpu s"
  "k_freeEvents (ADD_TO_WAKEUP_LINE t s) = k_freeEvents s" "k_tcbIdTable (ADD_TO_WAKEUP_LINE t s) = k_tcbIdTable s" "k_halt (ADD_TO_WAKEUP_LINE t s) = k_halt s"
  "k_tcb (ADD_TO_WAKEUP_LINE t s) = (k_tcb s)(t := (k_tcb s t)\<lparr>TCB_usStatus := tcb_status s t OR LW_THREAD_STATUS_DELAY\<rparr>)"
  "sched_inv R (ADD_TO_WAKEUP_LINE t s) \<longleftrightarrow> sched_inv R s"
  by (simp_all add: ADD_TO_WAKEUP_LINE_def Let_def)

lemma DEL_FROM_WAKEUP_LINE_simps [simp]:
  "k_event (DEL_FROM_WAKEUP_LINE t s) = k_event s" "k_cpu (DEL_FROM_WAKEUP_LINE t s) = k_cpu s"
  "k_ncpus (DEL_FROM_WAKEUP_LINE t s) = k_ncpus s" "k_curcpu (DEL_FROM_WAKEUP_LINE t s) = k_curcpu s"
  "k_freeEvents (DEL_FROM_WAKEUP_LINE t s) = k_freeEvents s" "k_tcbIdTable (DEL_FROM_WAKEUP_LINE t s) = k_tcbIdTable s" "k_halt (DEL_FROM_WAKEUP_LINE t s) = k_halt s"
  "k_tcb (DEL_FROM_WAKEUP_LINE t s) = (k_tcb s)(t := (k_tcb s t)\<lparr>TCB_usStatus := tcb_status s t AND NOT LW_THREAD_STATUS_DELAY\<rparr>)"
  "sched_inv R (DEL_FROM_WAKEUP_LINE t s) \<longleftrightarrow> sched_inv R s"
  by (simp_all add: DEL_FROM_WAKEUP_LINE_def Let_def)

lemma ADD_TO_WAKEUP_LINE_delay:
  assumes "delay_inv s" "tcb_status s t AND LW_THREAD_STATUS_DELAY = 0"
  shows "delay_inv (ADD_TO_WAKEUP_LINE t s)"
proof -
  have t: "t \<notin> set (WU_line (k_delay s))" and ok: "wu_ok (k_delay s)"
    using assms delay_line_mem by (auto simp: delay_inv_def)
  show ?thesis
    using assms(1) wu_ok_WakeupAdd[OF ok t] set_WakeupAdd_line[OF ok t]
    by (auto simp: delay_inv_def ADD_TO_WAKEUP_LINE_def Let_def)
qed

lemma DEL_FROM_WAKEUP_LINE_delay:
  assumes "delay_inv s" "tcb_status s t AND LW_THREAD_STATUS_DELAY \<noteq> 0"
  shows "delay_inv (DEL_FROM_WAKEUP_LINE t s)"
proof -
  have t: "t \<in> set (WU_line (k_delay s))" and ok: "wu_ok (k_delay s)"
    using assms delay_line_mem by (auto simp: delay_inv_def)
  show ?thesis
    using assms(1) wu_ok_WakeupDel[OF ok t] ok
    by (auto simp: delay_inv_def DEL_FROM_WAKEUP_LINE_def Let_def wu_ok_def)
qed

lemma WAKEUP_LINE_wait [simp]:
  "wait_inv s \<Longrightarrow> wait_inv (ADD_TO_WAKEUP_LINE t s)" "wait_inv s \<Longrightarrow> wait_inv (DEL_FROM_WAKEUP_LINE t s)"
  using wait_invxD(4)[of "{}" s t "the (TCB_peventPtr (k_tcb s t))" "TCB_iPendQ (k_tcb s t)"]
  by (auto simp: ADD_TO_WAKEUP_LINE_def DEL_FROM_WAKEUP_LINE_def Let_def wait_inv_def[symmetric] waits_on_def
      intro!: wait_inv_tcb_same)

lemma WAKEUP_LINE_waitx [simp]:
  "t \<in> X \<Longrightarrow> wait_invx X s \<Longrightarrow> wait_invx X (ADD_TO_WAKEUP_LINE t s)"
  "t \<in> X \<Longrightarrow> wait_invx X s \<Longrightarrow> wait_invx X (DEL_FROM_WAKEUP_LINE t s)"
  by (simp_all add: ADD_TO_WAKEUP_LINE_def DEL_FROM_WAKEUP_LINE_def Let_def wait_invx_tcb)

section \<open>Blocking\<close>

text \<open>An event block without its wait queues.\<close>

definition ev_core :: "event \<Rightarrow> event" where
  "ev_core ev = ev\<lparr>EVENT_wqWaitQ := (\<lambda>_. \<lparr>WQ_ring = (\<lambda>_. []), WQ_usNum = 0\<rparr>)\<rparr>"

lemma ev_core_eqD:
  assumes "ev_core a = ev_core b"
  shows "EVENT_ucType a = EVENT_ucType b" "EVENT_pvTcbOwn a = EVENT_pvTcbOwn b"
    "EVENT_ulCounter a = EVENT_ulCounter b" "EVENT_ulMaxCounter a = EVENT_ulMaxCounter b"
    "EVENT_iStatus a = EVENT_iStatus b" "EVENT_ulOption a = EVENT_ulOption b"
    "EVENT_ucCeilingPriority a = EVENT_ucCeilingPriority b" "EVENT_pvPtr a = EVENT_pvPtr b"
    "EVENT_cEventName a = EVENT_cEventName b"
  using assms by (cases a; cases b; simp add: ev_core_def)+

text \<open>Both queue disciplines block in the same way; they differ in where the thread
  enters its ring.\<close>

definition EventWait_by :: "(kernel \<Rightarrow> tid list \<Rightarrow> tid list) \<Rightarrow> eid \<Rightarrow> nat \<Rightarrow> nat \<Rightarrow> kernel \<Rightarrow> kernel" where
  "EventWait_by F e q b s = (let t = LW_TCB_GET_CUR s;
      s1 = tcb_upd t (\<lambda>x. x\<lparr>TCB_peventPtr := Some e\<rparr>) s;
      s2 = DEL_FROM_READY_RING t (GetPcb s1 t) s1;
      s3 = event_wq_upd e (TCB_iPendQ (k_tcb s2 t)) (\<lambda>wq. wq\<lparr>WQ_usNum := WQ_usNum wq + 1\<rparr>)
             (event_wq_upd e q (wq_ring_upd b (F s2)) s2);
      s4 = (if TCB_ulDelay s3 t \<noteq> 0 then ADD_TO_WAKEUP_LINE t s3 else s3)
    in tcb_upd t (\<lambda>x. x\<lparr>TCB_ucIsEventDelete := LW_EVENT_EXIST\<rparr>) s4)"

lemma EventWait_by_eqs:
  "EventWaitFifo e (q, b) s = EventWait_by (\<lambda>_. ring_add_ahead (LW_TCB_GET_CUR s)) e q b s"
  "EventWaitPriority e (q, b) s =
     EventWait_by (\<lambda>s2. prio_ring_add (tcb_prio s2) (LW_TCB_GET_CUR s)) e q b s"
  by (simp_all add: EventWaitFifo_def EventWaitPriority_def EventWait_by_def AddTCBToEventFifo_def
      AddTCBToEventPriority_def Let_def)

lemma tcb_core_upd [simp]:
  "tcb_core (x\<lparr>TCB_peventPtr := p\<rparr>) = (tcb_core x)\<lparr>TCB_peventPtr := p\<rparr>"
  "tcb_core (x\<lparr>TCB_usStatus := u\<rparr>) = (tcb_core x)\<lparr>TCB_usStatus := u\<rparr>"
  "tcb_core (x\<lparr>TCB_ucIsEventDelete := d\<rparr>) = (tcb_core x)\<lparr>TCB_ucIsEventDelete := d\<rparr>"
  "tcb_core (x\<lparr>TCB_ucWaitTimeout := w\<rparr>) = (tcb_core x)\<lparr>TCB_ucWaitTimeout := w\<rparr>"
  "tcb_core (x\<lparr>TCB_ucSchedActivate := a\<rparr>) = (tcb_core x)\<lparr>TCB_ucSchedActivate := a\<rparr>"
  "tcb_core (x\<lparr>TCB_pvMsgBoxMessage := m\<rparr>) = (tcb_core x)\<lparr>TCB_pvMsgBoxMessage := m\<rparr>"
  "tcb_core (x\<lparr>TCB_ppringPriorityQueue := b\<rparr>) = (tcb_core x)\<lparr>TCB_ppringPriorityQueue := b\<rparr>"
  "tcb_core (x\<lparr>TCB_iPendQ := q\<rparr>) = (tcb_core x)\<lparr>TCB_iPendQ := q\<rparr>"
  by (simp_all add: tcb_core_def)

lemma EventWait_by_ok:
  assumes inv: "sched_inv R s" "wait_inv s" "delay_inv s"
    and t: "LW_TCB_GET_CUR s = t" "t \<in> R" "k_ncpus s \<le> t" "t < LW_CFG_MAX_THREADS"
    and fields: "TCB_peventPtr (k_tcb s t) = None" "TCB_iPendQ (k_tcb s t) = q" "b < EVENT_Q_SIZE"
      "b = (if EVENT_ulOption (k_event s e) AND LW_OPTION_WAIT_PRIORITY \<noteq> 0
            then TCB_ppringPriorityQueue (k_tcb s t) else 0)"
      "tcb_status s t AND LW_THREAD_STATUS_PEND_ANY \<noteq> 0" "tcb_status s t AND LW_THREAD_STATUS_DELAY = 0"
      "TCB_ucWaitTimeout (k_tcb s t) = LW_WAIT_TIME_CLEAR"
    and F: "\<And>u xs. set (F u xs) = insert t (set xs)" "\<And>u xs. distinct (F u xs) \<longleftrightarrow> t \<notin> set xs \<and> distinct xs"
  defines "s' \<equiv> EventWait_by F e q b s"
  shows "sched_inv (R - {t}) s'" "wait_inv s'" "delay_inv s'"
    and "k_halt s' = k_halt s" "k_curcpu s' = k_curcpu s" "k_ncpus s' = k_ncpus s"
      "k_tcbIdTable s' = k_tcbIdTable s"
    and "tcb_core (k_tcb s' u) = (if u = t then (tcb_core (k_tcb s t))\<lparr>TCB_peventPtr := Some e,
           TCB_usStatus := (if TCB_ulDelay s t \<noteq> 0 then tcb_status s t OR LW_THREAD_STATUS_DELAY else tcb_status s t),
           TCB_ucIsEventDelete := LW_EVENT_EXIST\<rparr> else tcb_core (k_tcb s u))"
    and "k_delay s' = (if TCB_ulDelay s t \<noteq> 0 then WakeupAdd t (k_delay s) else k_delay s)"
    and "EVENT_ulOption (k_event s' e') = EVENT_ulOption (k_event s e')"
    and "ev_core (k_event s' e') = ev_core (k_event s e')"
    and "\<exists>u. (\<forall>v. tcb_prio u v = tcb_prio s v) \<and> WQ_ring (event_wq s' e' q') b' =
      (if e' = e \<and> q' = q \<and> b' = b then F u (WQ_ring (event_wq s e q) b) else WQ_ring (event_wq s e' q') b')"
    and "k_freeEvents s' = k_freeEvents s"
proof -
  define s1 where "s1 = tcb_upd t (\<lambda>x. x\<lparr>TCB_peventPtr := Some e\<rparr>) s"
  define s2 where "s2 = DEL_FROM_READY_RING t (GetPcb s1 t) s1"
  define s3 where "s3 = event_wq_upd e q (\<lambda>wq. wq\<lparr>WQ_usNum := WQ_usNum wq + 1\<rparr>)
             (event_wq_upd e q (wq_ring_upd b (F s2)) s2)"
  define s4 where "s4 = (if TCB_ulDelay s t \<noteq> 0 then ADD_TO_WAKEUP_LINE t s3 else s3)"
  have fr: "sched_frame s1 s2" unfolding s2_def by simp
  note tcbD = sched_frame_tcbD[OF fr] and kD = sched_frame_kernelD[OF fr]
  have s'4: "s' = tcb_upd t (\<lambda>x. x\<lparr>TCB_ucIsEventDelete := LW_EVENT_EXIST\<rparr>) s4"
    unfolding s'_def EventWait_by_def Let_def t(1) s1_def[symmetric] s2_def[symmetric]
    using fields(2) by (simp add: tcbD s1_def s4_def s3_def TCB_ulDelay_def kD)
  have inv1: "sched_inv R s1" "k_ncpus s1 = k_ncpus s" using inv(1) by (simp_all add: s1_def)
  have sch2: "sched_inv (R - {t}) s2" "k_halt s2 = k_halt s"
    using DEL_FROM_READY_RING_inv[OF inv1(1) t(2)] t(3) inv1(2) by (simp_all add: s2_def s1_def)
  have w1: "wait_invx {t} s1" unfolding s1_def by (rule wait_inv_join[OF inv(2) fields(1)])
  have w2: "wait_invx {t} s2" using w1 wait_invx_frame[OF sched_frame_run[OF fr]] by blast
  have on2: "waits_on s2 e q t" "wait_bucket s2 t = b"
    using fields by (auto simp: waits_on_def wait_bucket_def tcbD kD s1_def)
  have w3: "wait_inv s3"
    unfolding s3_def by (rule wait_add_gen[OF w2 on2])
      (use fields F t in \<open>auto simp: tcbD s1_def\<close>)
  have d3: "delay_inv s3" "k_delay s3 = k_delay s" "tcb_status s3 t = tcb_status s t"
    using inv(3) by (simp_all add: s3_def delay_inv_def tcbD kD s1_def)
  have w4: "wait_inv s4" and d4: "delay_inv s4"
    using w3 ADD_TO_WAKEUP_LINE_delay[of s3 t] d3 fields(6) by (auto simp: s4_def)
  have sch4: "sched_inv (R - {t}) s4" using sch2 by (simp add: s4_def s3_def)
  show "sched_inv (R - {t}) s'" using sch4 by (simp add: s'4)
  show "wait_inv s'" unfolding s'4
    by (rule wait_inv_tcb_same[OF w4]) (use wait_invxD(4)[OF w4[unfolded wait_inv_def], of t] in \<open>auto simp: waits_on_def\<close>)
  show "delay_inv s'" using d4 by (simp add: s'4 delay_inv_tcb)
  show "k_halt s' = k_halt s" "k_curcpu s' = k_curcpu s" "k_ncpus s' = k_ncpus s"
      "k_tcbIdTable s' = k_tcbIdTable s" "EVENT_ulOption (k_event s' e') = EVENT_ulOption (k_event s e')"
      "k_freeEvents s' = k_freeEvents s"
    using sch2 by (simp_all add: s'4 s4_def s3_def kD s1_def)
  show "ev_core (k_event s' e') = ev_core (k_event s e')"
    by (simp add: s'4 s4_def s3_def event_wq_upd_def ev_core_def kD s1_def)
  have "WQ_ring (event_wq s' e' q') b' =
      (if e' = e \<and> q' = q \<and> b' = b then F s2 (WQ_ring (event_wq s e q) b) else WQ_ring (event_wq s e' q') b')"
    by (simp add: s'4 s4_def s3_def kD s1_def)
  moreover have "tcb_prio s2 v = tcb_prio s v" for v by (simp add: tcbD s1_def)
  ultimately show "\<exists>u. (\<forall>v. tcb_prio u v = tcb_prio s v) \<and> WQ_ring (event_wq s' e' q') b' =
      (if e' = e \<and> q' = q \<and> b' = b then F u (WQ_ring (event_wq s e q) b) else WQ_ring (event_wq s e' q') b')"
    by blast
  show "k_delay s' = (if TCB_ulDelay s t \<noteq> 0 then WakeupAdd t (k_delay s) else k_delay s)"
    using d3 by (simp add: s'4 s4_def ADD_TO_WAKEUP_LINE_def Let_def)
  have c2: "tcb_core (k_tcb s2 u) = tcb_core (k_tcb s1 u)" for u using sched_frame_tcb[OF fr] .
  have st2: "tcb_status s2 t = tcb_status s t" by (simp add: tcbD s1_def)
  show "tcb_core (k_tcb s' u) = (if u = t then (tcb_core (k_tcb s t))\<lparr>TCB_peventPtr := Some e,
           TCB_usStatus := (if TCB_ulDelay s t \<noteq> 0 then tcb_status s t OR LW_THREAD_STATUS_DELAY else tcb_status s t),
           TCB_ucIsEventDelete := LW_EVENT_EXIST\<rparr> else tcb_core (k_tcb s u))"
    using c2[of u] c2[of t] st2 by (auto simp: s'4 s4_def s3_def s1_def) (simp_all add: tcb_core_def)
qed

text \<open>\<open>runs s t\<close>: the running thread is \<open>t\<close>, it is ready and it is not an idle thread.\<close>

definition runs :: "kernel \<Rightarrow> tid \<Rightarrow> bool" where
  "runs s t \<longleftrightarrow> LW_TCB_GET_CUR s = t \<and> t \<in> ready_set s \<and> k_ncpus s \<le> t"

lemma runsD:
  assumes "kinv s" "runs s t"
  shows "LW_TCB_GET_CUR s = t" "t \<in> ready_set s" "k_ncpus s \<le> t" "tcb_status s t = 0"
    "TCB_peventPtr (k_tcb s t) = None" "t < LW_CFG_MAX_THREADS" "k_tcbIdTable s t"
proof -
  show r: "LW_TCB_GET_CUR s = t" "t \<in> ready_set s" "k_ncpus s \<le> t" "tcb_status s t = 0" "k_tcbIdTable s t"
    using assms(2) by (auto simp: runs_def ready_set_def LW_THREAD_IS_READY_def)
  then show "t < LW_CFG_MAX_THREADS" using assms(1) by (simp add: kinv_def)
  show "TCB_peventPtr (k_tcb s t) = None"
    using wait_invxD(4)[OF kinv_wait[OF assms(1), unfolded wait_inv_def], of t] r(4)
    by (cases "TCB_peventPtr (k_tcb s t)") (auto simp: waits_on_def)
qed

lemma runs_KERNEL_ENTER [simp]: "runs (KERNEL_ENTER s) t \<longleftrightarrow> runs s t"
  by (simp add: runs_def ready_set_frame[OF run_frame_kernel(1)])

lemma EVENT_INDEX_bound [simp]: "EVENT_INDEX_Q_PRIORITY p < EVENT_Q_SIZE"
proof -
  have "unat (drop_bit 5 p) = unat p div 32" by (simp add: drop_bit_eq_div unat_div)
  then show ?thesis using unsigned_less[of p, where 'a = nat] by (simp add: EVENT_INDEX_Q_PRIORITY_def)
qed

definition pend_ring :: "kernel \<Rightarrow> eid \<Rightarrow> tid \<Rightarrow> nat" where
  "pend_ring s e t = (if EVENT_ulOption (k_event s e) AND LW_OPTION_WAIT_PRIORITY \<noteq> 0
     then EVENT_INDEX_Q_PRIORITY (tcb_prio s t) else 0)"

lemma LW_TCB_GET_CUR_simps [simp]:
  "LW_TCB_GET_CUR (tcb_upd u f s) = LW_TCB_GET_CUR s" "LW_TCB_GET_CUR (set_ulDelay u v s) = LW_TCB_GET_CUR s"
  "LW_TCB_GET_CUR (event_upd e g s) = LW_TCB_GET_CUR s"
  by (simp_all add: LW_TCB_GET_CUR_def)

lemma PendBlock_ok:
  fixes e :: eid and q :: nat and ulTimeout :: ULONG
  assumes k: "kinv s" and t: "runs s t"
    and us: "usStatus AND LW_THREAD_STATUS_PEND_ANY \<noteq> 0" "usStatus AND LW_THREAD_STATUS_DELAY = 0"
  defines "s' \<equiv> PendBlock e q usStatus ulTimeout s"
    and "d \<equiv> (if ulTimeout = LW_OPTION_WAIT_INFINITE then 0 else ulTimeout)"
  shows "kinv s'" "k_halt s' = k_halt s" "ready_set s' = ready_set s - {t}"
    and "waits_on s' e q t" "wait_bucket s' t = pend_ring s e t"
    and "tcb_status s' t = (if d \<noteq> 0 then usStatus OR LW_THREAD_STATUS_DELAY else usStatus)"
    and "u \<noteq> t \<Longrightarrow> tcb_core (k_tcb s' u) = tcb_core (k_tcb s u)"
    and "TCB_ucIsEventDelete (k_tcb s' t) = LW_EVENT_EXIST"
    and "EVENT_ulOption (k_event s' e') = EVENT_ulOption (k_event s e')"
    and "dues (k_delay s') = (if d \<noteq> 0 then due_insert t (unat d) (dues (k_delay s)) else dues (k_delay s))"
    and "ev_core (k_event s' e') = ev_core (k_event s e')"
    and "WQ_ring (event_wq s' e' q') b' =
      (if e' = e \<and> q' = q \<and> b' = pend_ring s e t
       then (if EVENT_ulOption (k_event s e) AND LW_OPTION_WAIT_PRIORITY \<noteq> 0
             then prio_ring_add (tcb_prio s) t (WQ_ring (event_wq s e q) b')
             else ring_add_ahead t (WQ_ring (event_wq s e q) b'))
       else WQ_ring (event_wq s e' q') b')"
    and "k_ncpus s' = k_ncpus s" "k_tcbIdTable s' = k_tcbIdTable s" "k_curcpu s' = k_curcpu s"
    and "tcb_prio s' v = tcb_prio s v" and "k_freeEvents s' = k_freeEvents s"
    and "waiters s' e' q' = (if e' = e \<and> q' = q then insert t (waiters s e q) else waiters s e' q')"
proof -
  note r = runsD[OF k t]
  define s1 where "s1 = tcb_upd t (\<lambda>x. x\<lparr>TCB_iPendQ := q, TCB_usStatus := TCB_usStatus x OR usStatus,
             TCB_ucWaitTimeout := LW_WAIT_TIME_CLEAR\<rparr>) s"
  define s2 where "s2 = set_ulDelay t d s1"
  define b where "b = pend_ring s e t"
  define s3 where "s3 = (if EVENT_ulOption (k_event s e) AND LW_OPTION_WAIT_PRIORITY \<noteq> 0
     then tcb_upd t (\<lambda>x. x\<lparr>TCB_ppringPriorityQueue := b\<rparr>) s2 else s2)"
  define F where "F = (if EVENT_ulOption (k_event s e) AND LW_OPTION_WAIT_PRIORITY \<noteq> 0
     then (\<lambda>u. prio_ring_add (tcb_prio u) t) else (\<lambda>u. ring_add_ahead t))"
  have cur: "LW_TCB_GET_CUR s3 = t" "LW_TCB_GET_CUR s2 = t" using r(1) by (simp_all add: s3_def s2_def s1_def)
  have s2eq: "s2 = (if ulTimeout = LW_OPTION_WAIT_INFINITE then set_ulDelay t 0 s1 else set_ulDelay t ulTimeout s1)"
    by (simp add: s2_def d_def)
  have s'3: "s' = EventWait_by F e q b s3"
    unfolding s'_def PendBlock_def Let_def r(1) s1_def[symmetric] s2eq[symmetric] using cur
    by (auto simp: EventWait_by_eqs s3_def F_def b_def pend_ring_def s2_def s1_def)
  have st: "tcb_status s1 t = usStatus" using r(4) by (simp add: s1_def)
  have sch: "sched_inv (ready_set s) s3" using kinv_sched[OF k]
    by (simp add: s3_def s2_def s1_def sched_inv_tcb_upd tcb_place_def)
  have nw: "tcb_status s1 t AND LW_THREAD_STATUS_DELAY = 0" using st us by simp
  have d1: "delay_inv s1" using kinv_delay[OF k] us r(4) by (simp add: s1_def delay_inv_tcb)
  then have dly: "delay_inv s3" using nw by (simp add: s3_def s2_def delay_inv_set_ulDelay delay_inv_tcb)
  have "wait_inv s1"
    unfolding s1_def by (rule wait_invx_None[THEN iffD1, OF _ wait_inv_join[OF kinv_wait[OF k] r(5)]]) (simp add: r(5))
  then have "wait_inv s2" "TCB_peventPtr (k_tcb s2 t) = None" using r(5) by (simp_all add: s2_def s1_def)
  then have w: "wait_inv s3" using wait_inv_leave[OF wait_inv_join]
    by (auto simp: s3_def wait_invx_None[of s2 t] intro!: wait_inv_leave)
  have F: "set (F u xs) = insert t (set xs)" "distinct (F u xs) \<longleftrightarrow> t \<notin> set xs \<and> distinct xs" for u xs
    by (auto simp: F_def)
  have opt: "EVENT_ulOption (k_event s3 e') = EVENT_ulOption (k_event s e')" for e'
    by (simp add: s3_def s2_def s1_def)
  have t3: "TCB_peventPtr (k_tcb s3 t) = None" "TCB_iPendQ (k_tcb s3 t) = q" "tcb_status s3 t = usStatus"
    "TCB_ucWaitTimeout (k_tcb s3 t) = 0" "TCB_ulDelay s3 t = d" "k_delay s3 = k_delay s2"
    using r(4,5) by (auto simp: s3_def s2_def s1_def TCB_ulDelay_def set_ulDelay_def)
  have b3: "b < EVENT_Q_SIZE" "b = (if EVENT_ulOption (k_event s3 e) AND LW_OPTION_WAIT_PRIORITY \<noteq> 0
            then TCB_ppringPriorityQueue (k_tcb s3 t) else 0)"
    by (auto simp: opt) (auto simp: b_def pend_ring_def s3_def)
  have nc: "k_ncpus s3 = k_ncpus s" "k_curcpu s3 = k_curcpu s" "k_tcbIdTable s3 = k_tcbIdTable s" "k_halt s3 = k_halt s"
    by (simp_all add: s3_def s2_def s1_def)
  note ok = EventWait_by_ok[OF sch w dly cur(1) r(2) _ r(6) t3(1,2) b3 _ _ t3(4), of F, folded s'3]
  note ok' = ok[unfolded t3 nc, OF r(3) us F]
  have core: "tcb_core (k_tcb s' t) = (tcb_core (k_tcb s3 t))\<lparr>TCB_peventPtr := Some e,
      TCB_usStatus := (if d \<noteq> 0 then usStatus OR LW_THREAD_STATUS_DELAY else usStatus),
      TCB_ucIsEventDelete := LW_EVENT_EXIST\<rparr>" using ok'(8)[of t] by simp
  have fld: "TCB_peventPtr (k_tcb s' t) = Some e" "TCB_iPendQ (k_tcb s' t) = q"
    "tcb_status s' t = (if d \<noteq> 0 then usStatus OR LW_THREAD_STATUS_DELAY else usStatus)"
    "TCB_ppringPriorityQueue (k_tcb s' t) = TCB_ppringPriorityQueue (k_tcb s3 t)"
    "TCB_ucIsEventDelete (k_tcb s' t) = LW_EVENT_EXIST"
    using arg_cong[OF core, of TCB_peventPtr] arg_cong[OF core, of TCB_iPendQ] t3(2)
      arg_cong[OF core, of TCB_usStatus] arg_cong[OF core, of TCB_ppringPriorityQueue]
      arg_cong[OF core, of TCB_ucIsEventDelete]
    by (simp_all add: tcb_core_def)
  show other: "tcb_core (k_tcb s' u) = tcb_core (k_tcb s u)" if "u \<noteq> t" for u
    using ok'(8)[of u] that by (simp add: s3_def s2_def s1_def)
  have stu: "tcb_status s' u = tcb_status s u" "TCB_peventPtr (k_tcb s' u) = TCB_peventPtr (k_tcb s u)" if "u \<noteq> t" for u
    using tcb_core_eqD[OF other[OF that]] by auto
  have ne: "tcb_status s' t \<noteq> 0" using fld(3) us(1) by (metis status_bits(3) and_zero_eq zero_and_eq)
  show rs: "ready_set s' = ready_set s - {t}"
    using stu ne ok'(7) by (auto simp: ready_set_def LW_THREAD_IS_READY_def) (metis stu(1))+
  have ids: "k_tcbIdTable s' u" if "TCB_peventPtr (k_tcb s' u) \<noteq> None \<or> tcb_status s' u AND LW_THREAD_STATUS_DELAY \<noteq> 0" for u
    using that stu[of u] k r(7) ok'(7) unfolding kinv_def by (cases "u = t") metis+
  show "kinv s'"
    using k ok'(1-3,5-7) rs ids unfolding kinv_def by simp
  show "k_halt s' = k_halt s" using ok'(4) .
  show "waits_on s' e q t" by (simp add: waits_on_def fld)
  show "EVENT_ulOption (k_event s' e') = EVENT_ulOption (k_event s e')" for e'
    using ok'(10)[of e'] opt by simp
  then show "wait_bucket s' t = pend_ring s e t"
    using b3(2) by (auto simp: wait_bucket_def fld opt b_def[symmetric])
  show "tcb_status s' t = (if d \<noteq> 0 then usStatus OR LW_THREAD_STATUS_DELAY else usStatus)"
    "TCB_ucIsEventDelete (k_tcb s' t) = LW_EVENT_EXIST" using fld by auto
  have e3: "k_event s3 = k_event s" "tcb_prio s3 v = tcb_prio s v" "k_freeEvents s3 = k_freeEvents s" for v by (simp_all add: s3_def s2_def s1_def)
  show "ev_core (k_event s' e') = ev_core (k_event s e')" for e' using ok'(11)[of e'] e3(1) by simp
  show "k_ncpus s' = k_ncpus s" "k_tcbIdTable s' = k_tcbIdTable s" "k_curcpu s' = k_curcpu s" using ok'(5-7) by simp_all
  show "tcb_prio s' v = tcb_prio s v"
    using other[of v] arg_cong[OF core, of TCB_ucPriority] e3(2)[of v] tcb_core_eqD(3)[of "k_tcb s' v" "k_tcb s v"]
    by (cases "v = t") (simp_all add: tcb_core_def)
  show "k_freeEvents s' = k_freeEvents s" using ok'(13) e3(3) by simp
  have "waits_on s' e' q' u = (if u = t then e' = e \<and> q' = q else waits_on s e' q' u)" for u
    using fld(1,2) tcb_core_eqD[OF other[of u]] by (cases "u = t") (auto simp: waits_on_def)
  moreover have "\<not> waits_on s e' q' t" using r(5) by (simp add: waits_on_def)
  ultimately show "waiters s' e' q' = (if e' = e \<and> q' = q then insert t (waiters s e q) else waiters s e' q')"
    by (auto simp: waiters_def)
  obtain u where u: "\<And>v. tcb_prio u v = tcb_prio s v" "WQ_ring (event_wq s' e' q') b' =
      (if e' = e \<and> q' = q \<and> b' = b then F u (WQ_ring (event_wq s3 e q) b) else WQ_ring (event_wq s3 e' q') b')"
    using ok'(12)[of e' q' b'] e3(2) by auto
  have "tcb_prio u = tcb_prio s" using u(1) by auto
  then show "WQ_ring (event_wq s' e' q') b' =
      (if e' = e \<and> q' = q \<and> b' = pend_ring s e t
       then (if EVENT_ulOption (k_event s e) AND LW_OPTION_WAIT_PRIORITY \<noteq> 0
             then prio_ring_add (tcb_prio s) t (WQ_ring (event_wq s e q) b')
             else ring_add_ahead t (WQ_ring (event_wq s e q) b'))
       else WQ_ring (event_wq s e' q') b')"
    using u(2) e3(1) by (simp add: F_def b_def)
  have notin: "t \<notin> set (WU_line (k_delay s))" using delay_line_mem[OF kinv_delay[OF k], of t] r(4) by simp
  have due2: "dues (k_delay s2) = dues (k_delay s)" "WU_line (k_delay s2) = WU_line (k_delay s)"
    "WUN_ulCounter (k_delay s2) t = d"
    using dues_counter_out[OF notin] by (simp_all add: s2_def set_ulDelay_def s1_def)
  have ok2: "wu_ok (k_delay s2)" using dly t3(6) by (simp add: delay_inv_def)
  show "dues (k_delay s') = (if d \<noteq> 0 then due_insert t (unat d) (dues (k_delay s)) else dues (k_delay s))"
    using ok'(9) due2 dues_WakeupAdd[OF ok2, of t] notin by simp
qed

section \<open>Waking\<close>

text \<open>The waiter that is removed next.\<close>

definition wake_ring :: "kernel \<Rightarrow> eid \<Rightarrow> nat \<Rightarrow> nat" where
  "wake_ring s e q = (if EVENT_ulOption (k_event s e) AND LW_OPTION_WAIT_PRIORITY \<noteq> 0
     then EVENT_DEL_Q_PRIORITY (event_wq s e q) else 0)"

definition next_waiter :: "kernel \<Rightarrow> eid \<Rightarrow> nat \<Rightarrow> tid" where
  "next_waiter s e q = (if EVENT_ulOption (k_event s e) AND LW_OPTION_WAIT_PRIORITY \<noteq> 0
     then hd (WQ_ring (event_wq s e q) (wake_ring s e q)) else last (WQ_ring (event_wq s e q) 0))"

lemma del_q_priority_first:
  assumes "\<exists>j. i \<le> j \<and> j < i + n \<and> WQ_ring wq j \<noteq> []"
  shows "i \<le> del_q_priority i n wq" "del_q_priority i n wq < i + n"
    "WQ_ring wq (del_q_priority i n wq) \<noteq> []"
    "\<And>j. i \<le> j \<Longrightarrow> j < del_q_priority i n wq \<Longrightarrow> WQ_ring wq j = []"
  using assms
proof (induction n arbitrary: i)
  case (Suc n)
  { case 1 then show ?case
      using Suc.IH(1)[of "Suc i"] by (cases "WQ_ring wq i = []") (simp, metis Suc_leI Suc_leD add_Suc_shift le_neq_implies_less, simp) }
  { case 2 then show ?case
      using Suc.IH(2)[of "Suc i"] by (cases "WQ_ring wq i = []") (simp, metis Suc_leI add_Suc_shift le_neq_implies_less, simp) }
  { case 3 then show ?case
      using Suc.IH(3)[of "Suc i"] by (cases "WQ_ring wq i = []") (simp, metis Suc_leI add_Suc_shift le_neq_implies_less, simp) }
  { case (4 j) then show ?case
      using Suc.IH(4)[of "Suc i" j]
      by (cases "WQ_ring wq i = []") (simp, metis Suc_leI add_Suc_shift le_neq_implies_less, simp) }
qed auto

lemma EventWaitNum_waiters:
  assumes "wait_inv s"
  shows "EventWaitNum s q e = 0 \<longleftrightarrow> waiters s e q = {}" "finite (waiters s e q)"
    "unat (EventWaitNum s q e) = card (waiters s e q)" "card (waiters s e q) \<le> LW_CFG_MAX_THREADS"
proof -
  note i = assms[unfolded wait_inv_def]
  show f: "finite (waiters s e q)" "card (waiters s e q) \<le> LW_CFG_MAX_THREADS"
    using wait_invx_bound(2,3)[OF i, of e q] by (simp_all add: waiters_def)
  show c: "unat (EventWaitNum s q e) = card (waiters s e q)"
    using wait_invxD(3)[OF i] by (simp add: EventWaitNum_def waiters_def)
  show "EventWaitNum s q e = 0 \<longleftrightarrow> waiters s e q = {}"
    using c f by (metis card_eq_0_iff unat_eq_zero)
qed

lemma wait_bucket_fifo: "TCB_peventPtr (k_tcb s t) = Some e \<Longrightarrow>
    EVENT_ulOption (k_event s e) AND LW_OPTION_WAIT_PRIORITY = 0 \<Longrightarrow> wait_bucket s t = 0"
  by (simp add: wait_bucket_def)

lemma next_waiter_ok:
  assumes inv: "wait_inv s" and ne: "EventWaitNum s q e \<noteq> 0"
  shows "next_waiter s e q \<in> set (WQ_ring (event_wq s e q) (wake_ring s e q))"
    "waits_on s e q (next_waiter s e q)" "wait_bucket s (next_waiter s e q) = wake_ring s e q"
proof -
  note i = inv[unfolded wait_inv_def]
  obtain t where t: "waits_on s e q t" using EventWaitNum_waiters(1)[OF inv] ne by (auto simp: waiters_def)
  then have r: "t \<in> set (WQ_ring (event_wq s e q) (wait_bucket s t))" "wait_bucket s t < 8"
    using wait_invxD(2,4)[OF i] by auto
  show m: "next_waiter s e q \<in> set (WQ_ring (event_wq s e q) (wake_ring s e q))"
  proof (cases "EVENT_ulOption (k_event s e) AND LW_OPTION_WAIT_PRIORITY = 0")
    case True
    then have "wait_bucket s t = 0" using t by (intro wait_bucket_fifo) (auto simp: waits_on_def)
    then show ?thesis using r True by (auto simp: next_waiter_def wake_ring_def intro: last_in_set)
  next
    case False
    have "WQ_ring (event_wq s e q) (EVENT_DEL_Q_PRIORITY (event_wq s e q)) \<noteq> []"
      unfolding EVENT_DEL_Q_PRIORITY_def using r by (intro del_q_priority_first(3)) (auto intro!: exI[of _ "wait_bucket s t"])
    then show ?thesis using False by (simp add: next_waiter_def wake_ring_def)
  qed
  then show "waits_on s e q (next_waiter s e q)" "wait_bucket s (next_waiter s e q) = wake_ring s e q"
    using wait_invxD(2)[OF i] by auto
qed

text \<open>\<open>kinv_half t s\<close>: \<open>t\<close> has left its wait queue and the delay line, not yet its wait.\<close>

definition kinv_half :: "tid \<Rightarrow> kernel \<Rightarrow> bool" where
  "kinv_half t s \<longleftrightarrow> sched_inv (ready_set s) s \<and> k_curcpu s < k_ncpus s \<and> wait_invx {t} s \<and> delay_inv s \<and>
     (\<forall>t. k_tcbIdTable s t \<longrightarrow> t < LW_CFG_MAX_THREADS) \<and>
     (\<forall>u. TCB_peventPtr (k_tcb s u) \<noteq> None \<or> tcb_status s u AND LW_THREAD_STATUS_DELAY \<noteq> 0 \<longrightarrow> k_tcbIdTable s u) \<and>
     tcb_status s t AND LW_THREAD_STATUS_DELAY = 0 \<and> tcb_status s t AND LW_THREAD_STATUS_PEND_ANY \<noteq> 0 \<and>
     TCB_ucWaitTimeout (k_tcb s t) = LW_WAIT_TIME_CLEAR \<and> k_tcbIdTable s t"

definition low_state :: "tid \<Rightarrow> eid \<Rightarrow> nat \<Rightarrow> nat \<Rightarrow> kernel \<Rightarrow> kernel" where
  "low_state t e q b s = event_wq_upd e q (\<lambda>wq. wq\<lparr>WQ_usNum := WQ_usNum wq - 1\<rparr>)
    (event_wq_upd e q (wq_ring_upd b (ring_del t)) s)"

lemma low_state_simps [simp]:
  "k_tcb (low_state t e q b s) = k_tcb s" "k_delay (low_state t e q b s) = k_delay s"
  "k_tcbIdTable (low_state t e q b s) = k_tcbIdTable s" "k_curcpu (low_state t e q b s) = k_curcpu s"
  "k_ncpus (low_state t e q b s) = k_ncpus s" "k_halt (low_state t e q b s) = k_halt s"
  "k_cpu (low_state t e q b s) = k_cpu s" "k_freeEvents (low_state t e q b s) = k_freeEvents s"
  "EVENT_ulOption (k_event (low_state t e q b s) e') = EVENT_ulOption (k_event s e')"
  "sched_inv R (low_state t e q b s) \<longleftrightarrow> sched_inv R s" "delay_inv (low_state t e q b s) \<longleftrightarrow> delay_inv s"
  by (simp_all add: low_state_def)

lemma ReadyLowLevel_eq:
  assumes inv: "wait_inv s" and ne: "EventWaitNum s q e \<noteq> 0"
  shows "ReadyLowLevel e q m s = (let t = next_waiter s e q in
    (t, ReadyLowLevel_tail t m (low_state t e q (wake_ring s e q) s)))"
proof -
  have "TCB_iPendQ (k_tcb s (next_waiter s e q)) = q"
    using next_waiter_ok(2)[OF inv ne] by (simp add: waits_on_def)
  then show ?thesis
    by (cases "EVENT_ulOption (k_event s e) AND LW_OPTION_WAIT_PRIORITY = 0")
      (simp_all add: ReadyLowLevel_def EventReadyPriorityLowLevel_def EventReadyFifoLowLevel_def Let_def
        EventQGetTcbPriority_def EventQGetTcbFifo_def next_waiter_def wake_ring_def low_state_def
        DelTCBFromEventFifo_def DelTCBFromEventPriority_def)
qed

lemma ReadyLowLevel_tail_simps [simp]:
  "k_event (ReadyLowLevel_tail t m s) = k_event s" "k_cpu (ReadyLowLevel_tail t m s) = k_cpu s"
  "k_ncpus (ReadyLowLevel_tail t m s) = k_ncpus s" "k_curcpu (ReadyLowLevel_tail t m s) = k_curcpu s"
  "k_freeEvents (ReadyLowLevel_tail t m s) = k_freeEvents s" "k_tcbIdTable (ReadyLowLevel_tail t m s) = k_tcbIdTable s" "k_halt (ReadyLowLevel_tail t m s) = k_halt s"
  "sched_inv R (ReadyLowLevel_tail t m s) \<longleftrightarrow> sched_inv R s"
  by (simp_all add: ReadyLowLevel_tail_def Let_def)

lemma and_NOT1_id:
  assumes "(x::UINT16) AND 1 = 0" shows "x AND - 2 = x"
proof -
  have "x = (x AND 1) OR (x AND NOT 1)" by (simp only: bit.conj_disj_distrib[symmetric]) simp
  then show ?thesis using assms by simp
qed

lemma ReadyLowLevel_tail_tcb:
  "k_tcb (ReadyLowLevel_tail t m s) = (k_tcb s)(t := (k_tcb s t)\<lparr>TCB_usStatus := tcb_status s t AND NOT LW_THREAD_STATUS_DELAY,
     TCB_pvMsgBoxMessage := m\<rparr>)"
  by (auto simp: ReadyLowLevel_tail_def Let_def and_NOT1_id)

lemma delay_tail:
  assumes "delay_inv s"
  shows "delay_inv (ReadyLowLevel_tail t m s)"
    "dues (k_delay (ReadyLowLevel_tail t m s)) = filter (\<lambda>(n, d). n \<noteq> t) (dues (k_delay s))"
proof -
  let ?s1 = "tcb_upd t (\<lambda>x. x\<lparr>TCB_pvMsgBoxMessage := m\<rparr>) s"
  have d1: "delay_inv ?s1" using assms by (simp add: delay_inv_tcb)
  have ok: "wu_ok (k_delay s)" using assms by (simp add: delay_inv_def)
  show "delay_inv (ReadyLowLevel_tail t m s)"
    using d1 DEL_FROM_WAKEUP_LINE_delay[OF d1, of t]
    by (auto simp: ReadyLowLevel_tail_def Let_def intro!: delay_inv_set_ulDelay)
  show "dues (k_delay (ReadyLowLevel_tail t m s)) = filter (\<lambda>(n, d). n \<noteq> t) (dues (k_delay s))"
  proof (cases "tcb_status s t AND LW_THREAD_STATUS_DELAY = 0")
    case True
    then have "t \<notin> set (WU_line (k_delay s))" using delay_line_mem[OF assms] by blast
    then have "\<forall>x\<in>set (dues (k_delay s)). fst x \<noteq> t" by (metis imageI list.set_map map_fst_dues)
    then have "filter (\<lambda>(n, d). n \<noteq> t) (dues (k_delay s)) = dues (k_delay s)" by (auto simp: filter_id_conv)
    then show ?thesis using True by (simp add: ReadyLowLevel_tail_def Let_def)
  next
    case False
    then have "t \<in> set (WU_line (k_delay s))" using delay_line_mem[OF assms] by blast
    then have dd: "dues (WakeupDel t (k_delay s)) = filter (\<lambda>(n, d). n \<noteq> t) (dues (k_delay s))"
      and "t \<notin> set (WU_line (WakeupDel t (k_delay s)))"
      using dues_WakeupDel[OF ok] ok by (auto simp: wu_ok_def)
    then show ?thesis using False dues_counter_out[of t "WakeupDel t (k_delay s)" 0]
      by (simp add: ReadyLowLevel_tail_def Let_def set_ulDelay_def DEL_FROM_WAKEUP_LINE_def)
  qed
qed

lemma ready_set_unready:
  assumes "\<And>u. u \<noteq> t \<Longrightarrow> tcb_status s' u = tcb_status s u" "k_tcbIdTable s' = k_tcbIdTable s"
    and "tcb_status s t \<noteq> 0" "tcb_status s' t \<noteq> 0"
  shows "ready_set s' = ready_set s"
proof -
  have "(k_tcbIdTable s' u \<and> tcb_status s' u = 0) = (k_tcbIdTable s u \<and> tcb_status s u = 0)" for u
    using assms by (cases "u = t") auto
  then show ?thesis by (simp add: ready_set_def LW_THREAD_IS_READY_def)
qed

lemma ReadyLowLevel_half:
  fixes m :: ULONG
  assumes k: "kinv s" and ne: "EventWaitNum s q e \<noteq> 0"
  defines "t \<equiv> next_waiter s e q" and "s1 \<equiv> snd (ReadyLowLevel e q m s)"
  shows "fst (ReadyLowLevel e q m s) = t" "kinv_half t s1" "ready_set s1 = ready_set s"
    "k_halt s1 = k_halt s" "k_tcbIdTable s1 = k_tcbIdTable s" "k_ncpus s1 = k_ncpus s"
    and "s1 = ReadyLowLevel_tail t m (low_state t e q (wake_ring s e q) s)"
proof -
  note w = kinv_wait[OF k]
  note nw = next_waiter_ok[OF w ne, folded t_def]
  define s0 where "s0 = low_state t e q (wake_ring s e q) s"
  have eq: "ReadyLowLevel e q m s = (t, ReadyLowLevel_tail t m s0)"
    by (simp add: ReadyLowLevel_eq[OF w ne] Let_def t_def s0_def)
  show "fst (ReadyLowLevel e q m s) = t" by (simp add: eq)
  show s1: "s1 = ReadyLowLevel_tail t m (low_state t e q (wake_ring s e q) s)"
    by (simp add: s1_def eq s0_def)
  have fl: "tcb_status s t AND 0x1e \<noteq> 0" "TCB_ucWaitTimeout (k_tcb s t) = 0"
    using wait_invxD(4)[OF w[unfolded wait_inv_def] _ nw(2)] by auto
  have id: "k_tcbIdTable s t" using k nw(2) by (auto simp: kinv_def waits_on_def)
  have st1: "tcb_status s1 t AND 0x1e \<noteq> 0" "tcb_status s1 t AND 1 = 0"
    using fl by (simp_all add: s1 ReadyLowLevel_tail_tcb)
  have ne0: "tcb_status s t \<noteq> 0" "tcb_status s1 t \<noteq> 0" using fl(1) st1(1) by force+
  show rs: "ready_set s1 = ready_set s"
    by (rule ready_set_unready[where t = t]) (use ne0 in \<open>simp_all add: s1 ReadyLowLevel_tail_tcb\<close>)
  have "wait_invx {t} s0" unfolding s0_def low_state_def by (rule wait_del_gen[OF w nw(2,3)])
  then have wx: "wait_invx {t} s1"
    unfolding s1 s0_def[symmetric] ReadyLowLevel_tail_def Let_def by (simp add: wait_invx_tcb)
  have d: "delay_inv s1" unfolding s1 using kinv_delay[OF k] by (intro delay_tail) simp
  have sch: "sched_inv (ready_set s) s1" using kinv_sched[OF k] by (simp add: s1)
  show "kinv_half t s1"
    unfolding kinv_half_def rs using k id fl st1 wx d sch
    by (auto simp: kinv_def s1 ReadyLowLevel_tail_tcb split: if_splits)
  show "k_halt s1 = k_halt s" "k_tcbIdTable s1 = k_tcbIdTable s" "k_ncpus s1 = k_ncpus s" by (simp_all add: s1)
qed

lemma delay_bit_clear: "(x::UINT16) AND 1 = 0 \<Longrightarrow> (x AND y) AND 1 = 0"
  by (metis and.assoc and.commute and.left_neutral and_zero_eq)

lemma EventReadyHighLevel_ok:
  fixes ty :: UINT16
  assumes h: "kinv_half t s"
  defines "s' \<equiv> EventReadyHighLevel t ty s"
  shows "kinv s'" "k_halt s' = k_halt s"
    "ready_set s' = (if tcb_status s t AND NOT ty = 0 then insert t (ready_set s) else ready_set s)"
    "tcb_status s' t = tcb_status s t AND NOT ty" "TCB_peventPtr (k_tcb s' t) = None"
    "\<And>u. u \<noteq> t \<Longrightarrow> tcb_core (k_tcb s' u) = tcb_core (k_tcb s u)"
    "k_event s' = k_event s" "k_delay s' = k_delay s" "k_tcbIdTable s' = k_tcbIdTable s" "k_ncpus s' = k_ncpus s"
    "TCB_ucWaitTimeout (k_tcb s' t) = LW_WAIT_TIME_CLEAR"
    "TCB_pvMsgBoxMessage (k_tcb s' t) = TCB_pvMsgBoxMessage (k_tcb s t)"
    "TCB_ucIsEventDelete (k_tcb s' t) = TCB_ucIsEventDelete (k_tcb s t)"
    "k_freeEvents s' = k_freeEvents s"
proof -
  note h' = h[unfolded kinv_half_def]
  define s2 where "s2 = tcb_upd t (\<lambda>x. x\<lparr>TCB_usStatus := TCB_usStatus x AND NOT ty\<rparr>)
      (tcb_upd t (\<lambda>x. x\<lparr>TCB_peventPtr := None\<rparr>) s)"
  define s3 where "s3 = tcb_upd t (\<lambda>x. x\<lparr>TCB_ucSchedActivate := LW_SCHED_ACT_INTERRUPT\<rparr>) s2"
  let ?st = "tcb_status s t AND NOT ty"
  have st2: "tcb_status s2 t = ?st" by (simp add: s2_def)
  have s': "s' = (if ?st = 0 then ADD_TO_READY_RING t (GetPcb s3 t) s3 else s2)"
    using h' st2 by (simp add: s'_def EventReadyHighLevel_def Let_def s3_def s2_def LW_THREAD_IS_READY_def)
  have tR: "t \<notin> ready_set s" using h' by (auto simp: ready_set_def LW_THREAD_IS_READY_def)
  have rs2: "ready_set s2 = (if ?st = 0 then insert t (ready_set s) else ready_set s)"
    using h' tR by (auto simp: ready_set_def LW_THREAD_IS_READY_def s2_def split: if_splits)
  have w2: "wait_inv s2" unfolding s2_def using h'
    by (intro wait_inv_leave[where f = "\<lambda>x. x\<lparr>TCB_usStatus := TCB_usStatus x AND NOT ty\<rparr>"] wait_invx_tcb) auto
  have d2: "delay_inv s2" using h' delay_bit_clear[of "tcb_status s t" "NOT ty"]
    by (auto simp: s2_def delay_inv_tcb)
  have sch2: "sched_inv (ready_set s) s2" using h' by (simp add: s2_def)
  have fr: "sched_frame s3 (ADD_TO_READY_RING t (GetPcb s3 t) s3)" by simp
  have k2: "kinv s2" if "?st \<noteq> 0"
    using that w2 d2 sch2 rs2 h' by (auto simp: kinv_def s2_def split: if_splits)
  have sch3: "sched_inv (ready_set s) s3" "wait_inv s3" "delay_inv s3" "ready_set s3 = ready_set s2"
    using sch2 w2 d2 by (auto simp: s3_def delay_inv_tcb ready_set_def LW_THREAD_IS_READY_def s2_def intro!: wait_inv_tcb_same)
  have k3: "kinv s'" "k_halt s' = k_halt s" if "?st = 0"
    using that ADD_TO_READY_RING_inv[OF sch3(1) tR] sch3 rs2 h'
      wait_inv_frame[OF sched_frame_run[OF fr]] delay_inv_frame[OF sched_frame_run[OF fr]]
      ready_set_frame[OF sched_frame_run[OF fr]] sched_frame_kernelD[OF fr] sched_frame_tcbD[OF fr]
    by (auto simp: kinv_def s' s3_def s2_def split: if_splits)
  show "kinv s'" "k_halt s' = k_halt s"
    using k2 k3 by (cases "?st = 0"; simp add: s'; simp add: s2_def)+
  show "ready_set s' = (if ?st = 0 then insert t (ready_set s) else ready_set s)"
    using rs2 sch3(4) ready_set_frame[OF sched_frame_run[OF fr]] by (simp add: s')
  show "tcb_status s' t = ?st" "TCB_peventPtr (k_tcb s' t) = None"
    "k_event s' = k_event s" "k_delay s' = k_delay s" "k_tcbIdTable s' = k_tcbIdTable s" "k_ncpus s' = k_ncpus s"
    "TCB_ucWaitTimeout (k_tcb s' t) = LW_WAIT_TIME_CLEAR"
    "TCB_pvMsgBoxMessage (k_tcb s' t) = TCB_pvMsgBoxMessage (k_tcb s t)"
    "TCB_ucIsEventDelete (k_tcb s' t) = TCB_ucIsEventDelete (k_tcb s t)" "k_freeEvents s' = k_freeEvents s"
    using sched_frame_tcbD[OF fr] sched_frame_kernelD[OF fr] h' st2 by (auto simp: s' s3_def s2_def)
  show "tcb_core (k_tcb s' u) = tcb_core (k_tcb s u)" if "u \<noteq> t" for u
    using that sched_frame_tcb[OF fr, of u] by (auto simp: s' s3_def s2_def)
qed

section \<open>Waking one waiter\<close>

lemma ev_core_low_state [simp]: "ev_core (k_event (low_state t e q b s) e') = ev_core (k_event s e')"
  by (simp add: low_state_def event_wq_upd_def ev_core_def)

lemma low_state_rings [simp]:
  "WQ_ring (event_wq (low_state t e q b s) e' q') b' =
    (if e' = e \<and> q' = q \<and> b' = b then remove1 t (WQ_ring (event_wq s e q) b) else WQ_ring (event_wq s e' q') b')"
  by (simp add: low_state_def)

lemma waiters_core:
  assumes "\<And>u. u \<noteq> t \<Longrightarrow> tcb_core (k_tcb s' u) = tcb_core (k_tcb s u)" "TCB_peventPtr (k_tcb s' t) = None"
  shows "waiters s' e q = waiters s e q - {t}"
proof -
  have "waits_on s' e q u = (u \<noteq> t \<and> waits_on s e q u)" for u
    using assms(2) tcb_core_eqD[OF assms(1)[of u]] by (cases "u = t") (auto simp: waits_on_def)
  then show ?thesis by (auto simp: waiters_def)
qed

definition woken_status :: "UINT16 \<Rightarrow> UINT16 \<Rightarrow> UINT16" where
  "woken_status ty st = (st AND NOT LW_THREAD_STATUS_DELAY) AND NOT ty"

text \<open>\<open>WakeBy D\<close>: with \<open>D\<close> the woken thread is also told that the event was deleted.\<close>

definition WakeBy :: "bool \<Rightarrow> eid \<Rightarrow> nat \<Rightarrow> ULONG \<Rightarrow> UINT16 \<Rightarrow> kernel \<Rightarrow> tid \<times> kernel" where
  "WakeBy D e q m ty s = (let (t, s1) = ReadyLowLevel e q m s;
     s2 = (if D then tcb_upd t (\<lambda>x. x\<lparr>TCB_ucIsEventDelete := LW_EVENT_DELETE\<rparr>) s1 else s1)
   in (t, EventReadyHighLevel t ty s2))"

lemma ReadyOne_WakeBy: "ReadyOne e q m ty s = WakeBy False e q m ty s"
  by (simp add: ReadyOne_def WakeBy_def Let_def)

lemma kinv_half_mark:
  assumes "kinv_half t s"
  shows "kinv_half t (tcb_upd t (\<lambda>x. x\<lparr>TCB_ucIsEventDelete := d\<rparr>) s)"
    "ready_set (tcb_upd t (\<lambda>x. x\<lparr>TCB_ucIsEventDelete := d\<rparr>) s) = ready_set s"
proof -
  show r: "ready_set (tcb_upd t (\<lambda>x. x\<lparr>TCB_ucIsEventDelete := d\<rparr>) s) = ready_set s"
    by (auto simp: ready_set_def LW_THREAD_IS_READY_def)
  show "kinv_half t (tcb_upd t (\<lambda>x. x\<lparr>TCB_ucIsEventDelete := d\<rparr>) s)"
    using assms unfolding kinv_half_def r by (simp add: wait_invx_tcb delay_inv_tcb)
qed

lemma WakeBy_ok:
  fixes m :: ULONG and ty :: UINT16 and D :: bool
  assumes k: "kinv s" and ne: "EventWaitNum s q e \<noteq> 0"
  defines "t \<equiv> next_waiter s e q" and "s' \<equiv> snd (WakeBy D e q m ty s)"
  shows "fst (WakeBy D e q m ty s) = t" "kinv s'" "k_halt s' = k_halt s"
    "tcb_status s' t = woken_status ty (tcb_status s t)"
    "ready_set s' = (if woken_status ty (tcb_status s t) = 0 then insert t (ready_set s) else ready_set s)"
    "TCB_peventPtr (k_tcb s' t) = None" "TCB_pvMsgBoxMessage (k_tcb s' t) = m"
    "TCB_ucIsEventDelete (k_tcb s' t) = (if D then LW_EVENT_DELETE else TCB_ucIsEventDelete (k_tcb s t))"
    "TCB_ucWaitTimeout (k_tcb s' t) = LW_WAIT_TIME_CLEAR"
    "\<And>u. u \<noteq> t \<Longrightarrow> tcb_core (k_tcb s' u) = tcb_core (k_tcb s u)"
    "\<And>e' q'. waiters s' e' q' = waiters s e' q' - {t}"
    "\<And>e'. ev_core (k_event s' e') = ev_core (k_event s e')"
    "\<And>e' q' b'. WQ_ring (event_wq s' e' q') b' = (if e' = e \<and> q' = q \<and> b' = wake_ring s e q
       then remove1 t (WQ_ring (event_wq s e q) b') else WQ_ring (event_wq s e' q') b')"
    "dues (k_delay s') = filter (\<lambda>(n, d). n \<noteq> t) (dues (k_delay s))"
    "k_tcbIdTable s' = k_tcbIdTable s" "k_ncpus s' = k_ncpus s" "k_freeEvents s' = k_freeEvents s"
proof -
  note lo = ReadyLowLevel_half[OF k ne, where m = m, folded t_def]
  define s1 where "s1 = snd (ReadyLowLevel e q m s)"
  note lo' = lo[folded s1_def]
  define s2 where "s2 = (if D then tcb_upd t (\<lambda>x. x\<lparr>TCB_ucIsEventDelete := LW_EVENT_DELETE\<rparr>) s1 else s1)"
  have s': "WakeBy D e q m ty s = (t, EventReadyHighLevel t ty s2)"
    using lo'(1) by (simp add: WakeBy_def split_beta s1_def s2_def Let_def)
  have half: "kinv_half t s2" "ready_set s2 = ready_set s1"
    using kinv_half_mark[OF lo'(2)] lo'(2) by (simp_all add: s2_def)
  note hi = EventReadyHighLevel_ok[OF half(1), where ty = ty]
  have st1: "k_tcb s1 = (k_tcb s)(t := (k_tcb s t)\<lparr>TCB_usStatus := tcb_status s t AND NOT LW_THREAD_STATUS_DELAY,
     TCB_pvMsgBoxMessage := m\<rparr>)" by (simp add: lo'(7) ReadyLowLevel_tail_tcb)
  have st2: "k_tcb s2 = (k_tcb s)(t := (k_tcb s t)\<lparr>TCB_usStatus := tcb_status s t AND NOT LW_THREAD_STATUS_DELAY,
     TCB_pvMsgBoxMessage := m, TCB_ucIsEventDelete := (if D then LW_EVENT_DELETE else TCB_ucIsEventDelete (k_tcb s t))\<rparr>)"
    "k_event s2 = k_event s1" "k_delay s2 = k_delay s1" "k_halt s2 = k_halt s1"
    "k_tcbIdTable s2 = k_tcbIdTable s1" "k_ncpus s2 = k_ncpus s1" "k_freeEvents s2 = k_freeEvents s"
    using st1 lo'(7) by (auto simp: s2_def)
  show "fst (WakeBy D e q m ty s) = t" by (simp add: s')
  show "kinv s'" "k_halt s' = k_halt s" "TCB_peventPtr (k_tcb s' t) = None"
    "tcb_status s' t = woken_status ty (tcb_status s t)"
    "ready_set s' = (if woken_status ty (tcb_status s t) = 0 then insert t (ready_set s) else ready_set s)"
    "TCB_pvMsgBoxMessage (k_tcb s' t) = m"
    "TCB_ucIsEventDelete (k_tcb s' t) = (if D then LW_EVENT_DELETE else TCB_ucIsEventDelete (k_tcb s t))"
    "TCB_ucWaitTimeout (k_tcb s' t) = LW_WAIT_TIME_CLEAR"
    "k_tcbIdTable s' = k_tcbIdTable s" "k_ncpus s' = k_ncpus s" "k_freeEvents s' = k_freeEvents s"
    using hi lo' st2 half by (simp_all add: s'_def s' woken_status_def)
  show oth: "tcb_core (k_tcb s' u) = tcb_core (k_tcb s u)" if "u \<noteq> t" for u
    using hi(6)[OF that] st2 that by (simp add: s'_def s')
  show "waiters s' e' q' = waiters s e' q' - {t}" for e' q'
    by (rule waiters_core) (use oth hi(5) in \<open>simp_all add: s'_def s'\<close>)
  show "ev_core (k_event s' e') = ev_core (k_event s e')" for e'
    using hi(7) lo'(7) st2(2) by (simp add: s'_def s')
  show "WQ_ring (event_wq s' e' q') b' = (if e' = e \<and> q' = q \<and> b' = wake_ring s e q
       then remove1 t (WQ_ring (event_wq s e q) b') else WQ_ring (event_wq s e' q') b')" for e' q' b'
    using hi(7) lo'(7) st2(2) by (simp add: s'_def s')
  show "dues (k_delay s') = filter (\<lambda>(n, d). n \<noteq> t) (dues (k_delay s))"
    using hi(8) lo'(7) kinv_delay[OF k] st2(3) by (simp add: s'_def s' delay_tail)
qed

lemmas ReadyOne_ok = WakeBy_ok[where D = False, folded ReadyOne_WakeBy, simplified]

section \<open>The flush and delete loops\<close>

text \<open>Threads that wait on the queue leave it; their status loses the wait bits, and
  those without another reason to wait are ready.\<close>

fun DrainLoop :: "bool \<Rightarrow> nat \<Rightarrow> eid \<Rightarrow> nat \<Rightarrow> UINT16 \<Rightarrow> kernel \<Rightarrow> kernel" where
  "DrainLoop D 0 e q ty s = s"
| "DrainLoop D (Suc n) e q ty s =
    (if EventWaitNum s q e = 0 then s else DrainLoop D n e q ty (snd (WakeBy D e q 0 ty s)))"

lemma FlushLoop_Drain: "FlushLoop n e q ty s = DrainLoop False n e q ty s"
  by (induction n arbitrary: s) (simp_all add: ReadyOne_WakeBy)

lemma DeleteLoop_Drain: "DeleteLoop n e q ty s = DrainLoop True n e q ty s"
  by (induction n arbitrary: s) (simp_all add: WakeBy_def Let_def split_beta)

definition drained :: "bool \<Rightarrow> eid \<Rightarrow> nat \<Rightarrow> UINT16 \<Rightarrow> kernel \<Rightarrow> kernel \<Rightarrow> bool" where
  "drained D e q ty s s' \<longleftrightarrow> kinv s' \<and> k_halt s' = k_halt s \<and> waiters s' e q = {} \<and>
    (\<forall>t \<in> waiters s e q. tcb_status s' t = woken_status ty (tcb_status s t)
        \<and> TCB_ucWaitTimeout (k_tcb s' t) = LW_WAIT_TIME_CLEAR
        \<and> TCB_ucIsEventDelete (k_tcb s' t) = (if D then LW_EVENT_DELETE else TCB_ucIsEventDelete (k_tcb s t))) \<and>
    (\<forall>t. t \<notin> waiters s e q \<longrightarrow> tcb_core (k_tcb s' t) = tcb_core (k_tcb s t)) \<and>
    (\<forall>e' q'. waiters s' e' q' = waiters s e' q' - waiters s e q) \<and>
    (\<forall>e'. ev_core (k_event s' e') = ev_core (k_event s e')) \<and>
    k_tcbIdTable s' = k_tcbIdTable s \<and> k_ncpus s' = k_ncpus s \<and> k_freeEvents s' = k_freeEvents s"

lemma DrainLoop_ok:
  assumes "kinv s" "card (waiters s e q) \<le> n"
  shows "drained D e q ty s (DrainLoop D n e q ty s)"
  using assms
proof (induction n arbitrary: s)
  case 0
  then have "waiters s e q = {}" using EventWaitNum_waiters(2)[OF kinv_wait] by simp
  then show ?case using 0 by (simp add: drained_def)
next
  case (Suc n)
  note w = EventWaitNum_waiters[OF kinv_wait[OF Suc.prems(1)], of q e]
  show ?case
  proof (cases "EventWaitNum s q e = 0")
    case True
    then show ?thesis using Suc.prems w(1) by (simp add: drained_def)
  next
    case False
    define t where "t = next_waiter s e q"
    define s1 where "s1 = snd (WakeBy D e q 0 ty s)"
    note r = WakeBy_ok[OF Suc.prems(1) False, where D = D and m = 0 and ty = ty, folded t_def s1_def]
    have tw: "t \<in> waiters s e q" using next_waiter_ok(2)[OF kinv_wait[OF Suc.prems(1)] False]
      by (simp add: waiters_def t_def)
    have "card (waiters s1 e q) \<le> n" using Suc.prems(2) w(2) tw r(11)[of e q] by simp
    note IH = Suc.IH[OF r(2) this, unfolded drained_def]
    have F: "DrainLoop D (Suc n) e q ty s = DrainLoop D n e q ty s1" using False by (simp add: s1_def)
    have nt: "t \<notin> waiters s1 e q" using r(11) by simp
    let ?s' = "DrainLoop D n e q ty s1"
    have core: "tcb_core (k_tcb ?s' u) = tcb_core (k_tcb s u)" if "u \<notin> waiters s e q" for u
    proof -
      have "u \<noteq> t" "u \<notin> waiters s1 e q" using that tw r(11) by auto
      then show ?thesis using IH r(10)[of u] by metis
    qed
    have wk: "tcb_status ?s' u = woken_status ty (tcb_status s u)
        \<and> TCB_ucWaitTimeout (k_tcb ?s' u) = LW_WAIT_TIME_CLEAR
        \<and> TCB_ucIsEventDelete (k_tcb ?s' u) = (if D then LW_EVENT_DELETE else TCB_ucIsEventDelete (k_tcb s u))"
      if "u \<in> waiters s e q" for u
    proof (cases "u = t")
      case True
      then have "tcb_core (k_tcb ?s' t) = tcb_core (k_tcb s1 t)" using IH nt by blast
      then show ?thesis using r(4,8,9) tcb_core_eqD[of "k_tcb ?s' t" "k_tcb s1 t"] True by simp
    next
      case False
      then have "u \<in> waiters s1 e q" using that r(11) by simp
      then show ?thesis using IH tcb_core_eqD[OF r(10)[OF False]] by simp
    qed
    show ?thesis unfolding F drained_def
      using IH r(3,12,15-17) core wk r(11) tw by auto
  qed
qed

lemma Loops_ok:
  assumes "kinv s"
  shows "drained False e q ty s (FlushLoop LW_CFG_MAX_THREADS e q ty s)"
    "drained True e q ty s (DeleteLoop LW_CFG_MAX_THREADS e q ty s)"
  using DrainLoop_ok[OF assms EventWaitNum_waiters(4)[OF kinv_wait[OF assms]]]
  by (simp_all add: FlushLoop_Drain DeleteLoop_Drain)

end
