(* ===== verification/Wait_Order.thy ===== *)
theory Wait_Order
  imports Event_Inv
begin

text \<open>
  The order in which a wait queue serves its threads.  The locale \<open>wait_queue\<close> states
  what a client of a queue relies on, with the order of service as a list; \<open>fifo_queue\<close>
  and \<open>prio_queue\<close> add where a newcomer is placed.  The FIFO ring and the eight priority
  rings of an event block are interpretations, and the kernel's \<open>PendBlock\<close> and
  \<open>ReadyOne\<close> are the two operations of the queue the event's option selects.
\<close>

section \<open>Queues of waiting threads\<close>

fun serve :: "('q \<Rightarrow> tid) \<Rightarrow> (tid \<Rightarrow> 'q \<Rightarrow> 'q) \<Rightarrow> nat \<Rightarrow> 'q \<Rightarrow> tid list \<times> 'q" where
  "serve first del 0 w = ([], w)"
| "serve first del (Suc n) w =
     (let t = first w; (ts, w') = serve first del n (del t w) in (t # ts, w'))"

locale wait_queue =
  fixes ok :: "'q \<Rightarrow> bool" and members :: "'q \<Rightarrow> tid list" and enq :: "tid \<Rightarrow> 'q \<Rightarrow> 'q"
    and del :: "tid \<Rightarrow> 'q \<Rightarrow> 'q" and first :: "'q \<Rightarrow> tid"
  assumes ok_distinct: "ok w \<Longrightarrow> distinct (members w)"
    and enq_ok: "\<lbrakk>ok w; t \<notin> set (members w)\<rbrakk> \<Longrightarrow> ok (enq t w)"
    and enq_set: "\<lbrakk>ok w; t \<notin> set (members w)\<rbrakk> \<Longrightarrow> set (members (enq t w)) = insert t (set (members w))"
    and del_ok: "\<lbrakk>ok w; t \<in> set (members w)\<rbrakk> \<Longrightarrow> ok (del t w)"
    and del_members: "\<lbrakk>ok w; t \<in> set (members w)\<rbrakk> \<Longrightarrow> members (del t w) = remove1 t (members w)"
    and first_hd: "\<lbrakk>ok w; members w \<noteq> []\<rbrakk> \<Longrightarrow> first w = hd (members w)"
begin

lemma first_mem: "\<lbrakk>ok w; members w \<noteq> []\<rbrakk> \<Longrightarrow> first w \<in> set (members w)"
  by (simp add: first_hd)

lemma del_first: "\<lbrakk>ok w; members w \<noteq> []\<rbrakk> \<Longrightarrow> members (del (first w) w) = tl (members w) \<and> ok (del (first w) w)"
  using first_hd[of w] first_mem[of w] del_members[of w "first w"] del_ok[of w "first w"]
  by (simp add: remove1_hd)

text \<open>Serving \<open>n\<close> threads serves the first \<open>n\<close>, each once.\<close>

lemma serve_ok:
  assumes "ok w" "n \<le> length (members w)"
  shows "fst (serve first del n w) = take n (members w) \<and> members (snd (serve first del n w)) = drop n (members w)
    \<and> ok (snd (serve first del n w))"
  using assms
proof (induction n arbitrary: w)
  case (Suc n)
  then have ne: "members w \<noteq> []" by auto
  then obtain x xs where mw: "members w = x # xs" by (cases "members w") auto
  have d: "members (del (first w) w) = xs" "ok (del (first w) w)" "first w = x"
    using del_first[OF Suc.prems(1) ne] first_hd[OF Suc.prems(1) ne] mw by simp_all
  from Suc.IH[OF d(2)] Suc.prems(2) d mw show ?case by (simp add: split_beta Let_def)
qed simp

lemma enq_all_set:
  assumes "ok w" "distinct ts" "set ts \<inter> set (members w) = {}"
  shows "ok (fold enq ts w) \<and> set (members (fold enq ts w)) = set ts \<union> set (members w)"
  using assms
proof (induction ts arbitrary: w)
  case (Cons t ts)
  then have "t \<notin> set (members w)" by auto
  note e = enq_ok[OF Cons.prems(1) this] enq_set[OF Cons.prems(1) this]
  from Cons.IH[OF e(1)] Cons.prems e(2) show ?case by auto
qed simp

text \<open>Whoever joins is served, by the time all members have been.\<close>

lemma serve_all:
  assumes "ok w" "distinct ts" "set ts \<inter> set (members w) = {}"
  shows "set (fst (serve first del (length (members (fold enq ts w))) (fold enq ts w))) = set ts \<union> set (members w)"
  using serve_ok[of "fold enq ts w" "length (members (fold enq ts w))"] enq_all_set[OF assms] by simp

end

locale fifo_queue = wait_queue ok members enq del first
  for ok :: "'q \<Rightarrow> bool" and members :: "'q \<Rightarrow> tid list" and enq :: "tid \<Rightarrow> 'q \<Rightarrow> 'q"
    and del :: "tid \<Rightarrow> 'q \<Rightarrow> 'q" and first :: "'q \<Rightarrow> tid" +
  assumes enq_members: "ok w \<Longrightarrow> members (enq t w) = members w @ [t]"
begin

lemma enq_all:
  assumes "ok w" "distinct ts" "set ts \<inter> set (members w) = {}"
  shows "members (fold enq ts w) = members w @ ts"
  using assms
proof (induction ts arbitrary: w)
  case (Cons t ts)
  then have "t \<notin> set (members w)" by auto
  note e = enq_ok[OF Cons.prems(1) this] enq_members[OF Cons.prems(1), of t]
  from Cons.IH[OF e(1)] Cons.prems e(2) show ?case by auto
qed simp

text \<open>First come, first served.\<close>

lemma serve_order:
  assumes "ok w" "members w = []" "distinct ts" "n \<le> length ts"
  shows "fst (serve first del n (fold enq ts w)) = take n ts"
  using serve_ok[of "fold enq ts w" n] enq_all[of w ts] enq_all_set[of w ts] assms by simp

end

locale prio_queue = wait_queue ok members enq del first
  for ok :: "'q \<Rightarrow> bool" and members :: "'q \<Rightarrow> tid list" and enq :: "tid \<Rightarrow> 'q \<Rightarrow> 'q"
    and del :: "tid \<Rightarrow> 'q \<Rightarrow> 'q" and first :: "'q \<Rightarrow> tid" +
  fixes pr :: "tid \<Rightarrow> UINT8"
  assumes sorted: "ok w \<Longrightarrow> sorted (map pr (members w))"
    and enq_members: "\<lbrakk>ok w; t \<notin> set (members w)\<rbrakk> \<Longrightarrow> members (enq t w) =
      filter (\<lambda>x. pr x \<le> pr t) (members w) @ [t] @ filter (\<lambda>x. pr t < pr x) (members w)"
begin

text \<open>The thread served next has the highest priority (the least number).\<close>

lemma first_highest:
  assumes "ok w" "t \<in> set (members w)" shows "pr (first w) \<le> pr t"
proof -
  obtain x xs where m: "members w = x # xs" using assms(2) by (cases "members w") auto
  then have "first w = x" using first_hd[OF assms(1)] by simp
  then show ?thesis using sorted[OF assms(1)] m assms(2) by auto
qed

text \<open>A newcomer is served behind every thread of its own priority.\<close>

lemma enq_behind_equal:
  assumes "ok w" "t \<notin> set (members w)" "u \<in> set (members w)" "pr u \<le> pr t"
  shows "\<exists>xs ys. members (enq t w) = xs @ [t] @ ys \<and> u \<in> set xs \<and> u \<notin> set ys"
proof (intro exI conjI)
  show "members (enq t w) = filter (\<lambda>x. pr x \<le> pr t) (members w) @ [t] @ filter (\<lambda>x. pr t < pr x) (members w)"
    by (rule enq_members[OF assms(1,2)])
qed (use assms(3,4) in auto)

end

section \<open>The FIFO ring\<close>

definition fifo_members :: "waitqueue \<Rightarrow> tid list" where
  "fifo_members w = rev (WQ_ring w 0)"

definition fifo_ok :: "waitqueue \<Rightarrow> bool" where
  "fifo_ok w \<longleftrightarrow> distinct (WQ_ring w 0)"

abbreviation fifo_enq :: "tid \<Rightarrow> waitqueue \<Rightarrow> waitqueue" where
  "fifo_enq t \<equiv> wq_ring_upd 0 (ring_add_ahead t)"

abbreviation fifo_del :: "tid \<Rightarrow> waitqueue \<Rightarrow> waitqueue" where
  "fifo_del t \<equiv> wq_ring_upd 0 (ring_del t)"

abbreviation fifo_first :: "waitqueue \<Rightarrow> tid" where
  "fifo_first w \<equiv> last (WQ_ring w 0)"

lemma rev_remove1: "distinct xs \<Longrightarrow> rev (remove1 t xs) = remove1 t (rev xs)"
  by (induction xs) (auto simp: remove1_append)

interpretation fq: fifo_queue fifo_ok fifo_members fifo_enq fifo_del fifo_first
  by unfold_locales (auto simp: fifo_ok_def fifo_members_def rev_remove1 hd_rev)

section \<open>The priority rings\<close>

definition prio_members :: "waitqueue \<Rightarrow> tid list" where
  "prio_members w = concat (map (WQ_ring w) [0..<EVENT_Q_SIZE])"

definition prio_ok :: "(tid \<Rightarrow> UINT8) \<Rightarrow> waitqueue \<Rightarrow> bool" where
  "prio_ok pr w \<longleftrightarrow> (\<forall>b<EVENT_Q_SIZE. distinct (WQ_ring w b) \<and> sorted (map pr (WQ_ring w b)) \<and>
     (\<forall>t\<in>set (WQ_ring w b). EVENT_INDEX_Q_PRIORITY (pr t) = b))"

abbreviation prio_enq :: "(tid \<Rightarrow> UINT8) \<Rightarrow> tid \<Rightarrow> waitqueue \<Rightarrow> waitqueue" where
  "prio_enq pr t \<equiv> wq_ring_upd (EVENT_INDEX_Q_PRIORITY (pr t)) (prio_ring_add pr t)"

abbreviation prio_del :: "(tid \<Rightarrow> UINT8) \<Rightarrow> tid \<Rightarrow> waitqueue \<Rightarrow> waitqueue" where
  "prio_del pr t \<equiv> wq_ring_upd (EVENT_INDEX_Q_PRIORITY (pr t)) (ring_del t)"

abbreviation prio_first :: "waitqueue \<Rightarrow> tid" where
  "prio_first w \<equiv> hd (WQ_ring w (EVENT_DEL_Q_PRIORITY w))"

lemma prio_ok_cong: "WQ_ring w = WQ_ring w' \<Longrightarrow> prio_ok pr w \<longleftrightarrow> prio_ok pr w'"
  by (simp add: prio_ok_def)

lemma EVENT_INDEX_mono: "p \<le> p' \<Longrightarrow> EVENT_INDEX_Q_PRIORITY p \<le> EVENT_INDEX_Q_PRIORITY p'"
  by (simp add: EVENT_INDEX_Q_PRIORITY_def drop_bit_eq_div unat_div word_le_nat_alt div_le_mono)

lemma EVENT_INDEX_less: "EVENT_INDEX_Q_PRIORITY p < EVENT_INDEX_Q_PRIORITY p' \<Longrightarrow> p < p'"
  by (meson EVENT_INDEX_mono not_le)

lemma prio_ring_tail_eq:
  assumes "sorted (map pr xs)"
  shows "prio_ring_tail pr t xs = filter (\<lambda>x. pr x \<le> pr t) xs @ [t] @ filter (\<lambda>x. pr t < pr x) xs"
  using assms
proof (induction xs)
  case (Cons x xs)
  show ?case
  proof (cases "pr t < pr x")
    case True
    then have "\<forall>y\<in>set xs. pr t < pr y" using Cons.prems by auto
    then have "filter (\<lambda>x. pr x \<le> pr t) xs = []" "filter (\<lambda>x. pr t < pr x) xs = xs"
      by (auto simp: filter_empty_conv filter_id_conv not_le)
    then show ?thesis using True by (simp add: LW_PRIO_IS_HIGH_def not_le)
  next
    case False
    then show ?thesis using Cons by (simp add: LW_PRIO_IS_HIGH_def not_less)
  qed
qed simp

lemma prio_ring_add_eq:
  assumes "sorted (map pr xs)"
  shows "prio_ring_add pr t xs = filter (\<lambda>x. pr x \<le> pr t) xs @ [t] @ filter (\<lambda>x. pr t < pr x) xs"
proof -
  have "prio_ring_add pr t xs = prio_ring_tail pr t xs" by (cases xs) simp_all
  then show ?thesis using prio_ring_tail_eq[OF assms] by simp
qed

lemma sorted_filter_insert:
  assumes "sorted (map pr xs)"
  shows "sorted (map pr (filter (\<lambda>x. pr x \<le> pr t) xs @ [t] @ filter (\<lambda>x. pr t < pr x) xs))"
  using assms by (auto simp: sorted_append sorted_filter)

lemma upt8: "[0..<EVENT_Q_SIZE] = [0, 1, 2, 3, 4, 5, 6, 7]"
  by (simp add: upt_rec)

lemma prio_ring_split:
  assumes "b < EVENT_Q_SIZE"
  shows "prio_members w = concat (map (WQ_ring w) [0..<b]) @ WQ_ring w b @ concat (map (WQ_ring w) [Suc b..<EVENT_Q_SIZE])"
proof -
  have "[0..<EVENT_Q_SIZE] = [0..<b] @ b # [Suc b..<EVENT_Q_SIZE]"
    using assms upt_add_eq_append[of 0 b "EVENT_Q_SIZE - b"] upt_conv_Cons[OF assms] by simp
  then show ?thesis by (simp add: prio_members_def)
qed

lemma prio_ring_split_upd:
  assumes "b < EVENT_Q_SIZE"
  shows "prio_members (wq_ring_upd b f w) =
    concat (map (WQ_ring w) [0..<b]) @ f (WQ_ring w b) @ concat (map (WQ_ring w) [Suc b..<EVENT_Q_SIZE])"
proof -
  have a: "map (WQ_ring (wq_ring_upd b f w)) [0..<b] = map (WQ_ring w) [0..<b]" by simp
  have c: "map (WQ_ring (wq_ring_upd b f w)) [Suc b..<EVENT_Q_SIZE] = map (WQ_ring w) [Suc b..<EVENT_Q_SIZE]" by simp
  show ?thesis unfolding prio_ring_split[OF assms, of "wq_ring_upd b f w"] a c by simp
qed

lemma prio_ok_mem:
  assumes "prio_ok pr w" "t \<in> set (WQ_ring w b)" "b < EVENT_Q_SIZE"
  shows "EVENT_INDEX_Q_PRIORITY (pr t) = b"
  using assms by (auto simp: prio_ok_def)

lemma set_prio_members: "set (prio_members w) = (\<Union>b<EVENT_Q_SIZE. set (WQ_ring w b))"
  by (auto simp: prio_members_def)

lemma prio_mem_iff:
  assumes "prio_ok pr w"
  shows "t \<in> set (prio_members w) \<longleftrightarrow> t \<in> set (WQ_ring w (EVENT_INDEX_Q_PRIORITY (pr t)))"
proof
  assume "t \<in> set (prio_members w)"
  then obtain b where "b < EVENT_Q_SIZE" "t \<in> set (WQ_ring w b)" unfolding set_prio_members by blast
  then show "t \<in> set (WQ_ring w (EVENT_INDEX_Q_PRIORITY (pr t)))" using prio_ok_mem[OF assms] by metis
next
  assume "t \<in> set (WQ_ring w (EVENT_INDEX_Q_PRIORITY (pr t)))"
  then show "t \<in> set (prio_members w)"
    unfolding set_prio_members using EVENT_INDEX_bound[of "pr t"] by blast
qed

lemma prio_before:
  assumes "prio_ok pr w" "x \<in> set (concat (map (WQ_ring w) [0..<b]))" "b \<le> EVENT_Q_SIZE"
  shows "EVENT_INDEX_Q_PRIORITY (pr x) < b"
  using prio_ok_mem[OF assms(1)] assms(2,3) by fastforce

lemma prio_after:
  assumes "prio_ok pr w" "x \<in> set (concat (map (WQ_ring w) [Suc b..<EVENT_Q_SIZE]))"
  shows "b < EVENT_INDEX_Q_PRIORITY (pr x)"
  using prio_ok_mem[OF assms(1)] assms(2) by fastforce

lemma sorted_concat_rings:
  assumes "prio_ok pr w" "n \<le> EVENT_Q_SIZE"
  shows "sorted (map pr (concat (map (WQ_ring w) [0..<n]))) \<and> distinct (concat (map (WQ_ring w) [0..<n]))"
  using assms(2)
proof (induction n)
  case (Suc n)
  have r: "distinct (WQ_ring w n)" "sorted (map pr (WQ_ring w n))"
    "\<And>t. t \<in> set (WQ_ring w n) \<Longrightarrow> EVENT_INDEX_Q_PRIORITY (pr t) = n"
    using assms(1) Suc.prems by (auto simp: prio_ok_def)
  have lt: "EVENT_INDEX_Q_PRIORITY (pr x) < n" if "x \<in> set (concat (map (WQ_ring w) [0..<n]))" for x
    using prio_before[OF assms(1) that] Suc.prems by simp
  have "\<forall>x\<in>set (concat (map (WQ_ring w) [0..<n])). \<forall>y\<in>set (WQ_ring w n). pr x \<le> pr y"
    using lt r(3) by (metis EVENT_INDEX_less order.strict_implies_order)
  moreover have "set (concat (map (WQ_ring w) [0..<n])) \<inter> set (WQ_ring w n) = {}"
    using lt r(3) by (metis disjoint_iff less_irrefl)
  ultimately show ?case using Suc r(1,2) by (simp add: sorted_append)
qed simp

lemma prio_members_sorted:
  assumes "prio_ok pr w" shows "sorted (map pr (prio_members w))" "distinct (prio_members w)"
  using sorted_concat_rings[OF assms, of EVENT_Q_SIZE] by (simp_all add: prio_members_def)

lemma prio_ok_enq:
  assumes ok: "prio_ok pr w" and t: "t \<notin> set (prio_members w)"
  shows "prio_ok pr (prio_enq pr t w)"
proof -
  let ?b = "EVENT_INDEX_Q_PRIORITY (pr t)"
  have s: "sorted (map pr (WQ_ring w ?b))" "distinct (WQ_ring w ?b)" using ok by (simp_all add: prio_ok_def)
  have n: "t \<notin> set (WQ_ring w ?b)" using t prio_mem_iff[OF ok] by blast
  have "sorted (map pr (prio_ring_add pr t (WQ_ring w ?b)))"
    using sorted_filter_insert[OF s(1)] by (simp add: prio_ring_add_eq[OF s(1)])
  then show ?thesis using ok s n by (auto simp: prio_ok_def)
qed

lemma prio_ok_del: "prio_ok pr w \<Longrightarrow> prio_ok pr (prio_del pr t w)"
  by (auto simp: prio_ok_def sorted_remove1 intro: sorted_map_remove1)

lemma prio_members_enq:
  assumes ok: "prio_ok pr w" and t: "t \<notin> set (prio_members w)"
  shows "prio_members (prio_enq pr t w) =
    filter (\<lambda>x. pr x \<le> pr t) (prio_members w) @ [t] @ filter (\<lambda>x. pr t < pr x) (prio_members w)"
proof -
  let ?b = "EVENT_INDEX_Q_PRIORITY (pr t)"
  let ?A = "concat (map (WQ_ring w) [0..<?b])" and ?B = "WQ_ring w ?b"
    and ?C = "concat (map (WQ_ring w) [Suc ?b..<EVENT_Q_SIZE])"
  have s: "sorted (map pr ?B)" using ok by (simp add: prio_ok_def)
  have "\<forall>x\<in>set ?A. pr x < pr t" using prio_before[OF ok] EVENT_INDEX_less by (meson EVENT_INDEX_bound less_imp_le)
  moreover have "\<forall>x\<in>set ?C. pr t < pr x" using prio_after[OF ok] EVENT_INDEX_less by meson
  ultimately have "filter (\<lambda>x. pr x \<le> pr t) ?A = ?A" "filter (\<lambda>x. pr t < pr x) ?A = []"
      "filter (\<lambda>x. pr x \<le> pr t) ?C = []" "filter (\<lambda>x. pr t < pr x) ?C = ?C"
    by (force simp: filter_id_conv filter_empty_conv)+
  then show ?thesis
    unfolding prio_ring_split_upd[OF EVENT_INDEX_bound] prio_ring_split[OF EVENT_INDEX_bound[of "pr t"], of w]
    by (simp add: prio_ring_add_eq[OF s])
qed

lemma prio_members_del:
  assumes ok: "prio_ok pr w" and t: "t \<in> set (prio_members w)"
  shows "prio_members (prio_del pr t w) = remove1 t (prio_members w)"
proof -
  let ?b = "EVENT_INDEX_Q_PRIORITY (pr t)"
  have m: "t \<in> set (WQ_ring w ?b)" using t prio_mem_iff[OF ok] by blast
  have "t \<notin> set (concat (map (WQ_ring w) [0..<?b]))" using prio_before[OF ok, of t ?b] by (meson EVENT_INDEX_bound less_imp_le less_irrefl)
  then show ?thesis using m
    unfolding prio_ring_split_upd[OF EVENT_INDEX_bound] prio_ring_split[OF EVENT_INDEX_bound[of "pr t"], of w]
    by (simp add: remove1_append)
qed

lemma prio_first_hd:
  assumes "prio_members w \<noteq> []" shows "prio_first w = hd (prio_members w)"
proof -
  have ex: "\<exists>j. 0 \<le> j \<and> j < 0 + EVENT_Q_SIZE \<and> WQ_ring w j \<noteq> []"
    using assms by (auto simp: prio_members_def)
  let ?b = "EVENT_DEL_Q_PRIORITY w"
  note d = del_q_priority_first[OF ex, folded EVENT_DEL_Q_PRIORITY_def]
  have b: "?b < EVENT_Q_SIZE" using d(2) by simp
  have "concat (map (WQ_ring w) [0..<?b]) = []" using d(4) by auto
  then have "prio_members w = WQ_ring w ?b @ concat (map (WQ_ring w) [Suc ?b..<EVENT_Q_SIZE])"
    unfolding prio_ring_split[OF b] by (simp only: append_Nil)
  then show ?thesis using hd_append2[OF d(3)] by metis
qed

interpretation pq: prio_queue "prio_ok pr" prio_members "prio_enq pr" "prio_del pr" prio_first pr for pr
proof unfold_locales
  fix w :: waitqueue and t :: tid
  assume ok: "prio_ok pr w"
  show "distinct (prio_members w)" "sorted (map pr (prio_members w))" using prio_members_sorted[OF ok] by auto
  show "prio_ok pr (prio_enq pr t w)" "set (prio_members (prio_enq pr t w)) = insert t (set (prio_members w))"
    "prio_members (prio_enq pr t w) =
      filter (\<lambda>x. pr x \<le> pr t) (prio_members w) @ [t] @ filter (\<lambda>x. pr t < pr x) (prio_members w)"
    if "t \<notin> set (prio_members w)"
    using prio_ok_enq[OF ok that] prio_members_enq[OF ok that] by auto
  show "prio_ok pr (prio_del pr t w)" using prio_ok_del[OF ok] .
  show "prio_members (prio_del pr t w) = remove1 t (prio_members w)" if "t \<in> set (prio_members w)"
    using prio_members_del[OF ok that] .
  show "prio_first w = hd (prio_members w)" if "prio_members w \<noteq> []" using prio_first_hd[OF that] .
qed

section \<open>The queues of the kernel\<close>

abbreviation by_prio :: "kernel \<Rightarrow> eid \<Rightarrow> bool" where
  "by_prio s e \<equiv> EVENT_ulOption (k_event s e) AND LW_OPTION_WAIT_PRIORITY \<noteq> 0"

definition wait_order :: "kernel \<Rightarrow> eid \<Rightarrow> nat \<Rightarrow> tid list" where
  "wait_order s e q = (if by_prio s e then prio_members (event_wq s e q) else fifo_members (event_wq s e q))"

definition order_ok :: "kernel \<Rightarrow> eid \<Rightarrow> nat \<Rightarrow> bool" where
  "order_ok s e q \<longleftrightarrow> (by_prio s e \<longrightarrow> prio_ok (tcb_prio s) (event_wq s e q))"

lemma wait_order_waiters:
  assumes "wait_inv s" shows "set (wait_order s e q) = waiters s e q"
proof -
  note i = wait_invxD[OF assms[unfolded wait_inv_def], where e = e and q = q]
  show ?thesis
  proof (cases "by_prio s e")
    case True
    then show ?thesis using i(2,4) by (auto simp: wait_order_def set_prio_members waiters_def)
  next
    case False
    then have "waits_on s e q t \<Longrightarrow> wait_bucket s t = 0" for t by (auto simp: wait_bucket_def waits_on_def)
    then show ?thesis using False i(2) by (auto simp: wait_order_def fifo_members_def waiters_def)
  qed
qed

lemma fifo_ok_kernel: "wait_inv s \<Longrightarrow> fifo_ok (event_wq s e q)"
  using wait_invxD(1)[of "{}" s] by (simp add: wait_inv_def fifo_ok_def)

text \<open>Priority rings hold a thread in the ring its TCB names, so deleting it from the
  ring of its priority is deleting it from there.\<close>

lemma next_waiter_order:
  assumes "wait_inv s" "wait_order s e q \<noteq> []"
  shows "next_waiter s e q = hd (wait_order s e q)"
proof (cases "by_prio s e")
  case True
  then show ?thesis using prio_first_hd[of "event_wq s e q"] assms(2)
    by (simp add: wait_order_def next_waiter_def wake_ring_def)
next
  case False
  then show ?thesis using fq.first_hd[OF fifo_ok_kernel[OF assms(1)], of e q] assms(2)
    by (simp add: wait_order_def next_waiter_def)
qed

lemma wait_order_empty:
  assumes "wait_inv s" shows "wait_order s e q = [] \<longleftrightarrow> EventWaitNum s q e = 0"
  using EventWaitNum_waiters(1)[OF assms] wait_order_waiters[OF assms, of e q] by auto

text \<open>What the removal of the next waiter does to the order, whatever else changes.\<close>

lemma removed_order:
  assumes k: "kinv s" and ne: "EventWaitNum s q e \<noteq> 0" and o: "order_ok s e q"
    and opt: "EVENT_ulOption (k_event s' e) = EVENT_ulOption (k_event s e)"
    and ring: "\<And>b. WQ_ring (event_wq s' e q) b = (if b = wake_ring s e q
       then remove1 (next_waiter s e q) (WQ_ring (event_wq s e q) b) else WQ_ring (event_wq s e q) b)"
    and pr: "\<And>u. \<lbrakk>u \<in> waiters s e q; u \<noteq> next_waiter s e q\<rbrakk> \<Longrightarrow> tcb_prio s' u = tcb_prio s u"
  shows "next_waiter s e q = hd (wait_order s e q)" "wait_order s' e q = tl (wait_order s e q)" "order_ok s' e q"
proof -
  let ?t = "next_waiter s e q" and ?w = "event_wq s e q"
  note w = kinv_wait[OF k]
  note i = wait_invxD[OF w[unfolded wait_inv_def], where e = e and q = q]
  have nemp: "wait_order s e q \<noteq> []" using ne wait_order_empty[OF w] by simp
  show hd: "?t = hd (wait_order s e q)" by (rule next_waiter_order[OF w nemp])
  have rings: "WQ_ring (event_wq s' e q) = WQ_ring (wq_ring_upd (wake_ring s e q) (ring_del ?t) ?w)"
    using ring by auto
  show "wait_order s' e q = tl (wait_order s e q)"
  proof (cases "by_prio s e")
    case True
    have okp: "prio_ok (tcb_prio s) ?w" using True o by (simp add: order_ok_def)
    have "wake_ring s e q < EVENT_Q_SIZE"
      using next_waiter_ok(2,3)[OF w ne] i(4)[of "next_waiter s e q"] by simp
    then have b: "wake_ring s e q = EVENT_INDEX_Q_PRIORITY (tcb_prio s ?t)"
      using prio_ok_mem[OF okp next_waiter_ok(1)[OF w ne]] by simp
    have "prio_members (event_wq s' e q) = prio_members (prio_del (tcb_prio s) ?t ?w)"
      using rings b by (simp add: prio_members_def)
    then show ?thesis using pq.del_first[OF okp] True opt hd nemp prio_first_hd[of ?w]
      by (simp add: wait_order_def)
  next
    case False
    have "fifo_members (event_wq s' e q) = fifo_members (fifo_del ?t ?w)"
      using rings False by (simp add: fifo_members_def wake_ring_def)
    then show ?thesis using fq.del_first[OF fifo_ok_kernel[OF w], of e q] False opt hd nemp
        fq.first_hd[OF fifo_ok_kernel[OF w], of e q] by (simp add: wait_order_def)
  qed
  have mem: "u \<in> waiters s e q \<and> u \<noteq> ?t" if "u \<in> set (WQ_ring (event_wq s' e q) b)" for u b
  proof -
    have u: "u \<in> set (WQ_ring ?w b)" using that ring by (auto dest: set_remove1_subset[THEN subsetD] split: if_splits)
    then have wu: "waits_on s e q u" "wait_bucket s u = b" using i(2) by auto
    have "u \<noteq> ?t"
    proof
      assume ut: "u = ?t"
      then have "b = wake_ring s e q" using wu(2) next_waiter_ok(3)[OF w ne] by simp
      then show False using that ring ut i(1)[of b] by simp
    qed
    then show ?thesis using wu(1) by (simp add: waiters_def)
  qed
  show "order_ok s' e q" unfolding order_ok_def
  proof
    assume "by_prio s' e"
    then have okp: "prio_ok (tcb_prio s) ?w" using o opt by (simp add: order_ok_def)
    have d: "sorted (map (tcb_prio s) (WQ_ring (event_wq s' e q) b))" "distinct (WQ_ring (event_wq s' e q) b)"
      "set (WQ_ring (event_wq s' e q) b) \<subseteq> set (WQ_ring ?w b)" if "b < EVENT_Q_SIZE" for b
      using okp that unfolding rings by (auto simp: prio_ok_def sorted_map_remove1 dest: set_remove1_subset[THEN subsetD])
    have m: "tcb_prio s' u = tcb_prio s u" if "u \<in> set (WQ_ring (event_wq s' e q) b)" for u b
      using mem[OF that] pr by blast
    have "map (tcb_prio s') (WQ_ring (event_wq s' e q) b) = map (tcb_prio s) (WQ_ring (event_wq s' e q) b)" for b
      using m by auto
    then show "prio_ok (tcb_prio s') (event_wq s' e q)"
      using d okp m unfolding prio_ok_def by (metis subsetD)
  qed
qed

lemma WakeBy_order:
  fixes m :: ULONG and ty :: UINT16 and D :: bool
  assumes k: "kinv s" and ne: "EventWaitNum s q e \<noteq> 0" and o: "order_ok s e q"
  defines "s' \<equiv> snd (WakeBy D e q m ty s)"
  shows "fst (WakeBy D e q m ty s) = hd (wait_order s e q)" "wait_order s' e q = tl (wait_order s e q)"
    "order_ok s' e q"
proof -
  note wk = WakeBy_ok[OF k ne, where D = D and m = m and ty = ty, folded s'_def]
  have opt: "EVENT_ulOption (k_event s' e) = EVENT_ulOption (k_event s e)" using ev_core_eqD(6)[OF wk(12)] .
  have ring: "WQ_ring (event_wq s' e q) b = (if b = wake_ring s e q
      then remove1 (next_waiter s e q) (WQ_ring (event_wq s e q) b) else WQ_ring (event_wq s e q) b)" for b
    using wk(13)[of e q b] by simp
  have pr: "tcb_prio s' u = tcb_prio s u" if "u \<in> waiters s e q" "u \<noteq> next_waiter s e q" for u using that tcb_core_eqD(3)[OF wk(10)] by blast
  show "fst (WakeBy D e q m ty s) = hd (wait_order s e q)"
    unfolding wk(1) by (rule removed_order(1)[OF k ne o opt]) (use ring pr in auto)
  show "wait_order s' e q = tl (wait_order s e q)" "order_ok s' e q"
    by (rule removed_order(2,3)[OF k ne o opt]; use ring pr in auto)+
qed

lemmas ReadyOne_order = WakeBy_order[where D = False, folded ReadyOne_WakeBy]

text \<open>Where a blocking thread is placed.\<close>

definition enqueue :: "bool \<Rightarrow> (tid \<Rightarrow> UINT8) \<Rightarrow> tid \<Rightarrow> tid list \<Rightarrow> tid list" where
  "enqueue prio pr t ts = (if prio then filter (\<lambda>x. pr x \<le> pr t) ts @ [t] @ filter (\<lambda>x. pr t < pr x) ts else ts @ [t])"

lemma PendBlock_order:
  fixes e :: eid and q :: nat and ulTimeout :: ULONG
  assumes k: "kinv s" and t: "runs s t" and o: "order_ok s e q"
    and us: "usStatus AND LW_THREAD_STATUS_PEND_ANY \<noteq> 0" "usStatus AND LW_THREAD_STATUS_DELAY = 0"
  defines "s' \<equiv> PendBlock e q usStatus ulTimeout s"
  shows "wait_order s' e q = enqueue (by_prio s e) (tcb_prio s) t (wait_order s e q)" "order_ok s' e q"
proof -
  let ?w = "event_wq s e q"
  note p = PendBlock_ok[OF k t us, where e = e and q = q and ulTimeout = ulTimeout, folded s'_def]
  note w = kinv_wait[OF k]
  have pr: "tcb_prio s' = tcb_prio s" using p(16) by auto
  have tn: "t \<notin> waiters s e q" using runsD(5)[OF k t] by (simp add: waiters_def waits_on_def)
  have ring: "WQ_ring (event_wq s' e q) b = (if b = pend_ring s e t
       then (if by_prio s e then prio_ring_add (tcb_prio s) t (WQ_ring ?w b) else ring_add_ahead t (WQ_ring ?w b))
       else WQ_ring ?w b)" for b
    using p(12)[of e q b] by simp
  show "wait_order s' e q = enqueue (by_prio s e) (tcb_prio s) t (wait_order s e q)"
  proof (cases "by_prio s e")
    case True
    have okp: "prio_ok (tcb_prio s) ?w" using True o by (simp add: order_ok_def)
    have "WQ_ring (event_wq s' e q) = WQ_ring (prio_enq (tcb_prio s) t ?w)"
      using ring True by (auto simp: pend_ring_def)
    then have "prio_members (event_wq s' e q) = prio_members (prio_enq (tcb_prio s) t ?w)"
      by (simp add: prio_members_def)
    then show ?thesis using pq.enq_members[OF okp, of t] tn wait_order_waiters[OF w, of e q] True p(9)
      by (simp add: wait_order_def enqueue_def)
  next
    case False
    have "fifo_members (event_wq s' e q) = fifo_members (fifo_enq t ?w)"
      using ring False by (simp add: fifo_members_def pend_ring_def)
    then show ?thesis using fq.enq_members[OF fifo_ok_kernel[OF w, of e q], of t] False p(9)
      by (simp add: wait_order_def enqueue_def)
  qed
  show "order_ok s' e q" unfolding order_ok_def pr
  proof
    assume "by_prio s' e"
    then have b: "by_prio s e" using p(9) by simp
    have okp: "prio_ok (tcb_prio s) ?w" using b o by (simp add: order_ok_def)
    have "prio_ok (tcb_prio s) (prio_enq (tcb_prio s) t ?w)"
      using pq.enq_ok[OF okp] tn wait_order_waiters[OF w, of e q] b by (simp add: wait_order_def)
    moreover have "WQ_ring (event_wq s' e q) = WQ_ring (prio_enq (tcb_prio s) t ?w)"
      using ring b by (auto simp: pend_ring_def)
    ultimately show "prio_ok (tcb_prio s) (event_wq s' e q)" using prio_ok_cong by blast
  qed
qed

end
