(* ===== verification/Event_Api.thy ===== *)
theory Event_Api
  imports Wait_Order
begin

text \<open>
  The sequences with which the API routines of the event objects begin and end: the
  checks of the handle under the kernel lock, the creation and the release of an event
  block, the message-free \<open>Post\<close>, and the code that follows the scheduling point of a
  \<open>Pend\<close>.  A blocking call is two definitions: the part up to \<open>__KERNEL_EXIT\<close>, which
  answers \<open>Blocked\<close> with the locals that stay on the stack, and the part that the thread
  runs when it is resumed.
\<close>

section \<open>Handle checks\<close>

text \<open>Output arguments may be \<open>LW_NULL\<close>; then nothing is stored.\<close>

definition outp :: "bool \<Rightarrow> 'a \<Rightarrow> 'a option" where
  "outp given v = (if given then Some v else None)"

definition EventCheckId :: "UINT8 \<Rightarrow> ULONG \<Rightarrow> kernel \<Rightarrow> (ULONG \<times> kernel) + eid" where
  "EventCheckId ucClass ulId s =
    (if \<not> ObjectClassOK ulId ucClass then Inl (ERROR_KERNEL_HANDLE_NULL, ErrorHandle ERROR_KERNEL_HANDLE_NULL s)
     else if Event_Index_Invalid (ObjectGetIndex ulId)
       then Inl (ERROR_KERNEL_HANDLE_NULL, ErrorHandle ERROR_KERNEL_HANDLE_NULL s)
     else Inr (unat (ObjectGetIndex ulId)))"

text \<open>\<open>EventOpen\<close> continues with the event block and the state inside the kernel lock.\<close>

definition EventOpen :: "UINT8 \<Rightarrow> UINT8 \<Rightarrow> ULONG \<Rightarrow> kernel \<Rightarrow> (ULONG \<times> kernel) + (eid \<times> kernel)" where
  "EventOpen ucClass ucType ulId s = (case EventCheckId ucClass ulId s of
     Inl r \<Rightarrow> Inl r
   | Inr e \<Rightarrow> (let s1 = KERNEL_ENTER s in
       if Event_Type_Invalid s1 (ObjectGetIndex ulId) ucType
       then Inl (ERROR_EVENT_TYPE, ErrorHandle_of s ERROR_EVENT_TYPE (KERNEL_EXIT s1))
       else Inr (e, s1)))"

text \<open>\<open>TCB_ulId\<close>, the handle given to a thread when its TCB is initialised.\<close>

definition ThreadId :: "tid \<Rightarrow> ULONG" where
  "ThreadId t = MakeObjectId OBJECT_THREAD LW_CFG_PROCESSOR_NUMBER (of_nat t)"

section \<open>Creating and releasing an event block\<close>

definition WQ_INIT :: waitqueue where
  "WQ_INIT = \<lparr>WQ_ring = (\<lambda>_. []), WQ_usNum = 0\<rparr>"

definition EventAlloc :: "kernel \<Rightarrow> eid option \<times> kernel" where
  "EventAlloc s = (let (e, s1) = Allocate_Event_Object (KERNEL_ENTER s) in (e, KERNEL_EXIT s1))"

definition event_name :: "string option \<Rightarrow> string" where
  "event_name pcName = (case pcName of Some nm \<Rightarrow> nm | None \<Rightarrow> [])"

section \<open>Posting without waiter\<close>

definition PostFull :: "kernel \<Rightarrow> kernel \<Rightarrow> ULONG \<times> kernel" where
  "PostFull ctx s1 = (ERROR_EVENT_FULL, ErrorHandle_of ctx ERROR_EVENT_FULL (KERNEL_EXIT s1))"

section \<open>Resuming a blocked call\<close>

text \<open>A routine with code behind \<open>__KERNEL_EXIT\<close> answers \<open>ThenSafe e\<close> or \<open>ThenUnsafe e\<close>; the
  thread runs \<open>Safe_tail\<close> or \<open>Unsafe_tail\<close> when it next runs.\<close>

datatype pend_out =
    Done ULONG                                  \<comment> \<open>the routine returns this code\<close>
  | Blocked ULONG ULONG ULONG                   \<comment> \<open>\<open>ulTimeout\<close>, \<open>ulTimeSave\<close>, \<open>ulEventOption\<close>\<close>
  | ThenSafe eid

datatype post_out = Posted ULONG | ThenUnsafe eid

definition Safe_tail :: "eid \<Rightarrow> kernel \<Rightarrow> ULONG \<times> kernel" where
  "Safe_tail e s = (ERROR_NONE,
     if EVENT_ulOption (k_event s e) AND LW_OPTION_DELETE_SAFE \<noteq> 0 then ThreadSafeInternal s else s)"

definition Unsafe_tail :: "eid \<Rightarrow> kernel \<Rightarrow> ULONG \<times> kernel" where
  "Unsafe_tail e s = (ERROR_NONE,
     if EVENT_ulOption (k_event s e) AND LW_OPTION_DELETE_SAFE \<noteq> 0
     then ThreadUnsafeInternalEx (LW_TCB_GET_CUR s) s else s)"

datatype wake_out = WakeDone ULONG | WakeAgain ULONG

definition PendWake :: "ULONG \<Rightarrow> ULONG \<Rightarrow> ULONG \<Rightarrow> kernel \<Rightarrow> wake_out \<times> kernel" where
  "PendWake ulTimeout ulTimeSave ulEventOption s = (let t = LW_TCB_GET_CUR s; (iSchedRet, s1) = Schedule_ret s in
     if iSchedRet \<noteq> 0 then
       (if iSchedRet = LW_SIGNAL_EINTR \<and> ulEventOption AND LW_OPTION_SIGNAL_INTER \<noteq> 0
        then (WakeDone EINTR, ErrorHandle EINTR s1)
        else let ulTimeout = sigTimeoutRecalc s1 ulTimeSave ulTimeout in
          if ulTimeout = LW_OPTION_NOT_WAIT
          then (WakeDone ERROR_THREAD_WAIT_TIMEOUT, ErrorHandle ERROR_THREAD_WAIT_TIMEOUT s1)
          else (WakeAgain ulTimeout, s1))
     else if TCB_ucWaitTimeout (k_tcb s1 t) = LW_WAIT_TIME_OUT
       then (WakeDone ERROR_THREAD_WAIT_TIMEOUT, ErrorHandle ERROR_THREAD_WAIT_TIMEOUT s1)
     else if TCB_ucIsEventDelete (k_tcb s1 t) = LW_EVENT_EXIST then (WakeDone ERROR_NONE, s1)
     else (WakeDone ERROR_EVENT_WAS_DELETED, ErrorHandle ERROR_EVENT_WAS_DELETED s1))"

section \<open>What the API sequences keep\<close>

lemma KERNEL_EXIT_reads [simp]:
  "k_event (KERNEL_EXIT s) = k_event s" "k_delay (KERNEL_EXIT s) = k_delay s"
  "k_tcbIdTable (KERNEL_EXIT s) = k_tcbIdTable s" "k_ncpus (KERNEL_EXIT s) = k_ncpus s"
  "k_curcpu (KERNEL_EXIT s) = k_curcpu s" "k_freeEvents (KERNEL_EXIT s) = k_freeEvents s"
  "tcb_status (KERNEL_EXIT s) t = tcb_status s t" "tcb_prio (KERNEL_EXIT s) t = tcb_prio s t"
  "TCB_peventPtr (k_tcb (KERNEL_EXIT s) t) = TCB_peventPtr (k_tcb s t)"
  "TCB_ucIsEventDelete (k_tcb (KERNEL_EXIT s) t) = TCB_ucIsEventDelete (k_tcb s t)"
  "TCB_ucWaitTimeout (k_tcb (KERNEL_EXIT s) t) = TCB_ucWaitTimeout (k_tcb s t)"
  "TCB_pvMsgBoxMessage (k_tcb (KERNEL_EXIT s) t) = TCB_pvMsgBoxMessage (k_tcb s t)"
  "ready_set (KERNEL_EXIT s) = ready_set s"
  by (simp_all add: run_frame_kernelD[OF run_frame_kernel(2)] run_frame_tcbD[OF run_frame_kernel(2)]
      ready_set_frame[OF run_frame_kernel(2)])

lemma waits_on_cong: "k_tcb s' = k_tcb s \<Longrightarrow> waits_on s' e q t = waits_on s e q t"
  by (simp add: waits_on_def)

lemma waiters_reads [simp]:
  "waiters (KERNEL_EXIT s) e q = waiters s e q" "waiters (KERNEL_ENTER s) e q = waiters s e q"
  "waiters (event_upd e' f s) e q = waiters s e q"
  by (simp_all add: waiters_def waits_on_frame[OF run_frame_kernel(1)] waits_on_frame[OF run_frame_kernel(2)]
      waits_on_cong[of "event_upd e' f s" s])

lemma wait_order_reads [simp]:
  "wait_order (KERNEL_EXIT s) e q = wait_order s e q" "wait_order (KERNEL_ENTER s) e q = wait_order s e q"
  "order_ok (KERNEL_EXIT s) e q = order_ok s e q" "order_ok (KERNEL_ENTER s) e q = order_ok s e q"
  "EventWaitNum (KERNEL_EXIT s) q e = EventWaitNum s q e" "EventWaitNum (KERNEL_ENTER s) q e = EventWaitNum s q e"
  by (simp_all add: wait_order_def order_ok_def EventWaitNum_def)

text \<open>An update of an event block that leaves its queues and its option alone.\<close>

definition keeps_queue :: "(event \<Rightarrow> event) \<Rightarrow> event \<Rightarrow> bool" where
  "keeps_queue f ev \<longleftrightarrow> EVENT_wqWaitQ (f ev) = EVENT_wqWaitQ ev \<and> EVENT_ulOption (f ev) = EVENT_ulOption ev"

lemma event_upd_reads:
  assumes "keeps_queue f (k_event s e')"
  shows "event_wq (event_upd e' f s) e q = event_wq s e q"
    "EVENT_ulOption (k_event (event_upd e' f s) e) = EVENT_ulOption (k_event s e)"
    "wait_order (event_upd e' f s) e q = wait_order s e q" "order_ok (event_upd e' f s) e q = order_ok s e q"
    "EventWaitNum (event_upd e' f s) q e = EventWaitNum s q e"
  using assms by (auto simp: keeps_queue_def wait_order_def order_ok_def EventWaitNum_def)

lemma kinv_event_upd:
  assumes "keeps_queue f (k_event s e)"
  shows "kinv (event_upd e f s) \<longleftrightarrow> kinv s"
proof -
  have b: "waits_on (event_upd e f s) e' q t = waits_on s e' q t" "wait_bucket (event_upd e f s) t = wait_bucket s t" for e' q t
    using event_upd_reads(2)[OF assms] by (simp_all add: waits_on_def wait_bucket_def)
  have "wait_inv (event_upd e f s) \<longleftrightarrow> wait_inv s"
    by (simp add: wait_inv_def wait_invx_def b event_upd_reads(1)[OF assms] del: event_upd_simps(1))
  then show ?thesis by (simp add: kinv_def delay_inv_def ready_set_def)
qed

lemma keeps_queue_fields [simp]:
  "keeps_queue (\<lambda>ev. ev\<lparr>EVENT_ulCounter := a ev\<rparr>) ev" "keeps_queue (\<lambda>ev. ev\<lparr>EVENT_ucType := b ev\<rparr>) ev"
  "keeps_queue (\<lambda>ev. ev\<lparr>EVENT_pvTcbOwn := c ev\<rparr>) ev" "keeps_queue (\<lambda>ev. ev\<lparr>EVENT_pvPtr := d ev\<rparr>) ev"
  "keeps_queue (\<lambda>ev. ev\<lparr>EVENT_ulCounter := a ev, EVENT_pvPtr := d ev\<rparr>) ev"
  "keeps_queue (\<lambda>ev. ev\<lparr>EVENT_ulCounter := a ev, EVENT_ulMaxCounter := f ev, EVENT_pvTcbOwn := c ev\<rparr>) ev"
  "keeps_queue (\<lambda>ev. ev\<lparr>EVENT_ulMaxCounter := f ev, EVENT_pvTcbOwn := c ev\<rparr>) ev"
  "keeps_queue (\<lambda>ev. ev\<lparr>EVENT_ulCounter := a ev, EVENT_iStatus := i ev, EVENT_pvTcbOwn := c ev\<rparr>) ev"
  "keeps_queue (\<lambda>ev. ev\<lparr>EVENT_ulCounter := a ev, EVENT_pvTcbOwn := c ev, EVENT_iStatus := i ev\<rparr>) ev"
  "keeps_queue (\<lambda>ev. ev\<lparr>EVENT_pvTcbOwn := c ev, EVENT_iStatus := i ev\<rparr>) ev"
  by (simp_all add: keeps_queue_def)

lemma kinv_tcb_fields:
  assumes "tcb_place (f (k_tcb s t)) = tcb_place (k_tcb s t)"
    and "TCB_peventPtr (f (k_tcb s t)) = TCB_peventPtr (k_tcb s t)"
      "TCB_iPendQ (f (k_tcb s t)) = TCB_iPendQ (k_tcb s t)"
      "TCB_ppringPriorityQueue (f (k_tcb s t)) = TCB_ppringPriorityQueue (k_tcb s t)"
      "TCB_usStatus (f (k_tcb s t)) = tcb_status s t"
      "TCB_ucWaitTimeout (f (k_tcb s t)) = TCB_ucWaitTimeout (k_tcb s t)"
    and k: "kinv s"
  shows "kinv (tcb_upd t f s)"
proof -
  have w: "wait_inv (tcb_upd t f s)"
    by (rule wait_inv_tcb_same[OF kinv_wait[OF k]]) (use assms wait_invxD(4)[OF kinv_wait[OF k, unfolded wait_inv_def], of t] in \<open>auto simp: waits_on_def\<close>)
  have r: "ready_set (tcb_upd t f s) = ready_set s" using assms(5) by (auto simp: ready_set_def LW_THREAD_IS_READY_def)
  have d: "delay_inv (tcb_upd t f s)" using kinv_delay[OF k] assms(5) by (simp add: delay_inv_tcb)
  show ?thesis using k w d assms(2,5) unfolding kinv_def r by (simp add: sched_inv_tcb_upd[where f = f and t = t and s = s, OF assms(1)])
qed

lemma kinv_cpu_upd:
  assumes "\<And>p. CAND_ptcbCand (f p) = CAND_ptcbCand p" "\<And>p. CPU_pcbbmapReady (f p) = CPU_pcbbmapReady p"
  shows "kinv (cpu_upd c f s) \<longleftrightarrow> kinv s"
proof -
  have "wait_inv (cpu_upd c f s) = wait_inv s"
    by (simp add: wait_inv_def wait_invx_def waits_on_def wait_bucket_def)
  then show ?thesis by (simp add: kinv_def sched_inv_cpu_upd[OF assms] delay_inv_def ready_set_def)
qed

lemma sched_inv_NotRun [simp]: "sched_inv R (s\<lparr>k_ulNotRunError := v\<rparr>) \<longleftrightarrow> sched_inv R s"
proof (rule sched_inv_place_cong)
  have m: "rdy_map (s\<lparr>k_ulNotRunError := v\<rparr>) tab = rdy_map s tab" for tab by (cases tab) auto
  show "rdy_ring (s\<lparr>k_ulNotRunError := v\<rparr>) pp = rdy_ring s pp" for pp by (simp add: rdy_ring_def m)
  show "rdy_bm (s\<lparr>k_ulNotRunError := v\<rparr>) tab = rdy_bm s tab" for tab by (simp add: rdy_bm_def m)
qed (simp_all add: LW_CAND_TCB_def)

lemma kinv_NotRun [simp]: "kinv (s\<lparr>k_ulNotRunError := v\<rparr>) \<longleftrightarrow> kinv s"
proof -
  have "wait_inv (s\<lparr>k_ulNotRunError := v\<rparr>) = wait_inv s"
    by (simp add: wait_inv_def wait_invx_def waits_on_def wait_bucket_def)
  then show ?thesis by (simp add: kinv_def delay_inv_def ready_set_def)
qed

lemma kinv_ErrorHandle:
  assumes "kinv s" shows "kinv (ErrorHandle_of ctx c s)" "kinv (ErrorHandle c s)"
proof -
  show "kinv (ErrorHandle_of ctx c s)" for ctx
    using assms by (auto simp: ErrorHandle_of_def kinv_cpu_upd tcb_place_def split: option.splits intro!: kinv_tcb_fields)
  then show "kinv (ErrorHandle c s)" by (simp add: ErrorHandle_def)
qed

lemma ErrorHandle_reads [simp]:
  "k_event (ErrorHandle_of ctx c s) = k_event s" "k_event (ErrorHandle c s) = k_event s"
  "k_delay (ErrorHandle_of ctx c s) = k_delay s" "k_halt (ErrorHandle_of ctx c s) = k_halt s"
  "k_tcbIdTable (ErrorHandle_of ctx c s) = k_tcbIdTable s"
  "tcb_prio (ErrorHandle_of ctx c s) t = tcb_prio s t" "tcb_status (ErrorHandle_of ctx c s) t = tcb_status s t"
  "wait_order (ErrorHandle_of ctx c s) e q = wait_order s e q"
  "order_ok (ErrorHandle_of ctx c s) e q = order_ok s e q"
proof -
  show ev: "k_event (ErrorHandle_of ctx c s) = k_event s" "k_event (ErrorHandle c s) = k_event s"
    "k_delay (ErrorHandle_of ctx c s) = k_delay s" "k_halt (ErrorHandle_of ctx c s) = k_halt s"
    "k_tcbIdTable (ErrorHandle_of ctx c s) = k_tcbIdTable s"
    by (auto simp: ErrorHandle_of_def ErrorHandle_def split: option.splits)
  show pr: "tcb_prio (ErrorHandle_of ctx c s) t = tcb_prio s t" "tcb_status (ErrorHandle_of ctx c s) t = tcb_status s t" for t
    by (auto simp: ErrorHandle_of_def split: option.splits)
  show "wait_order (ErrorHandle_of ctx c s) e q = wait_order s e q" by (simp add: wait_order_def ev)
  show "order_ok (ErrorHandle_of ctx c s) e q = order_ok s e q" by (simp add: order_ok_def ev pr)
qed

lemma ErrorHandle_reads2 [simp]:
  "k_ncpus (ErrorHandle_of ctx c s) = k_ncpus s" "k_curcpu (ErrorHandle_of ctx c s) = k_curcpu s"
  "k_sysRunning (ErrorHandle_of ctx c s) = k_sysRunning s" "k_i64KernelTime (ErrorHandle_of ctx c s) = k_i64KernelTime s"
  "TCB_pvMsgBoxMessage (k_tcb (ErrorHandle_of ctx c s) t) = TCB_pvMsgBoxMessage (k_tcb s t)"
  "TCB_ucWaitTimeout (k_tcb (ErrorHandle_of ctx c s) t) = TCB_ucWaitTimeout (k_tcb s t)"
  "TCB_ucIsEventDelete (k_tcb (ErrorHandle_of ctx c s) t) = TCB_ucIsEventDelete (k_tcb s t)"
  "TCB_peventPtr (k_tcb (ErrorHandle_of ctx c s) t) = TCB_peventPtr (k_tcb s t)"
  "ready_set (ErrorHandle_of ctx c s) = ready_set s" "waiters (ErrorHandle_of ctx c s) e q = waiters s e q"
  "EventWaitNum (ErrorHandle_of ctx c s) q e = EventWaitNum s q e"
  by (auto simp: ErrorHandle_of_def ready_set_def LW_THREAD_IS_READY_def waiters_def waits_on_def EventWaitNum_def
      split: option.splits)

section \<open>Opening an event\<close>

text \<open>\<open>handle c ty s ulId e\<close>: the handle names the event block \<open>e\<close>, whose type is \<open>ty\<close>.\<close>

definition handle :: "UINT8 \<Rightarrow> UINT8 \<Rightarrow> kernel \<Rightarrow> ULONG \<Rightarrow> eid \<Rightarrow> bool" where
  "handle ucClass ucType s ulId e \<longleftrightarrow> ObjectClassOK ulId ucClass \<and> \<not> Event_Index_Invalid (ObjectGetIndex ulId)
     \<and> e = unat (ObjectGetIndex ulId) \<and> EVENT_ucType (k_event s e) = ucType"

lemma EventOpen_handle:
  assumes "handle c ty s ulId e" shows "EventOpen c ty ulId s = Inr (e, KERNEL_ENTER s)"
  using assms by (auto simp: EventOpen_def EventCheckId_def handle_def Event_Type_Invalid_def Let_def)

lemma EventCheckId_handle: "handle c ty s ulId e \<Longrightarrow> EventCheckId c ulId s = Inr e"
  by (simp add: EventCheckId_def handle_def)

lemma EventOpen_cases:
  obtains (opened) e where "handle c ty s ulId e" "EventOpen c ty ulId s = Inr (e, KERNEL_ENTER s)"
  | (bad) r s1 where "EventOpen c ty ulId s = Inl (r, s1)" "r = ERROR_KERNEL_HANDLE_NULL \<or> r = ERROR_EVENT_TYPE"
      "\<forall>e. \<not> handle c ty s ulId e" "kinv s \<longrightarrow> kinv s1" "k_event s1 = k_event s"
proof (cases "\<exists>e. handle c ty s ulId e")
  case True
  then show ?thesis using EventOpen_handle opened by blast
next
  case False
  then show ?thesis
    by (intro bad[of "fst (projl (EventOpen c ty ulId s))" "snd (projl (EventOpen c ty ulId s))"])
      (auto simp: EventOpen_def EventCheckId_def handle_def Event_Type_Invalid_def Let_def kinv_ErrorHandle KERNEL_EXIT_kinv)
qed

lemma EventCheckId_cases:
  obtains (ok) e where "EventCheckId c ulId s = Inr e"
  | (bad) s1 where "EventCheckId c ulId s = Inl (ERROR_KERNEL_HANDLE_NULL, s1)" "kinv s \<longrightarrow> kinv s1"
proof (cases "ObjectClassOK ulId c \<and> \<not> Event_Index_Invalid (ObjectGetIndex ulId)")
  case True
  then show ?thesis using ok by (simp add: EventCheckId_def)
next
  case False
  then show ?thesis using bad[of "ErrorHandle ERROR_KERNEL_HANDLE_NULL s"] kinv_ErrorHandle
    by (auto simp: EventCheckId_def)
qed

lemma handle_enter [simp]: "handle c ty (KERNEL_ENTER s) ulId e \<longleftrightarrow> handle c ty s ulId e"
  by (simp add: handle_def)

section \<open>Changing a priority\<close>

lemma kernel_core_prio:
  "kernel_core (tcb_upd t (\<lambda>x. x\<lparr>TCB_ucPriority := p\<rparr>) s) = tcb_upd t (\<lambda>x. x\<lparr>TCB_ucPriority := p\<rparr>) (kernel_core s)"
  by (auto simp: kernel_core_def tcb_upd_def fun_eq_iff tcb_core_def)

text \<open>The change of the field and a run of the scheduler's structures.\<close>

lemma SchedSetPrio_run:
  "run_frame (tcb_upd t (\<lambda>x. x\<lparr>TCB_ucPriority := p\<rparr>) s) (SchedSetPrio t p s)"
proof -
  define s1 where "s1 = tcb_upd t (\<lambda>x. x\<lparr>TCB_ucPriority := p\<rparr>) s"
  let ?d = "DEL_FROM_READY_RING t (GetPcb s t) s"
  let ?u = "tcb_upd t (\<lambda>x. x\<lparr>TCB_ucPriority := p\<rparr>) ?d"
  have fd: "sched_frame s ?d" by simp
  have fa: "sched_frame ?u (ADD_TO_READY_RING t (GetPcbEx s t p) ?u)" by simp
  have cu: "kernel_core ?u = kernel_core s1"
    using fd unfolding sched_frame_def s1_def kernel_core_prio by simp
  consider "SchedSetPrio t p s = ADD_TO_READY_RING t (GetPcbEx s t p) ?u"
    | "SchedSetPrio t p s = tcb_upd t (\<lambda>x. x\<lparr>TCB_ucPriority := p\<rparr>) (set_rot (TCB_ulCPUId (k_tcb s t)) True s)"
    | "SchedSetPrio t p s = s1"
    unfolding SchedSetPrio_def Let_def s1_def by presburger
  then have "kernel_core (SchedSetPrio t p s) = kernel_core s1"
  proof cases
    case 1
    then show ?thesis using fa cu unfolding sched_frame_def by metis
  next
    case 2
    then show ?thesis by (simp add: kernel_core_prio s1_def)
  qed simp
  then show ?thesis unfolding run_frame_def s1_def by (rule kernel_base_core)
qed

lemma SchedSetPrio_cur: "CPU_ptcbTCBCur (k_cpu (SchedSetPrio t p s) c) = CPU_ptcbTCBCur (k_cpu s c)"
proof -
  let ?u = "tcb_upd t (\<lambda>x. x\<lparr>TCB_ucPriority := p\<rparr>) (DEL_FROM_READY_RING t (GetPcb s t) s)"
  have fd: "sched_frame s (DEL_FROM_READY_RING t (GetPcb s t) s)"
    and fa: "sched_frame ?u (ADD_TO_READY_RING t (GetPcbEx s t p) ?u)"
    by simp_all
  show ?thesis
    using sched_frame_cpuD(1)[OF fd, of c] sched_frame_cpuD(1)[OF fa, of c]
    by (simp add: SchedSetPrio_def Let_def set_rot_def)
qed

lemma SchedSetPrio_reads:
  "k_event (SchedSetPrio t p s) = k_event s" "k_delay (SchedSetPrio t p s) = k_delay s"
  "k_tcbIdTable (SchedSetPrio t p s) = k_tcbIdTable s" "k_ncpus (SchedSetPrio t p s) = k_ncpus s"
  "k_curcpu (SchedSetPrio t p s) = k_curcpu s" "k_freeEvents (SchedSetPrio t p s) = k_freeEvents s"
  "k_i64KernelTime (SchedSetPrio t p s) = k_i64KernelTime s"
  "tcb_core (k_tcb (SchedSetPrio t p s) u) =
     (if u = t then (tcb_core (k_tcb s t))\<lparr>TCB_ucPriority := p\<rparr> else tcb_core (k_tcb s u))"
  "LW_TCB_GET_CUR (SchedSetPrio t p s) = LW_TCB_GET_CUR s" "ready_set (SchedSetPrio t p s) = ready_set s"
proof -
  note fr = SchedSetPrio_run[of t p s]
  show e: "k_event (SchedSetPrio t p s) = k_event s" "k_delay (SchedSetPrio t p s) = k_delay s"
    "k_tcbIdTable (SchedSetPrio t p s) = k_tcbIdTable s" "k_ncpus (SchedSetPrio t p s) = k_ncpus s"
    "k_curcpu (SchedSetPrio t p s) = k_curcpu s" "k_freeEvents (SchedSetPrio t p s) = k_freeEvents s"
    "k_i64KernelTime (SchedSetPrio t p s) = k_i64KernelTime s"
    using run_frame_kernelD[OF fr] by simp_all
  show "tcb_core (k_tcb (SchedSetPrio t p s) u) =
     (if u = t then (tcb_core (k_tcb s t))\<lparr>TCB_ucPriority := p\<rparr> else tcb_core (k_tcb s u))"
    using run_frame_tcb[OF fr, of u] by (simp add: tcb_core_def)
  show "LW_TCB_GET_CUR (SchedSetPrio t p s) = LW_TCB_GET_CUR s"
    by (simp add: LW_TCB_GET_CUR_def SchedSetPrio_cur e)
  have "ready_set (tcb_upd t (\<lambda>x. x\<lparr>TCB_ucPriority := p\<rparr>) s) = ready_set s"
    by (auto simp: ready_set_def LW_THREAD_IS_READY_def)
  then show "ready_set (SchedSetPrio t p s) = ready_set s" using ready_set_frame[OF fr] by simp
qed

lemma SchedSetPrio_tcb:
  "tcb_prio (SchedSetPrio t p s) u = (if u = t then p else tcb_prio s u)"
  "tcb_status (SchedSetPrio t p s) u = tcb_status s u"
  "TCB_peventPtr (k_tcb (SchedSetPrio t p s) u) = TCB_peventPtr (k_tcb s u)"
  "TCB_iPendQ (k_tcb (SchedSetPrio t p s) u) = TCB_iPendQ (k_tcb s u)"
  "TCB_ppringPriorityQueue (k_tcb (SchedSetPrio t p s) u) = TCB_ppringPriorityQueue (k_tcb s u)"
  "TCB_ucWaitTimeout (k_tcb (SchedSetPrio t p s) u) = TCB_ucWaitTimeout (k_tcb s u)"
  "TCB_ucIsEventDelete (k_tcb (SchedSetPrio t p s) u) = TCB_ucIsEventDelete (k_tcb s u)"
  "TCB_pvMsgBoxMessage (k_tcb (SchedSetPrio t p s) u) = TCB_pvMsgBoxMessage (k_tcb s u)"
  "waits_on (SchedSetPrio t p s) e q u = waits_on s e q u" "wait_bucket (SchedSetPrio t p s) u = wait_bucket s u"
  "waiters (SchedSetPrio t p s) e q = waiters s e q"
proof -
  note D = run_frame_tcbD[OF SchedSetPrio_run[of t p s]]
  show f: "tcb_prio (SchedSetPrio t p s) u = (if u = t then p else tcb_prio s u)"
    "tcb_status (SchedSetPrio t p s) u = tcb_status s u"
    "TCB_peventPtr (k_tcb (SchedSetPrio t p s) u) = TCB_peventPtr (k_tcb s u)"
    "TCB_iPendQ (k_tcb (SchedSetPrio t p s) u) = TCB_iPendQ (k_tcb s u)"
    "TCB_ppringPriorityQueue (k_tcb (SchedSetPrio t p s) u) = TCB_ppringPriorityQueue (k_tcb s u)"
    "TCB_ucWaitTimeout (k_tcb (SchedSetPrio t p s) u) = TCB_ucWaitTimeout (k_tcb s u)"
    "TCB_ucIsEventDelete (k_tcb (SchedSetPrio t p s) u) = TCB_ucIsEventDelete (k_tcb s u)"
    "TCB_pvMsgBoxMessage (k_tcb (SchedSetPrio t p s) u) = TCB_pvMsgBoxMessage (k_tcb s u)" for u
    using D by simp_all
  show "waits_on (SchedSetPrio t p s) e q u = waits_on s e q u" "wait_bucket (SchedSetPrio t p s) u = wait_bucket s u" for u
    by (simp_all add: waits_on_def wait_bucket_def f SchedSetPrio_reads(1))
  then show "waiters (SchedSetPrio t p s) e q = waiters s e q" by (simp add: waiters_def)
qed

lemma SchedSetPrio_sched:
  assumes k: "sched_inv (ready_set s) s" and t: "k_ncpus s \<le> t" and id: "k_tcbIdTable s t"
  shows "sched_inv (ready_set (SchedSetPrio t p s)) (SchedSetPrio t p s)" "k_halt (SchedSetPrio t p s) = k_halt s"
proof -
  have "t \<in> ready_set s \<longleftrightarrow> LW_THREAD_IS_READY (k_tcb s t)" using id by (simp add: ready_set_def)
  from SchedSetPrio_inv[OF k this t, of p] show "sched_inv (ready_set (SchedSetPrio t p s)) (SchedSetPrio t p s)"
    "k_halt (SchedSetPrio t p s) = k_halt s" by (simp_all add: SchedSetPrio_reads)
qed

lemma SchedSetPrio_wait:
  "wait_invx X (SchedSetPrio t p s) \<longleftrightarrow> wait_invx X s" "delay_inv (SchedSetPrio t p s) \<longleftrightarrow> delay_inv s"
  by (simp_all add: wait_invx_def delay_inv_def SchedSetPrio_reads SchedSetPrio_tcb)

lemma SchedSetPrio_kinv:
  assumes k: "kinv s" and t: "k_ncpus s \<le> t" and id: "k_tcbIdTable s t"
  shows "kinv (SchedSetPrio t p s)" "k_halt (SchedSetPrio t p s) = k_halt s"
  using k SchedSetPrio_sched[OF kinv_sched[OF k] t id, of p]
  by (simp_all add: kinv_def wait_inv_def SchedSetPrio_wait SchedSetPrio_reads SchedSetPrio_tcb)

lemma SchedSetPrio_half:
  assumes k: "kinv_half u s" and t: "k_ncpus s \<le> t" and id: "k_tcbIdTable s t"
  shows "kinv_half u (SchedSetPrio t p s)" "k_halt (SchedSetPrio t p s) = k_halt s"
  using k SchedSetPrio_sched[of s t p] t id
  by (simp_all add: kinv_half_def SchedSetPrio_wait SchedSetPrio_reads SchedSetPrio_tcb)

text \<open>The order of a queue in which the thread does not wait is untouched.\<close>

lemma SchedSetPrio_order:
  assumes k: "kinv s" and t: "t \<notin> waiters s e q"
  shows "order_ok (SchedSetPrio t p s) e q \<longleftrightarrow> order_ok s e q" "wait_order (SchedSetPrio t p s) e q = wait_order s e q"
proof -
  note i = wait_invxD(2)[OF kinv_wait[OF k, unfolded wait_inv_def]]
  have "t \<notin> set (WQ_ring (event_wq s e q) b)" for b using i[of t e q b] t by (auto simp: waiters_def)
  then have pr: "\<forall>u\<in>set (WQ_ring (event_wq s e q) b). tcb_prio (SchedSetPrio t p s) u = tcb_prio s u" for b
    by (metis SchedSetPrio_tcb(1))
  have "map (tcb_prio (SchedSetPrio t p s)) (WQ_ring (event_wq s e q) b) = map (tcb_prio s) (WQ_ring (event_wq s e q) b)" for b
    using pr by simp
  then have "sorted (map (tcb_prio (SchedSetPrio t p s)) (WQ_ring (event_wq s e q) b)) =
      sorted (map (tcb_prio s) (WQ_ring (event_wq s e q) b))" for b by (simp only:)
  with pr show "order_ok (SchedSetPrio t p s) e q \<longleftrightarrow> order_ok s e q" "wait_order (SchedSetPrio t p s) e q = wait_order s e q"
    by (simp_all add: order_ok_def prio_ok_def wait_order_def SchedSetPrio_reads)
qed

lemma waiter_live:
  assumes k: "kinv s" and t: "t \<in> waiters s e q"
  shows "k_ncpus s \<le> t" "k_tcbIdTable s t" "tcb_status s t AND LW_THREAD_STATUS_PEND_ANY \<noteq> 0" "t \<notin> ready_set s"
proof -
  show st: "tcb_status s t AND LW_THREAD_STATUS_PEND_ANY \<noteq> 0"
    using wait_invxD(4)[OF kinv_wait[OF k, unfolded wait_inv_def], of t e q] t by (simp add: waiters_def)
  then show nr: "t \<notin> ready_set s" by (auto simp: ready_set_def LW_THREAD_IS_READY_def)
  show "k_tcbIdTable s t" using k t by (auto simp: kinv_def waiters_def waits_on_def)
  have "ids_ok (ready_set s) s" using kinv_sched[OF k] by (simp add: sched_inv_def sched_invx_def)
  then show "k_ncpus s \<le> t" using nr by (auto simp: ids_ok_def not_less[symmetric])
qed

section \<open>Handing over\<close>

text \<open>Between the removal of a waiter and its release a post may change priorities and
  the fields of the event block.\<close>

definition tcb_wait :: "tcb \<Rightarrow> tcb" where
  "tcb_wait x = (tcb_core x)\<lparr>TCB_ucPriority := 0\<rparr>"

definition handing :: "tid \<Rightarrow> kernel \<Rightarrow> kernel \<Rightarrow> bool" where
  "handing t s1 s2 \<longleftrightarrow> kinv_half t s2 \<and> ready_set s2 = ready_set s1 \<and> k_halt s2 = k_halt s1 \<and>
     (\<forall>u. tcb_wait (k_tcb s2 u) = tcb_wait (k_tcb s1 u)) \<and>
     (\<forall>e. EVENT_wqWaitQ (k_event s2 e) = EVENT_wqWaitQ (k_event s1 e)
        \<and> EVENT_ulOption (k_event s2 e) = EVENT_ulOption (k_event s1 e)) \<and>
     k_tcbIdTable s2 = k_tcbIdTable s1 \<and> k_ncpus s2 = k_ncpus s1 \<and> k_freeEvents s2 = k_freeEvents s1 \<and>
     k_delay s2 = k_delay s1"

lemma tcb_wait_eqD:
  assumes "tcb_wait a = tcb_wait b"
  shows "TCB_usStatus a = TCB_usStatus b" "TCB_peventPtr a = TCB_peventPtr b" "TCB_iPendQ a = TCB_iPendQ b"
    "TCB_ucWaitTimeout a = TCB_ucWaitTimeout b" "TCB_ucIsEventDelete a = TCB_ucIsEventDelete b"
    "TCB_pvMsgBoxMessage a = TCB_pvMsgBoxMessage b" "TCB_ppringPriorityQueue a = TCB_ppringPriorityQueue b"
  using assms by (cases a, cases b, simp add: tcb_wait_def tcb_core_def)+

lemma handing_refl: "kinv_half t s \<Longrightarrow> handing t s s"
  by (simp add: handing_def)

lemma handing_trans: "\<lbrakk>handing t a b; handing t b c\<rbrakk> \<Longrightarrow> handing t a c"
  by (simp add: handing_def)

lemma kinv_half_event_upd:
  assumes "keeps_queue f (k_event s e)"
  shows "kinv_half t (event_upd e f s) \<longleftrightarrow> kinv_half t s"
  using event_upd_reads(1,2)[OF assms]
  by (simp add: kinv_half_def wait_invx_def delay_inv_def waits_on_def wait_bucket_def ready_set_def)

lemma handing_event_upd:
  assumes "kinv_half t s" "keeps_queue f (k_event s e)" shows "handing t s (event_upd e f s)"
  using assms event_upd_reads(1,2)[OF assms(2)] kinv_half_event_upd[OF assms(2)]
  by (auto simp: handing_def ready_set_def keeps_queue_def event_upd_def)

lemma handing_prio:
  assumes "kinv_half t s" "k_ncpus s \<le> u" "k_tcbIdTable s u" shows "handing t s (SchedSetPrio u p s)"
  using SchedSetPrio_half[OF assms, of p] by (auto simp: handing_def SchedSetPrio_reads tcb_wait_def)

lemma EventReadyHighLevel_prio [simp]: "tcb_prio (EventReadyHighLevel t ty s) u = tcb_prio s u"
proof -
  have "tcb_prio (ADD_TO_READY_RING v p a) w = tcb_prio a w" for v p a w
    by (rule sched_frame_tcbD(3)) simp
  then show ?thesis by (simp add: EventReadyHighLevel_def Let_def)
qed

lemma tcb_wait_core: "tcb_core a = tcb_core b \<Longrightarrow> tcb_wait a = tcb_wait b"
  by (simp add: tcb_wait_def)

lemma Handoff_ok:
  fixes m :: ULONG and ty :: UINT16 and t :: tid
  assumes k: "kinv s" and ne: "EventWaitNum s q e \<noteq> 0"
    and h: "handing (next_waiter s e q) (snd (ReadyLowLevel e q m s)) s2"
  defines "t \<equiv> next_waiter s e q" and "s' \<equiv> EventReadyHighLevel t ty s2"
  shows "kinv s'" "k_halt s' = k_halt s" "tcb_status s' t = woken_status ty (tcb_status s t)"
    "ready_set s' = (if woken_status ty (tcb_status s t) = 0 then insert t (ready_set s) else ready_set s)"
    "TCB_peventPtr (k_tcb s' t) = None" "TCB_pvMsgBoxMessage (k_tcb s' t) = m"
    "TCB_ucIsEventDelete (k_tcb s' t) = TCB_ucIsEventDelete (k_tcb s t)"
    "TCB_ucWaitTimeout (k_tcb s' t) = LW_WAIT_TIME_CLEAR"
    "\<And>u. u \<noteq> t \<Longrightarrow> tcb_wait (k_tcb s' u) = tcb_wait (k_tcb s u)"
    "\<And>e' q'. waiters s' e' q' = waiters s e' q' - {t}"
    "k_event s' = k_event s2" "\<And>u. tcb_prio s' u = tcb_prio s2 u"
    "\<And>e' q' b'. WQ_ring (event_wq s' e' q') b' = (if e' = e \<and> q' = q \<and> b' = wake_ring s e q
       then remove1 t (WQ_ring (event_wq s e q) b') else WQ_ring (event_wq s e' q') b')"
    "\<And>e'. EVENT_ulOption (k_event s' e') = EVENT_ulOption (k_event s e')"
    "dues (k_delay s') = filter (\<lambda>(n, d). n \<noteq> t) (dues (k_delay s))"
    "k_tcbIdTable s' = k_tcbIdTable s" "k_ncpus s' = k_ncpus s" "k_freeEvents s' = k_freeEvents s"
proof -
  note lo = ReadyLowLevel_half[OF k ne, where m = m, folded t_def]
  define s1 where "s1 = snd (ReadyLowLevel e q m s)"
  note lo' = lo[folded s1_def]
  note h' = h[folded t_def s1_def, unfolded handing_def]
  have half: "kinv_half t s2" using h' by simp
  note hi = EventReadyHighLevel_ok[OF half, where ty = ty, folded s'_def]
  have st1: "k_tcb s1 = (k_tcb s)(t := (k_tcb s t)\<lparr>TCB_usStatus := tcb_status s t AND NOT LW_THREAD_STATUS_DELAY,
     TCB_pvMsgBoxMessage := m\<rparr>)" by (simp add: lo'(7) ReadyLowLevel_tail_tcb)
  have w: "tcb_wait (k_tcb s2 u) = tcb_wait (k_tcb s1 u)" for u using h' by simp
  note wt = tcb_wait_eqD[OF w]
  have free: "k_freeEvents s1 = k_freeEvents s" by (simp add: lo'(7))
  show "kinv s'" "k_halt s' = k_halt s" "TCB_peventPtr (k_tcb s' t) = None"
    "tcb_status s' t = woken_status ty (tcb_status s t)"
    "ready_set s' = (if woken_status ty (tcb_status s t) = 0 then insert t (ready_set s) else ready_set s)"
    "TCB_pvMsgBoxMessage (k_tcb s' t) = m"
    "TCB_ucIsEventDelete (k_tcb s' t) = TCB_ucIsEventDelete (k_tcb s t)"
    "TCB_ucWaitTimeout (k_tcb s' t) = LW_WAIT_TIME_CLEAR"
    "k_tcbIdTable s' = k_tcbIdTable s" "k_ncpus s' = k_ncpus s" "k_freeEvents s' = k_freeEvents s"
    using hi lo'(2-6) h' wt[of t] free by (simp_all add: st1 woken_status_def)
  show oth: "tcb_wait (k_tcb s' u) = tcb_wait (k_tcb s u)" if "u \<noteq> t" for u
    using tcb_wait_core[OF hi(6)[OF that]] w[of u] that by (simp add: st1)
  have "waits_on s' e' q' u \<longleftrightarrow> waits_on s e' q' u \<and> u \<noteq> t" for e' q' u
    using tcb_wait_eqD(2,3)[OF oth, of u] hi(5) by (cases "u = t") (auto simp: waits_on_def)
  then show "waiters s' e' q' = waiters s e' q' - {t}" for e' q' by (auto simp: waiters_def)
  show ev: "k_event s' = k_event s2" by (rule hi(7))
  show "tcb_prio s' u = tcb_prio s2 u" for u by (simp add: s'_def)
  show "WQ_ring (event_wq s' e' q') b' = (if e' = e \<and> q' = q \<and> b' = wake_ring s e q
       then remove1 t (WQ_ring (event_wq s e q) b') else WQ_ring (event_wq s e' q') b')" for e' q' b'
    using h' by (simp add: ev lo'(7))
  show "EVENT_ulOption (k_event s' e') = EVENT_ulOption (k_event s e')" for e'
    using h' by (simp add: ev lo'(7))
  show "dues (k_delay s') = filter (\<lambda>(n, d). n \<noteq> t) (dues (k_delay s))"
    using hi(8) h' lo'(7) kinv_delay[OF k] by (simp add: delay_tail)
qed

text \<open>What it does to the order of the queue, when the priorities of the others stay.\<close>

lemma Handoff_order:
  fixes m :: ULONG and ty :: UINT16
  assumes k: "kinv s" and ne: "EventWaitNum s q e \<noteq> 0" and o: "order_ok s e q"
    and h: "handing (next_waiter s e q) (snd (ReadyLowLevel e q m s)) s2"
    and pr: "\<And>u. \<lbrakk>u \<in> waiters s e q; u \<noteq> next_waiter s e q\<rbrakk> \<Longrightarrow> tcb_prio s2 u = tcb_prio s u"
  defines "s' \<equiv> EventReadyHighLevel (next_waiter s e q) ty s2"
  shows "wait_order s e q = next_waiter s e q # wait_order s' e q" "order_ok s' e q"
proof -
  note ho = Handoff_ok[OF k ne h, where ty = ty, folded s'_def]
  have ring: "WQ_ring (event_wq s' e q) b = (if b = wake_ring s e q
      then remove1 (next_waiter s e q) (WQ_ring (event_wq s e q) b) else WQ_ring (event_wq s e q) b)" for b
    using ho(13)[of e q b] by simp
  have pr': "tcb_prio s' u = tcb_prio s u" if "u \<in> waiters s e q" "u \<noteq> next_waiter s e q" for u
    using pr[OF that] ho(12) by simp
  have hd: "next_waiter s e q = hd (wait_order s e q)"
    by (rule removed_order(1)[OF k ne o ho(14)]) (use ring pr' in auto)
  have tl: "wait_order s' e q = tl (wait_order s e q)"
    by (rule removed_order(2)[OF k ne o ho(14)]) (use ring pr' in auto)
  show "order_ok s' e q"
    by (rule removed_order(3)[OF k ne o ho(14)]) (use ring pr' in auto)
  have "wait_order s e q \<noteq> []" using wait_order_empty[OF kinv_wait[OF k]] ne by simp
  then show "wait_order s e q = next_waiter s e q # wait_order s' e q" using hd tl by simp
qed

section \<open>Draining a queue under the kernel lock\<close>

lemma drained_frame:
  assumes "drained D e q ty s s'" "run_frame s' s''" "kinv s''" "k_halt s'' = k_halt s'"
  shows "drained D e q ty s s''"
proof -
  have w: "waiters s'' e' q' = waiters s' e' q'" for e' q' by (simp add: waiters_def waits_on_frame[OF assms(2)])
  show ?thesis using assms(1,3,4) unfolding drained_def w
    by (simp add: run_frame_tcbD[OF assms(2)] run_frame_tcb[OF assms(2)] run_frame_kernelD[OF assms(2)])
qed

lemma drained_enter: "drained D e q ty (KERNEL_ENTER s) s' \<longleftrightarrow> drained D e q ty s s'"
  by (simp add: drained_def)

lemma drained_exit:
  assumes "drained D e q ty s s'" shows "drained D e q ty s (KERNEL_EXIT s')"
  using drained_frame[OF assms run_frame_kernel(2)] KERNEL_EXIT_kinv assms by (simp add: drained_def)

lemma Flush_drained:
  assumes "kinv s"
  shows "drained False e q ty s (KERNEL_EXIT (FlushLoop (unat (EventWaitNum s q e)) e q ty (KERNEL_ENTER s)))"
proof -
  have k: "kinv (KERNEL_ENTER s)" using assms by simp
  have "card (waiters (KERNEL_ENTER s) e q) \<le> unat (EventWaitNum s q e)"
    using EventWaitNum_waiters(3)[OF kinv_wait[OF k], of q e] by simp
  from DrainLoop_ok[OF k this, of False ty] show ?thesis
    by (intro drained_exit) (simp add: FlushLoop_Drain drained_enter)
qed

lemma Delete_drained:
  assumes "kinv s"
  shows "drained True e q ty s (DeleteLoop (unat (EventWaitNum s q e)) e q ty s)"
  using DrainLoop_ok[OF assms, of e q "unat (EventWaitNum s q e)" True ty] EventWaitNum_waiters(3)[OF kinv_wait[OF assms], of q e]
  by (simp add: DeleteLoop_Drain)

section \<open>The pool of event blocks\<close>

definition pool_inv :: "kernel \<Rightarrow> bool" where
  "pool_inv s \<longleftrightarrow> distinct (k_freeEvents s) \<and> (\<forall>e\<in>set (k_freeEvents s). e < LW_CFG_MAX_EVENTS
     \<and> EVENT_ucType (k_event s e) = LW_TYPE_EVENT_UNUSED \<and> (\<forall>q. waiters s e q = {}))"

lemma sched_inv_pool [simp]: "sched_inv R (s\<lparr>k_freeEvents := a, k_resUsed := b\<rparr>) \<longleftrightarrow> sched_inv R s"
  "sched_inv R (s\<lparr>k_freeEvents := a, k_resUsed := b, k_resMaxUsed := c\<rparr>) \<longleftrightarrow> sched_inv R s"
proof -
  have m: "rdy_map (s\<lparr>k_freeEvents := a, k_resUsed := b\<rparr>) tab = rdy_map s tab"
    "rdy_map (s\<lparr>k_freeEvents := a, k_resUsed := b, k_resMaxUsed := c\<rparr>) tab = rdy_map s tab" for tab
    by (cases tab; simp)+
  show "sched_inv R (s\<lparr>k_freeEvents := a, k_resUsed := b\<rparr>) \<longleftrightarrow> sched_inv R s"
    "sched_inv R (s\<lparr>k_freeEvents := a, k_resUsed := b, k_resMaxUsed := c\<rparr>) \<longleftrightarrow> sched_inv R s"
    by (rule sched_inv_place_cong; simp add: rdy_ring_def rdy_bm_def m LW_CAND_TCB_def)+
qed

lemma kinv_pool [simp]: "kinv (s\<lparr>k_freeEvents := a, k_resUsed := b\<rparr>) \<longleftrightarrow> kinv s"
  "kinv (s\<lparr>k_freeEvents := a, k_resUsed := b, k_resMaxUsed := c\<rparr>) \<longleftrightarrow> kinv s"
proof -
  have "wait_inv (s\<lparr>k_freeEvents := a, k_resUsed := b\<rparr>) = wait_inv s"
    "wait_inv (s\<lparr>k_freeEvents := a, k_resUsed := b, k_resMaxUsed := c\<rparr>) = wait_inv s"
    by (simp_all add: wait_inv_def wait_invx_def waits_on_def wait_bucket_def)
  then show "kinv (s\<lparr>k_freeEvents := a, k_resUsed := b\<rparr>) \<longleftrightarrow> kinv s"
    "kinv (s\<lparr>k_freeEvents := a, k_resUsed := b, k_resMaxUsed := c\<rparr>) \<longleftrightarrow> kinv s"
    by (simp_all add: kinv_def delay_inv_def ready_set_def)
qed

lemma pool_inv_enter [simp]: "pool_inv (KERNEL_ENTER s) \<longleftrightarrow> pool_inv s" "pool_inv (KERNEL_EXIT s) \<longleftrightarrow> pool_inv s"
  by (simp_all add: pool_inv_def)

lemma EventAlloc_ok:
  assumes k: "kinv s" and p: "pool_inv s" and a: "EventAlloc s = (r, s1)"
  shows "kinv s1" "pool_inv s1" "k_halt s1 = k_halt s" "k_event s1 = k_event s"
    "\<And>e q. waiters s1 e q = waiters s e q"
    "r = None \<longleftrightarrow> k_freeEvents s = []"
    "r = Some e \<Longrightarrow> k_freeEvents s = e # k_freeEvents s1 \<and> e \<notin> set (k_freeEvents s1) \<and> e < LW_CFG_MAX_EVENTS
       \<and> EVENT_ucType (k_event s e) = LW_TYPE_EVENT_UNUSED \<and> (\<forall>q. waiters s1 e q = {})"
proof -
  define s2 where "s2 = snd (Allocate_Event_Object (KERNEL_ENTER s))"
  have s1: "s1 = KERNEL_EXIT s2" "r = fst (Allocate_Event_Object (KERNEL_ENTER s))"
    using a by (auto simp: EventAlloc_def s2_def split_beta Let_def)
  have k2: "kinv s2" and w2: "waiters s2 e q = waiters s e q" "k_event s2 = k_event s" "k_halt s2 = k_halt s" for e q
    using k by (auto simp: s2_def Allocate_Event_Object_def Let_def waiters_def waits_on_def split: list.splits)
  have f2: "k_freeEvents s2 = tl (k_freeEvents s)" "r = (case k_freeEvents s of [] \<Rightarrow> None | e # _ \<Rightarrow> Some e)"
    by (auto simp: s2_def s1(2) Allocate_Event_Object_def Let_def split: list.splits)
  show "kinv s1" "k_halt s1 = k_halt s" using KERNEL_EXIT_kinv[OF k2] w2 by (simp_all add: s1)
  show "k_event s1 = k_event s" "waiters s1 e q = waiters s e q" for e q using w2 by (simp_all add: s1)
  show "r = None \<longleftrightarrow> k_freeEvents s = []" using f2 by (auto split: list.splits)
  show "pool_inv s1" using p w2 f2(1) by (cases "k_freeEvents s") (auto simp: s1 pool_inv_def)
  show "r = Some e \<Longrightarrow> k_freeEvents s = e # k_freeEvents s1 \<and> e \<notin> set (k_freeEvents s1) \<and> e < LW_CFG_MAX_EVENTS
       \<and> EVENT_ucType (k_event s e) = LW_TYPE_EVENT_UNUSED \<and> (\<forall>q. waiters s1 e q = {})"
    using p f2 w2(1) by (cases "k_freeEvents s") (auto simp: s1 pool_inv_def)
qed

text \<open>Initialising a block without waiters: the queues are empty already.\<close>

lemma WQ_INIT_eq:
  assumes "kinv s" "waiters s e q = {}" shows "event_wq s e q = WQ_INIT"
proof -
  note i = wait_invxD[OF kinv_wait[OF assms(1), unfolded wait_inv_def], where e = e and q = q]
  have none: "\<not> waits_on s e q t" for t using assms(2) by (auto simp: waiters_def)
  have "WQ_ring (event_wq s e q) = (\<lambda>_. [])" using i(2) none by (auto simp: fun_eq_iff) (metis list.set_sel(1))
  moreover have "WQ_usNum (event_wq s e q) = 0" using i(3) none by (simp add: unat_eq_0)
  ultimately show ?thesis by (cases "event_wq s e q") (simp add: WQ_INIT_def)
qed

lemma kinv_event_init:
  assumes k: "kinv s" and none: "\<forall>q. waiters s e q = {}" and f: "EVENT_wqWaitQ (f (k_event s e)) = (EVENT_wqWaitQ (k_event s e))(0 := WQ_INIT, 1 := WQ_INIT)"
  shows "kinv (event_upd e f s)" "wait_order (event_upd e f s) e q = []" "order_ok (event_upd e f s) e q"
    "e' \<noteq> e \<Longrightarrow> wait_order (event_upd e f s) e' q = wait_order s e' q"
proof -
  have wq: "EVENT_wqWaitQ (f (k_event s e)) = EVENT_wqWaitQ (k_event s e)"
    using WQ_INIT_eq[OF k none[rule_format]] by (auto simp: f fun_eq_iff)
  have ev: "event_wq (event_upd e f s) e' q' = event_wq s e' q'" for e' q' using wq by simp
  have non: "\<not> waits_on s e q t" for t q using none by (auto simp: waiters_def)
  have b: "waits_on (event_upd e f s) e' q' t = waits_on s e' q' t" for e' q' t by (simp add: waits_on_def)
  have c: "TCB_peventPtr (k_tcb s t) = Some e' \<Longrightarrow> wait_bucket (event_upd e f s) t = wait_bucket s t" for t e'
    using non[of "TCB_iPendQ (k_tcb s t)" t] by (auto simp: wait_bucket_def waits_on_def)
  have c': "waits_on s e' q' t \<Longrightarrow> wait_bucket (event_upd e f s) t = wait_bucket s t" for t e' q'
    using c by (simp add: waits_on_def)
  have d: "(t \<notin> {} \<and> waits_on s e' q' t \<and> wait_bucket (event_upd e f s) t = b') = (t \<notin> {} \<and> waits_on s e' q' t \<and> wait_bucket s t = b')" for t e' q' b'
    using c' by auto
  have "wait_inv (event_upd e f s) \<longleftrightarrow> wait_inv s"
    unfolding wait_inv_def wait_invx_def ev b d using c by (auto simp del: event_upd_simps(1))
  then show kk: "kinv (event_upd e f s)" using k by (simp add: kinv_def delay_inv_def ready_set_def)
  have "set (wait_order (event_upd e f s) e q) = {}"
    using wait_order_waiters[OF kinv_wait[OF kk], of e q] none by simp
  then show wo: "wait_order (event_upd e f s) e q = []" by simp
  have "WQ_ring (event_wq (event_upd e f s) e q) = (\<lambda>_. [])"
    using WQ_INIT_eq[OF kk, of e q] none by (simp add: WQ_INIT_def del: event_upd_simps(1))
  then show "order_ok (event_upd e f s) e q" by (simp add: order_ok_def prio_ok_def del: event_upd_simps(1))
  show "e' \<noteq> e \<Longrightarrow> wait_order (event_upd e f s) e' q = wait_order s e' q" by (simp add: wait_order_def)
qed

lemma pool_inv_event_upd:
  assumes "pool_inv s" "e \<notin> set (k_freeEvents s)" shows "pool_inv (event_upd e f s)"
  using assms by (auto simp: pool_inv_def)

lemma handle_Make:
  assumes "e < LW_CFG_MAX_EVENTS" "EVENT_ucType (k_event s e) = ty" "c < 64"
  shows "handle c ty s (MakeObjectId c LW_CFG_PROCESSOR_NUMBER (of_nat e)) e"
proof -
  have "unat (of_nat e :: UINT16) = e" using assms(1) by (simp add: unat_of_nat)
  then show ?thesis using assms ObjectClassOK_Make[OF assms(3), of LW_CFG_PROCESSOR_NUMBER "of_nat e" c]
    by (simp add: handle_def Event_Index_Invalid_def)
qed

text \<open>Freeing a block that nobody waits for.\<close>

lemma Free_ok:
  assumes k: "kinv s" and p: "pool_inv s" and e: "e < LW_CFG_MAX_EVENTS" "e \<notin> set (k_freeEvents s)"
    "EVENT_ucType (k_event s e) = LW_TYPE_EVENT_UNUSED" "\<forall>q. waiters s e q = {}"
  shows "kinv (KERNEL_EXIT (Free_Event_Object e s))" "pool_inv (KERNEL_EXIT (Free_Event_Object e s))"
    "k_freeEvents (KERNEL_EXIT (Free_Event_Object e s)) = k_freeEvents s @ [e]"
proof -
  have "kinv (Free_Event_Object e s)" using k by (simp add: Free_Event_Object_def)
  then show "kinv (KERNEL_EXIT (Free_Event_Object e s))" by (rule KERNEL_EXIT_kinv)
  have w: "waiters (Free_Event_Object e s) e' q = waiters s e' q" for e' q
    by (simp add: Free_Event_Object_def waiters_def waits_on_def)
  have fe: "k_event (Free_Event_Object e s) = k_event s" "k_freeEvents (Free_Event_Object e s) = k_freeEvents s @ [e]"
    by (simp_all add: Free_Event_Object_def)
  show "pool_inv (KERNEL_EXIT (Free_Event_Object e s))" using p e by (auto simp: pool_inv_def w fe)
  show "k_freeEvents (KERNEL_EXIT (Free_Event_Object e s)) = k_freeEvents s @ [e]" by (simp add: fe)
qed

lemma drained_ucType:
  assumes "drained D e q ty s s'" shows "EVENT_ucType (k_event s' e') = EVENT_ucType (k_event s e')"
proof -
  have "ev_core (k_event s' e') = ev_core (k_event s e')" using assms unfolding drained_def by metis
  then show ?thesis by (rule ev_core_eqD(1))
qed

lemma drained_waiters:
  assumes "drained D e q ty s s'" shows "waiters s' e' q' = waiters s e' q' - waiters s e q"
  using assms unfolding drained_def by metis

lemma drained_pool:
  assumes d: "drained D e q ty s s'" and p: "pool_inv s" shows "pool_inv s'"
proof -
  have "k_freeEvents s' = k_freeEvents s" using d unfolding drained_def by metis
  then show ?thesis using p drained_ucType[OF d] drained_waiters[OF d] by (simp add: pool_inv_def)
qed

section \<open>Events with one queue\<close>

text \<open>\<open>one_q s e\<close>: the invariants, for an event in use whose threads all wait in queue 0.\<close>

definition one_q :: "kernel \<Rightarrow> eid \<Rightarrow> bool" where
  "one_q s e \<longleftrightarrow> kinv s \<and> pool_inv s \<and> order_ok s e EVENT_SEM_Q \<and> e \<notin> set (k_freeEvents s) \<and>
     (\<forall>q. q \<noteq> EVENT_SEM_Q \<longrightarrow> waiters s e q = {})"

lemma one_qD: "one_q s e \<Longrightarrow> kinv s" "one_q s e \<Longrightarrow> pool_inv s" "one_q s e \<Longrightarrow> order_ok s e EVENT_SEM_Q"
  by (simp_all add: one_q_def)

lemma pool_inv_ErrorHandle [simp]: "pool_inv (ErrorHandle_of ctx c s) \<longleftrightarrow> pool_inv s"
  "waiters (ErrorHandle_of ctx c s) e q = waiters s e q" "k_freeEvents (ErrorHandle_of ctx c s) = k_freeEvents s"
proof -
  have "waits_on (ErrorHandle_of ctx c s) e q t = waits_on s e q t" for e q t
    by (auto simp: waits_on_def ErrorHandle_of_def split: option.splits)
  then show w: "waiters (ErrorHandle_of ctx c s) e q = waiters s e q" for e q by (simp add: waiters_def)
  show f: "k_freeEvents (ErrorHandle_of ctx c s) = k_freeEvents s"
    by (auto simp: ErrorHandle_of_def split: option.splits)
  show "pool_inv (ErrorHandle_of ctx c s) \<longleftrightarrow> pool_inv s" by (simp add: pool_inv_def w f)
qed

lemma one_q_reads [simp]:
  "one_q s e \<Longrightarrow> one_q (KERNEL_EXIT s) e" "one_q (KERNEL_ENTER s) e \<longleftrightarrow> one_q s e"
  "one_q s e \<Longrightarrow> one_q (ErrorHandle_of ctx c s) e"
  by (simp_all add: one_q_def KERNEL_EXIT_kinv kinv_ErrorHandle)

lemma one_q_event_upd:
  assumes "one_q s e" "keeps_queue f (k_event s e)" shows "one_q (event_upd e f s) e"
  using assms event_upd_reads(4)[OF assms(2), of e 0]
  by (simp add: one_q_def kinv_event_upd pool_inv_event_upd del: event_upd_reads)

lemma one_q_WakeBy:
  fixes m :: ULONG and ty :: UINT16 and D :: bool
  assumes o: "one_q s e" and ne: "EventWaitNum s EVENT_SEM_Q e \<noteq> 0"
  shows "one_q (snd (WakeBy D e EVENT_SEM_Q m ty s)) e"
proof -
  note w = WakeBy_ok[OF one_qD(1)[OF o] ne, where D = D and m = m and ty = ty]
  have "pool_inv (snd (WakeBy D e EVENT_SEM_Q m ty s))"
    using one_qD(2)[OF o] w(11,12,17) ev_core_eqD(1)[OF w(12)] by (simp add: pool_inv_def)
  then show ?thesis
    using o w(2,11,17) WakeBy_order(3)[OF one_qD(1)[OF o] ne one_qD(3)[OF o], where D = D and m = m and ty = ty]
    by (simp add: one_q_def)
qed

lemmas one_q_ReadyOne = one_q_WakeBy[where D = False, folded ReadyOne_WakeBy]

lemma sem_bits: "(2::UINT16) AND LW_THREAD_STATUS_PEND_ANY \<noteq> 0" "(2::UINT16) AND LW_THREAD_STATUS_DELAY = 0"
  by simp_all

lemma one_q_PendBlock:
  fixes ulTimeout :: ULONG
  assumes o: "one_q s e" and t: "runs s t"
  shows "one_q (PendBlock e EVENT_SEM_Q LW_THREAD_STATUS_SEM ulTimeout s) e" (is "one_q ?s' e")
proof -
  note b = PendBlock_ok[OF one_qD(1)[OF o] t sem_bits, where e = e and q = 0 and ulTimeout = ulTimeout]
  have "pool_inv ?s'"
    using one_qD(2)[OF o] b(17,18) ev_core_eqD(1)[OF b(11)] o by (auto simp: pool_inv_def one_q_def)
  then show ?thesis
    using o b(1,17,18) PendBlock_order(2)[OF one_qD(1)[OF o] t one_qD(3)[OF o] sem_bits, where ulTimeout = ulTimeout]
    by (simp add: one_q_def)
qed

lemma one_q_drained:
  assumes "one_q s e" "drained D e EVENT_SEM_Q ty s s'" shows "one_q s' e"
proof -
  have k: "kinv s'" and w: "waiters s' e q = {}" for q
    using assms(1) drained_waiters[OF assms(2), of e q] assms(2)
    by (cases "q = EVENT_SEM_Q"; simp add: drained_def one_q_def)+
  have "set (wait_order s' e 0) = {}" using wait_order_waiters[OF kinv_wait[OF k], of e 0] w by simp
  have "WQ_ring (event_wq s' e 0) = (\<lambda>_. [])" using WQ_INIT_eq[OF k w] by (simp add: WQ_INIT_def)
  then have "order_ok s' e 0" by (simp add: order_ok_def prio_ok_def)
  then show ?thesis using assms drained_pool[OF assms(2)] k w by (simp add: one_q_def drained_def)
qed

text \<open>Deleting an event: all its threads leave with the mark, the block is free.\<close>

lemma Delete_ok:
  assumes o: "one_q s e" and e: "e < LW_CFG_MAX_EVENTS"
    and s2: "s2 = event_upd e (\<lambda>ev. ev\<lparr>EVENT_ucType := LW_TYPE_EVENT_UNUSED\<rparr>) s"
    and s3: "s3 = DeleteLoop (unat (EventWaitNum s2 EVENT_SEM_Q e)) e EVENT_SEM_Q ty s2"
    and s4: "s4 = event_upd e (\<lambda>ev. ev\<lparr>EVENT_pvTcbOwn := None\<rparr>) s3"
    and s5: "s5 = KERNEL_EXIT (Free_Event_Object e s4)"
  shows "kinv s5" "pool_inv s5" "k_freeEvents s5 = k_freeEvents s @ [e]"
    "EVENT_ucType (k_event s5 e) = LW_TYPE_EVENT_UNUSED" "\<forall>q. waiters s5 e q = {}"
    "\<forall>t\<in>waiters s e EVENT_SEM_Q. tcb_status s5 t = woken_status ty (tcb_status s t)
       \<and> TCB_ucIsEventDelete (k_tcb s5 t) = LW_EVENT_DELETE \<and> TCB_ucWaitTimeout (k_tcb s5 t) = LW_WAIT_TIME_CLEAR"
proof -
  have o2: "one_q s2 e" unfolding s2 by (rule one_q_event_upd[OF o]) simp
  have d: "drained True e EVENT_SEM_Q ty s2 s3" unfolding s3 by (rule Delete_drained[OF one_qD(1)[OF o2]])
  have o3: "one_q s3 e" by (rule one_q_drained[OF o2 d])
  have o4: "one_q s4 e" unfolding s4 by (rule one_q_event_upd[OF o3]) simp
  have w0: "waiters s4 e EVENT_SEM_Q = {}" using d by (simp add: s4 drained_def)
  have w4: "waiters s4 e q = {}" for q using o4 w0 by (cases "q = EVENT_SEM_Q") (simp_all add: one_q_def)
  have ty4: "EVENT_ucType (k_event s4 e) = LW_TYPE_EVENT_UNUSED"
    using drained_ucType[OF d, of e] by (simp add: s4 s2)
  have nf: "e \<notin> set (k_freeEvents s4)" using o4 by (simp add: one_q_def)
  note f = Free_ok[OF one_qD(1,2)[OF o4] e nf ty4 allI[OF w4], folded s5]
  show "kinv s5" "pool_inv s5" by (rule f)+
  show "k_freeEvents s5 = k_freeEvents s @ [e]" using f(3) d by (simp add: s4 s2 drained_def)
  show "EVENT_ucType (k_event s5 e) = LW_TYPE_EVENT_UNUSED" using ty4 by (simp add: s5 Free_Event_Object_def)
  have fr: "k_tcb (Free_Event_Object e s4) = k_tcb s4" by (simp add: Free_Event_Object_def)
  have "waiters (Free_Event_Object e s4) e q = waiters s4 e q" for q by (simp add: waiters_def waits_on_def fr)
  then show "\<forall>q. waiters s5 e q = {}" using w4 by (simp add: s5)
  show "\<forall>t\<in>waiters s e EVENT_SEM_Q. tcb_status s5 t = woken_status ty (tcb_status s t)
       \<and> TCB_ucIsEventDelete (k_tcb s5 t) = LW_EVENT_DELETE \<and> TCB_ucWaitTimeout (k_tcb s5 t) = LW_WAIT_TIME_CLEAR"
    using d by (simp add: drained_def s5 s4 s2 fr del: wait_order_reads) (simp add: Free_Event_Object_def)
qed

text \<open>Creating an event: a block of the pool is initialised.\<close>

lemma Create_ok:
  assumes k: "kinv s" and p: "pool_inv s" and a: "EventAlloc s = (Some e, s1)"
    and f: "EVENT_wqWaitQ (f (k_event s1 e)) = (EVENT_wqWaitQ (k_event s1 e))(0 := WQ_INIT, 1 := WQ_INIT)"
    and s2: "s2 = event_upd e f s1"
  shows "one_q s2 e" "wait_order s2 e EVENT_SEM_Q = []" "k_freeEvents s = e # k_freeEvents s2"
    "e < LW_CFG_MAX_EVENTS" "k_event s2 e = f (k_event s e)" "\<And>e'. e' \<noteq> e \<Longrightarrow> k_event s2 e' = k_event s e'"
    "\<forall>q. waiters s2 e q = {}" "EVENT_ucType (k_event s e) = LW_TYPE_EVENT_UNUSED"
proof -
  note al = EventAlloc_ok[OF k p a]
  note al7 = al(7)[OF refl]
  have w1: "\<forall>q. waiters s1 e q = {}" using al7 by simp
  note i = kinv_event_init[where f = f and s = s1 and e = e, OF al(1) w1 f, folded s2]
  show "one_q s2 e" using i(1,3) pool_inv_event_upd[OF al(2), of e f] al7 w1 by (simp add: one_q_def s2)
  show "wait_order s2 e EVENT_SEM_Q = []" by (rule i(2))
  show "k_freeEvents s = e # k_freeEvents s2" "e < LW_CFG_MAX_EVENTS" "k_event s2 e = f (k_event s e)"
    "e' \<noteq> e \<Longrightarrow> k_event s2 e' = k_event s e'" "\<forall>q. waiters s2 e q = {}"
    "EVENT_ucType (k_event s e) = LW_TYPE_EVENT_UNUSED" for e'
    using al7 al(4) w1 by (simp_all add: s2)
qed

section \<open>A queue in order\<close>

text \<open>\<open>queue_ok s e\<close>: the kernel invariant, and the queue of \<open>e\<close> in the order of service.\<close>

definition queue_ok :: "kernel \<Rightarrow> eid \<Rightarrow> bool" where
  "queue_ok s e \<longleftrightarrow> kinv s \<and> order_ok s e EVENT_SEM_Q"

lemma queue_ok_reads [simp]:
  "queue_ok s e \<Longrightarrow> queue_ok (KERNEL_EXIT s) e" "queue_ok (KERNEL_ENTER s) e \<longleftrightarrow> queue_ok s e"
  "queue_ok s e \<Longrightarrow> queue_ok (ErrorHandle_of ctx c s) e"
  by (simp_all add: queue_ok_def KERNEL_EXIT_kinv kinv_ErrorHandle)

lemma queue_ok_event_upd:
  assumes "keeps_queue f (k_event s e)"
  shows "queue_ok (event_upd e f s) e \<longleftrightarrow> queue_ok s e" "wait_order (event_upd e f s) e EVENT_SEM_Q = wait_order s e EVENT_SEM_Q"
  using event_upd_reads(3,4)[OF assms, of e 0] by (simp_all add: queue_ok_def kinv_event_upd[OF assms])

lemma ReadyOne_queue:
  fixes m :: ULONG
  assumes q: "queue_ok s e" and ne: "EventWaitNum s EVENT_SEM_Q e \<noteq> 0"
  defines "r \<equiv> ReadyOne e EVENT_SEM_Q m LW_THREAD_STATUS_SEM s"
  shows "queue_ok (snd r) e" "wait_order s e EVENT_SEM_Q = fst r # wait_order (snd r) e EVENT_SEM_Q"
    "ev_core (k_event (snd r) e') = ev_core (k_event s e')" "TCB_pvMsgBoxMessage (k_tcb (snd r) (fst r)) = m"
    "tcb_status (snd r) (fst r) = woken_status LW_THREAD_STATUS_SEM (tcb_status s (fst r))"
    "ready_set (snd r) = (if woken_status LW_THREAD_STATUS_SEM (tcb_status s (fst r)) = LW_THREAD_STATUS_RDY
       then insert (fst r) (ready_set s) else ready_set s)"
proof -
  have k: "kinv s" and o: "order_ok s e 0" using q by (simp_all add: queue_ok_def)
  note w = ReadyOne_ok[OF k ne, where m = m and ty = LW_THREAD_STATUS_SEM, folded r_def]
  note o' = ReadyOne_order[OF k ne o, where m = m and ty = LW_THREAD_STATUS_SEM, folded r_def]
  show "queue_ok (snd r) e" using w(2) o'(3) by (simp add: queue_ok_def)
  have "wait_order s e 0 \<noteq> []" using ne wait_order_empty[OF kinv_wait[OF k]] by simp
  then show "wait_order s e EVENT_SEM_Q = fst r # wait_order (snd r) e EVENT_SEM_Q"
    using o'(1,2) by (cases "wait_order s e 0") auto
  show "ev_core (k_event (snd r) e') = ev_core (k_event s e')" by (rule w(12))
  show "TCB_pvMsgBoxMessage (k_tcb (snd r) (fst r)) = m"
    "tcb_status (snd r) (fst r) = woken_status LW_THREAD_STATUS_SEM (tcb_status s (fst r))"
    "ready_set (snd r) = (if woken_status LW_THREAD_STATUS_SEM (tcb_status s (fst r)) = LW_THREAD_STATUS_RDY
       then insert (fst r) (ready_set s) else ready_set s)"
    using w(4,5,7) w(1) by simp_all
qed

lemma PendBlock_queue:
  fixes ulTimeout :: ULONG
  assumes q: "queue_ok s e" and t: "runs s t"
  defines "s' \<equiv> PendBlock e EVENT_SEM_Q LW_THREAD_STATUS_SEM ulTimeout s"
  shows "queue_ok s' e" "wait_order s' e EVENT_SEM_Q = enqueue (by_prio s e) (tcb_prio s) t (wait_order s e EVENT_SEM_Q)"
    "ready_set s' = ready_set s - {t}" "ev_core (k_event s' e') = ev_core (k_event s e')"
    "EVENT_ulOption (k_event s' e') = EVENT_ulOption (k_event s e')"
proof -
  have k: "kinv s" and o: "order_ok s e 0" using q by (simp_all add: queue_ok_def)
  note b = PendBlock_ok[OF k t sem_bits, where e = e and q = 0 and ulTimeout = ulTimeout, folded s'_def]
  note o' = PendBlock_order[OF k t o sem_bits, where ulTimeout = ulTimeout, folded s'_def]
  show "queue_ok s' e" using b(1) o'(2) by (simp add: queue_ok_def)
  show "wait_order s' e EVENT_SEM_Q = enqueue (by_prio s e) (tcb_prio s) t (wait_order s e EVENT_SEM_Q)" by (rule o'(1))
  show "ready_set s' = ready_set s - {t}" by (rule b(3))
  show "ev_core (k_event s' e') = ev_core (k_event s e')" by (rule b(11))
  then show "EVENT_ulOption (k_event s' e') = EVENT_ulOption (k_event s e')" by (metis ev_core_eqD)
qed

section \<open>Other queues\<close>

lemma wait_order_distinct:
  assumes "kinv s" "order_ok s e q" shows "distinct (wait_order s e q)"
proof (cases "by_prio s e")
  case True
  then show ?thesis using prio_members_sorted(2)[of "tcb_prio s" "event_wq s e q"] assms(2)
    by (simp add: wait_order_def order_ok_def)
next
  case False
  then show ?thesis using fq.ok_distinct[OF fifo_ok_kernel[OF kinv_wait[OF assms(1)]]] by (simp add: wait_order_def)
qed

text \<open>A queue whose rings and whose waiters' priorities are untouched.\<close>

lemma order_same:
  assumes k: "kinv s" and opt: "EVENT_ulOption (k_event s' e) = EVENT_ulOption (k_event s e)"
    and ring: "\<And>b. WQ_ring (event_wq s' e q) b = WQ_ring (event_wq s e q) b"
    and pr: "\<And>u. u \<in> waiters s e q \<Longrightarrow> tcb_prio s' u = tcb_prio s u"
  shows "wait_order s' e q = wait_order s e q" "order_ok s' e q \<longleftrightarrow> order_ok s e q"
proof -
  have r: "WQ_ring (event_wq s' e q) = WQ_ring (event_wq s e q)" using ring by auto
  show "wait_order s' e q = wait_order s e q" by (simp add: wait_order_def opt prio_members_def fifo_members_def r)
  have m: "tcb_prio s' u = tcb_prio s u" if "u \<in> set (WQ_ring (event_wq s e q) b)" for u b
    using pr wait_invxD(2)[OF kinv_wait[OF k, unfolded wait_inv_def], of u e q b] that by (simp add: waiters_def)
  then have "map (tcb_prio s') (WQ_ring (event_wq s e q) b) = map (tcb_prio s) (WQ_ring (event_wq s e q) b)" for b by simp
  then have "sorted (map (tcb_prio s') (WQ_ring (event_wq s e q) b)) = sorted (map (tcb_prio s) (WQ_ring (event_wq s e q) b))" for b
    by (simp only:)
  with m show "order_ok s' e q \<longleftrightarrow> order_ok s e q" by (simp add: order_ok_def prio_ok_def opt r)
qed

lemma WakeBy_same:
  fixes m :: ULONG and ty :: UINT16 and D :: bool
  assumes k: "kinv s" and ne: "EventWaitNum s q e \<noteq> 0" and o: "e' \<noteq> e \<or> q' \<noteq> q"
  defines "s' \<equiv> snd (WakeBy D e q m ty s)"
  shows "wait_order s' e' q' = wait_order s e' q'" "order_ok s' e' q' \<longleftrightarrow> order_ok s e' q'"
proof -
  note wk = WakeBy_ok[OF k ne, where D = D and m = m and ty = ty, folded s'_def]
  have ring: "WQ_ring (event_wq s' e' q') b = WQ_ring (event_wq s e' q') b" for b using wk(13) o by auto
  have pr: "tcb_prio s' u = tcb_prio s u" if "u \<in> waiters s e' q'" for u
  proof -
    have "u \<noteq> next_waiter s e q"
      using that next_waiter_ok(2)[OF kinv_wait[OF k] ne] o by (auto simp: waiters_def waits_on_def)
    then show ?thesis using tcb_core_eqD(3)[OF wk(10)] by blast
  qed
  show "wait_order s' e' q' = wait_order s e' q'" "order_ok s' e' q' \<longleftrightarrow> order_ok s e' q'"
    by (rule order_same[OF k ev_core_eqD(6)[OF wk(12)]]; use ring pr in simp)+
qed

lemmas ReadyOne_same = WakeBy_same[where D = False, folded ReadyOne_WakeBy]

lemma PendBlock_same:
  fixes ulTimeout :: ULONG
  assumes k: "kinv s" and t: "runs s t" and o: "e' \<noteq> e \<or> q' \<noteq> q"
    and us: "usStatus AND LW_THREAD_STATUS_PEND_ANY \<noteq> 0" "usStatus AND LW_THREAD_STATUS_DELAY = 0"
  defines "s' \<equiv> PendBlock e q usStatus ulTimeout s"
  shows "wait_order s' e' q' = wait_order s e' q'" "order_ok s' e' q' \<longleftrightarrow> order_ok s e' q'"
proof -
  note p = PendBlock_ok[OF k t us, where e = e and q = q and ulTimeout = ulTimeout, folded s'_def]
  have ring: "WQ_ring (event_wq s' e' q') b = WQ_ring (event_wq s e' q') b" for b using p(12) o by auto
  show "wait_order s' e' q' = wait_order s e' q'" "order_ok s' e' q' \<longleftrightarrow> order_ok s e' q'"
    by (rule order_same[OF k p(9) ring p(16)])+
qed

lemma Handoff_same:
  fixes m :: ULONG and ty :: UINT16
  assumes k: "kinv s" and ne: "EventWaitNum s q e \<noteq> 0" and o: "e' \<noteq> e \<or> q' \<noteq> q"
    and h: "handing (next_waiter s e q) (snd (ReadyLowLevel e q m s)) s2"
    and pr: "\<And>u. u \<in> waiters s e' q' \<Longrightarrow> tcb_prio s2 u = tcb_prio s u"
  defines "s' \<equiv> EventReadyHighLevel (next_waiter s e q) ty s2"
  shows "wait_order s' e' q' = wait_order s e' q'" "order_ok s' e' q' \<longleftrightarrow> order_ok s e' q'"
proof -
  note ho = Handoff_ok[OF k ne h, where ty = ty, folded s'_def]
  have ring: "WQ_ring (event_wq s' e' q') b = WQ_ring (event_wq s e' q') b" for b using ho(13) o by auto
  have pr': "tcb_prio s' u = tcb_prio s u" if "u \<in> waiters s e' q'" for u using pr[OF that] ho(12) by simp
  show "wait_order s' e' q' = wait_order s e' q'" "order_ok s' e' q' \<longleftrightarrow> order_ok s e' q'"
    by (rule order_same[OF k ho(14)]; use ring pr' in simp)+
qed

end
