(* ===== verification/Sem_Count.thy ===== *)
theory Sem_Count
  imports Event_Api
begin

text \<open>
  Counting semaphores: the routines \<open>API_SemaphoreC*\<close> of kernel/interface.
\<close>

section \<open>Operations\<close>

definition SemaphoreCCreate :: "string option \<Rightarrow> ULONG \<Rightarrow> ULONG \<Rightarrow> ULONG \<Rightarrow> kernel \<Rightarrow> ULONG \<times> kernel" where
  "SemaphoreCCreate pcName ulInitCounter ulMaxCounter ulOption s =
    (if LW_CPU_GET_CUR_NESTING s \<noteq> 0 then (0, ErrorHandle ERROR_KERNEL_IN_ISR s)
     else if ulMaxCounter = 0 then (0, ErrorHandle ERROR_EVENT_MAX_COUNTER_NULL s)
     else if ulInitCounter > ulMaxCounter then (0, ErrorHandle ERROR_EVENT_INIT_COUNTER s)
     else if Object_Name_Invalid pcName then (0, ErrorHandle ERROR_KERNEL_PNAME_TOO_LONG s)
     else case EventAlloc s of
       (None, s1) \<Rightarrow> (0, ErrorHandle_of s ERROR_EVENT_FULL s1)
     | (Some e, s1) \<Rightarrow>
         (MakeObjectId OBJECT_SEM_C LW_CFG_PROCESSOR_NUMBER (of_nat e),
          event_upd e (\<lambda>ev. ev\<lparr>EVENT_cEventName := event_name pcName,
            EVENT_ucType := LW_TYPE_EVENT_SEMC, EVENT_ulCounter := ulInitCounter,
            EVENT_ulMaxCounter := ulMaxCounter, EVENT_ulOption := ulOption,
            EVENT_pvPtr := 0, EVENT_pvTcbOwn := None,
            EVENT_wqWaitQ := (EVENT_wqWaitQ ev)(0 := WQ_INIT, 1 := WQ_INIT)\<rparr>) s1))"

definition SemaphoreCDelete :: "ULONG \<Rightarrow> kernel \<Rightarrow> ULONG \<times> ULONG \<times> kernel" where
  "SemaphoreCDelete ulId s =
    (if LW_CPU_GET_CUR_NESTING s \<noteq> 0 then (ERROR_KERNEL_IN_ISR, ulId, ErrorHandle ERROR_KERNEL_IN_ISR s)
     else case EventOpen OBJECT_SEM_C LW_TYPE_EVENT_SEMC ulId s of
       Inl (r, s1) \<Rightarrow> (r, ulId, s1)
     | Inr (e, s1) \<Rightarrow> (let
           s2 = event_upd e (\<lambda>ev. ev\<lparr>EVENT_ucType := LW_TYPE_EVENT_UNUSED\<rparr>) s1;
           s3 = DeleteLoop (unat (EventWaitNum s2 EVENT_SEM_Q e)) e EVENT_SEM_Q LW_THREAD_STATUS_SEM s2;
           s4 = event_upd e (\<lambda>ev. ev\<lparr>EVENT_pvTcbOwn := None\<rparr>) s3
         in (ERROR_NONE, 0, KERNEL_EXIT (Free_Event_Object e s4))))"

text \<open>The label \<open>__wait_again\<close>.\<close>

definition SemaphoreCPend_again :: "ULONG \<Rightarrow> ULONG \<Rightarrow> kernel \<Rightarrow> pend_out \<times> kernel" where
  "SemaphoreCPend_again ulId ulTimeout s = (case EventOpen OBJECT_SEM_C LW_TYPE_EVENT_SEMC ulId s of
     Inl (r, s1) \<Rightarrow> (Done r, s1)
   | Inr (e, s1) \<Rightarrow>
       if EVENT_ulCounter (k_event s1 e) \<noteq> 0 then
         (Done ERROR_NONE, KERNEL_EXIT (event_upd e (\<lambda>ev. ev\<lparr>EVENT_ulCounter := EVENT_ulCounter ev - 1\<rparr>) s1))
       else if ulTimeout = LW_OPTION_NOT_WAIT then
         (Done ERROR_THREAD_WAIT_TIMEOUT, ErrorHandle_of s ERROR_THREAD_WAIT_TIMEOUT (KERNEL_EXIT s1))
       else (let s2 = PendBlock e EVENT_SEM_Q LW_THREAD_STATUS_SEM ulTimeout s1
             in (Blocked ulTimeout (KERNEL_TIME_GET s1) (EVENT_ulOption (k_event s2 e)), KERNEL_EXIT s2)))"

definition SemaphoreCPend :: "ULONG \<Rightarrow> ULONG \<Rightarrow> kernel \<Rightarrow> pend_out \<times> kernel" where
  "SemaphoreCPend ulId ulTimeout s =
    (if LW_CPU_GET_CUR_NESTING s \<noteq> 0 then (Done ERROR_KERNEL_IN_ISR, ErrorHandle ERROR_KERNEL_IN_ISR s)
     else SemaphoreCPend_again ulId ulTimeout s)"

definition SemaphoreCPend_wake :: "ULONG \<Rightarrow> ULONG \<Rightarrow> ULONG \<Rightarrow> ULONG \<Rightarrow> kernel \<Rightarrow> pend_out \<times> kernel" where
  "SemaphoreCPend_wake ulId ulTimeout ulTimeSave ulEventOption s =
    (case PendWake ulTimeout ulTimeSave ulEventOption s of
       (WakeDone r, s1) \<Rightarrow> (Done r, s1)
     | (WakeAgain ulTimeout', s1) \<Rightarrow> SemaphoreCPend_again ulId ulTimeout' s1)"

definition SemaphoreCTryPend :: "ULONG \<Rightarrow> kernel \<Rightarrow> ULONG \<times> kernel" where
  "SemaphoreCTryPend ulId s = (case EventOpen OBJECT_SEM_C LW_TYPE_EVENT_SEMC ulId s of
     Inl r \<Rightarrow> r
   | Inr (e, s1) \<Rightarrow>
       if EVENT_ulCounter (k_event s1 e) \<noteq> 0 then
         (ERROR_NONE, KERNEL_EXIT (event_upd e (\<lambda>ev. ev\<lparr>EVENT_ulCounter := EVENT_ulCounter ev - 1\<rparr>) s1))
       else (ERROR_THREAD_WAIT_TIMEOUT, ErrorHandle_of s ERROR_THREAD_WAIT_TIMEOUT (KERNEL_EXIT s1)))"

definition SemaphoreCPost :: "ULONG \<Rightarrow> kernel \<Rightarrow> ULONG \<times> kernel" where
  "SemaphoreCPost ulId s = (case EventOpen OBJECT_SEM_C LW_TYPE_EVENT_SEMC ulId s of
     Inl r \<Rightarrow> r
   | Inr (e, s1) \<Rightarrow>
       if EventWaitNum s1 EVENT_SEM_Q e \<noteq> 0 then
         (ERROR_NONE, KERNEL_EXIT (snd (ReadyOne e EVENT_SEM_Q 0 LW_THREAD_STATUS_SEM s1)))
       else if EVENT_ulCounter (k_event s1 e) < EVENT_ulMaxCounter (k_event s1 e) then
         (ERROR_NONE, KERNEL_EXIT (event_upd e (\<lambda>ev. ev\<lparr>EVENT_ulCounter := EVENT_ulCounter ev + 1\<rparr>) s1))
       else PostFull s s1)"

definition SemaphoreCFlush :: "ULONG \<Rightarrow> bool \<Rightarrow> kernel \<Rightarrow> (ULONG \<times> UINT16 option) \<times> kernel" where
  "SemaphoreCFlush ulId pulThreadUnblockNum s = (case EventOpen OBJECT_SEM_C LW_TYPE_EVENT_SEMC ulId s of
     Inl (r, s1) \<Rightarrow> ((r, None), s1)
   | Inr (e, s1) \<Rightarrow> (let n = EventWaitNum s1 EVENT_SEM_Q e in
       ((ERROR_NONE, outp pulThreadUnblockNum n),
        KERNEL_EXIT (FlushLoop (unat n) e EVENT_SEM_Q LW_THREAD_STATUS_SEM s1))))"

definition SemaphoreCClear :: "ULONG \<Rightarrow> kernel \<Rightarrow> ULONG \<times> kernel" where
  "SemaphoreCClear ulId s = (case EventOpen OBJECT_SEM_C LW_TYPE_EVENT_SEMC ulId s of
     Inl r \<Rightarrow> r
   | Inr (e, s1) \<Rightarrow> (ERROR_NONE, KERNEL_EXIT (event_upd e (\<lambda>ev. ev\<lparr>EVENT_ulCounter := 0\<rparr>) s1)))"

text \<open>The release loop; \<open>False\<close> when the counter is at its maximum.\<close>

fun SemaphoreCRelease_loop :: "nat \<Rightarrow> eid \<Rightarrow> kernel \<Rightarrow> bool \<times> kernel" where
  "SemaphoreCRelease_loop 0 e s = (True, s)"
| "SemaphoreCRelease_loop (Suc n) e s =
    (if EventWaitNum s EVENT_SEM_Q e \<noteq> 0 then
       SemaphoreCRelease_loop n e (snd (ReadyOne e EVENT_SEM_Q 0 LW_THREAD_STATUS_SEM s))
     else if EVENT_ulCounter (k_event s e) < EVENT_ulMaxCounter (k_event s e) then
       SemaphoreCRelease_loop n e (event_upd e (\<lambda>ev. ev\<lparr>EVENT_ulCounter := EVENT_ulCounter ev + 1\<rparr>) s)
     else (False, s))"

definition SemaphoreCRelease :: "ULONG \<Rightarrow> ULONG \<Rightarrow> bool \<Rightarrow> kernel \<Rightarrow> (ULONG \<times> ULONG option) \<times> kernel" where
  "SemaphoreCRelease ulId ulReleaseCounter pulPreviousCounter s =
    (if ulReleaseCounter = 0 then ((ERROR_EVENT_NULL, None), ErrorHandle ERROR_EVENT_NULL s)
     else case EventOpen OBJECT_SEM_C LW_TYPE_EVENT_SEMC ulId s of
       Inl (r, s1) \<Rightarrow> ((r, None), s1)
     | Inr (e, s1) \<Rightarrow> (let prev = outp pulPreviousCounter (EVENT_ulCounter (k_event s1 e));
           (all, s2) = SemaphoreCRelease_loop (unat ulReleaseCounter) e s1
         in if all then ((ERROR_NONE, prev), KERNEL_EXIT s2)
            else let (r, s3) = PostFull s s2 in ((r, prev), s3)))"

definition SemaphoreCStatus ::
  "ULONG \<Rightarrow> bool \<Rightarrow> bool \<Rightarrow> bool \<Rightarrow> kernel \<Rightarrow> (ULONG \<times> ULONG option \<times> ULONG option \<times> UINT16 option) \<times> kernel" where
  "SemaphoreCStatus ulId pulCounter pulOption pulThreadBlockNum s =
    (case EventOpen OBJECT_SEM_C LW_TYPE_EVENT_SEMC ulId s of
       Inl (r, s1) \<Rightarrow> ((r, None, None, None), s1)
     | Inr (e, s1) \<Rightarrow>
        ((ERROR_NONE, outp pulCounter (EVENT_ulCounter (k_event s1 e)),
          outp pulOption (EVENT_ulOption (k_event s1 e)),
          outp pulThreadBlockNum (EventWaitNum s1 EVENT_SEM_Q e)), KERNEL_EXIT s1))"

definition SemaphoreCStatusEx ::
  "ULONG \<Rightarrow> bool \<Rightarrow> bool \<Rightarrow> bool \<Rightarrow> bool \<Rightarrow> kernel \<Rightarrow>
    (ULONG \<times> ULONG option \<times> ULONG option \<times> UINT16 option \<times> ULONG option) \<times> kernel" where
  "SemaphoreCStatusEx ulId pulCounter pulOption pulThreadBlockNum pulMaxCounter s =
    (case EventOpen OBJECT_SEM_C LW_TYPE_EVENT_SEMC ulId s of
       Inl (r, s1) \<Rightarrow> ((r, None, None, None, None), s1)
     | Inr (e, s1) \<Rightarrow>
        ((ERROR_NONE, outp pulCounter (EVENT_ulCounter (k_event s1 e)),
          outp pulOption (EVENT_ulOption (k_event s1 e)),
          outp pulThreadBlockNum (EventWaitNum s1 EVENT_SEM_Q e),
          outp pulMaxCounter (EVENT_ulMaxCounter (k_event s1 e))), KERNEL_EXIT s1))"

section \<open>The abstract counting semaphore\<close>

record csem =
  cs_count :: nat
  cs_max :: nat
  cs_queue :: "tid list"               \<comment> \<open>in the order of service\<close>

definition csem_of :: "kernel \<Rightarrow> eid \<Rightarrow> csem" where
  "csem_of s e = \<lparr>cs_count = unat (EVENT_ulCounter (k_event s e)),
     cs_max = unat (EVENT_ulMaxCounter (k_event s e)), cs_queue = wait_order s e EVENT_SEM_Q\<rparr>"

definition csem_v :: "csem \<Rightarrow> bool \<times> csem" where
  "csem_v a = (case cs_queue a of
     t # ts \<Rightarrow> (True, a\<lparr>cs_queue := ts\<rparr>)
   | [] \<Rightarrow> if cs_count a < cs_max a then (True, a\<lparr>cs_count := cs_count a + 1\<rparr>) else (False, a))"

definition csem_p :: "csem \<Rightarrow> bool \<times> csem" where
  "csem_p a = (if cs_count a = 0 then (False, a) else (True, a\<lparr>cs_count := cs_count a - 1\<rparr>))"

definition csem_wf :: "csem \<Rightarrow> bool" where
  "csem_wf a \<longleftrightarrow> cs_count a \<le> cs_max a \<and> (cs_queue a \<noteq> [] \<longrightarrow> cs_count a = 0)"

lemma csem_wf_v: "csem_wf a \<Longrightarrow> csem_wf (snd (csem_v a))"
  by (auto simp: csem_wf_def csem_v_def split: list.splits)

lemma csem_wf_p: "csem_wf a \<Longrightarrow> csem_wf (snd (csem_p a))"
  by (auto simp: csem_wf_def csem_p_def)

lemma csem_of_cong:
  assumes "ev_core (k_event s' e) = ev_core (k_event s e)" "wait_order s' e EVENT_SEM_Q = wait_order s e EVENT_SEM_Q"
  shows "csem_of s' e = csem_of s e"
  using assms ev_core_eqD[OF assms(1)] by (simp add: csem_of_def)

lemma csem_of_reads [simp]:
  "csem_of (KERNEL_EXIT s) e = csem_of s e" "csem_of (KERNEL_ENTER s) e = csem_of s e"
  "csem_of (ErrorHandle_of ctx c s) e = csem_of s e"
  by (simp_all add: csem_of_def)

lemma csem_of_counter:
  "csem_of (event_upd e (\<lambda>ev. ev\<lparr>EVENT_ulCounter := a ev\<rparr>) s) e = (csem_of s e)\<lparr>cs_count := unat (a (k_event s e))\<rparr>"
  using event_upd_reads(3)[of "\<lambda>ev. ev\<lparr>EVENT_ulCounter := a ev\<rparr>" s e e 0]
  by (simp add: csem_of_def)

lemma csem_queue_ok [simp]:
  "queue_ok (event_upd e (\<lambda>ev. ev\<lparr>EVENT_ulCounter := a ev\<rparr>) s) e \<longleftrightarrow> queue_ok s e"
  by (rule queue_ok_event_upd) simp

section \<open>The routines refine it\<close>

text \<open>One step of posting, shared by \<open>Post\<close> and \<open>Release\<close>.\<close>

lemma ready_csem:
  assumes st: "queue_ok s e" and ne: "EventWaitNum s EVENT_SEM_Q e \<noteq> 0"
  defines "s' \<equiv> snd (ReadyOne e EVENT_SEM_Q 0 LW_THREAD_STATUS_SEM s)"
  shows "queue_ok s' e" "csem_v (csem_of s e) = (True, csem_of s' e)"
proof -
  note r = ReadyOne_queue[OF st ne, where m = 0, folded s'_def]
  show "queue_ok s' e" by (rule r(1))
  show "csem_v (csem_of s e) = (True, csem_of s' e)"
    using ev_core_eqD[OF r(3)[of e]] r(2) by (simp add: csem_v_def csem_of_def)
qed

lemma incr_csem:
  assumes "queue_ok s e" "EventWaitNum s EVENT_SEM_Q e = 0"
    "EVENT_ulCounter (k_event s e) < EVENT_ulMaxCounter (k_event s e)"
  shows "csem_v (csem_of s e) = (True, csem_of (event_upd e (\<lambda>ev. ev\<lparr>EVENT_ulCounter := EVENT_ulCounter ev + 1\<rparr>) s) e)"
proof -
  have "wait_order s e 0 = []" using assms(1,2) wait_order_empty by (simp add: queue_ok_def kinv_wait)
  then show ?thesis using assms(3) unat_add1[OF assms(3)]
    by (simp add: csem_v_def csem_of_counter) (simp add: csem_of_def word_less_nat_alt)
qed

lemma full_csem:
  assumes "queue_ok s e" "EventWaitNum s EVENT_SEM_Q e = 0"
    "\<not> EVENT_ulCounter (k_event s e) < EVENT_ulMaxCounter (k_event s e)"
  shows "csem_v (csem_of s e) = (False, csem_of s e)"
  using assms wait_order_empty[of s e 0] by (simp add: csem_v_def csem_of_def queue_ok_def kinv_wait word_less_nat_alt)

lemma SemaphoreCPost_refines:
  assumes st: "queue_ok s e" and h: "handle OBJECT_SEM_C LW_TYPE_EVENT_SEMC s ulId e"
  shows "queue_ok (snd (SemaphoreCPost ulId s)) e"
    "csem_v (csem_of s e) = (fst (SemaphoreCPost ulId s) = ERROR_NONE, csem_of (snd (SemaphoreCPost ulId s)) e)"
    "fst (SemaphoreCPost ulId s) \<in> {ERROR_NONE, ERROR_EVENT_FULL}"
proof -
  let ?s1 = "KERNEL_ENTER s"
  have st1: "queue_ok ?s1 e" using st by simp
  note P = SemaphoreCPost_def[of ulId s, unfolded EventOpen_handle[OF h]]
  show "queue_ok (snd (SemaphoreCPost ulId s)) e"
    using st1 ready_csem(1)[OF st1] by (auto simp: P PostFull_def simp del: queue_ok_reads(2))
  show "csem_v (csem_of s e) = (fst (SemaphoreCPost ulId s) = ERROR_NONE, csem_of (snd (SemaphoreCPost ulId s)) e)"
    using ready_csem(2)[OF st1] incr_csem[OF st1] full_csem[OF st1] by (auto simp: P PostFull_def)
  show "fst (SemaphoreCPost ulId s) \<in> {ERROR_NONE, ERROR_EVENT_FULL}" by (auto simp: P PostFull_def)
qed

lemma decr_csem:
  assumes "EVENT_ulCounter (k_event s e) \<noteq> 0"
  shows "csem_p (csem_of s e) = (True, csem_of (event_upd e (\<lambda>ev. ev\<lparr>EVENT_ulCounter := EVENT_ulCounter ev - 1\<rparr>) s) e)"
  using word_pos_Suc_unat[OF assms] assms
  by (simp add: csem_p_def csem_of_counter) (simp add: csem_of_def unat_eq_0)

lemma SemaphoreCTryPend_refines:
  assumes st: "queue_ok s e" and h: "handle OBJECT_SEM_C LW_TYPE_EVENT_SEMC s ulId e"
  shows "queue_ok (snd (SemaphoreCTryPend ulId s)) e"
    "csem_p (csem_of s e) = (fst (SemaphoreCTryPend ulId s) = ERROR_NONE, csem_of (snd (SemaphoreCTryPend ulId s)) e)"
proof -
  let ?s1 = "KERNEL_ENTER s"
  have st1: "queue_ok ?s1 e" using st by simp
  note P = SemaphoreCTryPend_def[of ulId s, unfolded EventOpen_handle[OF h]]
  show "queue_ok (snd (SemaphoreCTryPend ulId s)) e"
    using st1 by (auto simp: P simp del: queue_ok_reads(2))
  show "csem_p (csem_of s e) = (fst (SemaphoreCTryPend ulId s) = ERROR_NONE, csem_of (snd (SemaphoreCTryPend ulId s)) e)"
    using decr_csem[of ?s1 e] by (auto simp: P) (simp_all add: csem_p_def csem_of_def)
qed

text \<open>\<open>Pend\<close>: taken, refused, or queued where the option says.\<close>

definition csem_join :: "bool \<Rightarrow> (tid \<Rightarrow> UINT8) \<Rightarrow> tid \<Rightarrow> csem \<Rightarrow> csem" where
  "csem_join prio pr t a = a\<lparr>cs_queue := enqueue prio pr t (cs_queue a)\<rparr>"

lemma pend_csem:
  fixes ulTimeout :: ULONG
  assumes st: "queue_ok s e" and t: "runs s t"
  defines "s' \<equiv> PendBlock e EVENT_SEM_Q LW_THREAD_STATUS_SEM ulTimeout s"
  shows "queue_ok s' e" "csem_of s' e = csem_join (by_prio s e) (tcb_prio s) t (csem_of s e)"
    "ready_set s' = ready_set s - {t}" "EVENT_ulOption (k_event s' e) = EVENT_ulOption (k_event s e)"
proof -
  note b = PendBlock_queue[OF st t, where ulTimeout = ulTimeout, folded s'_def]
  show "queue_ok s' e" "ready_set s' = ready_set s - {t}" "EVENT_ulOption (k_event s' e) = EVENT_ulOption (k_event s e)"
    by (rule b)+
  show "csem_of s' e = csem_join (by_prio s e) (tcb_prio s) t (csem_of s e)"
    using ev_core_eqD[OF b(4)[of e]] b(2) by (simp add: csem_of_def csem_join_def)
qed

lemma SemaphoreCPend_refines:
  fixes ulTimeout :: ULONG
  assumes st: "queue_ok s e" and h: "handle OBJECT_SEM_C LW_TYPE_EVENT_SEMC s ulId e"
    and n: "LW_CPU_GET_CUR_NESTING s = 0" and t: "runs s t"
  defines "r \<equiv> SemaphoreCPend ulId ulTimeout s"
  shows "queue_ok (snd r) e"
    "cs_count (csem_of s e) > 0 \<Longrightarrow> fst r = Done ERROR_NONE \<and> csem_of (snd r) e = snd (csem_p (csem_of s e))"
    "\<lbrakk>cs_count (csem_of s e) = 0; ulTimeout = LW_OPTION_NOT_WAIT\<rbrakk> \<Longrightarrow>
       fst r = Done ERROR_THREAD_WAIT_TIMEOUT \<and> csem_of (snd r) e = csem_of s e"
    "\<lbrakk>cs_count (csem_of s e) = 0; ulTimeout \<noteq> LW_OPTION_NOT_WAIT\<rbrakk> \<Longrightarrow>
       fst r = Blocked ulTimeout (KERNEL_TIME_GET s) (EVENT_ulOption (k_event s e))
       \<and> csem_of (snd r) e = csem_join (by_prio s e) (tcb_prio s) t (csem_of s e)
       \<and> t \<notin> ready_set (snd r)"
proof -
  let ?s1 = "KERNEL_ENTER s"
  have st1: "queue_ok ?s1 e" and t1: "runs ?s1 t" using st t by simp_all
  note b = pend_csem[OF st1 t1, where ulTimeout = ulTimeout]
  have P: "r = (if EVENT_ulCounter (k_event s e) \<noteq> 0 then
         (Done ERROR_NONE, KERNEL_EXIT (event_upd e (\<lambda>ev. ev\<lparr>EVENT_ulCounter := EVENT_ulCounter ev - 1\<rparr>) ?s1))
       else if ulTimeout = LW_OPTION_NOT_WAIT then
         (Done ERROR_THREAD_WAIT_TIMEOUT, ErrorHandle_of s ERROR_THREAD_WAIT_TIMEOUT (KERNEL_EXIT ?s1))
       else (Blocked ulTimeout (KERNEL_TIME_GET s) (EVENT_ulOption (k_event s e)),
             KERNEL_EXIT (PendBlock e EVENT_SEM_Q LW_THREAD_STATUS_SEM ulTimeout ?s1)))"
    using n b(4) by (simp add: r_def SemaphoreCPend_def SemaphoreCPend_again_def EventOpen_handle[OF h] Let_def
        KERNEL_TIME_GET_def KERNEL_ENTER_def)
  have z: "cs_count (csem_of s e) = 0 \<longleftrightarrow> EVENT_ulCounter (k_event s e) = 0"
    by (simp add: csem_of_def unat_eq_0)
  show "queue_ok (snd r) e" using st1 b(1) by (auto simp: P simp del: queue_ok_reads(2))
  show "cs_count (csem_of s e) > 0 \<Longrightarrow> fst r = Done ERROR_NONE \<and> csem_of (snd r) e = snd (csem_p (csem_of s e))"
    using decr_csem[of ?s1 e] z by (auto simp: P)
  show "\<lbrakk>cs_count (csem_of s e) = 0; ulTimeout = LW_OPTION_NOT_WAIT\<rbrakk> \<Longrightarrow>
       fst r = Done ERROR_THREAD_WAIT_TIMEOUT \<and> csem_of (snd r) e = csem_of s e"
    using z by (auto simp: P)
  show "\<lbrakk>cs_count (csem_of s e) = 0; ulTimeout \<noteq> LW_OPTION_NOT_WAIT\<rbrakk> \<Longrightarrow>
       fst r = Blocked ulTimeout (KERNEL_TIME_GET s) (EVENT_ulOption (k_event s e))
       \<and> csem_of (snd r) e = csem_join (by_prio s e) (tcb_prio s) t (csem_of s e)
       \<and> t \<notin> ready_set (snd r)"
    using z b(2,3) by (auto simp: P)
qed

text \<open>\<open>Release n\<close> is \<open>n\<close> posts, up to the first that is refused.\<close>

fun csem_vs :: "nat \<Rightarrow> csem \<Rightarrow> bool \<times> csem" where
  "csem_vs 0 a = (True, a)"
| "csem_vs (Suc n) a = (case csem_v a of (True, a') \<Rightarrow> csem_vs n a' | (False, a') \<Rightarrow> (False, a'))"

lemma Release_loop_refines:
  assumes "queue_ok s e"
  shows "queue_ok (snd (SemaphoreCRelease_loop n e s)) e \<and>
    csem_vs n (csem_of s e) = (fst (SemaphoreCRelease_loop n e s), csem_of (snd (SemaphoreCRelease_loop n e s)) e)"
  using assms
proof (induction n arbitrary: s)
  case (Suc n)
  note st = Suc.prems
  consider "EventWaitNum s EVENT_SEM_Q e \<noteq> 0"
    | "EventWaitNum s EVENT_SEM_Q e = 0" "EVENT_ulCounter (k_event s e) < EVENT_ulMaxCounter (k_event s e)"
    | "EventWaitNum s EVENT_SEM_Q e = 0" "\<not> EVENT_ulCounter (k_event s e) < EVENT_ulMaxCounter (k_event s e)" by blast
  then show ?case
  proof cases
    case 1
    then show ?thesis using Suc.IH[OF ready_csem(1)[OF st 1]] ready_csem(2)[OF st 1] by simp
  next
    case 2
    then show ?thesis
      using Suc.IH[of "event_upd e (\<lambda>ev. ev\<lparr>EVENT_ulCounter := EVENT_ulCounter ev + 1\<rparr>) s"] st incr_csem[OF st 2] by simp
  next
    case 3
    then show ?thesis using st full_csem[OF st 3] by simp
  qed
qed simp

lemma SemaphoreCRelease_refines:
  fixes p :: bool
  assumes st: "queue_ok s e" and h: "handle OBJECT_SEM_C LW_TYPE_EVENT_SEMC s ulId e" and n: "ulReleaseCounter \<noteq> 0"
  defines "r \<equiv> SemaphoreCRelease ulId ulReleaseCounter p s"
  shows "queue_ok (snd r) e" "csem_vs (unat ulReleaseCounter) (csem_of s e) = (fst (fst r) = ERROR_NONE, csem_of (snd r) e)"
    "snd (fst r) = outp p (EVENT_ulCounter (k_event s e))"
proof -
  let ?l = "SemaphoreCRelease_loop (unat ulReleaseCounter) e (KERNEL_ENTER s)"
  have st1: "queue_ok (KERNEL_ENTER s) e" using st by simp
  note L = Release_loop_refines[OF st1, of "unat ulReleaseCounter"]
  have r: "r = (if fst ?l then ((ERROR_NONE, outp p (EVENT_ulCounter (k_event s e))), KERNEL_EXIT (snd ?l))
      else ((ERROR_EVENT_FULL, outp p (EVENT_ulCounter (k_event s e))), ErrorHandle_of s ERROR_EVENT_FULL (KERNEL_EXIT (snd ?l))))"
    using n by (simp add: r_def SemaphoreCRelease_def EventOpen_handle[OF h] Let_def split_beta PostFull_def)
  show "queue_ok (snd r) e" "csem_vs (unat ulReleaseCounter) (csem_of s e) = (fst (fst r) = ERROR_NONE, csem_of (snd r) e)"
    "snd (fst r) = outp p (EVENT_ulCounter (k_event s e))"
    using L by (auto simp: r)
qed

lemma csem_wf_vs: "csem_wf a \<Longrightarrow> csem_wf (snd (csem_vs n a))"
proof (induction n arbitrary: a)
  case (Suc n)
  then show ?case using csem_wf_v[OF Suc.prems] by (auto split: prod.splits bool.splits)
qed simp

text \<open>What a release that fits does: the first \<open>n\<close> waiters are served, the rest is counted.\<close>

lemma csem_vs_fits:
  assumes "csem_wf a" "n \<le> length (cs_queue a) + (cs_max a - cs_count a)"
  shows "csem_vs n a = (True, a\<lparr>cs_queue := drop n (cs_queue a), cs_count := cs_count a + (n - length (cs_queue a))\<rparr>)"
  using assms
proof (induction n arbitrary: a)
  case (Suc n)
  show ?case
  proof (cases "cs_queue a")
    case Nil
    let ?a = "a\<lparr>cs_count := cs_count a + 1\<rparr>"
    have v: "csem_v a = (True, ?a)" using Suc.prems Nil by (simp add: csem_v_def)
    have "csem_wf ?a" using csem_wf_v[OF Suc.prems(1)] v by simp
    from Suc.IH[OF this] Suc.prems Nil v show ?thesis by (cases a) auto
  next
    case (Cons t ts)
    let ?a = "a\<lparr>cs_queue := ts\<rparr>"
    have v: "csem_v a = (True, ?a)" using Cons by (simp add: csem_v_def)
    have "csem_wf ?a" using csem_wf_v[OF Suc.prems(1)] v by simp
    from Suc.IH[OF this] Suc.prems Cons v show ?thesis by (cases a) auto
  qed
qed (cases a, simp)

lemma csem_vs_overflow:
  assumes "csem_wf a" "length (cs_queue a) + (cs_max a - cs_count a) < n"
  shows "csem_vs n a = (False, a\<lparr>cs_queue := [], cs_count := cs_max a\<rparr>)"
  using assms
proof (induction n arbitrary: a)
  case (Suc n)
  show ?case
  proof (cases "cs_queue a")
    case Nil
    show ?thesis
    proof (cases "cs_count a < cs_max a")
      case True
      let ?a = "a\<lparr>cs_count := cs_count a + 1\<rparr>"
      have v: "csem_v a = (True, ?a)" using Nil True by (simp add: csem_v_def)
      have "csem_wf ?a" using Suc.prems(1) Nil True by (simp add: csem_wf_def)
      then have "csem_vs n ?a = (False, ?a\<lparr>cs_queue := [], cs_count := cs_max ?a\<rparr>)"
        by (rule Suc.IH) (use Suc.prems(2) Nil True in simp)
      then show ?thesis by (simp add: v)
    next
      case False
      then have "cs_count a = cs_max a" using Suc.prems(1) by (simp add: csem_wf_def)
      then show ?thesis using Nil by (cases a) (simp add: csem_v_def)
    qed
  next
    case (Cons t ts)
    let ?a = "a\<lparr>cs_queue := ts\<rparr>"
    have v: "csem_v a = (True, ?a)" using Cons by (simp add: csem_v_def)
    have "csem_wf ?a" using Suc.prems(1) Cons by (simp add: csem_wf_def)
    then have "csem_vs n ?a = (False, ?a\<lparr>cs_queue := [], cs_count := cs_max ?a\<rparr>)"
      by (rule Suc.IH) (use Suc.prems(2) Cons in simp)
    then show ?thesis by (simp add: v)
  qed
qed simp

section \<open>Flush, clear, delete and create\<close>

lemma SemaphoreCFlush_ok:
  fixes p :: bool
  assumes k: "kinv s" and h: "handle OBJECT_SEM_C LW_TYPE_EVENT_SEMC s ulId e"
  defines "r \<equiv> SemaphoreCFlush ulId p s"
  shows "fst r = (ERROR_NONE, outp p (EventWaitNum s EVENT_SEM_Q e))"
    "drained False e EVENT_SEM_Q LW_THREAD_STATUS_SEM s (snd r)"
  using Flush_drained[OF k, of e EVENT_SEM_Q LW_THREAD_STATUS_SEM]
  by (simp_all add: r_def SemaphoreCFlush_def EventOpen_handle[OF h] Let_def)

lemma SemaphoreCClear_ok:
  assumes st: "queue_ok s e" and h: "handle OBJECT_SEM_C LW_TYPE_EVENT_SEMC s ulId e"
  shows "fst (SemaphoreCClear ulId s) = ERROR_NONE" "queue_ok (snd (SemaphoreCClear ulId s)) e"
    "csem_of (snd (SemaphoreCClear ulId s)) e = (csem_of s e)\<lparr>cs_count := 0\<rparr>"
  using st by (simp_all add: SemaphoreCClear_def EventOpen_handle[OF h] csem_of_counter)

lemma SemaphoreCDelete_ok:
  assumes o: "one_q s e" and h: "handle OBJECT_SEM_C LW_TYPE_EVENT_SEMC s ulId e" and n: "LW_CPU_GET_CUR_NESTING s = 0"
    and e: "e < LW_CFG_MAX_EVENTS"
  defines "s' \<equiv> snd (snd (SemaphoreCDelete ulId s))"
  shows "fst (SemaphoreCDelete ulId s) = ERROR_NONE" "fst (snd (SemaphoreCDelete ulId s)) = 0"
    "kinv s'" "pool_inv s'" "k_freeEvents s' = k_freeEvents s @ [e]"
    "EVENT_ucType (k_event s' e) = LW_TYPE_EVENT_UNUSED"
    "\<forall>t\<in>waiters s e EVENT_SEM_Q. tcb_status s' t = woken_status LW_THREAD_STATUS_SEM (tcb_status s t)
       \<and> TCB_ucIsEventDelete (k_tcb s' t) = LW_EVENT_DELETE \<and> TCB_ucWaitTimeout (k_tcb s' t) = LW_WAIT_TIME_CLEAR"
proof -
  have o1: "one_q (KERNEL_ENTER s) e" using o by simp
  note d = Delete_ok[OF o1 e refl refl refl refl, where ty = LW_THREAD_STATUS_SEM]
  have s': "s' = KERNEL_EXIT (Free_Event_Object e (event_upd e (\<lambda>ev. ev\<lparr>EVENT_pvTcbOwn := None\<rparr>)
      (DeleteLoop (unat (EventWaitNum (event_upd e (\<lambda>ev. ev\<lparr>EVENT_ucType := LW_TYPE_EVENT_UNUSED\<rparr>) (KERNEL_ENTER s)) EVENT_SEM_Q e)) e
        EVENT_SEM_Q LW_THREAD_STATUS_SEM (event_upd e (\<lambda>ev. ev\<lparr>EVENT_ucType := LW_TYPE_EVENT_UNUSED\<rparr>) (KERNEL_ENTER s)))))"
    unfolding s'_def SemaphoreCDelete_def EventOpen_handle[OF h] Let_def using n by simp
  show "fst (SemaphoreCDelete ulId s) = ERROR_NONE" "fst (snd (SemaphoreCDelete ulId s)) = 0"
    using n by (simp_all add: SemaphoreCDelete_def EventOpen_handle[OF h] Let_def)
  show "kinv s'" "pool_inv s'" "k_freeEvents s' = k_freeEvents s @ [e]"
    "EVENT_ucType (k_event s' e) = LW_TYPE_EVENT_UNUSED"
    "\<forall>t\<in>waiters s e EVENT_SEM_Q. tcb_status s' t = woken_status LW_THREAD_STATUS_SEM (tcb_status s t)
       \<and> TCB_ucIsEventDelete (k_tcb s' t) = LW_EVENT_DELETE \<and> TCB_ucWaitTimeout (k_tcb s' t) = LW_WAIT_TIME_CLEAR"
    unfolding s' using d(1-4,6) by simp_all
qed

lemma SemaphoreCCreate_ok:
  fixes ulOption :: ULONG
  assumes k: "kinv s" "pool_inv s" "k_freeEvents s \<noteq> []" and n: "LW_CPU_GET_CUR_NESTING s = 0"
    and a: "ulMaxCounter \<noteq> 0" "ulInitCounter \<le> ulMaxCounter" "\<not> Object_Name_Invalid pcName"
  defines "r \<equiv> SemaphoreCCreate pcName ulInitCounter ulMaxCounter ulOption s" and "e \<equiv> hd (k_freeEvents s)"
  shows "handle OBJECT_SEM_C LW_TYPE_EVENT_SEMC (snd r) (fst r) e" "one_q (snd r) e"
    "csem_of (snd r) e = \<lparr>cs_count = unat ulInitCounter, cs_max = unat ulMaxCounter, cs_queue = []\<rparr>"
    "EVENT_ulOption (k_event (snd r) e) = ulOption" "k_freeEvents (snd r) = tl (k_freeEvents s)"
proof -
  obtain o1 s1 where al: "EventAlloc s = (o1, s1)" by fastforce
  have "o1 \<noteq> None" using EventAlloc_ok(6)[OF k(1,2) al] k(3) by simp
  then obtain e' where o1: "o1 = Some e'" by auto
  let ?f = "\<lambda>ev. ev\<lparr>EVENT_cEventName := event_name pcName,
            EVENT_ucType := LW_TYPE_EVENT_SEMC, EVENT_ulCounter := ulInitCounter,
            EVENT_ulMaxCounter := ulMaxCounter, EVENT_ulOption := ulOption,
            EVENT_pvPtr := 0, EVENT_pvTcbOwn := None,
            EVENT_wqWaitQ := (EVENT_wqWaitQ ev)(0 := WQ_INIT, 1 := WQ_INIT)\<rparr>"
  note c = Create_ok[where f = ?f, OF k(1,2) al[unfolded o1] _ refl]
  have ee: "e' = e" using c(3) by (simp add: e_def)
  have r: "r = (MakeObjectId OBJECT_SEM_C LW_CFG_PROCESSOR_NUMBER (of_nat e), event_upd e ?f s1)"
    using n a al by (simp add: r_def SemaphoreCCreate_def o1 ee not_less[symmetric])
  have ev: "k_event (snd r) e = ?f (k_event s e)" using c(5) by (simp add: r ee del: event_upd_simps(1))
  show "handle OBJECT_SEM_C LW_TYPE_EVENT_SEMC (snd r) (fst r) e"
    unfolding r fst_conv snd_conv by (rule handle_Make) (use c(4) ev ee in \<open>simp_all add: r del: event_upd_simps(1)\<close>)
  show "one_q (snd r) e" using c(1) by (simp add: r ee del: event_upd_simps(1))
  have "wait_order (snd r) e EVENT_SEM_Q = []" using c(2) by (simp add: r ee del: event_upd_simps(1))
  then show "csem_of (snd r) e = \<lparr>cs_count = unat ulInitCounter, cs_max = unat ulMaxCounter, cs_queue = []\<rparr>"
    by (simp add: csem_of_def ev)
  show "EVENT_ulOption (k_event (snd r) e) = ulOption" by (simp add: ev)
  show "k_freeEvents (snd r) = tl (k_freeEvents s)" using c(3) by (simp add: r ee)
qed

end
