(* ===== verification/Sem_Binary.thy ===== *)
theory Sem_Binary
  imports Event_Api
begin

text \<open>
  Binary semaphores: the routines \<open>API_SemaphoreB*\<close> of kernel/interface.  A post may
  carry a message pointer, which the next \<open>PendEx\<close> receives.
\<close>

section \<open>Operations\<close>

definition SemaphoreBCreate :: "string option \<Rightarrow> ULONG \<Rightarrow> ULONG \<Rightarrow> kernel \<Rightarrow> ULONG \<times> kernel" where
  "SemaphoreBCreate pcName bInitValue ulOption s =
    (if LW_CPU_GET_CUR_NESTING s \<noteq> 0 then (0, ErrorHandle ERROR_KERNEL_IN_ISR s)
     else if Object_Name_Invalid pcName then (0, ErrorHandle ERROR_KERNEL_PNAME_TOO_LONG s)
     else case EventAlloc s of
       (None, s1) \<Rightarrow> (0, ErrorHandle_of s ERROR_EVENT_FULL s1)
     | (Some e, s1) \<Rightarrow>
         (MakeObjectId OBJECT_SEM_B LW_CFG_PROCESSOR_NUMBER (of_nat e),
          event_upd e (\<lambda>ev. ev\<lparr>EVENT_cEventName := event_name pcName,
            EVENT_ucType := LW_TYPE_EVENT_SEMB, EVENT_ulCounter := bInitValue,
            EVENT_ulMaxCounter := 1, EVENT_ulOption := ulOption,
            EVENT_pvPtr := 0, EVENT_pvTcbOwn := None,
            EVENT_wqWaitQ := (EVENT_wqWaitQ ev)(0 := WQ_INIT, 1 := WQ_INIT)\<rparr>) s1))"

definition SemaphoreBDelete :: "ULONG \<Rightarrow> kernel \<Rightarrow> ULONG \<times> ULONG \<times> kernel" where
  "SemaphoreBDelete ulId s =
    (if LW_CPU_GET_CUR_NESTING s \<noteq> 0 then (ERROR_KERNEL_IN_ISR, ulId, ErrorHandle ERROR_KERNEL_IN_ISR s)
     else case EventOpen OBJECT_SEM_B LW_TYPE_EVENT_SEMB ulId s of
       Inl (r, s1) \<Rightarrow> (r, ulId, s1)
     | Inr (e, s1) \<Rightarrow> (let
           s2 = event_upd e (\<lambda>ev. ev\<lparr>EVENT_ucType := LW_TYPE_EVENT_UNUSED\<rparr>) s1;
           s3 = DeleteLoop (unat (EventWaitNum s2 EVENT_SEM_Q e)) e EVENT_SEM_Q LW_THREAD_STATUS_SEM s2;
           s4 = event_upd e (\<lambda>ev. ev\<lparr>EVENT_pvTcbOwn := None\<rparr>) s3
         in (ERROR_NONE, 0, KERNEL_EXIT (Free_Event_Object e s4))))"

text \<open>The label \<open>__wait_again\<close> of \<open>API_SemaphoreBPend\<close>.\<close>

definition SemaphoreBPend_again :: "ULONG \<Rightarrow> ULONG \<Rightarrow> kernel \<Rightarrow> pend_out \<times> kernel" where
  "SemaphoreBPend_again ulId ulTimeout s = (case EventOpen OBJECT_SEM_B LW_TYPE_EVENT_SEMB ulId s of
     Inl (r, s1) \<Rightarrow> (Done r, s1)
   | Inr (e, s1) \<Rightarrow>
       if EVENT_ulCounter (k_event s1 e) \<noteq> 0 then
         (Done ERROR_NONE, KERNEL_EXIT (event_upd e (\<lambda>ev. ev\<lparr>EVENT_ulCounter := 0\<rparr>) s1))
       else if ulTimeout = LW_OPTION_NOT_WAIT then
         (Done ERROR_THREAD_WAIT_TIMEOUT, ErrorHandle_of s ERROR_THREAD_WAIT_TIMEOUT (KERNEL_EXIT s1))
       else (let s2 = PendBlock e EVENT_SEM_Q LW_THREAD_STATUS_SEM ulTimeout s1
             in (Blocked ulTimeout (KERNEL_TIME_GET s1) (EVENT_ulOption (k_event s2 e)), KERNEL_EXIT s2)))"

definition SemaphoreBPend :: "ULONG \<Rightarrow> ULONG \<Rightarrow> kernel \<Rightarrow> pend_out \<times> kernel" where
  "SemaphoreBPend ulId ulTimeout s =
    (if LW_CPU_GET_CUR_NESTING s \<noteq> 0 then (Done ERROR_KERNEL_IN_ISR, ErrorHandle ERROR_KERNEL_IN_ISR s)
     else SemaphoreBPend_again ulId ulTimeout s)"

definition SemaphoreBPend_wake :: "ULONG \<Rightarrow> ULONG \<Rightarrow> ULONG \<Rightarrow> ULONG \<Rightarrow> kernel \<Rightarrow> pend_out \<times> kernel" where
  "SemaphoreBPend_wake ulId ulTimeout ulTimeSave ulEventOption s =
    (case PendWake ulTimeout ulTimeSave ulEventOption s of
       (WakeDone r, s1) \<Rightarrow> (Done r, s1)
     | (WakeAgain ulTimeout', s1) \<Rightarrow> SemaphoreBPend_again ulId ulTimeout' s1)"

text \<open>\<open>API_SemaphoreBPendEx\<close>: the second component is what \<open>*ppvMsgPtr\<close> receives.\<close>

definition SemaphoreBPendEx_again ::
  "ULONG \<Rightarrow> ULONG \<Rightarrow> bool \<Rightarrow> kernel \<Rightarrow> (pend_out \<times> ULONG option) \<times> kernel" where
  "SemaphoreBPendEx_again ulId ulTimeout ppvMsgPtr s = (case EventOpen OBJECT_SEM_B LW_TYPE_EVENT_SEMB ulId s of
     Inl (r, s1) \<Rightarrow> ((Done r, None), s1)
   | Inr (e, s1) \<Rightarrow>
       if EVENT_ulCounter (k_event s1 e) \<noteq> 0 then
         (let s2 = event_upd e (\<lambda>ev. ev\<lparr>EVENT_ulCounter := 0\<rparr>) s1
          in ((Done ERROR_NONE, outp ppvMsgPtr (EVENT_pvPtr (k_event s2 e))), KERNEL_EXIT s2))
       else if ulTimeout = LW_OPTION_NOT_WAIT then
         ((Done ERROR_THREAD_WAIT_TIMEOUT, None), ErrorHandle_of s ERROR_THREAD_WAIT_TIMEOUT (KERNEL_EXIT s1))
       else (let s2 = PendBlock e EVENT_SEM_Q LW_THREAD_STATUS_SEM ulTimeout s1
             in ((Blocked ulTimeout (KERNEL_TIME_GET s1) (EVENT_ulOption (k_event s2 e)), None), KERNEL_EXIT s2)))"

definition SemaphoreBPendEx :: "ULONG \<Rightarrow> ULONG \<Rightarrow> bool \<Rightarrow> kernel \<Rightarrow> (pend_out \<times> ULONG option) \<times> kernel" where
  "SemaphoreBPendEx ulId ulTimeout ppvMsgPtr s =
    (if LW_CPU_GET_CUR_NESTING s \<noteq> 0 then ((Done ERROR_KERNEL_IN_ISR, None), ErrorHandle ERROR_KERNEL_IN_ISR s)
     else SemaphoreBPendEx_again ulId ulTimeout ppvMsgPtr s)"

definition SemaphoreBPendEx_wake ::
  "ULONG \<Rightarrow> ULONG \<Rightarrow> ULONG \<Rightarrow> ULONG \<Rightarrow> bool \<Rightarrow> kernel \<Rightarrow> (pend_out \<times> ULONG option) \<times> kernel" where
  "SemaphoreBPendEx_wake ulId ulTimeout ulTimeSave ulEventOption ppvMsgPtr s =
    (case PendWake ulTimeout ulTimeSave ulEventOption s of
       (WakeDone r, s1) \<Rightarrow>
         ((Done r, if r = ERROR_NONE then outp ppvMsgPtr (TCB_pvMsgBoxMessage (k_tcb s1 (LW_TCB_GET_CUR s))) else None), s1)
     | (WakeAgain ulTimeout', s1) \<Rightarrow> SemaphoreBPendEx_again ulId ulTimeout' ppvMsgPtr s1)"

definition SemaphoreBTryPend :: "ULONG \<Rightarrow> kernel \<Rightarrow> ULONG \<times> kernel" where
  "SemaphoreBTryPend ulId s = (case EventOpen OBJECT_SEM_B LW_TYPE_EVENT_SEMB ulId s of
     Inl r \<Rightarrow> r
   | Inr (e, s1) \<Rightarrow>
       if EVENT_ulCounter (k_event s1 e) \<noteq> 0 then
         (ERROR_NONE, KERNEL_EXIT (event_upd e (\<lambda>ev. ev\<lparr>EVENT_ulCounter := 0\<rparr>) s1))
       else (ERROR_THREAD_WAIT_TIMEOUT, ErrorHandle_of s ERROR_THREAD_WAIT_TIMEOUT (KERNEL_EXIT s1)))"

definition SemaphoreBPost :: "ULONG \<Rightarrow> kernel \<Rightarrow> ULONG \<times> kernel" where
  "SemaphoreBPost ulId s = (case EventOpen OBJECT_SEM_B LW_TYPE_EVENT_SEMB ulId s of
     Inl r \<Rightarrow> r
   | Inr (e, s1) \<Rightarrow>
       if EventWaitNum s1 EVENT_SEM_Q e \<noteq> 0 then
         (ERROR_NONE, KERNEL_EXIT (snd (ReadyOne e EVENT_SEM_Q 0 LW_THREAD_STATUS_SEM s1)))
       else if EVENT_ulCounter (k_event s1 e) = 0 then
         (ERROR_NONE, KERNEL_EXIT (event_upd e (\<lambda>ev. ev\<lparr>EVENT_ulCounter := 1\<rparr>) s1))
       else PostFull s s1)"

text \<open>\<open>*pulId\<close> is cleared first, and set to the handle of the woken thread.\<close>

definition SemaphoreBPost2 :: "ULONG \<Rightarrow> bool \<Rightarrow> kernel \<Rightarrow> (ULONG \<times> ULONG option) \<times> kernel" where
  "SemaphoreBPost2 ulId pulId s = (case EventOpen OBJECT_SEM_B LW_TYPE_EVENT_SEMB ulId s of
     Inl (r, s1) \<Rightarrow> ((r, outp pulId 0), s1)
   | Inr (e, s1) \<Rightarrow>
       if EventWaitNum s1 EVENT_SEM_Q e \<noteq> 0 then
         (let (t, s2) = ReadyOne e EVENT_SEM_Q 0 LW_THREAD_STATUS_SEM s1
          in ((ERROR_NONE, outp pulId (ThreadId t)), KERNEL_EXIT s2))
       else if EVENT_ulCounter (k_event s1 e) = 0 then
         ((ERROR_NONE, outp pulId 0), KERNEL_EXIT (event_upd e (\<lambda>ev. ev\<lparr>EVENT_ulCounter := 1\<rparr>) s1))
       else let (r, s2) = PostFull s s1 in ((r, outp pulId 0), s2))"

definition SemaphoreBPostEx :: "ULONG \<Rightarrow> ULONG \<Rightarrow> kernel \<Rightarrow> ULONG \<times> kernel" where
  "SemaphoreBPostEx ulId pvMsgPtr s = (case EventOpen OBJECT_SEM_B LW_TYPE_EVENT_SEMB ulId s of
     Inl r \<Rightarrow> r
   | Inr (e, s1) \<Rightarrow>
       if EventWaitNum s1 EVENT_SEM_Q e \<noteq> 0 then
         (ERROR_NONE, KERNEL_EXIT (snd (ReadyOne e EVENT_SEM_Q pvMsgPtr LW_THREAD_STATUS_SEM s1)))
       else if EVENT_ulCounter (k_event s1 e) = 0 then
         (ERROR_NONE, KERNEL_EXIT (event_upd e (\<lambda>ev. ev\<lparr>EVENT_ulCounter := 1, EVENT_pvPtr := pvMsgPtr\<rparr>) s1))
       else PostFull s s1)"

definition SemaphoreBPostEx2 :: "ULONG \<Rightarrow> ULONG \<Rightarrow> bool \<Rightarrow> kernel \<Rightarrow> (ULONG \<times> ULONG option) \<times> kernel" where
  "SemaphoreBPostEx2 ulId pvMsgPtr pulId s = (case EventOpen OBJECT_SEM_B LW_TYPE_EVENT_SEMB ulId s of
     Inl (r, s1) \<Rightarrow> ((r, outp pulId 0), s1)
   | Inr (e, s1) \<Rightarrow>
       if EventWaitNum s1 EVENT_SEM_Q e \<noteq> 0 then
         (let (t, s2) = ReadyOne e EVENT_SEM_Q pvMsgPtr LW_THREAD_STATUS_SEM s1
          in ((ERROR_NONE, outp pulId (ThreadId t)), KERNEL_EXIT s2))
       else if EVENT_ulCounter (k_event s1 e) = 0 then
         ((ERROR_NONE, outp pulId 0),
          KERNEL_EXIT (event_upd e (\<lambda>ev. ev\<lparr>EVENT_ulCounter := 1, EVENT_pvPtr := pvMsgPtr\<rparr>) s1))
       else let (r, s2) = PostFull s s1 in ((r, outp pulId 0), s2))"

definition SemaphoreBFlush :: "ULONG \<Rightarrow> bool \<Rightarrow> kernel \<Rightarrow> (ULONG \<times> UINT16 option) \<times> kernel" where
  "SemaphoreBFlush ulId pulThreadUnblockNum s = (case EventOpen OBJECT_SEM_B LW_TYPE_EVENT_SEMB ulId s of
     Inl (r, s1) \<Rightarrow> ((r, None), s1)
   | Inr (e, s1) \<Rightarrow> (let n = EventWaitNum s1 EVENT_SEM_Q e in
       ((ERROR_NONE, outp pulThreadUnblockNum n),
        KERNEL_EXIT (FlushLoop (unat n) e EVENT_SEM_Q LW_THREAD_STATUS_SEM s1))))"

definition SemaphoreBClear :: "ULONG \<Rightarrow> kernel \<Rightarrow> ULONG \<times> kernel" where
  "SemaphoreBClear ulId s = (case EventOpen OBJECT_SEM_B LW_TYPE_EVENT_SEMB ulId s of
     Inl r \<Rightarrow> r
   | Inr (e, s1) \<Rightarrow> (ERROR_NONE, KERNEL_EXIT (event_upd e (\<lambda>ev. ev\<lparr>EVENT_ulCounter := 0\<rparr>) s1)))"

fun SemaphoreBRelease_loop :: "nat \<Rightarrow> eid \<Rightarrow> kernel \<Rightarrow> bool \<times> kernel" where
  "SemaphoreBRelease_loop 0 e s = (True, s)"
| "SemaphoreBRelease_loop (Suc n) e s =
    (if EventWaitNum s EVENT_SEM_Q e \<noteq> 0 then
       SemaphoreBRelease_loop n e (snd (ReadyOne e EVENT_SEM_Q 0 LW_THREAD_STATUS_SEM s))
     else if EVENT_ulCounter (k_event s e) = 0 then
       SemaphoreBRelease_loop n e (event_upd e (\<lambda>ev. ev\<lparr>EVENT_ulCounter := 1\<rparr>) s)
     else (False, s))"

definition SemaphoreBRelease :: "ULONG \<Rightarrow> ULONG \<Rightarrow> bool \<Rightarrow> kernel \<Rightarrow> (ULONG \<times> ULONG option) \<times> kernel" where
  "SemaphoreBRelease ulId ulReleaseCounter pbPreviousValue s =
    (if ulReleaseCounter = 0 then ((ERROR_EVENT_NULL, None), ErrorHandle ERROR_EVENT_NULL s)
     else case EventOpen OBJECT_SEM_B LW_TYPE_EVENT_SEMB ulId s of
       Inl (r, s1) \<Rightarrow> ((r, None), s1)
     | Inr (e, s1) \<Rightarrow> (let prev = outp pbPreviousValue (EVENT_ulCounter (k_event s1 e));
           (all, s2) = SemaphoreBRelease_loop (unat ulReleaseCounter) e s1
         in if all then ((ERROR_NONE, prev), KERNEL_EXIT s2)
            else let (r, s3) = PostFull s s2 in ((r, prev), s3)))"

definition SemaphoreBStatus ::
  "ULONG \<Rightarrow> bool \<Rightarrow> bool \<Rightarrow> bool \<Rightarrow> kernel \<Rightarrow> (ULONG \<times> ULONG option \<times> ULONG option \<times> UINT16 option) \<times> kernel" where
  "SemaphoreBStatus ulId pbValue pulOption pulThreadBlockNum s =
    (case EventOpen OBJECT_SEM_B LW_TYPE_EVENT_SEMB ulId s of
       Inl (r, s1) \<Rightarrow> ((r, None, None, None), s1)
     | Inr (e, s1) \<Rightarrow>
        ((ERROR_NONE, outp pbValue (EVENT_ulCounter (k_event s1 e)),
          outp pulOption (EVENT_ulOption (k_event s1 e)),
          outp pulThreadBlockNum (EventWaitNum s1 EVENT_SEM_Q e)), KERNEL_EXIT s1))"

section \<open>The abstract binary semaphore\<close>

text \<open>A cell that is full or empty, the message left in it, and the threads in the order of
  service.  A thread that has to wait is handed its message directly.\<close>

record bsem =
  bs_full :: bool
  bs_msg :: ULONG
  bs_queue :: "tid list"

definition bsem_of :: "kernel \<Rightarrow> eid \<Rightarrow> bsem" where
  "bsem_of s e = \<lparr>bs_full = (EVENT_ulCounter (k_event s e) \<noteq> 0), bs_msg = EVENT_pvPtr (k_event s e),
     bs_queue = wait_order s e EVENT_SEM_Q\<rparr>"

datatype bpost = Handed tid | Filled | Refused

text \<open>A post without a message (\<open>None\<close>) leaves the message of the cell alone.\<close>

definition bsem_post :: "ULONG option \<Rightarrow> bsem \<Rightarrow> bpost \<times> bsem" where
  "bsem_post m a = (case bs_queue a of
     t # ts \<Rightarrow> (Handed t, a\<lparr>bs_queue := ts\<rparr>)
   | [] \<Rightarrow> if bs_full a then (Refused, a)
           else (Filled, a\<lparr>bs_full := True, bs_msg := (case m of Some v \<Rightarrow> v | None \<Rightarrow> bs_msg a)\<rparr>))"

definition bsem_take :: "bsem \<Rightarrow> ULONG option \<times> bsem" where
  "bsem_take a = (if bs_full a then (Some (bs_msg a), a\<lparr>bs_full := False\<rparr>) else (None, a))"

definition bsem_join :: "bool \<Rightarrow> (tid \<Rightarrow> UINT8) \<Rightarrow> tid \<Rightarrow> bsem \<Rightarrow> bsem" where
  "bsem_join prio pr t a = a\<lparr>bs_queue := enqueue prio pr t (bs_queue a)\<rparr>"

text \<open>What the caller of a post sees.\<close>

fun bpost_code :: "bpost \<Rightarrow> ULONG" where
  "bpost_code (Handed t) = ERROR_NONE"
| "bpost_code Filled = ERROR_NONE"
| "bpost_code Refused = ERROR_EVENT_FULL"

fun bpost_id :: "bpost \<Rightarrow> ULONG" where
  "bpost_id (Handed t) = ThreadId t"
| "bpost_id Filled = 0"
| "bpost_id Refused = 0"

lemma bsem_of_reads [simp]:
  "bsem_of (KERNEL_EXIT s) e = bsem_of s e" "bsem_of (KERNEL_ENTER s) e = bsem_of s e"
  "bsem_of (ErrorHandle_of ctx c s) e = bsem_of s e"
  by (simp_all add: bsem_of_def)

lemma bsem_of_core:
  assumes "ev_core (k_event s' e) = ev_core (k_event s e)"
  shows "bsem_of s' e = (bsem_of s e)\<lparr>bs_queue := wait_order s' e EVENT_SEM_Q\<rparr>"
  using ev_core_eqD[OF assms] by (simp add: bsem_of_def)

lemma bsem_event_upd:
  assumes "keeps_queue f (k_event s e)"
  shows "bsem_of (event_upd e f s) e = (bsem_of s e)\<lparr>bs_full := EVENT_ulCounter (f (k_event s e)) \<noteq> 0,
     bs_msg := EVENT_pvPtr (f (k_event s e))\<rparr>"
  using queue_ok_event_upd(2)[OF assms] by (simp add: bsem_of_def)

section \<open>The routines refine it\<close>

text \<open>The four post routines are two: the variants with \<open>2\<close> also store the woken thread.\<close>

lemma SemaphoreBPost_2:
  "SemaphoreBPost ulId s = (fst (fst (SemaphoreBPost2 ulId False s)), snd (SemaphoreBPost2 ulId False s))"
  "SemaphoreBPostEx ulId m s = (fst (fst (SemaphoreBPostEx2 ulId m False s)), snd (SemaphoreBPostEx2 ulId m False s))"
  by (simp_all add: SemaphoreBPost_def SemaphoreBPost2_def SemaphoreBPostEx_def SemaphoreBPostEx2_def
      split_beta Let_def split: sum.splits)

definition bposted :: "ULONG option \<Rightarrow> eid \<Rightarrow> bool \<Rightarrow> kernel \<Rightarrow> (ULONG \<times> ULONG option) \<times> kernel \<Rightarrow> bool" where
  "bposted m e p s r \<longleftrightarrow> queue_ok (snd r) e \<and> bsem_of (snd r) e = snd (bsem_post m (bsem_of s e)) \<and>
     fst r = (bpost_code (fst (bsem_post m (bsem_of s e))), outp p (bpost_id (fst (bsem_post m (bsem_of s e))))) \<and>
     (\<forall>t ts. bs_queue (bsem_of s e) = t # ts \<longrightarrow>
        TCB_pvMsgBoxMessage (k_tcb (snd r) t) = (case m of Some v \<Rightarrow> v | None \<Rightarrow> 0) \<and>
        tcb_status (snd r) t = woken_status LW_THREAD_STATUS_SEM (tcb_status s t))"

lemma bpost_handed:
  fixes v :: ULONG
  assumes q: "queue_ok s e" and ne: "EventWaitNum s EVENT_SEM_Q e \<noteq> 0" and v: "v = (case m of Some v \<Rightarrow> v | None \<Rightarrow> 0)"
  defines "r \<equiv> ReadyOne e EVENT_SEM_Q v LW_THREAD_STATUS_SEM s"
  shows "bposted m e p s ((ERROR_NONE, outp p (ThreadId (fst r))), KERNEL_EXIT (snd r))"
proof -
  note w = ReadyOne_queue[OF q ne, where m = v, folded r_def]
  have "bsem_post m (bsem_of s e) = (Handed (fst r), bsem_of (snd r) e)"
    using w(2) bsem_of_core[OF w(3)] by (simp add: bsem_post_def bsem_of_def)
  then show ?thesis using w(1,2,4,5) v by (simp add: bposted_def bsem_of_def)
qed

lemma bpost_empty:
  assumes q: "queue_ok s e" and ne: "EventWaitNum s EVENT_SEM_Q e = 0"
  shows "bs_queue (bsem_of s e) = []"
  using q ne wait_order_empty by (simp add: queue_ok_def kinv_wait bsem_of_def)

lemma bpost_filled:
  assumes q: "queue_ok s e" and ne: "EventWaitNum s EVENT_SEM_Q e = 0" and z: "EVENT_ulCounter (k_event s e) = 0"
    and f: "keeps_queue f (k_event s e)" "EVENT_ulCounter (f (k_event s e)) = 1"
      "EVENT_pvPtr (f (k_event s e)) = (case m of Some v \<Rightarrow> v | None \<Rightarrow> EVENT_pvPtr (k_event s e))"
  shows "bposted m e p s ((ERROR_NONE, outp p 0), KERNEL_EXIT (event_upd e f s))"
proof -
  have "bsem_post m (bsem_of s e) = (Filled, bsem_of (event_upd e f s) e)"
    using bpost_empty[OF q ne] z f
    by (simp add: bsem_post_def bsem_event_upd) (simp add: bsem_of_def split: option.split)
  then show ?thesis using bpost_empty[OF q ne] q queue_ok_event_upd(1)[OF f(1)] by (simp add: bposted_def)
qed

lemma bpost_refused:
  assumes q: "queue_ok s e" and ne: "EventWaitNum s EVENT_SEM_Q e = 0" and z: "EVENT_ulCounter (k_event s e) \<noteq> 0"
  shows "bposted m e p s ((ERROR_EVENT_FULL, outp p 0), ErrorHandle_of ctx ERROR_EVENT_FULL (KERNEL_EXIT s))"
proof -
  have "bsem_post m (bsem_of s e) = (Refused, bsem_of s e)"
    using bpost_empty[OF q ne] z by (simp add: bsem_post_def bsem_of_def)
  then show ?thesis using bpost_empty[OF q ne] q by (simp add: bposted_def)
qed

lemma SemaphoreBPost2_refines:
  assumes q: "queue_ok s e" and h: "handle OBJECT_SEM_B LW_TYPE_EVENT_SEMB s ulId e"
  shows "bposted None e p (KERNEL_ENTER s) (SemaphoreBPost2 ulId p s)"
    "bposted (Some m) e p (KERNEL_ENTER s) (SemaphoreBPostEx2 ulId m p s)"
proof -
  have q1: "queue_ok (KERNEL_ENTER s) e" using q by simp
  show "bposted None e p (KERNEL_ENTER s) (SemaphoreBPost2 ulId p s)"
    using bpost_handed[OF q1, of 0 None p] bpost_filled[OF q1, of "\<lambda>ev. ev\<lparr>EVENT_ulCounter := 1\<rparr>" None p]
      bpost_refused[OF q1, of None p s]
    by (simp add: SemaphoreBPost2_def EventOpen_handle[OF h] PostFull_def split_beta Let_def)
  show "bposted (Some m) e p (KERNEL_ENTER s) (SemaphoreBPostEx2 ulId m p s)"
    using bpost_handed[OF q1, of m "Some m" p]
      bpost_filled[OF q1, of "\<lambda>ev. ev\<lparr>EVENT_ulCounter := 1, EVENT_pvPtr := m\<rparr>" "Some m" p]
      bpost_refused[OF q1, of "Some m" p s]
    by (simp add: SemaphoreBPostEx2_def EventOpen_handle[OF h] PostFull_def split_beta Let_def)
qed

lemma bposted_enter: "bposted m e p (KERNEL_ENTER s) r \<longleftrightarrow> bposted m e p s r"
  by (simp add: bposted_def)

text \<open>Taking, with and without waiting.\<close>

lemma btake_full:
  assumes "EVENT_ulCounter (k_event s e) \<noteq> 0"
  shows "bsem_take (bsem_of s e) = (Some (EVENT_pvPtr (k_event s e)), bsem_of (event_upd e (\<lambda>ev. ev\<lparr>EVENT_ulCounter := 0\<rparr>) s) e)"
  using assms by (simp add: bsem_take_def bsem_event_upd) (simp add: bsem_of_def)

lemma queue_ok_taken [simp]:
  "queue_ok (event_upd e (\<lambda>ev. ev\<lparr>EVENT_ulCounter := a ev\<rparr>) s) e \<longleftrightarrow> queue_ok s e"
  by (rule queue_ok_event_upd) simp

lemma SemaphoreBTryPend_refines:
  assumes q: "queue_ok s e" and h: "handle OBJECT_SEM_B LW_TYPE_EVENT_SEMB s ulId e"
  shows "queue_ok (snd (SemaphoreBTryPend ulId s)) e"
    "bsem_of (snd (SemaphoreBTryPend ulId s)) e = snd (bsem_take (bsem_of s e))"
    "fst (SemaphoreBTryPend ulId s) =
       (if fst (bsem_take (bsem_of s e)) = None then ERROR_THREAD_WAIT_TIMEOUT else ERROR_NONE)"
proof -
  note P = SemaphoreBTryPend_def[of ulId s, unfolded EventOpen_handle[OF h]]
  show "queue_ok (snd (SemaphoreBTryPend ulId s)) e" using q by (simp add: P)
  show "bsem_of (snd (SemaphoreBTryPend ulId s)) e = snd (bsem_take (bsem_of s e))"
    using btake_full[of "KERNEL_ENTER s" e] by (simp add: P) (simp add: bsem_take_def bsem_of_def)
  show "fst (SemaphoreBTryPend ulId s) =
       (if fst (bsem_take (bsem_of s e)) = None then ERROR_THREAD_WAIT_TIMEOUT else ERROR_NONE)"
    by (simp add: P bsem_take_def bsem_of_def)
qed

lemma pend_bsem:
  fixes ulTimeout :: ULONG
  assumes q: "queue_ok s e" and t: "runs s t"
  defines "s' \<equiv> PendBlock e EVENT_SEM_Q LW_THREAD_STATUS_SEM ulTimeout s"
  shows "bsem_of s' e = bsem_join (by_prio s e) (tcb_prio s) t (bsem_of s e)"
proof -
  note b = PendBlock_queue[OF q t, where ulTimeout = ulTimeout, folded s'_def]
  show ?thesis using bsem_of_core[OF b(4)[of e]] b(2) by (simp add: bsem_join_def bsem_of_def)
qed

text \<open>\<open>PendEx\<close> and \<open>Pend\<close> differ only in the message they store.\<close>

lemma SemaphoreBPend_Ex:
  "SemaphoreBPend ulId ulTimeout s =
     (fst (fst (SemaphoreBPendEx ulId ulTimeout False s)), snd (SemaphoreBPendEx ulId ulTimeout False s))"
  by (simp add: SemaphoreBPend_def SemaphoreBPendEx_def SemaphoreBPend_again_def SemaphoreBPendEx_again_def
      split_beta Let_def split: sum.splits)

lemma SemaphoreBPendEx_refines:
  fixes ulTimeout :: ULONG and p :: bool
  assumes q: "queue_ok s e" and h: "handle OBJECT_SEM_B LW_TYPE_EVENT_SEMB s ulId e"
    and n: "LW_CPU_GET_CUR_NESTING s = 0" and t: "runs s t"
  defines "r \<equiv> SemaphoreBPendEx ulId ulTimeout p s"
  shows "queue_ok (snd r) e"
    "bs_full (bsem_of s e) \<Longrightarrow> fst r = (Done ERROR_NONE, outp p (bs_msg (bsem_of s e)))
       \<and> bsem_of (snd r) e = snd (bsem_take (bsem_of s e))"
    "\<lbrakk>\<not> bs_full (bsem_of s e); ulTimeout = LW_OPTION_NOT_WAIT\<rbrakk> \<Longrightarrow>
       fst r = (Done ERROR_THREAD_WAIT_TIMEOUT, None) \<and> bsem_of (snd r) e = bsem_of s e"
    "\<lbrakk>\<not> bs_full (bsem_of s e); ulTimeout \<noteq> LW_OPTION_NOT_WAIT\<rbrakk> \<Longrightarrow>
       fst r = (Blocked ulTimeout (KERNEL_TIME_GET s) (EVENT_ulOption (k_event s e)), None)
       \<and> bsem_of (snd r) e = bsem_join (by_prio s e) (tcb_prio s) t (bsem_of s e)
       \<and> t \<notin> ready_set (snd r)"
proof -
  let ?s1 = "KERNEL_ENTER s" and ?B = "PendBlock e EVENT_SEM_Q LW_THREAD_STATUS_SEM ulTimeout (KERNEL_ENTER s)"
  have q1: "queue_ok ?s1 e" and t1: "runs ?s1 t" using q t by simp_all
  note b = PendBlock_queue[OF q1 t1, where ulTimeout = ulTimeout]
  have f: "bs_full (bsem_of s e) \<longleftrightarrow> EVENT_ulCounter (k_event s e) \<noteq> 0" by (simp add: bsem_of_def)
  have P: "r = (if bs_full (bsem_of s e) then
         ((Done ERROR_NONE, outp p (EVENT_pvPtr (k_event s e))), KERNEL_EXIT (event_upd e (\<lambda>ev. ev\<lparr>EVENT_ulCounter := 0\<rparr>) ?s1))
       else if ulTimeout = LW_OPTION_NOT_WAIT then
         ((Done ERROR_THREAD_WAIT_TIMEOUT, None), ErrorHandle_of s ERROR_THREAD_WAIT_TIMEOUT (KERNEL_EXIT ?s1))
       else ((Blocked ulTimeout (KERNEL_TIME_GET s) (EVENT_ulOption (k_event s e)), None), KERNEL_EXIT ?B))"
    using n b(5) by (simp add: f r_def SemaphoreBPendEx_def SemaphoreBPendEx_again_def EventOpen_handle[OF h] Let_def
        KERNEL_TIME_GET_def KERNEL_ENTER_def)
  show "queue_ok (snd r) e" using q1 b(1) by (auto simp: P simp del: queue_ok_reads(2))
  show "bs_full (bsem_of s e) \<Longrightarrow> fst r = (Done ERROR_NONE, outp p (bs_msg (bsem_of s e)))
       \<and> bsem_of (snd r) e = snd (bsem_take (bsem_of s e))"
    using btake_full[of ?s1 e] f by (simp add: P) (simp add: bsem_of_def)
  show "\<lbrakk>\<not> bs_full (bsem_of s e); ulTimeout = LW_OPTION_NOT_WAIT\<rbrakk> \<Longrightarrow>
       fst r = (Done ERROR_THREAD_WAIT_TIMEOUT, None) \<and> bsem_of (snd r) e = bsem_of s e"
    by (simp add: P)
  show "\<lbrakk>\<not> bs_full (bsem_of s e); ulTimeout \<noteq> LW_OPTION_NOT_WAIT\<rbrakk> \<Longrightarrow>
       fst r = (Blocked ulTimeout (KERNEL_TIME_GET s) (EVENT_ulOption (k_event s e)), None)
       \<and> bsem_of (snd r) e = bsem_join (by_prio s e) (tcb_prio s) t (bsem_of s e)
       \<and> t \<notin> ready_set (snd r)"
    using pend_bsem[OF q1 t1, of ulTimeout] b(3) by (simp add: P)
qed

end
