(* ===== verification/Sem_Mutex.thy ===== *)
theory Sem_Mutex
  imports Event_Api
begin

text \<open>
  Mutexes: the routines \<open>API_SemaphoreM*\<close> of kernel/interface, with priority inheritance
  or a priority ceiling (\<open>_EventPrioTryBoost\<close>, \<open>_EventPrioTryResume\<close>).  While the mutex is
  owned, \<open>EVENT_ulMaxCounter\<close> holds the priority its owner had when it took the mutex, and
  \<open>EVENT_pvPtr\<close> counts the recursive calls.
\<close>

section \<open>Operations\<close>

definition SemaphoreMCreate :: "string option \<Rightarrow> UINT8 \<Rightarrow> ULONG \<Rightarrow> kernel \<Rightarrow> ULONG \<times> kernel" where
  "SemaphoreMCreate pcName ucCeilingPriority ulOption s =
    (if LW_CPU_GET_CUR_NESTING s \<noteq> 0 then (0, ErrorHandle ERROR_KERNEL_IN_ISR s)
     else if Object_Name_Invalid pcName then (0, ErrorHandle ERROR_KERNEL_PNAME_TOO_LONG s)
     else case EventAlloc s of
       (None, s1) \<Rightarrow> (0, ErrorHandle_of s ERROR_EVENT_FULL s1)
     | (Some e, s1) \<Rightarrow>
         (MakeObjectId OBJECT_SEM_M LW_CFG_PROCESSOR_NUMBER (of_nat e),
          event_upd e (\<lambda>ev. ev\<lparr>EVENT_cEventName := event_name pcName,
            EVENT_ucType := LW_TYPE_EVENT_MUTEX, EVENT_ulCounter := 1,
            EVENT_ulMaxCounter := ucast LW_PRIO_LOWEST, EVENT_ucCeilingPriority := ucCeilingPriority,
            EVENT_ulOption := ulOption, EVENT_pvPtr := 0, EVENT_pvTcbOwn := None,
            EVENT_wqWaitQ := (EVENT_wqWaitQ ev)(0 := WQ_INIT, 1 := WQ_INIT)\<rparr>) s1))"

definition SemaphoreMDelete :: "ULONG \<Rightarrow> kernel \<Rightarrow> ULONG \<times> ULONG \<times> kernel" where
  "SemaphoreMDelete ulId s =
    (if LW_CPU_GET_CUR_NESTING s \<noteq> 0 then (ERROR_KERNEL_IN_ISR, ulId, ErrorHandle ERROR_KERNEL_IN_ISR s)
     else case EventOpen OBJECT_SEM_M LW_TYPE_EVENT_MUTEX ulId s of
       Inl (r, s1) \<Rightarrow> (r, ulId, s1)
     | Inr (e, s1) \<Rightarrow> (let
           s2 = event_upd e (\<lambda>ev. ev\<lparr>EVENT_ucType := LW_TYPE_EVENT_UNUSED\<rparr>) s1;
           s3 = DeleteLoop (unat (EventWaitNum s2 EVENT_SEM_Q e)) e EVENT_SEM_Q LW_THREAD_STATUS_SEM s2;
           owner = EVENT_pvTcbOwn (k_event s3 e);
           s4 = event_upd e (\<lambda>ev. ev\<lparr>EVENT_pvTcbOwn := None\<rparr>) s3;
           s5 = (case owner of None \<Rightarrow> s4
                 | Some t \<Rightarrow> (let ucPriority = ucast (EVENT_ulMaxCounter (k_event s4 e)) in
                     if ucPriority \<noteq> tcb_prio s4 t then SchedSetPrio t ucPriority s4 else s4));
           s6 = Free_Event_Object e s5;
           ulOptionTemp = EVENT_ulOption (k_event s6 e);
           s7 = KERNEL_EXIT s6
         in (ERROR_NONE, 0, case owner of
               Some t \<Rightarrow> if ulOptionTemp AND LW_OPTION_DELETE_SAFE \<noteq> 0 then ThreadUnsafeInternalEx t s7 else s7
             | None \<Rightarrow> s7)))"

text \<open>The label \<open>__wait_again\<close>.\<close>

definition SemaphoreMPend_again :: "ULONG \<Rightarrow> ULONG \<Rightarrow> kernel \<Rightarrow> pend_out \<times> kernel" where
  "SemaphoreMPend_again ulId ulTimeout s = (case EventCheckId OBJECT_SEM_M ulId s of
     Inl (r, s1) \<Rightarrow> (Done r, s1)
   | Inr e0 \<Rightarrow>
   if \<not> k_sysRunning s then (Done ERROR_NONE, s)
   else case EventOpen OBJECT_SEM_M LW_TYPE_EVENT_MUTEX ulId s of
     Inl (r, s1) \<Rightarrow> (Done r, s1)
   | Inr (e, s1) \<Rightarrow> (let cur = LW_TCB_GET_CUR s1; ev = k_event s1 e in
       if EVENT_ulCounter ev \<noteq> 0 then
         (ThenSafe e, KERNEL_EXIT (event_upd e (\<lambda>ev. ev\<lparr>EVENT_ulCounter := 0,
            EVENT_ulMaxCounter := ucast (tcb_prio s1 cur), EVENT_pvTcbOwn := Some cur\<rparr>) s1))
       else if EVENT_ulOption ev AND LW_OPTION_NORMAL = 0 \<and> EVENT_pvTcbOwn ev = Some cur then
         (if EVENT_ulOption ev AND LW_OPTION_ERRORCHECK \<noteq> 0
          then (Done EDEADLK, ErrorHandle_of s EDEADLK (KERNEL_EXIT s1))
          else (Done ERROR_NONE, KERNEL_EXIT (event_upd e (\<lambda>ev. ev\<lparr>EVENT_pvPtr := EVENT_pvPtr ev + 1\<rparr>) s1)))
       else if ulTimeout = LW_OPTION_NOT_WAIT then
         (Done ERROR_THREAD_WAIT_TIMEOUT, ErrorHandle_of s ERROR_THREAD_WAIT_TIMEOUT (KERNEL_EXIT s1))
       else (let s2 = EventPrioTryBoost e cur s1;
                 s3 = PendBlock e EVENT_SEM_Q LW_THREAD_STATUS_SEM ulTimeout s2
             in (Blocked ulTimeout (KERNEL_TIME_GET s2) (EVENT_ulOption (k_event s3 e)), KERNEL_EXIT s3))))"

definition SemaphoreMPend :: "ULONG \<Rightarrow> ULONG \<Rightarrow> kernel \<Rightarrow> pend_out \<times> kernel" where
  "SemaphoreMPend ulId ulTimeout s =
    (if LW_CPU_GET_CUR_NESTING s \<noteq> 0 then (Done ERROR_KERNEL_IN_ISR, ErrorHandle ERROR_KERNEL_IN_ISR s)
     else SemaphoreMPend_again ulId ulTimeout s)"

definition SemaphoreMPend_wake :: "ULONG \<Rightarrow> ULONG \<Rightarrow> ULONG \<Rightarrow> ULONG \<Rightarrow> kernel \<Rightarrow> pend_out \<times> kernel" where
  "SemaphoreMPend_wake ulId ulTimeout ulTimeSave ulEventOption s =
    (case PendWake ulTimeout ulTimeSave ulEventOption s of
       (WakeDone r, s1) \<Rightarrow>
         (if r = ERROR_NONE then let (r', s2) = Safe_tail (unat (ObjectGetIndex ulId)) s1 in (Done r', s2)
          else (Done r, s1))
     | (WakeAgain ulTimeout', s1) \<Rightarrow> SemaphoreMPend_again ulId ulTimeout' s1)"

definition SemaphoreMPost :: "ULONG \<Rightarrow> kernel \<Rightarrow> post_out \<times> kernel" where
  "SemaphoreMPost ulId s =
    (if LW_CPU_GET_CUR_NESTING s \<noteq> 0 then (Posted ERROR_KERNEL_IN_ISR, ErrorHandle ERROR_KERNEL_IN_ISR s)
     else case EventCheckId OBJECT_SEM_M ulId s of
     Inl (r, s1) \<Rightarrow> (Posted r, s1)
   | Inr e0 \<Rightarrow>
   if \<not> k_sysRunning s then (Posted ERROR_NONE, s)
   else case EventOpen OBJECT_SEM_M LW_TYPE_EVENT_MUTEX ulId s of
     Inl (r, s1) \<Rightarrow> (Posted r, s1)
   | Inr (e, s1) \<Rightarrow> (let cur = LW_TCB_GET_CUR s1; ev = k_event s1 e in
       if EVENT_pvTcbOwn ev \<noteq> Some cur then
         (Posted ERROR_EVENT_NOT_OWN, ErrorHandle_of s ERROR_EVENT_NOT_OWN (KERNEL_EXIT s1))
       else if EVENT_pvPtr ev \<noteq> 0 then
         (Posted ERROR_NONE, KERNEL_EXIT (event_upd e (\<lambda>ev. ev\<lparr>EVENT_pvPtr := EVENT_pvPtr ev - 1\<rparr>) s1))
       else if EventWaitNum s1 EVENT_SEM_Q e \<noteq> 0 then
         (let (t, s2) = ReadyLowLevel e EVENT_SEM_Q 0 s1;
              s3 = EventPrioTryResume e cur s2;
              s4 = event_upd e (\<lambda>ev. ev\<lparr>EVENT_ulMaxCounter := ucast (tcb_prio s3 t), EVENT_pvTcbOwn := Some t\<rparr>) s3
          in (ThenUnsafe e, KERNEL_EXIT (EventReadyHighLevel t LW_THREAD_STATUS_SEM s4)))
       else if EVENT_ulCounter ev = 0 then
         (ThenUnsafe e, KERNEL_EXIT (event_upd e (\<lambda>ev. ev\<lparr>EVENT_ulCounter := 1,
            EVENT_ulMaxCounter := ucast LW_PRIO_LOWEST, EVENT_pvTcbOwn := None\<rparr>) s1))
       else (let (r, s2) = PostFull s s1 in (Posted r, s2))))"

definition SemaphoreMStatus ::
  "ULONG \<Rightarrow> bool \<Rightarrow> bool \<Rightarrow> bool \<Rightarrow> kernel \<Rightarrow> (ULONG \<times> ULONG option \<times> ULONG option \<times> UINT16 option) \<times> kernel" where
  "SemaphoreMStatus ulId pbValue pulOption pulThreadBlockNum s =
    (case EventOpen OBJECT_SEM_M LW_TYPE_EVENT_MUTEX ulId s of
       Inl (r, s1) \<Rightarrow> ((r, None, None, None), s1)
     | Inr (e, s1) \<Rightarrow>
        ((ERROR_NONE, outp pbValue (EVENT_ulCounter (k_event s1 e)),
          outp pulOption (EVENT_ulOption (k_event s1 e)),
          outp pulThreadBlockNum (EventWaitNum s1 EVENT_SEM_Q e)), KERNEL_EXIT s1))"

definition SemaphoreMStatusEx ::
  "ULONG \<Rightarrow> bool \<Rightarrow> bool \<Rightarrow> bool \<Rightarrow> bool \<Rightarrow> kernel \<Rightarrow>
    (ULONG \<times> ULONG option \<times> ULONG option \<times> UINT16 option \<times> ULONG option) \<times> kernel" where
  "SemaphoreMStatusEx ulId pbValue pulOption pulThreadBlockNum pulOwnerId s =
    (case EventOpen OBJECT_SEM_M LW_TYPE_EVENT_MUTEX ulId s of
       Inl (r, s1) \<Rightarrow> ((r, None, None, None, None), s1)
     | Inr (e, s1) \<Rightarrow> (let ev = k_event s1 e in
        ((ERROR_NONE, outp pbValue (EVENT_ulCounter ev), outp pulOption (EVENT_ulOption ev),
          outp pulThreadBlockNum (EventWaitNum s1 EVENT_SEM_Q e),
          outp pulOwnerId (if EVENT_ulCounter ev = 0 then ThreadId (the (EVENT_pvTcbOwn ev)) else 0)),
         KERNEL_EXIT s1)))"

lemma ucast_prio [simp]: "ucast (ucast (p :: UINT8) :: ULONG) = p"
  by transfer simp

section \<open>The abstract mutex\<close>

text \<open>The owner with its recursion depth and the priority it had when it took the mutex, and
  the threads in the order of service.\<close>

record mutex =
  mx_owner :: "tid option"
  mx_depth :: ULONG
  mx_saved :: UINT8
  mx_queue :: "tid list"

definition mutex_of :: "kernel \<Rightarrow> eid \<Rightarrow> mutex" where
  "mutex_of s e = \<lparr>mx_owner = EVENT_pvTcbOwn (k_event s e), mx_depth = EVENT_pvPtr (k_event s e),
     mx_saved = ucast (EVENT_ulMaxCounter (k_event s e)), mx_queue = wait_order s e EVENT_SEM_Q\<rparr>"

text \<open>The value of the mutex says whether it is free; only an owned mutex has waiters; and the
  owner is a live thread that does not wait for its own mutex.\<close>

definition mutex_ok :: "kernel \<Rightarrow> eid \<Rightarrow> bool" where
  "mutex_ok s e \<longleftrightarrow> queue_ok s e \<and>
     EVENT_ulCounter (k_event s e) = (if mx_owner (mutex_of s e) = None then 1 else 0) \<and>
     (mx_owner (mutex_of s e) = None \<longrightarrow> mx_queue (mutex_of s e) = [] \<and> mx_depth (mutex_of s e) = 0) \<and>
     (\<forall>t. mx_owner (mutex_of s e) = Some t \<longrightarrow> k_ncpus s \<le> t \<and> k_tcbIdTable s t \<and> t \<notin> waiters s e EVENT_SEM_Q)"

lemma mutex_okD:
  assumes "mutex_ok s e"
  shows "queue_ok s e" "kinv s" "order_ok s e EVENT_SEM_Q"
    "EVENT_ulCounter (k_event s e) = (if EVENT_pvTcbOwn (k_event s e) = None then 1 else 0)"
    "EVENT_pvTcbOwn (k_event s e) = None \<Longrightarrow> wait_order s e EVENT_SEM_Q = [] \<and> EVENT_pvPtr (k_event s e) = 0"
    "EVENT_pvTcbOwn (k_event s e) = Some t \<Longrightarrow> k_ncpus s \<le> t \<and> k_tcbIdTable s t \<and> t \<notin> waiters s e EVENT_SEM_Q"
  using assms by (simp_all add: mutex_ok_def mutex_of_def queue_ok_def split: if_splits)

lemma mutex_ok_reads [simp]:
  "mutex_of (KERNEL_EXIT s) e = mutex_of s e" "mutex_of (KERNEL_ENTER s) e = mutex_of s e"
  "mutex_of (ErrorHandle_of ctx c s) e = mutex_of s e"
  "mutex_ok s e \<Longrightarrow> mutex_ok (KERNEL_EXIT s) e" "mutex_ok (KERNEL_ENTER s) e \<longleftrightarrow> mutex_ok s e"
  "mutex_ok s e \<Longrightarrow> mutex_ok (ErrorHandle_of ctx c s) e"
  by (simp_all add: mutex_ok_def mutex_of_def)

text \<open>An update of the block that keeps its queue.\<close>

lemma mutex_ok_upd:
  assumes m: "mutex_ok s e" and f: "keeps_queue f (k_event s e)"
    and n: "EVENT_ulCounter (f (k_event s e)) = (if EVENT_pvTcbOwn (f (k_event s e)) = None then 1 else 0)"
    and free: "EVENT_pvTcbOwn (f (k_event s e)) = None \<Longrightarrow> mx_queue (mutex_of s e) = [] \<and> EVENT_pvPtr (f (k_event s e)) = 0"
    and own: "\<And>t. EVENT_pvTcbOwn (f (k_event s e)) = Some t \<Longrightarrow> k_ncpus s \<le> t \<and> k_tcbIdTable s t \<and> t \<notin> waiters s e EVENT_SEM_Q"
  shows "mutex_ok (event_upd e f s) e"
    "mutex_of (event_upd e f s) e = \<lparr>mx_owner = EVENT_pvTcbOwn (f (k_event s e)), mx_depth = EVENT_pvPtr (f (k_event s e)),
       mx_saved = ucast (EVENT_ulMaxCounter (f (k_event s e))), mx_queue = mx_queue (mutex_of s e)\<rparr>"
proof -
  show eq: "mutex_of (event_upd e f s) e = \<lparr>mx_owner = EVENT_pvTcbOwn (f (k_event s e)), mx_depth = EVENT_pvPtr (f (k_event s e)),
       mx_saved = ucast (EVENT_ulMaxCounter (f (k_event s e))), mx_queue = mx_queue (mutex_of s e)\<rparr>"
    by (simp add: mutex_of_def event_upd_reads(3)[OF f])
  show "mutex_ok (event_upd e f s) e"
    using mutex_okD(1)[OF m] n free own by (auto simp: mutex_ok_def eq queue_ok_event_upd[OF f] split: if_splits)
qed

section \<open>Priority inheritance and the priority ceiling\<close>

text \<open>The priority that the owner \<open>o\<close> of \<open>e\<close> has while \<open>t\<close> waits.\<close>

definition boosted :: "kernel \<Rightarrow> eid \<Rightarrow> tid \<Rightarrow> tid \<Rightarrow> UINT8" where
  "boosted s e t ow = (if TCB_iDeleteProcStatus (k_tcb s ow) \<noteq> 0 \<or> tcb_prio s ow \<le> tcb_prio s t then tcb_prio s ow
     else if EVENT_ulOption (k_event s e) AND LW_OPTION_INHERIT_PRIORITY \<noteq> 0 then tcb_prio s t
     else min (EVENT_ucCeilingPriority (k_event s e)) (tcb_prio s ow))"

lemma EventPrioTryBoost_eq:
  assumes "EVENT_pvTcbOwn (k_event s e) = Some ow"
  shows "EventPrioTryBoost e t s = (if boosted s e t ow = tcb_prio s ow then s else SchedSetPrio ow (boosted s e t ow) s)"
  using assms by (auto simp: EventPrioTryBoost_def boosted_def Let_def LW_PRIO_IS_HIGH_def min_def not_less)

lemma EventPrioTryBoost_ok:
  assumes m: "mutex_ok s e" and own: "EVENT_pvTcbOwn (k_event s e) = Some ow" and t: "runs s t" "t \<noteq> ow"
  defines "s' \<equiv> EventPrioTryBoost e t s"
  shows "mutex_ok s' e" "mutex_of s' e = mutex_of s e" "runs s' t"
    "tcb_prio s' u = (if u = ow then boosted s e t ow else tcb_prio s u)"
    "k_event s' = k_event s" "k_halt s' = k_halt s" "ready_set s' = ready_set s" "k_i64KernelTime s' = k_i64KernelTime s"
proof -
  note d = mutex_okD[OF m]
  note ow = d(6)[OF own]
  let ?p = "boosted s e t ow"
  have s': "s' = (if ?p = tcb_prio s ow then s else SchedSetPrio ow ?p s)"
    by (simp add: s'_def EventPrioTryBoost_eq[OF own])
  note k = SchedSetPrio_kinv[OF d(2), of ow ?p] 
  note o = SchedSetPrio_order[OF d(2), of ow e EVENT_SEM_Q ?p]
  show ev: "k_event s' = k_event s" "k_halt s' = k_halt s" "ready_set s' = ready_set s" "k_i64KernelTime s' = k_i64KernelTime s"
    using ow k by (simp_all add: s' SchedSetPrio_reads)
  show "tcb_prio s' u = (if u = ow then boosted s e t ow else tcb_prio s u)"
    by (simp add: s' SchedSetPrio_tcb)
  show mu: "mutex_of s' e = mutex_of s e" using ow o ev by (simp add: mutex_of_def s')
  show "runs s' t" using t by (simp add: s' runs_def SchedSetPrio_reads)
  show "mutex_ok s' e" using m ow o k by (auto simp: s' mutex_ok_def mu[unfolded s'] queue_ok_def SchedSetPrio_reads SchedSetPrio_tcb split: if_splits)
qed

section \<open>Pending\<close>

datatype mpend = Taken | Nested | Deadlock | WouldBlock | Queued

definition mutex_pend :: "ULONG \<Rightarrow> bool \<Rightarrow> (tid \<Rightarrow> UINT8) \<Rightarrow> tid \<Rightarrow> mutex \<Rightarrow> mpend \<times> mutex" where
  "mutex_pend opt wait pr t a = (case mx_owner a of
     None \<Rightarrow> (Taken, a\<lparr>mx_owner := Some t, mx_saved := pr t\<rparr>)
   | Some ow \<Rightarrow>
       if opt AND LW_OPTION_NORMAL = 0 \<and> ow = t then
         (if opt AND LW_OPTION_ERRORCHECK \<noteq> 0 then (Deadlock, a) else (Nested, a\<lparr>mx_depth := mx_depth a + 1\<rparr>))
       else if \<not> wait then (WouldBlock, a)
       else (Queued, a\<lparr>mx_queue := enqueue (opt AND LW_OPTION_WAIT_PRIORITY \<noteq> 0) pr t (mx_queue a)\<rparr>))"

fun mpend_code :: "kernel \<Rightarrow> eid \<Rightarrow> ULONG \<Rightarrow> mpend \<Rightarrow> pend_out" where
  "mpend_code s e ulTimeout Taken = ThenSafe e"
| "mpend_code s e ulTimeout Nested = Done ERROR_NONE"
| "mpend_code s e ulTimeout Deadlock = Done EDEADLK"
| "mpend_code s e ulTimeout WouldBlock = Done ERROR_THREAD_WAIT_TIMEOUT"
| "mpend_code s e ulTimeout Queued = Blocked ulTimeout (KERNEL_TIME_GET s) (EVENT_ulOption (k_event s e))"

lemma enqueue_cong:
  assumes "\<And>x. x \<in> insert t (set ts) \<Longrightarrow> pr x = pr' x"
  shows "enqueue b pr t ts = enqueue b pr' t ts"
  using assms by (auto simp: enqueue_def cong: filter_cong)

lemma mutex_ok_PendBlock:
  fixes ulTimeout :: ULONG
  assumes m: "mutex_ok s e" and own: "EVENT_pvTcbOwn (k_event s e) = Some ow" and t: "runs s t" "t \<noteq> ow"
  defines "s' \<equiv> PendBlock e EVENT_SEM_Q LW_THREAD_STATUS_SEM ulTimeout s"
  shows "mutex_ok s' e" "mutex_of s' e = (mutex_of s e)\<lparr>mx_queue := enqueue (by_prio s e) (tcb_prio s) t (mx_queue (mutex_of s e))\<rparr>"
    "t \<notin> ready_set s'" "tcb_prio s' u = tcb_prio s u" "EVENT_ulOption (k_event s' e) = EVENT_ulOption (k_event s e)"
proof -
  note d = mutex_okD[OF m]
  note p = PendBlock_ok[OF d(2) t(1) sem_bits, where e = e and q = EVENT_SEM_Q and ulTimeout = ulTimeout, folded s'_def]
  note q = PendBlock_queue[OF d(1) t(1), where ulTimeout = ulTimeout, folded s'_def]
  note c = ev_core_eqD[OF q(4)[of e]]
  show mu: "mutex_of s' e = (mutex_of s e)\<lparr>mx_queue := enqueue (by_prio s e) (tcb_prio s) t (mx_queue (mutex_of s e))\<rparr>"
    by (simp add: mutex_of_def c q(2))
  show "t \<notin> ready_set s'" "tcb_prio s' u = tcb_prio s u" "EVENT_ulOption (k_event s' e) = EVENT_ulOption (k_event s e)"
    using q(3,5) p(16) by simp_all
  have "ow \<notin> waiters s' e EVENT_SEM_Q" using p(18)[of e EVENT_SEM_Q] d(6)[OF own] t(2) by simp
  then show "mutex_ok s' e" using q(1) d(4) d(6)[OF own] own p(13,14) by (simp add: mutex_ok_def mu) (simp add: mutex_of_def c)
qed

lemma SemaphoreMPend_refines:
  fixes ulTimeout :: ULONG
  assumes m: "mutex_ok s e" and h: "handle OBJECT_SEM_M LW_TYPE_EVENT_MUTEX s ulId e"
    and n: "LW_CPU_GET_CUR_NESTING s = 0" "k_sysRunning s" and t: "runs s t"
    and self: "EVENT_ulOption (k_event s e) AND LW_OPTION_NORMAL = 0 \<or> mx_owner (mutex_of s e) \<noteq> Some t"
  defines "r \<equiv> SemaphoreMPend ulId ulTimeout s"
    and "a \<equiv> mutex_pend (EVENT_ulOption (k_event s e)) (ulTimeout \<noteq> LW_OPTION_NOT_WAIT) (tcb_prio s) t (mutex_of s e)"
  shows "mutex_ok (snd r) e" "mutex_of (snd r) e = snd a" "fst r = mpend_code s e ulTimeout (fst a)"
    "fst a = Queued \<Longrightarrow> t \<notin> ready_set (snd r)"
    "tcb_prio (snd r) u = (if fst a = Queued \<and> mx_owner (mutex_of s e) = Some u then boosted s e t u else tcb_prio s u)"
proof -
  let ?s1 = "KERNEL_ENTER s" and ?opt = "EVENT_ulOption (k_event s e)" and ?ow = "EVENT_pvTcbOwn (k_event s e)"
  have m1: "mutex_ok ?s1 e" and t1: "runs ?s1 t" using m t by simp_all
  have cur: "LW_TCB_GET_CUR s = t" using t by (simp add: runs_def)
  note d = mutex_okD[OF m]
  note td = runsD[OF d(2) t]
  have tw: "t \<notin> waiters s e EVENT_SEM_Q" using td(5) by (simp add: waiters_def waits_on_def)
  let ?f = "\<lambda>ev. ev\<lparr>EVENT_ulCounter := 0, EVENT_ulMaxCounter := ucast (tcb_prio ?s1 t), EVENT_pvTcbOwn := Some t\<rparr>"
  let ?g = "\<lambda>ev. ev\<lparr>EVENT_pvPtr := EVENT_pvPtr ev + 1\<rparr>"
  let ?s2 = "EventPrioTryBoost e t ?s1"
  let ?s3 = "PendBlock e EVENT_SEM_Q LW_THREAD_STATUS_SEM ulTimeout ?s2"
  have P: "r = (if ?ow = None then (ThenSafe e, KERNEL_EXIT (event_upd e ?f ?s1))
     else if ?opt AND LW_OPTION_NORMAL = 0 \<and> ?ow = Some t then
       (if ?opt AND LW_OPTION_ERRORCHECK \<noteq> 0 then (Done EDEADLK, ErrorHandle_of s EDEADLK (KERNEL_EXIT ?s1))
        else (Done ERROR_NONE, KERNEL_EXIT (event_upd e ?g ?s1)))
     else if ulTimeout = LW_OPTION_NOT_WAIT then
       (Done ERROR_THREAD_WAIT_TIMEOUT, ErrorHandle_of s ERROR_THREAD_WAIT_TIMEOUT (KERNEL_EXIT ?s1))
     else (Blocked ulTimeout (KERNEL_TIME_GET ?s2) (EVENT_ulOption (k_event ?s3 e)), KERNEL_EXIT ?s3))"
    using n d(4) by (simp add: r_def SemaphoreMPend_def SemaphoreMPend_again_def EventCheckId_handle[OF h]
        EventOpen_handle[OF h] Let_def cur)
  have one: "mutex_ok (snd r) e \<and> mutex_of (snd r) e = snd a \<and> fst r = mpend_code s e ulTimeout (fst a)
      \<and> (fst a = Queued \<longrightarrow> t \<notin> ready_set (snd r))
      \<and> (\<forall>u. tcb_prio (snd r) u = (if fst a = Queued \<and> ?ow = Some u then boosted s e t u else tcb_prio s u))"
  proof (cases ?ow)
    case None
    have a: "a = (Taken, (mutex_of s e)\<lparr>mx_owner := Some t, mx_saved := tcb_prio s t\<rparr>)"
      using None by (simp add: a_def mutex_pend_def mutex_of_def)
    note u = mutex_ok_upd[OF m1, where f = ?f]
    have "mutex_ok (event_upd e ?f ?s1) e \<and> mutex_of (event_upd e ?f ?s1) e = snd a"
      using u td tw d(5)[OF None] by (simp add: a) (simp add: mutex_of_def)
    then show ?thesis using P None by (simp add: a)
  next
    case (Some ow)
    note ow = d(6)[OF Some]
    show ?thesis
    proof (cases "ow = t")
      case True
      then have nn: "?opt AND LW_OPTION_NORMAL = 0" using self Some by (simp add: mutex_of_def)
      show ?thesis
      proof (cases "?opt AND LW_OPTION_ERRORCHECK = 0")
        case True
        have a: "a = (Nested, (mutex_of s e)\<lparr>mx_depth := mx_depth (mutex_of s e) + 1\<rparr>)"
          using Some \<open>ow = t\<close> nn True by (simp add: a_def mutex_pend_def mutex_of_def)
        note u = mutex_ok_upd[OF m1, where f = ?g]
        have "mutex_ok (event_upd e ?g ?s1) e \<and> mutex_of (event_upd e ?g ?s1) e = snd a"
          using u Some ow d(4) by (simp add: a) (simp add: mutex_of_def)
        then show ?thesis using P Some \<open>ow = t\<close> nn True by (simp add: a)
      next
        case False
        have a: "a = (Deadlock, mutex_of s e)"
          using Some \<open>ow = t\<close> nn False by (simp add: a_def mutex_pend_def mutex_of_def)
        then show ?thesis using P Some \<open>ow = t\<close> nn False m1 by (simp del: mutex_ok_reads(5))
      qed
    next
      case False
      show ?thesis
      proof (cases "ulTimeout = LW_OPTION_NOT_WAIT")
        case True
        have a: "a = (WouldBlock, mutex_of s e)"
          using Some \<open>ow \<noteq> t\<close> True by (simp add: a_def mutex_pend_def mutex_of_def)
        then show ?thesis using P Some \<open>ow \<noteq> t\<close> True m1 by (simp del: mutex_ok_reads(5))
      next
        case False
        have kt: "k_i64KernelTime ?s1 = k_i64KernelTime s" by (simp add: KERNEL_ENTER_def)
        note b = EventPrioTryBoost_ok[where s = ?s1, OF m1 _ t1, of ow]
        have b: "mutex_ok ?s2 e" "mutex_of ?s2 e = mutex_of s e" "runs ?s2 t"
          "\<And>u. tcb_prio ?s2 u = (if u = ow then boosted ?s1 e t ow else tcb_prio s u)"
          "k_event ?s2 = k_event s" "k_i64KernelTime ?s2 = k_i64KernelTime s"
          using b Some \<open>ow \<noteq> t\<close> kt by simp_all
        have own2: "EVENT_pvTcbOwn (k_event ?s2 e) = Some ow" using b(5) Some by simp
        have bo: "boosted ?s1 e t ow = boosted s e t ow" by (simp add: boosted_def KERNEL_ENTER_def)
        note p = mutex_ok_PendBlock[OF b(1) own2 b(3) \<open>ow \<noteq> t\<close>[symmetric], where ulTimeout = ulTimeout]
        have q: "ow \<notin> set (mx_queue (mutex_of s e))"
          using ow wait_order_waiters[OF kinv_wait[OF d(2)], of e EVENT_SEM_Q] by (simp add: mutex_of_def)
        have eq: "enqueue (by_prio s e) (tcb_prio ?s2) t (mx_queue (mutex_of s e)) =
            enqueue (by_prio s e) (tcb_prio s) t (mx_queue (mutex_of s e))"
          by (rule enqueue_cong) (use q b(4) \<open>ow \<noteq> t\<close> in auto)
        have a: "a = (Queued, (mutex_of s e)\<lparr>mx_queue := enqueue (by_prio s e) (tcb_prio s) t (mx_queue (mutex_of s e))\<rparr>)"
          using Some \<open>ow \<noteq> t\<close> False by (simp add: a_def mutex_pend_def mutex_of_def)
        show ?thesis using P Some \<open>ow \<noteq> t\<close> False p b eq by (simp add: a bo KERNEL_TIME_GET_def)
      qed
    qed
  qed
  then show "mutex_ok (snd r) e" "mutex_of (snd r) e = snd a" "fst r = mpend_code s e ulTimeout (fst a)"
    "fst a = Queued \<Longrightarrow> t \<notin> ready_set (snd r)"
    "tcb_prio (snd r) u = (if fst a = Queued \<and> mx_owner (mutex_of s e) = Some u then boosted s e t u else tcb_prio s u)"
    by (auto simp: mutex_of_def)
qed

section \<open>Posting\<close>

datatype mpost = NotOwner | Unnested | Handed_to tid | Freed

definition mutex_post :: "(tid \<Rightarrow> UINT8) \<Rightarrow> tid \<Rightarrow> mutex \<Rightarrow> mpost \<times> mutex" where
  "mutex_post pr t a =
    (if mx_owner a \<noteq> Some t then (NotOwner, a)
     else if mx_depth a \<noteq> 0 then (Unnested, a\<lparr>mx_depth := mx_depth a - 1\<rparr>)
     else case mx_queue a of
       u # us \<Rightarrow> (Handed_to u, a\<lparr>mx_owner := Some u, mx_saved := pr u, mx_queue := us\<rparr>)
     | [] \<Rightarrow> (Freed, a\<lparr>mx_owner := None, mx_saved := LW_PRIO_LOWEST\<rparr>))"

fun mpost_code :: "eid \<Rightarrow> mpost \<Rightarrow> post_out" where
  "mpost_code e NotOwner = Posted ERROR_EVENT_NOT_OWN"
| "mpost_code e Unnested = Posted ERROR_NONE"
| "mpost_code e (Handed_to u) = ThenUnsafe e"
| "mpost_code e Freed = ThenUnsafe e"

text \<open>The hand-over: the poster gets its priority back, the first waiter owns the mutex.\<close>

lemma MPost_handover:
  fixes m :: ULONG
  assumes m: "mutex_ok s e" and own: "EVENT_pvTcbOwn (k_event s e) = Some t" and t: "runs s t"
    and dep: "EVENT_pvPtr (k_event s e) = 0" and ne: "EventWaitNum s EVENT_SEM_Q e \<noteq> 0"
  defines "u \<equiv> next_waiter s e EVENT_SEM_Q" and "s3 \<equiv> EventPrioTryResume e t (snd (ReadyLowLevel e EVENT_SEM_Q m s))"
  fixes s' :: kernel and p :: UINT8
  defines "s' \<equiv> EventReadyHighLevel u LW_THREAD_STATUS_SEM (event_upd e
      (\<lambda>ev. ev\<lparr>EVENT_ulMaxCounter := ucast (tcb_prio s3 u), EVENT_pvTcbOwn := Some u\<rparr>) s3)"
    and "p \<equiv> mx_saved (mutex_of s e)"
  shows "fst (ReadyLowLevel e EVENT_SEM_Q m s) = u" "mutex_ok s' e"
    "mutex_post (tcb_prio s) t (mutex_of s e) = (Handed_to u, mutex_of s' e)"
    "tcb_prio s' v = (if v = t then p else tcb_prio s v)"
    "tcb_status s' u = woken_status LW_THREAD_STATUS_SEM (tcb_status s u)"
proof -
  note d = mutex_okD[OF m]
  note td = runsD[OF d(2) t]
  define s1 where "s1 = snd (ReadyLowLevel e EVENT_SEM_Q m s)"
  note lo = ReadyLowLevel_half[OF d(2) ne, where m = m, folded u_def s1_def]
  show "fst (ReadyLowLevel e EVENT_SEM_Q m s) = u" by (rule lo(1))
  have s1: "k_tcb s1 = (k_tcb s)(u := (k_tcb s u)\<lparr>TCB_usStatus := tcb_status s u AND NOT LW_THREAD_STATUS_DELAY,
     TCB_pvMsgBoxMessage := m\<rparr>)" by (simp add: lo(7) ReadyLowLevel_tail_tcb)
  have core1: "ev_core (k_event s1 e) = ev_core (k_event s e)" by (simp add: lo(7))
  note c1 = ev_core_eqD[OF core1]
  have uw: "waits_on s e EVENT_SEM_Q u" using next_waiter_ok(2)[OF kinv_wait[OF d(2)] ne] by (simp add: u_def)
  have ut: "u \<noteq> t" using uw td(5) by (auto simp: waits_on_def)
  have p: "ucast (EVENT_ulMaxCounter (k_event s1 e)) = p" by (simp add: p_def mutex_of_def c1)
  have s3: "s3 = (if tcb_prio s1 t \<noteq> p then SchedSetPrio t p s1 else s1)"
    by (simp add: s3_def EventPrioTryResume_def s1_def[symmetric] p Let_def)
  have h3: "handing u s1 s3" using handing_prio[OF lo(2)] handing_refl[OF lo(2)] td lo(5,6) by (simp add: s3)
  have pr3: "tcb_prio s3 v = (if v = t then p else tcb_prio s v)" for v
    using ut by (simp add: s3 SchedSetPrio_tcb s1)
  let ?f = "\<lambda>ev. ev\<lparr>EVENT_ulMaxCounter := ucast (tcb_prio s3 u), EVENT_pvTcbOwn := Some u\<rparr>"
  have h4: "handing u s1 (event_upd e ?f s3)"
    by (rule handing_trans[OF h3 handing_event_upd]) (use h3 in \<open>simp_all add: handing_def\<close>)
  note ho = Handoff_ok[OF d(2) ne h4[unfolded s1_def u_def], where ty = LW_THREAD_STATUS_SEM, folded u_def, folded s'_def]
  have other: "tcb_prio (event_upd e ?f s3) v = tcb_prio s v" if "v \<in> waiters s e EVENT_SEM_Q" for v
    using that td(5) pr3[of v] by (auto simp: waiters_def waits_on_def)
  have oo: "wait_order s e EVENT_SEM_Q = u # wait_order s' e EVENT_SEM_Q" "order_ok s' e EVENT_SEM_Q"
    unfolding s'_def u_def
    by (rule Handoff_order[OF d(2) ne d(3)]; use h4[unfolded s1_def u_def] other[unfolded u_def] in blast)+
  show prio: "tcb_prio s' v = (if v = t then p else tcb_prio s v)" for v using ho(12) pr3 by simp
  show "tcb_status s' u = woken_status LW_THREAD_STATUS_SEM (tcb_status s u)" by (rule ho(3))
  have ev: "k_event s' e = ?f (k_event s3 e)" by (simp add: ho(11))
  have ev3: "k_event s3 e = k_event s1 e" by (simp add: s3 SchedSetPrio_reads)
  have mu: "mutex_of s' e = (mutex_of s e)\<lparr>mx_owner := Some u, mx_saved := tcb_prio s u, mx_queue := wait_order s' e EVENT_SEM_Q\<rparr>"
    using pr3[of u] ut by (simp add: mutex_of_def ev ev3 c1)
  show "mutex_post (tcb_prio s) t (mutex_of s e) = (Handed_to u, mutex_of s' e)"
    using own dep oo(1) by (simp add: mutex_post_def mu) (simp add: mutex_of_def)
  have id: "k_ncpus s \<le> u \<and> k_tcbIdTable s u"
    using waiter_live[OF d(2), of u e EVENT_SEM_Q] uw by (simp add: waiters_def)
  show "mutex_ok s' e" using ho(1,10,16,17) oo(2) id d(4) own
    by (simp add: mutex_ok_def mu queue_ok_def) (simp add: mutex_of_def ev ev3 c1)
qed

lemma mutex_ok_release:
  assumes m: "mutex_ok s e" and own: "EVENT_pvTcbOwn (k_event s e) = Some t"
  shows "EVENT_pvPtr (k_event s e) \<noteq> 0 \<Longrightarrow> mutex_ok (event_upd e (\<lambda>ev. ev\<lparr>EVENT_pvPtr := EVENT_pvPtr ev - 1\<rparr>) s) e
      \<and> mutex_post (tcb_prio s) t (mutex_of s e) = (Unnested, mutex_of (event_upd e (\<lambda>ev. ev\<lparr>EVENT_pvPtr := EVENT_pvPtr ev - 1\<rparr>) s) e)"
    "\<lbrakk>EVENT_pvPtr (k_event s e) = 0; EventWaitNum s EVENT_SEM_Q e = 0\<rbrakk> \<Longrightarrow>
      mutex_ok (event_upd e (\<lambda>ev. ev\<lparr>EVENT_ulCounter := 1, EVENT_ulMaxCounter := ucast LW_PRIO_LOWEST, EVENT_pvTcbOwn := None\<rparr>) s) e
      \<and> mutex_post (tcb_prio s) t (mutex_of s e) = (Freed, mutex_of (event_upd e
          (\<lambda>ev. ev\<lparr>EVENT_ulCounter := 1, EVENT_ulMaxCounter := ucast LW_PRIO_LOWEST, EVENT_pvTcbOwn := None\<rparr>) s) e)"
proof -
  note d = mutex_okD[OF m]
  show "mutex_ok (event_upd e (\<lambda>ev. ev\<lparr>EVENT_pvPtr := EVENT_pvPtr ev - 1\<rparr>) s) e
      \<and> mutex_post (tcb_prio s) t (mutex_of s e) = (Unnested, mutex_of (event_upd e (\<lambda>ev. ev\<lparr>EVENT_pvPtr := EVENT_pvPtr ev - 1\<rparr>) s) e)"
    if "EVENT_pvPtr (k_event s e) \<noteq> 0"
    using mutex_ok_upd[OF m, where f = "\<lambda>ev. ev\<lparr>EVENT_pvPtr := EVENT_pvPtr ev - 1\<rparr>"] that own d(4) d(6)[OF own]
    by (simp add: mutex_post_def) (simp add: mutex_of_def)
  assume z: "EVENT_pvPtr (k_event s e) = 0" and ne: "EventWaitNum s EVENT_SEM_Q e = 0"
  have q: "mx_queue (mutex_of s e) = []" using wait_order_empty[OF kinv_wait[OF d(2)]] ne by (simp add: mutex_of_def)
  then show "mutex_ok (event_upd e (\<lambda>ev. ev\<lparr>EVENT_ulCounter := 1, EVENT_ulMaxCounter := ucast LW_PRIO_LOWEST, EVENT_pvTcbOwn := None\<rparr>) s) e
      \<and> mutex_post (tcb_prio s) t (mutex_of s e) = (Freed, mutex_of (event_upd e
          (\<lambda>ev. ev\<lparr>EVENT_ulCounter := 1, EVENT_ulMaxCounter := ucast LW_PRIO_LOWEST, EVENT_pvTcbOwn := None\<rparr>) s) e)"
    using mutex_ok_upd[OF m, where f = "\<lambda>ev. ev\<lparr>EVENT_ulCounter := 1, EVENT_ulMaxCounter := ucast LW_PRIO_LOWEST, EVENT_pvTcbOwn := None\<rparr>"]
      z own by (simp add: mutex_post_def) (simp add: mutex_of_def)
qed

lemma SemaphoreMPost_refines:
  assumes m: "mutex_ok s e" and h: "handle OBJECT_SEM_M LW_TYPE_EVENT_MUTEX s ulId e"
    and n: "LW_CPU_GET_CUR_NESTING s = 0" "k_sysRunning s" and t: "runs s t"
  defines "r \<equiv> SemaphoreMPost ulId s" and "a \<equiv> mutex_post (tcb_prio s) t (mutex_of s e)"
  shows "mutex_ok (snd r) e" "mutex_of (snd r) e = snd a" "fst r = mpost_code e (fst a)"
    "fst a = Handed_to u \<Longrightarrow> tcb_status (snd r) u = woken_status LW_THREAD_STATUS_SEM (tcb_status s u)"
    "tcb_prio (snd r) v = (if v = t \<and> (\<exists>u. fst a = Handed_to u) then mx_saved (mutex_of s e) else tcb_prio s v)"
proof -
  let ?s1 = "KERNEL_ENTER s" and ?ow = "EVENT_pvTcbOwn (k_event s e)"
  have m1: "mutex_ok ?s1 e" and t1: "runs ?s1 t" using m t by simp_all
  have cur: "LW_TCB_GET_CUR s = t" using t by (simp add: runs_def)
  note d = mutex_okD[OF m]
  let ?lo = "ReadyLowLevel e EVENT_SEM_Q 0 ?s1"
  let ?s3 = "EventPrioTryResume e t (snd ?lo)"
  let ?s4 = "event_upd e (\<lambda>ev. ev\<lparr>EVENT_ulMaxCounter := ucast (tcb_prio ?s3 (fst ?lo)), EVENT_pvTcbOwn := Some (fst ?lo)\<rparr>) ?s3"
  let ?dec = "event_upd e (\<lambda>ev. ev\<lparr>EVENT_pvPtr := EVENT_pvPtr ev - 1\<rparr>) ?s1"
  let ?fr = "event_upd e (\<lambda>ev. ev\<lparr>EVENT_ulCounter := 1, EVENT_ulMaxCounter := ucast LW_PRIO_LOWEST, EVENT_pvTcbOwn := None\<rparr>) ?s1"
  have P: "r = (if ?ow \<noteq> Some t then (Posted ERROR_EVENT_NOT_OWN, ErrorHandle_of s ERROR_EVENT_NOT_OWN (KERNEL_EXIT ?s1))
     else if EVENT_pvPtr (k_event s e) \<noteq> 0 then (Posted ERROR_NONE, KERNEL_EXIT ?dec)
     else if EventWaitNum s EVENT_SEM_Q e \<noteq> 0 then (ThenUnsafe e, KERNEL_EXIT (EventReadyHighLevel (fst ?lo) LW_THREAD_STATUS_SEM ?s4))
     else (ThenUnsafe e, KERNEL_EXIT ?fr))"
    using n d(4) by (simp add: r_def SemaphoreMPost_def EventCheckId_handle[OF h] EventOpen_handle[OF h] Let_def cur split_beta)
  have one: "mutex_ok (snd r) e \<and> mutex_of (snd r) e = snd a \<and> fst r = mpost_code e (fst a)
      \<and> (\<forall>u. fst a = Handed_to u \<longrightarrow> tcb_status (snd r) u = woken_status LW_THREAD_STATUS_SEM (tcb_status s u))
      \<and> (\<forall>v. tcb_prio (snd r) v = (if v = t \<and> (\<exists>u. fst a = Handed_to u) then mx_saved (mutex_of s e) else tcb_prio s v))"
  proof (cases "?ow = Some t")
    case False
    then have a: "a = (NotOwner, mutex_of s e)" by (simp add: a_def mutex_post_def mutex_of_def)
    then show ?thesis using P False m1 by (simp del: mutex_ok_reads(5))
  next
    case own: True
    have own1: "EVENT_pvTcbOwn (k_event ?s1 e) = Some t" using own by simp
    note rel = mutex_ok_release[OF m1 own1]
    show ?thesis
    proof (cases "EVENT_pvPtr (k_event s e) = 0")
      case False
      then have "mutex_ok ?dec e" "a = (Unnested, mutex_of ?dec e)" using rel(1) by (simp_all add: a_def)
      then show ?thesis using P own False by simp
    next
      case dep: True
      show ?thesis
      proof (cases "EventWaitNum s EVENT_SEM_Q e = 0")
        case True
        then have "mutex_ok ?fr e" "a = (Freed, mutex_of ?fr e)" using rel(2) dep by (simp_all add: a_def)
        then show ?thesis using P own dep True by simp
      next
        case False
        have ne1: "EventWaitNum ?s1 EVENT_SEM_Q e \<noteq> 0" and dep1: "EVENT_pvPtr (k_event ?s1 e) = 0" using False dep by simp_all
        note hd = MPost_handover[OF m1 own1 t1 dep1 ne1, where m = 0]
        have a: "a = (Handed_to (fst ?lo), mutex_of (EventReadyHighLevel (fst ?lo) LW_THREAD_STATUS_SEM ?s4) e)"
          using hd(3) by (simp add: a_def hd(1))
        show ?thesis using P own dep False hd(2,4,5) by (simp add: a hd(1))
      qed
    qed
  qed
  then show "mutex_ok (snd r) e" "mutex_of (snd r) e = snd a" "fst r = mpost_code e (fst a)"
    "fst a = Handed_to u \<Longrightarrow> tcb_status (snd r) u = woken_status LW_THREAD_STATUS_SEM (tcb_status s u)"
    "tcb_prio (snd r) v = (if v = t \<and> (\<exists>u. fst a = Handed_to u) then mx_saved (mutex_of s e) else tcb_prio s v)"
    by auto
qed

section \<open>Creating and deleting\<close>

lemma SemaphoreMCreate_ok:
  fixes ulOption :: ULONG and ucCeilingPriority :: UINT8
  assumes k: "kinv s" "pool_inv s" "k_freeEvents s \<noteq> []" and n: "LW_CPU_GET_CUR_NESTING s = 0"
    and a: "\<not> Object_Name_Invalid pcName"
  defines "r \<equiv> SemaphoreMCreate pcName ucCeilingPriority ulOption s" and "e \<equiv> hd (k_freeEvents s)"
  shows "handle OBJECT_SEM_M LW_TYPE_EVENT_MUTEX (snd r) (fst r) e" "one_q (snd r) e" "mutex_ok (snd r) e"
    "mutex_of (snd r) e = \<lparr>mx_owner = None, mx_depth = 0, mx_saved = LW_PRIO_LOWEST, mx_queue = []\<rparr>"
    "EVENT_ulOption (k_event (snd r) e) = ulOption" "EVENT_ucCeilingPriority (k_event (snd r) e) = ucCeilingPriority"
    "k_freeEvents (snd r) = tl (k_freeEvents s)"
proof -
  obtain o1 s1 where al: "EventAlloc s = (o1, s1)" by fastforce
  have "o1 \<noteq> None" using EventAlloc_ok(6)[OF k(1,2) al] k(3) by simp
  then obtain e' where o1: "o1 = Some e'" by auto
  let ?f = "\<lambda>ev. ev\<lparr>EVENT_cEventName := event_name pcName,
            EVENT_ucType := LW_TYPE_EVENT_MUTEX, EVENT_ulCounter := 1,
            EVENT_ulMaxCounter := ucast LW_PRIO_LOWEST, EVENT_ucCeilingPriority := ucCeilingPriority,
            EVENT_ulOption := ulOption, EVENT_pvPtr := 0, EVENT_pvTcbOwn := None,
            EVENT_wqWaitQ := (EVENT_wqWaitQ ev)(0 := WQ_INIT, 1 := WQ_INIT)\<rparr>"
  note c = Create_ok[where f = ?f, OF k(1,2) al[unfolded o1] _ refl]
  have ee: "e' = e" using c(3) by (simp add: e_def)
  have r: "r = (MakeObjectId OBJECT_SEM_M LW_CFG_PROCESSOR_NUMBER (of_nat e), event_upd e ?f s1)"
    using n a al by (simp add: r_def SemaphoreMCreate_def o1 ee)
  have ev: "k_event (snd r) e = ?f (k_event s e)" using c(5) by (simp add: r ee del: event_upd_simps(1))
  show "handle OBJECT_SEM_M LW_TYPE_EVENT_MUTEX (snd r) (fst r) e"
    unfolding r fst_conv snd_conv by (rule handle_Make) (use c(4) ev ee in \<open>simp_all add: r del: event_upd_simps(1)\<close>)
  show oq: "one_q (snd r) e" using c(1) by (simp add: r ee del: event_upd_simps(1))
  have w: "wait_order (snd r) e EVENT_SEM_Q = []" using c(2) by (simp add: r ee del: event_upd_simps(1))
  then show mu: "mutex_of (snd r) e = \<lparr>mx_owner = None, mx_depth = 0, mx_saved = LW_PRIO_LOWEST, mx_queue = []\<rparr>"
    by (simp add: mutex_of_def ev)
  show "mutex_ok (snd r) e" using oq one_qD[of "snd r" e] by (simp add: mutex_ok_def queue_ok_def mu ev)
  show "EVENT_ulOption (k_event (snd r) e) = ulOption" "EVENT_ucCeilingPriority (k_event (snd r) e) = ucCeilingPriority"
    by (simp_all add: ev)
  show "k_freeEvents (snd r) = tl (k_freeEvents s)" using c(3) by (simp add: r ee)
qed

text \<open>Deleting a mutex frees its waiters and gives the owner its priority back.\<close>

lemma SemaphoreMDelete_ok:
  assumes o: "one_q s e" and m: "mutex_ok s e" and h: "handle OBJECT_SEM_M LW_TYPE_EVENT_MUTEX s ulId e"
    and n: "LW_CPU_GET_CUR_NESTING s = 0" and e: "e < LW_CFG_MAX_EVENTS"
    and opt: "EVENT_ulOption (k_event s e) AND LW_OPTION_DELETE_SAFE = 0"
  defines "r \<equiv> SemaphoreMDelete ulId s"
  shows "fst r = ERROR_NONE \<and> fst (snd r) = 0" "kinv (snd (snd r))" "pool_inv (snd (snd r))"
    "k_freeEvents (snd (snd r)) = k_freeEvents s @ [e]" "EVENT_ucType (k_event (snd (snd r)) e) = LW_TYPE_EVENT_UNUSED"
    "\<forall>t\<in>waiters s e EVENT_SEM_Q. tcb_status (snd (snd r)) t = woken_status LW_THREAD_STATUS_SEM (tcb_status s t)
       \<and> TCB_ucIsEventDelete (k_tcb (snd (snd r)) t) = LW_EVENT_DELETE
       \<and> TCB_ucWaitTimeout (k_tcb (snd (snd r)) t) = LW_WAIT_TIME_CLEAR"
    "t \<notin> waiters s e EVENT_SEM_Q \<Longrightarrow>
       tcb_prio (snd (snd r)) t = (if mx_owner (mutex_of s e) = Some t then mx_saved (mutex_of s e) else tcb_prio s t)"
proof -
  let ?s1 = "KERNEL_ENTER s"
  define s2 where "s2 = event_upd e (\<lambda>ev. ev\<lparr>EVENT_ucType := LW_TYPE_EVENT_UNUSED\<rparr>) ?s1"
  define s3 where "s3 = DeleteLoop (unat (EventWaitNum s2 EVENT_SEM_Q e)) e EVENT_SEM_Q LW_THREAD_STATUS_SEM s2"
  define s4 where "s4 = event_upd e (\<lambda>ev. ev\<lparr>EVENT_pvTcbOwn := None\<rparr>) s3"
  define s5 where "s5 = (case EVENT_pvTcbOwn (k_event s3 e) of None \<Rightarrow> s4
                 | Some t \<Rightarrow> (let ucPriority = ucast (EVENT_ulMaxCounter (k_event s4 e)) in
                     if ucPriority \<noteq> tcb_prio s4 t then SchedSetPrio t ucPriority s4 else s4))"
  have o2: "one_q s2 e" unfolding s2_def by (rule one_q_event_upd) (use o in simp_all)
  have d: "drained True e EVENT_SEM_Q LW_THREAD_STATUS_SEM s2 s3" unfolding s3_def by (rule Delete_drained[OF one_qD(1)[OF o2]])
  have o3: "one_q s3 e" by (rule one_q_drained[OF o2 d])
  have o4: "one_q s4 e" unfolding s4_def by (rule one_q_event_upd[OF o3]) simp
  note dd = d[unfolded drained_def]
  have core: "ev_core (k_event s3 e) = ev_core (k_event s2 e)" using dd by blast
  note c3 = ev_core_eqD[OF core]
  have own3: "EVENT_pvTcbOwn (k_event s3 e) = EVENT_pvTcbOwn (k_event s e)"
    and max3: "EVENT_ulMaxCounter (k_event s3 e) = EVENT_ulMaxCounter (k_event s e)"
    and opt3: "EVENT_ulOption (k_event s3 e) = EVENT_ulOption (k_event s e)"
    using c3 by (simp_all add: s2_def)
  have live: "k_ncpus s4 \<le> t \<and> k_tcbIdTable s4 t" if "EVENT_pvTcbOwn (k_event s e) = Some t" for t
    using mutex_okD(6)[OF m that] dd by (simp add: s4_def s2_def)
  let ?own = "EVENT_pvTcbOwn (k_event s e)" and ?p = "ucast (EVENT_ulMaxCounter (k_event s e)) :: UINT8"
  have max4: "EVENT_ulMaxCounter (k_event s4 e) = EVENT_ulMaxCounter (k_event s e)" by (simp add: s4_def max3)
  have s5: "s5 = (case ?own of None \<Rightarrow> s4 | Some u \<Rightarrow> if ?p \<noteq> tcb_prio s4 u then SchedSetPrio u ?p s4 else s4)"
    by (simp add: s5_def own3 max4 Let_def cong: option.case_cong)
  have k5: "kinv s5" using SchedSetPrio_kinv(1)[OF one_qD(1)[OF o4]] live one_qD(1)[OF o4]
    by (simp add: s5 split: option.splits)
  have e5: "k_event s5 = k_event s4" "k_freeEvents s5 = k_freeEvents s4" "waiters s5 e' q = waiters s4 e' q"
    "tcb_status s5 v = tcb_status s4 v" "TCB_ucIsEventDelete (k_tcb s5 v) = TCB_ucIsEventDelete (k_tcb s4 v)"
    "TCB_ucWaitTimeout (k_tcb s5 v) = TCB_ucWaitTimeout (k_tcb s4 v)"
    "tcb_prio s5 v = (if ?own = Some v then ?p else tcb_prio s4 v)" for e' q v
    by (auto simp: s5 SchedSetPrio_reads SchedSetPrio_tcb split: option.splits)
  have w0: "waiters s4 e EVENT_SEM_Q = {}" using dd by (simp add: s4_def)
  have w4: "waiters s4 e q = {}" for q using o4 w0 by (cases "q = EVENT_SEM_Q") (simp_all add: one_q_def)
  have ty4: "EVENT_ucType (k_event s4 e) = LW_TYPE_EVENT_UNUSED"
    using drained_ucType[OF d, of e] by (simp add: s4_def s2_def)
  have nf: "e \<notin> set (k_freeEvents s4)" using o4 by (simp add: one_q_def)
  have p5: "pool_inv s5" using one_qD(2)[OF o4] by (simp add: pool_inv_def e5)
  have w5: "\<forall>q. waiters s5 e q = {}" using w4 by (simp add: e5(3))
  note f = Free_ok[OF k5 p5 e, unfolded e5(1,2), OF nf ty4 w5]
  have r: "r = (ERROR_NONE, 0, KERNEL_EXIT (Free_Event_Object e s5))"
  proof -
    have "EVENT_ulOption (k_event (Free_Event_Object e s5) e) = EVENT_ulOption (k_event s e)"
      by (simp add: Free_Event_Object_def e5 s4_def opt3)
    then show ?thesis
      unfolding r_def SemaphoreMDelete_def EventOpen_handle[OF h] sum.case prod.case Let_def s2_def[symmetric] s3_def[symmetric]
        s4_def[symmetric] s5_def[symmetric, unfolded Let_def]
      using n opt by (simp split: option.splits)
  qed
  show "fst r = ERROR_NONE \<and> fst (snd r) = 0" "kinv (snd (snd r))" "pool_inv (snd (snd r))"
    using f(1,2) by (simp_all add: r)
  have fr: "k_tcb (Free_Event_Object e s5) = k_tcb s5" "k_event (Free_Event_Object e s5) = k_event s5"
    by (simp_all add: Free_Event_Object_def)
  show "k_freeEvents (snd (snd r)) = k_freeEvents s @ [e]" using f(3) dd by (simp add: r s4_def s2_def)
  show "EVENT_ucType (k_event (snd (snd r)) e) = LW_TYPE_EVENT_UNUSED" using ty4 by (simp add: r fr e5)
  show "\<forall>t\<in>waiters s e EVENT_SEM_Q. tcb_status (snd (snd r)) t = woken_status LW_THREAD_STATUS_SEM (tcb_status s t)
       \<and> TCB_ucIsEventDelete (k_tcb (snd (snd r)) t) = LW_EVENT_DELETE
       \<and> TCB_ucWaitTimeout (k_tcb (snd (snd r)) t) = LW_WAIT_TIME_CLEAR"
    using dd by (simp add: r fr e5 s4_def s2_def)
  have core3: "tcb_prio s3 v = tcb_prio s v" if "v \<notin> waiters s e EVENT_SEM_Q" for v
    using tcb_core_eqD(3)[of "k_tcb s3 v" "k_tcb s2 v"] dd that by (simp add: s2_def)
  show "tcb_prio (snd (snd r)) t = (if mx_owner (mutex_of s e) = Some t then mx_saved (mutex_of s e) else tcb_prio s t)"
    if "t \<notin> waiters s e EVENT_SEM_Q"
    using core3[OF that] by (simp add: r fr e5 mutex_of_def s4_def)
qed

end
