(* ===== verification/Sem_Rw.thy ===== *)
theory Sem_Rw
  imports Event_Api
begin

text \<open>
  Reader-writer semaphores: the routines \<open>API_SemaphoreRW*\<close> of kernel/interface.
  \<open>EVENT_ulCounter\<close> counts the readers or the one writer, \<open>EVENT_iStatus\<close> tells which.
\<close>

section \<open>Operations\<close>

definition SemaphoreRWCreate :: "string option \<Rightarrow> ULONG \<Rightarrow> kernel \<Rightarrow> ULONG \<times> kernel" where
  "SemaphoreRWCreate pcName ulOption s =
    (if LW_CPU_GET_CUR_NESTING s \<noteq> 0 then (0, ErrorHandle ERROR_KERNEL_IN_ISR s)
     else if Object_Name_Invalid pcName then (0, ErrorHandle ERROR_KERNEL_PNAME_TOO_LONG s)
     else case EventAlloc s of
       (None, s1) \<Rightarrow> (0, ErrorHandle_of s ERROR_EVENT_FULL s1)
     | (Some e, s1) \<Rightarrow>
         (MakeObjectId OBJECT_SEM_RW LW_CFG_PROCESSOR_NUMBER (of_nat e),
          event_upd e (\<lambda>ev. ev\<lparr>EVENT_cEventName := event_name pcName,
            EVENT_ucType := LW_TYPE_EVENT_SEMRW, EVENT_ulCounter := 0, EVENT_ulMaxCounter := 0,
            EVENT_ulOption := ulOption, EVENT_iStatus := EVENT_RW_STATUS_R,
            EVENT_pvPtr := 0, EVENT_pvTcbOwn := None,
            EVENT_wqWaitQ := (EVENT_wqWaitQ ev)(0 := WQ_INIT, 1 := WQ_INIT)\<rparr>) s1))"

definition SemaphoreRWDelete :: "ULONG \<Rightarrow> kernel \<Rightarrow> ULONG \<times> ULONG \<times> kernel" where
  "SemaphoreRWDelete ulId s =
    (if LW_CPU_GET_CUR_NESTING s \<noteq> 0 then (ERROR_KERNEL_IN_ISR, ulId, ErrorHandle ERROR_KERNEL_IN_ISR s)
     else case EventOpen OBJECT_SEM_RW LW_TYPE_EVENT_SEMRW ulId s of
       Inl (r, s1) \<Rightarrow> (r, ulId, s1)
     | Inr (e, s1) \<Rightarrow> (let
           s2 = event_upd e (\<lambda>ev. ev\<lparr>EVENT_ucType := LW_TYPE_EVENT_UNUSED\<rparr>) s1;
           s3 = DeleteLoop (unat (EventWaitNum s2 EVENT_RW_Q_R e)) e EVENT_RW_Q_R LW_THREAD_STATUS_SEM s2;
           s4 = DeleteLoop (unat (EventWaitNum s3 EVENT_RW_Q_W e)) e EVENT_RW_Q_W LW_THREAD_STATUS_SEM s3;
           owner = EVENT_pvTcbOwn (k_event s4 e);
           s5 = Free_Event_Object e (event_upd e (\<lambda>ev. ev\<lparr>EVENT_pvTcbOwn := None\<rparr>) s4);
           ulOptionTemp = EVENT_ulOption (k_event s5 e);
           s6 = KERNEL_EXIT s5
         in (ERROR_NONE, 0, case owner of
               Some t \<Rightarrow> if ulOptionTemp AND LW_OPTION_DELETE_SAFE \<noteq> 0 then ThreadUnsafeInternalEx t s6 else s6
             | None \<Rightarrow> s6)))"

text \<open>The label \<open>__wait_again\<close> of \<open>API_SemaphoreRWPendR\<close>.\<close>

definition SemaphoreRWPendR_again :: "ULONG \<Rightarrow> ULONG \<Rightarrow> kernel \<Rightarrow> pend_out \<times> kernel" where
  "SemaphoreRWPendR_again ulId ulTimeout s = (case EventCheckId OBJECT_SEM_RW ulId s of
     Inl (r, s1) \<Rightarrow> (Done r, s1)
   | Inr e0 \<Rightarrow>
   if \<not> k_sysRunning s then (Done ERROR_NONE, s)
   else case EventOpen OBJECT_SEM_RW LW_TYPE_EVENT_SEMRW ulId s of
     Inl (r, s1) \<Rightarrow> (Done r, s1)
   | Inr (e, s1) \<Rightarrow>
       if EVENT_iStatus (k_event s1 e) = EVENT_RW_STATUS_R \<and> EventWaitNum s1 EVENT_RW_Q_W e = 0 then
         (ThenSafe e, KERNEL_EXIT (event_upd e (\<lambda>ev. ev\<lparr>EVENT_ulCounter := EVENT_ulCounter ev + 1\<rparr>) s1))
       else if ulTimeout = LW_OPTION_NOT_WAIT then
         (Done ERROR_THREAD_WAIT_TIMEOUT, ErrorHandle_of s ERROR_THREAD_WAIT_TIMEOUT (KERNEL_EXIT s1))
       else (let s2 = PendBlock e EVENT_RW_Q_R LW_THREAD_STATUS_SEM ulTimeout s1
             in (Blocked ulTimeout (KERNEL_TIME_GET s1) (EVENT_ulOption (k_event s2 e)), KERNEL_EXIT s2)))"

definition SemaphoreRWPendR :: "ULONG \<Rightarrow> ULONG \<Rightarrow> kernel \<Rightarrow> pend_out \<times> kernel" where
  "SemaphoreRWPendR ulId ulTimeout s =
    (if LW_CPU_GET_CUR_NESTING s \<noteq> 0 then (Done ERROR_KERNEL_IN_ISR, ErrorHandle ERROR_KERNEL_IN_ISR s)
     else SemaphoreRWPendR_again ulId ulTimeout s)"

text \<open>The code behind the scheduling point is the same for readers and writers.\<close>

definition RWPend_wake_tail :: "ULONG \<Rightarrow> wake_out \<times> kernel \<Rightarrow> (ULONG \<Rightarrow> kernel \<Rightarrow> pend_out \<times> kernel) \<Rightarrow> pend_out \<times> kernel" where
  "RWPend_wake_tail ulId w again = (case w of
       (WakeDone r, s1) \<Rightarrow>
         (if r = ERROR_NONE then let (r', s2) = Safe_tail (unat (ObjectGetIndex ulId)) s1 in (Done r', s2)
          else (Done r, s1))
     | (WakeAgain ulTimeout', s1) \<Rightarrow> again ulTimeout' s1)"

definition SemaphoreRWPendR_wake :: "ULONG \<Rightarrow> ULONG \<Rightarrow> ULONG \<Rightarrow> ULONG \<Rightarrow> kernel \<Rightarrow> pend_out \<times> kernel" where
  "SemaphoreRWPendR_wake ulId ulTimeout ulTimeSave ulEventOption s =
     RWPend_wake_tail ulId (PendWake ulTimeout ulTimeSave ulEventOption s) (SemaphoreRWPendR_again ulId)"

text \<open>The label \<open>__wait_again\<close> of \<open>API_SemaphoreRWPendW\<close>.\<close>

definition SemaphoreRWPendW_again :: "ULONG \<Rightarrow> ULONG \<Rightarrow> kernel \<Rightarrow> pend_out \<times> kernel" where
  "SemaphoreRWPendW_again ulId ulTimeout s = (case EventCheckId OBJECT_SEM_RW ulId s of
     Inl (r, s1) \<Rightarrow> (Done r, s1)
   | Inr e0 \<Rightarrow>
   if \<not> k_sysRunning s then (Done ERROR_NONE, s)
   else case EventOpen OBJECT_SEM_RW LW_TYPE_EVENT_SEMRW ulId s of
     Inl (r, s1) \<Rightarrow> (Done r, s1)
   | Inr (e, s1) \<Rightarrow> (let cur = LW_TCB_GET_CUR s1 in
       if EVENT_ulCounter (k_event s1 e) = 0 then
         (ThenSafe e, KERNEL_EXIT (event_upd e (\<lambda>ev. ev\<lparr>EVENT_ulCounter := EVENT_ulCounter ev + 1,
            EVENT_iStatus := EVENT_RW_STATUS_W, EVENT_pvTcbOwn := Some cur\<rparr>) s1))
       else if EVENT_pvTcbOwn (k_event s1 e) = Some cur then
         (Done ERROR_NONE, KERNEL_EXIT (event_upd e (\<lambda>ev. ev\<lparr>EVENT_pvPtr := EVENT_pvPtr ev + 1\<rparr>) s1))
       else if ulTimeout = LW_OPTION_NOT_WAIT then
         (Done ERROR_THREAD_WAIT_TIMEOUT, ErrorHandle_of s ERROR_THREAD_WAIT_TIMEOUT (KERNEL_EXIT s1))
       else (let s2 = PendBlock e EVENT_RW_Q_W LW_THREAD_STATUS_SEM ulTimeout s1
             in (Blocked ulTimeout (KERNEL_TIME_GET s1) (EVENT_ulOption (k_event s2 e)), KERNEL_EXIT s2))))"

definition SemaphoreRWPendW :: "ULONG \<Rightarrow> ULONG \<Rightarrow> kernel \<Rightarrow> pend_out \<times> kernel" where
  "SemaphoreRWPendW ulId ulTimeout s =
    (if LW_CPU_GET_CUR_NESTING s \<noteq> 0 then (Done ERROR_KERNEL_IN_ISR, ErrorHandle ERROR_KERNEL_IN_ISR s)
     else SemaphoreRWPendW_again ulId ulTimeout s)"

definition SemaphoreRWPendW_wake :: "ULONG \<Rightarrow> ULONG \<Rightarrow> ULONG \<Rightarrow> ULONG \<Rightarrow> kernel \<Rightarrow> pend_out \<times> kernel" where
  "SemaphoreRWPendW_wake ulId ulTimeout ulTimeSave ulEventOption s =
     RWPend_wake_tail ulId (PendWake ulTimeout ulTimeSave ulEventOption s) (SemaphoreRWPendW_again ulId)"

text \<open>The loop that admits all waiting readers.\<close>

fun RWPost_readers :: "nat \<Rightarrow> eid \<Rightarrow> kernel \<Rightarrow> kernel" where
  "RWPost_readers 0 e s = s"
| "RWPost_readers (Suc n) e s =
    (if EventWaitNum s EVENT_RW_Q_R e = 0 then s
     else let (t, s1) = ReadyLowLevel e EVENT_RW_Q_R 0 s;
              s2 = event_upd e (\<lambda>ev. ev\<lparr>EVENT_ulCounter := EVENT_ulCounter ev + 1\<rparr>) s1
          in RWPost_readers n e (EventReadyHighLevel t LW_THREAD_STATUS_SEM s2))"

text \<open>The label \<open>__release_pend\<close>.\<close>

definition RWPost_release :: "eid \<Rightarrow> bool \<Rightarrow> kernel \<Rightarrow> kernel" where
  "RWPost_release e bIgnWrite s =
    (if EventWaitNum s EVENT_RW_Q_W e \<noteq> 0 \<and> \<not> bIgnWrite then
       (let (t, s1) = ReadyOne e EVENT_RW_Q_W 0 LW_THREAD_STATUS_SEM s
        in event_upd e (\<lambda>ev. ev\<lparr>EVENT_pvTcbOwn := Some t, EVENT_iStatus := EVENT_RW_STATUS_W\<rparr>) s1)
     else if EventWaitNum s EVENT_RW_Q_R e \<noteq> 0 then
       (let s1 = event_upd e (\<lambda>ev. ev\<lparr>EVENT_ulCounter := EVENT_ulCounter ev - 1\<rparr>) s;
            s2 = RWPost_readers (unat (EventWaitNum s1 EVENT_RW_Q_R e)) e s1
        in event_upd e (\<lambda>ev. ev\<lparr>EVENT_pvTcbOwn := None, EVENT_iStatus := EVENT_RW_STATUS_R\<rparr>) s2)
     else event_upd e (\<lambda>ev. ev\<lparr>EVENT_ulCounter := EVENT_ulCounter ev - 1,
            EVENT_pvTcbOwn := None, EVENT_iStatus := EVENT_RW_STATUS_R\<rparr>) s)"

definition SemaphoreRWPost :: "ULONG \<Rightarrow> kernel \<Rightarrow> post_out \<times> kernel" where
  "SemaphoreRWPost ulId s =
    (if LW_CPU_GET_CUR_NESTING s \<noteq> 0 then (Posted ERROR_KERNEL_IN_ISR, ErrorHandle ERROR_KERNEL_IN_ISR s)
     else case EventCheckId OBJECT_SEM_RW ulId s of
     Inl (r, s1) \<Rightarrow> (Posted r, s1)
   | Inr e0 \<Rightarrow>
   if \<not> k_sysRunning s then (Posted ERROR_NONE, s)
   else case EventOpen OBJECT_SEM_RW LW_TYPE_EVENT_SEMRW ulId s of
     Inl (r, s1) \<Rightarrow> (Posted r, s1)
   | Inr (e, s1) \<Rightarrow> (let cur = LW_TCB_GET_CUR s1; ev = k_event s1 e in
       if EVENT_ulCounter ev = 0 then
         (Posted ERROR_EVENT_NOT_OWN, ErrorHandle_of s ERROR_EVENT_NOT_OWN (KERNEL_EXIT s1))
       else if EVENT_iStatus ev = EVENT_RW_STATUS_R then
         (if EVENT_ulCounter ev > 1 then
            (ThenUnsafe e, KERNEL_EXIT (event_upd e (\<lambda>ev. ev\<lparr>EVENT_ulCounter := EVENT_ulCounter ev - 1\<rparr>) s1))
          else let bIgnWrite = (EVENT_ulOption ev AND LW_OPTION_RW_PREFER_WRITER = 0 \<and> EventWaitNum s1 EVENT_RW_Q_R e \<noteq> 0)
               in (ThenUnsafe e, KERNEL_EXIT (RWPost_release e bIgnWrite s1)))
       else if EVENT_pvTcbOwn ev \<noteq> Some cur then
         (Posted ERROR_EVENT_NOT_OWN, ErrorHandle_of s ERROR_EVENT_NOT_OWN (KERNEL_EXIT s1))
       else if EVENT_pvPtr ev \<noteq> 0 then
         (Posted ERROR_NONE, KERNEL_EXIT (event_upd e (\<lambda>ev. ev\<lparr>EVENT_pvPtr := EVENT_pvPtr ev - 1\<rparr>) s1))
       else (ThenUnsafe e, KERNEL_EXIT (RWPost_release e False s1))))"

definition SemaphoreRWStatus ::
  "ULONG \<Rightarrow> bool \<Rightarrow> bool \<Rightarrow> bool \<Rightarrow> bool \<Rightarrow> bool \<Rightarrow> kernel \<Rightarrow>
    (ULONG \<times> ULONG option \<times> UINT16 option \<times> UINT16 option \<times> ULONG option \<times> ULONG option) \<times> kernel" where
  "SemaphoreRWStatus ulId pulRWCount pulRPend pulWPend pulOption pulOwnerId s =
    (case EventOpen OBJECT_SEM_RW LW_TYPE_EVENT_SEMRW ulId s of
       Inl (r, s1) \<Rightarrow> ((r, None, None, None, None, None), s1)
     | Inr (e, s1) \<Rightarrow> (let ev = k_event s1 e in
        ((ERROR_NONE, outp pulRWCount (EVENT_ulCounter ev),
          outp pulRPend (EventWaitNum s1 EVENT_RW_Q_R e), outp pulWPend (EventWaitNum s1 EVENT_RW_Q_W e),
          outp pulOption (EVENT_ulOption ev),
          outp pulOwnerId (if EVENT_iStatus ev = EVENT_RW_STATUS_W then ThreadId (the (EVENT_pvTcbOwn ev)) else 0)),
         KERNEL_EXIT s1)))"

section \<open>The abstract reader-writer lock\<close>

text \<open>\<open>rw_count\<close> readers hold the lock, or one writer; a writer may nest.\<close>

record rwlock =
  rw_writing :: bool
  rw_count :: nat
  rw_owner :: "tid option"
  rw_depth :: ULONG
  rw_readers :: "tid list"             \<comment> \<open>waiting, in the order of service\<close>
  rw_writers :: "tid list"

definition rwlock_of :: "kernel \<Rightarrow> eid \<Rightarrow> rwlock" where
  "rwlock_of s e = \<lparr>rw_writing = (EVENT_iStatus (k_event s e) = EVENT_RW_STATUS_W),
     rw_count = unat (EVENT_ulCounter (k_event s e)), rw_owner = EVENT_pvTcbOwn (k_event s e),
     rw_depth = EVENT_pvPtr (k_event s e), rw_readers = wait_order s e EVENT_RW_Q_R,
     rw_writers = wait_order s e EVENT_RW_Q_W\<rparr>"

text \<open>One writer excludes everybody else; a free lock has no waiters.\<close>

definition rw_wf :: "rwlock \<Rightarrow> bool" where
  "rw_wf a \<longleftrightarrow> (rw_writing a \<longrightarrow> rw_count a = 1 \<and> rw_owner a \<noteq> None) \<and>
     (\<not> rw_writing a \<longrightarrow> rw_owner a = None \<and> rw_depth a = 0) \<and>
     (rw_count a = 0 \<longrightarrow> rw_readers a = [] \<and> rw_writers a = [])"

definition rw_ok :: "kernel \<Rightarrow> eid \<Rightarrow> bool" where
  "rw_ok s e \<longleftrightarrow> kinv s \<and> order_ok s e EVENT_RW_Q_R \<and> order_ok s e EVENT_RW_Q_W \<and>
     EVENT_iStatus (k_event s e) \<in> {EVENT_RW_STATUS_R, EVENT_RW_STATUS_W} \<and> rw_wf (rwlock_of s e)"

lemma rw_okD:
  assumes "rw_ok s e"
  shows "kinv s" "order_ok s e EVENT_RW_Q_R" "order_ok s e EVENT_RW_Q_W" "rw_wf (rwlock_of s e)"
    "EVENT_iStatus (k_event s e) = EVENT_RW_STATUS_R \<longleftrightarrow> \<not> rw_writing (rwlock_of s e)"
  using assms by (auto simp: rw_ok_def rwlock_of_def)

lemma rw_ok_reads [simp]:
  "rwlock_of (KERNEL_EXIT s) e = rwlock_of s e" "rwlock_of (KERNEL_ENTER s) e = rwlock_of s e"
  "rwlock_of (ErrorHandle_of ctx c s) e = rwlock_of s e"
  "rw_ok s e \<Longrightarrow> rw_ok (KERNEL_EXIT s) e" "rw_ok (KERNEL_ENTER s) e \<longleftrightarrow> rw_ok s e"
  "rw_ok s e \<Longrightarrow> rw_ok (ErrorHandle_of ctx c s) e"
  by (simp_all add: rw_ok_def rwlock_of_def KERNEL_EXIT_kinv kinv_ErrorHandle)

text \<open>An update of the block that keeps its queues.\<close>

lemma rw_upd:
  assumes k: "kinv s" "order_ok s e EVENT_RW_Q_R" "order_ok s e EVENT_RW_Q_W" and f: "keeps_queue f (k_event s e)"
    and st: "EVENT_iStatus (f (k_event s e)) \<in> {EVENT_RW_STATUS_R, EVENT_RW_STATUS_W}"
  defines "a \<equiv> \<lparr>rw_writing = (EVENT_iStatus (f (k_event s e)) = EVENT_RW_STATUS_W),
     rw_count = unat (EVENT_ulCounter (f (k_event s e))), rw_owner = EVENT_pvTcbOwn (f (k_event s e)),
     rw_depth = EVENT_pvPtr (f (k_event s e)), rw_readers = wait_order s e EVENT_RW_Q_R,
     rw_writers = wait_order s e EVENT_RW_Q_W\<rparr>"
  shows "rwlock_of (event_upd e f s) e = a" "rw_ok (event_upd e f s) e \<longleftrightarrow> rw_wf a"
proof -
  show eq: "rwlock_of (event_upd e f s) e = a"
    by (simp add: rwlock_of_def a_def event_upd_reads(3)[OF f])
  show "rw_ok (event_upd e f s) e \<longleftrightarrow> rw_wf a"
    using k st by (simp add: rw_ok_def eq kinv_event_upd[OF f] event_upd_reads(4)[OF f])
qed

section \<open>Pending\<close>

datatype rwpend = Admitted | Renested | Would_block | Waits

definition rw_pend_r :: "bool \<Rightarrow> bool \<Rightarrow> (tid \<Rightarrow> UINT8) \<Rightarrow> tid \<Rightarrow> rwlock \<Rightarrow> rwpend \<times> rwlock" where
  "rw_pend_r wait prio pr t a =
    (if \<not> rw_writing a \<and> rw_writers a = [] then (Admitted, a\<lparr>rw_count := rw_count a + 1\<rparr>)
     else if \<not> wait then (Would_block, a)
     else (Waits, a\<lparr>rw_readers := enqueue prio pr t (rw_readers a)\<rparr>))"

definition rw_pend_w :: "bool \<Rightarrow> bool \<Rightarrow> (tid \<Rightarrow> UINT8) \<Rightarrow> tid \<Rightarrow> rwlock \<Rightarrow> rwpend \<times> rwlock" where
  "rw_pend_w wait prio pr t a =
    (if rw_count a = 0 then (Admitted, a\<lparr>rw_count := 1, rw_writing := True, rw_owner := Some t\<rparr>)
     else if rw_owner a = Some t then (Renested, a\<lparr>rw_depth := rw_depth a + 1\<rparr>)
     else if \<not> wait then (Would_block, a)
     else (Waits, a\<lparr>rw_writers := enqueue prio pr t (rw_writers a)\<rparr>))"

fun rwpend_code :: "kernel \<Rightarrow> eid \<Rightarrow> ULONG \<Rightarrow> rwpend \<Rightarrow> pend_out" where
  "rwpend_code s e ulTimeout Admitted = ThenSafe e"
| "rwpend_code s e ulTimeout Renested = Done ERROR_NONE"
| "rwpend_code s e ulTimeout Would_block = Done ERROR_THREAD_WAIT_TIMEOUT"
| "rwpend_code s e ulTimeout Waits = Blocked ulTimeout (KERNEL_TIME_GET s) (EVENT_ulOption (k_event s e))"

text \<open>Blocking on one of the two queues leaves the other.\<close>

lemma PendBlock_rw:
  fixes ulTimeout :: ULONG and q :: nat
  assumes r: "rw_ok s e" and t: "runs s t" and q: "q = EVENT_RW_Q_R \<or> q = EVENT_RW_Q_W"
    and n: "rw_count (rwlock_of s e) \<noteq> 0"
  defines "s' \<equiv> PendBlock e q LW_THREAD_STATUS_SEM ulTimeout s"
  shows "rw_ok s' e" "rwlock_of s' e = (if q = EVENT_RW_Q_R
      then (rwlock_of s e)\<lparr>rw_readers := enqueue (by_prio s e) (tcb_prio s) t (rw_readers (rwlock_of s e))\<rparr>
      else (rwlock_of s e)\<lparr>rw_writers := enqueue (by_prio s e) (tcb_prio s) t (rw_writers (rwlock_of s e))\<rparr>)"
    "t \<notin> ready_set s'" "EVENT_ulOption (k_event s' e) = EVENT_ulOption (k_event s e)"
proof -
  note d = rw_okD[OF r]
  have o: "order_ok s e q" using q d(2,3) by auto
  note p = PendBlock_ok[OF d(1) t sem_bits, where e = e and q = q and ulTimeout = ulTimeout, folded s'_def]
  note w = PendBlock_order[OF d(1) t o sem_bits, where ulTimeout = ulTimeout, folded s'_def]
  note x = PendBlock_same[OF d(1) t _ sem_bits, where e = e and q = q and ulTimeout = ulTimeout and e' = e, folded s'_def]
  note c = ev_core_eqD[OF p(11)[of e]]
  show eq: "rwlock_of s' e = (if q = EVENT_RW_Q_R
      then (rwlock_of s e)\<lparr>rw_readers := enqueue (by_prio s e) (tcb_prio s) t (rw_readers (rwlock_of s e))\<rparr>
      else (rwlock_of s e)\<lparr>rw_writers := enqueue (by_prio s e) (tcb_prio s) t (rw_writers (rwlock_of s e))\<rparr>)"
    using q w(1) x(1) by (auto simp: rwlock_of_def c)
  have "order_ok s' e EVENT_RW_Q_R" "order_ok s' e EVENT_RW_Q_W" using q w(2) x(2) d(2,3) by auto
  moreover have "rw_wf (rwlock_of s' e)" using d(4) n by (auto simp: eq rw_wf_def)
  moreover have "EVENT_iStatus (k_event s' e) \<in> {EVENT_RW_STATUS_R, EVENT_RW_STATUS_W}" using r by (simp add: rw_ok_def c)
  ultimately show "rw_ok s' e" using p(1) by (simp add: rw_ok_def)
  show "t \<notin> ready_set s'" "EVENT_ulOption (k_event s' e) = EVENT_ulOption (k_event s e)"
    using p(3,9) by simp_all
qed

lemma SemaphoreRWPendR_refines:
  fixes ulTimeout :: ULONG
  assumes r0: "rw_ok s e" and h: "handle OBJECT_SEM_RW LW_TYPE_EVENT_SEMRW s ulId e"
    and n: "LW_CPU_GET_CUR_NESTING s = 0" "k_sysRunning s" and t: "runs s t"
    and mx: "rw_count (rwlock_of s e) < 2 ^ 32 - 1"
  defines "r \<equiv> SemaphoreRWPendR ulId ulTimeout s"
    and "a \<equiv> rw_pend_r (ulTimeout \<noteq> LW_OPTION_NOT_WAIT) (by_prio s e) (tcb_prio s) t (rwlock_of s e)"
  shows "rw_ok (snd r) e" "rwlock_of (snd r) e = snd a" "fst r = rwpend_code s e ulTimeout (fst a)"
    "fst a = Waits \<Longrightarrow> t \<notin> ready_set (snd r)"
proof -
  let ?s1 = "KERNEL_ENTER s" and ?f = "\<lambda>ev. ev\<lparr>EVENT_ulCounter := EVENT_ulCounter ev + 1\<rparr>"
  have r1: "rw_ok ?s1 e" and t1: "runs ?s1 t" using r0 t by simp_all
  have kt: "KERNEL_TIME_GET ?s1 = KERNEL_TIME_GET s" by (simp add: KERNEL_TIME_GET_def KERNEL_ENTER_def)
  note d = rw_okD[OF r0]
  let ?go = "\<not> rw_writing (rwlock_of s e) \<and> rw_writers (rwlock_of s e) = []"
  have w0: "EventWaitNum s EVENT_RW_Q_W e = 0 \<longleftrightarrow> rw_writers (rwlock_of s e) = []"
    using wait_order_empty[OF kinv_wait[OF d(1)], of e EVENT_RW_Q_W] by (simp add: rwlock_of_def)
  let ?s2 = "PendBlock e EVENT_RW_Q_R LW_THREAD_STATUS_SEM ulTimeout ?s1"
  have P: "r = (if ?go then (ThenSafe e, KERNEL_EXIT (event_upd e ?f ?s1))
     else if ulTimeout = LW_OPTION_NOT_WAIT then
       (Done ERROR_THREAD_WAIT_TIMEOUT, ErrorHandle_of s ERROR_THREAD_WAIT_TIMEOUT (KERNEL_EXIT ?s1))
     else (Blocked ulTimeout (KERNEL_TIME_GET s) (EVENT_ulOption (k_event ?s2 e)), KERNEL_EXIT ?s2))"
    using n d(5) w0 by (simp add: r_def SemaphoreRWPendR_def SemaphoreRWPendR_again_def EventCheckId_handle[OF h]
        EventOpen_handle[OF h] Let_def kt)
  have "rw_ok (snd r) e \<and> rwlock_of (snd r) e = snd a \<and> fst r = rwpend_code s e ulTimeout (fst a)
    \<and> (fst a = Waits \<longrightarrow> t \<notin> ready_set (snd r))"
  proof (cases ?go)
    case True
    then have a: "a = (Admitted, (rwlock_of s e)\<lparr>rw_count := rw_count (rwlock_of s e) + 1\<rparr>)" by (simp add: a_def rw_pend_r_def)
    have inc: "unat (EVENT_ulCounter (k_event ?s1 e) + 1) = rw_count (rwlock_of s e) + 1"
      using mx by (simp add: rwlock_of_def unat_plus_if_size word_size)
    have d1: "kinv ?s1" "order_ok ?s1 e EVENT_RW_Q_R" "order_ok ?s1 e EVENT_RW_Q_W" using d by simp_all
    have st: "EVENT_iStatus (k_event s e) \<in> {EVENT_RW_STATUS_R, EVENT_RW_STATUS_W}" using r0 by (simp add: rw_ok_def)
    note u = rw_upd[where f = ?f, OF d1]
    have eq: "rwlock_of (event_upd e ?f ?s1) e = snd a" and "rw_ok (event_upd e ?f ?s1) e \<longleftrightarrow> rw_wf (snd a)"
      using u inc st by (simp_all add: a) (simp_all add: rwlock_of_def)
    then have "rw_ok (event_upd e ?f ?s1) e" using d(4) True by (simp add: a rw_wf_def)
    then show ?thesis using True eq by (simp add: P a)
  next
    case False
    then have a: "a = (if ulTimeout = LW_OPTION_NOT_WAIT then (Would_block, rwlock_of s e)
        else (Waits, (rwlock_of s e)\<lparr>rw_readers := enqueue (by_prio s e) (tcb_prio s) t (rw_readers (rwlock_of s e))\<rparr>))"
      by (auto simp: a_def rw_pend_r_def)
    have c: "rw_count (rwlock_of ?s1 e) \<noteq> 0" using False d(4) by (auto simp: rw_wf_def)
    note p = PendBlock_rw[OF r1 t1 _ c, where q = EVENT_RW_Q_R and ulTimeout = ulTimeout]
    show ?thesis using False p r1 by (simp add: P a del: rw_ok_reads(5))
  qed
  then show "rw_ok (snd r) e" "rwlock_of (snd r) e = snd a" "fst r = rwpend_code s e ulTimeout (fst a)"
    "fst a = Waits \<Longrightarrow> t \<notin> ready_set (snd r)" by auto
qed

lemma SemaphoreRWPendW_refines:
  fixes ulTimeout :: ULONG
  assumes r0: "rw_ok s e" and h: "handle OBJECT_SEM_RW LW_TYPE_EVENT_SEMRW s ulId e"
    and n: "LW_CPU_GET_CUR_NESTING s = 0" "k_sysRunning s" and t: "runs s t"
  defines "r \<equiv> SemaphoreRWPendW ulId ulTimeout s"
    and "a \<equiv> rw_pend_w (ulTimeout \<noteq> LW_OPTION_NOT_WAIT) (by_prio s e) (tcb_prio s) t (rwlock_of s e)"
  shows "rw_ok (snd r) e" "rwlock_of (snd r) e = snd a" "fst r = rwpend_code s e ulTimeout (fst a)"
    "fst a = Waits \<Longrightarrow> t \<notin> ready_set (snd r)"
proof -
  let ?s1 = "KERNEL_ENTER s"
    and ?f = "\<lambda>ev. ev\<lparr>EVENT_ulCounter := EVENT_ulCounter ev + 1, EVENT_iStatus := EVENT_RW_STATUS_W, EVENT_pvTcbOwn := Some t\<rparr>"
    and ?g = "\<lambda>ev. ev\<lparr>EVENT_pvPtr := EVENT_pvPtr ev + 1\<rparr>"
  have r1: "rw_ok ?s1 e" and t1: "runs ?s1 t" using r0 t by simp_all
  have kt: "KERNEL_TIME_GET ?s1 = KERNEL_TIME_GET s" by (simp add: KERNEL_TIME_GET_def KERNEL_ENTER_def)
  have cur: "LW_TCB_GET_CUR s = t" using t by (simp add: runs_def)
  note d = rw_okD[OF r0]
  have z: "EVENT_ulCounter (k_event s e) = 0 \<longleftrightarrow> rw_count (rwlock_of s e) = 0" by (simp add: rwlock_of_def unat_eq_0)
  have ow: "EVENT_pvTcbOwn (k_event s e) = rw_owner (rwlock_of s e)" by (simp add: rwlock_of_def)
  have d1: "kinv ?s1" "order_ok ?s1 e EVENT_RW_Q_R" "order_ok ?s1 e EVENT_RW_Q_W" using d by simp_all
  have st: "EVENT_iStatus (k_event s e) \<in> {EVENT_RW_STATUS_R, EVENT_RW_STATUS_W}" using r0 by (simp add: rw_ok_def)
  let ?s2 = "PendBlock e EVENT_RW_Q_W LW_THREAD_STATUS_SEM ulTimeout ?s1"
  have P: "r = (if rw_count (rwlock_of s e) = 0 then (ThenSafe e, KERNEL_EXIT (event_upd e ?f ?s1))
     else if rw_owner (rwlock_of s e) = Some t then (Done ERROR_NONE, KERNEL_EXIT (event_upd e ?g ?s1))
     else if ulTimeout = LW_OPTION_NOT_WAIT then
       (Done ERROR_THREAD_WAIT_TIMEOUT, ErrorHandle_of s ERROR_THREAD_WAIT_TIMEOUT (KERNEL_EXIT ?s1))
     else (Blocked ulTimeout (KERNEL_TIME_GET s) (EVENT_ulOption (k_event ?s2 e)), KERNEL_EXIT ?s2))"
    using n by (simp add: r_def SemaphoreRWPendW_def SemaphoreRWPendW_again_def EventCheckId_handle[OF h]
        EventOpen_handle[OF h] Let_def kt cur z ow)
  have "rw_ok (snd r) e \<and> rwlock_of (snd r) e = snd a \<and> fst r = rwpend_code s e ulTimeout (fst a)
    \<and> (fst a = Waits \<longrightarrow> t \<notin> ready_set (snd r))"
  proof (cases "rw_count (rwlock_of s e) = 0")
    case True
    then have a: "a = (Admitted, (rwlock_of s e)\<lparr>rw_count := 1, rw_writing := True, rw_owner := Some t\<rparr>)"
      by (simp add: a_def rw_pend_w_def)
    note u = rw_upd[where f = ?f, OF d1]
    have "rwlock_of (event_upd e ?f ?s1) e = snd a" "rw_ok (event_upd e ?f ?s1) e \<longleftrightarrow> rw_wf (snd a)"
      using u z True by (simp_all add: a) (simp_all add: rwlock_of_def)
    then show ?thesis using d(4) True by (simp add: P a rw_wf_def)
  next
    case False
    note c = this
    show ?thesis
    proof (cases "rw_owner (rwlock_of s e) = Some t")
      case True
      then have a: "a = (Renested, (rwlock_of s e)\<lparr>rw_depth := rw_depth (rwlock_of s e) + 1\<rparr>)"
        using c by (simp add: a_def rw_pend_w_def)
      note u = rw_upd[where f = ?g, OF d1]
      have "rwlock_of (event_upd e ?g ?s1) e = snd a" "rw_ok (event_upd e ?g ?s1) e \<longleftrightarrow> rw_wf (snd a)"
        using u st by (simp_all add: a) (simp_all add: rwlock_of_def)
      moreover have "rw_wf (snd a)" using d(4) True c by (auto simp: a rw_wf_def)
      ultimately show ?thesis using True c by (simp add: P a)
    next
      case False
      then have a: "a = (if ulTimeout = LW_OPTION_NOT_WAIT then (Would_block, rwlock_of s e)
          else (Waits, (rwlock_of s e)\<lparr>rw_writers := enqueue (by_prio s e) (tcb_prio s) t (rw_writers (rwlock_of s e))\<rparr>))"
        using c by (auto simp: a_def rw_pend_w_def)
      have c1: "rw_count (rwlock_of ?s1 e) \<noteq> 0" using c by simp
      note p = PendBlock_rw[OF r1 t1 _ c1, where q = EVENT_RW_Q_W and ulTimeout = ulTimeout]
      show ?thesis using False c p r1 by (simp add: P a del: rw_ok_reads(5))
    qed
  qed
  then show "rw_ok (snd r) e" "rwlock_of (snd r) e = snd a" "fst r = rwpend_code s e ulTimeout (fst a)"
    "fst a = Waits \<Longrightarrow> t \<notin> ready_set (snd r)" by auto
qed

section \<open>Posting\<close>

text \<open>One turn of the loop that admits the waiting readers.\<close>

definition RWPost_turn :: "eid \<Rightarrow> kernel \<Rightarrow> kernel" where
  "RWPost_turn e s = EventReadyHighLevel (fst (ReadyLowLevel e EVENT_RW_Q_R 0 s)) LW_THREAD_STATUS_SEM
     (event_upd e (\<lambda>ev. ev\<lparr>EVENT_ulCounter := EVENT_ulCounter ev + 1\<rparr>) (snd (ReadyLowLevel e EVENT_RW_Q_R 0 s)))"

lemma RWPost_readers_turn:
  "RWPost_readers (Suc n) e s = (if EventWaitNum s EVENT_RW_Q_R e = 0 then s else RWPost_readers n e (RWPost_turn e s))"
  by (simp add: RWPost_turn_def split_beta)

text \<open>The block up to its queues and counter.\<close>

definition rw_rest :: "event \<Rightarrow> event" where
  "rw_rest ev = (ev_core ev)\<lparr>EVENT_ulCounter := 0\<rparr>"

lemma RWPost_turn_ok:
  assumes k: "kinv s" "order_ok s e EVENT_RW_Q_R" "order_ok s e EVENT_RW_Q_W" and ne: "EventWaitNum s EVENT_RW_Q_R e \<noteq> 0"
  defines "s' \<equiv> RWPost_turn e s" and "t \<equiv> next_waiter s e EVENT_RW_Q_R"
  shows "kinv s'" "order_ok s' e EVENT_RW_Q_R" "order_ok s' e EVENT_RW_Q_W"
    "wait_order s e EVENT_RW_Q_R = t # wait_order s' e EVENT_RW_Q_R" "wait_order s' e EVENT_RW_Q_W = wait_order s e EVENT_RW_Q_W"
    "EVENT_ulCounter (k_event s' e) = EVENT_ulCounter (k_event s e) + 1" "rw_rest (k_event s' e) = rw_rest (k_event s e)"
    "tcb_status s' t = woken_status LW_THREAD_STATUS_SEM (tcb_status s t)"
    "u \<noteq> t \<Longrightarrow> tcb_wait (k_tcb s' u) = tcb_wait (k_tcb s u)" "k_halt s' = k_halt s"
proof -
  let ?f = "\<lambda>ev. ev\<lparr>EVENT_ulCounter := EVENT_ulCounter ev + 1\<rparr>"
  define s1 where "s1 = snd (ReadyLowLevel e EVENT_RW_Q_R 0 s)"
  note lo = ReadyLowLevel_half[OF k(1) ne, where m = 0, folded t_def s1_def]
  have s': "s' = EventReadyHighLevel t LW_THREAD_STATUS_SEM (event_upd e ?f s1)"
    using lo(1) by (simp add: s'_def RWPost_turn_def s1_def)
  have h: "handing t s1 (event_upd e ?f s1)" by (rule handing_event_upd[OF lo(2)]) simp
  note h' = h[unfolded t_def s1_def]
  have st1: "k_tcb s1 = (k_tcb s)(t := (k_tcb s t)\<lparr>TCB_usStatus := tcb_status s t AND NOT LW_THREAD_STATUS_DELAY,
     TCB_pvMsgBoxMessage := 0\<rparr>)" by (simp add: lo(7) ReadyLowLevel_tail_tcb)
  have pr: "tcb_prio (event_upd e ?f s1) u = tcb_prio s u" for u by (simp add: st1)
  note ho = Handoff_ok[OF k(1) ne h', where ty = LW_THREAD_STATUS_SEM, folded t_def s1_def, folded s']
  have oo: "wait_order s e EVENT_RW_Q_R = t # wait_order s' e EVENT_RW_Q_R" "order_ok s' e EVENT_RW_Q_R"
    unfolding s' t_def s1_def
    by (rule Handoff_order[OF k(1) ne k(2)]; use h' pr in \<open>simp add: s1_def\<close>)+
  have ow: "wait_order s' e EVENT_RW_Q_W = wait_order s e EVENT_RW_Q_W"
    "order_ok s' e EVENT_RW_Q_W \<longleftrightarrow> order_ok s e EVENT_RW_Q_W"
    unfolding s' t_def s1_def
    by (rule Handoff_same[OF k(1) ne]; use h' pr in \<open>simp add: s1_def\<close>)+
  show "kinv s'" "order_ok s' e EVENT_RW_Q_R" "order_ok s' e EVENT_RW_Q_W"
    "wait_order s e EVENT_RW_Q_R = t # wait_order s' e EVENT_RW_Q_R" "wait_order s' e EVENT_RW_Q_W = wait_order s e EVENT_RW_Q_W"
    using ho(1) oo ow k(3) by simp_all
  have core1: "ev_core (k_event s1 e) = ev_core (k_event s e)" by (simp add: lo(7))
  show "EVENT_ulCounter (k_event s' e) = EVENT_ulCounter (k_event s e) + 1"
    using ev_core_eqD(3)[OF core1] by (simp add: ho(11))
  have "rw_rest (k_event s1 e) = rw_rest (k_event s e)" using core1 by (simp add: rw_rest_def)
  then show "rw_rest (k_event s' e) = rw_rest (k_event s e)"
    by (simp add: ho(11)) (simp add: rw_rest_def ev_core_def)
  show "tcb_status s' t = woken_status LW_THREAD_STATUS_SEM (tcb_status s t)" "k_halt s' = k_halt s" using ho(2,3) by simp_all
  show "u \<noteq> t \<Longrightarrow> tcb_wait (k_tcb s' u) = tcb_wait (k_tcb s u)" by (rule ho(9))
qed

definition rw_admitted :: "eid \<Rightarrow> kernel \<Rightarrow> kernel \<Rightarrow> bool" where
  "rw_admitted e s s' \<longleftrightarrow> kinv s' \<and> order_ok s' e EVENT_RW_Q_R \<and> order_ok s' e EVENT_RW_Q_W \<and>
     wait_order s' e EVENT_RW_Q_R = [] \<and> wait_order s' e EVENT_RW_Q_W = wait_order s e EVENT_RW_Q_W \<and>
     EVENT_ulCounter (k_event s' e) = EVENT_ulCounter (k_event s e) + of_nat (length (wait_order s e EVENT_RW_Q_R)) \<and>
     rw_rest (k_event s' e) = rw_rest (k_event s e) \<and>
     (\<forall>t\<in>set (wait_order s e EVENT_RW_Q_R). tcb_status s' t = woken_status LW_THREAD_STATUS_SEM (tcb_status s t)) \<and>
     (\<forall>t. t \<notin> set (wait_order s e EVENT_RW_Q_R) \<longrightarrow> tcb_wait (k_tcb s' t) = tcb_wait (k_tcb s t))"

lemma RWPost_readers_ok:
  assumes "kinv s" "order_ok s e EVENT_RW_Q_R" "order_ok s e EVENT_RW_Q_W" "length (wait_order s e EVENT_RW_Q_R) \<le> n"
  shows "rw_admitted e s (RWPost_readers n e s)"
  using assms
proof (induction n arbitrary: s)
  case 0
  then show ?case by (simp add: rw_admitted_def)
next
  case (Suc n)
  note z = wait_order_empty[OF kinv_wait[OF Suc.prems(1)], of e EVENT_RW_Q_R]
  show ?case
  proof (cases "EventWaitNum s EVENT_RW_Q_R e = 0")
    case True
    then show ?thesis using Suc.prems z by (simp add: rw_admitted_def)
  next
    case False
    let ?s = "RWPost_turn e s" and ?t = "next_waiter s e EVENT_RW_Q_R"
    note tn = RWPost_turn_ok[OF Suc.prems(1-3) False]
    have ih: "rw_admitted e ?s (RWPost_readers n e ?s)"
      by (rule Suc.IH[OF tn(1-3)]) (use Suc.prems(4) tn(4) in simp)
    note a = ih[unfolded rw_admitted_def]
    have ds: "?t \<notin> set (wait_order ?s e EVENT_RW_Q_R)"
      using wait_order_distinct[OF Suc.prems(1,2)] tn(4) by simp
    have old: "tcb_status ?s u = tcb_status s u" if "u \<noteq> ?t" for u using tcb_wait_eqD(1)[OF tn(9)[OF that]] .
    let ?r = "RWPost_readers n e ?s"
    have st: "tcb_status ?r u = woken_status LW_THREAD_STATUS_SEM (tcb_status s u)" if "u \<in> set (wait_order s e EVENT_RW_Q_R)" for u
    proof (cases "u = ?t")
      case True
      then have "tcb_wait (k_tcb ?r u) = tcb_wait (k_tcb ?s u)" using a ds by simp
      from tcb_wait_eqD(1)[OF this] show ?thesis using tn(8) True by simp
    next
      case False
      then show ?thesis using a that old[of u] tn(4) by simp
    qed
    have out: "tcb_wait (k_tcb ?r u) = tcb_wait (k_tcb s u)" if "u \<notin> set (wait_order s e EVENT_RW_Q_R)" for u
      using a that tn(4) tn(9)[of u] by simp
    have "EVENT_ulCounter (k_event ?r e) = EVENT_ulCounter (k_event s e) + of_nat (length (wait_order s e EVENT_RW_Q_R))"
      using a tn(4,6) by simp
    then have "rw_admitted e s ?r"
      using a tn(5,7) st out by (simp add: rw_admitted_def)
    then show ?thesis using False by (simp only: RWPost_readers_turn if_False)
  qed
qed

text \<open>The release of the lock by its last holder.\<close>

datatype rwpost = Not_owner | Left | Unnests | To_writer tid | To_readers | Free

definition rw_release :: "bool \<Rightarrow> rwlock \<Rightarrow> rwpost \<times> rwlock" where
  "rw_release ign a =
    (if rw_writers a \<noteq> [] \<and> \<not> ign then
       (To_writer (hd (rw_writers a)), a\<lparr>rw_writing := True, rw_owner := Some (hd (rw_writers a)), rw_writers := tl (rw_writers a)\<rparr>)
     else if rw_readers a \<noteq> [] then
       (To_readers, a\<lparr>rw_writing := False, rw_owner := None, rw_count := length (rw_readers a), rw_readers := []\<rparr>)
     else (Free, a\<lparr>rw_writing := False, rw_owner := None, rw_count := 0\<rparr>))"

definition rw_post :: "bool \<Rightarrow> tid \<Rightarrow> rwlock \<Rightarrow> rwpost \<times> rwlock" where
  "rw_post prefer_writer t a =
    (if rw_count a = 0 then (Not_owner, a)
     else if \<not> rw_writing a then
       (if rw_count a > 1 then (Left, a\<lparr>rw_count := rw_count a - 1\<rparr>)
        else rw_release (\<not> prefer_writer \<and> rw_readers a \<noteq> []) a)
     else if rw_owner a \<noteq> Some t then (Not_owner, a)
     else if rw_depth a \<noteq> 0 then (Unnests, a\<lparr>rw_depth := rw_depth a - 1\<rparr>)
     else rw_release False a)"

lemma RWPost_release_ok:
  assumes r: "rw_ok s e" and one: "rw_count (rwlock_of s e) = 1" and dep: "rw_depth (rwlock_of s e) = 0"
    and ign: "ign \<Longrightarrow> rw_readers (rwlock_of s e) \<noteq> []"
  defines "s' \<equiv> RWPost_release e ign s" and "a \<equiv> rw_release ign (rwlock_of s e)"
  shows "rw_ok s' e" "rwlock_of s' e = snd a" 
    "fst a = To_writer t \<Longrightarrow> tcb_status s' t = woken_status LW_THREAD_STATUS_SEM (tcb_status s t)"
    "\<lbrakk>fst a = To_readers; t \<in> set (rw_readers (rwlock_of s e))\<rbrakk> \<Longrightarrow>
       tcb_status s' t = woken_status LW_THREAD_STATUS_SEM (tcb_status s t)"
proof -
  note d = rw_okD[OF r]
  note zR = wait_order_empty[OF kinv_wait[OF d(1)], of e EVENT_RW_Q_R]
  note zW = wait_order_empty[OF kinv_wait[OF d(1)], of e EVENT_RW_Q_W]
  have c1: "EVENT_ulCounter (k_event s e) = 1" 
  proof -
    have "unat (EVENT_ulCounter (k_event s e)) = 1" using one by (simp add: rwlock_of_def)
    then show ?thesis by unat_arith
  qed
  have p0: "EVENT_pvPtr (k_event s e) = 0" using dep by (simp add: rwlock_of_def)
  let ?own = "\<lambda>u ev. ev\<lparr>EVENT_pvTcbOwn := Some u, EVENT_iStatus := EVENT_RW_STATUS_W\<rparr>"
    and ?rd = "\<lambda>ev. ev\<lparr>EVENT_pvTcbOwn := None, EVENT_iStatus := EVENT_RW_STATUS_R\<rparr>"
    and ?dec = "\<lambda>ev. ev\<lparr>EVENT_ulCounter := EVENT_ulCounter ev - 1\<rparr>"
    and ?fr = "\<lambda>ev. ev\<lparr>EVENT_ulCounter := EVENT_ulCounter ev - 1, EVENT_pvTcbOwn := None, EVENT_iStatus := EVENT_RW_STATUS_R\<rparr>"
  have "rw_ok s' e \<and> rwlock_of s' e = snd a \<and>
    (\<forall>t. fst a = To_writer t \<longrightarrow> tcb_status s' t = woken_status LW_THREAD_STATUS_SEM (tcb_status s t)) \<and>
    (\<forall>t. fst a = To_readers \<and> t \<in> set (rw_readers (rwlock_of s e)) \<longrightarrow>
       tcb_status s' t = woken_status LW_THREAD_STATUS_SEM (tcb_status s t))"
  proof (cases "EventWaitNum s EVENT_RW_Q_W e \<noteq> 0 \<and> \<not> ign")
    case True
    then have ne: "EventWaitNum s EVENT_RW_Q_W e \<noteq> 0" and ni: "\<not> ign" by simp_all
    define v where "v = fst (ReadyOne e EVENT_RW_Q_W 0 LW_THREAD_STATUS_SEM s)"
    define s1 where "s1 = snd (ReadyOne e EVENT_RW_Q_W 0 LW_THREAD_STATUS_SEM s)"
    note k1 = ReadyOne_ok[OF d(1) ne, where m = 0 and ty = LW_THREAD_STATUS_SEM, folded v_def s1_def]
    note o1 = ReadyOne_order[OF d(1) ne d(3), where m = 0 and ty = LW_THREAD_STATUS_SEM, folded v_def s1_def]
    note x1 = ReadyOne_same[OF d(1) ne, where m = 0 and ty = LW_THREAD_STATUS_SEM and e' = e and q' = EVENT_RW_Q_R, folded v_def s1_def]
    note c = ev_core_eqD[OF k1(12)[of e]]
    have q: "wait_order s e EVENT_RW_Q_W = v # wait_order s1 e EVENT_RW_Q_W" using o1(1,2) zW ne by simp
    have s': "s' = event_upd e (?own v) s1" using True by (simp add: s'_def RWPost_release_def split_beta v_def s1_def)
    have oR: "order_ok s1 e EVENT_RW_Q_R" using x1(2) d(2) by simp
    note u = rw_upd[where f = "?own v", OF k1(2) oR o1(3)]
    have a: "a = (To_writer v, (rwlock_of s e)\<lparr>rw_writing := True, rw_owner := Some v, rw_writers := wait_order s1 e EVENT_RW_Q_W\<rparr>)"
      using q ni by (simp add: a_def rw_release_def) (simp add: rwlock_of_def)
    have "rwlock_of s' e = snd a" "rw_ok s' e \<longleftrightarrow> rw_wf (snd a)"
      using u x1(1) by (simp_all add: s' a) (simp_all add: rwlock_of_def c)
    moreover have "rw_wf (snd a)" using d(4) one by (simp add: a rw_wf_def)
    ultimately show ?thesis using k1(1,4) by (simp add: a s')
  next
    case nw: False
    show ?thesis
    proof (cases "EventWaitNum s EVENT_RW_Q_R e = 0")
      case True
      then have ni: "\<not> ign" and w0: "EventWaitNum s EVENT_RW_Q_W e = 0" using ign nw zR by (auto simp: rwlock_of_def)
      have s': "s' = event_upd e ?fr s" using w0 True by (simp add: s'_def RWPost_release_def)
      have a: "a = (Free, (rwlock_of s e)\<lparr>rw_writing := False, rw_owner := None, rw_count := 0\<rparr>)"
        using True w0 zR zW by (simp add: a_def rw_release_def) (simp add: rwlock_of_def)
      note u = rw_upd[where f = ?fr, OF d(1-3)]
      have "rwlock_of s' e = snd a" "rw_ok s' e \<longleftrightarrow> rw_wf (snd a)"
        using u c1 by (simp_all add: s' a) (simp_all add: rwlock_of_def)
      moreover have "rw_wf (snd a)" using True w0 zR zW dep by (simp add: a rw_wf_def) (simp add: rwlock_of_def)
      ultimately show ?thesis by (simp add: a)
    next
      case False
      let ?s1 = "event_upd e ?dec s" and ?ts = "wait_order s e EVENT_RW_Q_R"
      have k1: "kinv ?s1" "order_ok ?s1 e EVENT_RW_Q_R" "order_ok ?s1 e EVENT_RW_Q_W"
        using d(1-3) by (simp_all add: kinv_event_upd event_upd_reads(4))
      have w1: "wait_order ?s1 e q = wait_order s e q" "EventWaitNum ?s1 q e = EventWaitNum s q e" for q
        by (simp_all add: event_upd_reads(3,5))
      have len: "unat (EventWaitNum s EVENT_RW_Q_R e) = length ?ts" "length ?ts \<le> LW_CFG_MAX_THREADS"
        using EventWaitNum_waiters(3)[OF kinv_wait[OF d(1)], of EVENT_RW_Q_R e]
          EventWaitNum_waiters(4)[OF kinv_wait[OF d(1)], of e EVENT_RW_Q_R]
          wait_order_waiters[OF kinv_wait[OF d(1)], of e EVENT_RW_Q_R]
          distinct_card[OF wait_order_distinct[OF d(1,2)]] by simp_all
      define s2 where "s2 = RWPost_readers (unat (EventWaitNum ?s1 EVENT_RW_Q_R e)) e ?s1"
      have ad: "rw_admitted e ?s1 s2" unfolding s2_def by (rule RWPost_readers_ok[OF k1]) (simp only: w1 len(1))
      note a2 = ad[unfolded rw_admitted_def w1]
      have s': "s' = event_upd e ?rd s2" using nw False by (auto simp: s'_def RWPost_release_def Let_def s2_def)
      have a: "a = (To_readers, (rwlock_of s e)\<lparr>rw_writing := False, rw_owner := None, rw_count := length ?ts, rw_readers := []\<rparr>)"
        using nw False zR zW by (simp add: a_def rw_release_def) (simp add: rwlock_of_def)
      have "of_nat (length ?ts) = EVENT_ulCounter (k_event s2 e)" using a2 c1 by simp
      then have cnt: "unat (EVENT_ulCounter (k_event s2 e)) = length ?ts"
        by (rule of_nat_inverse) (use len(2) in simp)
      have "rw_rest (k_event s2 e) = rw_rest (k_event s e)" using a2 by (simp add: rw_rest_def ev_core_def)
      then have pt: "EVENT_pvPtr (k_event s2 e) = EVENT_pvPtr (k_event s e)"
        by (cases "k_event s2 e", cases "k_event s e", simp add: rw_rest_def ev_core_def)
      have k2: "kinv s2" "order_ok s2 e EVENT_RW_Q_R" "order_ok s2 e EVENT_RW_Q_W" using a2 by simp_all
      note u = rw_upd[where f = ?rd, OF k2]
      have "rwlock_of s' e = snd a" "rw_ok s' e \<longleftrightarrow> rw_wf (snd a)"
        using u a2 cnt pt by (simp_all add: s' a) (simp_all add: rwlock_of_def)
      moreover have "rw_wf (snd a)" using False zR dep by (simp add: a rw_wf_def)
      moreover have "\<forall>t\<in>set ?ts. tcb_status s' t = woken_status LW_THREAD_STATUS_SEM (tcb_status s t)"
        using a2 by (simp add: s')
      ultimately show ?thesis by (simp add: a) (simp add: rwlock_of_def)
    qed
  qed
  then show "rw_ok s' e" "rwlock_of s' e = snd a" 
    "fst a = To_writer t \<Longrightarrow> tcb_status s' t = woken_status LW_THREAD_STATUS_SEM (tcb_status s t)"
    "\<lbrakk>fst a = To_readers; t \<in> set (rw_readers (rwlock_of s e))\<rbrakk> \<Longrightarrow>
       tcb_status s' t = woken_status LW_THREAD_STATUS_SEM (tcb_status s t)" by blast+
qed

fun rwpost_code :: "eid \<Rightarrow> rwpost \<Rightarrow> post_out" where
  "rwpost_code e Not_owner = Posted ERROR_EVENT_NOT_OWN"
| "rwpost_code e Unnests = Posted ERROR_NONE"
| "rwpost_code e _ = ThenUnsafe e"

lemma SemaphoreRWPost_refines:
  assumes r0: "rw_ok s e" and h: "handle OBJECT_SEM_RW LW_TYPE_EVENT_SEMRW s ulId e"
    and n: "LW_CPU_GET_CUR_NESTING s = 0" "k_sysRunning s" and t: "LW_TCB_GET_CUR s = t"
  defines "r \<equiv> SemaphoreRWPost ulId s"
    and "a \<equiv> rw_post (EVENT_ulOption (k_event s e) AND LW_OPTION_RW_PREFER_WRITER \<noteq> 0) t (rwlock_of s e)"
  shows "rw_ok (snd r) e" "rwlock_of (snd r) e = snd a" "fst r = rwpost_code e (fst a)"
    "fst a = To_writer u \<Longrightarrow> tcb_status (snd r) u = woken_status LW_THREAD_STATUS_SEM (tcb_status s u)"
    "\<lbrakk>fst a = To_readers; u \<in> set (rw_readers (rwlock_of s e))\<rbrakk> \<Longrightarrow>
       tcb_status (snd r) u = woken_status LW_THREAD_STATUS_SEM (tcb_status s u)"
proof -
  let ?s1 = "KERNEL_ENTER s" and ?a0 = "rwlock_of s e"
    and ?dec = "\<lambda>ev. ev\<lparr>EVENT_ulCounter := EVENT_ulCounter ev - 1\<rparr>" and ?un = "\<lambda>ev. ev\<lparr>EVENT_pvPtr := EVENT_pvPtr ev - 1\<rparr>"
    and ?ign = "EVENT_ulOption (k_event s e) AND LW_OPTION_RW_PREFER_WRITER = 0 \<and> rw_readers (rwlock_of s e) \<noteq> []"
  have r1: "rw_ok ?s1 e" using r0 by simp
  note d = rw_okD[OF r0]
  have d1: "kinv ?s1" "order_ok ?s1 e EVENT_RW_Q_R" "order_ok ?s1 e EVENT_RW_Q_W" using d by simp_all
  have st: "EVENT_iStatus (k_event s e) \<in> {EVENT_RW_STATUS_R, EVENT_RW_STATUS_W}" using r0 by (simp add: rw_ok_def)
  have z: "EVENT_ulCounter (k_event s e) = 0 \<longleftrightarrow> rw_count ?a0 = 0" by (simp add: rwlock_of_def unat_eq_0)
  have gt: "1 < EVENT_ulCounter (k_event s e) \<longleftrightarrow> 1 < rw_count ?a0" by (simp add: rwlock_of_def word_less_nat_alt)
  have own: "EVENT_pvTcbOwn (k_event s e) = rw_owner ?a0" and dep: "EVENT_pvPtr (k_event s e) = rw_depth ?a0"
    by (simp_all add: rwlock_of_def)
  have rd: "EventWaitNum s EVENT_RW_Q_R e = 0 \<longleftrightarrow> rw_readers ?a0 = []"
    using wait_order_empty[OF kinv_wait[OF d(1)], of e EVENT_RW_Q_R] by (simp add: rwlock_of_def)
  have P: "r = (if rw_count ?a0 = 0 then (Posted ERROR_EVENT_NOT_OWN, ErrorHandle_of s ERROR_EVENT_NOT_OWN (KERNEL_EXIT ?s1))
     else if \<not> rw_writing ?a0 then
       (if rw_count ?a0 > 1 then (ThenUnsafe e, KERNEL_EXIT (event_upd e ?dec ?s1))
        else (ThenUnsafe e, KERNEL_EXIT (RWPost_release e ?ign ?s1)))
     else if rw_owner ?a0 \<noteq> Some t then (Posted ERROR_EVENT_NOT_OWN, ErrorHandle_of s ERROR_EVENT_NOT_OWN (KERNEL_EXIT ?s1))
     else if rw_depth ?a0 \<noteq> 0 then (Posted ERROR_NONE, KERNEL_EXIT (event_upd e ?un ?s1))
     else (ThenUnsafe e, KERNEL_EXIT (RWPost_release e False ?s1)))"
    using n by (simp add: r_def SemaphoreRWPost_def EventCheckId_handle[OF h] EventOpen_handle[OF h] Let_def t z d(5) gt own dep rd
        del: One_nat_def)
  have rel: "rw_ok (KERNEL_EXIT (RWPost_release e ign ?s1)) e \<and> rwlock_of (KERNEL_EXIT (RWPost_release e ign ?s1)) e = snd (rw_release ign ?a0)
      \<and> (\<forall>u. fst (rw_release ign ?a0) = To_writer u \<longrightarrow>
         tcb_status (KERNEL_EXIT (RWPost_release e ign ?s1)) u = woken_status LW_THREAD_STATUS_SEM (tcb_status s u))
      \<and> (\<forall>u. fst (rw_release ign ?a0) = To_readers \<and> u \<in> set (rw_readers ?a0) \<longrightarrow>
         tcb_status (KERNEL_EXIT (RWPost_release e ign ?s1)) u = woken_status LW_THREAD_STATUS_SEM (tcb_status s u))
      \<and> fst (rw_release ign ?a0) \<notin> {Not_owner, Unnests}"
    if "rw_count ?a0 = 1" "rw_depth ?a0 = 0" "ign \<longrightarrow> rw_readers ?a0 \<noteq> []" for ign
    using RWPost_release_ok[OF r1, of ign] that by (auto simp: rw_release_def simp del: rw_ok_reads(5))
  have code: "rwpost_code e (fst (rw_release ign ?a0)) = ThenUnsafe e" for ign by (simp add: rw_release_def)
  have "rw_ok (snd r) e \<and> rwlock_of (snd r) e = snd a \<and> fst r = rwpost_code e (fst a)
    \<and> (\<forall>u. fst a = To_writer u \<longrightarrow> tcb_status (snd r) u = woken_status LW_THREAD_STATUS_SEM (tcb_status s u))
    \<and> (\<forall>u. fst a = To_readers \<and> u \<in> set (rw_readers ?a0) \<longrightarrow> tcb_status (snd r) u = woken_status LW_THREAD_STATUS_SEM (tcb_status s u))"
  proof (cases "rw_count ?a0 = 0 \<or> (rw_writing ?a0 \<and> rw_owner ?a0 \<noteq> Some t)")
    case True
    then have a: "a = (Not_owner, ?a0)" by (auto simp: a_def rw_post_def)
    show ?thesis using True r1 by (auto simp: P a simp del: rw_ok_reads(5))
  next
    case False
    then have c: "rw_count ?a0 \<noteq> 0" by simp
    show ?thesis
    proof (cases "rw_writing ?a0")
      case False
      note w = this
      show ?thesis
      proof (cases "rw_count ?a0 > 1")
        case True
        then have a: "a = (Left, ?a0\<lparr>rw_count := rw_count ?a0 - 1\<rparr>)" using w by (simp add: a_def rw_post_def)
        note u = rw_upd[where f = ?dec, OF d1]
        have "unat (EVENT_ulCounter (k_event s e) - 1) = rw_count ?a0 - 1"
          using c z word_pos_Suc_unat[of "EVENT_ulCounter (k_event s e)"] by (simp add: rwlock_of_def)
        then have "rwlock_of (event_upd e ?dec ?s1) e = snd a" "rw_ok (event_upd e ?dec ?s1) e \<longleftrightarrow> rw_wf (snd a)"
          using u st by (simp_all add: a) (simp_all add: rwlock_of_def)
        moreover have "rw_wf (snd a)" using d(4) True w by (simp add: a rw_wf_def)
        ultimately show ?thesis using True w c by (simp add: P a)
      next
        case one: False
        have a: "a = rw_release ?ign ?a0" using c one w by (simp add: a_def rw_post_def)
        have "rw_count ?a0 = 1" "rw_depth ?a0 = 0" using c one d(4) w by (auto simp: rw_wf_def)
        note R = rel[OF this, of ?ign]
        show ?thesis using c one w R code[of ?ign] by (simp add: P a)
      qed
    next
      case w: True
      have o: "rw_owner ?a0 = Some t" and one: "rw_count ?a0 = 1" using False w d(4) by (auto simp: rw_wf_def)
      show ?thesis
      proof (cases "rw_depth ?a0 = 0")
        case True
        have a: "a = rw_release False ?a0" using True w o one by (simp add: a_def rw_post_def)
        note R = rel[OF one True, of False]
        show ?thesis using True w o one R code[of False] by (simp add: P a)
      next
        case False
        then have a: "a = (Unnests, ?a0\<lparr>rw_depth := rw_depth ?a0 - 1\<rparr>)" using w o one by (simp add: a_def rw_post_def)
        note u = rw_upd[where f = ?un, OF d1]
        have "rwlock_of (event_upd e ?un ?s1) e = snd a" "rw_ok (event_upd e ?un ?s1) e \<longleftrightarrow> rw_wf (snd a)"
          using u st by (simp_all add: a) (simp_all add: rwlock_of_def)
        moreover have "rw_wf (snd a)" using d(4) w one by (simp add: a rw_wf_def)
        ultimately show ?thesis using False w o one by (simp add: P a)
      qed
    qed
  qed
  then show "rw_ok (snd r) e" "rwlock_of (snd r) e = snd a" "fst r = rwpost_code e (fst a)"
    "fst a = To_writer u \<Longrightarrow> tcb_status (snd r) u = woken_status LW_THREAD_STATUS_SEM (tcb_status s u)"
    "\<lbrakk>fst a = To_readers; u \<in> set (rw_readers (rwlock_of s e))\<rbrakk> \<Longrightarrow>
       tcb_status (snd r) u = woken_status LW_THREAD_STATUS_SEM (tcb_status s u)" by blast+
qed

end
