(* ===== verification/Tick_Inv.thy ===== *)
theory Tick_Inv
  imports Event_Inv
begin

text \<open>
  The tick of the delay line.  \<open>ThreadTick_ok\<close> states what one call of \<open>_ThreadTick\<close>
  does: it keeps \<open>kinv\<close>, moves every due time one tick closer, and removes exactly the
  threads whose time has come from the line and from the event they waited for.
\<close>

section \<open>One node\<close>

definition tick_status :: "UINT16 \<Rightarrow> UINT16" where
  "tick_status st = (let st1 = st AND NOT LW_THREAD_STATUS_DELAY in
     if st1 AND LW_THREAD_STATUS_PEND_ANY \<noteq> 0 then st1 AND NOT LW_THREAD_STATUS_PEND_ANY else st1)"

definition tick_timeout :: "UINT16 \<Rightarrow> UINT8" where
  "tick_timeout st = (if st AND LW_THREAD_STATUS_PEND_ANY \<noteq> 0 then LW_WAIT_TIME_OUT else LW_WAIT_TIME_CLEAR)"

definition fired :: "kernel \<Rightarrow> kernel \<Rightarrow> tid \<Rightarrow> bool" where
  "fired s s' t \<longleftrightarrow> tcb_status s' t = tick_status (tcb_status s t)
     \<and> TCB_ucWaitTimeout (k_tcb s' t) = tick_timeout (tcb_status s t)
     \<and> TCB_peventPtr (k_tcb s' t) = None
     \<and> TCB_ucIsEventDelete (k_tcb s' t) = TCB_ucIsEventDelete (k_tcb s t)"

lemma event_wq_upd_tcb_upd: "event_wq_upd e q g (tcb_upd t f s) = tcb_upd t f (event_wq_upd e q g s)"
  by (simp add: event_wq_upd_def event_upd_def tcb_upd_def)

lemma EventUnQueue_eq:
  assumes "TCB_peventPtr (k_tcb s t) = Some e"
  shows "EventUnQueue t s = tcb_upd t (\<lambda>x. x\<lparr>TCB_peventPtr := None\<rparr>)
     (low_state t e (TCB_iPendQ (k_tcb s t)) (wait_bucket s t) s)"
  using assms by (simp add: EventUnQueue_def Let_def DelTCBFromEventPriority_def DelTCBFromEventFifo_def
      low_state_def wait_bucket_def)

lemma low_state_tcb_upd: "low_state t e q b (tcb_upd u f s) = tcb_upd u f (low_state t e q b s)"
  by (simp add: low_state_def event_wq_upd_tcb_upd)

lemma ThreadTick_node_ok:
  assumes k: "kinv s" and t: "tcb_status s t AND LW_THREAD_STATUS_DELAY \<noteq> 0"
  defines "s' \<equiv> ThreadTick_node t s"
  shows "kinv s'" "k_halt s' = k_halt s" "fired s s' t"
    "\<And>u. u \<noteq> t \<Longrightarrow> tcb_core (k_tcb s' u) = tcb_core (k_tcb s u)"
    "\<And>e. ev_core (k_event s' e) = ev_core (k_event s e)"
    "k_delay s' = WakeupDel t (k_delay s)" "k_tcbIdTable s' = k_tcbIdTable s" "k_ncpus s' = k_ncpus s"
    "ready_set s' = (if tick_status (tcb_status s t) = 0 then insert t (ready_set s) else ready_set s)"
proof -
  define st where "st = tcb_status s t"
  define P where "P \<longleftrightarrow> st AND LW_THREAD_STATUS_PEND_ANY \<noteq> 0"
  define s1 where "s1 = DEL_FROM_WAKEUP_LINE t s"
  define s1' where "s1' = (case TCB_peventPtr (k_tcb s t) of None \<Rightarrow> s1
     | Some e \<Rightarrow> tcb_upd t (\<lambda>x. x\<lparr>TCB_peventPtr := None\<rparr>) (low_state t e (TCB_iPendQ (k_tcb s t)) (wait_bucket s t) s1))"
  define f where "f = (\<lambda>x::tcb. x\<lparr>TCB_usStatus := tick_status st, TCB_ucWaitTimeout := tick_timeout st\<rparr>)"
  define s2 where "s2 = tcb_upd t f s1'"
  define s3 where "s3 = tcb_upd t (\<lambda>x. x\<lparr>TCB_ucSchedActivate := LW_SCHED_ACT_OTHER\<rparr>) s2"
  note w = kinv_wait[OF k]
  have id: "k_tcbIdTable s t" using k t by (auto simp: kinv_def)
  have noev: "TCB_peventPtr (k_tcb s t) = None" if "\<not> P"
    using that wait_invxD(4)[OF w[unfolded wait_inv_def], of t] unfolding P_def st_def
    by (cases "TCB_peventPtr (k_tcb s t)") (auto simp: waits_on_def)
  have st1: "tcb_status s1 t = st AND - 2" by (simp add: s1_def st_def)
  have ts: "tick_status st = (if P then (st AND - 2) AND - 31 else st AND - 2)" "tick_timeout st = (if P then 1 else 0)"
    by (simp_all add: tick_status_def tick_timeout_def P_def Let_def)
  have ord: "tcb_upd t (\<lambda>x. x\<lparr>TCB_peventPtr := None\<rparr>) (tcb_upd t (\<lambda>x. x\<lparr>TCB_usStatus := TCB_usStatus x AND NOT LW_THREAD_STATUS_PEND_ANY,
        TCB_ucWaitTimeout := LW_WAIT_TIME_OUT\<rparr>) u) = tcb_upd t f (tcb_upd t (\<lambda>x. x\<lparr>TCB_peventPtr := None\<rparr>) u)"
    if "tcb_status u t = st AND - 2" P for u
    using that by (cases "k_tcb u t") (simp add: tcb_upd_def f_def ts)
  have s2: "s2 = (let s' = tcb_upd t (\<lambda>x. x\<lparr>TCB_usStatus := TCB_usStatus x AND NOT LW_THREAD_STATUS_PEND_ANY,
                          TCB_ucWaitTimeout := LW_WAIT_TIME_OUT\<rparr>) s1
               in if TCB_peventPtr (k_tcb s' t) \<noteq> None then EventUnQueue t s' else s')" if P
  proof (cases "TCB_peventPtr (k_tcb s t)")
    case None
    then show ?thesis using that st1 by (simp add: s2_def s1'_def f_def ts s1_def tcb_upd_def)
  next
    case (Some e)
    let ?u = "tcb_upd t (\<lambda>x. x\<lparr>TCB_usStatus := TCB_usStatus x AND NOT LW_THREAD_STATUS_PEND_ANY,
                          TCB_ucWaitTimeout := LW_WAIT_TIME_OUT\<rparr>) s1"
    have p: "TCB_peventPtr (k_tcb ?u t) = Some e" "TCB_iPendQ (k_tcb ?u t) = TCB_iPendQ (k_tcb s t)"
      "wait_bucket ?u t = wait_bucket s t"
      using Some by (auto simp: s1_def wait_bucket_def)
    show ?thesis
      unfolding Let_def EventUnQueue_eq[OF p(1)] p low_state_tcb_upd
      using that Some st1 ord[of "low_state t e (TCB_iPendQ (k_tcb s t)) (wait_bucket s t) s1"]
      by (simp add: s2_def s1'_def)
  qed
  have s2n: "s2 = tcb_upd t (\<lambda>x. x\<lparr>TCB_ucWaitTimeout := LW_WAIT_TIME_CLEAR\<rparr>) s1" if "\<not> P"
    using that noev[OF that] st1 by (cases "k_tcb s1 t") (simp add: s2_def s1'_def f_def ts tcb_upd_def)
  have st2: "tcb_status s2 t = tick_status st" by (simp add: s2_def f_def)
  have P1: "tcb_status s1 t AND LW_THREAD_STATUS_PEND_ANY \<noteq> 0 \<longleftrightarrow> P" by (simp add: st1 P_def)
  have s'eq: "s' = (if tick_status st = 0 then ADD_TO_READY_RING t (GetPcb s3 t) s3 else s2)"
    unfolding s'_def ThreadTick_node_def Let_def s1_def[symmetric]
    using P1 s2 s2n st2 by (auto simp: LW_THREAD_IS_READY_def s3_def Let_def)
  have tR: "t \<notin> ready_set s" using t by (auto simp: ready_set_def LW_THREAD_IS_READY_def)
  have d1: "delay_inv s1" using DEL_FROM_WAKEUP_LINE_delay[OF kinv_delay[OF k] t] by (simp add: s1_def)
  have w1: "wait_inv s1" using w by (simp add: s1_def)
  have w1x: "wait_invx {t} s1'"
  proof (cases "TCB_peventPtr (k_tcb s t)")
    case None
    then show ?thesis using w1 wait_invx_None[of s1 t] by (simp add: s1'_def) (simp add: s1_def)
  next
    case (Some e)
    have "waits_on s1 e (TCB_iPendQ (k_tcb s t)) t" "wait_bucket s1 t = wait_bucket s t"
      using Some by (auto simp: s1_def waits_on_def wait_bucket_def)
    then have "wait_invx {t} (low_state t e (TCB_iPendQ (k_tcb s t)) (wait_bucket s t) s1)"
      unfolding low_state_def by (rule wait_del_gen[OF w1])
    then show ?thesis using Some by (simp add: s1'_def wait_invx_tcb)
  qed
  have p1: "TCB_peventPtr (k_tcb s1' t) = None" by (auto simp: s1'_def s1_def split: option.splits)
  have w2: "wait_inv s2" unfolding s2_def by (rule wait_inv_leave[OF w1x]) (simp add: f_def p1)
  have d1': "delay_inv s1'" "tcb_status s1' t = st AND - 2"
    using d1 st1 by (auto simp: s1'_def delay_inv_tcb split: option.splits)
  have d2: "delay_inv s2" using d1' unfolding s2_def by (simp add: delay_inv_tcb f_def ts)
  have base: "k_curcpu s2 = k_curcpu s" "k_ncpus s2 = k_ncpus s" "k_tcbIdTable s2 = k_tcbIdTable s"
    "k_halt s2 = k_halt s" "k_delay s2 = WakeupDel t (k_delay s)"
    by (auto simp: s2_def s1'_def s1_def DEL_FROM_WAKEUP_LINE_def Let_def split: option.splits)
  have oth2: "k_tcb s2 u = k_tcb s u" if "u \<noteq> t" for u
    using that by (auto simp: s2_def s1'_def s1_def split: option.splits)
  have ev2: "ev_core (k_event s2 e) = ev_core (k_event s e)" for e
    by (auto simp: s2_def s1'_def s1_def split: option.splits)
  have t2: "TCB_ucWaitTimeout (k_tcb s2 t) = tick_timeout st" "TCB_peventPtr (k_tcb s2 t) = None"
    "TCB_ucIsEventDelete (k_tcb s2 t) = TCB_ucIsEventDelete (k_tcb s t)"
    by (auto simp: s2_def f_def p1 s1'_def s1_def split: option.splits)
  have place: "tcb_place (f x) = tcb_place x" for x by (simp add: f_def tcb_place_def)
  have sch2: "sched_inv (ready_set s) s2" using kinv_sched[OF k]
    by (auto simp: s2_def s1'_def s1_def sched_inv_tcb_upd place split: option.splits)
  have rs2: "ready_set s2 = (if tick_status st = 0 then insert t (ready_set s) else ready_set s)"
    using st2 id base(3) oth2 tR by (auto simp: ready_set_def LW_THREAD_IS_READY_def) (metis oth2)+
  have ids2: "k_tcbIdTable s u" if "TCB_peventPtr (k_tcb s2 u) \<noteq> None \<or> tcb_status s2 u AND LW_THREAD_STATUS_DELAY \<noteq> 0" for u
    using that oth2[of u] k id unfolding kinv_def by (cases "u = t") auto
  have fr: "sched_frame s3 (ADD_TO_READY_RING t (GetPcb s3 t) s3)" by simp
  have sch3: "sched_inv (ready_set s) s3" "wait_inv s3" "delay_inv s3" "ready_set s3 = ready_set s2"
    using sch2 w2 d2 by (auto simp: s3_def delay_inv_tcb ready_set_def LW_THREAD_IS_READY_def t2 intro!: wait_inv_tcb_same)
  have b3: "k_curcpu s3 = k_curcpu s" "k_ncpus s3 = k_ncpus s" "k_tcbIdTable s3 = k_tcbIdTable s" "k_halt s3 = k_halt s"
     "k_delay s3 = k_delay s2" "k_event s3 = k_event s2" using base by (simp_all add: s3_def)
  have t3: "TCB_peventPtr (k_tcb s3 u) = TCB_peventPtr (k_tcb s2 u)" "tcb_status s3 u = tcb_status s2 u"
    "TCB_ucWaitTimeout (k_tcb s3 u) = TCB_ucWaitTimeout (k_tcb s2 u)"
    "TCB_ucIsEventDelete (k_tcb s3 u) = TCB_ucIsEventDelete (k_tcb s2 u)" for u by (simp_all add: s3_def)
  note frs = sched_frame_kernelD[OF fr] sched_frame_tcbD[OF fr] b3 t3
  show "kinv s'" "k_halt s' = k_halt s"
    using ADD_TO_READY_RING_inv[OF sch3(1) tR] sch3 rs2 sch2 w2 d2 base ids2 k frs
      wait_inv_frame[OF sched_frame_run[OF fr]] delay_inv_frame[OF sched_frame_run[OF fr]]
      ready_set_frame[OF sched_frame_run[OF fr]]
    by (simp_all add: s'eq kinv_def)
  show "fired s s' t" using t2 st2 frs by (simp add: fired_def s'eq st_def[symmetric])
  show "k_delay s' = WakeupDel t (k_delay s)" "k_tcbIdTable s' = k_tcbIdTable s" "k_ncpus s' = k_ncpus s"
    "ev_core (k_event s' e) = ev_core (k_event s e)" for e
    using base frs ev2 by (simp_all add: s'eq)
  show "tcb_core (k_tcb s' u) = tcb_core (k_tcb s u)" if "u \<noteq> t" for u
    using that sched_frame_tcb[OF fr, of u] oth2[OF that] by (simp add: s'eq s3_def)
  show "ready_set s' = (if tick_status (tcb_status s t) = 0 then insert t (ready_set s) else ready_set s)"
    using rs2 sch3(4) ready_set_frame[OF sched_frame_run[OF fr]] by (simp add: s'eq st_def[symmetric])
qed

section \<open>The pass\<close>

lemma dues_from_shift:
  assumes "\<And>x. x \<in> set xs \<Longrightarrow> c' x = c x"
  shows "dues_from (a + k) c' xs = map (\<lambda>(n, d). (n, d + k)) (dues_from a c xs)"
  using assms
proof (induction xs arbitrary: a)
  case (Cons x xs)
  then show ?case using Cons.IH[of "a + unat (c x)"] by (simp add: ac_simps)
qed simp

text \<open>Charging \<open>k\<close> ticks to the first node.\<close>

lemma dues_charge:
  assumes line: "WU_line w = t # ts" and dist: "distinct (t # ts)" and le: "k \<le> WUN_ulCounter w t"
  shows "dues (w\<lparr>WUN_ulCounter := (WUN_ulCounter w)(t := WUN_ulCounter w t - k), WU_plineOp := p\<rparr>) =
    map (\<lambda>(n, d). (n, d - unat k)) (dues w)"
proof -
  let ?c = "WUN_ulCounter w" and ?c' = "(WUN_ulCounter w)(t := WUN_ulCounter w t - k)"
  have u: "unat (?c t - k) = unat (?c t) - unat k" "unat k \<le> unat (?c t)"
    using le by (simp_all add: unat_sub word_le_nat_alt)
  have e: "dues_from (unat (?c t)) ?c ts =
      map (\<lambda>(n, d). (n, d + unat k)) (dues_from (unat (?c t) - unat k) ?c' ts)"
  proof -
    have "dues_from (unat (?c t) - unat k + unat k) ?c ts =
        map (\<lambda>(n, d). (n, d + unat k)) (dues_from (unat (?c t) - unat k) ?c' ts)"
      by (rule dues_from_shift) (use dist in auto)
    then show ?thesis using u(2) by simp
  qed
  have "map (\<lambda>(n, d). (n, d - unat k)) (dues_from (unat (?c t)) ?c ts) =
      dues_from (unat (?c t) - unat k) ?c' ts"
    unfolding e by (simp add: comp_def split_beta)
  then show ?thesis using u by (simp add: dues_def line)
qed

lemma dues_shift_ok:
  assumes "wu_ok w" "dues w' = map (\<lambda>(n, d). (n, d - k)) (dues w)" "WU_line w' = WU_line w" "WUN_bInQ w' = WUN_bInQ w"
  shows "wu_ok w'"
  using assms by (auto simp: wu_ok_def split_beta)

definition first_due :: "kernel \<Rightarrow> tid option" where
  "first_due s = (case WU_line (k_delay s) of [] \<Rightarrow> None | t # _ \<Rightarrow> Some t)"

text \<open>\<open>ticked k s s'\<close>: \<open>k\<close> ticks have passed.\<close>

definition due_by :: "kernel \<Rightarrow> nat \<Rightarrow> tid set" where
  "due_by s k = {t. \<exists>d. (t, d) \<in> set (dues (k_delay s)) \<and> d \<le> k}"

definition ticked :: "nat \<Rightarrow> kernel \<Rightarrow> kernel \<Rightarrow> bool" where
  "ticked k s s' \<longleftrightarrow> kinv s' \<and> k_halt s' = k_halt s \<and>
     dues (k_delay s') = map (\<lambda>(n, d). (n, d - k)) (filter (\<lambda>(n, d). k < d) (dues (k_delay s))) \<and>
     (\<forall>t \<in> due_by s k. fired s s' t) \<and>
     (\<forall>t. t \<notin> due_by s k \<longrightarrow> tcb_core (k_tcb s' t) = tcb_core (k_tcb s t)) \<and>
     (\<forall>e. ev_core (k_event s' e) = ev_core (k_event s e)) \<and>
     k_tcbIdTable s' = k_tcbIdTable s \<and> k_ncpus s' = k_ncpus s"

lemma kinv_k_delay:
  assumes "kinv s" "wu_ok w" "WU_line w = WU_line (k_delay s)"
  shows "kinv (s\<lparr>k_delay := w\<rparr>)"
  using assms unfolding kinv_def delay_inv_def ready_set_def by simp

lemma dues_mem_line: "(t, d) \<in> set (dues w) \<Longrightarrow> t \<in> set (WU_line w)"
  by (metis fst_conv image_eqI list.set_map map_fst_dues)

lemma ticked_cong_tcb:
  assumes "fired s1 s' t" "tcb_core (k_tcb s1 t) = tcb_core (k_tcb s t)"
  shows "fired s s' t"
  using assms(1) tcb_core_eqD[OF assms(2)] by (simp add: fired_def)

lemma fired_trans:
  assumes "fired s s1 t" "tcb_core (k_tcb s' t) = tcb_core (k_tcb s1 t)"
  shows "fired s s' t"
  using assms(1) tcb_core_eqD[OF assms(2)] by (simp add: fired_def)

lemma line_get_next_hd: "line_get_next t (t # ts) = (case ts of [] \<Rightarrow> None | y # _ \<Rightarrow> Some y)"
  by simp

lemma dues_Cons: "WU_line w = t # ts \<Longrightarrow>
   dues w = (t, unat (WUN_ulCounter w t)) # dues_from (unat (WUN_ulCounter w t)) (WUN_ulCounter w) ts"
  by (simp add: dues_def)

text \<open>One turn of the pass: the first node is due.\<close>

lemma tick_turn:
  fixes k :: ULONG
  assumes k: "kinv s" and op: "WU_plineOp (k_delay s) = first_due s" and line: "WU_line (k_delay s) = t # ts"
    and due: "\<not> k < WUN_ulCounter (k_delay s) t"
  defines "c \<equiv> WUN_ulCounter (k_delay s) t" and "p \<equiv> (case ts of [] \<Rightarrow> None | y # _ \<Rightarrow> Some y)"
  defines "w1 \<equiv> (k_delay s)\<lparr>WUN_ulCounter := (WUN_ulCounter (k_delay s))(t := c - c), WU_plineOp := p\<rparr>"
  defines "s1 \<equiv> s\<lparr>k_delay := w1\<rparr>" and "s2 \<equiv> ThreadTick_node t (s\<lparr>k_delay := w1\<rparr>)"
  shows "ThreadTick_pass (Suc n) k s = ThreadTick_pass n (k - c) s2"
    "dues w1 = map (\<lambda>(n, d). (n, d - unat c)) (dues (k_delay s))" "wu_ok w1" "kinv s1"
    "tcb_status s1 t AND LW_THREAD_STATUS_DELAY \<noteq> 0" "k_delay s2 = WakeupDel t w1" "WU_line (k_delay s2) = ts"
    "WU_plineOp (k_delay s2) = first_due s2" "kinv s2"
proof -
  let ?w = "k_delay s"
  have ok: "wu_ok ?w" using kinv_delay[OF k] by (simp add: delay_inv_def)
  then have dist: "distinct (t # ts)" using line by (simp add: wu_ok_def)
  show "ThreadTick_pass (Suc n) k s = ThreadTick_pass n (k - c) s2"
    using op due line by (cases ?w) (simp add: first_due_def WAKEUP_PASS_FIRST_def p_def Let_def s2_def w1_def c_def)
  show d1: "dues w1 = map (\<lambda>(n, d). (n, d - unat c)) (dues ?w)"
    unfolding w1_def c_def by (rule dues_charge[OF line dist]) simp
  show ok1: "wu_ok w1" by (rule dues_shift_ok[OF ok d1]) (simp_all add: w1_def)
  show k1: "kinv s1" unfolding s1_def by (rule kinv_k_delay[OF k ok1]) (simp add: w1_def)
  have tin: "t \<in> set (WU_line (k_delay s1))" by (simp add: s1_def w1_def line)
  then show bit: "tcb_status s1 t AND LW_THREAD_STATUS_DELAY \<noteq> 0"
    using delay_line_mem[OF kinv_delay[OF k1]] by blast
  note nd = ThreadTick_node_ok[OF k1 bit, folded s1_def[symmetric], unfolded s1_def, folded s2_def]
  show k2: "kinv s2" by (rule nd(1))
  show dl2: "k_delay s2 = WakeupDel t w1" using nd(6) by simp
  show line2: "WU_line (k_delay s2) = ts" using line by (simp add: dl2 w1_def)
  have "p \<noteq> Some t" using dist by (auto simp: p_def split: list.splits)
  then show "WU_plineOp (k_delay s2) = first_due s2"
    using line2 by (simp add: dl2 WakeupDel_plineOp first_due_def w1_def p_def split: list.splits)
qed

text \<open>Once the fuel covers the line, more of it changes nothing.\<close>

lemma ThreadTick_pass_fuel:
  assumes "kinv s" "WU_plineOp (k_delay s) = first_due s" "length (WU_line (k_delay s)) \<le> n"
  shows "ThreadTick_pass (n + j) k s = ThreadTick_pass n k s"
  using assms
proof (induction n arbitrary: s k)
  case 0
  then have "WU_plineOp (k_delay s) = None" by (simp add: first_due_def)
  then show ?case by (cases j) simp_all
next
  case (Suc n)
  show ?case
  proof (cases "WU_line (k_delay s)")
    case Nil
    then show ?thesis using Suc.prems(2) by (simp add: first_due_def)
  next
    case (Cons t ts)
    then have op: "WU_plineOp (k_delay s) = Some t" using Suc.prems(2) by (simp add: first_due_def)
    show ?thesis
    proof (cases "k < WUN_ulCounter (k_delay s) t")
      case True
      then show ?thesis using op by (simp add: WAKEUP_PASS_FIRST_def Let_def)
    next
      case False
      note tt = tick_turn[OF Suc.prems(1,2) Cons False]
      show ?thesis using Suc.IH[OF tt(9,8)] Suc.prems(3) Cons tt(1,7) by simp
    qed
  qed
qed

lemma ThreadTick_pass_ok:
  assumes "kinv s" "WU_plineOp (k_delay s) = first_due s" "length (WU_line (k_delay s)) \<le> n"
  shows "ticked (unat k) s (ThreadTick_pass n k s)"
  using assms
proof (induction n arbitrary: s k)
  case 0
  then have "dues (k_delay s) = []" by (simp add: dues_def)
  then show ?case using 0 by (simp add: ticked_def due_by_def)
next
  case (Suc n)
  show ?case
  proof (cases "WU_line (k_delay s)")
    case Nil
    then have "dues (k_delay s) = []" by (simp add: dues_def)
    then show ?thesis using Suc.prems Nil by (simp add: ticked_def due_by_def first_due_def)
  next
    case (Cons t ts)
    let ?w = "k_delay s"
    have ok: "wu_ok ?w" using kinv_delay[OF Suc.prems(1)] by (simp add: delay_inv_def)
    then have dist: "distinct (t # ts)" using Cons by (simp add: wu_ok_def)
    have op: "WU_plineOp ?w = Some t" using Suc.prems(2) Cons by (simp add: first_due_def)
    define p where "p = (case ts of [] \<Rightarrow> None | y # _ \<Rightarrow> Some y)"
    note dC = dues_Cons[OF Cons]
    show ?thesis
    proof (cases "k < WUN_ulCounter ?w t")
      case True
      let ?w' = "?w\<lparr>WUN_ulCounter := (WUN_ulCounter ?w)(t := WUN_ulCounter ?w t - k), WU_plineOp := p\<rparr>"
      have s': "ThreadTick_pass (Suc n) k s = s\<lparr>k_delay := ?w'\<rparr>"
        using op True Cons by (cases ?w) (simp add: WAKEUP_PASS_FIRST_def p_def Let_def)
      have d: "dues ?w' = map (\<lambda>(n, d). (n, d - unat k)) (dues ?w)"
        by (rule dues_charge[OF Cons dist]) (use True in simp)
      have ok': "wu_ok ?w'" by (rule dues_shift_ok[OF ok d]) simp_all
      have gt: "unat k < d'" if "(n', d') \<in> set (dues ?w)" for n' d'
        using that dC True dues_from_ge[of n' d' "unat (WUN_ulCounter ?w t)" "WUN_ulCounter ?w" ts]
        by (auto simp: word_less_nat_alt)
      then have "filter (\<lambda>(n, d). unat k < d) (dues ?w) = dues ?w" "due_by s (unat k) = {}"
        by (auto simp: filter_id_conv due_by_def not_le)
      then show ?thesis unfolding s' using kinv_k_delay[OF Suc.prems(1) ok'] d by (simp add: ticked_def)
    next
      case False
      define c where "c = WUN_ulCounter ?w t"
      define w1 where "w1 = ?w\<lparr>WUN_ulCounter := (WUN_ulCounter ?w)(t := c - c), WU_plineOp := p\<rparr>"
      define s1 where "s1 = s\<lparr>k_delay := w1\<rparr>"
      define s2 where "s2 = ThreadTick_node t s1"
      have le: "c \<le> k" using False by (simp add: c_def)
      note tt = tick_turn[OF Suc.prems(1,2) Cons False, folded c_def, folded p_def, folded w1_def, folded s1_def, folded s2_def]
      note s' = tt(1) and d1 = tt(2) and ok1 = tt(3) and dl2 = tt(6) and line2 = tt(7) and op2 = tt(8)
      note nd = ThreadTick_node_ok[OF tt(4,5), folded s2_def]
      have tw1: "t \<in> set (WU_line w1)" by (simp add: w1_def Cons)
      have dd: "dues (k_delay s2) = filter (\<lambda>(m, d). m \<noteq> t) (map (\<lambda>(n, d). (n, d - unat c)) (dues ?w))"
        using dues_WakeupDel[OF ok1 tw1] d1 by (simp add: dl2)
      have tnot: "(t, d') \<notin> set (dues_from (unat (WUN_ulCounter ?w t)) (WUN_ulCounter ?w) ts)" for d'
        using dist by (metis distinct.simps(2) fst_conv image_eqI list.set_map map_fst_dues_from)
      have rest: "filter (\<lambda>(m, d). m \<noteq> t) (dues ?w) = dues_from (unat (WUN_ulCounter ?w t)) (WUN_ulCounter ?w) ts"
        using tnot by (auto simp: dC filter_id_conv)
      have IH: "ticked (unat (k - c)) s2 (ThreadTick_pass n (k - c) s2)"
        using Suc.IH[OF nd(1) op2] Suc.prems(3) Cons line2 by simp
      have ukc: "unat (k - c) = unat k - unat c" "unat c \<le> unat k" using le by (simp_all add: unat_sub word_le_nat_alt)
      have mem2: "(m, d') \<in> set (dues (k_delay s2)) \<longleftrightarrow> (\<exists>d. (m, d) \<in> set (dues ?w) \<and> m \<noteq> t \<and> d' = d - unat c)" for m d'
        by (auto simp: dd)
      have gec: "unat c \<le> d'" if "(m, d') \<in> set (dues ?w)" for m d'
        using that dC dues_from_ge[of m d' "unat (WUN_ulCounter ?w t)" "WUN_ulCounter ?w" ts] by (auto simp: c_def)
      have db: "due_by s (unat k) = insert t (due_by s2 (unat (k - c)))"
      proof (rule set_eqI)
        fix m show "m \<in> due_by s (unat k) \<longleftrightarrow> m \<in> insert t (due_by s2 (unat (k - c)))"
        proof (cases "m = t")
          case True
          then show ?thesis using dC ukc(2) by (auto simp: due_by_def c_def)
        next
          case False
          then show ?thesis using mem2[of m] gec[of m] ukc by (fastforce simp: due_by_def)
        qed
      qed
      have core2: "tcb_core (k_tcb s2 u) = tcb_core (k_tcb s u)" if "u \<noteq> t" for u
        using nd(4)[OF that] by (simp add: s1_def)
      have t2: "t \<notin> due_by s2 (unat (k - c))" by (auto simp: due_by_def dest!: dues_mem_line) (use line2 dist in auto)
      let ?s' = "ThreadTick_pass n (k - c) s2"
      note I = IH[unfolded ticked_def]
      have f_t: "fired s ?s' t"
        by (rule fired_trans[of s s2]) (use nd(3) I t2 in \<open>auto simp: fired_def s1_def\<close>)
      have f_o: "fired s ?s' u" if "u \<in> due_by s2 (unat (k - c))" for u
        by (rule ticked_cong_tcb[of s2]) (use I that core2[of u] t2 in auto)
      have o: "tcb_core (k_tcb ?s' u) = tcb_core (k_tcb s u)" if "u \<notin> due_by s (unat k)" for u
        using I core2[of u] that db by auto
      have flt: "map (\<lambda>(n, d). (n, d - unat (k - c))) (filter (\<lambda>(n, d). unat (k - c) < d) (dues (k_delay s2)))
          = map (\<lambda>(n, d). (n, d - unat k)) (filter (\<lambda>(n, d). unat k < d) (dues ?w))"
      proof -
        have t0: "\<not> unat k < unat c" using ukc(2) by simp
        have "filter (\<lambda>(n, d). unat k < d) (dues ?w) = filter (\<lambda>(n, d). unat k < d) (filter (\<lambda>(m, d). m \<noteq> t) (dues ?w))"
          unfolding rest using dC t0 by (simp add: c_def)
        moreover have "map (\<lambda>(n, d). (n, d - unat (k - c))) (filter (\<lambda>(n, d). unat (k - c) < d) (dues (k_delay s2)))
          = map (\<lambda>(n, d). (n, d - unat k)) (filter (\<lambda>(n, d). unat k < d) (filter (\<lambda>(m, d). m \<noteq> t) (dues ?w)))"
          unfolding dd filter_map
          using ukc gec by (auto simp: comp_def split_beta intro!: arg_cong2[where f = map] filter_cong)
        ultimately show ?thesis by simp
      qed
      show ?thesis unfolding s' ticked_def
        using I nd(2,5,7,8) f_t f_o o flt db by (auto simp: s1_def)
    qed
  qed
qed

section \<open>\<open>_ThreadTick\<close>\<close>

lemma tick_kinv: "kinv s \<Longrightarrow> kinv (s\<lparr>k_delay := WAKEUP_PASS_BEGIN (k_delay s)\<rparr>)"
  by (rule kinv_k_delay) (auto simp: WAKEUP_PASS_BEGIN_def kinv_def delay_inv_def wu_ok_def dues_def)

lemma ticked_frame:
  assumes "ticked k s s'" "run_frame s' s''" "kinv s''" "k_halt s'' = k_halt s'"
  shows "ticked k s s''"
  using assms unfolding ticked_def fired_def
  by (simp add: run_frame_tcbD run_frame_tcb run_frame_kernelD)

lemma ThreadTick_ok:
  assumes k: "kinv s" shows "ticked 1 s (ThreadTick s)"
proof -
  define s1 where "s1 = KERNEL_ENTER s"
  define s2 where "s2 = s1\<lparr>k_delay := WAKEUP_PASS_BEGIN (k_delay s1)\<rparr>"
  define s3 where "s3 = ThreadTick_pass (Suc (length (WU_line (k_delay s2)))) 1 s2"
  have "kinv s1" using k by (simp add: s1_def)
  then have k2: "kinv s2" unfolding s2_def by (rule tick_kinv)
  have "WU_plineOp (k_delay s2) = first_due s2" by (simp add: s2_def first_due_def WAKEUP_PASS_BEGIN_def)
  from ThreadTick_pass_ok[OF k2 this, of "Suc (length (WU_line (k_delay s2)))" 1]
  have p: "ticked 1 s2 s3" by (simp add: s3_def)
  have d: "dues (k_delay s2) = dues (k_delay s)" "due_by s2 n = due_by s n" "k_tcb s2 = k_tcb s"
      "k_event s2 = k_event s" "k_halt s2 = k_halt s" "k_tcbIdTable s2 = k_tcbIdTable s" "k_ncpus s2 = k_ncpus s" for n
    by (simp_all add: s2_def s1_def dues_def WAKEUP_PASS_BEGIN_def due_by_def)
  have q: "ticked 1 s s3" using p by (simp add: ticked_def d fired_def)
  have k3: "kinv s3" using q by (simp add: ticked_def)
  have "ThreadTick s = KERNEL_EXIT s3" unfolding ThreadTick_def Let_def s3_def s2_def s1_def by (rule refl)
  then show ?thesis using ticked_frame[OF q _ KERNEL_EXIT_kinv[OF k3]] by simp
qed

lemma dues_key_unique:
  assumes "wu_ok w" "(t, d) \<in> set (dues w)" "(t, d') \<in> set (dues w)" shows "d = d'"
proof -
  have "distinct (map fst (dues w))" using assms(1) by (simp add: wu_ok_def)
  then show ?thesis using assms(2,3) by (metis eq_key_imp_eq_value)
qed

lemma ticked_trans:
  assumes k: "kinv s" and a: "ticked j s s1" and b: "ticked k s1 s2" shows "ticked (j + k) s s2"
proof -
  note A = a[unfolded ticked_def] and B = b[unfolded ticked_def]
  have ok: "wu_ok (k_delay s)" using kinv_delay[OF k] by (simp add: delay_inv_def)
  have mem1: "(t, d') \<in> set (dues (k_delay s1)) \<longleftrightarrow> (\<exists>d. (t, d) \<in> set (dues (k_delay s)) \<and> j < d \<and> d' = d - j)" for t d'
    using A by auto
  have split: "due_by s (j + k) = due_by s j \<union> due_by s1 k"
  proof (rule set_eqI)
    fix t
    have "d \<le> j + k \<longleftrightarrow> d \<le> j \<or> j < d \<and> d - j \<le> k" for d by auto
    then show "t \<in> due_by s (j + k) \<longleftrightarrow> t \<in> due_by s j \<union> due_by s1 k"
      unfolding due_by_def Un_iff mem_Collect_eq mem1 by blast
  qed
  have disj: "t \<notin> due_by s1 k" if "t \<in> due_by s j" for t
    using that dues_key_unique[OF ok] unfolding due_by_def mem_Collect_eq mem1 by (metis leD)
  have f: "fired s s2 t" if "t \<in> due_by s (j + k)" for t
  proof (cases "t \<in> due_by s j")
    case True
    then show ?thesis using fired_trans[of s s1 t s2] A B disj by blast
  next
    case False
    then show ?thesis using that split ticked_cong_tcb[of s1 s2 t s] A B by blast
  qed
  have o: "tcb_core (k_tcb s2 t) = tcb_core (k_tcb s t)" if "t \<notin> due_by s (j + k)" for t
    using that split A B by auto
  have "map (\<lambda>(n, d). (n, d - k)) (filter (\<lambda>(n, d). k < d) (dues (k_delay s1)))
      = map (\<lambda>(n, d). (n, d - (j + k))) (filter (\<lambda>(n, d). j + k < d) (dues (k_delay s)))"
  proof -
    have "dues (k_delay s1) = map (\<lambda>(n, d). (n, d - j)) (filter (\<lambda>(n, d). j < d) (dues (k_delay s)))"
      using A by blast
    then show ?thesis
      by (simp add: filter_map comp_def split_beta filter_filter)
        (rule arg_cong2[where f = map]; auto intro!: filter_cong)
  qed
  then show ?thesis unfolding ticked_def using A B f o by auto
qed

lemma ThreadTicks_ok:
  assumes "kinv s" shows "ticked (Suc n) s ((ThreadTick ^^ Suc n) s)"
proof (induction n)
  case 0
  then show ?case using ThreadTick_ok[OF assms] by simp
next
  case (Suc n)
  then have "kinv ((ThreadTick ^^ Suc n) s)" by (simp add: ticked_def)
  from ThreadTick_ok[OF this] Suc show ?case using ticked_trans[OF assms, of "Suc n" _ 1] by simp
qed

end
