(* ===== verification/Api_Inv.thy ===== *)
theory Api_Inv
  imports Sem_Count Sem_Binary Sem_Mutex Sem_Rw Tick_Inv
begin

text \<open>
  The invariant of the whole kernel model: \<open>kinv\<close>, the pool of event blocks, and for every
  block in use the consistency of its fields with the set of its waiters.  Unlike the
  refinements of the single objects it does not speak of the order of the queues, which a
  change of priority of a waiting thread does not maintain.
\<close>

section \<open>The invariant\<close>

text \<open>\<open>block_ok lv ev W\<close>: the block \<open>ev\<close>, with the set \<open>W q\<close> of threads waiting in queue \<open>q\<close>;
  \<open>lv\<close> are the threads that can own a mutex.\<close>

definition semc_block :: "event \<Rightarrow> (nat \<Rightarrow> tid set) \<Rightarrow> bool" where
  "semc_block ev W \<longleftrightarrow> EVENT_ulCounter ev \<le> EVENT_ulMaxCounter ev \<and> (W EVENT_SEM_Q \<noteq> {} \<longrightarrow> EVENT_ulCounter ev = 0) \<and>
     (\<forall>q. q \<noteq> EVENT_SEM_Q \<longrightarrow> W q = {})"

definition semb_block :: "event \<Rightarrow> (nat \<Rightarrow> tid set) \<Rightarrow> bool" where
  "semb_block ev W \<longleftrightarrow> (W EVENT_SEM_Q \<noteq> {} \<longrightarrow> EVENT_ulCounter ev = 0) \<and> (\<forall>q. q \<noteq> EVENT_SEM_Q \<longrightarrow> W q = {})"

definition mutex_block :: "tid set \<Rightarrow> event \<Rightarrow> (nat \<Rightarrow> tid set) \<Rightarrow> bool" where
  "mutex_block lv ev W \<longleftrightarrow> EVENT_ulCounter ev = (if EVENT_pvTcbOwn ev = None then 1 else 0) \<and>
     (EVENT_pvTcbOwn ev = None \<longrightarrow> W EVENT_SEM_Q = {} \<and> EVENT_pvPtr ev = 0) \<and>
     (\<forall>t. EVENT_pvTcbOwn ev = Some t \<longrightarrow> t \<in> lv) \<and> (\<forall>q. q \<noteq> EVENT_SEM_Q \<longrightarrow> W q = {})"

definition rw_block :: "event \<Rightarrow> (nat \<Rightarrow> tid set) \<Rightarrow> bool" where
  "rw_block ev W \<longleftrightarrow> EVENT_iStatus ev \<in> {EVENT_RW_STATUS_R, EVENT_RW_STATUS_W} \<and>
     (EVENT_iStatus ev = EVENT_RW_STATUS_W \<longrightarrow> EVENT_ulCounter ev = 1 \<and> EVENT_pvTcbOwn ev \<noteq> None) \<and>
     (EVENT_iStatus ev = EVENT_RW_STATUS_R \<longrightarrow> EVENT_pvTcbOwn ev = None \<and> EVENT_pvPtr ev = 0) \<and>
     (EVENT_ulCounter ev = 0 \<longrightarrow> W EVENT_RW_Q_R = {} \<and> W EVENT_RW_Q_W = {}) \<and>
     (\<forall>q. q \<noteq> EVENT_RW_Q_R \<and> q \<noteq> EVENT_RW_Q_W \<longrightarrow> W q = {})"

definition block_ok :: "tid set \<Rightarrow> event \<Rightarrow> (nat \<Rightarrow> tid set) \<Rightarrow> bool" where
  "block_ok lv ev W \<longleftrightarrow> EVENT_ulOption ev AND LW_OPTION_DELETE_SAFE = 0 \<and>
    (EVENT_ucType ev = LW_TYPE_EVENT_SEMC \<longrightarrow> semc_block ev W) \<and>
    (EVENT_ucType ev = LW_TYPE_EVENT_SEMB \<longrightarrow> semb_block ev W) \<and>
    (EVENT_ucType ev = LW_TYPE_EVENT_MUTEX \<longrightarrow> mutex_block lv ev W) \<and>
    (EVENT_ucType ev = LW_TYPE_EVENT_SEMRW \<longrightarrow> rw_block ev W)"

lemmas block_defs = semc_block_def semb_block_def mutex_block_def rw_block_def

definition live :: "kernel \<Rightarrow> tid set" where
  "live s = {t. k_ncpus s \<le> t \<and> k_tcbIdTable s t}"

definition api_inv :: "kernel \<Rightarrow> bool" where
  "api_inv s \<longleftrightarrow> kinv s \<and> pool_inv s \<and> \<not> k_halt s \<and> (\<forall>e. block_ok (live s) (k_event s e) (waiters s e))"

lemma api_invD:
  assumes "api_inv s"
  shows "kinv s" "pool_inv s" "\<not> k_halt s" "block_ok (live s) (k_event s e) (waiters s e)"
  using assms by (auto simp: api_inv_def)

lemma block_ok_mono:
  assumes "block_ok lv ev W" "\<And>q. W' q \<subseteq> W q" "lv \<subseteq> lv'" "ev_core ev' = ev_core ev"
  shows "block_ok lv' ev' W'"
proof -
  note c = ev_core_eqD[OF assms(4)]
  have w: "W q = {} \<Longrightarrow> W' q = {}" for q using assms(2)[of q] by blast
  have "semc_block ev W \<longrightarrow> semc_block ev' W'" using w by (auto simp: semc_block_def c)
  moreover have "semb_block ev W \<longrightarrow> semb_block ev' W'" using w by (auto simp: semb_block_def c)
  moreover have "mutex_block lv ev W \<longrightarrow> mutex_block lv' ev' W'" using w assms(3) by (auto simp: mutex_block_def c)
  moreover have "rw_block ev W \<longrightarrow> rw_block ev' W'" using w by (auto simp: rw_block_def c)
  ultimately show ?thesis using assms(1) by (simp add: block_ok_def c)
qed

lemma block_ok_unused: "EVENT_ucType ev = LW_TYPE_EVENT_UNUSED \<Longrightarrow>
    block_ok lv ev W \<longleftrightarrow> EVENT_ulOption ev AND LW_OPTION_DELETE_SAFE = 0"
  by (simp add: block_ok_def)

section \<open>What keeps it\<close>

lemma waiters_fun [simp]:
  "waiters (KERNEL_ENTER s) e = waiters s e" "waiters (KERNEL_EXIT s) e = waiters s e"
  "waiters (event_upd e' f s) e = waiters s e"
  by (simp_all add: fun_eq_iff)

text \<open>Steps that leave the blocks alone and only shrink sets of waiters.\<close>

lemma api_inv_shrink:
  assumes a: "api_inv s" and k: "kinv s'" "k_halt s' = k_halt s"
    and ev: "\<And>e. ev_core (k_event s' e) = ev_core (k_event s e)" and w: "\<And>e q. waiters s' e q \<subseteq> waiters s e q"
    and id: "k_tcbIdTable s' = k_tcbIdTable s" "k_ncpus s' = k_ncpus s" "k_freeEvents s' = k_freeEvents s"
  shows "api_inv s'"
proof -
  note d = api_invD[OF a]
  have "pool_inv s'" using d(2) w ev_core_eqD(1)[OF ev] by (simp add: pool_inv_def id) blast
  moreover have "block_ok (live s') (k_event s' e) (waiters s' e)" for e
    by (rule block_ok_mono[OF d(4)]) (use w ev id in \<open>simp_all add: live_def\<close>)
  ultimately show ?thesis using d(3) k by (simp add: api_inv_def)
qed

lemma api_inv_run:
  assumes "api_inv s" "run_frame s s'" "kinv s'" "k_halt s' = k_halt s" shows "api_inv s'"
  using run_frame_kernelD[OF assms(2)] waits_on_frame(1)[OF assms(2)]
  by (intro api_inv_shrink[OF assms(1,3,4)]) (simp_all add: waiters_def)

lemma api_inv_lock [simp]:
  "api_inv (KERNEL_ENTER s) \<longleftrightarrow> api_inv s" "api_inv s \<Longrightarrow> api_inv (KERNEL_EXIT s)"
proof -
  have "live (KERNEL_ENTER s) = live s" by (simp add: live_def)
  then show "api_inv (KERNEL_ENTER s) \<longleftrightarrow> api_inv s" by (simp add: api_inv_def)
  show "api_inv s \<Longrightarrow> api_inv (KERNEL_EXIT s)"
    by (rule api_inv_run[OF _ run_frame_kernel(2)]) (simp_all add: KERNEL_EXIT_kinv[OF api_invD(1)])
qed

lemma api_inv_error [simp]:
  "api_inv s \<Longrightarrow> api_inv (ErrorHandle_of ctx c s)" "api_inv s \<Longrightarrow> api_inv (ErrorHandle c s)"
proof -
  show e: "api_inv (ErrorHandle_of ctx c s)" if "api_inv s" for ctx
    by (rule api_inv_shrink[OF that]) (simp_all add: kinv_ErrorHandle api_invD[OF that])
  show "api_inv s \<Longrightarrow> api_inv (ErrorHandle c s)" unfolding ErrorHandle_def by (rule e)
qed

lemma api_inv_full [simp]: "api_inv s \<Longrightarrow> api_inv (snd (PostFull ctx s))"
  by (simp add: PostFull_def)

text \<open>An update of one block in use.\<close>

lemma api_inv_event_upd:
  assumes a: "api_inv s" and f: "keeps_queue f (k_event s e)" and nf: "e \<notin> set (k_freeEvents s)"
    and b: "block_ok (live s) (f (k_event s e)) (waiters s e)"
  shows "api_inv (event_upd e f s)"
proof -
  note d = api_invD[OF a]
  have "live (event_upd e f s) = live s" by (simp add: live_def)
  moreover have "block_ok (live s) (k_event (event_upd e f s) e') (waiters s e')" for e'
    using b d(4)[of e'] by (simp add: event_upd_def)
  ultimately show ?thesis using d kinv_event_upd[OF f] pool_inv_event_upd[OF d(2) nf]
    by (simp add: api_inv_def)
qed

lemma used_not_free:
  assumes "api_inv s" "EVENT_ucType (k_event s e) \<noteq> LW_TYPE_EVENT_UNUSED" shows "e \<notin> set (k_freeEvents s)"
  using api_invD(2)[OF assms(1)] assms(2) by (auto simp: pool_inv_def)

lemma api_inv_ReadyOne:
  fixes m :: ULONG and ty :: UINT16
  assumes a: "api_inv s" and ne: "EventWaitNum s q e \<noteq> 0" shows "api_inv (snd (ReadyOne e q m ty s))"
proof -
  note k = ReadyOne_ok[OF api_invD(1)[OF a] ne, where m = m and ty = ty]
  show ?thesis by (rule api_inv_shrink[OF a k(2,3,12) _ k(15-17)]) (simp add: k(11))
qed

lemma api_inv_drained:
  assumes a: "api_inv s" and d: "drained D e q ty s s'" shows "api_inv s'"
  by (rule api_inv_shrink[OF a]) (use d in \<open>auto simp: drained_def\<close>)

lemma api_inv_Pend_by:
  fixes ulTimeout :: ULONG and wt :: UINT16
  assumes a: "api_inv s" and bits: "wt AND LW_THREAD_STATUS_PEND_ANY \<noteq> 0" "wt AND LW_THREAD_STATUS_DELAY = 0"
    and t: "runs s t" and us: "EVENT_ucType (k_event s e) \<noteq> LW_TYPE_EVENT_UNUSED"
    and b: "block_ok (live s) (k_event s e) ((waiters s e)(q := insert t (waiters s e q)))"
  shows "api_inv (PendBlock e q wt ulTimeout s)" (is "api_inv ?s'")
proof -
  note d = api_invD[OF a]
  note p = PendBlock_ok[OF d(1) t bits, where e = e and q = q and ulTimeout = ulTimeout]
  have nf: "e \<notin> set (k_freeEvents s)" by (rule used_not_free[OF a us])
  have w: "waiters ?s' e' = (if e' = e then (waiters s e)(q := insert t (waiters s e q)) else waiters s e')" for e'
    using p(18) by (auto simp: fun_eq_iff)
  have "pool_inv ?s'" using d(2) nf ev_core_eqD(1)[OF p(11)] by (auto simp: pool_inv_def p(17) w)
  moreover have "live ?s' = live s" by (simp add: live_def p(13,14))
  moreover have "block_ok (live s) (k_event ?s' e') (waiters ?s' e')" for e'
    by (rule block_ok_mono[where ev = "k_event s e'" and lv = "live s"
          and W = "if e' = e then (waiters s e)(q := insert t (waiters s e q)) else waiters s e'"])
       (use b d(4) w p(11) in simp_all)
  ultimately show ?thesis using p(1,2) d(3) by (simp add: api_inv_def)
qed

lemmas api_inv_Pend = api_inv_Pend_by[OF _ sem_bits]

lemma api_inv_prio:
  assumes a: "api_inv s" and t: "t \<in> live s" shows "api_inv (SchedSetPrio t p s)"
proof -
  note d = api_invD[OF a]
  note k = SchedSetPrio_kinv[OF d(1), of t p] 
  show ?thesis by (rule api_inv_shrink[OF a]) (use t k in \<open>simp_all add: live_def SchedSetPrio_reads SchedSetPrio_tcb\<close>)
qed

lemma api_inv_upd:
  assumes a: "api_inv s" and f: "keeps_queue f (k_event s e)"
    and ty: "EVENT_ucType (f (k_event s e)) = EVENT_ucType (k_event s e)" "EVENT_ucType (k_event s e) \<noteq> LW_TYPE_EVENT_UNUSED"
    and b: "EVENT_ucType (k_event s e) = LW_TYPE_EVENT_SEMC \<Longrightarrow> semc_block (f (k_event s e)) (waiters s e)"
      "EVENT_ucType (k_event s e) = LW_TYPE_EVENT_SEMB \<Longrightarrow> semb_block (f (k_event s e)) (waiters s e)"
      "EVENT_ucType (k_event s e) = LW_TYPE_EVENT_MUTEX \<Longrightarrow> mutex_block (live s) (f (k_event s e)) (waiters s e)"
      "EVENT_ucType (k_event s e) = LW_TYPE_EVENT_SEMRW \<Longrightarrow> rw_block (f (k_event s e)) (waiters s e)"
  shows "api_inv (event_upd e f s)"
proof (rule api_inv_event_upd[OF a f used_not_free[OF a ty(2)]])
  have "EVENT_ulOption (f (k_event s e)) = EVENT_ulOption (k_event s e)" using f by (simp add: keeps_queue_def)
  then show "block_ok (live s) (f (k_event s e)) (waiters s e)"
    using api_invD(4)[OF a, of e] b ty(1) by (simp add: block_ok_def)
qed

lemma api_block:
  assumes a: "api_inv s"
  shows "EVENT_ucType (k_event s e) = LW_TYPE_EVENT_SEMC \<Longrightarrow> semc_block (k_event s e) (waiters s e)"
      "EVENT_ucType (k_event s e) = LW_TYPE_EVENT_SEMB \<Longrightarrow> semb_block (k_event s e) (waiters s e)"
      "EVENT_ucType (k_event s e) = LW_TYPE_EVENT_MUTEX \<Longrightarrow> mutex_block (live s) (k_event s e) (waiters s e)"
      "EVENT_ucType (k_event s e) = LW_TYPE_EVENT_SEMRW \<Longrightarrow> rw_block (k_event s e) (waiters s e)"
      "EVENT_ulOption (k_event s e) AND LW_OPTION_DELETE_SAFE = 0"
  using api_invD(4)[OF a, of e] by (simp_all add: block_ok_def)

lemma no_waiters: "\<lbrakk>api_inv s; EventWaitNum s q e = 0\<rbrakk> \<Longrightarrow> waiters s e q = {}"
  using EventWaitNum_waiters(1)[OF kinv_wait[OF api_invD(1)]] by blast

section \<open>Opening an event\<close>

lemma api_inv_check:
  "\<lbrakk>api_inv s; EventCheckId c ulId s = Inl (r, s1)\<rbrakk> \<Longrightarrow> api_inv s1"
  by (auto simp: EventCheckId_def split: if_splits)

lemma api_inv_EventOpen:
  "\<lbrakk>api_inv s; EventOpen c ty ulId s = Inl (r, s1)\<rbrakk> \<Longrightarrow> api_inv s1"
  by (auto simp: EventOpen_def Let_def intro: api_inv_check split: sum.splits if_splits)

lemma handle_bound: "handle c ty s ulId e \<Longrightarrow> e < LW_CFG_MAX_EVENTS"
  by (auto simp: handle_def Event_Index_Invalid_def word_less_nat_alt word_le_nat_alt not_le)

text \<open>The routines have this shape.\<close>

lemma api_inv_open_by:
  fixes P :: "'a \<Rightarrow> kernel"
  assumes a: "api_inv s"
    and ok: "\<And>e s1. \<lbrakk>api_inv s1; EVENT_ucType (k_event s1 e) = ty; e < LW_CFG_MAX_EVENTS; s1 = KERNEL_ENTER s;
        unat (ObjectGetIndex ulId) = e\<rbrakk> \<Longrightarrow> api_inv (P (K (e, s1)))"
    and bad: "\<And>r s1. api_inv s1 \<Longrightarrow> api_inv (P (H (r, s1)))"
  shows "api_inv (P (case EventOpen c ty ulId s of Inl x \<Rightarrow> H x | Inr y \<Rightarrow> K y))"
proof (rule EventOpen_cases[of c ty s ulId])
  fix e assume h: "handle c ty s ulId e" and o: "EventOpen c ty ulId s = Inr (e, KERNEL_ENTER s)"
  have "EVENT_ucType (k_event (KERNEL_ENTER s) e) = ty" using h unfolding handle_def KERNEL_ENTER_simps by blast
  moreover have "e < LW_CFG_MAX_EVENTS" using h by (rule handle_bound)
  moreover have "unat (ObjectGetIndex ulId) = e" using h by (simp add: handle_def)
  ultimately show ?thesis using ok[of "KERNEL_ENTER s" e] a by (simp add: o)
next
  fix r s1 assume o: "EventOpen c ty ulId s = Inl (r, s1)"
  show ?thesis using bad[OF api_inv_EventOpen[OF a o]] by (simp add: o)
qed

lemmas api_inv_open = api_inv_open_by[where P = snd]
lemmas api_inv_open2 = api_inv_open_by[where P = "\<lambda>x. snd (snd x)"]

lemma api_inv_check_case:
  assumes a: "api_inv s" and ok: "\<And>e. api_inv (snd (K e))" and bad: "\<And>r s1. api_inv s1 \<Longrightarrow> api_inv (snd (H (r, s1)))"
  shows "api_inv (snd (case EventCheckId c ulId s of Inl x \<Rightarrow> H x | Inr y \<Rightarrow> K y))"
  using ok bad api_inv_check[OF a] by (auto split: sum.splits)

lemma api_inv_loops:
  assumes "api_inv s"
  shows "api_inv (KERNEL_EXIT (FlushLoop (unat (EventWaitNum s q e)) e q ty (KERNEL_ENTER s)))"
  using api_inv_drained[OF assms Flush_drained[OF api_invD(1)[OF assms]]] .

lemma api_inv_tail: "\<lbrakk>api_inv s; api_inv s1\<rbrakk> \<Longrightarrow> api_inv (KERNEL_EXIT s1)"
  by simp

text \<open>A thread that may block, or an interrupt, which may not.\<close>

definition caller :: "kernel \<Rightarrow> bool" where
  "caller s \<longleftrightarrow> LW_CPU_GET_CUR_NESTING s \<noteq> 0 \<or> (\<exists>t. runs s t)"

lemma callerD: "\<lbrakk>caller s; LW_CPU_GET_CUR_NESTING s = 0\<rbrakk> \<Longrightarrow> \<exists>t. runs (KERNEL_ENTER s) t"
  by (auto simp: caller_def)

lemma api_inv_block:
  assumes a: "api_inv s1" and t: "\<exists>t. runs s1 t" and ty: "EVENT_ucType (k_event s1 e) \<noteq> LW_TYPE_EVENT_UNUSED"
    and b: "\<And>t. block_ok (live s1) (k_event s1 e) ((waiters s1 e)(q := insert t (waiters s1 e q)))"
  shows "api_inv (KERNEL_EXIT (PendBlock e q LW_THREAD_STATUS_SEM ulTimeout s1))"
  using t api_inv_Pend[OF a _ ty b] by auto

section \<open>Counting semaphores\<close>

lemma api_semc:
  assumes a: "api_inv s" "EVENT_ucType (k_event s e) = LW_TYPE_EVENT_SEMC"
  shows "\<lbrakk>EventWaitNum s EVENT_SEM_Q e = 0; EVENT_ulCounter (k_event s e) < EVENT_ulMaxCounter (k_event s e)\<rbrakk> \<Longrightarrow>
      api_inv (event_upd e (\<lambda>ev. ev\<lparr>EVENT_ulCounter := EVENT_ulCounter ev + 1\<rparr>) s)"
    "EVENT_ulCounter (k_event s e) \<noteq> 0 \<Longrightarrow> api_inv (event_upd e (\<lambda>ev. ev\<lparr>EVENT_ulCounter := EVENT_ulCounter ev - 1\<rparr>) s)"
    "api_inv (event_upd e (\<lambda>ev. ev\<lparr>EVENT_ulCounter := 0\<rparr>) s)"
    "EVENT_ulCounter (k_event s e) = 0 \<Longrightarrow> block_ok lv (k_event s e) ((waiters s e)(EVENT_SEM_Q := W))"
proof -
  note b = api_block(1)[OF a]
  show "api_inv (event_upd e (\<lambda>ev. ev\<lparr>EVENT_ulCounter := EVENT_ulCounter ev + 1\<rparr>) s)"
    if "EventWaitNum s EVENT_SEM_Q e = 0" "EVENT_ulCounter (k_event s e) < EVENT_ulMaxCounter (k_event s e)"
    by (rule api_inv_upd[OF a(1)]) (use a b that no_waiters[OF a(1)] inc_le in \<open>auto simp: semc_block_def\<close>)
  show "api_inv (event_upd e (\<lambda>ev. ev\<lparr>EVENT_ulCounter := EVENT_ulCounter ev - 1\<rparr>) s)"
    if "EVENT_ulCounter (k_event s e) \<noteq> 0"
  proof (rule api_inv_upd[OF a(1)])
    have "EVENT_ulCounter (k_event s e) - 1 \<le> EVENT_ulCounter (k_event s e)"
      using that by (metis word_le_nat_alt word_pos_Suc_unat le_SucI order_refl)
    then show "semc_block ((k_event s e)\<lparr>EVENT_ulCounter := EVENT_ulCounter (k_event s e) - 1\<rparr>) (waiters s e)"
      using b that by (auto simp: semc_block_def)
  qed (use a in simp_all)
  show "api_inv (event_upd e (\<lambda>ev. ev\<lparr>EVENT_ulCounter := 0\<rparr>) s)"
    by (rule api_inv_upd[OF a(1)]) (use a b in \<open>auto simp: semc_block_def\<close>)
  show "block_ok lv (k_event s e) ((waiters s e)(EVENT_SEM_Q := W))" if "EVENT_ulCounter (k_event s e) = 0"
    using b api_block(5)[OF a(1), of e] a(2) that by (auto simp: block_ok_def semc_block_def)
qed

lemma api_inv_CPost: "api_inv s \<Longrightarrow> api_inv (snd (SemaphoreCPost ulId s))"
  unfolding SemaphoreCPost_def
  by (rule api_inv_open) (auto simp: api_semc api_inv_ReadyOne)

lemma api_inv_CFlush: "api_inv s \<Longrightarrow> api_inv (snd (SemaphoreCFlush ulId p s))"
  unfolding SemaphoreCFlush_def
  by (rule api_inv_open) (auto simp: Let_def dest: api_inv_loops)

lemma api_inv_CClear: "api_inv s \<Longrightarrow> api_inv (snd (SemaphoreCClear ulId s))"
  unfolding SemaphoreCClear_def
  by (rule api_inv_open) (auto simp: api_semc)

lemma api_inv_CRelease_loop:
  "\<lbrakk>api_inv s; EVENT_ucType (k_event s e) = LW_TYPE_EVENT_SEMC\<rbrakk> \<Longrightarrow> api_inv (snd (SemaphoreCRelease_loop n e s))"
proof (induction n arbitrary: s)
  case (Suc n)
  have ty: "EVENT_ucType (k_event (snd (ReadyOne e EVENT_SEM_Q 0 LW_THREAD_STATUS_SEM s)) e) = LW_TYPE_EVENT_SEMC"
    if "EventWaitNum s EVENT_SEM_Q e \<noteq> 0"
    using ev_core_eqD(1)[OF ReadyOne_ok(12)[OF api_invD(1)[OF Suc.prems(1)] that]] Suc.prems(2) by simp
  show ?case using Suc ty by (auto simp: api_semc api_inv_ReadyOne)
qed simp

lemma api_inv_CRelease: "api_inv s \<Longrightarrow> api_inv (snd (SemaphoreCRelease ulId n p s))"
proof -
  assume a: "api_inv s"
  have "api_inv (snd (SemaphoreCRelease ulId n p s))" if "n \<noteq> 0"
    unfolding SemaphoreCRelease_def if_not_P[OF that]
    by (rule api_inv_open[OF a]) (auto simp: Let_def split_beta PostFull_def api_inv_CRelease_loop)
  then show ?thesis using a by (cases "n = 0") (auto simp: SemaphoreCRelease_def)
qed

lemma api_inv_CTryPend: "api_inv s \<Longrightarrow> api_inv (snd (SemaphoreCTryPend ulId s))"
  unfolding SemaphoreCTryPend_def
  by (rule api_inv_open) (auto simp: api_semc)

lemma api_inv_CPend_again:
  assumes a: "api_inv s" and t: "\<exists>t. runs s t" shows "api_inv (snd (SemaphoreCPend_again ulId ulTimeout s))"
  unfolding SemaphoreCPend_again_def
  by (rule api_inv_open[OF a]) (use t in \<open>auto simp: api_semc Let_def intro!: api_inv_block\<close>)

lemma api_inv_CPend: "\<lbrakk>api_inv s; caller s\<rbrakk> \<Longrightarrow> api_inv (snd (SemaphoreCPend ulId ulTimeout s))"
  by (auto simp: SemaphoreCPend_def caller_def intro: api_inv_CPend_again)

section \<open>Resuming, creating and deleting\<close>

text \<open>The thread that was switched in finds out why.\<close>

lemma Schedule_ret_reads:
  "api_inv s \<Longrightarrow> api_inv (snd (Schedule_ret s))" "runs (snd (Schedule_ret s)) t \<longleftrightarrow> runs s t"
proof -
  have st: "k_tcb (snd (Schedule_ret s)) = (k_tcb s)(LW_TCB_GET_CUR s := (k_tcb s (LW_TCB_GET_CUR s))\<lparr>TCB_iSchedRet := 0\<rparr>)"
    by (simp add: Schedule_ret_def Let_def tcb_upd_def)
  have rs: "ready_set (snd (Schedule_ret s)) = ready_set s"
    by (auto simp: ready_set_def LW_THREAD_IS_READY_def Schedule_ret_def Let_def)
  show "runs (snd (Schedule_ret s)) t \<longleftrightarrow> runs s t"
    by (simp add: runs_def rs) (simp add: Schedule_ret_def Let_def)
  assume a: "api_inv s"
  show "api_inv (snd (Schedule_ret s))"
  proof (rule api_inv_shrink[OF a])
    show "kinv (snd (Schedule_ret s))" unfolding Schedule_ret_def Let_def snd_conv
      by (rule kinv_tcb_fields) (simp_all add: tcb_place_def api_invD(1)[OF a])
    show "waiters (snd (Schedule_ret s)) e q \<subseteq> waiters s e q" for e q
      by (auto simp: waiters_def waits_on_def st split: if_splits)
  qed (simp_all add: Schedule_ret_def Let_def)
qed

lemma api_inv_PendWake:
  assumes a: "api_inv s" shows "api_inv (snd (PendWake ulTimeout ulTimeSave ulEventOption s))"
  using Schedule_ret_reads(1)[OF a] by (simp add: PendWake_def Let_def split_beta)

lemma PendWake_again_runs:
  "\<lbrakk>PendWake ulTimeout ulTimeSave ulEventOption s = (WakeAgain v, s1); runs s t\<rbrakk> \<Longrightarrow> runs s1 t"
  using Schedule_ret_reads(2)[of s t] by (auto simp: PendWake_def Let_def split_beta split: if_splits)

lemma api_inv_CPend_wake:
  assumes a: "api_inv s" and t: "runs s t"
  shows "api_inv (snd (SemaphoreCPend_wake ulId ulTimeout ulTimeSave ulEventOption s))"
  using api_inv_PendWake[OF a, of ulTimeout ulTimeSave ulEventOption] PendWake_again_runs[OF _ t, of ulTimeout ulTimeSave ulEventOption]
  by (auto simp: SemaphoreCPend_wake_def split: wake_out.split prod.split intro!: api_inv_CPend_again)

text \<open>A block taken from the pool is initialised.\<close>

lemma EventAlloc_reads:
  assumes "EventAlloc s = (r, s1)" shows "k_tcbIdTable s1 = k_tcbIdTable s" "k_ncpus s1 = k_ncpus s"
  using assms by (auto simp: EventAlloc_def Allocate_Event_Object_def Let_def split: list.splits prod.splits)

lemma api_inv_alloc:
  assumes a: "api_inv s" and al: "EventAlloc s = (r, s1)" shows "api_inv s1"
proof -
  note d = api_invD[OF a]
  note o = EventAlloc_ok[OF d(1,2) al]
  have w: "waiters s1 e = waiters s e" for e using o(5) by (simp add: fun_eq_iff)
  have "live s1 = live s" using EventAlloc_reads[OF al] by (simp add: live_def)
  then show ?thesis using d o(1-4) w by (simp add: api_inv_def)
qed

lemma api_inv_create:
  assumes a: "api_inv s" and al: "EventAlloc s = (Some e, s1)"
    and f: "\<And>ev. EVENT_wqWaitQ (f ev) = (EVENT_wqWaitQ ev)(0 := WQ_INIT, 1 := WQ_INIT)"
    and b: "\<And>ev lv. block_ok lv (f ev) (\<lambda>_. {})"
  shows "api_inv (event_upd e f s1)"
proof -
  have a1: "api_inv s1" by (rule api_inv_alloc[OF a al])
  note d = api_invD[OF a1]
  note o = EventAlloc_ok(7)[OF api_invD(1,2)[OF a] al refl]
  have w: "waiters s1 e = (\<lambda>_. {})" using o by (simp add: fun_eq_iff)
  have "live (event_upd e f s1) = live s1" by (simp add: live_def)
  moreover have "block_ok (live s1) (k_event (event_upd e f s1) e') (waiters s1 e')" for e'
    using b d(4)[of e'] w by (simp add: event_upd_def)
  moreover have "kinv (event_upd e f s1)" by (rule kinv_event_init(1)[OF d(1)]) (use o f in auto)
  ultimately show ?thesis using d pool_inv_event_upd[OF d(2)] o by (simp add: api_inv_def)
qed

text \<open>A block is retired before its waiters are removed.\<close>

lemma api_inv_retire:
  assumes a: "api_inv s" and ty: "EVENT_ucType (k_event s e) \<noteq> LW_TYPE_EVENT_UNUSED"
  shows "api_inv (event_upd e (\<lambda>ev. ev\<lparr>EVENT_ucType := LW_TYPE_EVENT_UNUSED\<rparr>) s)"
  by (rule api_inv_event_upd[OF a _ used_not_free[OF a ty]])
     (use api_block(5)[OF a, of e] in \<open>simp_all add: block_ok_unused\<close>)

lemma api_inv_disown:
  assumes a: "api_inv s" and ty: "EVENT_ucType (k_event s e) = LW_TYPE_EVENT_UNUSED" and nf: "e \<notin> set (k_freeEvents s)"
  shows "api_inv (event_upd e (\<lambda>ev. ev\<lparr>EVENT_pvTcbOwn := None\<rparr>) s)"
  by (rule api_inv_event_upd[OF a _ nf]) (use api_block(5)[OF a, of e] ty in \<open>simp_all add: block_ok_unused\<close>)

lemma api_inv_free:
  assumes a: "api_inv s" and ty: "EVENT_ucType (k_event s e) = LW_TYPE_EVENT_UNUSED" and nf: "e \<notin> set (k_freeEvents s)"
    and w: "\<forall>q. waiters s e q = {}" and e: "e < LW_CFG_MAX_EVENTS"
  shows "api_inv (KERNEL_EXIT (Free_Event_Object e s))"
proof -
  note d = api_invD[OF a]
  have r: "k_tcb (Free_Event_Object e s) = k_tcb s" "k_event (Free_Event_Object e s) = k_event s"
    "k_tcbIdTable (Free_Event_Object e s) = k_tcbIdTable s" "k_ncpus (Free_Event_Object e s) = k_ncpus s"
    "k_halt (Free_Event_Object e s) = k_halt s" "k_freeEvents (Free_Event_Object e s) = k_freeEvents s @ [e]"
    by (simp_all add: Free_Event_Object_def)
  have ws: "waiters (Free_Event_Object e s) e' = waiters s e'" for e' by (simp add: fun_eq_iff waiters_def waits_on_def r)
  have "kinv (Free_Event_Object e s)" using d(1) by (simp add: Free_Event_Object_def)
  moreover have "pool_inv (Free_Event_Object e s)" using d(2) nf ty w e by (auto simp: pool_inv_def r ws)
  ultimately have "api_inv (Free_Event_Object e s)" using d by (simp add: api_inv_def live_def r ws)
  then show ?thesis by simp
qed

text \<open>The deletion loop of one queue.\<close>

lemma api_inv_drain_by:
  fixes q :: nat and wt :: UINT16
  assumes a: "api_inv s" and ty: "EVENT_ucType (k_event s e) = LW_TYPE_EVENT_UNUSED" and nf: "e \<notin> set (k_freeEvents s)"
  defines "s' \<equiv> DeleteLoop (unat (EventWaitNum s q e)) e q wt s"
  shows "api_inv s'" "EVENT_ucType (k_event s' e) = LW_TYPE_EVENT_UNUSED" "e \<notin> set (k_freeEvents s')"
    "waiters s' e q' = (if q' = q then {} else waiters s e q')" "ev_core (k_event s' e) = ev_core (k_event s e)"
    "live s' = live s"
proof -
  note dr = Delete_drained[OF api_invD(1)[OF a], where e = e and q = q and ty = wt, folded s'_def]
  note d = dr[unfolded drained_def]
  show "api_inv s'" by (rule api_inv_drained[OF a dr])
  show "EVENT_ucType (k_event s' e) = LW_TYPE_EVENT_UNUSED" "e \<notin> set (k_freeEvents s')" "live s' = live s"
    "ev_core (k_event s' e) = ev_core (k_event s e)"
    using d drained_ucType[OF dr, of e] ty nf by (simp_all add: live_def)
  have "waiters s' e q' = waiters s e q' - waiters s e q" using d by blast
  then show "waiters s' e q' = (if q' = q then {} else waiters s e q')"
    by (auto simp: waiters_def waits_on_def)
qed

lemmas api_inv_drain = api_inv_drain_by[where wt = LW_THREAD_STATUS_SEM]

lemma api_inv_delete1:
  assumes a: "api_inv s" and ty: "EVENT_ucType (k_event s e) = LW_TYPE_EVENT_SEMC \<or> EVENT_ucType (k_event s e) = LW_TYPE_EVENT_SEMB"
    and e: "e < LW_CFG_MAX_EVENTS"
  defines "s2 \<equiv> event_upd e (\<lambda>ev. ev\<lparr>EVENT_ucType := LW_TYPE_EVENT_UNUSED\<rparr>) s"
  shows "api_inv (KERNEL_EXIT (Free_Event_Object e (event_upd e (\<lambda>ev. ev\<lparr>EVENT_pvTcbOwn := None\<rparr>)
    (DeleteLoop (unat (EventWaitNum s2 EVENT_SEM_Q e)) e EVENT_SEM_Q LW_THREAD_STATUS_SEM s2))))"
proof -
  have ne: "EVENT_ucType (k_event s e) \<noteq> LW_TYPE_EVENT_UNUSED" using ty by auto
  have a2: "api_inv s2" unfolding s2_def by (rule api_inv_retire[OF a ne])
  have w: "waiters s2 e q = {}" if "q \<noteq> EVENT_SEM_Q" for q
    using ty api_block(1,2)[OF a, of e] that by (auto simp: s2_def semc_block_def semb_block_def)
  have u: "EVENT_ucType (k_event s2 e) = LW_TYPE_EVENT_UNUSED" "e \<notin> set (k_freeEvents s2)"
    using used_not_free[OF a ne] by (simp_all add: s2_def)
  note d = api_inv_drain[OF a2 u, of EVENT_SEM_Q]
  show ?thesis by (rule api_inv_free[OF api_inv_disown[OF d(1-3)]]) (use d w e in auto)
qed

definition safe_option :: "ULONG \<Rightarrow> bool" where
  "safe_option ulOption \<longleftrightarrow> ulOption AND LW_OPTION_DELETE_SAFE = 0"

lemma api_inv_CCreate:
  assumes a: "api_inv s" and o: "safe_option ulOption"
  shows "api_inv (snd (SemaphoreCCreate pcName ulInitCounter ulMaxCounter ulOption s))"
proof -
  obtain r s1 where al: "EventAlloc s = (r, s1)" by fastforce
  have a1: "api_inv s1" by (rule api_inv_alloc[OF a al])
  have "api_inv (event_upd e (\<lambda>ev. ev\<lparr>EVENT_cEventName := event_name pcName,
            EVENT_ucType := LW_TYPE_EVENT_SEMC, EVENT_ulCounter := ulInitCounter,
            EVENT_ulMaxCounter := ulMaxCounter, EVENT_ulOption := ulOption,
            EVENT_pvPtr := 0, EVENT_pvTcbOwn := None,
            EVENT_wqWaitQ := (EVENT_wqWaitQ ev)(0 := WQ_INIT, 1 := WQ_INIT)\<rparr>) s1)"
    if "r = Some e" "ulInitCounter \<le> ulMaxCounter" for e
    by (rule api_inv_create[OF a al[unfolded that(1)]]) (use o that in \<open>simp_all add: block_ok_def semc_block_def safe_option_def\<close>)
  then show ?thesis using a a1 by (auto simp: SemaphoreCCreate_def al split: option.split)
qed

lemma api_inv_CDelete: "api_inv s \<Longrightarrow> api_inv (snd (snd (SemaphoreCDelete ulId s)))"
proof -
  assume a: "api_inv s"
  show ?thesis
  proof (cases "LW_CPU_GET_CUR_NESTING s = 0")
    case True
    show ?thesis unfolding SemaphoreCDelete_def using True
      by (simp only: refl not_True_eq_False if_False)
         (rule api_inv_open2[OF a]; simp add: Let_def api_inv_delete1)
  qed (use a in \<open>simp add: SemaphoreCDelete_def\<close>)
qed

section \<open>Binary semaphores\<close>

lemma api_semb:
  assumes a: "api_inv s" "EVENT_ucType (k_event s e) = LW_TYPE_EVENT_SEMB"
  shows "EventWaitNum s EVENT_SEM_Q e = 0 \<Longrightarrow> api_inv (event_upd e (\<lambda>ev. ev\<lparr>EVENT_ulCounter := c\<rparr>) s)"
    "EventWaitNum s EVENT_SEM_Q e = 0 \<Longrightarrow> api_inv (event_upd e (\<lambda>ev. ev\<lparr>EVENT_ulCounter := c, EVENT_pvPtr := m\<rparr>) s)"
    "api_inv (event_upd e (\<lambda>ev. ev\<lparr>EVENT_ulCounter := 0\<rparr>) s)"
    "EVENT_ulCounter (k_event s e) = 0 \<Longrightarrow> block_ok lv (k_event s e) ((waiters s e)(EVENT_SEM_Q := W))"
proof -
  note b = api_block(2)[OF a]
  show "api_inv (event_upd e (\<lambda>ev. ev\<lparr>EVENT_ulCounter := c\<rparr>) s)" if "EventWaitNum s EVENT_SEM_Q e = 0"
    by (rule api_inv_upd[OF a(1)]) (use a b no_waiters[OF a(1) that] in \<open>simp_all add: semb_block_def\<close>)
  show "api_inv (event_upd e (\<lambda>ev. ev\<lparr>EVENT_ulCounter := c, EVENT_pvPtr := m\<rparr>) s)" if "EventWaitNum s EVENT_SEM_Q e = 0"
    by (rule api_inv_upd[OF a(1)]) (use a b no_waiters[OF a(1) that] in \<open>simp_all add: semb_block_def\<close>)
  show "api_inv (event_upd e (\<lambda>ev. ev\<lparr>EVENT_ulCounter := 0\<rparr>) s)"
    by (rule api_inv_upd[OF a(1)]) (use a b in \<open>simp_all add: semb_block_def\<close>)
  show "block_ok lv (k_event s e) ((waiters s e)(EVENT_SEM_Q := W))" if "EVENT_ulCounter (k_event s e) = 0"
    using b api_block(5)[OF a(1), of e] a(2) that by (simp add: block_ok_def semb_block_def)
qed

lemma api_inv_BPostEx2: "api_inv s \<Longrightarrow> api_inv (snd (SemaphoreBPostEx2 ulId m p s))"
  unfolding SemaphoreBPostEx2_def
  by (rule api_inv_open) (auto simp: api_semb api_inv_ReadyOne Let_def split_beta PostFull_def)

lemma api_inv_BPost2: "api_inv s \<Longrightarrow> api_inv (snd (SemaphoreBPost2 ulId p s))"
  unfolding SemaphoreBPost2_def
  by (rule api_inv_open) (auto simp: api_semb api_inv_ReadyOne Let_def split_beta PostFull_def)

lemma api_inv_BFlush: "api_inv s \<Longrightarrow> api_inv (snd (SemaphoreBFlush ulId p s))"
  unfolding SemaphoreBFlush_def
  by (rule api_inv_open) (auto simp: Let_def dest: api_inv_loops)

lemma api_inv_BClear: "api_inv s \<Longrightarrow> api_inv (snd (SemaphoreBClear ulId s))"
  unfolding SemaphoreBClear_def
  by (rule api_inv_open) (auto simp: api_semb)

lemma api_inv_BRelease_loop:
  "\<lbrakk>api_inv s; EVENT_ucType (k_event s e) = LW_TYPE_EVENT_SEMB\<rbrakk> \<Longrightarrow> api_inv (snd (SemaphoreBRelease_loop n e s))"
proof (induction n arbitrary: s)
  case (Suc n)
  have ty: "EVENT_ucType (k_event (snd (ReadyOne e EVENT_SEM_Q 0 LW_THREAD_STATUS_SEM s)) e) = LW_TYPE_EVENT_SEMB"
    if "EventWaitNum s EVENT_SEM_Q e \<noteq> 0"
    using ev_core_eqD(1)[OF ReadyOne_ok(12)[OF api_invD(1)[OF Suc.prems(1)] that]] Suc.prems(2) by simp
  show ?case using Suc ty by (auto simp: api_semb api_inv_ReadyOne)
qed simp

lemma api_inv_BRelease: "api_inv s \<Longrightarrow> api_inv (snd (SemaphoreBRelease ulId n p s))"
proof -
  assume a: "api_inv s"
  have "api_inv (snd (SemaphoreBRelease ulId n p s))" if "n \<noteq> 0"
    unfolding SemaphoreBRelease_def if_not_P[OF that]
    by (rule api_inv_open[OF a]) (auto simp: Let_def split_beta PostFull_def api_inv_BRelease_loop)
  then show ?thesis using a by (cases "n = 0") (auto simp: SemaphoreBRelease_def)
qed

lemma api_inv_BTryPend: "api_inv s \<Longrightarrow> api_inv (snd (SemaphoreBTryPend ulId s))"
  unfolding SemaphoreBTryPend_def
  by (rule api_inv_open) (auto simp: api_semb)

lemma api_inv_BPendEx_again:
  assumes a: "api_inv s" and t: "\<exists>t. runs s t" shows "api_inv (snd (SemaphoreBPendEx_again ulId ulTimeout p s))"
  unfolding SemaphoreBPendEx_again_def
  by (rule api_inv_open[OF a]) (use t in \<open>auto simp: api_semb Let_def intro!: api_inv_block\<close>)

lemma api_inv_BPendEx: "\<lbrakk>api_inv s; caller s\<rbrakk> \<Longrightarrow> api_inv (snd (SemaphoreBPendEx ulId ulTimeout p s))"
  by (auto simp: SemaphoreBPendEx_def caller_def intro: api_inv_BPendEx_again)

lemma api_inv_BPendEx_wake:
  assumes a: "api_inv s" and t: "runs s t"
  shows "api_inv (snd (SemaphoreBPendEx_wake ulId ulTimeout ulTimeSave ulEventOption p s))"
  using api_inv_PendWake[OF a, of ulTimeout ulTimeSave ulEventOption] PendWake_again_runs[OF _ t, of ulTimeout ulTimeSave ulEventOption]
  by (auto simp: SemaphoreBPendEx_wake_def split: wake_out.split prod.split intro!: api_inv_BPendEx_again)

lemma api_inv_BCreate:
  assumes a: "api_inv s" and o: "safe_option ulOption"
  shows "api_inv (snd (SemaphoreBCreate pcName bInitValue ulOption s))"
proof -
  obtain r s1 where al: "EventAlloc s = (r, s1)" by fastforce
  have a1: "api_inv s1" by (rule api_inv_alloc[OF a al])
  have "api_inv (event_upd e (\<lambda>ev. ev\<lparr>EVENT_cEventName := event_name pcName,
            EVENT_ucType := LW_TYPE_EVENT_SEMB, EVENT_ulCounter := bInitValue,
            EVENT_ulMaxCounter := 1, EVENT_ulOption := ulOption,
            EVENT_pvPtr := 0, EVENT_pvTcbOwn := None,
            EVENT_wqWaitQ := (EVENT_wqWaitQ ev)(0 := WQ_INIT, 1 := WQ_INIT)\<rparr>) s1)"
    if "r = Some e" for e
    by (rule api_inv_create[OF a al[unfolded that(1)]]) (use o that in \<open>simp_all add: block_ok_def semb_block_def safe_option_def\<close>)
  then show ?thesis using a a1 by (auto simp: SemaphoreBCreate_def al split: option.split)
qed

lemma api_inv_BDelete: "api_inv s \<Longrightarrow> api_inv (snd (snd (SemaphoreBDelete ulId s)))"
proof -
  assume a: "api_inv s"
  show ?thesis
  proof (cases "LW_CPU_GET_CUR_NESTING s = 0")
    case True
    show ?thesis unfolding SemaphoreBDelete_def using True
      by (simp only: refl not_True_eq_False if_False)
         (rule api_inv_open2[OF a]; simp add: Let_def api_inv_delete1)
  qed (use a in \<open>simp add: SemaphoreBDelete_def\<close>)
qed

section \<open>Mutexes\<close>

lemma live_run: "\<lbrakk>kinv s; runs s t\<rbrakk> \<Longrightarrow> t \<in> live s"
  using runsD(3,7)[of s t] by (simp add: live_def)

lemma api_mutex:
  assumes a: "api_inv s" "EVENT_ucType (k_event s e) = LW_TYPE_EVENT_MUTEX"
  shows "\<lbrakk>EVENT_ulCounter (k_event s e) \<noteq> 0; t \<in> live s\<rbrakk> \<Longrightarrow> api_inv (event_upd e
      (\<lambda>ev. ev\<lparr>EVENT_ulCounter := 0, EVENT_ulMaxCounter := p, EVENT_pvTcbOwn := Some t\<rparr>) s)"
    "EVENT_pvTcbOwn (k_event s e) \<noteq> None \<Longrightarrow> api_inv (event_upd e (\<lambda>ev. ev\<lparr>EVENT_pvPtr := d ev\<rparr>) s)"
    "\<lbrakk>EventWaitNum s EVENT_SEM_Q e = 0; EVENT_pvPtr (k_event s e) = 0\<rbrakk> \<Longrightarrow> api_inv (event_upd e
      (\<lambda>ev. ev\<lparr>EVENT_ulCounter := 1, EVENT_ulMaxCounter := p, EVENT_pvTcbOwn := None\<rparr>) s)"
    "EVENT_pvTcbOwn (k_event s e) \<noteq> None \<Longrightarrow> block_ok (live s) (k_event s e) ((waiters s e)(EVENT_SEM_Q := W))"
    "EVENT_pvTcbOwn (k_event s e) = Some u \<Longrightarrow> u \<in> live s"
    "EVENT_ulCounter (k_event s e) = 0 \<longleftrightarrow> EVENT_pvTcbOwn (k_event s e) \<noteq> None"
proof -
  note b = api_block(3)[OF a]
  show "api_inv (event_upd e (\<lambda>ev. ev\<lparr>EVENT_ulCounter := 0, EVENT_ulMaxCounter := p, EVENT_pvTcbOwn := Some t\<rparr>) s)"
    if "EVENT_ulCounter (k_event s e) \<noteq> 0" "t \<in> live s"
    by (rule api_inv_upd[OF a(1)]) (use a b that in \<open>auto simp: mutex_block_def split: if_splits\<close>)
  show "api_inv (event_upd e (\<lambda>ev. ev\<lparr>EVENT_pvPtr := d ev\<rparr>) s)" if "EVENT_pvTcbOwn (k_event s e) \<noteq> None"
    by (rule api_inv_upd[OF a(1)]) (use a b that in \<open>auto simp: mutex_block_def\<close>)
  show "api_inv (event_upd e (\<lambda>ev. ev\<lparr>EVENT_ulCounter := 1, EVENT_ulMaxCounter := p, EVENT_pvTcbOwn := None\<rparr>) s)"
    if "EventWaitNum s EVENT_SEM_Q e = 0" "EVENT_pvPtr (k_event s e) = 0"
    by (rule api_inv_upd[OF a(1)]) (use a b that no_waiters[OF a(1) that(1)] in \<open>auto simp: mutex_block_def\<close>)
  show "block_ok (live s) (k_event s e) ((waiters s e)(EVENT_SEM_Q := W))" if "EVENT_pvTcbOwn (k_event s e) \<noteq> None"
    using b api_block(5)[OF a(1), of e] a(2) that by (auto simp: block_ok_def mutex_block_def)
  show "EVENT_pvTcbOwn (k_event s e) = Some u \<Longrightarrow> u \<in> live s"
    "EVENT_ulCounter (k_event s e) = 0 \<longleftrightarrow> EVENT_pvTcbOwn (k_event s e) \<noteq> None"
    using b by (auto simp: mutex_block_def)
qed

lemma api_inv_boost:
  fixes t :: tid
  assumes a: "api_inv s" and o: "EVENT_pvTcbOwn (k_event s e) = Some ow" and l: "ow \<in> live s"
  defines "s' \<equiv> EventPrioTryBoost e t s"
  shows "api_inv s'" "k_event s' = k_event s" "runs s' u \<longleftrightarrow> runs s u" "live s' = live s" "waiters s' e' = waiters s e'"
  using api_inv_prio[OF a l, of "boosted s e t ow"] a
  by (simp_all add: s'_def EventPrioTryBoost_eq[OF o] SchedSetPrio_reads runs_def live_def fun_eq_iff SchedSetPrio_tcb)

lemma api_inv_MPend_again:
  assumes a: "api_inv s" and t: "\<exists>t. runs s t" shows "api_inv (snd (SemaphoreMPend_again ulId ulTimeout s))"
proof -
  show ?thesis unfolding SemaphoreMPend_again_def
  proof (rule api_inv_check_case[OF a], goal_cases)
    case (1 e0)
    show ?case
    proof (cases "k_sysRunning s")
      case True
      show ?thesis
      proof (simp only: True not_True_eq_False if_False, rule api_inv_open[OF a], goal_cases)
        case (1 e s1)
        note a1 = 1(1,2)
        obtain t where r: "runs s1 t" using t 1(4) by auto
        have cur: "LW_TCB_GET_CUR s1 = t" "t \<in> live s1" using r live_run[OF api_invD(1)[OF a1(1)]] by (auto simp: runs_def)
        note m = api_mutex[OF a1]
        have blk: "api_inv (KERNEL_EXIT (PendBlock e EVENT_SEM_Q LW_THREAD_STATUS_SEM ulTimeout (EventPrioTryBoost e t s1)))"
          if z: "EVENT_ulCounter (k_event s1 e) = 0"
        proof -
          obtain ow where o: "EVENT_pvTcbOwn (k_event s1 e) = Some ow" using m(6) z by auto
          note b = api_inv_boost[OF a1(1) o m(5)[OF o]]
          show ?thesis by (rule api_inv_block[OF b(1)]) (use r a1(2) o m(4) b(2-5) in auto)
        qed
        show ?case using a1 cur m blk by (auto simp: Let_def)
      qed simp
    qed (use a in simp)
  qed (use a in simp)
qed

lemma api_inv_MPend: "\<lbrakk>api_inv s; caller s\<rbrakk> \<Longrightarrow> api_inv (snd (SemaphoreMPend ulId ulTimeout s))"
  by (auto simp: SemaphoreMPend_def caller_def intro: api_inv_MPend_again)

text \<open>Without \<open>LW_OPTION_DELETE_SAFE\<close> the code behind \<open>__KERNEL_EXIT\<close> does nothing.\<close>

lemma tails_id:
  assumes "api_inv s" shows "Safe_tail e s = (ERROR_NONE, s)" "Unsafe_tail e s = (ERROR_NONE, s)"
  using api_block(5)[OF assms, of e] by (simp_all add: Safe_tail_def Unsafe_tail_def)

lemma api_inv_MPend_wake:
  assumes a: "api_inv s" and t: "runs s t"
  shows "api_inv (snd (SemaphoreMPend_wake ulId ulTimeout ulTimeSave ulEventOption s))"
  using api_inv_PendWake[OF a, of ulTimeout ulTimeSave ulEventOption] PendWake_again_runs[OF _ t, of ulTimeout ulTimeSave ulEventOption]
  by (auto simp: SemaphoreMPend_wake_def tails_id split: wake_out.split prod.split intro!: api_inv_MPend_again)

lemma api_inv_MCreate:
  assumes a: "api_inv s" and o: "safe_option ulOption"
  shows "api_inv (snd (SemaphoreMCreate pcName ucCeilingPriority ulOption s))"
proof -
  obtain r s1 where al: "EventAlloc s = (r, s1)" by fastforce
  have a1: "api_inv s1" by (rule api_inv_alloc[OF a al])
  have "api_inv (event_upd e (\<lambda>ev. ev\<lparr>EVENT_cEventName := event_name pcName,
            EVENT_ucType := LW_TYPE_EVENT_MUTEX, EVENT_ulCounter := 1,
            EVENT_ulMaxCounter := ucast LW_PRIO_LOWEST, EVENT_ucCeilingPriority := ucCeilingPriority,
            EVENT_ulOption := ulOption, EVENT_pvPtr := 0, EVENT_pvTcbOwn := None,
            EVENT_wqWaitQ := (EVENT_wqWaitQ ev)(0 := WQ_INIT, 1 := WQ_INIT)\<rparr>) s1)"
    if "r = Some e" for e
    by (rule api_inv_create[OF a al[unfolded that(1)]]) (use o that in \<open>simp_all add: block_ok_def mutex_block_def safe_option_def\<close>)
  then show ?thesis using a a1 by (auto simp: SemaphoreMCreate_def al split: option.split)
qed

lemma api_inv_MDelete: "api_inv s \<Longrightarrow> api_inv (snd (snd (SemaphoreMDelete ulId s)))"
proof -
  assume a: "api_inv s"
  show ?thesis
  proof (cases "LW_CPU_GET_CUR_NESTING s = 0")
    case True
    show ?thesis unfolding SemaphoreMDelete_def
    proof (simp only: True refl not_True_eq_False if_False, rule api_inv_open2[OF a], goal_cases)
      case (1 e s1)
      note a1 = 1(1,2)
      have ne: "EVENT_ucType (k_event s1 e) \<noteq> LW_TYPE_EVENT_UNUSED" using a1(2) by simp
      define s2 where "s2 = event_upd e (\<lambda>ev. ev\<lparr>EVENT_ucType := LW_TYPE_EVENT_UNUSED\<rparr>) s1"
      have a2: "api_inv s2" unfolding s2_def by (rule api_inv_retire[OF a1(1) ne])
      have u: "EVENT_ucType (k_event s2 e) = LW_TYPE_EVENT_UNUSED" "e \<notin> set (k_freeEvents s2)"
        using used_not_free[OF a1(1) ne] by (simp_all add: s2_def)
      have w: "waiters s2 e q = {}" if "q \<noteq> EVENT_SEM_Q" for q
        using api_block(3)[OF a1] that by (simp add: s2_def mutex_block_def)
      define s3 where "s3 = DeleteLoop (unat (EventWaitNum s2 EVENT_SEM_Q e)) e EVENT_SEM_Q LW_THREAD_STATUS_SEM s2"
      note d = api_inv_drain[OF a2 u, of EVENT_SEM_Q, folded s3_def]
      have own: "EVENT_pvTcbOwn (k_event s3 e) = EVENT_pvTcbOwn (k_event s1 e)"
        using ev_core_eqD(2)[OF d(5)] by (simp add: s2_def)
      have lv: "live s3 = live s1" using d(6) by (simp add: s2_def live_def)
      define s4 where "s4 = event_upd e (\<lambda>ev. ev\<lparr>EVENT_pvTcbOwn := None\<rparr>) s3"
      have a4: "api_inv s4" unfolding s4_def by (rule api_inv_disown[OF d(1-3)])
      have s4: "EVENT_ucType (k_event s4 e) = LW_TYPE_EVENT_UNUSED" "e \<notin> set (k_freeEvents s4)" "live s4 = live s1"
        "\<forall>q. waiters s4 e q = {}" using d(2-4) w lv by (auto simp: s4_def live_def)
      define s5 where "s5 = (case EVENT_pvTcbOwn (k_event s3 e) of None \<Rightarrow> s4
                 | Some t \<Rightarrow> (let ucPriority = ucast (EVENT_ulMaxCounter (k_event s4 e)) in
                     if ucPriority \<noteq> tcb_prio s4 t then SchedSetPrio t ucPriority s4 else s4))"
      have a5: "api_inv s5" using a4 api_inv_prio[OF a4] api_mutex(5)[OF a1] s4(3) own
        by (auto simp: s5_def Let_def split: option.split)
      have s5: "EVENT_ucType (k_event s5 e) = LW_TYPE_EVENT_UNUSED" "e \<notin> set (k_freeEvents s5)" "\<forall>q. waiters s5 e q = {}"
        using s4 by (auto simp: s5_def Let_def SchedSetPrio_reads SchedSetPrio_tcb split: option.split)
      have fr: "api_inv (KERNEL_EXIT (Free_Event_Object e s5))" by (rule api_inv_free[OF a5 s5 1(3)])
      have opt: "EVENT_ulOption (k_event (Free_Event_Object e s5) e) AND LW_OPTION_DELETE_SAFE = 0"
        using api_block(5)[OF a5, of e] by (simp add: Free_Event_Object_def)
      show ?case
        unfolding prod.case Let_def s2_def[symmetric] s3_def[symmetric] s4_def[symmetric] s5_def[symmetric, unfolded Let_def]
        using fr opt by (simp split: option.split)
    qed simp
  qed (use a in \<open>simp add: SemaphoreMDelete_def\<close>)
qed

text \<open>Handing over to the next waiter.\<close>

lemma api_inv_handoff:
  fixes m :: ULONG and ty :: UINT16 and t :: tid
  assumes a: "api_inv s" and ne: "EventWaitNum s q e \<noteq> 0" and us: "EVENT_ucType (k_event s e) \<noteq> LW_TYPE_EVENT_UNUSED"
    and h: "handing (next_waiter s e q) (snd (ReadyLowLevel e q m s)) s2"
    and ev: "\<And>e'. e' \<noteq> e \<Longrightarrow> ev_core (k_event s2 e') = ev_core (k_event s e')"
  defines "t \<equiv> next_waiter s e q" and "s' \<equiv> EventReadyHighLevel t ty s2"
  assumes b: "block_ok (live s) (k_event s2 e) (\<lambda>q. waiters s e q - {t})"
  shows "api_inv s'"
proof -
  note d = api_invD[OF a]
  note ho = Handoff_ok[OF d(1) ne h, where ty = ty, folded t_def, folded s'_def]
  have nf: "e \<notin> set (k_freeEvents s)" by (rule used_not_free[OF a us])
  have w: "waiters s' e' = (\<lambda>q. waiters s e' q - {t})" for e' using ho(10) by (simp add: fun_eq_iff)
  have "EVENT_ucType (k_event s2 e') = EVENT_ucType (k_event s e')" if "e' \<noteq> e" for e'
    using ev_core_eqD(1)[OF ev[OF that]] .
  then have "EVENT_ucType (k_event s2 e') = EVENT_ucType (k_event s e')" if "e' \<in> set (k_freeEvents s)" for e'
    using that nf by (cases "e' = e") auto
  then have "pool_inv s'" using d(2) by (simp add: pool_inv_def ho(11,18) w)
  moreover have lv: "live s' = live s" by (simp add: live_def ho(16,17))
  moreover have "block_ok (live s) (k_event s' e') (waiters s' e')" for e'
  proof (cases "e' = e")
    case True
    then show ?thesis using b by (simp add: ho(11) w)
  next
    case False
    show ?thesis by (rule block_ok_mono[OF d(4)[of e']]) (use ev[OF False] in \<open>simp_all add: ho(11) w Diff_subset\<close>)
  qed
  ultimately show ?thesis using ho(1,2) d(3) by (simp add: api_inv_def)
qed

lemma api_inv_MPost_hand:
  fixes m :: ULONG
  assumes a: "api_inv s" "EVENT_ucType (k_event s e) = LW_TYPE_EVENT_MUTEX" and own: "EVENT_pvTcbOwn (k_event s e) = Some t"
    and ne: "EventWaitNum s EVENT_SEM_Q e \<noteq> 0"
  defines "lo \<equiv> ReadyLowLevel e EVENT_SEM_Q m s"
  fixes s3 :: kernel
  defines "s3 \<equiv> EventPrioTryResume e t (snd lo)"
  shows "api_inv (EventReadyHighLevel (fst lo) LW_THREAD_STATUS_SEM
     (event_upd e (\<lambda>ev. ev\<lparr>EVENT_ulMaxCounter := ucast (tcb_prio s3 (fst lo)), EVENT_pvTcbOwn := Some (fst lo)\<rparr>) s3))"
proof -
  note d = api_invD[OF a(1)]
  note l = ReadyLowLevel_half[OF d(1) ne, where m = m, folded lo_def]
  note tl = api_mutex(5)[OF a own]
  let ?u = "next_waiter s e EVENT_SEM_Q" and ?f = "\<lambda>ev. ev\<lparr>EVENT_ulMaxCounter := ucast (tcb_prio s3 (fst lo)), EVENT_pvTcbOwn := Some (fst lo)\<rparr>"
  have core: "ev_core (k_event (snd lo) e') = ev_core (k_event s e')" for e' by (simp add: l(7))
  have ev3: "k_event s3 = k_event (snd lo)" by (simp add: s3_def EventPrioTryResume_def Let_def SchedSetPrio_reads)
  have h3: "handing ?u (snd lo) s3"
    using handing_prio[OF l(2)] handing_refl[OF l(2)] tl l(5,6) by (simp add: s3_def EventPrioTryResume_def Let_def live_def)
  have h4: "handing ?u (snd lo) (event_upd e ?f s3)"
    by (rule handing_trans[OF h3 handing_event_upd]) (use h3 in \<open>simp_all add: handing_def\<close>)
  have uw: "?u \<in> waiters s e EVENT_SEM_Q" using next_waiter_ok(2)[OF kinv_wait[OF d(1)] ne] by (simp add: waiters_def)
  have ul: "?u \<in> live s" using waiter_live(1,2)[OF d(1) uw] by (simp add: live_def)
  note c = ev_core_eqD[OF core[of e]]
  have b: "block_ok (live s) (k_event (event_upd e ?f s3) e) (\<lambda>q. waiters s e q - {?u})"
    using api_block(3,5)[OF a(1), of e] a(2) own ul l(1)
    by (auto simp: block_ok_def mutex_block_def ev3 c split: if_splits)
  show ?thesis unfolding l(1)
    by (rule api_inv_handoff[OF a(1) ne _ h4[unfolded l(1), unfolded lo_def] _ b[unfolded l(1)]]) (use a(2) l(1) core ev3 in simp_all)
qed

lemma api_inv_MPost:
  assumes a: "api_inv s" and t: "caller s" shows "api_inv (snd (SemaphoreMPost ulId s))"
proof (cases "LW_CPU_GET_CUR_NESTING s = 0")
  case True
  show ?thesis unfolding SemaphoreMPost_def
  proof (simp only: True refl not_True_eq_False if_False, rule api_inv_check_case[OF a], goal_cases)
    case (1 e0)
    show ?case
    proof (cases "k_sysRunning s")
      case True
      show ?thesis
      proof (simp only: True not_True_eq_False if_False, rule api_inv_open[OF a], goal_cases)
        case (1 e s1)
        note m = api_mutex[OF 1(1,2)]
        show ?case using 1(1) m api_inv_MPost_hand[OF 1(1,2)] by (auto simp: Let_def split_beta PostFull_def)
      qed simp
    qed (use a in simp)
  qed simp
qed (use a in \<open>simp add: SemaphoreMPost_def\<close>)

section \<open>Reader-writer semaphores\<close>

lemma api_rw:
  assumes a: "api_inv s" "EVENT_ucType (k_event s e) = LW_TYPE_EVENT_SEMRW"
  shows "\<lbrakk>EVENT_iStatus (k_event s e) = EVENT_RW_STATUS_R; EVENT_ulCounter (k_event s e) \<noteq> - 1\<rbrakk> \<Longrightarrow>
      api_inv (event_upd e (\<lambda>ev. ev\<lparr>EVENT_ulCounter := EVENT_ulCounter ev + 1\<rparr>) s)"
    "EVENT_ulCounter (k_event s e) = 0 \<Longrightarrow> api_inv (event_upd e (\<lambda>ev. ev\<lparr>EVENT_ulCounter := EVENT_ulCounter ev + 1,
      EVENT_iStatus := EVENT_RW_STATUS_W, EVENT_pvTcbOwn := Some t\<rparr>) s)"
    "EVENT_pvTcbOwn (k_event s e) \<noteq> None \<Longrightarrow> api_inv (event_upd e (\<lambda>ev. ev\<lparr>EVENT_pvPtr := d ev\<rparr>) s)"
    "\<lbrakk>EVENT_iStatus (k_event s e) = EVENT_RW_STATUS_R; 1 < EVENT_ulCounter (k_event s e)\<rbrakk> \<Longrightarrow>
      api_inv (event_upd e (\<lambda>ev. ev\<lparr>EVENT_ulCounter := EVENT_ulCounter ev - 1\<rparr>) s)"
    "\<lbrakk>EVENT_ulCounter (k_event s e) \<noteq> 0; q = EVENT_RW_Q_R \<or> q = EVENT_RW_Q_W\<rbrakk> \<Longrightarrow>
      block_ok lv (k_event s e) ((waiters s e)(q := W))"
proof -
  note b = api_block(4)[OF a]
  show "api_inv (event_upd e (\<lambda>ev. ev\<lparr>EVENT_ulCounter := EVENT_ulCounter ev + 1\<rparr>) s)"
    if "EVENT_iStatus (k_event s e) = EVENT_RW_STATUS_R" "EVENT_ulCounter (k_event s e) \<noteq> - 1"
  proof (rule api_inv_upd[OF a(1)])
    have "EVENT_ulCounter (k_event s e) + 1 \<noteq> 0" using that(2) by (simp add: add_eq_0_iff2)
    then show "rw_block ((k_event s e)\<lparr>EVENT_ulCounter := EVENT_ulCounter (k_event s e) + 1\<rparr>) (waiters s e)"
      using b that by (simp add: rw_block_def)
  qed (use a in simp_all)
  show "api_inv (event_upd e (\<lambda>ev. ev\<lparr>EVENT_ulCounter := EVENT_ulCounter ev + 1,
      EVENT_iStatus := EVENT_RW_STATUS_W, EVENT_pvTcbOwn := Some t\<rparr>) s)" if "EVENT_ulCounter (k_event s e) = 0"
    by (rule api_inv_upd[OF a(1)]) (use a b that in \<open>simp_all add: rw_block_def\<close>)
  show "api_inv (event_upd e (\<lambda>ev. ev\<lparr>EVENT_pvPtr := d ev\<rparr>) s)" if "EVENT_pvTcbOwn (k_event s e) \<noteq> None"
    by (rule api_inv_upd[OF a(1)]) (use a b that in \<open>auto simp: rw_block_def\<close>)
  show "api_inv (event_upd e (\<lambda>ev. ev\<lparr>EVENT_ulCounter := EVENT_ulCounter ev - 1\<rparr>) s)"
    if "EVENT_iStatus (k_event s e) = EVENT_RW_STATUS_R" "1 < EVENT_ulCounter (k_event s e)"
  proof (rule api_inv_upd[OF a(1)])
    have "EVENT_ulCounter (k_event s e) - 1 \<noteq> 0" using that(2) by auto
    then show "rw_block ((k_event s e)\<lparr>EVENT_ulCounter := EVENT_ulCounter (k_event s e) - 1\<rparr>) (waiters s e)"
      using b that by (simp add: rw_block_def)
  qed (use a in simp_all)
  show "block_ok lv (k_event s e) ((waiters s e)(q := W))"
    if "EVENT_ulCounter (k_event s e) \<noteq> 0" "q = EVENT_RW_Q_R \<or> q = EVENT_RW_Q_W"
    using b api_block(5)[OF a(1), of e] a(2) that by (auto simp: block_ok_def rw_block_def)
qed

text \<open>The event named by a handle is not at the limit of its counter.\<close>

definition reader_room :: "ULONG \<Rightarrow> kernel \<Rightarrow> bool" where
  "reader_room ulId s \<longleftrightarrow> EVENT_ulCounter (k_event s (unat (ObjectGetIndex ulId))) \<noteq> - 1"

lemma api_inv_RWPendR_again:
  assumes a: "api_inv s" and t: "\<exists>t. runs s t" and rm: "reader_room ulId s"
  shows "api_inv (snd (SemaphoreRWPendR_again ulId ulTimeout s))"
  unfolding SemaphoreRWPendR_again_def
proof (rule api_inv_check_case[OF a], goal_cases)
  case (1 e0)
  show ?case
  proof (cases "k_sysRunning s")
    case True
    show ?thesis
    proof (simp only: True not_True_eq_False if_False, rule api_inv_open[OF a], goal_cases)
      case (1 e s1)
      note m = api_rw[OF 1(1,2)] and b = api_block(4)[OF 1(1,2)]
      have c: "EVENT_ulCounter (k_event s1 e) \<noteq> 0"
        if "EVENT_iStatus (k_event s1 e) = EVENT_RW_STATUS_R \<longrightarrow> EventWaitNum s1 EVENT_RW_Q_W e \<noteq> 0"
        using b that EventWaitNum_waiters(1)[OF kinv_wait[OF api_invD(1)[OF 1(1)]], of EVENT_RW_Q_W e]
        by (auto simp: rw_block_def)
      have blk: "api_inv (KERNEL_EXIT (PendBlock e EVENT_RW_Q_R LW_THREAD_STATUS_SEM ulTimeout s1))"
        if "EVENT_iStatus (k_event s1 e) = EVENT_RW_STATUS_R \<longrightarrow> EventWaitNum s1 EVENT_RW_Q_W e \<noteq> 0"
        by (rule api_inv_block[OF 1(1)]) (use t c[OF that] m(5) 1(2,4) in auto)
      have rm1: "EVENT_ulCounter (k_event s1 e) \<noteq> - 1" using rm 1(4,5) by (simp add: reader_room_def)
      show ?case using 1(1) m(1) rm1 blk by (auto simp: Let_def)
    qed simp
  qed (use a in simp)
qed simp

lemma api_inv_RWPendR: "\<lbrakk>api_inv s; caller s; reader_room ulId s\<rbrakk> \<Longrightarrow> api_inv (snd (SemaphoreRWPendR ulId ulTimeout s))"
  by (auto simp: SemaphoreRWPendR_def caller_def intro: api_inv_RWPendR_again)

lemma api_inv_RWPendW_again:
  assumes a: "api_inv s" and t: "\<exists>t. runs s t"
  shows "api_inv (snd (SemaphoreRWPendW_again ulId ulTimeout s))"
  unfolding SemaphoreRWPendW_again_def
proof (rule api_inv_check_case[OF a], goal_cases)
  case (1 e0)
  show ?case
  proof (cases "k_sysRunning s")
    case True
    show ?thesis
    proof (simp only: True not_True_eq_False if_False, rule api_inv_open[OF a], goal_cases)
      case (1 e s1)
      note m = api_rw[OF 1(1,2)]
      have blk: "api_inv (KERNEL_EXIT (PendBlock e EVENT_RW_Q_W LW_THREAD_STATUS_SEM ulTimeout s1))"
        if "EVENT_ulCounter (k_event s1 e) \<noteq> 0"
        by (rule api_inv_block[OF 1(1)]) (use t that m(5) 1(2,4) in auto)
      show ?case using 1(1) m(2,3) blk by (auto simp: Let_def)
    qed simp
  qed (use a in simp)
qed simp

lemma api_inv_RWPendW: "\<lbrakk>api_inv s; caller s\<rbrakk> \<Longrightarrow> api_inv (snd (SemaphoreRWPendW ulId ulTimeout s))"
  by (auto simp: SemaphoreRWPendW_def caller_def intro: api_inv_RWPendW_again)

lemma PendWake_event: "PendWake ulTimeout ulTimeSave ulEventOption s = (w, s1) \<Longrightarrow> k_event s1 = k_event s"
  by (auto simp: PendWake_def Schedule_ret_def Let_def split_beta split: if_splits)

lemma api_inv_RWPendR_wake:
  assumes a: "api_inv s" and t: "runs s t" and rm: "reader_room ulId s"
  shows "api_inv (snd (SemaphoreRWPendR_wake ulId ulTimeout ulTimeSave ulEventOption s))"
proof -
  obtain w s1 where w: "PendWake ulTimeout ulTimeSave ulEventOption s = (w, s1)" by fastforce
  have a1: "api_inv s1" using api_inv_PendWake[OF a, of ulTimeout ulTimeSave ulEventOption] by (simp add: w)
  have "reader_room ulId s1" using rm PendWake_event[OF w] by (simp add: reader_room_def)
  then show ?thesis using a1 PendWake_again_runs[of ulTimeout ulTimeSave ulEventOption s _ s1 t] t
    by (auto simp: SemaphoreRWPendR_wake_def RWPend_wake_tail_def w tails_id split: wake_out.split intro!: api_inv_RWPendR_again)
qed

lemma api_inv_RWPendW_wake:
  assumes a: "api_inv s" and t: "runs s t"
  shows "api_inv (snd (SemaphoreRWPendW_wake ulId ulTimeout ulTimeSave ulEventOption s))"
  using api_inv_PendWake[OF a, of ulTimeout ulTimeSave ulEventOption] PendWake_again_runs[OF _ t, of ulTimeout ulTimeSave ulEventOption]
  by (auto simp: SemaphoreRWPendW_wake_def RWPend_wake_tail_def tails_id split: wake_out.split prod.split intro!: api_inv_RWPendW_again)

lemma api_inv_RWCreate:
  assumes a: "api_inv s" and o: "safe_option ulOption"
  shows "api_inv (snd (SemaphoreRWCreate pcName ulOption s))"
proof -
  obtain r s1 where al: "EventAlloc s = (r, s1)" by fastforce
  have a1: "api_inv s1" by (rule api_inv_alloc[OF a al])
  have "api_inv (event_upd e (\<lambda>ev. ev\<lparr>EVENT_cEventName := event_name pcName,
            EVENT_ucType := LW_TYPE_EVENT_SEMRW, EVENT_ulCounter := 0, EVENT_ulMaxCounter := 0,
            EVENT_ulOption := ulOption, EVENT_iStatus := EVENT_RW_STATUS_R,
            EVENT_pvPtr := 0, EVENT_pvTcbOwn := None,
            EVENT_wqWaitQ := (EVENT_wqWaitQ ev)(0 := WQ_INIT, 1 := WQ_INIT)\<rparr>) s1)"
    if "r = Some e" for e
    by (rule api_inv_create[OF a al[unfolded that(1)]]) (use o that in \<open>simp_all add: block_ok_def rw_block_def safe_option_def\<close>)
  then show ?thesis using a a1 by (auto simp: SemaphoreRWCreate_def al split: option.split)
qed

lemma api_inv_RWDelete: "api_inv s \<Longrightarrow> api_inv (snd (snd (SemaphoreRWDelete ulId s)))"
proof -
  assume a: "api_inv s"
  show ?thesis
  proof (cases "LW_CPU_GET_CUR_NESTING s = 0")
    case True
    show ?thesis unfolding SemaphoreRWDelete_def
    proof (simp only: True refl not_True_eq_False if_False, rule api_inv_open2[OF a], goal_cases)
      case (1 e s1)
      have ne: "EVENT_ucType (k_event s1 e) \<noteq> LW_TYPE_EVENT_UNUSED" using 1(2) by simp
      define s2 where "s2 = event_upd e (\<lambda>ev. ev\<lparr>EVENT_ucType := LW_TYPE_EVENT_UNUSED\<rparr>) s1"
      have a2: "api_inv s2" unfolding s2_def by (rule api_inv_retire[OF 1(1) ne])
      have u: "EVENT_ucType (k_event s2 e) = LW_TYPE_EVENT_UNUSED" "e \<notin> set (k_freeEvents s2)"
        using used_not_free[OF 1(1) ne] by (simp_all add: s2_def)
      have w: "waiters s2 e q = {}" if "q \<noteq> EVENT_RW_Q_R \<and> q \<noteq> EVENT_RW_Q_W" for q
        using api_block(4)[OF 1(1,2)] that by (simp add: s2_def rw_block_def)
      define s3 where "s3 = DeleteLoop (unat (EventWaitNum s2 EVENT_RW_Q_R e)) e EVENT_RW_Q_R LW_THREAD_STATUS_SEM s2"
      note d3 = api_inv_drain[OF a2 u, of EVENT_RW_Q_R, folded s3_def]
      define s4 where "s4 = DeleteLoop (unat (EventWaitNum s3 EVENT_RW_Q_W e)) e EVENT_RW_Q_W LW_THREAD_STATUS_SEM s3"
      note d4 = api_inv_drain[OF d3(1-3), of EVENT_RW_Q_W, folded s4_def]
      define s5 where "s5 = event_upd e (\<lambda>ev. ev\<lparr>EVENT_pvTcbOwn := None\<rparr>) s4"
      have a5: "api_inv s5" unfolding s5_def by (rule api_inv_disown[OF d4(1-3)])
      have w5: "\<forall>q. waiters s5 e q = {}" using d3(4) d4(4) w by (simp add: s5_def)
      have fr: "api_inv (KERNEL_EXIT (Free_Event_Object e s5))"
        by (rule api_inv_free[OF a5 _ _ w5 1(3)]) (use d4(2,3) in \<open>simp_all add: s5_def\<close>)
      have opt: "EVENT_ulOption (k_event (Free_Event_Object e s5) e) AND LW_OPTION_DELETE_SAFE = 0"
        using api_block(5)[OF a5, of e] by (simp add: Free_Event_Object_def)
      show ?case
        unfolding prod.case Let_def s2_def[symmetric] s3_def[symmetric] s4_def[symmetric] s5_def[symmetric]
        using fr opt by (simp split: option.split)
    qed simp
  qed (use a in \<open>simp add: SemaphoreRWDelete_def\<close>)
qed

text \<open>The loop that admits the readers, without regard to their order.\<close>

definition readers_in :: "eid \<Rightarrow> kernel \<Rightarrow> kernel \<Rightarrow> bool" where
  "readers_in e s s' \<longleftrightarrow> kinv s' \<and> k_halt s' = k_halt s \<and>
     (\<forall>e' q. waiters s' e' q = waiters s e' q - waiters s e EVENT_RW_Q_R) \<and>
     EVENT_ulCounter (k_event s' e) = EVENT_ulCounter (k_event s e) + of_nat (card (waiters s e EVENT_RW_Q_R)) \<and>
     rw_rest (k_event s' e) = rw_rest (k_event s e) \<and>
     (\<forall>e'. e' \<noteq> e \<longrightarrow> ev_core (k_event s' e') = ev_core (k_event s e')) \<and>
     k_tcbIdTable s' = k_tcbIdTable s \<and> k_ncpus s' = k_ncpus s \<and> k_freeEvents s' = k_freeEvents s"

lemma RWPost_turn_in:
  assumes k: "kinv s" and ne: "EventWaitNum s EVENT_RW_Q_R e \<noteq> 0"
  defines "s' \<equiv> RWPost_turn e s" and "t \<equiv> next_waiter s e EVENT_RW_Q_R"
  shows "kinv s'" "k_halt s' = k_halt s" "waiters s' e' q = waiters s e' q - {t}" "t \<in> waiters s e EVENT_RW_Q_R"
    "EVENT_ulCounter (k_event s' e) = EVENT_ulCounter (k_event s e) + 1" "rw_rest (k_event s' e) = rw_rest (k_event s e)"
    "e' \<noteq> e \<Longrightarrow> ev_core (k_event s' e') = ev_core (k_event s e')"
    "k_tcbIdTable s' = k_tcbIdTable s" "k_ncpus s' = k_ncpus s" "k_freeEvents s' = k_freeEvents s"
proof -
  let ?f = "\<lambda>ev. ev\<lparr>EVENT_ulCounter := EVENT_ulCounter ev + 1\<rparr>"
  define s1 where "s1 = snd (ReadyLowLevel e EVENT_RW_Q_R 0 s)"
  note lo = ReadyLowLevel_half[OF k ne, where m = 0, folded t_def s1_def]
  have s': "s' = EventReadyHighLevel t LW_THREAD_STATUS_SEM (event_upd e ?f s1)"
    using lo(1) by (simp add: s'_def RWPost_turn_def s1_def)
  have h: "handing t s1 (event_upd e ?f s1)" by (rule handing_event_upd[OF lo(2)]) simp
  note ho = Handoff_ok[OF k ne h[unfolded t_def s1_def], where ty = LW_THREAD_STATUS_SEM, folded t_def s1_def, folded s']
  have core: "ev_core (k_event s1 e') = ev_core (k_event s e')" for e' by (simp add: lo(7))
  show "kinv s'" "k_halt s' = k_halt s" "waiters s' e' q = waiters s e' q - {t}"
    "k_tcbIdTable s' = k_tcbIdTable s" "k_ncpus s' = k_ncpus s" "k_freeEvents s' = k_freeEvents s"
    using ho(1,2,10,16-18) by simp_all
  show "t \<in> waiters s e EVENT_RW_Q_R" using next_waiter_ok(2)[OF kinv_wait[OF k] ne] by (simp add: waiters_def t_def)
  show "EVENT_ulCounter (k_event s' e) = EVENT_ulCounter (k_event s e) + 1"
    using ev_core_eqD(3)[OF core] by (simp add: ho(11))
  have "rw_rest (k_event s1 e) = rw_rest (k_event s e)" using core by (simp add: rw_rest_def)
  then show "rw_rest (k_event s' e) = rw_rest (k_event s e)"
    by (simp add: ho(11)) (simp add: rw_rest_def ev_core_def)
  show "e' \<noteq> e \<Longrightarrow> ev_core (k_event s' e') = ev_core (k_event s e')" using core by (simp add: ho(11))
qed

lemma RWPost_readers_in:
  assumes "kinv s" "card (waiters s e EVENT_RW_Q_R) \<le> n" shows "readers_in e s (RWPost_readers n e s)"
  using assms
proof (induction n arbitrary: s)
  case 0
  have "waiters s e EVENT_RW_Q_R = {}" using 0 EventWaitNum_waiters(2)[OF kinv_wait[OF 0(1)]] by simp
  then show ?case using 0 by (simp add: readers_in_def)
next
  case (Suc n)
  note z = EventWaitNum_waiters(1,2)[OF kinv_wait[OF Suc.prems(1)]]
  show ?case
  proof (cases "EventWaitNum s EVENT_RW_Q_R e = 0")
    case True
    then show ?thesis using Suc.prems z by (simp add: readers_in_def)
  next
    case False
    let ?s = "RWPost_turn e s" and ?t = "next_waiter s e EVENT_RW_Q_R"
    note tn = RWPost_turn_in[OF Suc.prems(1) False]
    have cd: "card (waiters s e EVENT_RW_Q_R) = Suc (card (waiters ?s e EVENT_RW_Q_R))"
      using card.remove[OF z(2) tn(4)] by (simp add: tn(3))
    have ih: "readers_in e ?s (RWPost_readers n e ?s)" by (rule Suc.IH[OF tn(1)]) (use Suc.prems(2) cd in simp)
    note a = ih[unfolded readers_in_def]
    let ?r = "RWPost_readers n e ?s"
    have "waiters ?r e' q = waiters s e' q - waiters s e EVENT_RW_Q_R" for e' q
      using a tn(3,4) by auto
    moreover have "EVENT_ulCounter (k_event ?r e) = EVENT_ulCounter (k_event s e) + of_nat (card (waiters s e EVENT_RW_Q_R))"
      using a tn(5) cd by simp
    ultimately have "readers_in e s ?r" using a tn(2,6-10) by (simp add: readers_in_def)
    then show ?thesis using False by (simp only: RWPost_readers_turn if_False)
  qed
qed

lemma api_inv_RWPost_release:
  assumes a: "api_inv s" "EVENT_ucType (k_event s e) = LW_TYPE_EVENT_SEMRW"
    and c1: "EVENT_ulCounter (k_event s e) = 1" and p0: "EVENT_pvPtr (k_event s e) = 0"
    and ign: "ign \<Longrightarrow> EventWaitNum s EVENT_RW_Q_R e \<noteq> 0"
  shows "api_inv (RWPost_release e ign s)"
proof -
  note d = api_invD[OF a(1)] and b = api_block(4)[OF a]
  show ?thesis
  proof (cases "EventWaitNum s EVENT_RW_Q_W e \<noteq> 0 \<and> \<not> ign")
    case True
    define v where "v = fst (ReadyOne e EVENT_RW_Q_W 0 LW_THREAD_STATUS_SEM s)"
    define s1 where "s1 = snd (ReadyOne e EVENT_RW_Q_W 0 LW_THREAD_STATUS_SEM s)"
    have a1: "api_inv s1" unfolding s1_def by (rule api_inv_ReadyOne[OF a(1)]) (use True in simp)
    have "EventWaitNum s EVENT_RW_Q_W e \<noteq> 0" using True by simp
    note c = ev_core_eqD[OF ReadyOne_ok(12)[OF d(1) this, where m = 0 and ty = LW_THREAD_STATUS_SEM and e' = e, folded s1_def]]
    have ty: "EVENT_ucType (k_event s1 e) = LW_TYPE_EVENT_SEMRW" using a(2) c by simp
    have "api_inv (event_upd e (\<lambda>ev. ev\<lparr>EVENT_pvTcbOwn := Some v, EVENT_iStatus := EVENT_RW_STATUS_W\<rparr>) s1)"
      by (rule api_inv_upd[OF a1]) (use ty c c1 api_block(4)[OF a1 ty] in \<open>simp_all add: rw_block_def\<close>)
    then show ?thesis using True by (simp add: RWPost_release_def split_beta v_def s1_def)
  next
    case nw: False
    show ?thesis
    proof (cases "EventWaitNum s EVENT_RW_Q_R e = 0")
      case True
      then have z: "EventWaitNum s EVENT_RW_Q_W e = 0" using ign nw by auto
      have "api_inv (event_upd e (\<lambda>ev. ev\<lparr>EVENT_ulCounter := EVENT_ulCounter ev - 1, EVENT_pvTcbOwn := None, EVENT_iStatus := EVENT_RW_STATUS_R\<rparr>) s)"
        by (rule api_inv_upd[OF a(1)])
           (use a(2) b c1 p0 no_waiters[OF a(1) True] no_waiters[OF a(1) z] in \<open>simp_all add: rw_block_def\<close>)
      then show ?thesis using True z by (simp add: RWPost_release_def)
    next
      case False
      let ?dec = "\<lambda>ev. ev\<lparr>EVENT_ulCounter := EVENT_ulCounter ev - 1\<rparr>" and ?rd = "\<lambda>ev. ev\<lparr>EVENT_pvTcbOwn := None, EVENT_iStatus := EVENT_RW_STATUS_R\<rparr>"
      define s1 where "s1 = event_upd e ?dec s"
      have k1: "kinv s1" using d(1) by (simp add: s1_def kinv_event_upd)
      have w1: "waiters s1 e' = waiters s e'" for e' by (simp add: s1_def)
      have n1: "EventWaitNum s1 EVENT_RW_Q_R e = EventWaitNum s EVENT_RW_Q_R e" by (simp add: s1_def event_upd_reads(5))
      note ws = EventWaitNum_waiters[OF kinv_wait[OF d(1)]]
      let ?R = "waiters s e EVENT_RW_Q_R"
      have cd: "unat (EventWaitNum s EVENT_RW_Q_R e) = card ?R" "card ?R \<le> LW_CFG_MAX_THREADS" "?R \<noteq> {}"
        using ws(1)[of EVENT_RW_Q_R e] ws(3)[of EVENT_RW_Q_R e] ws(4)[of e EVENT_RW_Q_R] False by auto
      define s2 where "s2 = RWPost_readers (unat (EventWaitNum s1 EVENT_RW_Q_R e)) e s1"
      have "readers_in e s1 s2" unfolding s2_def by (rule RWPost_readers_in[OF k1]) (simp add: w1 n1 cd(1))
      note r = this[unfolded readers_in_def w1]
      have rest: "rw_rest (k_event s2 e) = rw_rest (k_event s e)" using r by (simp add: s1_def rw_rest_def ev_core_def)
      have f: "EVENT_ucType (k_event s2 e) = EVENT_ucType (k_event s e)" "EVENT_pvPtr (k_event s2 e) = EVENT_pvPtr (k_event s e)"
        "EVENT_ulOption (k_event s2 e) = EVENT_ulOption (k_event s e)"
        using rest by (cases "k_event s2 e"; cases "k_event s e"; simp add: rw_rest_def ev_core_def)+
      have cnt: "EVENT_ulCounter (k_event s2 e) = of_nat (card ?R)" using r c1 by (simp add: s1_def)
      have cnz: "EVENT_ulCounter (k_event s2 e) \<noteq> 0"
      proof
        assume "EVENT_ulCounter (k_event s2 e) = 0"
        then have "unat (0 :: ULONG) = card ?R" using cnt cd(2) by (intro of_nat_inverse) auto
        then show False using cd(3) ws(2)[of e EVENT_RW_Q_R] by simp
      qed
      have k2: "kinv s2" "k_halt s2 = k_halt s" "k_freeEvents s2 = k_freeEvents s" "live s2 = live s"
        using r by (simp_all add: s1_def live_def)
      have oth: "ev_core (k_event s2 e') = ev_core (k_event s e')" if "e' \<noteq> e" for e' using r that by (simp add: s1_def)
      have ws2: "waiters s2 e' = (\<lambda>q. waiters s e' q - ?R)" for e' using r by (simp add: fun_eq_iff)
      have nf: "e \<notin> set (k_freeEvents s)" by (rule used_not_free[OF a(1)]) (simp add: a(2))
      have "EVENT_ucType (k_event s2 e') = EVENT_ucType (k_event s e')" for e'
        using f(1) ev_core_eqD(1)[OF oth] by (cases "e' = e") auto
      then have "pool_inv s2" using d(2) by (simp add: pool_inv_def k2(3) ws2)
      then have pl: "pool_inv (event_upd e ?rd s2)" by (rule pool_inv_event_upd) (simp add: k2(3) nf)
      have bl: "block_ok (live s) (k_event (event_upd e ?rd s2) e') (waiters s2 e')" for e'
      proof (cases "e' = e")
        case True
        show ?thesis unfolding True ws2 using b api_block(5)[OF a(1), of e] f p0 a(2) cnz
          by (simp add: block_ok_def rw_block_def)
      next
        case False
        show ?thesis by (rule block_ok_mono[OF d(4)[of e']]) (use oth[OF False] False in \<open>simp_all add: ws2 Diff_subset\<close>)
      qed
      have "api_inv (event_upd e ?rd s2)" using k2 d(3) pl bl by (simp add: api_inv_def kinv_event_upd live_def)
      then show ?thesis using nw False by (auto simp: RWPost_release_def Let_def s2_def s1_def)
    qed
  qed
qed

lemma api_inv_RWPost: "api_inv s \<Longrightarrow> api_inv (snd (SemaphoreRWPost ulId s))"
proof (cases "LW_CPU_GET_CUR_NESTING s = 0")
  case True
  assume a: "api_inv s"
  show ?thesis unfolding SemaphoreRWPost_def
  proof (simp only: True refl not_True_eq_False if_False, rule api_inv_check_case[OF a], goal_cases)
    case (1 e0)
    show ?case
    proof (cases "k_sysRunning s")
      case True
      show ?thesis
      proof (simp only: True not_True_eq_False if_False, rule api_inv_open[OF a], goal_cases)
        case (1 e s1)
        note m = api_rw[OF 1(1,2)] and b = api_block(4)[OF 1(1,2)] and R = api_inv_RWPost_release[OF 1(1,2)]
        have one: "EVENT_ulCounter (k_event s1 e) = 1"
          if "EVENT_ulCounter (k_event s1 e) \<noteq> 0" "\<not> 1 < EVENT_ulCounter (k_event s1 e)"
          using that by unat_arith
        show ?case using 1(1) m b R one by (auto simp: Let_def rw_block_def)
      qed simp
    qed (use a in simp)
  qed simp
qed (simp add: SemaphoreRWPost_def)

end
