(* ===== verification/Kernel_Runs.thy ===== *)
theory Kernel_Runs
  imports Api_Inv
begin

text \<open>
  Runs of the kernel: the calls of the semaphore API, the ticks, the scheduling points and
  the interleaving of the CPUs as one step relation.  \<open>kstep\<close> is the union of all of them;
  \<open>kreach\<close> its reflexive and transitive closure.  Every reachable state keeps \<open>api_inv\<close>.
\<close>

section \<open>Calls\<close>

datatype api =
    CCreate "string option" ULONG ULONG ULONG | CDelete ULONG
  | CPend ULONG ULONG | CWake ULONG ULONG ULONG ULONG | CTryPend ULONG
  | CPost ULONG | CRelease ULONG ULONG | CFlush ULONG | CClear ULONG
  | BCreate "string option" ULONG ULONG | BDelete ULONG
  | BPend ULONG ULONG | BPendEx ULONG ULONG | BWake ULONG ULONG ULONG ULONG | BTryPend ULONG
  | BPost ULONG | BPostEx ULONG ULONG | BRelease ULONG ULONG | BFlush ULONG | BClear ULONG
  | MCreate "string option" UINT8 ULONG | MDelete ULONG
  | MPend ULONG ULONG | MWake ULONG ULONG ULONG ULONG | MPost ULONG
  | RwCreate "string option" ULONG | RwDelete ULONG
  | RwPendR ULONG ULONG | RwWakeR ULONG ULONG ULONG ULONG
  | RwPendW ULONG ULONG | RwWakeW ULONG ULONG ULONG ULONG | RwPost ULONG

text \<open>The state after a call; the wake calls are what a blocked thread runs when it is
  switched in again.\<close>

fun exec :: "api \<Rightarrow> kernel \<Rightarrow> kernel" where
  "exec (CCreate nm i m opt) s = snd (SemaphoreCCreate nm i m opt s)"
| "exec (CDelete h) s = snd (snd (SemaphoreCDelete h s))"
| "exec (CPend h d) s = snd (SemaphoreCPend h d s)"
| "exec (CWake h d sv opt) s = snd (SemaphoreCPend_wake h d sv opt s)"
| "exec (CTryPend h) s = snd (SemaphoreCTryPend h s)"
| "exec (CPost h) s = snd (SemaphoreCPost h s)"
| "exec (CRelease h n) s = snd (SemaphoreCRelease h n True s)"
| "exec (CFlush h) s = snd (SemaphoreCFlush h True s)"
| "exec (CClear h) s = snd (SemaphoreCClear h s)"
| "exec (BCreate nm i opt) s = snd (SemaphoreBCreate nm i opt s)"
| "exec (BDelete h) s = snd (snd (SemaphoreBDelete h s))"
| "exec (BPend h d) s = snd (SemaphoreBPend h d s)"
| "exec (BPendEx h d) s = snd (SemaphoreBPendEx h d True s)"
| "exec (BWake h d sv opt) s = snd (SemaphoreBPendEx_wake h d sv opt True s)"
| "exec (BTryPend h) s = snd (SemaphoreBTryPend h s)"
| "exec (BPost h) s = snd (SemaphoreBPost h s)"
| "exec (BPostEx h m) s = snd (SemaphoreBPostEx h m s)"
| "exec (BRelease h n) s = snd (SemaphoreBRelease h n True s)"
| "exec (BFlush h) s = snd (SemaphoreBFlush h True s)"
| "exec (BClear h) s = snd (SemaphoreBClear h s)"
| "exec (MCreate nm c opt) s = snd (SemaphoreMCreate nm c opt s)"
| "exec (MDelete h) s = snd (snd (SemaphoreMDelete h s))"
| "exec (MPend h d) s = snd (SemaphoreMPend h d s)"
| "exec (MWake h d sv opt) s = snd (SemaphoreMPend_wake h d sv opt s)"
| "exec (MPost h) s = snd (SemaphoreMPost h s)"
| "exec (RwCreate nm opt) s = snd (SemaphoreRWCreate nm opt s)"
| "exec (RwDelete h) s = snd (snd (SemaphoreRWDelete h s))"
| "exec (RwPendR h d) s = snd (SemaphoreRWPendR h d s)"
| "exec (RwWakeR h d sv opt) s = snd (SemaphoreRWPendR_wake h d sv opt s)"
| "exec (RwPendW h d) s = snd (SemaphoreRWPendW h d s)"
| "exec (RwWakeW h d sv opt) s = snd (SemaphoreRWPendW_wake h d sv opt s)"
| "exec (RwPost h) s = snd (SemaphoreRWPost h s)"

text \<open>What the runs are restricted to: no \<open>LW_OPTION_DELETE_SAFE\<close>, fewer than \<open>2 ^ 32\<close>
  nested readers, and a blocked call is continued by a thread.\<close>

definition wake_call :: "api \<Rightarrow> bool" where
  "wake_call c \<longleftrightarrow> (case c of CWake _ _ _ _ \<Rightarrow> True | BWake _ _ _ _ \<Rightarrow> True | MWake _ _ _ _ \<Rightarrow> True
     | RwWakeR _ _ _ _ \<Rightarrow> True | RwWakeW _ _ _ _ \<Rightarrow> True | _ \<Rightarrow> False)"

definition legal :: "api \<Rightarrow> kernel \<Rightarrow> bool" where
  "legal c s \<longleftrightarrow> (if wake_call c then \<exists>t. runs s t else caller s) \<and>
     (case c of CCreate _ _ _ opt \<Rightarrow> safe_option opt | BCreate _ _ opt \<Rightarrow> safe_option opt
      | MCreate _ _ opt \<Rightarrow> safe_option opt | RwCreate _ opt \<Rightarrow> safe_option opt
      | RwPendR h _ \<Rightarrow> reader_room h s | RwWakeR h _ _ _ \<Rightarrow> reader_room h s | _ \<Rightarrow> True)"

lemma api_inv_exec:
  assumes a: "api_inv s" and l: "legal c s" shows "api_inv (exec c s)"
proof -
  have b: "api_inv (snd (SemaphoreBPend h d s))" if "caller s" for h d
    using api_inv_BPendEx[OF a that] by (simp add: SemaphoreBPend_Ex)
  have p: "api_inv (snd (SemaphoreBPost h s))" "api_inv (snd (SemaphoreBPostEx h m s))" for h m
    using api_inv_BPost2[OF a] api_inv_BPostEx2[OF a] by (simp_all add: SemaphoreBPost_2)
  show ?thesis
    using l by (cases c) (auto simp: legal_def wake_call_def b p a api_inv_CCreate api_inv_CDelete api_inv_CPend api_inv_CPend_wake
      api_inv_CTryPend api_inv_CPost api_inv_CRelease api_inv_CFlush api_inv_CClear api_inv_BCreate api_inv_BDelete
      api_inv_BPendEx api_inv_BPendEx_wake api_inv_BTryPend api_inv_BRelease api_inv_BFlush api_inv_BClear
      api_inv_MCreate api_inv_MDelete api_inv_MPend api_inv_MPend_wake api_inv_MPost api_inv_RWCreate api_inv_RWDelete
      api_inv_RWPendR api_inv_RWPendR_wake api_inv_RWPendW api_inv_RWPendW_wake api_inv_RWPost)
qed

section \<open>Steps\<close>

inductive kstep :: "kernel \<Rightarrow> kernel \<Rightarrow> bool" where
  Call: "legal c s \<Longrightarrow> kstep s (exec c s)"
| Tick: "kstep s (ThreadTick s)"
| Slice: "kstep s (SchedTick s)"
| Sched: "kstep s (Schedule s)"
| Sched_int: "c < k_ncpus s \<Longrightarrow> kstep s (ScheduleInt c s)"
| Yield: "kstep s (SchedYield t s)"
| Set_prio: "t \<in> live s \<Longrightarrow> kstep s (SchedSetPrio t p s)"
| Switch_cpu: "c < k_ncpus s \<Longrightarrow> kstep s (s\<lparr>k_curcpu := c\<rparr>)"
| Interrupt: "kstep s (cpu_upd c (\<lambda>p. p\<lparr>CPU_ulInterNesting := n\<rparr>) s)"

inductive kreach :: "kernel \<Rightarrow> kernel \<Rightarrow> bool" for s0 where
  Start: "kreach s0 s0"
| Step: "\<lbrakk>kreach s0 s; kstep s s'\<rbrakk> \<Longrightarrow> kreach s0 s'"

inductive_cases kstepE: "kstep s s'"

lemma kreach_trans: "\<lbrakk>kreach s1 s2; kreach s0 s1\<rbrakk> \<Longrightarrow> kreach s0 s2"
  by (induction rule: kreach.induct) (auto intro: kreach.intros)

section \<open>Every step keeps the invariant\<close>

lemma api_inv_ticked:
  assumes a: "api_inv s" and t: "ticked k s s'" and fr: "k_freeEvents s' = k_freeEvents s" shows "api_inv s'"
proof (rule api_inv_shrink[OF a])
  note d = t[unfolded ticked_def]
  show "kinv s'" "k_halt s' = k_halt s" "k_tcbIdTable s' = k_tcbIdTable s" "k_ncpus s' = k_ncpus s"
    "k_freeEvents s' = k_freeEvents s" using d fr by simp_all
  show "ev_core (k_event s' e) = ev_core (k_event s e)" for e using d by blast
  show "waiters s' e q \<subseteq> waiters s e q" for e q
  proof
    fix u assume u: "u \<in> waiters s' e q"
    show "u \<in> waiters s e q"
    proof (cases "u \<in> due_by s k")
      case True
      then have "fired s s' u" using d by blast
      then show ?thesis using u by (simp add: fired_def waiters_def waits_on_def)
    next
      case False
      then have "tcb_core (k_tcb s' u) = tcb_core (k_tcb s u)" using d by blast
      then show ?thesis using u tcb_core_eqD[of "k_tcb s' u" "k_tcb s u"] by (simp add: waiters_def waits_on_def)
    qed
  qed
qed

lemma ThreadTick_node_free [simp]: "k_freeEvents (ThreadTick_node t s) = k_freeEvents s"
proof -
  have "k_freeEvents (ADD_TO_READY_RING v p a) = k_freeEvents a" for v p a
    by (rule sched_frame_kernelD(3)) simp
  then show ?thesis
    by (simp add: ThreadTick_node_def EventUnQueue_def DelTCBFromEventPriority_def DelTCBFromEventFifo_def Let_def)
qed

lemma ThreadTick_pass_free: "k_freeEvents (ThreadTick_pass n k s) = k_freeEvents s"
  by (induction n arbitrary: k s) (auto simp: Let_def split: option.split prod.split)

lemma ThreadTick_free: "k_freeEvents (ThreadTick s) = k_freeEvents s"
  by (simp add: ThreadTick_def Let_def ThreadTick_pass_free del: ThreadTick_pass.simps)

lemma run_frame_slice: "run_frame s (SchedTick s)" "run_frame s (SchedYield t s)"
proof -
  have one: "kernel_base (SchedTick_cpu i s) = kernel_base s" for i s
    by (auto simp: SchedTick_cpu_def Let_def intro!: kernel_base_core kernel_core_tcb_upd simp: tcb_core_def)
  have "kernel_base (fold SchedTick_cpu xs s) = kernel_base s" for xs
    by (induction xs arbitrary: s) (simp_all add: one)
  then show "run_frame s (SchedTick s)" by (simp add: run_frame_def SchedTick_def)
  show "run_frame s (SchedYield t s)"
    by (auto simp: run_frame_def SchedYield_def Let_def intro!: kernel_base_core kernel_core_tcb_upd simp: tcb_core_def)
qed

lemma api_inv_frame:
  assumes a: "api_inv s" and f: "run_frame s s'" and i: "sched_inv (ready_set s) s'" and h: "k_halt s' = k_halt s"
  shows "api_inv s'"
  by (rule api_inv_run[OF a f kinv_frame[OF f api_invD(1)[OF a] i] h])

lemma curcpu_reads [simp]:
  "waits_on (s\<lparr>k_curcpu := c\<rparr>) e q t = waits_on s e q t" "wait_bucket (s\<lparr>k_curcpu := c\<rparr>) t = wait_bucket s t"
  "waiters (s\<lparr>k_curcpu := c\<rparr>) e q = waiters s e q" "ready_set (s\<lparr>k_curcpu := c\<rparr>) = ready_set s"
  "wait_order (s\<lparr>k_curcpu := c\<rparr>) e q = wait_order s e q" "order_ok (s\<lparr>k_curcpu := c\<rparr>) e q = order_ok s e q"
  by (simp_all add: waits_on_def wait_bucket_def waiters_def ready_set_def wait_order_def order_ok_def)

lemma kinv_curcpu:
  assumes "kinv s" "c < k_ncpus s" shows "kinv (s\<lparr>k_curcpu := c\<rparr>)"
proof -
  have m: "rdy_map (s\<lparr>k_curcpu := c\<rparr>) tab = rdy_map s tab" for tab by (cases tab) simp_all
  have "sched_inv R (s\<lparr>k_curcpu := c\<rparr>) \<longleftrightarrow> sched_inv R s" for R
    by (rule sched_inv_place_cong) (simp_all add: m rdy_ring_def rdy_bm_def LW_CAND_TCB_def split: prod.split)
  then show ?thesis using assms by (simp add: kinv_def wait_inv_def wait_invx_def delay_inv_def)
qed

lemma kstep_inv:
  assumes "kstep s s'" "api_inv s" shows "api_inv s'"
  using assms(1)
proof (cases rule: kstep.cases)
  case (Call c)
  then show ?thesis using api_inv_exec[OF assms(2)] by simp
next
  case Tick
  then show ?thesis using api_inv_ticked[OF assms(2) ThreadTick_ok[OF api_invD(1)[OF assms(2)]] ThreadTick_free] by simp
next
  case Slice
  show ?thesis unfolding Slice
    by (rule api_inv_frame[OF assms(2) run_frame_slice(1)]) (simp_all add: kinv_sched[OF api_invD(1)[OF assms(2)]])
next
  case Sched
  note k = api_invD(1)[OF assms(2)]
  show ?thesis unfolding Sched Schedule_def
    by (rule api_inv_frame[OF assms(2) run_frame_kernel(3)])
       (simp_all add: Schedule_on_inv[OF kinv_sched[OF k] kinv_cpu[OF k]])
next
  case (Sched_int c)
  show ?thesis unfolding Sched_int ScheduleInt_def
    by (rule api_inv_frame[OF assms(2) run_frame_kernel(3)])
       (simp_all add: Schedule_on_inv[OF kinv_sched[OF api_invD(1)[OF assms(2)]] Sched_int(2)])
next
  case (Yield t)
  show ?thesis unfolding Yield
    by (rule api_inv_frame[OF assms(2) run_frame_slice(2)])
       (simp_all add: kinv_sched[OF api_invD(1)[OF assms(2)]] SchedYield_def Let_def)
next
  case (Set_prio t p)
  then show ?thesis using api_inv_prio[OF assms(2)] by simp
next
  case (Switch_cpu c)
  show ?thesis unfolding Switch_cpu(1)
    by (rule api_inv_shrink[OF assms(2)]) (simp_all add: kinv_curcpu api_invD(1)[OF assms(2)] Switch_cpu(2))
next
  case (Interrupt c n)
  let ?f = "\<lambda>p. p\<lparr>CPU_ulInterNesting := n\<rparr>"
  show ?thesis unfolding Interrupt
  proof (rule api_inv_shrink[OF assms(2)])
    show "kinv (cpu_upd c ?f s)" using api_invD(1)[OF assms(2)] by (simp add: kinv_cpu_upd)
    show "waiters (cpu_upd c ?f s) e q \<subseteq> waiters s e q" for e q by (simp add: waiters_def waits_on_def)
  qed simp_all
qed

lemma kreach_inv: "\<lbrakk>kreach s0 s; api_inv s0\<rbrakk> \<Longrightarrow> api_inv s"
  by (induction rule: kreach.induct) (auto intro: kstep_inv)

end
