(* ===== verification/Boot.thy ===== *)
theory Boot
  imports Event_Api
begin

text \<open>
  A concrete running system, at which the theorems of the development are applied: two
  active CPUs with their idle threads 0 and 1 in the rings of the CPUs, thread 2
  (priority 100) running on CPU 0, thread 3 (priority 150) running on CPU 1, thread 4
  (priority 200) ready in the global table, and the pool of event blocks as
  \<open>_EventInit\<close> leaves it.  The state satisfies the invariants of the kernel.
\<close>

section \<open>The state\<close>

definition boot_tcb :: "UINT8 \<Rightarrow> bool \<Rightarrow> bool \<Rightarrow> cpuid \<Rightarrow> tcb" where
  "boot_tcb prio cand lock c = \<lparr>TCB_ulLastError = 0, TCB_iSchedRet = 0, TCB_ucPriority = prio,
     TCB_usStatus = LW_THREAD_STATUS_RDY, TCB_ucSchedPolicy = LW_OPTION_SCHED_RR,
     TCB_ucSchedActivate = LW_SCHED_ACT_INTERRUPT, TCB_ucSchedActivateMode = LW_OPTION_RESPOND_AUTO,
     TCB_usSchedSlice = 10, TCB_usSchedCounter = 10, TCB_bIsCand = cand, TCB_ulCPUId = c,
     TCB_bCPULock = lock, TCB_ulCPULock = c, TCB_ulThreadLockCounter = 0,
     TCB_ulThreadSafeCounter = 0, TCB_ulSuspendNesting = 0, TCB_iDeleteProcStatus = 0,
     TCB_ptcbDeleteMe = PTCB_NULL, TCB_ptcbDeleteWait = None,
     TCB_ucWaitTimeout = LW_WAIT_TIME_CLEAR, TCB_ucIsEventDelete = LW_EVENT_EXIST,
     TCB_peventPtr = None, TCB_iPendQ = 0, TCB_ppringPriorityQueue = 0, TCB_pvMsgBoxMessage = 0\<rparr>"

definition boot_cpu :: "tid \<Rightarrow> pcbbmap \<Rightarrow> cpu" where
  "boot_cpu t m = \<lparr>CPU_ptcbTCBCur = Some t, CPU_ptcbTCBHigh = Some t, CPU_bIsIntSwitch = False,
     CAND_ptcbCand = Some t, CAND_bNeedRotate = False, CPU_iKernelCounter = 0,
     CPU_pcbbmapReady = m, CPU_bOnlyAffinity = False, CPU_iIPIPend = 0, CPU_uiLockQuick = 0,
     CPU_ulStatus = LW_CPU_STATUS_ACTIVE, CPU_ulInterNesting = 0, CPU_ulInterError = (\<lambda>_. 0)\<rparr>"

definition boot_map :: "UINT8 \<Rightarrow> tid \<Rightarrow> pcbbmap" where
  "boot_map p t = \<lparr>PCBM_bmap = BitmapAdd BitmapInit p, PCBM_pcb = (\<lambda>_. [])(p := [t])\<rparr>"

definition boot_event :: event where
  "boot_event = \<lparr>EVENT_ucType = LW_TYPE_EVENT_UNUSED, EVENT_pvTcbOwn = None, EVENT_ulCounter = 0,
     EVENT_ulMaxCounter = 0, EVENT_iStatus = 0, EVENT_ulOption = 0, EVENT_ucCeilingPriority = 0,
     EVENT_pvPtr = 0, EVENT_wqWaitQ = (\<lambda>_. WQ_INIT), EVENT_cEventName = []\<rparr>"

definition boot0 :: kernel where
  "boot0 = \<lparr>k_tcb = (\<lambda>t. if t = 2 then boot_tcb 100 True False 0
       else if t = 3 then boot_tcb 150 True False 1
       else if t = 1 then boot_tcb LW_PRIO_LOWEST False True 1
       else if t = 0 then boot_tcb LW_PRIO_LOWEST False True 0
       else boot_tcb 200 False False 0),
     k_event = (\<lambda>_. boot_event),
     k_cpu = (\<lambda>c. if c = 0 then boot_cpu 2 (boot_map LW_PRIO_LOWEST 0)
       else if c = 1 then boot_cpu 3 (boot_map LW_PRIO_LOWEST 1)
       else (boot_cpu 0 \<lparr>PCBM_bmap = BitmapInit, PCBM_pcb = (\<lambda>_. [])\<rparr>)\<lparr>CAND_ptcbCand := None\<rparr>),
     k_global = boot_map 200 4,
     k_delay = \<lparr>WU_line = [], WU_plineOp = None, WUN_ulCounter = (\<lambda>_. 0), WUN_bInQ = (\<lambda>_. False)\<rparr>,
     k_freeEvents = [], k_resUsed = 0, k_resMaxUsed = 0, k_ncpus = 2, k_curcpu = 0,
     k_i64KernelTime = 0, k_ulNotRunError = 0, k_tcbIdTable = (\<lambda>t. t < 5),
     k_deleteCalls = [], k_sysRunning = True, k_halt = False\<rparr>"

definition boot :: kernel where
  "boot = EventInit boot0"

section \<open>Its invariants\<close>

lemma boot_reads [simp]:
  "k_tcb boot = k_tcb boot0" "k_cpu boot = k_cpu boot0" "k_global boot = k_global boot0"
  "k_delay boot = k_delay boot0" "k_ncpus boot = 2" "k_curcpu boot = 0" "k_i64KernelTime boot = 0"
  "k_tcbIdTable boot t \<longleftrightarrow> t < 5" "k_sysRunning boot" "\<not> k_halt boot" "k_freeEvents boot = [0..<LW_CFG_MAX_EVENTS]"
  "k_event boot e = boot_event"
  by (simp_all add: boot_def EventInit_def boot0_def boot_event_def)

lemma boot_ready: "ready_set boot = {0, 1, 2, 3, 4}"
  by (auto simp: ready_set_def LW_THREAD_IS_READY_def boot0_def boot_tcb_def)

lemma rdy_map_boot: "rdy_map boot tab = (case tab of Global \<Rightarrow> boot_map 200 4
    | CpuTab c \<Rightarrow> if c = 0 then boot_map LW_PRIO_LOWEST 0 else if c = 1 then boot_map LW_PRIO_LOWEST 1
        else \<lparr>PCBM_bmap = BitmapInit, PCBM_pcb = (\<lambda>_. [])\<rparr>)"
  by (cases tab) (simp_all add: boot0_def boot_cpu_def)

lemma rdy_ring_boot: "rdy_ring boot pp = (case pp of (Global, p) \<Rightarrow> if p = 200 then [4] else []
    | (CpuTab c, p) \<Rightarrow> if c < 2 \<and> p = LW_PRIO_LOWEST then [c] else [])"
  unfolding rdy_ring_def rdy_map_boot by (auto simp: boot_map_def less_2_cases_iff split: prod.splits rdytab.splits)

lemma rdy_bm_boot: "rdy_bm boot tab = (case tab of Global \<Rightarrow> BitmapAdd BitmapInit 200
    | CpuTab c \<Rightarrow> if c < 2 then BitmapAdd BitmapInit LW_PRIO_LOWEST else BitmapInit)"
  unfolding rdy_bm_def rdy_map_boot by (auto simp: boot_map_def less_2_cases_iff split: rdytab.splits)

lemma sched_inv_boot: "sched_inv {0, 1, 2, 3, 4} boot"
proof -
  have "rings_ok {0, 1, 2, 3, 4} boot"
    unfolding rings_ok_def
  proof (intro allI conjI)
    fix pp :: ppcb and t :: tid
    obtain tab p where pp: "pp = (tab, p)" by (cases pp)
    show "distinct (rdy_ring boot pp)"
      by (cases tab) (simp_all add: pp rdy_ring_boot)
    show "t \<in> set (rdy_ring boot pp) \<longleftrightarrow>
        t \<in> {0, 1, 2, 3, 4} \<and> \<not> TCB_bIsCand (k_tcb boot t) \<and> GetPcb boot t = pp"
      by (cases tab) (auto simp: pp rdy_ring_boot GetPcb_def rdy_tab_def boot0_def boot_tcb_def)
  qed
  moreover have "bms_ok boot"
    unfolding bms_ok_def
  proof (intro allI conjI)
    fix tab :: rdytab and p :: UINT8
    show "bm_wf (rdy_bm boot tab)"
      by (cases tab) (simp_all add: rdy_bm_boot)
    show "bm_mem (rdy_bm boot tab) p \<longleftrightarrow> rdy_ring boot (tab, p) \<noteq> []"
      by (cases tab) (simp_all add: rdy_bm_boot rdy_ring_boot)
  qed
  moreover have "cands_ok {} {0, 1, 2, 3, 4} boot"
    by (auto simp: cands_ok_def LW_CAND_TCB_def boot0_def boot_cpu_def boot_tcb_def split: if_splits)
  moreover have "ids_ok {0, 1, 2, 3, 4} boot"
    by (auto simp: ids_ok_def boot0_def boot_tcb_def less_2_cases_iff)
  ultimately show ?thesis by (simp add: sched_inv_def sched_invx_def)
qed

lemma boot_no_event [simp]: "TCB_peventPtr (k_tcb boot0 t) = None" "tcb_status boot0 t = 0"
  by (simp_all add: boot0_def boot_tcb_def)

lemma kinv_boot [simp]: "kinv boot"
proof -
  have "wait_inv boot"
    by (simp add: wait_inv_def wait_invx_def waits_on_def boot_event_def WQ_INIT_def)
  moreover have "delay_inv boot"
    by (simp add: delay_inv_def wu_ok_def dues_def boot0_def boot_tcb_def)
  ultimately show ?thesis using sched_inv_boot by (simp add: kinv_def boot_ready)
qed

lemma pool_inv_boot [simp]: "pool_inv boot"
  by (simp add: pool_inv_def waiters_def waits_on_def boot_event_def)

lemma runs_boot [simp]: "runs boot 2"
  by (simp add: runs_def boot_ready LW_TCB_GET_CUR_def) (simp add: boot0_def boot_cpu_def)

lemma nesting_boot [simp]: "LW_CPU_GET_CUR_NESTING boot = 0"
  by (simp add: LW_CPU_GET_CUR_NESTING_def boot0_def boot_cpu_def)

section \<open>With one event block in use\<close>

text \<open>\<open>boot1 f\<close>: block 0 has left the pool and was initialised by \<open>f\<close>.\<close>

definition boot1 :: "(event \<Rightarrow> event) \<Rightarrow> kernel" where
  "boot1 f = event_upd 0 f (boot\<lparr>k_freeEvents := [1..<LW_CFG_MAX_EVENTS], k_resUsed := 1\<rparr>)"

definition boot_id :: "UINT8 \<Rightarrow> ULONG" where
  "boot_id c = MakeObjectId c LW_CFG_PROCESSOR_NUMBER 0"

lemma boot1_reads [simp]:
  "k_tcb (boot1 f) = k_tcb boot0" "k_cpu (boot1 f) = k_cpu boot0" "k_ncpus (boot1 f) = 2"
  "k_curcpu (boot1 f) = 0" "k_tcbIdTable (boot1 f) t \<longleftrightarrow> t < 5" "k_sysRunning (boot1 f)" "\<not> k_halt (boot1 f)"
  "k_freeEvents (boot1 f) = [1..<LW_CFG_MAX_EVENTS]" "k_event (boot1 f) e = (if e = 0 then f boot_event else boot_event)"
  "waiters (boot1 f) e q = {}" "ready_set (boot1 f) = {0, 1, 2, 3, 4}" "runs (boot1 f) 2" "LW_CPU_GET_CUR_NESTING (boot1 f) = 0"
  "LW_TCB_GET_CUR (boot1 f) = 2"
proof -
  have t: "k_tcb (boot1 f) = k_tcb boot" "k_tcbIdTable (boot1 f) = k_tcbIdTable boot" by (simp_all add: boot1_def)
  show r: "ready_set (boot1 f) = {0, 1, 2, 3, 4}" unfolding boot_ready[symmetric] by (simp add: ready_set_def t)
  show c: "LW_TCB_GET_CUR (boot1 f) = 2" using runs_boot by (simp add: runs_def LW_TCB_GET_CUR_def boot1_def)
  show "runs (boot1 f) 2" unfolding runs_def c r by (simp add: boot1_def)
  show "waiters (boot1 f) e q = {}" by (simp add: waiters_def waits_on_def t)
  show "LW_CPU_GET_CUR_NESTING (boot1 f) = 0" using nesting_boot by (simp add: LW_CPU_GET_CUR_NESTING_def boot1_def)
qed (simp_all add: boot1_def boot0_def event_upd_def)

lemma kinv_boot1:
  assumes "EVENT_wqWaitQ (f boot_event) = EVENT_wqWaitQ boot_event" shows "kinv (boot1 f)"
proof -
  have k: "kinv (boot\<lparr>k_freeEvents := [1..<LW_CFG_MAX_EVENTS], k_resUsed := 1\<rparr>)" (is "kinv ?s") by simp
  have "\<forall>q. waiters ?s 0 q = {}" by (simp add: waiters_def waits_on_def)
  from kinv_event_init(1)[OF k this, of f] show ?thesis unfolding boot1_def
    using assms by (simp add: boot_event_def fun_eq_iff)
qed

lemma order_boot1:
  assumes "EVENT_wqWaitQ (f boot_event) = EVENT_wqWaitQ boot_event"
  shows "order_ok (boot1 f) e q" "wait_order (boot1 f) e q = []"
  using assms by (simp_all add: order_ok_def wait_order_def prio_ok_def prio_members_def fifo_members_def
      boot_event_def WQ_INIT_def)

lemma queue_ok_boot1: "EVENT_wqWaitQ (f boot_event) = EVENT_wqWaitQ boot_event \<Longrightarrow> queue_ok (boot1 f) e"
  by (simp add: queue_ok_def kinv_boot1 order_boot1)

lemma pool_inv_boot1: "pool_inv (boot1 f)"
  by (simp add: pool_inv_def) (simp add: boot_event_def)

lemma handle_boot1:
  assumes "EVENT_ucType (f boot_event) = ty" "c < 64" shows "handle c ty (boot1 f) (boot_id c) 0"
  using handle_Make[of 0 "boot1 f" ty c] assms by (simp add: boot_id_def)

end
