(* ===== verification/Kernel_Safety.thy ===== *)
theory Kernel_Safety
  imports Kernel_Runs Boot
begin

text \<open>
  What holds in every state that the kernel can reach from a state that satisfies the
  invariant, by any interleaving of API calls, ticks, scheduling points, interrupts and
  CPUs.  The instances start from \<open>boot\<close>.
\<close>

section \<open>Runs from the concrete state\<close>

lemma api_inv_boot [simp]: "api_inv boot"
proof -
  have "waiters boot e q = {}" for e q by (simp add: waiters_def waits_on_def)
  then show ?thesis by (simp add: api_inv_def block_ok_def) (simp add: boot_event_def)
qed

lemma api_inv_boot1:
  assumes "EVENT_wqWaitQ (f boot_event) = EVENT_wqWaitQ boot_event" "block_ok {2, 3, 4} (f boot_event) (\<lambda>_. {})" shows "api_inv (boot1 f)"
proof -
  have l: "live (boot1 f) = {2, 3, 4}" by (auto simp: live_def)
  have w: "waiters (boot1 f) e = (\<lambda>_. {})" for e by (simp add: fun_eq_iff)
  have "block_ok {2, 3, 4} boot_event (\<lambda>_. {})" by (simp add: block_ok_def) (simp add: boot_event_def)
  then show ?thesis using assms kinv_boot1 pool_inv_boot1 by (simp add: api_inv_def l w)
qed

lemma legal_boot: "\<lbrakk>\<not> wake_call c; case c of CCreate _ _ _ opt \<Rightarrow> safe_option opt | BCreate _ _ opt \<Rightarrow> safe_option opt
      | MCreate _ _ opt \<Rightarrow> safe_option opt | RwCreate _ opt \<Rightarrow> safe_option opt
      | RwPendR h _ \<Rightarrow> reader_room h boot | RwWakeR h _ _ _ \<Rightarrow> reader_room h boot | _ \<Rightarrow> True\<rbrakk> \<Longrightarrow> legal c boot"
  by (auto simp: legal_def caller_def intro: runs_boot)

lemma kreach_call: "legal c s \<Longrightarrow> kreach s (exec c s)"
  by (blast intro: kreach.intros kstep.intros)

lemma boot_free: "k_freeEvents boot = 0 # [1..<LW_CFG_MAX_EVENTS]"
  by (simp add: upt_rec[of 0])

lemma count_list_distinct: "distinct xs \<Longrightarrow> count_list xs t = (if t \<in> set xs then 1 else 0)"
  by (induction xs) auto

lemma kreach_tick: "kreach s (ThreadTick s)"
  by (blast intro: kreach.intros kstep.intros)

lemma tick_boot_core: "tcb_core (k_tcb (ThreadTick boot) t) = tcb_core (k_tcb boot t)"
proof -
  have "dues (k_delay boot) = []" by (simp add: dues_def boot0_def)
  then have "due_by boot 1 = {}" by (simp add: due_by_def)
  then show ?thesis using ThreadTick_ok[OF kinv_boot] by (simp add: ticked_def)
qed

lemma ready_tick_boot: "ready_set (ThreadTick boot) = {0, 1, 2, 3, 4}"
proof -
  have "k_tcbIdTable (ThreadTick boot) = k_tcbIdTable boot"
    using ThreadTick_ok[OF kinv_boot] by (simp add: ticked_def)
  moreover have "tcb_status (ThreadTick boot) t = tcb_status boot t" for t
    by (rule tcb_core_eqD(4)[OF tick_boot_core])
  ultimately show ?thesis unfolding boot_ready[symmetric] by (simp add: ready_set_def LW_THREAD_IS_READY_def)
qed

section \<open>Ready threads\<close>

text \<open>
  C5: In every reachable state, a thread that is not ready is neither the candidate of a
  CPU nor in a ready ring; a ready thread is the candidate of exactly one CPU and in no
  ring, or in exactly one ring, the one of its priority, and there once.
\<close>

theorem every_ready_thread_once:
  assumes "api_inv s0" "kreach s0 s"
  shows "(t \<notin> ready_set s \<longrightarrow> (\<forall>c. LW_CAND_TCB s c \<noteq> Some t) \<and> (\<forall>pp. t \<notin> set (rdy_ring s pp))) \<and>
    (t \<in> ready_set s \<longrightarrow>
      (if TCB_bIsCand (k_tcb s t)
       then (\<forall>c. LW_CAND_TCB s c = Some t \<longleftrightarrow> c = TCB_ulCPUId (k_tcb s t)) \<and> (\<forall>pp. t \<notin> set (rdy_ring s pp))
       else (\<forall>c. LW_CAND_TCB s c \<noteq> Some t) \<and>
         (\<forall>pp. count_list (rdy_ring s pp) t = (if pp = GetPcb s t then 1 else 0))))"
proof -
  have k: "sched_inv (ready_set s) s" by (rule kinv_sched[OF api_invD(1)[OF kreach_inv[OF assms(2,1)]]])
  then have r: "rings_ok (ready_set s) s" and c: "cands_ok {} (ready_set s) s"
    by (simp_all add: sched_inv_def sched_invx_def)
  note c1 = cands_okD1[OF c] and c2 = cands_okD2[OF c]
  have "count_list (rdy_ring s pp) t = (if t \<in> set (rdy_ring s pp) then 1 else 0)" for pp
    using r by (cases pp) (simp add: rings_ok_def count_list_distinct)
  then show ?thesis using r c1 c2 unfolding rings_ok_def by auto
qed

theorem every_ready_thread_once_witness:
  "4 \<in> ready_set (ThreadTick boot) \<and>
    (if TCB_bIsCand (k_tcb (ThreadTick boot) 4)
     then (\<forall>c. LW_CAND_TCB (ThreadTick boot) c = Some 4 \<longleftrightarrow> c = TCB_ulCPUId (k_tcb (ThreadTick boot) 4))
       \<and> (\<forall>pp. 4 \<notin> set (rdy_ring (ThreadTick boot) pp))
     else (\<forall>c. LW_CAND_TCB (ThreadTick boot) c \<noteq> Some 4) \<and>
       (\<forall>pp. count_list (rdy_ring (ThreadTick boot) pp) 4 = (if pp = GetPcb (ThreadTick boot) 4 then 1 else 0)))"
  using every_ready_thread_once[OF api_inv_boot kreach_tick, of 4] ready_tick_boot by simp

section \<open>Waiting threads\<close>

text \<open>
  C6: In every reachable state, a wait queue holds exactly the threads whose TCB names it,
  each once and in one ring; its counter is their number; and these threads are pending,
  not ready, and not timed out.
\<close>

theorem every_waiter_once:
  assumes "api_inv s0" "kreach s0 s"
  shows "(\<forall>b. distinct (WQ_ring (event_wq s e q) b)) \<and>
    (\<forall>b t. t \<in> set (WQ_ring (event_wq s e q) b) \<longleftrightarrow> waits_on s e q t \<and> wait_bucket s t = b) \<and>
    unat (EventWaitNum s q e) = card {t. waits_on s e q t} \<and>
    (\<forall>t. waits_on s e q t \<longrightarrow> wait_bucket s t < EVENT_Q_SIZE \<and> t \<notin> ready_set s
       \<and> tcb_status s t AND LW_THREAD_STATUS_PEND_ANY \<noteq> 0 \<and> TCB_ucWaitTimeout (k_tcb s t) = LW_WAIT_TIME_CLEAR)"
proof -
  have k: "kinv s" by (rule api_invD(1)[OF kreach_inv[OF assms(2,1)]])
  note i = wait_invxD[OF kinv_wait[OF k, unfolded wait_inv_def], where e = e and q = q]
  have "t \<notin> ready_set s" if "waits_on s e q t" for t
    using waiter_live(4)[OF k, of t e q] that by (simp add: waiters_def)
  then show ?thesis using i by (simp add: EventWaitNum_def)
qed

theorem every_waiter_once_witness:
  "WQ_ring (event_wq (ThreadTick boot) 7 0) 3 = [] \<and> EventWaitNum (ThreadTick boot) 0 7 = 0"
proof -
  have "\<not> waits_on (ThreadTick boot) 7 0 t" for t
    using tick_boot_core[of t] tcb_core_eqD(18)[of "k_tcb (ThreadTick boot) t" "k_tcb boot t"]
    by (simp add: waits_on_def)
  then show ?thesis using every_waiter_once[OF api_inv_boot kreach_tick, of 7 0] by (simp add: unat_eq_0)
qed

section \<open>The delay line and the kernel's assertions\<close>



section \<open>Semaphores\<close>

text \<open>
  C8: In every reachable state a counting semaphore is within its bounds, and threads wait
  for it only while its count is zero: no wake-up is lost.
\<close>

theorem semaphore_bounds:
  assumes "api_inv s0" "kreach s0 s" "EVENT_ucType (k_event s e) = LW_TYPE_EVENT_SEMC"
  shows "EVENT_ulCounter (k_event s e) \<le> EVENT_ulMaxCounter (k_event s e) \<and>
    ((\<exists>t. waits_on s e EVENT_SEM_Q t) \<longrightarrow> EVENT_ulCounter (k_event s e) = 0)"
  using api_block(1)[OF kreach_inv[OF assms(2,1)] assms(3)] by (auto simp: semc_block_def waiters_def)

theorem semaphore_bounds_witness:
  "EVENT_ucType (k_event (exec (CCreate None 3 5 0) boot) 0) = LW_TYPE_EVENT_SEMC \<and>
   EVENT_ulCounter (k_event (exec (CCreate None 3 5 0) boot) 0) \<le> EVENT_ulMaxCounter (k_event (exec (CCreate None 3 5 0) boot) 0)"
proof -
  have c: "handle OBJECT_SEM_C LW_TYPE_EVENT_SEMC (exec (CCreate None 3 5 0) boot) (fst (SemaphoreCCreate None 3 5 0 boot)) 0"
    using SemaphoreCCreate_ok(1)[of boot 5 3 None 0] by (simp add: boot_free Object_Name_Invalid_def)
  then have ty: "EVENT_ucType (k_event (exec (CCreate None 3 5 0) boot) 0) = LW_TYPE_EVENT_SEMC" by (simp add: handle_def)
  have "legal (CCreate None 3 5 0) boot" by (rule legal_boot) (simp_all add: wake_call_def safe_option_def)
  then show ?thesis using semaphore_bounds[OF api_inv_boot kreach_call ty] ty by simp
qed

text \<open>
  C9: In every reachable state a mutex is either free, with value one, no waiters and no
  recursion pending, or it has one owner, a live thread, and value zero.
\<close>

theorem mutex_one_owner:
  assumes "api_inv s0" "kreach s0 s" "EVENT_ucType (k_event s e) = LW_TYPE_EVENT_MUTEX"
  shows "(case EVENT_pvTcbOwn (k_event s e) of
      None \<Rightarrow> EVENT_ulCounter (k_event s e) = 1 \<and> EVENT_pvPtr (k_event s e) = 0 \<and> (\<forall>t. \<not> waits_on s e EVENT_SEM_Q t)
    | Some t \<Rightarrow> EVENT_ulCounter (k_event s e) = 0 \<and> k_ncpus s \<le> t \<and> k_tcbIdTable s t)"
  using api_block(3)[OF kreach_inv[OF assms(2,1)] assms(3)]
  by (auto simp: mutex_block_def waiters_def live_def split: option.split)

theorem mutex_one_owner_witness:
  "EVENT_pvTcbOwn (k_event (exec (MCreate None 10 0) boot) 0) = None \<and>
   EVENT_ulCounter (k_event (exec (MCreate None 10 0) boot) 0) = 1"
proof -
  note c = SemaphoreMCreate_ok[of boot None 10 0, unfolded boot_free list.sel(1)]
  have ty: "EVENT_ucType (k_event (exec (MCreate None 10 0) boot) 0) = LW_TYPE_EVENT_MUTEX"
    using c(1) by (simp add: Object_Name_Invalid_def handle_def)
  have own: "EVENT_pvTcbOwn (k_event (exec (MCreate None 10 0) boot) 0) = None"
    using c(4) by (simp add: Object_Name_Invalid_def mutex_of_def)
  have "legal (MCreate None 10 0) boot" by (rule legal_boot) (simp_all add: wake_call_def safe_option_def)
  then show ?thesis using mutex_one_owner[OF api_inv_boot kreach_call ty] own by simp
qed

text \<open>
  C10: In every reachable state a reader-writer semaphore in writing mode has exactly one
  holder, which is recorded as its owner; in reading mode it has no owner; and when
  nobody holds it, nobody waits for it.
\<close>

theorem writers_exclude:
  assumes "api_inv s0" "kreach s0 s" "EVENT_ucType (k_event s e) = LW_TYPE_EVENT_SEMRW"
  shows "EVENT_iStatus (k_event s e) \<in> {EVENT_RW_STATUS_R, EVENT_RW_STATUS_W} \<and>
    (EVENT_iStatus (k_event s e) = EVENT_RW_STATUS_W \<longrightarrow>
       EVENT_ulCounter (k_event s e) = 1 \<and> EVENT_pvTcbOwn (k_event s e) \<noteq> None) \<and>
    (EVENT_iStatus (k_event s e) = EVENT_RW_STATUS_R \<longrightarrow> EVENT_pvTcbOwn (k_event s e) = None \<and> EVENT_pvPtr (k_event s e) = 0) \<and>
    (EVENT_ulCounter (k_event s e) = 0 \<longrightarrow> (\<forall>t. \<not> waits_on s e EVENT_RW_Q_R t \<and> \<not> waits_on s e EVENT_RW_Q_W t))"
  using api_block(4)[OF kreach_inv[OF assms(2,1)] assms(3)] by (auto simp: rw_block_def waiters_def)

theorem writers_exclude_witness:
  "EVENT_iStatus (k_event (ThreadTick (boot1 (\<lambda>ev. ev\<lparr>EVENT_ucType := LW_TYPE_EVENT_SEMRW, EVENT_ulCounter := 1,
      EVENT_iStatus := EVENT_RW_STATUS_W, EVENT_pvTcbOwn := Some 3\<rparr>))) 0) = EVENT_RW_STATUS_W \<and>
   EVENT_pvTcbOwn (k_event (ThreadTick (boot1 (\<lambda>ev. ev\<lparr>EVENT_ucType := LW_TYPE_EVENT_SEMRW, EVENT_ulCounter := 1,
      EVENT_iStatus := EVENT_RW_STATUS_W, EVENT_pvTcbOwn := Some 3\<rparr>))) 0) \<noteq> None"
proof -
  let ?f = "\<lambda>ev. ev\<lparr>EVENT_ucType := LW_TYPE_EVENT_SEMRW, EVENT_ulCounter := 1,
      EVENT_iStatus := EVENT_RW_STATUS_W, EVENT_pvTcbOwn := Some 3\<rparr>"
  have a: "api_inv (boot1 ?f)"
    by (rule api_inv_boot1) (simp_all add: block_ok_def rw_block_def boot_event_def)
  have "ticked 1 (boot1 ?f) (ThreadTick (boot1 ?f))" by (rule ThreadTick_ok[OF api_invD(1)[OF a]])
  then have "ev_core (k_event (ThreadTick (boot1 ?f)) 0) = ev_core (k_event (boot1 ?f) 0)" by (simp only: ticked_def)
  note c = ev_core_eqD[OF this]
  have ty: "EVENT_ucType (k_event (ThreadTick (boot1 ?f)) 0) = LW_TYPE_EVENT_SEMRW"
    and st: "EVENT_iStatus (k_event (ThreadTick (boot1 ?f)) 0) = EVENT_RW_STATUS_W" using c by simp_all
  show ?thesis using writers_exclude[OF a kreach_tick ty] st by simp
qed

end
