(* ===== verification/Sem_Props.thy ===== *)
theory Sem_Props
  imports Kernel_Safety
begin

text \<open>
  The semaphore routines against their abstract objects: a counter with a queue, a cell
  with a queue.  The instances use a semaphore in block 0 of the state \<open>boot\<close>.
\<close>

definition semc_at :: "ULONG \<Rightarrow> ULONG \<Rightarrow> kernel" where
  "semc_at n m = boot1 (\<lambda>ev. ev\<lparr>EVENT_ucType := LW_TYPE_EVENT_SEMC, EVENT_ulCounter := n, EVENT_ulMaxCounter := m\<rparr>)"

definition semb_at :: "ULONG \<Rightarrow> ULONG \<Rightarrow> kernel" where
  "semb_at n m = boot1 (\<lambda>ev. ev\<lparr>EVENT_ucType := LW_TYPE_EVENT_SEMB, EVENT_ulCounter := n, EVENT_pvPtr := m\<rparr>)"

lemma semc_at_ok:
  "queue_ok (semc_at n m) e" "handle OBJECT_SEM_C LW_TYPE_EVENT_SEMC (semc_at n m) (boot_id OBJECT_SEM_C) 0"
  "csem_of (semc_at n m) 0 = \<lparr>cs_count = unat n, cs_max = unat m, cs_queue = []\<rparr>"
  "LW_CPU_GET_CUR_NESTING (semc_at n m) = 0" "runs (semc_at n m) 2" "k_sysRunning (semc_at n m)"
  "EVENT_ulOption (k_event (semc_at n m) 0) = 0"
  by (simp_all add: semc_at_def queue_ok_boot1 handle_boot1 csem_of_def order_boot1) (simp add: boot_event_def)

lemma semb_at_ok:
  "queue_ok (semb_at n m) e" "handle OBJECT_SEM_B LW_TYPE_EVENT_SEMB (semb_at n m) (boot_id OBJECT_SEM_B) 0"
  "bsem_of (semb_at n m) 0 = \<lparr>bs_full = (n \<noteq> 0), bs_msg = m, bs_queue = []\<rparr>"
  "LW_CPU_GET_CUR_NESTING (semb_at n m) = 0" "runs (semb_at n m) 2" "k_sysRunning (semb_at n m)"
  "EVENT_ulOption (k_event (semb_at n m) 0) = 0"
  by (simp_all add: semb_at_def queue_ok_boot1 handle_boot1 bsem_of_def order_boot1) (simp add: boot_event_def)

text \<open>The semaphore is empty and thread 2 waits for it, for at most seven ticks.\<close>

definition semc_wait :: kernel where
  "semc_wait = snd (SemaphoreCPend (boot_id OBJECT_SEM_C) 7 (semc_at 0 5))"

lemma semc_wait_ok:
  "queue_ok semc_wait 0" "handle OBJECT_SEM_C LW_TYPE_EVENT_SEMC semc_wait (boot_id OBJECT_SEM_C) 0"
  "csem_of semc_wait 0 = \<lparr>cs_count = 0, cs_max = 5, cs_queue = [2]\<rparr>" "waiters semc_wait 0 EVENT_SEM_Q = {2}"
  "tcb_status semc_wait 2 = LW_THREAD_STATUS_SEM OR LW_THREAD_STATUS_DELAY" "EventWaitNum semc_wait EVENT_SEM_Q 0 = 1"
  "kinv semc_wait" "dues (k_delay semc_wait) = [(2, 7)]"
proof -
  note st = semc_at_ok[where n = 0 and m = 5]
  note r = SemaphoreCPend_refines[OF st(1,2,4,5), where ulTimeout = 7, folded semc_wait_def]
  show q: "queue_ok semc_wait 0" by (rule r(1))
  then show k: "kinv semc_wait" by (simp add: queue_ok_def)
  show c: "csem_of semc_wait 0 = \<lparr>cs_count = 0, cs_max = 5, cs_queue = [2]\<rparr>"
    using r(4) by (simp add: st(3) csem_join_def enqueue_def)
  then have w: "wait_order semc_wait 0 EVENT_SEM_Q = [2]" by (simp add: csem_of_def)
  show ws: "waiters semc_wait 0 EVENT_SEM_Q = {2}" using wait_order_waiters[OF kinv_wait[OF k], of 0 EVENT_SEM_Q] w by simp
  have "unat (EventWaitNum semc_wait EVENT_SEM_Q 0) = 1"
    using EventWaitNum_waiters(3)[OF kinv_wait[OF k], of EVENT_SEM_Q 0] ws by simp
  then show "EventWaitNum semc_wait EVENT_SEM_Q 0 = 1" by unat_arith
  have z: "EVENT_ulCounter (k_event (semc_at 0 5) 0) = 0" by (simp add: semc_at_def)
  let ?p = "PendBlock 0 EVENT_SEM_Q LW_THREAD_STATUS_SEM 7 (KERNEL_ENTER (semc_at 0 5))"
  have e: "semc_wait = KERNEL_EXIT ?p"
    using z st(4) by (simp add: semc_wait_def SemaphoreCPend_def SemaphoreCPend_again_def EventOpen_handle[OF st(2)] Let_def)
  have k0: "kinv (KERNEL_ENTER (semc_at 0 5))" and t0: "runs (KERNEL_ENTER (semc_at 0 5)) 2"
    using st(1,5) by (simp_all add: queue_ok_def)
  note p = PendBlock_ok[OF k0 t0 sem_bits, where e = 0 and q = EVENT_SEM_Q and ulTimeout = 7]
  show "tcb_status semc_wait 2 = LW_THREAD_STATUS_SEM OR LW_THREAD_STATUS_DELAY" using p(6) by (simp add: e)
  have d0: "dues (k_delay (semc_at 0 5)) = []" by (simp add: semc_at_def boot1_def dues_def boot0_def)
  show "dues (k_delay semc_wait) = [(2, 7)]" using p(10) d0 by (simp add: e)
  have "EVENT_ucType (k_event semc_wait 0) = LW_TYPE_EVENT_SEMC"
    using ev_core_eqD(1)[OF p(11)[of 0]] by (simp add: e semc_at_def)
  then show "handle OBJECT_SEM_C LW_TYPE_EVENT_SEMC semc_wait (boot_id OBJECT_SEM_C) 0"
    using st(2) unfolding handle_def by blast
qed

section \<open>Counting semaphores\<close>

text \<open>
  C11: \<open>API_SemaphoreCPost\<close> is the operation V of a bounded semaphore: the first waiter in
  the order of service leaves, or the counter grows, or the post is refused with
  \<open>ERROR_EVENT_FULL\<close> and nothing changes.
\<close>

theorem semc_post_refines:
  assumes "queue_ok s e" "handle OBJECT_SEM_C LW_TYPE_EVENT_SEMC s ulId e"
  shows "queue_ok (snd (SemaphoreCPost ulId s)) e \<and>
    csem_of (snd (SemaphoreCPost ulId s)) e = snd (csem_v (csem_of s e)) \<and>
    fst (SemaphoreCPost ulId s) = (if fst (csem_v (csem_of s e)) then ERROR_NONE else ERROR_EVENT_FULL)"
  using SemaphoreCPost_refines[OF assms] by auto

theorem semc_post_refines_witness:
  "fst (SemaphoreCPost (boot_id OBJECT_SEM_C) (semc_at 3 5)) = ERROR_NONE \<and>
   cs_count (csem_of (snd (SemaphoreCPost (boot_id OBJECT_SEM_C) (semc_at 3 5))) 0) = 4 \<and>
   fst (SemaphoreCPost (boot_id OBJECT_SEM_C) (semc_at 5 5)) = ERROR_EVENT_FULL"
  using semc_post_refines[OF semc_at_ok(1,2)[where n = 3 and m = 5]] semc_post_refines[OF semc_at_ok(1,2)[where n = 5 and m = 5]]
  by (simp add: semc_at_ok(3) csem_v_def)

text \<open>
  C12: \<open>API_SemaphoreCPend\<close> takes a unit if there is one; otherwise it returns at once when
  the caller does not want to wait, or the caller blocks, is no longer ready, and stands in
  the queue where the option of the semaphore says: behind the waiters of its own and of
  higher priority, or behind all.
\<close>

theorem semc_pend_refines:
  assumes "queue_ok s e" "handle OBJECT_SEM_C LW_TYPE_EVENT_SEMC s ulId e"
    and "LW_CPU_GET_CUR_NESTING s = 0" "runs s t"
  shows "queue_ok (snd (SemaphoreCPend ulId ulTimeout s)) e \<and>
    (if cs_count (csem_of s e) > 0
     then fst (SemaphoreCPend ulId ulTimeout s) = Done ERROR_NONE
       \<and> csem_of (snd (SemaphoreCPend ulId ulTimeout s)) e = (csem_of s e)\<lparr>cs_count := cs_count (csem_of s e) - 1\<rparr>
     else if ulTimeout = LW_OPTION_NOT_WAIT
     then fst (SemaphoreCPend ulId ulTimeout s) = Done ERROR_THREAD_WAIT_TIMEOUT
       \<and> csem_of (snd (SemaphoreCPend ulId ulTimeout s)) e = csem_of s e
     else fst (SemaphoreCPend ulId ulTimeout s) = Blocked ulTimeout (KERNEL_TIME_GET s) (EVENT_ulOption (k_event s e))
       \<and> csem_of (snd (SemaphoreCPend ulId ulTimeout s)) e = (csem_of s e)\<lparr>cs_queue :=
           (if by_prio s e
            then filter (\<lambda>x. tcb_prio s x \<le> tcb_prio s t) (cs_queue (csem_of s e)) @ [t] @
                 filter (\<lambda>x. tcb_prio s t < tcb_prio s x) (cs_queue (csem_of s e))
            else cs_queue (csem_of s e) @ [t])\<rparr>
       \<and> t \<notin> ready_set (snd (SemaphoreCPend ulId ulTimeout s)))"
  using SemaphoreCPend_refines[OF assms] by (simp add: csem_p_def csem_join_def enqueue_def)

theorem semc_pend_refines_witness:
  "fst (SemaphoreCPend (boot_id OBJECT_SEM_C) 7 (semc_at 0 5)) = Blocked 7 (KERNEL_TIME_GET (semc_at 0 5)) 0 \<and>
   cs_queue (csem_of (snd (SemaphoreCPend (boot_id OBJECT_SEM_C) 7 (semc_at 0 5))) 0) = [2] \<and>
   2 \<notin> ready_set (snd (SemaphoreCPend (boot_id OBJECT_SEM_C) 7 (semc_at 0 5)))"
  using semc_pend_refines[OF semc_at_ok(1,2,4,5)[where n = 0 and m = 5], of 7]
  unfolding semc_at_ok(3,7) by simp

text \<open>
  \<open>API_SemaphoreCRelease n\<close> with room for \<open>n\<close> units serves the first \<open>n\<close> waiters in the
  order of service, counts the rest, and stores the previous counter; without room it
  does as many posts as fit and returns \<open>ERROR_EVENT_FULL\<close>.
\<close>

theorem semc_release_refines:
  assumes "queue_ok s e" "handle OBJECT_SEM_C LW_TYPE_EVENT_SEMC s ulId e" "n \<noteq> 0" "csem_wf (csem_of s e)"
  shows "snd (fst (SemaphoreCRelease ulId n True s)) = Some (EVENT_ulCounter (k_event s e)) \<and>
    csem_wf (csem_of (snd (SemaphoreCRelease ulId n True s)) e) \<and>
    (if unat n \<le> length (cs_queue (csem_of s e)) + (cs_max (csem_of s e) - cs_count (csem_of s e))
     then fst (fst (SemaphoreCRelease ulId n True s)) = ERROR_NONE \<and>
       csem_of (snd (SemaphoreCRelease ulId n True s)) e = (csem_of s e)\<lparr>
         cs_queue := drop (unat n) (cs_queue (csem_of s e)),
         cs_count := cs_count (csem_of s e) + (unat n - length (cs_queue (csem_of s e)))\<rparr>
     else fst (fst (SemaphoreCRelease ulId n True s)) \<noteq> ERROR_NONE \<and>
       csem_of (snd (SemaphoreCRelease ulId n True s)) e = (csem_of s e)\<lparr>
         cs_queue := [], cs_count := cs_max (csem_of s e)\<rparr>)"
proof -
  note r = SemaphoreCRelease_refines[OF assms(1,2,3), where p = True]
  have "csem_wf (csem_of (snd (SemaphoreCRelease ulId n True s)) e)"
    using csem_wf_vs[OF assms(4), of "unat n"] r(2) by simp
  then show ?thesis using r csem_vs_fits[OF assms(4), of "unat n"] csem_vs_overflow[OF assms(4), of "unat n"]
    by (auto simp: outp_def)
qed

theorem semc_release_refines_witness:
  "fst (fst (SemaphoreCRelease (boot_id OBJECT_SEM_C) 2 True (semc_at 3 5))) = ERROR_NONE \<and>
   cs_count (csem_of (snd (SemaphoreCRelease (boot_id OBJECT_SEM_C) 2 True (semc_at 3 5))) 0) = 5 \<and>
   cs_count (csem_of (snd (SemaphoreCRelease (boot_id OBJECT_SEM_C) 4 True (semc_at 3 5))) 0) = 5"
  using semc_release_refines[OF semc_at_ok(1,2)[where n = 3 and m = 5], of 2]
    semc_release_refines[OF semc_at_ok(1,2)[where n = 3 and m = 5], of 4]
  by (simp add: semc_at_ok(3) csem_wf_def)

text \<open>
  \<open>API_SemaphoreCFlush\<close> wakes every waiter: the queue is empty, each thread that waited
  has lost the semaphore and the delay bit of its status, is not told of a deletion or a
  time-out, and is ready if nothing else holds it; the caller learns how many there were.
\<close>

theorem semc_flush_wakes_all:
  assumes "kinv s" "handle OBJECT_SEM_C LW_TYPE_EVENT_SEMC s ulId e"
  shows "fst (SemaphoreCFlush ulId True s) = (ERROR_NONE, Some (EventWaitNum s EVENT_SEM_Q e)) \<and>
    unat (EventWaitNum s EVENT_SEM_Q e) = card (waiters s e EVENT_SEM_Q) \<and>
    kinv (snd (SemaphoreCFlush ulId True s)) \<and> waiters (snd (SemaphoreCFlush ulId True s)) e EVENT_SEM_Q = {} \<and>
    (\<forall>t\<in>waiters s e EVENT_SEM_Q.
       tcb_status (snd (SemaphoreCFlush ulId True s)) t = woken_status LW_THREAD_STATUS_SEM (tcb_status s t) \<and>
       TCB_ucIsEventDelete (k_tcb (snd (SemaphoreCFlush ulId True s)) t) = TCB_ucIsEventDelete (k_tcb s t) \<and>
       TCB_ucWaitTimeout (k_tcb (snd (SemaphoreCFlush ulId True s)) t) = LW_WAIT_TIME_CLEAR) \<and>
    (\<forall>t. t \<notin> waiters s e EVENT_SEM_Q \<longrightarrow> tcb_status (snd (SemaphoreCFlush ulId True s)) t = tcb_status s t)"
proof -
  note f = SemaphoreCFlush_ok[OF assms, where p = True]
  have "tcb_status (snd (SemaphoreCFlush ulId True s)) t = tcb_status s t" if "t \<notin> waiters s e EVENT_SEM_Q" for t
    using f(2) that tcb_core_eqD(4) unfolding drained_def by blast
  then show ?thesis using f EventWaitNum_waiters(3)[OF kinv_wait[OF assms(1)], of EVENT_SEM_Q e]
    by (simp add: drained_def outp_def)
qed

theorem semc_flush_wakes_all_witness:
  "fst (SemaphoreCFlush (boot_id OBJECT_SEM_C) True semc_wait) = (ERROR_NONE, Some 1) \<and>
   tcb_status (snd (SemaphoreCFlush (boot_id OBJECT_SEM_C) True semc_wait)) 2 = LW_THREAD_STATUS_RDY \<and>
   waiters (snd (SemaphoreCFlush (boot_id OBJECT_SEM_C) True semc_wait)) 0 EVENT_SEM_Q = {}"
  using semc_flush_wakes_all[OF semc_wait_ok(7,2)] by (simp add: semc_wait_ok woken_status_def)

text \<open>
  C13: Creating and deleting are inverse on the pool of event blocks, and a deleted semaphore
  is gone: the handle that \<open>API_SemaphoreCCreate\<close> answers opens the first free block; after
  \<open>API_SemaphoreCDelete\<close> the block is the last of the pool, the handle is refused with
  \<open>ERROR_EVENT_TYPE\<close> by \<open>API_SemaphoreCPend\<close>, and every thread that waited has left the wait
  and returns \<open>ERROR_EVENT_WAS_DELETED\<close> when it next runs.
\<close>

theorem semc_create_delete:
  assumes "kinv s" "pool_inv s" "k_freeEvents s \<noteq> []" "LW_CPU_GET_CUR_NESTING s = 0"
    and "0 < m" "n \<le> m" "\<not> Object_Name_Invalid nm"
    and "one_q s1 e" "handle OBJECT_SEM_C LW_TYPE_EVENT_SEMC s1 ulId e" "LW_CPU_GET_CUR_NESTING s1 = 0" "e < LW_CFG_MAX_EVENTS"
  shows "handle OBJECT_SEM_C LW_TYPE_EVENT_SEMC (snd (SemaphoreCCreate nm n m opt s))
      (fst (SemaphoreCCreate nm n m opt s)) (hd (k_freeEvents s)) \<and>
    csem_of (snd (SemaphoreCCreate nm n m opt s)) (hd (k_freeEvents s)) = \<lparr>cs_count = unat n, cs_max = unat m, cs_queue = []\<rparr> \<and>
    k_freeEvents (snd (SemaphoreCCreate nm n m opt s)) = tl (k_freeEvents s) \<and>
    k_freeEvents (snd (snd (SemaphoreCDelete ulId s1))) = k_freeEvents s1 @ [e] \<and>
    pool_inv (snd (snd (SemaphoreCDelete ulId s1))) \<and>
    fst (SemaphoreCPend_again ulId d (snd (snd (SemaphoreCDelete ulId s1)))) = Done ERROR_EVENT_TYPE \<and>
    (\<forall>t\<in>waiters s1 e EVENT_SEM_Q. \<forall>s2. LW_TCB_GET_CUR s2 = t \<and> TCB_iSchedRet (k_tcb s2 t) = 0 \<and>
        TCB_ucIsEventDelete (k_tcb s2 t) = TCB_ucIsEventDelete (k_tcb (snd (snd (SemaphoreCDelete ulId s1))) t) \<and>
        TCB_ucWaitTimeout (k_tcb s2 t) = TCB_ucWaitTimeout (k_tcb (snd (snd (SemaphoreCDelete ulId s1))) t) \<longrightarrow>
        fst (SemaphoreCPend_wake ulId d sv opt s2) = Done ERROR_EVENT_WAS_DELETED)"
proof -
  note c = SemaphoreCCreate_ok[OF assms(1-4) _ assms(6,7)] and dl = SemaphoreCDelete_ok[OF assms(8-11)]
  have "fst (SemaphoreCPend_again ulId d (snd (snd (SemaphoreCDelete ulId s1)))) = Done ERROR_EVENT_TYPE"
    using assms(9) dl(6) by (simp add: SemaphoreCPend_again_def EventOpen_def EventCheckId_def handle_def
        Event_Type_Invalid_def Let_def split: sum.splits)
  then show ?thesis using c[of opt] dl assms(5)
    by (auto simp: SemaphoreCPend_wake_def PendWake_def Schedule_ret_def Let_def word_gt_0)
qed

theorem semc_create_delete_witness:
  "fst (SemaphoreCPend_again (boot_id OBJECT_SEM_C) 7 (snd (snd (SemaphoreCDelete (boot_id OBJECT_SEM_C) (semc_at 0 5))))) =
     Done ERROR_EVENT_TYPE \<and>
   k_freeEvents (snd (snd (SemaphoreCDelete (boot_id OBJECT_SEM_C) (semc_at 0 5)))) = [1..<LW_CFG_MAX_EVENTS] @ [0]"
proof -
  have o: "one_q (semc_at 0 5) 0" using semc_at_ok(1)[of 0 5 0]
    by (simp add: one_q_def queue_ok_def) (simp add: semc_at_def pool_inv_boot1)
  show ?thesis
    using semc_create_delete[OF kinv_boot pool_inv_boot _ nesting_boot, of 5 3 None, OF _ _ _ _ o semc_at_ok(2,4), of 7]
    by (simp add: boot_free Object_Name_Invalid_def) (simp add: semc_at_def)
qed

section \<open>Time-outs\<close>

text \<open>
  C14: A call of \<open>API_SemaphoreCPend\<close> that blocks for \<open>d\<close> ticks waits through the next
  \<open>d - 1\<close> ticks and not longer: at tick \<open>d\<close> \<open>_ThreadTick\<close> takes the thread out of the queue
  and makes it ready, and the resumed call returns \<open>ERROR_THREAD_WAIT_TIMEOUT\<close>.
\<close>

theorem pend_times_out:
  assumes "queue_ok s e" "handle OBJECT_SEM_C LW_TYPE_EVENT_SEMC s ulId e" "LW_CPU_GET_CUR_NESTING s = 0" "runs s t"
    and "EVENT_ulCounter (k_event s e) = 0" "d \<noteq> LW_OPTION_NOT_WAIT" "d \<noteq> LW_OPTION_WAIT_INFINITE"
  shows "(\<forall>n<unat d. t \<in> waiters ((ThreadTick ^^ n) (snd (SemaphoreCPend ulId d s))) e EVENT_SEM_Q \<and>
      t \<notin> ready_set ((ThreadTick ^^ n) (snd (SemaphoreCPend ulId d s)))) \<and>
    t \<notin> waiters ((ThreadTick ^^ unat d) (snd (SemaphoreCPend ulId d s))) e EVENT_SEM_Q \<and>
    t \<in> ready_set ((ThreadTick ^^ unat d) (snd (SemaphoreCPend ulId d s))) \<and>
    (\<forall>s2. LW_TCB_GET_CUR s2 = t \<and> TCB_iSchedRet (k_tcb s2 t) = 0 \<and>
       TCB_ucWaitTimeout (k_tcb s2 t) = TCB_ucWaitTimeout (k_tcb ((ThreadTick ^^ unat d) (snd (SemaphoreCPend ulId d s))) t) \<longrightarrow>
       fst (SemaphoreCPend_wake ulId d sv opt s2) = Done ERROR_THREAD_WAIT_TIMEOUT)"
proof -
  let ?s1 = "snd (SemaphoreCPend ulId d s)" and ?p = "PendBlock e EVENT_SEM_Q LW_THREAD_STATUS_SEM d (KERNEL_ENTER s)"
  have e: "?s1 = KERNEL_EXIT ?p" using assms(3,5,6)
    by (simp add: SemaphoreCPend_def SemaphoreCPend_again_def EventOpen_handle[OF assms(2)] Let_def)
  have k0: "kinv (KERNEL_ENTER s)" and t0: "runs (KERNEL_ENTER s) t" using assms(1,4) by (simp_all add: queue_ok_def)
  note p = PendBlock_ok[OF k0 t0 sem_bits, where e = e and q = EVENT_SEM_Q and ulTimeout = d]
  have k1: "kinv ?s1" using p(1) by (simp add: e KERNEL_EXIT_kinv)
  have due: "(t, unat d) \<in> set (dues (k_delay ?s1))"
    using p(10) assms(6,7) by (simp add: e set_due_insert)
  have w1: "t \<in> waiters ?s1 e EVENT_SEM_Q" using p(4) by (simp add: e waiters_def)
  have st1: "tcb_status ?s1 t = LW_THREAD_STATUS_SEM OR LW_THREAD_STATUS_DELAY" using p(6) assms(6,7) by (simp add: e)
  have nr1: "t \<notin> ready_set ?s1" using p(3) by (simp add: e)
  have wu: "wu_ok (k_delay ?s1)" using k1 by (simp add: kinv_def delay_inv_def)
  have uq: "da = unat d" if "(t, da) \<in> set (dues (k_delay ?s1))" for da by (rule dues_key_unique[OF wu that due])
  have db: "t \<in> due_by ?s1 k \<longleftrightarrow> unat d \<le> k" for k
    using due by (auto simp: due_by_def dest: uq)
  have still: "t \<in> waiters ((ThreadTick ^^ n) ?s1) e EVENT_SEM_Q \<and> t \<notin> ready_set ((ThreadTick ^^ n) ?s1)"
    if n: "n < unat d" for n
  proof (cases n)
    case 0
    then show ?thesis using w1 nr1 by simp
  next
    case (Suc m)
    have tk: "ticked n ?s1 ((ThreadTick ^^ n) ?s1)" using ThreadTicks_ok[OF k1, of m] Suc by simp
    then have "tcb_core (k_tcb ((ThreadTick ^^ n) ?s1) t) = tcb_core (k_tcb ?s1 t)"
      using db n by (simp add: ticked_def)
    from tcb_core_eqD[OF this] show ?thesis using w1 st1
      by (simp add: waiters_def waits_on_def ready_set_def LW_THREAD_IS_READY_def)
  qed
  obtain m where m: "unat d = Suc m" using assms(6) by (cases "unat d") (auto simp: unat_eq_0)
  have tk: "ticked (unat d) ?s1 ((ThreadTick ^^ unat d) ?s1)" using ThreadTicks_ok[OF k1, of m] m by simp
  then have f: "fired ?s1 ((ThreadTick ^^ unat d) ?s1) t" using db by (simp add: ticked_def)
  have live: "k_tcbIdTable ((ThreadTick ^^ unat d) ?s1) t"
    using tk waiter_live(2)[OF k1 w1] by (simp add: ticked_def)
  from f st1 have "TCB_peventPtr (k_tcb ((ThreadTick ^^ unat d) ?s1) t) = None"
    "tcb_status ((ThreadTick ^^ unat d) ?s1) t = LW_THREAD_STATUS_RDY"
    "TCB_ucWaitTimeout (k_tcb ((ThreadTick ^^ unat d) ?s1) t) = LW_WAIT_TIME_OUT"
    by (simp_all add: fired_def tick_status_def tick_timeout_def Let_def)
  with live still show ?thesis
    by (auto simp: waiters_def waits_on_def ready_set_def LW_THREAD_IS_READY_def SemaphoreCPend_wake_def
        PendWake_def Schedule_ret_def Let_def)
qed

theorem pend_times_out_witness:
  "2 \<in> waiters ((ThreadTick ^^ 6) semc_wait) 0 EVENT_SEM_Q \<and> 2 \<in> ready_set ((ThreadTick ^^ 7) semc_wait)"
  using pend_times_out[OF semc_at_ok(1,2,4,5)[where n = 0 and m = 5], of 7] semc_at_ok(3)[of 0 5]
  by (simp add: semc_wait_def semc_at_def)

section \<open>Binary semaphores\<close>

text \<open>
  C15: The four posts of a binary semaphore hand their message to the first waiter, or fill
  the empty cell, or are refused with \<open>ERROR_EVENT_FULL\<close>; \<open>bposted\<close> states the new cell and
  queue, the results, and what the woken thread sees.  The variants without \<open>2\<close> differ only
  in not reporting the woken thread.
\<close>

theorem semb_post_refines:
  assumes "queue_ok s e" "handle OBJECT_SEM_B LW_TYPE_EVENT_SEMB s ulId e"
  shows "bposted (Some m) e p s (SemaphoreBPostEx2 ulId m p s) \<and> bposted None e p s (SemaphoreBPost2 ulId p s) \<and>
    SemaphoreBPostEx ulId m s = (fst (fst (SemaphoreBPostEx2 ulId m False s)), snd (SemaphoreBPostEx2 ulId m False s)) \<and>
    SemaphoreBPost ulId s = (fst (fst (SemaphoreBPost2 ulId False s)), snd (SemaphoreBPost2 ulId False s))"
  using SemaphoreBPost2_refines[OF assms] SemaphoreBPost_2 by (simp add: bposted_enter)

theorem semb_post_refines_witness:
  "fst (SemaphoreBPostEx2 (boot_id OBJECT_SEM_B) 9 True (semb_at 0 0)) = (ERROR_NONE, Some 0) \<and>
   bsem_of (snd (SemaphoreBPostEx2 (boot_id OBJECT_SEM_B) 9 True (semb_at 0 0))) 0 = \<lparr>bs_full = True, bs_msg = 9, bs_queue = []\<rparr> \<and>
   fst (SemaphoreBPostEx2 (boot_id OBJECT_SEM_B) 9 True (semb_at 1 0)) = (ERROR_EVENT_FULL, Some 0)"
  using semb_post_refines[OF semb_at_ok(1,2)[where n = 0 and m = 0], of 9 True]
    semb_post_refines[OF semb_at_ok(1,2)[where n = 1 and m = 0], of 9 True]
  by (simp add: bposted_def semb_at_ok(3) bsem_post_def outp_def)

text \<open>
  C16: \<open>API_SemaphoreBPendEx\<close> empties a full cell and stores its message, returns at once
  from an empty one when the caller does not want to wait, and otherwise blocks the caller
  in its place in the queue.
\<close>

theorem semb_pend_refines:
  assumes "queue_ok s e" "handle OBJECT_SEM_B LW_TYPE_EVENT_SEMB s ulId e"
    and "LW_CPU_GET_CUR_NESTING s = 0" "runs s t"
  shows "queue_ok (snd (SemaphoreBPendEx ulId d p s)) e \<and>
    (if bs_full (bsem_of s e)
     then fst (SemaphoreBPendEx ulId d p s) = (Done ERROR_NONE, outp p (bs_msg (bsem_of s e))) \<and>
       bsem_of (snd (SemaphoreBPendEx ulId d p s)) e = (bsem_of s e)\<lparr>bs_full := False\<rparr>
     else if d = LW_OPTION_NOT_WAIT
     then fst (SemaphoreBPendEx ulId d p s) = (Done ERROR_THREAD_WAIT_TIMEOUT, None) \<and>
       bsem_of (snd (SemaphoreBPendEx ulId d p s)) e = bsem_of s e
     else fst (SemaphoreBPendEx ulId d p s) = (Blocked d (KERNEL_TIME_GET s) (EVENT_ulOption (k_event s e)), None) \<and>
       bsem_of (snd (SemaphoreBPendEx ulId d p s)) e =
         (bsem_of s e)\<lparr>bs_queue := enqueue (by_prio s e) (tcb_prio s) t (bs_queue (bsem_of s e))\<rparr> \<and>
       t \<notin> ready_set (snd (SemaphoreBPendEx ulId d p s))) \<and>
    SemaphoreBPend ulId d s = (fst (fst (SemaphoreBPendEx ulId d False s)), snd (SemaphoreBPendEx ulId d False s))"
  using SemaphoreBPendEx_refines[OF assms, of d p] SemaphoreBPend_Ex by (simp add: bsem_take_def bsem_join_def)

theorem semb_pend_refines_witness:
  "fst (SemaphoreBPendEx (boot_id OBJECT_SEM_B) 7 True (semb_at 1 9)) = (Done ERROR_NONE, Some 9) \<and>
   bs_queue (bsem_of (snd (SemaphoreBPendEx (boot_id OBJECT_SEM_B) 7 True (semb_at 0 9))) 0) = [2]"
  using semb_pend_refines[OF semb_at_ok(1,2,4,5)[where n = 1 and m = 9], of 7 True]
    semb_pend_refines[OF semb_at_ok(1,2,4,5)[where n = 0 and m = 9], of 7 True]
  by (simp add: semb_at_ok(3) outp_def enqueue_def)

text \<open>
  The message of a binary semaphore outlives its delivery.  Nothing clears \<open>EVENT_pvPtr\<close>,
  so a \<open>API_SemaphoreBPost\<close> without message on an empty cell makes the next
  \<open>API_SemaphoreBPendEx\<close> store the message of an earlier \<open>API_SemaphoreBPostEx\<close>.
\<close>

theorem semb_stale_message:
  assumes "queue_ok s e" "handle OBJECT_SEM_B LW_TYPE_EVENT_SEMB s ulId e" "LW_CPU_GET_CUR_NESTING s = 0"
    and "\<not> bs_full (bsem_of s e)" "bs_queue (bsem_of s e) = []"
  shows "fst (SemaphoreBPendEx ulId d True (snd (SemaphoreBPost ulId s))) = (Done ERROR_NONE, Some (EVENT_pvPtr (k_event s e)))"
proof -
  have z: "EventWaitNum s EVENT_SEM_Q e = 0" using assms(1,5) wait_order_empty[OF kinv_wait]
    by (simp add: bsem_of_def queue_ok_def)
  have c: "EVENT_ulCounter (k_event s e) = 0" using assms(4) by (simp add: bsem_of_def)
  let ?s1 = "snd (SemaphoreBPost ulId s)"
  have s1: "?s1 = KERNEL_EXIT (event_upd e (\<lambda>ev. ev\<lparr>EVENT_ulCounter := 1\<rparr>) (KERNEL_ENTER s))"
    using z c by (simp add: SemaphoreBPost_def EventOpen_handle[OF assms(2)])
  have h: "handle OBJECT_SEM_B LW_TYPE_EVENT_SEMB ?s1 ulId e" using assms(2) by (auto simp: s1 handle_def)
  have n: "LW_CPU_GET_CUR_NESTING ?s1 = 0"
    using assms(3) run_frame_cpuD(3)[OF run_frame_kernel(2)] run_frame_kernelD(7)[OF run_frame_kernel(2)]
      run_frame_cpuD(3)[OF run_frame_kernel(1)] by (simp add: s1 LW_CPU_GET_CUR_NESTING_def)
  show ?thesis using n
    by (simp add: SemaphoreBPendEx_def SemaphoreBPendEx_again_def EventOpen_handle[OF h] outp_def Let_def) (simp add: s1)
qed

theorem semb_stale_message_witness:
  "fst (SemaphoreBPendEx (boot_id OBJECT_SEM_B) 0 True (snd (SemaphoreBPost (boot_id OBJECT_SEM_B) (semb_at 0 9)))) =
     (Done ERROR_NONE, Some 9)"
  using semb_stale_message[OF semb_at_ok(1,2,4)[where n = 0 and m = 9], of 0] by (simp add: semb_at_ok(3)) (simp add: semb_at_def)

end
