(* ===== verification/Lock_Props.thy ===== *)
theory Lock_Props
  imports Kernel_Safety
begin

text \<open>
  Mutexes and reader-writer semaphores against their abstract objects.  The instances use
  a lock in block 0 of the state \<open>boot\<close>, in which thread 2 (priority 100) calls and thread 3
  (priority 150) runs on the other CPU.
\<close>

definition mutex_at :: "tid option \<Rightarrow> kernel" where
  "mutex_at ow = boot1 (\<lambda>ev. ev\<lparr>EVENT_ucType := LW_TYPE_EVENT_MUTEX, EVENT_pvTcbOwn := ow,
     EVENT_ulCounter := (if ow = None then 1 else 0), EVENT_ulMaxCounter := 150,
     EVENT_ulOption := LW_OPTION_INHERIT_PRIORITY\<rparr>)"

lemma mutex_at_ok:
  "mutex_of (mutex_at ow) 0 = \<lparr>mx_owner = ow, mx_depth = 0, mx_saved = 150, mx_queue = []\<rparr>"
  "handle OBJECT_SEM_M LW_TYPE_EVENT_MUTEX (mutex_at ow) (boot_id OBJECT_SEM_M) 0"
  "LW_CPU_GET_CUR_NESTING (mutex_at ow) = 0" "k_sysRunning (mutex_at ow)" "runs (mutex_at ow) 2"
  "EVENT_ulOption (k_event (mutex_at ow) 0) = LW_OPTION_INHERIT_PRIORITY"
  "ow = None \<or> ow = Some 2 \<or> ow = Some 3 \<Longrightarrow> mutex_ok (mutex_at ow) 0"
proof -
  show m: "mutex_of (mutex_at ow) 0 = \<lparr>mx_owner = ow, mx_depth = 0, mx_saved = 150, mx_queue = []\<rparr>"
    by (simp add: mutex_at_def mutex_of_def order_boot1) (simp add: boot_event_def)
  have q: "queue_ok (mutex_at ow) 0" by (simp add: mutex_at_def queue_ok_boot1)
  show "ow = None \<or> ow = Some 2 \<or> ow = Some 3 \<Longrightarrow> mutex_ok (mutex_at ow) 0"
    unfolding mutex_ok_def m using q by (simp add: mutex_at_def) auto
qed (simp_all add: mutex_at_def handle_boot1)

section \<open>Mutexes\<close>



text \<open>
  C18: \<open>API_SemaphoreMPost\<close> is refused to everybody but the owner, undoes one nesting, or hands
  the mutex to the first waiter, which becomes ready; the poster then has again the priority
  it had when it took the mutex, and no other priority changes.
\<close>

theorem mutex_post_refines:
  assumes "mutex_ok s e" "handle OBJECT_SEM_M LW_TYPE_EVENT_MUTEX s ulId e"
    and "LW_CPU_GET_CUR_NESTING s = 0" "k_sysRunning s" "runs s t"
  shows "mutex_ok (snd (SemaphoreMPost ulId s)) e \<and>
    (let (out, a) = mutex_post (tcb_prio s) t (mutex_of s e) in
      fst (SemaphoreMPost ulId s) = mpost_code e out \<and> mutex_of (snd (SemaphoreMPost ulId s)) e = a \<and>
      (\<forall>u. out = Handed_to u \<longrightarrow>
        tcb_status (snd (SemaphoreMPost ulId s)) u = woken_status LW_THREAD_STATUS_SEM (tcb_status s u)) \<and>
      (\<forall>v. tcb_prio (snd (SemaphoreMPost ulId s)) v =
        (if v = t \<and> (\<exists>u. out = Handed_to u) then mx_saved (mutex_of s e) else tcb_prio s v)))"
  using SemaphoreMPost_refines[OF assms] by (auto simp: split_beta)

theorem mutex_post_refines_witness:
  "fst (SemaphoreMPost (boot_id OBJECT_SEM_M) (mutex_at (Some 2))) = ThenUnsafe 0 \<and>
   mutex_of (snd (SemaphoreMPost (boot_id OBJECT_SEM_M) (mutex_at (Some 2)))) 0 =
     \<lparr>mx_owner = None, mx_depth = 0, mx_saved = LW_PRIO_LOWEST, mx_queue = []\<rparr> \<and>
   fst (SemaphoreMPost (boot_id OBJECT_SEM_M) (mutex_at (Some 3))) = Posted ERROR_EVENT_NOT_OWN"
  using mutex_post_refines[OF mutex_at_ok(7,2,3,4,5), of "Some 2"] mutex_post_refines[OF mutex_at_ok(7,2,3,4,5), of "Some 3"]
  by (simp add: mutex_at_ok(1) mutex_post_def)

text \<open>
  Deleting a mutex frees its waiters, which learn of the deletion; the owner runs at the
  priority it had when it took the mutex, whatever it was boosted to; the block returns to
  the pool.
\<close>

theorem mutex_delete:
  assumes "one_q s e" "mutex_ok s e" "handle OBJECT_SEM_M LW_TYPE_EVENT_MUTEX s ulId e" "LW_CPU_GET_CUR_NESTING s = 0"
    and "e < LW_CFG_MAX_EVENTS" "EVENT_ulOption (k_event s e) AND LW_OPTION_DELETE_SAFE = 0"
  shows "fst (SemaphoreMDelete ulId s) = ERROR_NONE \<and>
    kinv (snd (snd (SemaphoreMDelete ulId s))) \<and> pool_inv (snd (snd (SemaphoreMDelete ulId s))) \<and>
    k_freeEvents (snd (snd (SemaphoreMDelete ulId s))) = k_freeEvents s @ [e] \<and>
    (\<forall>t\<in>waiters s e EVENT_SEM_Q.
      tcb_status (snd (snd (SemaphoreMDelete ulId s))) t = woken_status LW_THREAD_STATUS_SEM (tcb_status s t) \<and>
      TCB_ucIsEventDelete (k_tcb (snd (snd (SemaphoreMDelete ulId s))) t) = LW_EVENT_DELETE) \<and>
    (\<forall>t. mx_owner (mutex_of s e) = Some t \<longrightarrow>
      tcb_prio (snd (snd (SemaphoreMDelete ulId s))) t = mx_saved (mutex_of s e))"
  using SemaphoreMDelete_ok[OF assms] assms(2) by (auto simp: mutex_ok_def)

theorem mutex_delete_witness:
  "fst (SemaphoreMDelete (boot_id OBJECT_SEM_M) (mutex_at (Some 3))) = ERROR_NONE \<and>
   tcb_prio (snd (snd (SemaphoreMDelete (boot_id OBJECT_SEM_M) (mutex_at (Some 3))))) 3 = 150"
proof -
  have "one_q (mutex_at (Some 3)) 0"
    by (simp add: one_q_def mutex_at_def kinv_boot1 order_boot1 pool_inv_boot1)
  from mutex_delete[OF this mutex_at_ok(7,2,3)] show ?thesis by (simp add: mutex_at_ok(1,6))
qed

section \<open>Reader-writer semaphores\<close>

text \<open>\<open>n\<close> readers, or the thread \<open>t\<close> writing.\<close>

definition rw_at :: "ULONG \<Rightarrow> tid option \<Rightarrow> kernel" where
  "rw_at n ow = boot1 (\<lambda>ev. ev\<lparr>EVENT_ucType := LW_TYPE_EVENT_SEMRW, EVENT_pvTcbOwn := ow, EVENT_ulCounter := n,
     EVENT_iStatus := (if ow = None then EVENT_RW_STATUS_R else EVENT_RW_STATUS_W)\<rparr>)"

lemma rw_at_ok:
  "rwlock_of (rw_at n ow) 0 = \<lparr>rw_writing = (ow \<noteq> None), rw_count = unat n, rw_owner = ow, rw_depth = 0,
     rw_readers = [], rw_writers = []\<rparr>"
  "handle OBJECT_SEM_RW LW_TYPE_EVENT_SEMRW (rw_at n ow) (boot_id OBJECT_SEM_RW) 0"
  "LW_CPU_GET_CUR_NESTING (rw_at n ow) = 0" "k_sysRunning (rw_at n ow)" "runs (rw_at n ow) 2"
  "EVENT_ulOption (k_event (rw_at n ow) 0) = 0" "LW_TCB_GET_CUR (rw_at n ow) = 2"
  "ow \<noteq> None \<longrightarrow> n = 1 \<Longrightarrow> rw_ok (rw_at n ow) 0"
proof -
  show r: "rwlock_of (rw_at n ow) 0 = \<lparr>rw_writing = (ow \<noteq> None), rw_count = unat n, rw_owner = ow, rw_depth = 0,
     rw_readers = [], rw_writers = []\<rparr>"
    by (simp add: rw_at_def rwlock_of_def order_boot1) (simp add: boot_event_def)
  show "EVENT_ulOption (k_event (rw_at n ow) 0) = 0" by (simp add: rw_at_def) (simp add: boot_event_def)
  show "ow \<noteq> None \<longrightarrow> n = 1 \<Longrightarrow> rw_ok (rw_at n ow) 0"
    unfolding rw_ok_def r by (auto simp: rw_at_def kinv_boot1 order_boot1 rw_wf_def)
qed (simp_all add: rw_at_def handle_boot1)

text \<open>
  C19: A reader is admitted while nobody writes and no writer waits, a writer when nobody
  holds the lock; a writing thread may take the lock again; anybody else is refused or
  blocks in its place in the queue of its kind.
\<close>

theorem rw_pend_refines:
  assumes "rw_ok s e" "handle OBJECT_SEM_RW LW_TYPE_EVENT_SEMRW s ulId e"
    and "LW_CPU_GET_CUR_NESTING s = 0" "k_sysRunning s" "runs s t" "rw_count (rwlock_of s e) < 2 ^ 32 - 1"
  shows "rw_ok (snd (SemaphoreRWPendR ulId d s)) e \<and> rw_ok (snd (SemaphoreRWPendW ulId d s)) e \<and>
    (let (out, a) = rw_pend_r (d \<noteq> LW_OPTION_NOT_WAIT) (by_prio s e) (tcb_prio s) t (rwlock_of s e) in
      fst (SemaphoreRWPendR ulId d s) = rwpend_code s e d out \<and> rwlock_of (snd (SemaphoreRWPendR ulId d s)) e = a \<and>
      (out = Waits \<longrightarrow> t \<notin> ready_set (snd (SemaphoreRWPendR ulId d s)))) \<and>
    (let (out, a) = rw_pend_w (d \<noteq> LW_OPTION_NOT_WAIT) (by_prio s e) (tcb_prio s) t (rwlock_of s e) in
      fst (SemaphoreRWPendW ulId d s) = rwpend_code s e d out \<and> rwlock_of (snd (SemaphoreRWPendW ulId d s)) e = a \<and>
      (out = Waits \<longrightarrow> t \<notin> ready_set (snd (SemaphoreRWPendW ulId d s))))"
  using SemaphoreRWPendR_refines[OF assms, of d] SemaphoreRWPendW_refines[OF assms(1-5), of d]
  by (simp add: split_beta)

theorem rw_pend_refines_witness:
  "rw_count (rwlock_of (snd (SemaphoreRWPendR (boot_id OBJECT_SEM_RW) 7 (rw_at 3 None))) 0) = 4 \<and>
   rw_writers (rwlock_of (snd (SemaphoreRWPendW (boot_id OBJECT_SEM_RW) 7 (rw_at 3 None))) 0) = [2] \<and>
   rw_readers (rwlock_of (snd (SemaphoreRWPendR (boot_id OBJECT_SEM_RW) 7 (rw_at 1 (Some 3)))) 0) = [2] \<and>
   rw_depth (rwlock_of (snd (SemaphoreRWPendW (boot_id OBJECT_SEM_RW) 7 (rw_at 1 (Some 2)))) 0) = 1"
  using rw_pend_refines[OF rw_at_ok(8,2,3,4,5), of None 3 7] rw_pend_refines[OF rw_at_ok(8,2,3,4,5), of "Some 3" 1 7]
    rw_pend_refines[OF rw_at_ok(8,2,3,4,5), of "Some 2" 1 7]
  by (simp add: rw_at_ok(1) rw_pend_r_def rw_pend_w_def enqueue_def)

text \<open>
  C20: \<open>API_SemaphoreRWPost\<close> by a thread that does not hold the lock is refused; a reader that
  is not the last just leaves, a nested writer undoes one nesting; the last holder gives the
  lock to the first waiting writer, or, without \<open>LW_OPTION_RW_PREFER_WRITER\<close> after reading
  or when no writer waits, to all waiting readers at once, or frees it.  Every thread that
  gets the lock leaves its wait.
\<close>

theorem rw_post_refines:
  assumes "rw_ok s e" "handle OBJECT_SEM_RW LW_TYPE_EVENT_SEMRW s ulId e"
    and "LW_CPU_GET_CUR_NESTING s = 0" "k_sysRunning s" "LW_TCB_GET_CUR s = t"
  shows "rw_ok (snd (SemaphoreRWPost ulId s)) e \<and>
    (let (out, a) = rw_post (EVENT_ulOption (k_event s e) AND LW_OPTION_RW_PREFER_WRITER \<noteq> 0) t (rwlock_of s e) in
      fst (SemaphoreRWPost ulId s) = rwpost_code e out \<and> rwlock_of (snd (SemaphoreRWPost ulId s)) e = a \<and>
      (\<forall>u. out = To_writer u \<or> out = To_readers \<and> u \<in> set (rw_readers (rwlock_of s e)) \<longrightarrow>
        tcb_status (snd (SemaphoreRWPost ulId s)) u = woken_status LW_THREAD_STATUS_SEM (tcb_status s u)))"
  using SemaphoreRWPost_refines[OF assms] by (auto simp: split_beta)

theorem rw_post_refines_witness:
  "rwlock_of (snd (SemaphoreRWPost (boot_id OBJECT_SEM_RW) (rw_at 1 (Some 2)))) 0 =
     \<lparr>rw_writing = False, rw_count = 0, rw_owner = None, rw_depth = 0, rw_readers = [], rw_writers = []\<rparr> \<and>
   rw_count (rwlock_of (snd (SemaphoreRWPost (boot_id OBJECT_SEM_RW) (rw_at 3 None))) 0) = 2 \<and>
   fst (SemaphoreRWPost (boot_id OBJECT_SEM_RW) (rw_at 1 (Some 3))) = Posted ERROR_EVENT_NOT_OWN"
  using rw_post_refines[OF rw_at_ok(8,2,3,4,7), of None 3] rw_post_refines[OF rw_at_ok(8,2,3,4,7), of "Some 3" 1]
    rw_post_refines[OF rw_at_ok(8,2,3,4,7), of "Some 2" 1]
  by (simp add: rw_at_ok(1) rw_post_def rw_release_def)

end
