(* ===== verification/Sem_Api.thy ===== *)
theory Sem_Api
  imports Sem_Count Sem_Binary Sem_Mutex Sem_Rw
begin

text \<open>
  The semaphore routines that accept a handle of any kind (SemaphorePend.c, SemaphorePost.c,
  SemaphoreFlush.c, SemaphoreDelete.c, SemaphoreGetName.c), and the routines that post one
  semaphore and wait for another under one kernel lock (SemaphorePostPend.c).
\<close>

section \<open>Dispatch on the class of the handle\<close>

definition SemaphorePend :: "ULONG \<Rightarrow> ULONG \<Rightarrow> kernel \<Rightarrow> pend_out \<times> kernel" where
  "SemaphorePend ulId ulTimeout s = (let ulObjectClass = ObjectGetClass ulId in
     if ulObjectClass = ucast OBJECT_SEM_B then SemaphoreBPend ulId ulTimeout s
     else if ulObjectClass = ucast OBJECT_SEM_C then SemaphoreCPend ulId ulTimeout s
     else if ulObjectClass = ucast OBJECT_SEM_M then SemaphoreMPend ulId ulTimeout s
     else (Done ERROR_KERNEL_HANDLE_NULL, ErrorHandle ERROR_KERNEL_HANDLE_NULL s))"

fun posted :: "ULONG \<times> kernel \<Rightarrow> post_out \<times> kernel" where
  "posted (r, s) = (Posted r, s)"

definition SemaphorePost :: "ULONG \<Rightarrow> kernel \<Rightarrow> post_out \<times> kernel" where
  "SemaphorePost ulId s = (let ulObjectClass = ObjectGetClass ulId in
     if ulObjectClass = ucast OBJECT_SEM_B then posted (SemaphoreBPost ulId s)
     else if ulObjectClass = ucast OBJECT_SEM_C then posted (SemaphoreCPost ulId s)
     else if ulObjectClass = ucast OBJECT_SEM_M then SemaphoreMPost ulId s
     else if ulObjectClass = ucast OBJECT_SEM_RW then SemaphoreRWPost ulId s
     else (Posted ERROR_KERNEL_HANDLE_NULL, ErrorHandle ERROR_KERNEL_HANDLE_NULL s))"

definition SemaphoreFlush :: "ULONG \<Rightarrow> bool \<Rightarrow> kernel \<Rightarrow> (ULONG \<times> UINT16 option) \<times> kernel" where
  "SemaphoreFlush ulId pulThreadUnblockNum s = (let ulObjectClass = ObjectGetClass ulId in
     if ulObjectClass = ucast OBJECT_SEM_B then SemaphoreBFlush ulId pulThreadUnblockNum s
     else if ulObjectClass = ucast OBJECT_SEM_C then SemaphoreCFlush ulId pulThreadUnblockNum s
     else ((ERROR_KERNEL_HANDLE_NULL, None), ErrorHandle ERROR_KERNEL_HANDLE_NULL s))"

definition SemaphoreDelete :: "ULONG \<Rightarrow> kernel \<Rightarrow> ULONG \<times> ULONG \<times> kernel" where
  "SemaphoreDelete ulId s = (let ulObjectClass = ObjectGetClass ulId in
     if ulObjectClass = ucast OBJECT_SEM_B then SemaphoreBDelete ulId s
     else if ulObjectClass = ucast OBJECT_SEM_C then SemaphoreCDelete ulId s
     else if ulObjectClass = ucast OBJECT_SEM_M then SemaphoreMDelete ulId s
     else if ulObjectClass = ucast OBJECT_SEM_RW then SemaphoreRWDelete ulId s
     else (ERROR_KERNEL_HANDLE_NULL, ulId, ErrorHandle ERROR_KERNEL_HANDLE_NULL s))"

definition SemaphoreGetName :: "ULONG \<Rightarrow> bool \<Rightarrow> kernel \<Rightarrow> (ULONG \<times> string option) \<times> kernel" where
  "SemaphoreGetName ulId pcName s =
    (if LW_CPU_GET_CUR_NESTING s \<noteq> 0 then ((ERROR_KERNEL_IN_ISR, None), ErrorHandle ERROR_KERNEL_IN_ISR s)
     else if \<not> pcName then ((ERROR_KERNEL_PNAME_NULL, None), ErrorHandle ERROR_KERNEL_PNAME_NULL s)
     else if Event_Index_Invalid (ObjectGetIndex ulId)
       then ((ERROR_KERNEL_HANDLE_NULL, None), ErrorHandle ERROR_KERNEL_HANDLE_NULL s)
     else let s1 = KERNEL_ENTER s; ev = k_event s1 (unat (ObjectGetIndex ulId)) in
       if EVENT_ucType ev \<in> {LW_TYPE_EVENT_SEMC, LW_TYPE_EVENT_SEMB, LW_TYPE_EVENT_SEMRW, LW_TYPE_EVENT_MUTEX}
       then ((ERROR_NONE, Some (EVENT_cEventName ev)), KERNEL_EXIT s1)
       else ((ERROR_EVENT_TYPE, None), ErrorHandle_of s ERROR_EVENT_TYPE (KERNEL_EXIT s1)))"

section \<open>Posting one semaphore and waiting for another\<close>

text \<open>\<open>API_SemaphorePost\<close> called with the kernel locked: the code behind its
  \<open>__KERNEL_EXIT\<close> runs at once.\<close>

definition SemaphorePost_locked :: "ULONG \<Rightarrow> kernel \<Rightarrow> ULONG \<times> kernel" where
  "SemaphorePost_locked ulId s = (case SemaphorePost ulId s of
     (Posted r, s1) \<Rightarrow> (r, s1) | (ThenUnsafe e, s1) \<Rightarrow> Unsafe_tail e s1)"

text \<open>What a call returns when it continues behind its scheduling point.\<close>

definition PendFlags :: "tcb \<Rightarrow> ULONG" where
  "PendFlags tc = (if TCB_ucWaitTimeout tc = LW_WAIT_TIME_OUT then ERROR_THREAD_WAIT_TIMEOUT
     else if TCB_ucIsEventDelete tc = LW_EVENT_EXIST then ERROR_NONE else ERROR_EVENT_WAS_DELETED)"

text \<open>\<open>PendExit\<close>: the caller stands in the queue and leaves the kernel.  \<open>__kernelExit\<close> schedules
  only when it undoes the last \<open>__KERNEL_ENTER\<close>; otherwise it answers zero and the call goes on.\<close>

definition PendExit :: "ULONG \<Rightarrow> ULONG \<Rightarrow> ULONG \<Rightarrow> kernel \<Rightarrow> pend_out \<times> kernel" where
  "PendExit ulTimeout ulTimeSave ulEventOption s =
    (if CPU_iKernelCounter (cur_cpu s) = 1 then (Blocked ulTimeout ulTimeSave ulEventOption, KERNEL_EXIT s)
     else let s1 = KERNEL_EXIT s; r = PendFlags (k_tcb s1 (LW_TCB_GET_CUR s1)) in (Done r, ErrorHandle r s1))"

text \<open>The label \<open>__wait_again\<close> of \<open>API_SemaphorePostBPend\<close>.\<close>

definition SemaphorePostBPend_again :: "ULONG \<Rightarrow> ULONG \<Rightarrow> kernel \<Rightarrow> pend_out \<times> kernel" where
  "SemaphorePostBPend_again ulId ulTimeout s = (let usIndex = ObjectGetIndex ulId; e = unat usIndex;
       over = \<lambda>ulError s1. (Done ulError, ErrorHandle_of s ulError (KERNEL_EXIT s1)) in
     if \<not> ObjectClassOK ulId OBJECT_SEM_B then over ERROR_KERNEL_HANDLE_NULL s
     else if Event_Index_Invalid usIndex then over ERROR_KERNEL_HANDLE_NULL s
     else if Event_Type_Invalid s usIndex LW_TYPE_EVENT_SEMB then over ERROR_EVENT_TYPE s
     else if EVENT_ulCounter (k_event s e) \<noteq> 0
       then over ERROR_NONE (event_upd e (\<lambda>ev. ev\<lparr>EVENT_ulCounter := 0\<rparr>) s)
     else if ulTimeout = LW_OPTION_NOT_WAIT then over ERROR_THREAD_WAIT_TIMEOUT s
     else let s1 = PendBlock e EVENT_SEM_Q LW_THREAD_STATUS_SEM ulTimeout s
          in PendExit ulTimeout (KERNEL_TIME_GET s) (EVENT_ulOption (k_event s1 e)) s1)"

definition SemaphorePostCPend_again :: "ULONG \<Rightarrow> ULONG \<Rightarrow> kernel \<Rightarrow> pend_out \<times> kernel" where
  "SemaphorePostCPend_again ulId ulTimeout s = (let usIndex = ObjectGetIndex ulId; e = unat usIndex;
       over = \<lambda>ulError s1. (Done ulError, ErrorHandle_of s ulError (KERNEL_EXIT s1)) in
     if \<not> ObjectClassOK ulId OBJECT_SEM_C then over ERROR_KERNEL_HANDLE_NULL s
     else if Event_Index_Invalid usIndex then over ERROR_KERNEL_HANDLE_NULL s
     else if Event_Type_Invalid s usIndex LW_TYPE_EVENT_SEMC then over ERROR_EVENT_TYPE s
     else if EVENT_ulCounter (k_event s e) \<noteq> 0
       then over ERROR_NONE (event_upd e (\<lambda>ev. ev\<lparr>EVENT_ulCounter := EVENT_ulCounter ev - 1\<rparr>) s)
     else if ulTimeout = LW_OPTION_NOT_WAIT then over ERROR_THREAD_WAIT_TIMEOUT s
     else let s1 = PendBlock e EVENT_SEM_Q LW_THREAD_STATUS_SEM ulTimeout s
          in PendExit ulTimeout (KERNEL_TIME_GET s) (EVENT_ulOption (k_event s1 e)) s1)"

text \<open>The part both routines share: the checks and the post.\<close>

definition PostPend_begin :: "ULONG \<Rightarrow> kernel \<Rightarrow> (ULONG \<times> kernel) + kernel" where
  "PostPend_begin ulIdPost s = (let ulObjectClass = ObjectGetClass ulIdPost in
     if LW_CPU_GET_CUR_NESTING s \<noteq> 0 then Inl (ERROR_KERNEL_IN_ISR, ErrorHandle ERROR_KERNEL_IN_ISR s)
     else if ulObjectClass \<noteq> ucast OBJECT_SEM_B \<and> ulObjectClass \<noteq> ucast OBJECT_SEM_C \<and> ulObjectClass \<noteq> ucast OBJECT_SEM_M
       then Inl (ERROR_KERNEL_HANDLE_NULL, ErrorHandle ERROR_KERNEL_HANDLE_NULL s)
     else if Event_Index_Invalid (ObjectGetIndex ulIdPost)
       then Inl (ERROR_KERNEL_HANDLE_NULL, ErrorHandle ERROR_KERNEL_HANDLE_NULL s)
     else let (ulError, s1) = SemaphorePost_locked ulIdPost (KERNEL_ENTER s)
       in if ulError \<noteq> 0 then Inl (ulError, KERNEL_EXIT s1) else Inr s1)"

definition SemaphorePostBPend :: "ULONG \<Rightarrow> ULONG \<Rightarrow> ULONG \<Rightarrow> kernel \<Rightarrow> pend_out \<times> kernel" where
  "SemaphorePostBPend ulIdPost ulId ulTimeout s = (case PostPend_begin ulIdPost s of
     Inl (r, s1) \<Rightarrow> (Done r, s1) | Inr s1 \<Rightarrow> SemaphorePostBPend_again ulId ulTimeout s1)"

definition SemaphorePostCPend :: "ULONG \<Rightarrow> ULONG \<Rightarrow> ULONG \<Rightarrow> kernel \<Rightarrow> pend_out \<times> kernel" where
  "SemaphorePostCPend ulIdPost ulId ulTimeout s = (case PostPend_begin ulIdPost s of
     Inl (r, s1) \<Rightarrow> (Done r, s1) | Inr s1 \<Rightarrow> SemaphorePostCPend_again ulId ulTimeout s1)"

text \<open>The resumed thread.  After a restart by a signal it continues at \<open>__wait_again\<close>, which
  does not enter the kernel again.\<close>

definition SemaphorePostBPend_wake :: "ULONG \<Rightarrow> ULONG \<Rightarrow> ULONG \<Rightarrow> ULONG \<Rightarrow> kernel \<Rightarrow> pend_out \<times> kernel" where
  "SemaphorePostBPend_wake ulId ulTimeout ulTimeSave ulEventOption s =
    (case PendWake ulTimeout ulTimeSave ulEventOption s of
       (WakeDone r, s1) \<Rightarrow> (Done r, s1)
     | (WakeAgain ulTimeout', s1) \<Rightarrow> SemaphorePostBPend_again ulId ulTimeout' s1)"

definition SemaphorePostCPend_wake :: "ULONG \<Rightarrow> ULONG \<Rightarrow> ULONG \<Rightarrow> ULONG \<Rightarrow> kernel \<Rightarrow> pend_out \<times> kernel" where
  "SemaphorePostCPend_wake ulId ulTimeout ulTimeSave ulEventOption s =
    (case PendWake ulTimeout ulTimeSave ulEventOption s of
       (WakeDone r, s1) \<Rightarrow> (Done r, s1)
     | (WakeAgain ulTimeout', s1) \<Rightarrow> SemaphorePostCPend_again ulId ulTimeout' s1)"

section \<open>The dispatch is exact\<close>

lemma ObjectClassOK_class: "ObjectClassOK ulId c \<longleftrightarrow> ObjectGetClass ulId = ucast c"
  by (simp add: ObjectClassOK_def ObjectGetClass_def)

lemma dispatch_class:
  assumes "handle c ty s ulId e" shows "ObjectGetClass ulId = ucast c"
  using assms by (simp add: handle_def ObjectClassOK_class)

section \<open>Under the kernel lock\<close>

text \<open>\<open>cpus_kept s s'\<close>: nothing was scheduled; the CPUs differ at most in their ready structures.\<close>

definition cpus_kept :: "kernel \<Rightarrow> kernel \<Rightarrow> bool" where
  "cpus_kept s s' \<longleftrightarrow> (\<forall>c. cpu_core (k_cpu s' c) = cpu_core (k_cpu s c)) \<and> k_curcpu s' = k_curcpu s
     \<and> k_i64KernelTime s' = k_i64KernelTime s"

lemma cpus_kept_refl [simp]: "cpus_kept s s"
  by (simp add: cpus_kept_def)

lemma cpus_kept_trans [trans]: "\<lbrakk>cpus_kept s s'; cpus_kept s' s''\<rbrakk> \<Longrightarrow> cpus_kept s s''"
  by (simp add: cpus_kept_def)

lemma cpus_kept_frame: "sched_frame s s' \<Longrightarrow> cpus_kept s s'"
  by (simp add: cpus_kept_def sched_frame_cpu sched_frame_kernelD)

lemma cpus_keptD:
  assumes "cpus_kept s s'"
  shows "LW_TCB_GET_CUR s' = LW_TCB_GET_CUR s" "CPU_iKernelCounter (cur_cpu s') = CPU_iKernelCounter (cur_cpu s)"
    "LW_CPU_GET_CUR_NESTING s' = LW_CPU_GET_CUR_NESTING s" "KERNEL_TIME_GET s' = KERNEL_TIME_GET s" "k_curcpu s' = k_curcpu s"
  using assms cpu_core_eqD[of "cur_cpu s'" "cur_cpu s"]
  by (simp_all add: cpus_kept_def LW_TCB_GET_CUR_def LW_CPU_GET_CUR_NESTING_def KERNEL_TIME_GET_def)

lemma cpus_kept_same: "\<lbrakk>k_cpu s' = k_cpu s; k_curcpu s' = k_curcpu s; k_i64KernelTime s' = k_i64KernelTime s\<rbrakk> \<Longrightarrow> cpus_kept s s'"
  by (simp add: cpus_kept_def)

lemma cpus_kept_upd [simp]: "cpus_kept s (tcb_upd t f s)" "cpus_kept s (event_upd e g s)" "cpus_kept s (s\<lparr>k_delay := w\<rparr>)"
  "cpus_kept s (set_ulDelay t v s)" "cpus_kept s (event_wq_upd e q h s)" "cpus_kept s (DEL_FROM_WAKEUP_LINE t s)"
  "cpus_kept s (ADD_TO_WAKEUP_LINE t s)"
  by (simp_all add: cpus_kept_def set_ulDelay_def event_wq_upd_def DEL_FROM_WAKEUP_LINE_def ADD_TO_WAKEUP_LINE_def)

lemma cpus_kept_High [simp]: "cpus_kept s (EventReadyHighLevel t ty s)"
proof -
  have a: "cpus_kept s (ADD_TO_READY_RING t pp s')" if "cpus_kept s s'" for s' pp
    using that cpus_kept_frame[OF sched_frame_ops(1)] by (rule cpus_kept_trans)
  have u: "cpus_kept s (tcb_upd t f s')" if "cpus_kept s s'" for s' f
    using that cpus_kept_upd(1) by (rule cpus_kept_trans)
  show ?thesis by (auto simp: EventReadyHighLevel_def Let_def intro!: a u)
qed

lemma cpus_kept_Low [simp]: "cpus_kept s (snd (ReadyLowLevel e q m s))"
  by (simp add: ReadyLowLevel_def EventReadyPriorityLowLevel_def EventReadyFifoLowLevel_def ReadyLowLevel_tail_def
      DelTCBFromEventPriority_def DelTCBFromEventFifo_def DEL_FROM_WAKEUP_LINE_def set_ulDelay_def event_wq_upd_def
      Let_def cpus_kept_def)

lemma cpus_kept_ReadyOne [simp]: "cpus_kept s (snd (ReadyOne e q m ty s))"
  using cpus_kept_trans[OF cpus_kept_Low cpus_kept_High] by (simp add: ReadyOne_def split_beta)

lemma cpus_kept_PendBlock [simp]: "cpus_kept s (PendBlock e q ty d s)"
proof -
  have d: "cpus_kept s (DEL_FROM_READY_RING t pp s')" if "cpus_kept s s'" for s' pp t
    using that cpus_kept_frame[OF sched_frame_ops(2)] by (rule cpus_kept_trans)
  have u: "cpus_kept s (tcb_upd t f s')" "cpus_kept s (set_ulDelay t v s')" "cpus_kept s (ADD_TO_WAKEUP_LINE t s')"
    "cpus_kept s (event_wq_upd e q h s')"
    if "cpus_kept s s'" for s' f t v e q h
    by (rule cpus_kept_trans[OF that]; simp)+
  show ?thesis
    by (auto simp: PendBlock_def EventWaitPriority_def EventWaitFifo_def AddTCBToEventPriority_def AddTCBToEventFifo_def
        Let_def intro!: d u)
qed

text \<open>A nested call of a routine leaves the kernel locked, and nothing is scheduled.\<close>

lemma cpu_core_counter [simp]: "cpu_core (p\<lparr>CPU_iKernelCounter := n\<rparr>) = (cpu_core p)\<lparr>CPU_iKernelCounter := n\<rparr>"
  by (simp add: cpu_core_def)

lemma locked_exit:
  assumes "cpus_kept (KERNEL_ENTER s) s'" "CPU_iKernelCounter (cur_cpu s) \<noteq> 0"
  shows "cpus_kept s (KERNEL_EXIT s')"
proof -
  have n: "CPU_iKernelCounter (cur_cpu s') = CPU_iKernelCounter (cur_cpu s) + 1" "k_curcpu s' = k_curcpu s"
    using cpus_keptD(2,5)[OF assms(1)] by (simp_all add: KERNEL_ENTER_def)
  have c: "cpu_core (k_cpu s' c) = (if c = k_curcpu s then (cpu_core (cur_cpu s))\<lparr>CPU_iKernelCounter := CPU_iKernelCounter (cur_cpu s) + 1\<rparr>
      else cpu_core (k_cpu s c))" for c
    using assms(1) by (simp add: cpus_kept_def KERNEL_ENTER_def)
  have "(cpu_core p)\<lparr>CPU_iKernelCounter := CPU_iKernelCounter p\<rparr> = cpu_core p" for p by (simp add: cpu_core_def)
  then show ?thesis using assms n c[of "k_curcpu s"] c
    by (auto simp: KERNEL_EXIT_def Let_def cpus_kept_def KERNEL_ENTER_def)
qed

lemma cpus_kept_ErrorHandle:
  assumes "LW_CPU_GET_CUR_NESTING ctx = 0" shows "cpus_kept s (ErrorHandle_of ctx c s)"
  using assms by (auto simp: ErrorHandle_of_def LW_CPU_GET_CUR_NESTING_def cpus_kept_def split: option.split)

text \<open>\<open>others_kept e s s'\<close>: the other events, and what a later \<open>Pend\<close> reads of the threads.\<close>

definition others_kept :: "eid \<Rightarrow> kernel \<Rightarrow> kernel \<Rightarrow> bool" where
  "others_kept e s s' \<longleftrightarrow> (\<forall>e'. e' \<noteq> e \<longrightarrow> ev_core (k_event s' e') = ev_core (k_event s e') \<and>
      wait_order s' e' EVENT_SEM_Q = wait_order s e' EVENT_SEM_Q \<and>
      (order_ok s' e' EVENT_SEM_Q \<longleftrightarrow> order_ok s e' EVENT_SEM_Q)) \<and>
     ready_set s \<subseteq> ready_set s' \<and> (\<forall>t. tcb_prio s' t = tcb_prio s t) \<and> k_ncpus s' = k_ncpus s"

lemma others_kept_trans: "\<lbrakk>others_kept e s s'; others_kept e s' s''\<rbrakk> \<Longrightarrow> others_kept e s s''"
  by (auto simp: others_kept_def)

lemma others_kept_basic [simp]:
  "others_kept e s (KERNEL_ENTER s)" "others_kept e s (KERNEL_EXIT s)" "others_kept e s (ErrorHandle_of ctx c s)"
  by (simp add: others_kept_def ready_set_def) (simp_all add: others_kept_def)

lemma others_kept_ReadyOne:
  assumes k: "kinv s" and ne: "EventWaitNum s EVENT_SEM_Q e \<noteq> 0"
  shows "others_kept e s (snd (ReadyOne e EVENT_SEM_Q m LW_THREAD_STATUS_SEM s))"
proof -
  note r = ReadyOne_ok[OF k ne, where m = m and ty = LW_THREAD_STATUS_SEM]
  have "tcb_prio (snd (ReadyOne e EVENT_SEM_Q m LW_THREAD_STATUS_SEM s)) u = tcb_prio s u" for u
    by (simp add: ReadyOne_def split_beta ReadyLowLevel_def EventReadyPriorityLowLevel_def EventReadyFifoLowLevel_def
        ReadyLowLevel_tail_tcb DelTCBFromEventPriority_def DelTCBFromEventFifo_def event_wq_upd_def Let_def)
  then show ?thesis using r(5,12,16) ReadyOne_same[OF k ne] by (auto simp: others_kept_def)
qed

lemma others_kept_upd:
  assumes "keeps_queue f (k_event s e)" shows "others_kept e s (event_upd e f s)"
  using event_upd_reads[OF assms] by (simp add: others_kept_def ready_set_def)

text \<open>Posting a counting semaphore with the kernel locked.\<close>

lemma CPost_locked:
  assumes q: "queue_ok s e" and h: "handle OBJECT_SEM_C LW_TYPE_EVENT_SEMC s ulId e"
    and n: "LW_CPU_GET_CUR_NESTING s = 0" and l: "CPU_iKernelCounter (cur_cpu s) \<noteq> 0"
  shows "cpus_kept s (snd (SemaphoreCPost ulId s))" "others_kept e s (snd (SemaphoreCPost ulId s))"
proof -
  let ?s1 = "KERNEL_ENTER s"
  have k: "kinv ?s1" using q by (simp add: queue_ok_def)
  have c: "cpus_kept s (snd (SemaphoreCPost ulId s)) \<and> others_kept e ?s1 (snd (SemaphoreCPost ulId s))"
  proof (cases "EventWaitNum ?s1 EVENT_SEM_Q e \<noteq> 0")
    case True
    then show ?thesis using locked_exit[OF cpus_kept_ReadyOne l]
        others_kept_trans[OF others_kept_ReadyOne[OF k True] others_kept_basic(2)]
      by (simp add: SemaphoreCPost_def EventOpen_handle[OF h])
  next
    case False
    then show ?thesis using locked_exit[OF cpus_kept_upd(2) l] locked_exit[OF cpus_kept_refl l]
        cpus_kept_trans[OF locked_exit[OF cpus_kept_refl l] cpus_kept_ErrorHandle[OF n]]
        others_kept_trans[OF others_kept_upd others_kept_basic(2)]
        others_kept_trans[OF others_kept_basic(2) others_kept_basic(3)]
      by (simp add: SemaphoreCPost_def EventOpen_handle[OF h] PostFull_def)
  qed
  then show "cpus_kept s (snd (SemaphoreCPost ulId s))" by simp
  show "others_kept e s (snd (SemaphoreCPost ulId s))" using c others_kept_trans[OF others_kept_basic(1)] by blast
qed

end
