(* ===== verification/Compose_Props.thy ===== *)
theory Compose_Props
  imports Kernel_Safety Sem_Api
begin

text \<open>
  Posting one semaphore and waiting for another under one kernel lock, and what happens
  when a signal restarts that wait.
\<close>




section \<open>One lock for both\<close>



section \<open>A restarted wait\<close>

text \<open>
  C22: When a signal restarts a blocked \<open>API_SemaphorePostBPend\<close>, the thread is at
  \<open>__wait_again\<close> without the kernel lock.  If the semaphore is still empty it queues itself,
  its \<open>__KERNEL_EXIT\<close> does not schedule, and the routine returns \<open>ERROR_NONE\<close> at once: the
  caller goes on without the semaphore, while it stands in the wait queue and is not ready.
\<close>

theorem post_pend_restart_unblocked:
  assumes "kinv s" "runs s t" "CPU_iKernelCounter (cur_cpu s) = 0"
    and "handle OBJECT_SEM_B LW_TYPE_EVENT_SEMB s ulId e" "EVENT_ulCounter (k_event s e) = 0"
    and "TCB_iSchedRet (k_tcb s t) \<noteq> 0" "TCB_iSchedRet (k_tcb s t) \<noteq> LW_SIGNAL_EINTR"
    and "sigTimeoutRecalc s sv d \<noteq> LW_OPTION_NOT_WAIT"
  shows "fst (SemaphorePostBPend_wake ulId d sv opt s) = Done ERROR_NONE \<and>
    EVENT_ulCounter (k_event (snd (SemaphorePostBPend_wake ulId d sv opt s)) e) = 0 \<and>
    LW_TCB_GET_CUR (snd (SemaphorePostBPend_wake ulId d sv opt s)) = t \<and>
    t \<in> waiters (snd (SemaphorePostBPend_wake ulId d sv opt s)) e EVENT_SEM_Q \<and>
    t \<notin> ready_set (snd (SemaphorePostBPend_wake ulId d sv opt s))"
proof -
  let ?s1 = "tcb_upd t (\<lambda>x. x\<lparr>TCB_iSchedRet := 0\<rparr>) s" let ?d = "sigTimeoutRecalc s sv d"
  have cur: "LW_TCB_GET_CUR s = t" using assms(2) by (simp add: runs_def)
  have k1: "kinv ?s1" by (rule kinv_tcb_fields) (simp_all add: tcb_place_def assms(1))
  have r1: "runs ?s1 t" using assms(2) by (auto simp: runs_def LW_TCB_GET_CUR_def ready_set_def LW_THREAD_IS_READY_def)
  have tm: "sigTimeoutRecalc ?s1 sv d = ?d" by (simp add: sigTimeoutRecalc_def KERNEL_TIME_GET_def)
  note p = PendBlock_ok[OF k1 r1 sem_bits, where e = e and q = EVENT_SEM_Q and ulTimeout = ?d]
  let ?p = "PendBlock e EVENT_SEM_Q LW_THREAD_STATUS_SEM ?d ?s1"
  have kp: "cpus_kept s ?p" by (rule cpus_kept_trans[OF cpus_kept_upd(1) cpus_kept_PendBlock])
  have c: "CPU_iKernelCounter (cur_cpu ?p) = 0" "LW_TCB_GET_CUR ?p = t"
    using cpus_keptD(1,2)[OF kp] assms(3) cur by simp_all
  have x: "KERNEL_EXIT ?p = ?p" using c(1) by (simp add: KERNEL_EXIT_def Let_def)
  have pend_clear: "TCB_ucWaitTimeout (k_tcb ?p t) = LW_WAIT_TIME_CLEAR"
    using kinv_wait[OF p(1)] p(4) unfolding wait_inv_def wait_invx_def waits_on_def by simp
  have "PendFlags (k_tcb ?p t) = ERROR_NONE"
    using p(8) pend_clear by (simp add: PendFlags_def)
  moreover have "EVENT_ucType (k_event s e) = LW_TYPE_EVENT_SEMB" "unat (ObjectGetIndex ulId) = e"
    "ObjectClassOK ulId OBJECT_SEM_B" "\<not> Event_Index_Invalid (ObjectGetIndex ulId)"
    using assms(4) by (auto simp: handle_def)
  ultimately have "SemaphorePostBPend_wake ulId d sv opt s = (Done ERROR_NONE, ?p)"
    using assms(5-8) c x by (simp add: SemaphorePostBPend_wake_def PendWake_def Schedule_ret_def cur Let_def tm
        SemaphorePostBPend_again_def Event_Type_Invalid_def PendExit_def ErrorHandle_def ErrorHandle_of_def)
  moreover have "EVENT_ulCounter (k_event ?p e) = 0" using ev_core_eqD[OF p(11)[of e]] assms(5) by simp
  ultimately show ?thesis using p(3,4) c by (auto simp: waiters_def)
qed

theorem post_pend_restart_unblocked_witness:
  "let s = tcb_upd 2 (\<lambda>x. x\<lparr>TCB_iSchedRet := 2\<rparr>) (boot1 (\<lambda>ev. ev\<lparr>EVENT_ucType := LW_TYPE_EVENT_SEMB\<rparr>));
       r = SemaphorePostBPend_wake (boot_id OBJECT_SEM_B) LW_OPTION_WAIT_INFINITE 0 0 s
   in fst r = Done ERROR_NONE \<and> EVENT_ulCounter (k_event (snd r) 0) = 0 \<and> 2 \<in> waiters (snd r) 0 EVENT_SEM_Q \<and> LW_TCB_GET_CUR (snd r) = 2"
proof -
  let ?b = "boot1 (\<lambda>ev. ev\<lparr>EVENT_ucType := LW_TYPE_EVENT_SEMB\<rparr>)" let ?s = "tcb_upd 2 (\<lambda>x. x\<lparr>TCB_iSchedRet := 2\<rparr>) ?b"
  have "kinv ?b" by (rule kinv_boot1) simp
  then have k: "kinv ?s" by (intro kinv_tcb_fields) (simp_all add: tcb_place_def)
  have "ready_set (tcb_upd t (\<lambda>x. x\<lparr>TCB_iSchedRet := v\<rparr>) s) = ready_set s" for t v s
    by (auto simp: ready_set_def LW_THREAD_IS_READY_def)
  moreover have "LW_TCB_GET_CUR ?s = LW_TCB_GET_CUR ?b" by (simp only: LW_TCB_GET_CUR_def tcb_upd_simps)
  ultimately have r: "runs ?s 2" by (simp add: runs_def del: tcb_upd_simps(1))
  have c: "CPU_iKernelCounter (cur_cpu ?s) = 0" by simp (simp add: boot0_def boot_cpu_def)
  have "handle OBJECT_SEM_B LW_TYPE_EVENT_SEMB ?b (boot_id OBJECT_SEM_B) 0" by (rule handle_boot1) simp_all
  then have h: "handle OBJECT_SEM_B LW_TYPE_EVENT_SEMB ?s (boot_id OBJECT_SEM_B) 0" by (simp add: handle_def)
  show ?thesis unfolding Let_def
    using post_pend_restart_unblocked[OF k r c h, of 0 LW_OPTION_WAIT_INFINITE 0]
    by (simp add: sigTimeoutRecalc_def) (simp add: boot_event_def)
qed

end
