(* ===== verification/Msg_Queue.thy ===== *)
theory Msg_Queue
  imports Event_Api
begin

text \<open>
  The data of message queues: \<open>LW_CLASS_MSGQUEUE\<close> and \<open>LW_CLASS_MSGNODE\<close> of k_class.h, the
  routines of core/_MsgQueueLib.c on them, the pool of control blocks of
  list/listMsgQueue.c and core/_MsgQueueInit.c, and the lemmas that the eight lists with
  their bitmap are one stable priority queue of messages.
\<close>

section \<open>State\<close>

text \<open>The nodes of a queue are numbered by their place in \<open>MSGQUEUE_pvBuffer\<close>.
  \<open>MSGQUEUE_mono i\<close> is the list between \<open>MSGQUEUE_pmonoHeader[i]\<close> and
  \<open>MSGQUEUE_pmonoTail[i]\<close>; \<open>MSGNODE_data\<close> are the bytes behind the node.\<close>

record msgqueue =
  MSGQUEUE_pmonoFree :: "nat list"
  MSGQUEUE_mono :: "nat \<Rightarrow> nat list"
  MSGQUEUE_uiMap :: ULONG
  MSGQUEUE_stMaxBytes :: ULONG
  MSGNODE_stMsgLen :: "nat \<Rightarrow> ULONG"
  MSGNODE_data :: "nat \<Rightarrow> UINT8 list"

text \<open>The fields of the TCB that only message queues use.  Addresses of user memory are
  numbers; an address is either a byte array or a \<open>size_t\<close>.\<close>

record rxtcb =
  TCB_pvMsgQueueMessage :: nat
  TCB_stMaxByteSize :: ULONG
  TCB_pstMsgByteSize :: nat
  TCB_ulRecvOption :: ULONG

record msgs =
  mq_k :: kernel
  mq_block :: "nat \<Rightarrow> msgqueue"          \<comment> \<open>\<open>_K_msgqueueBuffer\<close>\<close>
  mq_freeBlocks :: "nat list"           \<comment> \<open>free list of \<open>_K_resrcMsgQueue\<close>\<close>
  mq_resUsed :: nat
  mq_resMaxUsed :: nat
  mq_rx :: "tid \<Rightarrow> rxtcb"
  m_buf :: "nat \<Rightarrow> UINT8 list"           \<comment> \<open>byte arrays of the threads\<close>
  m_len :: "nat \<Rightarrow> ULONG"                \<comment> \<open>\<open>size_t\<close> objects of the threads\<close>

abbreviation (input) LW_CFG_MAX_MSGQUEUES :: nat where "LW_CFG_MAX_MSGQUEUES \<equiv> 500"
abbreviation (input) EVENT_MSG_Q_PRIO :: nat where "EVENT_MSG_Q_PRIO \<equiv> 8"
abbreviation (input) EVENT_MSG_Q_PRIO_LOW :: nat where "EVENT_MSG_Q_PRIO_LOW \<equiv> 7"

definition block_upd :: "nat \<Rightarrow> (msgqueue \<Rightarrow> msgqueue) \<Rightarrow> msgs \<Rightarrow> msgs" where
  "block_upd b f m = m\<lparr>mq_block := (mq_block m)(b := f (mq_block m b))\<rparr>"

definition set_buf :: "nat \<Rightarrow> UINT8 list \<Rightarrow> msgs \<Rightarrow> msgs" where
  "set_buf a v m = m\<lparr>m_buf := (m_buf m)(a := v)\<rparr>"

definition set_len :: "nat \<Rightarrow> ULONG \<Rightarrow> msgs \<Rightarrow> msgs" where
  "set_len a v m = m\<lparr>m_len := (m_len m)(a := v)\<rparr>"

text \<open>\<open>lib_memcpy (dst, src, n)\<close>: the new contents of the destination.\<close>

definition memcpy :: "UINT8 list \<Rightarrow> UINT8 list \<Rightarrow> ULONG \<Rightarrow> UINT8 list" where
  "memcpy dst src n = take (unat n) src @ drop (unat n) dst"

lemma memcpy_take: "unat n \<le> length src \<Longrightarrow> take (unat n) (memcpy dst src n) = take (unat n) src"
  by (simp add: memcpy_def)

section \<open>The routines of _MsgQueueLib.c\<close>

fun MsgQueueClear_nodes :: "nat \<Rightarrow> nat \<Rightarrow> nat list \<Rightarrow> nat list" where
  "MsgQueueClear_nodes 0 i free = free"
| "MsgQueueClear_nodes (Suc n) i free = MsgQueueClear_nodes n (Suc i) (i # free)"

definition MsgQueueClear :: "ULONG \<Rightarrow> msgqueue \<Rightarrow> msgqueue" where
  "MsgQueueClear ulMsgTotal q = (let
      q1 = q\<lparr>MSGQUEUE_pmonoFree := [], MSGQUEUE_uiMap := 0\<rparr>;
      q2 = q1\<lparr>MSGQUEUE_mono := (\<lambda>i. if i < EVENT_MSG_Q_PRIO then [] else MSGQUEUE_mono q1 i)\<rparr>
    in q2\<lparr>MSGQUEUE_pmonoFree := MsgQueueClear_nodes (unat ulMsgTotal) 0 (MSGQUEUE_pmonoFree q2)\<rparr>)"

text \<open>The index \<open>archFindLsb (map) - 1\<close> is outside of the table when the map is empty.\<close>

definition MsgQueue_iQ :: "msgqueue \<Rightarrow> nat" where
  "MsgQueue_iQ q = archFindLsb (MSGQUEUE_uiMap q) - 1"

definition mq_bug :: "bool \<Rightarrow> msgs \<Rightarrow> msgs" where
  "mq_bug b m = m\<lparr>mq_k := halt_if b (mq_k m)\<rparr>"

definition MsgQueueGet :: "nat \<Rightarrow> nat \<Rightarrow> ULONG \<Rightarrow> nat \<Rightarrow> msgs \<Rightarrow> msgs" where
  "MsgQueueGet b pvMsgBuffer stMaxByteSize pstMsgLen m = (let
      q = mq_block m b;
      iQ = MsgQueue_iQ q;
      m1 = mq_bug (MSGQUEUE_mono q iQ = []) m;
      node = hd (MSGQUEUE_mono q iQ);
      q1 = q\<lparr>MSGQUEUE_mono := (MSGQUEUE_mono q)(iQ := tl (MSGQUEUE_mono q iQ))\<rparr>;
      q2 = (if MSGQUEUE_mono q1 iQ = []
            then q1\<lparr>MSGQUEUE_uiMap := MSGQUEUE_uiMap q1 AND NOT (push_bit iQ 1)\<rparr> else q1);
      m2 = set_len pstMsgLen (if stMaxByteSize < MSGNODE_stMsgLen q2 node
                              then stMaxByteSize else MSGNODE_stMsgLen q2 node) m1;
      m3 = set_buf pvMsgBuffer (memcpy (m_buf m2 pvMsgBuffer) (MSGNODE_data q2 node) (m_len m2 pstMsgLen)) m2
    in block_upd b (\<lambda>_. q2\<lparr>MSGQUEUE_pmonoFree := node # MSGQUEUE_pmonoFree q2\<rparr>) m3)"

definition MsgQueuePut :: "nat \<Rightarrow> nat \<Rightarrow> ULONG \<Rightarrow> nat \<Rightarrow> msgs \<Rightarrow> msgs" where
  "MsgQueuePut b pvMsgBuffer stMsgLen uiPrio m = (let
      q = mq_block m b;
      node = hd (MSGQUEUE_pmonoFree q);
      q1 = q\<lparr>MSGQUEUE_pmonoFree := tl (MSGQUEUE_pmonoFree q)\<rparr>;
      q2 = q1\<lparr>MSGNODE_stMsgLen := (MSGNODE_stMsgLen q1)(node := stMsgLen),
              MSGNODE_data := (MSGNODE_data q1)(node := memcpy (MSGNODE_data q1 node) (m_buf m pvMsgBuffer) stMsgLen)\<rparr>;
      q3 = (if MSGQUEUE_mono q2 uiPrio = []
            then q2\<lparr>MSGQUEUE_uiMap := MSGQUEUE_uiMap q2 OR push_bit uiPrio 1\<rparr> else q2)
    in block_upd b (\<lambda>_. q3\<lparr>MSGQUEUE_mono := (MSGQUEUE_mono q3)(uiPrio := MSGQUEUE_mono q3 uiPrio @ [node])\<rparr>) m)"

definition MsgQueueMsgLen :: "nat \<Rightarrow> msgs \<Rightarrow> ULONG \<times> msgs" where
  "MsgQueueMsgLen b m = (let q = mq_block m b; iQ = MsgQueue_iQ q
    in (MSGNODE_stMsgLen q (hd (MSGQUEUE_mono q iQ)), mq_bug (MSGQUEUE_mono q iQ = []) m))"

section \<open>The pool of control blocks (listMsgQueue.c, _MsgQueueInit.c)\<close>

definition Allocate_MsgQueue_Object :: "msgs \<Rightarrow> nat option \<times> msgs" where
  "Allocate_MsgQueue_Object m = (case mq_freeBlocks m of
     [] \<Rightarrow> (None, m)
   | b # bs \<Rightarrow> (let m1 = m\<lparr>mq_freeBlocks := bs, mq_resUsed := mq_resUsed m + 1\<rparr> in
       (Some b, if mq_resUsed m1 > mq_resMaxUsed m1 then m1\<lparr>mq_resMaxUsed := mq_resUsed m1\<rparr> else m1)))"

definition Free_MsgQueue_Object :: "nat \<Rightarrow> msgs \<Rightarrow> msgs" where
  "Free_MsgQueue_Object b m = m\<lparr>mq_freeBlocks := mq_freeBlocks m @ [b], mq_resUsed := mq_resUsed m - 1\<rparr>"

definition MsgQueueInit :: "msgs \<Rightarrow> msgs" where
  "MsgQueueInit m = m\<lparr>mq_freeBlocks := [0..<LW_CFG_MAX_MSGQUEUES], mq_resUsed := 0, mq_resMaxUsed := 0\<rparr>"

section \<open>The stored messages as one list\<close>

definition msg_at :: "msgqueue \<Rightarrow> nat \<Rightarrow> UINT8 list" where
  "msg_at q n = take (unat (MSGNODE_stMsgLen q n)) (MSGNODE_data q n)"

definition prio_list :: "(nat \<Rightarrow> 'a list) \<Rightarrow> nat list \<Rightarrow> (nat \<times> 'a) list" where
  "prio_list f is = concat (map (\<lambda>i. map (Pair i) (f i)) is)"

text \<open>The messages with their priorities, in the order in which they are received.\<close>

definition stored :: "msgqueue \<Rightarrow> (nat \<times> UINT8 list) list" where
  "stored q = prio_list (\<lambda>i. map (msg_at q) (MSGQUEUE_mono q i)) [0..<EVENT_MSG_Q_PRIO]"

definition stored_nodes :: "msgqueue \<Rightarrow> nat list" where
  "stored_nodes q = concat (map (MSGQUEUE_mono q) [0..<EVENT_MSG_Q_PRIO])"

text \<open>\<open>mq_wf n q\<close>: the \<open>n\<close> nodes are in one place each, the bitmap names the lists that
  are not empty.\<close>

definition mq_wf :: "nat \<Rightarrow> msgqueue \<Rightarrow> bool" where
  "mq_wf n q \<longleftrightarrow> distinct (MSGQUEUE_pmonoFree q @ stored_nodes q) \<and>
     set (MSGQUEUE_pmonoFree q @ stored_nodes q) = {..<n} \<and>
     (\<forall>i. bit (MSGQUEUE_uiMap q) i \<longleftrightarrow> i < EVENT_MSG_Q_PRIO \<and> MSGQUEUE_mono q i \<noteq> []) \<and>
     (\<forall>x\<in>set (stored_nodes q). MSGNODE_stMsgLen q x \<le> MSGQUEUE_stMaxBytes q \<and> MSGNODE_stMsgLen q x \<noteq> 0
        \<and> unat (MSGNODE_stMsgLen q x) \<le> length (MSGNODE_data q x))"

text \<open>A stable priority queue: behind every message that is at least as urgent.\<close>

definition pq_put :: "nat \<Rightarrow> 'a \<Rightarrow> (nat \<times> 'a) list \<Rightarrow> (nat \<times> 'a) list" where
  "pq_put p x xs = filter (\<lambda>y. fst y \<le> p) xs @ [(p, x)] @ filter (\<lambda>y. p < fst y) xs"

lemma fst_prio_list: "y \<in> set (prio_list f is) \<Longrightarrow> fst y \<in> set is"
  by (auto simp: prio_list_def)

lemma prio_list_append: "prio_list f (is @ js) = prio_list f is @ prio_list f js"
  by (simp add: prio_list_def)

lemma prio_list_cong: "(\<And>i. i \<in> set is \<Longrightarrow> f i = g i) \<Longrightarrow> prio_list f is = prio_list g is"
  by (simp add: prio_list_def cong: map_cong)

lemma upt_split: "p < n \<Longrightarrow> [0..<n] = [0..<p] @ p # [Suc p..<n]"
  using upt_add_eq_append[of 0 p "n - p"] upt_conv_Cons[of p n] by simp

lemma prio_list_at:
  assumes "p < n"
  shows "prio_list f [0..<n] = prio_list f [0..<p] @ map (Pair p) (f p) @ prio_list f [Suc p..<n]"
  by (simp add: upt_split[OF assms] prio_list_append) (simp add: prio_list_def)

lemma prio_list_put:
  assumes "p < n"
  shows "prio_list (f(p := f p @ [x])) [0..<n] = pq_put p x (prio_list f [0..<n])"
proof -
  have lo: "filter (\<lambda>y. fst y \<le> p) (prio_list f [0..<p]) = prio_list f [0..<p]"
      "filter (\<lambda>y. p < fst y) (prio_list f [0..<p]) = []"
    by (auto simp: filter_id_conv filter_empty_conv dest!: fst_prio_list)
  have hi: "filter (\<lambda>y. fst y \<le> p) (prio_list f [Suc p..<n]) = []"
      "filter (\<lambda>y. p < fst y) (prio_list f [Suc p..<n]) = prio_list f [Suc p..<n]"
    by (auto simp: filter_id_conv filter_empty_conv dest!: fst_prio_list)
  have c: "prio_list (f(p := f p @ [x])) [0..<p] = prio_list f [0..<p]"
      "prio_list (f(p := f p @ [x])) [Suc p..<n] = prio_list f [Suc p..<n]"
    by (rule prio_list_cong; simp)+
  show ?thesis
    by (simp add: prio_list_at[OF assms] pq_put_def lo hi c filter_map o_def del: fun_upd_apply) (simp add: filter_map o_def)
qed

lemma sorted_pq_put:
  assumes "sorted (map fst xs)" shows "sorted (map fst (pq_put p x xs))"
proof -
  have "sorted (map fst (filter P xs))" for P using assms by (induction xs) auto
  then show ?thesis by (auto simp: pq_put_def sorted_append)
qed

lemma sorted_prio_list: "sorted is \<Longrightarrow> sorted (map fst (prio_list f is))"
  by (induction "is") (auto simp: prio_list_def sorted_append o_def map_replicate_const)

lemma length_prio_list: "length (prio_list f is) = length (concat (map f is))"
  by (induction "is") (simp_all add: prio_list_def)

lemma length_stored: "length (stored q) = length (stored_nodes q)"
  by (simp add: stored_def stored_nodes_def prio_list_def length_concat o_def)

lemma mq_wf_count:
  assumes "mq_wf n q" shows "length (MSGQUEUE_pmonoFree q) + length (stored q) = n"
proof -
  have "card (set (MSGQUEUE_pmonoFree q @ stored_nodes q)) = length (MSGQUEUE_pmonoFree q @ stored_nodes q)"
    using assms distinct_card mq_wf_def by blast
  then show ?thesis using assms by (simp add: mq_wf_def length_stored)
qed

text \<open>The sizes of the stored messages.\<close>

lemma stored_sizes:
  assumes "mq_wf n q" "x \<in> set (stored q)"
  shows "0 < length (snd x)" "length (snd x) \<le> unat (MSGQUEUE_stMaxBytes q)"
proof -
  have "\<exists>y\<in>set (stored_nodes q). snd x = msg_at q y"
    using assms(2) by (fastforce simp: stored_def stored_nodes_def prio_list_def)
  then obtain y where y: "y \<in> set (stored_nodes q)" "snd x = msg_at q y" by blast
  then show "0 < length (snd x)" "length (snd x) \<le> unat (MSGQUEUE_stMaxBytes q)"
    using assms(1) by (auto simp: mq_wf_def msg_at_def word_le_nat_alt unat_gt_0)
qed

section \<open>The routines on a well-formed queue\<close>

lemma block_upd_simps [simp]:
  "mq_k (block_upd b f m) = mq_k m" "mq_block (block_upd b f m) = (mq_block m)(b := f (mq_block m b))"
  "mq_freeBlocks (block_upd b f m) = mq_freeBlocks m" "mq_rx (block_upd b f m) = mq_rx m"
  "m_buf (block_upd b f m) = m_buf m" "m_len (block_upd b f m) = m_len m"
  by (simp_all add: block_upd_def)

lemma set_simps [simp]:
  "mq_k (set_buf a v m) = mq_k m" "mq_block (set_buf a v m) = mq_block m" "mq_freeBlocks (set_buf a v m) = mq_freeBlocks m"
  "mq_rx (set_buf a v m) = mq_rx m" "m_buf (set_buf a v m) = (m_buf m)(a := v)" "m_len (set_buf a v m) = m_len m"
  "mq_k (set_len a w m) = mq_k m" "mq_block (set_len a w m) = mq_block m" "mq_freeBlocks (set_len a w m) = mq_freeBlocks m"
  "mq_rx (set_len a w m) = mq_rx m" "m_buf (set_len a w m) = m_buf m" "m_len (set_len a w m) = (m_len m)(a := w)"
  by (simp_all add: set_buf_def set_len_def)

lemma mq_bug_simps [simp]:
  "mq_bug False m = m" "mq_block (mq_bug c m) = mq_block m" "mq_freeBlocks (mq_bug c m) = mq_freeBlocks m"
  "mq_rx (mq_bug c m) = mq_rx m" "m_buf (mq_bug c m) = m_buf m" "m_len (mq_bug c m) = m_len m"
  by (simp_all add: mq_bug_def halt_if_def)

lemma concat_put:
  assumes "p < n"
  shows "set (concat (map (f(p := f p @ [x])) [0..<n])) = insert x (set (concat (map f [0..<n])))"
    "distinct (concat (map f [0..<n])) \<Longrightarrow> x \<notin> set (concat (map f [0..<n])) \<Longrightarrow>
       distinct (concat (map (f(p := f p @ [x])) [0..<n]))"
proof -
  have c: "map (f(p := f p @ [x])) [0..<p] = map f [0..<p]" "map (f(p := f p @ [x])) [Suc p..<n] = map f [Suc p..<n]"
    by simp_all
  have e: "concat (map (f(p := f p @ [x])) [0..<n])
      = concat (map f [0..<p]) @ (f p @ [x]) @ concat (map f [Suc p..<n])"
    by (simp add: upt_split[OF assms] c del: fun_upd_apply) simp
  have o: "concat (map f [0..<n]) = concat (map f [0..<p]) @ f p @ concat (map f [Suc p..<n])"
    by (simp add: upt_split[OF assms])
  show "set (concat (map (f(p := f p @ [x])) [0..<n])) = insert x (set (concat (map f [0..<n])))"
    unfolding e o by auto
  assume "distinct (concat (map f [0..<n]))" "x \<notin> set (concat (map f [0..<n]))"
  then show "distinct (concat (map (f(p := f p @ [x])) [0..<n]))" unfolding e o by auto
qed

lemma MsgQueuePut_ok:
  fixes q q' :: msgqueue and m m' :: msgs
  assumes wf: "mq_wf n q" and q: "q = mq_block m b" and room: "MSGQUEUE_pmonoFree q \<noteq> []" and p: "p < EVENT_MSG_Q_PRIO"
    and len: "stMsgLen \<le> MSGQUEUE_stMaxBytes q" "stMsgLen \<noteq> 0" "unat stMsgLen \<le> length (m_buf m a)"
  defines "m' \<equiv> MsgQueuePut b a stMsgLen p m" and "q' \<equiv> mq_block m' b"
  shows "mq_wf n q'" "stored q' = pq_put p (take (unat stMsgLen) (m_buf m a)) (stored q)"
    "MSGQUEUE_stMaxBytes q' = MSGQUEUE_stMaxBytes q" "\<And>b'. b' \<noteq> b \<Longrightarrow> mq_block m' b' = mq_block m b'"
    "mq_k m' = mq_k m" "mq_rx m' = mq_rx m" "m_buf m' = m_buf m" "m_len m' = m_len m" "mq_freeBlocks m' = mq_freeBlocks m"
proof -
  obtain x fs where fr: "MSGQUEUE_pmonoFree q = x # fs" using room by (cases "MSGQUEUE_pmonoFree q") auto
  have nx: "x \<notin> set (stored_nodes q)" "x < n" "x \<notin> set fs" using wf fr by (auto simp: mq_wf_def)
  let ?f = "MSGQUEUE_mono q"
  have q'f: "MSGQUEUE_mono q' = ?f(p := ?f p @ [x])" "MSGQUEUE_pmonoFree q' = fs"
     "MSGNODE_stMsgLen q' = (MSGNODE_stMsgLen q)(x := stMsgLen)"
     "MSGNODE_data q' = (MSGNODE_data q)(x := memcpy (MSGNODE_data q x) (m_buf m a) stMsgLen)"
     "MSGQUEUE_uiMap q' = (if ?f p = [] then MSGQUEUE_uiMap q OR push_bit p 1 else MSGQUEUE_uiMap q)"
     "MSGQUEUE_stMaxBytes q' = MSGQUEUE_stMaxBytes q"
    by (simp_all add: q'_def m'_def MsgQueuePut_def Let_def q[symmetric] fr)
  show "MSGQUEUE_stMaxBytes q' = MSGQUEUE_stMaxBytes q" by (rule q'f(6))
  have sn: "set (stored_nodes q') = insert x (set (stored_nodes q))" "distinct (stored_nodes q')"
    using concat_put[OF p, of ?f x] nx wf by (auto simp: stored_nodes_def q'f(1) mq_wf_def)
  have map: "bit (MSGQUEUE_uiMap q') i \<longleftrightarrow> i < EVENT_MSG_Q_PRIO \<and> MSGQUEUE_mono q' i \<noteq> []" for i
    using wf p by (auto simp: q'f(1,5) mq_wf_def bit_simps)
  have memlen: "unat stMsgLen \<le> length (memcpy (MSGNODE_data q x) (m_buf m a) stMsgLen)"
    using len(3) by (simp add: memcpy_def)
  show "mq_wf n q'"
    using wf sn nx map memlen len unfolding mq_wf_def q'f(2,3,4,6) by (auto simp: fr)
  have ms: "msg_at q' y = (if y = x then take (unat stMsgLen) (m_buf m a) else msg_at q y)" for y
    using memcpy_take[OF len(3)] by (simp add: msg_at_def q'f(3,4))
  have "map (msg_at q') (MSGQUEUE_mono q' i) =
      ((\<lambda>i. map (msg_at q) (?f i))(p := map (msg_at q) (?f p) @ [take (unat stMsgLen) (m_buf m a)])) i"
    if i: "i < EVENT_MSG_Q_PRIO" for i
  proof -
    have "x \<notin> set (?f i)" "x \<notin> set (?f p)" using nx(1) i p by (auto simp: stored_nodes_def)
    then show ?thesis by (auto simp: q'f(1) ms intro!: map_cong)
  qed
  then have "stored q' = prio_list ((\<lambda>i. map (msg_at q) (?f i))(p := map (msg_at q) (?f p) @ [take (unat stMsgLen) (m_buf m a)]))
      [0..<EVENT_MSG_Q_PRIO]"
    unfolding stored_def by (intro prio_list_cong) auto
  also have "\<dots> = pq_put p (take (unat stMsgLen) (m_buf m a)) (stored q)"
    unfolding stored_def by (rule prio_list_put[OF p])
  finally show "stored q' = pq_put p (take (unat stMsgLen) (m_buf m a)) (stored q)" .
qed (auto simp: m'_def MsgQueuePut_def Let_def)

text \<open>The first set bit finds the first list that is not empty.\<close>

lemma MsgQueue_iQ_ok:
  assumes wf: "mq_wf n q" and ne: "stored q \<noteq> []"
  defines "iQ \<equiv> MsgQueue_iQ q"
  shows "iQ < EVENT_MSG_Q_PRIO" "MSGQUEUE_mono q iQ \<noteq> []" "\<And>i. i < iQ \<Longrightarrow> MSGQUEUE_mono q i = []"
proof -
  have "stored_nodes q \<noteq> []" using ne length_stored[of q] by auto
  then obtain i where "i < EVENT_MSG_Q_PRIO" "MSGQUEUE_mono q i \<noteq> []" by (auto simp: stored_nodes_def)
  then have "bit (MSGQUEUE_uiMap q) i" using wf by (auto simp: mq_wf_def)
  then have "MSGQUEUE_uiMap q \<noteq> 0" by auto
  from archFindLsb_lsb(2)[OF this] have "lsb_at (MSGQUEUE_uiMap q) iQ" by (simp add: iQ_def MsgQueue_iQ_def)
  then show "iQ < EVENT_MSG_Q_PRIO" "MSGQUEUE_mono q iQ \<noteq> []" and lo: "\<And>i. i < iQ \<Longrightarrow> MSGQUEUE_mono q i = []"
    using wf by (auto simp: lsb_at_def mq_wf_def)
qed

text \<open>The first node is the one of the first message.\<close>

lemma stored_head:
  assumes wf: "mq_wf n q" and ne: "stored q \<noteq> []"
  defines "iQ \<equiv> MsgQueue_iQ q"
  obtains x xs where "MSGQUEUE_mono q iQ = x # xs" "iQ < EVENT_MSG_Q_PRIO"
    "stored q = (iQ, msg_at q x) # map (Pair iQ) (map (msg_at q) xs) @ prio_list (\<lambda>i. map (msg_at q) (MSGQUEUE_mono q i)) [Suc iQ..<EVENT_MSG_Q_PRIO]"
    "stored_nodes q = x # xs @ concat (map (MSGQUEUE_mono q) [Suc iQ..<EVENT_MSG_Q_PRIO])"
proof -
  note q = MsgQueue_iQ_ok[OF wf ne, folded iQ_def]
  obtain x xs where x: "MSGQUEUE_mono q iQ = x # xs" using q(2) by (cases "MSGQUEUE_mono q iQ") auto
  have e: "prio_list (\<lambda>i. map (msg_at q) (MSGQUEUE_mono q i)) [0..<iQ] = []" "concat (map (MSGQUEUE_mono q) [0..<iQ]) = []"
    using q(3) by (auto simp: prio_list_def)
  show ?thesis
    by (rule that[OF x q(1)])
       (simp add: stored_def prio_list_at[OF q(1)] e(1) x,
        simp add: x stored_nodes_def upt_split[OF q(1)] e(2))
qed

lemma MsgQueueMsgLen_ok:
  assumes wf: "mq_wf n (mq_block m b)" and ne: "stored (mq_block m b) \<noteq> []"
  shows "snd (MsgQueueMsgLen b m) = m"
    "unat (fst (MsgQueueMsgLen b m)) = length (snd (hd (stored (mq_block m b))))"
    "fst (MsgQueueMsgLen b m) = MSGNODE_stMsgLen (mq_block m b) (hd (MSGQUEUE_mono (mq_block m b) (MsgQueue_iQ (mq_block m b))))"
proof -
  obtain x xs where x: "MSGQUEUE_mono (mq_block m b) (MsgQueue_iQ (mq_block m b)) = x # xs"
      "stored_nodes (mq_block m b) = x # xs @ concat (map (MSGQUEUE_mono (mq_block m b)) [Suc (MsgQueue_iQ (mq_block m b))..<EVENT_MSG_Q_PRIO])"
      "hd (stored (mq_block m b)) = (MsgQueue_iQ (mq_block m b), msg_at (mq_block m b) x)"
    by (rule stored_head[OF wf ne]) (metis list.sel(1))
  have "unat (MSGNODE_stMsgLen (mq_block m b) x) \<le> length (MSGNODE_data (mq_block m b) x)"
    using wf x(2) by (auto simp: mq_wf_def)
  then show "unat (fst (MsgQueueMsgLen b m)) = length (snd (hd (stored (mq_block m b))))"
    by (simp add: MsgQueueMsgLen_def Let_def x(1,3) msg_at_def)
qed (use MsgQueue_iQ_ok(2)[OF wf ne] in \<open>simp_all add: MsgQueueMsgLen_def Let_def\<close>)

text \<open>What is copied to a receiver with room for \<open>stMaxByteSize\<close> bytes.\<close>

definition cut :: "ULONG \<Rightarrow> UINT8 list \<Rightarrow> UINT8 list" where
  "cut stMaxByteSize x = take (unat stMaxByteSize) x"

lemma MsgQueueGet_ok:
  fixes q q' :: msgqueue and m m' :: msgs and a pl :: nat and stMax :: ULONG
  assumes wf: "mq_wf n q" and q: "q = mq_block m b" and ne: "stored q \<noteq> []"
  defines "m' \<equiv> MsgQueueGet b a stMax pl m" and "q' \<equiv> mq_block m' b" and "msg \<equiv> snd (hd (stored q))"
  shows "mq_wf n q'" "stored q' = tl (stored q)" "MSGQUEUE_stMaxBytes q' = MSGQUEUE_stMaxBytes q"
    "\<And>b'. b' \<noteq> b \<Longrightarrow> mq_block m' b' = mq_block m b'" "mq_k m' = mq_k m" "mq_rx m' = mq_rx m"
    "m_len m' = (m_len m)(pl := of_nat (length (cut stMax msg)))"
    "m_buf m' = (m_buf m)(a := cut stMax msg @ drop (length (cut stMax msg)) (m_buf m a))"
    "mq_freeBlocks m' = mq_freeBlocks m" "unat (m_len m' pl) = length (cut stMax msg)"
proof -
  define iQ where "iQ = MsgQueue_iQ q"
  obtain x xs where x: "MSGQUEUE_mono q iQ = x # xs" and iQ: "iQ < EVENT_MSG_Q_PRIO" and
    st: "stored q = (iQ, msg_at q x) # map (Pair iQ) (map (msg_at q) xs) @
      prio_list (\<lambda>i. map (msg_at q) (MSGQUEUE_mono q i)) [Suc iQ..<EVENT_MSG_Q_PRIO]" and
    sn: "stored_nodes q = x # xs @ concat (map (MSGQUEUE_mono q) [Suc iQ..<EVENT_MSG_Q_PRIO])"
    unfolding iQ_def by (rule stored_head[OF wf ne])
  have low: "MSGQUEUE_mono q i = []" if "i < iQ" for i
    using MsgQueue_iQ_ok(3)[OF wf ne] that by (simp add: iQ_def)
  have msg: "msg = msg_at q x" by (simp add: msg_def st)
  let ?n = "if stMax < MSGNODE_stMsgLen q x then stMax else MSGNODE_stMsgLen q x"
  have lx: "unat (MSGNODE_stMsgLen q x) \<le> length (MSGNODE_data q x)"
    using wf sn by (auto simp: mq_wf_def)
  have cutx: "cut stMax msg = take (unat ?n) (MSGNODE_data q x)" "length (cut stMax msg) = unat ?n"
    using lx by (auto simp: cut_def msg msg_at_def min_def word_less_nat_alt)
  have q'f: "MSGQUEUE_mono q' = (MSGQUEUE_mono q)(iQ := xs)" "MSGQUEUE_pmonoFree q' = x # MSGQUEUE_pmonoFree q"
     "MSGNODE_stMsgLen q' = MSGNODE_stMsgLen q" "MSGNODE_data q' = MSGNODE_data q"
     "MSGQUEUE_uiMap q' = (if xs = [] then MSGQUEUE_uiMap q AND NOT (push_bit iQ 1) else MSGQUEUE_uiMap q)"
     "MSGQUEUE_stMaxBytes q' = MSGQUEUE_stMaxBytes q"
    by (simp_all add: q'_def m'_def MsgQueueGet_def Let_def q[symmetric] iQ_def[symmetric] x)
  show "MSGQUEUE_stMaxBytes q' = MSGQUEUE_stMaxBytes q" by (rule q'f(6))
  have c: "map ((MSGQUEUE_mono q)(iQ := xs)) [0..<iQ] = map (MSGQUEUE_mono q) [0..<iQ]"
    "map ((MSGQUEUE_mono q)(iQ := xs)) [Suc iQ..<EVENT_MSG_Q_PRIO] = map (MSGQUEUE_mono q) [Suc iQ..<EVENT_MSG_Q_PRIO]"
    by simp_all
  have e0: "concat (map (MSGQUEUE_mono q) [0..<iQ]) = []" using low by auto
  have sn': "stored_nodes q' = xs @ concat (map (MSGQUEUE_mono q) [Suc iQ..<EVENT_MSG_Q_PRIO])"
    by (simp add: stored_nodes_def q'f(1) upt_split[OF iQ] c e0 del: fun_upd_apply) simp
  have map: "bit (MSGQUEUE_uiMap q') i \<longleftrightarrow> i < EVENT_MSG_Q_PRIO \<and> MSGQUEUE_mono q' i \<noteq> []" for i
    using wf by (auto simp: q'f(1,5) mq_wf_def bit_simps x)
  show "mq_wf n q'" using wf map unfolding mq_wf_def sn' q'f(2,3,4,6) sn by auto
  have ms: "msg_at q' = msg_at q" by (simp add: msg_at_def q'f(3,4) fun_eq_iff)
  have p0: "prio_list (\<lambda>i. map (msg_at q) (((MSGQUEUE_mono q)(iQ := xs)) i)) [0..<iQ] = []"
    using low by (auto simp: prio_list_def)
  have p1: "prio_list (\<lambda>i. map (msg_at q) (((MSGQUEUE_mono q)(iQ := xs)) i)) [Suc iQ..<EVENT_MSG_Q_PRIO] =
      prio_list (\<lambda>i. map (msg_at q) (MSGQUEUE_mono q i)) [Suc iQ..<EVENT_MSG_Q_PRIO]"
    by (rule prio_list_cong) simp
  show "stored q' = tl (stored q)"
    unfolding stored_def[of q'] ms q'f(1) prio_list_at[OF iQ] p0 p1 st by simp
  have lm: "m_len m' pl = ?n" "m_len m' = (m_len m)(pl := ?n)"
    by (simp_all add: m'_def MsgQueueGet_def Let_def q[symmetric] iQ_def[symmetric] x)
  show "unat (m_len m' pl) = length (cut stMax msg)" using lm(1) cutx(2) by simp
  show "m_len m' = (m_len m)(pl := of_nat (length (cut stMax msg)))" by (simp add: lm(2) cutx(2))
  show "m_buf m' = (m_buf m)(a := cut stMax msg @ drop (length (cut stMax msg)) (m_buf m a))"
    unfolding cutx(2) by (simp add: m'_def MsgQueueGet_def Let_def q[symmetric] iQ_def[symmetric] x cutx(1) memcpy_def)
  show "mq_k m' = mq_k m"
    by (simp add: m'_def MsgQueueGet_def Let_def q[symmetric] iQ_def[symmetric] x)
qed (auto simp: m'_def MsgQueueGet_def Let_def)

lemma MsgQueueClear_nodes_eq: "MsgQueueClear_nodes n i fs = rev [i..<i + n] @ fs"
  by (induction n arbitrary: i fs) (simp_all add: upt_rec)

lemma MsgQueueClear_ok:
  shows "mq_wf (unat n) (MsgQueueClear n q)" "stored (MsgQueueClear n q) = []"
    "MSGQUEUE_stMaxBytes (MsgQueueClear n q) = MSGQUEUE_stMaxBytes q"
proof -
  have e: "map (MSGQUEUE_mono (MsgQueueClear n q)) [0..<EVENT_MSG_Q_PRIO] = map (\<lambda>_. []) [0..<EVENT_MSG_Q_PRIO]"
    by (rule map_cong) (simp_all add: MsgQueueClear_def Let_def)
  then have "stored_nodes (MsgQueueClear n q) = []" by (simp add: stored_nodes_def)
  then show "mq_wf (unat n) (MsgQueueClear n q)" "stored (MsgQueueClear n q) = []"
    using length_stored[of "MsgQueueClear n q"]
    by (auto simp: mq_wf_def) (auto simp: MsgQueueClear_def Let_def MsgQueueClear_nodes_eq)
qed (simp add: MsgQueueClear_def Let_def)

end
