(* ===== verification/Msg_Api.thy ===== *)
theory Msg_Api
  imports Msg_Queue
begin

text \<open>
  Message queues: the routines \<open>API_MsgQueue*\<close> of kernel/interface.  Sending to a full
  queue and receiving from an empty one block; the label \<open>__re_send\<close> is reached again
  after a wake-up, and after a hand-over to a receiver whose buffer is too small.
\<close>

abbreviation (input) EVENT_MSG_Q_R :: nat where "EVENT_MSG_Q_R \<equiv> 0"
abbreviation (input) EVENT_MSG_Q_S :: nat where "EVENT_MSG_Q_S \<equiv> 1"
abbreviation (input) OBJECT_MSGQUEUE :: UINT8 where "OBJECT_MSGQUEUE \<equiv> 7"
abbreviation (input) LW_OPTION_DEFAULT :: ULONG where "LW_OPTION_DEFAULT \<equiv> 0"
abbreviation (input) LW_OPTION_NOERROR :: ULONG where "LW_OPTION_NOERROR \<equiv> 0x00400000"
abbreviation (input) LW_OPTION_URGENT :: ULONG where "LW_OPTION_URGENT \<equiv> 1"
abbreviation (input) LW_OPTION_BROADCAST :: ULONG where "LW_OPTION_BROADCAST \<equiv> 2"
abbreviation (input) E2BIG :: ULONG where "E2BIG \<equiv> 7"
abbreviation (input) ERROR_KERNEL_LOW_MEMORY :: ULONG where "ERROR_KERNEL_LOW_MEMORY \<equiv> 308"
abbreviation (input) ERROR_MSGQUEUE_MAX_COUNTER_NULL :: ULONG where "ERROR_MSGQUEUE_MAX_COUNTER_NULL \<equiv> 2500"
abbreviation (input) ERROR_MSGQUEUE_MAX_LEN_NULL :: ULONG where "ERROR_MSGQUEUE_MAX_LEN_NULL \<equiv> 2501"
abbreviation (input) ERROR_MSGQUEUE_FULL :: ULONG where "ERROR_MSGQUEUE_FULL \<equiv> 2502"
abbreviation (input) ERROR_MSGQUEUE_TYPE :: ULONG where "ERROR_MSGQUEUE_TYPE \<equiv> 2504"
abbreviation (input) ERROR_MSGQUEUE_WAS_DELETED :: ULONG where "ERROR_MSGQUEUE_WAS_DELETED \<equiv> 2505"
abbreviation (input) ERROR_MSGQUEUE_MSG_NULL :: ULONG where "ERROR_MSGQUEUE_MSG_NULL \<equiv> 2506"
abbreviation (input) ERROR_MSGQUEUE_MSG_LEN :: ULONG where "ERROR_MSGQUEUE_MSG_LEN \<equiv> 2507"
abbreviation (input) ERROR_MSGQUEUE_OPTION :: ULONG where "ERROR_MSGQUEUE_OPTION \<equiv> 2508"

section \<open>Common steps\<close>

definition kupd :: "(kernel \<Rightarrow> kernel) \<Rightarrow> msgs \<Rightarrow> msgs" where
  "kupd f m = m\<lparr>mq_k := f (mq_k m)\<rparr>"

definition rx_upd :: "tid \<Rightarrow> (rxtcb \<Rightarrow> rxtcb) \<Rightarrow> msgs \<Rightarrow> msgs" where
  "rx_upd t f m = m\<lparr>mq_rx := (mq_rx m)(t := f (mq_rx m t))\<rparr>"

text \<open>\<open>pevent->EVENT_pvPtr\<close> is the address of the control block.\<close>

definition pmsgqueue :: "msgs \<Rightarrow> eid \<Rightarrow> nat" where
  "pmsgqueue m e = unat (EVENT_pvPtr (k_event (mq_k m) e))"

definition MsgOpen :: "ULONG \<Rightarrow> kernel \<Rightarrow> (ULONG \<times> kernel) + (eid \<times> kernel)" where
  "MsgOpen ulId s = (case EventCheckId OBJECT_MSGQUEUE ulId s of
     Inl r \<Rightarrow> Inl r
   | Inr e \<Rightarrow> (let s1 = KERNEL_ENTER s in
       if Event_Type_Invalid s1 (ObjectGetIndex ulId) LW_TYPE_EVENT_MSGQUEUE
       then Inl (ERROR_MSGQUEUE_TYPE, ErrorHandle_of s ERROR_MSGQUEUE_TYPE (KERNEL_EXIT s1))
       else Inr (e, s1)))"

text \<open>Leaving the kernel with an error of the caller, whose context is \<open>s\<close>.\<close>

definition MsgFail :: "kernel \<Rightarrow> ULONG \<Rightarrow> msgs \<Rightarrow> msgs" where
  "MsgFail s code m = kupd (\<lambda>s1. ErrorHandle_of s code (KERNEL_EXIT s1)) m"

definition MsgWake :: "ULONG \<Rightarrow> ULONG \<Rightarrow> ULONG \<Rightarrow> kernel \<Rightarrow> wake_out \<times> kernel" where
  "MsgWake ulTimeout ulTimeSave ulEventOption s = (let t = LW_TCB_GET_CUR s; (iSchedRet, s1) = Schedule_ret s in
     if iSchedRet \<noteq> 0 then
       (if iSchedRet = LW_SIGNAL_EINTR \<and> ulEventOption AND LW_OPTION_SIGNAL_INTER \<noteq> 0
        then (WakeDone EINTR, ErrorHandle EINTR s1)
        else let ulTimeout = sigTimeoutRecalc s1 ulTimeSave ulTimeout in
          if ulTimeout = LW_OPTION_NOT_WAIT
          then (WakeDone ERROR_THREAD_WAIT_TIMEOUT, ErrorHandle ERROR_THREAD_WAIT_TIMEOUT s1)
          else (WakeAgain ulTimeout, s1))
     else if TCB_ucWaitTimeout (k_tcb s1 t) = LW_WAIT_TIME_OUT
       then (WakeDone ERROR_THREAD_WAIT_TIMEOUT, ErrorHandle ERROR_THREAD_WAIT_TIMEOUT s1)
     else if TCB_ucIsEventDelete (k_tcb s1 t) = LW_EVENT_EXIST then (WakeDone ERROR_NONE, s1)
     else (WakeDone ERROR_MSGQUEUE_WAS_DELETED, ErrorHandle ERROR_MSGQUEUE_WAS_DELETED s1))"

section \<open>Sending (MsgQueueSend.c, MsgQueueSendEx.c)\<close>

text \<open>\<open>SendAgain d\<close>: the thread goes on at \<open>__re_send\<close>, with time-out \<open>d\<close>.\<close>

datatype send_out = SendDone ULONG | SendAgain ULONG | SendBlocked ULONG ULONG ULONG

text \<open>The message goes to the memory the waiting receiver named, or marks it as too big.\<close>

definition MsgGive :: "tid \<Rightarrow> nat \<Rightarrow> ULONG \<Rightarrow> msgs \<Rightarrow> bool \<times> msgs" where
  "MsgGive t pvMsgBuffer stMsgLen m = (let r = mq_rx m t in
     if stMsgLen > TCB_stMaxByteSize r \<and> TCB_ulRecvOption r AND LW_OPTION_NOERROR = 0
     then (False, rx_upd t (\<lambda>r. r\<lparr>TCB_stMaxByteSize := 0\<rparr>) (set_len (TCB_pstMsgByteSize r) 0 m))
     else let stRealLen = (if stMsgLen < TCB_stMaxByteSize r then stMsgLen else TCB_stMaxByteSize r);
              m1 = set_len (TCB_pstMsgByteSize r) stRealLen m
          in (True, set_buf (TCB_pvMsgQueueMessage r)
                (memcpy (m_buf m1 (TCB_pvMsgQueueMessage r)) (m_buf m1 pvMsgBuffer) stRealLen) m1))"

definition MsgSend_give :: "eid \<Rightarrow> nat \<Rightarrow> ULONG \<Rightarrow> msgs \<Rightarrow> bool \<times> msgs" where
  "MsgSend_give e pvMsgBuffer stMsgLen m = (let
      (t, s1) = ReadyLowLevel e EVENT_MSG_Q_R 0 (mq_k m);
      (bSendOk, m1) = MsgGive t pvMsgBuffer stMsgLen (m\<lparr>mq_k := s1\<rparr>)
    in (bSendOk, kupd (EventReadyHighLevel t LW_THREAD_STATUS_MSGQUEUE) m1))"

text \<open>Without a receiver: stored, refused, or blocked; \<open>s\<close> is the context of the caller.\<close>

definition MsgSend_store :: "kernel \<Rightarrow> eid \<Rightarrow> nat \<Rightarrow> nat \<Rightarrow> ULONG \<Rightarrow> ULONG \<Rightarrow> msgs \<Rightarrow> send_out \<times> msgs" where
  "MsgSend_store s e uiPrio pvMsgBuffer stMsgLen ulTimeout m = (let ev = k_event (mq_k m) e in
     if EVENT_ulCounter ev < EVENT_ulMaxCounter ev then
       (let m1 = kupd (event_upd e (\<lambda>ev. ev\<lparr>EVENT_ulCounter := EVENT_ulCounter ev + 1\<rparr>)) m;
            m2 = MsgQueuePut (pmsgqueue m1 e) pvMsgBuffer stMsgLen uiPrio m1
        in (SendDone ERROR_NONE, kupd KERNEL_EXIT m2))
     else if ulTimeout = LW_OPTION_NOT_WAIT \<or> LW_CPU_GET_CUR_NESTING (mq_k m) \<noteq> 0 then
       (SendDone ERROR_MSGQUEUE_FULL, MsgFail s ERROR_MSGQUEUE_FULL m)
     else (let s2 = PendBlock e EVENT_MSG_Q_S LW_THREAD_STATUS_MSGQUEUE ulTimeout (mq_k m)
           in (SendBlocked ulTimeout (KERNEL_TIME_GET (mq_k m)) (EVENT_ulOption (k_event s2 e)),
               m\<lparr>mq_k := KERNEL_EXIT s2\<rparr>)))"

text \<open>The checks of the arguments, the handle and the length.\<close>

definition MsgSend_begin :: "ULONG \<Rightarrow> nat option \<Rightarrow> ULONG \<Rightarrow> msgs \<Rightarrow> (ULONG \<times> msgs) + (eid \<times> nat \<times> msgs)" where
  "MsgSend_begin ulId pvMsgBuffer stMsgLen m = (case pvMsgBuffer of
     None \<Rightarrow> Inl (ERROR_MSGQUEUE_MSG_NULL, kupd (ErrorHandle ERROR_MSGQUEUE_MSG_NULL) m)
   | Some a \<Rightarrow>
     if stMsgLen = 0 then Inl (ERROR_MSGQUEUE_MSG_LEN, kupd (ErrorHandle ERROR_MSGQUEUE_MSG_LEN) m)
     else case MsgOpen ulId (mq_k m) of
       Inl (r, s1) \<Rightarrow> Inl (r, m\<lparr>mq_k := s1\<rparr>)
     | Inr (e, s1) \<Rightarrow> (let m1 = m\<lparr>mq_k := s1\<rparr> in
         if stMsgLen > MSGQUEUE_stMaxBytes (mq_block m1 (pmsgqueue m1 e))
         then Inl (ERROR_MSGQUEUE_MSG_LEN, MsgFail (mq_k m) ERROR_MSGQUEUE_MSG_LEN m1)
         else Inr (e, a, m1)))"

definition MsgSend_direct :: "eid \<Rightarrow> nat \<Rightarrow> ULONG \<Rightarrow> ULONG \<Rightarrow> msgs \<Rightarrow> send_out \<times> msgs" where
  "MsgSend_direct e a stMsgLen ulTimeout m = (let (bSendOk, m1) = MsgSend_give e a stMsgLen m
     in (if bSendOk then SendDone ERROR_NONE else SendAgain ulTimeout, kupd KERNEL_EXIT m1))"

definition MsgQueueSend2 :: "ULONG \<Rightarrow> nat option \<Rightarrow> ULONG \<Rightarrow> ULONG \<Rightarrow> msgs \<Rightarrow> send_out \<times> msgs" where
  "MsgQueueSend2 ulId pvMsgBuffer stMsgLen ulTimeout m = (case MsgSend_begin ulId pvMsgBuffer stMsgLen m of
     Inl (r, m1) \<Rightarrow> (SendDone r, m1)
   | Inr (e, a, m1) \<Rightarrow>
       if EventWaitNum (mq_k m1) EVENT_MSG_Q_R e \<noteq> 0 then MsgSend_direct e a stMsgLen ulTimeout m1
       else MsgSend_store (mq_k m) e EVENT_MSG_Q_PRIO_LOW a stMsgLen ulTimeout m1)"

definition MsgQueueSend :: "ULONG \<Rightarrow> nat option \<Rightarrow> ULONG \<Rightarrow> msgs \<Rightarrow> send_out \<times> msgs" where
  "MsgQueueSend ulId pvMsgBuffer stMsgLen m = MsgQueueSend2 ulId pvMsgBuffer stMsgLen LW_OPTION_NOT_WAIT m"

text \<open>The broadcast loop removes a receiver in every turn.\<close>

fun MsgBroadcast_loop :: "nat \<Rightarrow> eid \<Rightarrow> nat \<Rightarrow> ULONG \<Rightarrow> msgs \<Rightarrow> msgs" where
  "MsgBroadcast_loop 0 e a stMsgLen m = m"
| "MsgBroadcast_loop (Suc n) e a stMsgLen m =
    (if EventWaitNum (mq_k m) EVENT_MSG_Q_R e = 0 then m
     else MsgBroadcast_loop n e a stMsgLen (snd (MsgSend_give e a stMsgLen m)))"

definition MsgQueueSendEx2 :: "ULONG \<Rightarrow> nat option \<Rightarrow> ULONG \<Rightarrow> ULONG \<Rightarrow> ULONG \<Rightarrow> msgs \<Rightarrow> send_out \<times> msgs" where
  "MsgQueueSendEx2 ulId pvMsgBuffer stMsgLen ulTimeout ulOption m =
    (if ulOption = LW_OPTION_DEFAULT then MsgQueueSend2 ulId pvMsgBuffer stMsgLen ulTimeout m
     else case MsgSend_begin ulId pvMsgBuffer stMsgLen m of
       Inl (r, m1) \<Rightarrow> (SendDone r, m1)
     | Inr (e, a, m1) \<Rightarrow>
       if ulOption AND LW_OPTION_URGENT \<noteq> 0 then
         (if EventWaitNum (mq_k m1) EVENT_MSG_Q_R e \<noteq> 0 then MsgSend_direct e a stMsgLen ulTimeout m1
          else let uiPrio = unat (drop_bit 4 ulOption AND 0xf) in
            if uiPrio > EVENT_MSG_Q_PRIO_LOW
            then (SendDone ERROR_MSGQUEUE_OPTION, MsgFail (mq_k m) ERROR_MSGQUEUE_OPTION m1)
            else MsgSend_store (mq_k m) e uiPrio a stMsgLen ulTimeout m1)
       else if ulOption AND LW_OPTION_BROADCAST \<noteq> 0 then
         (SendDone ERROR_NONE,
          kupd KERNEL_EXIT (MsgBroadcast_loop (unat (EventWaitNum (mq_k m1) EVENT_MSG_Q_R e)) e a stMsgLen m1))
       else (SendDone ERROR_MSGQUEUE_OPTION, MsgFail (mq_k m) ERROR_MSGQUEUE_OPTION m1))"

definition MsgQueueSendEx :: "ULONG \<Rightarrow> nat option \<Rightarrow> ULONG \<Rightarrow> ULONG \<Rightarrow> msgs \<Rightarrow> send_out \<times> msgs" where
  "MsgQueueSendEx ulId pvMsgBuffer stMsgLen ulOption m =
     MsgQueueSendEx2 ulId pvMsgBuffer stMsgLen LW_OPTION_NOT_WAIT ulOption m"

text \<open>The blocked sender is resumed; unless it failed it goes back to \<open>__re_send\<close>.\<close>

definition MsgSend_wake :: "ULONG \<Rightarrow> ULONG \<Rightarrow> ULONG \<Rightarrow> msgs \<Rightarrow> send_out \<times> msgs" where
  "MsgSend_wake ulTimeout ulTimeSave ulEventOption m = (case MsgWake ulTimeout ulTimeSave ulEventOption (mq_k m) of
     (WakeDone r, s1) \<Rightarrow> (if r = ERROR_NONE then SendAgain ulTimeout else SendDone r, m\<lparr>mq_k := s1\<rparr>)
   | (WakeAgain ulTimeout', s1) \<Rightarrow> (SendAgain ulTimeout', m\<lparr>mq_k := s1\<rparr>))"

definition MsgQueueSend2_wake :: "ULONG \<Rightarrow> nat option \<Rightarrow> ULONG \<Rightarrow> ULONG \<Rightarrow> ULONG \<Rightarrow> ULONG \<Rightarrow> msgs \<Rightarrow> send_out \<times> msgs" where
  "MsgQueueSend2_wake ulId pvMsgBuffer stMsgLen ulTimeout ulTimeSave ulEventOption m =
    (case MsgSend_wake ulTimeout ulTimeSave ulEventOption m of
       (SendAgain ulTimeout', m1) \<Rightarrow> MsgQueueSend2 ulId pvMsgBuffer stMsgLen ulTimeout' m1
     | (r, m1) \<Rightarrow> (r, m1))"

definition MsgQueueSendEx2_wake :: "ULONG \<Rightarrow> nat option \<Rightarrow> ULONG \<Rightarrow> ULONG \<Rightarrow> ULONG \<Rightarrow> ULONG \<Rightarrow> ULONG \<Rightarrow> msgs \<Rightarrow> send_out \<times> msgs" where
  "MsgQueueSendEx2_wake ulId pvMsgBuffer stMsgLen ulOption ulTimeout ulTimeSave ulEventOption m =
    (case MsgSend_wake ulTimeout ulTimeSave ulEventOption m of
       (SendAgain ulTimeout', m1) \<Rightarrow> MsgQueueSendEx2 ulId pvMsgBuffer stMsgLen ulTimeout' ulOption m1
     | (r, m1) \<Rightarrow> (r, m1))"

section \<open>Receiving (MsgQueueReceive.c, MsgQueueTryReceive.c)\<close>

text \<open>A message is there: it is copied out, and one sender may try again.\<close>

definition MsgTake :: "eid \<Rightarrow> nat \<Rightarrow> ULONG \<Rightarrow> nat \<Rightarrow> msgs \<Rightarrow> msgs" where
  "MsgTake e pvMsgBuffer stMaxByteSize pstMsgLen m = (let
      m1 = kupd (event_upd e (\<lambda>ev. ev\<lparr>EVENT_ulCounter := EVENT_ulCounter ev - 1\<rparr>)) m;
      m2 = MsgQueueGet (pmsgqueue m1 e) pvMsgBuffer stMaxByteSize pstMsgLen m1
    in if EventWaitNum (mq_k m2) EVENT_MSG_Q_S e \<noteq> 0
       then kupd (\<lambda>s. KERNEL_EXIT (snd (ReadyOne e EVENT_MSG_Q_S 0 LW_THREAD_STATUS_MSGQUEUE s))) m2
       else kupd KERNEL_EXIT m2)"

text \<open>No message: the caller leaves its buffer in the TCB and blocks.\<close>

definition MsgWait :: "kernel \<Rightarrow> eid \<Rightarrow> nat \<Rightarrow> ULONG \<Rightarrow> nat \<Rightarrow> ULONG \<Rightarrow> msgs \<Rightarrow> pend_out \<times> msgs" where
  "MsgWait s e pvMsgBuffer stMaxByteSize pstMsgLen ulTimeout m =
    (if ulTimeout = LW_OPTION_NOT_WAIT then (Done ERROR_THREAD_WAIT_TIMEOUT, MsgFail s ERROR_THREAD_WAIT_TIMEOUT m)
     else let m1 = rx_upd (LW_TCB_GET_CUR (mq_k m)) (\<lambda>r. r\<lparr>TCB_pstMsgByteSize := pstMsgLen,
                TCB_stMaxByteSize := stMaxByteSize, TCB_pvMsgQueueMessage := pvMsgBuffer\<rparr>) m;
              s2 = PendBlock e EVENT_MSG_Q_R LW_THREAD_STATUS_MSGQUEUE ulTimeout (mq_k m1)
          in (Blocked ulTimeout (KERNEL_TIME_GET (mq_k m1)) (EVENT_ulOption (k_event s2 e)),
              m1\<lparr>mq_k := KERNEL_EXIT s2\<rparr>))"

definition MsgReceive_begin :: "ULONG \<Rightarrow> nat option \<Rightarrow> ULONG \<Rightarrow> msgs \<Rightarrow> (ULONG \<times> msgs) + (eid \<times> nat \<times> msgs)" where
  "MsgReceive_begin ulId pvMsgBuffer stMaxByteSize m = (case pvMsgBuffer of
     None \<Rightarrow> Inl (ERROR_MSGQUEUE_MSG_NULL, kupd (ErrorHandle ERROR_MSGQUEUE_MSG_NULL) m)
   | Some a \<Rightarrow>
     if stMaxByteSize = 0 then Inl (ERROR_MSGQUEUE_MSG_NULL, kupd (ErrorHandle ERROR_MSGQUEUE_MSG_NULL) m)
     else case MsgOpen ulId (mq_k m) of
       Inl (r, s1) \<Rightarrow> Inl (r, m\<lparr>mq_k := s1\<rparr>)
     | Inr (e, s1) \<Rightarrow> Inr (e, a, m\<lparr>mq_k := s1\<rparr>))"

text \<open>From the label \<open>__wait_again\<close> on; \<open>pl\<close> is where the length goes, the caller's object
  or the local \<open>stMsgLenTemp\<close>.\<close>

definition MsgQueueReceive_again :: "ULONG \<Rightarrow> nat option \<Rightarrow> ULONG \<Rightarrow> nat \<Rightarrow> ULONG \<Rightarrow> msgs \<Rightarrow> pend_out \<times> msgs" where
  "MsgQueueReceive_again ulId pvMsgBuffer stMaxByteSize pl ulTimeout m =
    (case MsgReceive_begin ulId pvMsgBuffer stMaxByteSize m of
       Inl (r, m1) \<Rightarrow> (Done r, m1)
     | Inr (e, a, m1) \<Rightarrow> (let
           m2 = rx_upd (LW_TCB_GET_CUR (mq_k m1)) (\<lambda>r. r\<lparr>TCB_ulRecvOption := LW_OPTION_NOERROR\<rparr>) m1
         in if EVENT_ulCounter (k_event (mq_k m2) e) \<noteq> 0
            then (Done ERROR_NONE, MsgTake e a stMaxByteSize pl m2)
            else MsgWait (mq_k m) e a stMaxByteSize pl ulTimeout m2))"

definition pstMsgLen_or :: "nat option \<Rightarrow> nat \<Rightarrow> nat" where
  "pstMsgLen_or pstMsgLen stMsgLenTemp = (case pstMsgLen of None \<Rightarrow> stMsgLenTemp | Some p \<Rightarrow> p)"

definition MsgQueueReceive :: "ULONG \<Rightarrow> nat option \<Rightarrow> ULONG \<Rightarrow> nat option \<Rightarrow> nat \<Rightarrow> ULONG \<Rightarrow> msgs \<Rightarrow> pend_out \<times> msgs" where
  "MsgQueueReceive ulId pvMsgBuffer stMaxByteSize pstMsgLen stMsgLenTemp ulTimeout m =
    (if LW_CPU_GET_CUR_NESTING (mq_k m) \<noteq> 0 then (Done ERROR_KERNEL_IN_ISR, kupd (ErrorHandle ERROR_KERNEL_IN_ISR) m)
     else MsgQueueReceive_again ulId pvMsgBuffer stMaxByteSize (pstMsgLen_or pstMsgLen stMsgLenTemp) ulTimeout m)"

definition MsgQueueReceive_wake :: "ULONG \<Rightarrow> nat option \<Rightarrow> ULONG \<Rightarrow> nat \<Rightarrow> ULONG \<Rightarrow> ULONG \<Rightarrow> ULONG \<Rightarrow> msgs \<Rightarrow> pend_out \<times> msgs" where
  "MsgQueueReceive_wake ulId pvMsgBuffer stMaxByteSize pl ulTimeout ulTimeSave ulEventOption m =
    (case MsgWake ulTimeout ulTimeSave ulEventOption (mq_k m) of
       (WakeDone r, s1) \<Rightarrow> (Done r, m\<lparr>mq_k := s1\<rparr>)
     | (WakeAgain ulTimeout', s1) \<Rightarrow> MsgQueueReceive_again ulId pvMsgBuffer stMaxByteSize pl ulTimeout' (m\<lparr>mq_k := s1\<rparr>))"

definition MsgQueueReceiveEx_again :: "ULONG \<Rightarrow> nat option \<Rightarrow> ULONG \<Rightarrow> nat \<Rightarrow> ULONG \<Rightarrow> ULONG \<Rightarrow> msgs \<Rightarrow> pend_out \<times> msgs" where
  "MsgQueueReceiveEx_again ulId pvMsgBuffer stMaxByteSize pl ulTimeout ulOption m =
    (case MsgReceive_begin ulId pvMsgBuffer stMaxByteSize m of
       Inl (r, m1) \<Rightarrow> (Done r, m1)
     | Inr (e, a, m1) \<Rightarrow> (let
           m2 = rx_upd (LW_TCB_GET_CUR (mq_k m1)) (\<lambda>r. r\<lparr>TCB_ulRecvOption := ulOption\<rparr>) m1
         in if EVENT_ulCounter (k_event (mq_k m2) e) \<noteq> 0 then
              (let (stMsgLenInBuffer, m3) = MsgQueueMsgLen (pmsgqueue m2 e) m2 in
               if stMsgLenInBuffer > stMaxByteSize \<and> ulOption AND LW_OPTION_NOERROR = 0
               then (Done E2BIG, MsgFail (mq_k m) E2BIG m3)
               else (Done ERROR_NONE, MsgTake e a stMaxByteSize pl m3))
            else MsgWait (mq_k m) e a stMaxByteSize pl ulTimeout m2))"

definition MsgQueueReceiveEx ::
  "ULONG \<Rightarrow> nat option \<Rightarrow> ULONG \<Rightarrow> nat option \<Rightarrow> nat \<Rightarrow> ULONG \<Rightarrow> ULONG \<Rightarrow> msgs \<Rightarrow> pend_out \<times> msgs" where
  "MsgQueueReceiveEx ulId pvMsgBuffer stMaxByteSize pstMsgLen stMsgLenTemp ulTimeout ulOption m =
    (if LW_CPU_GET_CUR_NESTING (mq_k m) \<noteq> 0 then (Done ERROR_KERNEL_IN_ISR, kupd (ErrorHandle ERROR_KERNEL_IN_ISR) m)
     else MsgQueueReceiveEx_again ulId pvMsgBuffer stMaxByteSize (pstMsgLen_or pstMsgLen stMsgLenTemp) ulTimeout ulOption m)"

definition MsgQueueReceiveEx_wake ::
  "ULONG \<Rightarrow> nat option \<Rightarrow> ULONG \<Rightarrow> nat \<Rightarrow> ULONG \<Rightarrow> ULONG \<Rightarrow> ULONG \<Rightarrow> ULONG \<Rightarrow> msgs \<Rightarrow> pend_out \<times> msgs" where
  "MsgQueueReceiveEx_wake ulId pvMsgBuffer stMaxByteSize pl ulOption ulTimeout ulTimeSave ulEventOption m =
    (case MsgWake ulTimeout ulTimeSave ulEventOption (mq_k m) of
       (WakeDone r, s1) \<Rightarrow> (let m1 = m\<lparr>mq_k := s1\<rparr> in
         if r = ERROR_NONE \<and> m_len m1 pl = 0 \<and> TCB_stMaxByteSize (mq_rx m1 (LW_TCB_GET_CUR s1)) = 0
         then (Done E2BIG, kupd (ErrorHandle E2BIG) m1) else (Done r, m1))
     | (WakeAgain ulTimeout', s1) \<Rightarrow>
         MsgQueueReceiveEx_again ulId pvMsgBuffer stMaxByteSize pl ulTimeout' ulOption (m\<lparr>mq_k := s1\<rparr>))"

definition MsgQueueTryReceive :: "ULONG \<Rightarrow> nat option \<Rightarrow> ULONG \<Rightarrow> nat option \<Rightarrow> nat \<Rightarrow> msgs \<Rightarrow> ULONG \<times> msgs" where
  "MsgQueueTryReceive ulId pvMsgBuffer stMaxByteSize pstMsgLen stMsgLenTemp m = (case pvMsgBuffer of
     None \<Rightarrow> (ERROR_MSGQUEUE_MSG_NULL, kupd (ErrorHandle ERROR_MSGQUEUE_MSG_NULL) m)
   | Some a \<Rightarrow> (case MsgOpen ulId (mq_k m) of
       Inl (r, s1) \<Rightarrow> (r, m\<lparr>mq_k := s1\<rparr>)
     | Inr (e, s1) \<Rightarrow> (let m1 = m\<lparr>mq_k := s1\<rparr> in
         if EVENT_ulCounter (k_event s1 e) \<noteq> 0
         then (ERROR_NONE, MsgTake e a stMaxByteSize (pstMsgLen_or pstMsgLen stMsgLenTemp) m1)
         else (ERROR_THREAD_WAIT_TIMEOUT, MsgFail (mq_k m) ERROR_THREAD_WAIT_TIMEOUT m1))))"

section \<open>Creating and deleting (MsgQueueCreate.c, MsgQueueDelete.c)\<close>

text \<open>\<open>sizeof (LW_CLASS_MSGNODE)\<close> is 8, \<open>sizeof (size_t)\<close> is 4; the arithmetic is that of \<open>size_t\<close>.\<close>

definition stMaxMsgByteSizeReal :: "ULONG \<Rightarrow> ULONG" where
  "stMaxMsgByteSizeReal stMaxMsgByteSize = ROUND_UP stMaxMsgByteSize 4 + 8"

definition stHeapAllocateByteSize :: "ULONG \<Rightarrow> ULONG \<Rightarrow> ULONG" where
  "stHeapAllocateByteSize ulMaxMsgCounter stMaxMsgByteSize = ulMaxMsgCounter * stMaxMsgByteSizeReal stMaxMsgByteSize"

text \<open>\<open>KHEAP_ALLOC n\<close> says whether the kernel heap has \<open>n\<close> bytes.\<close>

definition MsgQueueCreate ::
  "(ULONG \<Rightarrow> bool) \<Rightarrow> string option \<Rightarrow> ULONG \<Rightarrow> ULONG \<Rightarrow> ULONG \<Rightarrow> msgs \<Rightarrow> ULONG \<times> msgs" where
  "MsgQueueCreate KHEAP_ALLOC pcName ulMaxMsgCounter stMaxMsgByteSize ulOption m = (let s = mq_k m in
     if LW_CPU_GET_CUR_NESTING s \<noteq> 0 then (0, kupd (ErrorHandle ERROR_KERNEL_IN_ISR) m)
     else if ulMaxMsgCounter = 0 then (0, kupd (ErrorHandle ERROR_MSGQUEUE_MAX_COUNTER_NULL) m)
     else if stMaxMsgByteSize = 0 then (0, kupd (ErrorHandle ERROR_MSGQUEUE_MAX_LEN_NULL) m)
     else if Object_Name_Invalid pcName then (0, kupd (ErrorHandle ERROR_KERNEL_PNAME_TOO_LONG) m)
     else case Allocate_MsgQueue_Object (kupd KERNEL_ENTER m) of
       (None, m1) \<Rightarrow> (0, kupd (\<lambda>s1. ErrorHandle_of s ERROR_MSGQUEUE_FULL (KERNEL_EXIT s1)) m1)
     | (Some b, m1) \<Rightarrow> (case EventAlloc (KERNEL_EXIT (mq_k m1)) of
         (None, s2) \<Rightarrow>
           (0, kupd (\<lambda>s1. ErrorHandle_of s ERROR_KERNEL_LOW_MEMORY (KERNEL_EXIT s1))
                (Free_MsgQueue_Object b (m1\<lparr>mq_k := KERNEL_ENTER s2\<rparr>)))
       | (Some e, s2) \<Rightarrow>
           if \<not> KHEAP_ALLOC (stHeapAllocateByteSize ulMaxMsgCounter stMaxMsgByteSize) then
             (0, kupd (\<lambda>s1. ErrorHandle_of s ERROR_KERNEL_LOW_MEMORY (KERNEL_EXIT (Free_Event_Object e s1)))
                  (Free_MsgQueue_Object b (m1\<lparr>mq_k := KERNEL_ENTER s2\<rparr>)))
           else (let
               m2 = block_upd b (\<lambda>q. MsgQueueClear ulMaxMsgCounter (q\<lparr>MSGQUEUE_stMaxBytes := stMaxMsgByteSize\<rparr>))
                      (m1\<lparr>mq_k := s2\<rparr>)
             in (MakeObjectId OBJECT_MSGQUEUE LW_CFG_PROCESSOR_NUMBER (of_nat e),
                 kupd (event_upd e (\<lambda>ev. ev\<lparr>EVENT_cEventName := event_name pcName,
                   EVENT_ucType := LW_TYPE_EVENT_MSGQUEUE, EVENT_pvTcbOwn := None, EVENT_ulCounter := 0,
                   EVENT_ulMaxCounter := ulMaxMsgCounter, EVENT_ulOption := ulOption, EVENT_pvPtr := of_nat b,
                   EVENT_wqWaitQ := (EVENT_wqWaitQ ev)(0 := WQ_INIT, 1 := WQ_INIT)\<rparr>)) m2))))"

definition MsgQueueDelete :: "ULONG \<Rightarrow> msgs \<Rightarrow> ULONG \<times> ULONG \<times> msgs" where
  "MsgQueueDelete ulId m =
    (if LW_CPU_GET_CUR_NESTING (mq_k m) \<noteq> 0 then (ERROR_KERNEL_IN_ISR, ulId, kupd (ErrorHandle ERROR_KERNEL_IN_ISR) m)
     else case MsgOpen ulId (mq_k m) of
       Inl (r, s1) \<Rightarrow> (r, ulId, m\<lparr>mq_k := s1\<rparr>)
     | Inr (e, s1) \<Rightarrow> (let
           s2 = event_upd e (\<lambda>ev. ev\<lparr>EVENT_ucType := LW_TYPE_EVENT_UNUSED\<rparr>) s1;
           s3 = DeleteLoop (unat (EventWaitNum s2 EVENT_MSG_Q_R e)) e EVENT_MSG_Q_R LW_THREAD_STATUS_MSGQUEUE s2;
           s4 = DeleteLoop (unat (EventWaitNum s3 EVENT_MSG_Q_S e)) e EVENT_MSG_Q_S LW_THREAD_STATUS_MSGQUEUE s3;
           s5 = event_upd e (\<lambda>ev. ev\<lparr>EVENT_pvTcbOwn := None\<rparr>) s4;
           b = unat (EVENT_pvPtr (k_event s5 e));
           m1 = Free_MsgQueue_Object b (m\<lparr>mq_k := Free_Event_Object e s5\<rparr>)
         in (ERROR_NONE, 0, kupd KERNEL_EXIT m1)))"

section \<open>Clearing and flushing (MsgQueueClear.c, MsgQueueFlush.c)\<close>

definition MsgQueueClearAll :: "ULONG \<Rightarrow> msgs \<Rightarrow> ULONG \<times> msgs" where
  "MsgQueueClearAll ulId m = (case MsgOpen ulId (mq_k m) of
     Inl (r, s1) \<Rightarrow> (r, m\<lparr>mq_k := s1\<rparr>)
   | Inr (e, s1) \<Rightarrow> (let
         m1 = m\<lparr>mq_k := s1\<rparr>;
         m2 = block_upd (pmsgqueue m1 e) (MsgQueueClear (EVENT_ulMaxCounter (k_event s1 e))) m1;
         m3 = kupd (event_upd e (\<lambda>ev. ev\<lparr>EVENT_ulCounter := 0\<rparr>)) m2
       in (ERROR_NONE, kupd (\<lambda>s. KERNEL_EXIT (FlushLoop (unat (EventWaitNum s EVENT_MSG_Q_S e)) e EVENT_MSG_Q_S
             LW_THREAD_STATUS_MSGQUEUE s)) m3)))"

definition MsgQueueFlushSend :: "ULONG \<Rightarrow> bool \<Rightarrow> msgs \<Rightarrow> (ULONG \<times> ULONG option) \<times> msgs" where
  "MsgQueueFlushSend ulId pulThreadUnblockNum m = (case MsgOpen ulId (mq_k m) of
     Inl (r, s1) \<Rightarrow> ((r, None), m\<lparr>mq_k := s1\<rparr>)
   | Inr (e, s1) \<Rightarrow> (let n = EventWaitNum s1 EVENT_MSG_Q_S e in
       ((ERROR_NONE, outp pulThreadUnblockNum (ucast n)),
        m\<lparr>mq_k := KERNEL_EXIT (FlushLoop (unat n) e EVENT_MSG_Q_S LW_THREAD_STATUS_MSGQUEUE s1)\<rparr>)))"

fun MsgFlushReceive_loop :: "nat \<Rightarrow> eid \<Rightarrow> msgs \<Rightarrow> msgs" where
  "MsgFlushReceive_loop 0 e m = m"
| "MsgFlushReceive_loop (Suc n) e m =
    (if EventWaitNum (mq_k m) EVENT_MSG_Q_R e = 0 then m
     else let (t, s1) = ReadyLowLevel e EVENT_MSG_Q_R 0 (mq_k m);
              m1 = set_len (TCB_pstMsgByteSize (mq_rx m t)) 0 (m\<lparr>mq_k := s1\<rparr>)
          in MsgFlushReceive_loop n e (kupd (EventReadyHighLevel t LW_THREAD_STATUS_MSGQUEUE) m1))"

definition MsgQueueFlushReceive :: "ULONG \<Rightarrow> bool \<Rightarrow> msgs \<Rightarrow> (ULONG \<times> ULONG option) \<times> msgs" where
  "MsgQueueFlushReceive ulId pulThreadUnblockNum m = (case MsgOpen ulId (mq_k m) of
     Inl (r, s1) \<Rightarrow> ((r, None), m\<lparr>mq_k := s1\<rparr>)
   | Inr (e, s1) \<Rightarrow> (let n = EventWaitNum s1 EVENT_MSG_Q_R e in
       ((ERROR_NONE, outp pulThreadUnblockNum (ucast n)),
        kupd KERNEL_EXIT (MsgFlushReceive_loop (unat n) e (m\<lparr>mq_k := s1\<rparr>)))))"

definition MsgQueueFlush :: "ULONG \<Rightarrow> bool \<Rightarrow> msgs \<Rightarrow> (ULONG \<times> ULONG option) \<times> msgs" where
  "MsgQueueFlush ulId pulThreadUnblockNum m = (let ((ulError, ulSend), m1) = MsgQueueFlushSend ulId True m in
     if ulError \<noteq> 0 then ((ulError, None), m1)
     else let ((ulError, ulReceive), m2) = MsgQueueFlushReceive ulId True m1 in
     if ulError \<noteq> 0 then ((ulError, None), m2)
     else ((ERROR_NONE, outp pulThreadUnblockNum (the ulSend + the ulReceive)), m2))"

section \<open>Status (MsgQueueStatus.c, MsgQueueStatusEx.c, MsgQueueGetName.c)\<close>

record msgq_status =
  st_ulMaxMsgNum :: "ULONG option"
  st_ulCounter :: "ULONG option"
  st_stMsgLen :: "ULONG option"
  st_ulOption :: "ULONG option"
  st_ulThreadBlockNum :: "ULONG option"
  st_stMaxMsgLen :: "ULONG option"

definition MsgQueueStatusEx ::
  "ULONG \<Rightarrow> bool \<Rightarrow> bool \<Rightarrow> bool \<Rightarrow> bool \<Rightarrow> bool \<Rightarrow> bool \<Rightarrow> msgs \<Rightarrow> (ULONG \<times> msgq_status) \<times> msgs" where
  "MsgQueueStatusEx ulId pulMaxMsgNum pulCounter pstMsgLen pulOption pulThreadBlockNum pstMaxMsgLen m =
    (case MsgOpen ulId (mq_k m) of
       Inl (r, s1) \<Rightarrow> ((r, \<lparr>st_ulMaxMsgNum = None, st_ulCounter = None, st_stMsgLen = None, st_ulOption = None,
          st_ulThreadBlockNum = None, st_stMaxMsgLen = None\<rparr>), m\<lparr>mq_k := s1\<rparr>)
     | Inr (e, s1) \<Rightarrow> (let ev = k_event s1 e; m1 = m\<lparr>mq_k := s1\<rparr>;
           (len, m2) = (if EVENT_ulCounter ev \<noteq> 0 \<and> pstMsgLen then MsgQueueMsgLen (pmsgqueue m1 e) m1 else (0, m1))
         in ((ERROR_NONE, \<lparr>st_ulMaxMsgNum = outp pulMaxMsgNum (EVENT_ulMaxCounter ev),
              st_ulCounter = outp pulCounter (EVENT_ulCounter ev), st_stMsgLen = outp pstMsgLen len,
              st_ulOption = outp pulOption (EVENT_ulOption ev),
              st_ulThreadBlockNum = outp pulThreadBlockNum
                (ucast (EventWaitNum s1 EVENT_MSG_Q_R e) + ucast (EventWaitNum s1 EVENT_MSG_Q_S e)),
              st_stMaxMsgLen = outp pstMaxMsgLen (MSGQUEUE_stMaxBytes (mq_block m2 (pmsgqueue m2 e)))\<rparr>),
             kupd KERNEL_EXIT m2)))"

text \<open>\<open>API_MsgQueueStatus\<close> is the same text without the last argument.\<close>

definition MsgQueueStatus :: "ULONG \<Rightarrow> bool \<Rightarrow> bool \<Rightarrow> bool \<Rightarrow> bool \<Rightarrow> bool \<Rightarrow> msgs \<Rightarrow> (ULONG \<times> msgq_status) \<times> msgs" where
  "MsgQueueStatus ulId pulMaxMsgNum pulCounter pstMsgLen pulOption pulThreadBlockNum m =
     MsgQueueStatusEx ulId pulMaxMsgNum pulCounter pstMsgLen pulOption pulThreadBlockNum False m"

definition MsgQueueGetName :: "ULONG \<Rightarrow> bool \<Rightarrow> msgs \<Rightarrow> (ULONG \<times> string option) \<times> msgs" where
  "MsgQueueGetName ulId pcName m = (let s = mq_k m in
     if LW_CPU_GET_CUR_NESTING s \<noteq> 0 then ((ERROR_KERNEL_IN_ISR, None), kupd (ErrorHandle ERROR_KERNEL_IN_ISR) m)
     else if \<not> pcName then ((ERROR_KERNEL_PNAME_NULL, None), kupd (ErrorHandle ERROR_KERNEL_PNAME_NULL) m)
     else if Event_Index_Invalid (ObjectGetIndex ulId)
       then ((ERROR_KERNEL_HANDLE_NULL, None), kupd (ErrorHandle ERROR_KERNEL_HANDLE_NULL) m)
     else let s1 = KERNEL_ENTER s; ev = k_event s1 (unat (ObjectGetIndex ulId)) in
       if EVENT_ucType ev \<noteq> LW_TYPE_EVENT_MSGQUEUE
       then ((ERROR_MSGQUEUE_TYPE, None), MsgFail s ERROR_MSGQUEUE_TYPE (m\<lparr>mq_k := s1\<rparr>))
       else ((ERROR_NONE, Some (EVENT_cEventName ev)), m\<lparr>mq_k := KERNEL_EXIT s1\<rparr>))"

end
