(* ===== verification/Msg_Frame.thy ===== *)
theory Msg_Frame
  imports Kernel_Runs Msg_Api
begin

text \<open>
  The calls and ticks of Kernel_Runs leave message queues alone: the fields of their events
  stay, and no thread joins their lines.  \<open>keeps ty s s'\<close> states it for the events of type \<open>ty\<close>.
\<close>

definition keeps :: "UINT8 \<Rightarrow> kernel \<Rightarrow> kernel \<Rightarrow> bool" where
  "keeps ty s s' \<longleftrightarrow> (\<forall>e. (EVENT_ucType (k_event s' e) = ty \<longleftrightarrow> EVENT_ucType (k_event s e) = ty) \<and>
     (EVENT_ucType (k_event s e) = ty \<longrightarrow> ev_core (k_event s' e) = ev_core (k_event s e) \<and>
        (\<forall>t q. waits_on s' e q t \<longrightarrow> waits_on s e q t)))"

lemma keeps_refl [simp]: "keeps ty s s"
  by (simp add: keeps_def)

lemma keeps_trans: "\<lbrakk>keeps ty a b; keeps ty b c\<rbrakk> \<Longrightarrow> keeps ty a c"
  by (auto simp: keeps_def)

named_theorems mkeep \<open>steps that leave the events of a type alone\<close>

text \<open>Steps that change no block and let threads only leave.\<close>

lemma keeps_step:
  assumes "\<And>e. ev_core (k_event s' e) = ev_core (k_event s e)" "\<And>e q t. waits_on s' e q t \<Longrightarrow> waits_on s e q t"
  shows "keeps ty s s'"
proof -
  have "EVENT_ucType (k_event s' e) = EVENT_ucType (k_event s e)" for e using ev_core_eqD(1)[OF assms(1)] .
  then show ?thesis using assms by (simp add: keeps_def)
qed

lemma keeps_frame:
  assumes "run_frame s s'" shows "keeps ty s s'"
  by (rule keeps_step) (simp_all add: run_frame_kernelD[OF assms] waits_on_frame[OF assms])

lemma keeps_tcb:
  assumes "TCB_peventPtr (f (k_tcb s t)) = TCB_peventPtr (k_tcb s t) \<or> TCB_peventPtr (f (k_tcb s t)) = None"
    "TCB_iPendQ (f (k_tcb s t)) = TCB_iPendQ (k_tcb s t)"
  shows "keeps ty s (tcb_upd t f s)"
  by (rule keeps_step) (use assms in \<open>auto simp: waits_on_def split: if_splits\<close>)

lemma keeps_same:
  assumes "k_event s' = k_event s" "k_tcb s' = k_tcb s" shows "keeps ty s s'"
  by (rule keeps_step) (simp_all add: assms waits_on_def)

lemma ev_core_wq: "ev_core (ev\<lparr>EVENT_wqWaitQ := w\<rparr>) = ev_core ev"
  by (simp add: ev_core_def)

lemma keeps_wq: "keeps ty s (event_wq_upd e q f s)"
  by (rule keeps_step) (simp_all add: event_wq_upd_def ev_core_wq waits_on_def)

lemma keeps_event_upd:
  assumes "EVENT_ucType (k_event s e) \<noteq> ty" "EVENT_ucType (f (k_event s e)) \<noteq> ty"
  shows "keeps ty s (event_upd e f s)"
  using assms by (simp add: keeps_def waits_on_def)

text \<open>The waking of a thread.\<close>

lemma keeps_Low: "keeps ty s (snd (ReadyLowLevel e q m s))"
proof -
  have tail: "keeps ty s (ReadyLowLevel_tail t m s)" for t s
    by (rule keeps_step) (auto simp: ReadyLowLevel_tail_def DEL_FROM_WAKEUP_LINE_def set_ulDelay_def Let_def waits_on_def split: if_splits)
  have del: "keeps ty s (DelTCBFromEventPriority t e p s)" "keeps ty s (DelTCBFromEventFifo t e p s)" for t p
    unfolding DelTCBFromEventPriority_def DelTCBFromEventFifo_def Let_def by (rule keeps_trans[OF keeps_wq keeps_wq])+
  show ?thesis
    by (simp add: ReadyLowLevel_def EventReadyPriorityLowLevel_def EventReadyFifoLowLevel_def Let_def keeps_trans[OF del(1) tail] keeps_trans[OF del(2) tail])
qed

lemma keeps_High: "keeps ty s (EventReadyHighLevel t wt s)"
proof -
  have a: "keeps ty s (ADD_TO_READY_RING t pp s)" for s pp
    by (rule keeps_frame[OF sched_frame_run]) simp
  note c = keeps_tcb[where s = s and t = t and f = "\<lambda>x. x\<lparr>TCB_peventPtr := None\<rparr>", simplified]
  show ?thesis
    unfolding EventReadyHighLevel_def Let_def
    by (auto intro!: keeps_trans[OF c] keeps_tcb keeps_trans[OF keeps_tcb a] keeps_trans[OF keeps_tcb keeps_trans[OF keeps_tcb a]])
qed

section \<open>Chains of steps\<close>

lemma keeps_chain:
  assumes "keeps ty s x"
  shows "keeps ty s (KERNEL_ENTER x)" "keeps ty s (KERNEL_EXIT x)" "keeps ty s (ErrorHandle_of ctx c x)" "keeps ty s (ErrorHandle c x)"
    "keeps ty s (snd (ReadyLowLevel e q m x))" "keeps ty s (EventReadyHighLevel t wt x)" "keeps ty s (snd (ReadyOne e q m wt x))"
    "keeps ty s (SchedSetPrio t p x)" "keeps ty s (Free_Event_Object e x)" "keeps ty s (ADD_TO_READY_RING t pp x)"
    "keeps ty s (snd (Schedule_ret x))"
proof -
  have eh: "keeps ty x (ErrorHandle_of ctx c x)" for ctx c
    by (rule keeps_step) (auto simp: ErrorHandle_of_def waits_on_def split: option.splits if_splits)
  show "keeps ty s (KERNEL_ENTER x)" "keeps ty s (KERNEL_EXIT x)" "keeps ty s (ADD_TO_READY_RING t pp x)"
    by (rule keeps_trans[OF assms keeps_frame]; simp add: sched_frame_run)+
  show "keeps ty s (ErrorHandle_of ctx c x)" "keeps ty s (ErrorHandle c x)"
    unfolding ErrorHandle_def by (rule keeps_trans[OF assms eh])+
  show low: "keeps ty s (snd (ReadyLowLevel e q m x))" by (rule keeps_trans[OF assms keeps_Low])
  show "keeps ty s (EventReadyHighLevel t wt x)" by (rule keeps_trans[OF assms keeps_High])
  show "keeps ty s (snd (ReadyOne e q m wt x))"
    by (simp add: ReadyOne_def split_beta keeps_trans[OF low keeps_High])
  show "keeps ty s (SchedSetPrio t p x)"
    by (rule keeps_trans[OF assms keeps_step]) (simp_all add: SchedSetPrio_reads SchedSetPrio_tcb)
  show "keeps ty s (Free_Event_Object e x)"
    by (rule keeps_trans[OF assms keeps_same]) (simp_all add: Free_Event_Object_def)
  show "keeps ty s (snd (Schedule_ret x))"
    by (rule keeps_trans[OF assms]) (auto simp: Schedule_ret_def Let_def intro!: keeps_tcb)
qed

lemmas [mkeep] = keeps_refl keeps_chain

lemma keeps_chain_upd [mkeep]:
  assumes "keeps ty s x" "EVENT_ucType (k_event s e) \<noteq> ty" "\<And>ev. EVENT_ucType ev \<noteq> ty \<Longrightarrow> EVENT_ucType (f ev) \<noteq> ty"
  shows "keeps ty s (event_upd e f x)"
  by (rule keeps_trans[OF assms(1) keeps_event_upd]) (use assms in \<open>auto simp: keeps_def\<close>)

lemma keeps_chain_tcb:
  assumes "keeps ty s x" "TCB_peventPtr (f (k_tcb x t)) = TCB_peventPtr (k_tcb x t)" "TCB_iPendQ (f (k_tcb x t)) = TCB_iPendQ (k_tcb x t)"
  shows "keeps ty s (tcb_upd t f x)"
  by (rule keeps_trans[OF assms(1) keeps_tcb]) (use assms in auto)

lemma keeps_loops [mkeep]:
  shows "keeps ty s x \<Longrightarrow> keeps ty s (FlushLoop n e q wt x)" "keeps ty s x \<Longrightarrow> keeps ty s (DeleteLoop n e q wt x)"
proof -
  show "keeps ty s x \<Longrightarrow> keeps ty s (FlushLoop n e q wt x)"
    by (induction n arbitrary: x) (simp_all add: keeps_chain)
  show "keeps ty s x \<Longrightarrow> keeps ty s (DeleteLoop n e q wt x)"
    by (induction n arbitrary: x) (simp_all add: Let_def split_beta keeps_chain keeps_chain_tcb)
qed

lemma keeps_safe [mkeep]:
  assumes "keeps ty s x"
  shows "keeps ty s (ThreadSafeInternal x)" "keeps ty s (ThreadUnsafeInternalEx t x)"
proof -
  note c = keeps_chain keeps_chain_tcb
  have del: "keeps ty s y \<Longrightarrow> keeps ty s (y\<lparr>k_deleteCalls := d\<rparr>)" for y d
    by (erule keeps_trans) (simp add: keeps_same)
  have rs: "keeps ty s y \<Longrightarrow> keeps ty s (ThreadSafeResume r y)" for y r
    by (auto simp: ThreadSafeResume_def Let_def intro!: c)
  show "keeps ty s (ThreadSafeInternal x)" by (auto simp: ThreadSafeInternal_def Let_def intro!: c assms)
  show "keeps ty s (ThreadUnsafeInternalEx t x)"
    by (auto simp: ThreadUnsafeInternalEx_def Let_def intro!: c assms del rs split: ptcb_ref.splits)
qed

lemma keeps_tails [mkeep]:
  "keeps ty s x \<Longrightarrow> keeps ty s (snd (Safe_tail e x))" "keeps ty s x \<Longrightarrow> keeps ty s (snd (Unsafe_tail e x))"
  "keeps ty s x \<Longrightarrow> keeps ty s (snd (PostFull ctx x))"
  by (simp_all add: Safe_tail_def Unsafe_tail_def PostFull_def keeps_safe keeps_chain)

lemma keeps_PendWake [mkeep]: "keeps ty s x \<Longrightarrow> keeps ty s (snd (PendWake a b c x))"
  by (simp add: PendWake_def Let_def split_beta keeps_chain)

text \<open>Blocking on an event of another type.\<close>

lemma keeps_wait:
  assumes k: "keeps ty s x" "kinv x" "\<exists>t. runs x t" and e: "EVENT_ucType (k_event s e) \<noteq> ty"
  shows "keeps ty s (PendBlock e q LW_THREAD_STATUS_SEM d x)"
proof -
  obtain t where t: "runs x t" using k(3) by blast
  note p = PendBlock_ok[OF k(2) t sem_bits, where e = e and q = q and ulTimeout = d]
  let ?s' = "PendBlock e q LW_THREAD_STATUS_SEM d x"
  have ty: "EVENT_ucType (k_event ?s' e') = EVENT_ucType (k_event x e')" for e' by (rule ev_core_eqD(1)[OF p(11)])
  have w: "waits_on x e' q' u" if "waits_on ?s' e' q' u" "e' \<noteq> e" for e' q' u
  proof (cases "u = t")
    case True then show ?thesis using that p(4) by (simp add: waits_on_def)
  next
    case False
    show ?thesis using that tcb_core_eqD[OF p(7)[OF False]] by (simp add: waits_on_def)
  qed
  have "EVENT_ucType (k_event x e) \<noteq> ty" using k(1) e by (simp add: keeps_def)
  then have "keeps ty x ?s'" using w p(11) by (auto simp: keeps_def ty)
  then show ?thesis by (rule keeps_trans[OF k(1)])
qed

section \<open>Opening an event\<close>

lemma keeps_check: "\<lbrakk>keeps ty s x; EventCheckId c ulId x = Inl (r, s1)\<rbrakk> \<Longrightarrow> keeps ty s s1"
  by (auto simp: EventCheckId_def intro!: mkeep split: if_splits)

lemma keeps_open_by:
  fixes P :: "'a \<Rightarrow> kernel"
  assumes a: "keeps ty s x"
    and ok: "\<And>e s1. \<lbrakk>s1 = KERNEL_ENTER x; keeps ty s s1; EVENT_ucType (k_event x e) = ty'; unat (ObjectGetIndex ulId) = e\<rbrakk> \<Longrightarrow> keeps ty s (P (K (e, s1)))"
    and bad: "\<And>r s1. keeps ty s s1 \<Longrightarrow> keeps ty s (P (H (r, s1)))"
  shows "keeps ty s (P (case EventOpen c ty' ulId x of Inl y \<Rightarrow> H y | Inr y \<Rightarrow> K y))"
proof (cases "EventOpen c ty' ulId x")
  case (Inl y)
  obtain r s1 where y: "y = (r, s1)" by (cases y)
  have "keeps ty s s1" using Inl a unfolding y
    by (auto simp: EventOpen_def Let_def intro: keeps_check intro!: mkeep split: sum.splits if_splits)
  then show ?thesis using bad by (simp add: Inl y)
next
  case (Inr y)
  obtain e s1 where y: "y = (e, s1)" by (cases y)
  have "s1 = KERNEL_ENTER x" "EVENT_ucType (k_event x e) = ty'" "unat (ObjectGetIndex ulId) = e" using Inr unfolding y
    by (auto simp: EventOpen_def EventCheckId_def Event_Type_Invalid_def Let_def split: sum.splits if_splits)
  then show ?thesis using ok a by (simp add: Inr y keeps_chain)
qed

lemmas keeps_open = keeps_open_by[where P = snd]
lemmas keeps_open2 = keeps_open_by[where P = "\<lambda>x. snd (snd x)"]

lemma keeps_check_case:
  assumes a: "keeps ty s x" and ok: "\<And>e. keeps ty s (snd (K e))" and bad: "\<And>r s1. keeps ty s s1 \<Longrightarrow> keeps ty s (snd (H (r, s1)))"
  shows "keeps ty s (snd (case EventCheckId c ulId x of Inl y \<Rightarrow> H y | Inr y \<Rightarrow> K y))"
  using keeps_check[OF a] ok bad by (cases "EventCheckId c ulId x") auto

text \<open>A block is taken from the pool.\<close>

lemma keeps_alloc:
  assumes "keeps ty s x" "EventAlloc x = (r, s1)" shows "keeps ty s s1"
proof -
  have "keeps ty s (snd (Allocate_Event_Object (KERNEL_ENTER x)))"
    by (rule keeps_trans[OF keeps_chain(1)[OF assms(1)] keeps_same]) (simp_all add: Allocate_Event_Object_def Let_def split: list.splits)
  then have "keeps ty s (snd (EventAlloc x))" by (simp add: EventAlloc_def split_beta keeps_chain)
  then show ?thesis using assms(2) by simp
qed

lemma keeps_create:
  assumes k: "kinv s" "pool_inv s" and ty: "ty \<noteq> LW_TYPE_EVENT_UNUSED"
    and no: "\<And>s1. EventAlloc s = (None, s1) \<Longrightarrow> keeps ty s (snd (f s1))"
    and f: "\<And>e. EVENT_ucType (g e (k_event s e)) \<noteq> ty"
  shows "keeps ty s (snd (case EventAlloc s of (None, s1) \<Rightarrow> f s1 | (Some e, s1) \<Rightarrow> (h e s1, event_upd e (g e) s1)))"
proof (cases "EventAlloc s")
  case (Pair r s1)
  show ?thesis
  proof (cases r)
    case None then show ?thesis using no Pair by simp
  next
    case (Some e)
    note a = EventAlloc_ok[OF k Pair]
    have u: "EVENT_ucType (k_event s e) = LW_TYPE_EVENT_UNUSED" using a(7)[OF Some] by simp
    have "keeps ty s1 (event_upd e (g e) s1)" by (rule keeps_event_upd) (use u ty f a(4) in auto)
    then show ?thesis using keeps_trans[OF keeps_alloc[OF keeps_refl Pair]] by (simp add: Pair Some)
  qed
qed

section \<open>The semaphore routines leave message queues alone\<close>

abbreviation "mkeeps \<equiv> keeps LW_TYPE_EVENT_MSGQUEUE"

text \<open>The type of an opened event of another kind, seen from the start.\<close>

lemma not_msg: "\<lbrakk>keeps ty s x; EVENT_ucType (k_event x e) \<noteq> ty\<rbrakk> \<Longrightarrow> EVENT_ucType (k_event s e) \<noteq> ty"
  by (simp add: keeps_def)

lemma keeps_C:
  "mkeeps s (snd (SemaphoreCTryPend ulId s))" "mkeeps s (snd (SemaphoreCPost ulId s))"
  "mkeeps s (snd (SemaphoreCFlush ulId p s))" "mkeeps s (snd (SemaphoreCClear ulId s))" "mkeeps s (snd (snd (SemaphoreCDelete ulId s)))"
proof -
  show "mkeeps s (snd (SemaphoreCTryPend ulId s))" unfolding SemaphoreCTryPend_def
    by (rule keeps_open) (auto intro!: mkeep)
  show "mkeeps s (snd (SemaphoreCPost ulId s))" unfolding SemaphoreCPost_def
    by (rule keeps_open) (auto intro!: mkeep)
  show "mkeeps s (snd (SemaphoreCFlush ulId p s))" unfolding SemaphoreCFlush_def
    by (rule keeps_open) (auto intro!: mkeep simp: Let_def)
  show "mkeeps s (snd (SemaphoreCClear ulId s))" unfolding SemaphoreCClear_def
    by (rule keeps_open) (auto intro!: mkeep)
  have "mkeeps s (snd (snd (case EventOpen OBJECT_SEM_C LW_TYPE_EVENT_SEMC ulId s of
       Inl x \<Rightarrow> (\<lambda>(r, s1). (r, ulId, s1)) x
     | Inr y \<Rightarrow> (\<lambda>(e, s1). (let
           s2 = event_upd e (\<lambda>ev. ev\<lparr>EVENT_ucType := LW_TYPE_EVENT_UNUSED\<rparr>) s1;
           s3 = DeleteLoop (unat (EventWaitNum s2 EVENT_SEM_Q e)) e EVENT_SEM_Q LW_THREAD_STATUS_SEM s2;
           s4 = event_upd e (\<lambda>ev. ev\<lparr>EVENT_pvTcbOwn := None\<rparr>) s3
         in (ERROR_NONE, 0, KERNEL_EXIT (Free_Event_Object e s4)))) y)))"
    by (rule keeps_open2) (auto intro!: mkeep simp: Let_def)
  then show "mkeeps s (snd (snd (SemaphoreCDelete ulId s)))" by (auto simp: SemaphoreCDelete_def intro!: mkeep)
qed

lemma keeps_Release_loops:
  assumes "EVENT_ucType (k_event s e) \<noteq> LW_TYPE_EVENT_MSGQUEUE"
  shows "mkeeps s x \<Longrightarrow> mkeeps s (snd (SemaphoreCRelease_loop n e x))" "mkeeps s x \<Longrightarrow> mkeeps s (snd (SemaphoreBRelease_loop n e x))"
proof -
  show "mkeeps s x \<Longrightarrow> mkeeps s (snd (SemaphoreCRelease_loop n e x))"
  proof (induction n arbitrary: x)
    case (Suc n) show ?case using Suc.prems assms by (auto intro!: Suc.IH mkeep)
  qed simp
  show "mkeeps s x \<Longrightarrow> mkeeps s (snd (SemaphoreBRelease_loop n e x))"
  proof (induction n arbitrary: x)
    case (Suc n) show ?case using Suc.prems assms by (auto intro!: Suc.IH mkeep)
  qed simp
qed

lemma keeps_C2: "mkeeps s (snd (SemaphoreCRelease ulId n p s))"
proof -
  have "mkeeps s (snd (case EventOpen OBJECT_SEM_C LW_TYPE_EVENT_SEMC ulId s of
       Inl x \<Rightarrow> (\<lambda>(r, s1). ((r, None), s1)) x
     | Inr y \<Rightarrow> (\<lambda>(e, s1). (let prev = outp p (EVENT_ulCounter (k_event s1 e));
           (all, s2) = SemaphoreCRelease_loop (unat n) e s1
         in if all then ((ERROR_NONE, prev), KERNEL_EXIT s2)
            else let (r, s3) = PostFull s s2 in ((r, prev), s3))) y))"
    by (rule keeps_open) (auto intro!: mkeep keeps_Release_loops simp: Let_def split_beta)
  then show ?thesis by (auto simp: SemaphoreCRelease_def intro!: mkeep)
qed

lemma keeps_B2: "mkeeps s (snd (SemaphoreBRelease ulId n p s))"
proof -
  have "mkeeps s (snd (case EventOpen OBJECT_SEM_B LW_TYPE_EVENT_SEMB ulId s of
       Inl x \<Rightarrow> (\<lambda>(r, s1). ((r, None), s1)) x
     | Inr y \<Rightarrow> (\<lambda>(e, s1). (let prev = outp p (EVENT_ulCounter (k_event s1 e));
           (all, s2) = SemaphoreBRelease_loop (unat n) e s1
         in if all then ((ERROR_NONE, prev), KERNEL_EXIT s2)
            else let (r, s3) = PostFull s s2 in ((r, prev), s3))) y))"
    by (rule keeps_open) (auto intro!: mkeep keeps_Release_loops simp: Let_def split_beta)
  then show ?thesis by (auto simp: SemaphoreBRelease_def intro!: mkeep)
qed

text \<open>Waiting: the caller is a running thread.\<close>

lemma keeps_again:
  assumes a: "api_inv x" and t: "\<exists>t. runs x t" and k: "mkeeps s x"
  shows "mkeeps s (snd (SemaphoreCPend_again ulId d x))" "mkeeps s (snd (SemaphoreBPendEx_again ulId d p x))"
    "mkeeps s (snd (SemaphoreRWPendR_again ulId d x))" "mkeeps s (snd (SemaphoreRWPendW_again ulId d x))"
proof -
  have kx: "kinv x" by (rule api_invD(1)[OF a])
  have w: "\<lbrakk>EVENT_ucType (k_event x e) = ty; ty \<noteq> LW_TYPE_EVENT_MSGQUEUE; mkeeps s (KERNEL_ENTER x)\<rbrakk> \<Longrightarrow>
      mkeeps s (PendBlock e q LW_THREAD_STATUS_SEM d (KERNEL_ENTER x))" for e q ty
    by (rule keeps_wait) (use kx t not_msg[OF k] in auto)
  note nm = not_msg[OF k]
  show "mkeeps s (snd (SemaphoreCPend_again ulId d x))" unfolding SemaphoreCPend_again_def
    by (rule keeps_open[OF k]) (auto intro!: mkeep w nm simp: Let_def)
  show "mkeeps s (snd (SemaphoreBPendEx_again ulId d p x))" unfolding SemaphoreBPendEx_again_def
    by (rule keeps_open[OF k]) (auto intro!: mkeep w nm simp: Let_def)
  show "mkeeps s (snd (SemaphoreRWPendR_again ulId d x))" unfolding SemaphoreRWPendR_again_def
    by (rule keeps_check_case[OF k], simp only: split: if_split, intro conjI impI, simp add: k,
        rule keeps_open[OF k]) (auto intro!: mkeep w nm simp: Let_def)
  show "mkeeps s (snd (SemaphoreRWPendW_again ulId d x))" unfolding SemaphoreRWPendW_again_def
    by (rule keeps_check_case[OF k], simp only: split: if_split, intro conjI impI, simp add: k,
        rule keeps_open[OF k]) (auto intro!: mkeep w nm simp: Let_def)
qed

lemma keeps_B:
  "mkeeps s (snd (SemaphoreBTryPend ulId s))" "mkeeps s (snd (SemaphoreBPost ulId s))" "mkeeps s (snd (SemaphoreBPostEx ulId v s))"
  "mkeeps s (snd (SemaphoreBFlush ulId p s))" "mkeeps s (snd (SemaphoreBClear ulId s))" "mkeeps s (snd (snd (SemaphoreBDelete ulId s)))"
proof -
  show "mkeeps s (snd (SemaphoreBTryPend ulId s))" unfolding SemaphoreBTryPend_def
    by (rule keeps_open) (auto intro!: mkeep)
  show "mkeeps s (snd (SemaphoreBPost ulId s))" unfolding SemaphoreBPost_def
    by (rule keeps_open) (auto intro!: mkeep)
  show "mkeeps s (snd (SemaphoreBPostEx ulId v s))" unfolding SemaphoreBPostEx_def
    by (rule keeps_open) (auto intro!: mkeep)
  show "mkeeps s (snd (SemaphoreBFlush ulId p s))" unfolding SemaphoreBFlush_def
    by (rule keeps_open) (auto intro!: mkeep simp: Let_def)
  show "mkeeps s (snd (SemaphoreBClear ulId s))" unfolding SemaphoreBClear_def
    by (rule keeps_open) (auto intro!: mkeep)
  have "mkeeps s (snd (snd (case EventOpen OBJECT_SEM_B LW_TYPE_EVENT_SEMB ulId s of
       Inl x \<Rightarrow> (\<lambda>(r, s1). (r, ulId, s1)) x
     | Inr y \<Rightarrow> (\<lambda>(e, s1). (let
           s2 = event_upd e (\<lambda>ev. ev\<lparr>EVENT_ucType := LW_TYPE_EVENT_UNUSED\<rparr>) s1;
           s3 = DeleteLoop (unat (EventWaitNum s2 EVENT_SEM_Q e)) e EVENT_SEM_Q LW_THREAD_STATUS_SEM s2;
           s4 = event_upd e (\<lambda>ev. ev\<lparr>EVENT_pvTcbOwn := None\<rparr>) s3
         in (ERROR_NONE, 0, KERNEL_EXIT (Free_Event_Object e s4)))) y)))"
    by (rule keeps_open2) (auto intro!: mkeep simp: Let_def)
  then show "mkeeps s (snd (snd (SemaphoreBDelete ulId s)))" by (auto simp: SemaphoreBDelete_def intro!: mkeep)
qed

lemma keeps_boost: "mkeeps s x \<Longrightarrow> mkeeps s (EventPrioTryBoost e t x)" "mkeeps s x \<Longrightarrow> mkeeps s (EventPrioTryResume e t x)"
  by (simp_all add: EventPrioTryBoost_def EventPrioTryResume_def Let_def keeps_chain)

lemma keeps_MPend_again:
  assumes a: "api_inv x" and t: "\<exists>t. runs x t" and k: "mkeeps s x"
  shows "mkeeps s (snd (SemaphoreMPend_again ulId d x))"
  unfolding SemaphoreMPend_again_def
proof (rule keeps_check_case[OF k], simp only: split: if_split, intro conjI impI, simp add: k, rule keeps_open[OF k], goal_cases)
  case (1 e0 e s1)
  note nm = not_msg[OF k]
  have a1: "api_inv s1" "EVENT_ucType (k_event s1 e) = LW_TYPE_EVENT_MUTEX" using a 1 by simp_all
  obtain t where r: "runs s1 t" using t 1 by auto
  have blk: "mkeeps s (PendBlock e EVENT_SEM_Q LW_THREAD_STATUS_SEM d (EventPrioTryBoost e (LW_TCB_GET_CUR s1) s1))"
    if z: "EVENT_ulCounter (k_event s1 e) = 0"
  proof -
    obtain ow where o: "EVENT_pvTcbOwn (k_event s1 e) = Some ow" using api_mutex(6)[OF a1] z by auto
    note b = api_inv_boost[OF a1(1) o api_mutex(5)[OF a1 o], where t = "LW_TCB_GET_CUR s1"]
    show ?thesis
      by (rule keeps_wait) (use r b 1 nm api_invD(1)[OF b(1)] keeps_boost in auto)
  qed
  show ?case using 1 blk by (auto intro!: mkeep nm simp: Let_def)
qed (simp_all add: k)

lemma keeps_M:
  "mkeeps s (snd (SemaphoreMPost ulId s))" "mkeeps s (snd (snd (SemaphoreMDelete ulId s)))"
proof -
  have "mkeeps s (snd (case EventOpen OBJECT_SEM_M LW_TYPE_EVENT_MUTEX ulId s of
     Inl x \<Rightarrow> (\<lambda>(r, s1). (Posted r, s1)) x
   | Inr y \<Rightarrow> (\<lambda>(e, s1). (let cur = LW_TCB_GET_CUR s1; ev = k_event s1 e in
       if EVENT_pvTcbOwn ev \<noteq> Some cur then
         (Posted ERROR_EVENT_NOT_OWN, ErrorHandle_of s ERROR_EVENT_NOT_OWN (KERNEL_EXIT s1))
       else if EVENT_pvPtr ev \<noteq> 0 then
         (Posted ERROR_NONE, KERNEL_EXIT (event_upd e (\<lambda>ev. ev\<lparr>EVENT_pvPtr := EVENT_pvPtr ev - 1\<rparr>) s1))
       else if EventWaitNum s1 EVENT_SEM_Q e \<noteq> 0 then
         (let (t, s2) = ReadyLowLevel e EVENT_SEM_Q 0 s1;
              s3 = EventPrioTryResume e cur s2;
              s4 = event_upd e (\<lambda>ev. ev\<lparr>EVENT_ulMaxCounter := ucast (tcb_prio s3 t), EVENT_pvTcbOwn := Some t\<rparr>) s3
          in (ThenUnsafe e, KERNEL_EXIT (EventReadyHighLevel t LW_THREAD_STATUS_SEM s4)))
       else if EVENT_ulCounter ev = 0 then
         (ThenUnsafe e, KERNEL_EXIT (event_upd e (\<lambda>ev. ev\<lparr>EVENT_ulCounter := 1,
            EVENT_ulMaxCounter := ucast LW_PRIO_LOWEST, EVENT_pvTcbOwn := None\<rparr>) s1))
       else (let (r, s2) = PostFull s s1 in (Posted r, s2)))) y))"
    by (rule keeps_open) (auto intro!: mkeep keeps_boost simp: Let_def split_beta)
  then show "mkeeps s (snd (SemaphoreMPost ulId s))"
    by (auto simp: SemaphoreMPost_def intro!: mkeep keeps_check_case)
  show "mkeeps s (snd (snd (SemaphoreMDelete ulId s)))"
    unfolding SemaphoreMDelete_def
    by (simp only: split: if_split, intro conjI impI, simp add: keeps_chain, rule keeps_open2)
       (auto intro!: mkeep simp: Let_def split: option.split)
qed

end
