(* ===== verification/Msg_Steps.thy ===== *)
theory Msg_Steps
  imports Msg_Frame
begin

text \<open>
  Every step of a kernel run leaves message queues alone, in the sense of \<open>keeps\<close>.
\<close>

section \<open>The remaining calls\<close>

lemma keeps_ReadyOne [mkeep]: "keeps ty s x \<Longrightarrow> keeps ty s (snd (ReadyOne e q m wt x))"
  by (rule keeps_chain(7))

lemma keeps_RWPost_readers:
  assumes "EVENT_ucType (k_event s e) \<noteq> LW_TYPE_EVENT_MSGQUEUE" "mkeeps s x" shows "mkeeps s (RWPost_readers n e x)"
  using assms(2)
proof (induction n arbitrary: x)
  case (Suc n)
  have "mkeeps s (EventReadyHighLevel (fst (ReadyLowLevel e EVENT_RW_Q_R 0 x)) LW_THREAD_STATUS_SEM
      (event_upd e (\<lambda>ev. ev\<lparr>EVENT_ulCounter := EVENT_ulCounter ev + 1\<rparr>) (snd (ReadyLowLevel e EVENT_RW_Q_R 0 x))))"
    using Suc.prems assms(1) by (auto intro!: mkeep)
  then show ?case using Suc by (simp add: split_beta Let_def)
qed simp

lemma keeps_RWPost_release [mkeep]:
  assumes "mkeeps s x" "EVENT_ucType (k_event s e) \<noteq> LW_TYPE_EVENT_MSGQUEUE" shows "mkeeps s (RWPost_release e b x)"
  unfolding RWPost_release_def Let_def split_beta
  using assms by (auto intro!: mkeep keeps_RWPost_readers)

lemma keeps_RWPost: "mkeeps s (snd (SemaphoreRWPost ulId s))"
proof -
  have "mkeeps s (snd (case EventOpen OBJECT_SEM_RW LW_TYPE_EVENT_SEMRW ulId s of
     Inl x \<Rightarrow> (\<lambda>(r, s1). (Posted r, s1)) x
   | Inr y \<Rightarrow> (\<lambda>(e, s1). (let cur = LW_TCB_GET_CUR s1; ev = k_event s1 e in
       if EVENT_ulCounter ev = 0 then
         (Posted ERROR_EVENT_NOT_OWN, ErrorHandle_of s ERROR_EVENT_NOT_OWN (KERNEL_EXIT s1))
       else if EVENT_iStatus ev = EVENT_RW_STATUS_R then
         (if EVENT_ulCounter ev > 1 then
            (ThenUnsafe e, KERNEL_EXIT (event_upd e (\<lambda>ev. ev\<lparr>EVENT_ulCounter := EVENT_ulCounter ev - 1\<rparr>) s1))
          else let bIgnWrite = (EVENT_ulOption ev AND LW_OPTION_RW_PREFER_WRITER = 0 \<and> EventWaitNum s1 EVENT_RW_Q_R e \<noteq> 0)
               in (ThenUnsafe e, KERNEL_EXIT (RWPost_release e bIgnWrite s1)))
       else if EVENT_pvTcbOwn ev \<noteq> Some cur then
         (Posted ERROR_EVENT_NOT_OWN, ErrorHandle_of s ERROR_EVENT_NOT_OWN (KERNEL_EXIT s1))
       else if EVENT_pvPtr ev \<noteq> 0 then
         (Posted ERROR_NONE, KERNEL_EXIT (event_upd e (\<lambda>ev. ev\<lparr>EVENT_pvPtr := EVENT_pvPtr ev - 1\<rparr>) s1))
       else (ThenUnsafe e, KERNEL_EXIT (RWPost_release e False s1)))) y))"
    by (rule keeps_open) (auto intro!: mkeep simp: Let_def)
  then show ?thesis by (auto simp: SemaphoreRWPost_def intro!: mkeep keeps_check_case)
qed

lemma keeps_RWDelete: "mkeeps s (snd (snd (SemaphoreRWDelete ulId s)))"
  unfolding SemaphoreRWDelete_def
  by (simp only: split: if_split, intro conjI impI, simp add: keeps_chain, rule keeps_open2)
     (auto intro!: mkeep simp: Let_def split: option.split)

section \<open>Waiting and waking\<close>

lemma keeps_pend:
  assumes a: "api_inv s" and c: "caller s"
  shows "mkeeps s (snd (SemaphoreCPend ulId d s))" "mkeeps s (snd (SemaphoreBPendEx ulId d p s))"
    "mkeeps s (snd (SemaphoreRWPendR ulId d s))" "mkeeps s (snd (SemaphoreRWPendW ulId d s))"
    "mkeeps s (snd (SemaphoreBPend ulId d s))"
  using c by (auto simp: SemaphoreBPend_Ex SemaphoreCPend_def SemaphoreBPendEx_def SemaphoreRWPendR_def SemaphoreRWPendW_def
      caller_def split_beta intro!: mkeep keeps_again[OF a])

lemma keeps_MPend:
  assumes a: "api_inv s" and c: "caller s" shows "mkeeps s (snd (SemaphoreMPend ulId d s))"
  using c by (auto simp: SemaphoreMPend_def caller_def intro!: mkeep keeps_MPend_again[OF a])

lemma keeps_wake:
  assumes a: "api_inv s" and r: "runs s t"
  shows "mkeeps s (snd (SemaphoreCPend_wake ulId d sv opt s))" "mkeeps s (snd (SemaphoreBPendEx_wake ulId d sv opt p s))"
    "mkeeps s (snd (SemaphoreMPend_wake ulId d sv opt s))"
    "mkeeps s (snd (SemaphoreRWPendR_wake ulId d sv opt s))" "mkeeps s (snd (SemaphoreRWPendW_wake ulId d sv opt s))"
proof -
  obtain w s1 where w: "PendWake d sv opt s = (w, s1)" by fastforce
  have a1: "api_inv s1" using api_inv_PendWake[OF a, of d sv opt] by (simp add: w)
  have k1: "mkeeps s s1" using keeps_PendWake[OF keeps_refl, of LW_TYPE_EVENT_MSGQUEUE s d sv opt] by (simp add: w)
  have r1: "\<exists>t. runs s1 t" if "w = WakeAgain v" for v using PendWake_again_runs[OF w[unfolded that] r] by blast
  note g = keeps_again[OF a1 _ k1] keeps_MPend_again[OF a1 _ k1]
  show "mkeeps s (snd (SemaphoreCPend_wake ulId d sv opt s))" "mkeeps s (snd (SemaphoreBPendEx_wake ulId d sv opt p s))"
    "mkeeps s (snd (SemaphoreMPend_wake ulId d sv opt s))"
    "mkeeps s (snd (SemaphoreRWPendR_wake ulId d sv opt s))" "mkeeps s (snd (SemaphoreRWPendW_wake ulId d sv opt s))"
    using r1 k1 by (auto simp: SemaphoreCPend_wake_def SemaphoreBPendEx_wake_def SemaphoreMPend_wake_def SemaphoreRWPendR_wake_def
        SemaphoreRWPendW_wake_def RWPend_wake_tail_def w split_beta split: wake_out.split intro!: mkeep g)
qed

section \<open>Creating\<close>

lemma keeps_creates:
  assumes a: "api_inv s"
  shows "mkeeps s (snd (SemaphoreCCreate nm i mx opt s))" "mkeeps s (snd (SemaphoreBCreate nm b opt s))"
    "mkeeps s (snd (SemaphoreMCreate nm c opt s))" "mkeeps s (snd (SemaphoreRWCreate nm opt s))"
proof -
  note k = api_invD(1,2)[OF a]
  have n: "mkeeps s (snd (r, ErrorHandle_of s ERROR_EVENT_FULL s1))" if "EventAlloc s = (None, s1)" for r :: ULONG and s1
    using keeps_alloc[OF keeps_refl that] by (simp add: mkeep)
  show "mkeeps s (snd (SemaphoreCCreate nm i mx opt s))" unfolding SemaphoreCCreate_def
    by (simp only: split: if_split, intro conjI impI; (simp add: mkeep; fail)?)
       (rule keeps_create[OF k _ n], simp_all)
  show "mkeeps s (snd (SemaphoreBCreate nm b opt s))" unfolding SemaphoreBCreate_def
    by (simp only: split: if_split, intro conjI impI; (simp add: mkeep; fail)?)
       (rule keeps_create[OF k _ n], simp_all)
  show "mkeeps s (snd (SemaphoreMCreate nm c opt s))" unfolding SemaphoreMCreate_def
    by (simp only: split: if_split, intro conjI impI; (simp add: mkeep; fail)?)
       (rule keeps_create[OF k _ n], simp_all)
  show "mkeeps s (snd (SemaphoreRWCreate nm opt s))" unfolding SemaphoreRWCreate_def
    by (simp only: split: if_split, intro conjI impI; (simp add: mkeep; fail)?)
       (rule keeps_create[OF k _ n], simp_all)
qed

section \<open>Steps\<close>

lemma keeps_exec:
  assumes a: "api_inv s" and l: "legal c s" shows "mkeeps s (exec c s)"
  using l keeps_C[of s] keeps_C2[of s] keeps_B[of s] keeps_B2[of s] keeps_M[of s] keeps_RWPost[of s] keeps_RWDelete[of s]
    keeps_pend[OF a] keeps_MPend[OF a] keeps_wake[OF a] keeps_creates[OF a]
  by (cases c) (auto simp: legal_def wake_call_def)

lemma keeps_ticked:
  assumes t: "ticked k s s'" shows "keeps ty s s'"
proof (rule keeps_step)
  note d = t[unfolded ticked_def]
  show "ev_core (k_event s' e) = ev_core (k_event s e)" for e using d by blast
  show "waits_on s e q u" if u: "waits_on s' e q u" for e q u
  proof (cases "u \<in> due_by s k")
    case True
    then have "fired s s' u" using d by blast
    then show ?thesis using u by (simp add: fired_def waits_on_def)
  next
    case False
    then have "tcb_core (k_tcb s' u) = tcb_core (k_tcb s u)" using d by blast
    then show ?thesis using u tcb_core_eqD[of "k_tcb s' u" "k_tcb s u"] by (simp add: waits_on_def)
  qed
qed

theorem keeps_kstep:
  assumes a: "api_inv s" and st: "kstep s s'" shows "mkeeps s s'"
  using st
proof (cases rule: kstep.cases)
  case (Call c)
  then show ?thesis using keeps_exec[OF a] by simp
next
  case Tick
  then show ?thesis using keeps_ticked[OF ThreadTick_ok[OF api_invD(1)[OF a]]] by simp
next
  case Slice
  then show ?thesis using keeps_frame[OF run_frame_slice(1)] by simp
next
  case Sched
  then show ?thesis using keeps_frame[OF run_frame_kernel(3)] by (simp add: Schedule_def)
next
  case (Sched_int c)
  then show ?thesis using keeps_frame[OF run_frame_kernel(3)] by (simp add: ScheduleInt_def)
next
  case (Yield t)
  then show ?thesis using keeps_frame[OF run_frame_slice(2)] by simp
next
  case (Set_prio t p)
  then show ?thesis by (simp add: mkeep)
next
  case (Switch_cpu c)
  then show ?thesis by (simp add: keeps_same)
next
  case (Interrupt c n)
  then show ?thesis by (simp add: keeps_same)
qed

end
