(* ===== verification/Msg_Refine.thy ===== *)
theory Msg_Refine
  imports Msg_Api Api_Inv
begin

text \<open>
  The abstract mailbox that a message queue implements: the messages in the order in which
  they are received, and the two lines of waiting threads.  Each routine is one operation
  of the mailbox.
\<close>

section \<open>The mailbox\<close>

record mbox =
  mb_msgs :: "(nat \<times> UINT8 list) list"
  mb_max :: nat
  mb_bytes :: ULONG
  mb_recv :: "tid list"
  mb_send :: "tid list"

definition mbox_of :: "msgs \<Rightarrow> eid \<Rightarrow> mbox" where
  "mbox_of m e = \<lparr>mb_msgs = stored (mq_block m (pmsgqueue m e)),
     mb_max = unat (EVENT_ulMaxCounter (k_event (mq_k m) e)),
     mb_bytes = MSGQUEUE_stMaxBytes (mq_block m (pmsgqueue m e)),
     mb_recv = wait_order (mq_k m) e EVENT_MSG_Q_R, mb_send = wait_order (mq_k m) e EVENT_MSG_Q_S\<rparr>"

text \<open>The event, its control block and its waiters agree.\<close>

definition mq_ok :: "msgs \<Rightarrow> eid \<Rightarrow> bool" where
  "mq_ok m e \<longleftrightarrow> mq_wf (unat (EVENT_ulMaxCounter (k_event (mq_k m) e))) (mq_block m (pmsgqueue m e)) \<and>
     unat (EVENT_ulCounter (k_event (mq_k m) e)) = length (stored (mq_block m (pmsgqueue m e))) \<and>
     (waiters (mq_k m) e EVENT_MSG_Q_R \<noteq> {} \<longrightarrow> EVENT_ulCounter (k_event (mq_k m) e) = 0)"

definition mq_st :: "msgs \<Rightarrow> eid \<Rightarrow> bool" where
  "mq_st m e \<longleftrightarrow> kinv (mq_k m) \<and> order_ok (mq_k m) e EVENT_MSG_Q_R \<and> order_ok (mq_k m) e EVENT_MSG_Q_S \<and> mq_ok m e"

lemma mq_stD:
  assumes "mq_st m e"
  shows "kinv (mq_k m)" "order_ok (mq_k m) e EVENT_MSG_Q_R" "order_ok (mq_k m) e EVENT_MSG_Q_S" "mq_ok m e"
  using assms by (simp_all add: mq_st_def)

lemma kupd_simps [simp]:
  "mq_k (kupd f m) = f (mq_k m)" "mq_block (kupd f m) = mq_block m" "mq_freeBlocks (kupd f m) = mq_freeBlocks m"
  "mq_rx (kupd f m) = mq_rx m" "m_buf (kupd f m) = m_buf m" "m_len (kupd f m) = m_len m"
  by (simp_all add: kupd_def)

lemma kupd_kupd [simp]: "kupd f (kupd g m) = kupd (\<lambda>s. f (g s)) m"
  by (simp add: kupd_def)

lemma rx_upd_simps [simp]:
  "mq_k (rx_upd t f m) = mq_k m" "mq_block (rx_upd t f m) = mq_block m" "mq_freeBlocks (rx_upd t f m) = mq_freeBlocks m"
  "mq_rx (rx_upd t f m) = (mq_rx m)(t := f (mq_rx m t))" "m_buf (rx_upd t f m) = m_buf m" "m_len (rx_upd t f m) = m_len m"
  by (simp_all add: rx_upd_def)

text \<open>What the mailbox depends on.\<close>

definition box_same :: "eid \<Rightarrow> kernel \<Rightarrow> kernel \<Rightarrow> bool" where
  "box_same e s s' \<longleftrightarrow> kinv s' \<and> ev_core (k_event s' e) = ev_core (k_event s e) \<and> (\<forall>q. waiters s' e q = waiters s e q) \<and>
     (\<forall>q. wait_order s' e q = wait_order s e q) \<and> (\<forall>q. order_ok s' e q \<longleftrightarrow> order_ok s e q)"

lemma box_same_refl: "kinv s \<Longrightarrow> box_same e s s"
  by (simp add: box_same_def)

lemma box_same_trans: "\<lbrakk>box_same e a b; box_same e b c\<rbrakk> \<Longrightarrow> box_same e a c"
  by (simp add: box_same_def)

lemma box_same_basic [simp]:
  assumes "kinv s"
  shows "box_same e s (KERNEL_ENTER s)" "box_same e s (KERNEL_EXIT s)" "box_same e s (ErrorHandle_of ctx c s)" "box_same e s (ErrorHandle c s)"
  using assms by (simp_all add: box_same_def KERNEL_EXIT_kinv kinv_ErrorHandle ErrorHandle_def)

lemma box_same_fail [simp]: "kinv s \<Longrightarrow> box_same e s (ErrorHandle_of ctx c (KERNEL_EXIT s))"
  by (rule box_same_trans[OF box_same_basic(2)]) (simp_all add: KERNEL_EXIT_kinv)

lemma ev_core_fields:
  assumes "ev_core a = ev_core b"
  shows "EVENT_ulCounter a = EVENT_ulCounter b" "EVENT_ulMaxCounter a = EVENT_ulMaxCounter b" "EVENT_pvPtr a = EVENT_pvPtr b"
    "EVENT_ulOption a = EVENT_ulOption b" "EVENT_ucType a = EVENT_ucType b"
  using ev_core_eqD[OF assms] by simp_all

lemma box_same_mbox:
  assumes "box_same e s (mq_k m')" "mq_block m' = mq_block m" "s = mq_k m"
  shows "mbox_of m' e = mbox_of m e" "mq_ok m' e \<longleftrightarrow> mq_ok m e" "mq_st m e \<Longrightarrow> mq_st m' e" "pmsgqueue m' e = pmsgqueue m e"
proof -
  have c: "ev_core (k_event (mq_k m') e) = ev_core (k_event (mq_k m) e)" using assms(1,3) by (simp add: box_same_def)
  show p: "pmsgqueue m' e = pmsgqueue m e" by (simp add: pmsgqueue_def ev_core_fields[OF c])
  show "mbox_of m' e = mbox_of m e" using assms by (simp add: mbox_of_def p ev_core_fields[OF c] box_same_def)
  show ok: "mq_ok m' e \<longleftrightarrow> mq_ok m e" using assms by (simp add: mq_ok_def p ev_core_fields[OF c] box_same_def)
  show "mq_st m e \<Longrightarrow> mq_st m' e" using assms by (simp add: mq_st_def ok box_same_def)
qed

text \<open>Memory and the receivers' TCB fields do not matter.\<close>

lemma mbox_memory:
  assumes "mq_k m' = mq_k m" "mq_block m' = mq_block m"
  shows "mbox_of m' e = mbox_of m e" "mq_ok m' e \<longleftrightarrow> mq_ok m e" "mq_st m' e \<longleftrightarrow> mq_st m e" "pmsgqueue m' e = pmsgqueue m e"
  using assms by (simp_all add: mbox_of_def mq_ok_def mq_st_def pmsgqueue_def)

lemma msg_bits: "(4::UINT16) AND LW_THREAD_STATUS_PEND_ANY \<noteq> 0" "(4::UINT16) AND LW_THREAD_STATUS_DELAY = 0"
  by simp_all

section \<open>Handing a message over\<close>

definition msg_fits :: "rxtcb \<Rightarrow> ULONG \<Rightarrow> bool" where
  "msg_fits r stMsgLen \<longleftrightarrow> stMsgLen \<le> TCB_stMaxByteSize r \<or> TCB_ulRecvOption r AND LW_OPTION_NOERROR \<noteq> 0"

text \<open>The memory a receiver finds: the message, cut to its buffer, and its length.\<close>

definition msg_given :: "rxtcb \<Rightarrow> UINT8 list \<Rightarrow> msgs \<Rightarrow> msgs \<Rightarrow> bool" where
  "msg_given r x m m' \<longleftrightarrow>
     m_buf m' = (m_buf m)(TCB_pvMsgQueueMessage r := cut (TCB_stMaxByteSize r) x @
        drop (length (cut (TCB_stMaxByteSize r) x)) (m_buf m (TCB_pvMsgQueueMessage r))) \<and>
     m_len m' = (m_len m)(TCB_pstMsgByteSize r := of_nat (length (cut (TCB_stMaxByteSize r) x)))"

lemma MsgGive_ok:
  assumes "unat stMsgLen \<le> length (m_buf m a)"
  shows "mq_k (snd (MsgGive t a stMsgLen m)) = mq_k m" "mq_block (snd (MsgGive t a stMsgLen m)) = mq_block m"
    "mq_freeBlocks (snd (MsgGive t a stMsgLen m)) = mq_freeBlocks m"
    "fst (MsgGive t a stMsgLen m) \<longleftrightarrow> msg_fits (mq_rx m t) stMsgLen"
    "msg_fits (mq_rx m t) stMsgLen \<Longrightarrow> mq_rx (snd (MsgGive t a stMsgLen m)) = mq_rx m
       \<and> msg_given (mq_rx m t) (take (unat stMsgLen) (m_buf m a)) m (snd (MsgGive t a stMsgLen m))"
    "\<not> msg_fits (mq_rx m t) stMsgLen \<Longrightarrow> m_buf (snd (MsgGive t a stMsgLen m)) = m_buf m
       \<and> m_len (snd (MsgGive t a stMsgLen m)) = (m_len m)(TCB_pstMsgByteSize (mq_rx m t) := 0)
       \<and> TCB_stMaxByteSize (mq_rx (snd (MsgGive t a stMsgLen m)) t) = 0"
proof -
  define r where "r = mq_rx m t"
  define n where "n = (if stMsgLen < TCB_stMaxByteSize r then stMsgLen else TCB_stMaxByteSize r)"
  have c: "cut (TCB_stMaxByteSize r) (take (unat stMsgLen) (m_buf m a)) = take (unat n) (m_buf m a)"
    by (auto simp: n_def cut_def word_less_nat_alt min_def)
  have l: "length (take (unat n) (m_buf m a)) = unat n"
    using assms by (auto simp: n_def word_less_nat_alt)
  have f: "\<not> (stMsgLen > TCB_stMaxByteSize r \<and> TCB_ulRecvOption r AND LW_OPTION_NOERROR = 0) \<longleftrightarrow> msg_fits r stMsgLen"
    by (auto simp: msg_fits_def)
  have e: "MsgGive t a stMsgLen m = (if msg_fits r stMsgLen
      then (True, set_buf (TCB_pvMsgQueueMessage r) (memcpy (m_buf m (TCB_pvMsgQueueMessage r)) (m_buf m a) n) (set_len (TCB_pstMsgByteSize r) n m))
      else (False, rx_upd t (\<lambda>r. r\<lparr>TCB_stMaxByteSize := 0\<rparr>) (set_len (TCB_pstMsgByteSize r) 0 m)))"
    unfolding f[symmetric] by (simp add: MsgGive_def Let_def r_def n_def)
  show "mq_k (snd (MsgGive t a stMsgLen m)) = mq_k m" "mq_block (snd (MsgGive t a stMsgLen m)) = mq_block m"
    "mq_freeBlocks (snd (MsgGive t a stMsgLen m)) = mq_freeBlocks m"
    "fst (MsgGive t a stMsgLen m) \<longleftrightarrow> msg_fits (mq_rx m t) stMsgLen"
    by (simp_all add: e r_def)
  show "mq_rx (snd (MsgGive t a stMsgLen m)) = mq_rx m
       \<and> msg_given (mq_rx m t) (take (unat stMsgLen) (m_buf m a)) m (snd (MsgGive t a stMsgLen m))"
    if "msg_fits (mq_rx m t) stMsgLen"
    using that l unfolding msg_given_def r_def[symmetric] c by (simp add: e memcpy_def)
  show "m_buf (snd (MsgGive t a stMsgLen m)) = m_buf m
       \<and> m_len (snd (MsgGive t a stMsgLen m)) = (m_len m)(TCB_pstMsgByteSize (mq_rx m t) := 0)
       \<and> TCB_stMaxByteSize (mq_rx (snd (MsgGive t a stMsgLen m)) t) = 0"
    if "\<not> msg_fits (mq_rx m t) stMsgLen"
    using that by (simp add: e r_def)
qed

text \<open>Removing the next waiter of one of the two lines.\<close>

definition box_woken :: "eid \<Rightarrow> nat \<Rightarrow> kernel \<Rightarrow> kernel \<Rightarrow> bool" where
  "box_woken e q s s' \<longleftrightarrow> kinv s' \<and> ev_core (k_event s' e) = ev_core (k_event s e) \<and>
     (\<forall>q'. waiters s' e q' = waiters s e q' - {next_waiter s e q}) \<and>
     wait_order s e q = next_waiter s e q # wait_order s' e q \<and> order_ok s' e q \<and>
     (\<forall>q'. q' \<noteq> q \<longrightarrow> wait_order s' e q' = wait_order s e q' \<and> (order_ok s' e q' \<longleftrightarrow> order_ok s e q'))"

lemma box_woken_ReadyOne:
  assumes k: "kinv s" and o: "order_ok s e q" and ne: "EventWaitNum s q e \<noteq> 0"
  shows "box_woken e q s (snd (ReadyOne e q 0 ty s))" "fst (ReadyOne e q 0 ty s) = next_waiter s e q"
proof -
  note r = ReadyOne_ok[OF k ne, where m = 0 and ty = ty]
  note w = ReadyOne_order[OF k ne o, where m = 0 and ty = ty]
  have "wait_order s e q \<noteq> []" using wait_order_empty k ne by (auto simp: kinv_def)
  then have "wait_order s e q = next_waiter s e q # tl (wait_order s e q)" using r(1) w(1) by (metis list.collapse)
  then show "box_woken e q s (snd (ReadyOne e q 0 ty s))"
    using r(1,2,11,12) w ReadyOne_same[OF k ne, where m = 0 and ty = ty and e' = e]
    by (auto simp: box_woken_def)
  show "fst (ReadyOne e q 0 ty s) = next_waiter s e q" by (rule r(1))
qed

lemma box_woken_mbox:
  assumes w: "box_woken e q (mq_k m) (mq_k m')" and b: "mq_block m' = mq_block m" and st: "mq_st m e"
    and q: "q = EVENT_MSG_Q_R \<or> q = EVENT_MSG_Q_S"
  shows "mq_st m' e" "pmsgqueue m' e = pmsgqueue m e"
    "q = EVENT_MSG_Q_R \<Longrightarrow> mb_recv (mbox_of m e) = next_waiter (mq_k m) e q # mb_recv (mbox_of m' e)
       \<and> mbox_of m' e = (mbox_of m e)\<lparr>mb_recv := tl (mb_recv (mbox_of m e))\<rparr>"
    "q = EVENT_MSG_Q_S \<Longrightarrow> mb_send (mbox_of m e) = next_waiter (mq_k m) e q # mb_send (mbox_of m' e)
       \<and> mbox_of m' e = (mbox_of m e)\<lparr>mb_send := tl (mb_send (mbox_of m e))\<rparr>"
proof -
  have c: "ev_core (k_event (mq_k m') e) = ev_core (k_event (mq_k m) e)" using w by (simp add: box_woken_def)
  show p: "pmsgqueue m' e = pmsgqueue m e" by (simp add: pmsgqueue_def ev_core_fields[OF c])
  have ok: "mq_ok m' e" using mq_stD(4)[OF st] w b by (auto simp: mq_ok_def p ev_core_fields[OF c] box_woken_def)
  show "mq_st m' e" using w q st ok by (auto simp: mq_st_def box_woken_def)
  show "mb_recv (mbox_of m e) = next_waiter (mq_k m) e q # mb_recv (mbox_of m' e)
       \<and> mbox_of m' e = (mbox_of m e)\<lparr>mb_recv := tl (mb_recv (mbox_of m e))\<rparr>" if "q = EVENT_MSG_Q_R"
    using w that by (simp add: mbox_of_def p b ev_core_fields[OF c] box_woken_def)
  show "mb_send (mbox_of m e) = next_waiter (mq_k m) e q # mb_send (mbox_of m' e)
       \<and> mbox_of m' e = (mbox_of m e)\<lparr>mb_send := tl (mb_send (mbox_of m e))\<rparr>" if "q = EVENT_MSG_Q_S"
    using w that by (simp add: mbox_of_def p b ev_core_fields[OF c] box_woken_def)
qed

lemma MsgSend_give_k:
  fixes e :: eid
  assumes "unat stMsgLen \<le> length (m_buf m a)"
  defines "t \<equiv> fst (ReadyOne e EVENT_MSG_Q_R 0 LW_THREAD_STATUS_MSGQUEUE (mq_k m))"
  shows "mq_k (snd (MsgSend_give e a stMsgLen m)) = snd (ReadyOne e EVENT_MSG_Q_R 0 LW_THREAD_STATUS_MSGQUEUE (mq_k m))"
    "mq_block (snd (MsgSend_give e a stMsgLen m)) = mq_block m"
    "mq_freeBlocks (snd (MsgSend_give e a stMsgLen m)) = mq_freeBlocks m"
    "fst (MsgSend_give e a stMsgLen m) \<longleftrightarrow> msg_fits (mq_rx m t) stMsgLen"
    "msg_fits (mq_rx m t) stMsgLen \<Longrightarrow> mq_rx (snd (MsgSend_give e a stMsgLen m)) = mq_rx m
       \<and> msg_given (mq_rx m t) (take (unat stMsgLen) (m_buf m a)) m (snd (MsgSend_give e a stMsgLen m))"
    "\<not> msg_fits (mq_rx m t) stMsgLen \<Longrightarrow> m_buf (snd (MsgSend_give e a stMsgLen m)) = m_buf m
       \<and> m_len (snd (MsgSend_give e a stMsgLen m)) = (m_len m)(TCB_pstMsgByteSize (mq_rx m t) := 0)
       \<and> TCB_stMaxByteSize (mq_rx (snd (MsgSend_give e a stMsgLen m)) t) = 0"
proof -
  obtain u s1 where lo: "ReadyLowLevel e EVENT_MSG_Q_R 0 (mq_k m) = (u, s1)" by (cases "ReadyLowLevel e EVENT_MSG_Q_R 0 (mq_k m)")
  have t: "t = u" by (simp add: t_def ReadyOne_def lo)
  note g = MsgGive_ok[where m = "m\<lparr>mq_k := s1\<rparr>" and t = u, simplified, OF assms(1)]
  have e: "MsgSend_give e a stMsgLen m = (fst (MsgGive u a stMsgLen (m\<lparr>mq_k := s1\<rparr>)),
      kupd (EventReadyHighLevel u LW_THREAD_STATUS_MSGQUEUE) (snd (MsgGive u a stMsgLen (m\<lparr>mq_k := s1\<rparr>))))"
    by (simp add: MsgSend_give_def lo split_beta Let_def)
  show "mq_k (snd (MsgSend_give e a stMsgLen m)) = snd (ReadyOne e EVENT_MSG_Q_R 0 LW_THREAD_STATUS_MSGQUEUE (mq_k m))"
    "mq_block (snd (MsgSend_give e a stMsgLen m)) = mq_block m" "fst (MsgSend_give e a stMsgLen m) \<longleftrightarrow> msg_fits (mq_rx m t) stMsgLen"
    "mq_freeBlocks (snd (MsgSend_give e a stMsgLen m)) = mq_freeBlocks m"
    using g(1,2,3,4) by (simp_all add: e ReadyOne_def lo t)
  show "msg_fits (mq_rx m t) stMsgLen \<Longrightarrow> mq_rx (snd (MsgSend_give e a stMsgLen m)) = mq_rx m
       \<and> msg_given (mq_rx m t) (take (unat stMsgLen) (m_buf m a)) m (snd (MsgSend_give e a stMsgLen m))"
    using g(5) by (simp add: e t msg_given_def)
  show "\<not> msg_fits (mq_rx m t) stMsgLen \<Longrightarrow> m_buf (snd (MsgSend_give e a stMsgLen m)) = m_buf m
       \<and> m_len (snd (MsgSend_give e a stMsgLen m)) = (m_len m)(TCB_pstMsgByteSize (mq_rx m t) := 0)
       \<and> TCB_stMaxByteSize (mq_rx (snd (MsgSend_give e a stMsgLen m)) t) = 0"
    using g(6) by (simp add: e t)
qed

section \<open>Storing a message\<close>

lemma counter_room:
  assumes "mq_ok m e"
  defines "ev \<equiv> k_event (mq_k m) e"
  shows "EVENT_ulCounter ev < EVENT_ulMaxCounter ev \<longleftrightarrow> length (mb_msgs (mbox_of m e)) < mb_max (mbox_of m e)"
    "length (mb_msgs (mbox_of m e)) \<le> mb_max (mbox_of m e)" "EVENT_ulCounter ev = 0 \<longleftrightarrow> mb_msgs (mbox_of m e) = []"
proof -
  have u: "unat (EVENT_ulCounter ev) = length (mb_msgs (mbox_of m e))" using assms by (simp add: mq_ok_def mbox_of_def)
  show "EVENT_ulCounter ev < EVENT_ulMaxCounter ev \<longleftrightarrow> length (mb_msgs (mbox_of m e)) < mb_max (mbox_of m e)"
    using u by (simp add: word_less_nat_alt mbox_of_def ev_def)
  show "length (mb_msgs (mbox_of m e)) \<le> mb_max (mbox_of m e)"
    using mq_wf_count assms by (fastforce simp: mq_ok_def mbox_of_def)
  show "EVENT_ulCounter ev = 0 \<longleftrightarrow> mb_msgs (mbox_of m e) = []"
    using u unat_eq_0[of "EVENT_ulCounter ev"] by auto
qed

lemma kinv_counter [simp]:
  "kinv (event_upd e (\<lambda>ev. ev\<lparr>EVENT_ulCounter := c ev\<rparr>) s) \<longleftrightarrow> kinv s"
  "order_ok (event_upd e (\<lambda>ev. ev\<lparr>EVENT_ulCounter := c ev\<rparr>) s) e' q \<longleftrightarrow> order_ok s e' q"
  "wait_order (event_upd e (\<lambda>ev. ev\<lparr>EVENT_ulCounter := c ev\<rparr>) s) e' q = wait_order s e' q"
  by (simp_all add: kinv_event_upd event_upd_reads)

text \<open>A change of the counter together with a change of the control block.\<close>

lemma mq_st_counter:
  assumes st: "mq_st m e"
    and k: "mq_k m' = event_upd e (\<lambda>ev. ev\<lparr>EVENT_ulCounter := c ev\<rparr>) (mq_k m)"
    and b: "b = pmsgqueue m e" "q' = mq_block m' b" "MSGQUEUE_stMaxBytes q' = MSGQUEUE_stMaxBytes (mq_block m b)"
    and wf: "mq_wf (mb_max (mbox_of m e)) q'" and n: "unat (c (k_event (mq_k m) e)) = length (stored q')"
    and r: "waiters (mq_k m) e EVENT_MSG_Q_R \<noteq> {} \<Longrightarrow> c (k_event (mq_k m) e) = 0"
  shows "mq_st m' e" "mbox_of m' e = (mbox_of m e)\<lparr>mb_msgs := stored q'\<rparr>" "pmsgqueue m' e = b"
proof -
  have p: "pmsgqueue m' e = b" using b(1) by (simp add: pmsgqueue_def k)
  then show "pmsgqueue m' e = b" .
  show "mq_st m' e" using st wf n r unfolding mq_st_def mq_ok_def p k
    by (auto simp: b(2) mbox_of_def)
  show "mbox_of m' e = (mbox_of m e)\<lparr>mb_msgs := stored q'\<rparr>"
    unfolding mbox_of_def p k using b by simp
qed

text \<open>The store after a put and a get, from the agreement of counter and block alone.\<close>

lemma put_store:
  fixes m m' :: msgs and a p :: nat and stMsgLen :: ULONG
  assumes ok: "mq_ok m e" and p: "p < EVENT_MSG_Q_PRIO"
    and len: "stMsgLen \<le> mb_bytes (mbox_of m e)" "stMsgLen \<noteq> 0" "unat stMsgLen \<le> length (m_buf m a)"
    and room: "length (mb_msgs (mbox_of m e)) < mb_max (mbox_of m e)"
  defines "m1 \<equiv> kupd (event_upd e (\<lambda>ev. ev\<lparr>EVENT_ulCounter := EVENT_ulCounter ev + 1\<rparr>)) m"
  defines "m' \<equiv> MsgQueuePut (pmsgqueue m1 e) a stMsgLen p m1" and "q' \<equiv> mq_block m' (pmsgqueue m e)"
  shows "mq_k m' = event_upd e (\<lambda>ev. ev\<lparr>EVENT_ulCounter := EVENT_ulCounter ev + 1\<rparr>) (mq_k m)"
    "mq_wf (mb_max (mbox_of m e)) q'"
    "stored q' = pq_put p (take (unat stMsgLen) (m_buf m a)) (mb_msgs (mbox_of m e))"
    "MSGQUEUE_stMaxBytes q' = MSGQUEUE_stMaxBytes (mq_block m (pmsgqueue m e))"
    "unat (EVENT_ulCounter (k_event (mq_k m) e) + 1) = length (stored q')"
    "\<And>b. b \<noteq> pmsgqueue m e \<Longrightarrow> mq_block m' b = mq_block m b"
    "mq_rx m' = mq_rx m" "m_buf m' = m_buf m" "m_len m' = m_len m" "mq_freeBlocks m' = mq_freeBlocks m"
proof -
  let ?b = "pmsgqueue m e"
  have b1: "pmsgqueue m1 e = ?b" by (simp add: pmsgqueue_def m1_def)
  have wf: "mq_wf (mb_max (mbox_of m e)) (mq_block m1 ?b)" using ok by (simp add: mq_ok_def mbox_of_def m1_def)
  have s1: "stored (mq_block m1 ?b) = mb_msgs (mbox_of m e)" by (simp add: mbox_of_def m1_def)
  have fr: "MSGQUEUE_pmonoFree (mq_block m1 ?b) \<noteq> []" using mq_wf_count[OF wf] room s1 by auto
  have l: "stMsgLen \<le> MSGQUEUE_stMaxBytes (mq_block m1 ?b)" "unat stMsgLen \<le> length (m_buf m1 a)"
    using len by (simp_all add: mbox_of_def m1_def)
  note put = MsgQueuePut_ok[OF wf refl fr p l(1) len(2) l(2), folded b1, folded m'_def]
  show "mq_k m' = event_upd e (\<lambda>ev. ev\<lparr>EVENT_ulCounter := EVENT_ulCounter ev + 1\<rparr>) (mq_k m)"
    by (simp add: put(5) m1_def)
  show "mq_rx m' = mq_rx m" "m_buf m' = m_buf m" "m_len m' = m_len m" "mq_freeBlocks m' = mq_freeBlocks m"
    by (simp_all add: put(6,7,8,9) m1_def)
  show "mq_block m' b = mq_block m b" if "b \<noteq> pmsgqueue m e" for b using put(4)[of b] that b1 by (simp add: m1_def)
  have c: "unat (EVENT_ulCounter (k_event (mq_k m) e) + 1) = Suc (length (mb_msgs (mbox_of m e)))"
    using unat_add1[of "EVENT_ulCounter (k_event (mq_k m) e)" "EVENT_ulMaxCounter (k_event (mq_k m) e)"] room counter_room(1)[OF ok] ok
    by (simp add: mq_ok_def mbox_of_def)
  have n: "length (pq_put p x xs) = Suc (length xs)" for p x and xs :: "(nat \<times> UINT8 list) list"
    by (induction xs) (auto simp: pq_put_def not_le)
  show q: "stored q' = pq_put p (take (unat stMsgLen) (m_buf m a)) (mb_msgs (mbox_of m e))"
    using put(2) b1 s1 by (simp add: m1_def q'_def)
  show "unat (EVENT_ulCounter (k_event (mq_k m) e) + 1) = length (stored q')" using c q n by simp
  show "mq_wf (mb_max (mbox_of m e)) q'" "MSGQUEUE_stMaxBytes q' = MSGQUEUE_stMaxBytes (mq_block m (pmsgqueue m e))"
    using put(1,3) b1 by (simp_all add: m1_def q'_def)
qed

lemma MsgSend_put:
  fixes m m' :: msgs and a p :: nat and stMsgLen :: ULONG
  assumes st: "mq_st m e" and none: "EventWaitNum (mq_k m) EVENT_MSG_Q_R e = 0" and p: "p < EVENT_MSG_Q_PRIO"
    and len: "stMsgLen \<le> mb_bytes (mbox_of m e)" "stMsgLen \<noteq> 0" "unat stMsgLen \<le> length (m_buf m a)"
    and room: "length (mb_msgs (mbox_of m e)) < mb_max (mbox_of m e)"
  defines "m1 \<equiv> kupd (event_upd e (\<lambda>ev. ev\<lparr>EVENT_ulCounter := EVENT_ulCounter ev + 1\<rparr>)) m"
  defines "m' \<equiv> MsgQueuePut (pmsgqueue m1 e) a stMsgLen p m1"
  shows "mq_st m' e"
    "mbox_of m' e = (mbox_of m e)\<lparr>mb_msgs := pq_put p (take (unat stMsgLen) (m_buf m a)) (mb_msgs (mbox_of m e))\<rparr>"
    "mq_k m' = event_upd e (\<lambda>ev. ev\<lparr>EVENT_ulCounter := EVENT_ulCounter ev + 1\<rparr>) (mq_k m)"
    "\<And>b. b \<noteq> pmsgqueue m e \<Longrightarrow> mq_block m' b = mq_block m b"
    "mq_rx m' = mq_rx m" "m_buf m' = m_buf m" "m_len m' = m_len m" "mq_freeBlocks m' = mq_freeBlocks m"
proof -
  note put = put_store[OF mq_stD(4)[OF st] p len room, folded m1_def, folded m'_def]
  show "mq_k m' = event_upd e (\<lambda>ev. ev\<lparr>EVENT_ulCounter := EVENT_ulCounter ev + 1\<rparr>) (mq_k m)"
    "\<And>b. b \<noteq> pmsgqueue m e \<Longrightarrow> mq_block m' b = mq_block m b"
    "mq_rx m' = mq_rx m" "m_buf m' = m_buf m" "m_len m' = m_len m" "mq_freeBlocks m' = mq_freeBlocks m"
    using put by simp_all
  have w0: "waiters (mq_k m) e EVENT_MSG_Q_R = {}"
    using wait_order_empty none wait_order_waiters mq_stD(1)[OF st] by (metis kinv_def list.set(1))
  note r = mq_st_counter[OF st put(1) refl refl put(4,2,5)]
  show "mq_st m' e" by (rule r(1)) (simp add: w0)
  show "mbox_of m' e = (mbox_of m e)\<lparr>mb_msgs := pq_put p (take (unat stMsgLen) (m_buf m a)) (mb_msgs (mbox_of m e))\<rparr>"
    unfolding put(3)[symmetric] by (rule r(2)) (simp add: w0)
qed

section \<open>Taking a message\<close>

lemma stored_no_receiver:
  assumes "mq_ok m e" "mb_msgs (mbox_of m e) \<noteq> []" shows "waiters (mq_k m) e EVENT_MSG_Q_R = {}"
  using counter_room(3)[OF assms(1)] assms by (auto simp: mq_ok_def)

lemma get_store:
  fixes m m' :: msgs and a pl :: nat and stMax :: ULONG
  assumes ok: "mq_ok m e" and ne: "mb_msgs (mbox_of m e) \<noteq> []"
  defines "m1 \<equiv> kupd (event_upd e (\<lambda>ev. ev\<lparr>EVENT_ulCounter := EVENT_ulCounter ev - 1\<rparr>)) m"
  defines "m' \<equiv> MsgQueueGet (pmsgqueue m1 e) a stMax pl m1" and "x \<equiv> cut stMax (snd (hd (mb_msgs (mbox_of m e))))"
  defines "q' \<equiv> mq_block m' (pmsgqueue m e)"
  shows "mq_k m' = event_upd e (\<lambda>ev. ev\<lparr>EVENT_ulCounter := EVENT_ulCounter ev - 1\<rparr>) (mq_k m)"
    "mq_wf (mb_max (mbox_of m e)) q'" "stored q' = tl (mb_msgs (mbox_of m e))"
    "MSGQUEUE_stMaxBytes q' = MSGQUEUE_stMaxBytes (mq_block m (pmsgqueue m e))"
    "unat (EVENT_ulCounter (k_event (mq_k m) e) - 1) = length (stored q')"
    "\<And>b. b \<noteq> pmsgqueue m e \<Longrightarrow> mq_block m' b = mq_block m b"
    "mq_rx m' = mq_rx m" "m_len m' = (m_len m)(pl := of_nat (length x))" "m_buf m' = (m_buf m)(a := x @ drop (length x) (m_buf m a))"
    "mq_freeBlocks m' = mq_freeBlocks m"
proof -
  let ?b = "pmsgqueue m e"
  have b1: "pmsgqueue m1 e = ?b" by (simp add: pmsgqueue_def m1_def)
  have wf: "mq_wf (mb_max (mbox_of m e)) (mq_block m1 ?b)" using ok by (simp add: mq_ok_def mbox_of_def m1_def)
  have s1: "stored (mq_block m1 ?b) = mb_msgs (mbox_of m e)" by (simp add: mbox_of_def m1_def)
  note get = MsgQueueGet_ok[OF wf refl, where a = a and pl = pl and stMax = stMax, folded b1, folded m'_def, unfolded b1 s1, OF ne,
      folded x_def q'_def]
  show "mq_k m' = event_upd e (\<lambda>ev. ev\<lparr>EVENT_ulCounter := EVENT_ulCounter ev - 1\<rparr>) (mq_k m)"
    by (simp add: get(5) m1_def)
  show "mq_rx m' = mq_rx m" "m_len m' = (m_len m)(pl := of_nat (length x))" "mq_freeBlocks m' = mq_freeBlocks m"
     "m_buf m' = (m_buf m)(a := x @ drop (length x) (m_buf m a))"
    by (simp_all add: get(6,7,8,9) m1_def)
  show "mq_block m' b = mq_block m b" if "b \<noteq> pmsgqueue m e" for b using get(4)[of b] that b1 by (simp add: m1_def)
  have c0: "EVENT_ulCounter (k_event (mq_k m) e) \<noteq> 0" using counter_room(3)[OF ok] ne by simp
  show "unat (EVENT_ulCounter (k_event (mq_k m) e) - 1) = length (stored q')"
    using word_pos_Suc_unat[OF c0] ok by (simp add: mq_ok_def mbox_of_def get(2))
  show "mq_wf (mb_max (mbox_of m e)) q'" "stored q' = tl (mb_msgs (mbox_of m e))" by (fact get(1), fact get(2))
  show "MSGQUEUE_stMaxBytes q' = MSGQUEUE_stMaxBytes (mq_block m ?b)" using get(3) by (simp add: m1_def)
qed

lemma MsgTake_get:
  fixes m m' :: msgs and a pl :: nat and stMax :: ULONG
  assumes st: "mq_st m e" and ne: "mb_msgs (mbox_of m e) \<noteq> []"
  defines "m1 \<equiv> kupd (event_upd e (\<lambda>ev. ev\<lparr>EVENT_ulCounter := EVENT_ulCounter ev - 1\<rparr>)) m"
  defines "m' \<equiv> MsgQueueGet (pmsgqueue m1 e) a stMax pl m1" and "x \<equiv> cut stMax (snd (hd (mb_msgs (mbox_of m e))))"
  shows "mq_st m' e" "mbox_of m' e = (mbox_of m e)\<lparr>mb_msgs := tl (mb_msgs (mbox_of m e))\<rparr>"
    "mq_k m' = event_upd e (\<lambda>ev. ev\<lparr>EVENT_ulCounter := EVENT_ulCounter ev - 1\<rparr>) (mq_k m)"
    "\<And>b. b \<noteq> pmsgqueue m e \<Longrightarrow> mq_block m' b = mq_block m b"
    "mq_rx m' = mq_rx m" "m_len m' = (m_len m)(pl := of_nat (length x))" "m_buf m' = (m_buf m)(a := x @ drop (length x) (m_buf m a))"
    "mq_freeBlocks m' = mq_freeBlocks m"
proof -
  note get = get_store[OF mq_stD(4)[OF st] ne, where a = a and pl = pl and stMax = stMax, folded m1_def, folded m'_def x_def]
  show "mq_k m' = event_upd e (\<lambda>ev. ev\<lparr>EVENT_ulCounter := EVENT_ulCounter ev - 1\<rparr>) (mq_k m)"
    "\<And>b. b \<noteq> pmsgqueue m e \<Longrightarrow> mq_block m' b = mq_block m b"
    "mq_rx m' = mq_rx m" "m_len m' = (m_len m)(pl := of_nat (length x))" "m_buf m' = (m_buf m)(a := x @ drop (length x) (m_buf m a))"
    "mq_freeBlocks m' = mq_freeBlocks m"
    using get by simp_all
  note r = mq_st_counter[OF st get(1) refl refl get(4,2,5)]
  have w0: "waiters (mq_k m) e EVENT_MSG_Q_R = {}" by (rule stored_no_receiver[OF mq_stD(4)[OF st] ne])
  show "mq_st m' e" by (rule r(1)) (simp add: w0)
  show "mbox_of m' e = (mbox_of m e)\<lparr>mb_msgs := tl (mb_msgs (mbox_of m e))\<rparr>"
    unfolding get(3)[symmetric] by (rule r(2)) (simp add: w0)
qed

lemma MsgTake_ok:
  fixes m m' :: msgs and a pl :: nat and stMax :: ULONG
  assumes st: "mq_st m e" and ne: "mb_msgs (mbox_of m e) \<noteq> []"
  defines "m' \<equiv> MsgTake e a stMax pl m" and "x \<equiv> cut stMax (snd (hd (mb_msgs (mbox_of m e))))" and "A \<equiv> mbox_of m e"
  shows "mq_st m' e" "mbox_of m' e = A\<lparr>mb_msgs := tl (mb_msgs A), mb_send := tl (mb_send A)\<rparr>"
    "m_len m' = (m_len m)(pl := of_nat (length x))" "m_buf m' = (m_buf m)(a := x @ drop (length x) (m_buf m a))"
    "mb_send A = t # ts \<Longrightarrow> tcb_status (mq_k m') t = woken_status LW_THREAD_STATUS_MSGQUEUE (tcb_status (mq_k m) t)"
    "mq_rx m' = mq_rx m"
proof -
  define m1 where "m1 = kupd (event_upd e (\<lambda>ev. ev\<lparr>EVENT_ulCounter := EVENT_ulCounter ev - 1\<rparr>)) m"
  define m2 where "m2 = MsgQueueGet (pmsgqueue m1 e) a stMax pl m1"
  note g = MsgTake_get[OF st ne, where a = a and pl = pl and stMax = stMax, folded m1_def, folded m2_def x_def A_def]
  have kv: "kinv (mq_k m2)" by (rule mq_stD(1)[OF g(1)])
  have nowait: "EventWaitNum (mq_k m2) EVENT_MSG_Q_S e = 0 \<longleftrightarrow> mb_send A = []"
    using wait_order_empty[of "mq_k m2" e EVENT_MSG_Q_S] kv arg_cong[OF g(2), of mb_send] by (simp add: kinv_def mbox_of_def)
  have A2: "mb_send (mbox_of m2 e) = mb_send A" using g(2) by simp
  define m3 where "m3 = (if mb_send A = [] then m2
      else kupd (\<lambda>s. snd (ReadyOne e EVENT_MSG_Q_S 0 LW_THREAD_STATUS_MSGQUEUE s)) m2)"
  have m': "m' = kupd KERNEL_EXIT m3"
    unfolding m'_def MsgTake_def Let_def m1_def[symmetric] m2_def[symmetric] using nowait by (simp add: m3_def)
  have m3: "mq_block m3 = mq_block m2" "mq_rx m3 = mq_rx m2" "m_len m3 = m_len m2" "m_buf m3 = m_buf m2"
    by (simp_all add: m3_def)
  have b3: "mq_st m3 e \<and> mbox_of m3 e = A\<lparr>mb_msgs := tl (mb_msgs A), mb_send := tl (mb_send A)\<rparr> \<and>
     (\<forall>t ts. mb_send A = t # ts \<longrightarrow> tcb_status (mq_k m3) t = woken_status LW_THREAD_STATUS_MSGQUEUE (tcb_status (mq_k m) t))"
  proof (cases "mb_send A = []")
    case True then show ?thesis using g(1,2) by (simp add: m3_def)
  next
    case False
    then have ne': "EventWaitNum (mq_k m2) EVENT_MSG_Q_S e \<noteq> 0" using nowait by simp
    have k3: "mq_k m3 = snd (ReadyOne e EVENT_MSG_Q_S 0 LW_THREAD_STATUS_MSGQUEUE (mq_k m2))" using False by (simp add: m3_def)
    note w = box_woken_ReadyOne[OF kv mq_stD(3)[OF g(1)] ne', where ty = LW_THREAD_STATUS_MSGQUEUE, folded k3]
    note b = box_woken_mbox[OF w(1) m3(1) g(1) disjI2[OF refl]]
    have "tcb_status (mq_k m3) (next_waiter (mq_k m2) e EVENT_MSG_Q_S)
        = woken_status LW_THREAD_STATUS_MSGQUEUE (tcb_status (mq_k m2) (next_waiter (mq_k m2) e EVENT_MSG_Q_S))"
      using ReadyOne_ok(4)[OF kv ne', where m = 0 and ty = LW_THREAD_STATUS_MSGQUEUE] by (simp add: k3)
    then have ws: "tcb_status (mq_k m3) (next_waiter (mq_k m2) e EVENT_MSG_Q_S)
        = woken_status LW_THREAD_STATUS_MSGQUEUE (tcb_status (mq_k m) (next_waiter (mq_k m2) e EVENT_MSG_Q_S))"
      by (simp add: g(3))
    have sd: "mb_send A = next_waiter (mq_k m2) e EVENT_MSG_Q_S # mb_send (mbox_of m3 e)" using conjunct1[OF b(4)[OF refl]] unfolding A2 .
    have bx: "mbox_of m3 e = A\<lparr>mb_msgs := tl (mb_msgs A), mb_send := tl (mb_send A)\<rparr>" using conjunct2[OF b(4)[OF refl]] unfolding A2 by (simp add: g(2))
    show ?thesis
    proof (intro conjI allI impI)
      show "mq_st m3 e" by (rule b(1))
      show "mbox_of m3 e = A\<lparr>mb_msgs := tl (mb_msgs A), mb_send := tl (mb_send A)\<rparr>" by (rule bx)
      fix t ts assume "mb_send A = t # ts"
      then have "t = next_waiter (mq_k m2) e EVENT_MSG_Q_S" using sd by simp
      then show "tcb_status (mq_k m3) t = woken_status LW_THREAD_STATUS_MSGQUEUE (tcb_status (mq_k m) t)" using ws by blast
    qed
  qed
  have m'k: "mq_k m' = KERNEL_EXIT (mq_k m3)" "mq_block m' = mq_block m3" by (simp_all add: m')
  show "mq_st m' e" "mbox_of m' e = A\<lparr>mb_msgs := tl (mb_msgs A), mb_send := tl (mb_send A)\<rparr>"
    using b3 box_same_mbox(1,3)[of e "mq_k m3" m' m3] box_same_basic(2)[of "mq_k m3" e] by (auto simp: m'k mq_st_def)
  show "m_len m' = (m_len m)(pl := of_nat (length x))" "m_buf m' = (m_buf m)(a := x @ drop (length x) (m_buf m a))"
    "mq_rx m' = mq_rx m" by (simp_all add: m' m3 g)
  show "mb_send A = t # ts \<Longrightarrow> tcb_status (mq_k m') t = woken_status LW_THREAD_STATUS_MSGQUEUE (tcb_status (mq_k m) t)"
    using b3 by (simp add: m'k)
qed

section \<open>Blocking\<close>

lemma MsgBlock_ok:
  fixes m m' :: msgs and d :: ULONG and q :: nat
  assumes st: "mq_st m e" and t: "runs (mq_k m) t" and q: "q = EVENT_MSG_Q_R \<or> q = EVENT_MSG_Q_S"
    and z: "q = EVENT_MSG_Q_R \<Longrightarrow> mb_msgs (mbox_of m e) = []"
  defines "s2 \<equiv> PendBlock e q LW_THREAD_STATUS_MSGQUEUE d (mq_k m)"
  defines "m' \<equiv> m\<lparr>mq_k := KERNEL_EXIT s2\<rparr>" and "join \<equiv> enqueue (by_prio (mq_k m) e) (tcb_prio (mq_k m)) t"
  shows "mq_st m' e" "EVENT_ulOption (k_event s2 e) = EVENT_ulOption (k_event (mq_k m) e)" "t \<notin> ready_set (mq_k m')"
    "mbox_of m' e = (if q = EVENT_MSG_Q_R then (mbox_of m e)\<lparr>mb_recv := join (mb_recv (mbox_of m e))\<rparr>
        else (mbox_of m e)\<lparr>mb_send := join (mb_send (mbox_of m e))\<rparr>)"
proof -
  note d = mq_stD[OF st]
  have oq: "order_ok (mq_k m) e q" using q d(2,3) by auto
  note p = PendBlock_ok[OF d(1) t msg_bits, where e = e and q = q and ulTimeout = d, folded s2_def]
  note o = PendBlock_order[OF d(1) t oq msg_bits, where ulTimeout = d, folded s2_def, folded join_def]
  note sm = PendBlock_same[OF d(1) t _ msg_bits, where e = e and q = q and e' = e and ulTimeout = d, folded s2_def]
  have c: "ev_core (k_event s2 e) = ev_core (k_event (mq_k m) e)" by (rule p(11))
  have pm: "pmsgqueue m' e = pmsgqueue m e" by (simp add: pmsgqueue_def m'_def ev_core_fields[OF c])
  show "EVENT_ulOption (k_event s2 e) = EVENT_ulOption (k_event (mq_k m) e)" by (rule p(9))
  show "t \<notin> ready_set (mq_k m')" using p(3) by (simp add: m'_def)
  have m'b: "mq_block m' = mq_block m" by (simp add: m'_def)
  have "mq_ok m' e" using d(4) z counter_room(3)[OF d(4)] q unfolding mq_ok_def pm m'b
    by (auto simp: m'_def ev_core_fields[OF c] p(18) split: if_splits)
  moreover have "order_ok s2 e q'" if "q' = EVENT_MSG_Q_R \<or> q' = EVENT_MSG_Q_S" for q'
    using o(2) sm(2)[of q'] d(2,3) that by (cases "q' = q") auto
  ultimately show "mq_st m' e" using p(1) by (simp add: mq_st_def m'_def KERNEL_EXIT_kinv)
  show "mbox_of m' e = (if q = EVENT_MSG_Q_R then (mbox_of m e)\<lparr>mb_recv := join (mb_recv (mbox_of m e))\<rparr>
        else (mbox_of m e)\<lparr>mb_send := join (mb_send (mbox_of m e))\<rparr>)"
    using o(1) sm(1) q unfolding mbox_of_def pm m'b by (auto simp: m'_def ev_core_fields[OF c])
qed

section \<open>The routines\<close>

abbreviation msg_handle :: "msgs \<Rightarrow> ULONG \<Rightarrow> eid \<Rightarrow> bool" where
  "msg_handle m ulId e \<equiv> handle OBJECT_MSGQUEUE LW_TYPE_EVENT_MSGQUEUE (mq_k m) ulId e"

lemma MsgOpen_handle:
  assumes "handle OBJECT_MSGQUEUE LW_TYPE_EVENT_MSGQUEUE s ulId e" shows "MsgOpen ulId s = Inr (e, KERNEL_ENTER s)"
  using assms by (auto simp: MsgOpen_def EventCheckId_handle Event_Type_Invalid_def Let_def handle_def)

text \<open>Entering and leaving the kernel.\<close>

lemma mq_enter:
  assumes "mq_st m e"
  defines "m1 \<equiv> m\<lparr>mq_k := KERNEL_ENTER (mq_k m)\<rparr>"
  shows "mq_st m1 e" "mbox_of m1 e = mbox_of m e" "pmsgqueue m1 e = pmsgqueue m e"
  using box_same_mbox[of e "mq_k m" m1 m] box_same_basic(1)[OF mq_stD(1)[OF assms(1)], of e] assms(1) by (simp_all add: m1_def)

lemma mq_exit:
  assumes "mq_st m e"
  shows "mq_st (kupd KERNEL_EXIT m) e" "mbox_of (kupd KERNEL_EXIT m) e = mbox_of m e"
    "mq_st (MsgFail s c m) e" "mbox_of (MsgFail s c m) e = mbox_of m e"
  using box_same_mbox[of e "mq_k m" "kupd KERNEL_EXIT m" m] box_same_basic(2)[OF mq_stD(1)[OF assms], of e]
    box_same_mbox[of e "mq_k m" "MsgFail s c m" m] box_same_fail[OF mq_stD(1)[OF assms], of e s c] assms
  by (simp_all add: MsgFail_def)

lemma MsgFail_simps [simp]:
  "mq_block (MsgFail s c m) = mq_block m" "mq_rx (MsgFail s c m) = mq_rx m" "m_buf (MsgFail s c m) = m_buf m"
  "m_len (MsgFail s c m) = m_len m" "mq_freeBlocks (MsgFail s c m) = mq_freeBlocks m"
  by (simp_all add: MsgFail_def)

lemma no_receiver:
  assumes "mq_st m e" shows "EventWaitNum (mq_k m) EVENT_MSG_Q_R e = 0 \<longleftrightarrow> mb_recv (mbox_of m e) = []"
  using wait_order_empty[of "mq_k m" e EVENT_MSG_Q_R] mq_stD(1)[OF assms] by (simp add: kinv_def mbox_of_def)

lemma nesting_enter [simp]: "LW_CPU_GET_CUR_NESTING (KERNEL_ENTER s) = LW_CPU_GET_CUR_NESTING s"
    "KERNEL_TIME_GET (KERNEL_ENTER s) = KERNEL_TIME_GET s" "LW_TCB_GET_CUR (KERNEL_ENTER s) = LW_TCB_GET_CUR s"
  by (simp_all add: LW_CPU_GET_CUR_NESTING_def KERNEL_TIME_GET_def LW_TCB_GET_CUR_def KERNEL_ENTER_def cpu_upd_def)

text \<open>One attempt to send with priority \<open>p\<close>, as both routines make it.\<close>

definition send_try :: "kernel \<Rightarrow> eid \<Rightarrow> nat \<Rightarrow> nat \<Rightarrow> ULONG \<Rightarrow> ULONG \<Rightarrow> msgs \<Rightarrow> send_out \<times> msgs" where
  "send_try s e p a stMsgLen d m = (if EventWaitNum (mq_k m) EVENT_MSG_Q_R e \<noteq> 0 then MsgSend_direct e a stMsgLen d m
     else MsgSend_store s e p a stMsgLen d m)"

text \<open>What the mailbox makes of it.\<close>

definition mb_sent :: "nat \<Rightarrow> UINT8 list \<Rightarrow> ULONG \<Rightarrow> ULONG \<Rightarrow> bool \<Rightarrow> msgs \<Rightarrow> eid \<Rightarrow> send_out \<times> msgs \<Rightarrow> bool" where
  "mb_sent p x stMsgLen d isr m e r \<longleftrightarrow> (let A = mbox_of m e; A' = mbox_of (snd r) e; s = mq_k m; t = LW_TCB_GET_CUR s in
     case mb_recv A of
       u # us \<Rightarrow> A' = A\<lparr>mb_recv := us\<rparr> \<and>
         (if msg_fits (mq_rx m u) stMsgLen then fst r = SendDone ERROR_NONE \<and> msg_given (mq_rx m u) x m (snd r)
          else fst r = SendAgain d \<and> m_buf (snd r) = m_buf m \<and> TCB_stMaxByteSize (mq_rx (snd r) u) = 0
            \<and> m_len (snd r) = (m_len m)(TCB_pstMsgByteSize (mq_rx m u) := 0))
     | [] \<Rightarrow>
         (m_buf (snd r) = m_buf m \<and> m_len (snd r) = m_len m) \<and>
         (if length (mb_msgs A) < mb_max A then fst r = SendDone ERROR_NONE \<and> A' = A\<lparr>mb_msgs := pq_put p x (mb_msgs A)\<rparr>
          else if d = LW_OPTION_NOT_WAIT \<or> isr then fst r = SendDone ERROR_MSGQUEUE_FULL \<and> A' = A
          else fst r = SendBlocked d (KERNEL_TIME_GET s) (EVENT_ulOption (k_event s e)) \<and>
            A' = A\<lparr>mb_send := enqueue (by_prio s e) (tcb_prio s) t (mb_send A)\<rparr> \<and> t \<notin> ready_set (mq_k (snd r))))"

lemma send_try_ok:
  fixes d :: ULONG
  assumes st: "mq_st m0 e" and c: "caller (mq_k m0)" and p: "p < EVENT_MSG_Q_PRIO"
    and len: "stMsgLen \<le> mb_bytes (mbox_of m0 e)" "stMsgLen \<noteq> 0" "unat stMsgLen \<le> length (m_buf m0 a)"
  defines "m \<equiv> m0\<lparr>mq_k := KERNEL_ENTER (mq_k m0)\<rparr>" and "isr \<equiv> LW_CPU_GET_CUR_NESTING (mq_k m0) \<noteq> 0"
  defines "r \<equiv> send_try (mq_k m0) e p a stMsgLen d m"
  shows "mq_st (snd r) e" "mb_sent p (take (unat stMsgLen) (m_buf m0 a)) stMsgLen d isr m0 e r"
proof -
  note en = mq_enter[OF st, folded m_def]
  have m: "m_buf m = m_buf m0" "m_len m = m_len m0" "mq_rx m = mq_rx m0" "mq_block m = mq_block m0" by (simp_all add: m_def)
  have "mq_st (snd r) e \<and> mb_sent p (take (unat stMsgLen) (m_buf m0 a)) stMsgLen d isr m0 e r"
  proof (cases "mb_recv (mbox_of m0 e)")
    case (Cons u us)
    then have ne: "EventWaitNum (mq_k m) EVENT_MSG_Q_R e \<noteq> 0" using no_receiver[OF en(1)] en(2) by simp
    define g where "g = MsgSend_give e a stMsgLen m"
    have rr: "r = (if fst g then SendDone ERROR_NONE else SendAgain d, kupd KERNEL_EXIT (snd g))"
      using ne by (simp add: r_def send_try_def MsgSend_direct_def g_def split_beta Let_def)
    note gk = MsgSend_give_k[of stMsgLen m a e, unfolded m, OF len(3), folded g_def]
    note w = box_woken_ReadyOne[OF mq_stD(1,2)[OF en(1)] ne, where ty = LW_THREAD_STATUS_MSGQUEUE]
    have w': "box_woken e EVENT_MSG_Q_R (mq_k m) (mq_k (snd g))" using w(1) gk(1) by simp
    note b = box_woken_mbox[OF w' _ en(1) disjI1[OF refl]]
    have gb: "mq_block (snd g) = mq_block m" using gk(2) m(4) by simp
    note b = b[OF gb]
    have u: "u = next_waiter (mq_k m) e EVENT_MSG_Q_R" "mb_recv (mbox_of (snd g) e) = us"
      using conjunct1[OF b(3)[OF refl]] Cons en(2) by simp_all
    have A': "mbox_of (snd g) e = (mbox_of m0 e)\<lparr>mb_recv := us\<rparr>"
      using conjunct2[OF b(3)[OF refl]] Cons unfolding en(2) by simp
    note ex = mq_exit[OF b(1)]
    show ?thesis using ex(1,2) A' gk(4,5,6) Cons
      by (auto simp: mb_sent_def rr Let_def w(2) u(1)[symmetric] msg_given_def m)
  next
    case Nil
    then have no: "EventWaitNum (mq_k m) EVENT_MSG_Q_R e = 0" using no_receiver[OF en(1)] en(2) by simp
    have rr: "r = MsgSend_store (mq_k m0) e p a stMsgLen d m" using no by (simp add: r_def send_try_def)
    have room: "EVENT_ulCounter (k_event (mq_k m) e) < EVENT_ulMaxCounter (k_event (mq_k m) e)
        \<longleftrightarrow> length (mb_msgs (mbox_of m0 e)) < mb_max (mbox_of m0 e)"
      using counter_room(1)[OF mq_stD(4)[OF en(1)]] en(2) by simp
    show ?thesis
    proof (cases "length (mb_msgs (mbox_of m0 e)) < mb_max (mbox_of m0 e)")
      case True
      note put = MsgSend_put[OF en(1) no p, unfolded en(2) m, OF len True, folded m_def]
      show ?thesis using mq_exit(1,2)[OF put(1)] put(2,6,7) True room Nil
        by (simp add: mb_sent_def rr MsgSend_store_def Let_def m)
    next
      case full: False
      show ?thesis
      proof (cases "d = LW_OPTION_NOT_WAIT \<or> isr")
        case True
        then show ?thesis using full room Nil mq_exit(3,4)[OF en(1)] en(2)
          by (auto simp: mb_sent_def rr MsgSend_store_def Let_def m isr_def m_def)
      next
        case False
        then obtain t where "runs (KERNEL_ENTER (mq_k m0)) t" using callerD[OF c] by (auto simp: isr_def)
        then have t: "runs (mq_k m) t" "t = LW_TCB_GET_CUR (mq_k m0)" by (auto simp: m_def runs_def)
        note b = MsgBlock_ok[OF en(1) t(1) disjI2[OF refl], where d = d]
        show ?thesis using False full room Nil b en(2) t(2)
          by (simp add: mb_sent_def rr MsgSend_store_def Let_def m isr_def) (simp add: m_def)
      qed
    qed
  qed
  then show "mq_st (snd r) e" "mb_sent p (take (unat stMsgLen) (m_buf m0 a)) stMsgLen d isr m0 e r" by simp_all
qed

lemma MsgSend_begin_ok:
  assumes st: "mq_st m e" and h: "msg_handle m ulId e" and n: "stMsgLen \<noteq> 0"
  defines "m1 \<equiv> m\<lparr>mq_k := KERNEL_ENTER (mq_k m)\<rparr>"
  shows "MsgSend_begin ulId (Some a) stMsgLen m =
    (if stMsgLen > mb_bytes (mbox_of m e) then Inl (ERROR_MSGQUEUE_MSG_LEN, MsgFail (mq_k m) ERROR_MSGQUEUE_MSG_LEN m1)
     else Inr (e, a, m1))"
  using n by (simp add: MsgSend_begin_def MsgOpen_handle[OF h] Let_def m1_def mbox_of_def pmsgqueue_def)

text \<open>A message that is too long for the queue is refused; the others are tried.\<close>

definition mb_send_post :: "nat \<Rightarrow> nat \<Rightarrow> ULONG \<Rightarrow> ULONG \<Rightarrow> msgs \<Rightarrow> eid \<Rightarrow> send_out \<times> msgs \<Rightarrow> bool" where
  "mb_send_post p a stMsgLen d m e r \<longleftrightarrow> mq_st (snd r) e \<and>
     (if stMsgLen > mb_bytes (mbox_of m e)
      then fst r = SendDone ERROR_MSGQUEUE_MSG_LEN \<and> mbox_of (snd r) e = mbox_of m e
      else mb_sent p (take (unat stMsgLen) (m_buf m a)) stMsgLen d (LW_CPU_GET_CUR_NESTING (mq_k m) \<noteq> 0) m e r)"

lemma MsgQueueSend2_refines:
  assumes st: "mq_st m e" and h: "msg_handle m ulId e" and c: "caller (mq_k m)"
    and n: "stMsgLen \<noteq> 0" and l: "unat stMsgLen \<le> length (m_buf m a)"
  shows "mb_send_post EVENT_MSG_Q_PRIO_LOW a stMsgLen d m e (MsgQueueSend2 ulId (Some a) stMsgLen d m)"
proof (cases "stMsgLen > mb_bytes (mbox_of m e)")
  case True
  then show ?thesis using mq_exit(3,4)[OF mq_enter(1)[OF st]] mq_enter(2)[OF st]
    by (simp add: mb_send_post_def MsgQueueSend2_def MsgSend_begin_ok[OF st h n])
next
  case False
  then have le: "stMsgLen \<le> mb_bytes (mbox_of m e)" by simp
  have e: "MsgQueueSend2 ulId (Some a) stMsgLen d m =
      send_try (mq_k m) e EVENT_MSG_Q_PRIO_LOW a stMsgLen d (m\<lparr>mq_k := KERNEL_ENTER (mq_k m)\<rparr>)"
    using False by (simp add: MsgQueueSend2_def MsgSend_begin_ok[OF st h n] send_try_def)
  show ?thesis unfolding mb_send_post_def e
    using send_try_ok[OF st c _ le n l, of EVENT_MSG_Q_PRIO_LOW d] False by simp
qed

text \<open>The urgent send, with the priority in bits 4 to 7 of the option.\<close>

lemma MsgQueueSendEx2_urgent:
  assumes st: "mq_st m e" and h: "msg_handle m ulId e" and c: "caller (mq_k m)"
    and n: "stMsgLen \<noteq> 0" and l: "unat stMsgLen \<le> length (m_buf m a)"
    and u: "ulOption AND LW_OPTION_URGENT \<noteq> 0" and p: "unat (drop_bit 4 ulOption AND 0xf) = p" "p < EVENT_MSG_Q_PRIO"
  shows "mb_send_post p a stMsgLen d m e (MsgQueueSendEx2 ulId (Some a) stMsgLen d ulOption m)"
proof (cases "stMsgLen > mb_bytes (mbox_of m e)")
  case True
  then show ?thesis using mq_exit(3,4)[OF mq_enter(1)[OF st]] mq_enter(2)[OF st] u
    by (auto simp: mb_send_post_def MsgQueueSendEx2_def MsgSend_begin_ok[OF st h n])
next
  case False
  then have le: "stMsgLen \<le> mb_bytes (mbox_of m e)" by simp
  have e: "MsgQueueSendEx2 ulId (Some a) stMsgLen d ulOption m =
      send_try (mq_k m) e p a stMsgLen d (m\<lparr>mq_k := KERNEL_ENTER (mq_k m)\<rparr>)"
    using False u p by (auto simp: MsgQueueSendEx2_def MsgSend_begin_ok[OF st h n] send_try_def Let_def)
  show ?thesis unfolding mb_send_post_def e using send_try_ok[OF st c p(2) le n l, of d] False by simp
qed

section \<open>Receiving\<close>

text \<open>What an attempt to receive into \<open>sz\<close> bytes at \<open>a\<close> makes of the mailbox.\<close>

definition mb_taken :: "nat \<Rightarrow> ULONG \<Rightarrow> nat \<Rightarrow> msgs \<Rightarrow> eid \<Rightarrow> msgs \<Rightarrow> bool" where
  "mb_taken a sz pl m e m' \<longleftrightarrow> (let A = mbox_of m e; x = cut sz (snd (hd (mb_msgs A))) in
     mbox_of m' e = A\<lparr>mb_msgs := tl (mb_msgs A), mb_send := tl (mb_send A)\<rparr> \<and>
     m_buf m' = (m_buf m)(a := x @ drop (length x) (m_buf m a)) \<and> m_len m' = (m_len m)(pl := of_nat (length x)) \<and>
     (\<forall>t ts. mb_send A = t # ts \<longrightarrow> tcb_status (mq_k m') t = woken_status LW_THREAD_STATUS_MSGQUEUE (tcb_status (mq_k m) t)))"

definition mb_awaits :: "nat \<Rightarrow> ULONG \<Rightarrow> nat \<Rightarrow> ULONG \<Rightarrow> ULONG \<Rightarrow> msgs \<Rightarrow> eid \<Rightarrow> pend_out \<times> msgs \<Rightarrow> bool" where
  "mb_awaits a sz pl opt d m e r \<longleftrightarrow> (let A = mbox_of m e; s = mq_k m; t = LW_TCB_GET_CUR s in
     (m_buf (snd r) = m_buf m \<and> m_len (snd r) = m_len m) \<and>
     (if d = LW_OPTION_NOT_WAIT then fst r = Done ERROR_THREAD_WAIT_TIMEOUT \<and> mbox_of (snd r) e = A
      else fst r = Blocked d (KERNEL_TIME_GET s) (EVENT_ulOption (k_event s e)) \<and>
        mbox_of (snd r) e = A\<lparr>mb_recv := enqueue (by_prio s e) (tcb_prio s) t (mb_recv A)\<rparr> \<and> t \<notin> ready_set (mq_k (snd r)) \<and>
        mq_rx (snd r) t = \<lparr>TCB_pvMsgQueueMessage = a, TCB_stMaxByteSize = sz, TCB_pstMsgByteSize = pl, TCB_ulRecvOption = opt\<rparr>))"

definition mb_receive :: "nat \<Rightarrow> ULONG \<Rightarrow> nat \<Rightarrow> ULONG \<Rightarrow> ULONG \<Rightarrow> msgs \<Rightarrow> eid \<Rightarrow> pend_out \<times> msgs \<Rightarrow> bool" where
  "mb_receive a sz pl opt d m e r \<longleftrightarrow> mq_st (snd r) e \<and>
     (if mb_msgs (mbox_of m e) \<noteq> [] then fst r = Done ERROR_NONE \<and> mb_taken a sz pl m e (snd r)
      else mb_awaits a sz pl opt d m e r)"

definition receive_try :: "kernel \<Rightarrow> eid \<Rightarrow> nat \<Rightarrow> ULONG \<Rightarrow> nat \<Rightarrow> ULONG \<Rightarrow> msgs \<Rightarrow> pend_out \<times> msgs" where
  "receive_try s e a sz pl d m = (if EVENT_ulCounter (k_event (mq_k m) e) \<noteq> 0 then (Done ERROR_NONE, MsgTake e a sz pl m)
     else MsgWait s e a sz pl d m)"

lemma mq_rx:
  assumes "mq_st m e" shows "mq_st (rx_upd t f m) e" "mbox_of (rx_upd t f m) e = mbox_of m e"
  using mbox_memory[of "rx_upd t f m" m e] assms by simp_all

lemma receive_try_ok:
  fixes opt :: ULONG
  assumes st: "mq_st m0 e" and t: "runs (mq_k m0) t"
  defines "m \<equiv> rx_upd t (\<lambda>r. r\<lparr>TCB_ulRecvOption := opt\<rparr>) (m0\<lparr>mq_k := KERNEL_ENTER (mq_k m0)\<rparr>)"
  shows "mb_receive a sz pl opt d m0 e (receive_try (mq_k m0) e a sz pl d m)"
proof -
  note en = mq_enter[OF st]
  have m: "mq_st m e" "mbox_of m e = mbox_of m0 e" using mq_rx[OF en(1)] en(2) by (simp_all add: m_def)
  have cnt: "EVENT_ulCounter (k_event (mq_k m) e) = 0 \<longleftrightarrow> mb_msgs (mbox_of m0 e) = []"
    using counter_room(3)[OF mq_stD(4)[OF m(1)]] m(2) by simp
  have mk: "mq_k m = KERNEL_ENTER (mq_k m0)" "m_buf m = m_buf m0" "m_len m = m_len m0" by (simp_all add: m_def)
  have tc: "LW_TCB_GET_CUR (mq_k m0) = t" using t by (simp add: runs_def)
  show ?thesis
  proof (cases "mb_msgs (mbox_of m0 e) = []")
    case False
    then have ne: "mb_msgs (mbox_of m e) \<noteq> []" using m(2) by simp
    note tk = MsgTake_ok[OF m(1) ne, where a = a and pl = pl and stMax = sz]
    have "mb_taken a sz pl m0 e (MsgTake e a sz pl m)"
      unfolding mb_taken_def Let_def using tk(2,3,4,5) m(2) mk by auto
    then show ?thesis using tk(1) False cnt by (simp add: mb_receive_def receive_try_def)
  next
    case True
    show ?thesis
    proof (cases "d = LW_OPTION_NOT_WAIT")
      case d: True
      then show ?thesis using True cnt mq_exit(3,4)[OF m(1)] m(2) mk
        by (simp add: mb_receive_def receive_try_def MsgWait_def mb_awaits_def)
    next
      case d: False
      define m1 where "m1 = rx_upd t (\<lambda>r. r\<lparr>TCB_pstMsgByteSize := pl,
                TCB_stMaxByteSize := sz, TCB_pvMsgQueueMessage := a\<rparr>) m"
      have m1: "mq_st m1 e" "mbox_of m1 e = mbox_of m0 e" "mq_k m1 = mq_k m" using mq_rx[OF m(1)] m(2) by (simp_all add: m1_def)
      have t1: "runs (mq_k m1) t" using t by (auto simp: m1(3) mk runs_def ready_set_def)
      note b = MsgBlock_ok[OF m1(1) t1 disjI1[OF refl], where d = d]
      have rr: "receive_try (mq_k m0) e a sz pl d m = (Blocked d (KERNEL_TIME_GET (mq_k m1))
          (EVENT_ulOption (k_event (PendBlock e EVENT_MSG_Q_R LW_THREAD_STATUS_MSGQUEUE d (mq_k m1)) e)),
          m1\<lparr>mq_k := KERNEL_EXIT (PendBlock e EVENT_MSG_Q_R LW_THREAD_STATUS_MSGQUEUE d (mq_k m1))\<rparr>)"
        using d cnt True tc by (simp add: receive_try_def MsgWait_def Let_def m1_def[symmetric] mk)
      have rx: "mq_rx m1 t = \<lparr>TCB_pvMsgQueueMessage = a, TCB_stMaxByteSize = sz, TCB_pstMsgByteSize = pl, TCB_ulRecvOption = opt\<rparr>"
        by (simp add: m1_def m_def)
      have mem: "m_buf m1 = m_buf m0" "m_len m1 = m_len m0" by (simp_all add: m1_def mk)
      show ?thesis using True d b rx mem tc m1(2) unfolding mb_receive_def rr mb_awaits_def Let_def
        by (simp add: m1(3) mk)
    qed
  qed
qed

lemma MsgReceive_begin_ok:
  assumes "msg_handle m ulId e" "sz \<noteq> 0"
  shows "MsgReceive_begin ulId (Some a) sz m = Inr (e, a, m\<lparr>mq_k := KERNEL_ENTER (mq_k m)\<rparr>)"
  using assms(2) by (simp add: MsgReceive_begin_def MsgOpen_handle[OF assms(1)])

lemma MsgQueueReceive_refines:
  assumes st: "mq_st m e" and h: "msg_handle m ulId e" and t: "runs (mq_k m) t" and n: "LW_CPU_GET_CUR_NESTING (mq_k m) = 0" and sz: "sz \<noteq> 0"
  shows "mb_receive a sz (pstMsgLen_or pl tmp) LW_OPTION_NOERROR d m e (MsgQueueReceive ulId (Some a) sz pl tmp d m)"
proof -
  have tc: "LW_TCB_GET_CUR (mq_k m) = t" using t by (simp add: runs_def)
  show ?thesis using receive_try_ok[OF st t, of a sz "pstMsgLen_or pl tmp" LW_OPTION_NOERROR d] n
    by (simp add: MsgQueueReceive_def MsgQueueReceive_again_def MsgReceive_begin_ok[OF h sz] tc receive_try_def Let_def split: if_splits)
qed

text \<open>The receive with an option may refuse a message that does not fit.\<close>

lemma MsgQueueReceiveEx_refines:
  fixes ulId sz d opt :: ULONG and a tmp :: nat and pl :: "nat option"
  assumes st: "mq_st m e" and h: "msg_handle m ulId e" and t: "runs (mq_k m) t" and n: "LW_CPU_GET_CUR_NESTING (mq_k m) = 0" and sz: "sz \<noteq> 0"
  defines "r \<equiv> MsgQueueReceiveEx ulId (Some a) sz pl tmp d opt m" and "A \<equiv> mbox_of m e"
  shows "if mb_msgs A \<noteq> [] \<and> unat sz < length (snd (hd (mb_msgs A))) \<and> opt AND LW_OPTION_NOERROR = 0
    then mq_st (snd r) e \<and> fst r = Done E2BIG \<and> mbox_of (snd r) e = A \<and> m_buf (snd r) = m_buf m \<and> m_len (snd r) = m_len m
    else mb_receive a sz (pstMsgLen_or pl tmp) opt d m e r"
proof -
  have tc: "LW_TCB_GET_CUR (mq_k m) = t" using t by (simp add: runs_def)
  define m2 where "m2 = rx_upd t (\<lambda>r. r\<lparr>TCB_ulRecvOption := opt\<rparr>) (m\<lparr>mq_k := KERNEL_ENTER (mq_k m)\<rparr>)"
  have m2: "mq_st m2 e" "mbox_of m2 e = A" using mq_rx[OF mq_enter(1)[OF st]] mq_enter(2)[OF st] by (simp_all add: m2_def A_def)
  have cnt: "EVENT_ulCounter (k_event (mq_k m2) e) = 0 \<longleftrightarrow> mb_msgs A = []"
    using counter_room(3)[OF mq_stD(4)[OF m2(1)]] m2(2) by simp
  have tr: "mb_receive a sz (pstMsgLen_or pl tmp) opt d m e (receive_try (mq_k m) e a sz (pstMsgLen_or pl tmp) d m2)"
    unfolding m2_def by (rule receive_try_ok[OF st t])
  have rr: "r = (if EVENT_ulCounter (k_event (mq_k m2) e) \<noteq> 0 then
              (let (stMsgLenInBuffer, m3) = MsgQueueMsgLen (pmsgqueue m2 e) m2 in
               if stMsgLenInBuffer > sz \<and> opt AND LW_OPTION_NOERROR = 0
               then (Done E2BIG, MsgFail (mq_k m) E2BIG m3)
               else (Done ERROR_NONE, MsgTake e a sz (pstMsgLen_or pl tmp) m3))
            else MsgWait (mq_k m) e a sz (pstMsgLen_or pl tmp) d m2)"
    using n by (simp add: r_def MsgQueueReceiveEx_def MsgQueueReceiveEx_again_def MsgReceive_begin_ok[OF h sz] tc m2_def Let_def)
  show ?thesis
  proof (cases "mb_msgs A = []")
    case True
    then show ?thesis using tr cnt by (simp add: rr receive_try_def)
  next
    case False
    have s2: "stored (mq_block m2 (pmsgqueue m2 e)) = mb_msgs A" using m2(2) by (auto simp: mbox_of_def)
    note ml = MsgQueueMsgLen_ok(1,2)[of "mb_max A" m2 "pmsgqueue m2 e", unfolded s2]
    have wf: "mq_wf (mb_max A) (mq_block m2 (pmsgqueue m2 e))"
      using mq_stD(4)[OF m2(1)] m2(2) by (auto simp: mq_ok_def mbox_of_def)
    note ml = ml[OF wf False]
    have mem: "m_buf m2 = m_buf m" "m_len m2 = m_len m" by (simp_all add: m2_def)
    have b: "fst (MsgQueueMsgLen (pmsgqueue m2 e) m2) > sz \<longleftrightarrow> unat sz < length (snd (hd (mb_msgs A)))"
      using ml(2) by (simp add: word_less_nat_alt)
    have r2: "r = (if unat sz < length (snd (hd (mb_msgs A))) \<and> opt AND LW_OPTION_NOERROR = 0
        then (Done E2BIG, MsgFail (mq_k m) E2BIG m2) else receive_try (mq_k m) e a sz (pstMsgLen_or pl tmp) d m2)"
      using cnt False by (simp add: rr split_beta ml(1) b receive_try_def)
    show ?thesis using tr mq_exit(3,4)[OF m2(1)] m2(2) mem False by (auto simp: r2)
  qed
qed

section \<open>Broadcasting\<close>

text \<open>What a hand-over reads and writes besides the kernel.\<close>

definition same_mem :: "msgs \<Rightarrow> msgs \<Rightarrow> bool" where
  "same_mem m m' \<longleftrightarrow> m_buf m' = m_buf m \<and> m_len m' = m_len m \<and> mq_rx m' = mq_rx m"

definition give_all :: "nat \<Rightarrow> ULONG \<Rightarrow> tid list \<Rightarrow> msgs \<Rightarrow> msgs" where
  "give_all a n ts m = fold (\<lambda>t m. snd (MsgGive t a n m)) ts m"

lemma same_mem_give: "same_mem m m' \<Longrightarrow> same_mem (snd (MsgGive t a n m)) (snd (MsgGive t a n m'))"
  by (auto simp: same_mem_def MsgGive_def rx_upd_def Let_def)

lemma same_mem_give_all: "same_mem m m' \<Longrightarrow> same_mem (give_all a n ts m) (give_all a n ts m')"
  by (induction ts arbitrary: m m') (simp_all add: give_all_def same_mem_give)

lemma same_mem_trans: "\<lbrakk>same_mem a b; same_mem b c\<rbrakk> \<Longrightarrow> same_mem a c"
  by (simp add: same_mem_def)

lemma broadcast_ok:
  fixes a :: nat and n :: ULONG
  assumes "mq_st m e" "length (mb_recv (mbox_of m e)) \<le> k"
  defines "m' \<equiv> MsgBroadcast_loop k e a n m"
  shows "mq_st m' e \<and> mbox_of m' e = (mbox_of m e)\<lparr>mb_recv := []\<rparr> \<and> same_mem (give_all a n (mb_recv (mbox_of m e)) m) m'"
  using assms(1,2) unfolding m'_def
proof (induction k arbitrary: m)
  case 0
  then show ?case by (simp add: give_all_def same_mem_def)
next
  case (Suc k)
  show ?case
  proof (cases "EventWaitNum (mq_k m) EVENT_MSG_Q_R e = 0")
    case True
    then have "mb_recv (mbox_of m e) = []" using no_receiver[OF Suc.prems(1)] by simp
    then show ?thesis using Suc.prems True by (simp add: give_all_def same_mem_def)
  next
    case False
    let ?m1 = "snd (MsgSend_give e a n m)" and ?u = "next_waiter (mq_k m) e EVENT_MSG_Q_R"
    note st = mq_stD[OF Suc.prems(1)]
    note w = box_woken_ReadyOne[OF st(1,2) False, where ty = LW_THREAD_STATUS_MSGQUEUE]
    have k1: "mq_k ?m1 = snd (ReadyOne e EVENT_MSG_Q_R 0 LW_THREAD_STATUS_MSGQUEUE (mq_k m))" "mq_block ?m1 = mq_block m"
      by (simp_all add: MsgSend_give_def ReadyOne_def MsgGive_def split_beta Let_def)
    have "fst (ReadyLowLevel e EVENT_MSG_Q_R 0 (mq_k m)) = ?u" using w(2) by (simp add: ReadyOne_def split_beta)
    then have "same_mem (snd (MsgGive ?u a n (m\<lparr>mq_k := snd (ReadyLowLevel e EVENT_MSG_Q_R 0 (mq_k m))\<rparr>))) ?m1"
      by (simp add: MsgSend_give_def same_mem_def split_beta Let_def)
    then have mem: "same_mem (snd (MsgGive ?u a n m)) ?m1"
      by (rule same_mem_trans[OF same_mem_give, rotated]) (simp add: same_mem_def)
    note r = box_woken_mbox[OF w(1)[folded k1(1)] k1(2) Suc.prems(1) disjI1[OF refl]]
    have st1: "mq_st ?m1 e" and b1: "mb_recv (mbox_of m e) = ?u # mb_recv (mbox_of ?m1 e)"
      "mbox_of ?m1 e = (mbox_of m e)\<lparr>mb_recv := tl (mb_recv (mbox_of m e))\<rparr>" using r(1) r(3)[OF refl] by blast+
    have "length (mb_recv (mbox_of m e)) = Suc (length (mb_recv (mbox_of ?m1 e)))" by (subst b1(1)) simp
    then have "length (mb_recv (mbox_of ?m1 e)) \<le> k" using Suc.prems(2) by simp
    note ih = Suc.IH[OF st1 this]
    have "mbox_of (MsgBroadcast_loop k e a n ?m1) e = (mbox_of m e)\<lparr>mb_recv := []\<rparr>" using ih b1(2) by simp
    moreover have "same_mem (give_all a n (mb_recv (mbox_of m e)) m) (MsgBroadcast_loop k e a n ?m1)"
    proof -
      have "give_all a n (mb_recv (mbox_of m e)) m = give_all a n (mb_recv (mbox_of ?m1 e)) (snd (MsgGive ?u a n m))"
        by (subst b1(1)) (simp add: give_all_def)
      then show ?thesis using ih same_mem_trans[OF same_mem_give_all[OF mem]] by metis
    qed
    ultimately show ?thesis using ih False by simp
  qed
qed

lemma MsgQueueSendEx2_broadcast:
  fixes opt n d :: ULONG and a :: nat
  assumes st: "mq_st m e" and h: "msg_handle m ulId e" and n: "n \<noteq> 0" "n \<le> mb_bytes (mbox_of m e)"
    and o: "opt AND LW_OPTION_URGENT = 0" "opt AND LW_OPTION_BROADCAST \<noteq> 0"
  defines "r \<equiv> MsgQueueSendEx2 ulId (Some a) n d opt m"
  shows "fst r = SendDone ERROR_NONE \<and> mq_st (snd r) e \<and> mbox_of (snd r) e = (mbox_of m e)\<lparr>mb_recv := []\<rparr> \<and>
    same_mem (give_all a n (mb_recv (mbox_of m e)) m) (snd r)"
proof -
  let ?m1 = "m\<lparr>mq_k := KERNEL_ENTER (mq_k m)\<rparr>"
  let ?k = "unat (EventWaitNum (mq_k ?m1) EVENT_MSG_Q_R e)"
  note en = mq_enter[OF st]
  have k: "kinv (mq_k ?m1)" "order_ok (mq_k ?m1) e EVENT_MSG_Q_R" using mq_stD[OF en(1)] by simp_all
  have "length (mb_recv (mbox_of ?m1 e)) = card (waiters (mq_k ?m1) e EVENT_MSG_Q_R)"
    using distinct_card[OF wait_order_distinct[OF k]] wait_order_waiters[OF kinv_wait[OF k(1)]] by (simp add: mbox_of_def)
  then have "length (mb_recv (mbox_of ?m1 e)) \<le> ?k" using EventWaitNum_waiters(3)[OF kinv_wait[OF k(1)], of EVENT_MSG_Q_R e] by simp
  note b = broadcast_ok[OF en(1) this, of a n]
  have r: "r = (SendDone ERROR_NONE, kupd KERNEL_EXIT (MsgBroadcast_loop ?k e a n ?m1))"
    using o n(2) by (auto simp: r_def MsgQueueSendEx2_def MsgSend_begin_ok[OF st h n(1)])
  have "same_mem (give_all a n (mb_recv (mbox_of m e)) m) (give_all a n (mb_recv (mbox_of m e)) ?m1)"
    by (rule same_mem_give_all) (simp add: same_mem_def)
  then have "same_mem (give_all a n (mb_recv (mbox_of m e)) m) (snd r)"
    using b by (simp add: r en(2) same_mem_def)
  then show ?thesis using b mq_exit[of "MsgBroadcast_loop ?k e a n ?m1" e] by (simp add: r en(2))
qed

end
