(* ===== verification/Msg_Runs.thy ===== *)
theory Msg_Runs
  imports Msg_Steps Msg_Refine
begin

text \<open>
  Runs of a system with message queues: the calls of the message queue API between the steps
  of the kernel and the writes of the threads to their memory.  Every reachable state keeps
  \<open>msg_inv\<close>: the counters agree with the stored messages, no control block is shared.
\<close>

section \<open>The invariant\<close>

abbreviation is_msgq :: "msgs \<Rightarrow> eid \<Rightarrow> bool" where
  "is_msgq m e \<equiv> EVENT_ucType (k_event (mq_k m) e) = LW_TYPE_EVENT_MSGQUEUE"

definition msgq_good :: "msgs \<Rightarrow> eid \<Rightarrow> bool" where
  "msgq_good m e \<longleftrightarrow> mq_ok m e \<and> pmsgqueue m e < LW_CFG_MAX_MSGQUEUES \<and> pmsgqueue m e \<notin> set (mq_freeBlocks m) \<and>
     (\<forall>q. q \<noteq> EVENT_MSG_Q_R \<and> q \<noteq> EVENT_MSG_Q_S \<longrightarrow> waiters (mq_k m) e q = {})"

definition msg_inv :: "msgs \<Rightarrow> bool" where
  "msg_inv m \<longleftrightarrow> api_inv (mq_k m) \<and> distinct (mq_freeBlocks m) \<and> (\<forall>b\<in>set (mq_freeBlocks m). b < LW_CFG_MAX_MSGQUEUES) \<and>
     (\<forall>e. is_msgq m e \<longrightarrow> msgq_good m e) \<and>
     (\<forall>e e'. is_msgq m e \<and> is_msgq m e' \<and> e \<noteq> e' \<longrightarrow> pmsgqueue m e \<noteq> pmsgqueue m e')"

lemma msg_invD:
  assumes "msg_inv m"
  shows "api_inv (mq_k m)" "is_msgq m e \<Longrightarrow> msgq_good m e" "is_msgq m e \<Longrightarrow> mq_ok m e"
    "\<lbrakk>is_msgq m e; is_msgq m e'; e \<noteq> e'\<rbrakk> \<Longrightarrow> pmsgqueue m e \<noteq> pmsgqueue m e'"
    "distinct (mq_freeBlocks m)" "b \<in> set (mq_freeBlocks m) \<Longrightarrow> b < LW_CFG_MAX_MSGQUEUES"
  using assms by (auto simp: msg_inv_def msgq_good_def)

text \<open>Steps that touch neither the control blocks nor, beyond letting threads go, the events
  of message queues.\<close>

definition calm :: "msgs \<Rightarrow> msgs \<Rightarrow> bool" where
  "calm m m' \<longleftrightarrow> mq_block m' = mq_block m \<and> mq_freeBlocks m' = mq_freeBlocks m \<and> mkeeps (mq_k m) (mq_k m') \<and>
     (api_inv (mq_k m) \<longrightarrow> api_inv (mq_k m'))"

lemma msgq_good_shrink:
  assumes g: "msgq_good m e" and b: "mq_block m' (pmsgqueue m e) = mq_block m (pmsgqueue m e)"
    and fr: "pmsgqueue m e \<notin> set (mq_freeBlocks m')" and c: "ev_core (k_event (mq_k m') e) = ev_core (k_event (mq_k m) e)"
    and w: "\<And>t q. waits_on (mq_k m') e q t \<Longrightarrow> waits_on (mq_k m) e q t"
  shows "msgq_good m' e" "pmsgqueue m' e = pmsgqueue m e"
proof -
  note f = ev_core_fields[OF c]
  show p: "pmsgqueue m' e = pmsgqueue m e" by (simp add: pmsgqueue_def f)
  have "waiters (mq_k m') e q \<subseteq> waiters (mq_k m) e q" for q using w by (auto simp: waiters_def)
  then show "msgq_good m' e" using g b fr by (simp add: msgq_good_def mq_ok_def p f) blast
qed

lemma msg_inv_calm:
  assumes i: "msg_inv m" and c: "calm m m'" shows "msg_inv m'"
proof -
  have k: "is_msgq m' e \<longleftrightarrow> is_msgq m e" for e using c by (simp add: calm_def keeps_def)
  have g: "msgq_good m' e \<and> pmsgqueue m' e = pmsgqueue m e" if e: "is_msgq m e" for e
  proof -
    note m = msg_invD(2)[OF i e]
    have "mq_block m' = mq_block m" "mq_freeBlocks m' = mq_freeBlocks m" using c by (simp_all add: calm_def)
    moreover have "ev_core (k_event (mq_k m') e) = ev_core (k_event (mq_k m) e)"
      "\<And>t q. waits_on (mq_k m') e q t \<Longrightarrow> waits_on (mq_k m) e q t" using c e by (auto simp: calm_def keeps_def)
    ultimately show ?thesis using msgq_good_shrink[of m e m'] m by (auto simp: msgq_good_def)
  qed
  show ?thesis using i g k c by (auto simp: msg_inv_def calm_def)
qed

lemma calm_refl [simp]: "calm m m"
  by (simp add: calm_def)

lemma calm_trans: "\<lbrakk>calm a b; calm b c\<rbrakk> \<Longrightarrow> calm a c"
  by (auto simp: calm_def intro: keeps_trans)

lemma calm_k:
  assumes "calm m x" "mkeeps (mq_k x) s'" "api_inv (mq_k x) \<Longrightarrow> api_inv s'"
  shows "calm m (x\<lparr>mq_k := s'\<rparr>)"
  by (rule calm_trans[OF assms(1)]) (use assms in \<open>auto simp: calm_def\<close>)

lemma kupd_k: "kupd f x = x\<lparr>mq_k := f (mq_k x)\<rparr>"
  by (simp add: kupd_def)

lemma calm_steps:
  assumes "calm m x"
  shows "calm m (kupd KERNEL_EXIT x)" "calm m (kupd KERNEL_ENTER x)" "calm m (kupd (ErrorHandle c) x)" "calm m (MsgFail s c x)"
    "calm m (set_buf a v x)" "calm m (set_len a w x)" "calm m (rx_upd t f x)" "calm m (x\<lparr>mq_k := KERNEL_ENTER (mq_k x)\<rparr>)"
    "calm m (x\<lparr>mq_k := KERNEL_EXIT (mq_k x)\<rparr>)"
  using assms by (auto simp: kupd_k MsgFail_def set_buf_def set_len_def rx_upd_def intro!: calm_k mkeep)
    (auto simp: calm_def)

lemma calm_error: "calm m x \<Longrightarrow> calm m (kupd (ErrorHandle_of s c) x)"
  by (auto simp: kupd_k intro!: calm_k mkeep)

lemma calm_open:
  assumes "calm m x" "MsgOpen h (mq_k x) = Inl (r, s1)" shows "calm m (x\<lparr>mq_k := s1\<rparr>)"
proof (rule calm_k[OF assms(1)])
  show "mkeeps (mq_k x) s1" using assms(2) keeps_check[OF keeps_refl, of OBJECT_MSGQUEUE h "mq_k x" r s1 LW_TYPE_EVENT_MSGQUEUE]
    by (auto simp: MsgOpen_def Let_def intro!: mkeep split: sum.splits if_splits)
  show "api_inv s1" if "api_inv (mq_k x)"
    using that assms(2) by (auto simp: MsgOpen_def Let_def intro: api_inv_check split: sum.splits if_splits)
qed

lemma MsgOpen_Inr:
  assumes "MsgOpen h s = Inr (e, s1)"
  shows "s1 = KERNEL_ENTER s" "EVENT_ucType (k_event s e) = LW_TYPE_EVENT_MSGQUEUE" "e < LW_CFG_MAX_EVENTS"
  using assms
  by (auto simp: MsgOpen_def Let_def Event_Type_Invalid_def EventCheckId_def Event_Index_Invalid_def word_le_nat_alt word_less_nat_alt not_le
      split: sum.splits if_splits)

lemma calm_ReadyOne:
  assumes "calm m x" "EventWaitNum (mq_k x) q e \<noteq> 0"
  shows "calm m (x\<lparr>mq_k := snd (ReadyOne e q v wt (mq_k x))\<rparr>)"
  by (rule calm_k[OF assms(1)]) (use assms(2) in \<open>auto intro: mkeep api_inv_ReadyOne keeps_chain(7)\<close>)

section \<open>Storing, taking, clearing\<close>

text \<open>The counter and the store of one queue change together.\<close>

lemma msg_inv_store:
  assumes i: "msg_inv m" and e: "is_msgq m e"
    and k: "mq_k m' = event_upd e (\<lambda>ev. ev\<lparr>EVENT_ulCounter := c ev\<rparr>) (mq_k m)"
    and b: "\<And>b'. b' \<noteq> pmsgqueue m e \<Longrightarrow> mq_block m' b' = mq_block m b'" and fr: "mq_freeBlocks m' = mq_freeBlocks m"
    and wf: "mq_wf (unat (EVENT_ulMaxCounter (k_event (mq_k m) e))) (mq_block m' (pmsgqueue m e))"
    and n: "unat (c (k_event (mq_k m) e)) = length (stored (mq_block m' (pmsgqueue m e)))"
    and r: "waiters (mq_k m) e EVENT_MSG_Q_R \<noteq> {} \<Longrightarrow> c (k_event (mq_k m) e) = 0"
  shows "msg_inv m'"
proof -
  note d = msg_invD[OF i]
  have p: "pmsgqueue m' e' = pmsgqueue m e'" and ty: "is_msgq m' e' \<longleftrightarrow> is_msgq m e'" for e'
    by (simp_all add: pmsgqueue_def k)
  have w: "waiters (mq_k m') e' q = waiters (mq_k m) e' q" for e' q by (simp add: k)
  have "api_inv (mq_k m')" unfolding k
    by (rule api_inv_upd[OF d(1)]) (use e in simp_all)
  moreover have "msgq_good m' e'" if "is_msgq m e'" for e'
  proof (cases "e' = e")
    case True
    have "mq_ok m' e" using wf n r unfolding mq_ok_def p w by (simp add: k)
    then show ?thesis using d(2)[OF e] fr by (simp add: True msgq_good_def p w)
  next
    case False
    have "pmsgqueue m e' \<noteq> pmsgqueue m e" using d(4)[OF that e False] .
    then show ?thesis using d(2)[OF that] fr False b[of "pmsgqueue m e'"]
      by (simp add: msgq_good_def mq_ok_def p w) (simp add: k)
  qed
  ultimately show ?thesis using i by (simp add: msg_inv_def ty p fr)
qed

lemma msg_inv_put:
  fixes a p :: nat and stMsgLen :: ULONG
  assumes i: "msg_inv m" and e: "is_msgq m e" and none: "EventWaitNum (mq_k m) EVENT_MSG_Q_R e = 0" and p: "p < EVENT_MSG_Q_PRIO"
    and len: "stMsgLen \<le> MSGQUEUE_stMaxBytes (mq_block m (pmsgqueue m e))" "stMsgLen \<noteq> 0" "unat stMsgLen \<le> length (m_buf m a)"
    and room: "EVENT_ulCounter (k_event (mq_k m) e) < EVENT_ulMaxCounter (k_event (mq_k m) e)"
  defines "m1 \<equiv> kupd (event_upd e (\<lambda>ev. ev\<lparr>EVENT_ulCounter := EVENT_ulCounter ev + 1\<rparr>)) m"
  shows "msg_inv (MsgQueuePut (pmsgqueue m1 e) a stMsgLen p m1)"
proof -
  note ok = msg_invD(3)[OF i e]
  have l: "stMsgLen \<le> mb_bytes (mbox_of m e)" using len(1) by (simp add: mbox_of_def)
  note put = put_store[OF ok p l len(2,3) counter_room(1)[OF ok, THEN iffD1, OF room], folded m1_def]
  show ?thesis
    by (rule msg_inv_store[OF i e put(1,6,10)])
       (use put(2,5) no_waiters[OF msg_invD(1)[OF i] none] in \<open>simp_all add: mbox_of_def\<close>)
qed

lemma msg_inv_get:
  fixes a pl :: nat and sz :: ULONG
  assumes i: "msg_inv m" and e: "is_msgq m e" and ne: "EVENT_ulCounter (k_event (mq_k m) e) \<noteq> 0"
  defines "m1 \<equiv> kupd (event_upd e (\<lambda>ev. ev\<lparr>EVENT_ulCounter := EVENT_ulCounter ev - 1\<rparr>)) m"
  shows "msg_inv (MsgQueueGet (pmsgqueue m1 e) a sz pl m1)"
proof -
  note ok = msg_invD(3)[OF i e]
  have s: "mb_msgs (mbox_of m e) \<noteq> []" using counter_room(3)[OF ok] ne by simp
  note get = get_store[OF ok s, where a = a and pl = pl and stMax = sz, folded m1_def]
  show ?thesis
    by (rule msg_inv_store[OF i e get(1,6,10)])
       (use get(2,5) stored_no_receiver[OF ok s] in \<open>simp_all add: mbox_of_def\<close>)
qed

lemma msg_inv_take:
  assumes i: "msg_inv m" and e: "is_msgq m e" and ne: "EVENT_ulCounter (k_event (mq_k m) e) \<noteq> 0"
  shows "msg_inv (MsgTake e a sz pl m)"
proof -
  note g = msg_inv_get[OF i e ne, of a sz pl]
  show ?thesis unfolding MsgTake_def Let_def
    by (rule msg_inv_calm[OF g]) (auto simp: kupd_k intro!: calm_k calm_refl mkeep api_inv_lock(2) api_inv_ReadyOne)
qed

lemma msg_inv_clear:
  assumes i: "msg_inv m" and e: "is_msgq m e"
  shows "msg_inv (kupd (event_upd e (\<lambda>ev. ev\<lparr>EVENT_ulCounter := 0\<rparr>))
    (block_upd (pmsgqueue m e) (MsgQueueClear (EVENT_ulMaxCounter (k_event (mq_k m) e))) m))"
  by (rule msg_inv_store[OF i e, where c = "\<lambda>_. 0"]) (simp_all add: MsgQueueClear_ok)

section \<open>Blocking\<close>

lemma msg_inv_block:
  assumes i: "msg_inv m" and e: "is_msgq m e" and t: "\<exists>t. runs (mq_k m) t" and q: "q = EVENT_MSG_Q_R \<or> q = EVENT_MSG_Q_S"
    and z: "q = EVENT_MSG_Q_R \<Longrightarrow> EVENT_ulCounter (k_event (mq_k m) e) = 0"
  shows "msg_inv (m\<lparr>mq_k := PendBlock e q LW_THREAD_STATUS_MSGQUEUE d (mq_k m)\<rparr>)" (is "msg_inv ?m")
proof -
  obtain t where t: "runs (mq_k m) t" using t by blast
  note d = msg_invD[OF i]
  have a: "api_inv (mq_k ?m)"
    using api_inv_Pend_by[OF d(1) msg_bits t, of e q d] e api_block(5)[OF d(1), of e] by (simp add: block_ok_def)
  note p = PendBlock_ok[OF api_invD(1)[OF d(1)] t msg_bits, where e = e and q = q and ulTimeout = d]
  note f = ev_core_fields[OF p(11)]
  have pm: "pmsgqueue ?m e' = pmsgqueue m e'" for e' by (simp add: pmsgqueue_def f)
  have good: "msgq_good ?m e'" if "is_msgq m e'" for e'
    using d(2)[OF that] q z unfolding msgq_good_def mq_ok_def pm by (auto simp: p(18) f split: if_splits)
  show ?thesis using i a good unfolding msg_inv_def pm by (simp add: f)
qed

section \<open>Sending\<close>

lemma MsgGive_k [simp]:
  "mq_k (snd (MsgGive t a n m)) = mq_k m" "mq_block (snd (MsgGive t a n m)) = mq_block m"
  "mq_freeBlocks (snd (MsgGive t a n m)) = mq_freeBlocks m"
  by (simp_all add: MsgGive_def Let_def)

lemma calm_same:
  assumes "calm m x" "mq_k y = mq_k x" "mq_block y = mq_block x" "mq_freeBlocks y = mq_freeBlocks x" shows "calm m y"
  using assms by (simp add: calm_def)

lemma calm_give:
  assumes c: "calm m x" and ne: "EventWaitNum (mq_k x) EVENT_MSG_Q_R e \<noteq> 0"
  shows "calm m (snd (MsgSend_give e a n x))"
  by (rule calm_same[OF calm_ReadyOne[OF c ne, of 0 LW_THREAD_STATUS_MSGQUEUE]])
     (simp_all add: MsgSend_give_def ReadyOne_def split_beta Let_def)

lemma calm_broadcast: "calm m x \<Longrightarrow> calm m (MsgBroadcast_loop k e a n x)"
  by (induction k arbitrary: x) (auto intro: calm_give)

lemma calm_direct:
  assumes "calm m x" "EventWaitNum (mq_k x) EVENT_MSG_Q_R e \<noteq> 0" shows "calm m (snd (MsgSend_direct e a n d x))"
  using calm_give[OF assms] by (simp add: MsgSend_direct_def split_beta Let_def calm_steps)

lemma MsgSend_begin_Inl: "MsgSend_begin h p n m = Inl (r, m1) \<Longrightarrow> calm m m1"
  by (auto simp: MsgSend_begin_def Let_def intro!: calm_steps intro: calm_open[OF calm_refl] dest!: MsgOpen_Inr(1) split: option.splits sum.splits if_splits)

lemma MsgSend_begin_Inr:
  assumes "MsgSend_begin h p n m = Inr (e, a, m1)"
  shows "p = Some a" "m1 = m\<lparr>mq_k := KERNEL_ENTER (mq_k m)\<rparr>" "is_msgq m e" "n \<noteq> 0"
    "n \<le> MSGQUEUE_stMaxBytes (mq_block m1 (pmsgqueue m1 e))"
  using assms MsgOpen_Inr
  by (auto simp: MsgSend_begin_def Let_def split: option.splits sum.splits if_splits prod.splits)

lemma msg_inv_MsgSend_store:
  assumes i: "msg_inv m" and e: "is_msgq m e" and none: "EventWaitNum (mq_k m) EVENT_MSG_Q_R e = 0" and p: "p < EVENT_MSG_Q_PRIO"
    and len: "n \<le> MSGQUEUE_stMaxBytes (mq_block m (pmsgqueue m e))" "n \<noteq> 0" "unat n \<le> length (m_buf m a)"
    and c: "LW_CPU_GET_CUR_NESTING (mq_k m) = 0 \<Longrightarrow> \<exists>t. runs (mq_k m) t"
  shows "msg_inv (snd (MsgSend_store s e p a n d m))"
proof -
  consider "EVENT_ulCounter (k_event (mq_k m) e) < EVENT_ulMaxCounter (k_event (mq_k m) e)"
    | "\<not> EVENT_ulCounter (k_event (mq_k m) e) < EVENT_ulMaxCounter (k_event (mq_k m) e)" "d = LW_OPTION_NOT_WAIT \<or> LW_CPU_GET_CUR_NESTING (mq_k m) \<noteq> 0"
    | "\<not> EVENT_ulCounter (k_event (mq_k m) e) < EVENT_ulMaxCounter (k_event (mq_k m) e)" "\<not> (d = LW_OPTION_NOT_WAIT \<or> LW_CPU_GET_CUR_NESTING (mq_k m) \<noteq> 0)"
    by blast
  then show ?thesis
  proof cases
    case 1
    show ?thesis using msg_inv_calm[OF msg_inv_put[OF i e none p len 1] calm_steps(1)[OF calm_refl]]
      by (simp add: MsgSend_store_def Let_def 1)
  next
    case 2
    then show ?thesis using msg_inv_calm[OF i calm_steps(4)[OF calm_refl]] by (simp add: MsgSend_store_def Let_def)
  next
    case 3
    have "msg_inv (m\<lparr>mq_k := PendBlock e EVENT_MSG_Q_S LW_THREAD_STATUS_MSGQUEUE d (mq_k m)\<rparr>)"
      by (rule msg_inv_block[OF i e]) (use c 3(2) in auto)
    from msg_inv_calm[OF this calm_steps(9)[OF calm_refl]] 3 show ?thesis by (simp add: MsgSend_store_def Let_def)
  qed
qed

definition bytes_there :: "nat option \<Rightarrow> ULONG \<Rightarrow> msgs \<Rightarrow> bool" where
  "bytes_there p n m \<longleftrightarrow> (case p of None \<Rightarrow> True | Some a \<Rightarrow> unat n \<le> length (m_buf m a))"

lemma msg_inv_Send:
  assumes i: "msg_inv m" and c: "caller (mq_k m)" and l: "bytes_there p n m"
  shows "msg_inv (snd (MsgQueueSend2 h p n d m))" "msg_inv (snd (MsgQueueSendEx2 h p n d opt m))"
proof -
  have both: "msg_inv (snd (MsgQueueSend2 h p n d m)) \<and> (opt \<noteq> LW_OPTION_DEFAULT \<longrightarrow> msg_inv (snd (MsgQueueSendEx2 h p n d opt m)))"
  proof (cases "MsgSend_begin h p n m")
    case (Inl x)
    then show ?thesis using msg_inv_calm[OF i MsgSend_begin_Inl[of h p n m "fst x" "snd x"]]
      by (simp add: MsgQueueSend2_def MsgQueueSendEx2_def split_beta)
  next
    case (Inr x)
    then obtain e a m1 where b: "MsgSend_begin h p n m = Inr (e, a, m1)" by (cases x) auto
    note o = MsgSend_begin_Inr[OF b]
    have i1: "msg_inv m1" unfolding o(2) by (rule msg_inv_calm[OF i calm_steps(8)[OF calm_refl]])
    have e1: "is_msgq m1 e" and l1: "unat n \<le> length (m_buf m1 a)" and c1: "LW_CPU_GET_CUR_NESTING (mq_k m1) = 0 \<Longrightarrow> \<exists>t. runs (mq_k m1) t"
      using o(3) l c by (auto simp: o(1,2) bytes_there_def caller_def)
    have dir: "msg_inv (snd (MsgSend_direct e a n d m1))" if "EventWaitNum (mq_k m1) EVENT_MSG_Q_R e \<noteq> 0"
      by (rule msg_inv_calm[OF i1 calm_direct[OF calm_refl that]])
    have sto: "msg_inv (snd (MsgSend_store s e q a n d m1))" if "EventWaitNum (mq_k m1) EVENT_MSG_Q_R e = 0" "q < EVENT_MSG_Q_PRIO" for s q
      by (rule msg_inv_MsgSend_store[OF i1 e1 that o(5,4) l1 c1])
    have "calm m1 (MsgFail s v m1)" "calm m1 (kupd KERNEL_EXIT m1)" "calm m1 (kupd KERNEL_EXIT (MsgBroadcast_loop k e a n m1))" for s v k
      by (intro calm_steps calm_broadcast calm_refl)+
    then have oth: "msg_inv (MsgFail s v m1)" "msg_inv (kupd KERNEL_EXIT m1)" "msg_inv (kupd KERNEL_EXIT (MsgBroadcast_loop k e a n m1))" for s v k
      using msg_inv_calm[OF i1] by blast+
    show ?thesis using dir sto oth by (auto simp: MsgQueueSend2_def MsgQueueSendEx2_def b Let_def)
  qed
  then show "msg_inv (snd (MsgQueueSend2 h p n d m))" by simp
  from both show "msg_inv (snd (MsgQueueSendEx2 h p n d opt m))" by (cases "opt = LW_OPTION_DEFAULT") (simp_all add: MsgQueueSendEx2_def)
qed

text \<open>The resumed sender.\<close>

lemma calm_wake:
  assumes "MsgWake d sv opt (mq_k m) = (w, s1)" shows "calm m (m\<lparr>mq_k := s1\<rparr>)"
proof (rule calm_k[OF calm_refl])
  show "mkeeps (mq_k m) s1" using assms by (auto simp: MsgWake_def Let_def split_beta intro!: mkeep split: if_splits)
  show "api_inv s1" if "api_inv (mq_k m)"
    using assms Schedule_ret_reads(1)[OF that] by (auto simp: MsgWake_def Let_def split_beta split: if_splits)
qed

lemma MsgWake_runs:
  assumes "MsgWake d sv opt s = (w, s1)" "runs s t" "w = WakeDone ERROR_NONE \<or> w = WakeAgain v"
  shows "runs s1 t"
  using assms Schedule_ret_reads(2)[of s t] by (auto simp: MsgWake_def Let_def split_beta split: if_splits)

lemma msg_inv_SendWake:
  assumes i: "msg_inv m" and r: "runs (mq_k m) t" and l: "bytes_there p n m"
  shows "msg_inv (snd (MsgQueueSend2_wake h p n d sv opt m))" "msg_inv (snd (MsgQueueSendEx2_wake h p n o' d sv opt m))"
proof -
  obtain w s1 where w: "MsgWake d sv opt (mq_k m) = (w, s1)" by fastforce
  have i1: "msg_inv (m\<lparr>mq_k := s1\<rparr>)" by (rule msg_inv_calm[OF i calm_wake[OF w]])
  have c: "caller s1" if "w = WakeDone ERROR_NONE \<or> w = WakeAgain v" for v
    using MsgWake_runs[OF w r that] by (auto simp: caller_def)
  have l1: "bytes_there p n (m\<lparr>mq_k := s1\<rparr>)" using l by (cases p) (simp_all add: bytes_there_def)
  note g = msg_inv_Send[OF i1 _ l1, simplified]
  show "msg_inv (snd (MsgQueueSend2_wake h p n d sv opt m))" "msg_inv (snd (MsgQueueSendEx2_wake h p n o' d sv opt m))"
    using i1 c g by (auto simp: MsgQueueSend2_wake_def MsgQueueSendEx2_wake_def MsgSend_wake_def w split: wake_out.split)
qed

section \<open>Receiving\<close>

lemma MsgReceive_begin_Inl: "MsgReceive_begin h p n m = Inl (r, m1) \<Longrightarrow> calm m m1"
  by (auto simp: MsgReceive_begin_def intro!: calm_steps intro: calm_open[OF calm_refl] split: option.splits sum.splits if_splits)

lemma MsgReceive_begin_Inr:
  assumes "MsgReceive_begin h p n m = Inr (e, a, m1)"
  shows "m1 = m\<lparr>mq_k := KERNEL_ENTER (mq_k m)\<rparr>" "is_msgq m e"
  using assms MsgOpen_Inr by (auto simp: MsgReceive_begin_def split: option.splits sum.splits if_splits prod.splits)

lemma msg_inv_MsgWait:
  assumes i: "msg_inv m" and e: "is_msgq m e" and t: "\<exists>t. runs (mq_k m) t" and z: "EVENT_ulCounter (k_event (mq_k m) e) = 0"
  shows "msg_inv (snd (MsgWait s e a sz pl d m))"
proof -
  let ?m = "rx_upd (LW_TCB_GET_CUR (mq_k m)) (\<lambda>r. r\<lparr>TCB_pstMsgByteSize := pl, TCB_stMaxByteSize := sz, TCB_pvMsgQueueMessage := a\<rparr>) m"
  have i1: "msg_inv ?m" by (rule msg_inv_calm[OF i calm_steps(7)[OF calm_refl]])
  have "msg_inv (?m\<lparr>mq_k := PendBlock e EVENT_MSG_Q_R LW_THREAD_STATUS_MSGQUEUE d (mq_k ?m)\<rparr>)"
    by (rule msg_inv_block[OF i1]) (use e t z in simp_all)
  from msg_inv_calm[OF this calm_steps(9)[OF calm_refl]] msg_inv_calm[OF i calm_steps(4)[OF calm_refl]]
  show ?thesis by (simp add: MsgWait_def Let_def)
qed

lemma MsgQueueMsgLen_calm:
  assumes i: "msg_inv m" and e: "is_msgq m e" and ne: "EVENT_ulCounter (k_event (mq_k m) e) \<noteq> 0"
  shows "snd (MsgQueueMsgLen (pmsgqueue m e) m) = m"
proof -
  note ok = msg_invD(3)[OF i e]
  have "stored (mq_block m (pmsgqueue m e)) \<noteq> []" using counter_room(3)[OF ok] ne by (simp add: mbox_of_def)
  then show ?thesis using MsgQueueMsgLen_ok(1)[of _ m "pmsgqueue m e"] ok by (auto simp: mq_ok_def)
qed

lemma msg_inv_Receive_again:
  assumes i: "msg_inv m" and t: "\<exists>t. runs (mq_k m) t"
  shows "msg_inv (snd (MsgQueueReceive_again h p sz pl d m))" "msg_inv (snd (MsgQueueReceiveEx_again h p sz pl d opt m))"
proof -
  have "msg_inv (snd (MsgQueueReceive_again h p sz pl d m)) \<and> msg_inv (snd (MsgQueueReceiveEx_again h p sz pl d opt m))"
  proof (cases "MsgReceive_begin h p sz m")
    case (Inl x)
    then show ?thesis using msg_inv_calm[OF i MsgReceive_begin_Inl[of h p sz m "fst x" "snd x"]]
      by (simp add: MsgQueueReceive_again_def MsgQueueReceiveEx_again_def split_beta)
  next
    case (Inr x)
    then obtain e a m1 where b: "MsgReceive_begin h p sz m = Inr (e, a, m1)" by (cases x) auto
    note o = MsgReceive_begin_Inr[OF b]
    define mo where "mo v = rx_upd (LW_TCB_GET_CUR (mq_k m1)) (\<lambda>r. r\<lparr>TCB_ulRecvOption := v\<rparr>) m1" for v
    have k2: "mq_k (mo v) = mq_k m1" for v by (simp add: mo_def)
    have i2: "msg_inv (mo v)" for v unfolding o(1) mo_def by (rule msg_inv_calm[OF i]) (rule calm_steps calm_refl)+
    have e2: "is_msgq (mo v) e" and t2: "\<exists>t. runs (mq_k (mo v)) t" for v using o(2) t by (simp_all add: o(1) mo_def)
    note w = msg_inv_MsgWait[OF i2 e2 t2]
    note g = msg_inv_take[OF i2 e2]
    have f: "msg_inv (MsgFail s c (mo v))" for s c v by (rule msg_inv_calm[OF i2 calm_steps(4)[OF calm_refl]])
    note l = MsgQueueMsgLen_calm[OF i2 e2]
    show ?thesis using w g f l
      by (simp add: MsgQueueReceive_again_def MsgQueueReceiveEx_again_def b mo_def[symmetric] k2 Let_def split_beta)
  qed
  then show "msg_inv (snd (MsgQueueReceive_again h p sz pl d m))" "msg_inv (snd (MsgQueueReceiveEx_again h p sz pl d opt m))" by simp_all
qed

lemma msg_inv_Receive:
  assumes i: "msg_inv m" and c: "caller (mq_k m)"
  shows "msg_inv (snd (MsgQueueReceive h p sz pl tmp d m))" "msg_inv (snd (MsgQueueReceiveEx h p sz pl tmp d opt m))"
  using msg_inv_calm[OF i calm_steps(3)[OF calm_refl]] c
  by (auto simp: MsgQueueReceive_def MsgQueueReceiveEx_def caller_def intro!: msg_inv_Receive_again[OF i])

lemma msg_inv_ReceiveWake:
  assumes i: "msg_inv m" and r: "runs (mq_k m) t"
  shows "msg_inv (snd (MsgQueueReceive_wake h p sz pl d sv o' m))" "msg_inv (snd (MsgQueueReceiveEx_wake h p sz pl opt d sv o' m))"
proof -
  obtain w s1 where w: "MsgWake d sv o' (mq_k m) = (w, s1)" by fastforce
  have i1: "msg_inv (m\<lparr>mq_k := s1\<rparr>)" by (rule msg_inv_calm[OF i calm_wake[OF w]])
  have c: "\<exists>t. runs s1 t" if "w = WakeAgain v" for v using MsgWake_runs[OF w r, of v] that by blast
  note g = msg_inv_Receive_again[OF i1, simplified]
  note f = msg_inv_calm[OF i1 calm_steps(3)[OF calm_refl]]
  show "msg_inv (snd (MsgQueueReceive_wake h p sz pl d sv o' m))" "msg_inv (snd (MsgQueueReceiveEx_wake h p sz pl opt d sv o' m))"
    using i1 c g f by (auto simp: MsgQueueReceive_wake_def MsgQueueReceiveEx_wake_def w Let_def split: wake_out.split)
qed

text \<open>An opened queue: the other outcomes leave everything alone.\<close>

lemma msg_inv_open:
  fixes P :: "'a \<Rightarrow> msgs"
  assumes i: "msg_inv m"
    and ok: "\<And>e m1. \<lbrakk>m1 = m\<lparr>mq_k := KERNEL_ENTER (mq_k m)\<rparr>; msg_inv m1; is_msgq m1 e; is_msgq m e; e < LW_CFG_MAX_EVENTS\<rbrakk>
        \<Longrightarrow> msg_inv (P (K (e, KERNEL_ENTER (mq_k m))))"
    and bad: "\<And>r s1. msg_inv (m\<lparr>mq_k := s1\<rparr>) \<Longrightarrow> msg_inv (P (H (r, s1)))"
  shows "msg_inv (P (case MsgOpen h (mq_k m) of Inl y \<Rightarrow> H y | Inr y \<Rightarrow> K y))"
proof (cases "MsgOpen h (mq_k m)")
  case (Inl x)
  then show ?thesis using bad[of "snd x" "fst x"] msg_inv_calm[OF i calm_open[OF calm_refl, of h m "fst x" "snd x"]] by simp
next
  case (Inr x)
  then have o: "MsgOpen h (mq_k m) = Inr (fst x, snd x)" by simp
  note d = MsgOpen_Inr[OF o]
  have "msg_inv (m\<lparr>mq_k := KERNEL_ENTER (mq_k m)\<rparr>)" by (rule msg_inv_calm[OF i calm_steps(8)[OF calm_refl]])
  then have "msg_inv (P (K (fst x, KERNEL_ENTER (mq_k m))))" by (rule ok[OF refl]) (use d in simp_all)
  then show ?thesis using Inr d(1) by (metis prod.collapse sum.simps(6))
qed

section \<open>Clearing and flushing\<close>

lemma msg_inv_TryReceive: "msg_inv m \<Longrightarrow> msg_inv (snd (MsgQueueTryReceive h p sz pl tmp m))"
proof (cases p)
  case None
  assume i: "msg_inv m"
  then show ?thesis using None msg_inv_calm[OF i calm_steps(3)[OF calm_refl]] by (simp add: MsgQueueTryReceive_def)
next
  case (Some a)
  assume i: "msg_inv m"
  have f: "msg_inv (MsgFail s c m1)" if "msg_inv m1" for s c m1 by (rule msg_inv_calm[OF that calm_steps(4)[OF calm_refl]])
  show ?thesis unfolding MsgQueueTryReceive_def Some option.case
    by (rule msg_inv_open[OF i]) (auto simp: Let_def intro: msg_inv_take f)
qed

lemma api_inv_FlushLoop: "api_inv s \<Longrightarrow> api_inv (FlushLoop n e q ty s)"
  by (induction n arbitrary: s) (auto intro: api_inv_ReadyOne)

lemma calm_FlushLoop: "calm m x \<Longrightarrow> calm m (x\<lparr>mq_k := FlushLoop n e q ty (mq_k x)\<rparr>)"
  by (rule calm_k) (auto intro: mkeep api_inv_FlushLoop)

lemma calm_flush: "calm m x \<Longrightarrow> calm m (x\<lparr>mq_k := KERNEL_EXIT (FlushLoop n e q ty (mq_k x))\<rparr>)"
  using calm_steps(9)[OF calm_FlushLoop[of m x n e q ty]] by simp

lemma calm_FlushReceive: "calm m x \<Longrightarrow> calm m (MsgFlushReceive_loop k e x)"
proof (induction k arbitrary: x)
  case (Suc k)
  show ?case
  proof (cases "EventWaitNum (mq_k x) EVENT_MSG_Q_R e = 0")
    case False
    let ?l = "ReadyLowLevel e EVENT_MSG_Q_R 0 (mq_k x)"
    let ?y = "kupd (EventReadyHighLevel (fst ?l) LW_THREAD_STATUS_MSGQUEUE)
      (set_len (TCB_pstMsgByteSize (mq_rx x (fst ?l))) 0 (x\<lparr>mq_k := snd ?l\<rparr>))"
    have "calm m ?y"
      by (rule calm_same[OF calm_ReadyOne[OF Suc.prems False, of 0 LW_THREAD_STATUS_MSGQUEUE]])
         (simp_all add: ReadyOne_def split_beta Let_def)
    from Suc.IH[OF this] False show ?thesis by (simp add: split_beta Let_def)
  qed (use Suc.prems in simp)
qed simp

lemma msg_inv_Flush:
  assumes i: "msg_inv m"
  shows "msg_inv (snd (MsgQueueFlushSend h b m))" "msg_inv (snd (MsgQueueFlushReceive h b m))"
    "msg_inv (snd (MsgQueueFlush h b m))" "msg_inv (snd (MsgQueueClearAll h m))"
proof -
  have s: "msg_inv (snd (MsgQueueFlushSend h b m))" if i: "msg_inv m" for b m
    unfolding MsgQueueFlushSend_def
  proof (rule msg_inv_open[OF i], goal_cases)
    case (1 e m1)
    have "calm m1 (m1\<lparr>mq_k := KERNEL_EXIT (FlushLoop n e EVENT_MSG_Q_S LW_THREAD_STATUS_MSGQUEUE (mq_k m1))\<rparr>)" for n
      by (rule calm_flush[OF calm_refl])
    from msg_inv_calm[OF 1(2) this] 1(1) show ?case by (simp add: Let_def)
  qed simp
  have r: "msg_inv (snd (MsgQueueFlushReceive h b m))" if i: "msg_inv m" for b m
    unfolding MsgQueueFlushReceive_def
  proof (rule msg_inv_open[OF i], goal_cases)
    case (1 e m1)
    from msg_inv_calm[OF 1(2) calm_steps(1)[OF calm_FlushReceive[OF calm_refl]]] 1(1) show ?case by (simp add: Let_def)
  qed simp
  show "msg_inv (snd (MsgQueueFlushSend h b m))" "msg_inv (snd (MsgQueueFlushReceive h b m))" by (rule s[OF i], rule r[OF i])
  show "msg_inv (snd (MsgQueueFlush h b m))" using s[OF i, of True] r[OF s[OF i, of True], of True]
    by (simp add: MsgQueueFlush_def Let_def split_beta)
  show "msg_inv (snd (MsgQueueClearAll h m))" unfolding MsgQueueClearAll_def
  proof (rule msg_inv_open[OF i], goal_cases)
    case (1 e m1)
    let ?m = "kupd (event_upd e (\<lambda>ev. ev\<lparr>EVENT_ulCounter := 0\<rparr>))
      (block_upd (pmsgqueue m1 e) (MsgQueueClear (EVENT_ulMaxCounter (k_event (mq_k m1) e))) m1)"
    have "calm ?m (?m\<lparr>mq_k := KERNEL_EXIT (FlushLoop n e EVENT_MSG_Q_S LW_THREAD_STATUS_MSGQUEUE (mq_k ?m))\<rparr>)" for n
      by (rule calm_flush[OF calm_refl])
    from msg_inv_calm[OF msg_inv_clear[OF 1(2,3)] this] 1(1) show ?case by (simp add: Let_def kupd_k)
  qed simp
qed

section \<open>Deleting and creating\<close>

text \<open>A retired queue gives its control block back.\<close>

lemma msg_inv_retire:
  assumes i: "msg_inv m" and e: "is_msgq m e"
  shows "msg_inv (Free_MsgQueue_Object (pmsgqueue m e) (m\<lparr>mq_k := event_upd e (\<lambda>ev. ev\<lparr>EVENT_ucType := LW_TYPE_EVENT_UNUSED\<rparr>) (mq_k m)\<rparr>))"
    (is "msg_inv ?m")
proof -
  note d = msg_invD[OF i]
  have ty: "is_msgq ?m e' \<longleftrightarrow> is_msgq m e' \<and> e' \<noteq> e" and pm: "pmsgqueue ?m e' = pmsgqueue m e'" for e'
    by (auto simp: pmsgqueue_def Free_MsgQueue_Object_def)
  have fr: "mq_freeBlocks ?m = mq_freeBlocks m @ [pmsgqueue m e]" by (simp add: Free_MsgQueue_Object_def)
  have a: "api_inv (mq_k ?m)" using api_inv_retire[OF d(1), of e] e by (simp add: Free_MsgQueue_Object_def)
  have "msgq_good ?m e'" if "is_msgq m e'" "e' \<noteq> e" for e'
    by (rule msgq_good_shrink(1)[OF d(2)[OF that(1)]])
       (use d(2)[OF that(1)] d(4)[OF that(1) e that(2)] that in \<open>auto simp: fr msgq_good_def Free_MsgQueue_Object_def waits_on_def\<close>)
  moreover have "distinct (mq_freeBlocks ?m)" "\<forall>b\<in>set (mq_freeBlocks ?m). b < LW_CFG_MAX_MSGQUEUES"
    using d(2)[OF e] d(5,6) by (auto simp: fr msgq_good_def)
  ultimately show ?thesis using a d(4) by (auto simp: msg_inv_def ty pm)
qed

lemma msg_inv_Delete: "msg_inv m \<Longrightarrow> msg_inv (snd (snd (MsgQueueDelete h m)))"
proof -
  assume i: "msg_inv m"
  have "msg_inv (snd (snd (case MsgOpen h (mq_k m) of
       Inl x \<Rightarrow> (\<lambda>(r, s1). (r, h, m\<lparr>mq_k := s1\<rparr>)) x
     | Inr y \<Rightarrow> (\<lambda>(e, s1). (let
           s2 = event_upd e (\<lambda>ev. ev\<lparr>EVENT_ucType := LW_TYPE_EVENT_UNUSED\<rparr>) s1;
           s3 = DeleteLoop (unat (EventWaitNum s2 EVENT_MSG_Q_R e)) e EVENT_MSG_Q_R LW_THREAD_STATUS_MSGQUEUE s2;
           s4 = DeleteLoop (unat (EventWaitNum s3 EVENT_MSG_Q_S e)) e EVENT_MSG_Q_S LW_THREAD_STATUS_MSGQUEUE s3;
           s5 = event_upd e (\<lambda>ev. ev\<lparr>EVENT_pvTcbOwn := None\<rparr>) s4;
           b = unat (EVENT_pvPtr (k_event s5 e));
           m1 = Free_MsgQueue_Object b (m\<lparr>mq_k := Free_Event_Object e s5\<rparr>)
         in (ERROR_NONE, 0 :: ULONG, kupd KERNEL_EXIT m1))) y)))"
  proof (rule msg_inv_open[where P = "\<lambda>x. snd (snd x)", OF i], goal_cases)
    case (1 e m1)
    define s2 where "s2 = event_upd e (\<lambda>ev. ev\<lparr>EVENT_ucType := LW_TYPE_EVENT_UNUSED\<rparr>) (mq_k m1)"
    define s3 where "s3 = DeleteLoop (unat (EventWaitNum s2 EVENT_MSG_Q_R e)) e EVENT_MSG_Q_R LW_THREAD_STATUS_MSGQUEUE s2"
    define s4 where "s4 = DeleteLoop (unat (EventWaitNum s3 EVENT_MSG_Q_S e)) e EVENT_MSG_Q_S LW_THREAD_STATUS_MSGQUEUE s3"
    define s5 where "s5 = event_upd e (\<lambda>ev. ev\<lparr>EVENT_pvTcbOwn := None\<rparr>) s4"
    note d = msg_invD[OF 1(2)]
    let ?m = "Free_MsgQueue_Object (pmsgqueue m1 e) (m1\<lparr>mq_k := s2\<rparr>)"
    have i2: "msg_inv ?m" unfolding s2_def by (rule msg_inv_retire[OF 1(2,3)])
    have k2: "mq_k ?m = s2" by (simp add: Free_MsgQueue_Object_def)
    have a2: "api_inv s2" using msg_invD(1)[OF i2] by (simp add: k2)
    have u2: "EVENT_ucType (k_event s2 e) = LW_TYPE_EVENT_UNUSED" "e \<notin> set (k_freeEvents s2)"
      using used_not_free[OF d(1), of e] 1(3) by (simp_all add: s2_def)
    note d3 = api_inv_drain_by[OF a2 u2, of EVENT_MSG_Q_R LW_THREAD_STATUS_MSGQUEUE, folded s3_def]
    note d4 = api_inv_drain_by[OF d3(1-3), of EVENT_MSG_Q_S LW_THREAD_STATUS_MSGQUEUE, folded s4_def]
    have w: "\<forall>q. waiters s5 e q = {}" using d(2)[OF 1(3)] d3(4) d4(4) by (auto simp: s5_def s2_def msgq_good_def)
    have u5: "EVENT_ucType (k_event s5 e) = LW_TYPE_EVENT_UNUSED" "e \<notin> set (k_freeEvents s5)" using d4(2,3) by (simp_all add: s5_def)
    have a5: "api_inv s5" unfolding s5_def by (rule api_inv_disown[OF d4(1-3)])
    have "mkeeps s2 (KERNEL_EXIT (Free_Event_Object e s5))"
      unfolding s5_def s4_def s3_def using u2(1) by (auto intro!: mkeep)
    then have "calm ?m (?m\<lparr>mq_k := KERNEL_EXIT (Free_Event_Object e s5)\<rparr>)"
      using api_inv_free[OF a5 u5 w 1(5)] by (auto simp: k2 intro!: calm_k calm_refl)
    moreover have "unat (EVENT_pvPtr (k_event s5 e)) = pmsgqueue m1 e"
      using ev_core_fields(3)[OF d4(5)] ev_core_fields(3)[OF d3(5)] by (simp add: s5_def s2_def pmsgqueue_def)
    ultimately show ?case using msg_inv_calm[OF i2] 1(1)
      unfolding s5_def s4_def s3_def s2_def by (simp add: Let_def kupd_k Free_MsgQueue_Object_def)
  qed simp
  then show ?thesis using msg_inv_calm[OF i calm_steps(3)[OF calm_refl]] by (auto simp: MsgQueueDelete_def)
qed

text \<open>Creation takes a control block and an event block.\<close>

lemma msg_inv_pool:
  assumes "msg_inv m"
  shows "mq_freeBlocks m = b # bs \<Longrightarrow> msg_inv (m\<lparr>mq_freeBlocks := bs, mq_resUsed := u, mq_resMaxUsed := v\<rparr>)"
  using assms by (auto simp: msg_inv_def msgq_good_def mq_ok_def pmsgqueue_def)

lemma Allocate_MsgQueue_cases:
  assumes "Allocate_MsgQueue_Object m = (r, m1)"
  obtains "r = None" "m1 = m" "mq_freeBlocks m = []"
  | b bs u v where "r = Some b" "mq_freeBlocks m = b # bs" "m1 = m\<lparr>mq_freeBlocks := bs, mq_resUsed := u, mq_resMaxUsed := v\<rparr>"
proof (cases "mq_freeBlocks m")
  case (Cons b bs)
  have "m1 = m\<lparr>mq_freeBlocks := bs, mq_resUsed := mq_resUsed m1, mq_resMaxUsed := mq_resMaxUsed m1\<rparr>"
    using assms Cons by (auto simp: Allocate_MsgQueue_Object_def Let_def)
  moreover have "r = Some b" using assms Cons by (auto simp: Allocate_MsgQueue_Object_def Let_def)
  ultimately show ?thesis using that(2) Cons by blast
qed (use assms that(1) in \<open>auto simp: Allocate_MsgQueue_Object_def\<close>)

text \<open>A block that no queue uses returns to the pool.\<close>

lemma msg_inv_return:
  assumes i: "msg_inv m" and b: "b < LW_CFG_MAX_MSGQUEUES" "b \<notin> set (mq_freeBlocks m)" "\<And>e. is_msgq m e \<Longrightarrow> pmsgqueue m e \<noteq> b"
  shows "msg_inv (Free_MsgQueue_Object b m)"
  using i b by (auto simp: msg_inv_def msgq_good_def mq_ok_def pmsgqueue_def Free_MsgQueue_Object_def)

text \<open>The last step: the event is initialised for the cleared block.\<close>

lemma msg_inv_init:
  assumes i: "msg_inv m" and b: "b < LW_CFG_MAX_MSGQUEUES" "b \<notin> set (mq_freeBlocks m)" "\<And>e. is_msgq m e \<Longrightarrow> pmsgqueue m e \<noteq> b"
    and al: "EventAlloc (mq_k m) = (Some e, s1)" and o: "safe_option opt"
  shows "msg_inv (kupd (event_upd e (\<lambda>ev. ev\<lparr>EVENT_cEventName := nm, EVENT_ucType := LW_TYPE_EVENT_MSGQUEUE, EVENT_pvTcbOwn := None,
      EVENT_ulCounter := 0, EVENT_ulMaxCounter := n, EVENT_ulOption := opt, EVENT_pvPtr := of_nat b,
      EVENT_wqWaitQ := (EVENT_wqWaitQ ev)(0 := WQ_INIT, 1 := WQ_INIT)\<rparr>))
    (block_upd b (\<lambda>q. MsgQueueClear n (q\<lparr>MSGQUEUE_stMaxBytes := sz\<rparr>)) (m\<lparr>mq_k := s1\<rparr>)))" (is "msg_inv ?m")
proof -
  define m' where "m' = ?m"
  note d = msg_invD[OF i]
  note al' = EventAlloc_ok[OF api_invD(1,2)[OF d(1)] al]
  note e0 = al'(7)[OF refl]
  have a: "api_inv (mq_k m')" unfolding m'_def kupd_simps block_upd_simps
    by (simp, rule api_inv_create[OF d(1) al]) (use o in \<open>simp_all add: block_ok_def safe_option_def\<close>)
  have ty: "is_msgq m' e' \<longleftrightarrow> e' = e \<or> is_msgq m e'" for e' by (simp add: m'_def al'(4))
  have u: "\<not> is_msgq m e" using e0 by simp
  have pe: "pmsgqueue m' e = b" using b(1) by (simp add: m'_def pmsgqueue_def unat_of_nat take_bit_nat_eq_self)
  have pm: "pmsgqueue m' e' = pmsgqueue m e'" if "e' \<noteq> e" for e' using that by (simp add: m'_def pmsgqueue_def al'(4))
  have w: "waiters (mq_k m') e' q = waiters (mq_k m) e' q" for e' q
    using al'(5)[of e' q] by (simp add: m'_def event_upd_reads)
  have "waiters (mq_k m') e q = {}" for q using e0 by (simp add: m'_def event_upd_reads)
  then have ge: "msgq_good m' e" using b(1,2) MsgQueueClear_ok[of n] unfolding msgq_good_def mq_ok_def pe by (simp add: m'_def)
  have go: "msgq_good m' e'" if e': "is_msgq m e'" for e'
  proof -
    have ne: "e' \<noteq> e" using u e' by auto
    have "ev_core (k_event (mq_k m') e') = ev_core (k_event (mq_k m) e')" using ne by (simp add: m'_def al'(4))
    moreover have "waits_on (mq_k m) e' q t" if "waits_on (mq_k m') e' q t" for t q
      using that w[of e' q] unfolding waiters_def by blast
    ultimately show ?thesis
      using d(2)[OF e'] b(3)[OF e'] by (intro msgq_good_shrink(1)[OF d(2)[OF e']]) (auto simp: m'_def msgq_good_def)
  qed
  have "pmsgqueue m' e' \<noteq> pmsgqueue m' e''" if "is_msgq m' e'" "is_msgq m' e''" "e' \<noteq> e''" for e' e''
  proof (cases "e' = e \<or> e'' = e")
    case True
    then show ?thesis using that b(3) pe pm ty by metis
  next
    case False
    then show ?thesis using that d(4) pm ty by metis
  qed
  moreover have "mq_freeBlocks m' = mq_freeBlocks m" by (simp add: m'_def)
  moreover have "msgq_good m' e'" if "is_msgq m' e'" for e'
    using that ge go[of e'] ty[of e'] by (cases "e' = e") simp_all
  ultimately have "msg_inv m'" using a d(5,6) unfolding msg_inv_def by simp
  then show ?thesis by (simp add: m'_def)
qed

lemma msg_inv_Create:
  assumes i: "msg_inv m" and o: "safe_option opt"
  shows "msg_inv (snd (MsgQueueCreate alloc nm n sz opt m))"
proof -
  have err: "msg_inv (kupd (ErrorHandle c) m)" for c by (rule msg_inv_calm[OF i calm_steps(3)[OF calm_refl]])
  have i1: "msg_inv (kupd KERNEL_ENTER m)" by (rule msg_inv_calm[OF i calm_steps(2)[OF calm_refl]])
  have fail: "msg_inv (kupd (\<lambda>s1. ErrorHandle_of s c (KERNEL_EXIT s1)) x)" if "msg_inv x" for s c x
    using msg_inv_calm[OF that calm_steps(4)[OF calm_refl]] by (simp add: MsgFail_def)
  obtain r m1 where al: "Allocate_MsgQueue_Object (kupd KERNEL_ENTER m) = (r, m1)" by fastforce
  have full: "msg_inv (snd (case Allocate_MsgQueue_Object (kupd KERNEL_ENTER m) of
       (None, m1) \<Rightarrow> (0, kupd (\<lambda>s1. ErrorHandle_of (mq_k m) ERROR_MSGQUEUE_FULL (KERNEL_EXIT s1)) m1)
     | (Some b, m1) \<Rightarrow> (case EventAlloc (KERNEL_EXIT (mq_k m1)) of
         (None, s2) \<Rightarrow>
           (0, kupd (\<lambda>s1. ErrorHandle_of (mq_k m) ERROR_KERNEL_LOW_MEMORY (KERNEL_EXIT s1))
                (Free_MsgQueue_Object b (m1\<lparr>mq_k := KERNEL_ENTER s2\<rparr>)))
       | (Some e, s2) \<Rightarrow>
           if \<not> alloc (stHeapAllocateByteSize n sz) then
             (0, kupd (\<lambda>s1. ErrorHandle_of (mq_k m) ERROR_KERNEL_LOW_MEMORY (KERNEL_EXIT (Free_Event_Object e s1)))
                  (Free_MsgQueue_Object b (m1\<lparr>mq_k := KERNEL_ENTER s2\<rparr>)))
           else (let
               m2 = block_upd b (\<lambda>q. MsgQueueClear n (q\<lparr>MSGQUEUE_stMaxBytes := sz\<rparr>))
                      (m1\<lparr>mq_k := s2\<rparr>)
             in (MakeObjectId OBJECT_MSGQUEUE LW_CFG_PROCESSOR_NUMBER (of_nat e),
                 kupd (event_upd e (\<lambda>ev. ev\<lparr>EVENT_cEventName := event_name nm,
                   EVENT_ucType := LW_TYPE_EVENT_MSGQUEUE, EVENT_pvTcbOwn := None, EVENT_ulCounter := 0,
                   EVENT_ulMaxCounter := n, EVENT_ulOption := opt, EVENT_pvPtr := of_nat b,
                   EVENT_wqWaitQ := (EVENT_wqWaitQ ev)(0 := WQ_INIT, 1 := WQ_INIT)\<rparr>)) m2)))))"
  proof (rule Allocate_MsgQueue_cases[OF al], goal_cases)
    case 1
    then show ?case using fail[OF i1] al by simp
  next
    case (2 b bs u v)
    have fb: "mq_freeBlocks m = b # bs" using 2(2) by simp
    define m2 where "m2 = m1\<lparr>mq_k := KERNEL_EXIT (mq_k m1)\<rparr>"
    have "msg_inv m1" unfolding 2(3) by (rule msg_inv_pool[OF i1 2(2)])
    then have i2: "msg_inv m2" unfolding m2_def by (rule msg_inv_calm[OF _ calm_steps(9)[OF calm_refl]])
    have k2: "k_event (mq_k m2) = k_event (mq_k m)" by (simp add: m2_def 2(3))
    have b: "b < LW_CFG_MAX_MSGQUEUES" "b \<notin> set (mq_freeBlocks m2)" "\<And>e. is_msgq m2 e \<Longrightarrow> pmsgqueue m2 e \<noteq> b"
      using msg_invD(2,5,6)[OF i] fb by (auto simp: m2_def 2(3) msgq_good_def pmsgqueue_def k2)
    obtain x s2 where ea: "EventAlloc (mq_k m2) = (x, s2)" by fastforce
    have c2: "calm m2 (m2\<lparr>mq_k := s2\<rparr>)"
      by (rule calm_k[OF calm_refl keeps_alloc[OF keeps_refl ea] api_inv_alloc[OF _ ea]])
    have al2: "k_event s2 = k_event (mq_k m)" using EventAlloc_ok(4)[OF api_invD(1,2)[OF msg_invD(1)[OF i2]] ea] k2 by simp
    have ret: "msg_inv (Free_MsgQueue_Object b (m2\<lparr>mq_k := KERNEL_ENTER s2\<rparr>))"
      using msg_inv_return[OF msg_inv_calm[OF i2 calm_steps(8)[OF c2]], of b] b by (simp add: k2 al2 pmsgqueue_def)
    show ?case
    proof (cases x)
      case None
      then show ?thesis using fail[OF ret] ea al 2(1) by (simp add: m2_def)
    next
      case (Some e)
      let ?r = "Free_MsgQueue_Object b (m2\<lparr>mq_k := KERNEL_ENTER s2\<rparr>)"
      have kr: "mq_k ?r = KERNEL_ENTER s2" by (simp add: Free_MsgQueue_Object_def)
      have init: "msg_inv (kupd (event_upd e (\<lambda>ev. ev\<lparr>EVENT_cEventName := event_name nm, EVENT_ucType := LW_TYPE_EVENT_MSGQUEUE,
          EVENT_pvTcbOwn := None, EVENT_ulCounter := 0, EVENT_ulMaxCounter := n, EVENT_ulOption := opt, EVENT_pvPtr := of_nat b,
          EVENT_wqWaitQ := (EVENT_wqWaitQ ev)(0 := WQ_INIT, 1 := WQ_INIT)\<rparr>))
        (block_upd b (\<lambda>q. MsgQueueClear n (q\<lparr>MSGQUEUE_stMaxBytes := sz\<rparr>)) (m2\<lparr>mq_k := s2\<rparr>)))"
        by (rule msg_inv_init[OF i2 b ea[unfolded Some] o])
      note e0 = EventAlloc_ok(7)[OF api_invD(1,2)[OF msg_invD(1)[OF i2]] ea Some]
      have ar: "api_inv (KERNEL_ENTER s2)" using msg_invD(1)[OF ret] by (simp add: kr)
      have "api_inv (KERNEL_EXIT (Free_Event_Object e (KERNEL_ENTER s2)))"
        by (rule api_inv_free[OF ar]) (use e0 al2 k2 in simp_all)
      then have "calm ?r (kupd (\<lambda>s1. KERNEL_EXIT (Free_Event_Object e s1)) ?r)"
        unfolding kupd_k by (intro calm_k calm_refl) (auto simp: kr intro!: mkeep)
      from msg_inv_calm[OF ret calm_error[OF this]]
      have low: "msg_inv (kupd (\<lambda>s1. ErrorHandle_of (mq_k m) c (KERNEL_EXIT (Free_Event_Object e s1))) ?r)" for c
        by (simp add: kupd_k)
      show ?thesis using init low ea al 2(1) Some by (simp add: m2_def Let_def)
    qed
  qed
  then show ?thesis using err unfolding MsgQueueCreate_def Let_def by (simp split: prod.split)
qed

section \<open>Runs\<close>

text \<open>The calls; the wake calls are what a blocked thread runs when it is switched in again,
  \<open>MqSend\<close> with the same arguments is what a sender runs after \<open>SendAgain\<close>.\<close>

datatype mcall =
    MqCreate bool "string option" ULONG ULONG ULONG | MqDelete ULONG
  | MqSend ULONG "nat option" ULONG ULONG | MqSendEx ULONG "nat option" ULONG ULONG ULONG
  | MqSendWake ULONG "nat option" ULONG ULONG ULONG ULONG
  | MqSendExWake ULONG "nat option" ULONG ULONG ULONG ULONG ULONG
  | MqReceive ULONG "nat option" ULONG "nat option" nat ULONG
  | MqReceiveEx ULONG "nat option" ULONG "nat option" nat ULONG ULONG
  | MqReceiveWake ULONG "nat option" ULONG nat ULONG ULONG ULONG
  | MqReceiveExWake ULONG "nat option" ULONG nat ULONG ULONG ULONG ULONG
  | MqTryReceive ULONG "nat option" ULONG "nat option" nat
  | MqClear ULONG | MqFlushSend ULONG | MqFlushReceive ULONG | MqFlush ULONG

fun mexec :: "mcall \<Rightarrow> msgs \<Rightarrow> msgs" where
  "mexec (MqCreate heap nm n sz opt) m = snd (MsgQueueCreate (\<lambda>_. heap) nm n sz opt m)"
| "mexec (MqDelete h) m = snd (snd (MsgQueueDelete h m))"
| "mexec (MqSend h p n d) m = snd (MsgQueueSend2 h p n d m)"
| "mexec (MqSendEx h p n d opt) m = snd (MsgQueueSendEx2 h p n d opt m)"
| "mexec (MqSendWake h p n d sv eo) m = snd (MsgQueueSend2_wake h p n d sv eo m)"
| "mexec (MqSendExWake h p n opt d sv eo) m = snd (MsgQueueSendEx2_wake h p n opt d sv eo m)"
| "mexec (MqReceive h p sz pl tmp d) m = snd (MsgQueueReceive h p sz pl tmp d m)"
| "mexec (MqReceiveEx h p sz pl tmp d opt) m = snd (MsgQueueReceiveEx h p sz pl tmp d opt m)"
| "mexec (MqReceiveWake h p sz pl d sv eo) m = snd (MsgQueueReceive_wake h p sz pl d sv eo m)"
| "mexec (MqReceiveExWake h p sz pl opt d sv eo) m = snd (MsgQueueReceiveEx_wake h p sz pl opt d sv eo m)"
| "mexec (MqTryReceive h p sz pl tmp) m = snd (MsgQueueTryReceive h p sz pl tmp m)"
| "mexec (MqClear h) m = snd (MsgQueueClearAll h m)"
| "mexec (MqFlushSend h) m = snd (MsgQueueFlushSend h True m)"
| "mexec (MqFlushReceive h) m = snd (MsgQueueFlushReceive h True m)"
| "mexec (MqFlush h) m = snd (MsgQueueFlush h True m)"

text \<open>The size that \<open>API_MsgQueueCreate\<close> asks the heap for does not wrap.\<close>

definition size_fits :: "ULONG \<Rightarrow> ULONG \<Rightarrow> bool" where
  "size_fits n sz \<longleftrightarrow> unat n * (unat sz + 11) < 2 ^ 32"

text \<open>What the runs are restricted to: no \<open>LW_OPTION_DELETE_SAFE\<close>, no wrapping size, senders
  own the bytes they send, and a blocked call is continued by a thread.\<close>

definition mlegal :: "mcall \<Rightarrow> msgs \<Rightarrow> bool" where
  "mlegal c m \<longleftrightarrow> (case c of
      MqCreate _ _ n sz opt \<Rightarrow> safe_option opt \<and> size_fits n sz
    | MqSend _ p n _ \<Rightarrow> caller (mq_k m) \<and> bytes_there p n m
    | MqSendEx _ p n _ _ \<Rightarrow> caller (mq_k m) \<and> bytes_there p n m
    | MqSendWake _ p n _ _ _ \<Rightarrow> (\<exists>t. runs (mq_k m) t) \<and> bytes_there p n m
    | MqSendExWake _ p n _ _ _ _ \<Rightarrow> (\<exists>t. runs (mq_k m) t) \<and> bytes_there p n m
    | MqReceive _ _ _ _ _ _ \<Rightarrow> caller (mq_k m)
    | MqReceiveEx _ _ _ _ _ _ _ \<Rightarrow> caller (mq_k m)
    | MqReceiveWake _ _ _ _ _ _ _ \<Rightarrow> \<exists>t. runs (mq_k m) t
    | MqReceiveExWake _ _ _ _ _ _ _ _ \<Rightarrow> \<exists>t. runs (mq_k m) t
    | _ \<Rightarrow> True)"

lemma msg_inv_mexec:
  assumes i: "msg_inv m" and l: "mlegal c m" shows "msg_inv (mexec c m)"
  using l by (cases c) (auto simp: mlegal_def intro: msg_inv_Create[OF i] msg_inv_Delete[OF i] msg_inv_Send[OF i] msg_inv_SendWake[OF i]
      msg_inv_Receive[OF i] msg_inv_ReceiveWake[OF i] msg_inv_TryReceive[OF i] msg_inv_Flush[OF i])

inductive mstep :: "msgs \<Rightarrow> msgs \<Rightarrow> bool" where
  Kernel: "kstep (mq_k m) s' \<Longrightarrow> mstep m (m\<lparr>mq_k := s'\<rparr>)"
| Mcall: "mlegal c m \<Longrightarrow> mstep m (mexec c m)"
| Write_buf: "mstep m (set_buf a x m)"
| Write_len: "mstep m (set_len a v m)"

inductive mreach :: "msgs \<Rightarrow> msgs \<Rightarrow> bool" for m0 where
  Begin: "mreach m0 m0"
| Then: "\<lbrakk>mreach m0 m; mstep m m'\<rbrakk> \<Longrightarrow> mreach m0 m'"

lemma mstep_inv:
  assumes "mstep m m'" "msg_inv m" shows "msg_inv m'"
  using assms(1)
proof (cases rule: mstep.cases)
  case (Kernel s')
  note a = msg_invD(1)[OF assms(2)]
  have "calm m (m\<lparr>mq_k := s'\<rparr>)"
    by (rule calm_k[OF calm_refl keeps_kstep[OF a Kernel(2)] kstep_inv[OF Kernel(2)]])
  then show ?thesis using msg_inv_calm[OF assms(2)] Kernel(1) by simp
next
  case (Mcall c)
  then show ?thesis using msg_inv_mexec[OF assms(2)] by simp
qed (use msg_inv_calm[OF assms(2)] calm_steps(5,6)[OF calm_refl] in \<open>auto\<close>)

lemma mreach_inv: "\<lbrakk>mreach m0 m; msg_inv m0\<rbrakk> \<Longrightarrow> msg_inv m"
  by (induction rule: mreach.induct) (auto intro: mstep_inv)

end
