(* ===== verification/Msg_Props.thy ===== *)
theory Msg_Props
  imports Msg_Runs Kernel_Safety
begin

text \<open>
  What a message queue promises: the eight lists with their bitmap are one stable priority
  queue, and sending and receiving are the operations of a bounded mailbox.  The instances
  use a queue in block 0 of the state \<open>boot\<close>.
\<close>

section \<open>Histories of the store\<close>

text \<open>A thread writes the bytes \<open>x\<close> to the address \<open>a\<close> and they are put with a priority; a
  message is taken into a buffer of a size, its length is stored at the second address.\<close>

datatype store_op = StorePut nat "UINT8 list" nat | StoreGet nat ULONG nat

fun store_run :: "nat \<Rightarrow> store_op list \<Rightarrow> msgs \<Rightarrow> UINT8 list list \<times> msgs" where
  "store_run b [] m = ([], m)"
| "store_run b (StorePut a x p # ops) m = store_run b ops (MsgQueuePut b a (of_nat (length x)) p (set_buf a x m))"
| "store_run b (StoreGet a sz pl # ops) m = (let m1 = MsgQueueGet b a sz pl m; (out, m2) = store_run b ops m1
     in (take (unat (m_len m1 pl)) (m_buf m1 a) # out, m2))"

text \<open>The same history on a list of messages that is kept in the order of priority.\<close>

fun pq_run :: "store_op list \<Rightarrow> (nat \<times> UINT8 list) list \<Rightarrow> UINT8 list list \<times> (nat \<times> UINT8 list) list" where
  "pq_run [] xs = ([], xs)"
| "pq_run (StorePut a x p # ops) xs = pq_run ops (pq_put p x xs)"
| "pq_run (StoreGet a sz pl # ops) xs = (let (out, ys) = pq_run ops (tl xs) in (cut sz (snd (hd xs)) # out, ys))"

text \<open>No put into a full store or of a wrong size, no get from an empty one.\<close>

fun store_legal :: "nat \<Rightarrow> ULONG \<Rightarrow> nat \<Rightarrow> store_op list \<Rightarrow> bool" where
  "store_legal n mb k [] \<longleftrightarrow> True"
| "store_legal n mb k (StorePut a x p # ops) \<longleftrightarrow>
     k < n \<and> p < EVENT_MSG_Q_PRIO \<and> 0 < length x \<and> length x \<le> unat mb \<and> store_legal n mb (Suc k) ops"
| "store_legal n mb k (StoreGet a sz pl # ops) \<longleftrightarrow> 0 < k \<and> store_legal n mb (k - 1) ops"

lemma store_run_refines:
  assumes "mq_wf n (mq_block m b)"
    and "store_legal n (MSGQUEUE_stMaxBytes (mq_block m b)) (length (stored (mq_block m b))) ops"
  shows "fst (store_run b ops m) = fst (pq_run ops (stored (mq_block m b)))"
    "stored (mq_block (snd (store_run b ops m)) b) = snd (pq_run ops (stored (mq_block m b)))"
    "mq_wf n (mq_block (snd (store_run b ops m)) b)"
proof -
  have "fst (store_run b ops m) = fst (pq_run ops (stored (mq_block m b)))
    \<and> stored (mq_block (snd (store_run b ops m)) b) = snd (pq_run ops (stored (mq_block m b)))
    \<and> mq_wf n (mq_block (snd (store_run b ops m)) b)"
    using assms
  proof (induction ops arbitrary: m)
    case (Cons op ops)
    show ?case
    proof (cases op)
      case (StorePut a x p)
      let ?l = "of_nat (length x) :: ULONG" and ?m = "set_buf a x m"
      have lx: "0 < length x" "length x \<le> unat (MSGQUEUE_stMaxBytes (mq_block m b))" "p < EVENT_MSG_Q_PRIO"
        "length (stored (mq_block m b)) < n"
        "store_legal n (MSGQUEUE_stMaxBytes (mq_block m b)) (Suc (length (stored (mq_block m b)))) ops"
        using Cons.prems StorePut by simp_all
      then have ul: "unat ?l = length x"
        using unsigned_less[where ?'a = nat, of "MSGQUEUE_stMaxBytes (mq_block m b)"]
        by (simp add: unat_of_nat take_bit_nat_eq_self)
      have "?l \<le> MSGQUEUE_stMaxBytes (mq_block ?m b)" "?l \<noteq> 0"
        using ul lx(1,2) by (auto simp: word_le_nat_alt)
      moreover have "MSGQUEUE_pmonoFree (mq_block ?m b) \<noteq> []" using mq_wf_count[OF Cons.prems(1)] lx(4) by auto
      moreover have "mq_wf n (mq_block ?m b)" "unat ?l \<le> length (m_buf ?m a)" using Cons.prems(1) ul by simp_all
      ultimately have "mq_wf n (mq_block (MsgQueuePut b a ?l p ?m) b) \<and>
        stored (mq_block (MsgQueuePut b a ?l p ?m) b) = pq_put p (take (unat ?l) (m_buf ?m a)) (stored (mq_block ?m b)) \<and>
        MSGQUEUE_stMaxBytes (mq_block (MsgQueuePut b a ?l p ?m) b) = MSGQUEUE_stMaxBytes (mq_block ?m b)"
        by (intro conjI MsgQueuePut_ok(1-3)[OF _ refl _ lx(3)])
      then have put: "mq_wf n (mq_block (MsgQueuePut b a ?l p ?m) b)"
        "stored (mq_block (MsgQueuePut b a ?l p ?m) b) = pq_put p x (stored (mq_block m b))"
        "MSGQUEUE_stMaxBytes (mq_block (MsgQueuePut b a ?l p ?m) b) = MSGQUEUE_stMaxBytes (mq_block m b)"
        by (simp_all add: ul)
      have "length (pq_put p x (stored (mq_block m b))) = Suc (length (stored (mq_block m b)))"
        using sum_length_filter_compl[of "\<lambda>y. fst y \<le> p" "stored (mq_block m b)"] by (simp add: pq_put_def not_le)
      with Cons.IH[OF put(1)] put lx(5) StorePut show ?thesis by simp
    next
      case (StoreGet a sz pl)
      have ne: "stored (mq_block m b) \<noteq> []" using Cons.prems StoreGet by auto
      note get = MsgQueueGet_ok[OF Cons.prems(1) refl ne, where a = a and stMax = sz and pl = pl]
      have "store_legal n (MSGQUEUE_stMaxBytes (mq_block m b)) (length (tl (stored (mq_block m b)))) ops"
        using Cons.prems(2) StoreGet by simp
      moreover have "length (cut sz (snd (hd (stored (mq_block m b))))) \<le> unat sz" by (simp add: cut_def)
      ultimately show ?thesis using Cons.IH[OF get(1)] get(2,3,8,10) StoreGet by (simp add: split_beta Let_def)
    qed
  qed simp
  then show "fst (store_run b ops m) = fst (pq_run ops (stored (mq_block m b)))"
    "stored (mq_block (snd (store_run b ops m)) b) = snd (pq_run ops (stored (mq_block m b)))"
    "mq_wf n (mq_block (snd (store_run b ops m)) b)" by blast+
qed

text \<open>The list stays sorted, so the first message is one of the most urgent.\<close>

lemma sorted_pq_run: "sorted (map fst xs) \<Longrightarrow> sorted (map fst (snd (pq_run ops xs)))"
  by (induction ops xs rule: pq_run.induct) (auto simp: sorted_pq_put split_beta map_tl intro: sorted_tl)

section \<open>A queue of the running system\<close>

text \<open>Block 0 is a queue for two messages of at most sixteen bytes.\<close>

definition mq_boot :: msgs where
  "mq_boot = \<lparr>mq_k = boot1 (\<lambda>ev. ev\<lparr>EVENT_ucType := LW_TYPE_EVENT_MSGQUEUE, EVENT_ulMaxCounter := 2\<rparr>),
     mq_block = (\<lambda>_. MsgQueueClear 2 \<lparr>MSGQUEUE_pmonoFree = [], MSGQUEUE_mono = (\<lambda>_. []), MSGQUEUE_uiMap = 0,
        MSGQUEUE_stMaxBytes = 16, MSGNODE_stMsgLen = (\<lambda>_. 0), MSGNODE_data = (\<lambda>_. replicate 16 0)\<rparr>),
     mq_freeBlocks = [1..<LW_CFG_MAX_MSGQUEUES], mq_resUsed = 1, mq_resMaxUsed = 1,
     mq_rx = (\<lambda>_. \<lparr>TCB_pvMsgQueueMessage = 0, TCB_stMaxByteSize = 0, TCB_pstMsgByteSize = 0, TCB_ulRecvOption = 0\<rparr>),
     m_buf = (\<lambda>a. if a = 0 then [1, 2, 3] else replicate 16 0), m_len = (\<lambda>_. 0)\<rparr>"

lemma mq_boot_ok:
  "mq_st mq_boot 0" "msg_handle mq_boot (boot_id OBJECT_MSGQUEUE) 0" "caller (mq_k mq_boot)" "runs (mq_k mq_boot) 2"
  "LW_CPU_GET_CUR_NESTING (mq_k mq_boot) = 0" "m_buf mq_boot 0 = [1, 2, 3]" "mq_wf 2 (mq_block mq_boot b)"
  "mbox_of mq_boot 0 = \<lparr>mb_msgs = [], mb_max = 2, mb_bytes = 16, mb_recv = [], mb_send = []\<rparr>"
  "MSGQUEUE_stMaxBytes (mq_block mq_boot b) = 16" "stored (mq_block mq_boot b) = []"
proof -
  note c = MsgQueueClear_ok[where n = 2]
  show w: "mq_wf 2 (mq_block mq_boot b)" for b using c(1) by (simp add: mq_boot_def)
  show s: "stored (mq_block mq_boot b) = []" for b using c(2) by (simp add: mq_boot_def)
  show "MSGQUEUE_stMaxBytes (mq_block mq_boot b) = 16" for b using c(3) by (simp add: mq_boot_def)
  then show "mbox_of mq_boot 0 = \<lparr>mb_msgs = [], mb_max = 2, mb_bytes = 16, mb_recv = [], mb_send = []\<rparr>"
    using s by (simp add: mbox_of_def mq_boot_def order_boot1)
  have "mq_ok mq_boot 0" unfolding mq_ok_def using w s by (simp add: mq_boot_def boot_event_def)
  then show "mq_st mq_boot 0" by (simp add: mq_st_def mq_boot_def kinv_boot1 order_boot1)
  show "msg_handle mq_boot (boot_id OBJECT_MSGQUEUE) 0" by (simp add: mq_boot_def handle_boot1)
  show "runs (mq_k mq_boot) 2" by (simp add: mq_boot_def)
  then show "caller (mq_k mq_boot)" by (auto simp: caller_def)
  show "LW_CPU_GET_CUR_NESTING (mq_k mq_boot) = 0" by (simp add: mq_boot_def)
  show "m_buf mq_boot 0 = [1, 2, 3]" by (simp add: mq_boot_def)
qed

lemma msg_inv_boot: "msg_inv mq_boot"
proof -
  have a: "api_inv (mq_k mq_boot)"
    by (simp add: mq_boot_def, rule api_inv_boot1) (simp_all add: block_ok_def boot_event_def)
  have ty: "is_msgq mq_boot e \<longleftrightarrow> e = 0" for e by (simp add: mq_boot_def boot_event_def)
  have "pmsgqueue mq_boot 0 = 0" "mq_freeBlocks mq_boot = [1..<LW_CFG_MAX_MSGQUEUES]" "waiters (mq_k mq_boot) e q = {}" for e q
    by (simp_all add: mq_boot_def pmsgqueue_def boot_event_def)
  then have "msgq_good mq_boot 0" using mq_stD(4)[OF mq_boot_ok(1)] by (simp add: msgq_good_def)
  then show ?thesis using a by (auto simp: msg_inv_def ty) (simp_all add: mq_boot_def)
qed

text \<open>With both places taken.\<close>

definition mq_put1 :: "msgs \<Rightarrow> msgs" where
  "mq_put1 m = (let m1 = kupd (event_upd 0 (\<lambda>ev. ev\<lparr>EVENT_ulCounter := EVENT_ulCounter ev + 1\<rparr>)) m
    in MsgQueuePut (pmsgqueue m1 0) 0 3 7 m1)"

definition mq_full :: msgs where
  "mq_full = mq_put1 (mq_put1 mq_boot)"

lemma mq_put_k: "mq_k (MsgQueuePut b a n p m) = mq_k m"
  by (simp add: MsgQueuePut_def Let_def)

lemma mq_put1_ok:
  assumes "mq_st m 0" "EventWaitNum (mq_k m) EVENT_MSG_Q_R 0 = 0" "3 \<le> mb_bytes (mbox_of m 0)" "3 \<le> length (m_buf m 0)"
    "length (mb_msgs (mbox_of m 0)) < mb_max (mbox_of m 0)"
  shows "mq_st (mq_put1 m) 0"
    "mbox_of (mq_put1 m) 0 = (mbox_of m 0)\<lparr>mb_msgs := pq_put 7 (take 3 (m_buf m 0)) (mb_msgs (mbox_of m 0))\<rparr>"
    "m_buf (mq_put1 m) = m_buf m"
    "mq_k (mq_put1 m) = event_upd 0 (\<lambda>ev. ev\<lparr>EVENT_ulCounter := EVENT_ulCounter ev + 1\<rparr>) (mq_k m)"
  using MsgSend_put[where m = m and e = 0 and a = 0 and p = 7 and stMsgLen = 3] assms
  by (simp_all add: mq_put1_def Let_def mq_put_k)

lemma EventWaitNum_counter [simp]:
  "EventWaitNum (event_upd e (\<lambda>ev. ev\<lparr>EVENT_ulCounter := c ev\<rparr>) s) q e' = EventWaitNum s q e'"
  by (simp add: EventWaitNum_def event_upd_def)

lemma mq_full_ok:
  "mq_st mq_full 0" "mbox_of mq_full 0 = \<lparr>mb_msgs = [(7, [1, 2, 3]), (7, [1, 2, 3])], mb_max = 2, mb_bytes = 16, mb_recv = [], mb_send = []\<rparr>"
  "m_buf mq_full = m_buf mq_boot"
  "mq_k mq_full = event_upd 0 (\<lambda>ev. ev\<lparr>EVENT_ulCounter := EVENT_ulCounter ev + 1\<rparr>)
     (event_upd 0 (\<lambda>ev. ev\<lparr>EVENT_ulCounter := EVENT_ulCounter ev + 1\<rparr>) (mq_k mq_boot))"
proof -
  have z: "EventWaitNum (mq_k mq_boot) EVENT_MSG_Q_R 0 = 0" using no_receiver[OF mq_boot_ok(1)] mq_boot_ok(8) by simp
  note p1 = mq_put1_ok[OF mq_boot_ok(1) z, unfolded mq_boot_ok(6,8), simplified]
  have z1: "EventWaitNum (mq_k (mq_put1 mq_boot)) EVENT_MSG_Q_R 0 = 0" using z p1(4) by simp
  note p2 = mq_put1_ok[OF p1(1) z1, unfolded p1(2,3) mq_boot_ok(6), simplified]
  show "mq_st mq_full 0" "m_buf mq_full = m_buf mq_boot"
    "mbox_of mq_full 0 = \<lparr>mb_msgs = [(7, [1, 2, 3]), (7, [1, 2, 3])], mb_max = 2, mb_bytes = 16, mb_recv = [], mb_send = []\<rparr>"
    "mq_k mq_full = event_upd 0 (\<lambda>ev. ev\<lparr>EVENT_ulCounter := EVENT_ulCounter ev + 1\<rparr>)
     (event_upd 0 (\<lambda>ev. ev\<lparr>EVENT_ulCounter := EVENT_ulCounter ev + 1\<rparr>) (mq_k mq_boot))"
    using p2 by (simp_all add: mq_full_def p1(4) pq_put_def)
qed

section \<open>The store\<close>

text \<open>
  C23: over any legal history of \<open>_MsgQueuePut\<close> and \<open>_MsgQueueGet\<close> on a well-formed control
  block, the eight lists, their bitmap, the free list and the node memory behave as one list
  that is sorted by priority: a message goes behind those that are at least as urgent, the
  first one is delivered, cut to the buffer of the receiver, and no node is lost.
\<close>

theorem msg_store_is_stable_priority_queue:
  assumes "mq_wf n (mq_block m b)" "sorted (map fst (stored (mq_block m b)))"
    and "store_legal n (MSGQUEUE_stMaxBytes (mq_block m b)) (length (stored (mq_block m b))) ops"
  shows "fst (store_run b ops m) = fst (pq_run ops (stored (mq_block m b))) \<and>
    stored (mq_block (snd (store_run b ops m)) b) = snd (pq_run ops (stored (mq_block m b))) \<and>
    sorted (map fst (stored (mq_block (snd (store_run b ops m)) b))) \<and> mq_wf n (mq_block (snd (store_run b ops m)) b)"
  using store_run_refines[OF assms(1,3)] sorted_pq_run[OF assms(2)] by simp

theorem msg_store_is_stable_priority_queue_witness:
  "fst (store_run 0 [StorePut 0 [1, 2, 3] 7, StorePut 5 [4] 2, StoreGet 6 16 0, StorePut 5 [5] 7, StoreGet 6 2 0, StoreGet 6 16 0]
     mq_boot) = [[4], [1, 2], [5]]"
  using msg_store_is_stable_priority_queue[of 2 mq_boot 0 "[StorePut 0 [1, 2, 3] 7, StorePut 5 [4] 2, StoreGet 6 16 0,
      StorePut 5 [5] 7, StoreGet 6 2 0, StoreGet 6 16 0]"]
  by (simp add: mq_boot_ok pq_put_def cut_def)

section \<open>Sending\<close>

text \<open>
  C24: \<open>API_MsgQueueSend2\<close> and the urgent \<open>API_MsgQueueSendEx2\<close> on a valid handle: a message
  longer than the queue allows is refused; with receivers waiting, the first of them leaves
  the line with the message copied to its memory, or, when its buffer is too small and it
  asked for errors, with length zero, and the sender tries again; otherwise the message is
  stored in its place, refused with \<open>ERROR_MSGQUEUE_FULL\<close>, or the caller joins the senders.
\<close>

theorem msg_send_refines:
  assumes "mq_st m e" "msg_handle m ulId e" "caller (mq_k m)" "stMsgLen \<noteq> 0" "unat stMsgLen \<le> length (m_buf m a)"
    and "ulOption AND LW_OPTION_URGENT \<noteq> 0" "unat (drop_bit 4 ulOption AND 0xf) = p" "p < EVENT_MSG_Q_PRIO"
  shows "mb_send_post EVENT_MSG_Q_PRIO_LOW a stMsgLen d m e (MsgQueueSend2 ulId (Some a) stMsgLen d m) \<and>
    mb_send_post p a stMsgLen d m e (MsgQueueSendEx2 ulId (Some a) stMsgLen d ulOption m)"
  using MsgQueueSend2_refines[OF assms(1-5)] MsgQueueSendEx2_urgent[OF assms(1-8)] by blast

theorem msg_send_refines_witness:
  "mb_msgs (mbox_of (snd (MsgQueueSend2 (boot_id OBJECT_MSGQUEUE) (Some 0) 3 0 mq_boot)) 0) = [(7, [1, 2, 3])] \<and>
   mb_msgs (mbox_of (snd (MsgQueueSendEx2 (boot_id OBJECT_MSGQUEUE) (Some 0) 2 0 0x21 mq_boot)) 0) = [(2, [1, 2])]"
  using msg_send_refines[OF mq_boot_ok(1-3), of 3 0 "0x21" 2 0] msg_send_refines[OF mq_boot_ok(1-3), of 2 0 "0x21" 2 0]
  by (simp add: mq_boot_ok mb_send_post_def mb_sent_def pq_put_def Let_def)

section \<open>Receiving\<close>

text \<open>
  C25: \<open>API_MsgQueueReceive\<close> and \<open>API_MsgQueueReceiveEx\<close> in a thread: the first message is
  taken, cut to the buffer, and the first waiting sender becomes runnable; without a message
  the caller is turned away or joins the receivers with the description of its buffer.  With
  \<open>LW_OPTION_NOERROR\<close> clear a message that does not fit stays in the queue and the answer is
  \<open>E2BIG\<close>.
\<close>

theorem msg_receive_refines:
  fixes ulId sz d opt :: ULONG
  assumes "mq_st m e" "msg_handle m ulId e" "runs (mq_k m) t" "LW_CPU_GET_CUR_NESTING (mq_k m) = 0" "sz \<noteq> 0"
  shows "mb_receive a sz (pstMsgLen_or pl tmp) LW_OPTION_NOERROR d m e (MsgQueueReceive ulId (Some a) sz pl tmp d m) \<and>
    (let r = MsgQueueReceiveEx ulId (Some a) sz pl tmp d opt m; A = mbox_of m e in
      if mb_msgs A \<noteq> [] \<and> unat sz < length (snd (hd (mb_msgs A))) \<and> opt AND LW_OPTION_NOERROR = 0
      then mq_st (snd r) e \<and> fst r = Done E2BIG \<and> mbox_of (snd r) e = A \<and> m_buf (snd r) = m_buf m \<and> m_len (snd r) = m_len m
      else mb_receive a sz (pstMsgLen_or pl tmp) opt d m e r)"
  using MsgQueueReceive_refines[OF assms] MsgQueueReceiveEx_refines[OF assms] unfolding Let_def by blast

theorem msg_receive_refines_witness:
  "fst (MsgQueueReceive (boot_id OBJECT_MSGQUEUE) (Some 5) 16 None 9 0 mq_boot) = Done ERROR_THREAD_WAIT_TIMEOUT \<and>
   (let r = MsgQueueReceiveEx (boot_id OBJECT_MSGQUEUE) (Some 5) 16 None 9 100 0 mq_boot in
     fst r = Blocked 100 0 0 \<and> mb_recv (mbox_of (snd r) 0) = [2] \<and> TCB_stMaxByteSize (mq_rx (snd r) 2) = 16)"
proof -
  note r = msg_receive_refines[OF mq_boot_ok(1,2,4,5), of 16]
  have "KERNEL_TIME_GET (mq_k mq_boot) = 0" "EVENT_ulOption (k_event (mq_k mq_boot) 0) = 0"
    by (simp_all add: mq_boot_def KERNEL_TIME_GET_def boot1_def boot_event_def)
  moreover have "LW_TCB_GET_CUR (mq_k mq_boot) = 2" by (simp add: mq_boot_def)
  ultimately show ?thesis
    using r[of 5 None 9 0 0] r[of 5 None 9 100 0]
    by (simp add: mq_boot_ok mb_receive_def mb_awaits_def enqueue_def Let_def)
qed

section \<open>Every reachable state\<close>

text \<open>
  C26: in every state that a run of kernel steps, message queue calls and memory writes
  reaches, the counter of a queue is the number of its stored messages and within the
  capacity, every stored message has a length that the queue allows, threads wait to receive
  only while the queue is empty, and no other queue uses the control block.
\<close>

theorem msg_queues_consistent:
  assumes "msg_inv m0" "mreach m0 m" "is_msgq m e"
  shows "unat (EVENT_ulCounter (k_event (mq_k m) e)) = length (stored (mq_block m (pmsgqueue m e))) \<and>
    EVENT_ulCounter (k_event (mq_k m) e) \<le> EVENT_ulMaxCounter (k_event (mq_k m) e) \<and>
    (\<forall>x\<in>set (stored (mq_block m (pmsgqueue m e))).
       0 < length (snd x) \<and> length (snd x) \<le> unat (MSGQUEUE_stMaxBytes (mq_block m (pmsgqueue m e)))) \<and>
    ((\<exists>t. waits_on (mq_k m) e EVENT_MSG_Q_R t) \<longrightarrow> EVENT_ulCounter (k_event (mq_k m) e) = 0) \<and>
    (\<forall>e'. is_msgq m e' \<and> e' \<noteq> e \<longrightarrow> pmsgqueue m e' \<noteq> pmsgqueue m e)"
proof -
  note d = msg_invD[OF mreach_inv[OF assms(2,1)]]
  let ?q = "mq_block m (pmsgqueue m e)"
  have ok: "mq_ok m e" by (rule d(3)[OF assms(3)])
  have "mq_wf (unat (EVENT_ulMaxCounter (k_event (mq_k m) e))) ?q" using ok by (simp add: mq_ok_def)
  moreover have "unat (EVENT_ulCounter (k_event (mq_k m) e)) = length (stored ?q)"
    "waiters (mq_k m) e EVENT_MSG_Q_R \<noteq> {} \<longrightarrow> EVENT_ulCounter (k_event (mq_k m) e) = 0" using ok by (simp_all add: mq_ok_def)
  ultimately show ?thesis using mq_wf_count stored_sizes d(4)[OF _ assms(3)] by (fastforce simp: word_le_nat_alt waiters_def)
qed

theorem msg_queues_consistent_witness:
  "let m = mexec (MqSend (boot_id OBJECT_MSGQUEUE) (Some 0) 3 0) mq_boot in
   is_msgq m 0 \<and> unat (EVENT_ulCounter (k_event (mq_k m) 0)) = length (stored (mq_block m (pmsgqueue m 0))) \<and>
   EVENT_ulCounter (k_event (mq_k m) 0) \<le> EVENT_ulMaxCounter (k_event (mq_k m) 0)"
proof -
  let ?c = "MqSend (boot_id OBJECT_MSGQUEUE) (Some 0) 3 0"
  have "mlegal ?c mq_boot" using mq_boot_ok(3) by (simp add: mlegal_def bytes_there_def mq_boot_ok(6))
  then have r: "mreach mq_boot (mexec ?c mq_boot)" by (blast intro: mreach.intros mstep.intros)
  have "EventWaitNum (mq_k mq_boot) EVENT_MSG_Q_R 0 = 0" using no_receiver[OF mq_boot_ok(1)] mq_boot_ok(8) by simp
  then have "mexec ?c mq_boot = snd (MsgSend_store (mq_k mq_boot) 0 7 0 3 0 (mq_boot\<lparr>mq_k := KERNEL_ENTER (mq_k mq_boot)\<rparr>))"
    by (simp add: MsgQueueSend2_def MsgSend_begin_ok[OF mq_boot_ok(1,2)] mq_boot_ok(8))
  moreover have "EVENT_ucType (k_event (mq_k mq_boot) 0) = LW_TYPE_EVENT_MSGQUEUE" by (simp add: mq_boot_def)
  ultimately have "is_msgq (mexec ?c mq_boot) 0"
    using mq_boot_ok(5) by (simp add: MsgSend_store_def mq_put_k MsgFail_def Let_def)
  then show ?thesis using msg_queues_consistent[OF msg_inv_boot r] by (simp add: Let_def)
qed

section \<open>Broadcasting\<close>

text \<open>
  a broadcast hands the message to every waiting receiver, in the order of service, and
  wakes them all; it stores nothing and leaves the waiting senders alone.
\<close>

theorem msg_broadcast_reaches_all:
  assumes "mq_st m e" "msg_handle m ulId e" "stMsgLen \<noteq> 0" "stMsgLen \<le> mb_bytes (mbox_of m e)"
    and "ulOption AND LW_OPTION_URGENT = 0" "ulOption AND LW_OPTION_BROADCAST \<noteq> 0"
  shows "fst (MsgQueueSendEx2 ulId (Some a) stMsgLen d ulOption m) = SendDone ERROR_NONE \<and>
    mbox_of (snd (MsgQueueSendEx2 ulId (Some a) stMsgLen d ulOption m)) e = (mbox_of m e)\<lparr>mb_recv := []\<rparr> \<and>
    same_mem (give_all a stMsgLen (mb_recv (mbox_of m e)) m) (snd (MsgQueueSendEx2 ulId (Some a) stMsgLen d ulOption m))"
  using MsgQueueSendEx2_broadcast[OF assms] by blast

text \<open>Thread 2 waits for a message, with sixteen bytes at address 5.\<close>

definition mq_wait :: msgs where
  "mq_wait = snd (MsgQueueReceive (boot_id OBJECT_MSGQUEUE) (Some 5) 16 None 9 100 mq_boot)"

lemma mq_wait_ok:
  "mq_st mq_wait 0" "msg_handle mq_wait (boot_id OBJECT_MSGQUEUE) 0"
  "mbox_of mq_wait 0 = \<lparr>mb_msgs = [], mb_max = 2, mb_bytes = 16, mb_recv = [2], mb_send = []\<rparr>"
  "m_buf mq_wait = m_buf mq_boot" "TCB_pvMsgQueueMessage (mq_rx mq_wait 2) = 5" "TCB_stMaxByteSize (mq_rx mq_wait 2) = 16"
  "TCB_pstMsgByteSize (mq_rx mq_wait 2) = 9"
proof -
  have cur: "LW_TCB_GET_CUR (mq_k mq_boot) = 2" by (simp add: mq_boot_def)
  note r = MsgQueueReceive_refines[OF mq_boot_ok(1,2,4,5), where sz = 16 and a = 5 and pl = None and tmp = 9 and d = 100]
  show "mq_st mq_wait 0" "mbox_of mq_wait 0 = \<lparr>mb_msgs = [], mb_max = 2, mb_bytes = 16, mb_recv = [2], mb_send = []\<rparr>"
    "m_buf mq_wait = m_buf mq_boot" "TCB_pvMsgQueueMessage (mq_rx mq_wait 2) = 5" "TCB_stMaxByteSize (mq_rx mq_wait 2) = 16"
    "TCB_pstMsgByteSize (mq_rx mq_wait 2) = 9"
    using r cur by (simp_all add: mq_wait_def mb_receive_def mb_awaits_def mq_boot_ok(8) enqueue_def pstMsgLen_or_def Let_def)
  have z: "EVENT_ulCounter (k_event (mq_k mq_boot) 0) = 0" by (simp add: mq_boot_def boot_event_def)
  have t: "runs (KERNEL_ENTER (mq_k mq_boot)) 2" using mq_boot_ok(4) by simp
  have "mq_k mq_wait = KERNEL_EXIT (PendBlock 0 EVENT_MSG_Q_R LW_THREAD_STATUS_MSGQUEUE 100 (KERNEL_ENTER (mq_k mq_boot)))"
    using z mq_boot_ok(5) by (simp add: mq_wait_def MsgQueueReceive_def MsgQueueReceive_again_def MsgReceive_begin_ok[OF mq_boot_ok(2)]
        MsgWait_def Let_def)
  moreover have "kinv (KERNEL_ENTER (mq_k mq_boot))" using mq_stD(1)[OF mq_boot_ok(1)] by simp
  ultimately have "EVENT_ucType (k_event (mq_k mq_wait) 0) = EVENT_ucType (k_event (mq_k mq_boot) 0)"
    using ev_core_eqD(1)[OF PendBlock_ok(11)[OF _ t msg_bits]] by simp
  then show "msg_handle mq_wait (boot_id OBJECT_MSGQUEUE) 0" using mq_boot_ok(2) by (simp add: handle_def)
qed

theorem msg_broadcast_reaches_all_witness:
  "let m = snd (MsgQueueSendEx2 (boot_id OBJECT_MSGQUEUE) (Some 0) 3 0 LW_OPTION_BROADCAST mq_wait) in
   mb_recv (mbox_of mq_wait 0) = [2] \<and> mb_recv (mbox_of m 0) = [] \<and> take 3 (m_buf m 5) = [1, 2, 3] \<and> m_len m 9 = 3"
proof -
  have "m_buf (give_all 0 3 [2] mq_wait) 5 = [1, 2, 3] @ drop 3 (m_buf mq_boot 5)" "m_len (give_all 0 3 [2] mq_wait) 9 = 3"
    by (simp_all add: give_all_def MsgGive_def mq_wait_ok memcpy_def Let_def mq_boot_ok(6))
  then show ?thesis using msg_broadcast_reaches_all[OF mq_wait_ok(1,2), of 3 LW_OPTION_BROADCAST 0 0]
    by (simp add: mq_wait_ok(3) same_mem_def Let_def)
qed

section \<open>Creating\<close>

lemma round_up_4: "unat x + 3 < 2 ^ 32 \<Longrightarrow> unat (ROUND_UP x 4) = 4 * ((unat x + 3) div 4)"
  using ROUND_UP_pow[of x 2] by simp

lemma MakeObjectId_nonzero: "MakeObjectId OBJECT_MSGQUEUE LW_CFG_PROCESSOR_NUMBER i \<noteq> 0"
  using ObjectClassOK_Make[of OBJECT_MSGQUEUE LW_CFG_PROCESSOR_NUMBER i OBJECT_MSGQUEUE]
  by (auto simp: ObjectClassOK_def ObjectGetClass_def)

lemma heap_size_fits:
  assumes "size_fits n sz" "n \<noteq> 0"
  shows "unat (stHeapAllocateByteSize n sz) = unat n * (8 + 4 * ((unat sz + 3) div 4))"
proof -
  have n: "1 \<le> unat n" using assms(2) by (simp add: Suc_le_eq unat_gt_0)
  have b: "unat n * (unat sz + 11) < 2 ^ 32" using assms(1) by (simp add: size_fits_def)
  then have s: "unat sz + 11 < 2 ^ 32" using n by (metis le_less_trans mult_le_mono1 nat_mult_1)
  have r: "unat (ROUND_UP sz 4) = 4 * ((unat sz + 3) div 4)" by (rule round_up_4) (use s in simp)
  then have u: "unat (stMaxMsgByteSizeReal sz) = 8 + 4 * ((unat sz + 3) div 4)"
    using unat_add_lem[of "ROUND_UP sz 4" 8] less_mult_imp_div_less[of "unat sz + 3" 1073741822 4] s
    by (simp add: stMaxMsgByteSizeReal_def)
  have "8 + 4 * ((unat sz + 3) div 4) \<le> unat sz + 11" by simp
  then have "unat n * (8 + 4 * ((unat sz + 3) div 4)) < 2 ^ 32" using b by (meson le_less_trans mult_le_mono2)
  then show ?thesis using unat_mult_lem[of n "stMaxMsgByteSizeReal sz"] by (simp add: stHeapAllocateByteSize_def u)
qed

text \<open>
  while \<open>size_fits\<close> holds, \<open>API_MsgQueueCreate\<close> asks the heap for the bytes that
  \<open>_MsgQueueClear\<close> divides into nodes.  Beyond it the product wraps: a queue for
  \<open>0x10000001\<close> messages of eight bytes is created on a buffer of sixteen bytes.
\<close>

theorem msg_create_size:
  assumes "size_fits n sz" "n \<noteq> 0" "LW_CPU_GET_CUR_NESTING (mq_k m) = 0" "mq_freeBlocks m \<noteq> []" "k_freeEvents (mq_k m) \<noteq> []" "heap 16"
  shows "unat (stHeapAllocateByteSize n sz) = unat n * (8 + 4 * ((unat sz + 3) div 4)) \<and>
    stHeapAllocateByteSize 0x10000001 8 = 16 \<and> fst (MsgQueueCreate heap None 0x10000001 8 ulOption m) \<noteq> 0"
proof (intro conjI heap_size_fits[OF assms(1,2)])
  show w: "stHeapAllocateByteSize 0x10000001 8 = 16"
    by (simp add: stHeapAllocateByteSize_def stMaxMsgByteSizeReal_def ROUND_UP_def)
  obtain b bs where b: "mq_freeBlocks m = b # bs" using assms(4) by (cases "mq_freeBlocks m") auto
  define m1 where "m1 = snd (Allocate_MsgQueue_Object (kupd KERNEL_ENTER m))"
  have al: "Allocate_MsgQueue_Object (kupd KERNEL_ENTER m) = (Some b, m1)" "mq_k m1 = KERNEL_ENTER (mq_k m)"
    using b by (auto simp: m1_def Allocate_MsgQueue_Object_def Let_def)
  have "k_freeEvents (KERNEL_EXIT (mq_k m1)) \<noteq> []" using assms(5) by (simp add: al(2))
  then obtain e es where "k_freeEvents (KERNEL_EXIT (mq_k m1)) = e # es" by (cases "k_freeEvents (KERNEL_EXIT (mq_k m1))") auto
  then have "fst (EventAlloc (KERNEL_EXIT (mq_k m1))) = Some e" by (simp add: EventAlloc_def Allocate_Event_Object_def Let_def)
  then obtain s2 where "EventAlloc (KERNEL_EXIT (mq_k m1)) = (Some e, s2)" by (metis prod.collapse)
  then show "fst (MsgQueueCreate heap None 0x10000001 8 ulOption m) \<noteq> 0"
    using assms(3,6) al(1) w by (simp add: MsgQueueCreate_def Object_Name_Invalid_def MakeObjectId_nonzero Let_def)
qed

theorem msg_create_size_witness:
  "unat (stHeapAllocateByteSize 10 6) = 160 \<and> fst (MsgQueueCreate (\<lambda>b. b \<le> 16) None 0x10000001 8 0 mq_boot) \<noteq> 0"
proof -
  have "mq_freeBlocks mq_boot \<noteq> []" "k_freeEvents (mq_k mq_boot) \<noteq> []" by (simp_all add: mq_boot_def)
  then show ?thesis using msg_create_size[of 10 6 mq_boot "\<lambda>b. b \<le> 16" 0] mq_boot_ok(5) by (simp add: size_fits_def)
qed

section \<open>Waking senders\<close>

text \<open>
  C27: a sender that was woken for a free place, or by \<open>API_MsgQueueFlushSend\<close>, and finds the
  queue full again blocks anew, with the whole time-out \<open>d\<close> from now on and behind the
  senders that came in between.
\<close>

theorem msg_sender_waits_again:
  assumes "MsgWake d sv opt (mq_k m) = (WakeDone ERROR_NONE, s1)" "mq_st (m\<lparr>mq_k := s1\<rparr>) e" "msg_handle (m\<lparr>mq_k := s1\<rparr>) ulId e"
    and "runs s1 t" "LW_CPU_GET_CUR_NESTING s1 = 0" "d \<noteq> LW_OPTION_NOT_WAIT"
    and "stMsgLen \<noteq> 0" "stMsgLen \<le> mb_bytes (mbox_of (m\<lparr>mq_k := s1\<rparr>) e)" "unat stMsgLen \<le> length (m_buf m a)"
    and "mb_recv (mbox_of (m\<lparr>mq_k := s1\<rparr>) e) = []" "length (mb_msgs (mbox_of (m\<lparr>mq_k := s1\<rparr>) e)) = mb_max (mbox_of (m\<lparr>mq_k := s1\<rparr>) e)"
  shows "let r = MsgQueueSend2_wake ulId (Some a) stMsgLen d sv opt m; A = mbox_of (m\<lparr>mq_k := s1\<rparr>) e in
    fst r = SendBlocked d (KERNEL_TIME_GET s1) (EVENT_ulOption (k_event s1 e)) \<and>
    mbox_of (snd r) e = A\<lparr>mb_send := enqueue (by_prio s1 e) (tcb_prio s1) (LW_TCB_GET_CUR s1) (mb_send A)\<rparr>"
proof -
  have "caller s1" using assms(4) by (auto simp: caller_def)
  then have "mb_send_post EVENT_MSG_Q_PRIO_LOW a stMsgLen d (m\<lparr>mq_k := s1\<rparr>) e (MsgQueueSend2 ulId (Some a) stMsgLen d (m\<lparr>mq_k := s1\<rparr>))"
    using MsgQueueSend2_refines[OF assms(2,3) _ assms(7)] assms(9) by simp
  moreover have "MsgQueueSend2_wake ulId (Some a) stMsgLen d sv opt m = MsgQueueSend2 ulId (Some a) stMsgLen d (m\<lparr>mq_k := s1\<rparr>)"
    by (simp add: MsgQueueSend2_wake_def MsgSend_wake_def assms(1))
  ultimately have "mb_sent EVENT_MSG_Q_PRIO_LOW (take (unat stMsgLen) (m_buf m a)) stMsgLen d False (m\<lparr>mq_k := s1\<rparr>) e
      (MsgQueueSend2_wake ulId (Some a) stMsgLen d sv opt m)"
    using assms(5) leD[OF assms(8)] by (simp add: mb_send_post_def)
  then show ?thesis unfolding mb_sent_def Let_def using assms(6,10,11) by simp
qed

theorem msg_sender_waits_again_witness:
  "fst (MsgQueueSend2_wake (boot_id OBJECT_MSGQUEUE) (Some 0) 3 50 0 0 mq_full) = SendBlocked 50 0 0"
proof -
  let ?s = "snd (Schedule_ret (mq_k mq_full))"
  have f: "event_upd 0 g (boot1 h) = boot1 (\<lambda>ev. g (h ev))" for g h by (simp add: boot1_def event_upd_def)
  note k = mq_full_ok(4)[unfolded mq_boot_def msgs.select_convs f]
  have t: "runs (mq_k mq_full) 2" "LW_CPU_GET_CUR_NESTING (mq_k mq_full) = 0" "LW_TCB_GET_CUR (mq_k mq_full) = 2"
    by (simp_all add: k)
  have z: "(k_tcb (mq_k mq_full) 2)\<lparr>TCB_iSchedRet := 0\<rparr> = k_tcb (mq_k mq_full) 2" by (simp add: k boot0_def boot_tcb_def)
  have s: "?s = mq_k mq_full" by (simp add: Schedule_ret_def t(3) Let_def tcb_upd_def z)
  have "MsgWake 50 0 0 (mq_k mq_full) = (WakeDone ERROR_NONE, ?s)"
    by (simp add: MsgWake_def Schedule_ret_def t(3) Let_def) (simp add: k boot0_def boot_tcb_def)
  then have w: "MsgWake 50 0 0 (mq_k mq_full) = (WakeDone ERROR_NONE, mq_k mq_full)" by (simp add: s)
  have h: "msg_handle mq_full (boot_id OBJECT_MSGQUEUE) 0" by (simp add: k handle_boot1)
  have "KERNEL_TIME_GET (mq_k mq_full) = 0" "EVENT_ulOption (k_event (mq_k mq_full) 0) = 0"
    by (simp_all add: k KERNEL_TIME_GET_def boot_event_def boot1_def)
  then show ?thesis using msg_sender_waits_again[OF w, of 0 "boot_id OBJECT_MSGQUEUE" 2 3 0] h t mq_full_ok(1-3)
    by (simp add: mq_boot_ok(6) Let_def)
qed

end
