(* ===== verification/Type_Props.thy ===== *)
theory Type_Props
  imports Sem_Props
begin

text \<open>
  Handles are typed: every semaphore routine checks the class in the handle and the type in
  the event block before it reads or writes anything else, so a handle of another kind of
  object, or of an object that is gone, has no effect.
\<close>

section \<open>What a call expects, and what it answers\<close>

text \<open>The handle of a call that opens an object, the class in the handle and the type of the block.\<close>

fun opens :: "api \<Rightarrow> (ULONG \<times> UINT8 \<times> UINT8) option" where
  "opens (CDelete h) = Some (h, OBJECT_SEM_C, LW_TYPE_EVENT_SEMC)"
| "opens (CPend h d) = Some (h, OBJECT_SEM_C, LW_TYPE_EVENT_SEMC)"
| "opens (CTryPend h) = Some (h, OBJECT_SEM_C, LW_TYPE_EVENT_SEMC)"
| "opens (CPost h) = Some (h, OBJECT_SEM_C, LW_TYPE_EVENT_SEMC)"
| "opens (CRelease h n) = Some (h, OBJECT_SEM_C, LW_TYPE_EVENT_SEMC)"
| "opens (CFlush h) = Some (h, OBJECT_SEM_C, LW_TYPE_EVENT_SEMC)"
| "opens (CClear h) = Some (h, OBJECT_SEM_C, LW_TYPE_EVENT_SEMC)"
| "opens (BDelete h) = Some (h, OBJECT_SEM_B, LW_TYPE_EVENT_SEMB)"
| "opens (BPend h d) = Some (h, OBJECT_SEM_B, LW_TYPE_EVENT_SEMB)"
| "opens (BPendEx h d) = Some (h, OBJECT_SEM_B, LW_TYPE_EVENT_SEMB)"
| "opens (BTryPend h) = Some (h, OBJECT_SEM_B, LW_TYPE_EVENT_SEMB)"
| "opens (BPost h) = Some (h, OBJECT_SEM_B, LW_TYPE_EVENT_SEMB)"
| "opens (BPostEx h m) = Some (h, OBJECT_SEM_B, LW_TYPE_EVENT_SEMB)"
| "opens (BRelease h n) = Some (h, OBJECT_SEM_B, LW_TYPE_EVENT_SEMB)"
| "opens (BFlush h) = Some (h, OBJECT_SEM_B, LW_TYPE_EVENT_SEMB)"
| "opens (BClear h) = Some (h, OBJECT_SEM_B, LW_TYPE_EVENT_SEMB)"
| "opens (MDelete h) = Some (h, OBJECT_SEM_M, LW_TYPE_EVENT_MUTEX)"
| "opens (MPend h d) = Some (h, OBJECT_SEM_M, LW_TYPE_EVENT_MUTEX)"
| "opens (MPost h) = Some (h, OBJECT_SEM_M, LW_TYPE_EVENT_MUTEX)"
| "opens (RwDelete h) = Some (h, OBJECT_SEM_RW, LW_TYPE_EVENT_SEMRW)"
| "opens (RwPendR h d) = Some (h, OBJECT_SEM_RW, LW_TYPE_EVENT_SEMRW)"
| "opens (RwPendW h d) = Some (h, OBJECT_SEM_RW, LW_TYPE_EVENT_SEMRW)"
| "opens (RwPost h) = Some (h, OBJECT_SEM_RW, LW_TYPE_EVENT_SEMRW)"
| "opens _ = None"

text \<open>The code a call returns, unless it blocks or has code behind the scheduling point.\<close>

fun pend_code :: "pend_out \<Rightarrow> ULONG option" where
  "pend_code (Done r) = Some r"
| "pend_code _ = None"

fun post_code :: "post_out \<Rightarrow> ULONG option" where
  "post_code (Posted r) = Some r"
| "post_code _ = None"

fun answer :: "api \<Rightarrow> kernel \<Rightarrow> ULONG option" where
  "answer (CDelete h) s = Some (fst (SemaphoreCDelete h s))"
| "answer (CPend h d) s = pend_code (fst (SemaphoreCPend h d s))"
| "answer (CTryPend h) s = Some (fst (SemaphoreCTryPend h s))"
| "answer (CPost h) s = Some (fst (SemaphoreCPost h s))"
| "answer (CRelease h n) s = Some (fst (fst (SemaphoreCRelease h n True s)))"
| "answer (CFlush h) s = Some (fst (fst (SemaphoreCFlush h True s)))"
| "answer (CClear h) s = Some (fst (SemaphoreCClear h s))"
| "answer (BDelete h) s = Some (fst (SemaphoreBDelete h s))"
| "answer (BPend h d) s = pend_code (fst (SemaphoreBPend h d s))"
| "answer (BPendEx h d) s = pend_code (fst (fst (SemaphoreBPendEx h d True s)))"
| "answer (BTryPend h) s = Some (fst (SemaphoreBTryPend h s))"
| "answer (BPost h) s = Some (fst (SemaphoreBPost h s))"
| "answer (BPostEx h m) s = Some (fst (SemaphoreBPostEx h m s))"
| "answer (BRelease h n) s = Some (fst (fst (SemaphoreBRelease h n True s)))"
| "answer (BFlush h) s = Some (fst (fst (SemaphoreBFlush h True s)))"
| "answer (BClear h) s = Some (fst (SemaphoreBClear h s))"
| "answer (MDelete h) s = Some (fst (SemaphoreMDelete h s))"
| "answer (MPend h d) s = pend_code (fst (SemaphoreMPend h d s))"
| "answer (MPost h) s = post_code (fst (SemaphoreMPost h s))"
| "answer (RwDelete h) s = Some (fst (SemaphoreRWDelete h s))"
| "answer (RwPendR h d) s = pend_code (fst (SemaphoreRWPendR h d s))"
| "answer (RwPendW h d) s = pend_code (fst (SemaphoreRWPendW h d s))"
| "answer (RwPost h) s = post_code (fst (SemaphoreRWPost h s))"
| "answer _ s = None"

section \<open>A handle that does not fit\<close>

text \<open>\<open>untouched s s'\<close>: no event block, wait queue, delay or ready bit has changed.\<close>

definition untouched :: "kernel \<Rightarrow> kernel \<Rightarrow> bool" where
  "untouched s s' \<longleftrightarrow> k_event s' = k_event s \<and> k_delay s' = k_delay s \<and> k_freeEvents s' = k_freeEvents s \<and>
     ready_set s' = ready_set s \<and> (\<forall>e q. waiters s' e q = waiters s e q) \<and> (\<forall>t. tcb_prio s' t = tcb_prio s t)"

lemma untouched_error [simp]: "untouched s (ErrorHandle c s)"
  by (simp add: untouched_def) (simp add: ErrorHandle_def)

lemma check_refused:
  "EventCheckId c ulId s = Inl (r, s1) \<Longrightarrow> r = ERROR_KERNEL_HANDLE_NULL \<and> untouched s s1"
  by (auto simp: EventCheckId_def split: if_splits)

lemma open_refused:
  assumes "\<nexists>e. handle c ty s ulId e"
  shows "\<exists>r s1. EventOpen c ty ulId s = Inl (r, s1) \<and> r \<in> {ERROR_KERNEL_HANDLE_NULL, ERROR_EVENT_TYPE} \<and> untouched s s1"
proof (cases "EventCheckId c ulId s")
  case (Inl a)
  then show ?thesis using check_refused[of c ulId s] by (cases a) (auto simp: EventOpen_def)
next
  case (Inr e)
  then have "Event_Type_Invalid (KERNEL_ENTER s) (ObjectGetIndex ulId) ty"
    using assms by (auto simp: EventCheckId_def handle_def Event_Type_Invalid_def split: if_splits)
  moreover have "untouched s (ErrorHandle_of s ERROR_EVENT_TYPE (KERNEL_EXIT (KERNEL_ENTER s)))"
    by (simp add: untouched_def) (simp add: ready_set_def ErrorHandle_of_def split: option.splits)
  ultimately show ?thesis using Inr by (simp add: EventOpen_def Let_def)
qed

lemmas sem_routines =
  SemaphoreCDelete_def SemaphoreCPend_def SemaphoreCPend_again_def SemaphoreCTryPend_def SemaphoreCPost_def
  SemaphoreCRelease_def SemaphoreCFlush_def SemaphoreCClear_def
  SemaphoreBDelete_def SemaphoreBPend_def SemaphoreBPend_again_def SemaphoreBPendEx_def SemaphoreBPendEx_again_def
  SemaphoreBTryPend_def SemaphoreBPost_def SemaphoreBPostEx_def SemaphoreBRelease_def SemaphoreBFlush_def SemaphoreBClear_def
  SemaphoreMDelete_def SemaphoreMPend_def SemaphoreMPend_again_def SemaphoreMPost_def
  SemaphoreRWDelete_def SemaphoreRWPendR_def SemaphoreRWPendR_again_def SemaphoreRWPendW_def SemaphoreRWPendW_again_def SemaphoreRWPost_def

text \<open>
  C35: A call with a handle that names no object of the kind it wants (another class in the
  handle, an index out of range, or an event block of another type, such as the block of a
  deleted object) returns an error and changes no event block, no wait queue, no delay, no
  priority and no thread's readiness.
\<close>

theorem wrong_handle_refused:
  assumes "opens c = Some (h, cls, ty)" "\<nexists>e. handle cls ty s h e" "k_sysRunning s"
  shows "untouched s (exec c s) \<and>
    (\<exists>r\<in>{ERROR_KERNEL_HANDLE_NULL, ERROR_EVENT_TYPE, ERROR_KERNEL_IN_ISR, ERROR_EVENT_NULL}. answer c s = Some r)"
proof -
  obtain r s1 where o: "EventOpen cls ty h s = Inl (r, s1)" and r: "r \<in> {ERROR_KERNEL_HANDLE_NULL, ERROR_EVENT_TYPE}"
    and u: "untouched s s1" using open_refused[OF assms(2)] by blast
  have ck: "(\<exists>s2. EventCheckId cls h s = Inl (ERROR_KERNEL_HANDLE_NULL, s2) \<and> untouched s s2) \<or> (\<exists>e. EventCheckId cls h s = Inr e)"
    using check_refused[of cls h s] by (cases "EventCheckId cls h s") auto
  show ?thesis using assms(1,3) o r u ck by (cases c) (auto simp: sem_routines)
qed

theorem wrong_handle_refused_witness:
  "untouched (semc_at 0 5) (exec (MPend (boot_id OBJECT_SEM_C) 5) (semc_at 0 5)) \<and>
   untouched boot (exec (CPost (boot_id OBJECT_SEM_C)) boot)"
proof -
  have "\<nexists>e. handle OBJECT_SEM_M LW_TYPE_EVENT_MUTEX (semc_at 0 5) (boot_id OBJECT_SEM_C) e"
    "\<nexists>e. handle OBJECT_SEM_C LW_TYPE_EVENT_SEMC boot (boot_id OBJECT_SEM_C) e"
    by (simp_all add: handle_def boot_id_def ObjectClassOK_Make boot_event_def semc_at_def)
  moreover have run: "k_sysRunning (semc_at 0 5)" by (simp add: semc_at_def)
  ultimately show ?thesis
    using wrong_handle_refused[of "MPend (boot_id OBJECT_SEM_C) 5" _ _ _ "semc_at 0 5"]
      wrong_handle_refused[of "CPost (boot_id OBJECT_SEM_C)" _ _ _ boot] by (simp add: run)
qed

end
