(* ===== verification/Job_Queue.thy ===== *)
theory Job_Queue
  imports Sem_Binary
begin

text \<open>
  Job queues: \<open>LW_JOB_MSG\<close> and \<open>LW_JOB_QUEUE\<close> of k_jobqueue.h and the routines of
  core/_JobQueue.c.  A job queue is a ring buffer of jobs under a spin lock and a binary
  semaphore on which its worker waits.  Everything between \<open>LW_SPIN_LOCK_QUICK\<close> and
  \<open>LW_SPIN_UNLOCK_QUICK\<close> is one definition.
\<close>

section \<open>State\<close>

abbreviation (input) ENOSPC :: ULONG where "ENOSPC \<equiv> 28"
abbreviation (input) ERROR_KERNEL_LOW_MEMORY :: ULONG where "ERROR_KERNEL_LOW_MEMORY \<equiv> 308"
abbreviation (input) LW_JOB_NOPFUNC :: ULONG where "LW_JOB_NOPFUNC \<equiv> 0"
abbreviation (input) LW_OBJECT_HANDLE_INVALID :: ULONG where "LW_OBJECT_HANDLE_INVALID \<equiv> 0"
abbreviation (input) LW_OPTION_OBJECT_GLOBAL :: ULONG where "LW_OPTION_OBJECT_GLOBAL \<equiv> 0x80000000"

text \<open>Functions and their arguments are addresses.  \<open>JOBM_pvArg\<close> is the array of six arguments,
  \<open>JOBQ_pjobmsgQueue\<close> the array of jobs.\<close>

record job =
  JOBM_pfuncFunc :: ULONG
  JOBM_pvArg :: "ULONG list"

record job_queue =
  JOBQ_pjobmsgQueue :: "job list"
  JOBQ_uiIn :: ULONG
  JOBQ_uiOut :: ULONG
  JOBQ_uiCnt :: ULONG
  JOBQ_uiSize :: ULONG
  JOBQ_ulLost :: ULONG
  JOBQ_ulSync :: ULONG

section \<open>The code under the spin lock\<close>

definition JobNext :: "job_queue \<Rightarrow> ULONG \<Rightarrow> ULONG" where
  "JobNext q i = (if i = JOBQ_uiSize q - 1 then 0 else i + 1)"

definition JobPut :: "job \<Rightarrow> job_queue \<Rightarrow> ULONG \<times> job_queue" where
  "JobPut m q =
    (if JOBQ_uiCnt q = JOBQ_uiSize q then (ENOSPC, q\<lparr>JOBQ_ulLost := JOBQ_ulLost q + 1\<rparr>)
     else (ERROR_NONE, q\<lparr>JOBQ_pjobmsgQueue := (JOBQ_pjobmsgQueue q)[unat (JOBQ_uiIn q) := m],
       JOBQ_uiIn := JobNext q (JOBQ_uiIn q), JOBQ_uiCnt := JOBQ_uiCnt q + 1\<rparr>))"

text \<open>One turn of the loop of \<open>_jobQueueExec\<close>: the copy of the job, and the queue without it.\<close>

definition JobTake :: "job_queue \<Rightarrow> (job \<times> job_queue) option" where
  "JobTake q =
    (if JOBQ_uiCnt q = 0 then None
     else Some (JOBQ_pjobmsgQueue q ! unat (JOBQ_uiOut q),
       q\<lparr>JOBQ_uiOut := JobNext q (JOBQ_uiOut q), JOBQ_uiCnt := JOBQ_uiCnt q - 1\<rparr>))"

definition JobReset :: "job_queue \<Rightarrow> job_queue" where
  "JobReset q = q\<lparr>JOBQ_uiIn := 0, JOBQ_uiOut := 0, JOBQ_uiCnt := 0\<rparr>"

text \<open>The condition of the cases of \<open>_jobQueueDel\<close>; no case matches above six.\<close>

definition JobMatch :: "ULONG \<Rightarrow> ULONG \<Rightarrow> ULONG list \<Rightarrow> job \<Rightarrow> bool" where
  "JobMatch uiMatchArgNum pfunc pvArg m \<longleftrightarrow> uiMatchArgNum \<le> 6 \<and>
     (JOBM_pfuncFunc m = pfunc \<or> pfunc = 0) \<and>
     take (unat uiMatchArgNum) (JOBM_pvArg m) = take (unat uiMatchArgNum) pvArg"

text \<open>The loop over the jobs: \<open>i\<close> is the place of \<open>pjobmsg\<close> in the array.\<close>

primrec jobQueueDel_loop :: "nat \<Rightarrow> (job \<Rightarrow> bool) \<Rightarrow> ULONG \<Rightarrow> nat \<Rightarrow> job list \<Rightarrow> job list" where
  "jobQueueDel_loop 0 match uiSize i buf = buf"
| "jobQueueDel_loop (Suc n) match uiSize i buf =
    (let buf' = (if match (buf ! i) then buf[i := (buf ! i)\<lparr>JOBM_pfuncFunc := LW_JOB_NOPFUNC\<rparr>] else buf);
         i' = (if i + 1 > unat (uiSize - 1) then 0 else i + 1)
     in jobQueueDel_loop n match uiSize i' buf')"

definition jobQueueDel :: "ULONG \<Rightarrow> ULONG \<Rightarrow> ULONG list \<Rightarrow> job_queue \<Rightarrow> job_queue" where
  "jobQueueDel uiMatchArgNum pfunc pvArg q = q\<lparr>JOBQ_pjobmsgQueue :=
     jobQueueDel_loop (unat (JOBQ_uiCnt q)) (JobMatch uiMatchArgNum pfunc pvArg) (JOBQ_uiSize q)
       (unat (JOBQ_uiOut q)) (JOBQ_pjobmsgQueue q)\<rparr>"

definition jobQueueLost :: "job_queue \<Rightarrow> ULONG" where
  "jobQueueLost q = JOBQ_ulLost q"

section \<open>The routines\<close>

text \<open>\<open>errno\<close> names the slot that \<open>_ErrorHandle\<close> writes.\<close>

definition errno :: "kernel \<Rightarrow> ULONG" where
  "errno s = (if CPU_ulInterNesting (cur_cpu s) \<noteq> 0
     then CPU_ulInterError (cur_cpu s) (CPU_ulInterNesting (cur_cpu s))
     else case CPU_ptcbTCBCur (cur_cpu s) of
       Some t \<Rightarrow> TCB_ulLastError (k_tcb s t)
     | None \<Rightarrow> k_ulNotRunError s)"

definition JobSync :: "kernel \<Rightarrow> ULONG \<times> kernel" where
  "JobSync s = SemaphoreBCreate (Some ''job_sync'') 0 LW_OPTION_OBJECT_GLOBAL s"

text \<open>\<open>pjobq\<close> is what the kernel heap returned: the uninitialised array, or nothing.\<close>

definition jobQueueCreate :: "ULONG \<Rightarrow> bool \<Rightarrow> job list option \<Rightarrow> kernel \<Rightarrow> job_queue option \<times> kernel" where
  "jobQueueCreate uiQueueSize bNonBlock pjobq s = (case pjobq of
     None \<Rightarrow> (None, ErrorHandle ERROR_KERNEL_LOW_MEMORY s)
   | Some buf \<Rightarrow>
      (let q = \<lparr>JOBQ_pjobmsgQueue = buf, JOBQ_uiIn = 0, JOBQ_uiOut = 0, JOBQ_uiCnt = 0,
                JOBQ_uiSize = uiQueueSize, JOBQ_ulLost = 0, JOBQ_ulSync = LW_OBJECT_HANDLE_INVALID\<rparr>
       in if \<not> bNonBlock then
            (let (h, s1) = JobSync s in
             if h = LW_OBJECT_HANDLE_INVALID then (None, s1) else (Some (q\<lparr>JOBQ_ulSync := h\<rparr>), s1))
          else (Some q, s)))"

definition jobQueueDelete :: "job_queue \<Rightarrow> kernel \<Rightarrow> kernel" where
  "jobQueueDelete q s =
    (if JOBQ_ulSync q \<noteq> 0 then snd (snd (SemaphoreBDelete (JOBQ_ulSync q) s)) else s)"

text \<open>With \<open>bNonBlock\<close> the field \<open>JOBQ_ulSync\<close> is not written.\<close>

definition jobQueueInit :: "job list \<Rightarrow> ULONG \<Rightarrow> bool \<Rightarrow> job_queue \<Rightarrow> kernel \<Rightarrow> ULONG \<times> job_queue \<times> kernel" where
  "jobQueueInit pjobmsg uiQueueSize bNonBlock q s =
    (let q1 = q\<lparr>JOBQ_pjobmsgQueue := pjobmsg, JOBQ_uiIn := 0, JOBQ_uiOut := 0, JOBQ_uiCnt := 0,
                JOBQ_uiSize := uiQueueSize, JOBQ_ulLost := 0\<rparr>
     in if \<not> bNonBlock then
          (let (h, s1) = JobSync s; q2 = q1\<lparr>JOBQ_ulSync := h\<rparr> in
           if h = LW_OBJECT_HANDLE_INVALID then (errno s1, q2, s1) else (ERROR_NONE, q2, s1))
        else (ERROR_NONE, q1, s))"

definition jobQueueFinit :: "job_queue \<Rightarrow> kernel \<Rightarrow> job_queue \<times> kernel" where
  "jobQueueFinit q s =
    (if JOBQ_ulSync q \<noteq> 0
     then (let (r, h, s1) = SemaphoreBDelete (JOBQ_ulSync q) s in (q\<lparr>JOBQ_ulSync := h\<rparr>, s1))
     else (q, s))"

definition jobQueueFlush :: "job_queue \<Rightarrow> kernel \<Rightarrow> job_queue \<times> kernel" where
  "jobQueueFlush q s =
    (let s1 = (if JOBQ_ulSync q \<noteq> 0 then snd (SemaphoreBClear (JOBQ_ulSync q) s) else s)
     in (JobReset q, s1))"

definition jobQueueAdd :: "ULONG \<Rightarrow> ULONG list \<Rightarrow> job_queue \<Rightarrow> kernel \<Rightarrow> ULONG \<times> job_queue \<times> kernel" where
  "jobQueueAdd pfunc pvArg q s =
    (let (r, q1) = JobPut \<lparr>JOBM_pfuncFunc = pfunc, JOBM_pvArg = pvArg\<rparr> q
     in if r \<noteq> ERROR_NONE then (r, q1, s)
        else (ERROR_NONE, q1, if JOBQ_ulSync q1 \<noteq> 0 then snd (SemaphoreBPost (JOBQ_ulSync q1) s) else s))"

text \<open>One turn of the first loop of \<open>_jobQueueExec\<close>: the worker returns, blocks in
  \<open>API_SemaphoreBPend\<close>, leaves with the lock for the second loop (\<open>ExecRun\<close>), or takes another
  turn when it next runs, because there is no job (\<open>ExecAgain\<close>).  \<open>JobWoken\<close> is what follows
  the \<open>Pend\<close>, with the queue as it is then.  \<open>API_SemaphoreBPend\<close> never answers \<open>ThenSafe\<close>.\<close>

datatype exec_out =
    ExecDone ULONG
  | ExecBlocked ULONG ULONG ULONG
  | ExecRun
  | ExecAgain

fun JobWoken :: "job_queue \<Rightarrow> pend_out \<Rightarrow> exec_out" where
  "JobWoken q (Done r) =
    (if r \<noteq> ERROR_NONE then ExecDone ERROR_THREAD_WAIT_TIMEOUT
     else if JOBQ_uiCnt q \<noteq> 0 then ExecRun else ExecAgain)"
| "JobWoken q (Blocked d sv opt) = ExecBlocked d sv opt"
| "JobWoken q (ThenSafe e) = ExecAgain"

definition jobQueueExec_turn :: "ULONG \<Rightarrow> job_queue \<Rightarrow> kernel \<Rightarrow> exec_out \<times> kernel" where
  "jobQueueExec_turn ulTimeout q s =
    (let (r, s1) = SemaphoreBPend (JOBQ_ulSync q) ulTimeout s in (JobWoken q r, s1))"

definition jobQueueExec_begin :: "ULONG \<Rightarrow> job_queue \<Rightarrow> kernel \<Rightarrow> exec_out \<times> kernel" where
  "jobQueueExec_begin ulTimeout q s =
    (if JOBQ_ulSync q \<noteq> 0 then jobQueueExec_turn ulTimeout q s else (ExecRun, s))"

text \<open>What a blocked worker runs when it is switched in again; \<open>ulId\<close> is the handle it waits for.\<close>

definition jobQueueExec_wake ::
  "ULONG \<Rightarrow> ULONG \<Rightarrow> ULONG \<Rightarrow> ULONG \<Rightarrow> job_queue \<Rightarrow> kernel \<Rightarrow> exec_out \<times> kernel" where
  "jobQueueExec_wake ulId d sv opt q s =
    (let (r, s1) = SemaphoreBPend_wake ulId d sv opt s in (JobWoken q r, s1))"

text \<open>The loop.  \<open>call m (q, w)\<close> is the effect of calling the function of \<open>m\<close>, which runs
  without the lock, on the queue and on the rest of the program.\<close>

partial_function (option) jobQueueExec_loop ::
  "(job \<Rightarrow> job_queue \<times> 'w \<Rightarrow> job_queue \<times> 'w) \<Rightarrow> job_queue \<times> 'w \<Rightarrow> (job_queue \<times> 'w) option" where
  "jobQueueExec_loop call qw = (case JobTake (fst qw) of
     None \<Rightarrow> Some qw
   | Some (m, q1) \<Rightarrow> jobQueueExec_loop call
       (if JOBM_pfuncFunc m \<noteq> 0 then call m (q1, snd qw) else (q1, snd qw)))"

end
