(* ===== verification/Job_Ring.thy ===== *)
theory Job_Ring
  imports Job_Queue
begin

text \<open>
  The ring buffer of a job queue is a bounded first-in first-out list.  The locale
  \<open>fifo_buffer\<close> states what the users of such a buffer rely on and derives that every
  history of its operations behaves as on a plain list; the ring of core/_JobQueue.c is
  its interpretation.
\<close>

section \<open>Bounded buffers\<close>

datatype ('m, 'e) bufop = Put 'm | Get | Edit 'e
datatype 'm bufout = Answer ULONG | Got "'m option" | Edited

fun buf_do :: "('m \<Rightarrow> 'q \<Rightarrow> ULONG \<times> 'q) \<Rightarrow> ('q \<Rightarrow> ('m \<times> 'q) option) \<Rightarrow> ('e \<Rightarrow> 'q \<Rightarrow> 'q) \<Rightarrow>
    ('m, 'e) bufop \<Rightarrow> 'q \<Rightarrow> 'm bufout \<times> 'q" where
  "buf_do put get edit (Put m) q = (let (r, q') = put m q in (Answer r, q'))"
| "buf_do put get edit Get q = (case get q of None \<Rightarrow> (Got None, q) | Some (m, q') \<Rightarrow> (Got (Some m), q'))"
| "buf_do put get edit (Edit e) q = (Edited, edit e q)"

text \<open>On a list of at most \<open>cap\<close> messages, with the number of refused ones.\<close>

fun buf_spec :: "nat \<Rightarrow> ('e \<Rightarrow> 'm list \<Rightarrow> 'm list) \<Rightarrow> ('m, 'e) bufop \<Rightarrow> 'm list \<times> ULONG \<Rightarrow> 'm bufout \<times> 'm list \<times> ULONG" where
  "buf_spec cap eff (Put m) (xs, n) =
    (if length xs < cap then (Answer ERROR_NONE, xs @ [m], n) else (Answer ENOSPC, xs, n + 1))"
| "buf_spec cap eff Get (xs, n) = (case xs of [] \<Rightarrow> (Got None, [], n) | x # ys \<Rightarrow> (Got (Some x), ys, n))"
| "buf_spec cap eff (Edit e) (xs, n) = (Edited, eff e xs, n)"

fun history :: "('o \<Rightarrow> 'q \<Rightarrow> 'r \<times> 'q) \<Rightarrow> 'o list \<Rightarrow> 'q \<Rightarrow> 'r list \<times> 'q" where
  "history step [] q = ([], q)"
| "history step (x # xs) q = (let (r, q1) = step x q; (rs, q2) = history step xs q1 in (r # rs, q2))"

locale fifo_buffer =
  fixes ok :: "'q \<Rightarrow> bool" and items :: "'q \<Rightarrow> 'm list" and cap :: "'q \<Rightarrow> nat" and lost :: "'q \<Rightarrow> ULONG"
    and put :: "'m \<Rightarrow> 'q \<Rightarrow> ULONG \<times> 'q" and get :: "'q \<Rightarrow> ('m \<times> 'q) option"
    and edit :: "'e \<Rightarrow> 'q \<Rightarrow> 'q" and eff :: "'e \<Rightarrow> 'm list \<Rightarrow> 'm list"
  assumes put_room: "\<lbrakk>ok q; length (items q) < cap q\<rbrakk> \<Longrightarrow> fst (put m q) = ERROR_NONE \<and>
      items (snd (put m q)) = items q @ [m] \<and> lost (snd (put m q)) = lost q"
    and put_full: "\<lbrakk>ok q; \<not> length (items q) < cap q\<rbrakk> \<Longrightarrow> fst (put m q) = ENOSPC \<and>
      items (snd (put m q)) = items q \<and> lost (snd (put m q)) = lost q + 1"
    and put_ok: "ok q \<Longrightarrow> ok (snd (put m q)) \<and> cap (snd (put m q)) = cap q"
    and get_empty: "\<lbrakk>ok q; items q = []\<rbrakk> \<Longrightarrow> get q = None"
    and get_first: "\<lbrakk>ok q; items q = x # xs\<rbrakk> \<Longrightarrow>
      \<exists>q'. get q = Some (x, q') \<and> ok q' \<and> items q' = xs \<and> cap q' = cap q \<and> lost q' = lost q"
    and edit_ok: "ok q \<Longrightarrow> ok (edit e q) \<and> items (edit e q) = eff e (items q) \<and> cap (edit e q) = cap q \<and> lost (edit e q) = lost q"
begin

definition view :: "'q \<Rightarrow> 'm list \<times> ULONG" where
  "view q = (items q, lost q)"

lemma step:
  assumes q: "ok q"
  shows "fst (buf_do put get edit x q) = fst (buf_spec (cap q) eff x (view q))"
    "view (snd (buf_do put get edit x q)) = snd (buf_spec (cap q) eff x (view q))"
    "ok (snd (buf_do put get edit x q))" "cap (snd (buf_do put get edit x q)) = cap q"
proof -
  let ?r = "buf_do put get edit x q" and ?p = "buf_spec (cap q) eff x (view q)"
  have "fst ?r = fst ?p \<and> view (snd ?r) = snd ?p \<and> ok (snd ?r) \<and> cap (snd ?r) = cap q"
  proof (cases x)
    case (Put m)
    then show ?thesis using put_room[OF q, of m] put_full[OF q, of m] put_ok[OF q, of m]
      by (cases "length (items q) < cap q") (simp_all add: view_def split_beta)
  next
    case Get
    show ?thesis
    proof (cases "items q")
      case Nil
      then show ?thesis using Get get_empty[OF q] q by (simp add: view_def)
    next
      case (Cons y ys)
      then show ?thesis using Get get_first[OF q Cons] by (auto simp: view_def)
    qed
  next
    case (Edit e)
    then show ?thesis using edit_ok[OF q, of e] by (simp add: view_def)
  qed
  then show "fst ?r = fst ?p" "view (snd ?r) = snd ?p" "ok (snd ?r)" "cap (snd ?r) = cap q" by auto
qed

lemma refines:
  assumes "ok q"
  shows "fst (history (buf_do put get edit) xs q) = fst (history (buf_spec (cap q) eff) xs (view q)) \<and>
    view (snd (history (buf_do put get edit) xs q)) = snd (history (buf_spec (cap q) eff) xs (view q)) \<and>
    ok (snd (history (buf_do put get edit) xs q))"
  using assms
proof (induction xs arbitrary: q)
  case (Cons x xs)
  note s = step[OF Cons.prems, of x]
  show ?case using Cons.IH[OF s(3)] s by (simp add: split_beta)
qed simp

end

section \<open>The ring\<close>

definition slot :: "job_queue \<Rightarrow> nat \<Rightarrow> nat" where
  "slot q k = (unat (JOBQ_uiOut q) + k) mod unat (JOBQ_uiSize q)"

definition job_list :: "job_queue \<Rightarrow> job list" where
  "job_list q = map (\<lambda>k. JOBQ_pjobmsgQueue q ! slot q k) [0..<unat (JOBQ_uiCnt q)]"

definition jobq_ok :: "job_queue \<Rightarrow> bool" where
  "jobq_ok q \<longleftrightarrow> length (JOBQ_pjobmsgQueue q) = unat (JOBQ_uiSize q) \<and> JOBQ_uiCnt q \<le> JOBQ_uiSize q \<and>
     unat (JOBQ_uiIn q) = slot q (unat (JOBQ_uiCnt q)) \<and> unat (JOBQ_uiOut q) = slot q 0"

lemma jobq_okD:
  assumes "jobq_ok q"
  shows "length (JOBQ_pjobmsgQueue q) = unat (JOBQ_uiSize q)" "unat (JOBQ_uiCnt q) \<le> unat (JOBQ_uiSize q)"
    "unat (JOBQ_uiIn q) = slot q (unat (JOBQ_uiCnt q))" "unat (JOBQ_uiOut q) = slot q 0"
  using assms by (auto simp: jobq_ok_def word_le_nat_alt)

lemma length_job_list [simp]: "length (job_list q) = unat (JOBQ_uiCnt q)"
  by (simp add: job_list_def)

lemma slot_less: "JOBQ_uiSize q \<noteq> 0 \<Longrightarrow> slot q k < unat (JOBQ_uiSize q)"
  by (simp add: slot_def unat_gt_0)

lemma slot_cong: "\<lbrakk>JOBQ_uiOut q' = JOBQ_uiOut q; JOBQ_uiSize q' = JOBQ_uiSize q\<rbrakk> \<Longrightarrow> slot q' = slot q"
  by (simp add: fun_eq_iff slot_def)

lemma mod_step: "(a mod n + k) mod n = (a + k) mod (n::nat)"
  by (simp add: mod_add_left_eq)

lemma mod_inj:
  assumes "(a + k) mod n = (a + c) mod n" "k < n" "c < (n::nat)" shows "k = c"
proof -
  have "(int a + int k) mod int n = (int a + int c) mod int n" using assms(1) by (metis of_nat_add zmod_int)
  then have "int k mod int n = int c mod int n" by (metis add_diff_cancel_left' mod_diff_left_eq)
  then show ?thesis using assms(2,3) by simp
qed

lemma slot_inj: "\<lbrakk>slot q k = slot q c; k < unat (JOBQ_uiSize q); c < unat (JOBQ_uiSize q)\<rbrakk> \<Longrightarrow> k = c"
  unfolding slot_def by (rule mod_inj)

lemma JobNext_slot:
  assumes "unat i = slot q k" "JOBQ_uiSize q \<noteq> 0" shows "unat (JobNext q i) = slot q (Suc k)"
proof -
  let ?n = "unat (JOBQ_uiSize q)"
  have n: "0 < ?n" using assms(2) by (simp add: unat_gt_0)
  have l: "Suc (unat (JOBQ_uiSize q - 1)) = ?n" using assms(2) by (rule word_pos_Suc_unat)
  have s: "slot q (Suc k) = Suc (unat i) mod ?n" using assms(1) by (simp add: slot_def mod_Suc_eq)
  have b: "unat i < ?n" using slot_less[OF assms(2), of k] assms(1) by simp
  show ?thesis
  proof (cases "i = JOBQ_uiSize q - 1")
    case True
    then show ?thesis using s l by (simp add: JobNext_def)
  next
    case False
    then have "unat i \<noteq> unat (JOBQ_uiSize q - 1)" by (simp add: word_unat_eq_iff)
    then have lt: "Suc (unat i) < ?n" using b l by simp
    have "unat (i + 1) = Suc (unat i)" by (rule unat_add1[where y = "JOBQ_uiSize q"]) (use b in \<open>simp add: word_less_nat_alt\<close>)
    then show ?thesis using False s lt by (simp add: JobNext_def)
  qed
qed

lemma JobPut_ok:
  assumes q: "jobq_ok q"
  shows "jobq_ok (snd (JobPut m q))" "JOBQ_uiSize (snd (JobPut m q)) = JOBQ_uiSize q" "JOBQ_ulSync (snd (JobPut m q)) = JOBQ_ulSync q"
    "length (job_list q) < unat (JOBQ_uiSize q) \<Longrightarrow> fst (JobPut m q) = ERROR_NONE \<and>
       job_list (snd (JobPut m q)) = job_list q @ [m] \<and> JOBQ_ulLost (snd (JobPut m q)) = JOBQ_ulLost q"
    "\<not> length (job_list q) < unat (JOBQ_uiSize q) \<Longrightarrow> fst (JobPut m q) = ENOSPC \<and>
       job_list (snd (JobPut m q)) = job_list q \<and> JOBQ_ulLost (snd (JobPut m q)) = JOBQ_ulLost q + 1"
proof -
  note d = jobq_okD[OF q]
  let ?c = "unat (JOBQ_uiCnt q)" and ?n = "unat (JOBQ_uiSize q)" and ?q = "snd (JobPut m q)"
  show "JOBQ_uiSize ?q = JOBQ_uiSize q" "JOBQ_ulSync ?q = JOBQ_ulSync q" by (simp_all add: JobPut_def)
  have sl: "slot ?q = slot q" by (rule slot_cong) (simp_all add: JobPut_def)
  have full: "JOBQ_uiCnt q = JOBQ_uiSize q \<longleftrightarrow> \<not> ?c < ?n" using d(2) by (auto simp: word_unat_eq_iff)
  have cnt: "unat (JOBQ_uiCnt q + 1) = Suc ?c" if "?c < ?n"
    by (rule unat_add1[where y = "JOBQ_uiSize q"]) (use that in \<open>simp add: word_less_nat_alt\<close>)
  have new: "job_list ?q = job_list q @ [m]" if lt: "?c < ?n"
  proof -
    from lt have nz: "JOBQ_uiSize q \<noteq> 0" by auto
    have i: "unat (JOBQ_uiIn q) < length (JOBQ_pjobmsgQueue q)" using slot_less[OF nz, of ?c] d(1,3) by simp
    have "(JOBQ_pjobmsgQueue q)[unat (JOBQ_uiIn q) := m] ! slot q k = JOBQ_pjobmsgQueue q ! slot q k" if "k < ?c" for k
      using slot_inj[of q k ?c] that lt d(3) by (metis nat_neq_iff nth_list_update_neq order_less_trans)
    then show ?thesis unfolding job_list_def sl using full lt i d(3) cnt[OF lt] by (simp add: JobPut_def)
  qed
  show "length (job_list q) < ?n \<Longrightarrow> fst (JobPut m q) = ERROR_NONE \<and> job_list ?q = job_list q @ [m] \<and> JOBQ_ulLost ?q = JOBQ_ulLost q"
    using new full by (simp add: JobPut_def)
  show "\<not> length (job_list q) < ?n \<Longrightarrow> fst (JobPut m q) = ENOSPC \<and> job_list ?q = job_list q \<and> JOBQ_ulLost ?q = JOBQ_ulLost q + 1"
    using full sl by (simp add: JobPut_def job_list_def)
  show "jobq_ok ?q"
  proof (cases "?c < ?n")
    case True
    then have nz: "JOBQ_uiSize q \<noteq> 0" by auto
    have "unat (JobNext q (JOBQ_uiIn q)) = slot q (Suc ?c)" by (rule JobNext_slot[OF d(3) nz])
    then show ?thesis unfolding jobq_ok_def sl using d True full cnt[OF True] by (simp add: JobPut_def word_le_nat_alt)
  next
    case False
    then show ?thesis using q full unfolding jobq_ok_def sl by (simp add: JobPut_def)
  qed
qed

lemma JobTake_empty: "job_list q = [] \<Longrightarrow> JobTake q = None"
  by (simp add: JobTake_def job_list_def unat_eq_0)

lemma JobTake_ok:
  assumes q: "jobq_ok q" and l: "job_list q = m # ms"
  shows "\<exists>q'. JobTake q = Some (m, q') \<and> jobq_ok q' \<and> job_list q' = ms \<and> JOBQ_uiSize q' = JOBQ_uiSize q
    \<and> JOBQ_ulLost q' = JOBQ_ulLost q \<and> JOBQ_ulSync q' = JOBQ_ulSync q"
proof -
  note d = jobq_okD[OF q]
  let ?c = "unat (JOBQ_uiCnt q)" and ?n = "unat (JOBQ_uiSize q)"
  let ?q = "q\<lparr>JOBQ_uiOut := JobNext q (JOBQ_uiOut q), JOBQ_uiCnt := JOBQ_uiCnt q - 1\<rparr>"
  have c: "JOBQ_uiCnt q \<noteq> 0" using l by (auto simp: job_list_def)
  then have s: "Suc (unat (JOBQ_uiCnt q - 1)) = ?c" by (rule word_pos_Suc_unat)
  have nz: "JOBQ_uiSize q \<noteq> 0" using s d(2) by auto
  have o: "unat (JobNext q (JOBQ_uiOut q)) = slot q 1" using JobNext_slot[OF d(4) nz] by simp
  have sl: "slot ?q k = slot q (Suc k)" for k using o by (simp add: slot_def mod_step)
  have "[0..<Suc c] = 0 # map Suc [0..<c]" for c by (simp add: upt_conv_Cons map_Suc_upt del: upt_Suc)
  then have up: "[0..<?c] = 0 # map Suc [0..<unat (JOBQ_uiCnt q - 1)]" by (simp add: s[symmetric])
  have "job_list q = JOBQ_pjobmsgQueue q ! slot q 0 # job_list ?q"
    by (simp add: job_list_def up sl comp_def)
  then have "JOBQ_pjobmsgQueue q ! unat (JOBQ_uiOut q) = m" "job_list ?q = ms" using l d(4) by auto
  moreover have "jobq_ok ?q"
    using d o s sl[of 0] sl[of "unat (JOBQ_uiCnt q - 1)"] by (simp add: jobq_ok_def word_le_nat_alt)
  ultimately show ?thesis using c by (simp add: JobTake_def)
qed

definition mark :: "(job \<Rightarrow> bool) \<Rightarrow> job \<Rightarrow> job" where
  "mark match m = (if match m then m\<lparr>JOBM_pfuncFunc := LW_JOB_NOPFUNC\<rparr> else m)"

lemma jobQueueDel_loop_ok:
  fixes match :: "job \<Rightarrow> bool"
  assumes "length buf = unat (JOBQ_uiSize q)" "JOBQ_uiSize q \<noteq> 0" "j + n \<le> unat (JOBQ_uiSize q)" "i = slot q j"
  defines "b \<equiv> jobQueueDel_loop n match (JOBQ_uiSize q) i buf"
  shows "length b = length buf \<and> (\<forall>k<unat (JOBQ_uiSize q). b ! slot q k =
    (if j \<le> k \<and> k < j + n then mark match (buf ! slot q k) else buf ! slot q k))"
  unfolding b_def using assms(1,3,4)
proof (induction n arbitrary: j i buf)
  case (Suc n)
  let ?n = "unat (JOBQ_uiSize q)"
  let ?i = "if i + 1 > unat (JOBQ_uiSize q - 1) then 0 else i + 1"
  have l: "Suc (unat (JOBQ_uiSize q - 1)) = ?n" using assms(2) by (rule word_pos_Suc_unat)
  have b: "i < ?n" using slot_less[OF assms(2), of j] Suc.prems(3) by simp
  have i: "?i = slot q (Suc j)"
  proof -
    have "slot q (Suc j) = Suc i mod ?n" using Suc.prems(3) by (simp add: slot_def mod_Suc_eq)
    then show ?thesis using b l by (cases "Suc i = ?n") auto
  qed
  let ?b = "if match (buf ! i) then buf[i := (buf ! i)\<lparr>JOBM_pfuncFunc := LW_JOB_NOPFUNC\<rparr>] else buf"
  have bb: "?b ! slot q k = (if k = j then mark match (buf ! slot q k) else buf ! slot q k)" if "k < ?n" for k
    using slot_inj[of q k j] that Suc.prems b by (auto simp: mark_def nth_list_update)
  have "length ?b = ?n" using Suc.prems(1) by simp
  from Suc.IH[OF this _ i] Suc.prems have
    ih: "length (jobQueueDel_loop n match (JOBQ_uiSize q) ?i ?b) = length buf"
      "\<forall>k<?n. jobQueueDel_loop n match (JOBQ_uiSize q) ?i ?b ! slot q k =
        (if Suc j \<le> k \<and> k < Suc j + n then mark match (?b ! slot q k) else ?b ! slot q k)" by simp_all
  have e: "jobQueueDel_loop (Suc n) match (JOBQ_uiSize q) i buf = jobQueueDel_loop n match (JOBQ_uiSize q) ?i ?b"
    by (simp add: Let_def)
  show ?case unfolding e using ih by (auto simp: bb)
qed auto

lemma jobQueueDel_ok:
  assumes q: "jobq_ok q"
  shows "job_list (jobQueueDel n f args q) = map (mark (JobMatch n f args)) (job_list q)"
    "jobq_ok (jobQueueDel n f args q)" "JOBQ_uiSize (jobQueueDel n f args q) = JOBQ_uiSize q"
    "JOBQ_ulLost (jobQueueDel n f args q) = JOBQ_ulLost q" "JOBQ_ulSync (jobQueueDel n f args q) = JOBQ_ulSync q"
proof -
  note d = jobq_okD[OF q]
  let ?q = "jobQueueDel n f args q"
  show "JOBQ_uiSize ?q = JOBQ_uiSize q" "JOBQ_ulLost ?q = JOBQ_ulLost q" "JOBQ_ulSync ?q = JOBQ_ulSync q"
    by (simp_all add: jobQueueDel_def)
  have s: "slot ?q = slot q" by (rule slot_cong) (simp_all add: jobQueueDel_def)
  have f: "JOBQ_uiCnt ?q = JOBQ_uiCnt q" "JOBQ_uiIn ?q = JOBQ_uiIn q" "JOBQ_uiOut ?q = JOBQ_uiOut q" "JOBQ_uiSize ?q = JOBQ_uiSize q"
    by (simp_all add: jobQueueDel_def)
  have "length (JOBQ_pjobmsgQueue ?q) = length (JOBQ_pjobmsgQueue q) \<and> (\<forall>k<unat (JOBQ_uiCnt q).
      JOBQ_pjobmsgQueue ?q ! slot q k = mark (JobMatch n f args) (JOBQ_pjobmsgQueue q ! slot q k))"
  proof (cases "JOBQ_uiSize q = 0")
    case True
    then have "unat (JOBQ_uiCnt q) = 0" using d(2) by simp
    then show ?thesis by (simp add: jobQueueDel_def)
  next
    case False
    from jobQueueDel_loop_ok[OF d(1) False, of 0 "unat (JOBQ_uiCnt q)" _ "JobMatch n f args"] d(2,4)
    show ?thesis by (auto simp: jobQueueDel_def)
  qed
  then show "job_list ?q = map (mark (JobMatch n f args)) (job_list q)" "jobq_ok ?q"
    using q by (simp_all only: job_list_def s f jobq_ok_def) simp_all
qed

lemma JobReset_ok:
  assumes "jobq_ok q"
  shows "jobq_ok (JobReset q)" "job_list (JobReset q) = []" "JOBQ_uiSize (JobReset q) = JOBQ_uiSize q"
    "JOBQ_ulLost (JobReset q) = JOBQ_ulLost q" "JOBQ_ulSync (JobReset q) = JOBQ_ulSync q"
  using jobq_okD(1)[OF assms] by (simp_all add: jobq_ok_def JobReset_def slot_def job_list_def)

section \<open>The ring is a bounded buffer\<close>

datatype job_change = Flushed | Deleted ULONG ULONG "ULONG list"

fun job_edit :: "job_change \<Rightarrow> job_queue \<Rightarrow> job_queue" where
  "job_edit Flushed q = JobReset q"
| "job_edit (Deleted n f args) q = jobQueueDel n f args q"

fun job_eff :: "job_change \<Rightarrow> job list \<Rightarrow> job list" where
  "job_eff Flushed xs = []"
| "job_eff (Deleted n f args) xs = map (mark (JobMatch n f args)) xs"

abbreviation job_cap :: "job_queue \<Rightarrow> nat" where
  "job_cap q \<equiv> unat (JOBQ_uiSize q)"

interpretation jq: fifo_buffer jobq_ok job_list job_cap JOBQ_ulLost JobPut JobTake job_edit job_eff
proof unfold_locales
  fix q :: job_queue and m :: job and e :: job_change and x :: job and xs :: "job list"
  assume q: "jobq_ok q"
  note p = JobPut_ok[OF q]
  show "length (job_list q) < job_cap q \<Longrightarrow> fst (JobPut m q) = ERROR_NONE \<and>
      job_list (snd (JobPut m q)) = job_list q @ [m] \<and> JOBQ_ulLost (snd (JobPut m q)) = JOBQ_ulLost q" by (rule p(4))
  show "\<not> length (job_list q) < job_cap q \<Longrightarrow> fst (JobPut m q) = ENOSPC \<and>
      job_list (snd (JobPut m q)) = job_list q \<and> JOBQ_ulLost (snd (JobPut m q)) = JOBQ_ulLost q + 1" by (rule p(5))
  show "jobq_ok (snd (JobPut m q)) \<and> job_cap (snd (JobPut m q)) = job_cap q" using p(1,2) by simp
  show "job_list q = [] \<Longrightarrow> JobTake q = None" by (rule JobTake_empty)
  show "job_list q = x # xs \<Longrightarrow> \<exists>q'. JobTake q = Some (x, q') \<and> jobq_ok q' \<and> job_list q' = xs \<and>
      job_cap q' = job_cap q \<and> JOBQ_ulLost q' = JOBQ_ulLost q" using JobTake_ok[OF q] by fastforce
  show "jobq_ok (job_edit e q) \<and> job_list (job_edit e q) = job_eff e (job_list q) \<and>
      job_cap (job_edit e q) = job_cap q \<and> JOBQ_ulLost (job_edit e q) = JOBQ_ulLost q"
    using JobReset_ok[OF q] jobQueueDel_ok[OF q] by (cases e) simp_all
qed

end
