(* ===== verification/Job_Props.thy ===== *)
theory Job_Props
  imports Job_Ring Sem_Props
begin

text \<open>
  What job queues guarantee: the ring is a bounded first-in first-out list, whatever the
  interleaving of its users, and a worker is woken for every job and runs them in order.
\<close>

section \<open>The routines on the list of jobs\<close>

lemma jobq_fresh:
  assumes "length buf = unat n" "JOBQ_pjobmsgQueue q = buf" "JOBQ_uiIn q = 0" "JOBQ_uiOut q = 0" "JOBQ_uiCnt q = 0" "JOBQ_uiSize q = n"
  shows "jobq_ok q" "job_list q = []"
  using assms by (simp_all add: jobq_ok_def slot_def job_list_def)

lemma jobQueueCreate_ok:
  assumes "jobQueueCreate n nb (Some buf) s = (Some q, s')" "length buf = unat n"
  shows "jobq_ok q" "job_list q = []" "JOBQ_uiSize q = n" "JOBQ_ulLost q = 0" "JOBQ_ulSync q = 0 \<longleftrightarrow> nb"
proof -
  have q: "JOBQ_pjobmsgQueue q = buf" "JOBQ_uiIn q = 0" "JOBQ_uiOut q = 0" "JOBQ_uiCnt q = 0" "JOBQ_uiSize q = n"
    "JOBQ_ulLost q = 0" "JOBQ_ulSync q = 0 \<longleftrightarrow> nb"
    using assms(1) by (auto simp: jobQueueCreate_def split_beta Let_def split: if_splits)
  show "jobq_ok q" "job_list q = []" by (rule jobq_fresh[OF assms(2) q(1-5)])+
  show "JOBQ_uiSize q = n" "JOBQ_ulLost q = 0" "JOBQ_ulSync q = 0 \<longleftrightarrow> nb" using q by auto
qed

lemma jobQueueAdd_ok:
  assumes q: "jobq_ok q" and qo: "queue_ok s e" and h: "handle OBJECT_SEM_B LW_TYPE_EVENT_SEMB s (JOBQ_ulSync q) e"
    and sy: "JOBQ_ulSync q \<noteq> 0"
  shows "length (job_list q) < job_cap q \<Longrightarrow> jobQueueAdd f args q s = (ERROR_NONE, q', s') \<Longrightarrow> jobq_ok q' \<and>
      job_list q' = job_list q @ [\<lparr>JOBM_pfuncFunc = f, JOBM_pvArg = args\<rparr>] \<and> queue_ok s' e \<and>
      bsem_of s' e = snd (bsem_post None (bsem_of s e)) \<and>
      (\<forall>t ts. bs_queue (bsem_of s e) = t # ts \<longrightarrow> tcb_status s' t = woken_status LW_THREAD_STATUS_SEM (tcb_status s t))"
    "length (job_list q) < job_cap q \<Longrightarrow> fst (jobQueueAdd f args q s) = ERROR_NONE"
    "\<not> length (job_list q) < job_cap q \<Longrightarrow> jobQueueAdd f args q s = (ENOSPC, q\<lparr>JOBQ_ulLost := JOBQ_ulLost q + 1\<rparr>, s)"
proof -
  let ?m = "\<lparr>JOBM_pfuncFunc = f, JOBM_pvArg = args\<rparr>"
  note p = JobPut_ok[OF q, of ?m]
  have b: "bposted None e False s (SemaphoreBPost2 (JOBQ_ulSync q) False s)"
    using SemaphoreBPost2_refines(1)[OF qo h] by (simp add: bposted_enter)
  show "fst (jobQueueAdd f args q s) = ERROR_NONE" if "length (job_list q) < job_cap q"
    using p(4)[OF that] by (simp add: jobQueueAdd_def split_beta)
  show "jobq_ok q' \<and> job_list q' = job_list q @ [?m] \<and> queue_ok s' e \<and>
      bsem_of s' e = snd (bsem_post None (bsem_of s e)) \<and>
      (\<forall>t ts. bs_queue (bsem_of s e) = t # ts \<longrightarrow> tcb_status s' t = woken_status LW_THREAD_STATUS_SEM (tcb_status s t))"
    if "length (job_list q) < job_cap q" "jobQueueAdd f args q s = (ERROR_NONE, q', s')"
    using p(1,3) p(4)[OF that(1)] that(2) sy b by (auto simp: jobQueueAdd_def split_beta bposted_def SemaphoreBPost_2)
  show "jobQueueAdd f args q s = (ENOSPC, q\<lparr>JOBQ_ulLost := JOBQ_ulLost q + 1\<rparr>, s)" if "\<not> length (job_list q) < job_cap q"
    using p(5)[OF that] by (auto simp: jobQueueAdd_def split_beta JobPut_def)
qed

lemma jobQueueExec_begin_ok:
  fixes d :: ULONG
  assumes qo: "queue_ok s e" and h: "handle OBJECT_SEM_B LW_TYPE_EVENT_SEMB s (JOBQ_ulSync q) e"
    and sy: "JOBQ_ulSync q \<noteq> 0" and n: "LW_CPU_GET_CUR_NESTING s = 0" and t: "runs s t"
  defines "r \<equiv> jobQueueExec_begin d q s" and "a \<equiv> bsem_of s e"
  shows "bs_full a \<Longrightarrow> fst r = (if job_list q = [] then ExecAgain else ExecRun) \<and> bsem_of (snd r) e = a\<lparr>bs_full := False\<rparr>"
    "\<lbrakk>\<not> bs_full a; d = LW_OPTION_NOT_WAIT\<rbrakk> \<Longrightarrow> fst r = ExecDone ERROR_THREAD_WAIT_TIMEOUT \<and> bsem_of (snd r) e = a"
    "\<lbrakk>\<not> bs_full a; d \<noteq> LW_OPTION_NOT_WAIT\<rbrakk> \<Longrightarrow> (\<exists>sv opt. fst r = ExecBlocked d sv opt) \<and>
      bsem_of (snd r) e = bsem_join (by_prio s e) (tcb_prio s) t a \<and> t \<notin> ready_set (snd r)"
proof -
  let ?p = "SemaphoreBPendEx (JOBQ_ulSync q) d False s"
  have r: "r = (JobWoken q (fst (fst ?p)), snd ?p)"
    using sy by (simp add: r_def jobQueueExec_begin_def jobQueueExec_turn_def SemaphoreBPend_Ex)
  have em: "job_list q = [] \<longleftrightarrow> JOBQ_uiCnt q = 0" by (simp add: job_list_def unat_eq_0)
  note p = SemaphoreBPendEx_refines[OF qo h n t, of d False]
  show "bs_full a \<Longrightarrow> fst r = (if job_list q = [] then ExecAgain else ExecRun) \<and> bsem_of (snd r) e = a\<lparr>bs_full := False\<rparr>"
    using p(2) by (simp add: r a_def em bsem_take_def)
  show "\<lbrakk>\<not> bs_full a; d = LW_OPTION_NOT_WAIT\<rbrakk> \<Longrightarrow> fst r = ExecDone ERROR_THREAD_WAIT_TIMEOUT \<and> bsem_of (snd r) e = a"
    using p(3) by (simp add: r a_def)
  show "\<lbrakk>\<not> bs_full a; d \<noteq> LW_OPTION_NOT_WAIT\<rbrakk> \<Longrightarrow> (\<exists>sv opt. fst r = ExecBlocked d sv opt) \<and>
      bsem_of (snd r) e = bsem_join (by_prio s e) (tcb_prio s) t a \<and> t \<notin> ready_set (snd r)"
    using p(4) by (simp add: r a_def)
qed

section \<open>The loop of the worker ends\<close>

lemma jobQueueExec_loop_ends:
  fixes call :: "job \<Rightarrow> job_queue \<times> 'w \<Rightarrow> job_queue \<times> 'w"
  assumes "jobq_ok q" and
    c: "\<And>m q w. jobq_ok q \<Longrightarrow> jobq_ok (fst (call m (q, w))) \<and> length (job_list (fst (call m (q, w)))) \<le> length (job_list q)"
  shows "\<exists>q' w'. jobQueueExec_loop call (q, w) = Some (q', w') \<and> jobq_ok q' \<and> job_list q' = []"
  using assms(1)
proof (induction "length (job_list q)" arbitrary: q w rule: less_induct)
  case less
  show ?case
  proof (cases "job_list q")
    case Nil
    then show ?thesis using JobTake_empty[OF Nil] less.prems by (simp add: jobQueueExec_loop.simps)
  next
    case (Cons m ms)
    obtain q1 where q1: "JobTake q = Some (m, q1)" "jobq_ok q1" "job_list q1 = ms"
      using JobTake_ok[OF less.prems Cons] by auto
    define qw where "qw = (if JOBM_pfuncFunc m \<noteq> 0 then call m (q1, w) else (q1, w))"
    have "jobq_ok (fst qw)" "length (job_list (fst qw)) < length (job_list q)"
      using c[OF q1(2), of m w] q1 Cons by (auto simp: qw_def simp del: length_job_list)
    note ih = less.hyps[OF this(2,1), of "snd qw"]
    have "jobQueueExec_loop call (q, w) = jobQueueExec_loop call qw"
      using q1(1) by (subst jobQueueExec_loop.simps) (simp add: qw_def)
    then show ?thesis using ih by simp
  qed
qed

lemma jobQueueExec_loop_order:
  assumes "jobq_ok q"
  shows "\<exists>q'. jobQueueExec_loop (\<lambda>m (q, w). (q, act m w)) (q, w) =
      Some (q', fold act (filter (\<lambda>m. JOBM_pfuncFunc m \<noteq> 0) (job_list q)) w) \<and> job_list q' = []"
  using assms
proof (induction "job_list q" arbitrary: q w)
  case Nil
  then show ?case using JobTake_empty[of q] by (simp add: jobQueueExec_loop.simps)
next
  case (Cons m ms)
  obtain q1 where q1: "JobTake q = Some (m, q1)" "jobq_ok q1" "job_list q1 = ms"
    using JobTake_ok[OF Cons.prems Cons.hyps(2)[symmetric]] by auto
  from Cons.hyps(1)[OF q1(3)[symmetric] q1(2), of "if JOBM_pfuncFunc m \<noteq> 0 then act m w else w"]
  show ?case using q1(1,3) Cons.hyps(2) by (subst jobQueueExec_loop.simps) (auto simp: Cons.hyps(2)[symmetric] split: if_splits)
qed

section \<open>The ring\<close>

text \<open>
  C36: Whatever the order in which the threads of the system get the spin lock of a job
  queue, its ring behaves as a list of at most \<open>uiQueueSize\<close> jobs: a job is appended or
  refused with \<open>ENOSPC\<close> and counted as lost, the worker takes the oldest, a flush empties the
  list, and a deletion clears the function of the jobs that match and leaves their place.
\<close>

theorem job_ring_is_bounded_fifo:
  assumes "jobQueueCreate n nb (Some buf) s = (Some q, s')" "length buf = unat n"
  shows "fst (history (buf_do JobPut JobTake job_edit) ops q) = fst (history (buf_spec (unat n) job_eff) ops ([], 0)) \<and>
    (job_list (snd (history (buf_do JobPut JobTake job_edit) ops q)),
     jobQueueLost (snd (history (buf_do JobPut JobTake job_edit) ops q))) = snd (history (buf_spec (unat n) job_eff) ops ([], 0))"
  using jq.refines[OF jobQueueCreate_ok(1)[OF assms], of ops] jobQueueCreate_ok(2,3,4)[OF assms]
  by (simp add: jq.view_def jobQueueLost_def)

definition job_of :: "ULONG \<Rightarrow> ULONG \<Rightarrow> job" where
  "job_of f a = \<lparr>JOBM_pfuncFunc = f, JOBM_pvArg = [a, 0, 0, 0, 0, 0]\<rparr>"

definition jobq2 :: job_queue where
  "jobq2 = \<lparr>JOBQ_pjobmsgQueue = [job_of 0 0, job_of 0 0], JOBQ_uiIn = 0, JOBQ_uiOut = 0, JOBQ_uiCnt = 0,
     JOBQ_uiSize = 2, JOBQ_ulLost = 0, JOBQ_ulSync = 0\<rparr>"

theorem job_ring_is_bounded_fifo_witness:
  "fst (history (buf_do JobPut JobTake job_edit)
      [Put (job_of 5 1), Put (job_of 6 2), Put (job_of 7 3), Get, Put (job_of 8 4), Edit (Deleted 1 0 [2]), Get, Get, Get] jobq2) =
    [Answer ERROR_NONE, Answer ERROR_NONE, Answer ENOSPC, Got (Some (job_of 5 1)), Answer ERROR_NONE, Edited,
     Got (Some (job_of 0 2)), Got (Some (job_of 8 4)), Got None]"
  using job_ring_is_bounded_fifo[of 2 True "[job_of 0 0, job_of 0 0]" boot jobq2 boot
      "[Put (job_of 5 1), Put (job_of 6 2), Put (job_of 7 3), Get, Put (job_of 8 4), Edit (Deleted 1 0 [2]), Get, Get, Get]"]
  by (simp add: jobQueueCreate_def jobq2_def job_of_def mark_def JobMatch_def)

section \<open>The worker\<close>

text \<open>
  C37: A job that is accepted goes behind the others and is signalled: the first thread that
  waits for the queue is woken, and when nobody waits the semaphore is full.  A worker that
  finds the semaphore full goes on, or waits again when there is no job; one that finds it
  empty is turned away or blocks.  The loop of the worker calls the functions of all jobs in
  order and ends with an empty queue; it ends too when the functions use the queue, as long
  as they leave it no longer than they found it.
\<close>

theorem job_worker_gets_every_job:
  fixes call :: "job \<Rightarrow> job_queue \<times> 'w \<Rightarrow> job_queue \<times> 'w" and act :: "job \<Rightarrow> 'v \<Rightarrow> 'v"
  assumes q: "jobq_ok q" and s: "queue_ok s e" "handle OBJECT_SEM_B LW_TYPE_EVENT_SEMB s (JOBQ_ulSync q) e"
    and n: "LW_CPU_GET_CUR_NESTING s = 0" "runs s t" and sy: "JOBQ_ulSync q \<noteq> 0"
  shows "(case jobQueueAdd f args q s of (r, q', s') \<Rightarrow>
      if length (job_list q) < unat (JOBQ_uiSize q)
      then r = ERROR_NONE \<and> job_list q' = job_list q @ [\<lparr>JOBM_pfuncFunc = f, JOBM_pvArg = args\<rparr>] \<and>
        (case bs_queue (bsem_of s e) of
           [] \<Rightarrow> bs_full (bsem_of s' e)
         | u # us \<Rightarrow> bs_queue (bsem_of s' e) = us \<and> tcb_status s' u = woken_status LW_THREAD_STATUS_SEM (tcb_status s u))
      else r = ENOSPC \<and> q' = q\<lparr>JOBQ_ulLost := JOBQ_ulLost q + 1\<rparr> \<and> s' = s) \<and>
    (case jobQueueExec_begin d q s of (x, s') \<Rightarrow>
      if bs_full (bsem_of s e)
      then x = (if job_list q = [] then ExecAgain else ExecRun) \<and> \<not> bs_full (bsem_of s' e)
      else if d = LW_OPTION_NOT_WAIT then x = ExecDone ERROR_THREAD_WAIT_TIMEOUT
      else (\<exists>sv opt. x = ExecBlocked d sv opt) \<and> t \<in> set (bs_queue (bsem_of s' e)) \<and> t \<notin> ready_set s') \<and>
    (\<exists>q'. jobQueueExec_loop (\<lambda>m (q, w). (q, act m w)) (q, v) =
        Some (q', fold act (filter (\<lambda>m. JOBM_pfuncFunc m \<noteq> 0) (job_list q)) v) \<and> job_list q' = []) \<and>
    ((\<forall>m q w. jobq_ok q \<longrightarrow> jobq_ok (fst (call m (q, w))) \<and> length (job_list (fst (call m (q, w)))) \<le> length (job_list q)) \<longrightarrow>
      (\<exists>q' w'. jobQueueExec_loop call (q, w) = Some (q', w') \<and> job_list q' = []))"
proof (intro conjI impI)
  let ?a = "bsem_of s e"
  show "case jobQueueAdd f args q s of (r, q', s') \<Rightarrow>
      if length (job_list q) < unat (JOBQ_uiSize q)
      then r = ERROR_NONE \<and> job_list q' = job_list q @ [\<lparr>JOBM_pfuncFunc = f, JOBM_pvArg = args\<rparr>] \<and>
        (case bs_queue ?a of
           [] \<Rightarrow> bs_full (bsem_of s' e)
         | u # us \<Rightarrow> bs_queue (bsem_of s' e) = us \<and> tcb_status s' u = woken_status LW_THREAD_STATUS_SEM (tcb_status s u))
      else r = ENOSPC \<and> q' = q\<lparr>JOBQ_ulLost := JOBQ_ulLost q + 1\<rparr> \<and> s' = s"
    using jobQueueAdd_ok[OF q s sy, of f args]
    by (cases "jobQueueAdd f args q s") (auto simp: bsem_post_def split: list.splits)
  show "case jobQueueExec_begin d q s of (x, s') \<Rightarrow>
      if bs_full ?a
      then x = (if job_list q = [] then ExecAgain else ExecRun) \<and> \<not> bs_full (bsem_of s' e)
      else if d = LW_OPTION_NOT_WAIT then x = ExecDone ERROR_THREAD_WAIT_TIMEOUT
      else (\<exists>sv opt. x = ExecBlocked d sv opt) \<and> t \<in> set (bs_queue (bsem_of s' e)) \<and> t \<notin> ready_set s'"
    using jobQueueExec_begin_ok[OF s sy n, of d] by (auto simp: bsem_join_def enqueue_def)
  show "\<exists>q'. jobQueueExec_loop (\<lambda>m (q, w). (q, act m w)) (q, v) =
      Some (q', fold act (filter (\<lambda>m. JOBM_pfuncFunc m \<noteq> 0) (job_list q)) v) \<and> job_list q' = []"
    by (rule jobQueueExec_loop_order[OF q])
  show "\<exists>q' w'. jobQueueExec_loop call (q, w) = Some (q', w') \<and> job_list q' = []"
    if "\<forall>m q w. jobq_ok q \<longrightarrow> jobq_ok (fst (call m (q, w))) \<and> length (job_list (fst (call m (q, w)))) \<le> length (job_list q)"
    using jobQueueExec_loop_ends[OF q, of call w] that by blast
qed

text \<open>A queue of capacity two on the semaphore of block 0, with one job.\<close>

definition jobq_sync :: job_queue where
  "jobq_sync = snd (JobPut (job_of 5 1) (jobq2\<lparr>JOBQ_ulSync := boot_id OBJECT_SEM_B\<rparr>))"

lemma jobq_sync_ok: "jobq_ok jobq_sync" "job_list jobq_sync = [job_of 5 1]" "JOBQ_ulSync jobq_sync = boot_id OBJECT_SEM_B"
  "JOBQ_uiSize jobq_sync = 2" "boot_id OBJECT_SEM_B \<noteq> 0"
proof -
  let ?q = "jobq2\<lparr>JOBQ_ulSync := boot_id OBJECT_SEM_B\<rparr>"
  have f: "jobq_ok ?q" "job_list ?q = []" by (rule jobq_fresh[of _ 2]; simp add: jobq2_def)+
  note p = JobPut_ok[OF f(1), of "job_of 5 1", folded jobq_sync_def]
  show "jobq_ok jobq_sync" "JOBQ_ulSync jobq_sync = boot_id OBJECT_SEM_B" "JOBQ_uiSize jobq_sync = 2"
    using p(1-3) by (simp_all add: jobq2_def)
  show "job_list jobq_sync = [job_of 5 1]" using p(4) f(2) by (simp add: jobq2_def)
  show "boot_id OBJECT_SEM_B \<noteq> 0" by (simp add: boot_id_def MakeObjectId_def)
qed

lemma jobq_sync_handle:
  "handle OBJECT_SEM_B LW_TYPE_EVENT_SEMB (semb_at n m) (JOBQ_ulSync jobq_sync) 0" "JOBQ_ulSync jobq_sync \<noteq> 0"
  using semb_at_ok(2) jobq_sync_ok(3,5) by simp_all

theorem job_worker_gets_every_job_witness:
  "fst (jobQueueAdd 6 [2, 0, 0, 0, 0, 0] jobq_sync (semb_at 0 0)) = ERROR_NONE \<and>
   fst (jobQueueExec_begin 7 jobq_sync (semb_at 1 0)) = ExecRun \<and>
   (\<exists>q'. jobQueueExec_loop (\<lambda>m (q, w). (q, w @ [JOBM_pfuncFunc m])) (jobq_sync, []) = Some (q', [5]) \<and> job_list q' = [])"
  using job_worker_gets_every_job[OF jobq_sync_ok(1) semb_at_ok(1)[where n = 0 and m = 0] jobq_sync_handle(1) semb_at_ok(4,5) jobq_sync_handle(2),
      where act = "\<lambda>m w. w @ [JOBM_pfuncFunc m]" and v = "[]" and f = 6 and args = "[2, 0, 0, 0, 0, 0]"
        and d = 7 and call = "\<lambda>m qw. qw" and w = "()"]
    job_worker_gets_every_job[OF jobq_sync_ok(1) semb_at_ok(1)[where n = 1 and m = 0] jobq_sync_handle(1) semb_at_ok(4,5) jobq_sync_handle(2), where d = 7 and f = 6 and args = "[]" and act = "\<lambda>m w. w" and v = "()" and call = "\<lambda>m qw. qw" and w = "()"]
  by (simp add: jobq_sync_ok semb_at_ok(3) job_of_def split_beta)

end
