(* ===== verification/Timer.thy ===== *)
theory Timer
  imports Event_Api
begin

text \<open>
  Software timers: \<open>LW_CLASS_TIMER\<close> of k_class.h, the pool of control blocks
  (list/listTimer.c, core/_TimerInit.c), the routines of interface/Timer*.c, and the two
  services that let timers fire: \<open>API_TimerHTicks\<close>, called from the interrupt of the fast
  timer, and the thread \<open>_ITimerThread\<close>.  Each service passes over its own delta queue; it
  leaves the kernel lock for every callback, so a pass is a sequence of turns between which
  anything may happen to the timers.
\<close>

section \<open>State\<close>

abbreviation (input) LW_CFG_MAX_TIMERS :: nat where "LW_CFG_MAX_TIMERS \<equiv> 50"
abbreviation (input) OBJECT_TIMER :: UINT8 where "OBJECT_TIMER \<equiv> 14"
abbreviation (input) LW_TYPE_TIMER_UNUSED :: UINT8 where "LW_TYPE_TIMER_UNUSED \<equiv> 0"
abbreviation (input) LW_TYPE_TIMER_ITIMER :: UINT8 where "LW_TYPE_TIMER_ITIMER \<equiv> 1"
abbreviation (input) LW_TYPE_TIMER_HTIMER :: UINT8 where "LW_TYPE_TIMER_HTIMER \<equiv> 2"
abbreviation (input) LW_TIMER_STATUS_RUNNING :: UINT8 where "LW_TIMER_STATUS_RUNNING \<equiv> 1"
abbreviation (input) LW_TIMER_STATUS_STOP :: UINT8 where "LW_TIMER_STATUS_STOP \<equiv> 0"
abbreviation (input) LW_OPTION_ITIMER :: ULONG where "LW_OPTION_ITIMER \<equiv> 1"
abbreviation (input) LW_OPTION_AUTO_RESTART :: ULONG where "LW_OPTION_AUTO_RESTART \<equiv> 1"
abbreviation (input) CLOCK_REALTIME :: ULONG where "CLOCK_REALTIME \<equiv> 0"
abbreviation (input) ERROR_TIMER_FULL :: ULONG where "ERROR_TIMER_FULL \<equiv> 3000"
abbreviation (input) ERROR_TIMER_NULL :: ULONG where "ERROR_TIMER_NULL \<equiv> 3001"
abbreviation (input) ERROR_TIMER_CALLBACK_NULL :: ULONG where "ERROR_TIMER_CALLBACK_NULL \<equiv> 3002"
abbreviation (input) ERROR_TIMER_TIME :: ULONG where "ERROR_TIMER_TIME \<equiv> 3004"

text \<open>The wakeup node of a timer is kept by its line: \<open>TIMER_ulCounter\<close> is \<open>WUN_ulCounter\<close>.\<close>

record timer =
  TIMER_ucType :: UINT8
  TIMER_ulCounterSave :: ULONG
  TIMER_ulOption :: ULONG
  TIMER_ucStatus :: UINT8
  TIMER_cbRoutine :: ULONG
  TIMER_pvArg :: ULONG
  TIMER_ulThreadId :: ULONG
  TIMER_u64Overrun :: "64 word"
  TIMER_clockid :: ULONG
  TIMER_pvTimerfd :: ULONG
  TIMER_cTmrName :: string

record timers =
  tm_k :: kernel
  tm_tmr :: "nat \<Rightarrow> timer"             \<comment> \<open>\<open>_K_tmrBuffer\<close>\<close>
  tm_wuH :: "nat wakeup"               \<comment> \<open>\<open>_K_wuHTmr\<close>\<close>
  tm_wuI :: "nat wakeup"               \<comment> \<open>\<open>_K_wuITmr\<close>\<close>
  tm_free :: "nat list"                \<comment> \<open>free list of \<open>_K_resrcTmr\<close>\<close>
  tm_resUsed :: nat
  tm_resMaxUsed :: nat

datatype tline = HTmr | ITmr

definition line_of :: "UINT8 \<Rightarrow> tline" where
  "line_of ucType = (if ucType = LW_TYPE_TIMER_ITIMER then ITmr else HTmr)"

fun tm_wu :: "tline \<Rightarrow> timers \<Rightarrow> nat wakeup" where
  "tm_wu HTmr s = tm_wuH s"
| "tm_wu ITmr s = tm_wuI s"

fun wu_map :: "tline \<Rightarrow> (nat wakeup \<Rightarrow> nat wakeup) \<Rightarrow> timers \<Rightarrow> timers" where
  "wu_map HTmr f s = s\<lparr>tm_wuH := f (tm_wuH s)\<rparr>"
| "wu_map ITmr f s = s\<lparr>tm_wuI := f (tm_wuI s)\<rparr>"

definition tmr_upd :: "nat \<Rightarrow> (timer \<Rightarrow> timer) \<Rightarrow> timers \<Rightarrow> timers" where
  "tmr_upd t f s = s\<lparr>tm_tmr := (tm_tmr s)(t := f (tm_tmr s t))\<rparr>"

definition tk_upd :: "(kernel \<Rightarrow> kernel) \<Rightarrow> timers \<Rightarrow> timers" where
  "tk_upd f s = s\<lparr>tm_k := f (tm_k s)\<rparr>"

definition set_counter :: "nat \<Rightarrow> ULONG \<Rightarrow> nat wakeup \<Rightarrow> nat wakeup" where
  "set_counter t v w = w\<lparr>WUN_ulCounter := (WUN_ulCounter w)(t := v)\<rparr>"

text \<open>The two macros that select the line by the type of the timer.\<close>

definition TimerDel :: "nat \<Rightarrow> timers \<Rightarrow> timers" where
  "TimerDel t s = wu_map (line_of (TIMER_ucType (tm_tmr s t))) (WakeupDel t) s"

definition TimerAdd :: "nat \<Rightarrow> ULONG \<Rightarrow> timers \<Rightarrow> timers" where
  "TimerAdd t ulCounter s =
     wu_map (line_of (TIMER_ucType (tm_tmr s t))) (\<lambda>w. WakeupAdd t (set_counter t ulCounter w)) s"

section \<open>The pool\<close>

definition Timer_Index_Invalid :: "UINT16 \<Rightarrow> bool" where
  "Timer_Index_Invalid usIndex \<longleftrightarrow> unat usIndex \<ge> LW_CFG_MAX_TIMERS"

definition Timer_Type_Invalid :: "timers \<Rightarrow> UINT16 \<Rightarrow> bool" where
  "Timer_Type_Invalid s usIndex \<longleftrightarrow> TIMER_ucType (tm_tmr s (unat usIndex)) = LW_TYPE_TIMER_UNUSED"

definition Allocate_Timer_Object :: "timers \<Rightarrow> nat option \<times> timers" where
  "Allocate_Timer_Object s = (case tm_free s of
     [] \<Rightarrow> (None, s)
   | t # ts \<Rightarrow>
       (let s1 = s\<lparr>tm_free := ts, tm_resUsed := tm_resUsed s + 1\<rparr>;
            s2 = (if tm_resUsed s1 > tm_resMaxUsed s1 then s1\<lparr>tm_resMaxUsed := tm_resUsed s1\<rparr> else s1)
        in (Some t, s2)))"

definition Free_Timer_Object :: "nat \<Rightarrow> timers \<Rightarrow> timers" where
  "Free_Timer_Object t s = s\<lparr>tm_free := tm_free s @ [t], tm_resUsed := tm_resUsed s - 1\<rparr>"

definition TimerInit :: "timers \<Rightarrow> timers" where
  "TimerInit s = s\<lparr>
     tm_tmr := (\<lambda>t. if t < LW_CFG_MAX_TIMERS
       then (tm_tmr s t)\<lparr>TIMER_ucType := LW_TYPE_TIMER_UNUSED\<rparr> else tm_tmr s t),
     tm_free := [0..<LW_CFG_MAX_TIMERS], tm_resUsed := 0, tm_resMaxUsed := 0,
     tm_wuH := (tm_wuH s)\<lparr>WU_line := [], WU_plineOp := None\<rparr>,
     tm_wuI := (tm_wuI s)\<lparr>WU_line := [], WU_plineOp := None\<rparr>\<rparr>"

section \<open>The routines\<close>

definition TimerOpen :: "ULONG \<Rightarrow> timers \<Rightarrow> (ULONG \<times> timers) + (nat \<times> timers)" where
  "TimerOpen ulId s =
    (if \<not> ObjectClassOK ulId OBJECT_TIMER
       then Inl (ERROR_KERNEL_HANDLE_NULL, tk_upd (ErrorHandle ERROR_KERNEL_HANDLE_NULL) s)
     else if Timer_Index_Invalid (ObjectGetIndex ulId)
       then Inl (ERROR_KERNEL_HANDLE_NULL, tk_upd (ErrorHandle ERROR_KERNEL_HANDLE_NULL) s)
     else let s1 = tk_upd KERNEL_ENTER s in
       if Timer_Type_Invalid s1 (ObjectGetIndex ulId)
       then Inl (ERROR_TIMER_NULL, tk_upd (\<lambda>k. ErrorHandle_of (tm_k s) ERROR_TIMER_NULL (KERNEL_EXIT k)) s1)
       else Inr (unat (ObjectGetIndex ulId), s1))"

definition TimerCreate :: "string option \<Rightarrow> ULONG \<Rightarrow> bool \<Rightarrow> timers \<Rightarrow> (ULONG \<times> ULONG option) \<times> timers" where
  "TimerCreate pcName ulOption pulId s =
    (if LW_CPU_GET_CUR_NESTING (tm_k s) \<noteq> 0 then ((0, None), tk_upd (ErrorHandle ERROR_KERNEL_IN_ISR) s)
     else if Object_Name_Invalid pcName then ((0, None), tk_upd (ErrorHandle ERROR_KERNEL_PNAME_TOO_LONG) s)
     else let (ptmr, s1) = Allocate_Timer_Object (tk_upd KERNEL_ENTER s); s2 = tk_upd KERNEL_EXIT s1 in
       case ptmr of
         None \<Rightarrow> ((0, None), tk_upd (ErrorHandle_of (tm_k s) ERROR_TIMER_FULL) s2)
       | Some t \<Rightarrow>
          (let ty = (if ulOption AND LW_OPTION_ITIMER \<noteq> 0 then LW_TYPE_TIMER_ITIMER else LW_TYPE_TIMER_HTIMER);
               s3 = tmr_upd t (\<lambda>x. x\<lparr>TIMER_cTmrName := event_name pcName, TIMER_ucType := ty,
                 TIMER_ulCounterSave := 0, TIMER_ulOption := 0, TIMER_ucStatus := LW_TIMER_STATUS_STOP,
                 TIMER_cbRoutine := 0, TIMER_pvArg := 0, TIMER_ulThreadId := 0, TIMER_u64Overrun := 0,
                 TIMER_clockid := CLOCK_REALTIME, TIMER_pvTimerfd := 0\<rparr>) s2;
               s4 = wu_map (line_of ty) (\<lambda>w. w\<lparr>WUN_ulCounter := (WUN_ulCounter w)(t := 0),
                 WUN_bInQ := (WUN_bInQ w)(t := False)\<rparr>) s3;
               ulId = MakeObjectId OBJECT_TIMER LW_CFG_PROCESSOR_NUMBER (of_nat t)
           in ((ulId, outp pulId ulId), s4)))"

definition TimerDelete :: "ULONG \<Rightarrow> timers \<Rightarrow> ULONG \<times> ULONG \<times> timers" where
  "TimerDelete ulId s =
    (if LW_CPU_GET_CUR_NESTING (tm_k s) \<noteq> 0
     then (ERROR_KERNEL_IN_ISR, ulId, tk_upd (ErrorHandle ERROR_KERNEL_IN_ISR) s)
     else case TimerOpen ulId s of
       Inl (r, s1) \<Rightarrow> (r, ulId, s1)
     | Inr (t, s1) \<Rightarrow>
        (let s2 = (if TIMER_ucStatus (tm_tmr s1 t) = LW_TIMER_STATUS_STOP then s1
                   else let s' = TimerDel t (tmr_upd t (\<lambda>x. x\<lparr>TIMER_ucStatus := LW_TIMER_STATUS_STOP\<rparr>) s1)
                        in wu_map (line_of (TIMER_ucType (tm_tmr s' t))) (set_counter t 0) s');
             s3 = tmr_upd t (\<lambda>x. x\<lparr>TIMER_ucType := LW_TYPE_TIMER_UNUSED\<rparr>) s2
         in (ERROR_NONE, 0, tk_upd KERNEL_EXIT (Free_Timer_Object t s3))))"

definition TimerStartEx :: "ULONG \<Rightarrow> ULONG \<Rightarrow> ULONG \<Rightarrow> ULONG \<Rightarrow> ULONG \<Rightarrow> ULONG \<Rightarrow> timers \<Rightarrow> ULONG \<times> timers" where
  "TimerStartEx ulId ulInitCounter ulCounter ulOption cbTimerRoutine pvArg s =
    (if cbTimerRoutine = 0
       then (ERROR_TIMER_CALLBACK_NULL, tk_upd (ErrorHandle ERROR_TIMER_CALLBACK_NULL) s)
     else if ulInitCounter = 0 then (ERROR_TIMER_TIME, tk_upd (ErrorHandle ERROR_TIMER_TIME) s)
     else if ulOption AND LW_OPTION_AUTO_RESTART \<noteq> 0 \<and> ulCounter = 0
       then (ERROR_TIMER_TIME, tk_upd (ErrorHandle ERROR_TIMER_TIME) s)
     else case TimerOpen ulId s of
       Inl r \<Rightarrow> r
     | Inr (t, s1) \<Rightarrow>
        (let s2 = (if TIMER_ucStatus (tm_tmr s1 t) = LW_TIMER_STATUS_RUNNING then TimerDel t s1 else s1);
             s3 = tmr_upd t (\<lambda>x. x\<lparr>TIMER_ulCounterSave := ulCounter, TIMER_ulOption := ulOption,
               TIMER_ucStatus := LW_TIMER_STATUS_RUNNING, TIMER_cbRoutine := cbTimerRoutine,
               TIMER_pvArg := pvArg, TIMER_u64Overrun := 0\<rparr>) s2;
             s4 = TimerAdd t ulInitCounter s3
         in (ERROR_NONE, tk_upd KERNEL_EXIT s4)))"

definition TimerStart :: "ULONG \<Rightarrow> ULONG \<Rightarrow> ULONG \<Rightarrow> ULONG \<Rightarrow> ULONG \<Rightarrow> timers \<Rightarrow> ULONG \<times> timers" where
  "TimerStart ulId ulCounter ulOption cbTimerRoutine pvArg s =
     TimerStartEx ulId ulCounter ulCounter ulOption cbTimerRoutine pvArg s"

definition TimerReset :: "ULONG \<Rightarrow> timers \<Rightarrow> ULONG \<times> timers" where
  "TimerReset ulId s = (case TimerOpen ulId s of
     Inl r \<Rightarrow> r
   | Inr (t, s1) \<Rightarrow>
      if TIMER_ucStatus (tm_tmr s1 t) = LW_TIMER_STATUS_STOP
      then (ERROR_TIMER_TIME, tk_upd (\<lambda>k. ErrorHandle_of (tm_k s) ERROR_TIMER_TIME (KERNEL_EXIT k)) s1)
      else (let s2 = TimerDel t s1; s3 = TimerAdd t (TIMER_ulCounterSave (tm_tmr s2 t)) s2
            in (ERROR_NONE, tk_upd KERNEL_EXIT s3)))"

definition TimerCancel :: "ULONG \<Rightarrow> timers \<Rightarrow> ULONG \<times> timers" where
  "TimerCancel ulId s = (case TimerOpen ulId s of
     Inl r \<Rightarrow> r
   | Inr (t, s1) \<Rightarrow>
      if TIMER_ucStatus (tm_tmr s1 t) = LW_TIMER_STATUS_STOP
      then (ERROR_TIMER_TIME, tk_upd (\<lambda>k. ErrorHandle_of (tm_k s) ERROR_TIMER_TIME (KERNEL_EXIT k)) s1)
      else (let s2 = TimerDel t (tmr_upd t (\<lambda>x. x\<lparr>TIMER_ucStatus := LW_TIMER_STATUS_STOP\<rparr>) s1);
                s3 = wu_map (line_of (TIMER_ucType (tm_tmr s2 t))) (set_counter t 0) s2
            in (ERROR_NONE, tk_upd KERNEL_EXIT s3)))"

definition TimerStatusEx :: "ULONG \<Rightarrow> bool \<Rightarrow> bool \<Rightarrow> bool \<Rightarrow> bool \<Rightarrow> bool \<Rightarrow> timers \<Rightarrow>
    (ULONG \<times> bool option \<times> ULONG option \<times> ULONG option \<times> ULONG option \<times> ULONG option) \<times> timers" where
  "TimerStatusEx ulId pbTimerRunning pulOption pulCounter pulInterval pclockid s = (case TimerOpen ulId s of
     Inl (r, s1) \<Rightarrow> ((r, None, None, None, None, None), s1)
   | Inr (t, s1) \<Rightarrow>
      (let x = tm_tmr s1 t; run = (TIMER_ucStatus x = LW_TIMER_STATUS_RUNNING) in
       ((ERROR_NONE, outp pbTimerRunning run, outp pulOption (TIMER_ulOption x),
         outp pulCounter (if run then WakeupStatus (tm_wu (line_of (TIMER_ucType x)) s1) t else 0),
         outp pulInterval (TIMER_ulCounterSave x), outp pclockid (TIMER_clockid x)),
        tk_upd KERNEL_EXIT s1)))"

definition TimerStatus :: "ULONG \<Rightarrow> bool \<Rightarrow> bool \<Rightarrow> bool \<Rightarrow> bool \<Rightarrow> timers \<Rightarrow>
    (ULONG \<times> bool option \<times> ULONG option \<times> ULONG option \<times> ULONG option \<times> ULONG option) \<times> timers" where
  "TimerStatus ulId pbTimerRunning pulOption pulCounter pulInterval s =
     TimerStatusEx ulId pbTimerRunning pulOption pulCounter pulInterval False s"

definition TimerGetName :: "ULONG \<Rightarrow> bool \<Rightarrow> timers \<Rightarrow> (ULONG \<times> string option) \<times> timers" where
  "TimerGetName ulId pcName s =
    (if LW_CPU_GET_CUR_NESTING (tm_k s) \<noteq> 0 then ((ERROR_KERNEL_IN_ISR, None), tk_upd (ErrorHandle ERROR_KERNEL_IN_ISR) s)
     else if \<not> pcName then ((ERROR_KERNEL_PNAME_NULL, None), tk_upd (ErrorHandle ERROR_KERNEL_PNAME_NULL) s)
     else case TimerOpen ulId s of
       Inl (r, s1) \<Rightarrow> ((r, None), s1)
     | Inr (t, s1) \<Rightarrow> ((ERROR_NONE, Some (TIMER_cTmrName (tm_tmr s1 t))), tk_upd KERNEL_EXIT s1))"

section \<open>The services\<close>

text \<open>
  One turn of the loop between \<open>__WAKEUP_PASS_FIRST\<close> and the callback, with \<open>k\<close> ticks left:
  the timer that fires, its routine and argument, and the ticks left then; or nothing, when
  the pass is over.
\<close>

definition TimerPass_turn :: "tline \<Rightarrow> ULONG \<Rightarrow> timers \<Rightarrow> (nat \<times> ULONG \<times> ULONG \<times> ULONG) option \<times> timers" where
  "TimerPass_turn L ulCounter s = (case WU_plineOp (tm_wu L s) of
     None \<Rightarrow> (None, s)
   | Some t \<Rightarrow>
      (let (w, r) = WAKEUP_PASS_FIRST t ulCounter (tm_wu L s); s1 = wu_map L (\<lambda>_. w) s in
       case r of
         None \<Rightarrow> (None, s1)
       | Some k \<Rightarrow>
          (let s2 = wu_map L (WakeupDel t) s1; x = tm_tmr s2 t;
               s3 = (if TIMER_ulOption x AND LW_OPTION_AUTO_RESTART \<noteq> 0
                     then wu_map L (\<lambda>w. WakeupAdd t (set_counter t (TIMER_ulCounterSave x) w)) s2
                     else tmr_upd t (\<lambda>x. x\<lparr>TIMER_ucStatus := LW_TIMER_STATUS_STOP\<rparr>) s2)
           in (Some (t, TIMER_cbRoutine (tm_tmr s3 t), TIMER_pvArg (tm_tmr s3 t), k), s3))))"

text \<open>The pass up to the first callback, and from a callback to the next.\<close>

definition TimerPass_begin :: "tline \<Rightarrow> ULONG \<Rightarrow> timers \<Rightarrow> (nat \<times> ULONG \<times> ULONG \<times> ULONG) option \<times> timers" where
  "TimerPass_begin L ulCounter s =
    (let (r, s1) = TimerPass_turn L ulCounter (wu_map L WAKEUP_PASS_BEGIN (tk_upd KERNEL_ENTER s))
     in (r, tk_upd KERNEL_EXIT s1))"

definition TimerPass_next :: "tline \<Rightarrow> ULONG \<Rightarrow> timers \<Rightarrow> (nat \<times> ULONG \<times> ULONG \<times> ULONG) option \<times> timers" where
  "TimerPass_next L ulCounter s =
    (let (r, s1) = TimerPass_turn L ulCounter (tk_upd KERNEL_ENTER s) in (r, tk_upd KERNEL_EXIT s1))"

definition TimerHTicks :: "timers \<Rightarrow> (nat \<times> ULONG \<times> ULONG \<times> ULONG) option \<times> timers" where
  "TimerHTicks s = TimerPass_begin HTmr 1 s"

text \<open>\<open>LW_ITIMER_RATE\<close> is a kernel parameter, from 1 to 10.\<close>

definition ITimerThread :: "ULONG \<Rightarrow> timers \<Rightarrow> (nat \<times> ULONG \<times> ULONG \<times> ULONG) option \<times> timers" where
  "ITimerThread ulRate s = TimerPass_begin ITmr ulRate s"

end
