(* ===== verification/Timer_Line.thy ===== *)
theory Timer_Line
  imports Timer Tick_Inv
begin

text \<open>
  The delta queue during a pass that is interrupted by callbacks.  \<open>op_ok\<close> is what the
  operation pointer of a line satisfies between two turns: it stands at a node that is due
  strictly later than all nodes before it, and a node that is already due is the first one
  and is the one it stands at.
\<close>

section \<open>The operation pointer\<close>

definition op_ok :: "'n wakeup \<Rightarrow> bool" where
  "op_ok w \<longleftrightarrow> (\<forall>t. WU_plineOp w = Some t \<longrightarrow>
      (\<exists>us d vs. dues w = us @ (t, d) # vs \<and> (\<forall>x\<in>set us. snd x < d))) \<and>
    (\<forall>t ts. dues w = (t, 0) # ts \<longrightarrow> WU_plineOp w = Some t)"

lemma op_okE:
  assumes "op_ok w" "WU_plineOp w = Some t"
  obtains us d vs where "dues w = us @ (t, d) # vs" "\<forall>x\<in>set us. snd x < d"
  using assms by (auto simp: op_ok_def)

lemma op_ok_zero: "\<lbrakk>op_ok w; dues w = (t, 0) # ts\<rbrakk> \<Longrightarrow> WU_plineOp w = Some t"
  by (simp add: op_ok_def)

definition op_first :: "'n wakeup \<Rightarrow> bool" where
  "op_first w \<longleftrightarrow> WU_plineOp w = (case dues w of [] \<Rightarrow> None | (t, d) # _ \<Rightarrow> Some t)"

lemma op_first_ok: "op_first w \<Longrightarrow> op_ok w"
  unfolding op_first_def op_ok_def by (cases "dues w") force+

lemma due_insert_split:
  assumes "\<forall>x\<in>set us. snd x < d" "d \<le> e"
  shows "due_insert n e (us @ (t, d) # vs) = us @ (t, d) # due_insert n e vs"
  using assms by (induction us) auto

lemma due_insert_before:
  assumes "e < d" shows "due_insert n e (us @ (t, d) # vs) = due_insert n e us @ (t, d) # vs"
  using assms by (induction us) auto

lemma op_ok_Add:
  assumes ok: "op_ok w" and d: "dues w' = due_insert n e (dues w)" and p: "WU_plineOp w' = WU_plineOp w" and e: "e \<noteq> 0"
  shows "op_ok w'"
proof -
  have "\<exists>us d vs. dues w' = us @ (t, d) # vs \<and> (\<forall>x\<in>set us. snd x < d)" if po: "WU_plineOp w' = Some t" for t
  proof -
    obtain us a vs where s: "dues w = us @ (t, a) # vs" "\<forall>x\<in>set us. snd x < a"
      using op_okE[OF ok, of t] p po by metis
    show ?thesis
    proof (cases "a \<le> e")
      case True
      then show ?thesis using due_insert_split[OF s(2) True] s by (auto simp: d)
    next
      case False
      then have "dues w' = due_insert n e us @ (t, a) # vs" using due_insert_before[of e a] by (simp add: d s(1))
      moreover have "\<forall>x\<in>set (due_insert n e us). snd x < a" using s(2) False by auto
      ultimately show ?thesis by blast
    qed
  qed
  moreover have "WU_plineOp w' = Some t" if z: "dues w' = (t, 0) # ts" for t ts
  proof -
    have "due_insert n e (dues w) = (t, 0) # ts" using z d by simp
    then obtain xs where "dues w = (t, 0) # xs" using e by (cases "dues w") (auto split: if_splits)
    then show ?thesis using ok p by (simp add: op_ok_def)
  qed
  ultimately show ?thesis unfolding op_ok_def by blast
qed

lemma dues_distinct: "wu_ok w \<Longrightarrow> distinct (map fst (dues w))"
  by (simp add: wu_ok_def)

lemma next_of_split:
  assumes "wu_ok w" "dues w = us @ (t, d) # vs"
  shows "line_get_next t (WU_line w) = (case vs of [] \<Rightarrow> None | (u, e) # _ \<Rightarrow> Some u)"
proof -
  have "WU_line w = map fst us @ t # map fst vs" using arg_cong[OF assms(2), of "map fst"] by simp
  moreover have "t \<notin> set (map fst us)" using dues_distinct[OF assms(1)] assms(2) by auto
  ultimately show ?thesis using line_get_next_append[of t "map fst us" "map fst vs"] by (auto split: list.splits)
qed

lemma filter_other: "distinct (map fst (us @ (t, d) # vs)) \<Longrightarrow> filter (\<lambda>(m, d). m \<noteq> t) (us @ (t, d) # vs) = us @ vs"
 
proof (induction us)
  case Nil
  have "filter (\<lambda>(m, d). m \<noteq> t) vs = vs" using Nil by (auto simp: filter_id_conv image_iff)
  then show ?case by simp
next
  case (Cons u us)
  then show ?case by (cases u) auto
qed

lemma op_ok_Del:
  assumes w: "wu_ok w" and ok: "op_ok w" and n: "n \<in> set (WU_line w)"
  shows "op_ok (WakeupDel n w)"
proof -
  let ?w = "WakeupDel n w"
  have d: "dues ?w = filter (\<lambda>(m, d). m \<noteq> n) (dues w)" by (rule dues_WakeupDel[OF w n])
  have sorted: "sorted (map snd (dues w))" by (rule dues_sorted)
  show ?thesis
  proof (cases "WU_plineOp w = Some n")
    case True
    then obtain us a vs where s: "dues w = us @ (n, a) # vs" "\<forall>x\<in>set us. snd x < a" using op_okE[OF ok] by metis
    have d': "dues ?w = us @ vs" unfolding d s(1) by (rule filter_other) (use dues_distinct[OF w] s(1) in simp)
    have p: "WU_plineOp ?w = (case vs of [] \<Rightarrow> None | (u, e) # _ \<Rightarrow> Some u)"
      using True next_of_split[OF w s(1)] by (simp add: WakeupDel_plineOp)
    have "\<forall>x\<in>set us. snd x < e" if "vs = (u, e) # zs" for u e zs
      using sorted s that by (auto simp: sorted_append)
    moreover have "us = []" if z: "dues ?w = (t, 0) # ts" for t ts
    proof (rule ccontr)
      assume "us \<noteq> []"
      then obtain us' where u: "us = (t, 0) # us'" using z[unfolded d'] by (cases us) auto
      then have "t = n" using op_ok_zero[OF ok, of t] s(1) True by simp
      then show False using dues_distinct[OF w] s(1) u by simp
    qed
    moreover have "\<exists>us' d vs'. us @ vs = us' @ (u, d) # vs' \<and> (\<forall>x\<in>set us'. snd x < d)" if "vs = (u, e) # zs" for u e zs
      using calculation(1)[OF that] that by blast
    ultimately show ?thesis unfolding op_ok_def d' p by (cases vs) auto
  next
    case False
    then have p: "WU_plineOp ?w = WU_plineOp w" by (simp add: WakeupDel_plineOp)
    have "\<exists>us d vs. dues ?w = us @ (t, d) # vs \<and> (\<forall>x\<in>set us. snd x < d)" if po: "WU_plineOp w = Some t" for t
    proof -
      obtain us a vs where s: "dues w = us @ (t, a) # vs" "\<forall>x\<in>set us. snd x < a" using op_okE[OF ok po] by metis
      then have "dues ?w = filter (\<lambda>(m, d). m \<noteq> n) us @ (t, a) # filter (\<lambda>(m, d). m \<noteq> n) vs" using False po by (simp add: d)
      then show ?thesis using s(2) by (metis (no_types, lifting) filter_is_subset subsetD)
    qed
    moreover have "WU_plineOp w = Some t" if z: "dues ?w = (t, 0) # ts" for t ts
    proof -
      obtain u e zs where u: "dues w = (u, e) # zs" using z d by (cases "dues w") auto
      have "(t, 0) \<in> set (filter (\<lambda>(m, d). m \<noteq> n) (dues w))" using z d by simp
      then have "(t, 0) \<in> set (dues w)" by simp
      then have "e = 0" using sorted u by auto
      then have "WU_plineOp w = Some u" using ok u by (simp add: op_ok_def)
      then show ?thesis using False z u by (simp add: d)
    qed
    ultimately show ?thesis unfolding op_ok_def p by blast
  qed
qed

section \<open>A turn of the pass\<close>

lemma counter_of_split:
  assumes "dues_from a c xs = us @ (t, d) # vs"
  shows "d = (if us = [] then a else snd (last us)) + unat (c t)"
  using assms
proof (induction us arbitrary: a xs)
  case Nil
  then show ?case by (cases xs) auto
next
  case (Cons u us)
  then obtain y ys where x: "xs = y # ys" by (cases xs) auto
  then have "dues_from (a + unat (c y)) c ys = us @ (t, d) # vs" "u = (y, a + unat (c y))" using Cons.prems by auto
  then show ?case using Cons.IH[of "a + unat (c y)" ys] by (auto split: if_splits)
qed

text \<open>The first timer of the line is due: it leaves, and the pointer stands at the next.\<close>

lemma pass_fire:
  assumes w: "wu_ok w" and d: "dues w = (t, unat k) # rest"
  defines "r \<equiv> WAKEUP_PASS_FIRST t k w" and "w2 \<equiv> WakeupDel t (fst (WAKEUP_PASS_FIRST t k w))"
  shows "snd r = Some 0" "wu_ok w2" "dues w2 = map (\<lambda>(n, d). (n, d - unat k)) rest" "op_first w2"
    "set (WU_line w2) = set (WU_line w) - {t}"
proof -
  have line: "WU_line w = t # map fst rest" using arg_cong[OF d, of "map fst"] by simp
  have dist: "distinct (t # map fst rest)" using w line by (simp add: wu_ok_def)
  have "unat (WUN_ulCounter w t) = unat k"
    using counter_of_split[of 0 "WUN_ulCounter w" "WU_line w" "[]"] d by (simp add: dues_def)
  then have c: "WUN_ulCounter w t = k" by (simp add: word_unat_eq_iff)
  define p where "p = line_get_next t (WU_line w)"
  define w1 where "w1 = w\<lparr>WUN_ulCounter := (WUN_ulCounter w)(t := WUN_ulCounter w t - k), WU_plineOp := p\<rparr>"
  have f: "r = (w1, Some 0)" using c by (cases w) (simp add: r_def WAKEUP_PASS_FIRST_def Let_def w1_def p_def)
  then show "snd r = Some 0" by simp
  have d1: "dues w1 = map (\<lambda>(n, d). (n, d - unat k)) (dues w)"
    unfolding w1_def by (rule dues_charge[OF line dist]) (simp add: c)
  have ok1: "wu_ok w1" by (rule dues_shift_ok[OF w d1]) (simp_all add: w1_def)
  have t: "t \<in> set (WU_line w1)" using line by (simp add: w1_def)
  have w2: "w2 = WakeupDel t w1" using f by (simp add: w2_def r_def)
  show "wu_ok w2" unfolding w2 by (rule wu_ok_WakeupDel[OF ok1 t])
  show "set (WU_line w2) = set (WU_line w) - {t}" using line dist by (simp add: w2 w1_def)
  have n: "t \<notin> fst ` set rest" using dist by simp
  show d2: "dues w2 = map (\<lambda>(n, d). (n, d - unat k)) rest"
    unfolding w2 dues_WakeupDel[OF ok1 t] d1 d using n by (auto simp: filter_id_conv image_iff split_beta)
  have p: "p = (case rest of [] \<Rightarrow> None | (u, e) # _ \<Rightarrow> Some u)" using line by (auto simp: p_def split: list.splits)
  have "p \<noteq> Some t" using n by (auto simp: p split: list.splits)
  then have "WU_plineOp w2 = p" by (simp add: w2 WakeupDel_plineOp w1_def)
  then show "op_first w2" unfolding op_first_def d2 p by (cases rest) auto
qed

text \<open>It is not due: it is charged, and the pass is over.\<close>

lemma pass_charge:
  assumes w: "wu_ok w" and d: "dues w = (t, e) # rest" and k: "unat k < e"
  defines "r \<equiv> WAKEUP_PASS_FIRST t k w"
  shows "snd r = None" "wu_ok (fst r)" "dues (fst r) = map (\<lambda>(n, d). (n, d - unat k)) (dues w)" "WU_line (fst r) = WU_line w"
proof -
  have line: "WU_line w = t # map fst rest" using arg_cong[OF d, of "map fst"] by simp
  have dist: "distinct (t # map fst rest)" using w line by (simp add: wu_ok_def)
  have c: "unat (WUN_ulCounter w t) = e" using counter_of_split[of 0 "WUN_ulCounter w" "WU_line w" "[]"] d by (simp add: dues_def)
  then have lt: "k < WUN_ulCounter w t" using k by (simp add: word_less_nat_alt)
  define w1 where "w1 = w\<lparr>WUN_ulCounter := (WUN_ulCounter w)(t := WUN_ulCounter w t - k), WU_plineOp := line_get_next t (WU_line w)\<rparr>"
  have f: "r = (w1, None)" using lt by (cases w) (simp add: r_def WAKEUP_PASS_FIRST_def Let_def w1_def)
  then show "snd r = None" by simp
  have d1: "dues w1 = map (\<lambda>(n, d). (n, d - unat k)) (dues w)"
    unfolding w1_def by (rule dues_charge[OF line dist]) (use lt in simp)
  then show "dues (fst r) = map (\<lambda>(n, d). (n, d - unat k)) (dues w)" using f by simp
  show "wu_ok (fst r)" unfolding f fst_conv by (rule dues_shift_ok[OF w d1]) (simp_all add: w1_def)
  show "WU_line (fst r) = WU_line w" using f by (simp add: w1_def)
qed

text \<open>A later turn, with no ticks left: nothing changes unless the first timer is due.\<close>

lemma pass_rest:
  assumes w: "wu_ok w" and ok: "op_ok w" and p: "WU_plineOp w = Some t" and nz: "\<nexists>ts. dues w = (t, 0) # ts"
  defines "r \<equiv> WAKEUP_PASS_FIRST t 0 w"
  shows "snd r = None" "wu_ok (fst r)" "dues (fst r) = dues w" "WU_line (fst r) = WU_line w" "\<forall>x\<in>set (dues w). snd x \<noteq> 0"
proof -
  obtain us d vs where s: "dues w = us @ (t, d) # vs" "\<forall>x\<in>set us. snd x < d" using op_okE[OF ok p] .
  have e: "d = (if us = [] then 0 else snd (last us)) + unat (WUN_ulCounter w t)"
    by (rule counter_of_split) (use s(1) in \<open>simp add: dues_def\<close>)
  have c: "WUN_ulCounter w t \<noteq> 0"
  proof
    assume z: "WUN_ulCounter w t = 0"
    show False
    proof (cases "us = []")
      case True
      then show False using e z nz s(1) by simp
    next
      case False
      then have "snd (last us) < d" using s(2) by simp
      then show False using e z False by simp
    qed
  qed
  define w1 where "w1 = w\<lparr>WU_plineOp := line_get_next t (WU_line w)\<rparr>"
  have f: "r = (w1, None)" using c by (cases w) (simp add: r_def WAKEUP_PASS_FIRST_def Let_def w1_def word_gt_0)
  then show "snd r = None" by simp
  have d1: "dues w1 = map (\<lambda>(n, d). (n, d - 0)) (dues w)" by (simp add: w1_def dues_def)
  show "wu_ok (fst r)" unfolding f fst_conv by (rule dues_shift_ok[OF w d1]) (simp_all add: w1_def)
  show "dues (fst r) = dues w" "WU_line (fst r) = WU_line w" using f d1 by (simp_all add: w1_def)
  show "\<forall>x\<in>set (dues w). snd x \<noteq> 0"
  proof (cases "dues w")
    case (Cons x xs)
    have "snd x \<noteq> 0"
    proof
      assume "snd x = 0"
      then have "dues w = (fst x, 0) # xs" using Cons by (cases x) simp
      then show False using op_ok_zero[OF ok] p nz by simp
    qed
    then show ?thesis using dues_sorted[of w] Cons by fastforce
  qed simp
qed

section \<open>Arming and disarming\<close>

lemma set_counter_reads [simp]:
  "WU_line (set_counter t v w) = WU_line w" "WU_plineOp (set_counter t v w) = WU_plineOp w"
  "WUN_bInQ (set_counter t v w) = WUN_bInQ w" "WUN_ulCounter (set_counter t v w) t = v"
  by (simp_all add: set_counter_def)

lemma dues_set: "t \<notin> set (WU_line w) \<Longrightarrow> dues (set_counter t v w) = dues w"
  by (auto simp: dues_def set_counter_def intro: dues_from_cong)

lemma wu_ok_set: "t \<notin> set (WU_line w) \<Longrightarrow> wu_ok (set_counter t v w) \<longleftrightarrow> wu_ok w"
  by (simp add: wu_ok_def dues_set)

lemma op_ok_set: "t \<notin> set (WU_line w) \<Longrightarrow> op_ok (set_counter t v w) \<longleftrightarrow> op_ok w"
  by (simp add: op_ok_def dues_set)

definition unline :: "nat \<Rightarrow> nat wakeup \<Rightarrow> nat wakeup" where
  "unline t w = (if t \<in> set (WU_line w) then WakeupDel t w else w)"

lemma unline_ok:
  assumes "wu_ok w"
  shows "wu_ok (unline t w)" "t \<notin> set (WU_line (unline t w))" "set (WU_line (unline t w)) = set (WU_line w) - {t}"
    "dues (unline t w) = filter (\<lambda>(m, d). m \<noteq> t) (dues w)" "op_ok w \<Longrightarrow> op_ok (unline t w)"
proof -
  have d: "distinct (WU_line w)" using assms by (simp add: wu_ok_def)
  show "wu_ok (unline t w)" using assms wu_ok_WakeupDel[OF assms, of t] by (simp add: unline_def)
  show "t \<notin> set (WU_line (unline t w))" "set (WU_line (unline t w)) = set (WU_line w) - {t}" using d by (simp_all add: unline_def)
  have "filter (\<lambda>(m, d). m \<noteq> t) (dues w) = dues w" if "t \<notin> set (WU_line w)"
    using that by (auto simp: filter_id_conv image_iff simp flip: map_fst_dues)
  then show "dues (unline t w) = filter (\<lambda>(m, d). m \<noteq> t) (dues w)" using dues_WakeupDel[OF assms] by (simp add: unline_def)
  show "op_ok w \<Longrightarrow> op_ok (unline t w)" using op_ok_Del[OF assms] by (simp add: unline_def)
qed

lemma enline_ok:
  fixes v :: ULONG
  assumes "wu_ok w" "t \<notin> set (WU_line w)"
  defines "w' \<equiv> WakeupAdd t (set_counter t v w)"
  shows "wu_ok w'" "set (WU_line w') = insert t (set (WU_line w))" "dues w' = due_insert t (unat v) (dues w)"
    "\<lbrakk>op_ok w; v \<noteq> 0\<rbrakk> \<Longrightarrow> op_ok w'"
proof -
  have ok: "wu_ok (set_counter t v w)" and n: "t \<notin> set (WU_line (set_counter t v w))" using assms wu_ok_set by simp_all
  show "wu_ok w'" "set (WU_line w') = insert t (set (WU_line w))"
    using wu_ok_WakeupAdd[OF ok n] set_WakeupAdd_line[OF ok n] by (simp_all add: w'_def)
  show d: "dues w' = due_insert t (unat v) (dues w)" using dues_WakeupAdd[OF ok n] dues_set[OF assms(2)] by (simp add: w'_def)
  show "op_ok w'" if "op_ok w" "v \<noteq> 0"
    by (rule op_ok_Add[OF that(1) d]) (use that(2) in \<open>simp_all add: w'_def unat_eq_0\<close>)
qed

end
