(* ===== verification/Timer_Runs.thy ===== *)
theory Timer_Runs
  imports Timer_Line
begin

text \<open>
  Runs of the timers: the calls of the interface and the turns of the two services in any
  order.  A run carries a clock of the service's own ticks and, for every timer, the tick at
  which it is due; both are history, the code does not see them.
\<close>

section \<open>The invariant\<close>

definition armed :: "timers \<Rightarrow> tline \<Rightarrow> nat \<Rightarrow> bool" where
  "armed s L t \<longleftrightarrow> t < LW_CFG_MAX_TIMERS \<and> TIMER_ucType (tm_tmr s t) \<noteq> LW_TYPE_TIMER_UNUSED \<and>
     TIMER_ucStatus (tm_tmr s t) = LW_TIMER_STATUS_RUNNING \<and> line_of (TIMER_ucType (tm_tmr s t)) = L"

definition tmr_ok :: "timers \<Rightarrow> bool" where
  "tmr_ok s \<longleftrightarrow> (\<forall>L. wu_ok (tm_wu L s) \<and> set (WU_line (tm_wu L s)) = {t. armed s L t}) \<and>
     distinct (tm_free s) \<and>
     set (tm_free s) = {t. t < LW_CFG_MAX_TIMERS \<and> TIMER_ucType (tm_tmr s t) = LW_TYPE_TIMER_UNUSED} \<and>
     (\<forall>t<LW_CFG_MAX_TIMERS. TIMER_ucStatus (tm_tmr s t) \<in> {LW_TIMER_STATUS_RUNNING, LW_TIMER_STATUS_STOP} \<and>
       (TIMER_ucType (tm_tmr s t) = LW_TYPE_TIMER_UNUSED \<longrightarrow> TIMER_ucStatus (tm_tmr s t) = LW_TIMER_STATUS_STOP)) \<and>
     (\<forall>L t. armed s L t \<longrightarrow> TIMER_ulOption (tm_tmr s t) AND LW_OPTION_AUTO_RESTART \<noteq> 0 \<longrightarrow> TIMER_ulCounterSave (tm_tmr s t) \<noteq> 0)"

lemma tmr_okD:
  assumes "tmr_ok s"
  shows "wu_ok (tm_wu L s)" "t \<in> set (WU_line (tm_wu L s)) \<longleftrightarrow> armed s L t" "distinct (tm_free s)"
    "t \<in> set (tm_free s) \<longleftrightarrow> t < LW_CFG_MAX_TIMERS \<and> TIMER_ucType (tm_tmr s t) = LW_TYPE_TIMER_UNUSED"
    "t < LW_CFG_MAX_TIMERS \<Longrightarrow> TIMER_ucStatus (tm_tmr s t) = LW_TIMER_STATUS_RUNNING \<or> TIMER_ucStatus (tm_tmr s t) = LW_TIMER_STATUS_STOP"
    "\<lbrakk>t < LW_CFG_MAX_TIMERS; TIMER_ucType (tm_tmr s t) = LW_TYPE_TIMER_UNUSED\<rbrakk> \<Longrightarrow> TIMER_ucStatus (tm_tmr s t) = LW_TIMER_STATUS_STOP"
    "\<lbrakk>armed s L t; TIMER_ulOption (tm_tmr s t) AND LW_OPTION_AUTO_RESTART \<noteq> 0\<rbrakk> \<Longrightarrow> TIMER_ulCounterSave (tm_tmr s t) \<noteq> 0"
  using assms unfolding tmr_ok_def by auto

lemma tmr_reads [simp]:
  "tm_tmr (tk_upd f s) = tm_tmr s" "tm_wu L (tk_upd f s) = tm_wu L s" "tm_free (tk_upd f s) = tm_free s"
  "tm_tmr (wu_map L' g s) = tm_tmr s" "tm_free (wu_map L' g s) = tm_free s" "tm_k (wu_map L' g s) = tm_k s"
  "tm_wu L (wu_map L' g s) = (if L = L' then g (tm_wu L s) else tm_wu L s)"
  "tm_wu L (tmr_upd t h s) = tm_wu L s" "tm_free (tmr_upd t h s) = tm_free s" "tm_k (tmr_upd t h s) = tm_k s"
  "tm_tmr (tmr_upd t h s) = (tm_tmr s)(t := h (tm_tmr s t))" "tm_k (tk_upd f s) = f (tm_k s)"
  by (cases L; cases L'; simp add: tk_upd_def tmr_upd_def)+

lemma armed_tk [simp]: "armed (tk_upd f s) L t = armed s L t" "armed (wu_map L' g s) L t = armed s L t"
  by (simp_all add: armed_def)

lemma tmr_ok_tk [simp]: "tmr_ok (tk_upd f s) \<longleftrightarrow> tmr_ok s"
  by (simp add: tmr_ok_def)

lemma armed_line: "\<lbrakk>armed s L t; armed s L' t\<rbrakk> \<Longrightarrow> L = L'"
  by (simp add: armed_def)

text \<open>A change of one timer that leaves it armed, or not, as its line says.\<close>

lemma tmr_ok_change:
  assumes ok: "tmr_ok s" and w: "\<And>L. wu_ok (tm_wu L s')"
    and t: "\<And>L u. u \<in> set (WU_line (tm_wu L s')) \<longleftrightarrow> (if u = t then armed s' L t else u \<in> set (WU_line (tm_wu L s)))"
    and x: "\<And>u. u \<noteq> t \<Longrightarrow> tm_tmr s' u = tm_tmr s u"
    and f: "distinct (tm_free s')" "\<And>u. u \<in> set (tm_free s') \<longleftrightarrow> u < LW_CFG_MAX_TIMERS \<and> TIMER_ucType (tm_tmr s' u) = LW_TYPE_TIMER_UNUSED"
    and st: "t < LW_CFG_MAX_TIMERS \<Longrightarrow> TIMER_ucStatus (tm_tmr s' t) \<in> {LW_TIMER_STATUS_RUNNING, LW_TIMER_STATUS_STOP} \<and>
       (TIMER_ucType (tm_tmr s' t) = LW_TYPE_TIMER_UNUSED \<longrightarrow> TIMER_ucStatus (tm_tmr s' t) = LW_TIMER_STATUS_STOP)"
    and au: "\<And>L. \<lbrakk>armed s' L t; TIMER_ulOption (tm_tmr s' t) AND LW_OPTION_AUTO_RESTART \<noteq> 0\<rbrakk> \<Longrightarrow> TIMER_ulCounterSave (tm_tmr s' t) \<noteq> 0"
  shows "tmr_ok s'"
proof -
  note d = tmr_okD[OF ok]
  have a: "armed s' L u \<longleftrightarrow> armed s L u" if "u \<noteq> t" for L u using x[OF that] by (simp add: armed_def)
  have "set (WU_line (tm_wu L s')) = {u. armed s' L u}" for L using t d(2)[of _ L] a by (auto split: if_splits)
  moreover have "TIMER_ucStatus (tm_tmr s' u) \<in> {LW_TIMER_STATUS_RUNNING, LW_TIMER_STATUS_STOP} \<and>
       (TIMER_ucType (tm_tmr s' u) = LW_TYPE_TIMER_UNUSED \<longrightarrow> TIMER_ucStatus (tm_tmr s' u) = LW_TIMER_STATUS_STOP)"
    if "u < LW_CFG_MAX_TIMERS" for u
    using st x[of u] d(5,6)[OF that] that by (cases "u = t") auto
  moreover have "TIMER_ulCounterSave (tm_tmr s' u) \<noteq> 0"
    if "armed s' L u" "TIMER_ulOption (tm_tmr s' u) AND LW_OPTION_AUTO_RESTART \<noteq> 0" for L u
    using that au x[of u] a[of u L] d(7)[of L u] by (cases "u = t") auto
  ultimately show ?thesis unfolding tmr_ok_def using w f by blast
qed

section \<open>What a call does to the lines\<close>

text \<open>\<open>moved s s' t v\<close>: at most the timer \<open>t\<close> was taken from its line, and it was started with
  \<open>v\<close> ticks, if there is a \<open>v\<close>.\<close>

definition moved :: "timers \<Rightarrow> timers \<Rightarrow> nat \<Rightarrow> ULONG option \<Rightarrow> bool" where
  "moved s s' t v \<longleftrightarrow> tmr_ok s' \<and> (\<forall>u. u \<noteq> t \<longrightarrow> tm_tmr s' u = tm_tmr s u) \<and>
     (v \<noteq> None \<longrightarrow> TIMER_ucType (tm_tmr s' t) = TIMER_ucType (tm_tmr s t)) \<and>
     (\<forall>L. (op_ok (tm_wu L s) \<longrightarrow> op_ok (tm_wu L s')) \<and>
       set (dues (tm_wu L s')) = {x \<in> set (dues (tm_wu L s)). fst x \<noteq> t} \<union>
         (case v of Some d \<Rightarrow> if armed s' L t then {(t, unat d)} else {} | None \<Rightarrow> {}))"

definition kept :: "timers \<Rightarrow> timers \<Rightarrow> bool" where
  "kept s s' \<longleftrightarrow> tmr_ok s' \<and> (\<forall>L. (op_ok (tm_wu L s) \<longrightarrow> op_ok (tm_wu L s')) \<and> set (dues (tm_wu L s')) = set (dues (tm_wu L s)))"

lemma kept_tk [simp]: "kept s (tk_upd f s') \<longleftrightarrow> kept s s'" "tmr_ok s \<Longrightarrow> kept s s"
  by (simp_all add: kept_def)

lemma moved_tk [simp]: "moved s (tk_upd f s') t v \<longleftrightarrow> moved s s' t v" "moved (tk_upd f s) s' t v \<longleftrightarrow> moved s s' t v"
  by (simp_all add: moved_def cong: option.case_cong)

lemma unline_off: "t \<notin> set (WU_line w) \<Longrightarrow> unline t w = w"
  by (simp add: unline_def)

lemma moved_arm:
  fixes v :: ULONG
  assumes ok: "tmr_ok s" and t: "t < LW_CFG_MAX_TIMERS" "TIMER_ucType (tm_tmr s t) \<noteq> LW_TYPE_TIMER_UNUSED" and v: "v \<noteq> 0"
    and w: "\<And>L. tm_wu L s' = (if L = line_of (TIMER_ucType (tm_tmr s t))
      then WakeupAdd t (set_counter t v (unline t (tm_wu L s))) else unline t (tm_wu L s))"
    and x: "tm_tmr s' = (tm_tmr s)(t := x)" "TIMER_ucType x = TIMER_ucType (tm_tmr s t)" "TIMER_ucStatus x = LW_TIMER_STATUS_RUNNING"
    and au: "TIMER_ulOption x AND LW_OPTION_AUTO_RESTART \<noteq> 0 \<Longrightarrow> TIMER_ulCounterSave x \<noteq> 0"
    and f: "tm_free s' = tm_free s"
  shows "moved s s' t (Some v)"
proof -
  note d = tmr_okD[OF ok]
  have un: "wu_ok (unline t (tm_wu L s))" "t \<notin> set (WU_line (unline t (tm_wu L s)))"
    "set (WU_line (unline t (tm_wu L s))) = set (WU_line (tm_wu L s)) - {t}"
    "dues (unline t (tm_wu L s)) = filter (\<lambda>(m, d). m \<noteq> t) (dues (tm_wu L s))"
    "op_ok (tm_wu L s) \<Longrightarrow> op_ok (unline t (tm_wu L s))" for L using unline_ok[OF d(1)] by blast+
  note en = enline_ok[OF un(1,2), where v = v]
  have ar: "armed s' L t \<longleftrightarrow> L = line_of (TIMER_ucType (tm_tmr s t))" for L using t x by (auto simp: armed_def)
  have "tmr_ok s'"
  proof (rule tmr_ok_change[OF ok])
    show "wu_ok (tm_wu L s')" for L unfolding w using un en by simp
    show "u \<in> set (WU_line (tm_wu L s')) \<longleftrightarrow> (if u = t then armed s' L t else u \<in> set (WU_line (tm_wu L s)))" for L u
      unfolding ar w using un(3) en(2) by auto
    show "tm_tmr s' u = tm_tmr s u" if "u \<noteq> t" for u using x that by simp
    show "distinct (tm_free s')" using d(3) f by simp
    show "u \<in> set (tm_free s') \<longleftrightarrow> u < LW_CFG_MAX_TIMERS \<and> TIMER_ucType (tm_tmr s' u) = LW_TYPE_TIMER_UNUSED" for u
      using d(4) f x by simp
  qed (use x t au in auto)
  moreover have "op_ok (tm_wu L s) \<longrightarrow> op_ok (tm_wu L s')" for L unfolding w using un(5) en(4) v by simp
  moreover have "set (dues (tm_wu L s')) = {x \<in> set (dues (tm_wu L s)). fst x \<noteq> t} \<union> (if armed s' L t then {(t, unat v)} else {})" for L
    unfolding ar w using un(4) en(3) by auto
  ultimately show ?thesis using x by (simp add: moved_def)
qed

lemma moved_disarm:
  assumes ok: "tmr_ok s" and t: "t < LW_CFG_MAX_TIMERS" "TIMER_ucType (tm_tmr s t) \<noteq> LW_TYPE_TIMER_UNUSED"
    and w: "\<And>L. tm_wu L s' = unline t (tm_wu L s) \<or> tm_wu L s' = set_counter t 0 (unline t (tm_wu L s))"
    and x: "tm_tmr s' = (tm_tmr s)(t := x)" "TIMER_ucStatus x = LW_TIMER_STATUS_STOP"
    and f: "TIMER_ucType x = TIMER_ucType (tm_tmr s t) \<and> tm_free s' = tm_free s \<or>
      TIMER_ucType x = LW_TYPE_TIMER_UNUSED \<and> tm_free s' = tm_free s @ [t]"
  shows "moved s s' t None"
proof -
  note d = tmr_okD[OF ok]
  have un: "wu_ok (unline t (tm_wu L s))" "t \<notin> set (WU_line (unline t (tm_wu L s)))"
    "set (WU_line (unline t (tm_wu L s))) = set (WU_line (tm_wu L s)) - {t}"
    "dues (unline t (tm_wu L s)) = filter (\<lambda>(m, d). m \<noteq> t) (dues (tm_wu L s))"
    "op_ok (tm_wu L s) \<Longrightarrow> op_ok (unline t (tm_wu L s))" for L using unline_ok[OF d(1)] by blast+
  have ww: "wu_ok (tm_wu L s')" "WU_line (tm_wu L s') = WU_line (unline t (tm_wu L s))"
    "dues (tm_wu L s') = dues (unline t (tm_wu L s))" "op_ok (tm_wu L s') = op_ok (unline t (tm_wu L s))" for L
    using w[of L] un(1,2)[of L] by (auto simp: wu_ok_set dues_set op_ok_set)
  have ar: "\<not> armed s' L t" for L using x by (simp add: armed_def)
  have tf: "t \<notin> set (tm_free s)" using d(4) t by simp
  have "tmr_ok s'"
  proof (rule tmr_ok_change[OF ok])
    show "wu_ok (tm_wu L s')" for L by (rule ww)
    show "u \<in> set (WU_line (tm_wu L s')) \<longleftrightarrow> (if u = t then armed s' L t else u \<in> set (WU_line (tm_wu L s)))" for L u
      unfolding ww using un(3) ar by auto
    show "tm_tmr s' u = tm_tmr s u" if "u \<noteq> t" for u using x that by simp
    show "distinct (tm_free s')" using d(3) f tf by auto
    show "u \<in> set (tm_free s') \<longleftrightarrow> u < LW_CFG_MAX_TIMERS \<and> TIMER_ucType (tm_tmr s' u) = LW_TYPE_TIMER_UNUSED" for u
      using d(4)[of u] f x t by auto
  qed (use x ar in auto)
  moreover have "set (dues (tm_wu L s')) = {x \<in> set (dues (tm_wu L s)). fst x \<noteq> t}" for L
    unfolding ww un(4) by auto
  ultimately show ?thesis using x ww(4) un(5) by (simp add: moved_def)
qed

section \<open>The calls\<close>

datatype tcall =
    TCreate "string option" ULONG | TDelete ULONG
  | TStart ULONG ULONG ULONG ULONG ULONG ULONG | TReset ULONG | TCancel ULONG

fun texec :: "tcall \<Rightarrow> timers \<Rightarrow> timers" where
  "texec (TCreate nm opt) s = snd (TimerCreate nm opt True s)"
| "texec (TDelete h) s = snd (snd (TimerDelete h s))"
| "texec (TStart h i c opt cb arg) s = snd (TimerStartEx h i c opt cb arg s)"
| "texec (TReset h) s = snd (TimerReset h s)"
| "texec (TCancel h) s = snd (TimerCancel h s)"

text \<open>The timer a call starts, and with how many ticks.\<close>

fun starts :: "tcall \<Rightarrow> timers \<Rightarrow> (nat \<times> ULONG) option" where
  "starts (TStart h i c opt cb arg) s =
    (if fst (TimerStartEx h i c opt cb arg s) = ERROR_NONE then Some (unat (ObjectGetIndex h), i) else None)"
| "starts (TReset h) s = (let t = unat (ObjectGetIndex h) in
    if fst (TimerReset h s) = ERROR_NONE then Some (t, TIMER_ulCounterSave (tm_tmr s t)) else None)"
| "starts _ s = None"

lemma TimerOpen_cases:
  obtains (opened) t where "TimerOpen ulId s = Inr (t, tk_upd KERNEL_ENTER s)" "t = unat (ObjectGetIndex ulId)"
      "t < LW_CFG_MAX_TIMERS" "TIMER_ucType (tm_tmr s t) \<noteq> LW_TYPE_TIMER_UNUSED"
  | (bad) r f where "TimerOpen ulId s = Inl (r, tk_upd f s)" "r \<noteq> ERROR_NONE"
proof (cases "ObjectClassOK ulId OBJECT_TIMER \<and> \<not> Timer_Index_Invalid (ObjectGetIndex ulId)")
  case True
  show ?thesis
  proof (cases "Timer_Type_Invalid (tk_upd KERNEL_ENTER s) (ObjectGetIndex ulId)")
    case bad: True
    have "TimerOpen ulId s = Inl (ERROR_TIMER_NULL, tk_upd (\<lambda>k. ErrorHandle_of (tm_k s) ERROR_TIMER_NULL (KERNEL_EXIT (KERNEL_ENTER k))) s)"
      using True bad by (simp add: TimerOpen_def Let_def tk_upd_def)
    then show ?thesis by (rule that(2)) simp
  next
    case False
    show ?thesis by (rule that(1)) (use True False in \<open>auto simp: TimerOpen_def Let_def Timer_Index_Invalid_def Timer_Type_Invalid_def\<close>)
  qed
next
  case False
  then have "TimerOpen ulId s = Inl (ERROR_KERNEL_HANDLE_NULL, tk_upd (ErrorHandle ERROR_KERNEL_HANDLE_NULL) s)"
    by (auto simp: TimerOpen_def)
  then show ?thesis by (rule that(2)) simp
qed

lemma TimerDel_reads [simp]: "tm_tmr (TimerDel t s) = tm_tmr s" "tm_free (TimerDel t s) = tm_free s"
  by (simp_all add: TimerDel_def)

lemma TimerAdd_reads [simp]: "tm_tmr (TimerAdd t v s) = tm_tmr s" "tm_free (TimerAdd t v s) = tm_free s"
  by (simp_all add: TimerAdd_def)

lemma TimerDel_line:
  assumes "tmr_ok s" "armed s (line_of (TIMER_ucType (tm_tmr s t))) t" "tm_wu L s' = tm_wu L s"
    "TIMER_ucType (tm_tmr s' t) = TIMER_ucType (tm_tmr s t)"
  shows "tm_wu L (TimerDel t s') = unline t (tm_wu L s)"
proof (cases "L = line_of (TIMER_ucType (tm_tmr s t))")
  case True
  then have "t \<in> set (WU_line (tm_wu L s))" using tmr_okD(2)[OF assms(1)] assms(2) by simp
  then show ?thesis using True assms(3,4) by (simp add: TimerDel_def unline_def)
next
  case False
  then have "t \<notin> set (WU_line (tm_wu L s))" using tmr_okD(2)[OF assms(1)] assms(2) armed_line by metis
  then show ?thesis using False assms(3,4) by (simp add: TimerDel_def unline_off)
qed

lemma stopped_line:
  assumes "tmr_ok s" "TIMER_ucStatus (tm_tmr s t) \<noteq> LW_TIMER_STATUS_RUNNING" shows "unline t (tm_wu L s) = tm_wu L s"
  using tmr_okD(2)[OF assms(1)] assms(2) by (intro unline_off) (simp add: armed_def)

lemma running_armed:
  assumes "t < LW_CFG_MAX_TIMERS" "TIMER_ucType (tm_tmr s t) \<noteq> LW_TYPE_TIMER_UNUSED" "TIMER_ucStatus (tm_tmr s t) = LW_TIMER_STATUS_RUNNING"
  shows "armed s (line_of (TIMER_ucType (tm_tmr s t))) t"
  using assms by (simp add: armed_def)

lemma TimerStartEx_moved:
  assumes ok: "tmr_ok s"
  shows "case starts (TStart h i c opt cb arg) s of
      Some (t, v) \<Rightarrow> v \<noteq> 0 \<and> moved s (snd (TimerStartEx h i c opt cb arg s)) t (Some v)
    | None \<Rightarrow> kept s (snd (TimerStartEx h i c opt cb arg s))"
proof (cases "cb = 0 \<or> i = 0 \<or> opt AND LW_OPTION_AUTO_RESTART \<noteq> 0 \<and> c = 0")
  case True
  then show ?thesis using ok by (auto simp: TimerStartEx_def)
next
  case False
  show ?thesis
  proof (cases rule: TimerOpen_cases[of h s])
    case (opened t)
    define s1 where "s1 = tk_upd KERNEL_ENTER s"
    define s2 where "s2 = (if TIMER_ucStatus (tm_tmr s t) = LW_TIMER_STATUS_RUNNING then TimerDel t s1 else s1)"
    define x where "x = (tm_tmr s t)\<lparr>TIMER_ulCounterSave := c, TIMER_ulOption := opt, TIMER_ucStatus := LW_TIMER_STATUS_RUNNING,
      TIMER_cbRoutine := cb, TIMER_pvArg := arg, TIMER_u64Overrun := 0\<rparr>"
    define s3 where "s3 = tmr_upd t (\<lambda>_. x) s2"
    have r2: "tm_tmr s2 = tm_tmr s" "tm_free s2 = tm_free s" by (simp_all add: s2_def s1_def)
    have w2: "tm_wu L s2 = unline t (tm_wu L s)" for L
      using TimerDel_line[OF ok running_armed[OF opened(3,4)], of L s1] stopped_line[OF ok, of t L] by (simp add: s2_def s1_def)
    have e: "TimerStartEx h i c opt cb arg s = (ERROR_NONE, tk_upd KERNEL_EXIT (TimerAdd t i s3))"
      using False opened(1) r2 by (simp add: TimerStartEx_def Let_def s3_def x_def s2_def s1_def tmr_upd_def)
    have "moved s (TimerAdd t i s3) t (Some i)"
      by (rule moved_arm[OF ok opened(3,4), where x = x]) (use False r2 w2 in \<open>auto simp: TimerAdd_def s3_def x_def\<close>)
    then show ?thesis using e opened(2) False by simp
  next
    case (bad r f)
    then show ?thesis using ok False by (simp add: TimerStartEx_def)
  qed
qed

lemma TimerReset_moved:
  assumes ok: "tmr_ok s" and z: "\<And>t v. starts (TReset h) s = Some (t, v) \<Longrightarrow> v \<noteq> 0"
  shows "case starts (TReset h) s of
      Some (t, v) \<Rightarrow> moved s (snd (TimerReset h s)) t (Some v)
    | None \<Rightarrow> kept s (snd (TimerReset h s))"
proof (cases rule: TimerOpen_cases[of h s])
  case (opened t)
  define s1 where "s1 = tk_upd KERNEL_ENTER s"
  show ?thesis
  proof (cases "TIMER_ucStatus (tm_tmr s t) = LW_TIMER_STATUS_STOP")
    case True
    then show ?thesis using opened ok by (simp add: TimerReset_def)
  next
    case False
    then have run: "TIMER_ucStatus (tm_tmr s t) = LW_TIMER_STATUS_RUNNING" using tmr_okD(5)[OF ok opened(3)] by auto
    define v where "v = TIMER_ulCounterSave (tm_tmr s t)"
    have e: "TimerReset h s = (ERROR_NONE, tk_upd KERNEL_EXIT (TimerAdd t v (TimerDel t s1)))"
      using False opened(1) by (simp add: TimerReset_def Let_def s1_def v_def)
    then have st: "starts (TReset h) s = Some (t, v)" using opened(2) by (simp add: v_def Let_def)
    have w: "tm_wu L (TimerDel t s1) = unline t (tm_wu L s)" for L
      using TimerDel_line[OF ok running_armed[OF opened(3,4) run], of L s1] by (simp add: s1_def)
    have "moved s (TimerAdd t v (TimerDel t s1)) t (Some v)"
      by (rule moved_arm[OF ok opened(3,4) z[OF st], where x = "tm_tmr s t"])
        (use run w tmr_okD(7)[OF ok running_armed[OF opened(3,4) run]] in \<open>auto simp: TimerAdd_def s1_def\<close>)
    then show ?thesis using e st by simp
  qed
next
  case (bad r f)
  then show ?thesis using ok by (simp add: TimerReset_def)
qed

lemma TimerCancel_moved:
  assumes ok: "tmr_ok s"
  shows "kept s (snd (TimerCancel h s)) \<or> (\<exists>t. moved s (snd (TimerCancel h s)) t None)"
proof (cases rule: TimerOpen_cases[of h s])
  case (opened t)
  define s1 where "s1 = tk_upd KERNEL_ENTER s"
  show ?thesis
  proof (cases "TIMER_ucStatus (tm_tmr s t) = LW_TIMER_STATUS_STOP")
    case True
    then show ?thesis using opened ok by (simp add: TimerCancel_def)
  next
    case False
    then have run: "TIMER_ucStatus (tm_tmr s t) = LW_TIMER_STATUS_RUNNING" using tmr_okD(5)[OF ok opened(3)] by auto
    define x where "x = (tm_tmr s t)\<lparr>TIMER_ucStatus := LW_TIMER_STATUS_STOP\<rparr>"
    define s2 where "s2 = TimerDel t (tmr_upd t (\<lambda>_. x) s1)"
    define s3 where "s3 = wu_map (line_of (TIMER_ucType (tm_tmr s2 t))) (set_counter t 0) s2"
    have e: "snd (TimerCancel h s) = tk_upd KERNEL_EXIT s3"
      using False opened(1) by (simp add: TimerCancel_def Let_def s3_def s2_def s1_def x_def tmr_upd_def)
    have w: "tm_wu L s2 = unline t (tm_wu L s)" for L
      unfolding s2_def by (rule TimerDel_line[OF ok running_armed[OF opened(3,4) run]]) (simp_all add: s1_def x_def)
    have "moved s s3 t None"
      by (rule moved_disarm[OF ok opened(3,4), where x = x]) (use w in \<open>auto simp: s3_def s2_def s1_def x_def\<close>)
    then show ?thesis using e by auto
  qed
next
  case (bad r f)
  then show ?thesis using ok by (simp add: TimerCancel_def)
qed

lemma TimerDelete_opened:
  assumes ok: "tmr_ok s" and True: "LW_CPU_GET_CUR_NESTING (tm_k s) = 0"
    and opened: "TimerOpen h s = Inr (t, tk_upd KERNEL_ENTER s)" "t < LW_CFG_MAX_TIMERS" "TIMER_ucType (tm_tmr s t) \<noteq> LW_TYPE_TIMER_UNUSED"
  defines "r \<equiv> TimerDelete h s"
  shows "moved s (snd (snd r)) t None" "fst r = ERROR_NONE" "fst (snd r) = 0" "tm_free (snd (snd r)) = tm_free s @ [t]"
    "TIMER_ucType (tm_tmr (snd (snd r)) t) = LW_TYPE_TIMER_UNUSED"
proof -
  define s1 where "s1 = tk_upd KERNEL_ENTER s"
  define x where "x = (tm_tmr s t)\<lparr>TIMER_ucStatus := LW_TIMER_STATUS_STOP\<rparr>"
  define s' where "s' = TimerDel t (tmr_upd t (\<lambda>_. x) s1)"
  define s2 where "s2 = (if TIMER_ucStatus (tm_tmr s t) = LW_TIMER_STATUS_STOP then s1
    else wu_map (line_of (TIMER_ucType (tm_tmr s' t))) (set_counter t 0) s')"
  define s3 where "s3 = tmr_upd t (\<lambda>y. y\<lparr>TIMER_ucType := LW_TYPE_TIMER_UNUSED\<rparr>) s2"
  have e: "r = (ERROR_NONE, 0, tk_upd KERNEL_EXIT (Free_Timer_Object t s3))"
    using True opened(1) by (simp add: r_def TimerDelete_def Let_def s3_def s2_def s'_def s1_def x_def tmr_upd_def)
  have w: "tm_wu L s2 = unline t (tm_wu L s) \<or> tm_wu L s2 = set_counter t 0 (unline t (tm_wu L s))" for L
  proof (cases "TIMER_ucStatus (tm_tmr s t) = LW_TIMER_STATUS_STOP")
    case stop: True
    then show ?thesis using stopped_line[OF ok, of t L] by (simp add: s2_def s1_def)
  next
    case False
    then have run: "TIMER_ucStatus (tm_tmr s t) = LW_TIMER_STATUS_RUNNING" using tmr_okD(5)[OF ok opened(2)] by auto
    have "tm_wu L s' = unline t (tm_wu L s)"
      unfolding s'_def by (rule TimerDel_line[OF ok running_armed[OF opened(2,3) run]]) (simp_all add: s1_def x_def)
    then show ?thesis using False by (cases "L = line_of (TIMER_ucType (tm_tmr s' t))") (simp_all add: s2_def del: tm_wu.simps)
  qed
  have fr: "tm_wu L (Free_Timer_Object t s3) = tm_wu L s3" for L by (cases L) (simp_all add: Free_Timer_Object_def)
  have "moved s (Free_Timer_Object t s3) t None"
  proof (rule moved_disarm[OF ok opened(2,3), where x = "x\<lparr>TIMER_ucType := LW_TYPE_TIMER_UNUSED\<rparr>"])
    show "tm_wu L (Free_Timer_Object t s3) = unline t (tm_wu L s) \<or>
        tm_wu L (Free_Timer_Object t s3) = set_counter t 0 (unline t (tm_wu L s))" for L
      using w[of L] fr[of L] by (simp add: s3_def)
    have "tm_tmr s2 = (tm_tmr s)(t := x)" by (auto simp: s2_def s'_def s1_def x_def fun_eq_iff)
    then show "tm_tmr (Free_Timer_Object t s3) = (tm_tmr s)(t := x\<lparr>TIMER_ucType := LW_TYPE_TIMER_UNUSED\<rparr>)"
      by (simp add: Free_Timer_Object_def s3_def)
  qed (simp_all add: x_def Free_Timer_Object_def s3_def s2_def s'_def s1_def)
  then show "moved s (snd (snd r)) t None" by (simp add: e)
  show "fst r = ERROR_NONE" "fst (snd r) = 0" "tm_free (snd (snd r)) = tm_free s @ [t]"
    "TIMER_ucType (tm_tmr (snd (snd r)) t) = LW_TYPE_TIMER_UNUSED"
    by (simp_all add: e Free_Timer_Object_def s3_def s2_def s'_def s1_def)
qed

lemma TimerDelete_moved:
  assumes ok: "tmr_ok s"
  shows "kept s (snd (snd (TimerDelete h s))) \<or> (\<exists>t. moved s (snd (snd (TimerDelete h s))) t None)"
proof (cases "LW_CPU_GET_CUR_NESTING (tm_k s) = 0")
  case False
  then show ?thesis using ok by (simp add: TimerDelete_def)
next
  case True
  show ?thesis
  proof (cases rule: TimerOpen_cases[of h s])
    case (opened t)
    then show ?thesis using TimerDelete_opened(1)[OF ok True opened(1,3,4)] by blast
  next
    case (bad r f)
    then show ?thesis using ok True by (simp add: TimerDelete_def)
  qed
qed

lemma TimerCreate_kept:
  assumes ok: "tmr_ok s"
  shows "kept s (snd (TimerCreate nm opt p s))"
proof (cases "LW_CPU_GET_CUR_NESTING (tm_k s) \<noteq> 0 \<or> Object_Name_Invalid nm \<or> tm_free s = []")
  case True
  then show ?thesis using ok by (auto simp: TimerCreate_def Allocate_Timer_Object_def Let_def)
next
  case False
  then obtain t ts where f: "tm_free s = t # ts" by (cases "tm_free s") auto
  define s' where "s' = snd (TimerCreate nm opt p s)"
  have t: "t < LW_CFG_MAX_TIMERS" "TIMER_ucType (tm_tmr s t) = LW_TYPE_TIMER_UNUSED" "t \<notin> set ts" "distinct ts"
    using tmr_okD(3)[OF ok] tmr_okD(4)[OF ok, of t] f by simp_all
  have off: "t \<notin> set (WU_line (tm_wu L s))" for L using tmr_okD(2)[OF ok] t by (simp add: armed_def)
  then have q: "\<not> WUN_bInQ (tm_wu L s) t" for L using tmr_okD(1)[OF ok, of L] by (simp add: wu_ok_def)
  let ?set = "\<lambda>w. w\<lparr>WUN_ulCounter := (WUN_ulCounter w)(t := 0), WUN_bInQ := (WUN_bInQ w)(t := False)\<rparr>"
  have wset: "?set (tm_wu L s) = set_counter t 0 (tm_wu L s)" for L using q[of L] by (simp add: set_counter_def fun_eq_iff)
  define ty where "ty = (if opt AND LW_OPTION_ITIMER \<noteq> 0 then LW_TYPE_TIMER_ITIMER else LW_TYPE_TIMER_HTIMER)"
  define x where "x = (tm_tmr s t)\<lparr>TIMER_cTmrName := event_name nm, TIMER_ucType := ty,
    TIMER_ulCounterSave := 0, TIMER_ulOption := 0, TIMER_ucStatus := LW_TIMER_STATUS_STOP,
    TIMER_cbRoutine := 0, TIMER_pvArg := 0, TIMER_ulThreadId := 0, TIMER_u64Overrun := 0,
    TIMER_clockid := CLOCK_REALTIME, TIMER_pvTimerfd := 0\<rparr>"
  define s1 where "s1 = snd (Allocate_Timer_Object (tk_upd KERNEL_ENTER s))"
  have s1: "Allocate_Timer_Object (tk_upd KERNEL_ENTER s) = (Some t, s1)" "tm_tmr s1 = tm_tmr s" "tm_free s1 = ts"
    using f by (simp_all add: s1_def Allocate_Timer_Object_def Let_def tk_upd_def)
  have w1: "tm_wu L s1 = tm_wu L s" for L
    using f by (cases L) (simp_all add: s1_def Allocate_Timer_Object_def Let_def tk_upd_def)
  have s': "s' = wu_map (line_of ty) ?set (tmr_upd t (\<lambda>_. x) (tk_upd KERNEL_EXIT s1))"
    using False s1(1,2) by (simp add: s'_def TimerCreate_def Let_def ty_def[symmetric] x_def tmr_upd_def)
  have e: "tm_wu L s' = (if L = line_of ty then ?set (tm_wu L s) else tm_wu L s)"
      "TIMER_ucType (tm_tmr s' t) = ty" "TIMER_ucStatus (tm_tmr s' t) = LW_TIMER_STATUS_STOP"
      "u \<noteq> t \<Longrightarrow> tm_tmr s' u = tm_tmr s u" "tm_free s' = ts" "ty \<noteq> LW_TYPE_TIMER_UNUSED" for L u
    using s1 w1 by (simp_all add: s' x_def) (simp add: ty_def)
  have w: "wu_ok (tm_wu L s')" "WU_line (tm_wu L s') = WU_line (tm_wu L s)" "dues (tm_wu L s') = dues (tm_wu L s)"
    "op_ok (tm_wu L s') = op_ok (tm_wu L s)" for L
    using e(1)[of L] off[of L] tmr_okD(1)[OF ok, of L]
    by (cases "L = line_of ty"; simp only: wset if_True if_False wu_ok_set dues_set op_ok_set set_counter_reads)+
  have "tmr_ok s'"
  proof (rule tmr_ok_change[OF ok w(1), where t = t])
    show "u \<in> set (WU_line (tm_wu L s')) \<longleftrightarrow> (if u = t then armed s' L t else u \<in> set (WU_line (tm_wu L s)))" for L u
      using w(2) off e(3) by (simp add: armed_def)
    show "u \<in> set (tm_free s') \<longleftrightarrow> u < LW_CFG_MAX_TIMERS \<and> TIMER_ucType (tm_tmr s' u) = LW_TYPE_TIMER_UNUSED" for u
      using tmr_okD(4)[OF ok, of u] f e(2,4,5) t e(6) by (cases "u = t") auto
  qed (use e t in \<open>simp_all add: armed_def\<close>)
  then show ?thesis using w by (simp add: kept_def s'_def)
qed

section \<open>A turn of a service\<close>

text \<open>The timer at the head of the line is due: it fires, and is armed again or stopped.\<close>

lemma turn_fire:
  fixes k :: ULONG
  assumes ok: "tmr_ok s" and d: "dues (tm_wu L s) = (t, unat k) # rest" and p: "WU_plineOp (tm_wu L s) = Some t"
  defines "r \<equiv> TimerPass_turn L k s"
  shows "\<exists>cb arg. fst r = Some (t, cb, arg, 0)" "tmr_ok (snd r)" "op_ok (tm_wu L (snd r))"
    "set (dues (tm_wu L (snd r))) \<subseteq> (\<lambda>(n, d). (n, d - unat k)) ` set rest \<union>
       {(t, unat (TIMER_ulCounterSave (tm_tmr (snd r) t)))} - {(t, 0)}"
    "L' \<noteq> L \<Longrightarrow> tm_wu L' (snd r) = tm_wu L' s" "t \<notin> fst ` set rest"
proof -
  note td = tmr_okD[OF ok]
  let ?w = "tm_wu L s" and ?x = "tm_tmr s t"
  note f = pass_fire[OF td(1) d]
  define w2 where "w2 = WakeupDel t (fst (WAKEUP_PASS_FIRST t k ?w))"
  note f = f[folded w2_def]
  have dist: "distinct (t # map fst rest)" using dues_distinct[OF td(1)[of L]] d by simp
  then show nt: "t \<notin> fst ` set rest" by simp
  have "WU_line ?w = t # map fst rest" using arg_cong[OF d, of "map fst"] by simp
  then have ar: "armed s L t" using td(2)[of t L] by simp
  have off: "t \<notin> set (WU_line w2)" using f(5) by simp
  let ?auto = "TIMER_ulOption ?x AND LW_OPTION_AUTO_RESTART \<noteq> 0"
  define s3 where "s3 = (if ?auto then wu_map L (\<lambda>_. WakeupAdd t (set_counter t (TIMER_ulCounterSave ?x) w2)) s
    else tmr_upd t (\<lambda>x. x\<lparr>TIMER_ucStatus := LW_TIMER_STATUS_STOP\<rparr>) (wu_map L (\<lambda>_. w2) s))"
  have wm: "wu_map L g (wu_map L h s) = wu_map L (\<lambda>w. g (h w)) s" for g h by (cases L) simp_all
  have r: "r = (Some (t, TIMER_cbRoutine (tm_tmr s3 t), TIMER_pvArg (tm_tmr s3 t), 0), s3)"
    using f(1) p by (simp add: r_def TimerPass_turn_def split_beta Let_def wm s3_def w2_def)
  then show "\<exists>cb arg. fst r = Some (t, cb, arg, 0)" by simp
  have other: "tm_wu L' s3 = tm_wu L' s" if "L' \<noteq> L" for L' using that by (simp add: s3_def)
  then show "L' \<noteq> L \<Longrightarrow> tm_wu L' (snd r) = tm_wu L' s" using r by simp
  have nz: "TIMER_ulCounterSave ?x \<noteq> 0" if ?auto using td(7)[OF ar that] .
  note en = enline_ok[OF f(2) off, where v = "TIMER_ulCounterSave ?x"]
  have w: "wu_ok (tm_wu L s3)" "op_ok (tm_wu L s3)"
    using f(2) en(1,4) op_first_ok[OF f(4)] nz by (simp_all add: s3_def)
  show "op_ok (tm_wu L (snd r))" using w r by simp
  have ar3: "armed s3 L' t \<longleftrightarrow> ?auto \<and> L' = L" for L' using ar by (auto simp: armed_def s3_def)
  have "tmr_ok s3"
  proof (rule tmr_ok_change[OF ok, where t = t])
    show "wu_ok (tm_wu L' s3)" for L' using w(1) other[of L'] td(1)[of L'] by (cases "L' = L") simp_all
    show "u \<in> set (WU_line (tm_wu L' s3)) \<longleftrightarrow> (if u = t then armed s3 L' t else u \<in> set (WU_line (tm_wu L' s)))" for L' u
    proof (cases "L' = L")
      case True
      then show ?thesis unfolding ar3 using f(5) en(2) by (auto simp: s3_def)
    next
      case False
      then show ?thesis unfolding ar3 using other td(2)[of u L'] ar armed_line by auto
    qed
  qed (use td(3,4,5) ar nz ar3 in \<open>auto simp: s3_def armed_def\<close>)
  then show "tmr_ok (snd r)" using r by simp
  have "set (dues (tm_wu L s3)) = (\<lambda>(n, d). (n, d - unat k)) ` set rest \<union>
      (if ?auto then {(t, unat (TIMER_ulCounterSave ?x))} else {})"
    using f(3) en(3) by (auto simp: s3_def)
  moreover have "TIMER_ulCounterSave (tm_tmr s3 t) = TIMER_ulCounterSave ?x" by (simp add: s3_def)
  ultimately show "set (dues (tm_wu L (snd r))) \<subseteq> (\<lambda>(n, d). (n, d - unat k)) ` set rest \<union>
       {(t, unat (TIMER_ulCounterSave (tm_tmr (snd r) t)))} - {(t, 0)}"
    using nt nz r by (auto simp: unat_eq_0 image_iff split: if_splits)
qed

text \<open>Nothing fires: the line of a turn that ends the pass.\<close>

lemma turn_end:
  assumes ok: "tmr_ok s" and p: "WU_plineOp (tm_wu L s) = Some t" and n: "snd (WAKEUP_PASS_FIRST t k (tm_wu L s)) = None"
    and w: "wu_ok (fst (WAKEUP_PASS_FIRST t k (tm_wu L s)))"
      "WU_line (fst (WAKEUP_PASS_FIRST t k (tm_wu L s))) = WU_line (tm_wu L s)"
  defines "r \<equiv> TimerPass_turn L k s"
  shows "fst r = None" "tmr_ok (snd r)" "tm_wu L' (snd r) = (if L' = L then fst (WAKEUP_PASS_FIRST t k (tm_wu L s)) else tm_wu L' s)"
    "tm_tmr (snd r) = tm_tmr s"
proof -
  have r: "r = (None, wu_map L (\<lambda>_. fst (WAKEUP_PASS_FIRST t k (tm_wu L s))) s)"
    using p n by (simp add: r_def TimerPass_turn_def split_beta Let_def)
  then show "fst r = None" "tm_tmr (snd r) = tm_tmr s"
    "tm_wu L' (snd r) = (if L' = L then fst (WAKEUP_PASS_FIRST t k (tm_wu L s)) else tm_wu L' s)" by simp_all
  have a: "armed (wu_map L g s) = armed s" for g by (simp add: fun_eq_iff)
  show "tmr_ok (snd r)" using ok w unfolding r tmr_ok_def snd_conv a by simp
qed

section \<open>Runs\<close>

text \<open>\<open>tr_now L\<close> counts the ticks of the service of \<open>L\<close>, \<open>tr_at t\<close> is the tick at which \<open>t\<close> is
  due, \<open>tr_pass L\<close> are the ticks left of a pass that waits for a callback, and \<open>tr_log\<close> the
  timers that fired, each with the tick and the tick at which it was due.\<close>

record trun =
  tr_s :: timers
  tr_now :: "tline \<Rightarrow> nat"
  tr_at :: "nat \<Rightarrow> nat"
  tr_pass :: "tline \<Rightarrow> ULONG option"
  tr_log :: "(nat \<times> nat \<times> nat) list"

definition called :: "tcall \<Rightarrow> trun \<Rightarrow> trun" where
  "called c r = r\<lparr>tr_s := texec c (tr_s r), tr_at := (case starts c (tr_s r) of
     None \<Rightarrow> tr_at r
   | Some (t, v) \<Rightarrow> (tr_at r)(t := tr_now r (line_of (TIMER_ucType (tm_tmr (tr_s r) t))) + unat v))\<rparr>"

definition served :: "tline \<Rightarrow> (nat \<times> ULONG \<times> ULONG \<times> ULONG) option \<times> timers \<Rightarrow> trun \<Rightarrow> trun" where
  "served L x r = (case fst x of
     None \<Rightarrow> r\<lparr>tr_s := snd x, tr_pass := (tr_pass r)(L := None)\<rparr>
   | Some (t, cb, arg, k) \<Rightarrow> r\<lparr>tr_s := snd x, tr_pass := (tr_pass r)(L := Some k),
       tr_log := (t, tr_now r L, tr_at r t) # tr_log r,
       tr_at := (tr_at r)(t := tr_now r L + unat (TIMER_ulCounterSave (tm_tmr (snd x) t)))\<rparr>)"

text \<open>The thread of the slow timers runs with the rate 1.\<close>

fun service :: "tline \<Rightarrow> timers \<Rightarrow> (nat \<times> ULONG \<times> ULONG \<times> ULONG) option \<times> timers" where
  "service HTmr s = TimerHTicks s"
| "service ITmr s = ITimerThread 1 s"

lemma service_begin: "service L s = TimerPass_begin L 1 s"
  by (cases L) (simp_all add: TimerHTicks_def ITimerThread_def)

text \<open>A reset is legal unless it starts the timer with no ticks.\<close>

inductive trun_step :: "trun \<Rightarrow> trun \<Rightarrow> bool" where
  Call: "(\<And>t v. starts c (tr_s r) = Some (t, v) \<Longrightarrow> v \<noteq> 0) \<Longrightarrow> trun_step r (called c r)"
| Tick: "tr_pass r L = None \<Longrightarrow>
    trun_step r (served L (service L (tr_s r)) (r\<lparr>tr_now := (tr_now r)(L := Suc (tr_now r L))\<rparr>))"
| Turn: "tr_pass r L = Some k \<Longrightarrow> trun_step r (served L (TimerPass_next L k (tr_s r)) r)"
| Kernel: "trun_step r (r\<lparr>tr_s := tk_upd f (tr_s r)\<rparr>)"

inductive trun_reach :: "trun \<Rightarrow> trun \<Rightarrow> bool" for r0 where
  Start: "trun_reach r0 r0"
| Step: "\<lbrakk>trun_reach r0 r; trun_step r r'\<rbrakk> \<Longrightarrow> trun_reach r0 r'"

definition on_time :: "trun \<Rightarrow> bool" where
  "on_time r \<longleftrightarrow> tmr_ok (tr_s r) \<and> (\<forall>x\<in>set (tr_log r). fst (snd x) = snd (snd x)) \<and>
    (\<forall>L. (\<forall>x\<in>set (dues (tm_wu L (tr_s r))). tr_at r (fst x) = tr_now r L + snd x) \<and>
      (case tr_pass r L of
         None \<Rightarrow> \<forall>x\<in>set (dues (tm_wu L (tr_s r))). snd x \<noteq> 0
       | Some k \<Rightarrow> k = 0 \<and> op_ok (tm_wu L (tr_s r))))"

lemma on_timeD:
  assumes "on_time r"
  shows "tmr_ok (tr_s r)" "y \<in> set (tr_log r) \<Longrightarrow> fst (snd y) = snd (snd y)"
    "x \<in> set (dues (tm_wu L (tr_s r))) \<Longrightarrow> tr_at r (fst x) = tr_now r L + snd x"
    "\<lbrakk>tr_pass r L = None; x \<in> set (dues (tm_wu L (tr_s r)))\<rbrakk> \<Longrightarrow> snd x \<noteq> 0"
    "tr_pass r L = Some k \<Longrightarrow> k = 0" "tr_pass r L = Some k \<Longrightarrow> op_ok (tm_wu L (tr_s r))"
proof -
  show "tmr_ok (tr_s r)" "y \<in> set (tr_log r) \<Longrightarrow> fst (snd y) = snd (snd y)" using assms by (simp_all add: on_time_def)
  have "(\<forall>x\<in>set (dues (tm_wu L (tr_s r))). tr_at r (fst x) = tr_now r L + snd x) \<and>
      (case tr_pass r L of
         None \<Rightarrow> \<forall>x\<in>set (dues (tm_wu L (tr_s r))). snd x \<noteq> 0
       | Some k \<Rightarrow> k = 0 \<and> op_ok (tm_wu L (tr_s r)))" using assms unfolding on_time_def by blast
  then show "x \<in> set (dues (tm_wu L (tr_s r))) \<Longrightarrow> tr_at r (fst x) = tr_now r L + snd x"
    "\<lbrakk>tr_pass r L = None; x \<in> set (dues (tm_wu L (tr_s r)))\<rbrakk> \<Longrightarrow> snd x \<noteq> 0"
    "tr_pass r L = Some k \<Longrightarrow> k = 0" "tr_pass r L = Some k \<Longrightarrow> op_ok (tm_wu L (tr_s r))" by auto
qed

lemma on_timeI:
  assumes "tmr_ok (tr_s r)" "\<And>y. y \<in> set (tr_log r) \<Longrightarrow> fst (snd y) = snd (snd y)"
    "\<And>L x. x \<in> set (dues (tm_wu L (tr_s r))) \<Longrightarrow> tr_at r (fst x) = tr_now r L + snd x"
    "\<And>L x. \<lbrakk>tr_pass r L = None; x \<in> set (dues (tm_wu L (tr_s r)))\<rbrakk> \<Longrightarrow> snd x \<noteq> 0"
    "\<And>L k. tr_pass r L = Some k \<Longrightarrow> k = 0 \<and> op_ok (tm_wu L (tr_s r))"
  shows "on_time r"
  unfolding on_time_def using assms by (auto split: option.split)

lemma due_armed: "\<lbrakk>tmr_ok s; x \<in> set (dues (tm_wu L s))\<rbrakk> \<Longrightarrow> armed s L (fst x)"
  using tmr_okD(2)[of s "fst x" L] by (simp flip: map_fst_dues)

lemma on_time_called:
  assumes r: "on_time r" and z: "\<And>t v. starts c (tr_s r) = Some (t, v) \<Longrightarrow> v \<noteq> 0"
  shows "on_time (called c r)"
proof -
  note d = on_timeD[OF r]
  let ?s = "tr_s r" and ?s' = "texec c (tr_s r)"
  consider (kept) "starts c ?s = None" "kept ?s ?s'" | (gone) t where "starts c ?s = None" "moved ?s ?s' t None"
    | (started) t v where "starts c ?s = Some (t, v)" "moved ?s ?s' t (Some v)" "v \<noteq> 0"
  proof (cases c)
    case (TCreate nm opt)
    then show ?thesis using TimerCreate_kept[OF d(1)] that(1) by simp
  next
    case (TDelete h)
    then show ?thesis using TimerDelete_moved[OF d(1), of h] that(1,2) by auto
  next
    case (TStart h i n opt cb arg)
    show ?thesis using TimerStartEx_moved[OF d(1), of h i n opt cb arg] that(1,3)
      unfolding TStart texec.simps by (cases "starts (TStart h i n opt cb arg) (tr_s r)") (auto simp del: starts.simps)
  next
    case (TReset h)
    show ?thesis using TimerReset_moved[OF d(1) z[unfolded TReset], of h] that(1,3) z
      unfolding TReset texec.simps by (cases "starts (TReset h) (tr_s r)") (auto simp del: starts.simps)
  next
    case (TCancel h)
    then show ?thesis using TimerCancel_moved[OF d(1), of h] that(1,2) by auto
  qed
  then show ?thesis
  proof cases
    case kept
    then have c: "called c r = r\<lparr>tr_s := ?s'\<rparr>" by (simp add: called_def)
    show ?thesis unfolding c
      by (rule on_timeI; use kept(2) d in \<open>simp add: kept_def\<close>)
  next
    case gone
    then have c: "called c r = r\<lparr>tr_s := ?s'\<rparr>" by (simp add: called_def)
    show ?thesis unfolding c
      by (rule on_timeI; use gone(2) d in \<open>simp add: moved_def\<close>)
  next
    case started
    have ty: "line_of (TIMER_ucType (tm_tmr ?s t)) = L" if "armed ?s' L t" for L
      using started(2) that by (simp add: moved_def armed_def)
    have ds: "x \<in> set (dues (tm_wu L ?s)) \<and> fst x \<noteq> t \<or> armed ?s' L t \<and> x = (t, unat v)" if "x \<in> set (dues (tm_wu L ?s'))" for L x
      using started(2) that by (auto simp: moved_def split: if_splits)
    have at: "tr_at (called c r) = (tr_at r)(t := tr_now r (line_of (TIMER_ucType (tm_tmr ?s t))) + unat v)"
      using started(1) by (simp add: called_def)
    have "tr_at (called c r) (fst x) = tr_now r L + snd x" if "x \<in> set (dues (tm_wu L ?s'))" for L x
      using ds[OF that] ty d(3) by (auto simp: at)
    moreover have "snd x \<noteq> 0" if "x \<in> set (dues (tm_wu L ?s'))" "tr_pass r L = None" for L x
    proof -
      have "0 < unat v" using started(3) by (simp add: unat_gt_0)
      then show ?thesis using ds[OF that(1)] d(4)[OF that(2), of x] by auto
    qed
    moreover have "tr_s (called c r) = ?s'" "tr_now (called c r) = tr_now r" "tr_pass (called c r) = tr_pass r" "tr_log (called c r) = tr_log r"
      by (simp_all add: called_def)
    moreover have "tmr_ok ?s'" "op_ok (tm_wu L ?s) \<Longrightarrow> op_ok (tm_wu L ?s')" for L using started(2) by (simp_all add: moved_def)
    ultimately show ?thesis using d(2,5,6) by (intro on_timeI) simp_all
  qed
qed

text \<open>The pass, whose first turn charges the tick.\<close>

lemma pass_keeps:
  fixes k :: ULONG
  assumes ok: "tmr_ok (tr_s r)" and lg: "\<And>y. y \<in> set (tr_log r) \<Longrightarrow> fst (snd y) = snd (snd y)"
    and at: "\<And>L x. x \<in> set (dues (tm_wu L (tr_s r))) \<Longrightarrow> tr_at r (fst x) + (if L = M then unat k else 0) = tr_now r L + snd x"
    and nz: "\<And>L x. \<lbrakk>L \<noteq> M; tr_pass r L = None; x \<in> set (dues (tm_wu L (tr_s r)))\<rbrakk> \<Longrightarrow> snd x \<noteq> 0"
    and pk: "\<And>L k. \<lbrakk>L \<noteq> M; tr_pass r L = Some k\<rbrakk> \<Longrightarrow> k = 0 \<and> op_ok (tm_wu L (tr_s r))"
    and fst_ok: "k = 0 \<or> op_first (tm_wu M (tr_s r))" "op_ok (tm_wu M (tr_s r))"
    and ge: "\<And>x. x \<in> set (dues (tm_wu M (tr_s r))) \<Longrightarrow> unat k \<le> snd x"
  shows "on_time (served M (TimerPass_turn M k (tr_s r)) r)"
proof -
  let ?s = "tr_s r" and ?w = "tm_wu M (tr_s r)"
  define x where "x = TimerPass_turn M k ?s"
  note w = tmr_okD(1)[OF ok, of M]
  show ?thesis
  proof (cases "WU_plineOp ?w")
    case None
    have nod: "dues ?w = []" if "k \<noteq> 0" using fst_ok that None by (cases "dues ?w") (auto simp: op_first_def)
    have n0: "snd y \<noteq> 0" if "y \<in> set (dues ?w)" for y
    proof (cases "dues ?w")
      case (Cons z zs)
      have "snd z \<noteq> 0" using op_ok_zero[OF fst_ok(2), of "fst z" zs] None Cons by (cases z) auto
      then show ?thesis using dues_sorted[of ?w] Cons that by fastforce
    qed (use that in simp)
    have e: "served M x r = r\<lparr>tr_s := ?s, tr_pass := (tr_pass r)(M := None)\<rparr>"
      using None by (simp add: x_def TimerPass_turn_def served_def)
    have k0: "unat k = 0" if "y \<in> set (dues ?w)" for y using nod that by (cases "k = 0") auto
    show ?thesis unfolding x_def[symmetric] e
    proof (rule on_timeI)
      fix L y
      assume y: "y \<in> set (dues (tm_wu L (tr_s (r\<lparr>tr_s := ?s, tr_pass := (tr_pass r)(M := None)\<rparr>))))"
      show "tr_at (r\<lparr>tr_s := ?s, tr_pass := (tr_pass r)(M := None)\<rparr>) (fst y) = tr_now (r\<lparr>tr_s := ?s, tr_pass := (tr_pass r)(M := None)\<rparr>) L + snd y"
        using at[of y L] k0[of y] y by (cases "L = M") simp_all
      show "tr_pass (r\<lparr>tr_s := ?s, tr_pass := (tr_pass r)(M := None)\<rparr>) L = None \<Longrightarrow> snd y \<noteq> 0"
        using nz[of L y] n0[of y] y by (cases "L = M") simp_all
    next
      fix L k'
      assume "tr_pass (r\<lparr>tr_s := ?s, tr_pass := (tr_pass r)(M := None)\<rparr>) L = Some k'"
      then show "k' = 0 \<and> op_ok (tm_wu L (tr_s (r\<lparr>tr_s := ?s, tr_pass := (tr_pass r)(M := None)\<rparr>)))"
        using pk[of L k'] by (cases "L = M") simp_all
    qed (use ok lg in simp_all)
  next
    case (Some t)
    show ?thesis
    proof (cases "\<exists>rest. dues ?w = (t, unat k) # rest")
      case True
      then obtain rest where d: "dues ?w = (t, unat k) # rest" by blast
      note tf = turn_fire[OF ok d Some, folded x_def]
      obtain cb arg where x: "fst x = Some (t, cb, arg, 0)" using tf(1) by blast
      define r' where "r' = served M x r"
      have r': "tr_s r' = snd x" "tr_now r' = tr_now r" "tr_pass r' = (tr_pass r)(M := Some 0)"
        "tr_log r' = (t, tr_now r M, tr_at r t) # tr_log r"
        "tr_at r' = (tr_at r)(t := tr_now r M + unat (TIMER_ulCounterSave (tm_tmr (snd x) t)))"
        using x by (simp_all add: r'_def served_def)
      have t0: "tr_at r t = tr_now r M" using at[of "(t, unat k)" M] d by simp
      have "tr_at r' (fst y) = tr_now r' L + snd y" if y: "y \<in> set (dues (tm_wu L (tr_s r')))" for L y
      proof (cases "L = M")
        case True
        then have "y \<in> (\<lambda>(n, d). (n, d - unat k)) ` set rest \<or> y = (t, unat (TIMER_ulCounterSave (tm_tmr (snd x) t)))"
          using tf(4) y by (auto simp: r')
        then show ?thesis
        proof
          assume "y \<in> (\<lambda>(n, d). (n, d - unat k)) ` set rest"
          then obtain n e where ne: "(n, e) \<in> set rest" "y = (n, e - unat k)" by auto
          then have "n \<noteq> t" using tf(6) by force
          then show ?thesis using at[of "(n, e)" M] ge[of "(n, e)"] ne d True by (auto simp: r')
        qed (simp add: r' True)
      next
        case False
        have "armed ?s M t" using due_armed[OF ok, of "(t, unat k)" M] d by simp
        then have "fst y \<noteq> t" using due_armed[OF ok, of y L] y tf(5)[OF False] False armed_line by (auto simp: r')
        then show ?thesis using at[of y L] y tf(5)[OF False] False by (simp add: r')
      qed
      then have "on_time r'"
        by (intro on_timeI) (use tf(2,3,5) lg nz pk t0 in \<open>auto simp: r' split: if_splits\<close>)
      then show ?thesis by (simp add: r'_def x_def)
    next
      case False
      have fx: "snd (WAKEUP_PASS_FIRST t k ?w) = None \<and> wu_ok (fst (WAKEUP_PASS_FIRST t k ?w)) \<and>
        dues (fst (WAKEUP_PASS_FIRST t k ?w)) = map (\<lambda>(n, d). (n, d - unat k)) (dues ?w) \<and>
        WU_line (fst (WAKEUP_PASS_FIRST t k ?w)) = WU_line ?w \<and> (\<forall>x\<in>set (dues ?w). snd x \<noteq> unat k)"
      proof (cases "k = 0")
        case True
        show ?thesis using pass_rest[OF w fst_ok(2) Some] False True by (simp add: case_prod_unfold)
      next
        case nk: False
        then obtain e rest where d: "dues ?w = (t, e) # rest" using fst_ok(1) Some by (auto simp: op_first_def split: list.splits)
        have "unat k < e" using ge[of "(t, e)"] d False by auto
        then show ?thesis using pass_charge[OF w d] dues_sorted[of ?w] d by fastforce
      qed
      have fx': "snd (WAKEUP_PASS_FIRST t k ?w) = None" "wu_ok (fst (WAKEUP_PASS_FIRST t k ?w))"
        "WU_line (fst (WAKEUP_PASS_FIRST t k ?w)) = WU_line ?w" using fx by blast+
      note te = turn_end[OF ok Some fx', folded x_def]
      have e: "served M x r = r\<lparr>tr_s := snd x, tr_pass := (tr_pass r)(M := None)\<rparr>" using te(1) by (simp add: served_def)
      have du: "dues (tm_wu L (snd x)) = (if L = M then map (\<lambda>(n, d). (n, d - unat k)) (dues ?w) else dues (tm_wu L ?s))" for L
        using te(3)[of L] fx by simp
      have "tr_at r (fst y) = tr_now r L + snd y \<and> (tr_pass r L = None \<or> L = M \<longrightarrow> snd y \<noteq> 0)" if y: "y \<in> set (dues (tm_wu L (snd x)))" for L y
      proof (cases "L = M")
        case True
        then obtain n f where nf: "(n, f) \<in> set (dues ?w)" "y = (n, f - unat k)" using y du[of L] by auto
        then have "unat k < f" using ge[of "(n, f)"] fx by force
        then show ?thesis using at[of "(n, f)" M] nf True by auto
      next
        case False
        then show ?thesis using y du[of L] at[of y L] nz[of L y] by auto
      qed
      then have da: "tr_at r (fst y) = tr_now r L + snd y" "tr_pass r L = None \<or> L = M \<Longrightarrow> snd y \<noteq> 0"
        if "y \<in> set (dues (tm_wu L (snd x)))" for L y using that by blast+
      show ?thesis unfolding x_def[symmetric] e
      proof (rule on_timeI)
        fix L y
        assume "y \<in> set (dues (tm_wu L (tr_s (r\<lparr>tr_s := snd x, tr_pass := (tr_pass r)(M := None)\<rparr>))))"
        then have y: "y \<in> set (dues (tm_wu L (snd x)))" by simp
        show "tr_at (r\<lparr>tr_s := snd x, tr_pass := (tr_pass r)(M := None)\<rparr>) (fst y) =
            tr_now (r\<lparr>tr_s := snd x, tr_pass := (tr_pass r)(M := None)\<rparr>) L + snd y" using da(1)[OF y] by simp
        show "tr_pass (r\<lparr>tr_s := snd x, tr_pass := (tr_pass r)(M := None)\<rparr>) L = None \<Longrightarrow> snd y \<noteq> 0"
          using da(2)[OF y] by (cases "L = M") simp_all
      next
        fix L k'
        assume "tr_pass (r\<lparr>tr_s := snd x, tr_pass := (tr_pass r)(M := None)\<rparr>) L = Some k'"
        then have "L \<noteq> M" "tr_pass r L = Some k'" by (auto split: if_splits)
        then show "k' = 0 \<and> op_ok (tm_wu L (tr_s (r\<lparr>tr_s := snd x, tr_pass := (tr_pass r)(M := None)\<rparr>)))"
          using pk te(3)[of L] by simp
      qed (use te(2) lg in simp_all)
    qed
  qed
qed


lemma on_time_tk: "on_time r \<Longrightarrow> on_time (r\<lparr>tr_s := tk_upd f (tr_s r)\<rparr>)"
  by (simp add: on_time_def cong: option.case_cong)

lemma served_tk: "served L (fst x, tk_upd f (snd x)) r = (served L x r)\<lparr>tr_s := tk_upd f (tr_s (served L x r))\<rparr>"
  by (simp add: served_def split: option.split)

lemma served_s: "served L x (r\<lparr>tr_s := s\<rparr>) = served L x r"
  by (simp add: served_def split: option.split)

lemma begin_line:
  assumes "wu_ok w"
  shows "wu_ok (WAKEUP_PASS_BEGIN w)" "dues (WAKEUP_PASS_BEGIN w) = dues w" "WU_line (WAKEUP_PASS_BEGIN w) = WU_line w"
    "op_first (WAKEUP_PASS_BEGIN w)"
proof -
  show d: "dues (WAKEUP_PASS_BEGIN w) = dues w" and l: "WU_line (WAKEUP_PASS_BEGIN w) = WU_line w"
    by (simp_all add: WAKEUP_PASS_BEGIN_def dues_def)
  have q: "WUN_bInQ (WAKEUP_PASS_BEGIN w) = WUN_bInQ w" by (simp add: WAKEUP_PASS_BEGIN_def)
  have "WU_line w = map fst (dues w)" by simp
  then show "op_first (WAKEUP_PASS_BEGIN w)"
    unfolding op_first_def d by (cases "dues w") (auto simp: WAKEUP_PASS_BEGIN_def split: list.split)
  show "wu_ok (WAKEUP_PASS_BEGIN w)" using assms by (simp add: wu_ok_def d l q)
qed

lemma on_time_step:
  assumes "trun_step r r'" "on_time r"
  shows "on_time r'"
  using assms
proof (induction rule: trun_step.induct)
  case (Call c r)
  then show ?case by (intro on_time_called) auto
next
  case (Tick r M)
  note d = on_timeD[OF Tick(2)]
  let ?s0 = "wu_map M WAKEUP_PASS_BEGIN (tk_upd KERNEL_ENTER (tr_s r))"
  define q where "q = r\<lparr>tr_now := (tr_now r)(M := Suc (tr_now r M)), tr_s := ?s0\<rparr>"
  note b = begin_line[OF d(1)[THEN tmr_okD(1)], of M]
  have lines: "dues (tm_wu L ?s0) = dues (tm_wu L (tr_s r))" "WU_line (tm_wu L ?s0) = WU_line (tm_wu L (tr_s r))" for L
    using b by simp_all
  have "tmr_ok ?s0"
  proof -
    have a: "armed ?s0 L = armed (tr_s r) L" for L by (simp add: fun_eq_iff)
    show ?thesis using d(1) b(1) lines(2) unfolding tmr_ok_def a by simp
  qed
  then have "on_time (served M (TimerPass_turn M 1 (tr_s q)) q)"
  proof (intro pass_keeps)
    show "tr_at q (fst x) + (if L = M then unat (1::ULONG) else 0) = tr_now q L + snd x" if "x \<in> set (dues (tm_wu L (tr_s q)))" for L x
      using that d(3)[of x L] lines by (simp add: q_def)
    show "unat (1::ULONG) \<le> snd x" if "x \<in> set (dues (tm_wu M (tr_s q)))" for x
      using that d(4)[OF Tick(1), of x] b(2) by (simp add: q_def Suc_le_eq)
    show "k = 0 \<and> op_ok (tm_wu L (tr_s q))" if "L \<noteq> M" "tr_pass q L = Some k" for L k
      using that d(5,6)[of L k] by (simp add: q_def)
    show "snd x \<noteq> 0" if "L \<noteq> M" "tr_pass q L = None" "x \<in> set (dues (tm_wu L (tr_s q)))" for L x
      using that d(4)[of L x] by (simp add: q_def)
  qed (use d(2) b(4) op_first_ok[OF b(4)] in \<open>simp_all add: q_def\<close>)
  from on_time_tk[OF this, of KERNEL_EXIT] show ?case
    by (simp add: service_begin TimerPass_begin_def split_beta served_tk q_def served_s)
next
  case (Turn r M k)
  note d = on_timeD[OF Turn(2)]
  define q where "q = r\<lparr>tr_s := tk_upd KERNEL_ENTER (tr_s r)\<rparr>"
  have k: "k = 0" using d(5)[OF Turn(1)] .
  have "on_time (served M (TimerPass_turn M k (tr_s q)) q)"
  proof (intro pass_keeps)
    show "tr_at q (fst x) + (if L = M then unat k else 0) = tr_now q L + snd x" if "x \<in> set (dues (tm_wu L (tr_s q)))" for L x
      using that d(3)[of x L] k by (simp add: q_def)
    show "k' = 0 \<and> op_ok (tm_wu L (tr_s q))" if "L \<noteq> M" "tr_pass q L = Some k'" for L k'
      using that d(5,6)[of L k'] by (simp add: q_def)
    show "snd x \<noteq> 0" if "L \<noteq> M" "tr_pass q L = None" "x \<in> set (dues (tm_wu L (tr_s q)))" for L x
      using that d(4)[of L x] by (simp add: q_def)
  qed (use d(1,2) d(6)[OF Turn(1)] k in \<open>simp_all add: q_def\<close>)
  from on_time_tk[OF this, of KERNEL_EXIT] show ?case
    by (simp add: TimerPass_next_def split_beta served_tk q_def served_s)
next
  case (Kernel r f)
  then show ?case by (rule on_time_tk)
qed

lemma on_time_reach: "\<lbrakk>trun_reach r0 r; on_time r0\<rbrakk> \<Longrightarrow> on_time r"
  by (induction rule: trun_reach.induct) (auto intro: on_time_step)

end
