(* ===== verification/Timer_Props.thy ===== *)
theory Timer_Props
  imports Timer_Runs Boot
begin

text \<open>
  What the timers promise: every timer fires at the tick at which it is due, the handle of a
  timer lives from its creation to its deletion; and two places where they do otherwise, the
  reset of a timer whose first interval differs from its period, and the service of the slow
  timers at a rate above one tick.
\<close>

section \<open>The first state\<close>

text \<open>Memory as the start-up code leaves it, and the state after \<open>_TimerInit\<close>.\<close>

definition tm_zeroed :: "timers \<Rightarrow> bool" where
  "tm_zeroed s \<longleftrightarrow> (\<forall>t. TIMER_ucStatus (tm_tmr s t) = LW_TIMER_STATUS_STOP \<and>
     \<not> WUN_bInQ (tm_wuH s) t \<and> \<not> WUN_bInQ (tm_wuI s) t)"


lemma TimerInit_line: "WU_line (tm_wu L (TimerInit s)) = []" "dues (tm_wu L (TimerInit s)) = []"
  by (cases L; simp add: TimerInit_def dues_def)+

lemma TimerInit_ok:
  assumes "tm_zeroed s"
  shows "tmr_ok (TimerInit s)"
proof -
  have "\<not> WUN_bInQ (tm_wu L (TimerInit s)) t" for L t
    using assms by (cases L) (simp_all add: TimerInit_def tm_zeroed_def)
  then have w: "wu_ok (tm_wu L (TimerInit s))" for L by (simp add: wu_ok_def TimerInit_line)
  have x: "TIMER_ucStatus (tm_tmr (TimerInit s) t) = LW_TIMER_STATUS_STOP"
    "t < LW_CFG_MAX_TIMERS \<Longrightarrow> TIMER_ucType (tm_tmr (TimerInit s) t) = LW_TYPE_TIMER_UNUSED" for t
    using assms by (simp_all add: TimerInit_def tm_zeroed_def)
  have f: "tm_free (TimerInit s) = [0..<LW_CFG_MAX_TIMERS]" by (simp add: TimerInit_def)
  have a: "\<not> armed (TimerInit s) L t" for L t using x by (auto simp: armed_def)
  show ?thesis unfolding tmr_ok_def f using w x a by (auto simp: TimerInit_line)
qed


section \<open>Firing\<close>


text \<open>A periodic timer, started with 2 ticks and a period of 3.\<close>

definition tm0 :: timers where
  "tm0 = \<lparr>tm_k = boot, tm_tmr = (\<lambda>_. \<lparr>TIMER_ucType = 0, TIMER_ulCounterSave = 0, TIMER_ulOption = 0,
     TIMER_ucStatus = LW_TIMER_STATUS_STOP, TIMER_cbRoutine = 0, TIMER_pvArg = 0, TIMER_ulThreadId = 0,
     TIMER_u64Overrun = 0, TIMER_clockid = 0, TIMER_pvTimerfd = 0, TIMER_cTmrName = []\<rparr>),
     tm_wuH = WAKEUP_INIT, tm_wuI = WAKEUP_INIT, tm_free = [], tm_resUsed = 0, tm_resMaxUsed = 0\<rparr>"

definition tm_id :: "nat \<Rightarrow> ULONG" where "tm_id t = MakeObjectId OBJECT_TIMER LW_CFG_PROCESSOR_NUMBER (of_nat t)"

lemma tm_zeroed0: "tm_zeroed tm0" by (simp add: tm_zeroed_def tm0_def WAKEUP_INIT_def)

lemma TimerOpen_id:
  assumes "t < LW_CFG_MAX_TIMERS" "TIMER_ucType (tm_tmr s t) \<noteq> LW_TYPE_TIMER_UNUSED"
  shows "TimerOpen (tm_id t) s = Inr (t, tk_upd KERNEL_ENTER s)"
proof -
  have u: "unat (of_nat t :: UINT16) = t" using assms(1) by (simp add: unsigned_of_nat take_bit_nat_eq_self)
  show ?thesis unfolding TimerOpen_def tm_id_def using assms u
    by (simp add: ObjectClassOK_Make Timer_Index_Invalid_def Timer_Type_Invalid_def tk_upd_def)
qed

lemmas timer_eval = TimerCreate_def TimerStartEx_def TimerStart_def TimerReset_def TimerCancel_def Allocate_Timer_Object_def
  Object_Name_Invalid_def Let_def tk_upd_def tmr_upd_def TimerAdd_def TimerDel_def set_counter_def line_of_def
  WakeupAdd_def WakeupDel_def event_name_def

lemma nesting_frame: "run_frame s s' \<Longrightarrow> LW_CPU_GET_CUR_NESTING s' = LW_CPU_GET_CUR_NESTING s"
  by (simp add: LW_CPU_GET_CUR_NESTING_def run_frame_kernelD(7) run_frame_cpuD(3))

lemma nesting_kernel [simp]:
  "LW_CPU_GET_CUR_NESTING (KERNEL_ENTER s) = LW_CPU_GET_CUR_NESTING s"
  "LW_CPU_GET_CUR_NESTING (KERNEL_EXIT s) = LW_CPU_GET_CUR_NESTING s"
  by (rule nesting_frame[OF run_frame_kernel(1)], rule nesting_frame[OF run_frame_kernel(2)])

definition tm1 :: timers where "tm1 = texec (TCreate None 0) (TimerInit tm0)"

lemma tm1_reads: "TIMER_ucType (tm_tmr tm1 0) = LW_TYPE_TIMER_HTIMER" "TIMER_ucStatus (tm_tmr tm1 0) = LW_TIMER_STATUS_STOP"
  "WU_line (tm_wuH tm1) = []"
  by (simp_all add: tm1_def TimerInit_def tm0_def upt_conv_Cons timer_eval)



lemmas pass_eval = TimerPass_begin_def TimerPass_next_def TimerPass_turn_def WAKEUP_PASS_BEGIN_def WAKEUP_PASS_FIRST_def


lemma tm_id_index: "t < LW_CFG_MAX_TIMERS \<Longrightarrow> unat (ObjectGetIndex (tm_id t)) = t"
  by (simp add: tm_id_def unsigned_of_nat take_bit_nat_eq_self)







section \<open>Reset\<close>

lemma TimerOpen_again:
  assumes "TimerOpen h s = Inr x" "TIMER_ucType (tm_tmr s' (unat (ObjectGetIndex h))) \<noteq> LW_TYPE_TIMER_UNUSED"
  shows "TimerOpen h s' = Inr (unat (ObjectGetIndex h), tk_upd KERNEL_ENTER s')"
  using assms by (auto simp: TimerOpen_def Timer_Type_Invalid_def Let_def split: if_splits)

lemma TimerStartEx_sets:
  assumes "fst (TimerStartEx h n c opt cb arg s) = ERROR_NONE"
  defines "s' \<equiv> snd (TimerStartEx h n c opt cb arg s)" and "t \<equiv> unat (ObjectGetIndex h)"
  shows "t < LW_CFG_MAX_TIMERS" "TimerOpen h s = Inr (t, tk_upd KERNEL_ENTER s)"
    "tm_tmr s' t = (tm_tmr s t)\<lparr>TIMER_ulCounterSave := c, TIMER_ulOption := opt,
       TIMER_ucStatus := LW_TIMER_STATUS_RUNNING, TIMER_cbRoutine := cb, TIMER_pvArg := arg, TIMER_u64Overrun := 0\<rparr>"
    "TIMER_ucType (tm_tmr s t) \<noteq> LW_TYPE_TIMER_UNUSED"
proof -
  have g: "\<not> (cb = 0 \<or> n = 0 \<or> opt AND LW_OPTION_AUTO_RESTART \<noteq> 0 \<and> c = 0)"
    using assms(1) by (auto simp: TimerStartEx_def split: if_splits)
  have "t < LW_CFG_MAX_TIMERS \<and> TimerOpen h s = Inr (t, tk_upd KERNEL_ENTER s) \<and> TIMER_ucType (tm_tmr s t) \<noteq> LW_TYPE_TIMER_UNUSED"
  proof (cases rule: TimerOpen_cases[of h s])
    case (bad r f)
    then show ?thesis using assms(1) g by (auto simp: TimerStartEx_def split: if_splits)
  qed (simp add: t_def)
  then show "t < LW_CFG_MAX_TIMERS" "TimerOpen h s = Inr (t, tk_upd KERNEL_ENTER s)" "TIMER_ucType (tm_tmr s t) \<noteq> LW_TYPE_TIMER_UNUSED"
    by simp_all
  then show "tm_tmr s' t = (tm_tmr s t)\<lparr>TIMER_ulCounterSave := c, TIMER_ulOption := opt,
       TIMER_ucStatus := LW_TIMER_STATUS_RUNNING, TIMER_cbRoutine := cb, TIMER_pvArg := arg, TIMER_u64Overrun := 0\<rparr>"
    using g by (auto simp: s'_def TimerStartEx_def Let_def)
qed

lemma status_due:
  assumes "wu_ok w" "(t, d) \<in> set (dues w)"
  shows "unat (WakeupStatus w t) = d"
proof -
  have "t \<in> set (WU_line w)" using assms(2) map_fst_dues[of w] by (metis fst_conv image_eqI set_map)
  from WakeupStatus_due[OF assms(1) this] show ?thesis using dues_key_unique[OF assms(1)] assms(2) by blast
qed

lemma TimerReset_line:
  assumes ok: "tmr_ok s" and o: "TimerOpen h s = Inr (t, tk_upd KERNEL_ENTER s)" and a: "armed s L t"
  shows "fst (TimerReset h s) = ERROR_NONE" "tm_tmr (snd (TimerReset h s)) = tm_tmr s"
    "tm_wu L (snd (TimerReset h s)) = WakeupAdd t (set_counter t (TIMER_ulCounterSave (tm_tmr s t)) (unline t (tm_wu L s)))"
proof -
  have st: "TIMER_ucStatus (tm_tmr s t) = LW_TIMER_STATUS_RUNNING" "L = line_of (TIMER_ucType (tm_tmr s t))"
    using a by (simp_all add: armed_def)
  have w: "tm_wu L (TimerDel t (tk_upd KERNEL_ENTER s)) = unline t (tm_wu L s)"
    using TimerDel_line[OF ok a[unfolded st(2)], of L "tk_upd KERNEL_ENTER s"] st(2) by simp
  have e: "TimerReset h s = (ERROR_NONE, tk_upd KERNEL_EXIT (TimerAdd t (TIMER_ulCounterSave (tm_tmr s t)) (TimerDel t (tk_upd KERNEL_ENTER s))))"
    using o st(1) by (simp add: TimerReset_def Let_def)
  show "fst (TimerReset h s) = ERROR_NONE" "tm_tmr (snd (TimerReset h s)) = tm_tmr s" by (simp_all add: e)
  show "tm_wu L (snd (TimerReset h s)) = WakeupAdd t (set_counter t (TIMER_ulCounterSave (tm_tmr s t)) (unline t (tm_wu L s)))"
    using w st(2) by (simp add: e TimerAdd_def)
qed

lemma zero_fires:
  assumes "wu_ok (tm_wu L s)" "dues (tm_wu L s) = (t, 0) # ds"
  shows "fst (service L s) = Some (t, TIMER_cbRoutine (tm_tmr s t), TIMER_pvArg (tm_tmr s t), 1)"
proof -
  have l: "WU_line (tm_wu L s) = t # map fst ds" using arg_cong[OF assms(2), of "map fst"] by simp
  then have "WUN_ulCounter (tm_wu L s) t = 0" using assms(2) by (simp add: dues_def unat_eq_0)
  then show ?thesis using l
    by (simp add: service_begin TimerPass_begin_def TimerPass_turn_def WAKEUP_PASS_BEGIN_def WAKEUP_PASS_FIRST_def Let_def split_beta)
qed

text \<open>
  \<open>API_TimerReset\<close> gives a running timer its period, not the interval it was started with:
  after a start with the first interval \<open>n\<close> and the period \<open>c\<close> the timer has \<open>n\<close> ticks left,
  after a reset it has \<open>c\<close>.  A one-shot timer that was started with \<open>c = 0\<close> therefore fires
  at the next tick when it is reset.
\<close>

theorem timer_reset_gives_period:
  assumes "tmr_ok s" "fst (TimerStartEx h n c opt cb arg s) = ERROR_NONE"
  shows "let t = unat (ObjectGetIndex h); L = line_of (TIMER_ucType (tm_tmr s t));
      s1 = snd (TimerStartEx h n c opt cb arg s); s2 = snd (TimerReset h s1) in
    WakeupStatus (tm_wu L s1) t = n \<and> fst (TimerReset h s1) = ERROR_NONE \<and> WakeupStatus (tm_wu L s2) t = c \<and>
    (c = 0 \<and> (\<forall>x\<in>set (dues (tm_wu L s1)). snd x \<noteq> 0) \<longrightarrow> fst (service L s2) = Some (t, cb, arg, 1))"
proof -
  define t where "t = unat (ObjectGetIndex h)"
  define L where "L = line_of (TIMER_ucType (tm_tmr s t))"
  define s1 where "s1 = snd (TimerStartEx h n c opt cb arg s)"
  define s2 where "s2 = snd (TimerReset h s1)"
  note x = TimerStartEx_sets[OF assms(2), folded t_def s1_def]
  have a1: "armed s1 L t" using x by (simp add: armed_def L_def)
  have m: "moved s s1 t (Some n)" using TimerStartEx_moved[OF assms(1), of h n c opt cb arg] assms(2) by (simp add: t_def s1_def)
  then have ok1: "tmr_ok s1" and d1: "(t, unat n) \<in> set (dues (tm_wu L s1))" using a1 by (simp_all add: moved_def)
  have o1: "TimerOpen h s1 = Inr (t, tk_upd KERNEL_ENTER s1)"
    using TimerOpen_again[OF x(2), of s1] x(3,4) by (simp add: t_def)
  note r = TimerReset_line[OF ok1 o1 a1, folded s2_def]
  note u = unline_ok[OF tmr_okD(1)[OF ok1, of L], of t]
  have e: "wu_ok (tm_wu L s2)" "dues (tm_wu L s2) = due_insert t (unat c) (dues (unline t (tm_wu L s1)))"
    using enline_ok(1,3)[OF u(1,2)] r(3) x(3) by simp_all
  have "fst (service L s2) = Some (t, cb, arg, 1)" if "c = 0" "\<forall>x\<in>set (dues (tm_wu L s1)). snd x \<noteq> 0"
  proof -
    have "\<forall>x\<in>set (dues (unline t (tm_wu L s1))). snd x \<noteq> 0" using that(2) by (simp add: u(4))
    then have "dues (tm_wu L s2) = (t, 0) # dues (unline t (tm_wu L s1))"
      unfolding e(2) that(1) by (cases "dues (unline t (tm_wu L s1))") auto
    from zero_fires[OF e(1) this] show ?thesis using r(2) x(3) by simp
  qed
  moreover have "WakeupStatus (tm_wu L s1) t = n" "WakeupStatus (tm_wu L s2) t = c"
    using status_due[OF tmr_okD(1)[OF ok1] d1] status_due[OF e(1), of t "unat c"] by (simp_all add: e(2) set_due_insert word_unat_eq_iff)
  ultimately show ?thesis unfolding Let_def t_def[symmetric] L_def[symmetric] s1_def[symmetric] s2_def[symmetric]
    using r(1) by blast
qed

text \<open>A one-shot timer of 5 ticks: reset before the first tick, it fires at the first tick.\<close>

theorem timer_reset_gives_period_witness:
  "fst (TimerStartEx (tm_id 0) 5 0 0 7 9 tm1) = ERROR_NONE \<and>
   WakeupStatus (tm_wuH (snd (TimerStartEx (tm_id 0) 5 0 0 7 9 tm1))) 0 = 5 \<and>
   fst (TimerHTicks (snd (TimerReset (tm_id 0) (snd (TimerStartEx (tm_id 0) 5 0 0 7 9 tm1))))) = Some (0, 7, 9, 1)"
proof -
  have ok: "tmr_ok tm1" using TimerCreate_kept[OF TimerInit_ok[OF tm_zeroed0], of None 0 True] by (simp add: tm1_def kept_def)
  have st: "fst (TimerStartEx (tm_id 0) 5 0 0 7 9 tm1) = ERROR_NONE"
    "WU_line (tm_wuH (snd (TimerStartEx (tm_id 0) 5 0 0 7 9 tm1))) = [0]"
    "WUN_ulCounter (tm_wuH (snd (TimerStartEx (tm_id 0) 5 0 0 7 9 tm1))) 0 = 5"
    using tm1_reads by (simp_all add: TimerOpen_id timer_eval)
  then have "\<forall>x\<in>set (dues (tm_wuH (snd (TimerStartEx (tm_id 0) 5 0 0 7 9 tm1)))). snd x \<noteq> 0" by (simp add: dues_def)
  then show ?thesis
    using timer_reset_gives_period[OF ok st(1)] st(1) tm1_reads(1) by (simp add: Let_def tm_id_index line_of_def)
qed

section \<open>The rate of the slow timers\<close>

text \<open>
  C40: The thread of the slow timers wakes every \<open>LW_ITIMER_RATE\<close> ticks and arms a periodic
  timer again before it has charged the rest of these ticks.  If the timers \<open>A\<close>, due in \<open>a\<close>
  ticks with the period \<open>P\<close>, and \<open>B\<close>, due in \<open>a + P + e\<close> ticks, wait, and \<open>a + e\<close> ticks are
  charged at once, then \<open>B\<close> fires in the same pass, \<open>P\<close> ticks early.
\<close>

theorem itimer_rate_fires_early:
  fixes a e P k :: ULONG
  assumes "WU_line (tm_wuI s) = [A, B]" "A \<noteq> B" "WUN_ulCounter (tm_wuI s) A = a" "WUN_ulCounter (tm_wuI s) B = P + e"
    and "TIMER_ulOption (tm_tmr s A) AND LW_OPTION_AUTO_RESTART \<noteq> 0" "TIMER_ulCounterSave (tm_tmr s A) = P"
    and "unat a + unat P + unat e < 2 ^ 32" "e \<noteq> 0" "a \<le> k" "e \<le> k - a"
  shows "unat (WakeupStatus (tm_wuI s) B) = unat a + unat P + unat e \<and>
    (let (x, s1) = ITimerThread k s; (y, s2) = TimerPass_next ITmr (k - a) s1 in
     x = Some (A, TIMER_cbRoutine (tm_tmr s A), TIMER_pvArg (tm_tmr s A), k - a) \<and>
     y = Some (B, TIMER_cbRoutine (tm_tmr s B), TIMER_pvArg (tm_tmr s B), k - a - e))"
proof -
  have lt: "P < P + e" using assms(7,8) by (simp add: word_less_nat_alt unat_plus_if_size unat_gt_0 size_word.rep_eq)
  then have d: "\<not> P + e \<le> P" "P + e - P = e" by simp_all
  have ge: "\<not> k < a" "\<not> k - a < e" using assms(9,10) by (simp_all add: not_less)
  have "unat (WakeupStatus (tm_wuI s) B) = unat a + unat P + unat e"
    using assms(1-4,7) by (simp add: WakeupStatus_def unat_word_ariths mod_simps add.assoc)
  moreover have "fst (ITimerThread k s) = Some (A, TIMER_cbRoutine (tm_tmr s A), TIMER_pvArg (tm_tmr s A), k - a)"
    "WU_line (tm_wuI (snd (ITimerThread k s))) = [A, B]" "WUN_ulCounter (tm_wuI (snd (ITimerThread k s))) B = e"
    "WU_plineOp (tm_wuI (snd (ITimerThread k s))) = Some B" "tm_tmr (snd (ITimerThread k s)) = tm_tmr s"
    using assms(1-6) d ge(1) by (simp_all add: ITimerThread_def pass_eval timer_eval)
  moreover have "fst (TimerPass_next ITmr (k - a) (snd (ITimerThread k s))) =
      Some (B, TIMER_cbRoutine (tm_tmr s B), TIMER_pvArg (tm_tmr s B), k - a - e)"
    using calculation assms(2) ge(2) by (simp add: pass_eval timer_eval)
  ultimately show ?thesis by (simp add: split_beta)
qed

text \<open>At the rate 10: \<open>B\<close>, started with 1008 ticks, fires in the first pass, at tick 8.\<close>

definition tmI2 :: timers where
  "tmI2 = texec (TCreate None LW_OPTION_ITIMER) (texec (TCreate None LW_OPTION_ITIMER) (TimerInit tm0))"
definition tmI3 :: timers where "tmI3 = texec (TStart (tm_id 0) 3 1000 LW_OPTION_AUTO_RESTART 7 0) tmI2"
definition tmI :: timers where "tmI = texec (TStart (tm_id 1) 1008 0 0 8 0) tmI3"

lemma tmI2_reads: "WU_line (tm_wuI tmI2) = []"
  "TIMER_ucType (tm_tmr tmI2 0) = LW_TYPE_TIMER_ITIMER" "TIMER_ucStatus (tm_tmr tmI2 0) = LW_TIMER_STATUS_STOP"
  "TIMER_ucType (tm_tmr tmI2 1) = LW_TYPE_TIMER_ITIMER" "TIMER_ucStatus (tm_tmr tmI2 1) = LW_TIMER_STATUS_STOP"
  by (simp_all add: tmI2_def TimerInit_def tm0_def upt_conv_Cons timer_eval WAKEUP_INIT_def)

lemma tmI3_reads: "WU_line (tm_wuI tmI3) = [0]" "WUN_ulCounter (tm_wuI tmI3) 0 = 3"
  "TIMER_ucType (tm_tmr tmI3 0) = LW_TYPE_TIMER_ITIMER" "TIMER_ulOption (tm_tmr tmI3 0) = 1"
  "TIMER_ulCounterSave (tm_tmr tmI3 0) = 1000" "TIMER_cbRoutine (tm_tmr tmI3 0) = 7" "TIMER_pvArg (tm_tmr tmI3 0) = 0"
  "TIMER_ucType (tm_tmr tmI3 1) = LW_TYPE_TIMER_ITIMER" "TIMER_ucStatus (tm_tmr tmI3 1) = LW_TIMER_STATUS_STOP"
  using tmI2_reads by (simp_all add: tmI3_def TimerOpen_id timer_eval)

theorem itimer_rate_fires_early_witness:
  "unat (WakeupStatus (tm_wuI tmI) 1) = 1008 \<and>
   fst (ITimerThread 10 tmI) = Some (0, 7, 0, 7) \<and>
   fst (TimerPass_next ITmr 7 (snd (ITimerThread 10 tmI))) = Some (1, 8, 0, 2)"
proof -
  have "WU_line (tm_wuI tmI) = [0, 1]" "WUN_ulCounter (tm_wuI tmI) 0 = 3" "WUN_ulCounter (tm_wuI tmI) 1 = 1000 + 5"
    "TIMER_ulOption (tm_tmr tmI 0) = 1" "TIMER_ulCounterSave (tm_tmr tmI 0) = 1000"
    "TIMER_cbRoutine (tm_tmr tmI 0) = 7" "TIMER_pvArg (tm_tmr tmI 0) = 0"
    "TIMER_cbRoutine (tm_tmr tmI 1) = 8" "TIMER_pvArg (tm_tmr tmI 1) = 0"
    using tmI3_reads by (simp_all add: tmI_def TimerOpen_id timer_eval)
  then show ?thesis
    using itimer_rate_fires_early[of tmI 0 1 3 1000 5 10] by (simp add: split_beta)
qed

section \<open>Creation and deletion\<close>

lemma TimerCreate_first:
  fixes opt :: ULONG
  assumes "LW_CPU_GET_CUR_NESTING (tm_k s) = 0" "\<not> Object_Name_Invalid nm" "tm_free s = t # ts"
  defines "r \<equiv> TimerCreate nm opt True s"
  shows "fst r = (tm_id t, Some (tm_id t))" "tm_free (snd r) = ts" "TIMER_ucType (tm_tmr (snd r) t) \<noteq> LW_TYPE_TIMER_UNUSED"
    "TIMER_ucStatus (tm_tmr (snd r) t) = LW_TIMER_STATUS_STOP"
  using assms by (simp_all add: TimerCreate_def Allocate_Timer_Object_def Let_def tm_id_def outp_def tk_upd_def tmr_upd_def)

lemma TimerOpen_gone:
  assumes "TimerOpen h s = Inr x" "TIMER_ucType (tm_tmr s' (unat (ObjectGetIndex h))) = LW_TYPE_TIMER_UNUSED"
  obtains f where "TimerOpen h s' = Inl (ERROR_TIMER_NULL, f)"
  using assms by (auto simp: TimerOpen_def Timer_Type_Invalid_def Let_def split: if_splits)

text \<open>
  C39: \<open>API_TimerCreate\<close> takes the first timer of the pool, which stands still, and returns the
  handle that opens it, or refuses with \<open>ERROR_TIMER_FULL\<close> when all 50 are in use;
  \<open>API_TimerDelete\<close> takes a timer, running or not, from its line and returns it to the end of
  the pool; the handle is refused from then on by every routine, and no other timer loses or
  gains a tick.
\<close>

theorem timer_create_delete:
  assumes "tmr_ok s" "LW_CPU_GET_CUR_NESTING (tm_k s) = 0" "\<not> Object_Name_Invalid nm"
    and "tmr_ok s1" "LW_CPU_GET_CUR_NESTING (tm_k s1) = 0" "TimerOpen h s1 = Inr (t, s1')"
  shows "(case tm_free s of
       [] \<Rightarrow> fst (TimerCreate nm opt True s) = (0, None)
     | u # us \<Rightarrow> (let ((i, out), s') = TimerCreate nm opt True s in
        out = Some i \<and> tmr_ok s' \<and> tm_free s' = us \<and> TimerOpen i s' = Inr (u, tk_upd KERNEL_ENTER s') \<and>
        TIMER_ucStatus (tm_tmr s' u) = LW_TIMER_STATUS_STOP)) \<and>
    (let (r, h', s2) = TimerDelete h s1 in
      r = ERROR_NONE \<and> h' = 0 \<and> tmr_ok s2 \<and> tm_free s2 = tm_free s1 @ [t] \<and>
      (\<forall>L. set (dues (tm_wu L s2)) = {x \<in> set (dues (tm_wu L s1)). fst x \<noteq> t}) \<and>
      fst (TimerReset h s2) = ERROR_TIMER_NULL \<and> fst (TimerCancel h s2) = ERROR_TIMER_NULL \<and>
      fst (fst (TimerStatusEx h b1 b2 b3 b4 b5 s2)) = ERROR_TIMER_NULL \<and> (n \<noteq> 0 \<and> c \<noteq> 0 \<and> cb \<noteq> 0 \<longrightarrow>
      fst (TimerStartEx h n c opt' cb arg s2) = ERROR_TIMER_NULL))"
proof -
  have "let ((i, out), s') = TimerCreate nm opt True s in
        out = Some i \<and> tmr_ok s' \<and> tm_free s' = us \<and> TimerOpen i s' = Inr (u, tk_upd KERNEL_ENTER s') \<and>
        TIMER_ucStatus (tm_tmr s' u) = LW_TIMER_STATUS_STOP" if f: "tm_free s = u # us" for u us
  proof -
    note c = TimerCreate_first[OF assms(2,3) f, of opt]
    have "u < LW_CFG_MAX_TIMERS" using tmr_okD(4)[OF assms(1), of u] f by simp
    then show ?thesis using c TimerOpen_id[OF _ c(3)] TimerCreate_kept[OF assms(1), of nm opt True]
      by (auto simp: split_beta kept_def)
  qed
  moreover have "fst (TimerCreate nm opt True s) = (0, None)" if "tm_free s = []"
    using that assms(2,3) by (simp add: TimerCreate_def Allocate_Timer_Object_def tk_upd_def)
  moreover have o: "s1' = tk_upd KERNEL_ENTER s1" "t = unat (ObjectGetIndex h)" "t < LW_CFG_MAX_TIMERS" "TIMER_ucType (tm_tmr s1 t) \<noteq> LW_TYPE_TIMER_UNUSED"
    using assms(6) by (cases rule: TimerOpen_cases[of h s1]; simp)+
  note d = TimerDelete_opened[OF assms(4,5) assms(6)[unfolded o(1)] o(3,4)]
  obtain f where g: "TimerOpen h (snd (snd (TimerDelete h s1))) = Inl (ERROR_TIMER_NULL, f)"
    using TimerOpen_gone[OF assms(6)] d(5) o(2) by metis
  have "set (dues (tm_wu L (snd (snd (TimerDelete h s1))))) = {x \<in> set (dues (tm_wu L s1)). fst x \<noteq> t}"
    "tmr_ok (snd (snd (TimerDelete h s1)))" for L using d(1) by (simp_all add: moved_def)
  ultimately show ?thesis using d g
    by (simp add: split_beta TimerReset_def TimerCancel_def TimerStatusEx_def TimerStartEx_def split: list.split)
qed

theorem timer_create_delete_witness:
  "tm_free (snd (TimerCreate None 0 True (TimerInit tm0))) = [1..<50] \<and>
   fst (TimerReset (tm_id 0) (snd (snd (TimerDelete (tm_id 0) tm1)))) = ERROR_TIMER_NULL"
proof -
  have ok: "tmr_ok tm1" using TimerCreate_kept[OF TimerInit_ok[OF tm_zeroed0], of None 0 True] by (simp add: tm1_def kept_def)
  have n: "LW_CPU_GET_CUR_NESTING (tm_k (TimerInit tm0)) = 0" "LW_CPU_GET_CUR_NESTING (tm_k tm1) = 0"
    by (simp_all add: tm1_def TimerInit_def tm0_def upt_conv_Cons timer_eval nesting_boot)
  have f: "tm_free (TimerInit tm0) = 0 # [1..<50]" by (simp add: TimerInit_def upt_conv_Cons)
  show ?thesis
    using timer_create_delete[OF TimerInit_ok[OF tm_zeroed0] n(1) _ ok n(2) TimerOpen_id, of None 0 0 False False False False False 1 1 1 0 0] tm1_reads f
    by (simp add: Object_Name_Invalid_def split_beta)
qed

end
