(* ===== verification/Event_Set.thy ===== *)
theory Event_Set
  imports Event_Api
begin

text \<open>
  Event sets: \<open>LW_CLASS_EVENTSET\<close> and \<open>LW_CLASS_EVENTSETNODE\<close> of k_class.h, the pool
  (list/listEventSet.c, core/_EventSetInit.c), blocking and waking (core/_EventSetBlock.c,
  _EventSetReady.c, _EventSetUnQueue.c), the routines of interface/EventSet*.c, and the tick,
  whose nodes may belong to threads that wait for an event set.  An event set is a word of 32
  flags; a thread waits until all or any of the flags it names are set, or are clear.
\<close>

section \<open>State\<close>

abbreviation (input) LW_CFG_MAX_EVENTSETS :: nat where "LW_CFG_MAX_EVENTSETS \<equiv> 500"
abbreviation (input) OBJECT_EVENT_SET :: UINT8 where "OBJECT_EVENT_SET \<equiv> 8"
abbreviation (input) LW_TYPE_EVENT_EVENTSET :: UINT8 where "LW_TYPE_EVENT_EVENTSET \<equiv> 5"
abbreviation (input) EVENTSET_WAIT_CLR_ALL :: UINT8 where "EVENTSET_WAIT_CLR_ALL \<equiv> 0"
abbreviation (input) EVENTSET_WAIT_CLR_ANY :: UINT8 where "EVENTSET_WAIT_CLR_ANY \<equiv> 1"
abbreviation (input) EVENTSET_WAIT_SET_ALL :: UINT8 where "EVENTSET_WAIT_SET_ALL \<equiv> 2"
abbreviation (input) EVENTSET_WAIT_SET_ANY :: UINT8 where "EVENTSET_WAIT_SET_ANY \<equiv> 3"
abbreviation (input) EVENTSET_RETURN_ALL :: ULONG where "EVENTSET_RETURN_ALL \<equiv> 0x40"
abbreviation (input) EVENTSET_RESET :: ULONG where "EVENTSET_RESET \<equiv> 0x80"
abbreviation (input) EVENTSET_RESET_ALL :: ULONG where "EVENTSET_RESET_ALL \<equiv> 0x100"
abbreviation (input) EVENTSET_SET :: ULONG where "EVENTSET_SET \<equiv> 1"
abbreviation (input) EVENTSET_CLR :: ULONG where "EVENTSET_CLR \<equiv> 0"
abbreviation (input) ERROR_EVENTSET_FULL :: ULONG where "ERROR_EVENTSET_FULL \<equiv> 2001"
abbreviation (input) ERROR_EVENTSET_TYPE :: ULONG where "ERROR_EVENTSET_TYPE \<equiv> 2002"
abbreviation (input) ERROR_EVENTSET_WAIT_TYPE :: ULONG where "ERROR_EVENTSET_WAIT_TYPE \<equiv> 2003"
abbreviation (input) ERROR_EVENTSET_WAS_DELETED :: ULONG where "ERROR_EVENTSET_WAS_DELETED \<equiv> 2004"
abbreviation (input) ERROR_EVENTSET_OPTION :: ULONG where "ERROR_EVENTSET_OPTION \<equiv> 2005"

text \<open>A node lies on the stack of the thread that waits, so it is named by the thread; the
  wait list of a set is the list of the threads of its nodes.\<close>

record eventset =
  EVENTSET_ucType :: UINT8
  EVENTSET_plineWaitList :: "tid list"
  EVENTSET_ulEventSets :: ULONG
  EVENTSET_ulOption :: ULONG
  EVENTSET_cEventSetName :: string

record esnode =
  EVENTSETNODE_pesEventSet :: nat
  EVENTSETNODE_ulEventSets :: ULONG
  EVENTSETNODE_ucWaitType :: UINT8

record esets =
  es_k :: kernel
  es_buf :: "nat \<Rightarrow> eventset"           \<comment> \<open>\<open>_K_esBuffer\<close>\<close>
  es_node :: "tid \<Rightarrow> esnode"
  es_pesnPtr :: "tid \<Rightarrow> bool"           \<comment> \<open>\<open>TCB_pesnPtr\<close> is the thread's node, not \<open>LW_NULL\<close>\<close>
  es_tcbEventSets :: "tid \<Rightarrow> ULONG"     \<comment> \<open>\<open>TCB_ulEventSets\<close>\<close>
  es_free :: "nat list"                \<comment> \<open>free list of \<open>_K_resrcEventSet\<close>\<close>
  es_resUsed :: nat
  es_resMaxUsed :: nat

definition esk_upd :: "(kernel \<Rightarrow> kernel) \<Rightarrow> esets \<Rightarrow> esets" where
  "esk_upd f s = s\<lparr>es_k := f (es_k s)\<rparr>"

definition es_upd :: "nat \<Rightarrow> (eventset \<Rightarrow> eventset) \<Rightarrow> esets \<Rightarrow> esets" where
  "es_upd i f s = s\<lparr>es_buf := (es_buf s)(i := f (es_buf s i))\<rparr>"

section \<open>The pool\<close>

definition EventSet_Index_Invalid :: "UINT16 \<Rightarrow> bool" where
  "EventSet_Index_Invalid usIndex \<longleftrightarrow> unat usIndex \<ge> LW_CFG_MAX_EVENTSETS"

definition EventSet_Type_Invalid :: "esets \<Rightarrow> UINT16 \<Rightarrow> UINT8 \<Rightarrow> bool" where
  "EventSet_Type_Invalid s usIndex ucType \<longleftrightarrow> EVENTSET_ucType (es_buf s (unat usIndex)) \<noteq> ucType"

definition Allocate_EventSet_Object :: "esets \<Rightarrow> nat option \<times> esets" where
  "Allocate_EventSet_Object s = (case es_free s of
     [] \<Rightarrow> (None, s)
   | i # is \<Rightarrow>
       (let s1 = s\<lparr>es_free := is, es_resUsed := es_resUsed s + 1\<rparr>;
            s2 = (if es_resUsed s1 > es_resMaxUsed s1 then s1\<lparr>es_resMaxUsed := es_resUsed s1\<rparr> else s1)
        in (Some i, s2)))"

definition Free_EventSet_Object :: "nat \<Rightarrow> esets \<Rightarrow> esets" where
  "Free_EventSet_Object i s = s\<lparr>es_free := es_free s @ [i], es_resUsed := es_resUsed s - 1\<rparr>"

definition EventSetInit :: "esets \<Rightarrow> esets" where
  "EventSetInit s = s\<lparr>
     es_buf := (\<lambda>i. if i < LW_CFG_MAX_EVENTSETS
       then (es_buf s i)\<lparr>EVENTSET_ucType := LW_TYPE_EVENT_UNUSED, EVENTSET_plineWaitList := []\<rparr> else es_buf s i),
     es_free := [0..<LW_CFG_MAX_EVENTSETS], es_resUsed := 0, es_resMaxUsed := 0\<rparr>"

section \<open>Blocking and waking\<close>

definition EventSetUnQueue :: "tid \<Rightarrow> esets \<Rightarrow> esets" where
  "EventSetUnQueue t s = (let
      s1 = es_upd (EVENTSETNODE_pesEventSet (es_node s t)) (\<lambda>es. es\<lparr>EVENTSET_plineWaitList := remove1 t (EVENTSET_plineWaitList es)\<rparr>) s
    in s1\<lparr>es_pesnPtr := (es_pesnPtr s1)(t := False)\<rparr>)"

definition EventSetBlock :: "nat \<Rightarrow> ULONG \<Rightarrow> UINT8 \<Rightarrow> ULONG \<Rightarrow> esets \<Rightarrow> esets" where
  "EventSetBlock i ulEvents ucWaitType ulWaitTime s = (let t = LW_TCB_GET_CUR (es_k s);
      k1 = tcb_upd t (\<lambda>x. x\<lparr>TCB_usStatus := TCB_usStatus x OR LW_THREAD_STATUS_EVENTSET,
             TCB_ucWaitTimeout := LW_WAIT_TIME_CLEAR, TCB_ucIsEventDelete := LW_EVENT_EXIST\<rparr>) (es_k s);
      k2 = set_ulDelay t ulWaitTime k1;
      k3 = (if ulWaitTime \<noteq> 0 then ADD_TO_WAKEUP_LINE t k2 else k2);
      s1 = s\<lparr>es_pesnPtr := (es_pesnPtr s)(t := True),
             es_node := (es_node s)(t := \<lparr>EVENTSETNODE_pesEventSet = i, EVENTSETNODE_ulEventSets = ulEvents,
               EVENTSETNODE_ucWaitType = ucWaitType\<rparr>)\<rparr>;
      s2 = es_upd i (\<lambda>es. es\<lparr>EVENTSET_plineWaitList := t # EVENTSET_plineWaitList es\<rparr>) s1
    in s2\<lparr>es_k := DEL_FROM_READY_RING t (GetPcb k3 t) k3\<rparr>)"

text \<open>The common body of \<open>_EventSetThreadReady\<close> and \<open>_EventSetDeleteReady\<close>, from the delay
  line to the ready ring.\<close>

definition EventSet_ready :: "tid \<Rightarrow> ULONG \<Rightarrow> esets \<Rightarrow> bool \<times> esets" where
  "EventSet_ready t ulEventSets s = (let
      k1 = (if tcb_status (es_k s) t AND LW_THREAD_STATUS_DELAY \<noteq> 0 then DEL_FROM_WAKEUP_LINE t (es_k s) else es_k s);
      k2 = tcb_upd t (\<lambda>x. x\<lparr>TCB_usStatus := TCB_usStatus x AND NOT LW_THREAD_STATUS_EVENTSET\<rparr>) (set_ulDelay t 0 k1);
      s1 = s\<lparr>es_tcbEventSets := (es_tcbEventSets s)(t := ulEventSets)\<rparr>
    in if LW_THREAD_IS_READY (k_tcb k2 t) then
         (let k3 = tcb_upd t (\<lambda>x. x\<lparr>TCB_ucSchedActivate := LW_SCHED_ACT_INTERRUPT\<rparr>) k2
          in (True, s1\<lparr>es_k := ADD_TO_READY_RING t (GetPcb k3 t) k3\<rparr>))
       else (False, s1\<lparr>es_k := k2\<rparr>))"

definition EventSetThreadReady :: "tid \<Rightarrow> ULONG \<Rightarrow> esets \<Rightarrow> bool \<times> esets" where
  "EventSetThreadReady t ulEventsReady s = (let (bIsSched, s1) = EventSet_ready t ulEventsReady s
     in (bIsSched, EventSetUnQueue t s1))"

definition EventSetDeleteReady :: "tid \<Rightarrow> esets \<Rightarrow> bool \<times> esets" where
  "EventSetDeleteReady t s = (let
      s1 = esk_upd (tcb_upd t (\<lambda>x. x\<lparr>TCB_ucIsEventDelete := LW_EVENT_DELETE\<rparr>)) s;
      (bIsSched, s2) = EventSet_ready t 0 s1
    in (bIsSched, EventSetUnQueue t s2))"

section \<open>The flags\<close>

text \<open>The switch over the type of a wait: whether it is satisfied, and \<open>ulEventRdy\<close>.\<close>

definition EventSetTest :: "UINT8 \<Rightarrow> ULONG \<Rightarrow> ULONG \<Rightarrow> (bool \<times> ULONG) option" where
  "EventSetTest ucWaitType ulEvent ulEventSets =
    (if ucWaitType = EVENTSET_WAIT_SET_ALL then Some (ulEvent = ulEvent AND ulEventSets, ulEvent AND ulEventSets)
     else if ucWaitType = EVENTSET_WAIT_SET_ANY then Some (ulEvent AND ulEventSets \<noteq> 0, ulEvent AND ulEventSets)
     else if ucWaitType = EVENTSET_WAIT_CLR_ALL then Some (ulEvent = ulEvent AND NOT ulEventSets, ulEvent AND NOT ulEventSets)
     else if ucWaitType = EVENTSET_WAIT_CLR_ANY then Some (ulEvent AND NOT ulEventSets \<noteq> 0, ulEvent AND NOT ulEventSets)
     else None)"

definition EventSetReset :: "UINT8 \<Rightarrow> ULONG \<Rightarrow> ULONG \<Rightarrow> ULONG \<Rightarrow> ULONG" where
  "EventSetReset ucWaitType ulOption ulEventRdy ulEventSets =
    (if ucWaitType = EVENTSET_WAIT_SET_ALL \<or> ucWaitType = EVENTSET_WAIT_SET_ANY then
       (if ulOption AND EVENTSET_RESET \<noteq> 0 then ulEventSets AND NOT ulEventRdy
        else if ulOption AND EVENTSET_RESET_ALL \<noteq> 0 then 0 else ulEventSets)
     else if ucWaitType = EVENTSET_WAIT_CLR_ALL \<or> ucWaitType = EVENTSET_WAIT_CLR_ANY then
       (if ulOption AND EVENTSET_RESET \<noteq> 0 then ulEventSets OR ulEventRdy
        else if ulOption AND EVENTSET_RESET_ALL \<noteq> 0 then 0xffffffff else ulEventSets)
     else ulEventSets)"

text \<open>\<open>__EVENTSET_SAVE_RET\<close>.\<close>

definition EventSetSaveRet :: "ULONG \<Rightarrow> ULONG \<Rightarrow> ULONG \<Rightarrow> ULONG" where
  "EventSetSaveRet ulOption ulEventRdy ulEventSets =
    (if ulOption AND EVENTSET_RETURN_ALL \<noteq> 0 then ulEventSets else ulEventRdy)"

definition WaitType :: "ULONG \<Rightarrow> UINT8" where
  "WaitType ulOption = ucast (ulOption AND 0x0f)"

section \<open>The routines\<close>

definition es_fail :: "esets \<Rightarrow> ULONG \<Rightarrow> esets \<Rightarrow> esets" where
  "es_fail ctx code s = esk_upd (\<lambda>k. ErrorHandle_of (es_k ctx) code (KERNEL_EXIT k)) s"

definition EventSetOpen :: "ULONG \<Rightarrow> esets \<Rightarrow> (ULONG \<times> esets) + (nat \<times> esets)" where
  "EventSetOpen ulId s =
    (if \<not> ObjectClassOK ulId OBJECT_EVENT_SET
       then Inl (ERROR_KERNEL_HANDLE_NULL, esk_upd (ErrorHandle ERROR_KERNEL_HANDLE_NULL) s)
     else if EventSet_Index_Invalid (ObjectGetIndex ulId)
       then Inl (ERROR_KERNEL_HANDLE_NULL, esk_upd (ErrorHandle ERROR_KERNEL_HANDLE_NULL) s)
     else let s1 = esk_upd KERNEL_ENTER s in
       if EventSet_Type_Invalid s1 (ObjectGetIndex ulId) LW_TYPE_EVENT_EVENTSET
       then Inl (ERROR_EVENTSET_TYPE, es_fail s ERROR_EVENTSET_TYPE s1)
       else Inr (unat (ObjectGetIndex ulId), s1))"

definition EventSetCreate :: "string option \<Rightarrow> ULONG \<Rightarrow> ULONG \<Rightarrow> bool \<Rightarrow> esets \<Rightarrow> (ULONG \<times> ULONG option) \<times> esets" where
  "EventSetCreate pcName ulInitEvent ulOption pulId s =
    (if LW_CPU_GET_CUR_NESTING (es_k s) \<noteq> 0 then ((0, None), esk_upd (ErrorHandle ERROR_KERNEL_IN_ISR) s)
     else if Object_Name_Invalid pcName then ((0, None), esk_upd (ErrorHandle ERROR_KERNEL_PNAME_TOO_LONG) s)
     else let (pes, s1) = Allocate_EventSet_Object (esk_upd KERNEL_ENTER s); s2 = esk_upd KERNEL_EXIT s1 in
       case pes of
         None \<Rightarrow> ((0, None), esk_upd (ErrorHandle_of (es_k s) ERROR_EVENTSET_FULL) s2)
       | Some i \<Rightarrow>
          (let s3 = es_upd i (\<lambda>es. es\<lparr>EVENTSET_cEventSetName := event_name pcName,
                 EVENTSET_ucType := LW_TYPE_EVENT_EVENTSET, EVENTSET_plineWaitList := [],
                 EVENTSET_ulEventSets := ulInitEvent, EVENTSET_ulOption := ulOption\<rparr>) s2;
               ulId = MakeObjectId OBJECT_EVENT_SET LW_CFG_PROCESSOR_NUMBER (of_nat i)
           in ((ulId, outp pulId ulId), s3)))"

text \<open>The wait list is followed from the header on.  A node that is taken out keeps its
  forward pointer, so the loop visits the list as it was when the loop began.\<close>

fun EventSetDelete_loop :: "tid list \<Rightarrow> esets \<Rightarrow> esets" where
  "EventSetDelete_loop [] s = s"
| "EventSetDelete_loop (t # ts) s = EventSetDelete_loop ts (snd (EventSetDeleteReady t s))"

definition EventSetDelete :: "ULONG \<Rightarrow> esets \<Rightarrow> ULONG \<times> ULONG \<times> esets" where
  "EventSetDelete ulId s =
    (if LW_CPU_GET_CUR_NESTING (es_k s) \<noteq> 0
     then (ERROR_KERNEL_IN_ISR, ulId, esk_upd (ErrorHandle ERROR_KERNEL_IN_ISR) s)
     else case EventSetOpen ulId s of
       Inl (r, s1) \<Rightarrow> (r, ulId, s1)
     | Inr (i, s1) \<Rightarrow>
        (let s2 = EventSetDelete_loop (EVENTSET_plineWaitList (es_buf s1 i)) s1;
             s3 = es_upd i (\<lambda>es. es\<lparr>EVENTSET_ucType := LW_TYPE_EVENT_UNUSED, EVENTSET_plineWaitList := []\<rparr>) s2
         in (ERROR_NONE, 0, esk_upd KERNEL_EXIT (Free_EventSet_Object i s3))))"

fun EventSetSet_loop :: "tid list \<Rightarrow> nat \<Rightarrow> esets \<Rightarrow> esets" where
  "EventSetSet_loop [] i s = s"
| "EventSetSet_loop (t # ts) i s = (let n = es_node s t in
     case EventSetTest (EVENTSETNODE_ucWaitType n) (EVENTSETNODE_ulEventSets n) (EVENTSET_ulEventSets (es_buf s i)) of
       Some (True, ulEventRdy) \<Rightarrow> EventSetSet_loop ts i (snd (EventSetThreadReady t ulEventRdy s))
     | _ \<Rightarrow> EventSetSet_loop ts i s)"

definition EventSetSet :: "ULONG \<Rightarrow> ULONG \<Rightarrow> ULONG \<Rightarrow> esets \<Rightarrow> ULONG \<times> esets" where
  "EventSetSet ulId ulEvent ulOption s = (case EventSetOpen ulId s of
     Inl r \<Rightarrow> r
   | Inr (i, s1) \<Rightarrow>
      if ulOption \<noteq> EVENTSET_CLR \<and> ulOption \<noteq> EVENTSET_SET
      then (ERROR_EVENTSET_OPTION, es_fail s ERROR_EVENTSET_OPTION s1)
      else (let s2 = es_upd i (\<lambda>es. es\<lparr>EVENTSET_ulEventSets :=
                  (if ulOption = EVENTSET_CLR then EVENTSET_ulEventSets es AND NOT ulEvent
                   else EVENTSET_ulEventSets es OR ulEvent)\<rparr>) s1;
                s3 = EventSetSet_loop (EVENTSET_plineWaitList (es_buf s2 i)) i s2
            in (ERROR_NONE, esk_upd KERNEL_EXIT s3)))"

text \<open>The satisfied branch, which \<open>Get\<close> and \<open>TryGet\<close> share: the result and the new state.\<close>

definition EventSetTake :: "nat \<Rightarrow> ULONG \<Rightarrow> ULONG \<Rightarrow> esets \<Rightarrow> ULONG \<times> esets" where
  "EventSetTake i ulOption ulEventRdy s = (let t = LW_TCB_GET_CUR (es_k s);
      v = EventSetSaveRet ulOption ulEventRdy (EVENTSET_ulEventSets (es_buf s i));
      s1 = es_upd i (\<lambda>es. es\<lparr>EVENTSET_ulEventSets :=
             EventSetReset (WaitType ulOption) ulOption ulEventRdy (EVENTSET_ulEventSets es)\<rparr>) s;
      s2 = s1\<lparr>es_tcbEventSets := (es_tcbEventSets s1)(t := ulEventRdy)\<rparr>
    in (v, esk_upd KERNEL_EXIT s2))"

text \<open>A call returns a code and the value stored in \<open>*pulEvent\<close>, or it blocks with
  \<open>ulTimeout\<close>, \<open>ulTimeSave\<close> and \<open>ulEventSetOption\<close> on its stack.\<close>

datatype es_out = EsDone ULONG "ULONG option" | EsBlocked ULONG ULONG ULONG

definition EventSetGetEx_again :: "ULONG \<Rightarrow> ULONG \<Rightarrow> ULONG \<Rightarrow> ULONG \<Rightarrow> bool \<Rightarrow> esets \<Rightarrow> es_out \<times> esets" where
  "EventSetGetEx_again ulId ulEvent ulOption ulTimeout pulEvent s = (case EventSetOpen ulId s of
     Inl (r, s1) \<Rightarrow> (EsDone r None, s1)
   | Inr (i, s1) \<Rightarrow>
      (case EventSetTest (WaitType ulOption) ulEvent (EVENTSET_ulEventSets (es_buf s1 i)) of
         None \<Rightarrow> (EsDone ERROR_EVENTSET_WAIT_TYPE None, es_fail s ERROR_EVENTSET_WAIT_TYPE s1)
       | Some (True, ulEventRdy) \<Rightarrow> (let (v, s2) = EventSetTake i ulOption ulEventRdy s1
           in (EsDone ERROR_NONE (outp pulEvent v), s2))
       | Some (False, ulEventRdy) \<Rightarrow>
          if ulTimeout = LW_OPTION_NOT_WAIT
          then (EsDone ERROR_THREAD_WAIT_TIMEOUT None, es_fail s ERROR_THREAD_WAIT_TIMEOUT s1)
          else (let ulWaitTime = (if ulTimeout = LW_OPTION_WAIT_INFINITE then 0 else ulTimeout);
                    s2 = EventSetBlock i ulEvent (WaitType ulOption) ulWaitTime s1
                in (EsBlocked ulTimeout (KERNEL_TIME_GET (es_k s1)) (EVENTSET_ulOption (es_buf s2 i)),
                    esk_upd KERNEL_EXIT s2))))"

definition EventSetGetEx :: "ULONG \<Rightarrow> ULONG \<Rightarrow> ULONG \<Rightarrow> ULONG \<Rightarrow> bool \<Rightarrow> esets \<Rightarrow> es_out \<times> esets" where
  "EventSetGetEx ulId ulEvent ulOption ulTimeout pulEvent s =
    (if LW_CPU_GET_CUR_NESTING (es_k s) \<noteq> 0
     then (EsDone ERROR_KERNEL_IN_ISR None, esk_upd (ErrorHandle ERROR_KERNEL_IN_ISR) s)
     else EventSetGetEx_again ulId ulEvent ulOption ulTimeout pulEvent s)"

definition EventSetGetEx_wake :: "ULONG \<Rightarrow> ULONG \<Rightarrow> ULONG \<Rightarrow> ULONG \<Rightarrow> ULONG \<Rightarrow> ULONG \<Rightarrow> bool \<Rightarrow> esets \<Rightarrow> es_out \<times> esets" where
  "EventSetGetEx_wake ulId ulEvent ulOption ulTimeout ulTimeSave ulEventSetOption pulEvent s = (let
      t = LW_TCB_GET_CUR (es_k s); (iSchedRet, k1) = Schedule_ret (es_k s); s1 = s\<lparr>es_k := k1\<rparr>;
      i = unat (ObjectGetIndex ulId)
    in if iSchedRet \<noteq> 0 then
       (if iSchedRet = LW_SIGNAL_EINTR \<and> ulEventSetOption AND LW_OPTION_SIGNAL_INTER \<noteq> 0
        then (EsDone EINTR None, esk_upd (ErrorHandle EINTR) s1)
        else let ulTimeout = sigTimeoutRecalc (es_k s1) ulTimeSave ulTimeout in
          if ulTimeout = LW_OPTION_NOT_WAIT
          then (EsDone ERROR_THREAD_WAIT_TIMEOUT None, esk_upd (ErrorHandle ERROR_THREAD_WAIT_TIMEOUT) s1)
          else EventSetGetEx_again ulId ulEvent ulOption ulTimeout pulEvent s1)
     else let s2 = esk_upd KERNEL_ENTER s1 in
       if TCB_ucWaitTimeout (k_tcb (es_k s2) t) = LW_WAIT_TIME_OUT
       then (EsDone ERROR_THREAD_WAIT_TIMEOUT None, es_fail s1 ERROR_THREAD_WAIT_TIMEOUT s2)
       else let ulEventRdy = es_tcbEventSets s2 t in
         if TCB_ucIsEventDelete (k_tcb (es_k s2) t) = LW_EVENT_EXIST
         then (EsDone ERROR_NONE (outp pulEvent (EventSetSaveRet ulOption ulEventRdy (EVENTSET_ulEventSets (es_buf s2 i)))),
           esk_upd KERNEL_EXIT (es_upd i (\<lambda>es. es\<lparr>EVENTSET_ulEventSets :=
             EventSetReset (WaitType ulOption) ulOption ulEventRdy (EVENTSET_ulEventSets es)\<rparr>) s2))
         else (EsDone ERROR_EVENTSET_WAS_DELETED None, es_fail s1 ERROR_EVENTSET_WAS_DELETED s2))"

definition EventSetGet :: "ULONG \<Rightarrow> ULONG \<Rightarrow> ULONG \<Rightarrow> ULONG \<Rightarrow> esets \<Rightarrow> es_out \<times> esets" where
  "EventSetGet ulId ulEvent ulOption ulTimeout s = EventSetGetEx ulId ulEvent ulOption ulTimeout False s"

definition EventSetTryGetEx :: "ULONG \<Rightarrow> ULONG \<Rightarrow> ULONG \<Rightarrow> bool \<Rightarrow> esets \<Rightarrow> (ULONG \<times> ULONG option) \<times> esets" where
  "EventSetTryGetEx ulId ulEvent ulOption pulEvent s = (case EventSetOpen ulId s of
     Inl (r, s1) \<Rightarrow> ((r, None), s1)
   | Inr (i, s1) \<Rightarrow>
      (case EventSetTest (WaitType ulOption) ulEvent (EVENTSET_ulEventSets (es_buf s1 i)) of
         None \<Rightarrow> ((ERROR_EVENTSET_WAIT_TYPE, None), es_fail s ERROR_EVENTSET_WAIT_TYPE s1)
       | Some (True, ulEventRdy) \<Rightarrow> (let (v, s2) = EventSetTake i ulOption ulEventRdy s1
           in ((ERROR_NONE, outp pulEvent v), s2))
       | Some (False, ulEventRdy) \<Rightarrow> ((ERROR_THREAD_WAIT_TIMEOUT, None), es_fail s ERROR_THREAD_WAIT_TIMEOUT s1)))"

definition EventSetTryGet :: "ULONG \<Rightarrow> ULONG \<Rightarrow> ULONG \<Rightarrow> esets \<Rightarrow> (ULONG \<times> ULONG option) \<times> esets" where
  "EventSetTryGet ulId ulEvent ulOption s = EventSetTryGetEx ulId ulEvent ulOption False s"

definition EventSetStatus :: "ULONG \<Rightarrow> bool \<Rightarrow> bool \<Rightarrow> esets \<Rightarrow> (ULONG \<times> ULONG option \<times> ULONG option) \<times> esets" where
  "EventSetStatus ulId pulEvent pulOption s = (case EventSetOpen ulId s of
     Inl (r, s1) \<Rightarrow> ((r, None, None), s1)
   | Inr (i, s1) \<Rightarrow> ((ERROR_NONE, outp pulEvent (EVENTSET_ulEventSets (es_buf s1 i)), outp pulOption 0), esk_upd KERNEL_EXIT s1))"

definition EventSetGetName :: "ULONG \<Rightarrow> bool \<Rightarrow> esets \<Rightarrow> (ULONG \<times> string option) \<times> esets" where
  "EventSetGetName ulId pcName s =
    (if LW_CPU_GET_CUR_NESTING (es_k s) \<noteq> 0 then ((ERROR_KERNEL_IN_ISR, None), esk_upd (ErrorHandle ERROR_KERNEL_IN_ISR) s)
     else if \<not> pcName then ((ERROR_KERNEL_PNAME_NULL, None), esk_upd (ErrorHandle ERROR_KERNEL_PNAME_NULL) s)
     else case EventSetOpen ulId s of
       Inl (r, s1) \<Rightarrow> ((r, None), s1)
     | Inr (i, s1) \<Rightarrow> ((ERROR_NONE, Some (EVENTSET_cEventSetName (es_buf s1 i))), esk_upd KERNEL_EXIT s1))"

section \<open>The tick\<close>

text \<open>A node of the delay line: the kernel's part, and the node of an event set that is
  taken out when the thread waits for no event block.\<close>

definition EsTick_node :: "tid \<Rightarrow> esets \<Rightarrow> esets" where
  "EsTick_node t s = (let
      pend = tcb_status (es_k s) t AND NOT LW_THREAD_STATUS_DELAY AND LW_THREAD_STATUS_PEND_ANY \<noteq> 0;
      s1 = esk_upd (ThreadTick_node t) s
    in if pend \<and> TCB_peventPtr (k_tcb (es_k s) t) = None \<and> es_pesnPtr s t then EventSetUnQueue t s1 else s1)"

fun EsTick_pass :: "nat \<Rightarrow> ULONG \<Rightarrow> esets \<Rightarrow> esets" where
  "EsTick_pass 0 ulCounter s = s"
| "EsTick_pass (Suc n) ulCounter s = (case WU_plineOp (k_delay (es_k s)) of
     None \<Rightarrow> s
   | Some t \<Rightarrow> (let (w, r) = WAKEUP_PASS_FIRST t ulCounter (k_delay (es_k s)); s1 = esk_upd (\<lambda>k. k\<lparr>k_delay := w\<rparr>) s in
       case r of
         None \<Rightarrow> s1
       | Some k \<Rightarrow> EsTick_pass n k (EsTick_node t s1)))"

definition EsTick :: "esets \<Rightarrow> esets" where
  "EsTick s = (let s1 = esk_upd (\<lambda>k. (KERNEL_ENTER k)\<lparr>k_delay := WAKEUP_PASS_BEGIN (k_delay (KERNEL_ENTER k))\<rparr>) s
    in esk_upd KERNEL_EXIT (EsTick_pass (Suc (length (WU_line (k_delay (es_k s1))))) 1 s1))"

end
