(* ===== verification/Event_Set_Inv.thy ===== *)
theory Event_Set_Inv
  imports Event_Set Tick_Inv
begin

text \<open>
  What the operations on event sets do to the kernel and to the wait lists, and the invariant
  that ties the two together: a node is in the list of its set exactly while its thread is
  marked as waiting for an event set.
\<close>

section \<open>Blocking the running thread\<close>

definition block_status :: "ULONG \<Rightarrow> UINT16" where
  "block_status d = (if d \<noteq> 0 then LW_THREAD_STATUS_EVENTSET OR LW_THREAD_STATUS_DELAY else LW_THREAD_STATUS_EVENTSET)"

lemma EventSetBlock_kernel:
  fixes d ev :: ULONG and ty :: UINT8 and i :: nat
  assumes k: "kinv (es_k s)" and t: "runs (es_k s) t"
  defines "k' \<equiv> es_k (EventSetBlock i ev ty d s)"
  shows "kinv k'" "k_halt k' = k_halt (es_k s)" "ready_set k' = ready_set (es_k s) - {t}"
    "tcb_status k' t = block_status d" "TCB_peventPtr (k_tcb k' t) = None"
    "TCB_ucWaitTimeout (k_tcb k' t) = LW_WAIT_TIME_CLEAR" "TCB_ucIsEventDelete (k_tcb k' t) = LW_EVENT_EXIST"
    "\<And>u. u \<noteq> t \<Longrightarrow> tcb_core (k_tcb k' u) = tcb_core (k_tcb (es_k s) u)"
    "k_event k' = k_event (es_k s)" "k_ncpus k' = k_ncpus (es_k s)" "k_tcbIdTable k' = k_tcbIdTable (es_k s)"
    "dues (k_delay k') = (if d \<noteq> 0 then due_insert t (unat d) (dues (k_delay (es_k s))) else dues (k_delay (es_k s)))"
proof -
  note r = runsD[OF k t]
  let ?k = "es_k s"
  define k1 where "k1 = tcb_upd t (\<lambda>x. x\<lparr>TCB_usStatus := TCB_usStatus x OR LW_THREAD_STATUS_EVENTSET,
             TCB_ucWaitTimeout := LW_WAIT_TIME_CLEAR, TCB_ucIsEventDelete := LW_EVENT_EXIST\<rparr>) ?k"
  define k2 where "k2 = set_ulDelay t d k1"
  define k3 where "k3 = (if d \<noteq> 0 then ADD_TO_WAKEUP_LINE t k2 else k2)"
  have k': "k' = DEL_FROM_READY_RING t (GetPcb k3 t) k3"
    by (simp add: k'_def EventSetBlock_def Let_def r(1) es_upd_def k1_def k2_def k3_def)
  have st1: "tcb_status k1 t = LW_THREAD_STATUS_EVENTSET" using r(4) by (simp add: k1_def)
  have sch: "sched_inv (ready_set ?k) k3" using kinv_sched[OF k]
    by (simp add: k3_def k2_def k1_def sched_inv_tcb_upd tcb_place_def)
  have nc: "k_ncpus k3 = k_ncpus ?k" "k_curcpu k3 = k_curcpu ?k" "k_tcbIdTable k3 = k_tcbIdTable ?k"
    "k_halt k3 = k_halt ?k" "k_event k3 = k_event ?k" by (simp_all add: k3_def k2_def k1_def)
  have fr: "sched_frame k3 k'" unfolding k' by simp
  note rf = sched_frame_run[OF fr]
  note tcbD = sched_frame_tcbD[OF fr] and kD = sched_frame_kernelD[OF fr]
  have sch': "sched_inv (ready_set ?k - {t}) k'" and hl: "k_halt k' = k_halt ?k"
    using DEL_FROM_READY_RING_inv[OF sch r(2)] r(3) nc by (simp_all add: k')
  have d1: "delay_inv k1" using kinv_delay[OF k] r(4) by (simp add: k1_def delay_inv_tcb)
  then have d2: "delay_inv k2" using st1 by (simp add: k2_def delay_inv_set_ulDelay)
  have st2: "tcb_status k2 t = LW_THREAD_STATUS_EVENTSET" using st1 by (simp add: k2_def)
  have d3: "delay_inv k3" using d2 ADD_TO_WAKEUP_LINE_delay[OF d2] st2 by (simp add: k3_def)
  have "wait_inv k1"
    unfolding k1_def by (rule wait_invx_None[THEN iffD1, OF _ wait_inv_join[OF kinv_wait[OF k] r(5)]]) (simp add: r(5))
  then have w3: "wait_inv k3" by (simp add: k3_def k2_def)
  have st3: "tcb_status k3 t = block_status d" using st2 by (simp add: k3_def block_status_def)
  show st: "tcb_status k' t = block_status d" using tcbD st3 by simp
  show pe: "TCB_peventPtr (k_tcb k' t) = None" "TCB_ucWaitTimeout (k_tcb k' t) = LW_WAIT_TIME_CLEAR"
    "TCB_ucIsEventDelete (k_tcb k' t) = LW_EVENT_EXIST"
    using r(5) by (simp_all add: tcbD) (simp_all add: k3_def k2_def k1_def)
  show other: "tcb_core (k_tcb k' u) = tcb_core (k_tcb ?k u)" if "u \<noteq> t" for u
    using sched_frame_tcb[OF fr, of u] that by (simp add: k3_def k2_def k1_def)
  have stu: "tcb_status k' u = tcb_status ?k u" "TCB_peventPtr (k_tcb k' u) = TCB_peventPtr (k_tcb ?k u)" if "u \<noteq> t" for u
    using tcb_core_eqD[OF other[OF that]] by auto
  have ne: "tcb_status k' t \<noteq> 0" using st by (simp add: block_status_def)
  have id: "k_tcbIdTable k' = k_tcbIdTable ?k" using kD nc by simp
  show rs: "ready_set k' = ready_set ?k - {t}"
    using stu ne id by (auto simp: ready_set_def LW_THREAD_IS_READY_def) (metis stu(1))+
  have ids: "k_tcbIdTable k' u" if "TCB_peventPtr (k_tcb k' u) \<noteq> None \<or> tcb_status k' u AND LW_THREAD_STATUS_DELAY \<noteq> 0" for u
    using that stu[of u] k r(7) id unfolding kinv_def by (cases "u = t") metis+
  have w': "wait_inv k'" "delay_inv k'" using w3 d3 wait_inv_frame[OF rf] delay_inv_frame[OF rf] by blast+
  have cc: "k_curcpu k' = k_curcpu ?k" "k_ncpus k' = k_ncpus ?k" using kD nc by simp_all
  show "kinv k'" using k sch' w' rs ids id cc unfolding kinv_def by simp
  show "k_halt k' = k_halt ?k" using hl .
  show "k_event k' = k_event ?k" "k_ncpus k' = k_ncpus ?k" "k_tcbIdTable k' = k_tcbIdTable ?k" using kD nc by simp_all
  have notin: "t \<notin> set (WU_line (k_delay ?k))" using delay_line_mem[OF kinv_delay[OF k], of t] r(4) by simp
  have due2: "dues (k_delay k2) = dues (k_delay ?k)" "WU_line (k_delay k2) = WU_line (k_delay ?k)"
    "WUN_ulCounter (k_delay k2) t = d"
    using dues_counter_out[OF notin] by (simp_all add: k2_def set_ulDelay_def k1_def)
  have ok2: "wu_ok (k_delay k2)" using d2 by (simp add: delay_inv_def)
  have "k_delay k' = (if d \<noteq> 0 then WakeupAdd t (k_delay k2) else k_delay k2)"
    using kD by (simp add: k3_def ADD_TO_WAKEUP_LINE_def Let_def)
  then show "dues (k_delay k') = (if d \<noteq> 0 then due_insert t (unat d) (dues (k_delay ?k)) else dues (k_delay ?k))"
    using due2 dues_WakeupAdd[OF ok2, of t] notin by simp
qed

lemma EventSetBlock_lists:
  fixes d ev :: ULONG and ty :: UINT8 and i :: nat
  assumes "LW_TCB_GET_CUR (es_k s) = t"
  defines "s' \<equiv> EventSetBlock i ev ty d s"
  shows "es_buf s' = (es_buf s)(i := (es_buf s i)\<lparr>EVENTSET_plineWaitList := t # EVENTSET_plineWaitList (es_buf s i)\<rparr>)"
    "es_pesnPtr s' = (es_pesnPtr s)(t := True)" "es_tcbEventSets s' = es_tcbEventSets s" "es_free s' = es_free s"
    "es_node s' = (es_node s)(t := \<lparr>EVENTSETNODE_pesEventSet = i, EVENTSETNODE_ulEventSets = ev, EVENTSETNODE_ucWaitType = ty\<rparr>)"
  using assms(1) by (simp_all add: s'_def EventSetBlock_def Let_def es_upd_def)

section \<open>Waking a thread\<close>

lemma EventSet_ready_lists:
  "es_buf (snd (EventSet_ready t v s)) = es_buf s" "es_pesnPtr (snd (EventSet_ready t v s)) = es_pesnPtr s"
  "es_node (snd (EventSet_ready t v s)) = es_node s" "es_free (snd (EventSet_ready t v s)) = es_free s"
  "es_tcbEventSets (snd (EventSet_ready t v s)) = (es_tcbEventSets s)(t := v)"
  by (simp_all add: EventSet_ready_def Let_def)

text \<open>A thread that waits for an event set: what a wake-up relies on.\<close>

definition es_waits :: "kernel \<Rightarrow> tid \<Rightarrow> bool" where
  "es_waits k t \<longleftrightarrow> tcb_status k t AND LW_THREAD_STATUS_EVENTSET \<noteq> 0 \<and> TCB_peventPtr (k_tcb k t) = None \<and>
     TCB_ucWaitTimeout (k_tcb k t) = LW_WAIT_TIME_CLEAR \<and> k_tcbIdTable k t"

lemma eventset_bit:
  assumes "(x::UINT16) AND LW_THREAD_STATUS_EVENTSET \<noteq> 0" shows "x AND LW_THREAD_STATUS_PEND_ANY \<noteq> 0" "x \<noteq> 0"
proof -
  have "x AND 8 = (x AND 0x1e) AND 8" by (simp add: and.assoc)
  then show "x AND 0x1e \<noteq> 0" using assms by auto
  show "x \<noteq> 0" using assms by auto
qed

lemma eventset_bits [simp]:
  fixes x :: UINT16
  shows "(x AND - 2) AND 8 = x AND 8" "(x AND - 9) AND 8 = 0" "(x AND - 9) AND 1 = x AND 1" "(x AND - 31) AND 8 = 0"
    "(x OR 1) AND 8 = x AND 8"
  by (simp_all add: and.assoc bit.conj_disj_distrib2)

lemma EventSet_ready_kernel:
  fixes v :: ULONG
  assumes k: "kinv (es_k s)" and t: "es_waits (es_k s) t"
  defines "k' \<equiv> es_k (snd (EventSet_ready t v s))"
  shows "kinv k'" "k_halt k' = k_halt (es_k s)"
    "tcb_status k' t = woken_status LW_THREAD_STATUS_EVENTSET (tcb_status (es_k s) t)"
    "ready_set k' = (if tcb_status k' t = 0 then insert t (ready_set (es_k s)) else ready_set (es_k s))"
    "TCB_peventPtr (k_tcb k' t) = None" "TCB_ucWaitTimeout (k_tcb k' t) = LW_WAIT_TIME_CLEAR"
    "TCB_ucIsEventDelete (k_tcb k' t) = TCB_ucIsEventDelete (k_tcb (es_k s) t)"
    "\<And>u. u \<noteq> t \<Longrightarrow> tcb_core (k_tcb k' u) = tcb_core (k_tcb (es_k s) u)"
    "k_event k' = k_event (es_k s)" "k_ncpus k' = k_ncpus (es_k s)" "k_tcbIdTable k' = k_tcbIdTable (es_k s)"
    "dues (k_delay k') = filter (\<lambda>(n, d). n \<noteq> t) (dues (k_delay (es_k s)))"
    "fst (EventSet_ready t v s) \<longleftrightarrow> tcb_status k' t = 0"
proof -
  let ?k = "es_k s"
  note w = t[unfolded es_waits_def]
  define k1 where "k1 = set_ulDelay t 0 (if tcb_status ?k t AND LW_THREAD_STATUS_DELAY \<noteq> 0 then DEL_FROM_WAKEUP_LINE t ?k else ?k)"
  have tcb1: "k_tcb k1 = (k_tcb ?k)(t := (k_tcb ?k t)\<lparr>TCB_usStatus := tcb_status ?k t AND NOT LW_THREAD_STATUS_DELAY\<rparr>)"
    by (auto simp: k1_def and_NOT1_id)
  have st1: "tcb_status k1 t = tcb_status ?k t AND NOT LW_THREAD_STATUS_DELAY" by (simp add: tcb1)
  have er: "EventSet_ready t v s = (let k2 = tcb_upd t (\<lambda>x. x\<lparr>TCB_usStatus := TCB_usStatus x AND NOT LW_THREAD_STATUS_EVENTSET\<rparr>) k1;
      s1 = s\<lparr>es_tcbEventSets := (es_tcbEventSets s)(t := v)\<rparr>
    in if LW_THREAD_IS_READY (k_tcb k2 t) then
         (let k3 = tcb_upd t (\<lambda>x. x\<lparr>TCB_ucSchedActivate := LW_SCHED_ACT_INTERRUPT\<rparr>) k2
          in (True, s1\<lparr>es_k := ADD_TO_READY_RING t (GetPcb k3 t) k3\<rparr>))
       else (False, s1\<lparr>es_k := k2\<rparr>))"
    unfolding EventSet_ready_def Let_def k1_def by (rule refl)
  have k'1: "k' = EventReadyHighLevel t LW_THREAD_STATUS_EVENTSET k1"
  proof -
    have "(k_tcb k1 t)\<lparr>TCB_peventPtr := None\<rparr> = k_tcb k1 t"
      using w by (cases "k_tcb k1 t") (auto simp: tcb1 dest: arg_cong[where f = TCB_peventPtr])
    then have noop: "tcb_upd t (\<lambda>x. x\<lparr>TCB_peventPtr := None\<rparr>) k1 = k1"
      by (simp add: tcb_upd_def fun_upd_idem)
    have "TCB_ucWaitTimeout (k_tcb k1 t) = 0" using w by (simp add: tcb1)
    then show ?thesis unfolding k'_def er EventReadyHighLevel_def noop by (simp add: Let_def)
  qed
  have ne0: "tcb_status ?k t \<noteq> 0" "tcb_status k1 t \<noteq> 0" "tcb_status k1 t AND LW_THREAD_STATUS_PEND_ANY \<noteq> 0"
    using eventset_bit[OF conjunct1[OF w]] eventset_bit[of "tcb_status k1 t"] w by (simp_all add: st1)
  have rs: "ready_set k1 = ready_set ?k"
    by (rule ready_set_unready[where t = t]) (use ne0 in \<open>simp_all add: tcb1, simp_all add: k1_def\<close>)
  have dly: "delay_inv k1"
  proof (cases "tcb_status ?k t AND LW_THREAD_STATUS_DELAY = 0")
    case True
    then show ?thesis using kinv_delay[OF k] by (simp add: k1_def delay_inv_set_ulDelay)
  next
    case False
    then show ?thesis using DEL_FROM_WAKEUP_LINE_delay[OF kinv_delay[OF k] False] by (simp add: k1_def delay_inv_set_ulDelay)
  qed
  have "wait_inv k1" using kinv_wait[OF k] by (simp add: k1_def)
  then have wx: "wait_invx {t} k1" using w wait_invx_None[of k1 t] by (simp add: tcb1)
  have sch: "sched_inv (ready_set ?k) k1" using kinv_sched[OF k] by (simp add: k1_def)
  have nc: "k_ncpus k1 = k_ncpus ?k" "k_curcpu k1 = k_curcpu ?k" "k_tcbIdTable k1 = k_tcbIdTable ?k"
    "k_halt k1 = k_halt ?k" "k_event k1 = k_event ?k" by (simp_all add: k1_def)
  have h: "kinv_half t k1"
    unfolding kinv_half_def rs using k ne0 wx dly sch nc w by (auto simp: kinv_def tcb1 split: if_splits)
  note ok = EventReadyHighLevel_ok[OF h, where ty = LW_THREAD_STATUS_EVENTSET, folded k'1]
  show "kinv k'" "k_halt k' = k_halt ?k" "TCB_peventPtr (k_tcb k' t) = None" "TCB_ucWaitTimeout (k_tcb k' t) = LW_WAIT_TIME_CLEAR"
    "k_event k' = k_event ?k" "k_ncpus k' = k_ncpus ?k" "k_tcbIdTable k' = k_tcbIdTable ?k"
    using ok nc by simp_all
  show st: "tcb_status k' t = woken_status LW_THREAD_STATUS_EVENTSET (tcb_status ?k t)"
    using ok(4) st1 by (simp add: woken_status_def)
  show "ready_set k' = (if tcb_status k' t = 0 then insert t (ready_set ?k) else ready_set ?k)"
    using ok(3,4) rs by simp
  show "TCB_ucIsEventDelete (k_tcb k' t) = TCB_ucIsEventDelete (k_tcb ?k t)" using ok(13) by (simp add: tcb1)
  show "tcb_core (k_tcb k' u) = tcb_core (k_tcb ?k u)" if "u \<noteq> t" for u using ok(6)[OF that] that by (simp add: tcb1)
  show "dues (k_delay k') = filter (\<lambda>(n, d). n \<noteq> t) (dues (k_delay ?k))"
  proof -
    have "k_delay k' = k_delay k1" using ok(8) .
    moreover have "dues (k_delay k1) = filter (\<lambda>(n, d). n \<noteq> t) (dues (k_delay ?k))"
    proof (cases "tcb_status ?k t AND LW_THREAD_STATUS_DELAY = 0")
      case True
      then have n: "t \<notin> set (WU_line (k_delay ?k))" using delay_line_mem[OF kinv_delay[OF k]] by blast
      then have "\<forall>x\<in>set (dues (k_delay ?k)). fst x \<noteq> t" by (metis imageI list.set_map map_fst_dues)
      then have "filter (\<lambda>(n, d). n \<noteq> t) (dues (k_delay ?k)) = dues (k_delay ?k)" by (auto simp: filter_id_conv)
      then show ?thesis using True dues_counter_out[OF n] by (simp add: k1_def set_ulDelay_def)
    next
      case False
      have ok: "wu_ok (k_delay ?k)" using kinv_delay[OF k] by (simp add: delay_inv_def)
      have "t \<in> set (WU_line (k_delay ?k))" using False delay_line_mem[OF kinv_delay[OF k]] by blast
      then have "dues (WakeupDel t (k_delay ?k)) = filter (\<lambda>(n, d). n \<noteq> t) (dues (k_delay ?k))"
        and "t \<notin> set (WU_line (WakeupDel t (k_delay ?k)))"
        using dues_WakeupDel[OF ok] ok by (auto simp: wu_ok_def)
      then show ?thesis using False dues_counter_out[of t "WakeupDel t (k_delay ?k)" 0]
        by (simp add: k1_def set_ulDelay_def DEL_FROM_WAKEUP_LINE_def)
    qed
    ultimately show ?thesis by simp
  qed
  show "fst (EventSet_ready t v s) \<longleftrightarrow> tcb_status k' t = 0"
    unfolding st woken_status_def st1[symmetric]
    unfolding er by (simp add: Let_def LW_THREAD_IS_READY_def)
qed

section \<open>The invariant\<close>

abbreviation wait_list :: "esets \<Rightarrow> nat \<Rightarrow> tid list" where
  "wait_list s i \<equiv> EVENTSET_plineWaitList (es_buf s i)"
abbreviation set_of :: "esets \<Rightarrow> tid \<Rightarrow> nat" where
  "set_of s t \<equiv> EVENTSETNODE_pesEventSet (es_node s t)"

text \<open>The flags of a set, and everything else but its wait list.\<close>

definition es_core :: "eventset \<Rightarrow> eventset" where
  "es_core es = es\<lparr>EVENTSET_plineWaitList := []\<rparr>"

lemma es_core_eqD:
  assumes "es_core a = es_core b"
  shows "EVENTSET_ucType a = EVENTSET_ucType b" "EVENTSET_ulEventSets a = EVENTSET_ulEventSets b"
    "EVENTSET_ulOption a = EVENTSET_ulOption b" "EVENTSET_cEventSetName a = EVENTSET_cEventSetName b"
  using assms unfolding es_core_def by (cases a; cases b; simp)+

definition es_waiter :: "esets \<Rightarrow> tid \<Rightarrow> bool" where
  "es_waiter s t \<longleftrightarrow> es_waits (es_k s) t \<and> TCB_ucIsEventDelete (k_tcb (es_k s) t) = LW_EVENT_EXIST \<and>
     set_of s t < LW_CFG_MAX_EVENTSETS \<and> EVENTSET_ucType (es_buf s (set_of s t)) = LW_TYPE_EVENT_EVENTSET \<and>
     EventSetTest (EVENTSETNODE_ucWaitType (es_node s t)) 0 0 \<noteq> None"

definition es_inv :: "esets \<Rightarrow> bool" where
  "es_inv s \<longleftrightarrow> kinv (es_k s) \<and>
     (\<forall>i. distinct (wait_list s i) \<and> (\<forall>t. t \<in> set (wait_list s i) \<longleftrightarrow> es_pesnPtr s t \<and> set_of s t = i)) \<and>
     (\<forall>t. es_pesnPtr s t \<longleftrightarrow> tcb_status (es_k s) t AND LW_THREAD_STATUS_EVENTSET \<noteq> 0) \<and>
     (\<forall>t. es_pesnPtr s t \<longrightarrow> es_waiter s t) \<and>
     distinct (es_free s) \<and>
     (\<forall>i. i \<in> set (es_free s) \<longleftrightarrow> i < LW_CFG_MAX_EVENTSETS \<and> EVENTSET_ucType (es_buf s i) = LW_TYPE_EVENT_UNUSED)"

lemma es_invD:
  assumes "es_inv s"
  shows "kinv (es_k s)" "distinct (wait_list s i)" "t \<in> set (wait_list s i) \<longleftrightarrow> es_pesnPtr s t \<and> set_of s t = i"
    "es_pesnPtr s t \<longleftrightarrow> tcb_status (es_k s) t AND LW_THREAD_STATUS_EVENTSET \<noteq> 0"
    "es_pesnPtr s t \<Longrightarrow> es_waiter s t" "distinct (es_free s)"
    "i \<in> set (es_free s) \<longleftrightarrow> i < LW_CFG_MAX_EVENTSETS \<and> EVENTSET_ucType (es_buf s i) = LW_TYPE_EVENT_UNUSED"
  using assms unfolding es_inv_def by blast+

lemma es_invI:
  assumes "kinv (es_k s)" "\<And>i. distinct (wait_list s i)"
    "\<And>i t. t \<in> set (wait_list s i) \<longleftrightarrow> es_pesnPtr s t \<and> set_of s t = i"
    "\<And>t. es_pesnPtr s t \<longleftrightarrow> tcb_status (es_k s) t AND LW_THREAD_STATUS_EVENTSET \<noteq> 0"
    "\<And>t. es_pesnPtr s t \<Longrightarrow> es_waiter s t" "distinct (es_free s)"
    "\<And>i. i \<in> set (es_free s) \<longleftrightarrow> i < LW_CFG_MAX_EVENTSETS \<and> EVENTSET_ucType (es_buf s i) = LW_TYPE_EVENT_UNUSED"
  shows "es_inv s"
  unfolding es_inv_def using assms by blast

text \<open>\<open>left_by t s s'\<close>: the thread \<open>t\<close> has left the wait list it stood in.\<close>

definition left_by :: "tid \<Rightarrow> esets \<Rightarrow> esets \<Rightarrow> bool" where
  "left_by t s s' \<longleftrightarrow> kinv (es_k s') \<and> (\<forall>i. wait_list s' i = remove1 t (wait_list s i)) \<and>
     (\<forall>i. es_core (es_buf s' i) = es_core (es_buf s i)) \<and> es_pesnPtr s' = (es_pesnPtr s)(t := False) \<and>
     es_node s' = es_node s \<and> es_free s' = es_free s \<and>
     tcb_status (es_k s') t AND LW_THREAD_STATUS_EVENTSET = 0 \<and>
     k_tcbIdTable (es_k s') = k_tcbIdTable (es_k s) \<and> (\<forall>u. u \<noteq> t \<longrightarrow> tcb_core (k_tcb (es_k s') u) = tcb_core (k_tcb (es_k s) u))"

lemma tcb_core_waits:
  assumes "tcb_core (k_tcb k' u) = tcb_core (k_tcb k u)" "k_tcbIdTable k' = k_tcbIdTable k"
  shows "es_waits k' u \<longleftrightarrow> es_waits k u" "TCB_ucIsEventDelete (k_tcb k' u) = TCB_ucIsEventDelete (k_tcb k u)"
    "tcb_status k' u = tcb_status k u"
  using tcb_core_eqD[OF assms(1)] assms(2) by (simp_all add: es_waits_def)

lemma left_by_inv:
  assumes ok: "es_inv s" and l: "left_by t s s'"
  shows "es_inv s'"
proof -
  note d = es_invD[OF ok] and L = l[unfolded left_by_def]
  have core: "es_core (es_buf s' i) = es_core (es_buf s i)" for i using L by blast
  have ty: "EVENTSET_ucType (es_buf s' i) = EVENTSET_ucType (es_buf s i)" for i using es_core_eqD[OF core] by simp
  have wl: "wait_list s' i = remove1 t (wait_list s i)" for i using L by blast
  have oth: "u \<noteq> t \<Longrightarrow> tcb_core (k_tcb (es_k s') u) = tcb_core (k_tcb (es_k s) u)" for u using L by blast
  have nd: "es_node s' = es_node s" "es_pesnPtr s' = (es_pesnPtr s)(t := False)" "es_free s' = es_free s"
    "k_tcbIdTable (es_k s') = k_tcbIdTable (es_k s)" "tcb_status (es_k s') t AND LW_THREAD_STATUS_EVENTSET = 0" "kinv (es_k s')"
    using L by blast+
  have st: "es_pesnPtr s' u \<longleftrightarrow> tcb_status (es_k s') u AND LW_THREAD_STATUS_EVENTSET \<noteq> 0" for u
    using d(4)[of u] nd tcb_core_waits(3)[OF oth[of u] nd(4)] by (cases "u = t") simp_all
  have wt: "es_waiter s' u" if "es_pesnPtr s' u" for u
  proof -
    have u: "u \<noteq> t" "es_pesnPtr s u" using that nd(2) by (auto split: if_splits)
    then show ?thesis using d(5)[OF u(2)] tcb_core_waits[OF oth[OF u(1)] nd(4)] nd(1) ty by (simp add: es_waiter_def)
  qed
  show ?thesis
  proof (rule es_invI)
    show "u \<in> set (wait_list s' i) \<longleftrightarrow> es_pesnPtr s' u \<and> set_of s' u = i" for i u
      using d(2)[of i] d(3)[of u i] wl[of i] nd(1,2) by (cases "u = t") simp_all
  qed (use nd(3,6) wl d(2,6,7) st wt ty in simp_all)
qed

lemma UnQueue_lists:
  assumes "es_inv s" "es_pesnPtr s t" "es_buf s1 = es_buf s" "es_node s1 = es_node s" "es_pesnPtr s1 = es_pesnPtr s"
  shows "wait_list (EventSetUnQueue t s1) i = remove1 t (wait_list s i)"
    "es_core (es_buf (EventSetUnQueue t s1) i) = es_core (es_buf s i)"
    "es_pesnPtr (EventSetUnQueue t s1) = (es_pesnPtr s)(t := False)" "es_node (EventSetUnQueue t s1) = es_node s"
    "es_free (EventSetUnQueue t s1) = es_free s1" "es_k (EventSetUnQueue t s1) = es_k s1"
    "es_tcbEventSets (EventSetUnQueue t s1) = es_tcbEventSets s1"
proof -
  have "t \<notin> set (wait_list s i)" if "i \<noteq> set_of s t" using es_invD(3)[OF assms(1), of t i] that by simp
  then have "i \<noteq> set_of s t \<Longrightarrow> remove1 t (wait_list s i) = wait_list s i" by (simp add: remove1_idem)
  then show "wait_list (EventSetUnQueue t s1) i = remove1 t (wait_list s i)"
    using assms(3-5) by (simp add: EventSetUnQueue_def Let_def es_upd_def)
  show "es_core (es_buf (EventSetUnQueue t s1) i) = es_core (es_buf s i)"
    "es_pesnPtr (EventSetUnQueue t s1) = (es_pesnPtr s)(t := False)" "es_node (EventSetUnQueue t s1) = es_node s"
    "es_free (EventSetUnQueue t s1) = es_free s1" "es_k (EventSetUnQueue t s1) = es_k s1"
    "es_tcbEventSets (EventSetUnQueue t s1) = es_tcbEventSets s1"
    using assms(3-5) by (simp_all add: EventSetUnQueue_def Let_def es_upd_def es_core_def)
qed

lemma es_waiterD: "es_waiter s t \<Longrightarrow> es_waits (es_k s) t"
  by (simp add: es_waiter_def)

lemma woken_status_eventset: "woken_status LW_THREAD_STATUS_EVENTSET st AND LW_THREAD_STATUS_EVENTSET = 0"
  by (simp add: woken_status_def)

text \<open>The operations on one waiting thread.\<close>

lemma EventSetThreadReady_ok:
  fixes v :: ULONG
  assumes ok: "es_inv s" and t: "es_pesnPtr s t"
  defines "s' \<equiv> snd (EventSetThreadReady t v s)"
  shows "left_by t s s'" "es_tcbEventSets s' = (es_tcbEventSets s)(t := v)"
    "tcb_status (es_k s') t = woken_status LW_THREAD_STATUS_EVENTSET (tcb_status (es_k s) t)"
    "TCB_ucWaitTimeout (k_tcb (es_k s') t) = LW_WAIT_TIME_CLEAR" "TCB_ucIsEventDelete (k_tcb (es_k s') t) = LW_EVENT_EXIST"
    "ready_set (es_k s') = (if tcb_status (es_k s') t = 0 then insert t (ready_set (es_k s)) else ready_set (es_k s))"
    "k_halt (es_k s') = k_halt (es_k s)" "k_ncpus (es_k s') = k_ncpus (es_k s)" "k_event (es_k s') = k_event (es_k s)"
    "dues (k_delay (es_k s')) = filter (\<lambda>(n, d). n \<noteq> t) (dues (k_delay (es_k s)))"
proof -
  define s1 where "s1 = snd (EventSet_ready t v s)"
  have s': "s' = EventSetUnQueue t s1" by (simp add: s'_def EventSetThreadReady_def split_beta s1_def)
  note w = es_waiterD[OF es_invD(5)[OF ok t]]
  note r = EventSet_ready_kernel[OF es_invD(1)[OF ok] w, where v = v, folded s1_def] and l = EventSet_ready_lists[of t v s, folded s1_def]
  note u = UnQueue_lists[OF ok t l(1,3,2), folded s']
  have k: "es_k s' = es_k s1" using u(6) .
  show "left_by t s s'" unfolding left_by_def k
    using u(1-5) r(1,3,8,11) l(4) woken_status_eventset by simp
  show "es_tcbEventSets s' = (es_tcbEventSets s)(t := v)" using u(7) l(5) by simp
  have "TCB_ucIsEventDelete (k_tcb (es_k s) t) = LW_EVENT_EXIST" using es_invD(5)[OF ok t] by (simp add: es_waiter_def)
  then show "TCB_ucIsEventDelete (k_tcb (es_k s') t) = LW_EVENT_EXIST" using r(7) k by simp
  show "ready_set (es_k s') = (if tcb_status (es_k s') t = 0 then insert t (ready_set (es_k s)) else ready_set (es_k s))"
    using r(4) unfolding k .
  show "tcb_status (es_k s') t = woken_status LW_THREAD_STATUS_EVENTSET (tcb_status (es_k s) t)"
    "TCB_ucWaitTimeout (k_tcb (es_k s') t) = LW_WAIT_TIME_CLEAR"
    "k_halt (es_k s') = k_halt (es_k s)" "k_ncpus (es_k s') = k_ncpus (es_k s)" "k_event (es_k s') = k_event (es_k s)"
    "dues (k_delay (es_k s')) = filter (\<lambda>(n, d). n \<noteq> t) (dues (k_delay (es_k s)))"
    unfolding k using r(2,3,6,9,10,12) by simp_all
qed

lemma EventSetDeleteReady_ok:
  assumes ok: "es_inv s" and t: "es_pesnPtr s t"
  defines "s' \<equiv> snd (EventSetDeleteReady t s)"
  shows "left_by t s s'" "es_tcbEventSets s' = (es_tcbEventSets s)(t := 0)" "TCB_ucIsEventDelete (k_tcb (es_k s') t) = LW_EVENT_DELETE"
    "tcb_status (es_k s') t = woken_status LW_THREAD_STATUS_EVENTSET (tcb_status (es_k s) t)"
    "TCB_ucWaitTimeout (k_tcb (es_k s') t) = LW_WAIT_TIME_CLEAR"
    "ready_set (es_k s') = (if tcb_status (es_k s') t = 0 then insert t (ready_set (es_k s)) else ready_set (es_k s))"
    "k_halt (es_k s') = k_halt (es_k s)" "k_ncpus (es_k s') = k_ncpus (es_k s)"
proof -
  define s0 where "s0 = esk_upd (tcb_upd t (\<lambda>x. x\<lparr>TCB_ucIsEventDelete := LW_EVENT_DELETE\<rparr>)) s"
  define s1 where "s1 = snd (EventSet_ready t 0 s0)"
  have s': "s' = EventSetUnQueue t s1" by (simp add: s'_def EventSetDeleteReady_def split_beta s1_def s0_def Let_def)
  have s0: "es_buf s0 = es_buf s" "es_node s0 = es_node s" "es_pesnPtr s0 = es_pesnPtr s" "es_free s0 = es_free s"
    "es_k s0 = tcb_upd t (\<lambda>x. x\<lparr>TCB_ucIsEventDelete := LW_EVENT_DELETE\<rparr>) (es_k s)" by (simp_all add: s0_def esk_upd_def)
  have k0: "kinv (es_k s0)" unfolding s0(5)
    by (subst kinv_tcb_fields) (simp_all add: tcb_place_def es_invD(1)[OF ok])
  have w: "es_waits (es_k s0) t" using es_waiterD[OF es_invD(5)[OF ok t]] by (simp add: es_waits_def s0(5))
  have rs0: "ready_set (es_k s0) = ready_set (es_k s)" by (auto simp: s0(5) ready_set_def LW_THREAD_IS_READY_def)
  note r = EventSet_ready_kernel[OF k0 w, where v = 0, folded s1_def] and l = EventSet_ready_lists[of t 0 s0, folded s1_def, unfolded s0]
  note u = UnQueue_lists[OF ok t l(1,3,2), folded s']
  have k: "es_k s' = es_k s1" using u(6) .
  show "left_by t s s'" unfolding left_by_def k
    using u(1-5) r(1,3,8,11) l(4) woken_status_eventset by (simp add: s0(5))
  show "es_tcbEventSets s' = (es_tcbEventSets s)(t := 0)" using u(7) l(5) by (simp add: s0_def esk_upd_def)
  show "TCB_ucIsEventDelete (k_tcb (es_k s') t) = LW_EVENT_DELETE" "TCB_ucWaitTimeout (k_tcb (es_k s') t) = LW_WAIT_TIME_CLEAR"
    "tcb_status (es_k s') t = woken_status LW_THREAD_STATUS_EVENTSET (tcb_status (es_k s) t)"
    "k_halt (es_k s') = k_halt (es_k s)" "k_ncpus (es_k s') = k_ncpus (es_k s)"
    unfolding k using r(2,3,6,7,10) by (simp_all add: s0(5))
  show "ready_set (es_k s') = (if tcb_status (es_k s') t = 0 then insert t (ready_set (es_k s)) else ready_set (es_k s))"
    using r(4) unfolding k rs0 .
qed

section \<open>The tick\<close>

lemma EsTick_node_kernel: "es_k (EsTick_node t s) = ThreadTick_node t (es_k s)"
  by (simp add: EsTick_node_def Let_def esk_upd_def EventSetUnQueue_def es_upd_def)

lemma EsTick_node_ok:
  assumes ok: "es_inv s" and t: "tcb_status (es_k s) t AND LW_THREAD_STATUS_DELAY \<noteq> 0"
  defines "s' \<equiv> EsTick_node t s"
  shows "es_inv s'" "\<And>i. wait_list s' i = remove1 t (wait_list s i)" "\<And>i. es_core (es_buf s' i) = es_core (es_buf s i)"
    "es_node s' = es_node s" "es_free s' = es_free s" "es_tcbEventSets s' = es_tcbEventSets s"
proof -
  note d = es_invD[OF ok]
  note n = ThreadTick_node_ok[OF d(1) t]
  define s1 where "s1 = esk_upd (ThreadTick_node t) s"
  have s1: "es_buf s1 = es_buf s" "es_node s1 = es_node s" "es_pesnPtr s1 = es_pesnPtr s" "es_free s1 = es_free s"
    "es_tcbEventSets s1 = es_tcbEventSets s" "es_k s1 = ThreadTick_node t (es_k s)" by (simp_all add: s1_def esk_upd_def)
  have st: "tcb_status (ThreadTick_node t (es_k s)) t AND LW_THREAD_STATUS_EVENTSET = 0"
  proof (cases "tcb_status (es_k s) t AND LW_THREAD_STATUS_EVENTSET = 0")
    case True
    then have "(tcb_status (es_k s) t AND y) AND 8 = 0" for y by (metis and.assoc and.commute and_zero_eq)
    then show ?thesis using n(3) True by (simp add: fired_def tick_status_def Let_def)
  next
    case False
    then have "(tcb_status (es_k s) t AND - 2) AND 0x1e \<noteq> 0" using eventset_bit[of "tcb_status (es_k s) t AND - 2"] by simp
    then show ?thesis using n(3) by (simp add: fired_def tick_status_def Let_def)
  qed
  have l: "left_by t s s' \<and> es_tcbEventSets s' = es_tcbEventSets s"
  proof (cases "es_pesnPtr s t")
    case True
    then have "tcb_status (es_k s) t AND 8 \<noteq> 0" "TCB_peventPtr (k_tcb (es_k s) t) = None"
      using d(4,5)[of t] by (simp_all add: es_waiter_def es_waits_def)
    moreover from this have "(tcb_status (es_k s) t AND - 2) AND 0x1e \<noteq> 0" using eventset_bit[of "tcb_status (es_k s) t AND - 2"] by simp
    ultimately have s': "s' = EventSetUnQueue t s1" using True by (simp add: s'_def EsTick_node_def Let_def s1_def and.assoc)
    note u = UnQueue_lists[OF ok True s1(1-3), folded s']
    show ?thesis unfolding left_by_def u(6) s1(6) using u s1(4,5) n(1,4,7) st by simp
  next
    case False
    then have "t \<notin> set (wait_list s i)" for i using d(3) by simp
    moreover have "s' = s1" using False by (simp add: s'_def EsTick_node_def Let_def s1_def)
    ultimately show ?thesis using s1 n(1,4,7) st False
      by (simp add: left_by_def remove1_idem fun_upd_idem)
  qed
  show "es_inv s'" using left_by_inv[OF ok] l by blast
  show "wait_list s' i = remove1 t (wait_list s i)" "es_core (es_buf s' i) = es_core (es_buf s i)"
    "es_node s' = es_node s" "es_free s' = es_free s" "es_tcbEventSets s' = es_tcbEventSets s" for i
    using l by (simp_all add: left_by_def)
qed

lemma EsTick_pass_kernel: "es_k (EsTick_pass n c s) = ThreadTick_pass n c (es_k s)"
  by (induction n arbitrary: c s) (simp_all add: EsTick_node_kernel esk_upd_def split_beta Let_def split: option.split)

lemma EsTick_kernel: "es_k (EsTick s) = ThreadTick (es_k s)"
  by (simp add: EsTick_def ThreadTick_def esk_upd_def EsTick_pass_kernel Let_def del: EsTick_pass.simps ThreadTick_pass.simps)

text \<open>\<open>es_later s s'\<close>: some threads have left their wait lists, the order of the others, the
  flags and the nodes are as they were.\<close>

definition es_later :: "esets \<Rightarrow> esets \<Rightarrow> bool" where
  "es_later s s' \<longleftrightarrow> es_inv s' \<and> (\<forall>i. \<exists>P. wait_list s' i = filter P (wait_list s i)) \<and>
     (\<forall>i. es_core (es_buf s' i) = es_core (es_buf s i)) \<and> es_node s' = es_node s \<and> es_free s' = es_free s"

lemma es_later_refl: "es_inv s \<Longrightarrow> es_later s s"
  by (auto simp: es_later_def intro!: exI[of _ "\<lambda>_. True"])

lemma es_later_trans:
  assumes "es_later a b" "es_later b c" shows "es_later a c"
proof -
  have "\<exists>P. wait_list c i = filter P (wait_list a i)" for i
  proof -
    obtain P Q where "wait_list b i = filter P (wait_list a i)" "wait_list c i = filter Q (wait_list b i)"
      using assms unfolding es_later_def by blast
    then show ?thesis by (intro exI[of _ "\<lambda>x. P x \<and> Q x"]) (simp add: conj_commute)
  qed
  then show ?thesis using assms by (simp add: es_later_def)
qed

text \<open>Who stays is told by the nodes.\<close>

lemma es_later_list:
  assumes ok: "es_inv s" and l: "es_later s s'" shows "wait_list s' i = filter (es_pesnPtr s') (wait_list s i)"
proof -
  obtain P where P: "wait_list s' i = filter P (wait_list s i)" using l unfolding es_later_def by blast
  have i: "es_inv s'" and n: "es_node s' = es_node s" using l by (simp_all add: es_later_def)
  have "P t \<longleftrightarrow> es_pesnPtr s' t" if "t \<in> set (wait_list s i)" for t
    using es_invD(3)[OF i, of t i] es_invD(3)[OF ok, of t i] that n by (simp add: P)
  then show ?thesis unfolding P by (rule filter_cong[OF refl])
qed

lemma left_by_later: "\<lbrakk>es_inv s; left_by t s s'\<rbrakk> \<Longrightarrow> es_later s s'"
  using left_by_inv[of s t s'] es_invD(2)[of s] by (auto simp: es_later_def left_by_def distinct_remove1_removeAll removeAll_filter_not_eq)

lemma EsTick_node_later:
  assumes "es_inv s" "tcb_status (es_k s) t AND LW_THREAD_STATUS_DELAY \<noteq> 0"
  shows "es_later s (EsTick_node t s)"
  using EsTick_node_ok[OF assms] es_invD(2)[OF assms(1)]
  by (auto simp: es_later_def distinct_remove1_removeAll removeAll_filter_not_eq)

text \<open>A change of the kernel that leaves the threads that wait for event sets as they are.\<close>

definition es_quiet :: "kernel \<Rightarrow> kernel \<Rightarrow> bool" where
  "es_quiet k k' \<longleftrightarrow> kinv k' \<and>
     (\<forall>t. (tcb_status k' t AND LW_THREAD_STATUS_EVENTSET \<noteq> 0) = (tcb_status k t AND LW_THREAD_STATUS_EVENTSET \<noteq> 0)) \<and>
     (\<forall>t. tcb_status k t AND LW_THREAD_STATUS_EVENTSET \<noteq> 0 \<longrightarrow> es_waits k t \<longrightarrow> es_waits k' t \<and>
        TCB_ucIsEventDelete (k_tcb k' t) = TCB_ucIsEventDelete (k_tcb k t))"

lemma es_quiet_core:
  assumes "kinv k'" "\<And>t. tcb_core (k_tcb k' t) = tcb_core (k_tcb k t)" "k_tcbIdTable k' = k_tcbIdTable k"
  shows "es_quiet k k'"
  using assms(1) tcb_core_waits[OF assms(2,3)] by (simp add: es_quiet_def)

lemma es_inv_quiet:
  assumes ok: "es_inv s" and q: "es_quiet (es_k s) k'" and s': "es_buf s' = es_buf s" "es_pesnPtr s' = es_pesnPtr s"
    "es_node s' = es_node s" "es_free s' = es_free s" "es_k s' = k'"
  shows "es_inv s'"
proof (rule es_invI)
  note d = es_invD[OF ok]
  show st: "es_pesnPtr s' t \<longleftrightarrow> tcb_status (es_k s') t AND LW_THREAD_STATUS_EVENTSET \<noteq> 0" for t
    using d(4)[of t] q s' unfolding es_quiet_def by simp
  show "es_waiter s' t" if "es_pesnPtr s' t" for t
    using d(5)[of t] that q s' unfolding es_quiet_def es_waiter_def by (simp add: es_waits_def)
  show "kinv (es_k s')" using q s' by (simp add: es_quiet_def)
qed (use es_invD[OF ok] s' in simp_all)

lemma es_quiet_run: "\<lbrakk>run_frame k k'; kinv k'\<rbrakk> \<Longrightarrow> es_quiet k k'"
  by (rule es_quiet_core) (simp_all add: run_frame_tcb run_frame_kernelD)

lemma EsTick_pass_later:
  assumes "es_inv s" "WU_plineOp (k_delay (es_k s)) = first_due (es_k s)" "length (WU_line (k_delay (es_k s))) \<le> n"
  shows "es_later s (EsTick_pass n k s)"
  using assms
proof (induction n arbitrary: s k)
  case 0
  then show ?case by (simp add: es_later_refl)
next
  case (Suc n)
  let ?k = "es_k s" and ?w = "k_delay (es_k s)"
  note kk = es_invD(1)[OF Suc.prems(1)]
  show ?case
  proof (cases "WU_line ?w")
    case Nil
    then show ?thesis using Suc.prems by (simp add: first_due_def es_later_refl)
  next
    case (Cons t ts)
    have op: "WU_plineOp ?w = Some t" using Suc.prems(2) Cons by (simp add: first_due_def)
    have upd: "es_later s (esk_upd (\<lambda>x. x\<lparr>k_delay := w\<rparr>) s)" if "kinv (?k\<lparr>k_delay := w\<rparr>)" for w
    proof -
      have "es_quiet ?k (?k\<lparr>k_delay := w\<rparr>)" using that by (intro es_quiet_core) simp_all
      from es_inv_quiet[OF Suc.prems(1) this] have "es_inv (esk_upd (\<lambda>x. x\<lparr>k_delay := w\<rparr>) s)" by (simp add: esk_upd_def)
      then show ?thesis by (auto simp: es_later_def esk_upd_def intro!: exI[of _ "\<lambda>_. True"])
    qed
    show ?thesis
    proof (cases "k < WUN_ulCounter ?w t")
      case True
      obtain w where w: "WAKEUP_PASS_FIRST t k ?w = (w, None)" using True by (simp add: WAKEUP_PASS_FIRST_def Let_def)
      have "ThreadTick_pass (Suc n) k ?k = ?k\<lparr>k_delay := w\<rparr>" using op w by simp
      moreover have "kinv (ThreadTick_pass (Suc n) k ?k)" using ThreadTick_pass_ok[OF kk Suc.prems(2,3)] by (simp add: ticked_def)
      ultimately show ?thesis using upd[of w] op w by simp
    next
      case False
      note tt = tick_turn[OF kk Suc.prems(2) Cons False]
      define w1 where "w1 = fst (WAKEUP_PASS_FIRST t k ?w)"
      define s1 where "s1 = esk_upd (\<lambda>x. x\<lparr>k_delay := w1\<rparr>) s"
      have w1: "w1 = ?w\<lparr>WUN_ulCounter := (WUN_ulCounter ?w)(t := WUN_ulCounter ?w t - WUN_ulCounter ?w t),
          WU_plineOp := (case ts of [] \<Rightarrow> None | y # _ \<Rightarrow> Some y)\<rparr>"
        using False Cons by (cases ?w) (simp add: w1_def WAKEUP_PASS_FIRST_def Let_def)
      have pf: "WAKEUP_PASS_FIRST t k ?w = (w1, Some (k - WUN_ulCounter ?w t))"
        using False by (simp add: w1_def WAKEUP_PASS_FIRST_def Let_def)
      have e: "EsTick_pass (Suc n) k s = EsTick_pass n (k - WUN_ulCounter ?w t) (EsTick_node t s1)"
        using op pf by (simp add: s1_def)
      have k1: "es_k s1 = ?k\<lparr>k_delay := w1\<rparr>" by (simp add: s1_def esk_upd_def)
      have l1: "es_later s s1" unfolding s1_def using upd[of w1] tt(4) w1 by simp
      have i1: "es_inv s1" using l1 by (simp add: es_later_def)
      have l2: "es_later s1 (EsTick_node t s1)"
        by (rule EsTick_node_later[OF i1]) (use tt(5) k1 w1 in simp)
      have k2: "es_k (EsTick_node t s1) = ThreadTick_node t (?k\<lparr>k_delay := w1\<rparr>)" by (simp add: EsTick_node_kernel k1)
      have "es_later (EsTick_node t s1) (EsTick_pass n (k - WUN_ulCounter ?w t) (EsTick_node t s1))"
      proof (rule Suc.IH)
        show "es_inv (EsTick_node t s1)" using l2 by (simp add: es_later_def)
        show "WU_plineOp (k_delay (es_k (EsTick_node t s1))) = first_due (es_k (EsTick_node t s1))"
          "length (WU_line (k_delay (es_k (EsTick_node t s1)))) \<le> n"
          unfolding k2 w1 using tt(7,8) Suc.prems(3) Cons by simp_all
      qed
      then show ?thesis unfolding e using es_later_trans l1 l2 by blast
    qed
  qed
qed

lemma EsTick_later:
  assumes ok: "es_inv s" shows "es_later s (EsTick s)"
proof -
  let ?f = "\<lambda>k. (KERNEL_ENTER k)\<lparr>k_delay := WAKEUP_PASS_BEGIN (k_delay (KERNEL_ENTER k))\<rparr>"
  define s1 where "s1 = esk_upd ?f s"
  have k1: "es_k s1 = ?f (es_k s)" by (simp add: s1_def esk_upd_def)
  have "kinv (es_k s1)" unfolding k1 by (rule tick_kinv) (simp add: es_invD(1)[OF ok])
  then have "es_quiet (es_k s) (es_k s1)"
    by (rule es_quiet_core) (simp_all add: k1 run_frame_tcb[OF run_frame_kernel(1)] run_frame_kernelD[OF run_frame_kernel(1)])
  then have i1: "es_inv s1" using es_inv_quiet[OF ok] by (simp add: s1_def esk_upd_def)
  have l1: "es_later s s1" using i1 by (auto simp: es_later_def s1_def esk_upd_def intro!: exI[of _ "\<lambda>_. True"])
  define s2 where "s2 = EsTick_pass (Suc (length (WU_line (k_delay (es_k s1))))) 1 s1"
  have l2: "es_later s1 s2" unfolding s2_def
    by (rule EsTick_pass_later[OF i1]) (simp_all add: k1 first_due_def WAKEUP_PASS_BEGIN_def)
  have i2: "es_inv s2" using l2 by (simp add: es_later_def)
  have "es_quiet (es_k s2) (KERNEL_EXIT (es_k s2))"
    by (rule es_quiet_run[OF run_frame_kernel(2)]) (rule KERNEL_EXIT_kinv(1)[OF es_invD(1)[OF i2]])
  from es_inv_quiet[OF i2 this] have "es_inv (esk_upd KERNEL_EXIT s2)" by (simp add: esk_upd_def)
  then have "es_later s2 (esk_upd KERNEL_EXIT s2)" by (auto simp: es_later_def esk_upd_def intro!: exI[of _ "\<lambda>_. True"])
  moreover have "EsTick s = esk_upd KERNEL_EXIT s2" unfolding EsTick_def Let_def s2_def s1_def by (rule refl)
  ultimately show ?thesis using es_later_trans l1 l2 by metis
qed

end
