(* ===== verification/Event_Set_Runs.thy ===== *)
theory Event_Set_Runs
  imports Event_Set_Inv Kernel_Runs
begin

text \<open>
  The routines on event sets keep the invariant: the two loops over a wait list, the opening of
  a handle, and each routine as a whole.  \<open>es_reach\<close> is any interleaving of the routines, the
  ticks, the scheduling points, the interrupts and the CPUs.
\<close>

section \<open>Waking several threads\<close>

text \<open>\<open>woke W f v s s'\<close>: the threads of \<open>W\<close> have left their wait lists with the delete flag
  \<open>f\<close> and the bits \<open>v\<close>; all else stands.\<close>

definition woke :: "tid set \<Rightarrow> UINT8 \<Rightarrow> (tid \<Rightarrow> ULONG) \<Rightarrow> esets \<Rightarrow> esets \<Rightarrow> bool" where
  "woke W f v s s' \<longleftrightarrow> es_inv s' \<and> (\<forall>i. wait_list s' i = filter (\<lambda>t. t \<notin> W) (wait_list s i)) \<and>
     (\<forall>i. es_core (es_buf s' i) = es_core (es_buf s i)) \<and> (\<forall>t. es_pesnPtr s' t \<longleftrightarrow> es_pesnPtr s t \<and> t \<notin> W) \<and>
     es_node s' = es_node s \<and> es_free s' = es_free s \<and> k_tcbIdTable (es_k s') = k_tcbIdTable (es_k s) \<and>
     (\<forall>u. u \<notin> W \<longrightarrow> tcb_core (k_tcb (es_k s') u) = tcb_core (k_tcb (es_k s) u) \<and> es_tcbEventSets s' u = es_tcbEventSets s u) \<and>
     (\<forall>t. t \<in> W \<longrightarrow> es_tcbEventSets s' t = v t \<and> TCB_ucIsEventDelete (k_tcb (es_k s') t) = f \<and>
        TCB_ucWaitTimeout (k_tcb (es_k s') t) = LW_WAIT_TIME_CLEAR \<and>
        tcb_status (es_k s') t = woken_status LW_THREAD_STATUS_EVENTSET (tcb_status (es_k s) t)) \<and>
     ready_set (es_k s') = ready_set (es_k s) \<union> {t \<in> W. tcb_status (es_k s') t = 0} \<and>
     k_halt (es_k s') = k_halt (es_k s) \<and> k_ncpus (es_k s') = k_ncpus (es_k s)"

lemma wokeD:
  assumes "woke W f v s s'"
  shows "es_inv s'" "wait_list s' i = filter (\<lambda>t. t \<notin> W) (wait_list s i)" "es_core (es_buf s' i) = es_core (es_buf s i)"
    "es_pesnPtr s' t \<longleftrightarrow> es_pesnPtr s t \<and> t \<notin> W" "es_node s' = es_node s" "es_free s' = es_free s"
    "k_tcbIdTable (es_k s') = k_tcbIdTable (es_k s)" "k_halt (es_k s') = k_halt (es_k s)" "k_ncpus (es_k s') = k_ncpus (es_k s)"
    "t \<notin> W \<Longrightarrow> tcb_core (k_tcb (es_k s') t) = tcb_core (k_tcb (es_k s) t)" "t \<notin> W \<Longrightarrow> es_tcbEventSets s' t = es_tcbEventSets s t"
    "t \<notin> W \<Longrightarrow> tcb_status (es_k s') t = tcb_status (es_k s) t"
    "t \<in> W \<Longrightarrow> es_tcbEventSets s' t = v t" "t \<in> W \<Longrightarrow> TCB_ucIsEventDelete (k_tcb (es_k s') t) = f"
    "t \<in> W \<Longrightarrow> TCB_ucWaitTimeout (k_tcb (es_k s') t) = LW_WAIT_TIME_CLEAR"
    "t \<in> W \<Longrightarrow> tcb_status (es_k s') t = woken_status LW_THREAD_STATUS_EVENTSET (tcb_status (es_k s) t)"
    "ready_set (es_k s') = ready_set (es_k s) \<union> {t \<in> W. tcb_status (es_k s') t = 0}"
proof -
  note w = assms[unfolded woke_def]
  show "es_inv s'" "wait_list s' i = filter (\<lambda>t. t \<notin> W) (wait_list s i)" "es_core (es_buf s' i) = es_core (es_buf s i)"
    "es_pesnPtr s' t \<longleftrightarrow> es_pesnPtr s t \<and> t \<notin> W" "es_node s' = es_node s" "es_free s' = es_free s"
    "k_halt (es_k s') = k_halt (es_k s)" "k_ncpus (es_k s') = k_ncpus (es_k s)"
    "ready_set (es_k s') = ready_set (es_k s) \<union> {t \<in> W. tcb_status (es_k s') t = 0}" using w by blast+
  show i: "k_tcbIdTable (es_k s') = k_tcbIdTable (es_k s)" using w by blast
  show c: "tcb_core (k_tcb (es_k s') t) = tcb_core (k_tcb (es_k s) t)" if "t \<notin> W" using w that by blast
  show "tcb_status (es_k s') t = tcb_status (es_k s) t" if "t \<notin> W" using tcb_core_waits(3)[OF c[OF that] i] .
  show "es_tcbEventSets s' t = es_tcbEventSets s t" if "t \<notin> W" using w that by blast
  show "es_tcbEventSets s' t = v t" "TCB_ucIsEventDelete (k_tcb (es_k s') t) = f" "TCB_ucWaitTimeout (k_tcb (es_k s') t) = LW_WAIT_TIME_CLEAR"
    "tcb_status (es_k s') t = woken_status LW_THREAD_STATUS_EVENTSET (tcb_status (es_k s) t)" if "t \<in> W" using w that by blast+
qed

lemma woke_none: "es_inv s \<Longrightarrow> woke {} f v s s"
  by (simp add: woke_def)

lemma remove1_filter: "distinct xs \<Longrightarrow> remove1 t xs = filter (\<lambda>u. u \<noteq> t) xs"
  by (simp add: distinct_remove1_removeAll removeAll_filter_not_eq eq_commute)

lemma woke_insert:
  assumes a: "woke {t} f v s s1" and b: "woke W f v s1 s2" and t: "t \<notin> W"
  shows "woke (insert t W) f v s s2"
proof -
  note A = wokeD[OF a] and B = wokeD[OF b]
  have st: "tcb_status (es_k s2) t = tcb_status (es_k s1) t" using B(12) t by blast
  have c1: "tcb_core (k_tcb (es_k s2) u) = tcb_core (k_tcb (es_k s) u)" if "u \<notin> insert t W" for u using A(10) B(10) that by simp
  have fl: "TCB_ucIsEventDelete (k_tcb (es_k s2) t) = f" "TCB_ucWaitTimeout (k_tcb (es_k s2) t) = LW_WAIT_TIME_CLEAR"
    using arg_cong[OF B(10)[OF t], where f = TCB_ucIsEventDelete] arg_cong[OF B(10)[OF t], where f = TCB_ucWaitTimeout] A(14,15)[of t]
    by (simp_all add: tcb_core_def)
  have rs: "ready_set (es_k s2) = ready_set (es_k s) \<union> {u \<in> insert t W. tcb_status (es_k s2) u = 0}"
    using A(17) B(17) st by auto
  have s1: "tcb_status (es_k s2) u = woken_status LW_THREAD_STATUS_EVENTSET (tcb_status (es_k s) u)" if "u \<in> insert t W" for u
    using A(12,16)[of u] B(16)[of u] st t that by (cases "u = t") auto
  show ?thesis unfolding woke_def
    using A(2-9,11,13) B(1-9,11,13-15) c1 fl rs s1 t by (auto simp: conj_commute intro!: filter_cong)
qed

lemma ThreadReady_woke:
  fixes v :: "tid \<Rightarrow> ULONG"
  assumes "es_inv s" "es_pesnPtr s t" shows "woke {t} LW_EVENT_EXIST v s (snd (EventSetThreadReady t (v t) s))"
proof -
  note r = EventSetThreadReady_ok[OF assms, where v = "v t"]
  note L = r(1)[unfolded left_by_def]
  show ?thesis unfolding woke_def
    using r(2-8) L left_by_inv[OF assms(1) r(1)] remove1_filter[OF es_invD(2)[OF assms(1)]] by auto
qed

lemma DeleteReady_woke:
  assumes "es_inv s" "es_pesnPtr s t" shows "woke {t} LW_EVENT_DELETE (\<lambda>_. 0) s (snd (EventSetDeleteReady t s))"
proof -
  note r = EventSetDeleteReady_ok[OF assms]
  note L = r(1)[unfolded left_by_def]
  show ?thesis unfolding woke_def
    using r(2-8) L left_by_inv[OF assms(1) r(1)] remove1_filter[OF es_invD(2)[OF assms(1)]] by auto
qed

text \<open>Whether the wait of a node is satisfied, and the bits it is given.\<close>

definition es_met :: "ULONG \<Rightarrow> esnode \<Rightarrow> bool" where
  "es_met flags n \<longleftrightarrow> (\<exists>b. EventSetTest (EVENTSETNODE_ucWaitType n) (EVENTSETNODE_ulEventSets n) flags = Some (True, b))"

definition es_bits :: "ULONG \<Rightarrow> esnode \<Rightarrow> ULONG" where
  "es_bits flags n = (case EventSetTest (EVENTSETNODE_ucWaitType n) (EVENTSETNODE_ulEventSets n) flags of
     Some (True, b) \<Rightarrow> b | _ \<Rightarrow> 0)"

lemma Set_loop_turn: "EventSetSet_loop (t # ts) i s = EventSetSet_loop ts i
    (if es_met (EVENTSET_ulEventSets (es_buf s i)) (es_node s t)
     then snd (EventSetThreadReady t (es_bits (EVENTSET_ulEventSets (es_buf s i)) (es_node s t)) s) else s)"
  by (auto simp: es_met_def es_bits_def Let_def split: option.splits prod.splits bool.splits)

lemma Set_loop_woke:
  assumes "es_inv s" "distinct ts" "\<And>t. t \<in> set ts \<Longrightarrow> es_pesnPtr s t" "flags = EVENTSET_ulEventSets (es_buf s i)"
  shows "woke {t \<in> set ts. es_met flags (es_node s t)} LW_EVENT_EXIST (\<lambda>t. es_bits flags (es_node s t)) s (EventSetSet_loop ts i s)"
  using assms
proof (induction ts arbitrary: s)
  case Nil
  then show ?case by (simp add: woke_none)
next
  case (Cons t ts)
  let ?v = "\<lambda>t. es_bits flags (es_node s t)" and ?W = "{u \<in> set ts. es_met flags (es_node s u)}"
  show ?case
  proof (cases "es_met flags (es_node s t)")
    case True
    define s1 where "s1 = snd (EventSetThreadReady t (?v t) s)"
    have w: "woke {t} LW_EVENT_EXIST ?v s s1" unfolding s1_def by (rule ThreadReady_woke) (use Cons.prems in auto)
    note W = wokeD[OF w]
    have "woke {u \<in> set ts. es_met flags (es_node s1 u)} LW_EVENT_EXIST (\<lambda>t. es_bits flags (es_node s1 t)) s1 (EventSetSet_loop ts i s1)"
      by (rule Cons.IH[OF W(1)]) (use Cons.prems W(4) es_core_eqD(2)[OF W(3)[of i]] in auto)
    then have "woke ?W LW_EVENT_EXIST ?v s1 (EventSetSet_loop ts i s1)" by (simp only: W(5))
    moreover have "t \<notin> ?W" using Cons.prems(2) by simp
    ultimately have "woke (insert t ?W) LW_EVENT_EXIST ?v s (EventSetSet_loop ts i s1)" by (rule woke_insert[OF w])
    moreover have "insert t ?W = {u \<in> set (t # ts). es_met flags (es_node s u)}" using True by auto
    moreover have "EventSetSet_loop (t # ts) i s = EventSetSet_loop ts i s1"
      using True unfolding Set_loop_turn s1_def Cons.prems(4)[symmetric] by simp
    ultimately show ?thesis by metis
  next
    case False
    have "{u \<in> set (t # ts). es_met flags (es_node s u)} = ?W" using False by auto
    then show ?thesis using Cons.IH[OF Cons.prems(1)] Cons.prems False unfolding Set_loop_turn Cons.prems(4)[symmetric] by simp
  qed
qed

lemma Delete_loop_woke:
  assumes "es_inv s" "distinct ts" "\<And>t. t \<in> set ts \<Longrightarrow> es_pesnPtr s t"
  shows "woke (set ts) LW_EVENT_DELETE (\<lambda>_. 0) s (EventSetDelete_loop ts s)"
  using assms
proof (induction ts arbitrary: s)
  case Nil
  then show ?case by (simp add: woke_none)
next
  case (Cons t ts)
  have w: "woke {t} LW_EVENT_DELETE (\<lambda>_. 0) s (snd (EventSetDeleteReady t s))" by (rule DeleteReady_woke) (use Cons.prems in auto)
  note W = wokeD[OF w]
  have "woke (set ts) LW_EVENT_DELETE (\<lambda>_. 0) (snd (EventSetDeleteReady t s)) (EventSetDelete_loop ts (snd (EventSetDeleteReady t s)))"
    by (rule Cons.IH[OF W(1)]) (use Cons.prems W(4) in auto)
  from woke_insert[OF w this] show ?case using Cons.prems(2) by simp
qed

section \<open>Kernel steps that leave the waiting threads alone\<close>

lemma es_quiet_fields:
  assumes "kinv k'" "k_tcbIdTable k' = k_tcbIdTable k" "\<And>t. tcb_status k' t = tcb_status k t"
    "\<And>t. TCB_peventPtr (k_tcb k' t) = TCB_peventPtr (k_tcb k t)" "\<And>t. TCB_ucWaitTimeout (k_tcb k' t) = TCB_ucWaitTimeout (k_tcb k t)"
    "\<And>t. TCB_ucIsEventDelete (k_tcb k' t) = TCB_ucIsEventDelete (k_tcb k t)"
  shows "es_quiet k k'"
  using assms by (simp add: es_quiet_def es_waits_def)

lemma es_quiet_steps:
  assumes "kinv k"
  shows "es_quiet k (KERNEL_ENTER k)" "es_quiet k (KERNEL_EXIT k)" "es_quiet k (ErrorHandle_of ctx c k)"
    "es_quiet k (ErrorHandle c k)" "es_quiet k (snd (Schedule_ret k))"
proof -
  show "es_quiet k (KERNEL_ENTER k)" "es_quiet k (KERNEL_EXIT k)"
    by (rule es_quiet_run; simp add: assms KERNEL_EXIT_kinv)+
  show e: "es_quiet k (ErrorHandle_of ctx c k)" for ctx
    by (rule es_quiet_fields) (simp_all add: kinv_ErrorHandle assms)
  show "es_quiet k (ErrorHandle c k)" unfolding ErrorHandle_def by (rule e)
  show "es_quiet k (snd (Schedule_ret k))" unfolding Schedule_ret_def Let_def snd_conv
    by (rule es_quiet_fields[OF kinv_tcb_fields]) (simp_all add: tcb_place_def assms)
qed

lemma es_k_upd [simp]: "es_k (esk_upd f s) = f (es_k s)" "es_buf (esk_upd f s) = es_buf s" "es_node (esk_upd f s) = es_node s"
  "es_pesnPtr (esk_upd f s) = es_pesnPtr s" "es_tcbEventSets (esk_upd f s) = es_tcbEventSets s" "es_free (esk_upd f s) = es_free s"
  "es_k (es_upd i g s) = es_k s" "es_buf (es_upd i g s) = (es_buf s)(i := g (es_buf s i))" "es_node (es_upd i g s) = es_node s"
  "es_pesnPtr (es_upd i g s) = es_pesnPtr s" "es_tcbEventSets (es_upd i g s) = es_tcbEventSets s" "es_free (es_upd i g s) = es_free s"
  by (simp_all add: esk_upd_def es_upd_def)

lemma es_inv_kernel: "\<lbrakk>es_inv s; es_quiet (es_k s) (f (es_k s))\<rbrakk> \<Longrightarrow> es_inv (esk_upd f s)"
  by (rule es_inv_quiet[where s = s and k' = "f (es_k s)"]) simp_all

lemma es_inv_steps [intro]:
  assumes "es_inv s"
  shows "es_inv (esk_upd KERNEL_ENTER s)" "es_inv (esk_upd KERNEL_EXIT s)" "es_inv (esk_upd (ErrorHandle c) s)"
    "es_inv (esk_upd (ErrorHandle_of ctx c) s)" "es_inv (es_fail s0 c s)" "es_inv (s\<lparr>es_k := snd (Schedule_ret (es_k s))\<rparr>)"
proof -
  note q = es_quiet_steps[OF es_invD(1)[OF assms]]
  show "es_inv (esk_upd KERNEL_ENTER s)" "es_inv (esk_upd KERNEL_EXIT s)" "es_inv (esk_upd (ErrorHandle c) s)"
    "es_inv (esk_upd (ErrorHandle_of ctx c) s)" using q by (simp_all add: es_inv_kernel[OF assms])
  have x: "es_inv (esk_upd KERNEL_EXIT s)" using q(2) by (rule es_inv_kernel[OF assms])
  have "es_inv (esk_upd (ErrorHandle_of (es_k s0) c) (esk_upd KERNEL_EXIT s))"
    by (rule es_inv_kernel[OF x]) (simp add: es_quiet_steps[OF es_invD(1)[OF x], simplified])
  then show "es_inv (es_fail s0 c s)" by (simp add: es_fail_def esk_upd_def)
  show "es_inv (s\<lparr>es_k := snd (Schedule_ret (es_k s))\<rparr>)"
    by (rule es_inv_quiet[OF assms q(5)]) simp_all
qed

text \<open>The flags may change at will, and so may what a thread was last given.\<close>

lemma es_inv_flags [intro]:
  assumes "es_inv s" shows "es_inv (es_upd i (\<lambda>es. es\<lparr>EVENTSET_ulEventSets := f es\<rparr>) s)"
    "es_inv (s\<lparr>es_tcbEventSets := g\<rparr>)"
proof -
  note d = es_invD[OF assms]
  show "es_inv (es_upd i (\<lambda>es. es\<lparr>EVENTSET_ulEventSets := f es\<rparr>) s)"
    by (rule es_invI) (use d in \<open>auto simp: es_waiter_def split: if_splits\<close>)
  show "es_inv (s\<lparr>es_tcbEventSets := g\<rparr>)"
    by (rule es_invI) (use d in \<open>auto simp: es_waiter_def\<close>)
qed

section \<open>Opening a handle\<close>

definition es_handle :: "esets \<Rightarrow> ULONG \<Rightarrow> nat \<Rightarrow> bool" where
  "es_handle s ulId i \<longleftrightarrow> ObjectClassOK ulId OBJECT_EVENT_SET \<and> i = unat (ObjectGetIndex ulId) \<and> i < LW_CFG_MAX_EVENTSETS \<and>
     EVENTSET_ucType (es_buf s i) = LW_TYPE_EVENT_EVENTSET"

lemma EventSetOpen_handle: "es_handle s ulId i \<Longrightarrow> EventSetOpen ulId s = Inr (i, esk_upd KERNEL_ENTER s)"
  by (auto simp: es_handle_def EventSetOpen_def EventSet_Index_Invalid_def EventSet_Type_Invalid_def Let_def)

lemma EventSetOpen_cases:
  obtains (opened) i where "es_handle s ulId i" "EventSetOpen ulId s = Inr (i, esk_upd KERNEL_ENTER s)"
  | (bad) r f where "EventSetOpen ulId s = Inl (r, esk_upd f s)" "r = ERROR_KERNEL_HANDLE_NULL \<or> r = ERROR_EVENTSET_TYPE"
      "\<And>i. \<not> es_handle s ulId i" "es_inv s \<longrightarrow> es_inv (esk_upd f s)"
proof (cases "\<exists>i. es_handle s ulId i")
  case True
  then show ?thesis using EventSetOpen_handle opened by blast
next
  case False
  have e: "es_fail s c (esk_upd KERNEL_ENTER s) = esk_upd (\<lambda>k. ErrorHandle_of (es_k s) c (KERNEL_EXIT (KERNEL_ENTER k))) s" for c
    by (simp add: es_fail_def esk_upd_def)
  have i: "es_inv s \<longrightarrow> es_inv (esk_upd (\<lambda>k. ErrorHandle_of (es_k s) c (KERNEL_EXIT (KERNEL_ENTER k))) s)" for c
    using es_inv_steps(5)[OF es_inv_steps(1), of s s c] by (simp add: e)
  show ?thesis
  proof (cases "ObjectClassOK ulId OBJECT_EVENT_SET \<and> \<not> EventSet_Index_Invalid (ObjectGetIndex ulId)")
    case True
    then have "EventSetOpen ulId s = Inl (ERROR_EVENTSET_TYPE, esk_upd (\<lambda>k. ErrorHandle_of (es_k s) ERROR_EVENTSET_TYPE (KERNEL_EXIT (KERNEL_ENTER k))) s)"
      using False by (auto simp: EventSetOpen_def es_handle_def EventSet_Index_Invalid_def EventSet_Type_Invalid_def Let_def e)
    then show ?thesis using bad False i by blast
  next
    case ok: False
    then have "EventSetOpen ulId s = Inl (ERROR_KERNEL_HANDLE_NULL, esk_upd (ErrorHandle ERROR_KERNEL_HANDLE_NULL) s)"
      by (auto simp: EventSetOpen_def)
    then show ?thesis using bad False by blast
  qed
qed

section \<open>The routines\<close>

lemma Block_inv:
  fixes ev d :: ULONG and ty :: UINT8
  assumes ok: "es_inv s" and t: "runs (es_k s) t" and i: "i < LW_CFG_MAX_EVENTSETS" "EVENTSET_ucType (es_buf s i) = LW_TYPE_EVENT_EVENTSET"
    and ty: "EventSetTest ty 0 0 \<noteq> None"
  shows "es_inv (EventSetBlock i ev ty d s)"
proof -
  let ?s = "EventSetBlock i ev ty d s"
  note d = es_invD[OF ok] and k = EventSetBlock_kernel[OF es_invD(1)[OF ok] t, where i = i and ev = ev and ty = ty and d = d]
  note l = EventSetBlock_lists[OF runsD(1)[OF d(1) t], where i = i and ev = ev and ty = ty and d = d]
  have p: "\<not> es_pesnPtr s t" using d(4)[of t] runsD(4)[OF d(1) t] by simp
  have st: "tcb_status (es_k ?s) u = tcb_status (es_k s) u" if "u \<noteq> t" for u using tcb_core_waits(3)[OF k(8)[OF that] k(11)] .
  have b: "block_status d AND LW_THREAD_STATUS_EVENTSET \<noteq> 0" by (simp add: block_status_def)
  have new: "es_waiter ?s t"
    using k(4-7,11) l(1,5) b i ty runsD(5,7)[OF d(1) t] by (simp add: es_waiter_def es_waits_def)
  have old: "es_waiter ?s u" if u: "es_pesnPtr s u" for u
  proof -
    have n: "u \<noteq> t" using u p by auto
    show ?thesis using d(5)[OF u] tcb_core_waits(1,2)[OF k(8)[OF n] k(11)] l(1,5) n by (auto simp: es_waiter_def)
  qed
  show ?thesis
  proof (rule es_invI)
    show "distinct (wait_list ?s j)" for j using d(2)[of j] d(2)[of i] d(3)[of t i] p by (simp add: l(1))
    show "u \<in> set (wait_list ?s j) \<longleftrightarrow> es_pesnPtr ?s u \<and> set_of ?s u = j" for j u
      using d(3)[of u j] d(3)[of u i] p by (auto simp: l)
    show "es_pesnPtr ?s u \<longleftrightarrow> tcb_status (es_k ?s) u AND LW_THREAD_STATUS_EVENTSET \<noteq> 0" for u
      using d(4)[of u] st[of u] k(4) b by (cases "u = t") (simp_all add: l)
    show "es_waiter ?s u" if "es_pesnPtr ?s u" for u using that new old[of u] by (auto simp: l split: if_splits)
  qed (use k(1) d(6,7) in \<open>simp_all add: l\<close>)
qed

lemma Set_inv: "es_inv s \<Longrightarrow> es_inv (snd (EventSetSet ulId ulEvent ulOption s))"
proof (cases rule: EventSetOpen_cases[of s ulId])
  case (opened i)
  assume ok: "es_inv s"
  define s2 where "s2 = es_upd i (\<lambda>es. es\<lparr>EVENTSET_ulEventSets :=
     (if ulOption = EVENTSET_CLR then EVENTSET_ulEventSets es AND NOT ulEvent else EVENTSET_ulEventSets es OR ulEvent)\<rparr>) (esk_upd KERNEL_ENTER s)"
  have i2: "es_inv s2" unfolding s2_def by (rule es_inv_flags(1)[OF es_inv_steps(1)[OF ok]])
  have "es_inv (EventSetSet_loop (wait_list s2 i) i s2)"
    by (rule wokeD(1)[OF Set_loop_woke[OF i2]]) (use es_invD(2,3)[OF i2] in auto)
  then show ?thesis using ok by (auto simp: EventSetSet_def opened Let_def s2_def intro!: es_inv_steps)
qed (auto simp: EventSetSet_def)

lemma Take_inv: "es_inv s \<Longrightarrow> es_inv (snd (EventSetTake i opt rdy s))"
  by (auto simp: EventSetTake_def Let_def intro!: es_inv_steps(2) es_inv_flags)

lemma TryGet_inv: "es_inv s \<Longrightarrow> es_inv (snd (EventSetTryGetEx ulId ulEvent opt pul s))"
  by (cases rule: EventSetOpen_cases[of s ulId])
    (auto simp: EventSetTryGetEx_def split_beta intro!: es_inv_steps Take_inv split: option.split bool.split)

lemma EventSetTest_none: "EventSetTest ty a b = None \<longleftrightarrow> EventSetTest ty 0 0 = None"
  by (simp add: EventSetTest_def)

lemma Get_again_inv:
  assumes ok: "es_inv s" and t: "runs (es_k s) t" shows "es_inv (snd (EventSetGetEx_again ulId ulEvent opt d pul s))"
proof (cases rule: EventSetOpen_cases[of s ulId])
  case (opened i)
  define s1 where "s1 = esk_upd KERNEL_ENTER s"
  have i1: "es_inv s1" and r1: "runs (es_k s1) t" using ok t by (auto simp: s1_def)
  have h: "i < LW_CFG_MAX_EVENTSETS" "EVENTSET_ucType (es_buf s1 i) = LW_TYPE_EVENT_EVENTSET" using opened(1) by (auto simp: es_handle_def s1_def)
  have "es_inv (EventSetBlock i ulEvent (WaitType opt) w s1)" if "EventSetTest (WaitType opt) ulEvent f = Some z" for w f z
    by (rule Block_inv[OF i1 r1 h]) (use that EventSetTest_none in \<open>metis option.distinct(1)\<close>)
  then show ?thesis using i1
    by (auto simp: EventSetGetEx_again_def opened s1_def[symmetric] split_beta Let_def intro!: es_inv_steps(2,5) Take_inv split: option.split bool.split)
qed (use ok in \<open>simp add: EventSetGetEx_again_def\<close>)

lemma Wake_inv:
  assumes ok: "es_inv s" and t: "runs (es_k s) t"
  shows "es_inv (snd (EventSetGetEx_wake ulId ulEvent opt d sv eopt pul s))"
proof -
  define s1 where "s1 = s\<lparr>es_k := snd (Schedule_ret (es_k s))\<rparr>"
  have i1: "es_inv s1" unfolding s1_def by (rule es_inv_steps(6)[OF ok])
  have "LW_TCB_GET_CUR (snd (Schedule_ret k)) = LW_TCB_GET_CUR k" "k_ncpus (snd (Schedule_ret k)) = k_ncpus k"
    "ready_set (snd (Schedule_ret k)) = ready_set k" for k
    by (auto simp: Schedule_ret_def Let_def LW_TCB_GET_CUR_def ready_set_def LW_THREAD_IS_READY_def)
  then have r1: "runs (es_k s1) t" using t by (simp add: s1_def runs_def)
  have i2: "es_inv (esk_upd KERNEL_ENTER s1)" using i1 by blast
  show ?thesis
    by (auto simp: EventSetGetEx_wake_def split_beta Let_def s1_def[symmetric] intro!: es_inv_steps(2,3,5) es_inv_flags(1) i1 i2
        Get_again_inv[OF i1 r1])
qed

lemma Alloc_reads: "es_buf (snd (Allocate_EventSet_Object s)) = es_buf s" "es_k (snd (Allocate_EventSet_Object s)) = es_k s"
  "es_node (snd (Allocate_EventSet_Object s)) = es_node s" "es_pesnPtr (snd (Allocate_EventSet_Object s)) = es_pesnPtr s"
  "fst (Allocate_EventSet_Object s) = (case es_free s of [] \<Rightarrow> None | i # is \<Rightarrow> Some i)"
  "es_free (snd (Allocate_EventSet_Object s)) = tl (es_free s)" "es_tcbEventSets (snd (Allocate_EventSet_Object s)) = es_tcbEventSets s"
  by (simp_all add: Allocate_EventSet_Object_def Let_def split: list.split)

text \<open>A set leaves the pool: nobody waits for it.\<close>

lemma es_inv_open:
  assumes ok: "es_inv s" and f: "es_free s = i # is"
    and s': "es_k s' = es_k s" "es_node s' = es_node s" "es_pesnPtr s' = es_pesnPtr s" "es_free s' = is"
      "es_buf s' = (es_buf s)(i := es)" "EVENTSET_ucType es = LW_TYPE_EVENT_EVENTSET" "EVENTSET_plineWaitList es = []"
  shows "es_inv s'"
proof -
  note d = es_invD[OF ok]
  have u: "i < LW_CFG_MAX_EVENTSETS" "EVENTSET_ucType (es_buf s i) = LW_TYPE_EVENT_UNUSED" using d(7)[of i] f by auto
  have n: "set_of s t \<noteq> i" if "es_pesnPtr s t" for t using d(5)[OF that] u by (auto simp: es_waiter_def)
  show ?thesis
  proof (rule es_invI)
    show "t \<in> set (wait_list s' j) \<longleftrightarrow> es_pesnPtr s' t \<and> set_of s' t = j" for j t using d(3)[of t j] n[of t] by (auto simp: s')
    show "es_waiter s' t" if "es_pesnPtr s' t" for t using d(5)[of t] n[of t] that by (simp add: es_waiter_def s')
    show "distinct (es_free s')" using d(6) f by (simp add: s')
    show "j \<in> set (es_free s') \<longleftrightarrow> j < LW_CFG_MAX_EVENTSETS \<and> EVENTSET_ucType (es_buf s' j) = LW_TYPE_EVENT_UNUSED" for j
      using d(6) d(7)[of j] f by (auto simp: s')
  qed (use d(1,2,4) in \<open>simp_all add: s'\<close>)
qed

lemma Create_inv:
  assumes "es_inv s" shows "es_inv (snd (EventSetCreate nm ev opt pul s))"
proof -
  define s1 where "s1 = esk_upd KERNEL_ENTER s"
  have i1: "es_inv s1" unfolding s1_def using assms by blast
  show ?thesis
  proof (cases "es_free s1")
    case Nil
    have "snd (Allocate_EventSet_Object s1) = s1" using Nil by (simp add: Allocate_EventSet_Object_def)
    then show ?thesis using Nil i1 assms
      by (auto simp: EventSetCreate_def s1_def[symmetric] split_beta Let_def Alloc_reads intro!: es_inv_steps(2,3,4))
  next
    case (Cons i "is")
    define s2 where "s2 = esk_upd KERNEL_EXIT s1"
    have i2: "es_inv s2" and f2: "es_free s2 = i # is" unfolding s2_def using i1 Cons by (blast, simp)
    show ?thesis using Cons assms
      by (auto simp: EventSetCreate_def s1_def[symmetric] split_beta Let_def Alloc_reads s2_def
          intro!: es_inv_steps(3) es_inv_open[OF i2 f2])
  qed
qed

text \<open>A set goes back to the pool once nobody waits for it.\<close>

lemma es_inv_close:
  assumes ok: "es_inv s" and i: "i < LW_CFG_MAX_EVENTSETS" "EVENTSET_ucType (es_buf s i) = LW_TYPE_EVENT_EVENTSET" "wait_list s i = []"
  shows "es_inv (Free_EventSet_Object i (es_upd i (\<lambda>es. es\<lparr>EVENTSET_ucType := LW_TYPE_EVENT_UNUSED, EVENTSET_plineWaitList := []\<rparr>) s))"
    (is "es_inv ?s")
proof -
  note d = es_invD[OF ok]
  have n: "set_of s t \<noteq> i" if "es_pesnPtr s t" for t using d(3)[of t i] that i(3) by auto
  have nf: "i \<notin> set (es_free s)" using d(7)[of i] i(2) by simp
  show ?thesis unfolding Free_EventSet_Object_def
  proof (rule es_invI, goal_cases)
    case (5 t)
    then show ?case using d(5)[of t] n[of t] by (simp add: es_waiter_def)
  next
    case (3 j t)
    then show ?case using d(3)[of t j] n[of t] by auto
  next
    case (7 j)
    then show ?case using d(7)[of j] i(1) by auto
  next
    case (2 j)
    then show ?case using d(2)[of j] by simp
  qed (use d(1,4,6) nf in simp_all)
qed

lemma Delete_inv: "es_inv s \<Longrightarrow> es_inv (snd (snd (EventSetDelete ulId s)))"
proof (cases rule: EventSetOpen_cases[of s ulId])
  case (opened i)
  assume ok: "es_inv s"
  define s1 where "s1 = esk_upd KERNEL_ENTER s"
  define s2 where "s2 = EventSetDelete_loop (wait_list s1 i) s1"
  have i1: "es_inv s1" unfolding s1_def using ok by blast
  have w: "woke (set (wait_list s1 i)) LW_EVENT_DELETE (\<lambda>_. 0) s1 s2" unfolding s2_def
    by (rule Delete_loop_woke[OF i1]) (use es_invD(2,3)[OF i1] in auto)
  have h: "i < LW_CFG_MAX_EVENTSETS" "EVENTSET_ucType (es_buf s1 i) = LW_TYPE_EVENT_EVENTSET" using opened(1) by (auto simp: es_handle_def s1_def)
  have "wait_list s2 i = []" unfolding wokeD(2)[OF w] by simp
  from es_inv_close[OF wokeD(1)[OF w] h(1) _ this] h(2) es_core_eqD(1)[OF wokeD(3)[OF w, of i]] show ?thesis using ok
    by (auto simp: EventSetDelete_def opened s1_def[symmetric] s2_def[symmetric] Let_def intro!: es_inv_steps(2,3))
qed (auto simp: EventSetDelete_def)

section \<open>Runs\<close>

datatype escall =
    EsCreate "string option" ULONG ULONG | EsDelete ULONG | EsSet ULONG ULONG ULONG
  | EsGet ULONG ULONG ULONG ULONG | EsWake ULONG ULONG ULONG ULONG ULONG ULONG | EsTryGet ULONG ULONG ULONG
  | EsStatus ULONG | EsGetName ULONG

text \<open>The state after a call; \<open>EsWake\<close> is what a blocked thread runs when it is switched in
  again.\<close>

fun esexec :: "escall \<Rightarrow> esets \<Rightarrow> esets" where
  "esexec (EsCreate nm ev opt) s = snd (EventSetCreate nm ev opt True s)"
| "esexec (EsDelete h) s = snd (snd (EventSetDelete h s))"
| "esexec (EsSet h ev opt) s = snd (EventSetSet h ev opt s)"
| "esexec (EsGet h ev opt d) s = snd (EventSetGetEx h ev opt d True s)"
| "esexec (EsWake h ev opt d sv eopt) s = snd (EventSetGetEx_wake h ev opt d sv eopt True s)"
| "esexec (EsTryGet h ev opt) s = snd (EventSetTryGetEx h ev opt True s)"
| "esexec (EsStatus h) s = snd (EventSetStatus h True True s)"
| "esexec (EsGetName h) s = snd (EventSetGetName h True s)"

definition es_legal :: "escall \<Rightarrow> kernel \<Rightarrow> bool" where
  "es_legal c k \<longleftrightarrow> (case c of EsGet _ _ _ _ \<Rightarrow> LW_CPU_GET_CUR_NESTING k \<noteq> 0 \<or> (\<exists>t. runs k t)
     | EsWake _ _ _ _ _ _ \<Rightarrow> \<exists>t. runs k t | _ \<Rightarrow> True)"

lemma esexec_inv:
  assumes "es_inv s" "es_legal c (es_k s)" shows "es_inv (esexec c s)"
proof (cases c)
  case (EsGet h ev opt d)
  then show ?thesis using assms Get_again_inv by (auto simp: EventSetGetEx_def es_legal_def)
next
  case (EsWake h ev opt d sv eopt)
  then show ?thesis using assms Wake_inv by (auto simp: es_legal_def)
next
  case (EsStatus h)
  then show ?thesis using assms
    by (cases rule: EventSetOpen_cases[of s h]) (auto simp: EventSetStatus_def intro!: es_inv_steps(2))
next
  case (EsGetName h)
  then show ?thesis using assms
    by (cases rule: EventSetOpen_cases[of s h]) (auto simp: EventSetGetName_def intro!: es_inv_steps(2,3))
qed (use assms Create_inv Delete_inv Set_inv TryGet_inv in auto)

inductive es_step :: "esets \<Rightarrow> esets \<Rightarrow> bool" where
  Call: "es_legal c (es_k s) \<Longrightarrow> es_step s (esexec c s)"
| Tick: "es_step s (EsTick s)"
| Slice: "es_step s (esk_upd SchedTick s)"
| Sched: "es_step s (esk_upd Schedule s)"
| Sched_int: "c < k_ncpus (es_k s) \<Longrightarrow> es_step s (esk_upd (ScheduleInt c) s)"
| Yield: "es_step s (esk_upd (SchedYield t) s)"
| Set_prio: "t \<in> live (es_k s) \<Longrightarrow> es_step s (esk_upd (SchedSetPrio t p) s)"
| Switch_cpu: "c < k_ncpus (es_k s) \<Longrightarrow> es_step s (esk_upd (\<lambda>k. k\<lparr>k_curcpu := c\<rparr>) s)"
| Interrupt: "es_step s (esk_upd (cpu_upd c (\<lambda>p. p\<lparr>CPU_ulInterNesting := n\<rparr>)) s)"

inductive es_reach :: "esets \<Rightarrow> esets \<Rightarrow> bool" for s0 where
  Start: "es_reach s0 s0"
| Step: "\<lbrakk>es_reach s0 s; es_step s s'\<rbrakk> \<Longrightarrow> es_reach s0 s'"

lemma es_inv_frame:
  assumes ok: "es_inv s" and f: "run_frame (es_k s) (f (es_k s))" and i: "sched_inv (ready_set (es_k s)) (f (es_k s))"
  shows "es_inv (esk_upd f s)"
  using es_quiet_run[OF f kinv_frame[OF f es_invD(1)[OF ok] i]] by (rule es_inv_kernel[OF ok])

lemma es_step_inv:
  assumes "es_step s s'" and ok: "es_inv s" shows "es_inv s'"
  using assms(1)
proof (cases rule: es_step.cases)
  case (Call c)
  then show ?thesis using esexec_inv[OF ok] by simp
next
  case Tick
  then show ?thesis using EsTick_later[OF ok] by (simp add: es_later_def)
next
  case Slice
  show ?thesis unfolding Slice
    by (rule es_inv_frame[OF ok]) (simp_all add: run_frame_slice kinv_sched[OF es_invD(1)[OF ok]])
next
  case Sched
  note k = es_invD(1)[OF ok]
  have "run_frame (es_k s) (Schedule (es_k s))" "sched_inv (ready_set (es_k s)) (Schedule (es_k s))"
    unfolding Schedule_def by (simp_all add: Schedule_on_inv[OF kinv_sched[OF k] kinv_cpu[OF k]])
  then show ?thesis unfolding Sched by (rule es_inv_frame[OF ok])
next
  case (Sched_int c)
  have "run_frame (es_k s) (ScheduleInt c (es_k s))" "sched_inv (ready_set (es_k s)) (ScheduleInt c (es_k s))"
    unfolding ScheduleInt_def by (simp_all add: Schedule_on_inv[OF kinv_sched[OF es_invD(1)[OF ok]] Sched_int(2)])
  then show ?thesis unfolding Sched_int(1) by (rule es_inv_frame[OF ok])
next
  case (Yield t)
  have "sched_inv (ready_set (es_k s)) (SchedYield t (es_k s))"
    by (simp add: kinv_sched[OF es_invD(1)[OF ok]] SchedYield_def Let_def)
  with run_frame_slice(2) show ?thesis unfolding Yield by (rule es_inv_frame[OF ok])
next
  case (Set_prio t p)
  show ?thesis unfolding Set_prio(1)
    by (rule es_inv_kernel[OF ok], rule es_quiet_fields)
      (use Set_prio(2) SchedSetPrio_kinv[OF es_invD(1)[OF ok]] in \<open>simp_all add: live_def SchedSetPrio_reads SchedSetPrio_tcb\<close>)
next
  case (Switch_cpu c)
  show ?thesis unfolding Switch_cpu(1)
    by (rule es_inv_kernel[OF ok], rule es_quiet_fields) (simp_all add: kinv_curcpu es_invD(1)[OF ok] Switch_cpu(2))
next
  case (Interrupt c n)
  show ?thesis unfolding Interrupt
    by (rule es_inv_kernel[OF ok], rule es_quiet_fields) (simp_all add: kinv_cpu_upd es_invD(1)[OF ok])
qed

lemma es_reach_inv: "\<lbrakk>es_reach s0 s; es_inv s0\<rbrakk> \<Longrightarrow> es_inv s"
  by (induction rule: es_reach.induct) (auto intro: es_step_inv)

section \<open>The first state\<close>

text \<open>After \<open>_EventSetInit\<close> every set is in the pool; no thread waits for one yet.\<close>

definition es_cold :: "esets \<Rightarrow> bool" where
  "es_cold s \<longleftrightarrow> kinv (es_k s) \<and> (\<forall>t. tcb_status (es_k s) t AND LW_THREAD_STATUS_EVENTSET = 0 \<and> \<not> es_pesnPtr s t) \<and>
     (\<forall>i\<ge>LW_CFG_MAX_EVENTSETS. EVENTSET_plineWaitList (es_buf s i) = [])"

lemma EventSetInit_inv:
  assumes "es_cold s" shows "es_inv (EventSetInit s)"
  by (rule es_invI) (use assms in \<open>auto simp: es_cold_def EventSetInit_def\<close>)

end
