(* ===== verification/Event_Set_Props.thy ===== *)
theory Event_Set_Props
  imports Event_Set_Runs Sem_Api Boot
begin

text \<open>
  What the event sets promise: whom a set or a clear wakes, what a wait returns, that nobody is
  lost over any history, and that every wait ends; and two places where they do otherwise.
\<close>

section \<open>The abstract condition\<close>

text \<open>\<open>es_cond ty ev fl\<close>: the flags \<open>fl\<close> satisfy a wait of the type \<open>ty\<close> for the bits of \<open>ev\<close>;
  \<open>es_match\<close> are the bits of \<open>ev\<close> that are as the wait wants them.\<close>

definition es_bit :: "UINT8 \<Rightarrow> ULONG \<Rightarrow> nat \<Rightarrow> bool" where
  "es_bit ty fl n \<longleftrightarrow> (if ty = EVENTSET_WAIT_SET_ALL \<or> ty = EVENTSET_WAIT_SET_ANY then bit fl n else \<not> bit fl n)"

definition es_all :: "UINT8 \<Rightarrow> bool" where
  "es_all ty \<longleftrightarrow> ty = EVENTSET_WAIT_SET_ALL \<or> ty = EVENTSET_WAIT_CLR_ALL"

definition es_cond :: "UINT8 \<Rightarrow> ULONG \<Rightarrow> ULONG \<Rightarrow> bool" where
  "es_cond ty ev fl \<longleftrightarrow> (if es_all ty then list_all (\<lambda>n. bit ev n \<longrightarrow> es_bit ty fl n) [0..<32]
     else list_ex (\<lambda>n. bit ev n \<and> es_bit ty fl n) [0..<32])"

definition es_match :: "UINT8 \<Rightarrow> ULONG \<Rightarrow> ULONG \<Rightarrow> ULONG" where
  "es_match ty ev fl = ev AND (if ty = EVENTSET_WAIT_SET_ALL \<or> ty = EVENTSET_WAIT_SET_ANY then fl else NOT fl)"

definition es_type :: "UINT8 \<Rightarrow> bool" where
  "es_type ty \<longleftrightarrow> ty = EVENTSET_WAIT_CLR_ALL \<or> ty = EVENTSET_WAIT_CLR_ANY \<or> ty = EVENTSET_WAIT_SET_ALL \<or>
     ty = EVENTSET_WAIT_SET_ANY"

lemma all32: "list_all P [0..<32] \<longleftrightarrow> (\<forall>n<32. P n)" "list_ex P [0..<32] \<longleftrightarrow> (\<exists>n<32. P n)"
  by (auto simp: list_all_iff list_ex_iff)

lemma and_eq_bits: "(ev :: ULONG) = ev AND x \<longleftrightarrow> (\<forall>n<32. bit ev n \<longrightarrow> bit x n)"
  by (auto simp: bit_eq_iff bit_simps)

lemma and_ne_bits: "(ev :: ULONG) AND x \<noteq> 0 \<longleftrightarrow> (\<exists>n<32. bit ev n \<and> bit x n)"
  by (auto simp: bit_eq_iff bit_simps)

lemma es_cond_eval: "es_cond ty ev fl \<longleftrightarrow> (if es_all ty then ev = es_match ty ev fl else es_match ty ev fl \<noteq> 0)"
  by (auto simp: es_cond_def es_match_def es_bit_def all32 and_eq_bits and_ne_bits bit_not_iff_eq)

lemma EventSetTest_spec:
  "EventSetTest ty ev fl = (if es_type ty then Some (es_cond ty ev fl, es_match ty ev fl) else None)"
proof (cases "es_type ty")
  case True
  then consider "ty = 0" | "ty = 1" | "ty = 2" | "ty = 3" by (auto simp: es_type_def)
  then show ?thesis
    by cases (simp_all add: EventSetTest_def es_cond_eval es_match_def es_all_def es_type_def)
next
  case False
  then show ?thesis by (auto simp: EventSetTest_def es_type_def)
qed

lemma es_met_cond: "es_type (EVENTSETNODE_ucWaitType n) \<Longrightarrow> es_met fl n \<longleftrightarrow> es_cond (EVENTSETNODE_ucWaitType n) (EVENTSETNODE_ulEventSets n) fl"
  "es_met fl n \<Longrightarrow> es_bits fl n = es_match (EVENTSETNODE_ucWaitType n) (EVENTSETNODE_ulEventSets n) fl"
  by (auto simp: es_met_def es_bits_def EventSetTest_spec split: if_splits)

lemma waiter_type: "\<lbrakk>es_inv s; es_pesnPtr s t\<rbrakk> \<Longrightarrow> es_type (EVENTSETNODE_ucWaitType (es_node s t))"
  using es_invD(5)[of s t] by (auto simp: es_waiter_def EventSetTest_spec split: if_splits)

text \<open>The wait of the thread \<open>t\<close>, as its node says.\<close>

definition es_hit :: "ULONG \<Rightarrow> esets \<Rightarrow> tid \<Rightarrow> bool" where
  "es_hit fl s t \<longleftrightarrow> es_cond (EVENTSETNODE_ucWaitType (es_node s t)) (EVENTSETNODE_ulEventSets (es_node s t)) fl"

definition es_gets :: "ULONG \<Rightarrow> esets \<Rightarrow> tid \<Rightarrow> ULONG" where
  "es_gets fl s t = es_match (EVENTSETNODE_ucWaitType (es_node s t)) (EVENTSETNODE_ulEventSets (es_node s t)) fl"

lemma kernel_exit_reads:
  assumes "kinv k"
  shows "tcb_status (KERNEL_EXIT k) t = tcb_status k t" "TCB_ucIsEventDelete (k_tcb (KERNEL_EXIT k) t) = TCB_ucIsEventDelete (k_tcb k t)"
    "TCB_ucWaitTimeout (k_tcb (KERNEL_EXIT k) t) = TCB_ucWaitTimeout (k_tcb k t)" "ready_set (KERNEL_EXIT k) = ready_set k"
    "tcb_status (KERNEL_ENTER k) t = tcb_status k t" "ready_set (KERNEL_ENTER k) = ready_set k"
  using tcb_core_eqD[OF run_frame_tcb[OF run_frame_kernel(2), of k t]] tcb_core_eqD[OF run_frame_tcb[OF run_frame_kernel(1), of k t]]
    ready_set_frame[OF run_frame_kernel(1)] ready_set_frame[OF run_frame_kernel(2)] by simp_all

lemma es_handle_Make:
  assumes "i < LW_CFG_MAX_EVENTSETS" "EVENTSET_ucType (es_buf s i) = LW_TYPE_EVENT_EVENTSET"
  shows "es_handle s (MakeObjectId OBJECT_EVENT_SET LW_CFG_PROCESSOR_NUMBER (of_nat i)) i"
proof -
  have u: "unat (of_nat i :: UINT16) = i" using assms(1) by (simp add: unsigned_of_nat take_bit_nat_eq_self)
  show ?thesis unfolding es_handle_def using assms u by (simp add: ObjectClassOK_Make)
qed

text \<open>The call that blocks.\<close>

lemma EventSetGetEx_blocks:
  assumes "es_handle s h i" "LW_CPU_GET_CUR_NESTING (es_k s) = 0" "LW_TCB_GET_CUR (es_k (esk_upd KERNEL_ENTER s)) = t"
    and "es_type (WaitType opt)" "\<not> es_cond (WaitType opt) ev (EVENTSET_ulEventSets (es_buf s i))" "d \<noteq> LW_OPTION_NOT_WAIT"
  shows "EventSetGetEx h ev opt d pul s = (EsBlocked d (KERNEL_TIME_GET (es_k s)) (EVENTSET_ulOption (es_buf s i)),
    esk_upd KERNEL_EXIT (EventSetBlock i ev (WaitType opt) (if d = LW_OPTION_WAIT_INFINITE then 0 else d) (esk_upd KERNEL_ENTER s)))"
proof -
  have kt: "KERNEL_TIME_GET (KERNEL_ENTER (es_k s)) = KERNEL_TIME_GET (es_k s)"
    by (simp add: KERNEL_TIME_GET_def run_frame_kernelD[OF run_frame_kernel(1)])
  show ?thesis using assms(2,4-6)
    by (simp add: EventSetGetEx_def EventSetGetEx_again_def EventSetOpen_handle[OF assms(1)] EventSetTest_spec Let_def kt
        EventSetBlock_lists[OF assms(3)])
qed

section \<open>Concrete states\<close>

text \<open>\<open>es1 fl\<close>: the set 0 is in use with the flags \<open>fl\<close>; \<open>es2 fl ev opt\<close>: thread 2 has waited for it.\<close>

definition es0 :: esets where
  "es0 = \<lparr>es_k = boot, es_buf = (\<lambda>_. \<lparr>EVENTSET_ucType = LW_TYPE_EVENT_UNUSED, EVENTSET_plineWaitList = [], EVENTSET_ulEventSets = 0,
     EVENTSET_ulOption = 0, EVENTSET_cEventSetName = []\<rparr>),
     es_node = (\<lambda>_. \<lparr>EVENTSETNODE_pesEventSet = 0, EVENTSETNODE_ulEventSets = 0, EVENTSETNODE_ucWaitType = 0\<rparr>),
     es_pesnPtr = (\<lambda>_. False), es_tcbEventSets = (\<lambda>_. 0), es_free = [], es_resUsed = 0, es_resMaxUsed = 0\<rparr>"

definition es1 :: "ULONG \<Rightarrow> esets" where
  "es1 fl = es_upd 0 (\<lambda>es. es\<lparr>EVENTSET_ucType := LW_TYPE_EVENT_EVENTSET, EVENTSET_ulEventSets := fl\<rparr>)
     ((EventSetInit es0)\<lparr>es_free := [1..<LW_CFG_MAX_EVENTSETS], es_resUsed := 1, es_resMaxUsed := 1\<rparr>)"

definition es_id :: ULONG where "es_id = MakeObjectId OBJECT_EVENT_SET LW_CFG_PROCESSOR_NUMBER 0"

definition es2 :: "ULONG \<Rightarrow> ULONG \<Rightarrow> ULONG \<Rightarrow> esets" where
  "es2 fl ev opt = snd (EventSetGetEx es_id ev opt 7 True (es1 fl))"

lemma es_cold0: "es_cold es0"
  by (simp add: es_cold_def es0_def)

lemma es1_ok: "es_inv (es1 fl)" "es_handle (es1 fl) es_id 0" "es_k (es1 fl) = boot" "runs (es_k (es1 fl)) 2"
  "LW_CPU_GET_CUR_NESTING (es_k (es1 fl)) = 0" "wait_list (es1 fl) i = []" "EVENTSET_ulEventSets (es_buf (es1 fl) 0) = fl"
  "es_free (es1 fl) = 1 # [2..<LW_CFG_MAX_EVENTSETS]"
proof -
  show k: "es_k (es1 fl) = boot" by (simp add: es1_def EventSetInit_def es0_def)
  show "runs (es_k (es1 fl)) 2" "LW_CPU_GET_CUR_NESTING (es_k (es1 fl)) = 0" by (simp_all add: k)
  have f: "es_free (EventSetInit es0) = 0 # [1..<LW_CFG_MAX_EVENTSETS]" by (simp add: EventSetInit_def upt_rec[of 0])
  show w: "wait_list (es1 fl) i = []" for i by (simp add: es1_def EventSetInit_def es0_def)
  show "es_inv (es1 fl)"
    by (rule es_inv_open[OF EventSetInit_inv[OF es_cold0] f, where es = "es_buf (es1 fl) 0"]) (simp_all add: es1_def EventSetInit_def es0_def)
  show "EVENTSET_ulEventSets (es_buf (es1 fl) 0) = fl" by (simp add: es1_def)
  show "es_free (es1 fl) = 1 # [2..<LW_CFG_MAX_EVENTSETS]" by (simp add: es1_def upt_conv_Cons numeral_2_eq_2)
  have "es_handle (es1 fl) (MakeObjectId OBJECT_EVENT_SET LW_CFG_PROCESSOR_NUMBER (of_nat 0)) 0"
    by (rule es_handle_Make) (simp_all add: es1_def)
  then show "es_handle (es1 fl) es_id 0" by (simp add: es_id_def)
qed

lemma es2_ok:
  assumes "es_type (WaitType opt)" "\<not> es_cond (WaitType opt) ev fl"
  shows "es_inv (es2 fl ev opt)" "es_handle (es2 fl ev opt) es_id 0" "wait_list (es2 fl ev opt) 0 = [2]"
    "es_node (es2 fl ev opt) 2 = \<lparr>EVENTSETNODE_pesEventSet = 0, EVENTSETNODE_ulEventSets = ev, EVENTSETNODE_ucWaitType = WaitType opt\<rparr>"
    "EVENTSET_ulEventSets (es_buf (es2 fl ev opt) 0) = fl" "LW_CPU_GET_CUR_NESTING (es_k (es2 fl ev opt)) = 0"
    "es_free (es2 fl ev opt) = 1 # [2..<LW_CFG_MAX_EVENTSETS]" "es_reach (es1 fl) (es2 fl ev opt)"
    "tcb_status (es_k (es2 fl ev opt)) 2 = LW_THREAD_STATUS_EVENTSET OR LW_THREAD_STATUS_DELAY"
proof -
  let ?e = "esk_upd KERNEL_ENTER (es1 fl)"
  have i1: "es_inv ?e" and t1: "runs (es_k ?e) 2" using es1_ok(1,4) by auto
  note cur = runsD(1)[OF es_invD(1)[OF i1] t1]
  have e: "es2 fl ev opt = esk_upd KERNEL_EXIT (EventSetBlock 0 ev (WaitType opt) 7 ?e)"
    using EventSetGetEx_blocks[OF es1_ok(2,5) cur assms(1)] assms(2) by (simp add: es2_def es1_ok(7))
  note l = EventSetBlock_lists[OF cur, where i = 0 and ev = ev and ty = "WaitType opt" and d = 7]
  show r: "es_reach (es1 fl) (es2 fl ev opt)"
    using es_reach.Step[OF es_reach.Start es_step.Call[where c = "EsGet es_id ev opt 7" and s = "es1 fl"]] es1_ok(4)
    by (auto simp: es2_def es_legal_def)
  show "es_inv (es2 fl ev opt)" using es_reach_inv[OF r es1_ok(1)] .
  show "wait_list (es2 fl ev opt) 0 = [2]" "EVENTSET_ulEventSets (es_buf (es2 fl ev opt) 0) = fl" "es_free (es2 fl ev opt) = 1 # [2..<LW_CFG_MAX_EVENTSETS]"
    "es_node (es2 fl ev opt) 2 = \<lparr>EVENTSETNODE_pesEventSet = 0, EVENTSETNODE_ulEventSets = ev, EVENTSETNODE_ucWaitType = WaitType opt\<rparr>"
    by (simp_all add: e l es1_ok)
  show "es_handle (es2 fl ev opt) es_id 0" using es1_ok(2)[of fl] by (auto simp: es_handle_def e l)
  note k = EventSetBlock_kernel[OF es_invD(1)[OF i1] t1, where i = 0 and ev = ev and ty = "WaitType opt" and d = 7]
  show "tcb_status (es_k (es2 fl ev opt)) 2 = LW_THREAD_STATUS_EVENTSET OR LW_THREAD_STATUS_DELAY"
    using k(4) kernel_exit_reads(1)[OF k(1)] by (simp add: e block_status_def)
  have ne: "LW_CPU_GET_CUR_NESTING k' = LW_CPU_GET_CUR_NESTING k" if "run_frame k k'" for k k'
    by (simp add: LW_CPU_GET_CUR_NESTING_def run_frame_kernelD(7)[OF that] run_frame_cpuD(3)[OF that])
  have dl: "cpus_kept k (DEL_FROM_READY_RING t pp k')" if "cpus_kept k k'" for k k' t pp
    using that cpus_kept_frame[OF sched_frame_ops(2)] by (rule cpus_kept_trans)
  have "cpus_kept (es_k ?e) (es_k (EventSetBlock 0 ev (WaitType opt) 7 ?e))"
    by (auto simp: EventSetBlock_def Let_def es_upd_def intro!: dl cpus_kept_trans[OF cpus_kept_trans[OF cpus_kept_upd(1,4)] cpus_kept_upd(7)])
  then show "LW_CPU_GET_CUR_NESTING (es_k (es2 fl ev opt)) = 0"
    using cpus_keptD(3) ne[OF run_frame_kernel(2)] ne[OF run_frame_kernel(1)] es1_ok(5) by (simp add: e)
qed

section \<open>Setting and clearing flags\<close>

lemma EventSetSet_ok:
  fixes opt ev :: ULONG
  assumes "es_inv s" "es_handle s h i" "opt = EVENTSET_CLR \<or> opt = EVENTSET_SET"
  defines "fl \<equiv> (if opt = EVENTSET_CLR then EVENTSET_ulEventSets (es_buf s i) AND NOT ev else EVENTSET_ulEventSets (es_buf s i) OR ev)"
    and "s' \<equiv> snd (EventSetSet h ev opt s)"
  defines "W \<equiv> {t \<in> set (wait_list s i). es_hit fl s t}"
  shows "fst (EventSetSet h ev opt s) = ERROR_NONE" "es_inv s'" "EVENTSET_ulEventSets (es_buf s' i) = fl"
    "wait_list s' i = filter (\<lambda>t. \<not> es_hit fl s t) (wait_list s i)" "\<And>j. j \<noteq> i \<Longrightarrow> es_buf s' j = es_buf s j"
    "\<And>t. es_tcbEventSets s' t = (if t \<in> W then es_gets fl s t else es_tcbEventSets s t)"
    "\<And>t. tcb_status (es_k s') t =
      (if t \<in> W then woken_status LW_THREAD_STATUS_EVENTSET (tcb_status (es_k s) t) else tcb_status (es_k s) t)"
    "\<And>t. t \<in> W \<Longrightarrow> TCB_ucWaitTimeout (k_tcb (es_k s') t) = LW_WAIT_TIME_CLEAR \<and>
       TCB_ucIsEventDelete (k_tcb (es_k s') t) = LW_EVENT_EXIST"
    "ready_set (es_k s') = ready_set (es_k s) \<union> {t \<in> W. tcb_status (es_k s') t = 0}"
proof -
  define s2 where "s2 = es_upd i (\<lambda>es. es\<lparr>EVENTSET_ulEventSets :=
     (if opt = EVENTSET_CLR then EVENTSET_ulEventSets es AND NOT ev else EVENTSET_ulEventSets es OR ev)\<rparr>) (esk_upd KERNEL_ENTER s)"
  define s3 where "s3 = EventSetSet_loop (wait_list s2 i) i s2"
  have i2: "es_inv s2" unfolding s2_def by (rule es_inv_flags(1)[OF es_inv_steps(1)[OF assms(1)]])
  have r2: "wait_list s2 j = wait_list s j" "es_node s2 = es_node s" "EVENTSET_ulEventSets (es_buf s2 i) = fl"
    "j \<noteq> i \<Longrightarrow> es_buf s2 j = es_buf s j" "es_tcbEventSets s2 = es_tcbEventSets s" "es_pesnPtr s2 = es_pesnPtr s" for j by (simp_all add: s2_def fl_def)
  have met: "es_met fl (es_node s t) = es_hit fl s t" if "t \<in> set (wait_list s i)" for t
    using that es_met_cond(1) waiter_type[OF assms(1)] es_invD(3)[OF assms(1)] by (simp add: es_hit_def)
  have "woke {t \<in> set (wait_list s2 i). es_met fl (es_node s2 t)} LW_EVENT_EXIST (\<lambda>t. es_bits fl (es_node s2 t)) s2 s3" unfolding s3_def
    by (rule Set_loop_woke[OF i2]) (use es_invD(2,3)[OF i2] r2(3) in auto)
  moreover have "{t \<in> set (wait_list s2 i). es_met fl (es_node s2 t)} = W" using met by (auto simp: W_def r2)
  ultimately have w: "woke W LW_EVENT_EXIST (\<lambda>t. es_bits fl (es_node s t)) s2 s3" by (simp add: r2(2))
  note W = wokeD[OF w]
  have gets: "es_bits fl (es_node s t) = es_gets fl s t" if "t \<in> W" for t
    using that es_met_cond(2)[of fl "es_node s t"] met[of t] by (simp add: W_def es_gets_def)
  have e: "EventSetSet h ev opt s = (ERROR_NONE, esk_upd KERNEL_EXIT s3)"
    using assms(3) by (auto simp: EventSetSet_def EventSetOpen_handle[OF assms(2)] Let_def s2_def[symmetric] s3_def)
  have st: "tcb_status (es_k s3) t = (if t \<in> W then woken_status LW_THREAD_STATUS_EVENTSET (tcb_status (es_k s) t) else tcb_status (es_k s) t)" for t
    using W(12,16)[of t] kernel_exit_reads(5)[OF es_invD(1)[OF assms(1)]] by (simp add: s2_def)
  have ready: "ready_set (es_k s3) = ready_set (es_k s) \<union> {t \<in> W. tcb_status (es_k s3) t = 0}"
    using W(17) kernel_exit_reads(6)[OF es_invD(1)[OF assms(1)]] by (simp add: s2_def)
  have l: "wait_list s3 j = filter (\<lambda>t. t \<notin> W) (wait_list s j)" for j using W(2)[of j] r2(1) by simp
  have li: "wait_list s3 i = filter (\<lambda>t. \<not> es_hit fl s t) (wait_list s i)" unfolding l W_def by (rule filter_cong) auto
  have lj: "es_buf s3 j = es_buf s j" if "j \<noteq> i" for j
  proof -
    have "t \<notin> W" if "t \<in> set (wait_list s j)" for t using that \<open>j \<noteq> i\<close> es_invD(3)[OF assms(1)] by (auto simp: W_def)
    then have "wait_list s3 j = wait_list s j" unfolding l by (simp add: filter_id_conv)
    moreover have "es_core (es_buf s3 j) = es_core (es_buf s j)" using W(3)[of j] r2(4)[OF that] by simp
    ultimately show ?thesis by (cases "es_buf s3 j"; cases "es_buf s j") (simp add: es_core_def)
  qed
  have core: "EVENTSET_ulEventSets (es_buf s3 i) = fl" using es_core_eqD(2)[OF W(3)[of i]] r2(3) by simp
  have tc: "es_tcbEventSets s3 t = (if t \<in> W then es_gets fl s t else es_tcbEventSets s t)" for t
    using W(11,13)[of t] r2(5) gets by simp
  note x = kernel_exit_reads[OF es_invD(1)[OF W(1)]]
  have s': "s' = esk_upd KERNEL_EXIT s3" by (simp add: s'_def e)
  show "fst (EventSetSet h ev opt s) = ERROR_NONE" "es_inv s'" "EVENTSET_ulEventSets (es_buf s' i) = fl"
    "wait_list s' i = filter (\<lambda>t. \<not> es_hit fl s t) (wait_list s i)" "ready_set (es_k s') = ready_set (es_k s) \<union> {t \<in> W. tcb_status (es_k s') t = 0}"
    using es_inv_steps(2)[OF W(1)] core li ready x by (simp_all add: e s')
  show "j \<noteq> i \<Longrightarrow> es_buf s' j = es_buf s j" for j using lj by (simp add: s')
  show "es_tcbEventSets s' t = (if t \<in> W then es_gets fl s t else es_tcbEventSets s t)"
    "tcb_status (es_k s') t =
      (if t \<in> W then woken_status LW_THREAD_STATUS_EVENTSET (tcb_status (es_k s) t) else tcb_status (es_k s) t)" for t
    using tc[of t] st[of t] x by (simp_all add: s')
  show "t \<in> W \<Longrightarrow> TCB_ucWaitTimeout (k_tcb (es_k s') t) = LW_WAIT_TIME_CLEAR \<and> TCB_ucIsEventDelete (k_tcb (es_k s') t) = LW_EVENT_EXIST" for t
    using W(14,15)[of t] x by (simp add: s')
qed

text \<open>
  C28: \<open>API_EventSetSet\<close> sets or clears the flags it is given and wakes exactly the threads
  whose condition the new flags satisfy; each gets the bits that matched and is ready unless it
  is also suspended; all others stay, in order and unchanged.  \<open>es_cond\<close> states the
  condition bit by bit.
\<close>

theorem eventset_set_refines:
  assumes "es_inv s" "es_handle s h i" "opt = EVENTSET_CLR \<or> opt = EVENTSET_SET"
  shows "let (r, s') = EventSetSet h ev opt s; old = EVENTSET_ulEventSets (es_buf s i);
      fl = (if opt = EVENTSET_CLR then old AND NOT ev else old OR ev);
      W = {t \<in> set (wait_list s i). es_hit fl s t} in
    r = ERROR_NONE \<and> es_inv s' \<and> EVENTSET_ulEventSets (es_buf s' i) = fl \<and>
    wait_list s' i = filter (\<lambda>t. \<not> es_hit fl s t) (wait_list s i) \<and> (\<forall>j. j \<noteq> i \<longrightarrow> es_buf s' j = es_buf s j) \<and>
    (\<forall>t. es_tcbEventSets s' t = (if t \<in> W then es_gets fl s t else es_tcbEventSets s t)) \<and>
    (\<forall>t. tcb_status (es_k s') t =
      (if t \<in> W then woken_status LW_THREAD_STATUS_EVENTSET (tcb_status (es_k s) t) else tcb_status (es_k s) t)) \<and>
    (\<forall>t. t \<in> W \<longrightarrow> TCB_ucWaitTimeout (k_tcb (es_k s') t) = LW_WAIT_TIME_CLEAR \<and>
       TCB_ucIsEventDelete (k_tcb (es_k s') t) = LW_EVENT_EXIST) \<and>
    ready_set (es_k s') = ready_set (es_k s) \<union> {t \<in> W. tcb_status (es_k s') t = 0}"
  using EventSetSet_ok[OF assms, where ev = ev] by (simp add: split_beta Let_def)

theorem eventset_set_refines_witness:
  "let s = snd (EventSetSet es_id 2 EVENTSET_SET (es2 1 3 2)); s' = snd (EventSetSet es_id 4 EVENTSET_SET (es2 1 3 2)) in
   wait_list s 0 = [] \<and> es_tcbEventSets s 2 = 3 \<and> 2 \<in> ready_set (es_k s) \<and> wait_list s' 0 = [2]"
proof -
  have w: "es_type (WaitType 2)" "\<not> es_cond (WaitType 2) 3 1" by (simp_all add: WaitType_def es_type_def es_cond_eval es_all_def es_match_def)
  note o = es2_ok[OF w]
  have "EVENTSET_SET = EVENTSET_CLR \<or> EVENTSET_SET = EVENTSET_SET" by simp
  note r = eventset_set_refines[OF o(1,2) this]
  show ?thesis using r[of 2] r[of 4] o(3-5,9)
    by (auto simp: split_beta Let_def es_hit_def es_gets_def es_cond_eval es_all_def WaitType_def es_match_def woken_status_def)
qed

section \<open>Waiting\<close>

text \<open>The bit \<open>n\<close> of the flags after a wait with the option \<open>opt\<close> took the bits \<open>m\<close>.\<close>

definition es_after :: "ULONG \<Rightarrow> ULONG \<Rightarrow> ULONG \<Rightarrow> nat \<Rightarrow> bool" where
  "es_after opt m fl n = (let spent = (WaitType opt = EVENTSET_WAIT_CLR_ALL \<or> WaitType opt = EVENTSET_WAIT_CLR_ANY) in
    if opt AND EVENTSET_RESET \<noteq> 0 then (if bit m n then spent else bit fl n)
    else if opt AND EVENTSET_RESET_ALL \<noteq> 0 then spent else bit fl n)"

lemma bit_full: "bit (0xffffffff :: ULONG) n \<longleftrightarrow> n < 32"
proof -
  have "(0xffffffff :: ULONG) = - 1" by simp
  then show ?thesis by (simp only: bit_minus_1_iff) simp
qed

lemma EventSetReset_bits:
  assumes "es_type (WaitType opt)" "n < 32"
  shows "bit (EventSetReset (WaitType opt) opt (es_match (WaitType opt) ev fl) fl) n \<longleftrightarrow> es_after opt (es_match (WaitType opt) ev fl) fl n"
  using assms bit_full[of n] unfolding es_type_def EventSetReset_def es_after_def Let_def
  by (auto simp: bit_simps simp del: bit_numeral_iff)

lemma Take_eq: "EventSetTake i opt rdy s = (EventSetSaveRet opt rdy (EVENTSET_ulEventSets (es_buf s i)),
    esk_upd KERNEL_EXIT ((es_upd i (\<lambda>es. es\<lparr>EVENTSET_ulEventSets := EventSetReset (WaitType opt) opt rdy (EVENTSET_ulEventSets es)\<rparr>) s)
      \<lparr>es_tcbEventSets := (es_tcbEventSets s)(LW_TCB_GET_CUR (es_k s) := rdy)\<rparr>))"
  by (simp add: EventSetTake_def Let_def)

text \<open>
  C29: \<open>API_EventSetGetEx\<close> refuses an unknown type of wait; when the condition holds it returns
  the bits that matched, or all flags if asked to, and resets what the option says; otherwise
  it times out at once, or the caller enters the wait list of the set, leaves the ready
  threads and is due after as many ticks as it asked for.  No other set changes.
  \<open>API_EventSetTryGetEx\<close> is the same without waiting.
\<close>

theorem eventset_get_refines:
  assumes "es_inv s" "es_handle s h i" "LW_CPU_GET_CUR_NESTING (es_k s) = 0" "runs (es_k s) t"
  shows "let ty = WaitType opt; es = es_buf s i; fl = EVENTSET_ulEventSets es; m = es_match ty ev fl;
      (out, s') = EventSetGetEx h ev opt d pul s in
    es_inv s' \<and> (\<forall>j. j \<noteq> i \<longrightarrow> es_buf s' j = es_buf s j) \<and>
    (if \<not> es_type ty then out = EsDone ERROR_EVENTSET_WAIT_TYPE None \<and> es_buf s' i = es
     else if es_cond ty ev fl then
       out = EsDone ERROR_NONE (outp pul (if opt AND EVENTSET_RETURN_ALL \<noteq> 0 then fl else m)) \<and>
       es_core (es_buf s' i) = es_core es\<lparr>EVENTSET_ulEventSets := EVENTSET_ulEventSets (es_buf s' i)\<rparr> \<and>
       wait_list s' i = wait_list s i \<and> (\<forall>n. n < 32 \<longrightarrow> bit (EVENTSET_ulEventSets (es_buf s' i)) n = es_after opt m fl n)
     else if d = LW_OPTION_NOT_WAIT then out = EsDone ERROR_THREAD_WAIT_TIMEOUT None \<and> es_buf s' i = es
     else out = EsBlocked d (KERNEL_TIME_GET (es_k s)) (EVENTSET_ulOption es) \<and>
       es_buf s' i = es\<lparr>EVENTSET_plineWaitList := t # wait_list s i\<rparr> \<and> es_hit fl s' t = es_cond ty ev fl \<and>
       es_node s' t = \<lparr>EVENTSETNODE_pesEventSet = i, EVENTSETNODE_ulEventSets = ev, EVENTSETNODE_ucWaitType = ty\<rparr> \<and>
       ready_set (es_k s') = ready_set (es_k s) - {t} \<and>
       dues (k_delay (es_k s')) = (if d = LW_OPTION_WAIT_INFINITE then dues (k_delay (es_k s))
         else due_insert t (unat d) (dues (k_delay (es_k s))))) \<and>
    (if es_type ty \<and> es_cond ty ev fl \<or> \<not> es_type ty then (\<exists>r v s2. EventSetTryGetEx h ev opt pul s = ((r, v), s2) \<and> (out, s') = (EsDone r v, s2))
     else fst (EventSetTryGetEx h ev opt pul s) = (ERROR_THREAD_WAIT_TIMEOUT, None))"
proof -
  let ?ty = "WaitType opt" and ?es = "es_buf s i" and ?s = "snd (EventSetGetEx h ev opt d pul s)"
  let ?s1 = "esk_upd KERNEL_ENTER s"
  have t1: "runs (es_k ?s1) t" and i1: "es_inv ?s1" using assms(1,4) by auto
  have inv: "es_inv ?s" using Get_again_inv[OF assms(1,4)] assms(3) by (simp add: EventSetGetEx_def)
  note o = EventSetOpen_handle[OF assms(2)]
  note test = EventSetTest_spec[of ?ty ev "EVENTSET_ulEventSets ?es"]
  show ?thesis
  proof (cases "es_type ?ty \<and> \<not> es_cond ?ty ev (EVENTSET_ulEventSets ?es) \<and> d \<noteq> LW_OPTION_NOT_WAIT")
    case True
    define w where "w = (if d = LW_OPTION_WAIT_INFINITE then 0 else d)"
    note k = EventSetBlock_kernel[OF es_invD(1)[OF i1] t1, where i = i and ev = ev and ty = ?ty and d = w]
    note l = EventSetBlock_lists[OF runsD(1)[OF es_invD(1)[OF i1] t1], where i = i and ev = ev and ty = ?ty and d = w]
    have s: "EventSetGetEx h ev opt d pul s = (EsBlocked d (KERNEL_TIME_GET (es_k s)) (EVENTSET_ulOption ?es),
        esk_upd KERNEL_EXIT (EventSetBlock i ev ?ty w ?s1))"
      using EventSetGetEx_blocks[OF assms(2,3) runsD(1)[OF es_invD(1)[OF i1] t1]] True by (simp add: w_def)
    have r: "ready_set (es_k ?s) = ready_set (es_k s) - {t}" unfolding s
      using k(3) kernel_exit_reads(4)[OF k(1)] kernel_exit_reads(6)[OF es_invD(1)[OF assms(1)]] by simp
    have du: "dues (k_delay (es_k ?s)) = (if d = LW_OPTION_WAIT_INFINITE then dues (k_delay (es_k s))
         else due_insert t (unat d) (dues (k_delay (es_k s))))" unfolding s
      using k(12) True run_frame_kernelD(2)[OF run_frame_kernel(2)] run_frame_kernelD(2)[OF run_frame_kernel(1)] by (simp add: w_def)
    show ?thesis using True inv r du unfolding s
      by (simp add: Let_def l es_hit_def) (simp add: EventSetTryGetEx_def o test)
  next
    case False
    then show ?thesis using assms(3) inv
      by (auto simp: EventSetGetEx_def EventSetGetEx_again_def EventSetTryGetEx_def o test Let_def Take_eq EventSetSaveRet_def
          es_fail_def EventSetReset_bits es_core_def)
  qed
qed

theorem eventset_get_refines_witness:
  "fst (EventSetGetEx es_id 3 0x82 7 True (es1 7)) = EsDone ERROR_NONE (Some 3) \<and>
   bit (EVENTSET_ulEventSets (es_buf (snd (EventSetGetEx es_id 3 0x82 7 True (es1 7))) 0)) 2 \<and>
   \<not> bit (EVENTSET_ulEventSets (es_buf (snd (EventSetGetEx es_id 3 0x82 7 True (es1 7))) 0)) 1 \<and>
   wait_list (snd (EventSetGetEx es_id 3 2 7 True (es1 1))) 0 = [2]"
  using eventset_get_refines[OF es1_ok(1,2,5,4), where fl1 = 7 and opt = "0x82" and ev = 3 and d = 7 and pul = True]
    eventset_get_refines[OF es1_ok(1,2,5,4), where fl1 = 1 and opt = 2 and ev = 3 and d = 7 and pul = True]
  by (auto simp: split_beta Let_def es1_ok es_cond_eval es_all_def WaitType_def es_match_def es_type_def es_after_def outp_def)

section \<open>Over any history\<close>

text \<open>
  C30: In every state that the routines, the ticks, the scheduling points, the interrupts and the
  CPUs can reach from start-up, or from any consistent state, in any order: a thread that is marked as waiting for an event
  set stands exactly once in the list of exactly one set, which exists, is not ready and has a
  wait the set can test; any other thread stands in no list; and the pool holds exactly the
  sets that are not in use, each once, without waiters.
\<close>

theorem eventsets_consistent:
  assumes "es_cold c \<and> s0 = EventSetInit c \<or> es_inv s0" "es_reach s0 s"
  shows "(\<forall>t i. count_list (wait_list s i) t =
      (if tcb_status (es_k s) t AND LW_THREAD_STATUS_EVENTSET \<noteq> 0 \<and> set_of s t = i then 1 else 0)) \<and>
    (\<forall>t. tcb_status (es_k s) t AND LW_THREAD_STATUS_EVENTSET \<noteq> 0 \<longrightarrow>
      set_of s t < LW_CFG_MAX_EVENTSETS \<and> EVENTSET_ucType (es_buf s (set_of s t)) = LW_TYPE_EVENT_EVENTSET \<and>
      es_type (EVENTSETNODE_ucWaitType (es_node s t)) \<and> t \<notin> ready_set (es_k s) \<and>
      TCB_peventPtr (k_tcb (es_k s) t) = None) \<and>
    (\<forall>i. count_list (es_free s) i =
      (if i < LW_CFG_MAX_EVENTSETS \<and> EVENTSET_ucType (es_buf s i) = LW_TYPE_EVENT_UNUSED then 1 else 0)) \<and>
    (\<forall>i. EVENTSET_ucType (es_buf s i) = LW_TYPE_EVENT_UNUSED \<longrightarrow> wait_list s i = [])"
proof -
  have ok: "es_inv s" using es_reach_inv[OF assms(2)] EventSetInit_inv assms(1) by blast
  note d = es_invD[OF ok]
  have c: "distinct xs \<Longrightarrow> count_list xs x = (if x \<in> set xs then 1 else 0)" for xs and x :: nat by (induction xs) auto
  have em: "wait_list s i = []" if "EVENTSET_ucType (es_buf s i) = LW_TYPE_EVENT_UNUSED" for i
  proof (rule ccontr)
    assume "wait_list s i \<noteq> []"
    then obtain t where "t \<in> set (wait_list s i)" by (cases "wait_list s i") auto
    then show False using d(3)[of t i] d(5)[of t] that by (auto simp: es_waiter_def)
  qed
  show ?thesis
    using d(2,3,4,6,7) em d(5) waiter_type[OF ok]
    by (auto simp: c es_waiter_def es_waits_def ready_set_def LW_THREAD_IS_READY_def)
qed

theorem eventsets_consistent_witness:
  "count_list (wait_list (es2 1 3 2) 0) 2 = 1 \<and> 2 \<notin> ready_set (es_k (es2 1 3 2)) \<and> count_list (es_free (es2 1 3 2)) 0 = 0"
proof -
  have w: "es_type (WaitType 2)" "\<not> es_cond (WaitType 2) 3 1" by (simp_all add: WaitType_def es_type_def es_cond_eval es_all_def es_match_def)
  note o = es2_ok[OF w] and e = es2_ok(2)[OF w, unfolded es_handle_def]
  have "es_cold es0 \<and> es1 1 = EventSetInit es0 \<or> es_inv (es1 1)" using es1_ok(1) by simp
  from eventsets_consistent[OF this o(8)] o(4,9) show ?thesis using e
    by (auto simp del: One_nat_def)
qed

section \<open>How a wait ends\<close>

text \<open>
  C31: A thread that waits for an event set with a time-out of \<open>d\<close> ticks stays in its list for
  \<open>d\<close> ticks when nobody wakes it, leaves it at the \<open>d\<close>-th, is ready again, and its call returns
  \<open>ERROR_THREAD_WAIT_TIMEOUT\<close>.
\<close>

theorem eventset_get_times_out:
  assumes "es_inv s" "es_handle s h i" "LW_CPU_GET_CUR_NESTING (es_k s) = 0" "runs (es_k s) t"
    and "es_type (WaitType opt)" "\<not> es_cond (WaitType opt) ev (EVENTSET_ulEventSets (es_buf s i))"
    and "d \<noteq> LW_OPTION_NOT_WAIT" "d \<noteq> LW_OPTION_WAIT_INFINITE"
  shows "let s1 = snd (EventSetGetEx h ev opt d pul s); s2 = (EsTick ^^ unat d) s1 in
    (\<forall>n<unat d. t \<in> set (wait_list ((EsTick ^^ n) s1) i) \<and> t \<notin> ready_set (es_k ((EsTick ^^ n) s1))) \<and>
    t \<notin> set (wait_list s2 i) \<and> t \<in> ready_set (es_k s2) \<and>
    (\<forall>s3. LW_TCB_GET_CUR (es_k s3) = t \<and> TCB_iSchedRet (k_tcb (es_k s3) t) = 0 \<and>
       TCB_ucWaitTimeout (k_tcb (es_k s3) t) = TCB_ucWaitTimeout (k_tcb (es_k s2) t) \<longrightarrow>
       fst (EventSetGetEx_wake h ev opt d sv eopt pul s3) = EsDone ERROR_THREAD_WAIT_TIMEOUT None)"
proof -
  define s1 where "s1 = snd (EventSetGetEx h ev opt d pul s)"
  have ok1: "es_inv s1" using Get_again_inv[OF assms(1,4)] assms(3) by (simp add: EventSetGetEx_def s1_def)
  let ?e = "esk_upd KERNEL_ENTER s" and ?b = "EventSetBlock i ev (WaitType opt) d (esk_upd KERNEL_ENTER s)"
  have i1: "es_inv ?e" and t1: "runs (es_k ?e) t" using assms(1,4) by auto
  note k = EventSetBlock_kernel[OF es_invD(1)[OF i1] t1, where i = i and ev = ev and ty = "WaitType opt" and d = d]
  note l = EventSetBlock_lists[OF runsD(1)[OF es_invD(1)[OF i1] t1], where i = i and ev = ev and ty = "WaitType opt" and d = d]
  have e: "s1 = esk_upd KERNEL_EXIT ?b"
    using EventSetGetEx_blocks[OF assms(2,3) runsD(1)[OF es_invD(1)[OF i1] t1] assms(5-7)] assms(8) by (simp add: s1_def)
  note x = kernel_exit_reads[OF k(1)]
  have st1: "tcb_status (es_k s1) t = LW_THREAD_STATUS_EVENTSET OR LW_THREAD_STATUS_DELAY"
    using k(4) assms(7) x(1) by (simp add: e block_status_def)
  have live1: "k_tcbIdTable (es_k s1) t" and pt1: "es_pesnPtr s1 t" "set_of s1 t = i"
    using runsD(7)[OF es_invD(1)[OF assms(1)] assms(4)] k(11) run_frame_kernelD(10)[OF run_frame_kernel(2)]
      run_frame_kernelD(10)[OF run_frame_kernel(1)] by (simp_all add: e l)
  have due: "(t, unat d) \<in> set (dues (k_delay (es_k s1)))"
    using k(12) assms(7) run_frame_kernelD(2)[OF run_frame_kernel(2)] by (simp add: e)
  have wu: "wu_ok (k_delay (es_k s1))" using es_invD(1)[OF ok1] by (simp add: kinv_def delay_inv_def)
  have db: "t \<in> due_by (es_k s1) m \<longleftrightarrow> unat d \<le> m" for m
    using due by (auto simp: due_by_def dest: dues_key_unique[OF wu _ due])
  have kk: "es_k ((EsTick ^^ n) s1) = (ThreadTick ^^ n) (es_k s1)" for n by (induction n) (simp_all add: EsTick_kernel)
  have okn: "es_inv ((EsTick ^^ n) s1) \<and> es_node ((EsTick ^^ n) s1) = es_node s1" for n
    by (induction n) (use ok1 EsTick_later in \<open>auto simp: es_later_def\<close>)
  have mem: "t \<in> set (wait_list ((EsTick ^^ n) s1) i) \<longleftrightarrow> tcb_status ((ThreadTick ^^ n) (es_k s1)) t AND LW_THREAD_STATUS_EVENTSET \<noteq> 0" for n
    using es_invD(3)[of "(EsTick ^^ n) s1" t i] es_invD(4)[of "(EsTick ^^ n) s1" t] okn[of n] pt1(2) by (simp add: kk)
  have still: "tcb_status ((ThreadTick ^^ n) (es_k s1)) t = LW_THREAD_STATUS_EVENTSET OR LW_THREAD_STATUS_DELAY" if "n < unat d" for n
  proof (cases n)
    case 0
    then show ?thesis using st1 by simp
  next
    case (Suc m)
    have "ticked n (es_k s1) ((ThreadTick ^^ n) (es_k s1))" using ThreadTicks_ok[OF es_invD(1)[OF ok1], of m] Suc by simp
    then have "tcb_core (k_tcb ((ThreadTick ^^ n) (es_k s1)) t) = tcb_core (k_tcb (es_k s1) t)" using db that by (simp add: ticked_def)
    from tcb_core_eqD[OF this] show ?thesis using st1 by simp
  qed
  obtain m where m: "unat d = Suc m" using assms(7) by (cases "unat d") (auto simp: unat_eq_0)
  have tk: "ticked (unat d) (es_k s1) ((ThreadTick ^^ unat d) (es_k s1))" using ThreadTicks_ok[OF es_invD(1)[OF ok1], of m] m by simp
  then have f: "fired (es_k s1) ((ThreadTick ^^ unat d) (es_k s1)) t" and lv: "k_tcbIdTable ((ThreadTick ^^ unat d) (es_k s1)) t"
    using db live1 by (auto simp: ticked_def)
  have "tcb_status ((ThreadTick ^^ unat d) (es_k s1)) t = LW_THREAD_STATUS_RDY"
    "TCB_ucWaitTimeout (k_tcb ((ThreadTick ^^ unat d) (es_k s1)) t) = LW_WAIT_TIME_OUT"
    using f st1 by (simp_all add: fired_def tick_status_def tick_timeout_def Let_def)
  then show ?thesis using still lv unfolding Let_def s1_def[symmetric]
    by (auto simp: mem kk ready_set_def LW_THREAD_IS_READY_def EventSetGetEx_wake_def Schedule_ret_def Let_def)
qed

theorem eventset_get_times_out_witness:
  "2 \<in> set (wait_list ((EsTick ^^ 6) (es2 1 3 2)) 0) \<and> 2 \<in> ready_set (es_k ((EsTick ^^ 7) (es2 1 3 2)))"
proof -
  have w: "es_type (WaitType 2)" "\<not> es_cond (WaitType 2) 3 (EVENTSET_ulEventSets (es_buf (es1 1) 0))"
    by (simp_all add: WaitType_def es_type_def es_cond_eval es_all_def es_match_def es1_ok)
  show ?thesis using eventset_get_times_out[OF es1_ok(1,2,5,4) w, of 7 True] by (simp add: es2_def Let_def)
qed

section \<open>Creating and deleting\<close>

lemma es_handle_unused: "\<lbrakk>es_handle s1 h i; EVENTSET_ucType (es_buf s i) = LW_TYPE_EVENT_UNUSED\<rbrakk> \<Longrightarrow> \<not> es_handle s h j"
  by (auto simp: es_handle_def)

text \<open>
  C32: \<open>API_EventSetCreate\<close> takes the first set of the pool, with the flags it is given and
  nobody waiting, and returns the handle that opens it, or fails with nothing changed when all 500 are in use.
  \<open>API_EventSetDelete\<close> returns the set to the end of the pool, its handle is refused from then
  on, and every thread that waited for it leaves and returns \<open>ERROR_EVENTSET_WAS_DELETED\<close>.
\<close>

theorem eventset_create_delete:
  assumes "es_inv s" "LW_CPU_GET_CUR_NESTING (es_k s) = 0" "\<not> Object_Name_Invalid nm"
    and "es_inv s1" "LW_CPU_GET_CUR_NESTING (es_k s1) = 0" "es_handle s1 h i"
  shows "(let ((id, out), s') = EventSetCreate nm ev opt True s in
      es_inv s' \<and> (case es_free s of
        [] \<Rightarrow> id = 0 \<and> out = None \<and> es_buf s' = es_buf s
      | u # us \<Rightarrow> out = Some id \<and> es_free s' = us \<and> es_handle s' id u \<and> wait_list s' u = [] \<and>
          EVENTSET_ulEventSets (es_buf s' u) = ev \<and> (\<forall>j. j \<noteq> u \<longrightarrow> es_buf s' j = es_buf s j))) \<and>
    (let (r, h', s2) = EventSetDelete h s1 in
      r = ERROR_NONE \<and> h' = 0 \<and> es_inv s2 \<and> es_free s2 = es_free s1 @ [i] \<and> (\<forall>j. \<not> es_handle s2 h j) \<and>
      (\<forall>t. es_pesnPtr s2 t \<longleftrightarrow> es_pesnPtr s1 t \<and> t \<notin> set (wait_list s1 i)) \<and>
      (\<forall>t. tcb_status (es_k s2) t = (if t \<in> set (wait_list s1 i)
         then woken_status LW_THREAD_STATUS_EVENTSET (tcb_status (es_k s1) t) else tcb_status (es_k s1) t)) \<and>
      ready_set (es_k s2) = ready_set (es_k s1) \<union> {t \<in> set (wait_list s1 i). tcb_status (es_k s2) t = 0} \<and>
      (\<forall>t s3. t \<in> set (wait_list s1 i) \<and> LW_TCB_GET_CUR (es_k s3) = t \<and> TCB_iSchedRet (k_tcb (es_k s3) t) = 0 \<and>
         TCB_ucIsEventDelete (k_tcb (es_k s3) t) = TCB_ucIsEventDelete (k_tcb (es_k s2) t) \<and>
         TCB_ucWaitTimeout (k_tcb (es_k s3) t) = TCB_ucWaitTimeout (k_tcb (es_k s2) t) \<longrightarrow>
         fst (EventSetGetEx_wake h w opt' d sv eopt pul s3) = EsDone ERROR_EVENTSET_WAS_DELETED None))"
proof (intro conjI, goal_cases)
  case 1
  have ok: "es_inv (snd (EventSetCreate nm ev opt True s))" by (rule Create_inv[OF assms(1)])
  show ?case
  proof (cases "es_free s")
    case Nil
    then show ?thesis using ok assms(2,3) by (simp add: EventSetCreate_def Allocate_EventSet_Object_def)
  next
    case (Cons u us)
    let ?s = "snd (EventSetCreate nm ev opt True s)"
    have u: "u < LW_CFG_MAX_EVENTSETS" using es_invD(7)[OF assms(1), of u] Cons by simp
    have b: "es_buf ?s = (es_buf s)(u := (es_buf s u)\<lparr>EVENTSET_cEventSetName := event_name nm, EVENTSET_ucType := LW_TYPE_EVENT_EVENTSET,
        EVENTSET_plineWaitList := [], EVENTSET_ulEventSets := ev, EVENTSET_ulOption := opt\<rparr>)"
      "es_free ?s = us" "fst (EventSetCreate nm ev opt True s) =
        (MakeObjectId OBJECT_EVENT_SET LW_CFG_PROCESSOR_NUMBER (of_nat u), Some (MakeObjectId OBJECT_EVENT_SET LW_CFG_PROCESSOR_NUMBER (of_nat u)))"
      using Cons assms(2,3) by (simp_all add: EventSetCreate_def split_beta Let_def Alloc_reads outp_def)
    have "es_handle ?s (MakeObjectId OBJECT_EVENT_SET LW_CFG_PROCESSOR_NUMBER (of_nat u)) u" by (rule es_handle_Make[OF u]) (simp add: b)
    then show ?thesis using ok b Cons by (cases "EventSetCreate nm ev opt True s") auto
  qed
next
  case 2
  define e where "e = esk_upd KERNEL_ENTER s1"
  define l where "l = EventSetDelete_loop (wait_list e i) e"
  define f where "f = Free_EventSet_Object i (es_upd i (\<lambda>es. es\<lparr>EVENTSET_ucType := LW_TYPE_EVENT_UNUSED, EVENTSET_plineWaitList := []\<rparr>) l)"
  have ie: "es_inv e" and we: "wait_list e i = wait_list s1 i" unfolding e_def using assms(4) by auto
  have w: "woke (set (wait_list s1 i)) LW_EVENT_DELETE (\<lambda>_. 0) e l" unfolding l_def we
    by (rule Delete_loop_woke[OF ie]) (use es_invD(2,3)[OF assms(4)] in \<open>auto simp: e_def\<close>)
  note W = wokeD[OF w]
  have s2: "EventSetDelete h s1 = (ERROR_NONE, 0, esk_upd KERNEL_EXIT f)" using assms(5)
    by (simp add: EventSetDelete_def EventSetOpen_handle[OF assms(6)] e_def[symmetric] l_def[symmetric] f_def Let_def)
  have ok: "es_inv (esk_upd KERNEL_EXIT f)" using Delete_inv[OF assms(4), of h] by (simp add: s2)
  have kf: "es_k f = es_k l" "es_pesnPtr f = es_pesnPtr l" "es_free f = es_free l @ [i]" "EVENTSET_ucType (es_buf f i) = LW_TYPE_EVENT_UNUSED"
    by (simp_all add: f_def Free_EventSet_Object_def)
  note x = kernel_exit_reads[OF es_invD(1)[OF W(1)]]
  have rs: "ready_set (es_k l) = ready_set (es_k s1) \<union> {t \<in> set (wait_list s1 i). tcb_status (es_k l) t = 0}"
    using W(17) kernel_exit_reads(6)[OF es_invD(1)[OF assms(4)]] by (simp add: e_def)
  have st: "tcb_status (es_k l) t = (if t \<in> set (wait_list s1 i)
         then woken_status LW_THREAD_STATUS_EVENTSET (tcb_status (es_k s1) t) else tcb_status (es_k s1) t)" for t
    using W(12,16)[of t] kernel_exit_reads(5)[OF es_invD(1)[OF assms(4)]] by (simp add: e_def)
  have nh: "\<not> es_handle (esk_upd KERNEL_EXIT f) h j" for j by (rule es_handle_unused[OF assms(6)]) (simp add: kf)
  have ret: "fst (EventSetGetEx_wake h w opt' d sv eopt pul s3) = EsDone ERROR_EVENTSET_WAS_DELETED None"
    if "t \<in> set (wait_list s1 i)" "LW_TCB_GET_CUR (es_k s3) = t" "TCB_iSchedRet (k_tcb (es_k s3) t) = 0"
       "TCB_ucIsEventDelete (k_tcb (es_k s3) t) = TCB_ucIsEventDelete (k_tcb (es_k l) t)"
       "TCB_ucWaitTimeout (k_tcb (es_k s3) t) = TCB_ucWaitTimeout (k_tcb (es_k l) t)" for t s3
    using that W(14,15)[OF that(1)] by (simp add: EventSetGetEx_wake_def Schedule_ret_def Let_def)
  show ?case unfolding s2 Let_def prod.case
  proof (intro conjI allI impI)
    show "es_pesnPtr (esk_upd KERNEL_EXIT f) t \<longleftrightarrow> es_pesnPtr s1 t \<and> t \<notin> set (wait_list s1 i)" for t
      using W(4)[of t] by (simp add: kf e_def)
    show "ready_set (es_k (esk_upd KERNEL_EXIT f)) = ready_set (es_k s1) \<union> {t \<in> set (wait_list s1 i). tcb_status (es_k (esk_upd KERNEL_EXIT f)) t = 0}"
      using rs x by (simp add: kf)
    show "es_free (esk_upd KERNEL_EXIT f) = es_free s1 @ [i]" using W(6) by (simp add: kf e_def)
  qed (use ok nh ret in \<open>auto simp: kf x st\<close>)
qed

theorem eventset_create_delete_witness:
  "let s = es2 1 3 2; (r, h, s') = EventSetDelete es_id s in
     snd (fst (EventSetCreate None 5 0 True s)) = Some (fst (fst (EventSetCreate None 5 0 True s))) \<and>
     r = ERROR_NONE \<and> \<not> es_handle s' es_id 0 \<and> \<not> es_pesnPtr s' 2 \<and> es_free s' = 1 # [2..<LW_CFG_MAX_EVENTSETS] @ [0] \<and>
     2 \<in> ready_set (es_k s')"
proof -
  have w: "es_type (WaitType 2)" "\<not> es_cond (WaitType 2) 3 1" by (simp_all add: WaitType_def es_type_def es_cond_eval es_all_def es_match_def)
  note o = es2_ok[OF w]
  have n: "\<not> Object_Name_Invalid None" by (simp add: Object_Name_Invalid_def)
  have p: "es_pesnPtr (es2 1 3 2) 2" using es_invD(3)[OF o(1), of 2 0] o(3) by simp
  show ?thesis using eventset_create_delete[OF o(1,6) n o(1,6,2), where ev = 5 and opt = 0] o(3,7,9)
    by (auto simp: split_beta Let_def woken_status_def)
qed

section \<open>Where a wait misses its condition\<close>

text \<open>
  C33: A reset does not look at the wait list.  A thread \<open>u\<close> that waits until bits are clear stays
  blocked when \<open>API_EventSetTryGetEx\<close> with \<open>LW_OPTION_EVENTSET_RESET\<close> clears these bits, although its condition then
  holds; \<open>API_EventSetSet\<close> that clears the same bits wakes it.
\<close>

theorem eventset_reset_misses_waiter:
  assumes "es_inv s" "es_handle s h i" "u \<in> set (wait_list s i)"
    and "EVENTSETNODE_ucWaitType (es_node s u) = EVENTSET_WAIT_CLR_ALL" "EVENTSETNODE_ulEventSets (es_node s u) = ev"
    and "es_cond EVENTSET_WAIT_SET_ALL ev (EVENTSET_ulEventSets (es_buf s i))"
  shows "(let (r, s') = EventSetTryGetEx h ev (EVENTSET_RESET OR 2) pul s in
      fst r = ERROR_NONE \<and> u \<in> set (wait_list s' i) \<and> u \<notin> ready_set (es_k s') \<and>
      es_hit (EVENTSET_ulEventSets (es_buf s' i)) s' u) \<and>
    (let (r, s') = EventSetSet h ev EVENTSET_CLR s in r = ERROR_NONE \<and> u \<notin> set (wait_list s' i) \<and> es_tcbEventSets s' u = ev)"
proof -
  let ?opt = "EVENTSET_RESET OR 2 :: ULONG" and ?fl = "EVENTSET_ulEventSets (es_buf s i)"
  have o: "WaitType ?opt = 2" "?opt AND EVENTSET_RESET \<noteq> 0" "?opt AND EVENTSET_RETURN_ALL = 0" by (simp_all add: WaitType_def)
  have ty: "es_type 2" "es_type 0" by (simp_all add: es_type_def)
  define s' where "s' = snd (EventSetTryGetEx h ev ?opt pul s)"
  have e: "EventSetTryGetEx h ev ?opt pul s = ((ERROR_NONE, outp pul (es_match 2 ev ?fl)), s')" "es_k s' = KERNEL_EXIT (KERNEL_ENTER (es_k s))"
    "es_node s' = es_node s" "wait_list s' i = wait_list s i" "EVENTSET_ulEventSets (es_buf s' i) = ?fl AND NOT (es_match 2 ev ?fl)"
    using assms(6) o by (simp_all add: s'_def EventSetTryGetEx_def EventSetOpen_handle[OF assms(2)] EventSetTest_spec ty Take_eq
      EventSetSaveRet_def EventSetReset_def)
  have ok: "es_inv s'" unfolding s'_def by (rule TryGet_inv[OF assms(1)])
  have hit: "es_hit (?fl AND NOT (es_match 2 ev ?fl)) s' u" "es_hit (?fl AND NOT ev) s u"
    using assms(4,5) by (auto simp: es_hit_def e es_cond_def es_all_def es_bit_def es_match_def all32 bit_simps)
  have p: "es_pesnPtr s u" using assms(3) es_invD(3)[OF assms(1)] by blast
  have nr: "u \<notin> ready_set (es_k s')"
    using es_invD(4)[OF assms(1), of u] p kernel_exit_reads(1)[of "KERNEL_ENTER (es_k s)"] kernel_exit_reads(5)[OF es_invD(1)[OF assms(1)]]
      es_invD(1)[OF assms(1)]
    by (auto simp: e(2) ready_set_def LW_THREAD_IS_READY_def)
  have g: "es_gets (?fl AND NOT ev) s u = ev" using assms(4,5) by (simp add: es_gets_def es_match_def and.left_commute bit.conj_disj_distrib)
  have "let (r, s') = EventSetSet h ev EVENTSET_CLR s in r = ERROR_NONE \<and> u \<notin> set (wait_list s' i) \<and> es_tcbEventSets s' u = ev"
    using EventSetSet_ok[OF assms(1,2), where opt = EVENTSET_CLR and ev = ev] hit(2) g assms(3) by (auto simp: split_beta)
  then show ?thesis using e hit(1) nr assms(3) by simp
qed

theorem eventset_reset_misses_waiter_witness:
  "let s' = snd (EventSetTryGetEx es_id 1 0x82 True (es2 1 1 0)) in
     2 \<in> set (wait_list s' 0) \<and> 2 \<notin> ready_set (es_k s') \<and> es_hit (EVENTSET_ulEventSets (es_buf s' 0)) s' 2"
proof -
  have w: "es_type (WaitType 0)" "\<not> es_cond (WaitType 0) 1 1" by (simp_all add: WaitType_def es_type_def es_cond_eval es_all_def es_match_def)
  note o = es2_ok[OF w]
  have "2 \<in> set (wait_list (es2 1 1 0) 0)" "EVENTSETNODE_ucWaitType (es_node (es2 1 1 0) 2) = EVENTSET_WAIT_CLR_ALL"
    "EVENTSETNODE_ulEventSets (es_node (es2 1 1 0) 2) = 1" "es_cond EVENTSET_WAIT_SET_ALL 1 (EVENTSET_ulEventSets (es_buf (es2 1 1 0) 0))"
    by (simp_all add: o WaitType_def es_cond_eval es_all_def es_match_def)
  from eventset_reset_misses_waiter[OF o(1,2) this] show ?thesis by (simp add: split_beta Let_def)
qed

text \<open>\<open>API_EventSetTryGetEx\<close> may be called from an ISR, where the current thread is the one that was
  interrupted: if this thread has been woken by another set but has not yet read
  \<open>TCB_ulEventSets\<close>, it returns the bits the ISR took instead of its own.\<close>

lemma eventset_isr_tryget_clobbers:
  assumes "es_handle s h i" "es_type (WaitType opt)" "es_cond (WaitType opt) ev (EVENTSET_ulEventSets (es_buf s i))"
    and "LW_TCB_GET_CUR (es_k s) = t" "LW_TCB_GET_CUR (es_k s3) = t" "TCB_iSchedRet (k_tcb (es_k s3) t) = 0"
    and "TCB_ucWaitTimeout (k_tcb (es_k s3) t) = LW_WAIT_TIME_CLEAR" "TCB_ucIsEventDelete (k_tcb (es_k s3) t) = LW_EVENT_EXIST"
    and "es_tcbEventSets s3 = es_tcbEventSets (snd (EventSetTryGetEx h ev opt pul s))" "opt' AND EVENTSET_RETURN_ALL = 0"
  shows "fst (EventSetGetEx_wake h' ev' opt' d sv eopt True s3) =
    EsDone ERROR_NONE (Some (es_match (WaitType opt) ev (EVENTSET_ulEventSets (es_buf s i))))"
  using assms(2-)
  by (simp add: EventSetTryGetEx_def EventSetOpen_handle[OF assms(1)] EventSetTest_spec Take_eq
      EventSetGetEx_wake_def Schedule_ret_def EventSetSaveRet_def outp_def Let_def)

end
