(* ===== verification/Spec2Isabelle.thy ===== *)
theory Spec2Isabelle
  imports Structure_Runs Kernel_Safety Sem_Props Lock_Props Compose_Props Msg_Props Loop_Props Type_Props Job_Props Timer_Props Event_Set_Props
begin

text \<open>
  Verification of the kernel core of SylixOS
  (src/sylixos_base/libsylixos/SylixOS; paths below are relative to it).

  \<^bold>\<open>The program.\<close>  SylixOS is a preemptive real-time kernel for symmetric
  multiprocessors.  A thread is a control block (TCB).  A thread that may run is either the
  candidate of a CPU or stands in a ring of a ready table; a ready table is one ring per
  priority with a bitmap that finds the most urgent priority.  A thread that waits stands
  in a ring of an event block, and, when the wait has a time-out, also in the delay line,
  a linear list of differences served by the clock tick.  Event blocks are the common core
  of counting and binary semaphores, mutexes and reader-writer semaphores; a
  handle packs the class, the node and the index of the block.  Every routine of the
  interface checks its handle, takes the kernel lock (\<open>__KERNEL_ENTER\<close>), works on the
  event and the scheduler's tables, and leaves the lock with \<open>__KERNEL_EXIT\<close>, which
  schedules.

  \<^bold>\<open>The configuration\<close> is the one of the repository's ARM920T board support:
  \<open>ULONG\<close>, pointers and \<open>size_t\<close> have 32 bits, \<open>LW_CFG_SMP_EN\<close> 1, \<open>LW_CFG_CPU_ATOMIC_EN\<close> as the
  headers say, \<open>LW_CFG_MAX_EVENTS\<close> 3000, \<open>LW_CFG_MAX_THREADS\<close> 500, object names of at most 31
  characters, argument checks on.

  \<^bold>\<open>Theories.\<close>
  \<^item> Prelude: machine types, collections of theorems, generic facts.
  \<^item> List_Link, Line_Link (list/listLink.c, inlines of the headers): circular lists, linear
    lists and free lists in a heap of links, and what they do to the list they represent.
  \<^item> Bitmap (core/_BitmapLib.c, arch find-bit routines): the two-level bitmap of 256
    priorities and \<open>archFindLsb\<close>.
  \<^item> Wakeup_Line (core/_WakeupLine.c): the delta queue, with the due time of every sleeper.
  \<^item> Kernel_State: the records of k_class.h and k_cpu.h, handles and \<open>_ErrorHandle\<close>, the pool
    of event blocks (list/listEvent.c, core/_EventInit.c).
  \<^item> Cand_Table, Ready_Frame, Ready_Inv, Scheduler (core/_CandTable.c, _ReadyTableLib.c,
    _ReadyRing.c, _SchedCand.c, _Sched.c): ready tables, candidates, scheduling, priorities.
  \<^item> Event_Queue, Event_Inv, Tick_Inv, Wait_Order (core/_EventQueue.c, _EventHighLevel.c,
    _TimeTick.c): queues of events, blocking, waking, time-outs, and the order of service.
  \<^item> Event_Api: the steps the interface routines share; Sem_Count, Sem_Binary, Sem_Mutex,
    Sem_Rw, Sem_Api (interface/Semaphore*.c): the routines, each group with an abstract
    object (a bounded counter, a cell, a lock, a reader-writer lock) and the lemmas that the
    routines implement its operations.
  \<^item> Boot: a concrete running system for the witnesses.
  \<^item> Api_Inv, Kernel_Runs: every routine keeps the invariant; the runs of the kernel.
  \<^item> Msg_Queue (core/_MsgQueueLib.c, _MsgQueueInit.c, list/listMsgQueue.c), Msg_Api
    (interface/MsgQueue*.c): message queues.  Msg_Refine: the abstract mailbox and what the
    routines do to it; Msg_Frame, Msg_Steps: the kernel steps leave message queues alone;
    Msg_Runs: runs of kernel and message queues with their invariant.
  \<^item> Job_Queue (core/_JobQueue.c): job queues.  Job_Ring: the ring buffer of a job queue is a
    bounded list (the locale \<open>fifo_buffer\<close>).
  \<^item> Timer (core/_TimerInit.c, _ITimerThread.c, list/listTimer.c, interface/Timer*.c): software
    timers.  Timer_Line: the delta queue in a pass that callbacks interrupt; Timer_Runs: what
    each call does to the two lines, runs of calls, ticks and turns, and their invariant.
  \<^item> Event_Set (list/listEventSet.c, core/_EventSet*.c, interface/EventSet*.c, and the part of
    core/_TimeTick.c that takes out their nodes): event sets.  Event_Set_Inv: what blocking,
    waking and the tick do to kernel and wait lists; Event_Set_Runs: the two loops over a wait
    list, every routine keeps the invariant, and the runs of routines, ticks and scheduler.
  \<^item> Structure_Runs, Kernel_Safety, Sem_Props, Lock_Props, Compose_Props, Msg_Props, Loop_Props,
    Type_Props, Job_Props, Timer_Props, Event_Set_Props: the properties.

  \<^bold>\<open>How state corresponds.\<close>  A control block is a record with the fields of the C structure
  that the modelled code uses, under their C names; a pointer to a block is its index in the
  buffer and \<open>LW_NULL\<close> is \<open>None\<close>.  A ring is the list of its members from the header on; that
  the routines on linked nodes act like the operations on lists used above is the
  content of List_Link, Line_Link and of the properties of Structure_Runs.  The node memory of
  a message queue is numbered by place, and the buffers of the threads are an explicit store
  (\<open>m_buf\<close>, \<open>m_len\<close>) that steps of a run may change at any time.  A loop that
  drains a queue runs with the number of waiters as fuel, the pass of the tick with the
  length of the delay line, the byte-wise search for a bit over its four bytes; the lemmas
  on the drained queues show that nothing is left when the fuel is used up, and Loop_Props
  that the loops as the source writes them end in the same state.  The loop of a job queue's
  worker is a \<open>partial_function\<close> over the functions of the jobs, which are its parameter.

  \<^bold>\<open>Steps and interleaving.\<close>  The code between two scheduling points of a routine is one
  step: it holds the kernel lock, so no other thread sees it half done.  A blocking routine
  is therefore two definitions: up to \<open>__KERNEL_EXIT\<close>, and from there on (\<open>_wake\<close>), run when
  the thread is resumed; its local variables are the arguments of \<open>Blocked\<close>.  Error codes
  stored after \<open>__KERNEL_EXIT\<close> go to the calling thread: \<open>ErrorHandle_of\<close> takes the context of
  the call.  Kernel_Runs is the transition system whose steps are the routines, the tick and
  the scheduler, in any order, with any arguments; its mutexes and reader-writer semaphores
  are created without \<open>LW_OPTION_DELETE_SAFE\<close>, and fewer than $2^{32}$ nested readers are
  assumed because the source does not check that counter.  Msg_Runs adds the message queue
  calls, restricted to sizes whose product does not wrap (the property on creation shows
  what happens beyond) and to senders that own the bytes they send; the heap is a parameter
  that says whether a request is granted.

  \<^bold>\<open>What the properties show.\<close>  The linked structures refine lists and queues; every thread
  is in exactly the place its state names; sleepers keep their due times; semaphores stay
  within their bounds; a mutex has one owner; writers exclude everybody; each routine of the
  semaphores refines an operation of its abstract object on every branch; a time-out comes
  after exactly the ticks asked for.  A message queue is a stable priority queue of bounded
  size whose counter, store and waiters agree in every reachable state.  A job queue is a
  bounded list whatever the interleaving of its users, and its worker is woken for every job.
  A timer fires at the tick at which it is due when its service charges one tick at a time;
  two properties show where the code departs from that (a reset of a timer with a first
  interval of its own, and a service rate above one tick).
  Setting flags of an event set wakes exactly the threads whose condition, stated bit by bit,
  then holds; no waiting thread is lost, and one property shows a wait that misses its
  condition.
  A handle that does not fit is refused without effect, and every loop ends.

  \<^bold>\<open>Not modelled.\<close>  Hooks, monitor and debug output; taking CPUs down, requests between CPUs
  to change the state of a running thread, interrupts inside the window of a routine,
  spin locks as data; delivery of signals (its effect on a waiting thread, \<open>TCB_iSchedRet\<close>, is
  a state the waking code reads); deletion of a thread at the end of a safe section is
  recorded (\<open>k_deleteCalls\<close>).  Thread creation, the I/O system, file systems, network,
  loader, shell and the vendored packages are outside the model.
\<close>

end
